(* ===== verification/Prelude.thy ===== *)
theory Prelude
  imports Main "HOL-Library.Word"
begin

text \<open>
  Shared vocabulary of the development: machine types, failures as values, byte strings,
  fixed-width integer encodings (\<open>to_le_bytes\<close>, \<open>to_be_bytes\<close> and their inverses), the
  unpadded big-endian form that \<open>BigUint\<close> uses, and the generic list facts that the
  component theories share.

  Rust's \<open>u8\<close>, \<open>u16\<close>, \<open>u32\<close> and \<open>u64\<close> are words of their width, \<open>usize\<close> is \<open>nat\<close>.
  A Rust \<open>String\<close> is a \<open>string\<close> whose characters are the bytes of its UTF-8 form, so
  \<open>length\<close> is Rust's \<open>len()\<close>.
\<close>

unbundle bit_operations_syntax

type_synonym byte = "8 word"
type_synonym bytes = "byte list"
type_synonym u16 = "16 word"
type_synonym u32 = "32 word"
type_synonym u64 = "64 word"

named_theorems codec_simps "round trips and lengths of the byte-level encodings"

subsection \<open>Failures as values\<close>

text \<open>
  \<open>error.rs\<close>: the protocol layer's error type. A Rust panic (index out of range, slice out
  of range, \<open>expect\<close> on \<open>None\<close>) is not an \<open>Error\<close>: no caller can match on it. A result
  is therefore a \<open>fault\<close>, either an error value or a panic.
\<close>

datatype error =
    Transport string
  | HttpStatus u16 bytes
  | Protocol string
  | Crypto string

datatype fault = Err error | Panic

type_synonym 'a res = "fault + 'a"

text \<open>Rust's \<open>?\<close> operator.\<close>

definition rbind :: "'e + 'a \<Rightarrow> ('a \<Rightarrow> 'e + 'b) \<Rightarrow> 'e + 'b" where
  "rbind r f = (case r of Inl e \<Rightarrow> Inl e | Inr x \<Rightarrow> f x)"

lemma rbind_simps [simp]: "rbind (Inl e) f = Inl e" "rbind (Inr x) f = f x"
  by (simp_all add: rbind_def)

lemma rbind_Inr_iff: "rbind r f = Inr y \<longleftrightarrow> (\<exists>x. r = Inr x \<and> f x = Inr y)"
  by (cases r) auto

lemma rbind_Inl_iff:
  "rbind r f = Inl e \<longleftrightarrow> r = Inl e \<or> (\<exists>x. r = Inr x \<and> f x = Inl e)"
  by (cases r) auto

text \<open>\<open>Option::ok_or_else\<close>.\<close>

definition ok_or :: "fault \<Rightarrow> 'a option \<Rightarrow> 'a res" where
  "ok_or e x = (case x of None \<Rightarrow> Inl e | Some v \<Rightarrow> Inr v)"

lemma ok_or_simps [simp]: "ok_or e None = Inl e" "ok_or e (Some v) = Inr v"
  by (simp_all add: ok_or_def)

lemma ok_or_Inr_iff: "ok_or e x = Inr v \<longleftrightarrow> x = Some v"
  by (cases x) auto

lemmas res_iffs = rbind_Inr_iff rbind_Inl_iff ok_or_Inr_iff

definition protocol :: "string \<Rightarrow> fault" where
  "protocol m = Err (Protocol m)"

subsection \<open>Byte strings\<close>

definition s2b :: "string \<Rightarrow> bytes" where
  "s2b s = map of_char s"

lemma length_s2b [simp]: "length (s2b s) = length s"
  by (simp add: s2b_def)

lemma s2b_append [simp]: "s2b (s @ t) = s2b s @ s2b t"
  by (simp add: s2b_def)

lemma s2b_Nil [simp]: "s2b [] = []"
  by (simp add: s2b_def)

lemma s2b_eq_Nil_iff [simp]: "s2b s = [] \<longleftrightarrow> s = []"
  by (simp add: s2b_def)

lemma unat_of_char [simp]: "unat (of_char c :: byte) = of_char c"
proof -
  have "(of_char c :: byte) = word_of_nat (of_char c)" by (simp only: of_nat_of_char)
  then have "unat (of_char c :: byte) = of_char c mod 256" by (simp only: unat_of_nat) simp
  then show ?thesis by simp
qed

lemma s2b_inj [simp]: "s2b s = s2b t \<longleftrightarrow> s = t"
proof -
  have "inj (of_char :: char \<Rightarrow> byte)"
    by (rule injI) (metis unat_of_char of_char_eq_iff)
  then show ?thesis by (simp add: s2b_def inj_map_eq_map)
qed

definition xor_bytes :: "bytes \<Rightarrow> bytes \<Rightarrow> bytes" where
  "xor_bytes xs ys = map2 (XOR) xs ys"

lemma length_xor_bytes [simp]: "length (xor_bytes xs ys) = min (length xs) (length ys)"
  by (simp add: xor_bytes_def)

lemma nth_xor_bytes [simp]:
  "i < length xs \<Longrightarrow> i < length ys \<Longrightarrow> xor_bytes xs ys ! i = xs ! i XOR ys ! i"
  by (simp add: xor_bytes_def)

lemma xor_word_cancel [simp]:
  fixes x k :: "'a::len word"
  shows "(x XOR k) XOR k = x" "k XOR (k XOR x) = x" "(k XOR x) XOR k = x"
  by (simp_all add: bit_eq_iff bit_xor_iff, blast+)

lemma xor_bytes_cancel [simp]:
  "length xs = length ks \<Longrightarrow> xor_bytes (xor_bytes xs ks) ks = xs"
  by (intro nth_equalityI) simp_all

lemma xor_bytes_zero_left [simp]:
  "xor_bytes (replicate n 0) ks = take n ks"
  by (intro nth_equalityI) simp_all

lemma xor_bytes_append:
  "length xs = length ks \<Longrightarrow> xor_bytes (xs @ ys) (ks @ ls) = xor_bytes xs ks @ xor_bytes ys ls"
  by (simp add: xor_bytes_def)

lemma xor_bytes_Nil [simp]: "xor_bytes [] ks = []" "xor_bytes xs [] = []"
  by (simp_all add: xor_bytes_def)

subsection \<open>Fixed-width integer encodings\<close>

text \<open>
  \<open>to_le n x\<close> is the \<open>n\<close>-byte little-endian form of \<open>x mod 256 ^ n\<close>, so that
  \<open>(x as u32).to_le_bytes()\<close> is \<open>to_le 4 x\<close> with the truncation of the cast included.
\<close>

fun to_le :: "nat \<Rightarrow> nat \<Rightarrow> bytes" where
  "to_le 0 x = []"
| "to_le (Suc n) x = word_of_nat x # to_le n (x div 256)"

definition to_be :: "nat \<Rightarrow> nat \<Rightarrow> bytes" where
  "to_be n x = rev (to_le n x)"

fun of_le :: "bytes \<Rightarrow> nat" where
  "of_le [] = 0"
| "of_le (b # bs) = unat b + 256 * of_le bs"

definition of_be :: "bytes \<Rightarrow> nat" where
  "of_be bs = of_le (rev bs)"

lemma to_le_numeral [simp]:
  "to_le (numeral k) x = word_of_nat x # to_le (pred_numeral k) (x div 256)"
  by (subst numeral_eq_Suc) (rule to_le.simps)

lemma length_to_le [simp, codec_simps]: "length (to_le n x) = n"
  by (induction n arbitrary: x) simp_all

lemma length_to_be [simp, codec_simps]: "length (to_be n x) = n"
  by (simp add: to_be_def)

lemma unat_byte_of_nat: "unat (word_of_nat x :: byte) = x mod 256"
  by (simp add: unat_of_nat)

lemma unat_byte_less [simp]: "unat (b :: byte) < 256"
  using unsigned_less [of b] by simp

lemma of_le_to_le [codec_simps]: "of_le (to_le n x) = x mod 256 ^ n"
proof (induction n arbitrary: x)
  case 0
  then show ?case by simp
next
  case (Suc n)
  have "x mod 256 ^ Suc n = x mod 256 + 256 * (x div 256 mod 256 ^ n)"
    using mod_mult2_eq [of x 256 "256 ^ n"] by simp
  with Suc show ?case by (simp add: unat_byte_of_nat)
qed

lemma of_be_to_be [codec_simps]: "of_be (to_be n x) = x mod 256 ^ n"
  by (simp add: to_be_def of_be_def of_le_to_le)

lemma of_le_less: "of_le bs < 256 ^ length bs"
proof (induction bs)
  case Nil
  then show ?case by simp
next
  case (Cons b bs)
  have "unat b + 256 * of_le bs < 256 + 256 * of_le bs" by simp
  also have "\<dots> = 256 * Suc (of_le bs)" by simp
  also have "\<dots> \<le> 256 * 256 ^ length bs" using Cons by (intro mult_le_mono2) simp
  finally show ?case by simp
qed

lemma of_be_less: "of_be bs < 256 ^ length bs"
  using of_le_less [of "rev bs"] by (simp add: of_be_def)

lemma to_le_of_le [codec_simps]: "to_le (length bs) (of_le bs) = bs"
proof (induction bs)
  case Nil
  then show ?case by simp
next
  case (Cons b bs)
  have "(unat b + 256 * of_le bs) div 256 = of_le bs" by simp
  moreover have "(word_of_nat (unat b + 256 * of_le bs) :: byte) = b"
    by (rule word_unat_eq_iff [THEN iffD2]) (simp only: unat_byte_of_nat, simp)
  ultimately show ?case using Cons by simp
qed

lemma to_be_of_be [codec_simps]: "length bs = n \<Longrightarrow> to_be n (of_be bs) = bs"
  using to_le_of_le [of "rev bs"] by (simp add: to_be_def of_be_def)

lemma to_le_inj: "to_le n x = to_le n y \<Longrightarrow> x < 256 ^ n \<Longrightarrow> y < 256 ^ n \<Longrightarrow> x = y"
  by (metis of_le_to_le mod_less)

lemma of_le_append: "of_le (xs @ ys) = of_le xs + 256 ^ length xs * of_le ys"
  by (induction xs) (simp_all add: algebra_simps)

lemma of_le_replicate_zero [simp]: "of_le (replicate n 0) = 0"
  by (induction n) simp_all

lemma of_be_append: "of_be (xs @ ys) = of_be xs * 256 ^ length ys + of_be ys"
  by (simp add: of_be_def of_le_append)

lemma of_be_pad [simp]: "of_be (replicate n 0 @ bs) = of_be bs"
  by (simp add: of_be_def of_le_append)

subsection \<open>Unpadded big-endian numbers\<close>

text \<open>
  \<open>BigUint::to_bytes_be\<close>: the shortest big-endian form, with one zero byte for zero.
\<close>

function le_digits :: "nat \<Rightarrow> bytes" where
  "le_digits x = (if x = 0 then [] else word_of_nat x # le_digits (x div 256))"
  by pat_completeness auto
termination
  by (relation "measure (\<lambda>x. x)") auto

declare le_digits.simps [simp del]

definition nat_be :: "nat \<Rightarrow> bytes" where
  "nat_be x = (if x = 0 then [0] else rev (le_digits x))"

lemma of_le_le_digits [simp]: "of_le (le_digits x) = x"
proof (induction x rule: le_digits.induct)
  case (1 x)
  then show ?case
    by (cases "x = 0") (simp_all add: le_digits.simps [of x] le_digits.simps [of 0] unat_byte_of_nat)
qed

lemma of_be_nat_be [simp, codec_simps]: "of_be (nat_be x) = x"
  by (simp add: nat_be_def of_be_def)

lemma length_le_digits_le: "x < 256 ^ n \<Longrightarrow> length (le_digits x) \<le> n"
proof (induction n arbitrary: x)
  case 0
  then show ?case by (simp add: le_digits.simps)
next
  case (Suc n)
  then have "x div 256 < 256 ^ n" by (simp add: less_mult_imp_div_less mult.commute)
  with Suc.IH have "length (le_digits (x div 256)) \<le> n" by blast
  then show ?case by (simp add: le_digits.simps [of x])
qed

lemma length_nat_be_le: "x < 256 ^ n \<Longrightarrow> 0 < n \<Longrightarrow> length (nat_be x) \<le> n"
  using length_le_digits_le [of x n] by (simp add: nat_be_def)

lemma nat_be_not_Nil [simp]: "nat_be x \<noteq> []"
  by (simp add: nat_be_def le_digits.simps [of x])

subsection \<open>Lists\<close>

lemma take_append_exact [simp]: "length xs = n \<Longrightarrow> take n (xs @ ys) = xs"
  by simp

lemma drop_append_exact [simp]: "length xs = n \<Longrightarrow> drop n (xs @ ys) = ys"
  by simp

lemma take_drop_nth_eqI:
  assumes "i + n \<le> length xs" "length ys = n" "\<And>j. j < n \<Longrightarrow> xs ! (i + j) = ys ! j"
  shows "take n (drop i xs) = ys"
  using assms by (intro nth_equalityI) auto

lemma all_upt_Suc:
  "(\<forall>i<Suc n. P i) \<longleftrightarrow> P n \<and> (\<forall>i<n. P i)"
  by (auto simp: less_Suc_eq)

text \<open>\<open>dst[at..at + src.len()].copy_from_slice(src)\<close> on a buffer long enough.\<close>

definition splice :: "nat \<Rightarrow> 'a list \<Rightarrow> 'a list \<Rightarrow> 'a list" where
  "splice at src dst = take at dst @ src @ drop (at + length src) dst"

lemma length_splice [simp]:
  "at + length src \<le> length dst \<Longrightarrow> length (splice at src dst) = length dst"
  by (simp add: splice_def)

subsection \<open>Decimal numbers\<close>

text \<open>\<open>format!("{n}")\<close> of an unsigned integer, and the value of a digit string.\<close>

fun dec :: "nat \<Rightarrow> string" where
  "dec n = (if n < 10 then [char_of (48 + n)] else dec (n div 10) @ [char_of (48 + n mod 10)])"

declare dec.simps [simp del]

definition undec :: "string \<Rightarrow> nat" where
  "undec s = foldl (\<lambda>v c. 10 * v + (of_char c - 48)) 0 s"

lemma undec_snoc: "undec (s @ [c]) = 10 * undec s + (of_char c - 48)"
  by (simp add: undec_def)

lemma undec_dec [simp]: "undec (dec n) = n"
proof (induction n rule: dec.induct)
  case (1 n)
  show ?case
  proof (cases "n < 10")
    case True
    then show ?thesis by (simp add: dec.simps [of n] undec_def)
  next
    case False
    with 1 have "undec (dec (n div 10)) = n div 10" by simp
    with False show ?thesis by (simp add: dec.simps [of n] undec_snoc)
  qed
qed

lemma dec_inj: "dec m = dec n \<longleftrightarrow> m = n"
  by (metis undec_dec)

lemma dec_not_Nil [simp]: "dec n \<noteq> []"
  by (simp add: dec.simps [of n])

subsection \<open>Loops whose body may fail\<close>

text \<open>A loop over a range that changes a state, and one that collects results.\<close>

primrec for_each :: "('a \<Rightarrow> 's \<Rightarrow> 's res) \<Rightarrow> 'a list \<Rightarrow> 's \<Rightarrow> 's res" where
  "for_each f [] s = Inr s"
| "for_each f (x # xs) s = rbind (f x s) (for_each f xs)"

primrec map_res :: "('a \<Rightarrow> 'e + 'b) \<Rightarrow> 'a list \<Rightarrow> 'e + 'b list" where
  "map_res f [] = Inr []"
| "map_res f (x # xs) = rbind (f x) (\<lambda>y. rbind (map_res f xs) (\<lambda>ys. Inr (y # ys)))"

lemma map_res_Inr: "(\<And>x. x \<in> set xs \<Longrightarrow> f x = Inr (g x)) \<Longrightarrow> map_res f xs = Inr (map g xs)"
  by (induction xs) simp_all

lemma for_each_upt:
  assumes "P 0 s0" "\<And>k s. k < n \<Longrightarrow> P k s \<Longrightarrow> \<exists>s'. f k s = Inr s' \<and> P (Suc k) s'"
  shows "\<exists>s. for_each f [0..<n] s0 = Inr s \<and> P n s"
proof -
  have "\<exists>s. for_each f [k..<n] s0 = Inr s \<and> P n s" if "P k s0" "k \<le> n" for k s0
    using that
  proof (induction "n - k" arbitrary: k s0)
    case 0
    then show ?case by simp
  next
    case (Suc d)
    then have k: "k < n" by simp
    from assms(2) [OF k Suc.prems(1)] obtain s' where s': "f k s0 = Inr s'" "P (Suc k) s'" by blast
    with Suc.hyps(1) [of "Suc k" s'] Suc.hyps(2) k show ?case by (simp add: upt_conv_Cons)
  qed
  from this [OF assms(1)] show ?thesis by simp
qed

subsection \<open>Copying rows\<close>

text \<open>
  Copying the first \<open>row_len\<close> bytes of each of \<open>rows\<close> rows of \<open>pitch\<close> bytes to
  consecutive places, with the bounds checks of the two slices.
\<close>

definition copy_row :: "bytes \<Rightarrow> nat \<Rightarrow> nat \<Rightarrow> nat \<Rightarrow> bytes \<Rightarrow> bytes res" where
  "copy_row src pitch row_len y dst =
    (if length src < y * pitch + row_len then Inl Panic
     else if length dst < (y + 1) * row_len then Inl Panic
     else Inr (splice (y * row_len) (take row_len (drop (y * pitch) src)) dst))"

definition copy_rows :: "bytes \<Rightarrow> nat \<Rightarrow> nat \<Rightarrow> nat \<Rightarrow> bytes \<Rightarrow> bytes res" where
  "copy_rows src pitch row_len rows dst = for_each (copy_row src pitch row_len) [0..<rows] dst"

definition packed_rows :: "bytes \<Rightarrow> nat \<Rightarrow> nat \<Rightarrow> nat \<Rightarrow> bytes" where
  "packed_rows src pitch row_len rows = concat (map (\<lambda>y. take row_len (drop (y * pitch) src)) [0..<rows])"

lemma length_packed_rows:
  "\<forall>y < rows. y * pitch + row_len \<le> length src \<Longrightarrow> length (packed_rows src pitch row_len rows) = rows * row_len"
proof (induction rows)
  case (Suc rows)
  then have "rows * pitch + row_len \<le> length src" by blast
  then have "min (length src - rows * pitch) row_len = row_len" by simp
  with Suc show ?case by (simp add: packed_rows_def)
qed (simp add: packed_rows_def)

lemma packed_rows_Suc: "packed_rows src pitch row_len (Suc y) = packed_rows src pitch row_len y @ take row_len (drop (y * pitch) src)"
  by (simp add: packed_rows_def)

lemma splice_behind: "length p = n \<Longrightarrow> splice n src (p @ q) = p @ src @ drop (length src) q"
  by (simp add: splice_def)

lemma copy_rows_packed:
  assumes "\<forall>y < rows. y * pitch + row_len \<le> length src" "rows * row_len \<le> length dst"
  shows "copy_rows src pitch row_len rows dst = Inr (packed_rows src pitch row_len rows @ drop (rows * row_len) dst)"
proof -
  have "\<exists>out. for_each (copy_row src pitch row_len) [0..<rows] dst = Inr out \<and>
      out = packed_rows src pitch row_len rows @ drop (rows * row_len) dst"
  proof (rule for_each_upt [where P = "\<lambda>y out. out = packed_rows src pitch row_len y @ drop (y * row_len) dst"])
    show "dst = packed_rows src pitch row_len 0 @ drop (0 * row_len) dst" by (simp add: packed_rows_def)
    fix y out
    assume y: "y < rows" and out: "out = packed_rows src pitch row_len y @ drop (y * row_len) dst"
    have len: "length (packed_rows src pitch row_len y) = y * row_len"
      using assms(1) y by (intro length_packed_rows) auto
    have "(y + 1) * row_len \<le> rows * row_len" using y by (intro mult_le_mono1) simp
    then have fits: "(y + 1) * row_len \<le> length dst" using assms(2) by linarith
    have row: "y * pitch + row_len \<le> length src" using assms(1) y by blast
    have "splice (y * row_len) (take row_len (drop (y * pitch) src)) out =
        packed_rows src pitch row_len (Suc y) @ drop (Suc y * row_len) dst"
      using row unfolding out splice_behind [OF len] packed_rows_Suc by (simp add: min_absorb2 add.commute)
    with row fits len show "\<exists>out'. copy_row src pitch row_len y out = Inr out' \<and>
        out' = packed_rows src pitch row_len (Suc y) @ drop (Suc y * row_len) dst"
      by (simp add: copy_row_def out)
  qed
  then show ?thesis by (simp add: copy_rows_def)
qed

lemma packed_rows_nth:
  assumes "\<forall>y < rows. y * pitch + row_len \<le> length src" "y < rows" "i < row_len"
  shows "packed_rows src pitch row_len rows ! (y * row_len + i) = src ! (y * pitch + i)"
proof -
  have "[0..<rows] = [0..<y] @ y # [Suc y..<rows]"
    using assms(2) upt_add_eq_append [of 0 y "rows - y"] by (simp add: upt_conv_Cons)
  then have "packed_rows src pitch row_len rows = packed_rows src pitch row_len y @ take row_len (drop (y * pitch) src) @
      concat (map (\<lambda>y. take row_len (drop (y * pitch) src)) [Suc y..<rows])" by (simp add: packed_rows_def)
  moreover have "length (packed_rows src pitch row_len y) = y * row_len"
    using assms(1,2) by (intro length_packed_rows) auto
  moreover have "y * pitch + row_len \<le> length src" using assms(1,2) by blast
  ultimately show ?thesis using assms(3) by (simp add: nth_append)
qed

text \<open>A row of a buffer that has room for all of them.\<close>

lemma row_end: "row < height \<Longrightarrow> stride * height \<le> n \<Longrightarrow> c \<le> stride \<Longrightarrow> row * stride + c \<le> (n :: nat)"
proof -
  assume a: "row < height" "stride * height \<le> n" "c \<le> stride"
  then have "row * stride + stride \<le> height * stride" by (metis Suc_leI mult_Suc add.commute mult_le_mono1)
  with a show ?thesis by (simp add: mult.commute)
qed

text \<open>A plane of \<open>h\<close> rows of \<open>w\<close> samples.\<close>

definition plane :: "nat \<Rightarrow> nat \<Rightarrow> (nat \<Rightarrow> nat \<Rightarrow> 'a) \<Rightarrow> 'a list" where
  "plane h w g = concat (map (\<lambda>row. map (g row) [0..<w]) [0..<h])"

lemma length_plane [simp]: "length (plane h w g) = h * w"
  by (induction h) (simp_all add: plane_def)

lemma plane_nth [simp]:
  assumes "row < h" "col < w"
  shows "plane h w g ! (row * w + col) = g row col"
proof -
  have "[0..<h] = [0..<row] @ row # [Suc row..<h]"
    using assms(1) upt_add_eq_append [of 0 row "h - row"] by (simp add: upt_conv_Cons)
  then have "plane h w g = plane row w g @ map (g row) [0..<w] @ concat (map (\<lambda>row. map (g row) [0..<w]) [Suc row..<h])"
    by (simp add: plane_def)
  then show ?thesis using assms(2) by (simp add: nth_append)
qed

lemma plane_map: "map f (plane h w g) = plane h w (\<lambda>row col. f (g row col))"
  by (simp add: plane_def map_concat comp_def)

end
