(* ===== verification/Tlv8.thy ===== *)
theory Tlv8
  imports Prelude
begin

text \<open>
  The TLV8 codec of \<open>tlv8.rs\<close>. A decoded message is the code's \<open>HashMap<u8, Vec<u8>>\<close>, here a
  map from tags to byte strings. The interface the pairing code relies on is the locale
  \<open>tlv_codec\<close>; its interpretation on the model is at the end of the theory.
\<close>

subsection \<open>Tags and items\<close>

definition TLV_METHOD :: byte where "TLV_METHOD = 0x00"
definition TLV_IDENTIFIER :: byte where "TLV_IDENTIFIER = 0x01"
definition TLV_SALT :: byte where "TLV_SALT = 0x02"
definition TLV_PUBLIC_KEY :: byte where "TLV_PUBLIC_KEY = 0x03"
definition TLV_PROOF :: byte where "TLV_PROOF = 0x04"
definition TLV_ENCRYPTED_DATA :: byte where "TLV_ENCRYPTED_DATA = 0x05"
definition TLV_STATE :: byte where "TLV_STATE = 0x06"
definition TLV_ERROR :: byte where "TLV_ERROR = 0x07"
definition TLV_SIGNATURE :: byte where "TLV_SIGNATURE = 0x0A"
definition TLV_ACL :: byte where "TLV_ACL = 0x12"
definition TLV_FLAGS :: byte where "TLV_FLAGS = 0x13"

lemmas tlv_tags =
  TLV_METHOD_def TLV_IDENTIFIER_def TLV_SALT_def TLV_PUBLIC_KEY_def TLV_PROOF_def
  TLV_ENCRYPTED_DATA_def TLV_STATE_def TLV_ERROR_def TLV_SIGNATURE_def TLV_ACL_def TLV_FLAGS_def

lemma tlv_tags_distinct [simp]:
  "TLV_METHOD \<noteq> TLV_IDENTIFIER" "TLV_METHOD \<noteq> TLV_SALT" "TLV_METHOD \<noteq> TLV_PUBLIC_KEY"
  "TLV_METHOD \<noteq> TLV_PROOF" "TLV_METHOD \<noteq> TLV_ENCRYPTED_DATA" "TLV_METHOD \<noteq> TLV_STATE"
  "TLV_METHOD \<noteq> TLV_ERROR" "TLV_METHOD \<noteq> TLV_SIGNATURE" "TLV_METHOD \<noteq> TLV_ACL"
  "TLV_METHOD \<noteq> TLV_FLAGS"
  "TLV_IDENTIFIER \<noteq> TLV_METHOD" "TLV_IDENTIFIER \<noteq> TLV_SALT" "TLV_IDENTIFIER \<noteq>
  TLV_PUBLIC_KEY" "TLV_IDENTIFIER \<noteq> TLV_PROOF" "TLV_IDENTIFIER \<noteq> TLV_ENCRYPTED_DATA"
  "TLV_IDENTIFIER \<noteq> TLV_STATE" "TLV_IDENTIFIER \<noteq> TLV_ERROR" "TLV_IDENTIFIER \<noteq>
  TLV_SIGNATURE" "TLV_IDENTIFIER \<noteq> TLV_ACL" "TLV_IDENTIFIER \<noteq> TLV_FLAGS"
  "TLV_SALT \<noteq> TLV_METHOD" "TLV_SALT \<noteq> TLV_IDENTIFIER" "TLV_SALT \<noteq> TLV_PUBLIC_KEY"
  "TLV_SALT \<noteq> TLV_PROOF" "TLV_SALT \<noteq> TLV_ENCRYPTED_DATA" "TLV_SALT \<noteq> TLV_STATE" "TLV_SALT
  \<noteq> TLV_ERROR" "TLV_SALT \<noteq> TLV_SIGNATURE" "TLV_SALT \<noteq> TLV_ACL" "TLV_SALT \<noteq>
  TLV_FLAGS"
  "TLV_PUBLIC_KEY \<noteq> TLV_METHOD" "TLV_PUBLIC_KEY \<noteq> TLV_IDENTIFIER" "TLV_PUBLIC_KEY \<noteq>
  TLV_SALT" "TLV_PUBLIC_KEY \<noteq> TLV_PROOF" "TLV_PUBLIC_KEY \<noteq> TLV_ENCRYPTED_DATA" "TLV_PUBLIC_KEY
  \<noteq> TLV_STATE" "TLV_PUBLIC_KEY \<noteq> TLV_ERROR" "TLV_PUBLIC_KEY \<noteq> TLV_SIGNATURE"
  "TLV_PUBLIC_KEY \<noteq> TLV_ACL" "TLV_PUBLIC_KEY \<noteq> TLV_FLAGS"
  "TLV_PROOF \<noteq> TLV_METHOD" "TLV_PROOF \<noteq> TLV_IDENTIFIER" "TLV_PROOF \<noteq> TLV_SALT" "TLV_PROOF
  \<noteq> TLV_PUBLIC_KEY" "TLV_PROOF \<noteq> TLV_ENCRYPTED_DATA" "TLV_PROOF \<noteq> TLV_STATE" "TLV_PROOF
  \<noteq> TLV_ERROR" "TLV_PROOF \<noteq> TLV_SIGNATURE" "TLV_PROOF \<noteq> TLV_ACL" "TLV_PROOF \<noteq>
  TLV_FLAGS"
  "TLV_ENCRYPTED_DATA \<noteq> TLV_METHOD" "TLV_ENCRYPTED_DATA \<noteq> TLV_IDENTIFIER" "TLV_ENCRYPTED_DATA
  \<noteq> TLV_SALT" "TLV_ENCRYPTED_DATA \<noteq> TLV_PUBLIC_KEY" "TLV_ENCRYPTED_DATA \<noteq> TLV_PROOF"
  "TLV_ENCRYPTED_DATA \<noteq> TLV_STATE" "TLV_ENCRYPTED_DATA \<noteq> TLV_ERROR" "TLV_ENCRYPTED_DATA \<noteq>
  TLV_SIGNATURE" "TLV_ENCRYPTED_DATA \<noteq> TLV_ACL" "TLV_ENCRYPTED_DATA \<noteq> TLV_FLAGS"
  "TLV_STATE \<noteq> TLV_METHOD" "TLV_STATE \<noteq> TLV_IDENTIFIER" "TLV_STATE \<noteq> TLV_SALT" "TLV_STATE
  \<noteq> TLV_PUBLIC_KEY" "TLV_STATE \<noteq> TLV_PROOF" "TLV_STATE \<noteq> TLV_ENCRYPTED_DATA" "TLV_STATE
  \<noteq> TLV_ERROR" "TLV_STATE \<noteq> TLV_SIGNATURE" "TLV_STATE \<noteq> TLV_ACL" "TLV_STATE \<noteq>
  TLV_FLAGS"
  "TLV_ERROR \<noteq> TLV_METHOD" "TLV_ERROR \<noteq> TLV_IDENTIFIER" "TLV_ERROR \<noteq> TLV_SALT" "TLV_ERROR
  \<noteq> TLV_PUBLIC_KEY" "TLV_ERROR \<noteq> TLV_PROOF" "TLV_ERROR \<noteq> TLV_ENCRYPTED_DATA" "TLV_ERROR
  \<noteq> TLV_STATE" "TLV_ERROR \<noteq> TLV_SIGNATURE" "TLV_ERROR \<noteq> TLV_ACL" "TLV_ERROR \<noteq>
  TLV_FLAGS"
  "TLV_SIGNATURE \<noteq> TLV_METHOD" "TLV_SIGNATURE \<noteq> TLV_IDENTIFIER" "TLV_SIGNATURE \<noteq>
  TLV_SALT" "TLV_SIGNATURE \<noteq> TLV_PUBLIC_KEY" "TLV_SIGNATURE \<noteq> TLV_PROOF" "TLV_SIGNATURE \<noteq>
  TLV_ENCRYPTED_DATA" "TLV_SIGNATURE \<noteq> TLV_STATE" "TLV_SIGNATURE \<noteq> TLV_ERROR" "TLV_SIGNATURE
  \<noteq> TLV_ACL" "TLV_SIGNATURE \<noteq> TLV_FLAGS"
  "TLV_ACL \<noteq> TLV_METHOD" "TLV_ACL \<noteq> TLV_IDENTIFIER" "TLV_ACL \<noteq> TLV_SALT" "TLV_ACL
  \<noteq> TLV_PUBLIC_KEY" "TLV_ACL \<noteq> TLV_PROOF" "TLV_ACL \<noteq> TLV_ENCRYPTED_DATA" "TLV_ACL
  \<noteq> TLV_STATE" "TLV_ACL \<noteq> TLV_ERROR" "TLV_ACL \<noteq> TLV_SIGNATURE" "TLV_ACL \<noteq>
  TLV_FLAGS"
  "TLV_FLAGS \<noteq> TLV_METHOD" "TLV_FLAGS \<noteq> TLV_IDENTIFIER" "TLV_FLAGS \<noteq> TLV_SALT" "TLV_FLAGS
  \<noteq> TLV_PUBLIC_KEY" "TLV_FLAGS \<noteq> TLV_PROOF" "TLV_FLAGS \<noteq> TLV_ENCRYPTED_DATA" "TLV_FLAGS
  \<noteq> TLV_STATE" "TLV_FLAGS \<noteq> TLV_ERROR" "TLV_FLAGS \<noteq> TLV_SIGNATURE" "TLV_FLAGS \<noteq>
  TLV_ACL"
  by (simp_all add: tlv_tags)

record Tlv8Item =
  tag :: byte
  "value" :: bytes

definition tlv_item :: "byte \<Rightarrow> bytes \<Rightarrow> Tlv8Item" where
  "tlv_item t v = \<lparr>tag = t, value = v\<rparr>"

lemma tlv_item_sel [simp]: "tag (tlv_item t v) = t" "value (tlv_item t v) = v"
  by (simp_all add: tlv_item_def)

type_synonym tlv_map = "byte \<Rightarrow> bytes option"

subsection \<open>Encoding\<close>

text \<open>The inner \<open>while !rest.is_empty()\<close>: records of at most 255 bytes.\<close>

function encode_chunks :: "byte \<Rightarrow> bytes \<Rightarrow> bytes" where
  "encode_chunks t rest =
    (if rest = [] then []
     else let chunk = (if 255 < length rest then take 255 rest else rest)
          in t # word_of_nat (length chunk) # chunk @ encode_chunks t (drop (length chunk) rest))"
  by pat_completeness auto
termination
  by (relation "measure (\<lambda>(t, rest). length rest)") auto

declare encode_chunks.simps [simp del]

definition encode_item :: "Tlv8Item \<Rightarrow> bytes" where
  "encode_item item =
    (if value item = [] then [tag item, 0] else encode_chunks (tag item) (value item))"

fun encode_ordered :: "Tlv8Item list \<Rightarrow> bytes" where
  "encode_ordered [] = []"
| "encode_ordered (item # items) = encode_item item @ encode_ordered items"

subsection \<open>Decoding\<close>

text \<open>\<open>result.entry(tag).or_default().extend_from_slice(chunk)\<close>\<close>

definition tlv_extend :: "tlv_map \<Rightarrow> byte \<Rightarrow> bytes \<Rightarrow> tlv_map" where
  "tlv_extend m t chunk = m(t \<mapsto> (case m t of None \<Rightarrow> [] | Some v \<Rightarrow> v) @ chunk)"

fun decode_loop :: "tlv_map \<Rightarrow> bytes \<Rightarrow> tlv_map" where
  "decode_loop result (t # l # rest) =
    (if length rest < unat l then result
     else decode_loop (tlv_extend result t (take (unat l) rest)) (drop (unat l) rest))"
| "decode_loop result _ = result"

definition decode :: "bytes \<Rightarrow> tlv_map" where
  "decode data = decode_loop Map.empty data"

subsection \<open>What decoding an encoded list returns\<close>

text \<open>
  The abstract meaning of a list of items: a tag is present when some item has it, and its
  value is the concatenation, in order, of the values of the items with that tag.
\<close>

definition tlv_collect :: "Tlv8Item list \<Rightarrow> tlv_map" where
  "tlv_collect items t =
    (if t \<in> tag ` set items then Some (concat (map value (filter (\<lambda>i. tag i = t) items)))
     else None)"

definition tlv_merge :: "tlv_map \<Rightarrow> Tlv8Item list \<Rightarrow> tlv_map" where
  "tlv_merge m items = foldl (\<lambda>m i. tlv_extend m (tag i) (value i)) m items"

lemma filter_tag_absent [simp]: "t \<notin> tag ` set items \<Longrightarrow> filter (\<lambda>i. tag i = t) items = []"
  by (metis (mono_tags, lifting) filter_False imageI)

lemma tlv_extend_extend:
  "tlv_extend (tlv_extend m t xs) t ys = tlv_extend m t (xs @ ys)"
  by (auto simp: tlv_extend_def split: option.splits)

lemma decode_loop_chunks:
  "rest \<noteq> [] \<Longrightarrow> decode_loop m (encode_chunks t rest @ post) = decode_loop (tlv_extend m t rest) post"
proof (induction t rest arbitrary: m rule: encode_chunks.induct)
  case (1 t rest)
  show ?case
  proof (cases "255 < length rest")
    case True
    then have "drop 255 rest \<noteq> []" by simp
    with 1 True
    have "decode_loop (tlv_extend m t (take 255 rest)) (encode_chunks t (drop 255 rest) @ post)
        = decode_loop (tlv_extend (tlv_extend m t (take 255 rest)) t (drop 255 rest)) post"
      by simp
    with 1(2) True show ?thesis
      by (subst encode_chunks.simps) (simp add: tlv_extend_extend)
  next
    case False
    with 1(2) show ?thesis
      by (subst encode_chunks.simps)
        (simp add: unat_byte_of_nat encode_chunks.simps [of t "[]"])
  qed
qed

lemma decode_loop_item:
  "decode_loop m (encode_item i @ post) = decode_loop (tlv_extend m (tag i) (value i)) post"
  by (cases i) (simp add: encode_item_def decode_loop_chunks)

lemma decode_loop_encode:
  "decode_loop m (encode_ordered items @ post) = decode_loop (tlv_merge m items) post"
  by (induction items arbitrary: m) (simp_all add: decode_loop_item tlv_merge_def)

lemma tlv_merge_at:
  "tlv_merge m items t =
    (if t \<in> tag ` set items
     then Some ((case m t of None \<Rightarrow> [] | Some v \<Rightarrow> v)
                @ concat (map value (filter (\<lambda>i. tag i = t) items)))
     else m t)"
proof (induction items arbitrary: m)
  case Nil
  then show ?case by (simp add: tlv_merge_def)
next
  case (Cons i items)
  have "tlv_merge m (i # items) = tlv_merge (tlv_extend m (tag i) (value i)) items"
    by (simp add: tlv_merge_def)
  with Cons show ?case
    by (cases "t \<in> tag ` set items"; cases "tag i = t"; cases "m t")
      (simp_all add: tlv_extend_def)
qed

lemma tlv_merge_empty: "tlv_merge Map.empty items = tlv_collect items"
  by (rule ext) (simp add: tlv_merge_at tlv_collect_def)

lemma decode_encode_append:
  "decode (encode_ordered items @ post) = decode_loop (tlv_collect items) post"
  by (simp add: decode_def decode_loop_encode tlv_merge_empty)

lemma encode_ordered_append:
  "encode_ordered (xs @ ys) = encode_ordered xs @ encode_ordered ys"
  by (induction xs) simp_all

text \<open>Encoding never makes a list of items shorter than its values.\<close>

lemma length_encode_chunks: "length rest \<le> length (encode_chunks t rest)"
proof (induction t rest rule: encode_chunks.induct)
  case (1 t rest)
  show ?case
  proof (cases "rest = []")
    case True
    then show ?thesis by simp
  next
    case False
    define chunk where "chunk = (if 255 < length rest then take 255 rest else rest)"
    from False have "encode_chunks t rest = t # word_of_nat (length chunk) # chunk @ encode_chunks t (drop (length chunk) rest)"
      by (subst encode_chunks.simps) (simp add: chunk_def Let_def)
    moreover have "length (drop (length chunk) rest) \<le> length (encode_chunks t (drop (length chunk) rest))"
      using 1 [OF False chunk_def] .
    moreover have "length chunk \<le> length rest" by (simp add: chunk_def)
    ultimately show ?thesis by simp
  qed
qed

lemma length_encode_ordered: "sum_list (map (\<lambda>i. length (value i)) items) \<le> length (encode_ordered items)"
proof (induction items)
  case Nil
  then show ?case by simp
next
  case (Cons i items)
  have "length (value i) \<le> length (encode_item i)"
    by (simp add: encode_item_def length_encode_chunks)
  with Cons show ?case by simp
qed

lemma encode_item_short:
  "v \<noteq> [] \<Longrightarrow> length v \<le> 255 \<Longrightarrow> encode_item (tlv_item t v) = t # word_of_nat (length v) # v"
  by (simp add: encode_item_def encode_chunks.simps [of t v] encode_chunks.simps [of t "[]"])

subsection \<open>The interface\<close>

locale tlv_codec =
  fixes enc :: "Tlv8Item list \<Rightarrow> bytes" and dec :: "bytes \<Rightarrow> tlv_map"
  assumes dec_enc: "dec (enc items) = tlv_collect items"
begin

lemma lookup:
  "distinct (map tag items) \<Longrightarrow> i \<in> set items \<Longrightarrow> dec (enc items) (tag i) = Some (value i)"
proof -
  assume d: "distinct (map tag items)" and i: "i \<in> set items"
  from d i have "filter (\<lambda>j. tag j = tag i) items = [i]"
  proof (induction items)
    case Nil
    then show ?case by simp
  next
    case (Cons j items)
    then show ?case by auto
  qed
  with i show ?thesis by (simp add: dec_enc tlv_collect_def)
qed

lemma absent: "t \<notin> tag ` set items \<Longrightarrow> dec (enc items) t = None"
  by (simp add: dec_enc tlv_collect_def)

lemma lookup_simps:
  "dec (enc []) t = None"
  "tag i = t \<Longrightarrow> t \<notin> tag ` set is \<Longrightarrow> dec (enc (i # is)) t = Some (value i)"
  "tag i \<noteq> t \<Longrightarrow> dec (enc (i # is)) t = dec (enc is) t"
proof -
  show "dec (enc []) t = None" by (simp add: absent)
  show "tag i = t \<Longrightarrow> t \<notin> tag ` set is \<Longrightarrow> dec (enc (i # is)) t = Some (value i)"
    by (simp add: dec_enc tlv_collect_def)
  show "tag i \<noteq> t \<Longrightarrow> dec (enc (i # is)) t = dec (enc is) t"
    by (auto simp: dec_enc tlv_collect_def)
qed

lemma determined: "enc is = enc js \<Longrightarrow> tlv_collect is = tlv_collect js"
  by (metis dec_enc)

end

interpretation tlv: tlv_codec encode_ordered decode
  by unfold_locales (use decode_encode_append [of _ "[]"] in simp)

subsection \<open>Properties\<close>

text \<open>C27. Decoding what \<open>encode_ordered\<close> wrote gives back exactly the tags that were written,
  each with the concatenation, in order, of the values written under it: values of any length
  survive the split into 255-byte records.\<close>

theorem tlv8_roundtrip: "decode (encode_ordered items) = tlv_collect items"
  by (rule tlv.dec_enc)

text \<open>A malformed tail (a record that claims post bytes than remain, or a single stray byte)
  is dropped and changes nothing of what the complete records before it said.\<close>

theorem tlv8_malformed_tail:
  assumes "length rest < unat l"
  shows "decode (encode_ordered items @ t # l # rest) = decode (encode_ordered items)
    \<and> decode (encode_ordered items @ [t]) = decode (encode_ordered items)"
  using assms by (simp_all add: decode_encode_append tlv.dec_enc)

theorem tlv8_malformed_tail_witness:
  "decode (encode_ordered [tlv_item 6 [1]] @ 0 # 5 # [1, 2]) = decode (encode_ordered [tlv_item 6 [1]])"
  by (rule conjunct1 [OF tlv8_malformed_tail]) simp

text \<open>From here on an encoded list is looked up, never taken apart.\<close>

declare encode_ordered.simps [simp del]

lemmas tlv_lookup = tlv.lookup_simps

end
