(* ===== verification/Crypto.thy ===== *)
theory Crypto
  imports Prelude
begin

text \<open>
  The cryptographic primitives the code takes from third-party crates, as a record of
  functions that the models take as an argument, and the documented laws the proofs use:
  an AEAD opens what it sealed (\<open>aead_ok\<close>), signatures verify under the signer's public key
  (\<open>sign_ok\<close>), X25519 agrees (\<open>dh_ok\<close>), hashes and key derivation have their output lengths
  (\<open>hash_ok\<close>). A property that needs a law has it as a premise. \<open>toy_crypto\<close> is a concrete
  instance for which all the laws hold; the witnesses use it.
\<close>

record crypto =
  sha512 :: "bytes \<Rightarrow> bytes"
  sha1 :: "bytes \<Rightarrow> bytes"
  hkdf_expand :: "bytes \<Rightarrow> bytes \<Rightarrow> bytes \<Rightarrow> nat \<Rightarrow> bytes"
  aead_seal :: "bytes \<Rightarrow> bytes \<Rightarrow> bytes \<Rightarrow> bytes \<Rightarrow> bytes"
  aead_open :: "bytes \<Rightarrow> bytes \<Rightarrow> bytes \<Rightarrow> bytes \<Rightarrow> bytes option"
  ed_public :: "bytes \<Rightarrow> bytes"
  ed_sign :: "bytes \<Rightarrow> bytes \<Rightarrow> bytes"
  ed_verify :: "bytes \<Rightarrow> bytes \<Rightarrow> bytes \<Rightarrow> bool"
  ed_verify_strict :: "bytes \<Rightarrow> bytes \<Rightarrow> bytes \<Rightarrow> bool"
  ed_valid_key :: "bytes \<Rightarrow> bool"
  dh_base :: "bytes \<Rightarrow> bytes"
  dh_shared :: "bytes \<Rightarrow> bytes \<Rightarrow> bytes"
  aes_ctr :: "bytes \<Rightarrow> bytes \<Rightarrow> nat \<Rightarrow> byte"

text \<open>The arguments are key, nonce, associated data and message (or sealed message).\<close>

definition aead_ok :: "crypto \<Rightarrow> bool" where
  "aead_ok C \<longleftrightarrow> (\<forall>k n a m. aead_open C k n a (aead_seal C k n a m) = Some m \<and>
                     length (aead_seal C k n a m) = length m + 16)"

definition sign_ok :: "crypto \<Rightarrow> bool" where
  "sign_ok C \<longleftrightarrow> (\<forall>sk m. ed_verify C (ed_public C sk) m (ed_sign C sk m) \<and>
     ed_verify_strict C (ed_public C sk) m (ed_sign C sk m) \<and>
     ed_valid_key C (ed_public C sk) \<and> length (ed_public C sk) = 32 \<and> length (ed_sign C sk m) = 64)"

definition dh_ok :: "crypto \<Rightarrow> bool" where
  "dh_ok C \<longleftrightarrow> (\<forall>a b. length a = 32 \<longrightarrow> length b = 32 \<longrightarrow>
     dh_shared C a (dh_base C b) = dh_shared C b (dh_base C a) \<and> length (dh_base C a) = 32 \<and>
     length (dh_shared C a (dh_base C b)) = 32)"

definition hash_ok :: "crypto \<Rightarrow> bool" where
  "hash_ok C \<longleftrightarrow> (\<forall>m. length (sha512 C m) = 64) \<and> (\<forall>m. length (sha1 C m) = 20) \<and>
     (\<forall>ikm salt info n. length (hkdf_expand C ikm salt info n) = n)"

lemma aead_okD:
  "aead_ok C \<Longrightarrow> aead_open C k n a (aead_seal C k n a m) = Some m"
  "aead_ok C \<Longrightarrow> length (aead_seal C k n a m) = length m + 16"
  by (simp_all add: aead_ok_def)

lemma sign_okD:
  "sign_ok C \<Longrightarrow> ed_verify C (ed_public C sk) m (ed_sign C sk m)"
  "sign_ok C \<Longrightarrow> ed_verify_strict C (ed_public C sk) m (ed_sign C sk m)"
  "sign_ok C \<Longrightarrow> ed_valid_key C (ed_public C sk)"
  "sign_ok C \<Longrightarrow> length (ed_public C sk) = 32"
  "sign_ok C \<Longrightarrow> length (ed_sign C sk m) = 64"
  by (simp_all add: sign_ok_def)

lemma dh_okD:
  "dh_ok C \<Longrightarrow> length a = 32 \<Longrightarrow> length b = 32 \<Longrightarrow> dh_shared C a (dh_base C b) = dh_shared C b (dh_base C a)"
  "dh_ok C \<Longrightarrow> length a = 32 \<Longrightarrow> length (dh_base C a) = 32"
  by (auto simp: dh_ok_def)

lemma hash_okD:
  "hash_ok C \<Longrightarrow> length (sha512 C m) = 64"
  "hash_ok C \<Longrightarrow> length (sha1 C m) = 20"
  "hash_ok C \<Longrightarrow> length (hkdf_expand C ikm salt info n) = n"
  by (auto simp: hash_ok_def)

text \<open>A concrete instance, cheap to evaluate and of no cryptographic value.\<close>

definition toy_pad :: "nat \<Rightarrow> bytes \<Rightarrow> bytes" where
  "toy_pad n m = take n (m @ replicate n 0)"

definition toy_crypto :: crypto where
  "toy_crypto =
    \<lparr>sha512 = toy_pad 64, sha1 = toy_pad 20, hkdf_expand = (\<lambda>ikm salt info n. toy_pad n (ikm @ salt @ info)),
     aead_seal = (\<lambda>k n a m. m @ replicate 16 0),
     aead_open = (\<lambda>k n a c. if 16 \<le> length c then Some (take (length c - 16) c) else None),
     ed_public = toy_pad 32, ed_sign = (\<lambda>sk m. toy_pad 64 (toy_pad 32 sk @ m)),
     ed_verify = (\<lambda>pk m s. s = toy_pad 64 (pk @ m)),
     ed_verify_strict = (\<lambda>pk m s. s = toy_pad 64 (pk @ m)), ed_valid_key = (\<lambda>pk. True),
     dh_base = toy_pad 32, dh_shared = (\<lambda>a b. xor_bytes (toy_pad 32 a) (toy_pad 32 b)),
     aes_ctr = (\<lambda>k iv i. 0)\<rparr>"

lemma length_toy_pad [simp]: "length (toy_pad n m) = n"
  by (simp add: toy_pad_def)

lemma toy_pad_id [simp]: "length m = n \<Longrightarrow> toy_pad n m = m"
  by (simp add: toy_pad_def)

lemma xor_bytes_commute: "xor_bytes xs ys = xor_bytes ys xs"
  by (intro nth_equalityI) (auto simp: xor.commute)

lemma toy_crypto_ok [simp]:
  "aead_ok toy_crypto" "sign_ok toy_crypto" "dh_ok toy_crypto" "hash_ok toy_crypto"
  by (auto simp: toy_crypto_def aead_ok_def sign_ok_def dh_ok_def hash_ok_def
      intro: xor_bytes_commute)

end
