(* ===== verification/Srp.thy ===== *)
theory Srp
  imports Crypto
begin

text \<open>
  The SRP-6a arithmetic of both sides: the client's in pairing.rs and the receiver's in
  receiver/pairing.rs. \<open>BigUint\<close> is \<open>nat\<close>, \<open>modpow\<close> is \<open>b ^ e mod n\<close>, \<open>to_bytes_be\<close> is \<open>nat_be\<close> and
  \<open>from_bytes_be\<close> is \<open>of_be\<close>; SHA-512 is \<open>sha512 C\<close>.
\<close>

subsection \<open>Parameters\<close>

definition SRP_N_HEX :: string where
  "SRP_N_HEX = concat [
    ''FFFFFFFFFFFFFFFFC90FDAA22168C234C4C6628B80DC1CD1'',
    ''29024E088A67CC74020BBEA63B139B22514A08798E3404DD'',
    ''EF9519B3CD3A431B302B0A6DF25F14374FE1356D6D51C245'',
    ''E485B576625E7EC6F44C42E9A637ED6B0BFF5CB6F406B7ED'',
    ''EE386BFB5A899FA5AE9F24117C4B1FE649286651ECE45B3D'',
    ''C2007CB8A163BF0598DA48361C55D39A69163FA8FD24CF5F'',
    ''83655D23DCA3AD961C62F356208552BB9ED529077096966D'',
    ''670C354E4ABC9804F1746C08CA18217C32905E462E36CE3B'',
    ''E39E772C180E86039B2783A2EC07A28FB5C55DF06F4C52C9'',
    ''DE2BCBF6955817183995497CEA956AE515D2261898FA0510'',
    ''15728E5A8AAAC42DAD33170D04507A33A85521ABDF1CBA64'',
    ''ECFB850458DBEF0A8AEA71575D060C7DB3970F85A6E1E4C7'',
    ''ABF5AE8CDB0933D71E8C94E04A25619DCEE3D2261AD2EE6B'',
    ''F12FFA06D98A0864D87602733EC86A64521F2B18177B200C'',
    ''BBE117577A615D6C770988C0BAD946E208E24FA074E5AB31'',
    ''43DB5BFCE0FD108E4B82D120A93AD2CAFFFFFFFFFFFFFFFF''
    ]"

definition hex_val :: "char \<Rightarrow> nat" where
  "hex_val c = (if of_char c < (65 :: nat) then of_char c - 48 else of_char c - 55)"

definition of_hex :: "string \<Rightarrow> nat" where
  "of_hex s = foldl (\<lambda>v c. 16 * v + hex_val c) 0 s"

definition srp_n :: nat where "srp_n = of_hex SRP_N_HEX"

definition srp_g :: nat where "srp_g = 5"

definition modpow :: "nat \<Rightarrow> nat \<Rightarrow> nat \<Rightarrow> nat" where
  "modpow b e n = b ^ e mod n"

definition pad_to :: "bytes \<Rightarrow> nat \<Rightarrow> bytes" where
  "pad_to d n = (if n \<le> length d then d else replicate (n - length d) 0 @ d)"

lemma of_hex_bound: "list_all (\<lambda>c. hex_val c < 16) s \<Longrightarrow> of_hex s < 16 ^ length s"
proof (induction s rule: rev_induct)
  case Nil
  then show ?case by (simp add: of_hex_def)
next
  case (snoc c s)
  then have "16 * of_hex s + hex_val c < 16 * Suc (of_hex s)" by simp
  also have "\<dots> \<le> 16 * 16 ^ length s" using snoc by (intro mult_le_mono2) simp
  finally show ?case by (simp add: of_hex_def)
qed

lemma of_hex_lower: "16 ^ length s * v \<le> foldl (\<lambda>v c. 16 * v + hex_val c) v s"
proof (induction s arbitrary: v)
  case Nil
  then show ?case by simp
next
  case (Cons c s)
  have "16 ^ length (c # s) * v \<le> 16 ^ length s * (16 * v + hex_val c)"
    by (simp add: algebra_simps)
  also have "\<dots> \<le> foldl (\<lambda>v c. 16 * v + hex_val c) (16 * v + hex_val c) s"
    by (rule Cons)
  finally show ?case by simp
qed

lemma srp_n_bounds: "5 < srp_n" "srp_n < 256 ^ 384" "2 ^ 3071 \<le> srp_n"
proof -
  have cons: "SRP_N_HEX = CHR ''F'' # tl SRP_N_HEX" by (simp add: SRP_N_HEX_def)
  have len: "length SRP_N_HEX = 768" by (simp add: SRP_N_HEX_def)
  have "list_all (\<lambda>c. hex_val c < 16) SRP_N_HEX" by (simp add: SRP_N_HEX_def hex_val_def)
  from of_hex_bound [OF this] have "srp_n < 16 ^ (2 * 384)" by (simp only: srp_n_def len) simp
  then show "srp_n < 256 ^ 384" by (simp only: power_mult) simp
  have "srp_n = foldl (\<lambda>v c. 16 * v + hex_val c) 15 (tl SRP_N_HEX)"
    by (subst srp_n_def, subst of_hex_def, subst cons) (simp add: hex_val_def)
  with of_hex_lower [of "tl SRP_N_HEX" 15] have "16 ^ length (tl SRP_N_HEX) * 15 \<le> srp_n" by simp
  moreover have "(1 :: nat) \<le> 16 ^ length (tl SRP_N_HEX)" by simp
  ultimately show "5 < srp_n" by linarith
  have "length (tl SRP_N_HEX) = 767" using len by simp
  with of_hex_lower [of "tl SRP_N_HEX" 15] have "16 ^ 767 * 15 \<le> srp_n"
    by (simp only: \<open>srp_n = _\<close>)
  moreover have "(2 :: nat) ^ (4 * 767 + 3) = 16 ^ 767 * 8"
  proof -
    have "(2 :: nat) ^ (4 * 767 + 3) = (2 ^ 4) ^ 767 * 2 ^ 3" by (simp only: power_add power_mult)
    also have "(2 :: nat) ^ 4 = 16" by simp
    also have "(2 :: nat) ^ 3 = 8" by simp
    finally show ?thesis .
  qed
  moreover have "4 * 767 + 3 = (3071 :: nat)" by simp
  ultimately have "(2 :: nat) ^ 3071 = 16 ^ 767 * 8" "16 ^ 767 * 15 \<le> srp_n" by (simp_all only:)
  then show "2 ^ 3071 \<le> srp_n" by linarith
qed

lemma srp_n_pos [simp]: "0 < srp_n"
  using srp_n_bounds(1) by simp

lemma of_be_pad_to [simp]: "of_be (pad_to d n) = of_be d"
  by (simp add: pad_to_def)

lemma length_pad_to: "length d \<le> n \<Longrightarrow> length (pad_to d n) = n"
  by (simp add: pad_to_def)

lemma pad_to_same: "length d = n \<Longrightarrow> pad_to d n = d"
  by (simp add: pad_to_def)

lemma pad_to_nat_be: "x < 256 ^ n \<Longrightarrow> 0 < n \<Longrightarrow> pad_to (nat_be x) n = to_be n x"
  using to_be_of_be [of "pad_to (nat_be x) n" n] length_nat_be_le [of x n]
  by (simp add: length_pad_to)

lemma modpow_less: "modpow b e srp_n < srp_n"
  by (simp add: modpow_def)

lemma modpow_384: "modpow b e srp_n < 256 ^ 384"
  using modpow_less [of b e] srp_n_bounds(2) by simp

subsection \<open>The client\<close>

definition srp_x :: "crypto \<Rightarrow> bytes \<Rightarrow> bytes \<Rightarrow> bytes \<Rightarrow> nat" where
  "srp_x C username password salt =
    (let inner_hash = sha512 C (username @ s2b '':'' @ password)
     in of_be (sha512 C (salt @ inner_hash)))"

definition srp_k :: "crypto \<Rightarrow> nat" where
  "srp_k C = of_be (sha512 C (pad_to (nat_be srp_n) 384 @ pad_to (nat_be srp_g) 384))"

definition srp_client_public :: "nat \<Rightarrow> nat" where
  "srp_client_public a = modpow srp_g a srp_n"

definition srp_u :: "crypto \<Rightarrow> bytes \<Rightarrow> bytes \<Rightarrow> nat" where
  "srp_u C client_public server_public =
    of_be (sha512 C (pad_to client_public 384 @ pad_to server_public 384))"

definition srp_shared_secret :: "crypto \<Rightarrow> bytes \<Rightarrow> nat \<Rightarrow> nat \<Rightarrow> nat \<Rightarrow> nat" where
  "srp_shared_secret C server_b a x u =
    (let n = srp_n; b = of_be server_b; gx = modpow srp_g x n;
         kgx = (srp_k C * gx) mod n;
         diff = (if kgx \<le> b then b - kgx else (b + n) - kgx);
         exponent = u * x + a
     in modpow diff exponent n)"

definition srp_session_key :: "crypto \<Rightarrow> nat \<Rightarrow> bytes" where
  "srp_session_key C s = sha512 C (nat_be s)"

definition srp_client_proof :: "crypto \<Rightarrow> bytes \<Rightarrow> bytes \<Rightarrow> bytes \<Rightarrow> bytes \<Rightarrow> bytes \<Rightarrow> bytes" where
  "srp_client_proof C username salt client_public server_public k =
    (let hn = sha512 C (nat_be srp_n); hg = sha512 C (nat_be srp_g);
         hxor = map (\<lambda>i. hn ! i XOR hg ! i) [0..<64]
     in sha512 C (hxor @ sha512 C username @ salt @ client_public @ server_public @ k))"

definition srp_server_proof :: "crypto \<Rightarrow> bytes \<Rightarrow> bytes \<Rightarrow> bytes \<Rightarrow> bytes" where
  "srp_server_proof C client_public client_proof k = sha512 C (client_public @ client_proof @ k)"

subsection \<open>The receiver\<close>

definition receiver_srp_x :: "crypto \<Rightarrow> bytes \<Rightarrow> string \<Rightarrow> string \<Rightarrow> bytes" where
  "receiver_srp_x C salt username pin =
    (let inner = sha512 C (s2b (username @ '':'' @ pin)) in sha512 C (salt @ inner))"

definition srp_multiplier :: "crypto \<Rightarrow> nat" where
  "srp_multiplier C = of_be (sha512 C (pad_to (nat_be srp_n) 384 @ pad_to (nat_be srp_g) 384))"

text \<open>The verifier \<open>v\<close> and the public value \<open>B\<close> of \<open>begin_srp_setup\<close>.\<close>

definition srp_verifier :: "crypto \<Rightarrow> bytes \<Rightarrow> string \<Rightarrow> string \<Rightarrow> nat" where
  "srp_verifier C salt username pin = modpow srp_g (of_be (receiver_srp_x C salt username pin)) srp_n"

definition srp_server_public :: "crypto \<Rightarrow> nat \<Rightarrow> bytes \<Rightarrow> nat" where
  "srp_server_public C v b =
    (((srp_multiplier C * v) mod srp_n) + modpow srp_g (of_be b) srp_n) mod srp_n"

text \<open>The shared value of \<open>verify_srp_proof\<close>.\<close>

definition srp_server_shared :: "nat \<Rightarrow> nat \<Rightarrow> nat \<Rightarrow> bytes \<Rightarrow> nat" where
  "srp_server_shared client_public v u b =
    (let vu = modpow v u srp_n; base = (client_public * vu) mod srp_n
     in modpow base (of_be b) srp_n)"

definition receiver_srp_client_proof :: "crypto \<Rightarrow> bytes \<Rightarrow> nat \<Rightarrow> nat \<Rightarrow> bytes \<Rightarrow> bytes" where
  "receiver_srp_client_proof C salt client_public server_public shared_key =
    (let hash_n = sha512 C (nat_be srp_n); hash_g = sha512 C (nat_be srp_g);
         hxor = map (\<lambda>i. hash_n ! i XOR hash_g ! i) [0..<64]
     in sha512 C (hxor @ sha512 C (s2b ''Pair-Setup'') @ salt @ nat_be client_public @
                  nat_be server_public @ shared_key))"

subsection \<open>Agreement\<close>

lemma srp_x_agree: "of_be (receiver_srp_x C salt user pin) = srp_x C (s2b user) (s2b pin) salt"
  by (simp only: receiver_srp_x_def srp_x_def s2b_append append.assoc Let_def)

lemma srp_k_agree: "srp_multiplier C = srp_k C"
  by (simp add: srp_multiplier_def srp_k_def)

lemma mod_diff_cancel:
  fixes p q n :: nat
  assumes "p < n" "q < n"
  defines "s \<equiv> (p + q) mod n"
  shows "(if p \<le> s then s - p else (s + n) - p) = q"
proof (cases "p + q < n")
  case True
  then show ?thesis using assms by simp
next
  case False
  then have "s = p + q - n" using assms(1,2) by (simp add: s_def le_mod_geq)
  then show ?thesis using False assms(1,2) by auto
qed

lemma srp_agree:
  fixes C :: crypto and u a :: nat and b salt :: bytes and pin :: string
  defines "x \<equiv> srp_x C (s2b ''Pair-Setup'') (s2b pin) salt"
    and "v \<equiv> srp_verifier C salt ''Pair-Setup'' pin"
    and "A \<equiv> srp_client_public a"
  defines "B \<equiv> srp_server_public C v b"
  shows "srp_shared_secret C (nat_be B) a x u = srp_server_shared A v u b
    \<and> srp_client_proof C (s2b ''Pair-Setup'') salt (nat_be A) (nat_be B)
          (srp_session_key C (srp_shared_secret C (nat_be B) a x u))
      = receiver_srp_client_proof C salt A B (srp_session_key C (srp_server_shared A v u b))"
proof -
  have v: "v = modpow srp_g x srp_n"
    by (simp add: v_def srp_verifier_def x_def srp_x_agree)
  define gb where "gb = modpow srp_g (of_be b) srp_n"
  define kgx where "kgx = (srp_k C * modpow srp_g x srp_n) mod srp_n"
  have lt: "gb < srp_n" "kgx < srp_n"
    by (simp_all add: gb_def kgx_def modpow_less)
  have B: "B = (kgx + gb) mod srp_n"
    by (simp add: B_def srp_server_public_def srp_k_agree v gb_def kgx_def)
  have "(if kgx \<le> B then B - kgx else B + srp_n - kgx) = gb"
    using mod_diff_cancel [OF lt(2,1)] by (simp only: B)
  then have client: "srp_shared_secret C (nat_be B) a x u = modpow gb (u * x + a) srp_n"
    unfolding srp_shared_secret_def Let_def of_be_nat_be kgx_def [symmetric] by simp
  have "modpow gb (u * x + a) srp_n = srp_g ^ (of_be b * (u * x + a)) mod srp_n"
    by (simp add: modpow_def gb_def power_mod power_mult)
  also have "\<dots> = srp_g ^ ((a + x * u) * of_be b) mod srp_n"
    by (simp add: algebra_simps)
  also have "\<dots> = ((srp_g ^ a mod srp_n) * ((srp_g ^ x mod srp_n) ^ u mod srp_n) mod srp_n) ^ of_be b mod srp_n"
    by (simp add: power_mod mod_mult_eq power_mult power_add)
  also have "\<dots> = srp_server_shared A v u b"
    by (simp add: srp_server_shared_def A_def srp_client_public_def v modpow_def Let_def)
  finally have "srp_shared_secret C (nat_be B) a x u = srp_server_shared A v u b"
    using client by simp
  then show ?thesis
    by (simp add: srp_client_proof_def receiver_srp_client_proof_def Let_def)
qed

lemma length_nat_be_384: "256 ^ 383 \<le> x \<Longrightarrow> x < 256 ^ 384 \<Longrightarrow> length (nat_be x) = 384"
proof -
  assume x: "256 ^ 383 \<le> x" "x < 256 ^ 384"
  have "x < 256 ^ length (nat_be x)" using of_be_less [of "nat_be x"] by simp
  with x(1) have "(256 :: nat) ^ 383 < 256 ^ length (nat_be x)" by (rule le_less_trans)
  then have "383 < length (nat_be x)" by (rule power_less_imp_less_exp [rotated]) simp
  moreover have "length (nat_be x) \<le> 384" using x(2) by (rule length_nat_be_le) simp
  ultimately show ?thesis by simp
qed

text \<open>C11. The two sides of an SRP exchange over the same password compute the same shared secret, for every
  choice of the two private values, the salt, the password and the scrambling parameter; so the session
  keys and the client's proof agree as well.\<close>

theorem srp_agreement:
  fixes C :: crypto and u a :: nat and b salt :: bytes and pin :: string
  defines "x \<equiv> srp_x C (s2b ''Pair-Setup'') (s2b pin) salt"
    and "v \<equiv> srp_verifier C salt ''Pair-Setup'' pin"
    and "A \<equiv> srp_client_public a"
  defines "B \<equiv> srp_server_public C v b"
  shows "srp_shared_secret C (nat_be B) a x u = srp_server_shared A v u b
    \<and> srp_client_proof C (s2b ''Pair-Setup'') salt (nat_be A) (nat_be B)
          (srp_session_key C (srp_shared_secret C (nat_be B) a x u))
      = receiver_srp_client_proof C salt A B (srp_session_key C (srp_server_shared A v u b))"
  unfolding assms by (rule srp_agree)

end
