(* ===== verification/Plist.thy ===== *)
theory Plist
  imports Prelude "HOL-Library.AList"
begin

text \<open>
  Property list values. The reader and the writer of their binary and XML forms are the \<open>plist\<close> crate and
  appear as the record \<open>plist_lib\<close>; its law \<open>plist_ok\<close> is that reading what was written gives the value back.
  The crate's \<open>Dictionary\<close> keeps its keys in insertion order, so a dictionary is an association list and
  \<open>insert\<close> is \<open>AList.update\<close>. \<open>PReal m e\<close> is the double \<open>m * 2 ^ e\<close>.
\<close>

datatype plist =
    PInt int
  | PReal int int
  | PString string
  | PData bytes
  | PBool bool
  | PArray "plist list"
  | PDict "(string \<times> plist) list"
  | POther

record plist_lib =
  plist_write :: "plist \<Rightarrow> bytes"
  plist_read :: "bytes \<Rightarrow> plist option"

definition plist_ok :: "plist_lib \<Rightarrow> bool" where
  "plist_ok L \<longleftrightarrow> (\<forall>v. plist_read L (plist_write L v) = Some v)"

subsection \<open>The accessors of \<open>Value\<close>\<close>

fun as_dictionary :: "plist \<Rightarrow> (string \<times> plist) list option" where
  "as_dictionary (PDict d) = Some d"
| "as_dictionary _ = None"

fun as_array :: "plist \<Rightarrow> plist list option" where
  "as_array (PArray a) = Some a"
| "as_array _ = None"

fun as_string :: "plist \<Rightarrow> string option" where
  "as_string (PString s) = Some s"
| "as_string _ = None"

fun as_boolean :: "plist \<Rightarrow> bool option" where
  "as_boolean (PBool b) = Some b"
| "as_boolean _ = None"

text \<open>The crate keeps integers up to \<open>u64\<close>; only those of \<open>i64\<close> are signed integers.\<close>

fun as_signed_integer :: "plist \<Rightarrow> int option" where
  "as_signed_integer (PInt n) = (if - (2 ^ 63) \<le> n \<and> n < 2 ^ 63 then Some n else None)"
| "as_signed_integer _ = None"

text \<open>\<open>as_real\<close> followed by the cast \<open>f as i64\<close>, which cuts the fraction off and saturates.\<close>

definition trunc_pow2 :: "int \<Rightarrow> int \<Rightarrow> int" where
  "trunc_pow2 m e = (if 0 \<le> e then m * 2 ^ nat e else sgn m * (\<bar>m\<bar> div 2 ^ nat (- e)))"

definition clamp_i64 :: "int \<Rightarrow> int" where
  "clamp_i64 n = max (- (2 ^ 63)) (min (2 ^ 63 - 1) n)"

fun as_real_i64 :: "plist \<Rightarrow> int option" where
  "as_real_i64 (PReal m e) = Some (clamp_i64 (trunc_pow2 m e))"
| "as_real_i64 _ = None"

definition p_get :: "string \<Rightarrow> plist \<Rightarrow> plist option" where
  "p_get k v = (case as_dictionary v of None \<Rightarrow> None | Some d \<Rightarrow> map_of d k)"

subsection \<open>Building dictionaries\<close>

definition p_dict :: plist where
  "p_dict = PDict []"

definition d_insert :: "string \<Rightarrow> plist \<Rightarrow> plist \<Rightarrow> plist" where
  "d_insert key v dict = (case dict of PDict d \<Rightarrow> PDict (AList.update key v d) | _ \<Rightarrow> dict)"

definition d_string :: "string \<Rightarrow> string \<Rightarrow> plist \<Rightarrow> plist" where
  "d_string key v = d_insert key (PString v)"

definition d_int :: "string \<Rightarrow> int \<Rightarrow> plist \<Rightarrow> plist" where
  "d_int key v = d_insert key (PInt v)"

definition d_bool :: "string \<Rightarrow> bool \<Rightarrow> plist \<Rightarrow> plist" where
  "d_bool key v = d_insert key (PBool v)"

text \<open>A chain of insertions into an empty dictionary, in the order written.\<close>

definition p_build :: "(plist \<Rightarrow> plist) list \<Rightarrow> plist" where
  "p_build fs = fold (\<lambda>f d. f d) fs p_dict"

named_theorems plist_simps "reading back what was put into a dictionary"

definition is_dict :: "plist \<Rightarrow> bool" where
  "is_dict v \<longleftrightarrow> as_dictionary v \<noteq> None"

lemma is_dict_simps [simp, plist_simps]:
  "is_dict p_dict" "is_dict (PDict d)" "is_dict (d_insert k v d') = is_dict d'"
  by (simp_all add: is_dict_def p_dict_def d_insert_def split: plist.splits)

lemma p_get_insert [plist_simps]:
  "is_dict d \<Longrightarrow> p_get k (d_insert k' v d) = (if k = k' then Some v else p_get k d)"
  by (cases d) (simp_all add: is_dict_def p_get_def d_insert_def update_conv)

lemma p_get_p_dict [simp, plist_simps]: "p_get k p_dict = None"
  by (simp add: p_get_def p_dict_def)

text \<open>The keys of a dictionary that was built by insertions are different.\<close>

definition dict_keys :: "plist \<Rightarrow> string list" where
  "dict_keys v = (case as_dictionary v of None \<Rightarrow> [] | Some d \<Rightarrow> map fst d)"

lemma distinct_insert: "distinct (dict_keys d) \<Longrightarrow> distinct (dict_keys (d_insert k v d))"
  by (cases d) (simp_all add: dict_keys_def d_insert_def distinct_update)

subsection \<open>Values that arrive\<close>

text \<open>A value is read back from what was written for it, in at most \<open>n\<close> bytes.\<close>

definition plist_arrives :: "plist_lib \<Rightarrow> nat \<Rightarrow> plist \<Rightarrow> bool" where
  "plist_arrives L n v \<longleftrightarrow> plist_read L (plist_write L v) = Some v \<and> length (plist_write L v) \<le> n"

text \<open>A reader and writer for the values of a list, which are written as their positions.\<close>

definition indexed_plists :: "plist list \<Rightarrow> plist_lib" where
  "indexed_plists X =
    \<lparr>plist_write = (\<lambda>v. [word_of_nat (length (takeWhile (\<lambda>x. x \<noteq> v) X))]),
     plist_read = (\<lambda>b. case b of [i] \<Rightarrow> if unat i < length X then Some (X ! unat i) else None | _ \<Rightarrow> None)\<rparr>"

lemma takeWhile_found: "v \<in> set X \<Longrightarrow> length (takeWhile (\<lambda>x. x \<noteq> v) X) < length X"
  by (induction X) auto

lemma indexed_plists_arrive:
  assumes "v \<in> set X" "length X \<le> 256" "0 < n"
  shows "plist_arrives (indexed_plists X) n v"
proof -
  define i where "i = length (takeWhile (\<lambda>x. x \<noteq> v) X)"
  have i: "i < length X" "X ! i = v"
    using takeWhile_found [OF assms(1)] nth_length_takeWhile [of "\<lambda>x. x \<noteq> v" X] by (simp_all add: i_def)
  with assms(2) have "unat (word_of_nat i :: byte) = i" by (simp add: unat_of_nat)
  with i assms(3) show ?thesis by (simp add: plist_arrives_def indexed_plists_def i_def [symmetric])
qed

end
