(* ===== verification/Rust_Str.thy ===== *)
theory Rust_Str
  imports Prelude "HOL-Library.Sublist"
begin

text \<open>
  The string functions of the Rust standard library that the program uses, on strings that are the bytes
  of a UTF-8 text: \<open>from_utf8_lossy\<close>, \<open>trim\<close>, \<open>split_whitespace\<close>, \<open>split_once\<close>,
  \<open>split\<close>, \<open>to_ascii_lowercase\<close>, \<open>parse\<close> of unsigned integers, and hexadecimal formatting.
\<close>

subsection \<open>Bytes and strings\<close>

definition b2s :: "bytes \<Rightarrow> string" where
  "b2s b = map (\<lambda>x. char_of (unat x)) b"

lemma s2b_b2s [simp]: "s2b (b2s b) = b"
proof -
  have "(of_char (char_of (unat x)) :: byte) = x" for x :: byte
    by (rule word_unat_eq_iff [THEN iffD2]) simp
  then show ?thesis by (simp add: s2b_def b2s_def comp_def)
qed

lemma b2s_s2b [simp]: "b2s (s2b s) = s"
  by (metis s2b_b2s s2b_inj)

lemma length_b2s [simp]: "length (b2s b) = length b"
  by (simp add: b2s_def)

lemma b2s_append [simp]: "b2s (x @ y) = b2s x @ b2s y"
  by (simp add: b2s_def)

lemma b2s_inj [simp]: "b2s x = b2s y \<longleftrightarrow> x = y"
  by (metis s2b_b2s)

subsection \<open>Lossy decoding\<close>

text \<open>
  \<open>utf8_step\<close> looks at the front of a non-empty byte string: how many bytes belong to the next
  character, or to the longest prefix of one before the decoding fails, and whether it is a
  character. An absent byte reads as 0, which continues nothing.
\<close>

definition nth0 :: "bytes \<Rightarrow> nat \<Rightarrow> byte" where
  "nth0 b i = (if i < length b then b ! i else 0)"

definition is_cont :: "byte \<Rightarrow> bool" where
  "is_cont x \<longleftrightarrow> x AND 192 = 128"

definition second_ok :: "byte \<Rightarrow> byte \<Rightarrow> bool" where
  "second_ok x y \<longleftrightarrow>
     (if x = 0xE0 then 0xA0 \<le> y \<and> y \<le> 0xBF
      else if x = 0xED then 0x80 \<le> y \<and> y \<le> 0x9F
      else if x = 0xF0 then 0x90 \<le> y \<and> y \<le> 0xBF
      else if x = 0xF4 then 0x80 \<le> y \<and> y \<le> 0x8F
      else 0x80 \<le> y \<and> y \<le> 0xBF)"

definition utf8_step :: "bytes \<Rightarrow> nat \<times> bool" where
  "utf8_step b =
    (let x = nth0 b 0 in
     if x < 0x80 then (1, True)
     else if 0xC2 \<le> x \<and> x \<le> 0xDF then (if is_cont (nth0 b 1) then (2, True) else (1, False))
     else if 0xE0 \<le> x \<and> x \<le> 0xEF then
       (if \<not> second_ok x (nth0 b 1) then (1, False)
        else if is_cont (nth0 b 2) then (3, True) else (2, False))
     else if 0xF0 \<le> x \<and> x \<le> 0xF4 then
       (if \<not> second_ok x (nth0 b 1) then (1, False)
        else if \<not> is_cont (nth0 b 2) then (2, False)
        else if is_cont (nth0 b 3) then (4, True) else (3, False))
     else (1, False))"

lemma utf8_step_pos: "0 < fst (utf8_step b)"
  by (simp add: utf8_step_def Let_def)

function from_utf8_lossy :: "bytes \<Rightarrow> string" where
  "from_utf8_lossy b =
    (if b = [] then []
     else let (n, ok) = utf8_step b
          in (if ok then b2s (take n b) else b2s [0xEF, 0xBF, 0xBD]) @ from_utf8_lossy (drop n b))"
  by pat_completeness auto
termination
proof (relation "measure length")
  fix b :: bytes and x :: "nat \<times> bool" and n :: nat and ok :: bool
  assume "b \<noteq> []" "x = utf8_step b" "(n, ok) = x"
  moreover from this have "0 < n" using utf8_step_pos [of b] by (metis fst_conv)
  ultimately show "(drop n b, b) \<in> measure length" by simp
qed simp

declare from_utf8_lossy.simps [simp del]

lemma from_utf8_lossy_ascii:
  "list_all (\<lambda>x. x < 0x80) b \<Longrightarrow> from_utf8_lossy b = b2s b"
proof (induction b)
  case Nil
  then show ?case by (simp add: from_utf8_lossy.simps b2s_def)
next
  case (Cons x b)
  then have "utf8_step (x # b) = (1, True)" by (simp add: utf8_step_def nth0_def)
  with Cons show ?case by (subst from_utf8_lossy.simps) (simp add: b2s_def)
qed

subsection \<open>White space\<close>

text \<open>The UTF-8 forms of the characters \<open>char::is_whitespace\<close> accepts.\<close>

definition white_codes :: "nat list list" where
  "white_codes =
    [[9], [10], [11], [12], [13], [32], [194, 133], [194, 160], [225, 154, 128],
     [226, 128, 128], [226, 128, 129], [226, 128, 130], [226, 128, 131], [226, 128, 132], [226, 128, 133],
     [226, 128, 134], [226, 128, 135], [226, 128, 136], [226, 128, 137], [226, 128, 138], [226, 128, 168],
     [226, 128, 169], [226, 128, 175], [226, 129, 159], [227, 128, 128]]"

definition white_chars :: "string list" where
  "white_chars = map (map char_of) white_codes"

definition white_prefix :: "string \<Rightarrow> nat" where
  "white_prefix s = (case find (\<lambda>w. prefix w s) white_chars of None \<Rightarrow> 0 | Some w \<Rightarrow> length w)"

definition white_suffix :: "string \<Rightarrow> nat" where
  "white_suffix s = (case find (\<lambda>w. suffix w s) white_chars of None \<Rightarrow> 0 | Some w \<Rightarrow> length w)"

function trim_start :: "string \<Rightarrow> string" where
  "trim_start s = (if s = [] \<or> white_prefix s = 0 then s else trim_start (drop (white_prefix s) s))"
  by pat_completeness auto
termination
  by (relation "measure length") auto

declare trim_start.simps [simp del]

function trim_end :: "string \<Rightarrow> string" where
  "trim_end s =
    (if s = [] \<or> white_suffix s = 0 then s else trim_end (take (length s - white_suffix s) s))"
  by pat_completeness auto
termination
  by (relation "measure length") auto

declare trim_end.simps [simp del]

definition trim :: "string \<Rightarrow> string" where
  "trim s = trim_end (trim_start s)"

text \<open>\<open>split_whitespace\<close>: the maximal pieces without white space.\<close>

function split_white :: "string \<Rightarrow> string \<Rightarrow> string list" where
  "split_white acc s =
    (if s = [] then (if acc = [] then [] else [acc])
     else if 0 < white_prefix s
       then (if acc = [] then [] else [acc]) @ split_white [] (drop (white_prefix s) s)
     else split_white (acc @ [hd s]) (tl s))"
  by pat_completeness auto
termination
  by (relation "measure (\<lambda>(acc, s). length s)") auto

declare split_white.simps [simp del]

definition split_whitespace :: "string \<Rightarrow> string list" where
  "split_whitespace s = split_white [] s"

subsection \<open>Searching and splitting\<close>

fun split_once :: "char \<Rightarrow> string \<Rightarrow> (string \<times> string) option" where
  "split_once c [] = None"
| "split_once c (x # xs) =
    (if x = c then Some ([], xs) else map_option (\<lambda>(a, b). (x # a, b)) (split_once c xs))"

definition strip_prefix :: "string \<Rightarrow> string \<Rightarrow> string option" where
  "strip_prefix p s = (if prefix p s then Some (drop (length p) s) else None)"

text \<open>\<open>s.split("\r\n")\<close>\<close>

function split_crlf :: "string \<Rightarrow> string \<Rightarrow> string list" where
  "split_crlf acc s =
    (if s = [] then [acc]
     else if prefix [CHR 0x0D, CHR 0x0A] s then acc # split_crlf [] (drop 2 s)
     else split_crlf (acc @ [hd s]) (tl s))"
  by pat_completeness auto
termination
  by (relation "measure (\<lambda>(acc, s). length s)") auto

declare split_crlf.simps [simp del]

definition lower_char :: "char \<Rightarrow> char" where
  "lower_char c =
    (if 65 \<le> (of_char c :: nat) \<and> of_char c \<le> (90 :: nat) then char_of (of_char c + 32 :: nat) else c)"

definition to_ascii_lowercase :: "string \<Rightarrow> string" where
  "to_ascii_lowercase s = map lower_char s"

text \<open>\<open>parse::<uN>()\<close>: an optional plus sign, then digits, and a value below \<open>2 ^ N\<close>.\<close>

definition is_digit :: "char \<Rightarrow> bool" where
  "is_digit c \<longleftrightarrow> 48 \<le> (of_char c :: nat) \<and> of_char c \<le> (57 :: nat)"

definition parse_uint :: "nat \<Rightarrow> string \<Rightarrow> nat option" where
  "parse_uint w s =
    (let digits = (if s \<noteq> [] \<and> hd s = CHR ''+'' then tl s else s)
     in if digits = [] \<or> \<not> list_all is_digit digits then None
        else if undec digits < 2 ^ w then Some (undec digits) else None)"

lemma dec_digits: "list_all is_digit (dec n)"
proof (induction n rule: dec.induct)
  case (1 n)
  then show ?case
    by (cases "n < 10") (simp_all add: dec.simps [of n] is_digit_def)
qed

lemma parse_dec [simp]: "n < 2 ^ w \<Longrightarrow> parse_uint w (dec n) = Some n"
proof -
  assume n: "n < 2 ^ w"
  have "hd (dec n) \<noteq> CHR ''+''"
    using dec_digits [of n] by (cases "dec n") (auto simp: is_digit_def)
  with n dec_digits [of n] show ?thesis by (simp add: parse_uint_def)
qed

subsection \<open>Hexadecimal\<close>

definition hex_digit :: "nat \<Rightarrow> char" where
  "hex_digit n = (if n < 10 then char_of (48 + n) else char_of (87 + n))"

definition hex2 :: "byte \<Rightarrow> string" where
  "hex2 b = [hex_digit (unat b div 16), hex_digit (unat b mod 16)]"

definition hex :: "bytes \<Rightarrow> string" where
  "hex b = concat (map hex2 b)"

lemma length_hex [simp]: "length (hex b) = 2 * length b"
  by (induction b) (simp_all add: hex_def hex2_def)

lemma hex_digit_inj: "m < 16 \<Longrightarrow> n < 16 \<Longrightarrow> hex_digit m = hex_digit n \<longleftrightarrow> m = n"
proof -
  assume mn: "m < 16" "n < 16"
  have "(of_char (hex_digit k) :: nat) = (if k < 10 then 48 + k else 87 + k)" if "k < 16" for k
    using that by (simp add: hex_digit_def)
  then have "of_char (hex_digit m) = (of_char (hex_digit n) :: nat) \<longleftrightarrow> m = n"
    using mn by auto
  then show ?thesis by simp
qed

lemma hex_inj: "hex x = hex y \<longleftrightarrow> x = y"
proof
  show "hex x = hex y \<Longrightarrow> x = y"
  proof (induction x arbitrary: y)
    case Nil
    then show ?case by (cases y) (simp_all add: hex_def hex2_def)
  next
    case (Cons a x)
    then obtain b y' where y: "y = b # y'"
      by (cases y) (simp_all add: hex_def hex2_def)
    with Cons have "unat a div 16 = unat b div 16" "unat a mod 16 = unat b mod 16" "hex x = hex y'"
      by (auto simp: hex_def hex2_def hex_digit_inj less_mult_imp_div_less)
    then have "unat a = unat b" by (metis div_mult_mod_eq)
    with Cons.IH [OF \<open>hex x = hex y'\<close>] y show ?case by (simp add: word_unat_eq_iff)
  qed
qed simp

text \<open>\<open>format!("{n:x}")\<close> of an unsigned integer and \<open>format!("{b:02x?}")\<close> of a byte slice.\<close>

fun hex_num :: "nat \<Rightarrow> string" where
  "hex_num n = (if n < 16 then [hex_digit n] else hex_num (n div 16) @ [hex_digit (n mod 16)])"

declare hex_num.simps [simp del]

fun debug_items :: "bytes \<Rightarrow> string" where
  "debug_items [] = []"
| "debug_items [b] = hex2 b"
| "debug_items (b # bs) = hex2 b @ '', '' @ debug_items bs"

definition debug_hex :: "bytes \<Rightarrow> string" where
  "debug_hex b = ''['' @ debug_items b @ '']''"

text \<open>\<open>format!("{b:?}")\<close> of a byte vector.\<close>

fun debug_dec_items :: "bytes \<Rightarrow> string" where
  "debug_dec_items [] = []"
| "debug_dec_items [b] = dec (unat b)"
| "debug_dec_items (b # bs) = dec (unat b) @ '', '' @ debug_dec_items bs"

definition debug_bytes :: "bytes \<Rightarrow> string" where
  "debug_bytes b = ''['' @ debug_dec_items b @ '']''"

subsection \<open>ASCII text\<close>

named_theorems text_simps "trimming and splitting of ASCII text"

definition ascii_char :: "char \<Rightarrow> bool" where
  "ascii_char c \<longleftrightarrow> of_char c < (128 :: nat)"

definition ascii_white :: "char \<Rightarrow> bool" where
  "ascii_white c \<longleftrightarrow> of_char c \<in> {9, 10, 11, 12, 13, 32 :: nat}"

text \<open>The listed white characters are one ASCII byte, or start and end with a byte above 127.\<close>

lemma white_codes_shape:
  "list_all (\<lambda>w. w = [hd w] \<and> hd w \<in> {9, 10, 11, 12, 13, 32} \<or>
     w \<noteq> [] \<and> 128 \<le> hd w \<and> hd w < 256 \<and> 128 \<le> last w \<and> last w < 256) white_codes"
  by (simp add: white_codes_def)

lemma white_chars_shape:
  assumes "w \<in> set white_chars"
  shows "w = [hd w] \<and> ascii_white (hd w) \<or> w \<noteq> [] \<and> \<not> ascii_char (hd w) \<and> \<not> ascii_char (last w)"
proof -
  from assms obtain v where v: "v \<in> set white_codes" "w = map char_of v" by (auto simp: white_chars_def)
  with white_codes_shape have "v = [hd v] \<and> hd v \<in> {9, 10, 11, 12, 13, 32} \<or>
     v \<noteq> [] \<and> 128 \<le> hd v \<and> hd v < 256 \<and> 128 \<le> last v \<and> last v < 256"
    unfolding list_all_iff by blast
  then show ?thesis
  proof
    assume h: "v = [hd v] \<and> hd v \<in> {9, 10, 11, 12, 13, 32}"
    then obtain n where n: "v = [n]" "n \<in> {9, 10, 11, 12, 13, 32}" by (cases v) auto
    then have "n < 256" by auto
    then have "(of_char (char_of n) :: nat) = n" by simp
    then have "ascii_white (char_of n)" using n(2) unfolding ascii_white_def by simp
    then show ?thesis by (simp add: v(2) n(1))
  next
    assume h: "v \<noteq> [] \<and> 128 \<le> hd v \<and> hd v < 256 \<and> 128 \<le> last v \<and> last v < 256"
    then have e: "hd w = char_of (hd v)" "last w = char_of (last v)" by (simp_all add: v(2) hd_map last_map)
    have "\<not> ascii_char (char_of n)" if "128 \<le> n" "n < 256" for n :: nat
      using that by (simp add: ascii_char_def)
    with h e v(2) show ?thesis by (simp del: map_eq_Cons_conv)
  qed
qed

lemma white_chars_ascii:
  assumes "ascii_white c" shows "[c] \<in> set white_chars"
proof -
  have "[of_char c] \<in> set white_codes" using assms by (auto simp: ascii_white_def white_codes_def)
  then have "map char_of [of_char c :: nat] \<in> set white_chars" unfolding white_chars_def by (simp only: set_map) blast
  then show ?thesis by simp
qed

lemma find_the:
  assumes "P a" "a \<in> set xs" and the: "\<And>x. x \<in> set xs \<Longrightarrow> P x \<Longrightarrow> x = a"
  shows "find P xs = Some a"
proof (cases "find P xs")
  case None
  with assms(1,2) show ?thesis unfolding find_None_iff by blast
next
  case (Some y)
  then have "y \<in> set xs" "P y" unfolding find_Some_iff by auto
  then have "y = a" by (rule the)
  with Some show ?thesis by simp
qed

lemma white_chars_find:
  assumes "ascii_char c" and "\<And>w. w \<in> set white_chars \<Longrightarrow> P w \<Longrightarrow> hd w = c \<or> last w = c" and "P [c]"
  shows "find P white_chars = (if ascii_white c then Some [c] else None)"
proof -
  have w: "w = [c] \<and> ascii_white c" if "w \<in> set white_chars" "P w" for w
    using white_chars_shape [OF that(1)] assms(1) assms(2) [OF that] by (metis last.simps list.sel(1))
  show ?thesis
  proof (cases "ascii_white c")
    case True
    have "find P white_chars = Some [c]"
      by (rule find_the [of P "[c]"]) (use assms(3) white_chars_ascii [OF True] w in blast)+
    with True show ?thesis by simp
  next
    case False
    with w have "find P white_chars = None" unfolding find_None_iff by blast
    with False show ?thesis by simp
  qed
qed

lemma white_prefix_ascii [text_simps]:
  assumes "ascii_char c"
  shows "white_prefix (c # t) = (if ascii_white c then 1 else 0)"
proof -
  have "hd w = c" if "w \<in> set white_chars" "prefix w (c # t)" for w
    using that(2) white_chars_shape [OF that(1)] by (cases w) auto
  then have "find (\<lambda>w. prefix w (c # t)) white_chars = (if ascii_white c then Some [c] else None)"
    using assms by (intro white_chars_find) auto
  then show ?thesis by (simp add: white_prefix_def)
qed

lemma white_suffix_ascii [text_simps]:
  assumes "ascii_char c"
  shows "white_suffix (t @ [c]) = (if ascii_white c then 1 else 0)"
proof -
  have "last w = c" if "w \<in> set white_chars" "suffix w (t @ [c])" for w
  proof -
    have "w \<noteq> []" using white_chars_shape [OF that(1)] by auto
    with that(2) show ?thesis by (auto simp: suffix_def dest: arg_cong [of _ _ last])
  qed
  moreover have "suffix [c] (t @ [c])" by (auto simp: suffix_def)
  ultimately have "find (\<lambda>w. suffix w (t @ [c])) white_chars = (if ascii_white c then Some [c] else None)"
    using assms by (intro white_chars_find) auto
  then show ?thesis by (simp add: white_suffix_def)
qed

text \<open>Text that starts and ends with a visible character.\<close>

definition visible :: "char \<Rightarrow> bool" where
  "visible c \<longleftrightarrow> ascii_char c \<and> \<not> ascii_white c"

definition trimmed :: "string \<Rightarrow> bool" where
  "trimmed s \<longleftrightarrow> s = [] \<or> visible (hd s) \<and> visible (last s)"

lemma trim_start_visible [text_simps]: "visible c \<Longrightarrow> trim_start (c # t) = c # t"
  by (simp add: trim_start.simps [of "c # t"] visible_def white_prefix_ascii)

lemma trim_start_space [text_simps]: "trim_start (CHR '' '' # t) = trim_start t"
  by (simp add: trim_start.simps [of "CHR '' '' # t"] white_prefix_ascii ascii_char_def ascii_white_def)

lemma trim_start_Nil [simp]: "trim_start [] = []"
  by (simp add: trim_start.simps)

lemma trim_end_visible [text_simps]: "visible c \<Longrightarrow> trim_end (t @ [c]) = t @ [c]"
  by (simp add: trim_end.simps [of "t @ [c]"] visible_def white_suffix_ascii)

lemma trim_end_Nil [simp]: "trim_end [] = []"
  by (simp add: trim_end.simps)

lemma trim_trimmed [text_simps]:
  assumes "trimmed s"
  shows "trim s = s" "trim (CHR '' '' # s) = s"
proof -
  have "trim_start s = s \<and> trim_end s = s"
  proof (cases "s = []")
    case False
    with assms have v: "visible (hd s)" "visible (last s)" by (auto simp: trimmed_def)
    have "trim_start s = s" using trim_start_visible [OF v(1), of "tl s"] False by simp
    moreover have "trim_end s = s" using trim_end_visible [OF v(2), of "butlast s"] False by simp
    ultimately show ?thesis by simp
  qed simp
  then show "trim s = s" "trim (CHR '' '' # s) = s" by (simp_all add: trim_def trim_start_space)
qed

text \<open>A token: visible characters only.\<close>

definition token :: "string \<Rightarrow> bool" where
  "token s \<longleftrightarrow> s \<noteq> [] \<and> list_all visible s"

lemma token_trimmed: "token s \<Longrightarrow> trimmed s"
  by (simp add: token_def trimmed_def list_all_iff)

lemma split_white_token:
  "list_all visible t \<Longrightarrow> split_white acc (t @ rest) = split_white (acc @ t) rest"
proof (induction t arbitrary: acc)
  case (Cons c t)
  then have "split_white acc (c # (t @ rest)) = split_white (acc @ [c]) (t @ rest)"
    by (subst split_white.simps) (simp add: white_prefix_ascii visible_def)
  with Cons show ?case by simp
qed simp

lemma split_white_space:
  "split_white acc (CHR '' '' # rest) = (if acc = [] then [] else [acc]) @ split_white [] rest"
  by (subst split_white.simps) (simp add: white_prefix_ascii ascii_char_def ascii_white_def)

lemma split_white_end: "split_white acc [] = (if acc = [] then [] else [acc])"
  by (simp add: split_white.simps)

lemma split_white_words:
  "token t \<Longrightarrow> split_white [] (t @ CHR '' '' # rest) = t # split_white [] rest"
  "token t \<Longrightarrow> split_white [] t = [t]"
  using split_white_token [of t "[]" "[]"]
  by (simp_all add: token_def split_white_token split_white_space split_white_end)

text \<open>Lines without CR are what a split at CR LF gives back.\<close>

definition crlf :: string where
  "crlf = [CHR 0x0D, CHR 0x0A]"

lemma split_crlf_line:
  "CHR 0x0D \<notin> set l \<Longrightarrow> split_crlf acc (l @ crlf @ rest) = (acc @ l) # split_crlf [] rest"
proof (induction l arbitrary: acc)
  case Nil
  then show ?case by (subst split_crlf.simps) (simp add: crlf_def)
next
  case (Cons c l)
  then have "split_crlf acc (c # (l @ crlf @ rest)) = split_crlf (acc @ [c]) (l @ crlf @ rest)"
    by (subst split_crlf.simps) (auto simp: prefix_def)
  with Cons show ?case by simp
qed

lemma split_crlf_Nil: "split_crlf acc [] = [acc]"
  by (simp add: split_crlf.simps)

lemma split_once_first: "c \<notin> set a \<Longrightarrow> split_once c (a @ c # b) = Some (a, b)"
  by (induction a) auto

lemma dec_visible: "list_all visible (dec n)"
proof -
  have "is_digit c \<Longrightarrow> visible c" for c
    by (auto simp: is_digit_def visible_def ascii_char_def ascii_white_def)
  then show ?thesis using dec_digits [of n] by (auto simp: list_all_iff)
qed

lemma dec_token [simp]: "token (dec n)"
  using dec_visible by (simp add: token_def)

end
