(* ===== verification/Plist_Types.thy ===== *)
theory Plist_Types
  imports Plist Rust_Str
begin

text \<open>
  The wrapper types of plist_types.rs, which accept the forms in which receivers write data, integers and flags.
  \<open>serde\<close> shows a value of a property list to a visitor; the methods a visitor has are modelled, the others give
  the error of its \<open>expecting\<close>. What the deserializer of the \<open>plist\<close> crate shows for a value, the types
  that \<open>serde\<close> itself provides and \<open>hex::decode\<close> are the record \<open>plist_de\<close>, with the documented
  behaviour of these crates in \<open>plist_de_ok\<close>.
\<close>

subsection \<open>What a visitor is shown\<close>

text \<open>A double; \<open>Finite m e\<close> is \<open>m * 2 ^ e\<close>, and \<open>Infinite\<close> has the sign.\<close>

datatype f64 = Finite int int | Infinite bool | NaN

datatype visit =
    V_bytes bytes
  | V_str string
  | V_i64 int
  | V_u64 u64
  | V_f64 f64
  | V_bool bool
  | V_other

text \<open>The cast \<open>as i64\<close> of a double cuts the fraction off, saturates, and makes NaN zero.\<close>

fun f64_as_i64 :: "f64 \<Rightarrow> int" where
  "f64_as_i64 (Finite m e) = clamp_i64 (trunc_pow2 m e)"
| "f64_as_i64 (Infinite neg) = (if neg then - (2 ^ 63) else 2 ^ 63 - 1)"
| "f64_as_i64 NaN = 0"

record plist_de =
  de_visit :: "plist \<Rightarrow> visit"
  de_u64 :: "plist \<Rightarrow> string + u64"
  de_f64 :: "plist \<Rightarrow> string + f64"
  de_str :: "plist \<Rightarrow> string + string"
  de_bool :: "plist \<Rightarrow> string + bool"
  hex_decode :: "string \<Rightarrow> string + bytes"

definition plist_de_ok :: "plist_de \<Rightarrow> bool" where
  "plist_de_ok D \<longleftrightarrow>
     (\<forall>n. 0 \<le> n \<and> n < 2 ^ 64 \<longrightarrow> de_visit D (PInt n) = V_u64 (word_of_int n) \<and> de_u64 D (PInt n) = Inr (word_of_int n)) \<and>
     (\<forall>n. - (2 ^ 63) \<le> n \<and> n < 0 \<longrightarrow> de_visit D (PInt n) = V_i64 n) \<and>
     (\<forall>m e. de_visit D (PReal m e) = V_f64 (Finite m e) \<and> de_f64 D (PReal m e) = Inr (Finite m e) \<and>
        (\<exists>x. de_u64 D (PReal m e) = Inl x)) \<and>
     (\<forall>s. de_visit D (PString s) = V_str s \<and> de_str D (PString s) = Inr s) \<and>
     (\<forall>b. de_visit D (PData b) = V_bytes b) \<and>
     (\<forall>b. de_visit D (PBool b) = V_bool b \<and> de_bool D (PBool b) = Inr b) \<and>
     (\<forall>b. hex_decode D (hex b) = Inr b)"

subsection \<open>The visitors\<close>

definition invalid_type :: "string \<Rightarrow> string" where
  "invalid_type expected = ''invalid type, expected '' @ expected"

definition visit_data :: "plist_de \<Rightarrow> visit \<Rightarrow> string + bytes" where
  "visit_data D v = (case v of
     V_bytes b \<Rightarrow> Inr b
   | V_str s \<Rightarrow> hex_decode D s
   | _ \<Rightarrow> Inl (invalid_type ''a plist data blob or a hex-encoded string''))"

definition visit_number :: "visit \<Rightarrow> string + int" where
  "visit_number v = (case v of
     V_i64 n \<Rightarrow> Inr n
   | V_u64 w \<Rightarrow> Inr (sint w)
   | V_f64 x \<Rightarrow> Inr (f64_as_i64 x)
   | _ \<Rightarrow> Inl (invalid_type ''an integer (or a real)''))"

definition visit_flag :: "visit \<Rightarrow> string + bool" where
  "visit_flag v = (case v of
     V_bool b \<Rightarrow> Inr b
   | V_i64 n \<Rightarrow> Inr (n \<noteq> 0)
   | V_u64 w \<Rightarrow> Inr (w \<noteq> 0)
   | _ \<Rightarrow> Inl (invalid_type ''a boolean (or a 0/1 integer)''))"

text \<open>The deserializers of the three types.\<close>

definition de_PlistData :: "plist_de \<Rightarrow> plist \<Rightarrow> string + bytes" where
  "de_PlistData D v = visit_data D (de_visit D v)"

definition de_PlistNumber :: "plist_de \<Rightarrow> plist \<Rightarrow> string + int" where
  "de_PlistNumber D v = visit_number (de_visit D v)"

definition de_PlistFlag :: "plist_de \<Rightarrow> plist \<Rightarrow> string + bool" where
  "de_PlistFlag D v = visit_flag (de_visit D v)"

subsection \<open>The forms accepted\<close>

lemma plist_deD:
  assumes "plist_de_ok D"
  shows "0 \<le> n \<Longrightarrow> n < 2 ^ 64 \<Longrightarrow> de_visit D (PInt n) = V_u64 (word_of_int n)"
    "0 \<le> n \<Longrightarrow> n < 2 ^ 64 \<Longrightarrow> de_u64 D (PInt n) = Inr (word_of_int n)"
    "- (2 ^ 63) \<le> n \<Longrightarrow> n < 0 \<Longrightarrow> de_visit D (PInt n) = V_i64 n"
    "de_visit D (PReal m e) = V_f64 (Finite m e)" "de_f64 D (PReal m e) = Inr (Finite m e)"
    "\<exists>x. de_u64 D (PReal m e) = Inl x"
    "de_visit D (PString s) = V_str s" "de_str D (PString s) = Inr s"
    "de_visit D (PData b) = V_bytes b" "de_visit D (PBool t) = V_bool t" "de_bool D (PBool t) = Inr t"
    "hex_decode D (hex b) = Inr b"
  using assms unfolding plist_de_ok_def by (blast, blast, blast, metis, metis, blast, metis, metis, metis, metis, metis, metis)

lemma plist_data_forms:
  "plist_de_ok D \<Longrightarrow> de_PlistData D (PData b) = Inr b" "plist_de_ok D \<Longrightarrow> de_PlistData D (PString (hex b)) = Inr b"
  by (simp_all add: de_PlistData_def visit_data_def plist_deD)

lemma plist_flag_forms:
  assumes "plist_de_ok D"
  shows "de_PlistFlag D (PBool b) = Inr b" "de_PlistFlag D (PInt 0) = Inr False" "de_PlistFlag D (PInt 1) = Inr True"
  using assms by (simp_all add: de_PlistFlag_def visit_flag_def plist_deD)

lemma sint_i64: "- (2 ^ 63) \<le> n \<Longrightarrow> n < 2 ^ 63 \<Longrightarrow> sint (word_of_int n :: u64) = n"
  by (simp add: signed_of_int signed_take_bit_int_eq_self)

text \<open>
  A number is read as itself in every form in which an \<open>i64\<close> can be written; as reals those that are whole
  numbers of at most 53 bits, here any multiple of a power of two.
\<close>

lemma plist_number_int:
  assumes "plist_de_ok D" "- (2 ^ 63) \<le> n" "n < 2 ^ 63"
  shows "de_PlistNumber D (PInt n) = Inr n"
  using assms sint_i64 [of n] by (cases "0 \<le> n") (simp_all add: de_PlistNumber_def visit_number_def plist_deD)

lemma plist_number_real:
  assumes "plist_de_ok D" "0 \<le> e" "- (2 ^ 63) \<le> m * 2 ^ nat e" "m * 2 ^ nat e < 2 ^ 63"
  shows "de_PlistNumber D (PReal m e) = Inr (m * 2 ^ nat e)"
  using assms by (simp add: de_PlistNumber_def visit_number_def plist_deD trunc_pow2_def clamp_i64_def)

text \<open>An unsigned integer beyond the range of \<open>i64\<close> is read as a negative one, where a real saturates.\<close>

lemma plist_number_wraps:
  assumes "plist_de_ok D" "2 ^ 63 \<le> n" "n < 2 ^ 64"
  shows "de_PlistNumber D (PInt n) = Inr (n - 2 ^ 64)"
proof -
  have "sint (word_of_int n :: u64) = sint (word_of_int (n - 2 ^ 64) :: u64)"
    by (rule arg_cong [where f = sint]) (simp add: word_of_int_eq_iff take_bit_eq_mod)
  also have "\<dots> = n - 2 ^ 64" by (rule sint_i64) (use assms in simp_all)
  finally show ?thesis using assms by (simp add: de_PlistNumber_def visit_number_def plist_deD)
qed

lemma plist_number_saturates:
  assumes "plist_de_ok D" "0 \<le> e" "2 ^ 63 \<le> m * 2 ^ nat e"
  shows "de_PlistNumber D (PReal m e) = Inr (2 ^ 63 - 1)"
  using assms by (simp add: de_PlistNumber_def visit_number_def plist_deD trunc_pow2_def clamp_i64_def)

end
