(* ===== verification/Info.thy ===== *)
theory Info
  imports Plist_Types
begin

text \<open>
  The receiver's capabilities (\<open>info.rs\<close>) and the request/response interface of the control channel
  (\<open>Transport\<close> and \<open>Response\<close> of transport.rs, \<open>ok_body\<close> of error.rs). The capabilities are read from
  a property list as the \<open>serde\<close> attributes of the structures say: a missing key gives the default, unknown keys
  are ignored, a value of the wrong type is an error. An \<open>i64\<close> is an integer here. A transport is a function from a request and the state of the outside
  world to a response, or an error, and the next state of the world.
\<close>

subsection \<open>Feature and status bits\<close>

definition FEATURE_SCREEN :: u64 where "FEATURE_SCREEN = push_bit 8 1"
definition FEATURE_AUDIO :: u64 where "FEATURE_AUDIO = push_bit 10 1"
definition FEATURE_FPSAP25 :: u64 where "FEATURE_FPSAP25 = push_bit 14 1"
definition FEATURE_HOMEKIT_PAIRING :: u64 where "FEATURE_HOMEKIT_PAIRING = push_bit 17 1"
definition FEATURE_SYSTEM_PAIRING :: u64 where "FEATURE_SYSTEM_PAIRING = push_bit 43 1"
definition FEATURE_TRANSIENT_PAIRING :: u64 where "FEATURE_TRANSIENT_PAIRING = push_bit 48 1"
definition FEATURE_UDP_MIRRORING :: u64 where "FEATURE_UDP_MIRRORING = push_bit 49 1"

definition FEATURE_THIRD_PARTY_RECEIVER_MASK :: u64 where
  "FEATURE_THIRD_PARTY_RECEIVER_MASK = push_bit 26 1 OR push_bit 51 1"

definition FEATURE_CORE_UTILS_PAIRING_MASK :: u64 where
  "FEATURE_CORE_UTILS_PAIRING_MASK = push_bit 38 1 OR push_bit 43 1 OR push_bit 46 1 OR push_bit 48 1"

definition STATUS_FLAG_PASSWORD_REQUIRED :: u64 where "STATUS_FLAG_PASSWORD_REQUIRED = push_bit 7 1"
definition STATUS_FLAG_PIN_REQUIRED_FOR_PAIRING :: u64 where
  "STATUS_FLAG_PIN_REQUIRED_FOR_PAIRING = push_bit 9 1"

lemmas info_consts =
  FEATURE_SCREEN_def FEATURE_AUDIO_def FEATURE_FPSAP25_def FEATURE_HOMEKIT_PAIRING_def
  FEATURE_SYSTEM_PAIRING_def FEATURE_TRANSIENT_PAIRING_def FEATURE_UDP_MIRRORING_def
  FEATURE_THIRD_PARTY_RECEIVER_MASK_def FEATURE_CORE_UTILS_PAIRING_MASK_def
  STATUS_FLAG_PASSWORD_REQUIRED_def STATUS_FLAG_PIN_REQUIRED_FOR_PAIRING_def

subsection \<open>Receiver information\<close>

record DisplayInfo =
  width :: int
  height :: int
  width_pixels :: int
  height_pixels :: int

record ReceiverInfo =
  name :: string
  model :: string
  manufacturer :: string
  device_id :: string
  protocol_version :: string
  source_version :: string
  features :: u64
  status_flags :: u64
  pk :: bytes
  has_udp_mirroring :: bool
  hdr_capability :: string
  volume_control_type :: int
  initial_volume :: f64
  keep_alive_send_stats_as_body :: bool
  ri_psi :: string
  ri_pi :: string
  mac_address :: string
  displays :: "DisplayInfo list"

definition ReceiverInfo_default :: ReceiverInfo where
  "ReceiverInfo_default =
    \<lparr>name = [], model = [], manufacturer = [], device_id = [], protocol_version = [], source_version = [], features = 0,
     status_flags = 0, pk = [], has_udp_mirroring = False, hdr_capability = [], volume_control_type = 0,
     initial_volume = Finite 0 0, keep_alive_send_stats_as_body = False, ri_psi = [], ri_pi = [], mac_address = [],
     displays = []\<rparr>"

text \<open>One field: \<open>#[serde(rename = k, default)]\<close>.\<close>

definition de_field :: "plist \<Rightarrow> string \<Rightarrow> 'a \<Rightarrow> (plist \<Rightarrow> string + 'a) \<Rightarrow> string + 'a" where
  "de_field v k dflt f = (case p_get k v of None \<Rightarrow> Inr dflt | Some x \<Rightarrow> f x)"

definition de_DisplayInfo :: "plist_de \<Rightarrow> plist \<Rightarrow> string + DisplayInfo" where
  "de_DisplayInfo D v =
    (if as_dictionary v = None then Inl (invalid_type ''struct DisplayInfo'')
     else
       rbind (de_field v ''width'' 0 (de_PlistNumber D)) (\<lambda>wd.
       rbind (de_field v ''height'' 0 (de_PlistNumber D)) (\<lambda>ht.
       rbind (de_field v ''widthPixels'' 0 (de_PlistNumber D)) (\<lambda>wp.
       rbind (de_field v ''heightPixels'' 0 (de_PlistNumber D)) (\<lambda>hp.
         Inr \<lparr>width = wd, height = ht, width_pixels = wp, height_pixels = hp\<rparr>)))))"

definition de_displays :: "plist_de \<Rightarrow> plist \<Rightarrow> string + DisplayInfo list" where
  "de_displays D v =
    (case as_array v of None \<Rightarrow> Inl (invalid_type ''a sequence'') | Some ds \<Rightarrow> map_res (de_DisplayInfo D) ds)"

definition de_ReceiverInfo :: "plist_de \<Rightarrow> plist \<Rightarrow> string + ReceiverInfo" where
  "de_ReceiverInfo D v =
    (if as_dictionary v = None then Inl (invalid_type ''struct ReceiverInfo'')
     else
       rbind (de_field v ''name'' [] (de_str D)) (\<lambda>v_name.
       rbind (de_field v ''model'' [] (de_str D)) (\<lambda>v_model.
       rbind (de_field v ''manufacturer'' [] (de_str D)) (\<lambda>v_manufacturer.
       rbind (de_field v ''deviceID'' [] (de_str D)) (\<lambda>v_device_id.
       rbind (de_field v ''protocolVersion'' [] (de_str D)) (\<lambda>v_protocol_version.
       rbind (de_field v ''sourceVersion'' [] (de_str D)) (\<lambda>v_source_version.
       rbind (de_field v ''features'' 0 (de_u64 D)) (\<lambda>v_features.
       rbind (de_field v ''statusFlags'' 0 (de_u64 D)) (\<lambda>v_status_flags.
       rbind (de_field v ''pk'' [] (de_PlistData D)) (\<lambda>v_pk.
       rbind (de_field v ''hasUDPMirroringSupport'' False (de_bool D)) (\<lambda>v_udp.
       rbind (de_field v ''receiverHDRCapability'' [] (de_str D)) (\<lambda>v_hdr.
       rbind (de_field v ''volumeControlType'' 0 (de_PlistNumber D)) (\<lambda>v_volume.
       rbind (de_field v ''initialVolume'' (Finite 0 0) (de_f64 D)) (\<lambda>v_initial.
       rbind (de_field v ''keepAliveSendStatsAsBody'' False (de_PlistFlag D)) (\<lambda>v_keep.
       rbind (de_field v ''psi'' [] (de_str D)) (\<lambda>v_psi.
       rbind (de_field v ''pi'' [] (de_str D)) (\<lambda>v_pi.
       rbind (de_field v ''macAddress'' [] (de_str D)) (\<lambda>v_mac.
       rbind (de_field v ''displays'' [] (de_displays D)) (\<lambda>v_displays.
         Inr \<lparr>name = v_name, model = v_model, manufacturer = v_manufacturer, device_id = v_device_id,
              protocol_version = v_protocol_version, source_version = v_source_version, features = v_features,
              status_flags = v_status_flags, pk = v_pk, has_udp_mirroring = v_udp, hdr_capability = v_hdr,
              volume_control_type = v_volume, initial_volume = v_initial, keep_alive_send_stats_as_body = v_keep,
              ri_psi = v_psi, ri_pi = v_pi, mac_address = v_mac, displays = v_displays\<rparr>)))))))))))))))))))"

text \<open>\<open>plist::from_bytes\<close> at this type.\<close>

definition parse_info :: "plist_lib \<Rightarrow> plist_de \<Rightarrow> bytes \<Rightarrow> ReceiverInfo option" where
  "parse_info L D b =
    (case plist_read L b of
       None \<Rightarrow> None
     | Some v \<Rightarrow> (case de_ReceiverInfo D v of Inl e \<Rightarrow> None | Inr i \<Rightarrow> Some i))"

definition requires_password :: "ReceiverInfo \<Rightarrow> bool" where
  "requires_password i \<longleftrightarrow> status_flags i AND STATUS_FLAG_PASSWORD_REQUIRED \<noteq> 0"

definition requires_pin_pairing :: "ReceiverInfo \<Rightarrow> bool" where
  "requires_pin_pairing i \<longleftrightarrow> status_flags i AND STATUS_FLAG_PIN_REQUIRED_FOR_PAIRING \<noteq> 0"

definition supports_transient_pairing :: "ReceiverInfo \<Rightarrow> bool" where
  "supports_transient_pairing i \<longleftrightarrow>
     features i AND (FEATURE_TRANSIENT_PAIRING OR FEATURE_SYSTEM_PAIRING) \<noteq> 0"

definition uses_modern_pairing :: "ReceiverInfo \<Rightarrow> bool" where
  "uses_modern_pairing i \<longleftrightarrow> features i AND FEATURE_CORE_UTILS_PAIRING_MASK \<noteq> 0 \<and>
     features i AND FEATURE_THIRD_PARTY_RECEIVER_MASK = 0"

definition prefers_legacy_pairing :: "ReceiverInfo \<Rightarrow> bool" where
  "prefers_legacy_pairing i \<longleftrightarrow> \<not> uses_modern_pairing i"

definition supports_fairplay_sap :: "ReceiverInfo \<Rightarrow> bool" where
  "supports_fairplay_sap i \<longleftrightarrow> features i AND FEATURE_FPSAP25 \<noteq> 0"

definition display_size :: "ReceiverInfo \<Rightarrow> int \<times> int" where
  "display_size i =
    (case displays i of
       [] \<Rightarrow> (0, 0)
     | d # _ \<Rightarrow>
         let (w, h) = (width_pixels d, height_pixels d);
             (w, h) = (if w \<le> 0 \<or> h \<le> 0 then (width d, height d) else (w, h))
         in if w \<le> 0 \<or> h \<le> 0 then (0, 0) else (w, h))"

lemma display_size_positive:
  "display_size i = (0, 0) \<or> (0 < fst (display_size i) \<and> 0 < snd (display_size i))"
  by (auto simp: display_size_def Let_def split: list.split)

lemma feature_bit: "f AND push_bit n 1 \<noteq> 0 \<longleftrightarrow> bit f n" for f :: u64
  by (simp only: push_bit_of_1 and_exp_eq_0_iff_not_bit not_not)

lemma feature_no_bit: "f AND push_bit n 1 = 0 \<longleftrightarrow> \<not> bit f n" for f :: u64
  using feature_bit [of f n] by blast

lemma feature_or: "f AND (a OR b) = 0 \<longleftrightarrow> f AND a = 0 \<and> f AND b = 0" for f :: u64
  by (simp only: bit.conj_disj_distrib or_eq_0_iff)

text \<open>The classification in terms of the bits themselves.\<close>

lemma uses_modern_pairing_iff:
  "uses_modern_pairing i \<longleftrightarrow>
     (bit (features i) 38 \<or> bit (features i) 43 \<or> bit (features i) 46 \<or> bit (features i) 48) \<and>
     \<not> bit (features i) 26 \<and> \<not> bit (features i) 51"
  by (simp only: uses_modern_pairing_def FEATURE_CORE_UTILS_PAIRING_MASK_def
      FEATURE_THIRD_PARTY_RECEIVER_MASK_def feature_or feature_no_bit) blast

lemma supports_transient_pairing_iff:
  "supports_transient_pairing i \<longleftrightarrow> bit (features i) 48 \<or> bit (features i) 43"
  by (simp only: supports_transient_pairing_def FEATURE_TRANSIENT_PAIRING_def
      FEATURE_SYSTEM_PAIRING_def feature_or feature_no_bit) blast

subsection \<open>Requests and responses\<close>

type_synonym headers = "string \<Rightarrow> string option"

record Response =
  status :: u16
  headers :: "string \<Rightarrow> string option"
  body :: bytes

record TransportRequest =
  rq_raw :: bool
  rq_method :: string
  rq_path :: string
  rq_content_type :: string
  rq_body :: bytes
  rq_headers :: "string \<Rightarrow> string option"

type_synonym 'w transport = "TransportRequest \<Rightarrow> 'w \<Rightarrow> Response res \<times> 'w"

definition ok_body :: "Response res \<Rightarrow> bytes res" where
  "ok_body r = rbind r (\<lambda>resp.
     if 200 \<le> status resp \<and> status resp < 300 then Inr (body resp)
     else Inl (Err (HttpStatus (status resp) (body resp))))"

text \<open>\<open>Error::ok_body(transport.request(...))\<close>\<close>

definition send :: "'w transport \<Rightarrow> TransportRequest \<Rightarrow> 'w \<Rightarrow> bytes res \<times> 'w" where
  "send tr rq w = (let (r, w) = tr rq w in (ok_body r, w))"

end
