(* ===== verification/Client_Pairing.thy ===== *)
theory Client_Pairing
  imports Tlv8 Srp Info
begin

text \<open>
  The sender's side of pairing (pairing.rs): headers and pairing types, pair-setup (M1 to M6), pair-verify
  (V1 to V4), the raw legacy variants and the flows that choose between them. Every operation takes the
  cryptography \<open>C\<close>, the transport \<open>tr\<close>, the session and the state of the world, and the random
  bytes it draws as explicit arguments; it returns its result, the session and the world. The session is
  returned on error paths too, with the changes made up to there.
\<close>

subsection \<open>Constants and small helpers\<close>

definition PAIRING_TYPE_LEGACY :: byte where "PAIRING_TYPE_LEGACY = 3"
definition PAIRING_TYPE_TRANSIENT :: byte where "PAIRING_TYPE_TRANSIENT = 4"
definition PAIRING_TYPE_SCREEN_CAPTURE :: byte where "PAIRING_TYPE_SCREEN_CAPTURE = 5"
definition PAIRING_FLAG_TRANSIENT :: u32 where "PAIRING_FLAG_TRANSIENT = 0x00000010"
definition DEFAULT_PAIRING_CLIENT_NAME :: string where "DEFAULT_PAIRING_CLIENT_NAME = ''lumen device''"

definition SCREEN_CAPTURE_ACL :: bytes where
  "SCREEN_CAPTURE_ACL = [0xe1, 0x57] @ s2b ''com.apple.ScreenCapture'' @ [0x01]"

lemmas pairing_types =
  PAIRING_TYPE_LEGACY_def PAIRING_TYPE_TRANSIENT_def PAIRING_TYPE_SCREEN_CAPTURE_def

definition chacha_nonce :: "string \<Rightarrow> bytes" where
  "chacha_nonce label = replicate 4 0 @ s2b label"

definition hkdf_sha512 :: "crypto \<Rightarrow> bytes \<Rightarrow> string \<Rightarrow> string \<Rightarrow> nat \<Rightarrow> bytes" where
  "hkdf_sha512 C secret salt info n = hkdf_expand C secret (s2b salt) (s2b info) n"

definition sha512_derive_key :: "crypto \<Rightarrow> string \<Rightarrow> bytes \<Rightarrow> bytes" where
  "sha512_derive_key C salt secret = take 16 (sha512 C (s2b salt @ secret))"

definition ctr_xor :: "crypto \<Rightarrow> bytes \<Rightarrow> bytes \<Rightarrow> nat \<Rightarrow> bytes \<Rightarrow> bytes" where
  "ctr_xor C key iv offset inp = xor_bytes inp (map (aes_ctr C key iv) [offset ..< offset + length inp])"

definition is_control_at :: "string \<Rightarrow> nat \<Rightarrow> bool" where
  "is_control_at s i \<longleftrightarrow>
     (let c = of_char (s ! i) :: nat in
      c < 32 \<or> c = 127 \<or>
      c = 194 \<and> i + 1 < length s \<and> 128 \<le> (of_char (s ! (i + 1)) :: nat) \<and> of_char (s ! (i + 1)) < (160 :: nat))"

definition sanitize_pairing_client_name :: "string \<Rightarrow> string" where
  "sanitize_pairing_client_name n =
    (let n = trim n in
     if n = [] \<or> list_ex (is_control_at n) [0 ..< length n] then DEFAULT_PAIRING_CLIENT_NAME else n)"

subsection \<open>The session\<close>

record PairKeys =
  ed25519_public :: bytes
  ed25519_seed :: bytes
  shared_secret :: bytes
  pk_write_key :: bytes
  pk_read_key :: bytes

record PairingSession =
  pairing_id :: string
  pair_type :: byte
  keys :: PairKeys
  info :: "ReceiverInfo option"
  encrypted :: bool
  enc_write_key :: bytes
  enc_read_key :: bytes

definition PairingSession_new :: "string \<Rightarrow> PairingSession" where
  "PairingSession_new i =
    \<lparr>pairing_id = i, pair_type = PAIRING_TYPE_SCREEN_CAPTURE,
     keys = \<lparr>ed25519_public = [], ed25519_seed = [], shared_secret = [], pk_write_key = [], pk_read_key = []\<rparr>,
     info = None, encrypted = False, enc_write_key = [], enc_read_key = []\<rparr>"

definition with_info :: "string \<Rightarrow> ReceiverInfo \<Rightarrow> PairingSession" where
  "with_info i ri = PairingSession_new i\<lparr>info := Some ri\<rparr>"

text \<open>\<open>self.info.as_ref().map_or(false, f)\<close>\<close>

definition info_test :: "(ReceiverInfo \<Rightarrow> bool) \<Rightarrow> PairingSession \<Rightarrow> bool" where
  "info_test f s = (case info s of None \<Rightarrow> False | Some i \<Rightarrow> f i)"

definition signing_key :: "PairingSession \<Rightarrow> bytes res" where
  "signing_key s =
    (if length (ed25519_seed (keys s)) = 32 then Inr (ed25519_seed (keys s))
     else Inl (protocol ''ed25519 seed is not 32 bytes''))"

definition generate_ed25519 :: "crypto \<Rightarrow> bytes \<Rightarrow> PairingSession \<Rightarrow> PairingSession" where
  "generate_ed25519 C seed s =
    s\<lparr>keys := (keys s)\<lparr>ed25519_seed := seed, ed25519_public := ed_public C seed\<rparr>\<rparr>"

definition effective_pair_type :: "PairingSession \<Rightarrow> byte" where
  "effective_pair_type s =
    (if info_test prefers_legacy_pairing s then PAIRING_TYPE_LEGACY
     else if pair_type s = 0 then PAIRING_TYPE_SCREEN_CAPTURE else pair_type s)"

definition transient_pairing_type :: "PairingSession \<Rightarrow> byte" where
  "transient_pairing_type s =
    (if info_test prefers_legacy_pairing s then PAIRING_TYPE_LEGACY else PAIRING_TYPE_TRANSIENT)"

definition pin_pairing_type :: "PairingSession \<Rightarrow> byte" where
  "pin_pairing_type s =
    (if info_test prefers_legacy_pairing s then PAIRING_TYPE_LEGACY else PAIRING_TYPE_SCREEN_CAPTURE)"

text \<open>\<open>host\<close> is the host name the environment gives.\<close>

definition pair_headers :: "string \<Rightarrow> PairingSession \<Rightarrow> headers" where
  "pair_headers host s =
    (if effective_pair_type s = PAIRING_TYPE_LEGACY
     then [''X-Apple-HKP'' \<mapsto> dec (unat PAIRING_TYPE_LEGACY)]
     else let h = [''X-Apple-Client-Name'' \<mapsto> sanitize_pairing_client_name host,
                   ''X-Apple-HKP'' \<mapsto> dec (unat (effective_pair_type s))]
          in if pairing_id s \<noteq> [] then h(''X-Apple-Client-ID'' \<mapsto> pairing_id s) else h)"

definition pair_verify_headers :: "string \<Rightarrow> PairingSession \<Rightarrow> headers" where
  "pair_verify_headers host s =
    (if effective_pair_type s \<noteq> PAIRING_TYPE_LEGACY then (pair_headers host s)(''X-Apple-PD'' \<mapsto> ''1'')
     else pair_headers host s)"

definition pin_start_headers :: "string \<Rightarrow> PairingSession \<Rightarrow> headers" where
  "pin_start_headers host s =
    (if effective_pair_type s \<noteq> PAIRING_TYPE_LEGACY
     then (pair_headers host s)(''X-Apple-SupportedPINLengths'' \<mapsto> ''4'') else pair_headers host s)"

definition post :: "string \<Rightarrow> bytes \<Rightarrow> headers \<Rightarrow> TransportRequest" where
  "post path b h = \<lparr>rq_raw = False, rq_method = ''POST'', rq_path = path,
     rq_content_type = ''application/octet-stream'', rq_body = b, rq_headers = h\<rparr>"

definition post_raw :: "string \<Rightarrow> bytes \<Rightarrow> headers \<Rightarrow> TransportRequest" where
  "post_raw path b h = (post path b h)\<lparr>rq_raw := True\<rparr>"

text \<open>\<open>if let Some(err) = m.get(&TLV_ERROR) { return Err(... err[0] ...) }\<close>; indexing panics on an
  empty value.\<close>

definition tlv_error :: "string \<Rightarrow> tlv_map \<Rightarrow> unit res" where
  "tlv_error what m = (case m TLV_ERROR of
     None \<Rightarrow> Inr ()
   | Some [] \<Rightarrow> Inl Panic
   | Some (e # _) \<Rightarrow> Inl (protocol (what @ '' error: '' @ dec (unat e))))"

subsection \<open>Pair-setup\<close>

text \<open>Sending one message and looking at the reply with \<open>f\<close>; an error returns the session as it is.\<close>

definition exchange ::
  "'w transport \<Rightarrow> TransportRequest \<Rightarrow> PairingSession \<Rightarrow> 'w \<Rightarrow>
   (bytes \<Rightarrow> 'w \<Rightarrow> 'a res \<times> PairingSession \<times> 'w) \<Rightarrow> 'a res \<times> PairingSession \<times> 'w" where
  "exchange tr rq s w f = (case send tr rq w of (Inl e, w) \<Rightarrow> (Inl e, s, w) | (Inr b, w) \<Rightarrow> f b w)"

definition check :: "'a res \<Rightarrow> PairingSession \<Rightarrow> 'w \<Rightarrow> ('a \<Rightarrow> 'b res \<times> PairingSession \<times> 'w) \<Rightarrow>
    'b res \<times> PairingSession \<times> 'w" where
  "check r s w f = (case r of Inl e \<Rightarrow> (Inl e, s, w) | Inr x \<Rightarrow> f x)"

text \<open>The part of \<open>complete_srp_exchange\<close> from M5 on, with the session key \<open>k\<close>.\<close>

definition setup_m5 :: "crypto \<Rightarrow> PairingSession \<Rightarrow> bytes \<Rightarrow> bytes \<Rightarrow> bytes" where
  "setup_m5 C s seed k =
    (let session_key = hkdf_sha512 C k ''Pair-Setup-Encrypt-Salt'' ''Pair-Setup-Encrypt-Info'' 32;
         sig_key = hkdf_sha512 C k ''Pair-Setup-Controller-Sign-Salt'' ''Pair-Setup-Controller-Sign-Info'' 32;
         client_id = s2b (pairing_id s);
         signature = ed_sign C seed (sig_key @ client_id @ ed25519_public (keys s));
         sub_items =
           [tlv_item TLV_IDENTIFIER client_id, tlv_item TLV_PUBLIC_KEY (ed25519_public (keys s)),
            tlv_item TLV_SIGNATURE signature] @
           (if effective_pair_type s = PAIRING_TYPE_SCREEN_CAPTURE
            then [tlv_item TLV_ACL SCREEN_CAPTURE_ACL] else []);
         sealed = aead_seal C session_key (chacha_nonce ''PS-Msg05'') [] (encode_ordered sub_items)
     in encode_ordered [tlv_item TLV_ENCRYPTED_DATA sealed, tlv_item TLV_STATE [0x05]])"

definition private_exponent :: "bytes \<Rightarrow> nat" where
  "private_exponent a_bytes = (let a = of_be a_bytes in if a = 0 then 1 else a)"

definition complete_srp_exchange ::
  "crypto \<Rightarrow> string \<Rightarrow> 'w transport \<Rightarrow> bytes \<Rightarrow> PairingSession \<Rightarrow> 'w \<Rightarrow> string \<Rightarrow> bytes \<Rightarrow> bytes \<Rightarrow>
   unit res \<times> PairingSession \<times> 'w" where
  "complete_srp_exchange C host tr a_bytes s w pin salt server_pub_b =
    (let username = s2b ''Pair-Setup'';
         x = srp_x C username (s2b pin) salt;
         a = private_exponent a_bytes;
         client_public = nat_be (srp_client_public a);
         b = of_be server_pub_b
     in if b = 0 \<or> srp_n \<le> b then (Inl (protocol ''M2: invalid server public key''), s, w)
     else
     let server_public = nat_be b;
         u = srp_u C client_public server_public;
         k = srp_session_key C (srp_shared_secret C server_pub_b a x u);
         m1_proof = srp_client_proof C username salt client_public server_public k;
         m3 = encode_ordered [tlv_item TLV_STATE [0x03],
                tlv_item TLV_PUBLIC_KEY (pad_to client_public 384), tlv_item TLV_PROOF m1_proof]
     in exchange tr (post ''/pair-setup'' m3 (pair_headers host s)) s w (\<lambda>m4_bytes w.
        let m4 = decode m4_bytes in
        check (tlv_error ''pair-setup M4'' m4) s w (\<lambda>_.
        let m2_proof_expected = srp_server_proof C client_public m1_proof k in
        if (case m4 TLV_PROOF of None \<Rightarrow> False | Some p \<Rightarrow> p \<noteq> m2_proof_expected)
        then (Inl (protocol ''server proof mismatch''), s, w)
        else check (signing_key s) s w (\<lambda>seed.
        exchange tr (post ''/pair-setup'' (setup_m5 C s seed k) (pair_headers host s)) s w (\<lambda>m6_bytes w.
        let m6 = decode m6_bytes in
        check (tlv_error ''pair-setup M6'' m6) s w (\<lambda>_.
          (Inr (), s\<lparr>keys := (keys s)\<lparr>shared_secret := k\<rparr>\<rparr>, w)))))))"

definition setup_after_m2 ::
  "crypto \<Rightarrow> string \<Rightarrow> 'w transport \<Rightarrow> bytes \<Rightarrow> string \<Rightarrow> string \<Rightarrow> bytes \<Rightarrow> PairingSession \<Rightarrow> 'w \<Rightarrow>
   unit res \<times> PairingSession \<times> 'w" where
  "setup_after_m2 C host tr a_bytes pin missing_key m1 s w =
    exchange tr (post ''/pair-setup'' m1 (pair_headers host s)) s w (\<lambda>m2_bytes w.
    let m2 = decode m2_bytes in
    check (tlv_error ''pair-setup M2'' m2) s w (\<lambda>_.
    check (ok_or (protocol ''M2: missing salt'') (m2 TLV_SALT)) s w (\<lambda>salt.
    check (ok_or (protocol missing_key) (m2 TLV_PUBLIC_KEY)) s w (\<lambda>server_pub_b.
      complete_srp_exchange C host tr a_bytes s w pin salt server_pub_b))))"

definition pair_setup ::
  "crypto \<Rightarrow> string \<Rightarrow> 'w transport \<Rightarrow> bytes \<Rightarrow> string \<Rightarrow> PairingSession \<Rightarrow> 'w \<Rightarrow>
   unit res \<times> PairingSession \<times> 'w" where
  "pair_setup C host tr a_bytes pin s w =
    setup_after_m2 C host tr a_bytes pin ''M2: missing public key''
      (encode_ordered [tlv_item TLV_METHOD [0x00], tlv_item TLV_STATE [0x01]]) s w"

definition pair_setup_transient ::
  "crypto \<Rightarrow> string \<Rightarrow> 'w transport \<Rightarrow> bytes \<Rightarrow> PairingSession \<Rightarrow> 'w \<Rightarrow>
   unit res \<times> PairingSession \<times> 'w" where
  "pair_setup_transient C host tr a_bytes s w =
    setup_after_m2 C host tr a_bytes [] ''M2: missing server public key''
      (encode_ordered [tlv_item TLV_METHOD [0x00], tlv_item TLV_STATE [0x01],
         tlv_item TLV_FLAGS (to_le 4 (unat PAIRING_FLAG_TRANSIENT))]) s w"

subsection \<open>Pair-verify\<close>

text \<open>The third message, with the client's signature under the verify key.\<close>

definition verify_v3 :: "crypto \<Rightarrow> PairingSession \<Rightarrow> bytes \<Rightarrow> bytes \<Rightarrow> bytes \<Rightarrow> bytes \<Rightarrow> bytes" where
  "verify_v3 C s seed verify_key client_public server_public =
    (let client_id = s2b (pairing_id s);
         signature = ed_sign C seed (client_public @ client_id @ server_public);
         sub_tlv = encode_ordered [tlv_item TLV_IDENTIFIER client_id, tlv_item TLV_SIGNATURE signature];
         sealed = aead_seal C verify_key (chacha_nonce ''PV-Msg03'') [] sub_tlv
     in encode_ordered [tlv_item TLV_STATE [0x03], tlv_item TLV_ENCRYPTED_DATA sealed])"

text \<open>Entering the encrypted state with the keys derived from the shared secret.\<close>

definition enter_encrypted :: "crypto \<Rightarrow> bytes \<Rightarrow> PairingSession \<Rightarrow> PairingSession" where
  "enter_encrypted C shared s =
    (let wk = hkdf_sha512 C shared ''Control-Salt'' ''Control-Write-Encryption-Key'' 32;
         rk = hkdf_sha512 C shared ''Control-Salt'' ''Control-Read-Encryption-Key'' 32
     in s\<lparr>keys := (keys s)\<lparr>shared_secret := shared, pk_write_key := wk, pk_read_key := rk\<rparr>,
          enc_write_key := wk, enc_read_key := rk, encrypted := True\<rparr>)"

definition pair_verify ::
  "crypto \<Rightarrow> string \<Rightarrow> 'w transport \<Rightarrow> bytes \<Rightarrow> PairingSession \<Rightarrow> 'w \<Rightarrow>
   unit res \<times> PairingSession \<times> 'w" where
  "pair_verify C host tr client_private s w =
    (let client_public = dh_base C client_private;
         v1 = encode_ordered [tlv_item TLV_STATE [0x01], tlv_item TLV_PUBLIC_KEY client_public]
     in exchange tr (post ''/pair-verify'' v1 (pair_verify_headers host s)) s w (\<lambda>v2_bytes w.
        let v2 = decode v2_bytes in
        check (tlv_error ''pair-verify V2'' v2) s w (\<lambda>_.
        check (ok_or (protocol ''V2: missing server public key'') (v2 TLV_PUBLIC_KEY)) s w (\<lambda>server_key_data.
        let server_encrypted = (case v2 TLV_ENCRYPTED_DATA of None \<Rightarrow> [] | Some e \<Rightarrow> e) in
        if length server_key_data < 32 then (Inl (protocol ''V2: server public key too short''), s, w)
        else
        let server_public = take 32 server_key_data;
            shared = dh_shared C client_private server_public;
            verify_key = hkdf_sha512 C shared ''Pair-Verify-Encrypt-Salt'' ''Pair-Verify-Encrypt-Info'' 32
        in check (if server_encrypted = [] then Inr ()
                  else rbind (ok_or (Err (Crypto ''decrypt V2''))
                    (aead_open C verify_key (chacha_nonce ''PV-Msg02'') [] server_encrypted)) (\<lambda>_. Inr ()))
             s w (\<lambda>_.
        check (signing_key s) s w (\<lambda>seed.
        exchange tr (post ''/pair-verify'' (verify_v3 C s seed verify_key client_public server_public)
                       (pair_verify_headers host s)) s w (\<lambda>v4_bytes w.
        check (if v4_bytes = [] then Inr () else tlv_error ''pair-verify V4'' (decode v4_bytes)) s w (\<lambda>_.
          (Inr (), enter_encrypted C shared s, w)))))))))"

definition raw_pair_verify ::
  "crypto \<Rightarrow> 'w transport \<Rightarrow> bytes \<Rightarrow> PairingSession \<Rightarrow> 'w \<Rightarrow> unit res \<times> PairingSession \<times> 'w" where
  "raw_pair_verify C tr client_private s w =
    (let client_public = dh_base C client_private in
     if length (ed25519_public (keys s)) \<noteq> 32 then (Inl Panic, s, w)
     else
     let v1 = [0x01, 0, 0, 0] @ client_public @ ed25519_public (keys s)
     in exchange tr (post_raw ''/pair-verify'' v1 Map.empty) s w (\<lambda>v2 w.
        if length v2 \<noteq> 96
        then (Inl (protocol (''V2: expected 96 bytes, got '' @ dec (length v2))), s, w)
        else
        let server_public = take 32 v2;
            shared = dh_shared C client_private server_public;
            aes_key = sha512_derive_key C ''Pair-Verify-AES-Key'' shared;
            aes_iv = sha512_derive_key C ''Pair-Verify-AES-IV'' shared;
            server_sig = ctr_xor C aes_key aes_iv 0 (drop 32 v2);
            info_pk = (case info s of None \<Rightarrow> None | Some i \<Rightarrow> if 32 \<le> length (pk i) then Some (pk i) else None)
        in check (ok_or (protocol ''server Ed25519 public key not available (call GET /info first)'') info_pk)
             s w (\<lambda>server_ed_pub.
        let server_ed_pub = take 32 server_ed_pub in
        if \<not> ed_valid_key C server_ed_pub then (Inl (Err (Crypto ''server ed25519 pub'')), s, w)
        else if \<not> ed_verify C server_ed_pub (server_public @ client_public) server_sig
        then (Inl (Err (Crypto ''server signature verification failed'')), s, w)
        else check (signing_key s) s w (\<lambda>seed.
        let client_sig = ed_sign C seed (client_public @ server_public);
            v3 = [0, 0, 0, 0] @ ctr_xor C aes_key aes_iv 64 client_sig
        in exchange tr (post_raw ''/pair-verify'' v3 Map.empty) s w (\<lambda>v4 w.
          (Inr (), s\<lparr>keys := (keys s)\<lparr>shared_secret := shared\<rparr>\<rparr>, w))))))"

subsection \<open>The flows\<close>

definition raw_pair_setup ::
  "'w transport \<Rightarrow> PairingSession \<Rightarrow> 'w \<Rightarrow> bytes res \<times> PairingSession \<times> 'w" where
  "raw_pair_setup tr s w =
    exchange tr (post ''/pair-setup'' (ed25519_public (keys s)) Map.empty) s w (\<lambda>resp w.
      if length resp \<noteq> 32
      then (Inl (protocol (''pair-setup: expected 32 bytes, got '' @ dec (length resp))), s, w)
      else (Inr resp, s, w))"

definition and_then :: "unit res \<times> PairingSession \<times> 'w \<Rightarrow>
    (PairingSession \<Rightarrow> 'w \<Rightarrow> unit res \<times> PairingSession \<times> 'w) \<Rightarrow> unit res \<times> PairingSession \<times> 'w" where
  "and_then m f = (case m of (Inl e, s, w) \<Rightarrow> (Inl e, s, w) | (Inr _, s, w) \<Rightarrow> f s w)"

text \<open>The random bytes of a flow: the identity's seed, the SRP exponent, the two X25519 private keys.\<close>

record pairing_rnd =
  rnd_seed :: bytes
  rnd_a :: bytes
  rnd_dh :: bytes
  rnd_dh2 :: bytes

definition perform_transient_setup_and_verify ::
  "crypto \<Rightarrow> string \<Rightarrow> 'w transport \<Rightarrow> pairing_rnd \<Rightarrow> PairingSession \<Rightarrow> 'w \<Rightarrow>
   unit res \<times> PairingSession \<times> 'w" where
  "perform_transient_setup_and_verify C host tr rnd s w =
    (let modern_transient = info_test (\<lambda>i. uses_modern_pairing i \<and> supports_transient_pairing i) s;
         setup_verify = (\<lambda>s w. and_then (pair_setup_transient C host tr (rnd_a rnd) s w)
           (pair_verify C host tr (rnd_dh rnd)))
     in if modern_transient then setup_verify s w
        else (case raw_pair_setup tr s w of
            (Inr server_pub, s, w) \<Rightarrow>
              let i = (case info s of None \<Rightarrow> ReceiverInfo_default | Some i \<Rightarrow> i)
              in raw_pair_verify C tr (rnd_dh rnd) (s\<lparr>info := Some (i\<lparr>pk := server_pub\<rparr>)\<rparr>) w
          | (Inl (Err _), s, w) \<Rightarrow> setup_verify s w
          | (Inl Panic, s, w) \<Rightarrow> (Inl Panic, s, w)))"

definition start_pin_display ::
  "string \<Rightarrow> 'w transport \<Rightarrow> PairingSession \<Rightarrow> 'w \<Rightarrow> unit res \<times> PairingSession \<times> 'w" where
  "start_pin_display host tr s w =
    (let s = s\<lparr>pair_type := pin_pairing_type s\<rparr>;
         rq = (post ''/pair-pin-start'' [] (pin_start_headers host s))\<lparr>rq_content_type := []\<rparr>
     in case tr rq w of
          (Inl e, w) \<Rightarrow> (Inl e, s, w)
        | (Inr resp, w) \<Rightarrow>
            if status resp = 453 then (Inr (), s, w)
            else (rbind (ok_body (Inr resp)) (\<lambda>_. Inr ()), s, w))"

definition pair_with_pin ::
  "crypto \<Rightarrow> string \<Rightarrow> 'w transport \<Rightarrow> pairing_rnd \<Rightarrow> string \<Rightarrow> PairingSession \<Rightarrow> 'w \<Rightarrow>
   unit res \<times> PairingSession \<times> 'w" where
  "pair_with_pin C host tr rnd pin s w =
    (let s = s\<lparr>pair_type := pin_pairing_type s\<rparr>;
         s = generate_ed25519 C (rnd_seed rnd) s
     in and_then (pair_setup C host tr (rnd_a rnd) pin s w) (pair_verify C host tr (rnd_dh rnd)))"

definition pair_transient ::
  "crypto \<Rightarrow> string \<Rightarrow> 'w transport \<Rightarrow> pairing_rnd \<Rightarrow> PairingSession \<Rightarrow> 'w \<Rightarrow>
   unit res \<times> PairingSession \<times> 'w" where
  "pair_transient C host tr rnd s w =
    (if info_test requires_pin_pairing s then (Inl (protocol ''receiver requires PIN pairing''), s, w)
     else let s = s\<lparr>pair_type := transient_pairing_type s\<rparr>;
              s = generate_ed25519 C (rnd_seed rnd) s
          in perform_transient_setup_and_verify C host tr rnd s w)"

definition reconnect ::
  "crypto \<Rightarrow> string \<Rightarrow> 'w transport \<Rightarrow> pairing_rnd \<Rightarrow> PairingSession \<Rightarrow> 'w \<Rightarrow>
   unit res \<times> PairingSession \<times> 'w" where
  "reconnect C host tr rnd s w =
    (if length (ed25519_seed (keys s)) \<noteq> 32 \<or> pairing_id s = []
     then (Inl (protocol ''reconnect requires saved pairing_id + ed25519_seed''), s, w)
     else case pair_verify C host tr (rnd_dh rnd) s w of
         (Inr _, s, w) \<Rightarrow> (Inr (), s, w)
       | (Inl (Err _), s, w) \<Rightarrow> raw_pair_verify C tr (rnd_dh2 rnd) s w
       | (Inl Panic, s, w) \<Rightarrow> (Inl Panic, s, w))"

end
