(* ===== verification/Hap_Framing.thy ===== *)
theory Hap_Framing
  imports Crypto
begin

text \<open>
  The HAP encrypted framing of the control and event channels, which the source has three
  times: \<open>Client::hap_encrypt\<close> and \<open>read_encrypted_frame\<close> (client.rs), \<open>HapStream\<close>
  (receiver/pairing.rs), and \<open>EventChannel\<close> (event_channel.rs). A socket's incoming side is the
  list of bytes that will arrive before the end of stream; reading takes them from the front.
  The locale \<open>frame_link\<close> is the contract between a writer and a reader; it is interpreted on the
  client-to-receiver, receiver-to-client and event channel directions.
\<close>

subsection \<open>Sockets and nonces\<close>

text \<open>\<open>read_exact\<close>: the bytes and what follows them, or an error when the stream ends first.\<close>

definition read_exact :: "string \<Rightarrow> nat \<Rightarrow> bytes \<Rightarrow> bytes res \<times> bytes" where
  "read_exact what n inp =
    (if length inp < n then (Inl (Err (Transport what)), []) else (Inr (take n inp), drop n inp))"

text \<open>The 12-byte nonce: four zero bytes and the counter in little-endian order.\<close>

definition counter_nonce :: "u64 \<Rightarrow> bytes" where
  "counter_nonce counter = replicate 4 0 @ to_le 8 (unat counter)"

definition HAP_FRAME_CHUNK :: nat where "HAP_FRAME_CHUNK = 1024"

definition EVENT_FRAME_SIZE_LIMIT :: nat where "EVENT_FRAME_SIZE_LIMIT = 1024"

text \<open>What one frame carries, and what a sequence of frames does.\<close>

definition hap_frame :: "crypto \<Rightarrow> bytes \<Rightarrow> u64 \<Rightarrow> bytes \<Rightarrow> bytes" where
  "hap_frame C key n chunk =
    to_le 2 (length chunk) @ aead_seal C key (counter_nonce n) (to_le 2 (length chunk)) chunk"

fun hap_frames :: "crypto \<Rightarrow> bytes \<Rightarrow> u64 \<Rightarrow> bytes list \<Rightarrow> bytes" where
  "hap_frames C key n [] = []"
| "hap_frames C key n (chunk # chunks) = hap_frame C key n chunk @ hap_frames C key (n + 1) chunks"

function chunks_of :: "bytes \<Rightarrow> bytes list" where
  "chunks_of p = (if p = [] then [] else take 1024 p # chunks_of (drop 1024 p))"
  by pat_completeness auto
termination
  by (relation "measure length") auto

declare chunks_of.simps [simp del]

lemma chunks_of_Nil [simp]: "chunks_of [] = []"
  by (simp add: chunks_of.simps)

lemma concat_chunks_of [simp]: "concat (chunks_of p) = p"
  by (induction p rule: chunks_of.induct) (subst chunks_of.simps, simp)

lemma chunks_of_sizes: "c \<in> set (chunks_of p) \<Longrightarrow> 1 \<le> length c \<and> length c \<le> 1024"
proof (induction p rule: chunks_of.induct)
  case (1 p)
  then show ?case
    by (subst (asm) (2) chunks_of.simps) (auto split: if_splits simp: Suc_le_eq)
qed

lemma length_counter_nonce [simp]: "length (counter_nonce n) = 12"
  by (simp add: counter_nonce_def length_to_le del: to_le_numeral)

lemma counter_nonce_inj: "counter_nonce m = counter_nonce n \<longleftrightarrow> m = n"
proof
  assume "counter_nonce m = counter_nonce n"
  then have "to_le 8 (unat m) = to_le 8 (unat n)"
    by (simp add: counter_nonce_def del: to_le_numeral)
  moreover have "unat m < 256 ^ 8" "unat n < 256 ^ 8"
    using unsigned_less [of m] unsigned_less [of n] by simp_all
  ultimately have "unat m = unat n" by (rule to_le_inj)
  then show "m = n" by (simp add: word_unat_eq_iff)
qed simp

subsection \<open>The client\<close>

text \<open>\<open>hap_encrypt\<close>, from the key and write nonce: the framed bytes and the nonce after them.\<close>

function hap_encrypt :: "crypto \<Rightarrow> bytes \<Rightarrow> u64 \<Rightarrow> bytes \<Rightarrow> bytes \<times> u64" where
  "hap_encrypt C key nonce rest =
    (if rest = [] then ([], nonce)
     else let chunk = (if HAP_FRAME_CHUNK < length rest then take HAP_FRAME_CHUNK rest else rest);
              aad = to_le 2 (length chunk);
              sealed = aead_seal C key (counter_nonce nonce) aad chunk;
              (result, nonce') = hap_encrypt C key (nonce + 1) (drop (length chunk) rest)
          in (aad @ sealed @ result, nonce'))"
  by pat_completeness auto
termination
  by (relation "measure (\<lambda>(C, key, nonce, rest). length rest)") (auto simp: HAP_FRAME_CHUNK_def)

declare hap_encrypt.simps [simp del]

text \<open>\<open>read_encrypted_frame\<close>: the plaintext of one frame, the nonce and what is left to read.\<close>

definition read_encrypted_frame :: "crypto \<Rightarrow> bytes \<Rightarrow> u64 \<Rightarrow> bytes \<Rightarrow> bytes res \<times> u64 \<times> bytes" where
  "read_encrypted_frame C key nonce inp =
    (case read_exact ''read frame length'' 2 inp of
       (Inl e, inp) \<Rightarrow> (Inl e, nonce, inp)
     | (Inr length_bytes, inp) \<Rightarrow>
         let plaintext_len = of_le length_bytes in
         if plaintext_len = 0 \<or> HAP_FRAME_CHUNK < plaintext_len
         then (Inl (protocol (''suspicious frame length '' @ dec plaintext_len @ '' (expected 1-1024)'')), nonce, inp)
         else (case read_exact ''read frame ciphertext'' (plaintext_len + 16) inp of
             (Inl e, inp) \<Rightarrow> (Inl e, nonce, inp)
           | (Inr sealed, inp) \<Rightarrow>
               (ok_or (Err (Crypto ''decrypt frame''))
                  (aead_open C key (counter_nonce nonce) length_bytes sealed), nonce + 1, inp)))"

subsection \<open>The receiver's stream and the event channel\<close>

text \<open>
  \<open>HapStream\<close> and \<open>EventChannel\<close> keep the same fields: keys (of the two ciphers), nonces and the
  plaintext not yet handed out; \<open>conn\<close> is the incoming side of the socket.
\<close>

record HapStream =
  read_key :: bytes
  write_key :: bytes
  read_nonce :: u64
  write_nonce :: u64
  read_buf :: bytes
  conn :: bytes

definition HapStream_new :: "bytes \<Rightarrow> bytes \<Rightarrow> bytes \<Rightarrow> HapStream" where
  "HapStream_new inp rk wk =
    \<lparr>read_key = rk, write_key = wk, read_nonce = 0, write_nonce = 0, read_buf = [], conn = inp\<rparr>"

text \<open>Handing out at most \<open>d\<close> bytes of the buffer.\<close>

definition hap_take :: "nat \<Rightarrow> HapStream \<Rightarrow> bytes \<times> HapStream" where
  "hap_take d s =
    (let n = min d (length (read_buf s))
     in (take n (read_buf s), s\<lparr>read_buf := drop n (read_buf s)\<rparr>))"

text \<open>\<open>HapStream::read\<close> into a buffer of \<open>d\<close> bytes; the nonce moves only after a frame opened.\<close>

definition hap_read :: "crypto \<Rightarrow> nat \<Rightarrow> HapStream \<Rightarrow> bytes res \<times> HapStream" where
  "hap_read C d s =
    (if d = 0 then (Inr [], s)
     else if read_buf s = [] then
       (case read_exact ''eof'' 2 (conn s) of
          (Inl e, inp) \<Rightarrow> (Inl e, s\<lparr>conn := inp\<rparr>)
        | (Inr size_bytes, inp) \<Rightarrow>
            let size = of_le size_bytes; s = s\<lparr>conn := inp\<rparr> in
            if size < 1 \<or> 1024 < size
            then (Inl (Err (Transport (''invalid HAP frame size '' @ dec size))), s)
            else (case read_exact ''eof'' (size + 16) (conn s) of
                (Inl e, inp) \<Rightarrow> (Inl e, s\<lparr>conn := inp\<rparr>)
              | (Inr sealed, inp) \<Rightarrow>
                  let s = s\<lparr>conn := inp\<rparr> in
                  (case aead_open C (read_key s) (counter_nonce (read_nonce s)) size_bytes sealed of
                     None \<Rightarrow> (Inl (Err (Transport ''HAP frame decrypt failed'')), s)
                   | Some plain \<Rightarrow>
                       let s = s\<lparr>read_nonce := read_nonce s + 1, read_buf := plain\<rparr>;
                           (out, s) = hap_take d s
                       in (Inr out, s))))
     else let (out, s) = hap_take d s in (Inr out, s))"

text \<open>\<open>EventChannel::read_inner\<close> on an encrypted channel; the nonce moves before decryption.\<close>

definition event_read :: "crypto \<Rightarrow> nat \<Rightarrow> HapStream \<Rightarrow> bytes res \<times> HapStream" where
  "event_read C d s =
    (if d = 0 then (Inr [], s)
     else if read_buf s = [] then
       (case read_exact ''read event frame size'' 2 (conn s) of
          (Inl e, inp) \<Rightarrow> (Inl e, s\<lparr>conn := inp\<rparr>)
        | (Inr size_bytes, inp) \<Rightarrow>
            let size = of_le size_bytes; s = s\<lparr>conn := inp\<rparr> in
            if \<not> (1 \<le> size \<and> size \<le> EVENT_FRAME_SIZE_LIMIT)
            then (Inl (protocol (''invalid event frame size '' @ dec size)), s)
            else (case read_exact ''read event frame payload'' (size + 16) (conn s) of
                (Inl e, inp) \<Rightarrow> (Inl e, s\<lparr>conn := inp\<rparr>)
              | (Inr sealed, inp) \<Rightarrow>
                  let nonce = counter_nonce (read_nonce s);
                      s = s\<lparr>conn := inp, read_nonce := read_nonce s + 1\<rparr> in
                  (case aead_open C (read_key s) nonce size_bytes sealed of
                     None \<Rightarrow> (Inl (Err (Crypto ''decrypt event frame'')), s)
                   | Some plain \<Rightarrow>
                       let (out, s) = hap_take d (s\<lparr>read_buf := plain\<rparr>) in (Inr out, s))))
     else let (out, s) = hap_take d s in (Inr out, s))"

text \<open>\<open>HapStream::write\<close>: the loop over \<open>offset\<close>; the bytes written and the stream after.\<close>

function hap_write_loop :: "crypto \<Rightarrow> bytes \<Rightarrow> nat \<Rightarrow> HapStream \<Rightarrow> bytes \<times> HapStream" where
  "hap_write_loop C plain offset s =
    (if offset < length plain then
       let chunk = drop offset (take (min (offset + 1024) (length plain)) plain);
           size_bytes = to_le 2 (length chunk);
           sealed = aead_seal C (write_key s) (counter_nonce (write_nonce s)) size_bytes chunk;
           s = s\<lparr>write_nonce := write_nonce s + 1\<rparr>;
           (out, s) = hap_write_loop C plain (offset + length chunk) s
       in (size_bytes @ sealed @ out, s)
     else ([], s))"
  by pat_completeness auto
termination
  by (relation "measure (\<lambda>(C, plain, offset, s). length plain - offset)") auto

declare hap_write_loop.simps [simp del]

definition hap_write :: "crypto \<Rightarrow> bytes \<Rightarrow> HapStream \<Rightarrow> bytes \<times> HapStream" where
  "hap_write C plain s = hap_write_loop C plain 0 s"

text \<open>\<open>EventChannel::write\<close> on an encrypted channel.\<close>

function event_write :: "crypto \<Rightarrow> bytes \<Rightarrow> HapStream \<Rightarrow> bytes \<times> HapStream" where
  "event_write C rest s =
    (if rest = [] then ([], s)
     else let chunk = (if EVENT_FRAME_SIZE_LIMIT < length rest then take EVENT_FRAME_SIZE_LIMIT rest else rest);
              size_bytes = to_le 2 (length chunk);
              sealed = aead_seal C (write_key s) (counter_nonce (write_nonce s)) size_bytes chunk;
              (out, s) = event_write C (drop (length chunk) rest) (s\<lparr>write_nonce := write_nonce s + 1\<rparr>)
          in (size_bytes @ sealed @ out, s))"
  by pat_completeness auto
termination
  by (relation "measure (\<lambda>(C, rest, s). length rest)") (auto simp: EVENT_FRAME_SIZE_LIMIT_def)

declare event_write.simps [simp del]

text \<open>\<open>EventChannel::new\<close>: the directions are named from the receiver's side.\<close>

definition event_channel_new :: "crypto \<Rightarrow> bytes \<Rightarrow> bool \<Rightarrow> bytes \<Rightarrow> HapStream option res" where
  "event_channel_new C inp encrypted shared_secret =
    (if encrypted then
       if shared_secret = []
       then Inl (protocol ''encrypted event channel has no pair-verify shared secret'')
       else Inr (Some (HapStream_new inp
              (hkdf_expand C shared_secret (s2b ''Events-Salt'') (s2b ''Events-Write-Encryption-Key'') 32)
              (hkdf_expand C shared_secret (s2b ''Events-Salt'') (s2b ''Events-Read-Encryption-Key'') 32)))
     else Inr None)"

subsection \<open>All writers produce the same frames\<close>

lemma chunks_of_Cons:
  "p \<noteq> [] \<Longrightarrow> chunks_of p = take 1024 p # chunks_of (drop 1024 p)"
  by (subst chunks_of.simps) simp

lemma chunk_eq: "(if 1024 < length p then take 1024 p else p) = take 1024 p"
  by simp

lemma drop_chunk: "drop (length (take 1024 p)) p = drop 1024 p"
  by (cases "1024 < length p") auto

lemma hap_encrypt_step:
  "p \<noteq> [] \<Longrightarrow> hap_encrypt C key n p =
    (hap_frame C key n (take 1024 p) @ fst (hap_encrypt C key (n + 1) (drop 1024 p)),
     snd (hap_encrypt C key (n + 1) (drop 1024 p)))"
  by (subst hap_encrypt.simps)
    (simp only: HAP_FRAME_CHUNK_def chunk_eq if_False Let_def case_prod_unfold drop_chunk
      hap_frame_def append_assoc)

lemma hap_encrypt_frames:
  "hap_encrypt C key n p = (hap_frames C key n (chunks_of p), n + of_nat (length (chunks_of p)))"
proof (induction p arbitrary: n rule: chunks_of.induct)
  case (1 p)
  show ?case
  proof (cases "p = []")
    case True
    then show ?thesis by (simp add: hap_encrypt.simps)
  next
    case False
    with 1 show ?thesis by (simp add: hap_encrypt_step chunks_of_Cons)
  qed
qed

lemma event_write_step:
  "p \<noteq> [] \<Longrightarrow> event_write C p s =
    (hap_frame C (write_key s) (write_nonce s) (take 1024 p) @
       fst (event_write C (drop 1024 p) (s\<lparr>write_nonce := write_nonce s + 1\<rparr>)),
     snd (event_write C (drop 1024 p) (s\<lparr>write_nonce := write_nonce s + 1\<rparr>)))"
  by (subst event_write.simps)
    (simp only: EVENT_FRAME_SIZE_LIMIT_def chunk_eq if_False Let_def case_prod_unfold drop_chunk
      hap_frame_def append_assoc)

lemma event_write_frames:
  "event_write C p s = (hap_frames C (write_key s) (write_nonce s) (chunks_of p),
     s\<lparr>write_nonce := write_nonce s + of_nat (length (chunks_of p))\<rparr>)"
proof (induction p arbitrary: s rule: chunks_of.induct)
  case (1 p)
  show ?case
  proof (cases "p = []")
    case True
    then show ?thesis by (simp add: event_write.simps)
  next
    case False
    with 1 show ?thesis by (simp add: event_write_step chunks_of_Cons)
  qed
qed

lemma hap_write_loop_step:
  assumes "i < length p"
  shows "hap_write_loop C p i s =
    (hap_frame C (write_key s) (write_nonce s) (take 1024 (drop i p)) @
       fst (hap_write_loop C p (i + length (take 1024 (drop i p))) (s\<lparr>write_nonce := write_nonce s + 1\<rparr>)),
     snd (hap_write_loop C p (i + length (take 1024 (drop i p))) (s\<lparr>write_nonce := write_nonce s + 1\<rparr>)))"
proof -
  have c: "drop i (take (min (i + 1024) (length p)) p) = take 1024 (drop i p)"
    by (cases "i + 1024 < length p") (auto simp: drop_take min_def)
  show ?thesis
    using assms
    by (subst hap_write_loop.simps)
      (simp only: c if_True Let_def case_prod_unfold hap_frame_def append_assoc)
qed

lemma hap_write_loop_frames:
  "hap_write_loop C p i s = (hap_frames C (write_key s) (write_nonce s) (chunks_of (drop i p)),
     s\<lparr>write_nonce := write_nonce s + of_nat (length (chunks_of (drop i p)))\<rparr>)"
proof (induction "length p - i" arbitrary: i s rule: less_induct)
  case less
  show ?case
  proof (cases "i < length p")
    case False
    then show ?thesis by (simp add: hap_write_loop.simps)
  next
    case True
    define j where "j = i + length (take 1024 (drop i p))"
    have j: "drop j p = drop 1024 (drop i p)"
      by (cases "i + 1024 < length p") (auto simp: j_def add.commute)
    have "length p - j < length p - i" using True by (simp add: j_def)
    note IH = less [OF this, of "s\<lparr>write_nonce := write_nonce s + 1\<rparr>"]
    have "chunks_of (drop i p) = take 1024 (drop i p) # chunks_of (drop j p)"
      using True by (simp add: chunks_of_Cons j)
    then show ?thesis
      unfolding hap_write_loop_step [OF True] j_def [symmetric] IH by simp
  qed
qed

lemma hap_write_frames:
  "hap_write C p s = (hap_frames C (write_key s) (write_nonce s) (chunks_of p),
     s\<lparr>write_nonce := write_nonce s + of_nat (length (chunks_of p))\<rparr>)"
  by (simp add: hap_write_def hap_write_loop_frames)

subsection \<open>Reading one frame\<close>

lemma read_exact_append [simp]:
  "length xs = n \<Longrightarrow> read_exact w n (xs @ rest) = (Inr xs, rest)"
  by (simp add: read_exact_def)

lemma frame_head:
  assumes "aead_ok C" "1 \<le> length c" "length c \<le> 1024"
  shows "read_exact w 2 (hap_frame C key n c @ rest)
       = (Inr (to_le 2 (length c)), aead_seal C key (counter_nonce n) (to_le 2 (length c)) c @ rest)"
    and "of_le (to_le 2 (length c)) = length c"
    and "read_exact w (length c + 16) (aead_seal C key (counter_nonce n) (to_le 2 (length c)) c @ rest)
       = (Inr (aead_seal C key (counter_nonce n) (to_le 2 (length c)) c), rest)"
  using assms by (simp_all add: hap_frame_def length_to_le of_le_to_le aead_okD del: to_le_numeral)

lemma read_encrypted_frame_one:
  assumes "aead_ok C" "1 \<le> length c" "length c \<le> 1024"
  shows "read_encrypted_frame C key n (hap_frame C key n c @ rest) = (Inr c, n + 1, rest)"
proof -
  have "c \<noteq> []" using assms(2) by auto
  with assms(3) show ?thesis
    by (simp add: read_encrypted_frame_def frame_head [OF assms] HAP_FRAME_CHUNK_def
        aead_okD [OF assms(1)] Let_def del: to_le_numeral)
qed

lemma hap_read_buffered:
  "0 < d \<Longrightarrow> read_buf s \<noteq> [] \<Longrightarrow>
     hap_read C d s = (Inr (take d (read_buf s)), s\<lparr>read_buf := drop d (read_buf s)\<rparr>)"
  by (simp add: hap_read_def hap_take_def Let_def min_def)

lemma event_read_buffered:
  "0 < d \<Longrightarrow> read_buf s \<noteq> [] \<Longrightarrow>
     event_read C d s = (Inr (take d (read_buf s)), s\<lparr>read_buf := drop d (read_buf s)\<rparr>)"
  by (simp add: event_read_def hap_take_def Let_def min_def)

lemma read_frame_sizes:
  assumes "1 \<le> length c" "length c \<le> 1024"
  shows "c \<noteq> []" "\<not> (length c < 1 \<or> 1024 < length c)"
    "1 \<le> length c \<and> length c \<le> EVENT_FRAME_SIZE_LIMIT"
  using assms by (auto simp: EVENT_FRAME_SIZE_LIMIT_def)

lemma hap_read_frame:
  assumes "aead_ok C" "1 \<le> length c" "length c \<le> 1024"
    and "0 < d" "read_buf s = []" "conn s = hap_frame C (read_key s) (read_nonce s) c @ rest"
  shows "hap_read C d s = (Inr (take d c),
    s\<lparr>conn := rest, read_nonce := read_nonce s + 1, read_buf := drop d c\<rparr>)"
  using assms(4,5) read_frame_sizes [OF assms(2,3)]
  unfolding hap_read_def assms(6) frame_head [OF assms(1-3)] prod.case sum.case Let_def
    frame_head(2) [OF assms(1-3)]
  by (simp add: frame_head [OF assms(1-3)] aead_okD [OF assms(1)] hap_take_def min_def
      del: to_le_numeral)

lemma event_read_frame:
  assumes "aead_ok C" "1 \<le> length c" "length c \<le> 1024"
    and "0 < d" "read_buf s = []" "conn s = hap_frame C (read_key s) (read_nonce s) c @ rest"
  shows "event_read C d s = (Inr (take d c),
    s\<lparr>conn := rest, read_nonce := read_nonce s + 1, read_buf := drop d c\<rparr>)"
  using assms(4,5) read_frame_sizes [OF assms(2,3)]
  unfolding event_read_def assms(6) frame_head [OF assms(1-3)] prod.case sum.case Let_def
    frame_head(2) [OF assms(1-3)]
  by (simp add: frame_head [OF assms(1-3)] aead_okD [OF assms(1)] hap_take_def min_def
      del: to_le_numeral)

subsection \<open>Writers and readers of a frame link\<close>

text \<open>Reading \<open>k\<close> frames in a row and joining them.\<close>

fun read_frames :: "(u64 \<Rightarrow> bytes \<Rightarrow> bytes res \<times> u64 \<times> bytes) \<Rightarrow> nat \<Rightarrow> u64 \<Rightarrow> bytes \<Rightarrow>
    bytes res \<times> u64 \<times> bytes" where
  "read_frames reader 0 n inp = (Inr [], n, inp)"
| "read_frames reader (Suc k) n inp =
    (case reader n inp of
       (Inl e, n, inp) \<Rightarrow> (Inl e, n, inp)
     | (Inr c, n, inp) \<Rightarrow>
         (case read_frames reader k n inp of
            (Inl e, n, inp) \<Rightarrow> (Inl e, n, inp)
          | (Inr cs, n, inp) \<Rightarrow> (Inr (c @ cs), n, inp)))"

text \<open>
  The contract between one side's writer and the other side's reader, for one direction with
  its key: the writer's output is the frames of its 1024-byte chunks with consecutive nonces, and the
  reader opens a frame with the nonce it expects.
\<close>

locale frame_link =
  fixes C :: crypto and key :: bytes
    and writer :: "u64 \<Rightarrow> bytes \<Rightarrow> bytes \<times> u64"
    and reader :: "u64 \<Rightarrow> bytes \<Rightarrow> bytes res \<times> u64 \<times> bytes"
  assumes writer_frames:
      "writer n p = (hap_frames C key n (chunks_of p), n + of_nat (length (chunks_of p)))"
    and reader_frame: "aead_ok C \<Longrightarrow> 1 \<le> length c \<Longrightarrow> length c \<le> 1024 \<Longrightarrow>
      reader n (hap_frame C key n c @ rest) = (Inr c, n + 1, rest)"
begin

lemma read_frames_chunks:
  "aead_ok C \<Longrightarrow> \<forall>c \<in> set cs. 1 \<le> length c \<and> length c \<le> 1024 \<Longrightarrow>
     read_frames reader (length cs) n (hap_frames C key n cs @ rest) =
       (Inr (concat cs), n + of_nat (length cs), rest)"
  by (induction cs arbitrary: n) (simp_all add: reader_frame add.assoc)

lemma transport:
  "aead_ok C \<Longrightarrow> read_frames reader (length (chunks_of p)) n (fst (writer n p) @ rest) =
     (Inr p, snd (writer n p), rest)"
  using read_frames_chunks [of "chunks_of p" n rest] chunks_of_sizes
  by (auto simp: writer_frames)

end

text \<open>A stream read with a full-size buffer, seen as a reader of frames.\<close>

definition hap_reader :: "crypto \<Rightarrow> bytes \<Rightarrow> u64 \<Rightarrow> bytes \<Rightarrow> bytes res \<times> u64 \<times> bytes" where
  "hap_reader C key n inp =
    (let (r, s) = hap_read C 1024 (HapStream_new inp key []\<lparr>read_nonce := n\<rparr>)
     in (r, read_nonce s, conn s))"

definition event_reader :: "crypto \<Rightarrow> bytes \<Rightarrow> u64 \<Rightarrow> bytes \<Rightarrow> bytes res \<times> u64 \<times> bytes" where
  "event_reader C key n inp =
    (let (r, s) = event_read C 1024 (HapStream_new inp key []\<lparr>read_nonce := n\<rparr>)
     in (r, read_nonce s, conn s))"

definition hap_writer :: "crypto \<Rightarrow> bytes \<Rightarrow> u64 \<Rightarrow> bytes \<Rightarrow> bytes \<times> u64" where
  "hap_writer C key n p =
    (let (out, s) = hap_write C p (HapStream_new [] [] key\<lparr>write_nonce := n\<rparr>) in (out, write_nonce s))"

definition event_writer :: "crypto \<Rightarrow> bytes \<Rightarrow> u64 \<Rightarrow> bytes \<Rightarrow> bytes \<times> u64" where
  "event_writer C key n p =
    (let (out, s) = event_write C p (HapStream_new [] [] key\<lparr>write_nonce := n\<rparr>) in (out, write_nonce s))"

interpretation to_receiver: frame_link C key "hap_encrypt C key" "hap_reader C key" for C key
  by unfold_locales (simp_all add: hap_encrypt_frames hap_reader_def HapStream_new_def hap_read_frame)

interpretation to_client: frame_link C key "hap_writer C key" "read_encrypted_frame C key" for C key
  by unfold_locales
    (simp_all add: hap_writer_def HapStream_new_def hap_write_frames read_encrypted_frame_one)

interpretation event_link: frame_link C key "event_writer C key" "event_reader C key" for C key
  by unfold_locales
    (simp_all add: event_writer_def event_reader_def HapStream_new_def event_write_frames event_read_frame)

subsection \<open>Reading a stream in pieces of any size\<close>

text \<open>
  The abstract state of a reader is the plaintext it has still to hand out. \<open>hap_pending s m p tail\<close>: the
  buffer and the frames waiting on the socket hold \<open>p\<close>, the nonce after them is \<open>m\<close>, and \<open>tail\<close> follows.
\<close>

definition hap_pending :: "crypto \<Rightarrow> HapStream \<Rightarrow> u64 \<Rightarrow> bytes \<Rightarrow> bytes \<Rightarrow> bool" where
  "hap_pending C s m p tail \<longleftrightarrow>
     (\<exists>cs. (\<forall>c \<in> set cs. 1 \<le> length c \<and> length c \<le> 1024) \<and>
       conn s = hap_frames C (read_key s) (read_nonce s) cs @ tail \<and> p = read_buf s @ concat cs \<and>
       m = read_nonce s + of_nat (length cs))"

text \<open>Reading leaves the keys and the writing side alone.\<close>

definition same_writer :: "HapStream \<Rightarrow> HapStream \<Rightarrow> bool" where
  "same_writer s s' \<longleftrightarrow> read_key s' = read_key s \<and> write_key s' = write_key s \<and> write_nonce s' = write_nonce s"

text \<open>\<open>Read::read_exact\<close> over a reader: read again until \<open>k\<close> bytes have come.\<close>

function read_exact_from ::
  "(nat \<Rightarrow> HapStream \<Rightarrow> bytes res \<times> HapStream) \<Rightarrow> nat \<Rightarrow> HapStream \<Rightarrow> bytes res \<times> HapStream" where
  "read_exact_from rd k s =
    (if k = 0 then (Inr [], s)
     else (case rd k s of
         (Inl e, s) \<Rightarrow> (Inl e, s)
       | (Inr out, s) \<Rightarrow>
           if out = [] then (Inl (Err (Transport ''failed to fill whole buffer'')), s)
           else (case read_exact_from rd (k - length out) s of
               (Inl e, s) \<Rightarrow> (Inl e, s)
             | (Inr rest, s) \<Rightarrow> (Inr (out @ rest), s))))"
  by pat_completeness auto
termination
  by (relation "measure (\<lambda>(rd, k, s). k)") auto

declare read_exact_from.simps [simp del]

locale buffered_reader =
  fixes C :: crypto and rd :: "nat \<Rightarrow> HapStream \<Rightarrow> bytes res \<times> HapStream"
  assumes from_buffer: "0 < d \<Longrightarrow> read_buf s \<noteq> [] \<Longrightarrow>
      rd d s = (Inr (take d (read_buf s)), s\<lparr>read_buf := drop d (read_buf s)\<rparr>)"
    and from_frame: "aead_ok C \<Longrightarrow> 1 \<le> length c \<Longrightarrow> length c \<le> 1024 \<Longrightarrow> 0 < d \<Longrightarrow> read_buf s = [] \<Longrightarrow>
      conn s = hap_frame C (read_key s) (read_nonce s) c @ rest \<Longrightarrow>
      rd d s = (Inr (take d c), s\<lparr>conn := rest, read_nonce := read_nonce s + 1, read_buf := drop d c\<rparr>)"
begin

lemma read_some:
  assumes "aead_ok C" "hap_pending C s m p tail" "p \<noteq> []" "0 < d"
  shows "\<exists>out s' p'. rd d s = (Inr out, s') \<and> p = out @ p' \<and> out \<noteq> [] \<and> length out \<le> d \<and>
           hap_pending C s' m p' tail \<and> same_writer s s'"
proof -
  from assms(2) obtain cs where cs: "\<forall>c \<in> set cs. 1 \<le> length c \<and> length c \<le> 1024"
      "conn s = hap_frames C (read_key s) (read_nonce s) cs @ tail" "p = read_buf s @ concat cs"
      "m = read_nonce s + of_nat (length cs)"
    unfolding hap_pending_def by blast
  show ?thesis
  proof (cases "read_buf s = []")
    case False
    define s' where "s' = s\<lparr>read_buf := drop d (read_buf s)\<rparr>"
    have "rd d s = (Inr (take d (read_buf s)), s')"
      using from_buffer [OF assms(4) False] by (simp add: s'_def)
    moreover have "hap_pending C s' m (drop d (read_buf s) @ concat cs) tail"
      unfolding hap_pending_def using cs by (intro exI [of _ cs]) (simp add: s'_def)
    moreover have "p = take d (read_buf s) @ drop d (read_buf s) @ concat cs"
      using cs(3) by (metis append.assoc append_take_drop_id)
    moreover have "same_writer s s'" by (simp add: same_writer_def s'_def)
    ultimately show ?thesis using False assms(4) by fastforce
  next
    case True
    with assms(3) cs(3) obtain c cs' where c: "cs = c # cs'" by (cases cs) auto
    with cs(1) have len: "1 \<le> length c" "length c \<le> 1024" by auto
    define rest where "rest = hap_frames C (read_key s) (read_nonce s + 1) cs' @ tail"
    define s' where "s' = s\<lparr>conn := rest, read_nonce := read_nonce s + 1, read_buf := drop d c\<rparr>"
    have "rd d s = (Inr (take d c), s')"
      using from_frame [OF assms(1) len assms(4) True, of rest] cs(2) c by (simp add: rest_def s'_def)
    moreover have "hap_pending C s' m (drop d c @ concat cs') tail"
      unfolding hap_pending_def using cs c by (intro exI [of _ cs']) (simp add: s'_def rest_def)
    moreover have "p = take d c @ drop d c @ concat cs'"
      using cs(3) c True by (metis append.assoc append_take_drop_id concat.simps(2) append_Nil)
    moreover have "same_writer s s'" by (simp add: same_writer_def s'_def)
    ultimately show ?thesis using len assms(4) by fastforce
  qed
qed

lemma read_exact_pending:
  "aead_ok C \<Longrightarrow> hap_pending C s m p tail \<Longrightarrow> k \<le> length p \<Longrightarrow>
     \<exists>s'. read_exact_from rd k s = (Inr (take k p), s') \<and> hap_pending C s' m (drop k p) tail \<and> same_writer s s'"
proof (induction k arbitrary: s p rule: less_induct)
  case (less k)
  show ?case
  proof (cases "k = 0")
    case True
    with less.prems show ?thesis by (simp add: read_exact_from.simps same_writer_def)
  next
    case False
    with less.prems have "p \<noteq> []" by auto
    with read_some [OF less.prems(1,2) this, of k] False
    obtain out s' p' where r: "rd k s = (Inr out, s')" "p = out @ p'" "out \<noteq> []" "length out \<le> k"
        "hap_pending C s' m p' tail" "same_writer s s'" by auto
    have "\<exists>s''. read_exact_from rd (k - length out) s' = (Inr (take (k - length out) p'), s'') \<and>
        hap_pending C s'' m (drop (k - length out) p') tail \<and> same_writer s' s''"
      using less.IH [of "k - length out" s' p'] r less.prems False by simp
    then show ?thesis
      using False r by (subst read_exact_from.simps) (auto simp: same_writer_def)
  qed
qed

end

interpretation hap_rd: buffered_reader C "hap_read C" for C
  by unfold_locales (simp_all add: hap_read_buffered hap_read_frame)

interpretation event_rd: buffered_reader C "event_read C" for C
  by unfold_locales (simp_all add: event_read_buffered event_read_frame)

lemma hap_frames_append:
  "hap_frames C key n (xs @ ys) = hap_frames C key n xs @ hap_frames C key (n + of_nat (length xs)) ys"
  by (induction xs arbitrary: n) (simp_all add: add.assoc)

subsection \<open>Properties\<close>

text \<open>C10. What the client encrypts, the receiver reads back byte for byte: for two messages sent one after
  the other, any number of bytes up to their total length can be read with \<open>read_exact\<close> on the
  receiver's stream, whatever the frame boundaries, and the rest stays readable.\<close>

theorem hap_client_to_receiver:
  assumes "aead_ok C" and "k \<le> length p + length q"
    and "hap_encrypt C key n p = (out1, n1)" and "hap_encrypt C key n1 q = (out2, n2)"
  shows "\<exists>s. read_exact_from (hap_read C) k (HapStream_new (out1 @ out2 @ tail) key wk\<lparr>read_nonce := n\<rparr>)
           = (Inr (take k (p @ q)), s) \<and> hap_pending C s n2 (drop k (p @ q)) tail"
proof -
  have "hap_pending C (HapStream_new (out1 @ out2 @ tail) key wk\<lparr>read_nonce := n\<rparr>) n2 (p @ q) tail"
    unfolding hap_pending_def
    using assms(3,4) chunks_of_sizes [of _ p] chunks_of_sizes [of _ q]
    by (intro exI [of _ "chunks_of p @ chunks_of q"])
      (auto simp: HapStream_new_def hap_encrypt_frames hap_frames_append)
  from hap_rd.read_exact_pending [OF assms(1) this, of k] assms(2) show ?thesis by auto
qed

theorem hap_client_to_receiver_witness:
  "\<exists>s. read_exact_from (hap_read toy_crypto) 3
       (HapStream_new (fst (hap_encrypt toy_crypto [7] 0 [1, 2]) @ fst (hap_encrypt toy_crypto [7] 1 [3, 4]) @ [])
         [7] [9]\<lparr>read_nonce := 0\<rparr>)
     = (Inr (take 3 ([1, 2] @ [3, 4])), s) \<and> hap_pending toy_crypto s 2 (drop 3 ([1, 2] @ [3, 4])) []"
  by (rule hap_client_to_receiver [where ?n1.0 = 1 and ?n2.0 = 2])
    (simp_all add: hap_encrypt_frames chunks_of.simps)

text \<open>The other control direction and the event channel carry messages unchanged as well: reading as
  many frames as the writer made gives the plaintext, and reader and writer end on the same nonce.\<close>

theorem hap_links_transport:
  assumes "aead_ok C"
  shows "read_frames (read_encrypted_frame C key) (length (chunks_of p)) n (fst (hap_writer C key n p) @ tail)
       = (Inr p, snd (hap_writer C key n p), tail)
     \<and> read_frames (event_reader C key) (length (chunks_of p)) n (fst (event_writer C key n p) @ tail)
       = (Inr p, snd (event_writer C key n p), tail)"
  using to_client.transport [OF assms] event_link.transport [OF assms] by simp

theorem hap_links_transport_witness:
  "read_frames (read_encrypted_frame toy_crypto [5]) (length (chunks_of [1, 2, 3])) 4
     (fst (hap_writer toy_crypto [5] 4 [1, 2, 3]) @ [8])
   = (Inr [1, 2, 3], snd (hap_writer toy_crypto [5] 4 [1, 2, 3]), [8])"
  by (rule conjunct1 [OF hap_links_transport]) simp

text \<open>No nonce is used twice under one key: the frames of a message carry the counters \<open>n\<close>,
  \<open>n + 1\<close>, ..., with as many distinct 12-byte nonces as frames, as long as a message does not
  need more than \<open>2 ^ 64\<close> frames, and each frame holds between 1 and 1024 plaintext bytes.\<close>

theorem hap_encrypt_nonces:
  assumes "length (chunks_of p) < 2 ^ 64"
  shows "hap_encrypt C key n p =
      (concat (map2 (\<lambda>i c. hap_frame C key (n + of_nat i) c) [0 ..< length (chunks_of p)] (chunks_of p)),
       n + of_nat (length (chunks_of p)))
    \<and> distinct (map (\<lambda>i. counter_nonce (n + of_nat i)) [0 ..< length (chunks_of p)])
    \<and> concat (chunks_of p) = p \<and> list_all (\<lambda>c. 1 \<le> length c \<and> length c \<le> 1024) (chunks_of p)"
proof -
  have frames: "hap_frames C key m cs = concat (map2 (\<lambda>i c. hap_frame C key (m + of_nat i) c) [0 ..< length cs] cs)"
    for m cs
  proof (induction cs arbitrary: m)
    case Nil
    then show ?case by simp
  next
    case (Cons c cs)
    have "map2 (\<lambda>i c. hap_frame C key (m + of_nat i) c) [Suc 0 ..< Suc (length cs)] cs
        = map2 (\<lambda>i c. hap_frame C key (m + 1 + of_nat i) c) [0 ..< length cs] cs"
      by (rule nth_equalityI) (simp_all add: ac_simps del: upt_Suc)
    with Cons show ?case by (simp add: upt_conv_Cons del: upt_Suc)
  qed
  have "inj_on (\<lambda>i. counter_nonce (n + of_nat i)) {0 ..< length (chunks_of p)}"
  proof (rule inj_onI)
    fix i j assume ij: "i \<in> {0 ..< length (chunks_of p)}" "j \<in> {0 ..< length (chunks_of p)}"
      and "counter_nonce (n + of_nat i) = counter_nonce (n + of_nat j)"
    then have "(of_nat i :: u64) = of_nat j" by (simp add: counter_nonce_inj)
    with ij assms show "i = j" by (simp add: word_unat_eq_iff unat_of_nat)
  qed
  then show ?thesis
    using chunks_of_sizes by (auto simp: hap_encrypt_frames frames distinct_map list_all_iff)
qed

theorem hap_encrypt_nonces_witness:
  "hap_encrypt toy_crypto [5] 18446744073709551615 [1, 2, 3] =
      (concat (map2 (\<lambda>i c. hap_frame toy_crypto [5] (18446744073709551615 + of_nat i) c)
         [0 ..< length (chunks_of [1, 2, 3])] (chunks_of [1, 2, 3])),
       18446744073709551615 + of_nat (length (chunks_of [1, 2, 3 :: byte])))"
  by (rule conjunct1 [OF hap_encrypt_nonces]) (simp add: chunks_of.simps)

end
