(* ===== verification/Http_Text.thy ===== *)
theory Http_Text
  imports Rust_Str "HOL-Library.List_Lexorder" "HOL-Library.Char_ord"
begin

text \<open>
  The header text that both sides of the control channel write and read: lines \<open>name: value\<close> ended by CR LF,
  the order in which a \<open>HashMap\<close> of headers is printed, and the facts about well-formed headers that the
  round trips of the two directions share.
\<close>

text \<open>
  A \<open>HashMap\<close> is printed in an unspecified order: \<open>hdr_list\<close> is the iteration order, an argument of
  everything that prints headers.
\<close>

type_synonym hdr_order = "(string \<Rightarrow> string option) \<Rightarrow> (string \<times> string) list"

definition hdr_order_ok :: "hdr_order \<Rightarrow> bool" where
  "hdr_order_ok hdr_list \<longleftrightarrow>
     (\<forall>m. finite (dom m) \<longrightarrow> map_of (hdr_list m) = m \<and> distinct (map fst (hdr_list m)))"

definition header_line :: "string \<Rightarrow> string \<Rightarrow> string" where
  "header_line name val = name @ '': '' @ val @ crlf"

definition header_lines :: "(string \<times> string) list \<Rightarrow> string" where
  "header_lines hs = concat (map (\<lambda>(name, val). header_line name val) hs)"

lemma hdr_order_okD:
  assumes "hdr_order_ok hdr_list" "finite (dom m)"
  shows "map_of (hdr_list m) = m" "distinct (map fst (hdr_list m))" "set (hdr_list m) = {(k, v). m k = Some v}"
proof -
  show 1: "map_of (hdr_list m) = m" "distinct (map fst (hdr_list m))"
    using assms by (simp_all add: hdr_order_ok_def)
  show "set (hdr_list m) = {(k, v). m k = Some v}"
    using map_of_eq_Some_iff [OF 1(2)] by (auto simp: 1(1))
qed

text \<open>One concrete order: sorted by key.\<close>

definition key_order :: hdr_order where
  "key_order m = map (\<lambda>k. (k, the (m k))) (sorted_list_of_set (dom m))"

lemma key_order_ok [simp]: "hdr_order_ok key_order"
  unfolding hdr_order_ok_def
proof (intro allI impI)
  fix m :: "string \<Rightarrow> string option"
  assume fin: "finite (dom m)"
  define ks where "ks = sorted_list_of_set (dom m)"
  have ks: "set ks = dom m" "distinct ks" using fin by (simp_all add: ks_def)
  have "map_of (map (\<lambda>k. (k, the (m k))) ks) k = m k" for k
    using ks by (cases "m k") (auto simp: map_of_map_restrict restrict_map_def)
  moreover have "map fst (map (\<lambda>k. (k, the (m k))) ks) = ks" by (simp add: comp_def)
  ultimately show "map_of (key_order m) = m \<and> distinct (map fst (key_order m))"
    using ks by (auto simp: key_order_def ks_def [symmetric])
qed

lemma key_order_empty [simp]: "key_order Map.empty = []"
  by (simp add: key_order_def)

subsection \<open>Well-formed lines\<close>

definition text_char :: "char \<Rightarrow> bool" where
  "text_char c \<longleftrightarrow> ascii_char c \<and> c \<noteq> CHR 0x0D \<and> c \<noteq> CHR 0x0A"

definition text_line :: "string \<Rightarrow> bool" where
  "text_line l \<longleftrightarrow> list_all text_char l"

definition header_ok :: "nat \<Rightarrow> string \<times> string \<Rightarrow> bool" where
  "header_ok limit = (\<lambda>(name, val). token name \<and> CHR '':'' \<notin> set name \<and> text_line val \<and> trimmed val \<and>
     length name + length val + 2 < limit)"

lemma visible_text: "visible c \<Longrightarrow> text_char c"
  by (auto simp: visible_def text_char_def ascii_white_def)

lemma token_text: "token s \<Longrightarrow> text_line s"
  by (auto simp: token_def text_line_def list_all_iff visible_text)

lemma text_line_append [simp]: "text_line (a @ b) \<longleftrightarrow> text_line a \<and> text_line b"
  by (simp add: text_line_def)

lemma text_line_Cons [simp]: "text_line (c # b) \<longleftrightarrow> text_char c \<and> text_line b"
  by (simp add: text_line_def)

lemma text_line_Nil [simp]: "text_line []"
  by (simp add: text_line_def)

lemma text_line_dec [simp]: "text_line (dec n)"
  by (simp add: token_text)

lemma text_line_chars:
  "text_line l \<Longrightarrow> CHR 0x0D \<notin> set l" "text_line l \<Longrightarrow> CHR 0x0A \<notin> set l"
  by (auto simp: text_line_def list_all_iff text_char_def)

lemma text_char_code [simp]: "text_char c \<longleftrightarrow>
    (of_char c :: nat) < 128 \<and> (of_char c :: nat) \<noteq> 13 \<and> (of_char c :: nat) \<noteq> 10"
proof -
  have "c = CHR 0x0D \<longleftrightarrow> (of_char c :: nat) = of_char (CHR 0x0D)"
    "c = CHR 0x0A \<longleftrightarrow> (of_char c :: nat) = of_char (CHR 0x0A)" by (simp_all only: of_char_eq_iff)
  then show ?thesis by (auto simp: text_char_def ascii_char_def)
qed

lemma header_ok_text: "header_ok limit (name, val) \<Longrightarrow> text_line (name @ '': '' @ val)"
  by (simp add: header_ok_def token_text)

lemma header_ok_length: "header_ok limit (name, val) \<Longrightarrow> length (name @ '': '' @ val) < limit"
  by (simp add: header_ok_def)

lemma header_split:
  "header_ok limit (name, val) \<Longrightarrow>
     split_once (CHR '':'') (name @ '': '' @ val) = Some (name, CHR '' '' # val) \<and>
     trim name = name \<and> trim (CHR '' '' # val) = val \<and> trim val = val"
  by (simp add: header_ok_def split_once_first trim_trimmed token_trimmed)

text \<open>What a header list means: names in lower case, later lines over earlier ones.\<close>

definition lower_map :: "(string \<times> string) list \<Rightarrow> string \<Rightarrow> string option" where
  "lower_map hs = fold (\<lambda>(name, val) m. m(to_ascii_lowercase name \<mapsto> val)) hs Map.empty"

lemma header_lines_simps [simp]:
  "header_lines [] = []" "header_lines ((n, v) # hs) = header_line n v @ header_lines hs"
  "header_lines (xs @ ys) = header_lines xs @ header_lines ys"
  by (simp_all add: header_lines_def)

lemma header_line_crlf: "header_line n v = (n @ '': '' @ v) @ crlf"
  by (simp add: header_line_def)

end
