(* ===== verification/Http_Client.thy ===== *)
theory Http_Client
  imports Info Http_Text
begin

text \<open>
  The plain control transport of the sender (transport.rs): request text, header parser, length check and
  the response reader. The connection is the bytes written so far and the bytes still to arrive.
\<close>

definition USER_AGENT :: string where
  "USER_AGENT = ''AirPlay/935.7.1''"

definition MAX_RESPONSE_BODY :: nat where
  "MAX_RESPONSE_BODY = push_bit 20 8"

text \<open>\<open>cseq\<close> is a \<open>u32\<close>; a counter that overflows is out of reach of one connection and wraps here.\<close>

record TcpTransport =
  t_in :: bytes
  t_out :: bytes
  t_cseq :: u32

subsection \<open>Requests\<close>

definition request_text ::
  "hdr_order \<Rightarrow> nat \<Rightarrow> string \<Rightarrow> string \<Rightarrow> string \<Rightarrow> bytes \<Rightarrow> (string \<Rightarrow> string option) \<Rightarrow> bool \<Rightarrow> string" where
  "request_text hdr_list cseq meth path content_type bdy extra raw =
    meth @ '' '' @ path @ '' RTSP/1.0'' @ crlf @
    (if raw then header_line ''Content-Type'' content_type @ header_line ''X-Apple-ProtocolVersion'' ''1''
     else header_line ''CSeq'' (dec cseq) @ header_line ''User-Agent'' USER_AGENT) @
    header_lines (hdr_list extra) @
    (if \<not> raw \<and> content_type \<noteq> [] \<and> bdy \<noteq> [] then header_line ''Content-Type'' content_type else []) @
    header_line ''Content-Length'' (dec (length bdy)) @
    (if raw then header_line ''CSeq'' (dec cseq) else []) @ crlf"

definition write_request ::
  "hdr_order \<Rightarrow> string \<Rightarrow> string \<Rightarrow> string \<Rightarrow> bytes \<Rightarrow> (string \<Rightarrow> string option) \<Rightarrow> bool \<Rightarrow>
     TcpTransport \<Rightarrow> TcpTransport" where
  "write_request hdr_list meth path content_type bdy extra raw t =
    (let cseq = t_cseq t + 1;
         buf = s2b (request_text hdr_list (unat cseq) meth path content_type bdy extra raw) @ bdy
     in t\<lparr>t_cseq := cseq, t_out := t_out t @ buf\<rparr>)"

subsection \<open>Parsing a header block\<close>

definition parse_status :: "string \<Rightarrow> u16" where
  "parse_status rest =
    (case split_whitespace rest of
       [] \<Rightarrow> 0
     | w # _ \<Rightarrow> (case parse_uint 16 w of None \<Rightarrow> 0 | Some n \<Rightarrow> word_of_nat n))"

definition status_line :: "string \<Rightarrow> u16" where
  "status_line first =
    (case strip_prefix ''HTTP/1.1 '' first of
       Some rest \<Rightarrow> parse_status rest
     | None \<Rightarrow> (case strip_prefix ''RTSP/1.0 '' first of Some rest \<Rightarrow> parse_status rest | None \<Rightarrow> 0))"

definition parse_header_line ::
  "string \<Rightarrow> nat \<times> (string \<Rightarrow> string option) \<Rightarrow> nat \<times> (string \<Rightarrow> string option)" where
  "parse_header_line line acc =
    (case split_once (CHR '':'') line of
       None \<Rightarrow> acc
     | Some (key, val) \<Rightarrow>
         let key = to_ascii_lowercase (trim key); val = trim val; (content_length, hs) = acc in
         if key = [] then acc
         else
           let content_length =
             (if key = ''content-length'' then
                (case parse_uint 64 (trim val) of None \<Rightarrow> 0 | Some n \<Rightarrow> n)
              else content_length)
           in (content_length, hs(key \<mapsto> val)))"

definition parse_http_header :: "string \<Rightarrow> u16 \<times> nat \<times> (string \<Rightarrow> string option)" where
  "parse_http_header header =
    (case split_crlf [] header of
       [] \<Rightarrow> (0, 0, Map.empty)
     | first # rest \<Rightarrow> (status_line first, fold parse_header_line rest (0, Map.empty)))"

definition validate_content_length :: "nat \<Rightarrow> unit res" where
  "validate_content_length n =
    (if MAX_RESPONSE_BODY < n
     then Inl (protocol (''Content-Length '' @ dec n @ '' exceeds the '' @ dec MAX_RESPONSE_BODY @ '' byte limit''))
     else Inr ())"

subsection \<open>Reading a response\<close>

text \<open>Byte by byte until CR LF CR LF, at most 16385 bytes.\<close>

definition head_end :: bytes where
  "head_end = [13, 10, 13, 10]"

fun read_head :: "bytes \<Rightarrow> bytes \<Rightarrow> bytes res \<times> bytes" where
  "read_head header [] = (Inl (Err (Transport ''read response header'')), [])"
| "read_head header (c # inp) =
    (let header = header @ [c] in
     if 4 \<le> length header \<and> drop (length header - 4) header = head_end then (Inr header, inp)
     else if 16384 < length header then (Inl (protocol ''response header too large''), inp)
     else read_head header inp)"

definition read_response :: "TcpTransport \<Rightarrow> Response res \<times> TcpTransport" where
  "read_response t =
    (case read_head [] (t_in t) of
       (Inl e, inp) \<Rightarrow> (Inl e, t\<lparr>t_in := inp\<rparr>)
     | (Inr header, inp) \<Rightarrow>
         let (st, content_length, hs) = parse_http_header (from_utf8_lossy header) in
         case validate_content_length content_length of
           Inl e \<Rightarrow> (Inl e, t\<lparr>t_in := inp\<rparr>)
         | Inr _ \<Rightarrow>
             if length inp < content_length then (Inl (Err (Transport ''read body'')), t\<lparr>t_in := []\<rparr>)
             else (Inr \<lparr>status = st, headers = hs, body = take content_length inp\<rparr>,
                   t\<lparr>t_in := drop content_length inp\<rparr>))"

text \<open>\<open>Transport for TcpTransport\<close>\<close>

definition tcp_request :: "hdr_order \<Rightarrow> TcpTransport transport" where
  "tcp_request hdr_list rq t =
    read_response (write_request hdr_list (rq_method rq) (rq_path rq) (rq_content_type rq) (rq_body rq)
      (rq_headers rq) (rq_raw rq) t)"

end
