(* ===== verification/Digest_Auth.thy ===== *)
theory Digest_Auth
  imports Rust_Str
begin

text \<open>
  RFC 2069 digest authentication of the sender (digest.rs): the challenge parser with its slice at byte 6,
  which panics inside a character, the parameter splitter as a machine over characters, and the response with
  MD5 as an argument.
\<close>

definition DIGEST_USERNAME :: string where
  "DIGEST_USERNAME = ''AirPlay''"

record DigestChallenge =
  dc_realm :: string
  dc_nonce :: string

subsection \<open>Parameters\<close>

text \<open>The state of the loop of \<open>parse_auth_params\<close>.\<close>

record auth_state =
  as_params :: "string \<Rightarrow> string option"
  as_key :: string
  as_val :: string
  as_in_key :: bool
  as_in_quotes :: bool

definition auth_start :: auth_state where
  "auth_start = \<lparr>as_params = Map.empty, as_key = [], as_val = [], as_in_key = True, as_in_quotes = False\<rparr>"

definition auth_flush :: "auth_state \<Rightarrow> auth_state" where
  "auth_flush a =
    (let k = to_ascii_lowercase (trim (as_key a));
         a = (if k \<noteq> [] then a\<lparr>as_params := (as_params a)(k \<mapsto> trim (as_val a))\<rparr> else a)
     in a\<lparr>as_key := [], as_val := [], as_in_key := True\<rparr>)"

definition auth_step :: "char \<Rightarrow> auth_state \<Rightarrow> auth_state" where
  "auth_step ch a =
    (if ch = CHR 0x22 \<and> as_in_quotes a then a\<lparr>as_in_quotes := False\<rparr>
     else if as_in_quotes a then a\<lparr>as_val := as_val a @ [ch]\<rparr>
     else if ch = CHR 0x22 \<and> \<not> as_in_key a then a\<lparr>as_in_quotes := True\<rparr>
     else if ch = CHR ''='' \<and> as_in_key a then a\<lparr>as_in_key := False\<rparr>
     else if ch = CHR '','' then auth_flush a
     else if as_in_key a then a\<lparr>as_key := as_key a @ [ch]\<rparr>
     else a\<lparr>as_val := as_val a @ [ch]\<rparr>)"

definition parse_auth_params :: "string \<Rightarrow> string \<Rightarrow> string option" where
  "parse_auth_params s = as_params (auth_flush (fold auth_step s auth_start))"

subsection \<open>The challenge\<close>

text \<open>\<open>str::is_char_boundary\<close>; slicing elsewhere panics.\<close>

definition is_char_boundary :: "string \<Rightarrow> nat \<Rightarrow> bool" where
  "is_char_boundary s i \<longleftrightarrow>
     i \<le> length s \<and> (i < length s \<longrightarrow> \<not> (128 \<le> (of_char (s ! i) :: nat) \<and> (of_char (s ! i) :: nat) < 192))"

definition parse_digest_challenge :: "string \<Rightarrow> DigestChallenge option res" where
  "parse_digest_challenge val =
    (let v = trim val in
     if length v < 6 then Inr None
     else if \<not> is_char_boundary v 6 then Inl Panic
     else if to_ascii_lowercase (take 6 v) \<noteq> ''digest'' then Inr None
     else
       let params = parse_auth_params (drop 6 v) in
       case params ''realm'' of
         None \<Rightarrow> Inr None
       | Some realm \<Rightarrow> (case params ''nonce'' of
           None \<Rightarrow> Inr None
         | Some nonce \<Rightarrow> Inr (Some \<lparr>dc_realm = realm, dc_nonce = nonce\<rparr>)))"

subsection \<open>The response\<close>

definition md5_hex :: "(bytes \<Rightarrow> bytes) \<Rightarrow> string \<Rightarrow> string" where
  "md5_hex md5 s = hex (md5 (s2b s))"

definition digest_response ::
  "(bytes \<Rightarrow> bytes) \<Rightarrow> string \<Rightarrow> string \<Rightarrow> string \<Rightarrow> string \<Rightarrow> string \<Rightarrow> string \<Rightarrow> string" where
  "digest_response md5 user realm password nonce meth uri =
    (let ha1 = md5_hex md5 (user @ '':'' @ realm @ '':'' @ password);
         ha2 = md5_hex md5 (meth @ '':'' @ uri)
     in md5_hex md5 (ha1 @ '':'' @ nonce @ '':'' @ ha2))"

definition quoted :: "string \<Rightarrow> string" where
  "quoted s = [CHR 0x22] @ s @ [CHR 0x22]"

definition authorization_header ::
  "(bytes \<Rightarrow> bytes) \<Rightarrow> string \<Rightarrow> string \<Rightarrow> DigestChallenge \<Rightarrow> string \<Rightarrow> string \<Rightarrow> string" where
  "authorization_header md5 user password ch meth uri =
    ''Digest username='' @ quoted user @ '', realm='' @ quoted (dc_realm ch) @ '', nonce='' @ quoted (dc_nonce ch) @
    '', uri='' @ quoted uri @ '', response='' @
    quoted (digest_response md5 user (dc_realm ch) password (dc_nonce ch) meth uri)"

subsection \<open>Reading parameters back\<close>

definition auth_text :: "string \<Rightarrow> bool" where
  "auth_text s \<longleftrightarrow> trimmed s \<and> CHR 0x22 \<notin> set s"

definition auth_name :: "string \<Rightarrow> bool" where
  "auth_name k \<longleftrightarrow> token k \<and> to_ascii_lowercase k = k \<and> CHR 0x22 \<notin> set k \<and> CHR ''='' \<notin> set k \<and> CHR '','' \<notin> set k"

lemma auth_key_chars:
  "CHR ''='' \<notin> set k \<Longrightarrow> CHR '','' \<notin> set k \<Longrightarrow> as_in_key a \<Longrightarrow> \<not> as_in_quotes a \<Longrightarrow>
     fold auth_step k a = a\<lparr>as_key := as_key a @ k\<rparr>"
  by (induction k arbitrary: a) (auto simp: auth_step_def)

lemma auth_quoted_chars:
  "CHR 0x22 \<notin> set v \<Longrightarrow> as_in_quotes a \<Longrightarrow> fold auth_step v a = a\<lparr>as_val := as_val a @ v\<rparr>"
  by (induction v arbitrary: a) (auto simp: auth_step_def)

text \<open>One parameter from a state that starts a key, perhaps with a space already read.\<close>

lemma auth_param:
  assumes "auth_name k" "auth_text v" "as_in_key a" "\<not> as_in_quotes a" "as_key a = [] \<or> as_key a = '' ''" "as_val a = []"
  shows "auth_flush (fold auth_step (k @ ''='' @ quoted v) a) =
    \<lparr>as_params = (as_params a)(k \<mapsto> v), as_key = [], as_val = [], as_in_key = True, as_in_quotes = False\<rparr>"
proof -
  have "trim (as_key a @ k) = k"
    using assms(1,5) trim_trimmed [of k] by (auto simp: auth_name_def token_trimmed)
  moreover have "trim v = v" "k \<noteq> []" using assms(1,2) by (auto simp: auth_text_def auth_name_def token_def trim_trimmed)
  ultimately show ?thesis
    using assms
    by (simp add: quoted_def auth_key_chars auth_name_def auth_text_def auth_quoted_chars auth_step_def auth_flush_def)
qed

definition param_text :: "(string \<times> string) list \<Rightarrow> string" where
  "param_text ps = concat (map (\<lambda>(k, v). '', '' @ k @ ''='' @ quoted v) ps)"

lemma auth_params_more:
  assumes "\<forall>(k, v) \<in> set ps. auth_name k \<and> auth_text v" and "\<not> as_in_quotes a"
  shows "as_params (auth_flush (fold auth_step (param_text ps) a)) =
    fold (\<lambda>(k, v) m. m(k \<mapsto> v)) ps (as_params (auth_flush a))"
  using assms
proof (induction ps arbitrary: a)
  case Nil
  then show ?case by (simp add: param_text_def)
next
  case (Cons p ps)
  obtain k v where p: "p = (k, v)" by fastforce
  define a1 where "a1 = (auth_flush a)\<lparr>as_key := '' ''\<rparr>"
  have f: "as_in_key (auth_flush a)" "as_in_quotes (auth_flush a) = as_in_quotes a" "as_val (auth_flush a) = []"
    "as_key (auth_flush a) = []"
    by (simp_all add: auth_flush_def Let_def)
  then have "fold auth_step '', '' a = a1"
    using Cons.prems by (simp add: a1_def auth_step_def)
  then have step: "fold auth_step (param_text (p # ps)) a =
      fold auth_step (param_text ps) (fold auth_step (k @ ''='' @ quoted v) a1)"
    by (simp add: param_text_def p)
  have quotes: "\<not> as_in_quotes (fold auth_step (k @ ''='' @ quoted v) a1)"
    using Cons.prems f p
    by (simp add: quoted_def auth_key_chars auth_name_def auth_text_def auth_quoted_chars auth_step_def a1_def)
  have "auth_flush (fold auth_step (k @ ''='' @ quoted v) a1) =
    \<lparr>as_params = (as_params a1)(k \<mapsto> v), as_key = [], as_val = [], as_in_key = True, as_in_quotes = False\<rparr>"
    using Cons.prems f p by (intro auth_param) (auto simp: a1_def)
  with Cons.IH [OF _ quotes] Cons.prems step p show ?case by (simp add: a1_def fun_upd_def)
qed

lemma parse_auth_params_text:
  assumes "auth_name k" "auth_text v" "\<forall>(k, v) \<in> set ps. auth_name k \<and> auth_text v"
  shows "parse_auth_params ('' '' @ k @ ''='' @ quoted v @ param_text ps) =
    fold (\<lambda>(k, v) m. m(k \<mapsto> v)) ps [k \<mapsto> v]"
proof -
  define a where "a = fold auth_step (k @ ''='' @ quoted v) (auth_start\<lparr>as_key := '' ''\<rparr>)"
  have "fold auth_step '' '' auth_start = auth_start\<lparr>as_key := '' ''\<rparr>"
    by (simp add: auth_step_def auth_start_def)
  then have "parse_auth_params ('' '' @ k @ ''='' @ quoted v @ param_text ps) =
      as_params (auth_flush (fold auth_step (param_text ps) a))"
    by (simp add: parse_auth_params_def a_def)
  moreover have "\<not> as_in_quotes a"
    using assms(1,2)
    by (simp add: a_def quoted_def auth_key_chars auth_name_def auth_text_def auth_quoted_chars auth_step_def auth_start_def)
  moreover have "as_params (auth_flush a) = [k \<mapsto> v]"
    unfolding a_def using assms(1,2) by (subst auth_param) (auto simp: auth_start_def)
  ultimately show ?thesis using auth_params_more [OF assms(3)] by simp
qed

lemma hex_visible: "list_all visible (hex b)"
proof -
  have "visible (hex_digit n)" if "n < 16" for n
    using that by (auto simp: hex_digit_def visible_def ascii_char_def ascii_white_def)
  then show ?thesis by (induction b) (simp_all add: hex_def hex2_def less_mult_imp_div_less)
qed

lemma auth_text_hex [simp]: "auth_text (hex b)"
proof -
  have "hex_digit n \<noteq> CHR 0x22" if "n < 16" for n
  proof -
    have "(of_char (hex_digit n) :: nat) \<noteq> of_char (CHR 0x22)" using that by (simp add: hex_digit_def)
    then show ?thesis by metis
  qed
  then have "CHR 0x22 \<notin> set (hex b)"
    by (induction b) (auto simp: hex_def hex2_def less_mult_imp_div_less dest: sym)
  moreover have "trimmed (hex b)"
    using hex_visible [of b] by (auto simp: trimmed_def list_all_iff)
  ultimately show ?thesis by (simp add: auth_text_def)
qed

subsection \<open>Properties\<close>

lemma lower_digest: "to_ascii_lowercase ''Digest'' = ''digest''"
  by code_simp

lemma digest_prefix:
  "trimmed s \<Longrightarrow> s = ''Digest'' @ '' '' @ t \<Longrightarrow>
     parse_digest_challenge s = Inr (case parse_auth_params ('' '' @ t) ''realm'' of None \<Rightarrow> None
       | Some realm \<Rightarrow> (case parse_auth_params ('' '' @ t) ''nonce'' of None \<Rightarrow> None
         | Some nonce \<Rightarrow> Some \<lparr>dc_realm = realm, dc_nonce = nonce\<rparr>))"
  using trim_trimmed(1) [of s] lower_digest
  by (auto simp: parse_digest_challenge_def Let_def is_char_boundary_def split: option.splits)

lemma trimmed_quoted: "visible c \<Longrightarrow> trimmed (c # t @ quoted v)"
  by (simp add: trimmed_def quoted_def visible_def ascii_char_def ascii_white_def)

text \<open>C39. A digest challenge with any realm and nonce that have no quote and no white space at their ends is parsed back, commas,
  equals signs and inner white space included; and the parameters of the header that answers it read back as
  the user name, the realm, the nonce, the URI and the response digest, as long as the same holds of user name and URI.\<close>

theorem digest_auth_roundtrip:
  assumes "auth_text (dc_realm ch)" "auth_text (dc_nonce ch)" "auth_text user" "auth_text uri"
  shows "parse_digest_challenge (''Digest realm='' @ quoted (dc_realm ch) @ '', nonce='' @ quoted (dc_nonce ch)) = Inr (Some ch)
    \<and> parse_auth_params (drop 6 (authorization_header md5 user password ch meth uri)) =
      [''username'' \<mapsto> user, ''realm'' \<mapsto> dc_realm ch, ''nonce'' \<mapsto> dc_nonce ch, ''uri'' \<mapsto> uri,
       ''response'' \<mapsto> digest_response md5 user (dc_realm ch) password (dc_nonce ch) meth uri]"
proof -
  have names: "auth_name ''realm''" "auth_name ''nonce''" "auth_name ''username''" "auth_name ''uri''"
      "auth_name ''response''"
    by (simp_all add: auth_name_def token_def visible_def ascii_char_def ascii_white_def to_ascii_lowercase_def
        lower_char_def)
  define r where "r = digest_response md5 user (dc_realm ch) password (dc_nonce ch) meth uri"
  have r: "auth_text r" by (simp add: r_def digest_response_def md5_hex_def Let_def)
  have 1: "parse_auth_params ('' '' @ ''realm'' @ ''='' @ quoted (dc_realm ch) @
      param_text [(''nonce'', dc_nonce ch)]) = [''realm'' \<mapsto> dc_realm ch, ''nonce'' \<mapsto> dc_nonce ch]"
    using assms names by (subst parse_auth_params_text) auto
  define c where "c = ''Digest'' @ '' '' @ ''realm'' @ ''='' @ quoted (dc_realm ch) @ param_text [(''nonce'', dc_nonce ch)]"
  have "trimmed c"
    using trimmed_quoted [of "CHR ''D''" "''igest'' @ '' '' @ ''realm'' @ ''='' @ quoted (dc_realm ch) @ '', nonce=''" "dc_nonce ch"]
    by (simp add: c_def param_text_def visible_def ascii_char_def ascii_white_def)
  from digest_prefix [OF this c_def] have "parse_digest_challenge c = Inr (Some ch)" by (simp only: 1) simp
  moreover have "c = ''Digest realm='' @ quoted (dc_realm ch) @ '', nonce='' @ quoted (dc_nonce ch)"
    by (simp add: c_def param_text_def)
  moreover have "drop 6 (authorization_header md5 user password ch meth uri) = '' '' @ ''username'' @ ''='' @ quoted user @
      param_text [(''realm'', dc_realm ch), (''nonce'', dc_nonce ch), (''uri'', uri), (''response'', r)]"
    by (simp add: authorization_header_def param_text_def r_def)
  moreover have "parse_auth_params ('' '' @ ''username'' @ ''='' @ quoted user @
      param_text [(''realm'', dc_realm ch), (''nonce'', dc_nonce ch), (''uri'', uri), (''response'', r)]) =
      [''username'' \<mapsto> user, ''realm'' \<mapsto> dc_realm ch, ''nonce'' \<mapsto> dc_nonce ch, ''uri'' \<mapsto> uri, ''response'' \<mapsto> r]"
    using assms names r by (subst parse_auth_params_text) auto
  ultimately show ?thesis by (simp add: r_def)
qed

theorem digest_auth_roundtrip_witness:
  "parse_digest_challenge (''Digest realm='' @ quoted ''air, play'' @ '', nonce='' @ quoted ''a=b'') =
     Inr (Some \<lparr>dc_realm = ''air, play'', dc_nonce = ''a=b''\<rparr>)"
  using digest_auth_roundtrip [of "\<lparr>dc_realm = ''air, play'', dc_nonce = ''a=b''\<rparr>" "''u''" "''/x''"]
  by (simp add: auth_text_def trimmed_def visible_def ascii_char_def ascii_white_def)

end
