(* ===== verification/Client.thy ===== *)
theory Client
  imports Client_Pairing Hap_Framing Http_Client Digest_Auth
begin

text \<open>
  The control client of the sender (client.rs): requests with preemptive digest authentication and one retry
  after a 401, the encrypted channel, and the response readers. The connection is the bytes sent and the bytes
  still to arrive. \<open>md5\<close>, the cryptography and the printing order of header maps are arguments.
\<close>

record Client =
  cl_host :: string
  cl_port :: u16
  cl_in :: bytes
  cl_out :: bytes
  cseq :: u64
  cl_info :: "ReceiverInfo option"
  cl_pairing_id :: string
  cl_session_id :: string
  cl_pair_type :: byte
  cl_pair_keys :: "PairKeys option"
  encrypted :: bool
  enc_write_key :: bytes
  enc_read_key :: bytes
  enc_write_nonce :: u64
  enc_read_nonce :: u64
  fp_key :: bytes
  fp_iv :: bytes
  fp_ekey :: bytes
  fp_m3 :: bytes
  fp_aes_key :: bytes
  cl_stream_key :: bytes
  cl_stream_iv :: bytes
  auth_password :: string
  auth_challenge :: "DigestChallenge option"

text \<open>The two UUIDs drawn are arguments.\<close>

definition connected :: "string \<Rightarrow> string \<Rightarrow> bytes \<Rightarrow> string \<Rightarrow> u16 \<Rightarrow> Client" where
  "connected uuid1 uuid2 inp host port =
    \<lparr>cl_host = host, cl_port = port, cl_in = inp, cl_out = [], cseq = 0, cl_info = None,
     cl_pairing_id = uuid1, cl_session_id = uuid2, cl_pair_type = PAIRING_TYPE_SCREEN_CAPTURE,
     cl_pair_keys = None, encrypted = False, enc_write_key = [], enc_read_key = [], enc_write_nonce = 0,
     enc_read_nonce = 0, fp_key = [], fp_iv = [], fp_ekey = [], fp_m3 = [], fp_aes_key = [],
     cl_stream_key = [], cl_stream_iv = [], auth_password = [], auth_challenge = None\<rparr>"

definition set_password :: "string \<Rightarrow> Client \<Rightarrow> Client" where
  "set_password password c = c\<lparr>auth_password := password\<rparr>"

definition enable_hap_encryption :: "bytes \<Rightarrow> bytes \<Rightarrow> Client \<Rightarrow> Client" where
  "enable_hap_encryption wk rk c =
    c\<lparr>enc_write_key := wk, enc_read_key := rk, enc_write_nonce := 0, enc_read_nonce := 0, encrypted := True\<rparr>"

subsection \<open>Reading responses\<close>

text \<open>The position of the first occurrence.\<close>

fun find_subslice :: "bytes \<Rightarrow> bytes \<Rightarrow> nat option" where
  "find_subslice [] needle = (if needle = [] then Some 0 else None)"
| "find_subslice (x # xs) needle =
    (if take (length needle) (x # xs) = needle then Some 0 else map_option Suc (find_subslice xs needle))"

definition body_limit_error :: "nat \<Rightarrow> fault" where
  "body_limit_error n =
    protocol (''Content-Length '' @ dec n @ '' exceeds the '' @ dec MAX_RESPONSE_BODY @ '' byte limit'')"

definition read_plaintext_response :: "Client \<Rightarrow> Response res \<times> Client" where
  "read_plaintext_response c =
    (case read_head [] (cl_in c) of
       (Inl e, inp) \<Rightarrow> (Inl e, c\<lparr>cl_in := inp\<rparr>)
     | (Inr header, inp) \<Rightarrow>
         let (st, content_length, hs) = parse_http_header (from_utf8_lossy header) in
         if MAX_RESPONSE_BODY < content_length then (Inl (body_limit_error content_length), c\<lparr>cl_in := inp\<rparr>)
         else if length inp < content_length then (Inl (Err (Transport ''read body'')), c\<lparr>cl_in := []\<rparr>)
         else (Inr \<lparr>status = st, headers = hs, body = take content_length inp\<rparr>,
               c\<lparr>cl_in := drop content_length inp\<rparr>))"

text \<open>\<open>read_encrypted_frame\<close> on the client's state.\<close>

definition client_frame :: "crypto \<Rightarrow> Client \<Rightarrow> bytes res \<times> Client" where
  "client_frame C c =
    (let (r, nonce, inp) = read_encrypted_frame C (enc_read_key c) (enc_read_nonce c) (cl_in c)
     in (r, c\<lparr>enc_read_nonce := nonce, cl_in := inp\<rparr>))"

text \<open>Frames until the head is complete; at most 16384 bytes.\<close>

function read_head_frames :: "crypto \<Rightarrow> bytes \<Rightarrow> Client \<Rightarrow> bytes res \<times> Client" where
  "read_head_frames C decrypted c =
    (if find_subslice decrypted head_end \<noteq> None then (Inr decrypted, c)
     else (case client_frame C c of
         (Inl e, c) \<Rightarrow> (Inl e, c)
       | (Inr frame, c) \<Rightarrow>
           let decrypted = decrypted @ frame in
           if 16384 < length decrypted then (Inl (protocol ''encrypted response header too large''), c)
           else read_head_frames C decrypted c))"
  by pat_completeness auto

text \<open>Frames until the body is complete.\<close>

function read_body_frames :: "crypto \<Rightarrow> nat \<Rightarrow> bytes \<Rightarrow> Client \<Rightarrow> bytes res \<times> Client" where
  "read_body_frames C want decrypted c =
    (if length decrypted < want then
       (case client_frame C c of
          (Inl e, c) \<Rightarrow> (Inl e, c)
        | (Inr frame, c) \<Rightarrow> read_body_frames C want (decrypted @ frame) c)
     else (Inr decrypted, c))"
  by pat_completeness auto

lemma client_frame_less: "client_frame C c = (Inr f, c') \<Longrightarrow> length (cl_in c') < length (cl_in c)"
  by (auto simp: client_frame_def read_encrypted_frame_def read_exact_def Let_def
      split: if_splits sum.splits option.splits prod.splits)

termination read_head_frames
  by (relation "measure (\<lambda>(C, d, c). length (cl_in c))") (auto dest: client_frame_less [OF sym])

termination read_body_frames
  by (relation "measure (\<lambda>(C, t, d, c). length (cl_in c))") (auto dest: client_frame_less [OF sym])

declare read_head_frames.simps [simp del] read_body_frames.simps [simp del]

definition read_encrypted_response :: "crypto \<Rightarrow> Client \<Rightarrow> Response res \<times> Client" where
  "read_encrypted_response C c =
    (case read_head_frames C [] c of
       (Inl e, c) \<Rightarrow> (Inl e, c)
     | (Inr decrypted, c) \<Rightarrow>
         let header_end = the (find_subslice decrypted head_end) + 4;
             (st, content_length, hs) = parse_http_header (from_utf8_lossy (take header_end decrypted)) in
         if MAX_RESPONSE_BODY < content_length then (Inl (body_limit_error content_length), c)
         else (case read_body_frames C (header_end + content_length) decrypted c of
             (Inl e, c) \<Rightarrow> (Inl e, c)
           | (Inr decrypted, c) \<Rightarrow>
               (Inr \<lparr>status = st, headers = hs, body = take content_length (drop header_end decrypted)\<rparr>, c)))"

definition client_read_response :: "crypto \<Rightarrow> Client \<Rightarrow> Response res \<times> Client" where
  "client_read_response C c =
    (if encrypted c then read_encrypted_response C c else read_plaintext_response c)"

subsection \<open>Requests\<close>

definition client_request_text ::
  "hdr_order \<Rightarrow> nat \<Rightarrow> string \<Rightarrow> string \<Rightarrow> string \<Rightarrow> bytes \<Rightarrow> (string \<Rightarrow> string option) \<Rightarrow> string" where
  "client_request_text hdr_list n meth uri content_type bdy extra =
    meth @ '' '' @ uri @ '' RTSP/1.0'' @ crlf @
    header_line ''CSeq'' (dec n) @
    header_line ''User-Agent'' ''AirPlay/935.7.1'' @
    header_lines (hdr_list extra) @
    (if content_type \<noteq> [] \<and> bdy \<noteq> [] then header_line ''Content-Type'' content_type else []) @
    header_line ''Content-Length'' (dec (length bdy)) @ crlf"

definition client_hap_encrypt :: "crypto \<Rightarrow> bytes \<Rightarrow> Client \<Rightarrow> bytes \<times> Client" where
  "client_hap_encrypt C dat c =
    (let (out, nonce) = hap_encrypt C (enc_write_key c) (enc_write_nonce c) dat
     in (out, c\<lparr>enc_write_nonce := nonce\<rparr>))"

text \<open>The sending half of \<open>request_once\<close>.\<close>

definition send_request ::
  "crypto \<Rightarrow> hdr_order \<Rightarrow> string \<Rightarrow> string \<Rightarrow> string \<Rightarrow> bytes \<Rightarrow> (string \<Rightarrow> string option) \<Rightarrow> Client \<Rightarrow> Client" where
  "send_request C hdr_list meth uri content_type bdy extra c =
    (let c = c\<lparr>cseq := cseq c + 1\<rparr>;
         buf = s2b (client_request_text hdr_list (unat (cseq c)) meth uri content_type bdy extra) @ bdy;
         (buf, c) = (if encrypted c then client_hap_encrypt C buf c else (buf, c))
     in c\<lparr>cl_out := cl_out c @ buf\<rparr>)"

definition request_once ::
  "crypto \<Rightarrow> hdr_order \<Rightarrow> string \<Rightarrow> string \<Rightarrow> string \<Rightarrow> bytes \<Rightarrow> (string \<Rightarrow> string option) \<Rightarrow>
     Client \<Rightarrow> Response res \<times> Client" where
  "request_once C hdr_list meth uri content_type bdy extra c =
    client_read_response C (send_request C hdr_list meth uri content_type bdy extra c)"

definition preemptive_auth_header :: "(bytes \<Rightarrow> bytes) \<Rightarrow> string \<Rightarrow> string \<Rightarrow> Client \<Rightarrow> string option" where
  "preemptive_auth_header md5 meth uri c =
    (case auth_challenge c of
       None \<Rightarrow> None
     | Some ch \<Rightarrow>
         if auth_password c = [] then None
         else Some (authorization_header md5 DIGEST_USERNAME (auth_password c) ch meth uri))"

text \<open>The challenge of a 401 response, if there is one; parsing it may panic.\<close>

definition response_challenge :: "Response \<Rightarrow> DigestChallenge option res" where
  "response_challenge resp =
    (case headers resp ''www-authenticate'' of None \<Rightarrow> Inr None | Some v \<Rightarrow> parse_digest_challenge v)"

definition request_inner ::
  "crypto \<Rightarrow> (bytes \<Rightarrow> bytes) \<Rightarrow> hdr_order \<Rightarrow> string \<Rightarrow> string \<Rightarrow> string \<Rightarrow> bytes \<Rightarrow> (string \<Rightarrow> string option) \<Rightarrow>
     Client \<Rightarrow> Response res \<times> Client" where
  "request_inner C md5 hdr_list meth uri content_type bdy extra c =
    (let hs = (case preemptive_auth_header md5 meth uri c of
                 None \<Rightarrow> extra | Some hdr \<Rightarrow> extra(''Authorization'' \<mapsto> hdr)) in
     case request_once C hdr_list meth uri content_type bdy hs c of
       (Inl e, c) \<Rightarrow> (Inl e, c)
     | (Inr resp, c) \<Rightarrow>
         if status resp \<noteq> 401 then (Inr resp, c)
         else (case response_challenge resp of
             Inl e \<Rightarrow> (Inl e, c)
           | Inr None \<Rightarrow> (Inr resp, c)
           | Inr (Some ch) \<Rightarrow>
               let c = c\<lparr>auth_challenge := Some ch\<rparr> in
               if auth_password c = [] then (Inr resp, c)
               else
                 let auth = authorization_header md5 DIGEST_USERNAME (auth_password c) ch meth uri
                 in request_once C hdr_list meth uri content_type bdy (extra(''Authorization'' \<mapsto> auth)) c))"

definition http_request ::
  "crypto \<Rightarrow> (bytes \<Rightarrow> bytes) \<Rightarrow> hdr_order \<Rightarrow> string \<Rightarrow> string \<Rightarrow> string \<Rightarrow> bytes \<Rightarrow> (string \<Rightarrow> string option) \<Rightarrow>
     Client \<Rightarrow> bytes res \<times> Client" where
  "http_request C md5 hdr_list meth path content_type bdy extra c =
    (let (r, c) = request_inner C md5 hdr_list meth path content_type bdy extra c in (ok_body r, c))"

definition rtsp_request ::
  "crypto \<Rightarrow> (bytes \<Rightarrow> bytes) \<Rightarrow> hdr_order \<Rightarrow> string \<Rightarrow> string \<Rightarrow> string \<Rightarrow> bytes \<Rightarrow> (string \<Rightarrow> string option) \<Rightarrow>
     Client \<Rightarrow> (bytes \<times> (string \<Rightarrow> string option)) res \<times> Client" where
  "rtsp_request C md5 hdr_list meth uri content_type bdy extra c =
    (case request_inner C md5 hdr_list meth uri content_type bdy extra c of
       (Inl e, c) \<Rightarrow> (Inl e, c)
     | (Inr resp, c) \<Rightarrow> (rbind (ok_body (Inr resp)) (\<lambda>b. Inr (b, headers resp)), c))"

definition client_request_raw ::
  "crypto \<Rightarrow> hdr_order \<Rightarrow> string \<Rightarrow> string \<Rightarrow> string \<Rightarrow> bytes \<Rightarrow> (string \<Rightarrow> string option) \<Rightarrow>
     Client \<Rightarrow> Response res \<times> Client" where
  "client_request_raw C hdr_list meth path content_type bdy extra c =
    (let c = c\<lparr>cseq := cseq c + 1\<rparr>;
         head_text = meth @ '' '' @ path @ '' RTSP/1.0'' @ crlf @
           header_line ''Content-Type'' content_type @
           header_line ''User-Agent'' ''AirPlay/935.7.1'' @
           header_line ''X-Apple-ProtocolVersion'' ''1'' @
           header_lines (hdr_list extra) @
           header_line ''Content-Length'' (dec (length bdy)) @
           header_line ''CSeq'' (dec (unat (cseq c))) @ crlf
     in client_read_response C (c\<lparr>cl_out := cl_out c @ s2b head_text @ bdy\<rparr>))"

definition raw_request ::
  "crypto \<Rightarrow> hdr_order \<Rightarrow> string \<Rightarrow> string \<Rightarrow> string \<Rightarrow> bytes \<Rightarrow> (string \<Rightarrow> string option) \<Rightarrow>
     Client \<Rightarrow> bytes res \<times> Client" where
  "raw_request C hdr_list meth path content_type bdy extra c =
    (case client_request_raw C hdr_list meth path content_type bdy extra c of
       (Inl e, c) \<Rightarrow> (Inl e, c) | (Inr resp, c) \<Rightarrow> (Inr (body resp), c))"

text \<open>\<open>Transport for Client\<close>\<close>

definition client_transport :: "crypto \<Rightarrow> (bytes \<Rightarrow> bytes) \<Rightarrow> hdr_order \<Rightarrow> Client transport" where
  "client_transport C md5 hdr_list rq c =
    (if rq_raw rq
     then client_request_raw C hdr_list (rq_method rq) (rq_path rq) (rq_content_type rq) (rq_body rq) (rq_headers rq) c
     else request_inner C md5 hdr_list (rq_method rq) (rq_path rq) (rq_content_type rq) (rq_body rq) (rq_headers rq) c)"

definition get_info ::
  "crypto \<Rightarrow> (bytes \<Rightarrow> bytes) \<Rightarrow> hdr_order \<Rightarrow> plist_lib \<Rightarrow> plist_de \<Rightarrow> Client \<Rightarrow> ReceiverInfo res \<times> Client" where
  "get_info C md5 hdr_list L D c =
    (case http_request C md5 hdr_list ''GET'' ''/info'' ''application/x-apple-binary-plist'' [] Map.empty c of
       (Inl e, c) \<Rightarrow> (Inl e, c)
     | (Inr resp, c) \<Rightarrow> (case parse_info L D resp of
           None \<Rightarrow> (Inl (protocol ''decode info plist''), c)
         | Some i \<Rightarrow> (Inr i, c\<lparr>cl_info := Some i\<rparr>)))"

text \<open>\<open>derive_stream_keys\<close>; slicing a short key panics. \<open>key\<close> and \<open>iv\<close> are the random draws.\<close>

definition derive_stream_keys :: "bytes \<Rightarrow> bytes \<Rightarrow> Client \<Rightarrow> unit res \<times> Client" where
  "derive_stream_keys key iv c =
    (if enc_write_key c = [] then (Inr (), c\<lparr>cl_stream_key := key, cl_stream_iv := iv\<rparr>)
     else if length (enc_write_key c) < 16 then (Inl Panic, c)
     else if length (enc_read_key c) < 16 then (Inl Panic, c\<lparr>cl_stream_key := take 16 (enc_write_key c)\<rparr>)
     else (Inr (), c\<lparr>cl_stream_key := take 16 (enc_write_key c), cl_stream_iv := take 16 (enc_read_key c)\<rparr>))"

end
