(* ===== verification/Mirror_Clock.thy ===== *)
theory Mirror_Clock
  imports Complex_Main Plist Http_Text
begin

text \<open>
  The time base of a mirroring session: the latency target (latency.rs), NTP fixed-point time stamps, the media
  clock that follows the receiver's time line and the NTP responder (mirror.rs), and the identifiers drawn for a
  session (uuid.rs, \<open>uuid_to_mac\<close>). A \<open>Duration\<close> or \<open>Instant\<close> is a number of nanoseconds; the
  process-wide latency target is an argument, and reading the clock gives a value. Floating-point operations are
  the exact ones followed by \<open>rnd\<close>, the rounding of doubles, an argument. Sums of \<open>u64\<close> wrap, as
  they do in a release build.
\<close>

subsection \<open>The latency target\<close>

definition DEFAULT_TARGET_LATENCY_NS :: int where "DEFAULT_TARGET_LATENCY_NS = 1000000"
definition CONSERVATIVE_PLAYOUT_LATENCY_NS :: int where "CONSERVATIVE_PLAYOUT_LATENCY_NS = 100000000"

text \<open>\<open>set_target_latency\<close>: the new value of the target; \<open>as i64\<close> keeps the low 64 bits.\<close>

definition set_target_latency :: "nat \<Rightarrow> int" where
  "set_target_latency d =
    (let ns = sint (word_of_nat d :: u64);
         ns = (if ns < 5000000 then 5000000 else ns)
     in if 2000000000 < ns then 2000000000 else ns)"

definition target_latency :: "int \<Rightarrow> nat" where
  "target_latency ns = (if ns \<le> 0 then nat DEFAULT_TARGET_LATENCY_NS else nat ns)"

type_synonym rounding = "rat \<Rightarrow> rat"

definition as_secs_f64 :: "rounding \<Rightarrow> nat \<Rightarrow> rat" where
  "as_secs_f64 rnd d =
    rnd (rnd (of_nat (d div 1000000000)) + rnd (of_nat (d mod 1000000000) / 1000000000))"

text \<open>\<open>f64::round\<close>: halves away from zero.\<close>

definition round_half :: "rat \<Rightarrow> int" where
  "round_half x = (if 0 \<le> x then \<lfloor>x + 1 / 2\<rfloor> else \<lceil>x - 1 / 2\<rceil>)"

definition samples_for_44k1 :: "rounding \<Rightarrow> nat \<Rightarrow> u32" where
  "samples_for_44k1 rnd d =
    (let samples = clamp_i64 (round_half (rnd (as_secs_f64 rnd d * 44100)))
     in if samples < 1 then 1 else word_of_int (min samples (2 ^ 32 - 1)))"

definition target_latency_samples_44k1 :: "rounding \<Rightarrow> int \<Rightarrow> u32" where
  "target_latency_samples_44k1 rnd ns = samples_for_44k1 rnd (target_latency ns)"

subsection \<open>Identifiers\<close>

text \<open>\<open>b\<close> are the sixteen random bytes.\<close>

definition uuid_bytes :: "bytes \<Rightarrow> bytes" where
  "uuid_bytes b =
    (let b = b[6 := (b ! 6 AND 0x0f) OR 0x40] in b[8 := (b ! 8 AND 0x3f) OR 0x80])"

definition generate_uuid :: "bytes \<Rightarrow> string" where
  "generate_uuid b =
    (let b = uuid_bytes b in
     hex (take 4 b) @ ''-'' @ hex (take 2 (drop 4 b)) @ ''-'' @ hex (take 2 (drop 6 b)) @ ''-'' @
     hex (take 2 (drop 8 b)) @ ''-'' @ hex (take 6 (drop 10 b)))"

definition upper_char :: "char \<Rightarrow> char" where
  "upper_char c =
    (if 97 \<le> (of_char c :: nat) \<and> of_char c \<le> (122 :: nat) then char_of (of_char c - 32 :: nat) else c)"

fun join_colon :: "string list \<Rightarrow> string" where
  "join_colon [] = []"
| "join_colon [s] = s"
| "join_colon (s # t # ss) = s @ '':'' @ join_colon (t # ss)"

fun chunks2 :: "'a list \<Rightarrow> 'a list list" where
  "chunks2 [] = []"
| "chunks2 [x] = [[x]]"
| "chunks2 (x # y # zs) = [x, y] # chunks2 zs"

text \<open>\<open>s.replace_range(..2, r)\<close> panics when byte 2 is not the start of a character.\<close>

definition replace_two :: "string \<Rightarrow> string \<Rightarrow> string res" where
  "replace_two r s =
    (if length s < 2 \<or> (2 < length s \<and> is_cont (s2b s ! 2)) then Inl Panic else Inr (r @ drop 2 s))"

definition uuid_to_mac :: "string \<Rightarrow> string res" where
  "uuid_to_mac i =
    (let hx = filter (\<lambda>c. c \<noteq> CHR ''-'') (to_ascii_lowercase i) in
     if length hx < 12 then Inr ''02:00:00:00:00:01''
     else
       let parts = map (\<lambda>c. map upper_char (from_utf8_lossy c)) (chunks2 (take 12 (s2b hx)))
       in replace_two ''02'' (join_colon parts))"

subsection \<open>Time stamps\<close>

definition SECONDS_FROM_1900_TO_1970 :: u64 where "SECONDS_FROM_1900_TO_1970 = 2208988800"

text \<open>The comparison with \<open>Duration::ZERO\<close> is never true.\<close>

definition compact_timestamp :: "nat \<Rightarrow> u64" where
  "compact_timestamp d =
    (let sec = word_of_nat (d div 1000000000);
         nsec_frac = word_of_nat (d mod 1000000000);
         frac = push_bit 32 nsec_frac div 1000000000
     in push_bit 32 sec OR frac)"

definition ntp_boot_timestamp :: "nat \<Rightarrow> u64" where
  "ntp_boot_timestamp d =
    (let sec = word_of_nat (d div 1000000000) + SECONDS_FROM_1900_TO_1970;
         frac = push_bit 32 (word_of_nat (d mod 1000000000)) div 1000000000
     in push_bit 32 sec OR frac)"

text \<open>\<open>ntp_time_now\<close>, from the time since the start of the process.\<close>

definition ntp_time_now :: "nat \<Rightarrow> u64" where
  "ntp_time_now elapsed = compact_timestamp (elapsed + 5000000)"

text \<open>The answer of \<open>ntp_timing_responder\<close> to a datagram, which it cuts at its buffer of 128 bytes.\<close>

definition ntp_reply :: "u64 \<Rightarrow> bytes \<Rightarrow> bytes option" where
  "ntp_reply now datagram =
    (let buf = take 128 datagram in
     if length buf < 32 then None
     else
       let reply = take 32 buf;
           reply = reply[0 := 0x80, 1 := 0xd3];
           reply = splice 8 (take 8 (drop 24 buf)) reply;
           reply = splice 16 (to_be 8 (unat now)) reply
       in Some (splice 24 (to_be 8 (unat now)) reply))"

subsection \<open>The media clock\<close>

definition plist_int :: "plist \<Rightarrow> int" where
  "plist_int v = (case as_signed_integer v of
      Some n \<Rightarrow> n | None \<Rightarrow> (case as_real_i64 v of Some n \<Rightarrow> n | None \<Rightarrow> 0))"

definition plist_uint :: "plist \<Rightarrow> u64" where
  "plist_uint v = word_of_int (plist_int v)"

record MediaClock =
  anchor_local :: "nat option"
  anchor_timestamp :: u64
  timeline_id :: u64

definition MediaClock_default :: MediaClock where
  "MediaClock_default = \<lparr>anchor_local = None, anchor_timestamp = 0, timeline_id = 0\<rparr>"

definition header_u64 :: "string \<Rightarrow> fault \<Rightarrow> (string \<Rightarrow> string option) \<Rightarrow> u64 res" where
  "header_u64 nm e hs =
    rbind (ok_or e (hs nm)) (\<lambda>v. rbind (ok_or e (parse_uint 64 v)) (\<lambda>n. Inr (word_of_nat n)))"

definition receiver_clock_timestamp :: "(string \<Rightarrow> string option) \<Rightarrow> (u64 \<times> u64 \<times> u64) res" where
  "receiver_clock_timestamp hs =
    rbind (header_u64 ''x-apple-requestreceivedtimestamp'' (protocol ''invalid X-Apple-RequestReceivedTimestamp'') hs) (\<lambda>received.
    rbind (header_u64 ''x-apple-processingtime'' (protocol ''invalid X-Apple-ProcessingTime'') hs) (\<lambda>processing.
    let total = unat (received + processing) * 1000000
    in Inr (compact_timestamp total, received, processing)))"

definition configure_from_setup ::
  "plist \<Rightarrow> (string \<Rightarrow> string option) \<Rightarrow> nat \<Rightarrow> MediaClock \<Rightarrow> unit res \<times> MediaClock" where
  "configure_from_setup response hs received_at c =
    (case p_get ''timingPeerInfo'' response of
       Some (PDict m) \<Rightarrow>
         let timeline = (case map_of m ''ClockID'' of None \<Rightarrow> 0 | Some v \<Rightarrow> plist_uint v) in
         if timeline = 0 then (Inl (protocol ''SETUP response omitted timingPeerInfo.ClockID''), c)
         else (case receiver_clock_timestamp hs of
             Inl e \<Rightarrow> (Inl e, c)
           | Inr (anchor, _, _) \<Rightarrow>
               (Inr (), c\<lparr>anchor_local := Some received_at, anchor_timestamp := anchor, timeline_id := timeline\<rparr>))
     | _ \<Rightarrow> (Inl (protocol ''SETUP response omitted timingPeerInfo''), c))"

definition reanchor :: "(string \<Rightarrow> string option) \<Rightarrow> nat \<Rightarrow> MediaClock \<Rightarrow> unit res \<times> MediaClock" where
  "reanchor hs received_at c =
    (case receiver_clock_timestamp hs of
       Inl e \<Rightarrow> (Inl e, c)
     | Inr (anchor, _, _) \<Rightarrow> (Inr (), c\<lparr>anchor_timestamp := anchor, anchor_local := Some received_at\<rparr>))"

text \<open>\<open>t\<close> is the current instant; \<open>elapsed\<close> is zero for an anchor in the future.\<close>

definition clock_now :: "nat \<Rightarrow> nat \<Rightarrow> MediaClock \<Rightarrow> (u64 \<times> u64) option" where
  "clock_now t bias c =
    (case anchor_local c of
       None \<Rightarrow> None
     | Some local \<Rightarrow>
         if timeline_id c = 0 then None
         else Some (anchor_timestamp c + compact_timestamp ((t - local) + bias), timeline_id c))"

subsection \<open>Time stamps are fixed-point seconds\<close>

lemma u64_unat_less: "unat (x :: u64) < 2 ^ 64"
  using unsigned_less [of x, where ?'a = nat] by simp

lemma nsec_fraction:
  assumes "n < 1000000000"
  shows "unat (push_bit 32 (word_of_nat n) div 1000000000 :: u64) = n * 2 ^ 32 div 1000000000"
    and "n * 2 ^ 32 div 1000000000 < 2 ^ 32"
proof -
  have "unat (push_bit 32 (word_of_nat n) :: u64) = n * 2 ^ 32"
    using assms by (simp add: push_bit_eq_mult unat_mult_lem [THEN iffD1] unat_word_ariths unat_of_nat)
  then show "unat (push_bit 32 (word_of_nat n) div 1000000000 :: u64) = n * 2 ^ 32 div 1000000000"
    by (simp add: unat_div)
  show "n * 2 ^ 32 div 1000000000 < 2 ^ 32" using assms by (simp add: less_mult_imp_div_less)
qed

lemma unat_seconds_or:
  fixes f :: u64
  assumes "unat f < 2 ^ 32" "s < 2 ^ 32"
  shows "unat (push_bit 32 (word_of_nat s) OR f) = s * 2 ^ 32 + unat f"
proof -
  have "\<not> bit f n" if "32 \<le> n" for n
  proof -
    have "(2 :: nat) ^ 32 \<le> 2 ^ n" using that by (rule power_increasing) simp
    with assms(1) have "unat f div 2 ^ n = 0" by (intro div_less) linarith
    then have "\<not> bit (unat f) n" by (simp add: bit_iff_odd)
    then show ?thesis by (simp add: bit_unsigned_iff)
  qed
  then have "push_bit 32 (word_of_nat s) AND f = 0"
    by (auto simp: bit_eq_iff bit_and_iff bit_push_bit_iff)
  then have "push_bit 32 (word_of_nat s) OR f = push_bit 32 (word_of_nat s) + f"
    by (simp add: disjunctive_add_eq_or)
  moreover have "unat (push_bit 32 (word_of_nat s) :: u64) = s * 2 ^ 32"
    using assms(2) by (simp add: push_bit_eq_mult unat_word_ariths unat_of_nat)
  ultimately show ?thesis using assms by (simp add: unat_word_ariths)
qed

text \<open>Fixed-point seconds with 32 fraction bits, rounded down.\<close>

definition fixed_seconds :: "nat \<Rightarrow> nat" where
  "fixed_seconds d = d * 2 ^ 32 div 1000000000"

lemma fixed_seconds_split: "fixed_seconds d = d div 1000000000 * 2 ^ 32 + d mod 1000000000 * 2 ^ 32 div 1000000000"
proof -
  have split: "(s * c + n) * k div c = s * k + n * k div c" if "0 < c" for s c n k :: nat
  proof -
    have "(s * c + n) * k = n * k + s * k * c" by (simp add: algebra_simps)
    with that show ?thesis by simp
  qed
  show ?thesis
    unfolding fixed_seconds_def
    using split [of 1000000000 "d div 1000000000" "d mod 1000000000" "2 ^ 32"] by (simp only: div_mult_mod_eq)
qed

lemma compact_timestamp_fixed:
  assumes "d < 2 ^ 32 * 1000000000"
  shows "unat (compact_timestamp d) = fixed_seconds d"
proof -
  have "d div 1000000000 < 2 ^ 32" using assms by (simp add: less_mult_imp_div_less)
  with nsec_fraction [of "d mod 1000000000"] show ?thesis
    by (simp add: compact_timestamp_def Let_def unat_seconds_or fixed_seconds_split)
qed

lemma fixed_seconds_add:
  "fixed_seconds a + fixed_seconds b \<le> fixed_seconds (a + b)"
  "fixed_seconds (a + b) \<le> fixed_seconds a + fixed_seconds b + 1"
proof -
  have "(x div c + y div c :: nat) \<le> (x + y) div c \<and> (x + y) div c \<le> x div c + y div c + 1" if "0 < c" for x y c
  proof -
    have "(x + y) div c = x div c + y div c + (x mod c + y mod c) div c" by (rule div_add1_eq)
    moreover have "x mod c + y mod c < 2 * c" using that by (metis add_less_mono mod_less_divisor mult_2)
    then have "(x mod c + y mod c) div c \<le> 1" by (simp add: less_mult_imp_div_less flip: less_Suc_eq_le)
    ultimately show ?thesis by simp
  qed
  from this [of 1000000000 "a * 2 ^ 32" "b * 2 ^ 32"]
  show "fixed_seconds a + fixed_seconds b \<le> fixed_seconds (a + b)"
    "fixed_seconds (a + b) \<le> fixed_seconds a + fixed_seconds b + 1"
    by (simp_all add: fixed_seconds_def add_mult_distrib)
qed

subsection \<open>Properties\<close>

text \<open>C33. The media clock follows the time line of the receiver: configured at the local instant \<open>t0\<close> from a SETUP
  response whose headers give \<open>r\<close> and \<open>q\<close> milliseconds, it reads at any later instant, to within one unit of
  \<open>2 ^ -32\<close> seconds, the receiver's time \<open>r + q\<close> ms plus what has passed locally plus the bias, and reports
  the clock identity of the response.\<close>

theorem media_clock_tracks:
  assumes "p_get ''timingPeerInfo'' response = Some (PDict m)" "map_of m ''ClockID'' = Some (PInt n)" "0 < n" "n < 2 ^ 63"
    and "hs ''x-apple-requestreceivedtimestamp'' = Some (dec r)" "hs ''x-apple-processingtime'' = Some (dec q)"
    and "t0 \<le> t" "(r + q) * 1000000 + (t - t0) + bias < 2 ^ 32 * 1000000000"
  shows "\<exists>c ts. configure_from_setup response hs t0 MediaClock_default = (Inr (), c) \<and>
    clock_now t bias c = Some (ts, word_of_int n) \<and>
    unat ts \<le> fixed_seconds ((r + q) * 1000000 + (t - t0) + bias) \<and>
    fixed_seconds ((r + q) * 1000000 + (t - t0) + bias) \<le> unat ts + 1"
proof -
  have "(r + q) * 1000000 < 2 ^ 32 * 1000000000" using assms(8) by linarith
  then have rq: "r + q < 2 ^ 64" "r < 2 ^ 64" "q < 2 ^ 64" by simp_all
  define c where "c = \<lparr>anchor_local = Some t0, anchor_timestamp = compact_timestamp ((r + q) * 1000000), timeline_id = word_of_int n\<rparr>"
  define ts where "ts = anchor_timestamp c + compact_timestamp ((t - t0) + bias)"
  have n: "plist_uint (PInt n) = word_of_int n" "(word_of_int n :: u64) \<noteq> 0"
    using assms(3,4) by (simp_all add: plist_uint_def plist_int_def word_of_int_eq_0_iff zdvd_not_zless)
  have "unat (word_of_nat r + word_of_nat q :: u64) = r + q"
    using rq by (simp add: unat_of_nat unat_word_ariths)
  then have conf: "configure_from_setup response hs t0 MediaClock_default = (Inr (), c)"
    using assms(1,2,5,6) n rq
    by (simp add: configure_from_setup_def receiver_clock_timestamp_def header_u64_def MediaClock_default_def c_def)
  have a: "unat (compact_timestamp ((r + q) * 1000000)) = fixed_seconds ((r + q) * 1000000)"
    "unat (compact_timestamp ((t - t0) + bias)) = fixed_seconds ((t - t0) + bias)"
    by (rule compact_timestamp_fixed, use assms(8) in linarith)+
  have "fixed_seconds ((r + q) * 1000000) + fixed_seconds ((t - t0) + bias) < 2 ^ 64"
    using fixed_seconds_add(1) [of "(r + q) * 1000000" "(t - t0) + bias"] assms(8)
    by (simp add: fixed_seconds_def add.assoc)
  with a have "unat ts = fixed_seconds ((r + q) * 1000000) + fixed_seconds ((t - t0) + bias)"
    by (simp add: ts_def c_def unat_word_ariths)
  then have "unat ts \<le> fixed_seconds ((r + q) * 1000000 + (t - t0) + bias) \<and>
      fixed_seconds ((r + q) * 1000000 + (t - t0) + bias) \<le> unat ts + 1"
    using fixed_seconds_add [of "(r + q) * 1000000" "(t - t0) + bias"] by (simp add: add.assoc)
  moreover have "clock_now t bias c = Some (ts, word_of_int n)"
    using n(2) by (simp add: clock_now_def c_def ts_def)
  ultimately show ?thesis using conf by blast
qed

theorem media_clock_tracks_witness:
  "\<exists>c ts. configure_from_setup (PDict [(''timingPeerInfo'', PDict [(''ClockID'', PInt 7)])])
      [''x-apple-requestreceivedtimestamp'' \<mapsto> dec 1500, ''x-apple-processingtime'' \<mapsto> dec 2] 1000 MediaClock_default = (Inr (), c) \<and>
    clock_now 2001000 5000000 c = Some (ts, word_of_int 7) \<and>
    unat ts \<le> fixed_seconds ((1500 + 2) * 1000000 + (2001000 - 1000) + 5000000) \<and>
    fixed_seconds ((1500 + 2) * 1000000 + (2001000 - 1000) + 5000000) \<le> unat ts + 1"
  by (rule media_clock_tracks [where m = "[(''ClockID'', PInt 7)]"]) (simp_all add: p_get_def)

text \<open>A clock identity whose top bit is set is lost: the crate hands it out as an unsigned integer, which
  \<open>plist_int\<close> does not accept, so it counts as missing and the session is refused.\<close>

theorem large_clock_id_refused:
  assumes "2 ^ 63 \<le> n"
  shows "configure_from_setup (PDict [(''timingPeerInfo'', PDict [(''ClockID'', PInt n)])]) hs t0 c =
    (Inl (protocol ''SETUP response omitted timingPeerInfo.ClockID''), c)"
  using assms by (simp add: configure_from_setup_def p_get_def plist_uint_def plist_int_def)

theorem large_clock_id_refused_witness:
  "configure_from_setup (PDict [(''timingPeerInfo'', PDict [(''ClockID'', PInt 0x8000000000000001)])]) Map.empty 0
     MediaClock_default = (Inl (protocol ''SETUP response omitted timingPeerInfo.ClockID''), MediaClock_default)"
  by (rule large_clock_id_refused) simp

subsection \<open>Identifiers of a session\<close>

lemma hex_chars: "c \<in> set (hex b) \<Longrightarrow> c \<in> set ''0123456789abcdef''"
proof -
  have d: "hex_digit n \<in> set ''0123456789abcdef''" if "n < 16" for n
  proof -
    have "list_all (\<lambda>i. hex_digit i \<in> set ''0123456789abcdef'') [0..<16]" by code_simp
    with that show ?thesis by (simp add: list_all_iff)
  qed
  assume "c \<in> set (hex b)"
  then obtain x where "c \<in> set (hex2 x)" by (auto simp: hex_def)
  then have "c = hex_digit (unat x div 16) \<or> c = hex_digit (unat x mod 16)" by (simp add: hex2_def)
  then show "c \<in> set ''0123456789abcdef''"
  proof
    assume "c = hex_digit (unat x div 16)"
    then show ?thesis by (simp only:) (rule d, simp add: less_mult_imp_div_less)
  next
    assume "c = hex_digit (unat x mod 16)"
    then show ?thesis by (simp only:) (rule d, simp)
  qed
qed

lemma lower_hex: "to_ascii_lowercase (hex b) = hex b"
proof -
  have "lower_char c = c" if "c \<in> set ''0123456789abcdef''" for c
    using that by (auto simp: lower_char_def)
  then show ?thesis
    using hex_chars by (simp add: to_ascii_lowercase_def map_idI)
qed

lemma filter_hex: "filter (\<lambda>c. c \<noteq> CHR ''-'') (hex b) = hex b"
  using hex_chars by (intro filter_True) fastforce

lemma hex_append [simp]: "hex (a @ b) = hex a @ hex b"
  by (simp add: hex_def)

lemma uuid_hex:
  assumes "length b = 16"
  shows "filter (\<lambda>c. c \<noteq> CHR ''-'') (to_ascii_lowercase (generate_uuid b)) = hex (uuid_bytes b)"
proof -
  let ?b = "uuid_bytes b"
  have low: "to_ascii_lowercase (s @ t) = to_ascii_lowercase s @ to_ascii_lowercase t" for s t
    by (simp add: to_ascii_lowercase_def)
  have dash: "to_ascii_lowercase (CHR ''-'' # s) = CHR ''-'' # to_ascii_lowercase s" for s
    by (simp add: to_ascii_lowercase_def lower_char_def)
  have "filter (\<lambda>c. c \<noteq> CHR ''-'') (to_ascii_lowercase (generate_uuid b)) =
      hex (take 4 ?b @ take 2 (drop 4 ?b) @ take 2 (drop 6 ?b) @ take 2 (drop 8 ?b) @ take 6 (drop 10 ?b))"
    by (simp add: generate_uuid_def Let_def low dash lower_hex filter_hex)
  also have "take 4 ?b @ take 2 (drop 4 ?b) @ take 2 (drop 6 ?b) @ take 2 (drop 8 ?b) @ take 6 (drop 10 ?b) = ?b"
  proof -
    have "length ?b = 16" using assms by (simp add: uuid_bytes_def Let_def)
    then have "take 6 (drop 10 ?b) = drop 10 ?b" by simp
    moreover have "take k (drop n ?b) @ drop (n + k) ?b = drop n ?b" for k n
      by (metis append_take_drop_id drop_drop add.commute)
    from this [of 2 8] this [of 2 6] this [of 2 4] this [of 4 0]
    have "take 2 (drop 8 ?b) @ drop 10 ?b = drop 8 ?b" "take 2 (drop 6 ?b) @ drop 8 ?b = drop 6 ?b"
      "take 2 (drop 4 ?b) @ drop 6 ?b = drop 4 ?b" "take 4 ?b @ drop 4 ?b = ?b" by simp_all
    ultimately show ?thesis by simp
  qed
  finally show ?thesis .
qed


text \<open>Upper-case hexadecimal of one byte.\<close>

definition mac_part :: "byte \<Rightarrow> string" where
  "mac_part x = map upper_char (hex2 x)"

lemma hex2_ascii: "list_all (\<lambda>x. x < (0x80 :: byte)) (s2b (hex2 x))"
proof -
  have "list_all (\<lambda>c. of_char c < (128 :: nat)) ''0123456789abcdef''" by code_simp
  then have "of_char c < (128 :: nat)" if "c \<in> set (hex [x])" for c
    using hex_chars [OF that] unfolding list_all_iff by blast
  then show ?thesis by (auto simp: hex_def s2b_def list_all_iff word_less_nat_alt)
qed

lemma lossy_hex2: "from_utf8_lossy (s2b (hex2 x)) = hex2 x"
  using hex2_ascii by (simp add: from_utf8_lossy_ascii)

lemma chunks2_pair: "length p = 2 \<Longrightarrow> chunks2 (p @ r) = p # chunks2 r"
  by (auto simp: numeral_2_eq_2 length_Suc_conv)

lemma length_hex2 [simp]: "length (hex2 x) = 2"
  by (simp add: hex2_def)

lemma hex_Nil [simp]: "hex [] = []"
  by (simp add: hex_def)

lemma hex_Cons: "hex (x # xs) = hex2 x @ hex xs"
  by (simp add: hex_def)

lemma uuid_nibbles:
  "hd (hex2 ((x AND 0x0f) OR 0x40)) = CHR ''4''" "hd (hex2 ((x AND 0x3f) OR 0x80)) \<in> set ''89ab''"
proof -
  have hd: "hd (hex2 z) = hex_digit (unat (drop_bit 4 z))" for z :: byte
    by (simp add: hex2_def drop_bit_eq_div unat_div)
  have "drop_bit 4 ((x AND 0x0f) OR 0x40) = 4" by (simp add: drop_bit_or drop_bit_and)
  then show "hd (hex2 ((x AND 0x0f) OR 0x40)) = CHR ''4''" unfolding hd by simp code_simp
  define y where "y = drop_bit 4 x AND 3"
  have w: "drop_bit 4 ((x AND 0x3f) OR 0x80) = y OR 8" by (simp add: y_def drop_bit_or drop_bit_and)
  have "y = take_bit 2 (drop_bit 4 x)" by (simp add: y_def take_bit_eq_mask mask_numeral)
  then have "unat y = take_bit 2 (unat (drop_bit 4 x))" by (simp only: unsigned_take_bit_eq)
  then have "unat y < 4" using take_bit_nat_less_exp [of 2 "unat (drop_bit 4 x)"] by simp
  then have "unat y = 0 \<or> unat y = 1 \<or> unat y = 2 \<or> unat y = 3" by linarith
  then have "y = 0 \<or> y = 1 \<or> y = 2 \<or> y = 3" by (simp add: word_unat_eq_iff)
  then show "hd (hex2 ((x AND 0x3f) OR 0x80)) \<in> set ''89ab''"
    unfolding hd w by (elim disjE; simp only:; code_simp)
qed

text \<open>The identifiers of a session: for any sixteen random bytes the UUID has 36 characters with the version
  nibble 4 and the variant nibble 8, 9, a or b, and the device address made of it is the locally administered
  unicast address \<open>02\<close> followed by bytes 1 to 5 in upper-case hexadecimal. So the address never panics and
  depends on 40 of the random bits.\<close>

theorem session_identifiers:
  assumes "length b = 16"
  shows "length (generate_uuid b) = 36 \<and> generate_uuid b ! 14 = CHR ''4'' \<and> generate_uuid b ! 19 \<in> set ''89ab'' \<and>
    uuid_to_mac (generate_uuid b) = Inr (''02:'' @ join_colon (map mac_part (take 5 (drop 1 b))))"
proof -
  from assms obtain b0 b1 b2 b3 b4 b5 b6 b7 b8 rest where b: "b = [b0, b1, b2, b3, b4, b5, b6, b7, b8] @ rest" "length rest = 7"
    by (auto simp: numeral_eq_Suc length_Suc_conv)
  define v where "v = (b6 AND 0x0f) OR 0x40"
  define w where "w = (b8 AND 0x3f) OR 0x80"
  have u: "uuid_bytes b = [b0, b1, b2, b3, b4, b5, v, b7, w] @ rest"
    by (simp add: uuid_bytes_def b v_def w_def)
  have len: "length (generate_uuid b) = 36"
    using b(2) by (simp add: generate_uuid_def Let_def u)
  have hv: "hd (hex2 v) = CHR ''4''" using uuid_nibbles [of b6] by (simp add: v_def)
  have hw: "hd (hex2 w) \<in> set ''89ab''" using uuid_nibbles [of b8] by (simp only: w_def)
  have 14: "generate_uuid b ! 14 = hd (hex2 v)" and 19: "generate_uuid b ! 19 = hd (hex2 w)"
    by (simp_all add: generate_uuid_def Let_def u hex_def hex2_def)
  define p where "p = [b0, b1, b2, b3, b4, b5]"
  have "take 12 (s2b (hex (uuid_bytes b))) = s2b (hex p)"
    by (simp add: u p_def hex_Cons)
  moreover have "map (\<lambda>c. map upper_char (from_utf8_lossy c)) (chunks2 (s2b (hex q))) = map mac_part q" for q
  proof (induction q)
    case (Cons x q)
    then show ?case by (simp add: hex_Cons chunks2_pair lossy_hex2 mac_part_def)
  qed simp
  moreover have "length (hex (uuid_bytes b)) = 32" using b(2) by (simp add: u)
  ultimately have "uuid_to_mac (generate_uuid b) = replace_two ''02'' (join_colon (map mac_part p))"
    by (simp add: uuid_to_mac_def Let_def uuid_hex [OF assms])
  also have "\<dots> = Inr (''02'' @ drop 2 (join_colon (map mac_part p)))"
  proof -
    have "join_colon (map mac_part p) ! 2 = CHR '':''" by (simp add: p_def mac_part_def nth_append)
    moreover have "2 < length (join_colon (map mac_part p))" by (simp add: p_def mac_part_def)
    moreover have "\<not> is_cont (of_char (CHR '':''))" by code_simp
    ultimately show ?thesis by (simp add: replace_two_def s2b_def)
  qed
  also have "drop 2 (join_colon (map mac_part p)) = '':'' @ join_colon (map mac_part (take 5 (drop 1 b)))"
    by (simp add: p_def b mac_part_def)
  finally show ?thesis using len 14 19 hv hw by simp
qed

theorem session_identifiers_witness:
  "uuid_to_mac (generate_uuid (replicate 16 255)) = Inr (''02:'' @ join_colon (map mac_part (take 5 (drop 1 (replicate 16 255)))))"
  using session_identifiers [of "replicate 16 255"] by simp

end
