(* ===== verification/Mirror_Cipher.thy ===== *)
theory Mirror_Cipher
  imports Prelude
begin

text \<open>
  The video stream cipher of \<open>mirror_cipher.rs\<close>. AES-128-CTR is third-party code: its
  keystream, a function from byte positions to bytes, is the parameter \<open>ks\<close>, and
  \<open>apply_keystream\<close> XORs the next bytes of it and moves on. The hashes of the key derivation
  are parameters as well.
\<close>

subsection \<open>The cipher\<close>

type_synonym keystream = "nat \<Rightarrow> byte"

record MirrorCipher =
  stream_pos :: nat
  block_offset :: nat
  og :: bytes
  next_crypt_count :: nat

definition MirrorCipher_new :: MirrorCipher where
  "MirrorCipher_new =
    \<lparr>stream_pos = 0, block_offset = 0, og = replicate 16 0, next_crypt_count = 0\<rparr>"

definition apply_keystream :: "keystream \<Rightarrow> MirrorCipher \<Rightarrow> bytes \<Rightarrow> bytes \<times> MirrorCipher" where
  "apply_keystream ks c b =
    (xor_bytes b (map ks [stream_pos c ..< stream_pos c + length b]),
     c\<lparr>stream_pos := stream_pos c + length b\<rparr>)"

text \<open>Step 1: the prefix taken from the cached keystream of the previous frame's tail.\<close>

definition crypt_prefix :: "MirrorCipher \<Rightarrow> bytes \<Rightarrow> bytes" where
  "crypt_prefix c payload =
    (let n = min (next_crypt_count c) (length payload);
         og_start = 16 - next_crypt_count c
     in map (\<lambda>i. payload ! i XOR og c ! (og_start + i)) [0..<n])"

text \<open>Step 2: advance to the next 16-byte boundary.\<close>

definition skip_to_boundary :: "keystream \<Rightarrow> MirrorCipher \<Rightarrow> MirrorCipher" where
  "skip_to_boundary ks c =
    (if 0 < block_offset c
     then (snd (apply_keystream ks c (replicate (16 - block_offset c) 0)))\<lparr>block_offset := 0\<rparr>
     else c)"

definition encrypt_frame :: "keystream \<Rightarrow> MirrorCipher \<Rightarrow> bytes \<Rightarrow> bytes \<times> MirrorCipher" where
  "encrypt_frame ks c payload =
    (let input_len = length payload;
         prefix = (if 0 < next_crypt_count c then crypt_prefix c payload else []);
         pos = (if 0 < next_crypt_count c then min (next_crypt_count c) input_len else 0);
         c = skip_to_boundary ks c;
         remaining = input_len - pos;
         full_blocks = remaining div 16 * 16;
         (blocks, c) = (if 0 < full_blocks
           then apply_keystream ks c (take full_blocks (drop pos payload)) else ([], c));
         pos = pos + full_blocks;
         rest_len = remaining mod 16;
         c = c\<lparr>next_crypt_count := 0\<rparr>
     in if 0 < rest_len then
          let (padded, c) = apply_keystream ks c
                (take rest_len (drop pos payload) @ replicate (16 - rest_len) 0)
          in (prefix @ blocks @ take rest_len padded,
              c\<lparr>og := padded, next_crypt_count := 16 - rest_len, block_offset := 0\<rparr>)
        else (prefix @ blocks, c))"

fun encrypt_frames :: "keystream \<Rightarrow> MirrorCipher \<Rightarrow> bytes list \<Rightarrow> bytes list \<times> MirrorCipher" where
  "encrypt_frames ks c [] = ([], c)"
| "encrypt_frames ks c (f # fs) =
    (let (x, c) = encrypt_frame ks c f; (xs, c) = encrypt_frames ks c fs in (x # xs, c))"

subsection \<open>Key derivation\<close>

definition video_hash :: "(bytes \<Rightarrow> bytes) \<Rightarrow> string \<Rightarrow> bytes \<Rightarrow> u64 \<Rightarrow> bytes" where
  "video_hash sha512 label shk sid = sha512 (s2b (label @ dec (unat sid)) @ shk)"

definition derive_video_keys :: "(bytes \<Rightarrow> bytes) \<Rightarrow> bytes \<Rightarrow> u64 \<Rightarrow> bytes \<times> bytes" where
  "derive_video_keys sha512 shk sid =
    (take 16 (video_hash sha512 ''AirPlayStreamKey'' shk sid),
     take 16 (video_hash sha512 ''AirPlayStreamIV'' shk sid))"

text \<open>\<open>hkdf salt ikm info len\<close> is HKDF-SHA512; expansion fails only for an excessive length.\<close>

definition derive_chacha_key ::
  "(bytes \<Rightarrow> bytes \<Rightarrow> bytes \<Rightarrow> nat \<Rightarrow> bytes option) \<Rightarrow> bytes \<Rightarrow> u64 \<Rightarrow> bytes res" where
  "derive_chacha_key hkdf ikm sid =
    ok_or (Err (Crypto ''hkdf expand''))
      (hkdf (s2b (''DataStream-Salt'' @ dec (unat sid))) ikm (s2b ''DataStream-Output-Encryption-Key'') 32)"

subsection \<open>Which keystream bytes a frame takes\<close>

text \<open>
  The positions a frame of \<open>n\<close> bytes uses when the stream stands at \<open>sp\<close> with \<open>k\<close> cached
  bytes: the cached ones first, then the next ones from \<open>sp\<close>.
\<close>

definition frame_positions :: "nat \<Rightarrow> nat \<Rightarrow> nat \<Rightarrow> nat list" where
  "frame_positions sp k n = [sp - k ..< sp - k + min k n] @ [sp ..< sp + (n - min k n)]"

definition next_sp :: "nat \<Rightarrow> nat \<Rightarrow> nat \<Rightarrow> nat" where
  "next_sp sp k n = sp + (n - min k n + 15) div 16 * 16"

definition next_k :: "nat \<Rightarrow> nat \<Rightarrow> nat" where
  "next_k k n = (let r = (n - min k n) mod 16 in if r = 0 then 0 else 16 - r)"

fun stream_positions :: "nat \<Rightarrow> nat \<Rightarrow> nat list \<Rightarrow> nat list" where
  "stream_positions sp k [] = []"
| "stream_positions sp k (n # ns) =
    frame_positions sp k n @ stream_positions (next_sp sp k n) (next_k k n) ns"

text \<open>The invariant: the cache is the keystream just before the stream's position.\<close>

definition cipher_inv :: "keystream \<Rightarrow> MirrorCipher \<Rightarrow> bool" where
  "cipher_inv ks c \<longleftrightarrow> block_offset c = 0 \<and> length (og c) = 16 \<and> next_crypt_count c < 16 \<and>
     next_crypt_count c \<le> stream_pos c \<and>
     (\<forall>i < next_crypt_count c. og c ! (16 - next_crypt_count c + i) = ks (stream_pos c - next_crypt_count c + i))"

lemma cipher_inv_new: "cipher_inv ks MirrorCipher_new"
  by (simp add: cipher_inv_def MirrorCipher_new_def)

lemma crypt_prefix_eq:
  assumes "cipher_inv ks c"
  shows "crypt_prefix c payload =
    xor_bytes (take (next_crypt_count c) payload)
      (map ks [stream_pos c - next_crypt_count c ..<
               stream_pos c - next_crypt_count c + min (next_crypt_count c) (length payload)])"
  using assms by (intro nth_equalityI) (auto simp: crypt_prefix_def cipher_inv_def Let_def)

lemma xor_bytes_split:
  "length ks1 = length xs \<Longrightarrow> xor_bytes xs ks1 @ xor_bytes ys ks2 = xor_bytes (xs @ ys) (ks1 @ ks2)"
  by (simp add: xor_bytes_append)

lemma take_xor_bytes: "take n (xor_bytes xs ys) = xor_bytes (take n xs) (take n ys)"
  by (simp add: xor_bytes_def take_map take_zip)

lemma next_sp_full: "r mod 16 = 0 \<Longrightarrow> (r + 15) div 16 * 16 = (r :: nat)"
  by (auto simp: mod_eq_0_iff_dvd dvd_def)

lemma next_sp_partial: "0 < r mod 16 \<Longrightarrow> (r + 15) div 16 * 16 = r div 16 * 16 + (16 :: nat)"
proof -
  assume pos: "0 < r mod 16"
  have "r + 15 = (r mod 16 + 15) + 16 * (r div 16)" by simp
  then have "(r + 15) div 16 = (r mod 16 + 15) div 16 + r div 16"
    by (metis div_mult_self2 zero_neq_numeral add.commute)
  moreover have "(r mod 16 + 15) div 16 = 1"
    using pos mod_less_divisor [of 16 r] by (intro div_nat_eqI) auto
  ultimately show ?thesis by simp
qed

lemma xor_bytes_padded:
  assumes "length ks = 16" "length xs \<le> 16"
  shows "take (length xs) (xor_bytes (xs @ replicate (16 - length xs) 0) ks) = xor_bytes xs (take (length xs) ks)"
    and "i < 16 - length xs \<Longrightarrow> xor_bytes (xs @ replicate (16 - length xs) 0) ks ! (length xs + i) = ks ! (length xs + i)"
  using assms by (simp_all add: take_xor_bytes nth_append)

text \<open>\<open>encrypt_frame\<close> with its steps named.\<close>

lemma encrypt_frame_steps:
  fixes payload :: bytes
  assumes inv: "cipher_inv ks c"
  defines "k \<equiv> next_crypt_count c" and "sp \<equiv> stream_pos c"
  defines "m \<equiv> min k (length payload)"
  defines "full \<equiv> (length payload - m) div 16 * 16" and "rest \<equiv> (length payload - m) mod 16"
  defines "padded \<equiv> xor_bytes (take rest (drop (m + full) payload) @ replicate (16 - rest) 0)
                       (map ks [sp + full ..< sp + full + 16])"
  shows "encrypt_frame ks c payload =
    (crypt_prefix c payload @ xor_bytes (take full (drop m payload)) (map ks [sp ..< sp + full]) @
       (if 0 < rest then take rest padded else []),
     (if 0 < rest then c\<lparr>stream_pos := sp + full + 16, next_crypt_count := 16 - rest,
                          og := padded, block_offset := 0\<rparr>
      else c\<lparr>stream_pos := sp + full, next_crypt_count := 0\<rparr>))"
proof -
  have skip: "skip_to_boundary ks c = c" using inv by (simp add: skip_to_boundary_def cipher_inv_def)
  have pos: "(if 0 < next_crypt_count c then min (next_crypt_count c) (length payload) else 0) = m"
    by (simp add: m_def k_def)
  have prefix: "(if 0 < next_crypt_count c then crypt_prefix c payload else []) = crypt_prefix c payload"
    by (simp add: crypt_prefix_def)
  have le: "m + full + rest = length payload"
    unfolding full_def rest_def m_def by simp
  have blocks: "(if 0 < full then apply_keystream ks c (take full (drop m payload)) else ([], c))
      = (xor_bytes (take full (drop m payload)) (map ks [sp ..< sp + full]), c\<lparr>stream_pos := sp + full\<rparr>)"
    using le by (auto simp: apply_keystream_def sp_def)
  have len: "length (take rest (drop (m + full) payload)) = rest" using le by simp
  have r16: "rest < 16" by (simp add: rest_def)
  show ?thesis
    unfolding encrypt_frame_def Let_def skip pos prefix full_def [symmetric] rest_def [symmetric] blocks
    using len r16 by (simp add: apply_keystream_def padded_def sp_def)
qed

lemma encrypt_frame_spec:
  assumes inv: "cipher_inv ks c" and enc: "encrypt_frame ks c payload = (out, c')"
  shows "out = xor_bytes payload (map ks (frame_positions (stream_pos c) (next_crypt_count c) (length payload)))"
    and "stream_pos c' = next_sp (stream_pos c) (next_crypt_count c) (length payload)"
    and "next_crypt_count c' = next_k (next_crypt_count c) (length payload)"
    and "cipher_inv ks c'"
proof -
  define k sp m where "k = next_crypt_count c" and "sp = stream_pos c" and "m = min k (length payload)"
  define r where "r = length payload - m"
  define full rest where "full = r div 16 * 16" and "rest = r mod 16"
  define padded where "padded = xor_bytes (take rest (drop (m + full) payload) @ replicate (16 - rest) 0)
                       (map ks [sp + full ..< sp + full + 16])"
  note steps = encrypt_frame_steps [OF inv, of payload, folded k_def sp_def, folded m_def, folded r_def,
      folded full_def rest_def, folded padded_def]
  have r: "r = full + rest" by (simp add: full_def rest_def)
  have le: "m + full + rest = length payload" using r by (simp add: r_def m_def)
  have r16: "rest < 16" by (simp add: rest_def)
  have len: "length (take rest (drop (m + full) payload)) = rest" using le by simp
  have padded_take: "take rest padded = xor_bytes (take rest (drop (m + full) payload)) (map ks [sp + full ..< sp + r])"
    using xor_bytes_padded(1) [of "map ks [sp + full ..< sp + full + 16]" "take rest (drop (m + full) payload)"] len r16 r
    by (simp add: padded_def take_map take_upt add.assoc)
  have out: "out = xor_bytes (take m payload) (map ks [sp - k ..< sp - k + m]) @
      xor_bytes (take full (drop m payload)) (map ks [sp ..< sp + full]) @
      xor_bytes (take rest (drop (m + full) payload)) (map ks [sp + full ..< sp + r])"
  proof -
    have "crypt_prefix c payload = xor_bytes (take m payload) (map ks [sp - k ..< sp - k + m])"
      using crypt_prefix_eq [OF inv, of payload] by (simp add: k_def sp_def m_def min_def)
    moreover have "(if 0 < rest then take rest padded else []) =
        xor_bytes (take rest (drop (m + full) payload)) (map ks [sp + full ..< sp + r])"
      by (simp add: padded_take)
    ultimately show ?thesis using steps enc by simp
  qed
  have payload: "payload = take m payload @ take full (drop m payload) @ take rest (drop (m + full) payload)"
    using le by (metis append_take_drop_id drop_drop add.commute le_add2 length_drop take_all diff_add_inverse order_refl)
  have ups: "[sp ..< sp + r] = [sp ..< sp + full] @ [sp + full ..< sp + r]"
    using upt_add_eq_append [of sp "sp + full" rest] by (simp only: r le_add1 add.assoc)
  have fp: "frame_positions (stream_pos c) (next_crypt_count c) (length payload)
      = [sp - k ..< sp - k + m] @ [sp ..< sp + full] @ [sp + full ..< sp + r]"
    unfolding frame_positions_def ups [symmetric] by (simp add: k_def sp_def m_def r_def)
  have "xor_bytes payload (map ks (frame_positions (stream_pos c) (next_crypt_count c) (length payload)))
      = xor_bytes (take m payload @ take full (drop m payload) @ take rest (drop (m + full) payload))
          (map ks [sp - k ..< sp - k + m] @ map ks [sp ..< sp + full] @ map ks [sp + full ..< sp + r])"
    by (simp only: payload [symmetric] fp map_append)
  also have "\<dots> = out"
    using le by (subst out) (simp add: xor_bytes_append)
  finally show "out = xor_bytes payload
      (map ks (frame_positions (stream_pos c) (next_crypt_count c) (length payload)))" ..
  have "stream_pos c' = sp + (r + 15) div 16 * 16 \<and> next_crypt_count c' = (if rest = 0 then 0 else 16 - rest)"
  proof (cases "rest = 0")
    case True
    then have "(r + 15) div 16 * 16 = r" by (intro next_sp_full) (simp only: rest_def)
    moreover have "full = r" using r True by simp
    ultimately show ?thesis using True steps enc by auto
  next
    case False
    then have "(r + 15) div 16 * 16 = full + 16"
      unfolding full_def by (intro next_sp_partial) (simp flip: rest_def)
    with False steps enc show ?thesis by auto
  qed
  then show "stream_pos c' = next_sp (stream_pos c) (next_crypt_count c) (length payload)"
    "next_crypt_count c' = next_k (next_crypt_count c) (length payload)"
    by (simp_all add: next_sp_def next_k_def Let_def rest_def flip: k_def sp_def m_def r_def)
  have "padded ! (rest + i) = ks (sp + full + (rest + i))" if "i < 16 - rest" for i
    using xor_bytes_padded(2) [of "map ks [sp + full ..< sp + full + 16]" "take rest (drop (m + full) payload)" i]
      len r16 that by (simp add: padded_def)
  then show "cipher_inv ks c'"
    using inv steps enc len r16 by (auto simp: cipher_inv_def padded_def ac_simps)
qed

subsection \<open>Sequences of frames\<close>

lemma length_frame_positions [simp]: "length (frame_positions sp k n) = n"
  by (simp add: frame_positions_def)

lemma encrypt_frames_spec:
  "cipher_inv ks c \<Longrightarrow> encrypt_frames ks c fs = (xs, c') \<Longrightarrow>
     map length xs = map length fs \<and>
     concat xs = xor_bytes (concat fs)
       (map ks (stream_positions (stream_pos c) (next_crypt_count c) (map length fs)))"
proof (induction fs arbitrary: c xs c')
  case Nil
  then show ?case by simp
next
  case (Cons f fs)
  obtain x c1 where f: "encrypt_frame ks c f = (x, c1)" by force
  obtain ys c2 where fs: "encrypt_frames ks c1 fs = (ys, c2)" by force
  note spec = encrypt_frame_spec [OF Cons.prems(1) f]
  from Cons.prems(2) f fs have xs: "xs = x # ys" by simp
  from Cons.IH [OF spec(4) fs] spec(1-3) show ?case
    by (simp add: xs xor_bytes_append)
qed

lemma encrypt_frames_inverse:
  "cipher_inv ks c \<Longrightarrow> cipher_inv ks d \<Longrightarrow> stream_pos d = stream_pos c \<Longrightarrow>
     next_crypt_count d = next_crypt_count c \<Longrightarrow>
     fst (encrypt_frames ks d (fst (encrypt_frames ks c fs))) = fs"
proof (induction fs arbitrary: c d)
  case Nil
  then show ?case by simp
next
  case (Cons f fs)
  obtain x c1 where f: "encrypt_frame ks c f = (x, c1)" by force
  note spec = encrypt_frame_spec [OF Cons.prems(1) f]
  obtain y d1 where x: "encrypt_frame ks d x = (y, d1)" by force
  note spec' = encrypt_frame_spec [OF Cons.prems(2) x]
  have len: "length x = length f" using spec(1) by simp
  have "y = f" using spec(1) spec'(1) len Cons.prems(3,4) by simp
  moreover have "fst (encrypt_frames ks d1 (fst (encrypt_frames ks c1 fs))) = fs"
    using spec spec' len Cons.prems(3,4) by (intro Cons.IH) simp_all
  ultimately show ?case using f x by (simp add: case_prod_unfold Let_def)
qed

lemma next_k_le: "k < 16 \<Longrightarrow> k \<le> sp \<Longrightarrow> next_k k n < 16 \<and> next_k k n \<le> next_sp sp k n"
proof -
  define r where "r = n - min k n"
  assume "k < 16" "k \<le> sp"
  then show ?thesis
    using next_sp_partial [of r]
    by (cases "r mod 16 = 0") (auto simp: next_k_def next_sp_def Let_def simp flip: r_def)
qed

lemma next_sp_lower: "sp + (n - min k n) \<le> next_sp sp k n - next_k k n"
proof -
  define r where "r = n - min k n"
  have "r div 16 * 16 + r mod 16 = r" by simp
  then show ?thesis
    using next_sp_full [of r] next_sp_partial [of r]
    by (cases "r mod 16 = 0") (auto simp: next_sp_def next_k_def Let_def simp flip: r_def)
qed

lemma stream_positions_sorted:
  "k < 16 \<Longrightarrow> k \<le> sp \<Longrightarrow>
     sorted_wrt (<) (stream_positions sp k ns) \<and> (\<forall>p \<in> set (stream_positions sp k ns). sp - k \<le> p)"
proof (induction ns arbitrary: sp k)
  case Nil
  then show ?case by simp
next
  case (Cons n ns)
  note IH = Cons.IH [of "next_k k n" "next_sp sp k n"]
  have frame: "sorted_wrt (<) (frame_positions sp k n)"
    "\<forall>p \<in> set (frame_positions sp k n). sp - k \<le> p \<and> p < sp + (n - min k n) \<or> p < sp \<and> sp - k \<le> p"
    using Cons.prems by (auto simp: frame_positions_def sorted_wrt_append)
  have "sp \<le> next_sp sp k n - next_k k n"
    using next_sp_lower [of sp n k] by linarith
  with frame IH next_k_le [OF Cons.prems, of n] next_sp_lower [of sp n k] show ?case
    by (fastforce simp: sorted_wrt_append)
qed

lemma stream_positions_contiguous:
  "k < 16 \<Longrightarrow> k \<le> sp \<Longrightarrow> \<forall>n \<in> set ns. 15 \<le> n \<Longrightarrow>
     stream_positions sp k ns = [sp - k ..< sp - k + sum_list ns]"
proof (induction ns arbitrary: sp k)
  case Nil
  then show ?case by simp
next
  case (Cons n ns)
  then have kn: "min k n = k" by simp
  define r where "r = n - k"
  have nx: "next_sp sp k n - next_k k n = sp - k + n"
  proof -
    have "r div 16 * 16 + r mod 16 = r" by simp
    then show ?thesis
      using next_sp_full [of r] next_sp_partial [of r] Cons.prems
      by (cases "r mod 16 = 0") (auto simp: next_sp_def next_k_def kn Let_def r_def)
  qed
  have frame: "frame_positions sp k n = [sp - k ..< sp - k + n]"
    using Cons.prems upt_add_eq_append [of "sp - k" sp "n - k"]
    by (simp add: frame_positions_def kn)
  have "stream_positions (next_sp sp k n) (next_k k n) ns = [sp - k + n ..< sp - k + n + sum_list ns]"
    using Cons.IH [of "next_k k n" "next_sp sp k n"] next_k_le [of k sp n] Cons.prems nx by simp
  then show ?case
    using upt_add_eq_append [of "sp - k" "sp - k + n" "sum_list ns"] by (simp add: frame add.assoc)
qed

subsection \<open>Properties\<close>

text \<open>A receiver that runs the same frame routine with the same keystream gets every frame
  back, for any sequence of frame lengths, in particular frames shorter than the cached tail.\<close>

theorem mirror_cipher_roundtrip:
  "fst (encrypt_frames ks MirrorCipher_new (fst (encrypt_frames ks MirrorCipher_new frames))) = frames"
  by (rule encrypt_frames_inverse) (simp_all add: cipher_inv_new)

text \<open>C15. Every payload byte is XORed with its own keystream byte: the ciphertext of a frame
  sequence is the concatenated payload XOR the keystream at strictly increasing positions, so no
  keystream byte is used twice; and when no frame is shorter than 15 bytes these positions are
  0, 1, 2, ..., that is, the frames together are one plain CTR stream.\<close>

theorem mirror_cipher_keystream:
  "concat (fst (encrypt_frames ks MirrorCipher_new frames))
     = xor_bytes (concat frames) (map ks (stream_positions 0 0 (map length frames)))
   \<and> sorted_wrt (<) (stream_positions 0 0 (map length frames))
   \<and> length (stream_positions 0 0 (map length frames)) = length (concat frames)
   \<and> ((\<forall>f \<in> set frames. 15 \<le> length f) \<longrightarrow>
        stream_positions 0 0 (map length frames) = [0 ..< length (concat frames)])"
proof -
  obtain xs c where "encrypt_frames ks MirrorCipher_new frames = (xs, c)" by force
  moreover from encrypt_frames_spec [OF cipher_inv_new this]
  have "concat xs = xor_bytes (concat frames) (map ks (stream_positions 0 0 (map length frames)))"
    by (simp add: MirrorCipher_new_def)
  moreover have "length (stream_positions sp k ns) = sum_list ns" for sp k ns
    by (induction ns arbitrary: sp k) simp_all
  ultimately show ?thesis
    using stream_positions_sorted [of 0 0 "map length frames"]
      stream_positions_contiguous [of 0 0 "map length frames"]
    by (simp add: length_concat)
qed

theorem mirror_cipher_keystream_witness:
  "stream_positions 0 0 (map length [replicate 20 7, replicate 33 (9 :: byte)])
   = [0 ..< length (concat [replicate 20 7, replicate 33 (9 :: byte)])]"
  using mirror_cipher_keystream [of "\<lambda>i. of_nat i" "[replicate 20 7, replicate 33 9]"] by simp

text \<open>Frames may use up different streams only under different hash inputs: for one key, the
  inputs to the key hash differ whenever the stream identifiers do.\<close>

lemma video_hash_input_inj:
  assumes "s2b (label @ dec (unat i)) @ shk = s2b (label @ dec (unat j)) @ shk"
  shows "i = (j :: u64)"
  using assms by (simp add: dec_inj word_unat_eq_iff)

end
