(* ===== verification/Audio.thy ===== *)
theory Audio
  imports Crypto
begin

text \<open>
  The audio stream of \<open>audio.rs\<close>: the ALAC "verbatim" encoder with its bit writer, the RTP packets and the
  sync packets. A datagram socket is the list of the datagrams it was given; whether \<open>send_to\<close> succeeds is an
  argument. Samples (\<open>i16\<close>) are 16-bit words, of which the encoder only reads the bits.
\<close>

subsection \<open>The bit writer\<close>

text \<open>The output buffer has a fixed length; storing past it panics.\<close>

record BitWriter =
  bw_buf :: bytes
  bw_pos :: nat
  bit_buf :: u32
  bit_pos :: nat

definition BitWriter_new :: "bytes \<Rightarrow> BitWriter" where
  "BitWriter_new b = \<lparr>bw_buf = b, bw_pos = 0, bit_buf = 0, bit_pos = 0\<rparr>"

text \<open>\<open>self.buf[self.pos] = self.bit_buf as u8; self.pos += 1\<close>\<close>

definition put_byte :: "BitWriter \<Rightarrow> BitWriter res" where
  "put_byte w =
    (if bw_pos w < length (bw_buf w)
     then Inr (w\<lparr>bw_buf := (bw_buf w)[bw_pos w := ucast (bit_buf w)], bw_pos := bw_pos w + 1\<rparr>)
     else Inl Panic)"

definition bits_reset :: "BitWriter \<Rightarrow> BitWriter" where
  "bits_reset w = w\<lparr>bit_buf := 0, bit_pos := 0\<rparr>"

text \<open>\<open>(1u32 << n) - 1\<close>\<close>

definition low_ones :: "nat \<Rightarrow> u32" where
  "low_ones n = push_bit n 1 - 1"

function bw_write_loop :: "u32 \<Rightarrow> nat \<Rightarrow> BitWriter \<Rightarrow> BitWriter res" where
  "bw_write_loop val nbits w =
    (if nbits = 0 then Inr w
     else
       let space = 8 - bit_pos w in
       if nbits \<le> space then
         let w = w\<lparr>bit_buf := bit_buf w OR push_bit (space - nbits) (val AND low_ones nbits),
                   bit_pos := bit_pos w + nbits\<rparr>
         in if bit_pos w = 8 then rbind (put_byte w) (\<lambda>w. Inr (bits_reset w)) else Inr w
       else
         let shift = nbits - space;
             w = w\<lparr>bit_buf := bit_buf w OR (drop_bit shift val AND low_ones space)\<rparr>
         in case put_byte w of
              Inl e \<Rightarrow> Inl e
            | Inr w \<Rightarrow> bw_write_loop (val AND low_ones shift) shift (bits_reset w))"
  by pat_completeness auto
termination
  by (relation "measure (\<lambda>(val, nbits, w). 2 * nbits + (if 8 \<le> bit_pos w then 1 else 0))")
    (auto simp: bits_reset_def)

declare bw_write_loop.simps [simp del]

definition bw_write :: "u32 \<Rightarrow> nat \<Rightarrow> BitWriter \<Rightarrow> BitWriter res" where
  "bw_write val nbits w =
    bw_write_loop (val AND (if nbits = 32 then - 1 else low_ones nbits)) nbits w"

definition bw_flush :: "BitWriter \<Rightarrow> (nat \<times> BitWriter) res" where
  "bw_flush w =
    (if 0 < bit_pos w then rbind (put_byte w) (\<lambda>w. Inr (bw_pos w, w)) else Inr (bw_pos w, w))"

subsection \<open>The encoder\<close>

fun bw_samples :: "u16 list \<Rightarrow> BitWriter \<Rightarrow> BitWriter res" where
  "bw_samples [] w = Inr w"
| "bw_samples (x # xs) w = rbind (bw_write (ucast x) 16 w) (bw_samples xs)"

definition alac_header :: "nat \<Rightarrow> nat \<Rightarrow> BitWriter \<Rightarrow> BitWriter res" where
  "alac_header frame_size channels w =
    rbind (bw_write (if channels = 2 then 1 else 0) 3 w) (\<lambda>w.
    rbind (bw_write 0 4 w) (\<lambda>w.
    rbind (bw_write 0 12 w) (\<lambda>w.
    rbind (bw_write 1 1 w) (\<lambda>w.
    rbind (bw_write 0 2 w) (\<lambda>w.
    rbind (bw_write 1 1 w) (\<lambda>w.
    bw_write (of_nat frame_size) 32 w))))))"

definition encode_alac_verbatim :: "u16 list \<Rightarrow> nat \<Rightarrow> nat \<Rightarrow> bytes res" where
  "encode_alac_verbatim pcm frame_size channels =
    (let max_bits = 23 + 32 + frame_size * channels * 16 + 3;
         bw = BitWriter_new (replicate (max_bits div 8 + 1) 0)
     in rbind (alac_header frame_size channels bw) (\<lambda>bw.
        rbind (bw_samples (take (frame_size * channels) pcm) bw) (\<lambda>bw.
        rbind (bw_write 7 3 bw) (\<lambda>bw.
        rbind (bw_flush bw) (\<lambda>(n, bw).
        Inr (take n (bw_buf bw)))))))"

subsection \<open>The stream\<close>

definition RTP_PAYLOAD_TYPE :: byte where "RTP_PAYLOAD_TYPE = 96"
definition AUDIO_SYNC_PAYLOAD_TYPE_NTP :: byte where "AUDIO_SYNC_PAYLOAD_TYPE_NTP = 0xd4"

record AudioStream =
  au_data_socket :: "bytes list"
  au_ctrl_socket :: "bytes list"
  remote_data :: string
  remote_ctrl :: string
  latency_samples :: u32
  rtp_time :: u32
  au_chacha_key :: "bytes option"
  chacha_counter :: u64

text \<open>\<open>parse_addr\<close> tells whether a string is a socket address.\<close>

definition audio_stream_new ::
  "(string \<Rightarrow> bool) \<Rightarrow> string \<Rightarrow> u16 \<Rightarrow> u16 \<Rightarrow> u32 \<Rightarrow> bytes option \<Rightarrow> AudioStream res" where
  "audio_stream_new parse_addr host data_port ctrl_port latency key =
    (let rd = host @ '':'' @ dec (unat data_port); rc = host @ '':'' @ dec (unat ctrl_port) in
     if \<not> parse_addr rd then Inl (protocol ''invalid audio data addr'')
     else if \<not> parse_addr rc then Inl (protocol ''invalid audio ctrl addr'')
     else Inr \<lparr>au_data_socket = [], au_ctrl_socket = [], remote_data = rd, remote_ctrl = rc,
               latency_samples = latency, rtp_time = 0,
               au_chacha_key = (case key of Some k \<Rightarrow> if length k = 32 then Some k else None | None \<Rightarrow> None),
               chacha_counter = 0\<rparr>)"

definition audio_is_encrypted :: "AudioStream \<Rightarrow> bool" where
  "audio_is_encrypted s \<longleftrightarrow> au_chacha_key s \<noteq> None"

text \<open>The 12-byte header, and the body with the nonce counter of the frame behind it.\<close>

definition rtp_header :: "u16 \<Rightarrow> u32 \<Rightarrow> bytes" where
  "rtp_header sq time =
    [0x80, RTP_PAYLOAD_TYPE] @ to_be 2 (unat sq) @ to_be 4 (unat time) @ to_be 4 0"

definition audio_nonce :: "u64 \<Rightarrow> bytes" where
  "audio_nonce counter = to_le 8 (unat counter) @ replicate 4 0"

definition audio_body :: "crypto \<Rightarrow> bytes \<Rightarrow> bytes \<Rightarrow> AudioStream \<Rightarrow> bytes \<times> AudioStream" where
  "audio_body C pkt payload s =
    (case au_chacha_key s of
       None \<Rightarrow> (payload, s)
     | Some key \<Rightarrow>
         let aad = take 8 (drop 4 pkt);
             sealed = aead_seal C key (audio_nonce (chacha_counter s)) aad payload
         in (sealed @ to_le 8 (unat (chacha_counter s)), s\<lparr>chacha_counter := chacha_counter s + 1\<rparr>))"

definition advance_clock :: "u32 \<Rightarrow> AudioStream \<Rightarrow> AudioStream" where
  "advance_clock time s = (if 0 \<le> sint (time - rtp_time s) then s\<lparr>rtp_time := time\<rparr> else s)"

definition audio_send_frame ::
  "crypto \<Rightarrow> bool \<Rightarrow> bytes \<Rightarrow> u32 \<Rightarrow> u16 \<Rightarrow> AudioStream \<Rightarrow> unit res \<times> AudioStream" where
  "audio_send_frame C send_ok payload time sq s =
    (let pkt = rtp_header sq time;
         (bdy, s) = audio_body C pkt payload s
     in if send_ok
        then (Inr (), advance_clock time (s\<lparr>au_data_socket := au_data_socket s @ [pkt @ bdy]\<rparr>))
        else (Inl (Err (Transport ''audio rtp send'')), s))"

definition audio_send_sync :: "bool \<Rightarrow> u64 \<Rightarrow> bool \<Rightarrow> AudioStream \<Rightarrow> unit res \<times> AudioStream" where
  "audio_send_sync send_ok network_time is_first s =
    (let sync_rtp = rtp_time s - latency_samples s;
         pkt = [if is_first then 0x90 else 0x80, AUDIO_SYNC_PAYLOAD_TYPE_NTP] @ to_be 2 4 @
               to_be 4 (unat sync_rtp) @ to_be 8 (unat network_time) @ to_be 4 (unat (rtp_time s))
     in if send_ok then (Inr (), s\<lparr>au_ctrl_socket := au_ctrl_socket s @ [pkt]\<rparr>)
        else (Inl (Err (Transport ''audio sync send'')), s))"

text \<open>
  \<open>drain_control\<close> on the datagrams that are waiting: it stops at an empty one, and it always
  returns \<open>None\<close>.
\<close>

fun drain_control :: "bytes list \<Rightarrow> bytes option \<times> bytes list" where
  "drain_control [] = (None, [])"
| "drain_control (d # ds) = (if d = [] then (None, ds) else drain_control ds)"

subsection \<open>What the writer has written, as bits\<close>

text \<open>The low \<open>n\<close> bits of a word, most significant first, and the bits written so far.\<close>

definition be_bits :: "nat \<Rightarrow> 'a::len word \<Rightarrow> bool list" where
  "be_bits n v = map (\<lambda>i. bit v (n - 1 - i)) [0..<n]"

definition bw_bits :: "BitWriter \<Rightarrow> bool list" where
  "bw_bits w = concat (map (be_bits 8) (take (bw_pos w) (bw_buf w))) @ map (\<lambda>i. bit (bit_buf w) (7 - i)) [0..<bit_pos w]"

definition bw_inv :: "BitWriter \<Rightarrow> bool" where
  "bw_inv w \<longleftrightarrow> bit_pos w < 8 \<and> bw_pos w \<le> length (bw_buf w) \<and>
     (\<forall>i. bit (bit_buf w) i \<longrightarrow> 8 - bit_pos w \<le> i \<and> i < 8)"

lemma length_be_bits [simp]: "length (be_bits n v) = n"
  by (simp add: be_bits_def)

lemma length_concat_bytes [simp]: "length (concat (map (be_bits n) xs)) = n * length xs"
  by (induction xs) simp_all

lemma length_bw_bits: "bw_inv w \<Longrightarrow> length (bw_bits w) = 8 * bw_pos w + bit_pos w"
  by (simp add: bw_bits_def bw_inv_def min_absorb2)

lemma bw_new: "bw_inv (BitWriter_new b)" "bw_bits (BitWriter_new b) = []"
  by (simp_all add: bw_inv_def bw_bits_def BitWriter_new_def)

lemma bit_low_mask: "bit (v AND low_ones n) i \<longleftrightarrow> bit v i \<and> i < n" for v :: u32
  by (auto simp: low_ones_def bit_and_iff push_bit_of_1 mask_eq_exp_minus_1 [symmetric] bit_mask_iff dest: bit_imp_le_length)

lemma bit_u32_less: "bit v i \<Longrightarrow> i < 32" for v :: u32
  using bit_imp_le_length [of v i] by simp

lemma be_bits_cong: "(\<And>i. i < n \<Longrightarrow> bit v i = bit v' i) \<Longrightarrow> be_bits n v = be_bits n v'"
  by (simp add: be_bits_def)

lemma upt_add: "[0..<a + b] = [0..<a] @ map (\<lambda>i. a + i) [0..<b]"
  by (rule nth_equalityI) (auto simp: nth_append)

lemma be_bits_split: "be_bits (a + b) v = map (\<lambda>i. bit v (b + (a - 1 - i))) [0..<a] @ be_bits b v"
  by (auto simp: be_bits_def upt_add intro!: arg_cong [where f = "bit v"])

text \<open>Storing a full byte.\<close>

lemma put_byte_full:
  assumes "bw_pos w < length (bw_buf w)"
  shows "\<exists>w'. put_byte w = Inr w' \<and> bw_inv (bits_reset w') \<and> length (bw_buf w') = length (bw_buf w) \<and>
    bw_bits (bits_reset w') = concat (map (be_bits 8) (take (bw_pos w) (bw_buf w))) @ be_bits 8 (bit_buf w)"
proof -
  have "be_bits 8 (ucast (bit_buf w) :: byte) = be_bits 8 (bit_buf w)"
    by (auto simp: be_bits_def bit_unsigned_iff)
  then show ?thesis
    using assms by (simp add: put_byte_def bits_reset_def take_Suc_conv_app_nth bw_inv_def bw_bits_def)
qed

text \<open>One round of the loop that fits into the current byte.\<close>

lemma bw_fits:
  fixes x :: u32
  assumes "bw_inv w" "0 < n" "n \<le> 8 - bit_pos w"
  defines "v \<equiv> w\<lparr>bit_buf := bit_buf w OR push_bit (8 - bit_pos w - n) (x AND low_ones n),
                 bit_pos := bit_pos w + n\<rparr>"
  shows "bw_bits v = bw_bits w @ be_bits n x"
    and "bit (bit_buf v) i \<Longrightarrow> 8 - bit_pos v \<le> i \<and> i < 8"
proof -
  have bit: "bit (bit_buf v) i \<longleftrightarrow> bit (bit_buf w) i \<or>
      (8 - bit_pos w - n \<le> i \<and> i < 8 - bit_pos w \<and> bit x (i - (8 - bit_pos w - n)))" for i
    using assms(1-3) unfolding v_def
    by (auto simp: bit_or_iff bit_push_bit_iff bit_low_mask bw_inv_def simp del: push_bit_and dest: bit_u32_less)
  show "bit (bit_buf v) i \<Longrightarrow> 8 - bit_pos v \<le> i \<and> i < 8"
    using bit [of i] assms(1-3) by (auto simp: v_def bw_inv_def)
  have "map (\<lambda>i. bit (bit_buf v) (7 - i)) [0..<bit_pos w + n] =
      map (\<lambda>i. bit (bit_buf w) (7 - i)) [0..<bit_pos w] @ be_bits n x"
    using assms(1-3) bit unfolding bw_inv_def
    by (intro nth_equalityI) (auto simp: be_bits_def nth_append ac_simps)
  then show "bw_bits v = bw_bits w @ be_bits n x" by (simp add: bw_bits_def v_def)
qed

lemma bw_byte_end:
  fixes x :: u32
  assumes "bw_inv w" "bw_pos w < length (bw_buf w)" "s = 8 - bit_pos w" "s \<le> n"
  defines "v \<equiv> w\<lparr>bit_buf := bit_buf w OR (drop_bit (n - s) x AND low_ones s)\<rparr>"
  shows "\<exists>w'. put_byte v = Inr w' \<and> bw_inv (bits_reset w') \<and> length (bw_buf w') = length (bw_buf w) \<and>
           bw_bits (bits_reset w') = bw_bits w @ map (\<lambda>i. bit x (n - 1 - i)) [0..<s]"
proof -
  have pos: "bw_pos v < length (bw_buf v)" using assms(2) by (simp add: v_def)
  have bit: "bit (bit_buf v) i \<longleftrightarrow> bit (bit_buf w) i \<or> (i < s \<and> bit x (n - s + i))" for i
    unfolding v_def by (auto simp: bit_or_iff bit_drop_bit_eq bit_low_mask)
  have "be_bits 8 (bit_buf v) = map (\<lambda>i. bit (bit_buf w) (7 - i)) [0..<bit_pos w] @ map (\<lambda>i. bit x (n - 1 - i)) [0..<s]"
    using assms(1,3,4) bit unfolding bw_inv_def
    by (intro nth_equalityI) (auto simp: be_bits_def nth_append intro!: arg_cong [where f = "bit x"])
  with put_byte_full [OF pos] show ?thesis by (auto simp: v_def bw_bits_def)
qed


lemma bw_write_loop_bits:
  fixes x :: u32
  shows "bw_inv w \<Longrightarrow> length (bw_bits w) + n \<le> 8 * length (bw_buf w) \<Longrightarrow>
    \<exists>w'. bw_write_loop x n w = Inr w' \<and> bw_inv w' \<and> length (bw_buf w') = length (bw_buf w) \<and>
         bw_bits w' = bw_bits w @ be_bits n x"
proof (induction n arbitrary: x w rule: less_induct)
  case (less n)
  note inv = less.prems(1)
  show ?case
  proof (cases "n = 0")
    case True
    with inv show ?thesis by (simp add: bw_write_loop.simps be_bits_def)
  next
    case n: False
    from inv have bp: "bit_pos w < 8" by (simp add: bw_inv_def)
    have room: "bw_pos w < length (bw_buf w)" if "8 \<le> bit_pos w + n"
      using less.prems that by (simp add: length_bw_bits)
    show ?thesis
    proof (cases "n < 8 - bit_pos w")
      case True
      define v where "v = w\<lparr>bit_buf := bit_buf w OR push_bit (8 - bit_pos w - n) (x AND low_ones n),
                            bit_pos := bit_pos w + n\<rparr>"
      have "bit_pos w + n \<noteq> 8" using True by simp
      then have "bw_write_loop x n w = Inr v"
        using n True by (subst bw_write_loop.simps) (simp add: Let_def v_def)
      moreover have "bw_inv v"
        using bw_fits(2) [OF inv, of n x] n True inv by (auto simp: bw_inv_def v_def)
      moreover have "bw_bits v = bw_bits w @ be_bits n x"
        using bw_fits(1) [OF inv, of n x] n True by (simp add: v_def)
      ultimately show ?thesis by (simp add: v_def)
    next
      case False
      define s where "s = 8 - bit_pos w"
      have s: "s = 8 - bit_pos w" "s \<le> n" "0 < s" using False bp by (simp_all add: s_def)
      define v where "v = w\<lparr>bit_buf := bit_buf w OR (drop_bit (n - s) x AND low_ones s)\<rparr>"
      have full: "8 \<le> bit_pos w + n" using False by simp
      obtain w' where w': "put_byte v = Inr w'" "bw_inv (bits_reset w')" "length (bw_buf w') = length (bw_buf w)"
          "bw_bits (bits_reset w') = bw_bits w @ map (\<lambda>i. bit x (n - 1 - i)) [0..<s]"
        using bw_byte_end [OF inv room [OF full] s(1,2), of x] by (auto simp: v_def)
      have reset_len: "length (bw_buf (bits_reset w')) = length (bw_buf w)" using w'(3) by (simp add: bits_reset_def)
      show ?thesis
      proof (cases "n = s")
        case True
        define u where "u = v\<lparr>bit_pos := 8\<rparr>"
        have "put_byte u = Inr (w'\<lparr>bit_pos := 8\<rparr>)"
          using w'(1) by (auto simp: put_byte_def u_def split: if_splits)
        then have "bw_write_loop x n w = Inr (bits_reset w')"
          using n s True bp
          by (subst bw_write_loop.simps) (simp add: Let_def bits_reset_def u_def v_def)
        moreover have "map (\<lambda>i. bit x (n - 1 - i)) [0..<s] = be_bits n x" by (simp add: be_bits_def True)
        ultimately show ?thesis using w' reset_len by simp
      next
        case more: False
        have step: "bw_write_loop x n w =
            bw_write_loop (x AND low_ones (n - s)) (n - s) (bits_reset w')"
          using n s more w'(1) by (subst bw_write_loop.simps) (simp add: Let_def v_def)
        have "length (bw_bits (bits_reset w')) + (n - s) \<le> 8 * length (bw_buf (bits_reset w'))"
          using less.prems(2) w'(4) reset_len s by simp
        have "n - s < n" using s(3) n by simp
        from less.IH [OF this w'(2) \<open>length (bw_bits (bits_reset w')) + (n - s) \<le> _\<close>, of "x AND low_ones (n - s)"]
        obtain u where u: "bw_write_loop x n w = Inr u" "bw_inv u" "length (bw_buf u) = length (bw_buf w)"
            "bw_bits u = bw_bits (bits_reset w') @ be_bits (n - s) (x AND low_ones (n - s))"
          using step reset_len by auto
        have "be_bits (n - s) (x AND low_ones (n - s)) = be_bits (n - s) x"
          by (rule be_bits_cong) (simp add: bit_low_mask)
        moreover have "be_bits n x = map (\<lambda>i. bit x (n - 1 - i)) [0..<s] @ be_bits (n - s) x"
          using be_bits_split [of s "n - s" x] s by (auto intro!: arg_cong [where f = "bit x"])
        ultimately show ?thesis using u w'(4) by simp
      qed
    qed
  qed
qed

lemma bw_write_bits:
  assumes "bw_inv w" "length (bw_bits w) + n \<le> 8 * length (bw_buf w)"
  shows "\<exists>w'. bw_write x n w = Inr w' \<and> bw_inv w' \<and> length (bw_buf w') = length (bw_buf w) \<and>
    bw_bits w' = bw_bits w @ be_bits n x"
proof -
  have "be_bits n (x AND (if n = 32 then - 1 else low_ones n)) = be_bits n x"
    by (rule be_bits_cong) (simp add: bit_low_mask)
  with bw_write_loop_bits [OF assms, of "x AND (if n = 32 then - 1 else low_ones n)"]
  show ?thesis by (simp add: bw_write_def)
qed

subsection \<open>The encoded frame as a bit string\<close>

definition alac_header_bits :: "nat \<Rightarrow> nat \<Rightarrow> bool list" where
  "alac_header_bits frame_size channels =
    be_bits 3 (if channels = 2 then 1 else 0 :: u32) @ replicate 4 False @ replicate 12 False @ [True] @
    replicate 2 False @ [True] @ be_bits 32 (of_nat frame_size :: u32)"

definition alac_bits :: "u16 list \<Rightarrow> nat \<Rightarrow> nat \<Rightarrow> bool list" where
  "alac_bits pcm frame_size channels =
    alac_header_bits frame_size channels @
    concat (map (be_bits 16) (take (frame_size * channels) pcm)) @ replicate 3 True"

text \<open>A step of the encoder that appends given bits; sequences of such steps append their bits.\<close>

definition appends :: "(BitWriter \<Rightarrow> BitWriter res) \<Rightarrow> bool list \<Rightarrow> bool" where
  "appends f bs \<longleftrightarrow> (\<forall>w. bw_inv w \<longrightarrow> length (bw_bits w) + length bs \<le> 8 * length (bw_buf w) \<longrightarrow>
     (\<exists>w'. f w = Inr w' \<and> bw_inv w' \<and> length (bw_buf w') = length (bw_buf w) \<and> bw_bits w' = bw_bits w @ bs))"

lemma appends_write: "appends (bw_write x n) (be_bits n x)"
  using bw_write_bits by (auto simp: appends_def)

lemma appends_bind:
  assumes f: "appends f bs" and g: "appends g cs"
  shows "appends (\<lambda>w. rbind (f w) g) (bs @ cs)"
  unfolding appends_def
proof (intro allI impI)
  fix w
  assume w: "bw_inv w" "length (bw_bits w) + length (bs @ cs) \<le> 8 * length (bw_buf w)"
  then obtain v where v: "f w = Inr v" "bw_inv v" "length (bw_buf v) = length (bw_buf w)" "bw_bits v = bw_bits w @ bs"
    using f unfolding appends_def by auto
  with w(2) have "length (bw_bits v) + length cs \<le> 8 * length (bw_buf v)" by simp
  with g v(2) obtain u where "g v = Inr u" "bw_inv u" "length (bw_buf u) = length (bw_buf v)" "bw_bits u = bw_bits v @ cs"
    unfolding appends_def by blast
  with v show "\<exists>u. rbind (f w) g = Inr u \<and> bw_inv u \<and> length (bw_buf u) = length (bw_buf w) \<and> bw_bits u = bw_bits w @ bs @ cs"
    by simp
qed

lemma appends_samples: "appends (bw_samples xs) (concat (map (be_bits 16) xs))"
proof (induction xs)
  case Nil
  then show ?case by (simp add: appends_def)
next
  case (Cons x xs)
  have "be_bits 16 (ucast x :: u32) = be_bits 16 x" by (auto simp: be_bits_def bit_unsigned_iff)
  with appends_bind [OF appends_write [of "ucast x" 16] Cons] show ?case by simp
qed

lemma be_bits_small:
  "be_bits 4 (0 :: u32) = replicate 4 False" "be_bits 12 (0 :: u32) = replicate 12 False"
  "be_bits 1 (1 :: u32) = [True]" "be_bits 2 (0 :: u32) = replicate 2 False" "be_bits 3 (7 :: u32) = replicate 3 True"
  by code_simp+

lemma appends_header: "appends (alac_header fs ch) (alac_header_bits fs ch)"
  unfolding alac_header_def alac_header_bits_def be_bits_small [symmetric]
  by (intro appends_bind appends_write)

definition alac_padding :: "nat \<Rightarrow> nat" where
  "alac_padding n = (8 - n mod 8) mod 8"

lemma bw_flush_bits:
  assumes "bw_inv w" "bit_pos w = 0 \<or> bw_pos w < length (bw_buf w)"
  shows "\<exists>n v. bw_flush w = Inr (n, v) \<and>
    concat (map (be_bits 8) (take n (bw_buf v))) = bw_bits w @ replicate (alac_padding (length (bw_bits w))) False"
proof (cases "bit_pos w = 0")
  case True
  then show ?thesis using assms(1) by (simp add: bw_flush_def bw_bits_def alac_padding_def bw_inv_def min_absorb2)
next
  case False
  with assms have len: "alac_padding (length (bw_bits w)) = 8 - bit_pos w"
    by (simp add: length_bw_bits alac_padding_def bw_inv_def)
  from False assms(2) have "bw_pos w < length (bw_buf w)" by simp
  from put_byte_full [OF this] obtain v where v: "put_byte w = Inr v"
      "bw_bits (bits_reset v) = concat (map (be_bits 8) (take (bw_pos w) (bw_buf w))) @ be_bits 8 (bit_buf w)" by blast
  have "be_bits 8 (bit_buf w) = map (\<lambda>i. bit (bit_buf w) (7 - i)) [0..<bit_pos w] @ replicate (8 - bit_pos w) False"
    using assms(1) by (intro nth_equalityI) (auto simp: be_bits_def nth_append bw_inv_def)
  with v False len show ?thesis by (simp add: bw_flush_def bw_bits_def bits_reset_def)
qed

lemma encode_alac_bits:
  "\<exists>out. encode_alac_verbatim pcm frame_size channels = Inr out \<and>
     concat (map (be_bits 8) out) = alac_bits pcm frame_size channels @
       replicate (alac_padding (length (alac_bits pcm frame_size channels))) False"
proof -
  define b where "b = BitWriter_new (replicate ((23 + 32 + frame_size * channels * 16 + 3) div 8 + 1) 0)"
  define samples where "samples = take (frame_size * channels) pcm"
  have b: "bw_inv b" "bw_bits b = []" by (simp_all add: b_def bw_new)
  have buf: "length (bw_buf b) = (58 + frame_size * channels * 16) div 8 + 1"
    by (simp add: b_def BitWriter_new_def)
  have bits: "length (alac_bits pcm frame_size channels) \<le> 58 + frame_size * channels * 16"
    by (simp add: alac_bits_def alac_header_bits_def)
  have "appends (\<lambda>w. rbind (alac_header frame_size channels w) (\<lambda>w. rbind (bw_samples samples w) (bw_write 7 3)))
      (alac_bits pcm frame_size channels)"
    unfolding alac_bits_def samples_def [symmetric] be_bits_small [symmetric]
    by (intro appends_bind appends_header appends_samples appends_write)
  then obtain w where w: "rbind (alac_header frame_size channels b) (\<lambda>w. rbind (bw_samples samples w) (bw_write 7 3)) = Inr w"
      "bw_inv w" "length (bw_buf w) = length (bw_buf b)" "bw_bits w = alac_bits pcm frame_size channels"
    using b buf bits unfolding appends_def by fastforce
  have "8 * bw_pos w + bit_pos w \<le> 58 + frame_size * channels * 16"
    using bits w(2,4) length_bw_bits [of w] by simp
  then have "bw_pos w < length (bw_buf w)" using w(3) buf by linarith
  with bw_flush_bits [OF w(2)] w(4) obtain n v where "bw_flush w = Inr (n, v)"
      "concat (map (be_bits 8) (take n (bw_buf v))) =
         alac_bits pcm frame_size channels @ replicate (alac_padding (length (alac_bits pcm frame_size channels))) False"
    by auto
  moreover have "encode_alac_verbatim pcm frame_size channels =
      rbind (bw_flush w) (\<lambda>(n, bw). Inr (take n (bw_buf bw)))"
    unfolding encode_alac_verbatim_def Let_def b_def [symmetric] samples_def [symmetric]
    using w(1) by (auto simp: rbind_Inr_iff)
  ultimately show ?thesis by simp
qed

text \<open>C30. The ALAC frame of any samples is the bit string of the documented layout, padded with zero bits to
  a whole number of bytes; the output buffer is large enough for every input, so encoding never panics.\<close>

theorem alac_frame_layout:
  "\<exists>out. encode_alac_verbatim pcm frame_size channels = Inr out \<and>
     concat (map (be_bits 8) out) = alac_bits pcm frame_size channels @
       replicate (alac_padding (length (alac_bits pcm frame_size channels))) False"
  by (rule encode_alac_bits)

subsection \<open>What a receiver makes of the packets\<close>

text \<open>
  The receiving side as the comments of \<open>send_frame\<close> describe it: time stamp and sequence number from the
  header, the nonce counter from the tail, the rest opened with bytes 4 to 12 of the header as associated data.
\<close>

definition open_audio :: "crypto \<Rightarrow> bytes \<Rightarrow> bytes \<Rightarrow> (u16 \<times> u32 \<times> bytes) option" where
  "open_audio C key pkt =
    (let counter = word_of_nat (of_le (drop (length pkt - 8) pkt));
         sealed = take (length pkt - 20) (drop 12 pkt)
     in map_option (\<lambda>m. (word_of_nat (of_be (take 2 (drop 2 pkt))), word_of_nat (of_be (take 4 (drop 4 pkt))), m))
          (aead_open C key (audio_nonce counter) (take 8 (drop 4 pkt)) sealed))"

fun audio_send_frames ::
  "crypto \<Rightarrow> (bool \<times> bytes \<times> u32 \<times> u16) list \<Rightarrow> AudioStream \<Rightarrow> AudioStream" where
  "audio_send_frames C [] s = s"
| "audio_send_frames C ((ok, p, time, sq) # fs) s = audio_send_frames C fs (snd (audio_send_frame C ok p time sq s))"

lemma rtp_header_fields:
  "length (rtp_header sq time) = 12" "take 2 (drop 2 (rtp_header sq time)) = to_be 2 (unat sq)"
  "take 4 (drop 4 (rtp_header sq time)) = to_be 4 (unat time)"
  by (simp_all add: rtp_header_def to_be_def)

lemma word_of_be_to_be:
  "word_of_nat (of_be (to_be 2 (unat x))) = (x :: u16)" "word_of_nat (of_be (to_be 4 (unat y))) = (y :: u32)"
  "word_of_nat (of_le (to_le 8 (unat z))) = (z :: u64)"
proof -
  have "unat x < 256 ^ 2" "unat y < 256 ^ 4" "unat z < 256 ^ 8"
    using unsigned_less [of x, where ?'a = nat] unsigned_less [of y, where ?'a = nat] unsigned_less [of z, where ?'a = nat]
    by simp_all
  then show "word_of_nat (of_be (to_be 2 (unat x))) = x" "word_of_nat (of_be (to_be 4 (unat y))) = y"
      "word_of_nat (of_le (to_le 8 (unat z))) = z"
    by (simp_all only: of_be_to_be of_le_to_le mod_less) simp_all
qed

lemma open_audio_packet:
  assumes "aead_ok C"
  shows "open_audio C key (rtp_header sq time @
      aead_seal C key (audio_nonce n) (take 8 (drop 4 (rtp_header sq time))) p @ to_le 8 (unat n)) = Some (sq, time, p)"
  using assms
  by (simp add: open_audio_def Let_def rtp_header_fields word_of_be_to_be aead_okD del: to_le_numeral)

definition audio_packet :: "crypto \<Rightarrow> bytes \<Rightarrow> u64 \<Rightarrow> bytes \<Rightarrow> u32 \<Rightarrow> u16 \<Rightarrow> bytes" where
  "audio_packet C key n p time sq = rtp_header sq time @
     aead_seal C key (audio_nonce n) (take 8 (drop 4 (rtp_header sq time))) p @ to_le 8 (unat n)"

fun audio_packets :: "crypto \<Rightarrow> bytes \<Rightarrow> u64 \<Rightarrow> (bool \<times> bytes \<times> u32 \<times> u16) list \<Rightarrow> bytes list" where
  "audio_packets C key n [] = []"
| "audio_packets C key n ((ok, p, time, sq) # fs) =
    (if ok then [audio_packet C key n p time sq] else []) @ audio_packets C key (n + 1) fs"

lemma audio_send_frames_packets:
  "au_chacha_key s = Some key \<Longrightarrow>
     au_data_socket (audio_send_frames C fs s) = au_data_socket s @ audio_packets C key (chacha_counter s) fs"
  by (induction fs arbitrary: s)
    (auto simp: audio_send_frame_def audio_body_def audio_packet_def advance_clock_def Let_def simp del: to_le_numeral)

lemma audio_packets_open:
  "aead_ok C \<Longrightarrow> map (open_audio C key) (audio_packets C key n fs) =
     map (\<lambda>(ok, p, time, sq). Some (sq, time, p)) (filter fst fs)"
  by (induction fs arbitrary: n) (auto simp: audio_packet_def open_audio_packet simp del: to_le_numeral)

definition packet_tail :: "bytes \<Rightarrow> bytes" where
  "packet_tail p = drop (length p - 8) p"

lemma packet_tail_audio [simp]: "packet_tail (audio_packet C key n p time sq) = to_le 8 (unat n)"
  by (simp add: packet_tail_def audio_packet_def rtp_header_fields del: to_le_numeral)

lemma audio_packets_counters:
  "\<exists>ns. map packet_tail (audio_packets C key n fs) = map (\<lambda>i. to_le 8 (unat (n + of_nat i))) ns \<and>
     distinct ns \<and> set ns \<subseteq> {0 ..< length fs}"
proof (induction fs arbitrary: n)
  case Nil
  then show ?case by simp
next
  case (Cons f fs)
  obtain ok p time sq where f: "f = (ok, p, time, sq)" by (cases f) auto
  from Cons [of "n + 1"] obtain ns where ns: "distinct ns" "set ns \<subseteq> {0 ..< length fs}"
      "map packet_tail (audio_packets C key (n + 1) fs) = map (\<lambda>i. to_le 8 (unat (n + 1 + of_nat i))) ns" by blast
  show ?case
    by (rule exI [of _ "(if ok then [0] else []) @ map Suc ns"])
      (use ns in \<open>auto simp: f distinct_map add.assoc simp del: to_le_numeral\<close>)
qed

text \<open>Encrypted audio: whatever frames are sent and whichever sends fail, the receiver opens every packet
  that left the socket with the published key and gets sequence number, time stamp and payload of its frame, in
  the order sent, and no two packets carry the same nonce counter while fewer than \<open>2 ^ 64\<close> frames are sent.\<close>

theorem audio_frames_open:
  assumes "aead_ok C" "au_chacha_key s = Some key" "au_data_socket s = []" "length fs < 2 ^ 64"
  shows "map (open_audio C key) (au_data_socket (audio_send_frames C fs s)) =
      map (\<lambda>(ok, p, time, sq). Some (sq, time, p)) (filter fst fs)
    \<and> distinct (map packet_tail (au_data_socket (audio_send_frames C fs s)))"
proof -
  let ?n = "chacha_counter s"
  from audio_packets_counters [of C key ?n fs] obtain ns where ns: "distinct ns" "set ns \<subseteq> {0 ..< length fs}"
      "map packet_tail (audio_packets C key ?n fs) = map (\<lambda>i. to_le 8 (unat (?n + of_nat i))) ns" by blast
  have "inj_on (\<lambda>i. to_le 8 (unat (?n + of_nat i))) (set ns)"
  proof (rule inj_onI)
    fix i j assume ij: "i \<in> set ns" "j \<in> set ns" "to_le 8 (unat (?n + of_nat i)) = to_le 8 (unat (?n + of_nat j))"
    then have "(of_nat i :: u64) = of_nat j" by (metis add_left_cancel word_of_be_to_be(3))
    moreover have "i < 2 ^ 64" "j < 2 ^ 64" using ij(1,2) ns(2) assms(4) by auto
    ultimately show "i = j" by (simp add: word_unat_eq_iff unat_of_nat)
  qed
  with ns audio_send_frames_packets [OF assms(2), of C fs] audio_packets_open [OF assms(1), of key ?n fs] assms(3)
  show ?thesis by (simp add: distinct_map)
qed

definition demo_audio :: AudioStream where
  "demo_audio = \<lparr>au_data_socket = [], au_ctrl_socket = [], remote_data = [], remote_ctrl = [], latency_samples = 0,
     rtp_time = 0, au_chacha_key = Some (replicate 32 1), chacha_counter = 18446744073709551615\<rparr>"

theorem audio_frames_open_witness:
  "map (open_audio toy_crypto (replicate 32 1))
     (au_data_socket (audio_send_frames toy_crypto [(True, [1], 352, 7), (False, [2], 704, 8), (True, [3], 704, 9)] demo_audio))
   = [Some (7, 352, [1]), Some (9, 704, [3])]"
  using audio_frames_open [of toy_crypto demo_audio "replicate 32 1"
      "[(True, [1], 352, 7), (False, [2], 704, 8), (True, [3], 704, 9)]"]
  by (simp add: demo_audio_def)

lemma audio_send_frame_clock:
  "rtp_time (snd (audio_send_frame C ok p time sq s)) =
    (if ok \<and> 0 \<le> sint (time - rtp_time s) then time else rtp_time s)"
proof -
  have "rtp_time (snd (audio_body C pkt p s)) = rtp_time s" for pkt
    by (simp add: audio_body_def Let_def split: option.split)
  then show ?thesis by (simp add: audio_send_frame_def advance_clock_def Let_def case_prod_unfold)
qed

text \<open>The clock of the stream follows the newest frame sent: if the time stamps of the frames lie less than
  \<open>2 ^ 31\<close> past a common start, from which the clock itself is not further away, the clock ends at the largest
  of them, in whatever order the frames, retransmissions included, were sent; a failed send does not count.\<close>

theorem audio_clock_newest:
  assumes "rtp_time s = base + of_nat d" "d < 2 ^ 31" "\<forall>(ok, p, t, sq) \<in> set fs. t < 2 ^ 31"
  shows "rtp_time (audio_send_frames C (map (\<lambda>(ok, p, t, sq). (ok, p, base + of_nat t, sq)) fs) s) =
    base + of_nat (fold max (map (\<lambda>(ok, p, t, sq). t) (filter fst fs)) d)"
  using assms
proof (induction fs arbitrary: s d)
  case Nil
  then show ?case by simp
next
  case (Cons f fs)
  obtain ok p t sq where f: "f = (ok, p, t, sq)" by (cases f) auto
  define s' where "s' = snd (audio_send_frame C ok p (base + of_nat t) sq s)"
  have td: "t < 2 ^ 31" using Cons.prems(3) by (auto simp: f)
  have clock: "0 \<le> sint ((of_nat t :: u32) - of_nat d) \<longleftrightarrow> d \<le> t"
  proof -
    have "sint ((of_nat t :: u32) - of_nat d) = int t - int d"
      using td Cons.prems(2) by (simp add: sint_word_ariths signed_of_nat signed_take_bit_int_eq_self)
    then show ?thesis by simp
  qed
  have "rtp_time s' = base + of_nat (if ok then max t d else d)"
    using clock Cons.prems(1) by (auto simp: s'_def audio_send_frame_clock)
  from Cons.IH [OF this] td Cons.prems show ?case by (auto simp: f s'_def)
qed

theorem audio_clock_newest_witness:
  "rtp_time (audio_send_frames toy_crypto (map (\<lambda>(ok, p, t, sq). (ok, p, 4294967000 + of_nat t, sq))
     [(True, [1], 352, 7), (True, [2], 704, 8), (True, [1], 352, 7)]) (demo_audio\<lparr>rtp_time := 4294967000\<rparr>)) = 408"
  using audio_clock_newest [of "demo_audio\<lparr>rtp_time := 4294967000\<rparr>" 4294967000 0
      "[(True, [1], 352, 7), (True, [2], 704, 8), (True, [1], 352, 7)]" toy_crypto]
  by simp

end
