(* ===== verification/Mirror_Session.thy ===== *)
theory Mirror_Session
  imports Client Mirror_Clock Mirror_Cipher Audio
begin

text \<open>
  A running mirroring session (\<open>MirrorSession\<close> of mirror.rs): frame times, the codec, video and heartbeat
  messages on the data connection, and the requests a session makes on its control channel. The data connection is
  the list of the bytes written to it, and writing succeeds. A request on the control channel is an argument,
  \<open>rtsp\<close>: it may be the client's \<open>rtsp_request\<close> over a byte stream, or that together with a
  receiver, whose state is then the second component of the state it works on.
\<close>

type_synonym 'e rtsp =
  "string \<Rightarrow> string \<Rightarrow> string \<Rightarrow> bytes \<Rightarrow> (string \<Rightarrow> string option) \<Rightarrow> Client \<times> 'e \<Rightarrow>
     (bytes \<times> (string \<Rightarrow> string option)) res \<times> (Client \<times> 'e)"

text \<open>A socket is its port; the two ciphers are a keystream with its position, and a key.\<close>

record MirrorSession =
  ms_client :: Client
  data_conn :: bytes
  session_uri :: string
  video_width :: u32
  video_height :: u32
  display_width :: u32
  display_height :: u32
  stream_cipher :: "(keystream \<times> MirrorCipher) option"
  chacha_cipher :: "bytes option"
  chacha_nonce :: u64
  frame_seq :: u32
  last_frame_timestamp :: u64
  first_frame_sent :: bool
  timestamp_bias :: nat
  media_clock :: "MediaClock option"
  timing_socket :: "u16 option"
  audio_data_socket :: "u16 option"
  audio_ctrl_socket :: "u16 option"
  audio_data_port :: u16
  audio_ctrl_port :: u16
  audio_latency_samples :: u32
  audio_chacha :: bool
  audio_chacha_key :: bytes

subsection \<open>Frame times\<close>

definition monotonic_frame_time :: "u64 \<Rightarrow> MirrorSession \<Rightarrow> u64 \<times> MirrorSession" where
  "monotonic_frame_time timestamp s =
    (let timestamp = (if timestamp \<le> last_frame_timestamp s then last_frame_timestamp s + 1 else timestamp)
     in (timestamp, s\<lparr>last_frame_timestamp := timestamp\<rparr>))"

text \<open>
  The time stamp and time line before that: \<open>t\<close> is the current instant, \<open>elapsed\<close> the time since the
  start of the process.
\<close>

definition clock_reading :: "nat \<Rightarrow> nat \<Rightarrow> MirrorSession \<Rightarrow> u64 \<times> u64" where
  "clock_reading t elapsed s =
    (let bias = (if 0 < timestamp_bias s then timestamp_bias s else 5000000) in
     case media_clock s of
       None \<Rightarrow> (ntp_time_now elapsed, 0)
     | Some clock \<Rightarrow> (case clock_now t bias clock of
           Some (ts, timeline) \<Rightarrow> (ts, timeline) | None \<Rightarrow> (ntp_time_now elapsed, 0)))"

definition frame_time_now :: "nat \<Rightarrow> nat \<Rightarrow> MirrorSession \<Rightarrow> (u64 \<times> u64) \<times> MirrorSession" where
  "frame_time_now t elapsed s =
    (let (ts, timeline) = clock_reading t elapsed s; (ts, s) = monotonic_frame_time ts s in ((ts, timeline), s))"

subsection \<open>The messages of the data connection\<close>

text \<open>
  \<open>n as f32\<close> for an unsigned integer, as the bits of the single: the mantissa is rounded to the nearest,
  ties to even, and a carry out of it moves into the exponent.
\<close>

fun ilog2 :: "nat \<Rightarrow> nat" where
  "ilog2 n = (if n < 2 then 0 else Suc (ilog2 (n div 2)))"

declare ilog2.simps [simp del]

definition round_even_shift :: "nat \<Rightarrow> nat \<Rightarrow> nat" where
  "round_even_shift k n =
    (let q = n div 2 ^ k; r = n mod 2 ^ k; half = 2 ^ k div 2
     in if half < r \<or> (r = half \<and> odd q) then q + 1 else q)"

definition f32_bits :: "nat \<Rightarrow> nat" where
  "f32_bits n =
    (if n = 0 then 0
     else let e = ilog2 n;
              m = (if e \<le> 23 then n * 2 ^ (23 - e) else round_even_shift (e - 23) n)
          in (e + 127) * 2 ^ 23 + (m - 2 ^ 23))"

definition put_float32_le :: "nat \<Rightarrow> u32 \<Rightarrow> bytes \<Rightarrow> bytes" where
  "put_float32_le off v header = splice off (to_le 4 (f32_bits (unat v))) header"

definition display_or_video :: "MirrorSession \<Rightarrow> u32 \<times> u32" where
  "display_or_video s =
    (if 0 < display_width s \<and> 0 < display_height s then (display_width s, display_height s)
     else (video_width s, video_height s))"

definition codec_header :: "MirrorSession \<Rightarrow> nat \<Rightarrow> u64 \<Rightarrow> bytes" where
  "codec_header s payload_len ntp_timestamp =
    (let header = splice 0 (to_le 4 payload_len) (replicate 128 0);
         header = header[4 := 0x01, 5 := 0x00, 6 := 0x16, 7 := 0x01];
         header = splice 8 (to_le 8 (unat ntp_timestamp)) header;
         (disp_w, disp_h) = display_or_video s;
         header = put_float32_le 16 (video_width s) header;
         header = put_float32_le 20 (video_height s) header;
         header = put_float32_le 40 (video_width s) header;
         header = put_float32_le 44 (video_height s) header;
         header = put_float32_le 56 disp_w header
     in put_float32_le 60 disp_h header)"

definition send_codec_frame :: "bytes \<Rightarrow> u64 \<Rightarrow> MirrorSession \<Rightarrow> MirrorSession" where
  "send_codec_frame payload ntp_timestamp s =
    (let s = s\<lparr>frame_seq := frame_seq s + 1\<rparr>
     in s\<lparr>data_conn := data_conn s @ codec_header s (length payload) ntp_timestamp @ payload, first_frame_sent := True\<rparr>)"

definition frame_header :: "nat \<Rightarrow> bool \<Rightarrow> u64 \<Rightarrow> u64 \<Rightarrow> bytes" where
  "frame_header payload_size is_keyframe network_timestamp timeline =
    (let header = splice 0 (to_le 4 payload_size) (replicate 128 0);
         header = header[4 := 0x00, 5 := (if is_keyframe then 0x10 else 0x00)];
         header = splice 8 (to_le 8 (unat network_timestamp)) header
     in splice 40 (to_le 8 (unat timeline)) header)"

text \<open>The payload of a video frame: sealed with the header as associated data, ciphered, or plain.\<close>

definition frame_payload :: "crypto \<Rightarrow> bytes \<Rightarrow> bytes \<Rightarrow> MirrorSession \<Rightarrow> bytes \<times> MirrorSession" where
  "frame_payload C header au_data s =
    (case chacha_cipher s of
       Some key \<Rightarrow>
         (aead_seal C key (counter_nonce (chacha_nonce s)) header au_data, s\<lparr>chacha_nonce := chacha_nonce s + 1\<rparr>)
     | None \<Rightarrow> (case stream_cipher s of
           Some (ks, c) \<Rightarrow> (let (out, c) = encrypt_frame ks c au_data in (out, s\<lparr>stream_cipher := Some (ks, c)\<rparr>))
         | None \<Rightarrow> (au_data, s)))"

definition send_frame :: "crypto \<Rightarrow> bytes \<Rightarrow> bool \<Rightarrow> u64 \<Rightarrow> u64 \<Rightarrow> MirrorSession \<Rightarrow> MirrorSession" where
  "send_frame C au_data is_keyframe network_timestamp timeline s =
    (let s = s\<lparr>frame_seq := frame_seq s + 1\<rparr>;
         payload_size = (if chacha_cipher s \<noteq> None then length au_data + 16 else length au_data);
         header = frame_header payload_size is_keyframe network_timestamp timeline;
         (payload, s) = frame_payload C header au_data s
     in s\<lparr>data_conn := data_conn s @ header @ payload\<rparr>)"

definition send_heartbeat :: "MirrorSession \<Rightarrow> MirrorSession" where
  "send_heartbeat s =
    (let header = (replicate 128 0)[4 := 0x02, 6 := 0x1e] in s\<lparr>data_conn := data_conn s @ header\<rparr>)"

subsection \<open>Requests of a session\<close>

definition session_request ::
  "'e rtsp \<Rightarrow> string \<Rightarrow> string \<Rightarrow> string \<Rightarrow> bytes \<Rightarrow> MirrorSession \<times> 'e \<Rightarrow>
     (bytes \<times> (string \<Rightarrow> string option)) res \<times> (MirrorSession \<times> 'e)" where
  "session_request rtsp meth uri content_type b st =
    (let (s, e) = st; (r, (c, e)) = rtsp meth uri content_type b Map.empty (ms_client s, e)
     in (r, (s\<lparr>ms_client := c\<rparr>, e)))"

text \<open>\<open>vol\<close> is the volume printed with six decimals; both answers are ignored.\<close>

definition set_volume_db :: "'e rtsp \<Rightarrow> string \<Rightarrow> MirrorSession \<times> 'e \<Rightarrow> MirrorSession \<times> 'e" where
  "set_volume_db rtsp vol st =
    (let b = s2b (''volume: '' @ vol @ crlf);
         (_, st) = session_request rtsp ''SET_PARAMETER'' (session_uri (fst st)) ''text/parameters'' b st;
         (_, st) = session_request rtsp ''SET_PARAMETER'' (session_uri (fst st)) ''text/parameters'' b st
     in st)"

definition send_feedback :: "'e rtsp \<Rightarrow> nat \<Rightarrow> MirrorSession \<times> 'e \<Rightarrow> unit res \<times> (MirrorSession \<times> 'e)" where
  "send_feedback rtsp t st =
    (case session_request rtsp ''POST'' ''/feedback'' [] [] st of
       (Inl e, st) \<Rightarrow> (Inl e, st)
     | (Inr (_, hs), (s, e)) \<Rightarrow>
         (Inr (), (s\<lparr>media_clock := map_option (\<lambda>c. snd (reanchor hs t c)) (media_clock s)\<rparr>, e)))"

text \<open>The data connection is shut down afterwards.\<close>

definition teardown :: "'e rtsp \<Rightarrow> MirrorSession \<times> 'e \<Rightarrow> MirrorSession \<times> 'e" where
  "teardown rtsp st = snd (session_request rtsp ''TEARDOWN'' (session_uri (fst st)) [] [] st)"

text \<open>\<open>parse_addr\<close> tells whether a string is a socket address.\<close>

definition make_audio_stream :: "(string \<Rightarrow> bool) \<Rightarrow> MirrorSession \<Rightarrow> AudioStream option res" where
  "make_audio_stream parse_addr s =
    (case (audio_data_socket s, audio_ctrl_socket s) of
       (Some _, Some _) \<Rightarrow>
         if audio_data_port s = 0 \<or> audio_ctrl_port s = 0 then Inr None
         else rbind (audio_stream_new parse_addr (cl_host (ms_client s)) (audio_data_port s) (audio_ctrl_port s)
             (audio_latency_samples s) (if audio_chacha s then Some (audio_chacha_key s) else None)) (\<lambda>a. Inr (Some a))
     | _ \<Rightarrow> Inr None)"

subsection \<open>Fields of a header\<close>

text \<open>\<open>n\<close> bytes at offset \<open>i\<close>.\<close>

definition field :: "nat \<Rightarrow> nat \<Rightarrow> 'a list \<Rightarrow> 'a list" where
  "field i n h = take n (drop i h)"

lemma field_splice_same:
  "i + length src \<le> length dst \<Longrightarrow> length src = n \<Longrightarrow> field i n (splice i src dst) = src"
  by (simp add: field_def splice_def)

lemma field_splice_other:
  assumes "k + length src \<le> length dst" "i + n \<le> k \<or> k + length src \<le> i"
  shows "field i n (splice k src dst) = field i n dst"
  using assms(2)
proof
  assume le: "i + n \<le> k"
  then show ?thesis using assms(1) by (simp add: field_def splice_def take_drop min_absorb1)
next
  assume "k + length src \<le> i"
  then have "drop i (splice k src dst) = drop i dst"
    using assms(1) by (simp add: splice_def min_absorb2)
  then show ?thesis by (simp add: field_def)
qed

lemma field_update: "j < i \<or> i + n \<le> j \<Longrightarrow> field i n (h[j := v]) = field i n h"
  by (auto simp: field_def drop_update_swap take_update_cancel drop_update_cancel)

lemma nth_splice_other:
  "k + length src \<le> length dst \<Longrightarrow> j < k \<or> k + length src \<le> j \<Longrightarrow> splice k src dst ! j = dst ! j"
  by (auto simp: splice_def nth_append min_absorb2)

lemmas header_fields = field_splice_same field_splice_other field_update nth_splice_other

lemma frame_header_fields:
  fixes size kf ts tln
  defines "h \<equiv> frame_header size kf ts tln"
  shows "length h = 128" "field 0 4 h = to_le 4 size" "h ! 4 = 0" "h ! 5 = (if kf then 0x10 else 0)"
    "field 8 8 h = to_le 8 (unat ts)" "field 40 8 h = to_le 8 (unat tln)"
  unfolding h_def frame_header_def Let_def
  by (simp_all add: header_fields del: to_le_numeral)

lemma put_float32_length: "off + 4 \<le> length h \<Longrightarrow> length (put_float32_le off v h) = length h"
  by (simp add: put_float32_le_def del: to_le_numeral)

lemma put_float32_field:
  "off + 4 \<le> length h \<Longrightarrow> field off 4 (put_float32_le off v h) = to_le 4 (f32_bits (unat v))"
  "off + 4 \<le> length h \<Longrightarrow> i + n \<le> off \<or> off + 4 \<le> i \<Longrightarrow> field i n (put_float32_le off v h) = field i n h"
  "off + 4 \<le> length h \<Longrightarrow> j < off \<or> off + 4 \<le> j \<Longrightarrow> put_float32_le off v h ! j = h ! j"
  by (simp_all add: put_float32_le_def header_fields del: to_le_numeral)

lemma codec_header_fields:
  fixes s len ts
  defines "h \<equiv> codec_header s len ts"
  shows "length h = 128" "field 0 4 h = to_le 4 len" "h ! 4 = 1" "field 8 8 h = to_le 8 (unat ts)"
    "field 16 4 h = to_le 4 (f32_bits (unat (video_width s)))" "field 20 4 h = to_le 4 (f32_bits (unat (video_height s)))"
    "field 56 4 h = to_le 4 (f32_bits (unat (fst (display_or_video s))))"
    "field 60 4 h = to_le 4 (f32_bits (unat (snd (display_or_video s))))"
  unfolding h_def codec_header_def Let_def case_prod_unfold
  by (simp_all add: put_float32_length put_float32_field header_fields del: to_le_numeral)

subsection \<open>Integers as singles\<close>

lemma ilog2_bounds: "0 < n \<Longrightarrow> 2 ^ ilog2 n \<le> n \<and> n < 2 ^ Suc (ilog2 n)"
proof (induction n rule: ilog2.induct)
  case (1 n)
  show ?case
  proof (cases "n < 2")
    case True
    with 1 show ?thesis by (simp add: ilog2.simps)
  next
    case False
    with 1 have "2 ^ ilog2 (n div 2) \<le> n div 2" "n div 2 < 2 ^ Suc (ilog2 (n div 2))" by auto
    then have "2 * 2 ^ ilog2 (n div 2) \<le> n" "n < 2 * 2 ^ Suc (ilog2 (n div 2))" by linarith+
    with False show ?thesis by (simp add: ilog2.simps [of n])
  qed
qed

text \<open>The integer a single stands for, when it stands for one.\<close>

definition f32_int :: "nat \<Rightarrow> nat" where
  "f32_int b =
    (if b = 0 then 0
     else let e = b div 2 ^ 23 - 127; m = b mod 2 ^ 23 + 2 ^ 23
          in if e \<le> 23 then m div 2 ^ (23 - e) else m * 2 ^ (e - 23))"

lemma f32_exact:
  assumes "n < 2 ^ 24"
  shows "f32_int (f32_bits n) = n" "f32_bits n < 2 ^ 32"
proof -
  have "f32_int (f32_bits n) = n \<and> f32_bits n < 2 ^ 32"
  proof (cases "n = 0")
    case True
    then show ?thesis by (simp add: f32_bits_def f32_int_def)
  next
    case False
    define e where "e = ilog2 n"
    have b: "2 ^ e \<le> n" "n < 2 ^ Suc e" using ilog2_bounds [of n] False by (auto simp: e_def)
    have e: "e \<le> 23"
    proof (rule ccontr)
      assume "\<not> e \<le> 23"
      then have "(2 :: nat) ^ 24 \<le> 2 ^ e" by (intro power_increasing) simp_all
      with b assms show False by linarith
    qed
    define m where "m = n * 2 ^ (23 - e)"
    have p: "(2 :: nat) ^ e * 2 ^ (23 - e) = 2 ^ 23" using e by (simp flip: power_add)
    have m: "2 ^ 23 \<le> m" "m < 2 ^ 24"
    proof -
      have "2 ^ e * 2 ^ (23 - e) \<le> n * 2 ^ (23 - e)" using b(1) by (rule mult_le_mono1)
      then show "2 ^ 23 \<le> m" by (simp only: p m_def)
      have "n * 2 ^ (23 - e) < 2 ^ Suc e * 2 ^ (23 - e)" using b(2) by (rule mult_less_mono1) simp
      also have "2 ^ Suc e * 2 ^ (23 - e) = 2 * (2 ^ e * 2 ^ (23 - e) :: nat)" by simp
      also have "\<dots> = 2 * 2 ^ 23" by (simp only: p)
      also have "\<dots> = 2 ^ 24" by simp
      finally show "m < 2 ^ 24" by (simp only: m_def)
    qed
    have bits: "f32_bits n = (e + 127) * 2 ^ 23 + (m - 2 ^ 23)"
      using False e by (simp add: f32_bits_def e_def m_def Let_def)
    have lt: "m - 2 ^ 23 < 2 ^ 23" using m by simp
    then have dm: "f32_bits n div 2 ^ 23 = e + 127" "f32_bits n mod 2 ^ 23 = m - 2 ^ 23"
      unfolding bits by (simp_all only: div_mult_self3 [of "2 ^ 23 :: nat"] mod_mult_self3 mod_less div_less)
    have "f32_bits n \<noteq> 0" by (simp add: bits)
    then have "f32_int (f32_bits n) = m div 2 ^ (23 - e)"
      using dm m(1) e by (simp add: f32_int_def Let_def)
    moreover have "f32_bits n < 2 ^ 32" using lt e by (simp add: bits)
    ultimately show ?thesis by (simp add: m_def)
  qed
  then show "f32_int (f32_bits n) = n" "f32_bits n < 2 ^ 32" by simp_all
qed

subsection \<open>The receiving end of the data connection\<close>

text \<open>
  What the headers promise: 128 bytes, the length of the payload, then the payload; byte 4 tells the kind. A video
  payload is opened with the next nonce and its header as associated data. \<open>Size\<close> is a pair of pixels.
\<close>

datatype mirror_message =
    Codec bytes u64
  | Video bytes bool u64 u64
  | Heartbeat

datatype received_message =
    R_codec bytes u64 "nat \<times> nat" "nat \<times> nat"
  | R_video bytes bool u64 u64
  | R_heartbeat

fun send_message :: "crypto \<Rightarrow> mirror_message \<Rightarrow> MirrorSession \<Rightarrow> MirrorSession" where
  "send_message C (Codec p ts) s = send_codec_frame p ts s"
| "send_message C (Video d kf ts tln) s = send_frame C d kf ts tln s"
| "send_message C Heartbeat s = send_heartbeat s"

definition single_at :: "nat \<Rightarrow> bytes \<Rightarrow> nat" where
  "single_at i h = f32_int (of_le (field i 4 h))"

definition u64_at :: "nat \<Rightarrow> bytes \<Rightarrow> u64" where
  "u64_at i h = word_of_nat (of_le (field i 8 h))"

function receive_messages :: "crypto \<Rightarrow> bytes \<Rightarrow> u64 \<Rightarrow> bytes \<Rightarrow> received_message list option" where
  "receive_messages C key n inp =
    (if inp = [] then Some []
     else if length inp < 128 then None
     else
       let h = take 128 inp; size = of_le (field 0 4 h);
           payload = take size (drop 128 inp); rest = drop size (drop 128 inp) in
       if h ! 4 = 1 then
         map_option (Cons (R_codec payload (u64_at 8 h) (single_at 16 h, single_at 20 h) (single_at 56 h, single_at 60 h)))
           (receive_messages C key n rest)
       else if h ! 4 = 2 then map_option (Cons R_heartbeat) (receive_messages C key n rest)
       else (case aead_open C key (counter_nonce n) h payload of
           None \<Rightarrow> None
         | Some d \<Rightarrow> map_option (Cons (R_video d (h ! 5 = 0x10) (u64_at 8 h) (u64_at 40 h)))
             (receive_messages C key (n + 1) rest)))"
  by pat_completeness auto
termination
  by (relation "measure (\<lambda>(C, key, n, inp). length inp)") auto

declare receive_messages.simps [simp del]

text \<open>The message a receiver should see, given the sizes the session was set to.\<close>

fun as_received :: "nat \<times> nat \<Rightarrow> nat \<times> nat \<Rightarrow> mirror_message \<Rightarrow> received_message" where
  "as_received v d (Codec p ts) = R_codec p ts v d"
| "as_received v d (Video x kf ts tln) = R_video x kf ts tln"
| "as_received v d Heartbeat = R_heartbeat"

fun message_fits :: "mirror_message \<Rightarrow> bool" where
  "message_fits (Codec p ts) \<longleftrightarrow> length p < 2 ^ 32"
| "message_fits (Video d kf ts tln) \<longleftrightarrow> length d + 16 < 2 ^ 32"
| "message_fits Heartbeat \<longleftrightarrow> True"

lemma u64_at_field: "field i 8 h = to_le 8 (unat x) \<Longrightarrow> u64_at i h = x"
  using word_of_be_to_be(3) [of x] by (simp add: u64_at_def del: to_le_numeral)

lemma size_field: "field 0 4 h = to_le 4 x \<Longrightarrow> x < 2 ^ 32 \<Longrightarrow> of_le (field 0 4 h) = x"
  by (simp add: of_le_to_le del: to_le_numeral)

lemma single_at_field: "field i 4 h = to_le 4 (f32_bits x) \<Longrightarrow> x < 2 ^ 24 \<Longrightarrow> single_at i h = x"
  using f32_exact [of x] by (simp add: single_at_def of_le_to_le del: to_le_numeral)

text \<open>The bytes of one message.\<close>

definition message_bytes :: "crypto \<Rightarrow> bytes \<Rightarrow> mirror_message \<Rightarrow> MirrorSession \<Rightarrow> bytes" where
  "message_bytes C key m s =
    (case m of
       Codec p ts \<Rightarrow> codec_header s (length p) ts @ p
     | Video d kf ts tln \<Rightarrow> (let h = frame_header (length d + 16) kf ts tln in h @ aead_seal C key (counter_nonce (chacha_nonce s)) h d)
     | Heartbeat \<Rightarrow> (replicate 128 0)[4 := 0x02, 6 := 0x1e])"

definition sizes :: "MirrorSession \<Rightarrow> (nat \<times> nat) \<times> (nat \<times> nat)" where
  "sizes s = ((unat (video_width s), unat (video_height s)), map_prod unat unat (display_or_video s))"

definition sizes_ok :: "MirrorSession \<Rightarrow> bool" where
  "sizes_ok s \<longleftrightarrow> (\<forall>x \<in> {video_width s, video_height s, display_width s, display_height s}. unat x < 2 ^ 24)"

lemma send_message_effect:
  assumes "chacha_cipher s = Some key"
  shows "data_conn (send_message C m s) = data_conn s @ message_bytes C key m s"
    "chacha_cipher (send_message C m s) = Some key" "sizes (send_message C m s) = sizes s"
    "sizes_ok (send_message C m s) = sizes_ok s"
    "chacha_nonce (send_message C m s) = chacha_nonce s + (case m of Video _ _ _ _ \<Rightarrow> 1 | _ \<Rightarrow> 0)"
  using assms
  by (cases m; simp add: send_codec_frame_def send_frame_def send_heartbeat_def frame_payload_def message_bytes_def
      sizes_def sizes_ok_def display_or_video_def codec_header_def Let_def del: to_le_numeral)+

lemma receive_message:
  assumes "aead_ok C" "message_fits m" "sizes_ok s" "sizes s = (v, d)"
  shows "receive_messages C key (chacha_nonce s) (message_bytes C key m s @ rest) =
    map_option (Cons (as_received v d m))
      (receive_messages C key (chacha_nonce s + (case m of Video _ _ _ _ \<Rightarrow> 1 | _ \<Rightarrow> 0)) rest)"
proof (cases m)
  case (Codec p ts)
  define h where "h = codec_header s (length p) ts"
  note f = codec_header_fields [of s "length p" ts, folded h_def]
  have sz: "of_le (field 0 4 h) = length p" using f(2) assms(2) Codec by (intro size_field) simp_all
  have "unat (fst (display_or_video s)) < 2 ^ 24" "unat (snd (display_or_video s)) < 2 ^ 24"
    using assms(3) by (simp_all add: display_or_video_def sizes_ok_def)
  then have "(single_at 16 h, single_at 20 h) = v" "(single_at 56 h, single_at 60 h) = d"
    using assms(3,4) single_at_field [OF f(5)] single_at_field [OF f(6)] single_at_field [OF f(7)] single_at_field [OF f(8)]
    by (auto simp: sizes_def sizes_ok_def map_prod_def case_prod_unfold)
  moreover have "u64_at 8 h = ts" using f(4) by (rule u64_at_field)
  moreover have "take 128 (h @ p @ rest) = h" "drop 128 (h @ p @ rest) = p @ rest" "h \<noteq> []" using f(1) by auto
  ultimately show ?thesis
    using f(1,3) sz
    by (subst receive_messages.simps) (simp add: Codec message_bytes_def h_def [symmetric] Let_def)
next
  case (Video x kf ts tln)
  define h where "h = frame_header (length x + 16) kf ts tln"
  define sealed where "sealed = aead_seal C key (counter_nonce (chacha_nonce s)) h x"
  note f = frame_header_fields [of "length x + 16" kf ts tln, folded h_def]
  have sz: "of_le (field 0 4 h) = length x + 16" using f(2) assms(2) Video by (intro size_field) simp_all
  have "aead_open C key (counter_nonce (chacha_nonce s)) h sealed = Some x" "length sealed = length x + 16"
    using assms(1) by (simp_all add: sealed_def aead_okD)
  moreover have "u64_at 8 h = ts" "u64_at 40 h = tln" using f(5,6) by (simp_all add: u64_at_field del: to_le_numeral)
  moreover have "take 128 (h @ sealed @ rest) = h" "drop 128 (h @ sealed @ rest) = sealed @ rest" "h \<noteq> []" using f(1) by auto
  ultimately show ?thesis
    using f(1,3,4) sz
    by (subst receive_messages.simps) (simp add: Video message_bytes_def h_def [symmetric] sealed_def [symmetric] Let_def)
next
  case Heartbeat
  define h :: bytes where "h = (replicate 128 0)[4 := 0x02, 6 := 0x1e]"
  have "length h = 128" "h ! 4 = 2" by (simp_all add: h_def)
  moreover have "field 0 4 h = replicate 4 0" by (simp add: h_def field_def)
  then have "of_le (field 0 4 h) = 0" by simp
  moreover have "take 128 (h @ rest) = h" "drop 128 (h @ rest) = rest" "h \<noteq> []" using calculation(1) by auto
  ultimately show ?thesis
    by (subst receive_messages.simps) (simp add: Heartbeat message_bytes_def h_def [symmetric] Let_def)
qed

text \<open>C13. The data connection of an encrypted session: whatever codec, video and heartbeat messages are sent, in any
  order, a receiver that holds the key splits the bytes into exactly these messages and opens each video frame, with
  its payload, key frame flag, time stamp and time line, and it reads the picture sizes exactly (for payloads
  whose length fits the header and sizes below \<open>2 ^ 24\<close>).\<close>

theorem data_connection_roundtrip:
  assumes "aead_ok C" "chacha_cipher s = Some key" "data_conn s = []" "sizes_ok s" "sizes s = (v, d)"
    and "\<forall>m \<in> set ms. message_fits m"
  shows "receive_messages C key (chacha_nonce s) (data_conn (fold (send_message C) ms s)) = Some (map (as_received v d) ms)"
proof -
  have "\<exists>b. data_conn (fold (send_message C) ms s) = data_conn s @ b \<and>
      receive_messages C key (chacha_nonce s) b = Some (map (as_received v d) ms)"
    if "chacha_cipher s = Some key" "sizes_ok s" "sizes s = (v, d)" "\<forall>m \<in> set ms. message_fits m" for s
    using that
  proof (induction ms arbitrary: s)
    case Nil
    then show ?case by (simp add: receive_messages.simps)
  next
    case (Cons m ms)
    note eff = send_message_effect [OF Cons.prems(1), of C m]
    from Cons.IH [of "send_message C m s"] Cons.prems eff obtain b where
      "data_conn (fold (send_message C) ms (send_message C m s)) = data_conn s @ message_bytes C key m s @ b"
      "receive_messages C key (chacha_nonce (send_message C m s)) b = Some (map (as_received v d) ms)" by auto
    moreover have "message_fits m" using Cons.prems(4) by simp
    ultimately show ?case
      using receive_message [OF assms(1) _ Cons.prems(2,3), of m key b] eff(5) by auto
  qed
  from this [OF assms(2,4,5,6)] assms(3) show ?thesis by auto
qed

text \<open>A session with a key and a stream of 1920 by 1080 on a display of 1280 by 720.\<close>

definition demo_session :: MirrorSession where
  "demo_session =
    \<lparr>ms_client = Client.connected [] [] [] [] 7000, data_conn = [], session_uri = ''rtsp://tv:7000/1'', video_width = 1920,
     video_height = 1080, display_width = 1280, display_height = 720, stream_cipher = None,
     chacha_cipher = Some (replicate 32 1), chacha_nonce = 0, frame_seq = 0, last_frame_timestamp = 0,
     first_frame_sent = False, timestamp_bias = 0, media_clock = None, timing_socket = None,
     audio_data_socket = None, audio_ctrl_socket = None, audio_data_port = 0, audio_ctrl_port = 0,
     audio_latency_samples = 0, audio_chacha = False, audio_chacha_key = []\<rparr>"

theorem data_connection_roundtrip_witness:
  "receive_messages toy_crypto (replicate 32 1) 0
     (data_conn (fold (send_message toy_crypto) [Codec [1, 2] 5, Heartbeat, Video [3] True 6 7] demo_session)) =
   Some [R_codec [1, 2] 5 (1920, 1080) (1280, 720), R_heartbeat, R_video [3] True 6 7]"
  using data_connection_roundtrip [of toy_crypto demo_session "replicate 32 1" "(1920, 1080)" "(1280, 720)"
      "[Codec [1, 2] 5, Heartbeat, Video [3] True 6 7]"]
  by (simp add: demo_session_def sizes_def sizes_ok_def display_or_video_def)

subsection \<open>Frame times never repeat\<close>

text \<open>Each frame is asked for at a state of the media clock, an instant and a time since the start.\<close>

fun frame_times :: "(MediaClock option \<times> nat \<times> nat) list \<Rightarrow> MirrorSession \<Rightarrow> u64 list" where
  "frame_times [] s = []"
| "frame_times ((c, t, elapsed) # xs) s =
    (let ((time, _), s) = frame_time_now t elapsed (s\<lparr>media_clock := c\<rparr>) in time # frame_times xs s)"

lemma clock_reading_last [simp]:
  "clock_reading t elapsed (s\<lparr>media_clock := c, last_frame_timestamp := x\<rparr>) = clock_reading t elapsed (s\<lparr>media_clock := c\<rparr>)"
  "clock_reading t elapsed (s\<lparr>media_clock := c', last_frame_timestamp := x, media_clock := c\<rparr>) =
    clock_reading t elapsed (s\<lparr>media_clock := c\<rparr>)"
  "clock_reading t elapsed (s\<lparr>last_frame_timestamp := x, media_clock := c\<rparr>) = clock_reading t elapsed (s\<lparr>media_clock := c\<rparr>)"
  by (simp_all add: clock_reading_def Let_def split: option.split)

lemma monotonic_step:
  assumes "unat (last_frame_timestamp s) < b" "unat r < b" "b < 2 ^ 64"
  shows "last_frame_timestamp s < fst (monotonic_frame_time r s)" "unat (fst (monotonic_frame_time r s)) < Suc b"
proof -
  have "unat (last_frame_timestamp s + 1) = unat (last_frame_timestamp s) + 1"
    using assms by (simp add: unat_word_ariths)
  then show "last_frame_timestamp s < fst (monotonic_frame_time r s)" "unat (fst (monotonic_frame_time r s)) < Suc b"
    using assms by (auto simp: monotonic_frame_time_def Let_def word_less_nat_alt word_le_nat_alt not_le)
qed

lemma frame_times_Cons:
  "frame_times ((c, t, elapsed) # xs) s =
    (let time = fst (monotonic_frame_time (fst (clock_reading t elapsed (s\<lparr>media_clock := c\<rparr>))) s)
     in time # frame_times xs (s\<lparr>media_clock := c, last_frame_timestamp := time\<rparr>))"
  by (simp add: frame_time_now_def case_prod_unfold Let_def monotonic_frame_time_def)

lemma monotonic_advances:
  "last_frame_timestamp s < fst (monotonic_frame_time r s) \<or>
   last_frame_timestamp s = - 1 \<and> fst (monotonic_frame_time r s) = 0"
proof (cases "last_frame_timestamp s = - 1")
  case True
  then show ?thesis by (simp add: monotonic_frame_time_def Let_def)
next
  case False
  then have "unat (last_frame_timestamp s) \<noteq> unat (- 1 :: u64)" by (metis word_unat_eq_iff)
  then have "unat (last_frame_timestamp s) \<noteq> 2 ^ 64 - 1" by (simp add: unsigned_minus_1_eq_mask mask_eq_exp_minus_1)
  moreover have "unat (last_frame_timestamp s) < 2 ^ 64" using unsigned_less [of "last_frame_timestamp s"] by simp
  ultimately have "unat (last_frame_timestamp s + 1) = unat (last_frame_timestamp s) + 1" by (simp add: unat_word_ariths)
  then have "last_frame_timestamp s < last_frame_timestamp s + 1" by (simp add: word_less_nat_alt)
  then show ?thesis by (simp add: monotonic_frame_time_def Let_def not_le)
qed

lemma frame_times_advance:
  "successively (\<lambda>a b. a < b \<or> a = - 1 \<and> b = 0) (last_frame_timestamp s # frame_times xs s)"
proof (induction xs arbitrary: s)
  case Nil
  then show ?case by simp
next
  case (Cons x xs)
  obtain c t elapsed where x: "x = (c, t, elapsed)" by (cases x) auto
  define time where "time = fst (monotonic_frame_time (fst (clock_reading t elapsed (s\<lparr>media_clock := c\<rparr>))) s)"
  from Cons.IH [of "s\<lparr>media_clock := c, last_frame_timestamp := time\<rparr>"]
  have "successively (\<lambda>a b. a < b \<or> a = - 1 \<and> b = 0) (time # frame_times xs (s\<lparr>media_clock := c, last_frame_timestamp := time\<rparr>))"
    by simp
  moreover have "last_frame_timestamp s < time \<or> last_frame_timestamp s = - 1 \<and> time = 0"
    unfolding time_def by (rule monotonic_advances)
  ultimately show ?case by (simp add: x frame_times_Cons time_def Let_def del: frame_times.simps)
qed

lemma frame_times_sorted:
  assumes "\<forall>(c, t, elapsed) \<in> set xs. unat (fst (clock_reading t elapsed (s\<lparr>media_clock := c\<rparr>))) < b"
    and "unat (last_frame_timestamp s) < b" "b + length xs \<le> 2 ^ 64"
  shows "sorted_wrt (<) (last_frame_timestamp s # frame_times xs s)"
  using assms
proof (induction xs arbitrary: s b)
  case Nil
  then show ?case by simp
next
  case (Cons x xs)
  obtain c t elapsed where x: "x = (c, t, elapsed)" by (cases x) auto
  define r where "r = fst (clock_reading t elapsed (s\<lparr>media_clock := c\<rparr>))"
  define time where "time = fst (monotonic_frame_time r (s\<lparr>media_clock := c\<rparr>))"
  define s' where "s' = s\<lparr>media_clock := c, last_frame_timestamp := time\<rparr>"
  have ft: "frame_times (x # xs) s = time # frame_times xs s'"
    by (simp add: x frame_time_now_def case_prod_unfold Let_def r_def time_def s'_def monotonic_frame_time_def)
  have step: "last_frame_timestamp s < time" "unat time < Suc b"
    using monotonic_step [of "s\<lparr>media_clock := c\<rparr>" b r] Cons.prems by (auto simp: x r_def time_def)
  have "sorted_wrt (<) (last_frame_timestamp s' # frame_times xs s')"
  proof (rule Cons.IH)
    show "\<forall>(c, t, elapsed) \<in> set xs. unat (fst (clock_reading t elapsed (s'\<lparr>media_clock := c\<rparr>))) < Suc b"
      using Cons.prems(1) by (force simp: s'_def less_Suc_eq)
    show "unat (last_frame_timestamp s') < Suc b" "Suc b + length xs \<le> 2 ^ 64"
      using step(2) Cons.prems(3) by (simp_all add: s'_def)
  qed
  then have "sorted_wrt (<) (time # frame_times xs s')" by (simp add: s'_def)
  with step(1) show ?case by (auto simp: ft)
qed

text \<open>C36. Whatever the clocks read, and even when the receiver moves the media clock back between frames, each time
  stamp is later than the one before it, but for one case: after \<open>2 ^ 64 - 1\<close> the addition wraps and the next stamp
  is 0. While all readings and the last stamp stay below \<open>2 ^ 64\<close> by at least the number of frames, that case does
  not arise and the stamps are strictly increasing.\<close>

theorem frame_times_increase:
  "successively (\<lambda>a b. a < b \<or> a = - 1 \<and> b = 0) (last_frame_timestamp s # frame_times xs s) \<and>
   (\<forall>b. (\<forall>(c, t, elapsed) \<in> set xs. unat (fst (clock_reading t elapsed (s\<lparr>media_clock := c\<rparr>))) < b) \<and>
      unat (last_frame_timestamp s) < b \<and> b + length xs \<le> 2 ^ 64 \<longrightarrow>
      sorted_wrt (<) (last_frame_timestamp s # frame_times xs s))"
  using frame_times_advance frame_times_sorted by blast

text \<open>Three frames on a clock that stands still, and a frame after the last time stamp there is.\<close>

theorem frame_times_increase_witness:
  "sorted_wrt (<) (0 # frame_times
     [(None, 0, 0), (None, 0, 0), (Some \<lparr>anchor_local = Some 0, anchor_timestamp = 3, timeline_id = 1\<rparr>, 9, 9)] demo_session) \<and>
   hd (frame_times [(None, 0, 0)] (demo_session\<lparr>last_frame_timestamp := - 1\<rparr>)) = 0"
proof
  show "sorted_wrt (<) (0 # frame_times
     [(None, 0, 0), (None, 0, 0), (Some \<lparr>anchor_local = Some 0, anchor_timestamp = 3, timeline_id = 1\<rparr>, 9, 9)] demo_session)"
    using spec [OF conjunct2 [OF frame_times_increase [where s = demo_session and xs = "[(None, 0, 0), (None, 0, 0),
        (Some \<lparr>anchor_local = Some 0, anchor_timestamp = 3, timeline_id = 1\<rparr>, 9, 9)]"]], of "2 ^ 63"]
    by (simp add: demo_session_def clock_reading_def ntp_time_now_def clock_now_def compact_timestamp_def)
  show "hd (frame_times [(None, 0, 0)] (demo_session\<lparr>last_frame_timestamp := - 1\<rparr>)) = 0"
    using conjunct1 [OF frame_times_increase [where s = "demo_session\<lparr>last_frame_timestamp := - 1\<rparr>" and xs = "[(None, 0, 0)]"]]
    by (simp add: frame_times_Cons Let_def not_less [THEN iffD2, OF word_order.extremum] del: frame_times.simps(2))
qed

end
