(* ===== verification/Rtsp_Server.thy ===== *)
theory Rtsp_Server
  imports Hap_Framing Http_Text
begin

text \<open>
  The receiver's side of the control channel (receiver/mod.rs): the stream that starts in plain text and is
  switched to HAP frames (\<open>CtrlStream\<close>), the request parser (\<open>read_line\<close>, \<open>read_request\<close>,
  \<open>request_path\<close>) and the response writer. The bytes still to arrive on the socket are a list; reading
  past its end is the end of the stream. \<open>std::io::Error\<close> keeps its kind, which is what the server looks at,
  and loses its message.
\<close>

subsection \<open>The stream\<close>

datatype io_err = Unexpected_Eof | Io_other

datatype CtrlStream = Plain bytes | Hap HapStream

definition from_tcp :: "bytes \<Rightarrow> CtrlStream" where
  "from_tcp inp = Plain inp"

text \<open>Enabling HAP on a stream that is encrypted already changes nothing.\<close>

fun enable_hap :: "bytes \<Rightarrow> bytes \<Rightarrow> CtrlStream \<Rightarrow> CtrlStream" where
  "enable_hap rk wk (Plain inp) = Hap (HapStream_new inp rk wk)"
| "enable_hap rk wk (Hap h) = Hap h"

definition io_kind :: "fault \<Rightarrow> io_err" where
  "io_kind f = (if f = Err (Transport ''eof'') \<or> f = Err (Transport ''failed to fill whole buffer'')
     then Unexpected_Eof else Io_other)"

text \<open>\<open>Read::read_exact\<close> on the stream.\<close>

fun ctrl_read_exact :: "crypto \<Rightarrow> nat \<Rightarrow> CtrlStream \<Rightarrow> (io_err + bytes) \<times> CtrlStream" where
  "ctrl_read_exact C k (Plain inp) =
    (case read_exact ''eof'' k inp of
       (Inl e, inp) \<Rightarrow> (Inl (io_kind e), Plain inp) | (Inr b, inp) \<Rightarrow> (Inr b, Plain inp))"
| "ctrl_read_exact C k (Hap h) =
    (case read_exact_from (hap_read C) k h of
       (Inl e, h) \<Rightarrow> (Inl (io_kind e), Hap h) | (Inr b, h) \<Rightarrow> (Inr b, Hap h))"

text \<open>\<open>write_all\<close>: the bytes that go out on the socket.\<close>

fun ctrl_write :: "crypto \<Rightarrow> bytes \<Rightarrow> CtrlStream \<Rightarrow> bytes \<times> CtrlStream" where
  "ctrl_write C b (Plain inp) = (b, Plain inp)"
| "ctrl_write C b (Hap h) = (let (out, h) = hap_write C b h in (out, Hap h))"

subsection \<open>Reading consumes input\<close>

text \<open>What is left to read: bytes on the socket, then plaintext in the buffer.\<close>

fun ctrl_left :: "CtrlStream \<Rightarrow> nat \<times> nat" where
  "ctrl_left (Plain inp) = (length inp, 0)"
| "ctrl_left (Hap h) = (length (conn h), length (read_buf h))"

definition ctrl_less :: "(CtrlStream \<times> CtrlStream) set" where
  "ctrl_less = inv_image (less_than <*lex*> less_than) ctrl_left"

lemma wf_ctrl_less [simp]: "wf ctrl_less"
  by (simp add: ctrl_less_def wf_lex_prod)

lemma ctrl_less_iff:
  "(x, y) \<in> ctrl_less \<longleftrightarrow> fst (ctrl_left x) < fst (ctrl_left y) \<or>
     fst (ctrl_left x) = fst (ctrl_left y) \<and> snd (ctrl_left x) < snd (ctrl_left y)"
  unfolding ctrl_less_def inv_image_def by (cases "ctrl_left x"; cases "ctrl_left y") simp

definition ctrl_le :: "CtrlStream \<Rightarrow> CtrlStream \<Rightarrow> bool" where
  "ctrl_le x y \<longleftrightarrow> fst (ctrl_left x) < fst (ctrl_left y) \<or>
     fst (ctrl_left x) = fst (ctrl_left y) \<and> snd (ctrl_left x) \<le> snd (ctrl_left y)"

lemma ctrl_le_refl [simp]: "ctrl_le x x"
  by (simp add: ctrl_le_def)

lemma ctrl_le_trans: "ctrl_le x y \<Longrightarrow> ctrl_le y z \<Longrightarrow> ctrl_le x z"
  by (auto simp: ctrl_le_def)

lemma ctrl_less_le_trans: "(x, y) \<in> ctrl_less \<Longrightarrow> ctrl_le y z \<Longrightarrow> (x, z) \<in> ctrl_less"
  by (auto simp: ctrl_le_def ctrl_less_iff)

lemma ctrl_le_less_trans: "ctrl_le x y \<Longrightarrow> (y, z) \<in> ctrl_less \<Longrightarrow> (x, z) \<in> ctrl_less"
  by (auto simp: ctrl_le_def ctrl_less_iff)

lemma ctrl_less_imp_le: "(x, y) \<in> ctrl_less \<Longrightarrow> ctrl_le x y"
  by (auto simp: ctrl_le_def ctrl_less_iff)

lemma ctrl_left_enable [simp]: "ctrl_left (enable_hap rk wk s) = ctrl_left s"
  by (cases s) (simp_all add: HapStream_new_def)

lemma ctrl_left_write [simp]: "ctrl_left (snd (ctrl_write C b s)) = ctrl_left s"
proof (cases s)
  case (Hap h)
  have "conn (snd (hap_write_loop C b n h)) = conn h \<and> read_buf (snd (hap_write_loop C b n h)) = read_buf h" for n
  proof (induction C b n h rule: hap_write_loop.induct)
    case (1 C plain offset s)
    then show ?case by (subst (1 2) hap_write_loop.simps) (simp add: Let_def case_prod_unfold)
  qed
  then show ?thesis by (simp add: Hap hap_write_def case_prod_unfold Let_def)
qed simp

lemma read_exact_rest: "length (snd (read_exact w k inp)) \<le> length inp"
  by (simp add: read_exact_def)

lemma read_exact_Inr: "read_exact w k inp = (Inr b, inp') \<Longrightarrow> inp = b @ inp' \<and> length b = k"
  by (auto simp: read_exact_def split: if_splits)

lemma hap_read_le: "ctrl_le (Hap (snd (hap_read C d h))) (Hap h)"
proof (cases "d = 0 \<or> read_buf h \<noteq> []")
  case True
  then show ?thesis by (auto simp: hap_read_def hap_take_def ctrl_le_def Let_def)
next
  case False
  show ?thesis
  proof (cases "length (conn h) < 2")
    case True
    with False show ?thesis by (auto simp: hap_read_def read_exact_def ctrl_le_def)
  next
    case long: False
    obtain r2 inp2 where r2: "read_exact ''eof'' (of_le (take 2 (conn h)) + 16) (drop 2 (conn h)) = (r2, inp2)"
      by fastforce
    then have "length inp2 \<le> length (conn h) - 2"
      using read_exact_rest [of "''eof''" "of_le (take 2 (conn h)) + 16" "drop 2 (conn h)"] by simp
    moreover have "read_exact ''eof'' 2 (conn h) = (Inr (take 2 (conn h)), drop 2 (conn h))"
      using long by (simp add: read_exact_def)
    ultimately have "length (conn (snd (hap_read C d h))) \<le> length (conn h) - 2"
      using False r2 by (auto simp: hap_read_def hap_take_def Let_def split: sum.splits option.splits)
    then have "length (conn (snd (hap_read C d h))) < length (conn h)" using long by linarith
    then show ?thesis by (simp add: ctrl_le_def)
  qed
qed

lemma hap_read_less:
  assumes "hap_read C d h = (Inr out, h')" "out \<noteq> []"
  shows "(Hap h', Hap h) \<in> ctrl_less"
proof (cases "read_buf h = []")
  case False
  with assms show ?thesis
    by (auto simp: hap_read_def hap_take_def ctrl_less_iff Let_def split: if_splits)
next
  case True
  have "d \<noteq> 0"
  proof
    assume "d = 0"
    with assms show False by (simp add: hap_read_def)
  qed
  with True assms obtain b inp where r: "read_exact ''eof'' 2 (conn h) = (Inr b, inp)"
    by (cases "read_exact ''eof'' 2 (conn h)") (auto simp: hap_read_def split: sum.splits)
  obtain r2 inp2 where r2: "read_exact ''eof'' (of_le b + 16) inp = (r2, inp2)" by fastforce
  have "length inp2 \<le> length inp" "length inp < length (conn h)"
    using read_exact_rest [of "''eof''" "of_le b + 16" inp] r2 read_exact_Inr [OF r] by auto
  then show ?thesis
    using assms True \<open>d \<noteq> 0\<close> r r2
    by (auto simp: hap_read_def hap_take_def ctrl_less_iff Let_def split: if_splits sum.splits option.splits)
qed

lemma read_exact_from_le: "ctrl_le (Hap (snd (read_exact_from (hap_read C) k h))) (Hap h)"
proof (induction "hap_read C" k h rule: read_exact_from.induct)
  case (1 k s)
  obtain r s' where r: "hap_read C k s = (r, s')" by fastforce
  have le: "ctrl_le (Hap s') (Hap s)" using hap_read_le [of C k s] r by simp
  show ?case
  proof (cases "k = 0")
    case True
    then show ?thesis by (subst read_exact_from.simps) simp
  next
    case False
    show ?thesis
    proof (cases r)
      case (Inl e)
      with False r le show ?thesis by (subst read_exact_from.simps) simp
    next
      case (Inr out)
      show ?thesis
      proof (cases "out = []")
        case True
        with False r le Inr show ?thesis by (subst read_exact_from.simps) simp
      next
        case ne: False
        have "ctrl_le (Hap (snd (read_exact_from (hap_read C) (k - length out) s'))) (Hap s')"
          using 1 [OF False r [symmetric, unfolded Inr] refl ne] by simp
        then have "ctrl_le (Hap (snd (read_exact_from (hap_read C) (k - length out) s'))) (Hap s)"
          using le by (rule ctrl_le_trans)
        with False r Inr ne show ?thesis
          by (subst read_exact_from.simps) (auto split: sum.splits prod.splits)
      qed
    qed
  qed
qed

lemma read_exact_from_less:
  assumes "read_exact_from (hap_read C) k h = (Inr b, h')" "0 < k"
  shows "(Hap h', Hap h) \<in> ctrl_less"
proof -
  obtain r s' where r: "hap_read C k h = (r, s')" by fastforce
  from assms r obtain out where out: "r = Inr out" "out \<noteq> []"
    by (subst (asm) read_exact_from.simps) (auto split: sum.splits if_splits)
  have "snd (read_exact_from (hap_read C) (k - length out) s') = h'"
    using assms r out by (subst (asm) read_exact_from.simps) (auto split: sum.splits prod.splits)
  with read_exact_from_le [of C "k - length out" s'] have "ctrl_le (Hap h') (Hap s')" by simp
  moreover have "(Hap s', Hap h) \<in> ctrl_less" using hap_read_less r out by blast
  ultimately show ?thesis by (rule ctrl_le_less_trans)
qed

lemma ctrl_read_exact_le: "ctrl_le (snd (ctrl_read_exact C k s)) s"
proof (cases s)
  case (Plain inp)
  then show ?thesis by (auto simp: read_exact_def ctrl_le_def)
next
  case (Hap h)
  then show ?thesis
    using read_exact_from_le [of C k h] by (auto split: prod.splits sum.splits)
qed

lemma ctrl_read_exact_less:
  assumes "ctrl_read_exact C k s = (Inr b, s')" "0 < k"
  shows "(s', s) \<in> ctrl_less"
proof (cases s)
  case (Plain inp)
  with assms show ?thesis by (auto simp: read_exact_def ctrl_less_iff split: if_splits)
next
  case (Hap h)
  with assms read_exact_from_less [of C k h] show ?thesis by (auto split: prod.splits sum.splits)
qed

subsection \<open>Requests\<close>

definition HEADER_LIMIT :: nat where "HEADER_LIMIT = 32 * 1024"
definition BODY_LIMIT :: nat where "BODY_LIMIT = push_bit 20 8"

record Request =
  req_method :: string
  req_uri :: string
  req_headers :: "string \<Rightarrow> string option"
  req_body :: bytes

text \<open>\<open>trim_end_matches('\r')\<close>\<close>

definition trim_end_cr :: "string \<Rightarrow> string" where
  "trim_end_cr s = rev (dropWhile (\<lambda>c. c = CHR 0x0D) (rev s))"

definition finish_line :: "bytes \<Rightarrow> string" where
  "finish_line buf = trim_end_cr (from_utf8_lossy buf)"

text \<open>The loop of \<open>read_line\<close>; any read error ends the line, or the connection when nothing was read.\<close>

function read_line_loop :: "crypto \<Rightarrow> bytes \<Rightarrow> CtrlStream \<Rightarrow> (io_err + string) \<times> CtrlStream" where
  "read_line_loop C buf s =
    (case ctrl_read_exact C 1 s of
       (Inl e, s) \<Rightarrow> if buf = [] then (Inl Unexpected_Eof, s) else (Inr (finish_line buf), s)
     | (Inr b, s) \<Rightarrow>
         if b ! 0 = 0x0A then (Inr (finish_line buf), s)
         else let buf = buf @ [b ! 0]
              in if HEADER_LIMIT < length buf then (Inl Io_other, s) else read_line_loop C buf s)"
  by pat_completeness auto
termination
  by (relation "measure (\<lambda>(C, buf, s). Suc HEADER_LIMIT - length buf)") auto

declare read_line_loop.simps [simp del]

definition read_line :: "crypto \<Rightarrow> CtrlStream \<Rightarrow> (io_err + string) \<times> CtrlStream" where
  "read_line C s = read_line_loop C [] s"

lemma read_line_loop_le: "ctrl_le (snd (read_line_loop C buf s)) s"
proof (induction C buf s rule: read_line_loop.induct)
  case (1 C buf s)
  obtain r s' where r: "ctrl_read_exact C 1 s = (r, s')" by fastforce
  have le: "ctrl_le s' s" using ctrl_read_exact_le [of C 1 s] r by simp
  show ?case
  proof (cases r)
    case (Inl e)
    with r le show ?thesis by (subst read_line_loop.simps) simp
  next
    case (Inr b)
    have "ctrl_le (snd (read_line_loop C (buf @ [b ! 0]) s')) s'"
      if "b ! 0 \<noteq> 0x0A" "\<not> HEADER_LIMIT < length (buf @ [b ! 0])"
      using 1 [OF r [symmetric, unfolded Inr] refl that(1) refl that(2)] .
    then have "ctrl_le (snd (read_line_loop C (buf @ [b ! 0]) s')) s"
      if "b ! 0 \<noteq> 0x0A" "\<not> HEADER_LIMIT < length (buf @ [b ! 0])"
      using that le ctrl_le_trans by blast
    with r le Inr show ?thesis by (subst read_line_loop.simps) (simp add: Let_def)
  qed
qed

lemma read_line_loop_less:
  assumes "read_line_loop C buf s = (Inr line, s')" "buf = []"
  shows "(s', s) \<in> ctrl_less"
proof -
  obtain r s1 where r: "ctrl_read_exact C 1 s = (r, s1)" by fastforce
  with assms obtain b where b: "r = Inr b" by (subst (asm) read_line_loop.simps) (auto split: sum.splits)
  then have less: "(s1, s) \<in> ctrl_less" using r ctrl_read_exact_less [of C 1 s b s1] by simp
  have "ctrl_le s' s1"
  proof (cases "b ! 0 = 0x0A")
    case True
    with assms r b show ?thesis by (subst (asm) read_line_loop.simps) simp
  next
    case False
    with assms r b have "snd (read_line_loop C (buf @ [b ! 0]) s1) = s'"
      by (subst (asm) read_line_loop.simps) (auto simp: Let_def split: if_splits)
    then show ?thesis using read_line_loop_le [of C "buf @ [b ! 0]" s1] by simp
  qed
  then show ?thesis using less ctrl_le_less_trans by blast
qed

lemma read_line_less: "read_line C s = (Inr line, s') \<Longrightarrow> (s', s) \<in> ctrl_less"
  by (simp add: read_line_def read_line_loop_less)

text \<open>One header line of \<open>read_request\<close>, added to the headers and the content length so far.\<close>

definition add_header ::
  "string \<Rightarrow> (string \<Rightarrow> string option) \<times> nat \<Rightarrow> io_err + (string \<Rightarrow> string option) \<times> nat" where
  "add_header hline acc =
    (case split_once (CHR '':'') hline of
       None \<Rightarrow> Inr acc
     | Some (name, val) \<Rightarrow>
         let name = to_ascii_lowercase (trim name); val = trim val; (hs, content_length) = acc in
         if name = ''content-length'' then
           (case parse_uint 64 val of
              None \<Rightarrow> Inl Io_other
            | Some n \<Rightarrow> Inr (hs(name \<mapsto> val), n))
         else Inr (hs(name \<mapsto> val), content_length))"

function read_headers ::
  "crypto \<Rightarrow> (string \<Rightarrow> string option) \<times> nat \<Rightarrow> CtrlStream \<Rightarrow>
     (io_err + (string \<Rightarrow> string option) \<times> nat) \<times> CtrlStream" where
  "read_headers C acc s =
    (case read_line C s of
       (Inl e, s) \<Rightarrow> (Inl e, s)
     | (Inr hline, s) \<Rightarrow>
         if hline = [] then (Inr acc, s)
         else (case add_header hline acc of Inl e \<Rightarrow> (Inl e, s) | Inr acc \<Rightarrow> read_headers C acc s))"
  by pat_completeness auto
termination
  by (relation "inv_image ctrl_less (\<lambda>(C, acc, s). s)") (auto dest: read_line_less [OF sym])

declare read_headers.simps [simp del]

definition read_request :: "crypto \<Rightarrow> CtrlStream \<Rightarrow> (io_err + Request) \<times> CtrlStream" where
  "read_request C s =
    (case read_line C s of
       (Inl e, s) \<Rightarrow> (Inl e, s)
     | (Inr line, s) \<Rightarrow>
         if line = [] then (Inl Unexpected_Eof, s)
         else let parts = split_whitespace line in
         if length parts \<noteq> 3 \<or> parts ! 2 \<noteq> ''RTSP/1.0'' then (Inl Io_other, s)
         else (case read_headers C (Map.empty, 0) s of
             (Inl e, s) \<Rightarrow> (Inl e, s)
           | (Inr (hs, content_length), s) \<Rightarrow>
               let req = \<lparr>req_method = parts ! 0, req_uri = parts ! 1, req_headers = hs, req_body = []\<rparr> in
               if 0 < content_length then
                 (case ctrl_read_exact C (min content_length BODY_LIMIT) s of
                    (Inl e, s) \<Rightarrow> (Inl e, s)
                  | (Inr b, s) \<Rightarrow> (Inr (req\<lparr>req_body := b\<rparr>), s))
               else (Inr req, s)))"

lemma read_headers_le: "ctrl_le (snd (read_headers C acc s)) s"
proof (induction C acc s rule: read_headers.induct)
  case (1 C acc s)
  obtain r s' where r: "read_line C s = (r, s')" by fastforce
  have le: "ctrl_le s' s"
    using r read_line_loop_le [of C "[]" s] by (simp add: read_line_def)
  have "ctrl_le (snd (read_headers C acc s)) s'"
  proof (cases r)
    case (Inl e)
    with r show ?thesis by (subst read_headers.simps) simp
  next
    case (Inr hline)
    show ?thesis
    proof (cases "hline = []")
      case True
      with r Inr show ?thesis by (subst read_headers.simps) simp
    next
      case False
      note IH = 1 [OF r [symmetric, unfolded Inr] refl False]
      show ?thesis
      proof (cases "add_header hline acc")
        case (Inr acc')
        with IH have "ctrl_le (snd (read_headers C acc' s')) s'" by blast
        with r \<open>r = Inr hline\<close> False Inr show ?thesis by (subst read_headers.simps) simp
      qed (use r Inr False in \<open>subst read_headers.simps, simp\<close>)
    qed
  qed
  then show ?case using le ctrl_le_trans by blast
qed

lemma read_request_less:
  assumes "read_request C s = (Inr req, s')"
  shows "(s', s) \<in> ctrl_less"
proof -
  from assms obtain line s1 where 1: "read_line C s = (Inr line, s1)"
    by (auto simp: read_request_def split: sum.splits prod.splits)
  obtain r s2 where 2: "read_headers C (Map.empty, 0) s1 = (r, s2)" by fastforce
  have "ctrl_le s' s2"
    using assms 1 2 ctrl_read_exact_le [of C _ s2]
    by (auto simp: read_request_def Let_def split: sum.splits prod.splits if_splits) (metis snd_conv)+
  moreover have "ctrl_le s2 s1" using read_headers_le [of C "(Map.empty, 0)" s1] 2 by simp
  ultimately show ?thesis
    using read_line_less [OF 1] ctrl_le_less_trans ctrl_le_trans by blast
qed

text \<open>\<open>request_path\<close>: the path of an absolute \<open>rtsp://\<close> URI, other URIs as they are.\<close>

definition request_path :: "string \<Rightarrow> string" where
  "request_path uri =
    (case strip_prefix ''rtsp://'' uri of
       None \<Rightarrow> uri
     | Some rest \<Rightarrow> (case split_once (CHR ''/'') rest of None \<Rightarrow> uri | Some (_, path) \<Rightarrow> CHR ''/'' # path))"

subsection \<open>Responses\<close>

record ServerResponse =
  sr_status :: u16
  sr_content_type :: string
  sr_headers :: "string \<Rightarrow> string option"
  sr_body :: bytes

definition resp_ok :: "bytes \<Rightarrow> string \<Rightarrow> ServerResponse" where
  "resp_ok b ct = \<lparr>sr_status = 200, sr_content_type = ct, sr_headers = Map.empty, sr_body = b\<rparr>"

definition resp_empty :: "u16 \<Rightarrow> ServerResponse" where
  "resp_empty st = \<lparr>sr_status = st, sr_content_type = [], sr_headers = Map.empty, sr_body = []\<rparr>"

definition resp_text :: "u16 \<Rightarrow> string \<Rightarrow> ServerResponse" where
  "resp_text st msg = \<lparr>sr_status = st, sr_content_type = ''text/plain'', sr_headers = Map.empty, sr_body = s2b msg\<rparr>"

definition status_text :: "u16 \<Rightarrow> string" where
  "status_text st =
    (if st = 200 then ''OK'' else if st = 400 then ''Bad Request'' else if st = 401 then ''Unauthorized''
     else if st = 404 then ''Not Found'' else if st = 453 then ''Not Enough Bandwidth''
     else if st = 455 then ''Method Not Valid in This State'' else if st = 500 then ''Internal Server Error''
     else ''Error'')"

definition response_head :: "hdr_order \<Rightarrow> Request \<Rightarrow> ServerResponse \<Rightarrow> string" where
  "response_head hdr_list req resp =
    ''RTSP/1.0 '' @ dec (unat (sr_status resp)) @ '' '' @ status_text (sr_status resp) @ crlf @
    (case req_headers req ''cseq'' of None \<Rightarrow> [] | Some cseq \<Rightarrow> header_line ''CSeq'' cseq) @
    header_line ''Server'' ''lumen-receiver/1'' @
    header_lines (hdr_list (sr_headers resp)) @
    (if sr_content_type resp \<noteq> [] \<and> sr_body resp \<noteq> []
     then header_line ''Content-Type'' (sr_content_type resp) else []) @
    header_line ''Content-Length'' (dec (length (sr_body resp))) @ crlf"

text \<open>Head and body are two writes, so on an encrypted stream they are in separate frames.\<close>

definition write_response ::
  "crypto \<Rightarrow> hdr_order \<Rightarrow> Request \<Rightarrow> ServerResponse \<Rightarrow> CtrlStream \<Rightarrow> bytes \<times> CtrlStream" where
  "write_response C hdr_list req resp s =
    (let (out1, s) = ctrl_write C (s2b (response_head hdr_list req resp)) s;
         (out2, s) = ctrl_write C (sr_body resp) s
     in (out1 @ out2, s))"

lemma ctrl_left_write_response [simp]:
  "ctrl_left (snd (write_response C hdr_list req resp s)) = ctrl_left s"
  by (simp add: write_response_def case_prod_unfold Let_def)

end
