(* ===== verification/Control_Link.thy ===== *)
theory Control_Link
  imports Client Rtsp_Server
begin

text \<open>
  The two ends of the control channel put together: what the client writes is what the receiver's parser
  reads, and what the receiver writes is what the client's response readers return, on the plain and on the
  encrypted channel. \<open>ctrl_pending\<close> abstracts the receiver's stream to the plaintext it still has to deliver.
\<close>

subsection \<open>Plaintext waiting on a stream\<close>

text \<open>
  \<open>ctrl_pending C (s0, m) s p tail\<close>: the stream \<open>s\<close> still delivers \<open>p\<close>, then \<open>tail\<close> follows on the socket; its
  keys and its writing side are those of \<open>s0\<close>, and after \<open>p\<close> its read nonce is \<open>m\<close>.
\<close>

fun ctrl_pending :: "crypto \<Rightarrow> CtrlStream \<times> u64 \<Rightarrow> CtrlStream \<Rightarrow> bytes \<Rightarrow> bytes \<Rightarrow> bool" where
  "ctrl_pending C (Plain _, m) (Plain inp) p tail = (inp = p @ tail)"
| "ctrl_pending C (Hap h0, m) (Hap h) p tail = (hap_pending C h m p tail \<and> same_writer h0 h)"
| "ctrl_pending C _ _ p tail = False"

lemma pending_read:
  assumes "aead_ok C" "ctrl_pending C w s p tail" "k \<le> length p"
  shows "\<exists>s'. ctrl_read_exact C k s = (Inr (take k p), s') \<and> ctrl_pending C w s' (drop k p) tail"
proof -
  obtain s0 m where w: "w = (s0, m)" by fastforce
  show ?thesis
  proof (cases s)
    case (Plain inp)
    with assms w show ?thesis by (cases s0) (simp_all add: read_exact_def)
  next
    case (Hap h)
    with assms w obtain h0 where h0: "s0 = Hap h0" "hap_pending C h m p tail" "same_writer h0 h" by (cases s0) simp_all
    from hap_rd.read_exact_pending [OF assms(1) h0(2) assms(3)]
    obtain h' where "read_exact_from (hap_read C) k h = (Inr (take k p), h')" "hap_pending C h' m (drop k p) tail"
      "same_writer h h'" by blast
    with Hap w h0 show ?thesis by (intro exI [of _ "Hap h'"]) (simp add: same_writer_def)
  qed
qed

lemma pending_line_loop:
  assumes "aead_ok C" "10 \<notin> set l" "length buf + length l \<le> HEADER_LIMIT" "ctrl_pending C w s (l @ 10 # rest) tail"
  shows "\<exists>s'. read_line_loop C buf s = (Inr (finish_line (buf @ l)), s') \<and> ctrl_pending C w s' rest tail"
  using assms(2-)
proof (induction l arbitrary: buf s)
  case Nil
  with pending_read [OF assms(1) Nil.prems(3), of 1] obtain s' where
    "ctrl_read_exact C 1 s = (Inr [10], s')" "ctrl_pending C w s' rest tail" by auto
  then show ?case by (subst read_line_loop.simps) simp
next
  case (Cons c l)
  with pending_read [OF assms(1) Cons.prems(3), of 1] obtain s1 where
    1: "ctrl_read_exact C 1 s = (Inr [c], s1)" "ctrl_pending C w s1 (l @ 10 # rest) tail" by auto
  with Cons.IH [of "buf @ [c]" s1] Cons.prems obtain s' where
    "read_line_loop C (buf @ [c]) s1 = (Inr (finish_line (buf @ c # l)), s')" "ctrl_pending C w s' rest tail" by auto
  with 1 Cons.prems show ?case by (subst read_line_loop.simps) auto
qed

lemma of_char_byte_less: "(of_char c :: nat) < 128 \<Longrightarrow> (of_char c :: byte) < 0x80"
  by (simp add: word_less_nat_alt)

lemma of_char_byte_eq: "(of_char c :: byte) = word_of_nat (of_char c)"
  by (simp only: of_nat_of_char)

lemma of_char_byte_neq: "(of_char c :: nat) \<noteq> n \<Longrightarrow> n < 256 \<Longrightarrow> (of_char c :: byte) \<noteq> word_of_nat n"
  by (metis unat_byte_of_nat unat_of_char mod_less)

lemma s2b_crlf: "s2b crlf = [13, 10]"
  by (simp add: s2b_def crlf_def)

lemma char_cr: "char_of (13 :: nat) = CHR 0x0D"
  by code_simp

lemma finish_text_line: "text_line l \<Longrightarrow> finish_line (s2b l @ [13]) = l"
proof -
  assume l: "text_line l"
  then have "list_all (\<lambda>x. x < (0x80 :: byte)) (s2b l @ [13])"
    by (auto simp: text_line_def s2b_def list_all_iff of_char_byte_less)
  then have "from_utf8_lossy (s2b l @ [13]) = l @ [CHR 0x0D]"
    by (simp add: from_utf8_lossy_ascii) (simp add: b2s_def char_cr)
  moreover have "CHR 0x0D \<notin> set (rev l)" using text_line_chars [OF l] by simp
  then have "dropWhile (\<lambda>c. c = CHR 0x0D) (rev l) = rev l" by (cases "rev l") auto
  ultimately show ?thesis by (simp add: finish_line_def trim_end_cr_def)
qed

lemma pending_line:
  assumes "aead_ok C" "text_line l" "length l < HEADER_LIMIT" "ctrl_pending C w s (s2b (l @ crlf) @ rest) tail"
  shows "\<exists>s'. read_line C s = (Inr l, s') \<and> ctrl_pending C w s' rest tail"
proof -
  have "10 \<notin> set (s2b l @ [13])"
    using assms(2) of_char_byte_neq [of _ 10] by (auto simp: text_line_def s2b_def list_all_iff)
  moreover have "ctrl_pending C w s ((s2b l @ [13]) @ 10 # rest) tail" using assms(4) by (simp add: s2b_crlf)
  ultimately show ?thesis
    using pending_line_loop [OF assms(1), of "s2b l @ [13]" "[]" w s rest tail] assms(3) finish_text_line [OF assms(2)]
    by (simp add: read_line_def)
qed

subsection \<open>Header lines at the receiver\<close>

definition add_pair :: "string \<times> string \<Rightarrow> (string \<Rightarrow> string option) \<times> nat \<Rightarrow> (string \<Rightarrow> string option) \<times> nat" where
  "add_pair = (\<lambda>(k, v) (m, n). (m(to_ascii_lowercase k \<mapsto> v),
     if to_ascii_lowercase k = ''content-length'' then the (parse_uint 64 v) else n))"

definition length_ok :: "string \<times> string \<Rightarrow> bool" where
  "length_ok = (\<lambda>(k, v). to_ascii_lowercase k = ''content-length'' \<longrightarrow> parse_uint 64 v \<noteq> None)"

lemma add_header_pair:
  "header_ok limit (k, v) \<Longrightarrow> length_ok (k, v) \<Longrightarrow> add_header (k @ '': '' @ v) acc = Inr (add_pair (k, v) acc)"
  using header_split [of limit k v]
  by (auto simp: add_header_def add_pair_def length_ok_def Let_def split: prod.splits option.splits)

lemma pending_headers:
  assumes "aead_ok C" "\<forall>h \<in> set hs. header_ok HEADER_LIMIT h \<and> length_ok h"
    and "ctrl_pending C w s (s2b (header_lines hs @ crlf) @ rest) tail"
  shows "\<exists>s'. read_headers C acc s = (Inr (fold add_pair hs acc), s') \<and> ctrl_pending C w s' rest tail"
  using assms(2,3)
proof (induction hs arbitrary: acc s)
  case Nil
  with pending_line [OF assms(1), of "[]" w s rest tail] obtain s' where
    "read_line C s = (Inr [], s')" "ctrl_pending C w s' rest tail" by (auto simp: HEADER_LIMIT_def)
  then show ?case by (subst read_headers.simps) simp
next
  case (Cons h hs)
  obtain k v where h: "h = (k, v)" by fastforce
  with Cons.prems have ok: "header_ok HEADER_LIMIT (k, v)" "length_ok (k, v)" by auto
  from Cons.prems(2) have "ctrl_pending C w s (s2b ((k @ '': '' @ v) @ crlf) @ s2b (header_lines hs @ crlf) @ rest) tail"
    by (simp add: h header_line_def s2b_def)
  from pending_line [OF assms(1) header_ok_text [OF ok(1)] header_ok_length [OF ok(1)] this]
  obtain s1 where 1: "read_line C s = (Inr (k @ '': '' @ v), s1)"
    "ctrl_pending C w s1 (s2b (header_lines hs @ crlf) @ rest) tail" by blast
  from Cons.IH [OF _ 1(2), of "add_pair (k, v) acc"] Cons.prems obtain s' where
    2: "read_headers C (add_pair (k, v) acc) s1 = (Inr (fold add_pair hs (add_pair (k, v) acc)), s')"
    "ctrl_pending C w s' rest tail" by auto
  have "k @ '': '' @ v \<noteq> []" by simp
  then have "read_headers C acc s = read_headers C (add_pair (k, v) acc) s1"
    using 1(1) add_header_pair [OF ok] by (subst read_headers.simps) (simp del: append_is_Nil_conv)
  with 2 h show ?case by auto
qed

lemma fold_add_pair: "fst (fold add_pair hs (m, n)) = fold (\<lambda>(k, v) m. m(to_ascii_lowercase k \<mapsto> v)) hs m"
  by (induction hs arbitrary: m n) (auto simp: add_pair_def)

lemma lower_map_add_pair: "fst (fold add_pair hs (Map.empty, n)) = lower_map hs"
  by (simp add: fold_add_pair lower_map_def)

lemma content_length_skip:
  "\<forall>(k, v) \<in> set hs. to_ascii_lowercase k \<noteq> ''content-length'' \<Longrightarrow> snd (fold add_pair hs acc) = snd acc"
  by (induction hs arbitrary: acc) (auto simp: add_pair_def)

subsection \<open>Requests at the receiver\<close>

definition request_line :: "string \<Rightarrow> string \<Rightarrow> string" where
  "request_line meth uri = meth @ '' '' @ uri @ '' RTSP/1.0''"

lemma space_text: "text_char (CHR '' '')"
  by simp

lemma rtsp_token: "token ''RTSP/1.0''"
  by (simp add: token_def visible_def ascii_char_def ascii_white_def)

lemma request_line_words:
  "token meth \<Longrightarrow> token uri \<Longrightarrow> split_whitespace (request_line meth uri) = [meth, uri, ''RTSP/1.0'']"
  using split_white_words(1) [of meth "uri @ '' RTSP/1.0''"] split_white_words(1) [of uri "''RTSP/1.0''"]
    split_white_words(2) [OF rtsp_token]
  by (simp add: request_line_def split_whitespace_def)

lemma request_line_text: "token meth \<Longrightarrow> token uri \<Longrightarrow> text_line (request_line meth uri)"
  using token_text [OF rtsp_token] by (simp add: request_line_def token_text)

text \<open>A request whose body is longer than \<open>BODY_LIMIT\<close> is cut, and its rest stays on the stream.\<close>

lemma pending_request:
  assumes "aead_ok C" "token meth" "token uri" "length meth + length uri + 10 < HEADER_LIMIT"
    and hs: "\<forall>h \<in> set hs. header_ok HEADER_LIMIT h \<and> length_ok h"
      "snd (fold add_pair hs (Map.empty, 0)) = length bdy"
    and "ctrl_pending C w s (s2b (request_line meth uri @ crlf) @ s2b (header_lines hs @ crlf) @ bdy @ rest) tail"
  shows "\<exists>s'. read_request C s = (Inr \<lparr>req_method = meth, req_uri = uri, req_headers = lower_map hs,
      req_body = take BODY_LIMIT bdy\<rparr>, s') \<and> ctrl_pending C w s' (drop BODY_LIMIT bdy @ rest) tail"
proof -
  have "length (request_line meth uri) < HEADER_LIMIT" using assms(4) by (simp add: request_line_def)
  from pending_line [OF assms(1) request_line_text [OF assms(2,3)] this assms(7)] obtain s1 where
    1: "read_line C s = (Inr (request_line meth uri), s1)"
    "ctrl_pending C w s1 (s2b (header_lines hs @ crlf) @ bdy @ rest) tail" by blast
  from pending_headers [OF assms(1) hs(1) 1(2)] obtain s2 where
    2: "read_headers C (Map.empty, 0) s1 = (Inr (fold add_pair hs (Map.empty, 0)), s2)"
    "ctrl_pending C w s2 (bdy @ rest) tail" by blast
  have f: "fold add_pair hs (Map.empty, 0) = (lower_map hs, length bdy)"
    using hs(2) lower_map_add_pair [of hs 0] by (cases "fold add_pair hs (Map.empty, 0)") simp
  have ne: "request_line meth uri \<noteq> []" by (simp add: request_line_def)
  have head: "read_request C s =
    (if 0 < length bdy then
       (case ctrl_read_exact C (min (length bdy) BODY_LIMIT) s2 of
          (Inl e, s) \<Rightarrow> (Inl e, s)
        | (Inr b, s) \<Rightarrow> (Inr \<lparr>req_method = meth, req_uri = uri, req_headers = lower_map hs, req_body = b\<rparr>, s))
     else (Inr \<lparr>req_method = meth, req_uri = uri, req_headers = lower_map hs, req_body = []\<rparr>, s2))"
    using 1(1) 2(1) f ne
    by (simp add: read_request_def request_line_words [OF assms(2,3)] split: sum.split prod.split)
  show ?thesis
  proof (cases "bdy = []")
    case True
    with head 2(2) show ?thesis by simp
  next
    case False
    have "min (length bdy) BODY_LIMIT \<le> length (bdy @ rest)" by (simp add: min_def)
    from pending_read [OF assms(1) 2(2) this] obtain s3 where
      3: "ctrl_read_exact C (min (length bdy) BODY_LIMIT) s2 =
        (Inr (take (min (length bdy) BODY_LIMIT) (bdy @ rest)), s3)"
      "ctrl_pending C w s3 (drop (min (length bdy) BODY_LIMIT) (bdy @ rest)) tail" by blast
    have "take (min (length bdy) BODY_LIMIT) (bdy @ rest) = take BODY_LIMIT bdy"
      "drop (min (length bdy) BODY_LIMIT) (bdy @ rest) = drop BODY_LIMIT bdy @ rest"
      by (auto simp: min_def)
    with 3 head False show ?thesis by auto
  qed
qed

text \<open>The headers of a request of the client, in the order printed.\<close>

definition client_headers ::
  "hdr_order \<Rightarrow> nat \<Rightarrow> string \<Rightarrow> bytes \<Rightarrow> (string \<Rightarrow> string option) \<Rightarrow> (string \<times> string) list" where
  "client_headers hdr_list n content_type bdy extra =
    [(''CSeq'', dec n), (''User-Agent'', ''AirPlay/935.7.1'')] @ hdr_list extra @
    (if content_type \<noteq> [] \<and> bdy \<noteq> [] then [(''Content-Type'', content_type)] else []) @
    [(''Content-Length'', dec (length bdy))]"

lemma client_request_text_eq:
  "client_request_text hdr_list n meth uri content_type bdy extra =
     request_line meth uri @ crlf @ header_lines (client_headers hdr_list n content_type bdy extra) @ crlf"
  by (simp add: client_request_text_def request_line_def client_headers_def)

text \<open>What a caller of the client has to respect for its request to arrive as it was meant.\<close>

definition extra_ok :: "nat \<Rightarrow> (string \<Rightarrow> string option) \<Rightarrow> bool" where
  "extra_ok limit extra \<longleftrightarrow> finite (dom extra) \<and>
     (\<forall>k v. extra k = Some v \<longrightarrow> header_ok limit (k, v) \<and> to_ascii_lowercase k \<noteq> ''content-length'')"

definition request_ok :: "string \<Rightarrow> string \<Rightarrow> string \<Rightarrow> bytes \<Rightarrow> (string \<Rightarrow> string option) \<Rightarrow> bool" where
  "request_ok meth uri content_type bdy extra \<longleftrightarrow>
     token meth \<and> token uri \<and> length meth + length uri + 10 < HEADER_LIMIT \<and>
     text_line content_type \<and> trimmed content_type \<and> length content_type + 14 < HEADER_LIMIT \<and>
     length bdy < 2 ^ 64 \<and> extra_ok HEADER_LIMIT extra"

lemma lower_names:
  "to_ascii_lowercase ''CSeq'' = ''cseq''" "to_ascii_lowercase ''User-Agent'' = ''user-agent''"
  "to_ascii_lowercase ''Content-Type'' = ''content-type''" "to_ascii_lowercase ''Content-Length'' = ''content-length''"
  "to_ascii_lowercase ''Server'' = ''server''"
  by code_simp+

lemma name_tokens:
  "token ''CSeq''" "token ''User-Agent''" "token ''Content-Type''" "token ''Content-Length''" "token ''Server''"
  "CHR '':'' \<notin> set ''CSeq''" "CHR '':'' \<notin> set ''User-Agent''" "CHR '':'' \<notin> set ''Content-Type''"
  "CHR '':'' \<notin> set ''Content-Length''" "CHR '':'' \<notin> set ''Server''"
  by (simp_all add: token_def visible_def ascii_char_def ascii_white_def)

lemma length_dec: "n < 10 ^ Suc k \<Longrightarrow> length (dec n) \<le> Suc k"
proof (induction k arbitrary: n)
  case 0
  then show ?case by (simp add: dec.simps [of n])
next
  case (Suc k)
  then have "length (dec (n div 10)) \<le> Suc k" by (intro Suc.IH) (simp add: less_mult_imp_div_less)
  then show ?case by (simp add: dec.simps [of n])
qed

lemma length_dec_u64: "n < 2 ^ 64 \<Longrightarrow> length (dec n) \<le> 20"
  using length_dec [of n 19] by simp

lemma dec_header_ok:
  assumes "n < 2 ^ 64" "token nm" "CHR '':'' \<notin> set nm" "length nm + 22 < limit"
  shows "header_ok limit (nm, dec n)"
  using assms length_dec_u64 [OF assms(1)]
  by (simp add: header_ok_def token_trimmed)

lemma client_headers_ok:
  assumes "hdr_order_ok hdr_list" "n < 2 ^ 64" "request_ok meth uri content_type bdy extra"
  shows "\<forall>h \<in> set (client_headers hdr_list n content_type bdy extra). header_ok HEADER_LIMIT h \<and> length_ok h"
    and "snd (fold add_pair (client_headers hdr_list n content_type bdy extra) (Map.empty, 0)) = length bdy"
proof -
  from assms(3) have ex: "finite (dom extra)" "extra k = Some v \<Longrightarrow> header_ok HEADER_LIMIT (k, v)"
    "extra k = Some v \<Longrightarrow> to_ascii_lowercase k \<noteq> ''content-length''" for k v
    by (auto simp: request_ok_def extra_ok_def)
  have len: "length bdy < 2 ^ 64" "text_line content_type" "trimmed content_type"
    "length content_type + 14 < HEADER_LIMIT"
    using assms(3) by (auto simp: request_ok_def)
  have lim: "HEADER_LIMIT = 32768" by (simp add: HEADER_LIMIT_def)
  have "header_ok HEADER_LIMIT (''User-Agent'', ''AirPlay/935.7.1'')"
    by (simp add: header_ok_def name_tokens lim trimmed_def visible_def ascii_char_def ascii_white_def)
  moreover have "header_ok HEADER_LIMIT (''CSeq'', dec n)"
    using assms(2) by (intro dec_header_ok) (simp_all only: name_tokens lim, simp_all)
  moreover have "header_ok HEADER_LIMIT (''Content-Length'', dec (length bdy))"
    using len(1) by (intro dec_header_ok) (simp_all only: name_tokens lim, simp_all)
  moreover have "header_ok HEADER_LIMIT (''Content-Type'', content_type)"
    using len by (simp add: header_ok_def name_tokens lim)
  moreover have "length_ok (''Content-Length'', dec (length bdy))"
    using len(1) by (simp add: length_ok_def)
  ultimately show "\<forall>h \<in> set (client_headers hdr_list n content_type bdy extra). header_ok HEADER_LIMIT h \<and> length_ok h"
    using ex(2,3) hdr_order_okD(3) [OF assms(1) ex(1)]
    by (auto simp: client_headers_def length_ok_def lower_names)
  show "snd (fold add_pair (client_headers hdr_list n content_type bdy extra) (Map.empty, 0)) = length bdy"
    using len(1) by (simp add: client_headers_def add_pair_def lower_names split: prod.split)
qed

lemma client_request_pending:
  assumes "aead_ok C" "hdr_order_ok hdr_list" "n < 2 ^ 64" "request_ok meth uri content_type bdy extra"
    and "ctrl_pending C w s (s2b (client_request_text hdr_list n meth uri content_type bdy extra) @ bdy @ rest) tail"
  shows "\<exists>s'. read_request C s = (Inr \<lparr>req_method = meth, req_uri = uri,
      req_headers = lower_map (client_headers hdr_list n content_type bdy extra),
      req_body = take BODY_LIMIT bdy\<rparr>, s') \<and> ctrl_pending C w s' (drop BODY_LIMIT bdy @ rest) tail"
proof (rule pending_request [OF assms(1)])
  show "token meth" "token uri" "length meth + length uri + 10 < HEADER_LIMIT"
    using assms(4) by (simp_all add: request_ok_def)
  show "\<forall>h \<in> set (client_headers hdr_list n content_type bdy extra). header_ok HEADER_LIMIT h \<and> length_ok h"
    "snd (fold add_pair (client_headers hdr_list n content_type bdy extra) (Map.empty, 0)) = length bdy"
    using client_headers_ok [OF assms(2-4)] by auto
  show "ctrl_pending C w s (s2b (request_line meth uri @ crlf) @
      s2b (header_lines (client_headers hdr_list n content_type bdy extra) @ crlf) @ bdy @ rest) tail"
    using assms(5) by (simp add: client_request_text_eq)
qed

text \<open>The headers that the receiver looks at.\<close>

lemma lower_map_snoc: "lower_map (hs @ [(k, v)]) = (lower_map hs)(to_ascii_lowercase k \<mapsto> v)"
  by (simp add: lower_map_def)

lemma fold_lower_notin:
  "\<forall>(k, v) \<in> set hs. to_ascii_lowercase k \<noteq> nm \<Longrightarrow>
     fold (\<lambda>(k, v) m. m(to_ascii_lowercase k \<mapsto> v)) hs m nm = m nm"
  by (induction hs arbitrary: m) auto

lemma fold_lower_in:
  assumes "(k, v) \<in> set hs" "\<forall>(k', v') \<in> set hs. to_ascii_lowercase k' = to_ascii_lowercase k \<longrightarrow> v' = v"
  shows "fold (\<lambda>(k, v) m. m(to_ascii_lowercase k \<mapsto> v)) hs m (to_ascii_lowercase k) = Some v"
  using assms
proof (induction hs arbitrary: m rule: rev_induct)
  case (snoc h hs)
  obtain k' v' where h: "h = (k', v')" by fastforce
  show ?case
  proof (cases "to_ascii_lowercase k' = to_ascii_lowercase k")
    case True
    with snoc.prems h show ?thesis by auto
  next
    case False
    with snoc h show ?thesis by auto
  qed
qed simp

lemma lower_map_cases:
  "(k, v) \<in> set hs \<Longrightarrow> \<forall>(k', v') \<in> set hs. to_ascii_lowercase k' = to_ascii_lowercase k \<longrightarrow> v' = v \<Longrightarrow>
     lower_map hs (to_ascii_lowercase k) = Some v"
  "\<forall>(k, v) \<in> set hs. to_ascii_lowercase k \<noteq> nm \<Longrightarrow> lower_map hs nm = None"
  unfolding lower_map_def by (rule fold_lower_in, assumption+) (simp add: fold_lower_notin)

subsection \<open>The end of a header block\<close>

lemma head_end_neq: "c \<noteq> 13 \<Longrightarrow> take 4 (c # xs) \<noteq> head_end"
  by (simp add: head_end_def)

lemma find_skip: "c \<noteq> 13 \<Longrightarrow> find_subslice (c # xs) head_end = map_option Suc (find_subslice xs head_end)"
  using head_end_neq [of c xs] by (simp add: head_end_def)

lemma find_line:
  "13 \<notin> set b \<Longrightarrow> find_subslice (b @ 13 # 10 # x) head_end =
     (if take 2 x = [13, 10] then Some (length b)
      else map_option (\<lambda>n. length b + 2 + n) (find_subslice x head_end))"
proof (induction b)
  case Nil
  have "take 4 (13 # 10 # x) = head_end \<longleftrightarrow> take 2 x = [13, 10]" by (simp add: head_end_def)
  moreover have "length head_end = 4" by (simp add: head_end_def)
  moreover have "find_subslice (10 # x) head_end = map_option Suc (find_subslice x head_end)"
    by (rule find_skip) simp
  ultimately show ?case by (simp add: option.map_comp comp_def)
next
  case (Cons c b)
  then have "find_subslice ((c # b) @ 13 # 10 # x) head_end =
      map_option Suc (find_subslice (b @ 13 # 10 # x) head_end)"
    using find_skip [of c] by simp
  with Cons show ?case by (simp add: option.map_comp comp_def)
qed

definition line_bytes :: "string list \<Rightarrow> bytes" where
  "line_bytes ls = concat (map (\<lambda>l. s2b l @ [13, 10]) ls)"

definition full_line :: "string \<Rightarrow> bool" where
  "full_line l \<longleftrightarrow> l \<noteq> [] \<and> text_line l"

lemma s2b_no_cr: "text_line l \<Longrightarrow> 13 \<notin> set (s2b l)"
  using of_char_byte_neq [of _ 13] by (auto simp: text_line_def s2b_def list_all_iff)

lemma find_block:
  "ls \<noteq> [] \<Longrightarrow> \<forall>l \<in> set ls. full_line l \<Longrightarrow>
     find_subslice (line_bytes ls @ 13 # 10 # rest) head_end = Some (length (line_bytes ls) - 2)"
proof (induction ls)
  case (Cons l ls)
  then have cr: "13 \<notin> set (s2b l)" by (simp add: full_line_def s2b_no_cr)
  show ?case
  proof (cases ls)
    case Nil
    with find_line [OF cr, of "13 # 10 # rest"] show ?thesis by (simp add: line_bytes_def)
  next
    case (Cons l' ls')
    with Cons.prems have "full_line l'" by simp
    then obtain c t where t: "s2b l' = c # t" "c \<noteq> 13"
      using s2b_no_cr [of l'] by (cases "s2b l'") (auto simp: full_line_def)
    then have "take 2 (line_bytes ls @ 13 # 10 # rest) \<noteq> [13, 10]"
      by (simp add: Cons line_bytes_def)
    with find_line [OF cr, of "line_bytes ls @ 13 # 10 # rest"] Cons.IH Cons.prems Cons t
    show ?thesis by (simp add: line_bytes_def)
  qed
qed simp

lemma find_subslice_first:
  "find_subslice xs needle = Some n \<Longrightarrow>
     take (length needle) (drop n xs) = needle \<and> (\<forall>i < n. take (length needle) (drop i xs) \<noteq> needle)"
proof (induction xs arbitrary: n)
  case Nil
  then show ?case by (auto split: if_splits)
next
  case (Cons x xs)
  show ?case
  proof (cases "take (length needle) (x # xs) = needle")
    case True
    with Cons.prems show ?thesis by simp
  next
    case False
    with Cons.prems obtain m where m: "find_subslice xs needle = Some m" "n = Suc m" by (auto split: if_splits)
    with Cons.IH [OF m(1)] False show ?thesis by (auto simp: less_Suc_eq_0_disj)
  qed
qed

lemma find_subslice_None:
  "find_subslice xs needle = None \<longleftrightarrow> (\<forall>i \<le> length xs. take (length needle) (drop i xs) \<noteq> needle)"
proof (induction xs)
  case (Cons x xs)
  then show ?case by (auto simp: less_Suc_eq_le All_less_Suc2 simp flip: less_Suc_eq_le)
qed auto

text \<open>A block of lines, as both readers of the client find it.\<close>

definition head_block :: "bytes \<Rightarrow> bool" where
  "head_block t \<longleftrightarrow> (\<exists>ls. ls \<noteq> [] \<and> (\<forall>l \<in> set ls. full_line l) \<and> t = line_bytes ls @ [13, 10])"

lemma head_block_length: "head_block t \<Longrightarrow> 4 < length t"
proof -
  assume "head_block t"
  then obtain ls where "ls \<noteq> []" "\<forall>l \<in> set ls. full_line l" "t = line_bytes ls @ [13, 10]"
    by (auto simp: head_block_def)
  then show ?thesis by (cases ls) (auto simp: line_bytes_def full_line_def Suc_le_eq)
qed

lemma head_block_find: "head_block t \<Longrightarrow> find_subslice (t @ rest) head_end = Some (length t - 4)"
  using find_block by (fastforce simp: head_block_def)

lemma head_block_no_end:
  assumes "head_block t" "t = p @ q" "q \<noteq> []" "4 \<le> length p"
  shows "drop (length p - 4) p \<noteq> head_end"
proof
  assume e: "drop (length p - 4) p = head_end"
  have l: "length head_end = 4" by (simp add: head_end_def)
  have "length p - 4 < length t - 4" using assms(2-4) by (cases q) auto
  then have "take 4 (drop (length p - 4) t) \<noteq> head_end"
    using find_subslice_first [OF head_block_find [OF assms(1), of "[]"]] l by simp
  then show False using e assms(2,4) l by simp
qed

lemma read_head_block:
  assumes "head_block t" "length t \<le> 16384"
  shows "read_head [] (t @ rest) = (Inr t, rest)"
proof -
  have "t = p @ q \<Longrightarrow> q \<noteq> [] \<Longrightarrow> read_head p (q @ rest) = (Inr t, rest)" for p q
  proof (induction q arbitrary: p)
    case (Cons c q)
    show ?case
    proof (cases "q = []")
      case True
      with Cons.prems have t: "t = p @ [c]" by simp
      have "drop (length t - 4) t = head_end"
        using find_subslice_first [OF head_block_find [OF assms(1), of "[]"]] head_block_length [OF assms(1)]
        by (simp add: head_end_def)
      with True t head_block_length [OF assms(1)] show ?thesis by (simp add: Let_def)
    next
      case False
      then have "\<not> (4 \<le> length (p @ [c]) \<and> drop (length (p @ [c]) - 4) (p @ [c]) = head_end)"
        using head_block_no_end [OF assms(1), of "p @ [c]" q] Cons.prems by auto
      moreover have "\<not> 16384 < length (p @ [c])" using Cons.prems assms(2) by simp
      ultimately show ?thesis using Cons.IH [of "p @ [c]"] Cons.prems False by (simp add: Let_def)
    qed
  qed simp
  moreover have "t \<noteq> []" using head_block_length [OF assms(1)] by auto
  ultimately show ?thesis by simp
qed

lemma find_in_prefix:
  assumes "head_block t" "t = p @ q" "q \<noteq> []"
  shows "find_subslice p head_end = None"
proof (rule ccontr)
  have l: "length head_end = 4" by (simp add: head_end_def)
  assume "find_subslice p head_end \<noteq> None"
  then obtain n where n: "find_subslice p head_end = Some n" by auto
  then have 1: "take 4 (drop n p) = head_end" using find_subslice_first [OF n] l by simp
  then have "length (take 4 (drop n p)) = 4" by (simp add: l)
  then have len: "n + 4 \<le> length p" by simp
  then have "n < length t - 4" using assms(2,3) by (cases q) auto
  then have "take 4 (drop n t) \<noteq> head_end"
    using find_subslice_first [OF head_block_find [OF assms(1), of "[]"]] l by simp
  with 1 len assms(2) show False by simp
qed

lemma client_frame_one:
  assumes "aead_ok C" "1 \<le> length f" "length f \<le> 1024"
    and "cl_in c = hap_frame C (enc_read_key c) (enc_read_nonce c) f @ rest"
  shows "client_frame C c = (Inr f, c\<lparr>enc_read_nonce := enc_read_nonce c + 1, cl_in := rest\<rparr>)"
  by (simp add: client_frame_def assms(4) read_encrypted_frame_one [OF assms(1-3)])

lemma read_head_frames_block:
  assumes "aead_ok C" "head_block t" "length t \<le> 16384"
  shows "\<forall>f \<in> set cs. 1 \<le> length f \<and> length f \<le> 1024 \<Longrightarrow> d @ concat cs = t \<Longrightarrow>
    cl_in c = hap_frames C (enc_read_key c) (enc_read_nonce c) cs @ rest \<Longrightarrow>
    read_head_frames C d c =
      (Inr t, c\<lparr>enc_read_nonce := enc_read_nonce c + of_nat (length cs), cl_in := rest\<rparr>)"
proof (induction cs arbitrary: d c)
  case Nil
  then show ?case
    using head_block_find [OF assms(2), of "[]"] by (subst read_head_frames.simps) simp
next
  case (Cons f cs)
  define c1 where "c1 = c\<lparr>enc_read_nonce := enc_read_nonce c + 1,
      cl_in := hap_frames C (enc_read_key c) (enc_read_nonce c + 1) cs @ rest\<rparr>"
  have f: "1 \<le> length f" "length f \<le> 1024" using Cons.prems(1) by auto
  then have "f @ concat cs \<noteq> []" by auto
  then have none: "find_subslice d head_end = None"
    using Cons.prems(2) find_in_prefix [OF assms(2), of d "f @ concat cs"] by simp
  have "client_frame C c = (Inr f, c1)"
    using client_frame_one [OF assms(1) f, of c] Cons.prems(3) by (simp add: c1_def)
  moreover have "\<not> 16384 < length (d @ f)" using Cons.prems(2) assms(3) by auto
  moreover have "read_head_frames C (d @ f) c1 =
      (Inr t, c1\<lparr>enc_read_nonce := enc_read_nonce c1 + of_nat (length cs), cl_in := rest\<rparr>)"
    using Cons.IH [of "d @ f" c1] Cons.prems by (simp add: c1_def)
  ultimately have "read_head_frames C d c =
      (Inr t, c1\<lparr>enc_read_nonce := enc_read_nonce c1 + of_nat (length cs), cl_in := rest\<rparr>)"
    using none by (subst read_head_frames.simps) simp
  then show ?case by (simp add: c1_def)
qed

lemma read_body_frames_all:
  assumes "aead_ok C"
  shows "\<forall>f \<in> set cs. 1 \<le> length f \<and> length f \<le> 1024 \<Longrightarrow> length d + length (concat cs) = want \<Longrightarrow>
    cl_in c = hap_frames C (enc_read_key c) (enc_read_nonce c) cs @ rest \<Longrightarrow>
    read_body_frames C want d c =
      (Inr (d @ concat cs), c\<lparr>enc_read_nonce := enc_read_nonce c + of_nat (length cs), cl_in := rest\<rparr>)"
proof (induction cs arbitrary: d c)
  case Nil
  then show ?case by (subst read_body_frames.simps) simp
next
  case (Cons f cs)
  define c1 where "c1 = c\<lparr>enc_read_nonce := enc_read_nonce c + 1,
      cl_in := hap_frames C (enc_read_key c) (enc_read_nonce c + 1) cs @ rest\<rparr>"
  have f: "1 \<le> length f" "length f \<le> 1024" using Cons.prems(1) by auto
  then have more: "length d < want" using Cons.prems(2) by auto
  have "client_frame C c = (Inr f, c1)"
    using client_frame_one [OF assms f, of c] Cons.prems(3) by (simp add: c1_def)
  moreover have "read_body_frames C want (d @ f) c1 =
      (Inr ((d @ f) @ concat cs), c1\<lparr>enc_read_nonce := enc_read_nonce c1 + of_nat (length cs), cl_in := rest\<rparr>)"
    using Cons.IH [of "d @ f" c1] Cons.prems by (simp add: c1_def)
  ultimately have "read_body_frames C want d c =
      (Inr ((d @ f) @ concat cs), c1\<lparr>enc_read_nonce := enc_read_nonce c1 + of_nat (length cs), cl_in := rest\<rparr>)"
    using more by (subst read_body_frames.simps) simp
  then show ?case by (simp add: c1_def)
qed

subsection \<open>Responses at the client\<close>

definition response_headers :: "hdr_order \<Rightarrow> string option \<Rightarrow> ServerResponse \<Rightarrow> (string \<times> string) list" where
  "response_headers hdr_list cs resp =
    (case cs of None \<Rightarrow> [] | Some v \<Rightarrow> [(''CSeq'', v)]) @ [(''Server'', ''lumen-receiver/1'')] @
    hdr_list (sr_headers resp) @
    (if sr_content_type resp \<noteq> [] \<and> sr_body resp \<noteq> [] then [(''Content-Type'', sr_content_type resp)] else []) @
    [(''Content-Length'', dec (length (sr_body resp)))]"

definition response_line :: "u16 \<Rightarrow> string" where
  "response_line st = ''RTSP/1.0 '' @ dec (unat st) @ '' '' @ status_text st"

definition response_lines :: "hdr_order \<Rightarrow> string option \<Rightarrow> ServerResponse \<Rightarrow> string list" where
  "response_lines hdr_list cs resp =
    response_line (sr_status resp) # map (\<lambda>(k, v). k @ '': '' @ v) (response_headers hdr_list cs resp)"

lemma header_lines_map: "header_lines hs = concat (map (\<lambda>l. l @ crlf) (map (\<lambda>(k, v). k @ '': '' @ v) hs))"
  by (induction hs) (auto simp: header_lines_def header_line_def)

lemma s2b_concat: "s2b (concat (map (\<lambda>l. l @ crlf) ls)) = line_bytes ls"
  by (induction ls) (simp_all add: line_bytes_def s2b_crlf)

lemma response_head_eq:
  "response_head hdr_list req resp =
     concat (map (\<lambda>l. l @ crlf) (response_lines hdr_list (req_headers req ''cseq'') resp)) @ crlf"
proof -
  have "response_head hdr_list req resp =
      (response_line (sr_status resp) @ crlf) @
      header_lines (response_headers hdr_list (req_headers req ''cseq'') resp) @ crlf"
    by (simp add: response_head_def response_line_def response_headers_def split: option.split)
  then show ?thesis by (simp add: response_lines_def header_lines_map)
qed

lemma status_text_line: "text_line (status_text st)"
  by (simp add: status_text_def)

lemma response_line_text: "text_line (response_line st)"
  by (simp add: response_line_def status_text_line)

text \<open>What the receiver has to respect for its response to arrive.\<close>

definition response_ok :: "hdr_order \<Rightarrow> string option \<Rightarrow> ServerResponse \<Rightarrow> bool" where
  "response_ok hdr_list cs resp \<longleftrightarrow>
     (\<forall>v. cs = Some v \<longrightarrow> text_line v \<and> trimmed v) \<and>
     text_line (sr_content_type resp) \<and> trimmed (sr_content_type resp) \<and>
     extra_ok 16384 (sr_headers resp) \<and> length (sr_body resp) \<le> MAX_RESPONSE_BODY \<and>
     length (concat (map (\<lambda>l. l @ crlf) (response_lines hdr_list cs resp)) @ crlf) \<le> 16384"

lemma response_lines_full:
  assumes "hdr_order_ok hdr_list" "response_ok hdr_list cs resp"
  shows "\<forall>l \<in> set (response_lines hdr_list cs resp). full_line l"
proof -
  have ex: "finite (dom (sr_headers resp))" "sr_headers resp k = Some v \<Longrightarrow> header_ok 16384 (k, v)" for k v
    using assms(2) by (auto simp: response_ok_def extra_ok_def)
  have "text_line (k @ '': '' @ v)" if "(k, v) \<in> set (hdr_list (sr_headers resp))" for k v
    using that ex hdr_order_okD(3) [OF assms(1) ex(1)] by (intro header_ok_text) auto
  moreover have "text_line ''lumen-receiver/1''" "text_line '': ''" by simp_all
  ultimately show ?thesis
    using assms(2) response_line_text
    by (auto simp: response_lines_def response_headers_def full_line_def response_ok_def response_line_def
        token_text name_tokens split: option.splits)
qed

lemma response_head_block:
  assumes "hdr_order_ok hdr_list" "response_ok hdr_list (req_headers req ''cseq'') resp"
  shows "head_block (s2b (response_head hdr_list req resp))" "length (response_head hdr_list req resp) \<le> 16384"
proof -
  have "s2b (response_head hdr_list req resp) =
      line_bytes (response_lines hdr_list (req_headers req ''cseq'') resp) @ [13, 10]"
    by (simp add: response_head_eq s2b_concat s2b_crlf)
  moreover have "response_lines hdr_list (req_headers req ''cseq'') resp \<noteq> []" by (simp add: response_lines_def)
  ultimately show "head_block (s2b (response_head hdr_list req resp))"
    using response_lines_full [OF assms] unfolding head_block_def by blast
  show "length (response_head hdr_list req resp) \<le> 16384"
    using assms(2) by (simp add: response_ok_def response_head_eq del: length_append)
qed

lemma split_lines:
  "\<forall>l \<in> set ls. text_line l \<Longrightarrow>
     split_crlf [] (concat (map (\<lambda>l. l @ crlf) ls) @ crlf) = ls @ [[], []]"
proof (induction ls)
  case Nil
  then show ?case using split_crlf_line [of "[]" "[]" "[]"] by (simp add: split_crlf_Nil)
next
  case (Cons l ls)
  then show ?case
    using split_crlf_line [OF text_line_chars(1), of l "[]" "concat (map (\<lambda>l. l @ crlf) ls) @ crlf"] by simp
qed

lemma parse_header_pair:
  assumes "header_ok limit (k, v)" "length_ok (k, v)"
  shows "parse_header_line (k @ '': '' @ v) acc = prod.swap (add_pair (k, v) (prod.swap acc))"
proof -
  have "to_ascii_lowercase k \<noteq> []" using assms(1) by (auto simp: header_ok_def token_def to_ascii_lowercase_def)
  then show ?thesis
    using header_split [OF assms(1)] assms(2)
    by (cases acc) (auto simp: parse_header_line_def add_pair_def length_ok_def Let_def split: option.split)
qed

lemma parse_header_empty: "parse_header_line [] acc = acc"
  by (simp add: parse_header_line_def)

lemma fold_parse_header:
  "\<forall>h \<in> set hs. header_ok limit h \<and> length_ok h \<Longrightarrow>
     fold parse_header_line (map (\<lambda>(k, v). k @ '': '' @ v) hs @ [[], []]) acc =
     prod.swap (fold add_pair hs (prod.swap acc))"
proof (induction hs arbitrary: acc)
  case Nil
  then show ?case by (simp add: parse_header_empty)
next
  case (Cons h hs)
  obtain k v where h: "h = (k, v)" by fastforce
  with Cons show ?case using parse_header_pair [of limit k v acc] by simp
qed

lemma parse_status_response: "status_line (response_line st) = st"
proof -
  have "unat st < 2 ^ 16" using unsigned_less [of st] by simp
  moreover have "split_whitespace (dec (unat st) @ '' '' @ status_text st) =
      dec (unat st) # split_white [] (status_text st)"
    using split_white_words(1) [OF dec_token, of "unat st" "status_text st"] by (simp add: split_whitespace_def)
  ultimately have "parse_status (dec (unat st) @ '' '' @ status_text st) = st"
    by (simp add: parse_status_def)
  then show ?thesis by (simp add: status_line_def response_line_def strip_prefix_def)
qed

lemma response_headers_ok:
  assumes "hdr_order_ok hdr_list" "response_ok hdr_list cs resp"
  shows "\<forall>h \<in> set (response_headers hdr_list cs resp). header_ok 16384 h \<and> length_ok h"
    and "snd (fold add_pair (response_headers hdr_list cs resp) (Map.empty, 0)) = length (sr_body resp)"
proof -
  have ex: "finite (dom (sr_headers resp))" "sr_headers resp k = Some v \<Longrightarrow> header_ok 16384 (k, v)"
    "sr_headers resp k = Some v \<Longrightarrow> to_ascii_lowercase k \<noteq> ''content-length''" for k v
    using assms(2) by (auto simp: response_ok_def extra_ok_def)
  have body: "length (sr_body resp) < 2 ^ 64"
    using assms(2) by (simp add: response_ok_def MAX_RESPONSE_BODY_def)
  have fits: "length l \<le> 16382" if "l \<in> set (response_lines hdr_list cs resp)" for l
  proof -
    have "length (l @ crlf) \<le> length (concat (map (\<lambda>l. l @ crlf) (response_lines hdr_list cs resp)))"
      using that by (induction "response_lines hdr_list cs resp") (auto simp: length_concat intro: member_le_sum_list)
    then show ?thesis using assms(2) by (simp add: response_ok_def crlf_def)
  qed
  have "header_ok 16384 (''CSeq'', v)" if "cs = Some v" for v
    using that assms(2) fits [of "''CSeq: '' @ v"]
    by (simp add: header_ok_def name_tokens response_ok_def response_lines_def response_headers_def)
  moreover have "header_ok 16384 (''Server'', ''lumen-receiver/1'')"
    by (simp add: header_ok_def name_tokens trimmed_def visible_def ascii_char_def ascii_white_def)
  moreover have "header_ok 16384 (''Content-Length'', dec (length (sr_body resp)))"
    using body by (intro dec_header_ok) (simp_all only: name_tokens, simp_all)
  moreover have "header_ok 16384 (''Content-Type'', sr_content_type resp)"
    if "sr_content_type resp \<noteq> []" "sr_body resp \<noteq> []"
    using that assms(2) fits [of "''Content-Type: '' @ sr_content_type resp"]
    by (simp add: header_ok_def name_tokens response_ok_def response_lines_def response_headers_def)
  ultimately show "\<forall>h \<in> set (response_headers hdr_list cs resp). header_ok 16384 h \<and> length_ok h"
    using ex(2,3) hdr_order_okD(3) [OF assms(1) ex(1)] body
    by (auto simp: response_headers_def length_ok_def lower_names split: option.splits)
  show "snd (fold add_pair (response_headers hdr_list cs resp) (Map.empty, 0)) = length (sr_body resp)"
    using body by (simp add: response_headers_def add_pair_def lower_names split: prod.split)
qed

lemma parse_response_head:
  assumes "hdr_order_ok hdr_list" "response_ok hdr_list (req_headers req ''cseq'') resp"
  shows "parse_http_header (from_utf8_lossy (s2b (response_head hdr_list req resp))) =
    (sr_status resp, length (sr_body resp), lower_map (response_headers hdr_list (req_headers req ''cseq'') resp))"
proof -
  define ls where "ls = response_lines hdr_list (req_headers req ''cseq'') resp"
  define hs where "hs = response_headers hdr_list (req_headers req ''cseq'') resp"
  have full: "\<forall>l \<in> set ls. full_line l" using response_lines_full [OF assms] by (simp add: ls_def)
  have head: "response_head hdr_list req resp = concat (map (\<lambda>l. l @ crlf) ls) @ crlf"
    by (simp add: response_head_eq ls_def)
  have cr: "list_all (\<lambda>c. (of_char c :: nat) < 128) crlf" by (simp add: crlf_def)
  have "list_all (\<lambda>c. (of_char c :: nat) < 128) (response_head hdr_list req resp)"
    using full cr unfolding head by (auto simp: list_all_iff full_line_def text_line_def)
  then have "list_all (\<lambda>x. x < (0x80 :: byte)) (s2b (response_head hdr_list req resp))"
    by (simp add: s2b_def list_all_iff of_char_byte_less)
  then have "from_utf8_lossy (s2b (response_head hdr_list req resp)) = concat (map (\<lambda>l. l @ crlf) ls) @ crlf"
    by (simp add: from_utf8_lossy_ascii flip: head)
  moreover have "split_crlf [] (concat (map (\<lambda>l. l @ crlf) ls) @ crlf) = ls @ [[], []]"
    using full by (intro split_lines) (auto simp: full_line_def)
  moreover have "ls = response_line (sr_status resp) # map (\<lambda>(k, v). k @ '': '' @ v) hs"
    by (simp add: ls_def hs_def response_lines_def)
  moreover have "fold add_pair hs (Map.empty, 0) = (lower_map hs, length (sr_body resp))"
    using response_headers_ok(2) [OF assms] lower_map_add_pair [of hs 0]
    by (cases "fold add_pair hs (Map.empty, 0)") (simp add: hs_def)
  ultimately show ?thesis
    using fold_parse_header [of hs 16384 "(0, Map.empty)"] response_headers_ok(1) [OF assms]
    by (simp add: parse_http_header_def parse_status_response flip: hs_def)
qed

lemma plain_response:
  assumes "hdr_order_ok hdr_list" "response_ok hdr_list (req_headers req ''cseq'') resp" "\<not> encrypted c"
    and "cl_in c = fst (write_response C hdr_list req resp (Plain inp)) @ tail"
  shows "client_read_response C c =
    (Inr \<lparr>status = sr_status resp, headers = lower_map (response_headers hdr_list (req_headers req ''cseq'') resp),
       body = sr_body resp\<rparr>, c\<lparr>cl_in := tail\<rparr>)"
proof -
  have "read_head [] (cl_in c) = (Inr (s2b (response_head hdr_list req resp)), sr_body resp @ tail)"
    using read_head_block [OF response_head_block(1) [OF assms(1,2)], of "sr_body resp @ tail"]
      response_head_block(2) [OF assms(1,2)] assms(4) by (simp add: write_response_def)
  moreover have "length (sr_body resp) \<le> MAX_RESPONSE_BODY" using assms(2) by (simp add: response_ok_def)
  ultimately show ?thesis
    using assms(3) parse_response_head [OF assms(1,2)]
    by (simp add: client_read_response_def read_plaintext_response_def)
qed

lemma encrypted_response:
  assumes "aead_ok C" "hdr_order_ok hdr_list" "response_ok hdr_list (req_headers req ''cseq'') resp" "encrypted c"
    and keys: "enc_read_key c = write_key h" "enc_read_nonce c = write_nonce h"
    and out: "write_response C hdr_list req resp (Hap h) = (out, Hap h')" "cl_in c = out @ tail"
  shows "client_read_response C c =
    (Inr \<lparr>status = sr_status resp, headers = lower_map (response_headers hdr_list (req_headers req ''cseq'') resp),
       body = sr_body resp\<rparr>, c\<lparr>cl_in := tail, enc_read_nonce := write_nonce h'\<rparr>)"
proof -
  define t where "t = s2b (response_head hdr_list req resp)"
  define b where "b = sr_body resp"
  define n1 where "n1 = write_nonce h + of_nat (length (chunks_of t))"
  define n2 where "n2 = n1 + of_nat (length (chunks_of b))"
  define key where "key = write_key h"
  have w: "out = hap_frames C key (write_nonce h) (chunks_of t) @ hap_frames C key n1 (chunks_of b)"
    "write_nonce h' = n2"
    using out(1) by (auto simp: write_response_def hap_write_frames t_def b_def n1_def n2_def key_def)
  have block: "head_block t" "length t \<le> 16384"
    using response_head_block [OF assms(2,3)] by (simp_all add: t_def)
  define c1 where "c1 = c\<lparr>enc_read_nonce := n1, cl_in := hap_frames C key n1 (chunks_of b) @ tail\<rparr>"
  have "read_head_frames C [] c = (Inr t, c1)"
    using read_head_frames_block [OF assms(1) block, of "chunks_of t" "[]" c "hap_frames C key n1 (chunks_of b) @ tail"]
      chunks_of_sizes [of _ t] w(1) keys out(2) by (simp add: c1_def n1_def key_def)
  moreover have "read_body_frames C (length t + length b) t c1 = (Inr (t @ b), c1\<lparr>enc_read_nonce := n2, cl_in := tail\<rparr>)"
    using read_body_frames_all [OF assms(1), of "chunks_of b" t "length t + length b" c1 tail] chunks_of_sizes [of _ b] keys
    by (simp add: c1_def n2_def key_def)
  moreover have "find_subslice t head_end = Some (length t - 4)"
    using head_block_find [OF block(1), of "[]"] by simp
  moreover have "length t - 4 + 4 = length t" using head_block_length [OF block(1)] by simp
  moreover have "parse_http_header (from_utf8_lossy t) =
      (sr_status resp, length b, lower_map (response_headers hdr_list (req_headers req ''cseq'') resp))"
    using parse_response_head [OF assms(2,3)] by (simp add: t_def b_def)
  moreover have "\<not> MAX_RESPONSE_BODY < length b" using assms(3) by (simp add: response_ok_def b_def)
  ultimately show ?thesis
    using assms(4) by (simp add: client_read_response_def read_encrypted_response_def b_def w(2)) (simp add: c1_def)
qed

subsection \<open>One exchange\<close>

text \<open>Both ends in step with nothing on the way, and the delivery of bytes to the receiver.\<close>

fun linked :: "Client \<Rightarrow> CtrlStream \<Rightarrow> bool" where
  "linked c (Plain inp) \<longleftrightarrow> \<not> encrypted c \<and> inp = []"
| "linked c (Hap h) \<longleftrightarrow> encrypted c \<and> conn h = [] \<and> read_buf h = [] \<and>
     enc_write_key c = read_key h \<and> enc_read_key c = write_key h \<and>
     enc_write_nonce c = read_nonce h \<and> enc_read_nonce c = write_nonce h"

fun deliver :: "bytes \<Rightarrow> CtrlStream \<Rightarrow> CtrlStream" where
  "deliver b (Plain inp) = Plain (inp @ b)"
| "deliver b (Hap h) = Hap (h\<lparr>conn := conn h @ b\<rparr>)"

lemma hap_pending_empty:
  "hap_pending C h m [] [] \<Longrightarrow> conn h = [] \<and> read_buf h = [] \<and> read_nonce h = m"
proof -
  assume "hap_pending C h m [] []"
  then obtain cs where cs: "\<forall>c \<in> set cs. 1 \<le> length c \<and> length c \<le> 1024"
    "conn h = hap_frames C (read_key h) (read_nonce h) cs @ []" "[] = read_buf h @ concat cs"
    "m = read_nonce h + of_nat (length cs)" unfolding hap_pending_def by blast
  then have "cs = []" by (cases cs) auto
  with cs show ?thesis by simp
qed

lemma send_request_plain:
  "\<not> encrypted c \<Longrightarrow> send_request C hdr_list meth uri ct bdy extra c =
     c\<lparr>cseq := cseq c + 1, cl_out := cl_out c @
       s2b (client_request_text hdr_list (unat (cseq c + 1)) meth uri ct bdy extra) @ bdy\<rparr>"
  by (simp add: send_request_def)

lemma send_request_hap:
  assumes "encrypted c"
    and "p = s2b (client_request_text hdr_list (unat (cseq c + 1)) meth uri ct bdy extra) @ bdy"
  shows "send_request C hdr_list meth uri ct bdy extra c =
     c\<lparr>cseq := cseq c + 1, enc_write_nonce := enc_write_nonce c + of_nat (length (chunks_of p)),
       cl_out := cl_out c @ hap_frames C (enc_write_key c) (enc_write_nonce c) (chunks_of p)\<rparr>"
  using assms by (simp add: send_request_def client_hap_encrypt_def hap_encrypt_frames Let_def)

definition arrived :: "hdr_order \<Rightarrow> Client \<Rightarrow> string \<Rightarrow> string \<Rightarrow> string \<Rightarrow> bytes \<Rightarrow> (string \<Rightarrow> string option) \<Rightarrow> Request" where
  "arrived hdr_list c meth uri ct bdy extra =
    \<lparr>req_method = meth, req_uri = uri,
     req_headers = lower_map (client_headers hdr_list (unat (cseq c + 1)) ct bdy extra), req_body = bdy\<rparr>"

definition returned :: "hdr_order \<Rightarrow> Request \<Rightarrow> ServerResponse \<Rightarrow> Response" where
  "returned hdr_list req resp =
    \<lparr>status = sr_status resp, headers = lower_map (response_headers hdr_list (req_headers req ''cseq'') resp),
     body = sr_body resp\<rparr>"

lemma unat_u64: "unat (x :: u64) < 2 ^ 64"
  using unsigned_less [of x] by simp

lemma exchange_plain:
  assumes "aead_ok C" "hdr_order_ok hdr_list" "linked c (Plain inp)" "request_ok meth uri ct bdy extra"
    and "length bdy \<le> BODY_LIMIT"
    and wire: "cl_out (send_request C hdr_list meth uri ct bdy extra c) = cl_out c @ wire"
    and req: "req = arrived hdr_list c meth uri ct bdy extra"
  shows "read_request C (deliver wire (Plain inp)) = (Inr req, Plain [])
    \<and> (response_ok hdr_list (req_headers req ''cseq'') resp \<longrightarrow>
         write_response C hdr_list req resp (Plain []) = (out, s2) \<longrightarrow>
         (\<exists>c2. client_read_response C ((send_request C hdr_list meth uri ct bdy extra c)\<lparr>cl_in := out\<rparr>) =
            (Inr (returned hdr_list req resp), c2) \<and> linked c2 s2))"
proof -
  have c: "\<not> encrypted c" "inp = []" using assms(3) by simp_all
  define p where "p = s2b (client_request_text hdr_list (unat (cseq c + 1)) meth uri ct bdy extra) @ bdy"
  have w: "wire = p" using wire c by (simp add: send_request_plain p_def)
  have "ctrl_pending C (Plain [], 0) (Plain p)
      (s2b (client_request_text hdr_list (unat (cseq c + 1)) meth uri ct bdy extra) @ bdy @ []) []"
    by (simp add: p_def)
  from client_request_pending [OF assms(1,2) unat_u64 assms(4) this] assms(5)
  obtain s' where "read_request C (Plain p) = (Inr req, s')" "ctrl_pending C (Plain [], 0) s' [] []"
    by (auto simp: req arrived_def)
  then have 1: "read_request C (deliver wire (Plain inp)) = (Inr req, Plain [])"
    using w c by (cases s') simp_all
  have 2: "\<exists>c2. client_read_response C ((send_request C hdr_list meth uri ct bdy extra c)\<lparr>cl_in := out\<rparr>) =
      (Inr (returned hdr_list req resp), c2) \<and> linked c2 s2"
    if r: "response_ok hdr_list (req_headers req ''cseq'') resp"
      and o: "write_response C hdr_list req resp (Plain []) = (out, s2)"
  proof -
    define c1 where "c1 = (send_request C hdr_list meth uri ct bdy extra c)\<lparr>cl_in := out\<rparr>"
    have "\<not> encrypted c1" using c by (simp add: c1_def send_request_plain)
    moreover have "cl_in c1 = fst (write_response C hdr_list req resp (Plain [])) @ []" using o by (simp add: c1_def)
    ultimately have "client_read_response C c1 = (Inr (returned hdr_list req resp), c1\<lparr>cl_in := []\<rparr>)"
      using plain_response [OF assms(2) r] by (simp add: returned_def)
    moreover have "linked (c1\<lparr>cl_in := []\<rparr>) s2"
      using o \<open>\<not> encrypted c1\<close> by (auto simp: write_response_def)
    ultimately show ?thesis by (simp add: c1_def)
  qed
  from 1 2 show ?thesis by blast
qed

lemma exchange_hap:
  assumes "aead_ok C" "hdr_order_ok hdr_list" "linked c (Hap h)" "request_ok meth uri ct bdy extra"
    and "length bdy \<le> BODY_LIMIT"
    and wire: "cl_out (send_request C hdr_list meth uri ct bdy extra c) = cl_out c @ wire"
    and req: "req = arrived hdr_list c meth uri ct bdy extra"
  shows "\<exists>h1. read_request C (deliver wire (Hap h)) = (Inr req, Hap h1)
    \<and> (\<forall>resp out s2. response_ok hdr_list (req_headers req ''cseq'') resp \<longrightarrow>
         write_response C hdr_list req resp (Hap h1) = (out, s2) \<longrightarrow>
         (\<exists>c2. client_read_response C ((send_request C hdr_list meth uri ct bdy extra c)\<lparr>cl_in := out\<rparr>) =
            (Inr (returned hdr_list req resp), c2) \<and> linked c2 s2))"
proof -
  have c: "encrypted c" "conn h = []" "read_buf h = []" "enc_write_key c = read_key h" "enc_read_key c = write_key h"
    "enc_write_nonce c = read_nonce h" "enc_read_nonce c = write_nonce h"
    using assms(3) by simp_all
  define p where "p = s2b (client_request_text hdr_list (unat (cseq c + 1)) meth uri ct bdy extra) @ bdy"
  define m where "m = read_nonce h + of_nat (length (chunks_of p))"
  define c1 where "c1 = send_request C hdr_list meth uri ct bdy extra c"
  have s: "c1 = c\<lparr>cseq := cseq c + 1, enc_write_nonce := m,
       cl_out := cl_out c @ hap_frames C (read_key h) (read_nonce h) (chunks_of p)\<rparr>"
    unfolding c1_def using send_request_hap [OF c(1) p_def] c by (simp add: m_def)
  have w: "wire = hap_frames C (read_key h) (read_nonce h) (chunks_of p)"
    using wire s by (simp add: c1_def)
  have "hap_pending C (h\<lparr>conn := wire\<rparr>) m p []"
    unfolding hap_pending_def using chunks_of_sizes [of _ p] c w
    by (intro exI [of _ "chunks_of p"]) (simp add: m_def)
  then have "ctrl_pending C (Hap h, m) (Hap (h\<lparr>conn := wire\<rparr>))
      (s2b (client_request_text hdr_list (unat (cseq c + 1)) meth uri ct bdy extra) @ bdy @ []) []"
    by (simp add: p_def same_writer_def)
  from client_request_pending [OF assms(1,2) unat_u64 assms(4) this] assms(5)
  obtain s' where r: "read_request C (Hap (h\<lparr>conn := wire\<rparr>)) = (Inr req, s')" "ctrl_pending C (Hap h, m) s' [] []"
    by (auto simp: req arrived_def)
  then obtain h1 where h1: "s' = Hap h1" "hap_pending C h1 m [] []" "same_writer h h1" by (cases s') simp_all
  have e: "conn h1 = []" "read_buf h1 = []" "read_nonce h1 = m" using hap_pending_empty [OF h1(2)] by auto
  have 1: "read_request C (deliver wire (Hap h)) = (Inr req, Hap h1)" using r(1) h1(1) c(2) by simp
  have 2: "\<exists>c2. client_read_response C (c1\<lparr>cl_in := out\<rparr>) = (Inr (returned hdr_list req resp), c2) \<and> linked c2 s2"
    if ok: "response_ok hdr_list (req_headers req ''cseq'') resp"
      and o: "write_response C hdr_list req resp (Hap h1) = (out, s2)" for resp out s2
  proof -
    define h2 where "h2 = h1\<lparr>write_nonce := write_nonce h1 +
      of_nat (length (chunks_of (s2b (response_head hdr_list req resp)))) + of_nat (length (chunks_of (sr_body resp)))\<rparr>"
    have s2: "s2 = Hap h2"
      using o by (auto simp: write_response_def hap_write_frames h2_def)
    have "client_read_response C (c1\<lparr>cl_in := out\<rparr>) =
        (Inr (returned hdr_list req resp), c1\<lparr>cl_in := [], enc_read_nonce := write_nonce h2\<rparr>)"
      using encrypted_response [OF assms(1,2) ok, of "c1\<lparr>cl_in := out\<rparr>" h1 out h2 "[]"] o s2 c h1(3)
      by (simp add: s same_writer_def returned_def)
    moreover have "linked (c1\<lparr>cl_in := [], enc_read_nonce := write_nonce h2\<rparr>) s2"
      using c e h1(3) by (simp add: s2 s h2_def same_writer_def)
    ultimately show ?thesis by blast
  qed
  from 1 2 show ?thesis unfolding c1_def by blast
qed

lemma exchange_step:
  assumes "aead_ok C" "hdr_order_ok hdr_list" "linked c s" "request_ok meth uri ct bdy extra"
    and "length bdy \<le> BODY_LIMIT"
    and "cl_out (send_request C hdr_list meth uri ct bdy extra c) = cl_out c @ wire"
    and "req = arrived hdr_list c meth uri ct bdy extra"
  shows "\<exists>s1. read_request C (deliver wire s) = (Inr req, s1)
    \<and> (\<forall>resp out s2. response_ok hdr_list (req_headers req ''cseq'') resp \<longrightarrow>
         write_response C hdr_list req resp s1 = (out, s2) \<longrightarrow>
         (\<exists>c2. client_read_response C ((send_request C hdr_list meth uri ct bdy extra c)\<lparr>cl_in := out\<rparr>) =
            (Inr (returned hdr_list req resp), c2) \<and> linked c2 s2))"
proof (cases s)
  case (Plain inp)
  with exchange_plain [OF assms(1,2) _ assms(4-7)] assms(3) show ?thesis by blast
next
  case (Hap h)
  with exchange_hap [OF assms(1,2) _ assms(4-7)] assms(3) show ?thesis by blast
qed

text \<open>C24. One exchange on the control channel, plain or encrypted: when the two ends are in step, the receiver
  parses exactly the method, URI, headers and body that the client was asked to send, whatever they are within
  the stated limits; the client parses exactly the status, headers and body of whatever response the receiver
  writes; and both ends are in step again, keys and nonces included, with no byte left over.\<close>

theorem control_exchange:
  assumes "aead_ok C" "hdr_order_ok hdr_list" "linked c s" "request_ok meth uri ct bdy extra"
    and "length bdy \<le> BODY_LIMIT"
    and "cl_out (send_request C hdr_list meth uri ct bdy extra c) = cl_out c @ wire"
    and "req = arrived hdr_list c meth uri ct bdy extra"
  shows "\<exists>s1. read_request C (deliver wire s) = (Inr req, s1)
    \<and> (\<forall>resp out s2. response_ok hdr_list (req_headers req ''cseq'') resp \<longrightarrow>
         write_response C hdr_list req resp s1 = (out, s2) \<longrightarrow>
         (\<exists>c2. client_read_response C ((send_request C hdr_list meth uri ct bdy extra c)\<lparr>cl_in := out\<rparr>) =
            (Inr (returned hdr_list req resp), c2) \<and> linked c2 s2))"
  using assms by (rule exchange_step)

definition demo_client :: Client where
  "demo_client = enable_hap_encryption [1] [2] (connected ''a'' ''b'' [] ''host'' 7000)"

lemma demo_request_ok: "length bdy < 2 ^ 64 \<Longrightarrow> request_ok ''POST'' ''/feedback'' ''text/plain'' bdy Map.empty"
  by (simp add: request_ok_def extra_ok_def token_def trimmed_def visible_def ascii_char_def ascii_white_def
      HEADER_LIMIT_def)

theorem control_exchange_witness:
  "\<exists>s1. read_request toy_crypto (deliver
       (cl_out (send_request toy_crypto key_order ''POST'' ''/feedback'' ''text/plain'' [7, 8] Map.empty demo_client))
       (Hap (HapStream_new [] [1] [2]))) =
     (Inr (arrived key_order demo_client ''POST'' ''/feedback'' ''text/plain'' [7, 8] Map.empty), s1)"
  using control_exchange [of toy_crypto key_order demo_client "Hap (HapStream_new [] [1] [2])" "''POST''" "''/feedback''"
      "''text/plain''" "[7, 8]" Map.empty
      "cl_out (send_request toy_crypto key_order ''POST'' ''/feedback'' ''text/plain'' [7, 8] Map.empty demo_client)"]
    demo_request_ok [of "[7, 8]"]
  by (auto simp: demo_client_def enable_hap_encryption_def connected_def HapStream_new_def BODY_LIMIT_def)

text \<open>C40. A body above the limit of 8 MiB is not rejected: the receiver takes its first 8 MiB and parses the
  rest of the body as the next request of the connection, so whoever chooses the tail of a body chooses a
  request.\<close>

theorem oversized_body_is_request:
  assumes "aead_ok C" "hdr_order_ok hdr_list"
    and "request_ok meth uri ct (pad @ inner) extra" "length pad = BODY_LIMIT"
    and "request_ok meth2 uri2 ct2 bdy2 extra2" "length bdy2 \<le> BODY_LIMIT"
    and "inner = s2b (client_request_text hdr_list n2 meth2 uri2 ct2 bdy2 extra2) @ bdy2" "n < 2 ^ 64" "n2 < 2 ^ 64"
  shows "\<exists>s1 r1 r2. read_request C (Plain (s2b (client_request_text hdr_list n meth uri ct (pad @ inner) extra) @ pad @ inner))
      = (Inr r1, s1) \<and> req_body r1 = pad
    \<and> read_request C s1 = (Inr r2, Plain []) \<and> req_method r2 = meth2 \<and> req_uri r2 = uri2 \<and> req_body r2 = bdy2"
proof -
  define p where "p = s2b (client_request_text hdr_list n meth uri ct (pad @ inner) extra) @ (pad @ inner) @ []"
  have "ctrl_pending C (Plain [], 0) (Plain p) p []" by simp
  from client_request_pending [OF assms(1,2,8,3) this [unfolded p_def]] assms(4)
  obtain s1 r1 where 1: "read_request C (Plain p) = (Inr r1, s1)" "req_body r1 = pad"
    "ctrl_pending C (Plain [], 0) s1 (inner @ []) []" by (auto simp: p_def)
  then have s1: "s1 = Plain inner" by (cases s1) simp_all
  have "ctrl_pending C (Plain [], 0) (Plain inner)
      (s2b (client_request_text hdr_list n2 meth2 uri2 ct2 bdy2 extra2) @ bdy2 @ []) []" by (simp add: assms(7))
  from client_request_pending [OF assms(1,2,9,5) this] assms(6)
  obtain s2 r2 where 2: "read_request C (Plain inner) = (Inr r2, s2)" "req_method r2 = meth2" "req_uri r2 = uri2"
    "req_body r2 = bdy2" "ctrl_pending C (Plain [], 0) s2 [] []" by auto
  then have "s2 = Plain []" by (cases s2) simp_all
  with 1 2 s1 show ?thesis by (simp add: p_def)
qed

theorem oversized_body_is_request_witness:
  "\<exists>s1 r1 r2. read_request toy_crypto (Plain (s2b (client_request_text key_order 1 ''POST'' ''/feedback'' ''text/plain''
        (replicate BODY_LIMIT 0 @ s2b (client_request_text key_order 2 ''POST'' ''/feedback'' ''text/plain'' [] Map.empty))
        Map.empty) @ replicate BODY_LIMIT 0 @ s2b (client_request_text key_order 2 ''POST'' ''/feedback'' ''text/plain'' [] Map.empty)))
      = (Inr r1, s1) \<and> req_body r1 = replicate BODY_LIMIT 0 \<and> read_request toy_crypto s1 = (Inr r2, Plain []) \<and>
        req_uri r2 = ''/feedback''"
proof -
  define inner where "inner = s2b (client_request_text key_order 2 ''POST'' ''/feedback'' ''text/plain'' [] Map.empty) @ []"
  have d: "dec 2 = ''2''" "dec 0 = ''0''" by code_simp+
  have "length inner < 1000" by (simp add: inner_def client_request_text_def header_line_def crlf_def d)
  then have l: "length (replicate BODY_LIMIT 0 @ inner) < 2 ^ 64" by (simp add: BODY_LIMIT_def)
  show ?thesis
    using oversized_body_is_request [OF toy_crypto_ok(1) key_order_ok demo_request_ok [OF l] _ demo_request_ok [of "[]"] _ inner_def, of 1]
    by (auto simp: inner_def)
qed

end
