(* ===== verification/Event_Channel.thy ===== *)
theory Event_Channel
  imports Control_Link
begin

text \<open>
  The sender's side of the event channel (event_channel.rs): the channel, which may be plain, behind a
  \<open>BufReader\<close>, the parser of the receiver's commands with its limits, and the loop that acknowledges them.
  A read from a plain socket hands out as many of the waiting bytes as were asked for. The loop ends
  with the bytes it wrote; it terminates on every input that ends.
\<close>

subsection \<open>The channel\<close>

definition EVENT_HEADER_SIZE_LIMIT :: nat where "EVENT_HEADER_SIZE_LIMIT = 16 * 1024"
definition EVENT_BODY_SIZE_LIMIT :: nat where "EVENT_BODY_SIZE_LIMIT = 1024 * 1024"

text \<open>The ciphers are present together or not at all: \<open>ev_encrypted\<close>.\<close>

record EventChannel =
  ev_encrypted :: bool
  ev_stream :: HapStream

definition event_connect :: "crypto \<Rightarrow> bytes \<Rightarrow> bool \<Rightarrow> bytes \<Rightarrow> EventChannel res" where
  "event_connect C inp enc secret =
    rbind (event_channel_new C inp enc secret) (\<lambda>h. Inr (case h of
        None \<Rightarrow> \<lparr>ev_encrypted = False, ev_stream = HapStream_new inp [] []\<rparr>
      | Some h \<Rightarrow> \<lparr>ev_encrypted = True, ev_stream = h\<rparr>))"

definition ev_read :: "crypto \<Rightarrow> nat \<Rightarrow> EventChannel \<Rightarrow> bytes res \<times> EventChannel" where
  "ev_read C d ch =
    (let s = ev_stream ch in
     if d = 0 then (Inr [], ch)
     else if \<not> ev_encrypted ch
       then (Inr (take d (conn s)), ch\<lparr>ev_stream := s\<lparr>conn := drop d (conn s)\<rparr>\<rparr>)
     else let (r, s) = event_read C d s in (r, ch\<lparr>ev_stream := s\<rparr>))"

text \<open>The bytes that go out.\<close>

definition ev_write :: "crypto \<Rightarrow> bytes \<Rightarrow> EventChannel \<Rightarrow> bytes \<times> EventChannel" where
  "ev_write C p ch =
    (if \<not> ev_encrypted ch then (p, ch)
     else let (out, s) = event_write C p (ev_stream ch) in (out, ch\<lparr>ev_stream := s\<rparr>))"

subsection \<open>The buffered reader\<close>

text \<open>\<open>BufReader\<close> with its default capacity: a large read with nothing buffered goes to the channel.\<close>

record EventReader =
  br_buf :: bytes
  br_chan :: EventChannel

definition BUF_CAPACITY :: nat where "BUF_CAPACITY = 8 * 1024"

definition br_take :: "nat \<Rightarrow> EventReader \<Rightarrow> bytes res \<times> EventReader" where
  "br_take d r = (Inr (take d (br_buf r)), r\<lparr>br_buf := drop d (br_buf r)\<rparr>)"

definition br_read :: "crypto \<Rightarrow> nat \<Rightarrow> EventReader \<Rightarrow> bytes res \<times> EventReader" where
  "br_read C d r =
    (if br_buf r \<noteq> [] then br_take d r
     else if BUF_CAPACITY \<le> d
       then (let (b, ch) = ev_read C d (br_chan r) in (b, r\<lparr>br_chan := ch\<rparr>))
     else (case ev_read C BUF_CAPACITY (br_chan r) of
         (Inl e, ch) \<Rightarrow> (Inl e, r\<lparr>br_chan := ch\<rparr>)
       | (Inr b, ch) \<Rightarrow> br_take d (r\<lparr>br_buf := b, br_chan := ch\<rparr>)))"

subsection \<open>Commands\<close>

function read_event_line :: "crypto \<Rightarrow> nat \<Rightarrow> bytes \<Rightarrow> EventReader \<Rightarrow> string res \<times> EventReader" where
  "read_event_line C limit dat r =
    (case br_read C 1 r of
       (Inl e, r) \<Rightarrow> (Inl (Err (Transport ''read event line'')), r)
     | (Inr b, r) \<Rightarrow>
         if b = [] then (Inl (Err (Transport ''event line EOF'')), r)
         else let dat = dat @ [b ! 0] in
           if limit < length dat
           then (Inl (protocol (''event headers exceed '' @ dec EVENT_HEADER_SIZE_LIMIT @ '' bytes'')), r)
           else if 2 \<le> length dat \<and> dat ! (length dat - 2) = 13 \<and> dat ! (length dat - 1) = 10
           then (Inr (from_utf8_lossy (take (length dat - 2) dat)), r)
           else read_event_line C limit dat r)"
  by pat_completeness auto
termination
  by (relation "measure (\<lambda>(C, limit, dat, r). Suc limit - length dat)") auto

declare read_event_line.simps [simp del]

record EventRequest =
  er_cseq :: nat
  body_length :: nat

text \<open>One header line; the flag is \<open>has_cseq\<close>.\<close>

definition event_header :: "string \<Rightarrow> EventRequest \<times> bool \<Rightarrow> (EventRequest \<times> bool) res" where
  "event_header line acc =
    (case split_once (CHR '':'') line of
       None \<Rightarrow> Inl (protocol ''invalid event header'')
     | Some (nm, val) \<Rightarrow>
         let nm = to_ascii_lowercase (trim nm); val = trim val; (request, has_cseq) = acc in
         if nm = ''content-length'' then
           (case parse_uint 64 val of
              None \<Rightarrow> Inl (protocol ''invalid event content length'')
            | Some n \<Rightarrow>
                if EVENT_BODY_SIZE_LIMIT < n then Inl (protocol ''invalid event content length'')
                else Inr (request\<lparr>body_length := n\<rparr>, has_cseq))
         else if nm = ''cseq'' then
           (case parse_uint 64 val of
              None \<Rightarrow> Inl (protocol ''invalid event CSeq'')
            | Some n \<Rightarrow> Inr (request\<lparr>er_cseq := n\<rparr>, True))
         else Inr (request, has_cseq))"

lemma read_event_line_zero: "read_event_line C 0 dat r \<noteq> (Inr l, r')"
  by (subst read_event_line.simps) (auto split: sum.split prod.split)

lemma read_event_line_used:
  "read_event_line C (EVENT_HEADER_SIZE_LIMIT - used) dat r = (Inr l, r') \<Longrightarrow> used < EVENT_HEADER_SIZE_LIMIT"
  using read_event_line_zero [of C dat r l r'] by (cases "used < EVENT_HEADER_SIZE_LIMIT") auto

function read_event_headers ::
  "crypto \<Rightarrow> nat \<Rightarrow> EventRequest \<times> bool \<Rightarrow> EventReader \<Rightarrow> (EventRequest \<times> bool) res \<times> EventReader" where
  "read_event_headers C used acc r =
    (case read_event_line C (EVENT_HEADER_SIZE_LIMIT - used) [] r of
       (Inl e, r) \<Rightarrow> (Inl e, r)
     | (Inr line, r) \<Rightarrow>
         if line = [] then (Inr acc, r)
         else (case event_header line acc of
             Inl e \<Rightarrow> (Inl e, r)
           | Inr acc \<Rightarrow> read_event_headers C (used + length line + 2) acc r))"
  by pat_completeness auto
termination
  by (relation "measure (\<lambda>(C, used, acc, r). EVENT_HEADER_SIZE_LIMIT - used)")
    (auto dest!: read_event_line_used [OF sym])

declare read_event_headers.simps [simp del]

text \<open>Draining the body; the end of the stream ends it too.\<close>

function drain_body :: "crypto \<Rightarrow> nat \<Rightarrow> EventReader \<Rightarrow> unit res \<times> EventReader" where
  "drain_body C remaining r =
    (if 0 < remaining then
       (case br_read C (min remaining 512) r of
          (Inl e, r) \<Rightarrow> (Inl (Err (Transport ''read event body'')), r)
        | (Inr b, r) \<Rightarrow> if b = [] then (Inr (), r) else drain_body C (remaining - length b) r)
     else (Inr (), r))"
  by pat_completeness auto
termination
  by (relation "measure (\<lambda>(C, remaining, r). remaining)") auto

declare drain_body.simps [simp del]

definition read_event_request :: "crypto \<Rightarrow> EventReader \<Rightarrow> EventRequest res \<times> EventReader" where
  "read_event_request C r =
    (case read_event_line C EVENT_HEADER_SIZE_LIMIT [] r of
       (Inl e, r) \<Rightarrow> (Inl e, r)
     | (Inr first, r) \<Rightarrow>
         let parts = split_whitespace first in
         if length parts \<noteq> 3 \<or> parts ! 2 \<noteq> ''RTSP/1.0''
         then (Inl (protocol ''invalid event request line''), r)
         else (case read_event_headers C (length first + 2) (\<lparr>er_cseq = 0, body_length = 0\<rparr>, False) r of
             (Inl e, r) \<Rightarrow> (Inl e, r)
           | (Inr (request, has_cseq), r) \<Rightarrow>
               if \<not> has_cseq then (Inl (protocol ''event request omitted CSeq''), r)
               else (case drain_body C (body_length request) r of
                   (Inl e, r) \<Rightarrow> (Inl e, r) | (Inr _, r) \<Rightarrow> (Inr request, r))))"

definition event_response :: "nat \<Rightarrow> string" where
  "event_response n = ''RTSP/1.0 200 OK'' @ crlf @ header_line ''CSeq'' (dec n) @ header_line ''Content-Length'' ''0'' @ crlf"

subsection \<open>Reading commands consumes input\<close>

lemma event_read_as_hap:
  "conn (snd (event_read C d h)) = conn (snd (hap_read C d h)) \<and>
   read_buf (snd (event_read C d h)) = read_buf (snd (hap_read C d h)) \<and>
   (fst (event_read C d h) = Inr out \<longleftrightarrow> fst (hap_read C d h) = Inr out)"
proof -
  have w: "snd (read_exact w k b) = snd (read_exact w' k b)"
    "fst (read_exact w k b) = Inr o' \<longleftrightarrow> fst (read_exact w' k b) = Inr o'" for w w' k b o'
    by (simp_all add: read_exact_def)
  show ?thesis
  proof (cases "d = 0 \<or> read_buf h \<noteq> []")
    case True
    then show ?thesis by (auto simp: event_read_def hap_read_def)
  next
    case empty: False
    show ?thesis
    proof (cases "length (conn h) < 2")
      case True
      with empty show ?thesis by (simp add: event_read_def hap_read_def read_exact_def)
    next
      case False
      define size where "size = of_le (take 2 (conn h))"
      have 2: "read_exact v 2 (conn h) = (Inr (take 2 (conn h)), drop 2 (conn h))" for v
        using False by (simp add: read_exact_def)
      consider "size < 1 \<or> 1024 < size" | "1 \<le> size" "size \<le> 1024" "length (drop 2 (conn h)) < size + 16"
        | "1 \<le> size" "size \<le> 1024" "\<not> length (drop 2 (conn h)) < size + 16" by linarith
      then show ?thesis
      proof cases
        case 1
        with empty show ?thesis
          by (auto simp: event_read_def hap_read_def 2 size_def [symmetric] EVENT_FRAME_SIZE_LIMIT_def Let_def)
      next
        case 2: 2
        with empty show ?thesis
          by (simp add: event_read_def hap_read_def \<open>\<And>v. read_exact v 2 _ = _\<close> size_def [symmetric]
              EVENT_FRAME_SIZE_LIMIT_def Let_def read_exact_def)
      next
        case 3
        then have "read_exact v (size + 16) (drop 2 (conn h)) =
            (Inr (take (size + 16) (drop 2 (conn h))), drop (size + 16) (drop 2 (conn h)))" for v
          unfolding read_exact_def by simp
        with 3(1,2) empty show ?thesis
          by (simp add: event_read_def hap_read_def 2 size_def [symmetric] EVENT_FRAME_SIZE_LIMIT_def Let_def
              hap_take_def split: option.split)
      qed
    qed
  qed
qed

text \<open>What is left: the bytes on the socket, then the plaintext of both buffers.\<close>

definition ev_left :: "EventReader \<Rightarrow> CtrlStream" where
  "ev_left r = Hap ((ev_stream (br_chan r))\<lparr>read_buf := br_buf r @ read_buf (ev_stream (br_chan r))\<rparr>)"

lemma ev_read_le:
  assumes "ev_read C d ch = (x, ch')"
  shows "ctrl_le (Hap (ev_stream ch')) (Hap (ev_stream ch))"
    and "x = Inr out \<Longrightarrow> out \<noteq> [] \<Longrightarrow> fst (ctrl_left (Hap (ev_stream ch'))) < fst (ctrl_left (Hap (ev_stream ch))) \<or>
      conn (ev_stream ch') = conn (ev_stream ch) \<and> read_buf (ev_stream ch) = out @ read_buf (ev_stream ch')"
proof -
  let ?h = "ev_stream ch"
  have le: "ctrl_le (Hap (snd (event_read C d ?h))) (Hap ?h)"
    using hap_read_le [of C d ?h] event_read_as_hap [of C d ?h] by (simp add: ctrl_le_def)
  show "ctrl_le (Hap (ev_stream ch')) (Hap ?h)"
    using assms le
    by (cases "conn ?h = []") (auto simp: ev_read_def ctrl_le_def Let_def case_prod_unfold split: if_splits)
  assume out: "x = Inr out" "out \<noteq> []"
  show "fst (ctrl_left (Hap (ev_stream ch'))) < fst (ctrl_left (Hap ?h)) \<or>
      conn (ev_stream ch') = conn ?h \<and> read_buf ?h = out @ read_buf (ev_stream ch')"
  proof (cases "ev_encrypted ch")
    case False
    with assms out show ?thesis by (auto simp: ev_read_def Let_def split: if_splits)
  next
    case True
    with assms out have r: "fst (event_read C d ?h) = Inr out" "ev_stream ch' = snd (event_read C d ?h)" "d \<noteq> 0"
      by (auto simp: ev_read_def Let_def case_prod_unfold split: if_splits)
    show ?thesis
    proof (cases "read_buf ?h = []")
      case False
      with r show ?thesis
        by (auto simp: event_read_def hap_take_def Let_def min_def split: if_splits)
    next
      case empty: True
      from r(1) event_read_as_hap [of C d ?h out] have hr: "fst (hap_read C d ?h) = Inr out" by blast
      obtain h' where h': "hap_read C d ?h = (Inr out, h')" using hr by (cases "hap_read C d ?h") auto
      from hap_read_less [OF this out(2)] have less: "(Hap h', Hap ?h) \<in> ctrl_less" .
      then have "length (conn h') < length (conn ?h)" using empty by (simp add: ctrl_less_iff)
      with h' r(2) event_read_as_hap [of C d ?h] show ?thesis by simp
    qed
  qed
qed

lemma ev_left_simps:
  "ctrl_left (ev_left r) = (length (conn (ev_stream (br_chan r))), length (br_buf r) + length (read_buf (ev_stream (br_chan r))))"
  by (simp add: ev_left_def)

lemma br_read_le: "ctrl_le (ev_left (snd (br_read C d r))) (ev_left r)"
proof (cases "br_buf r = []")
  case False
  then show ?thesis by (simp add: br_read_def br_take_def ctrl_le_def ev_left_simps)
next
  case True
  have "ctrl_le (ev_left (snd (br_read C d r))) (ev_left r)" if "ev_read C k (br_chan r) = (x, ch)" "k = (if BUF_CAPACITY \<le> d then d else BUF_CAPACITY)" for k x ch
    using ev_read_le [OF that(1)] that True
    by (cases x) (force simp: br_read_def br_take_def ctrl_le_def ev_left_simps split: if_splits)+
  then show ?thesis by (metis surj_pair)
qed

lemma br_read_less:
  assumes "br_read C d r = (Inr out, r')" "out \<noteq> []"
  shows "(ev_left r', ev_left r) \<in> ctrl_less"
proof (cases "br_buf r = []")
  case False
  with assms show ?thesis by (auto simp: br_read_def br_take_def ctrl_less_iff ev_left_simps)
next
  case True
  define k where "k = (if BUF_CAPACITY \<le> d then d else BUF_CAPACITY)"
  obtain x ch where r: "ev_read C k (br_chan r) = (x, ch)" by fastforce
  with assms True obtain b where b: "x = Inr b" "b \<noteq> []"
    by (cases x) (auto simp: br_read_def br_take_def k_def split: if_splits)
  show ?thesis
    using ev_read_le(2) [OF r b] assms True r b
    by (auto simp: br_read_def br_take_def ctrl_less_iff ev_left_simps k_def split: if_splits)
qed

lemma read_event_line_le: "ctrl_le (ev_left (snd (read_event_line C limit dat r))) (ev_left r)"
proof (induction C limit dat r rule: read_event_line.induct)
  case (1 C limit dat r)
  obtain x r1 where r: "br_read C 1 r = (x, r1)" by fastforce
  have le: "ctrl_le (ev_left r1) (ev_left r)" using br_read_le [of C 1 r] r by simp
  show ?case
  proof (cases x)
    case (Inl e)
    with r le show ?thesis by (subst read_event_line.simps) simp
  next
    case (Inr b)
    have "ctrl_le (ev_left (snd (read_event_line C limit (dat @ [b ! 0]) r1))) (ev_left r)"
      if "b \<noteq> []" "\<not> limit < length (dat @ [b ! 0])"
        "\<not> (2 \<le> length (dat @ [b ! 0]) \<and> (dat @ [b ! 0]) ! (length (dat @ [b ! 0]) - 2) = 13 \<and>
           (dat @ [b ! 0]) ! (length (dat @ [b ! 0]) - 1) = 10)"
      using 1 [OF r [symmetric, unfolded Inr] refl that(1) refl that(2,3)] le by (rule ctrl_le_trans)
    with r Inr le show ?thesis by (subst read_event_line.simps) (auto simp: Let_def)
  qed
qed

lemma read_event_line_less:
  assumes "read_event_line C limit dat r = (Inr l, r')"
  shows "(ev_left r', ev_left r) \<in> ctrl_less"
proof -
  obtain x r1 where r: "br_read C 1 r = (x, r1)" by fastforce
  with assms obtain b where b: "x = Inr b" "b \<noteq> []"
    by (subst (asm) read_event_line.simps) (auto split: sum.splits if_splits)
  have less: "(ev_left r1, ev_left r) \<in> ctrl_less" using br_read_less r b by blast
  have "r' = r1 \<or> read_event_line C limit (dat @ [b ! 0]) r1 = (Inr l, r')"
    using assms r b by (subst (asm) read_event_line.simps) (auto simp: Let_def split: if_splits)
  then have "ctrl_le (ev_left r') (ev_left r1)"
    using read_event_line_le [of C limit "dat @ [b ! 0]" r1] by auto
  then show ?thesis using less ctrl_le_less_trans by blast
qed

lemma read_event_headers_le: "ctrl_le (ev_left (snd (read_event_headers C used acc r))) (ev_left r)"
proof (induction C used acc r rule: read_event_headers.induct)
  case (1 C used acc r)
  obtain x r1 where r: "read_event_line C (EVENT_HEADER_SIZE_LIMIT - used) [] r = (x, r1)" by fastforce
  have le: "ctrl_le (ev_left r1) (ev_left r)"
    using read_event_line_le [of C "EVENT_HEADER_SIZE_LIMIT - used" "[]" r] r by simp
  show ?case
  proof (cases x)
    case (Inl e)
    with r le show ?thesis by (subst read_event_headers.simps) simp
  next
    case (Inr line)
    have "ctrl_le (ev_left (snd (read_event_headers C (used + length line + 2) acc' r1))) (ev_left r)"
      if "line \<noteq> []" "event_header line acc = Inr acc'" for acc'
      using 1 [OF r [symmetric, unfolded Inr] refl that] le by (rule ctrl_le_trans)
    with r Inr le show ?thesis by (subst read_event_headers.simps) (auto split: sum.split)
  qed
qed

lemma drain_body_le: "ctrl_le (ev_left (snd (drain_body C remaining r))) (ev_left r)"
proof (induction C remaining r rule: drain_body.induct)
  case (1 C remaining r)
  obtain x r1 where r: "br_read C (min remaining 512) r = (x, r1)" by fastforce
  have le: "ctrl_le (ev_left r1) (ev_left r)" using br_read_le [of C "min remaining 512" r] r by simp
  show ?case
  proof (cases x)
    case (Inl e)
    with r le show ?thesis by (subst drain_body.simps) simp
  next
    case (Inr b)
    have "ctrl_le (ev_left (snd (drain_body C (remaining - length b) r1))) (ev_left r)" if "b \<noteq> []" "0 < remaining"
      using 1 [OF that(2) r [symmetric, unfolded Inr] refl that(1)] le by (rule ctrl_le_trans)
    with r Inr le show ?thesis by (subst drain_body.simps) auto
  qed
qed

lemma read_event_request_less:
  assumes "read_event_request C r = (Inr q, r')"
  shows "(ev_left r', ev_left r) \<in> ctrl_less"
proof -
  obtain x r1 where 1: "read_event_line C EVENT_HEADER_SIZE_LIMIT [] r = (x, r1)" by fastforce
  with assms obtain l where l: "x = Inr l" by (cases x) (auto simp: read_event_request_def)
  obtain y r2 where 2: "read_event_headers C (length l + 2) (\<lparr>er_cseq = 0, body_length = 0\<rparr>, False) r1 = (y, r2)" by fastforce
  with assms 1 l obtain p where y: "y = Inr p"
    by (cases y) (auto simp: read_event_request_def Let_def split: if_splits)
  obtain z r3 where 3: "drain_body C (body_length (fst p)) r2 = (z, r3)" by fastforce
  have "r' = r3"
    using assms 1 l 2 y 3
    by (cases p) (auto simp: read_event_request_def Let_def split: if_splits sum.splits)
  moreover have "ctrl_le (ev_left r3) (ev_left r2)" using drain_body_le [of C "body_length (fst p)" r2] 3 by simp
  moreover have "ctrl_le (ev_left r2) (ev_left r1)"
    using read_event_headers_le [of C "length l + 2" "(\<lparr>er_cseq = 0, body_length = 0\<rparr>, False)" r1] 2 by simp
  moreover have "(ev_left r1, ev_left r) \<in> ctrl_less" using read_event_line_less 1 l by blast
  ultimately show ?thesis by (meson ctrl_le_less_trans ctrl_le_trans)
qed

subsection \<open>Serving\<close>

text \<open>\<open>event_write\<close> leaves what there is to read alone.\<close>

lemma ev_write_left: "ctrl_left (ev_left (r\<lparr>br_chan := snd (ev_write C p (br_chan r))\<rparr>)) = ctrl_left (ev_left r)"
  by (simp add: ev_left_simps ev_write_def event_write_frames)

text \<open>The thread of \<open>serve_event_channel\<close>: the bytes it writes until a command cannot be read.\<close>

lemma serve_less:
  assumes "read_event_request C r = (Inr request, r1)" "ev_write C p (br_chan r1) = (out, ch)"
  shows "(ev_left (r1\<lparr>br_chan := ch\<rparr>), ev_left r) \<in> ctrl_less"
proof -
  have "(ev_left r1, ev_left r) \<in> ctrl_less" using read_event_request_less [OF assms(1)] .
  moreover have "ctrl_left (ev_left (r1\<lparr>br_chan := ch\<rparr>)) = ctrl_left (ev_left r1)"
    using ev_write_left [of C p r1] assms(2) by simp
  ultimately show ?thesis by (simp add: ctrl_less_iff)
qed

function serve_events :: "crypto \<Rightarrow> EventReader \<Rightarrow> bytes" where
  "serve_events C r =
    (case read_event_request C r of
       (Inl e, r) \<Rightarrow> []
     | (Inr request, r) \<Rightarrow>
         let (out, ch) = ev_write C (s2b (event_response (er_cseq request))) (br_chan r)
         in out @ serve_events C (r\<lparr>br_chan := ch\<rparr>))"
  by pat_completeness auto
termination
  by (relation "inv_image ctrl_less (\<lambda>(C, r). ev_left r)") (auto dest: serve_less [OF sym sym])

declare serve_events.simps [simp del]

definition serve_event_channel :: "crypto \<Rightarrow> EventChannel \<Rightarrow> bytes" where
  "serve_event_channel C ch = serve_events C \<lparr>br_buf = [], br_chan = ch\<rparr>"

subsection \<open>Commands waiting on the channel\<close>

text \<open>The plaintext that the channel, and the reader over it, will still deliver.\<close>

definition chan_pending :: "crypto \<Rightarrow> EventChannel \<Rightarrow> bytes \<Rightarrow> bool" where
  "chan_pending C ch q \<longleftrightarrow>
     (if ev_encrypted ch then \<exists>m. hap_pending C (ev_stream ch) m q [] else conn (ev_stream ch) = q)"

definition chan_writer :: "EventChannel \<Rightarrow> bool \<times> bytes \<times> u64" where
  "chan_writer ch = (ev_encrypted ch, write_key (ev_stream ch), write_nonce (ev_stream ch))"

definition ev_pending :: "crypto \<Rightarrow> bool \<times> bytes \<times> u64 \<Rightarrow> EventReader \<Rightarrow> bytes \<Rightarrow> bool" where
  "ev_pending C w r p \<longleftrightarrow>
     (\<exists>q. p = br_buf r @ q \<and> chan_pending C (br_chan r) q) \<and> chan_writer (br_chan r) = w"

lemma chan_read:
  assumes "aead_ok C" "chan_pending C ch q" "q \<noteq> []" "0 < d"
  shows "\<exists>out ch' q'. ev_read C d ch = (Inr out, ch') \<and> q = out @ q' \<and> out \<noteq> [] \<and> length out \<le> d \<and>
    chan_pending C ch' q' \<and> chan_writer ch' = chan_writer ch"
proof (cases "ev_encrypted ch")
  case False
  with assms show ?thesis
    by (intro exI [of _ "take d q"] exI [of _ "ch\<lparr>ev_stream := (ev_stream ch)\<lparr>conn := drop d q\<rparr>\<rparr>"] exI [of _ "drop d q"])
      (auto simp: ev_read_def chan_pending_def chan_writer_def Let_def)
next
  case True
  with assms(2) obtain m where "hap_pending C (ev_stream ch) m q []" by (auto simp: chan_pending_def)
  from event_rd.read_some [OF assms(1) this assms(3,4)] obtain out s q' where
    r: "event_read C d (ev_stream ch) = (Inr out, s)" "q = out @ q'" "out \<noteq> []" "length out \<le> d"
      "hap_pending C s m q' []" "same_writer (ev_stream ch) s" by blast
  with True assms(4) show ?thesis
    by (intro exI [of _ out] exI [of _ "ch\<lparr>ev_stream := s\<rparr>"] exI [of _ q'])
      (auto simp: ev_read_def chan_pending_def chan_writer_def same_writer_def)
qed

lemma chan_end:
  assumes "chan_pending C ch []" "0 < d"
  shows "fst (ev_read C d ch) \<in> {Inr []} \<union> range Inl"
proof (cases "ev_encrypted ch")
  case False
  with assms show ?thesis by (simp add: ev_read_def chan_pending_def)
next
  case True
  with assms obtain cs m where cs: "\<forall>c \<in> set cs. 1 \<le> length c" "read_buf (ev_stream ch) = []" "concat cs = []"
      "conn (ev_stream ch) = hap_frames C (read_key (ev_stream ch)) (read_nonce (ev_stream ch)) cs"
    by (auto simp: chan_pending_def hap_pending_def)
  then have "cs = []" by (cases cs) auto
  with cs True assms(2) show ?thesis by (simp add: ev_read_def event_read_def read_exact_def)
qed

lemma br_read_some:
  assumes "aead_ok C" "ev_pending C w r p" "p \<noteq> []" "0 < d" "d < BUF_CAPACITY"
  shows "\<exists>out r' p'. br_read C d r = (Inr out, r') \<and> p = out @ p' \<and> out \<noteq> [] \<and> length out \<le> d \<and> ev_pending C w r' p'"
proof -
  from assms(2) obtain q where q: "p = br_buf r @ q" "chan_pending C (br_chan r) q" "chan_writer (br_chan r) = w"
    by (auto simp: ev_pending_def)
  show ?thesis
  proof (cases "br_buf r = []")
    case False
    have "ev_pending C w (r\<lparr>br_buf := drop d (br_buf r)\<rparr>) (drop d (br_buf r) @ q)"
      using q by (auto simp: ev_pending_def)
    moreover have "p = take d (br_buf r) @ drop d (br_buf r) @ q" using q(1) by simp
    moreover have "br_read C d r = (Inr (take d (br_buf r)), r\<lparr>br_buf := drop d (br_buf r)\<rparr>)"
      using False by (simp add: br_read_def br_take_def)
    ultimately show ?thesis using False assms(4) by fastforce
  next
    case True
    have "q \<noteq> []" "0 < BUF_CAPACITY" using True q assms(3,5) by auto
    from chan_read [OF assms(1) q(2) this] obtain out ch q' where
      c: "ev_read C BUF_CAPACITY (br_chan r) = (Inr out, ch)" "q = out @ q'" "out \<noteq> []"
        "chan_pending C ch q'" "chan_writer ch = chan_writer (br_chan r)" by blast
    define r' where "r' = r\<lparr>br_buf := drop d out, br_chan := ch\<rparr>"
    have "br_read C d r = (Inr (take d out), r')"
      using True assms(5) c(1) by (simp add: br_read_def br_take_def r'_def)
    moreover have "p = take d out @ drop d out @ q'" using True q(1) c(2) by simp
    moreover have "ev_pending C w r' (drop d out @ q')"
      using c q(3) by (auto simp: ev_pending_def r'_def)
    ultimately show ?thesis using c(3) assms(4) by fastforce
  qed
qed

lemma br_read_byte:
  assumes "aead_ok C" "ev_pending C w r (b # p)"
  shows "\<exists>r'. br_read C 1 r = (Inr [b], r') \<and> ev_pending C w r' p"
proof -
  from br_read_some [OF assms, of 1] obtain out r' p' where
    r: "br_read C 1 r = (Inr out, r')" "b # p = out @ p'" "out \<noteq> []" "length out \<le> 1" "ev_pending C w r' p'"
    by (auto simp: BUF_CAPACITY_def)
  then show ?thesis by (cases out) auto
qed

lemma event_line_end:
  assumes "ev_pending C w r []"
  shows "\<exists>e r'. read_event_line C limit dat r = (Inl e, r')"
proof -
  have r: "br_buf r = []" "chan_pending C (br_chan r) []" using assms by (auto simp: ev_pending_def)
  from chan_end [OF r(2), of BUF_CAPACITY] obtain x ch where
    x: "ev_read C BUF_CAPACITY (br_chan r) = (x, ch)" "x \<in> {Inr []} \<union> range Inl"
    by (cases "ev_read C BUF_CAPACITY (br_chan r)") (auto simp: BUF_CAPACITY_def)
  then have "fst (br_read C 1 r) \<in> {Inr []} \<union> range Inl"
    using r(1) by (auto simp: br_read_def br_take_def BUF_CAPACITY_def)
  then show ?thesis
    by (subst read_event_line.simps) (auto split: sum.split prod.split)
qed

lemma event_line_loop:
  assumes "aead_ok C" "10 \<notin> set l" "length dat + length l + 2 \<le> limit" "ev_pending C w r (l @ 13 # 10 # rest)"
  shows "\<exists>r'. read_event_line C limit dat r = (Inr (from_utf8_lossy (dat @ l)), r') \<and> ev_pending C w r' rest"
proof -
  have "\<exists>r'. read_event_line C limit dat r = (Inr (from_utf8_lossy (butlast (dat @ k))), r') \<and> ev_pending C w r' rest"
    if "10 \<notin> set k" "dat @ k \<noteq> []" "last (dat @ k) = 13" "length dat + length k < limit" "ev_pending C w r (k @ 10 # rest)"
    for k dat r
    using that
  proof (induction k arbitrary: dat r)
    case Nil
    from br_read_byte [OF assms(1), of w r 10 rest] Nil.prems(5) obtain r' where
      "br_read C 1 r = (Inr [10], r')" "ev_pending C w r' rest" by auto
    moreover obtain d where "dat = d @ [13]"
      using Nil.prems(2,3) by (metis append_butlast_last_id append_Nil2)
    ultimately show ?case using Nil.prems by (subst read_event_line.simps) (simp add: nth_append)
  next
    case (Cons b k)
    from br_read_byte [OF assms(1), of w r b "k @ 10 # rest"] Cons.prems(5) obtain r1 where
      1: "br_read C 1 r = (Inr [b], r1)" "ev_pending C w r1 (k @ 10 # rest)" by auto
    with Cons.IH [of "dat @ [b]" r1] Cons.prems obtain r' where
      "read_event_line C limit (dat @ [b]) r1 = (Inr (from_utf8_lossy (butlast (dat @ b # k))), r')" "ev_pending C w r' rest"
      by auto
    with 1 Cons.prems show ?case by (subst read_event_line.simps) (auto simp: nth_append)
  qed
  from this [of "l @ [13]" dat r] assms show ?thesis by (simp add: butlast_append)
qed

lemma event_line:
  assumes "aead_ok C" "text_line l" "length l + 2 \<le> limit" "ev_pending C w r (s2b (l @ crlf) @ rest)"
  shows "\<exists>r'. read_event_line C limit [] r = (Inr l, r') \<and> ev_pending C w r' rest"
proof -
  have "10 \<notin> set (s2b l)"
    using assms(2) of_char_byte_neq [of _ 10] by (auto simp: text_line_def s2b_def list_all_iff)
  moreover have "from_utf8_lossy (s2b l) = l"
  proof -
    have "list_all (\<lambda>x. x < (0x80 :: byte)) (s2b l)"
      using assms(2) by (auto simp: text_line_def list_all_iff of_char_byte_less s2b_def)
    then show ?thesis by (simp add: from_utf8_lossy_ascii)
  qed
  ultimately show ?thesis
    using event_line_loop [OF assms(1), of "s2b l" "[]" limit w r rest] assms(3,4) by (simp add: s2b_crlf)
qed

subsection \<open>Well-formed commands\<close>

definition event_header_ok :: "string \<times> string \<Rightarrow> bool" where
  "event_header_ok h \<longleftrightarrow> header_ok EVENT_HEADER_SIZE_LIMIT h \<and>
     to_ascii_lowercase (fst h) \<noteq> ''content-length'' \<and> to_ascii_lowercase (fst h) \<noteq> ''cseq''"

record event_command =
  ec_method :: string
  ec_uri :: string
  ec_cseq :: nat
  ec_headers :: "(string \<times> string) list"
  ec_body :: bytes

definition ec_lines :: "event_command \<Rightarrow> (string \<times> string) list" where
  "ec_lines c = [(''CSeq'', dec (ec_cseq c)), (''Content-Length'', dec (length (ec_body c)))] @ ec_headers c"

definition ec_bytes :: "event_command \<Rightarrow> bytes" where
  "ec_bytes c = s2b (request_line (ec_method c) (ec_uri c) @ crlf) @ s2b (header_lines (ec_lines c) @ crlf) @ ec_body c"

definition ec_ok :: "event_command \<Rightarrow> bool" where
  "ec_ok c \<longleftrightarrow> token (ec_method c) \<and> token (ec_uri c) \<and> ec_cseq c < 2 ^ 64 \<and> list_all event_header_ok (ec_headers c) \<and>
     length (ec_body c) \<le> EVENT_BODY_SIZE_LIMIT \<and>
     length (request_line (ec_method c) (ec_uri c)) + length (header_lines (ec_lines c)) + 4 \<le> EVENT_HEADER_SIZE_LIMIT"

definition event_pair :: "string \<times> string \<Rightarrow> EventRequest \<times> bool \<Rightarrow> EventRequest \<times> bool" where
  "event_pair = (\<lambda>(k, v) (q, has).
     if to_ascii_lowercase k = ''content-length'' then (q\<lparr>body_length := the (parse_uint 64 v)\<rparr>, has)
     else if to_ascii_lowercase k = ''cseq'' then (q\<lparr>er_cseq := the (parse_uint 64 v)\<rparr>, True) else (q, has))"

definition event_value_ok :: "string \<times> string \<Rightarrow> bool" where
  "event_value_ok = (\<lambda>(k, v).
     (to_ascii_lowercase k = ''content-length'' \<longrightarrow> (\<exists>n \<le> EVENT_BODY_SIZE_LIMIT. parse_uint 64 v = Some n)) \<and>
     (to_ascii_lowercase k = ''cseq'' \<longrightarrow> parse_uint 64 v \<noteq> None))"

lemma event_header_pair:
  "header_ok limit (k, v) \<Longrightarrow> event_value_ok (k, v) \<Longrightarrow> event_header (k @ '': '' @ v) acc = Inr (event_pair (k, v) acc)"
  using header_split [of limit k v]
  by (cases acc) (auto simp: event_header_def event_pair_def event_value_ok_def Let_def)

lemma event_headers_pending:
  assumes "aead_ok C" "\<forall>h \<in> set hs. header_ok EVENT_HEADER_SIZE_LIMIT h \<and> event_value_ok h"
    and "used + length (header_lines hs) + 2 \<le> EVENT_HEADER_SIZE_LIMIT"
    and "ev_pending C w r (s2b (header_lines hs @ crlf) @ rest)"
  shows "\<exists>r'. read_event_headers C used acc r = (Inr (fold event_pair hs acc), r') \<and> ev_pending C w r' rest"
  using assms(2-)
proof (induction hs arbitrary: acc used r)
  case Nil
  then have "length [] + 2 \<le> EVENT_HEADER_SIZE_LIMIT - used" by simp
  with Nil event_line [OF assms(1), of "[]" "EVENT_HEADER_SIZE_LIMIT - used" w r rest] obtain r' where
    "read_event_line C (EVENT_HEADER_SIZE_LIMIT - used) [] r = (Inr [], r')" "ev_pending C w r' rest" by auto
  then show ?case by (subst read_event_headers.simps) simp
next
  case (Cons h hs)
  obtain k v where h: "h = (k, v)" by fastforce
  with Cons.prems have ok: "header_ok EVENT_HEADER_SIZE_LIMIT (k, v)" "event_value_ok (k, v)" by auto
  have len: "length (header_lines (h # hs)) = length (k @ '': '' @ v) + 2 + length (header_lines hs)"
    by (simp add: h header_line_def crlf_def)
  from Cons.prems(3) have "ev_pending C w r (s2b ((k @ '': '' @ v) @ crlf) @ s2b (header_lines hs @ crlf) @ rest)"
    by (simp add: h header_line_def s2b_def)
  have "length (k @ '': '' @ v) + 2 \<le> EVENT_HEADER_SIZE_LIMIT - used" using Cons.prems(2) len by linarith
  from event_line [OF assms(1) header_ok_text [OF ok(1)] this
      \<open>ev_pending C w r (s2b ((k @ '': '' @ v) @ crlf) @ s2b (header_lines hs @ crlf) @ rest)\<close>]
  obtain r1 where 1: "read_event_line C (EVENT_HEADER_SIZE_LIMIT - used) [] r = (Inr (k @ '': '' @ v), r1)"
    "ev_pending C w r1 (s2b (header_lines hs @ crlf) @ rest)" by blast
  from Cons.IH [OF _ _ 1(2), of "used + length (k @ '': '' @ v) + 2" "event_pair (k, v) acc"] Cons.prems len
  obtain r' where 2: "read_event_headers C (used + length (k @ '': '' @ v) + 2) (event_pair (k, v) acc) r1 =
      (Inr (fold event_pair hs (event_pair (k, v) acc)), r')" "ev_pending C w r' rest" by auto
  have "k @ '': '' @ v \<noteq> []" by simp
  then have "read_event_headers C used acc r =
      read_event_headers C (used + length (k @ '': '' @ v) + 2) (event_pair (k, v) acc) r1"
    using 1(1) event_header_pair [OF ok] by (subst read_event_headers.simps) (simp del: append_is_Nil_conv length_append)
  with 2 h show ?case by auto
qed

lemma drain_pending:
  assumes "aead_ok C"
  shows "ev_pending C w r (b @ rest) \<Longrightarrow> \<exists>r'. drain_body C (length b) r = (Inr (), r') \<and> ev_pending C w r' rest"
proof (induction "length b" arbitrary: b r rule: less_induct)
  case less
  show ?case
  proof (cases "b = []")
    case True
    with less.prems show ?thesis by (simp add: drain_body.simps)
  next
    case False
    have "min (length b) 512 < BUF_CAPACITY" by (simp add: BUF_CAPACITY_def)
    with br_read_some [OF assms less.prems, of "min (length b) 512"] False obtain out r1 p where
      1: "br_read C (min (length b) 512) r = (Inr out, r1)" "b @ rest = out @ p" "out \<noteq> []" "length out \<le> length b"
        "ev_pending C w r1 p" by auto
    then have b: "b = out @ drop (length out) b" "p = drop (length out) b @ rest"
      by (auto simp: append_eq_append_conv2)
    have "length (drop (length out) b) < length b" using 1(3) False by simp
    from less.hyps [OF this, of r1] 1(5) b(2) obtain r' where
      "drain_body C (length b - length out) r1 = (Inr (), r')" "ev_pending C w r' rest" by auto
    with 1 False show ?thesis by (subst drain_body.simps) simp
  qed
qed

lemma ec_lines_ok:
  assumes "ec_ok c"
  shows "\<forall>h \<in> set (ec_lines c). header_ok EVENT_HEADER_SIZE_LIMIT h \<and> event_value_ok h"
    and "fold event_pair (ec_lines c) (\<lparr>er_cseq = 0, body_length = 0\<rparr>, False) =
      (\<lparr>er_cseq = ec_cseq c, body_length = length (ec_body c)\<rparr>, True)"
proof -
  have n: "ec_cseq c < 2 ^ 64" "length (ec_body c) \<le> EVENT_BODY_SIZE_LIMIT" "list_all event_header_ok (ec_headers c)"
    using assms by (simp_all add: ec_ok_def)
  then have b: "length (ec_body c) < 2 ^ 64" by (simp add: EVENT_BODY_SIZE_LIMIT_def)
  have lim: "EVENT_HEADER_SIZE_LIMIT = 16384" by (simp add: EVENT_HEADER_SIZE_LIMIT_def)
  have "header_ok EVENT_HEADER_SIZE_LIMIT (''CSeq'', dec (ec_cseq c))"
    using n(1) by (intro dec_header_ok) (simp_all only: name_tokens lim, simp_all)
  moreover have "header_ok EVENT_HEADER_SIZE_LIMIT (''Content-Length'', dec (length (ec_body c)))"
    using b by (intro dec_header_ok) (simp_all only: name_tokens lim, simp_all)
  ultimately show "\<forall>h \<in> set (ec_lines c). header_ok EVENT_HEADER_SIZE_LIMIT h \<and> event_value_ok h"
    using n b by (auto simp: ec_lines_def event_value_ok_def event_header_ok_def lower_names list_all_iff)
  have "fold event_pair hs acc = acc" if "list_all event_header_ok hs" for hs acc
    using that by (induction hs) (auto simp: event_pair_def event_header_ok_def split: prod.splits)
  with n b show "fold event_pair (ec_lines c) (\<lparr>er_cseq = 0, body_length = 0\<rparr>, False) =
      (\<lparr>er_cseq = ec_cseq c, body_length = length (ec_body c)\<rparr>, True)"
    by (simp add: ec_lines_def event_pair_def lower_names)
qed

lemma command_pending:
  assumes "aead_ok C" "ec_ok c" "ev_pending C w r (ec_bytes c @ rest)"
  shows "\<exists>r'. read_event_request C r = (Inr \<lparr>er_cseq = ec_cseq c, body_length = length (ec_body c)\<rparr>, r') \<and>
    ev_pending C w r' rest"
proof -
  let ?l = "request_line (ec_method c) (ec_uri c)"
  have ok: "token (ec_method c)" "token (ec_uri c)" "length ?l + length (header_lines (ec_lines c)) + 4 \<le> EVENT_HEADER_SIZE_LIMIT"
    using assms(2) by (simp_all add: ec_ok_def)
  have 1: "length ?l + 2 \<le> EVENT_HEADER_SIZE_LIMIT" and 2: "length ?l + 2 + length (header_lines (ec_lines c)) + 2 \<le> EVENT_HEADER_SIZE_LIMIT"
    using ok(3) by linarith+
  have "ev_pending C w r (s2b (?l @ crlf) @ s2b (header_lines (ec_lines c) @ crlf) @ ec_body c @ rest)"
    using assms(3) by (simp add: ec_bytes_def)
  from event_line [OF assms(1) request_line_text [OF ok(1,2)] 1 this] obtain r1 where
    r1: "read_event_line C EVENT_HEADER_SIZE_LIMIT [] r = (Inr ?l, r1)"
      "ev_pending C w r1 (s2b (header_lines (ec_lines c) @ crlf) @ ec_body c @ rest)" by blast
  from event_headers_pending [OF assms(1) ec_lines_ok(1) [OF assms(2)] 2 r1(2)] obtain r2 where
    r2: "read_event_headers C (length ?l + 2) (\<lparr>er_cseq = 0, body_length = 0\<rparr>, False) r1 =
        (Inr (\<lparr>er_cseq = ec_cseq c, body_length = length (ec_body c)\<rparr>, True), r2)" "ev_pending C w r2 (ec_body c @ rest)"
    unfolding ec_lines_ok(2) [OF assms(2), symmetric] by blast
  from drain_pending [OF assms(1) r2(2)] obtain r3 where
    "drain_body C (length (ec_body c)) r2 = (Inr (), r3)" "ev_pending C w r3 rest" by blast
  with r1(1) r2(1) show ?thesis
    by (simp add: read_event_request_def request_line_words [OF ok(1,2)] Let_def)
qed

text \<open>What serving well-formed commands writes: one acknowledgement each.\<close>

fun acknowledge :: "crypto \<Rightarrow> bool \<times> bytes \<times> u64 \<Rightarrow> event_command list \<Rightarrow> bytes" where
  "acknowledge C w [] = []"
| "acknowledge C (enc, key, n) (c # cs) =
    (let p = s2b (event_response (ec_cseq c)) in
     if enc then hap_frames C key n (chunks_of p) @ acknowledge C (enc, key, n + of_nat (length (chunks_of p))) cs
     else p @ acknowledge C (enc, key, n) cs)"

lemma hap_pending_write: "hap_pending C (s\<lparr>write_nonce := x\<rparr>) m p rest = hap_pending C s m p rest"
  by (simp add: hap_pending_def)

lemma serve_commands:
  assumes "aead_ok C"
  shows "\<forall>c \<in> set cs. ec_ok c \<Longrightarrow> ev_pending C w r (concat (map ec_bytes cs)) \<Longrightarrow> serve_events C r = acknowledge C w cs"
proof (induction cs arbitrary: w r)
  case Nil
  then have "ev_pending C w r []" by simp
  from event_line_end [OF this, of EVENT_HEADER_SIZE_LIMIT "[]"] obtain e r' where
    "read_event_request C r = (Inl e, r')" by (auto simp: read_event_request_def)
  then show ?case by (simp add: serve_events.simps)
next
  case (Cons c cs)
  then have "ev_pending C w r (ec_bytes c @ concat (map ec_bytes cs))" "ec_ok c" by simp_all
  from command_pending [OF assms this(2,1)] obtain r1 where
    1: "read_event_request C r = (Inr \<lparr>er_cseq = ec_cseq c, body_length = length (ec_body c)\<rparr>, r1)"
      "ev_pending C w r1 (concat (map ec_bytes cs))" by blast
  define p where "p = s2b (event_response (ec_cseq c))"
  obtain out ch where e: "ev_write C p (br_chan r1) = (out, ch)" by fastforce
  obtain enc key n where w: "w = (enc, key, n)" by (cases w) auto
  have wr: "chan_writer (br_chan r1) = (enc, key, n)" using 1(2) w by (simp add: ev_pending_def)
  define w' where "w' = (enc, key, if enc then n + of_nat (length (chunks_of p)) else n)"
  have "out = (if enc then hap_frames C key n (chunks_of p) else p)"
    using e wr by (auto simp: ev_write_def chan_writer_def event_write_frames split: if_splits)
  moreover have "ev_pending C w' (r1\<lparr>br_chan := ch\<rparr>) (concat (map ec_bytes cs))"
    using 1(2) e wr
    by (auto simp: ev_pending_def ev_write_def chan_pending_def chan_writer_def event_write_frames w'_def
        hap_pending_write split: if_splits)
  with Cons.IH Cons.prems(1) have "serve_events C (r1\<lparr>br_chan := ch\<rparr>) = acknowledge C w' cs" by simp
  ultimately show ?case
    using 1(1) e by (subst serve_events.simps) (auto simp: w w'_def p_def [symmetric] Let_def)
qed

definition ack_text :: "event_command list \<Rightarrow> string" where
  "ack_text cs = concat (map (\<lambda>c. event_response (ec_cseq c)) cs)"

lemma acknowledge_plain: "acknowledge C (False, key, n) cs = s2b (ack_text cs)"
  by (induction cs) (simp_all add: ack_text_def Let_def)

lemma acknowledge_frames:
  "\<exists>fs. acknowledge C (True, key, n) cs = hap_frames C key n fs \<and> concat fs = s2b (ack_text cs) \<and>
     (\<forall>c \<in> set fs. 1 \<le> length c \<and> length c \<le> 1024)"
proof (induction cs arbitrary: n)
  case Nil
  then show ?case by (intro exI [of _ "[]"]) (simp add: ack_text_def)
next
  case (Cons c cs)
  define p where "p = s2b (event_response (ec_cseq c))"
  from Cons [of "n + of_nat (length (chunks_of p))"] obtain fs where
    "acknowledge C (True, key, n + of_nat (length (chunks_of p))) cs = hap_frames C key (n + of_nat (length (chunks_of p))) fs"
    "concat fs = s2b (ack_text cs)" "\<forall>c \<in> set fs. 1 \<le> length c \<and> length c \<le> 1024" by blast
  then show ?case
    using chunks_of_sizes [of _ p]
    by (intro exI [of _ "chunks_of p @ fs"]) (auto simp: hap_frames_append p_def [symmetric] ack_text_def)
qed

text \<open>C23. The event channel works end to end: when a receiver writes any well-formed commands to it, the thread of
  the sender ends after the last of them and has written exactly one \<open>200 OK\<close> with the \<open>CSeq\<close> of each,
  in order. On an encrypted channel the receiver writes frames with the key it derives for its events, and reads the
  acknowledgements back with its other key; on a plain channel both are the bytes themselves.\<close>

theorem event_commands_acknowledged:
  assumes "aead_ok C" "secret \<noteq> []" "\<forall>c \<in> set cs. ec_ok c"
    and keys: "wk = hkdf_expand C secret (s2b ''Events-Salt'') (s2b ''Events-Write-Encryption-Key'') 32"
      "rk = hkdf_expand C secret (s2b ''Events-Salt'') (s2b ''Events-Read-Encryption-Key'') 32"
    and conn: "event_connect C (fst (event_writer C wk 0 (concat (map ec_bytes cs)))) True secret = Inr ch"
      "event_connect C (concat (map ec_bytes cs)) False secret = Inr plain"
  shows "(\<exists>s. read_exact_from (event_read C) (length (ack_text cs)) (HapStream_new (serve_event_channel C ch) rk wk) =
      (Inr (s2b (ack_text cs)), s) \<and> read_buf s = [] \<and> conn s = [])
    \<and> serve_event_channel C plain = s2b (ack_text cs)"
proof (rule conjI)
  define inp where "inp = concat (map ec_bytes cs)"
  have ch: "ch = \<lparr>ev_encrypted = True, ev_stream = HapStream_new (hap_frames C wk 0 (chunks_of inp)) wk rk\<rparr>"
    using conn(1) assms(2)
    by (simp add: event_connect_def event_channel_new_def keys event_writer_def event_write_frames HapStream_new_def inp_def)
  have "\<exists>m. hap_pending C (ev_stream ch) m inp []"
    unfolding hap_pending_def using chunks_of_sizes [of _ inp]
    by (intro exI [of _ "chunks_of inp"] exI) (auto simp: ch HapStream_new_def)
  then have "ev_pending C (True, rk, 0) \<lparr>br_buf = [], br_chan = ch\<rparr> inp"
    by (simp add: ev_pending_def chan_pending_def chan_writer_def ch HapStream_new_def)
  then have s: "serve_event_channel C ch = acknowledge C (True, rk, 0) cs"
    using serve_commands [OF assms(1,3)] by (simp add: serve_event_channel_def inp_def)
  obtain fs where fs: "acknowledge C (True, rk, 0) cs = hap_frames C rk 0 fs" "concat fs = s2b (ack_text cs)"
      "\<forall>c \<in> set fs. 1 \<le> length c \<and> length c \<le> 1024" using acknowledge_frames by blast
  define s0 where "s0 = HapStream_new (serve_event_channel C ch) rk wk"
  have pend: "hap_pending C s0 (of_nat (length fs)) (s2b (ack_text cs)) []"
    unfolding hap_pending_def using fs by (intro exI [of _ fs]) (simp add: s0_def HapStream_new_def s)
  from event_rd.read_exact_pending [OF assms(1) pend, of "length (ack_text cs)"] obtain s' where
    s': "read_exact_from (event_read C) (length (ack_text cs)) s0 = (Inr (s2b (ack_text cs)), s')"
      "hap_pending C s' (of_nat (length fs)) [] []" by auto
  then obtain ds where ds: "\<forall>c \<in> set ds. 1 \<le> length c" "read_buf s' = []" "concat ds = []"
      "conn s' = hap_frames C (read_key s') (read_nonce s') ds" by (auto simp: hap_pending_def)
  then have "ds = []" by (cases ds) auto
  with ds s'(1) show "\<exists>s. read_exact_from (event_read C) (length (ack_text cs)) (HapStream_new (serve_event_channel C ch) rk wk) =
      (Inr (s2b (ack_text cs)), s) \<and> read_buf s = [] \<and> conn s = []"
    unfolding s0_def by auto
  have "ev_pending C (False, [], 0) \<lparr>br_buf = [], br_chan = plain\<rparr> inp"
    using conn(2) by (auto simp: event_connect_def event_channel_new_def ev_pending_def chan_pending_def chan_writer_def
        HapStream_new_def inp_def)
  then show "serve_event_channel C plain = s2b (ack_text cs)"
    using serve_commands [OF assms(1,3)] acknowledge_plain by (simp add: serve_event_channel_def inp_def)
qed

text \<open>Two commands: one with a body and a header of its own, one without.\<close>

definition demo_commands :: "event_command list" where
  "demo_commands =
    [\<lparr>ec_method = ''POST'', ec_uri = ''/command'', ec_cseq = 7, ec_headers = [(''Server'', ''TV'')], ec_body = [1, 2, 3]\<rparr>,
     \<lparr>ec_method = ''POST'', ec_uri = ''/feedback'', ec_cseq = 8, ec_headers = [], ec_body = []\<rparr>]"

lemma demo_commands_ok: "\<forall>c \<in> set demo_commands. ec_ok c"
proof -
  have "dec (Suc (Suc (Suc 0))) = ''3''" "dec 7 = ''7''" "dec 0 = ''0''" "dec 8 = ''8''" by code_simp+
  then show ?thesis
    by (simp add: demo_commands_def ec_ok_def event_header_ok_def header_ok_def name_tokens lower_names ec_lines_def
        request_line_def header_line_def crlf_def EVENT_HEADER_SIZE_LIMIT_def EVENT_BODY_SIZE_LIMIT_def
        token_def trimmed_def visible_def ascii_char_def ascii_white_def)
qed

theorem event_commands_acknowledged_witness:
  "\<exists>ch plain. event_connect toy_crypto (concat (map ec_bytes demo_commands)) False [1] = Inr plain \<and>
     serve_event_channel toy_crypto plain = s2b (event_response 7 @ event_response 8) \<and>
     (\<exists>s. read_exact_from (event_read toy_crypto) (length (ack_text demo_commands))
        (HapStream_new (serve_event_channel toy_crypto ch)
          (hkdf_expand toy_crypto [1] (s2b ''Events-Salt'') (s2b ''Events-Read-Encryption-Key'') 32)
          (hkdf_expand toy_crypto [1] (s2b ''Events-Salt'') (s2b ''Events-Write-Encryption-Key'') 32)) =
        (Inr (s2b (ack_text demo_commands)), s))"
proof -
  obtain ch where ch: "event_connect toy_crypto (fst (event_writer toy_crypto
      (hkdf_expand toy_crypto [1] (s2b ''Events-Salt'') (s2b ''Events-Write-Encryption-Key'') 32) 0
      (concat (map ec_bytes demo_commands)))) True [1] = Inr ch"
    by (simp add: event_connect_def event_channel_new_def)
  obtain plain where plain: "event_connect toy_crypto (concat (map ec_bytes demo_commands)) False [1] = Inr plain"
    by (simp add: event_connect_def event_channel_new_def)
  have "ack_text demo_commands = event_response 7 @ event_response 8" by (simp add: ack_text_def demo_commands_def)
  with event_commands_acknowledged [OF _ _ demo_commands_ok refl refl ch plain] plain show ?thesis by auto
qed

end
