(* ===== verification/Udp_Ports.thy ===== *)
theory Udp_Ports
  imports Prelude
begin

text \<open>
  Allocation of consecutive UDP ports (\<open>allocate_consecutive_udp_ports\<close> of mirror.rs). Binding a socket is an
  argument: from the port asked for, 0 for any, and the state of the system, it gives the port of the bound socket,
  or nothing. Sockets are their ports; closing those of a failed attempt does not change what can be bound later.
  Sums of \<open>u16\<close> wrap, as they do in a release build, so the search of a range may come back to low ports
  and need not end: its result is an option.
\<close>

type_synonym 'w udp_bind = "u16 \<Rightarrow> 'w \<Rightarrow> u16 option \<times> 'w"

text \<open>The sockets after the first: \<open>n\<close> more from offset \<open>i\<close> on.\<close>

fun bind_following :: "'w udp_bind \<Rightarrow> u16 \<Rightarrow> nat \<Rightarrow> nat \<Rightarrow> 'w \<Rightarrow> u16 list option \<times> 'w" where
  "bind_following bnd base i 0 w = (Some [], w)"
| "bind_following bnd base i (Suc n) w =
    (case bnd (base + word_of_nat i) w of
       (None, w) \<Rightarrow> (None, w)
     | (Some p, w) \<Rightarrow> (case bind_following bnd base (Suc i) n w of
           (None, w) \<Rightarrow> (None, w) | (Some ps, w) \<Rightarrow> (Some (p # ps), w)))"

fun allocate_any :: "'w udp_bind \<Rightarrow> nat \<Rightarrow> nat \<Rightarrow> 'w \<Rightarrow> u16 list res \<times> 'w" where
  "allocate_any bnd count 0 w =
    (Inl (protocol (''could not allocate '' @ dec count @ '' consecutive UDP ports after 20 attempts'')), w)"
| "allocate_any bnd count (Suc tries) w =
    (case bnd 0 w of
       (None, w) \<Rightarrow> (Inl (Err (Transport ''bind udp'')), w)
     | (Some base, w) \<Rightarrow> (case bind_following bnd base 1 (count - 1) w of
           (Some ps, w) \<Rightarrow> (Inr (base # ps), w)
         | (None, w) \<Rightarrow> allocate_any bnd count tries w))"

partial_function (option) allocate_range ::
  "'w udp_bind \<Rightarrow> nat \<Rightarrow> fault \<Rightarrow> u16 \<Rightarrow> u16 \<Rightarrow> 'w \<Rightarrow> (u16 list res \<times> 'w) option" where
  "allocate_range bnd count fail port_max base w =
    (if base + word_of_nat count - 1 \<le> port_max then
       (case bnd base w of
          (None, w) \<Rightarrow> allocate_range bnd count fail port_max (base + 1) w
        | (Some actual, w) \<Rightarrow> (case bind_following bnd actual 1 (count - 1) w of
              (Some ps, w) \<Rightarrow> Some (Inr (actual # ps), w)
            | (None, w) \<Rightarrow> allocate_range bnd count fail port_max (actual + 1) w))
     else Some (Inl fail, w))"

definition range_text :: "u16 \<Rightarrow> u16 \<Rightarrow> string" where
  "range_text port_min port_max = dec (unat port_min) @ ''-'' @ dec (unat port_max)"

definition allocate_consecutive_udp_ports ::
  "'w udp_bind \<Rightarrow> nat \<Rightarrow> u16 \<Rightarrow> u16 \<Rightarrow> 'w \<Rightarrow> (u16 list res \<times> 'w) option" where
  "allocate_consecutive_udp_ports bnd count port_min port_max w =
    (if port_min = 0 \<and> port_max = 0 then Some (allocate_any bnd count 20 w)
     else if port_min = 0 \<or> port_max = 0 \<or> port_max < port_min
     then Some (Inl (protocol (''invalid UDP port range '' @ range_text port_min port_max)), w)
     else allocate_range bnd count
       (protocol (''no '' @ dec count @ '' consecutive free UDP ports in range '' @ range_text port_min port_max))
       port_max port_min w)"

subsection \<open>Properties\<close>

text \<open>What a system with a fixed set of free ports does: a port is bound if it is free.\<close>

definition binds_free :: "'w udp_bind \<Rightarrow> (nat \<Rightarrow> bool) \<Rightarrow> bool" where
  "binds_free bnd free \<longleftrightarrow> (\<forall>p w. p \<noteq> 0 \<longrightarrow> fst (bnd p w) = (if free (unat p) then Some p else None))"

definition window_free :: "(nat \<Rightarrow> bool) \<Rightarrow> nat \<Rightarrow> nat \<Rightarrow> bool" where
  "window_free free b n \<longleftrightarrow> list_all free [b..<b + n]"

lemma u16_of_nat: "b < 65536 \<Longrightarrow> unat (word_of_nat b :: u16) = b"
  by (simp add: unat_of_nat)

lemma u16_not_zero: "0 < b \<Longrightarrow> b < 65536 \<Longrightarrow> (word_of_nat b :: u16) \<noteq> 0"
  using u16_of_nat [of b] by (auto dest: arg_cong [of _ _ unat])

lemma binds_freeD:
  assumes "binds_free bnd free" "0 < b" "b < 65536"
  shows "\<exists>w'. bnd (word_of_nat b) w = (if free b then Some (word_of_nat b) else None, w')"
proof -
  have "fst (bnd (word_of_nat b) w) = (if free b then Some (word_of_nat b) else None)"
    using assms(1) u16_not_zero [OF assms(2,3)] u16_of_nat [OF assms(3)] by (simp add: binds_free_def)
  then show ?thesis by (cases "bnd (word_of_nat b) w") simp
qed

lemma bind_following_free:
  assumes "binds_free bnd free" "0 < b"
  shows "b + i + n \<le> 65536 \<Longrightarrow> \<exists>w'. bind_following bnd (word_of_nat b) i n w =
    (if window_free free (b + i) n then Some (map word_of_nat [b + i..<b + i + n]) else None, w')"
proof (induction n arbitrary: i w)
  case 0
  then show ?case by (simp add: window_free_def)
next
  case (Suc n)
  from binds_freeD [OF assms(1), of "b + i" w] Suc.prems assms(2) obtain w1 where
    1: "bnd (word_of_nat (b + i)) w = (if free (b + i) then Some (word_of_nat (b + i)) else None, w1)" by auto
  from Suc.IH [of "Suc i" w1] Suc.prems obtain w2 where
    2: "bind_following bnd (word_of_nat b) (Suc i) n w1 =
      (if window_free free (b + Suc i) n then Some (map word_of_nat [b + Suc i..<b + Suc i + n]) else None, w2)" by auto
  have "[b + i..<b + i + Suc n] = (b + i) # [b + Suc i..<b + Suc i + n]" by (simp add: upt_conv_Cons del: upt_Suc)
  with 1 2 show ?case by (auto simp: window_free_def simp del: upt_Suc)
qed

lemma allocate_range_finds:
  assumes "binds_free bnd free" "0 < count" "unat pm + max count 2 \<le> 65536"
  shows "0 < b \<Longrightarrow> b \<le> max (unat pm) (unat pm + 2 - count) \<Longrightarrow> \<exists>w'. allocate_range bnd count e pm (word_of_nat b) w =
    (case find (\<lambda>p. window_free free p count) [b..<unat pm + 2 - count] of
       None \<Rightarrow> Some (Inl e, w') | Some p \<Rightarrow> Some (Inr (map word_of_nat [p..<p + count]), w'))"
proof (induction "unat pm + 2 - b" arbitrary: b w rule: less_induct)
  case less
  note b = less.prems
  have lt: "unat pm < 65535" using assms(3) by linarith
  define lim where "lim = unat pm + 2 - count"
  have c: "(word_of_nat b + word_of_nat count - 1 :: u16) \<le> pm \<longleftrightarrow> b < lim"
  proof -
    have "word_of_nat b + word_of_nat count - 1 = (word_of_nat (b + count - 1) :: u16)"
      using assms(2) by (simp add: of_nat_diff)
    moreover have "b + count - 1 < 65536" using b(2) assms(2,3) by linarith
    ultimately have "unat (word_of_nat b + word_of_nat count - 1 :: u16) = b + count - 1"
      by (simp only: u16_of_nat)
    then show ?thesis using assms(2) unfolding word_le_nat_alt lim_def by linarith
  qed
  show ?case
  proof (cases "b < lim")
    case False
    then have "[b..<lim] = []" by simp
    with c False show ?thesis
      unfolding lim_def [symmetric] by (subst allocate_range.simps) simp
  next
    case True
    have upt: "[b..<lim] = b # [Suc b..<lim]" using True by (simp add: upt_conv_Cons)
    have dec: "unat pm + 2 - Suc b < unat pm + 2 - b" "0 < Suc b" "Suc b \<le> max (unat pm) lim"
      using True assms(2) by (auto simp: lim_def)
    note IH = less.hyps [OF dec [unfolded lim_def], folded lim_def]
    have "0 < b" "b < 65536" using b True lt assms(2) by (auto simp: lim_def)
    from binds_freeD [OF assms(1) this, of w] obtain w1 where
      1: "bnd (word_of_nat b) w = (if free b then Some (word_of_nat b) else None, w1)" by blast
    have bc: "b + 1 + (count - 1) \<le> 65536" using True assms(2,3) by (auto simp: lim_def)
    from bind_following_free [OF assms(1) b(1) bc, of w1] obtain w2 where
      2: "bind_following bnd (word_of_nat b) 1 (count - 1) w1 =
        (if window_free free (b + 1) (count - 1) then Some (map word_of_nat [b + 1..<b + 1 + (count - 1)]) else None, w2)"
      by blast
    have win: "window_free free b count \<longleftrightarrow> free b \<and> window_free free (b + 1) (count - 1)"
      "[b..<b + count] = b # [b + 1..<b + 1 + (count - 1)]"
      using assms(2) by (simp_all add: window_free_def upt_conv_Cons)
    have suc: "(word_of_nat b + 1 :: u16) = word_of_nat (Suc b)" by simp
    show ?thesis
      using c True 1 2 win IH [of w1] IH [of w2]
      unfolding lim_def [symmetric]
      by (subst allocate_range.simps) (auto simp: upt suc simp del: upt_Suc of_nat_Suc)
  qed
qed

text \<open>At the top of the port range the arithmetic wraps: one port more than there are is bound as port 0.\<close>

lemma bind_following_wraps:
  assumes "binds_free bnd (\<lambda>p. True)" "\<And>w. fst (bnd 0 w) \<noteq> None" "0 < b"
  shows "b + i + n = 65536 \<Longrightarrow> \<exists>any w'. bind_following bnd (word_of_nat b) i (Suc n) w =
    (Some (map word_of_nat [b + i..<65536] @ [any]), w')"
proof (induction n arbitrary: i w)
  case 0
  then have "word_of_nat b + word_of_nat i = (word_of_nat 65536 :: u16)" by (metis add.right_neutral of_nat_add)
  then have z: "word_of_nat b + word_of_nat i = (0 :: u16)" by simp
  obtain any w1 where "bnd 0 w = (Some any, w1)" using assms(2) [of w] by (cases "bnd 0 w") auto
  with 0 z show ?case by simp
next
  case (Suc n)
  from binds_freeD [OF assms(1), of "b + i" w] Suc.prems assms(3) obtain w1 where
    1: "bnd (word_of_nat b + word_of_nat i) w = (Some (word_of_nat (b + i)), w1)" by auto
  from Suc.IH [of "Suc i" w1] Suc.prems obtain any w2 where
    2: "bind_following bnd (word_of_nat b) (Suc i) (Suc n) w1 = (Some (map word_of_nat [b + Suc i..<65536] @ [any]), w2)" by auto
  have "[b + i..<65536] = (b + i) # [b + Suc i..<65536]" using Suc.prems by (simp add: upt_conv_Cons del: upt_Suc)
  then show ?case
    unfolding bind_following.simps(2) [of bnd "word_of_nat b" i "Suc n" w] 1 prod.case option.case 2 by simp
qed

lemma allocate_range_wraps:
  assumes "binds_free bnd (\<lambda>p. True)" "\<And>w. fst (bnd 0 w) \<noteq> None" "0 < b" "1 < count" "b + count = 65537"
  shows "\<exists>any w'. allocate_range bnd count e pm (word_of_nat b) w = Some (Inr (map word_of_nat [b..<65536] @ [any]), w')"
proof -
  have "word_of_nat b + word_of_nat count = (word_of_nat 65537 :: u16)" unfolding assms(5) [symmetric] by simp
  then have z: "word_of_nat b + word_of_nat count - 1 = (0 :: u16)" by simp
  obtain w1 where 1: "bnd (word_of_nat b) w = (Some (word_of_nat b), w1)"
    using binds_freeD [OF assms(1,3), of w] assms(4,5) by auto
  have "count - 1 = Suc (count - 2)" "b + 1 + (count - 2) = 65536" using assms(4,5) by simp_all
  with bind_following_wraps [OF assms(1-3), of 1 "count - 2" w1] obtain any w2 where
    2: "bind_following bnd (word_of_nat b) 1 (count - 1) w1 = (Some (map word_of_nat [b + 1..<65536] @ [any]), w2)" by metis
  have "[b..<65536] = b # [b + 1..<65536]" using assms(4,5) by (simp add: upt_conv_Cons del: upt_Suc)
  with z 1 2 show ?thesis by (subst allocate_range.simps) (simp del: upt_Suc)
qed

text \<open>C22. On a system with a fixed set of free ports and a valid range: as long as the range ends so far below 65536
  that no sum of the search wraps (its last port plus the number of ports asked for, at least two, is at most
  65536), the search ends, returns the first window of consecutive free ports inside the range, and fails exactly
  when the range has none. Ports at the top are not treated so: when one port more is asked for than there are from
  the first port of the range up, and all are free, the search succeeds with those and a port of the system's own choice.\<close>

theorem port_range_search:
  assumes "binds_free bnd free" "0 < count" "port_min \<noteq> 0" "port_min \<le> port_max"
  shows "(unat port_max + max count 2 \<le> 65536 \<longrightarrow>
      (\<exists>r w'. allocate_consecutive_udp_ports bnd count port_min port_max w = Some (r, w') \<and>
        (case find (\<lambda>p. window_free free p count) [unat port_min..<unat port_max + 2 - count] of
           None \<Rightarrow> \<exists>e. r = Inl e | Some p \<Rightarrow> r = Inr (map word_of_nat [p..<p + count])))) \<and>
    (free = (\<lambda>p. True) \<and> (\<forall>w. fst (bnd 0 w) \<noteq> None) \<and> unat port_min + count = 65537 \<longrightarrow>
      (\<exists>any w'. allocate_consecutive_udp_ports bnd count port_min port_max w =
        Some (Inr (map word_of_nat [unat port_min..<65536] @ [any]), w')))"
proof -
  have pmin: "0 < unat port_min" "unat port_min \<le> unat port_max" "port_max \<noteq> 0"
    using assms(3,4) by (auto simp: word_le_nat_alt unat_gt_0 unat_eq_0)
  define e where "e = protocol (''no '' @ dec count @ '' consecutive free UDP ports in range '' @ range_text port_min port_max)"
  have a: "allocate_consecutive_udp_ports bnd count port_min port_max w = allocate_range bnd count e port_max (word_of_nat (unat port_min)) w"
    using assms(3,4) pmin(3)
    unfolding allocate_consecutive_udp_ports_def e_def [symmetric] by (auto simp: not_less)
  have "unat port_min < 65536" using unsigned_less [of port_min, where ?'a = nat] by simp
  then have two: "unat port_min + count = 65537 \<Longrightarrow> 1 < count" by linarith
  have "unat port_min \<le> max (unat port_max) (unat port_max + 2 - count)" using pmin(2) by simp
  note find_it = allocate_range_finds [OF assms(1,2) _ pmin(1) this, of e w]
  have wrap_it: "\<exists>any w'. allocate_range bnd count e port_max (word_of_nat (unat port_min)) w =
      Some (Inr (map word_of_nat [unat port_min..<65536] @ [any]), w')"
    if "binds_free bnd (\<lambda>p. True)" "\<forall>w. fst (bnd 0 w) \<noteq> None" "unat port_min + count = 65537"
    using allocate_range_wraps [OF that(1) spec [OF that(2)] pmin(1) two [OF that(3)] that(3)] .
  show ?thesis unfolding a 
  proof (intro conjI impI, goal_cases)
    case 1
    then show ?case using find_it by (auto split: option.splits)
  next
    case 2
    then show ?case using wrap_it assms(1) by blast
  qed
qed

text \<open>Ports 7000 and 7004 are taken.\<close>

definition demo_bind :: "unit udp_bind" where
  "demo_bind p w = (if p \<in> {7000, 7004} then None else if p = 0 then Some 50000 else Some p, ())"

theorem port_range_search_witness:
  "(\<exists>w'. allocate_consecutive_udp_ports demo_bind 3 7000 7010 () = Some (Inr [7001, 7002, 7003], w')) \<and>
   (\<exists>any. allocate_consecutive_udp_ports (\<lambda>p w. (Some (if p = 0 then 50000 else p), w)) 3 65534 65535 () =
     Some (Inr [65534, 65535, any], ()))"
proof
  have free: "binds_free demo_bind (\<lambda>p. p \<noteq> 7000 \<and> p \<noteq> 7004)"
    by (auto simp: binds_free_def demo_bind_def word_unat_eq_iff)
  have "find (\<lambda>p. window_free (\<lambda>p. p \<noteq> 7000 \<and> p \<noteq> 7004) p 3) [unat (7000 :: u16)..<unat (7010 :: u16) + 2 - 3] = Some 7001"
    by (simp add: window_free_def upt_rec)
  moreover have "\<exists>r w'. allocate_consecutive_udp_ports demo_bind 3 7000 7010 () = Some (r, w') \<and>
    (case find (\<lambda>p. window_free (\<lambda>p. p \<noteq> 7000 \<and> p \<noteq> 7004) p 3) [unat (7000 :: u16)..<unat (7010 :: u16) + 2 - 3] of
       None \<Rightarrow> \<exists>e. r = Inl e | Some p \<Rightarrow> r = Inr (map word_of_nat [p..<p + 3]))"
    by (rule conjunct1 [OF port_range_search [OF free], THEN mp]) simp_all
  ultimately show "\<exists>w'. allocate_consecutive_udp_ports demo_bind 3 7000 7010 () = Some (Inr [7001, 7002, 7003], w')"
    by (auto simp: upt_rec)
  have "binds_free (\<lambda>p w. (Some (if p = 0 then 50000 else p), w)) (\<lambda>p. True)" by (simp add: binds_free_def)
  from conjunct2 [OF port_range_search [OF this, of 3 65534 65535 "()"]]
  show "\<exists>any. allocate_consecutive_udp_ports (\<lambda>p w. (Some (if p = 0 then 50000 else p), w)) 3 65534 65535 () =
     Some (Inr [65534, 65535, any], ())"
    by (simp add: upt_rec)
qed

end
