(* ===== verification/Mirror_Setup.thy ===== *)
theory Mirror_Setup
  imports Mirror_Session Event_Channel Udp_Ports
begin

text \<open>
  The negotiation of a mirroring session (\<open>setup_mirror_session\<close> of mirror.rs): the plists of the SETUP
  requests, the requests themselves with RECORD, what is read from the answers, the event channels that are opened,
  and the keys. Requests go through the argument \<open>rtsp\<close> of Mirror_Session. Everything else that the
  function takes from its surroundings is in the record \<open>mirror_env\<close>: random bytes, clock readings, bound
  sockets, and the outcome of connecting. The code moves the client in and loses it on an error; here an error
  comes with the state reached.
\<close>

subsection \<open>Request plists\<close>

definition TIMING_PROTOCOL_NTP :: string where "TIMING_PROTOCOL_NTP = ''NTP''"
definition TIMING_PROTOCOL_PTP :: string where "TIMING_PROTOCOL_PTP = ''PTP''"
definition LEGACY_SOURCE_VERSION :: string where "LEGACY_SOURCE_VERSION = ''280.33''"
definition MODERN_SOURCE_VERSION :: string where "MODERN_SOURCE_VERSION = ''980.71.1''"

definition d_data :: "string \<Rightarrow> bytes \<Rightarrow> plist \<Rightarrow> plist" where
  "d_data key v = d_insert key (PData v)"

record SetupRequest =
  su_device_id :: string
  su_session_uuid :: string
  su_source_version :: string
  su_timing_protocol :: string
  su_timing_port :: u16
  su_timing_peer_id :: string
  su_timing_peer_address :: string
  su_name :: string

definition timing_peer :: "SetupRequest \<Rightarrow> plist" where
  "timing_peer q = p_build
    [d_string ''ID'' (su_timing_peer_id q), d_bool ''SupportsClockPortMatchingOverride'' True, d_int ''DeviceType'' 0,
     d_insert ''Addresses'' (PArray [PString (su_timing_peer_address q)])]"

definition session_plist :: "SetupRequest \<Rightarrow> plist" where
  "session_plist q =
    (let request = p_build
       [d_string ''deviceID'' (su_device_id q), d_string ''macAddress'' (su_device_id q),
        d_string ''sessionUUID'' (su_session_uuid q), d_string ''sourceVersion'' (su_source_version q),
        d_bool ''isScreenMirroringSession'' True, d_string ''timingProtocol'' (su_timing_protocol q),
        d_string ''osBuildVersion'' ''13F69'', d_string ''model'' ''Linux'', d_string ''name'' (su_name q)]
     in if su_timing_protocol q = TIMING_PROTOCOL_NTP
        then d_int ''timingPort'' (int (unat (su_timing_port q))) request
        else d_insert ''timingPeerList'' (PArray [timing_peer q]) (d_insert ''timingPeerInfo'' (timing_peer q) request))"

definition control_plist :: "SetupRequest \<Rightarrow> plist" where
  "control_plist q = d_bool ''updateSessionRequest'' False (session_plist q)"

definition legacy_stream_plist :: "plist \<Rightarrow> SetupRequest \<Rightarrow> plist" where
  "legacy_stream_plist stream q = d_insert ''streams'' (PArray [stream]) (session_plist q)"

definition stream_only_plist :: "plist \<Rightarrow> plist" where
  "stream_only_plist stream = d_insert ''streams'' (PArray [stream]) p_dict"

definition dict_of :: "string \<Rightarrow> string \<Rightarrow> plist" where
  "dict_of key v = d_string key v p_dict"

text \<open>The stream descriptors.\<close>

definition audio_stream_desc :: "nat \<Rightarrow> u32 \<Rightarrow> bool \<Rightarrow> bytes \<Rightarrow> u16 \<Rightarrow> plist" where
  "audio_stream_desc connection_id latency chacha key ctrl_port =
    (let d = p_build
       [d_int ''type'' 96, d_int ''streamConnectionID'' (int connection_id), d_int ''ct'' 2, d_int ''spf'' 352,
        d_int ''sr'' 44100, d_int ''audioFormat'' 0, d_string ''audioMode'' ''default'', d_bool ''usingScreen'' True,
        d_int ''latencyMin'' 0, d_int ''latencyMax'' (int (unat latency))];
         rtp = d_bool ''streamConnectionKeyUseStreamEncryptionKey'' True p_dict;
         rtcp = d_int ''streamConnectionKeyPort'' (int (unat ctrl_port)) p_dict;
         conns = d_insert ''streamConnectionTypeRTCP'' rtcp (d_insert ''streamConnectionTypeRTP'' rtp p_dict)
     in if chacha then fold (\<lambda>f d. f d)
          [d_data ''shk'' key, d_bool ''isMedia'' False, d_bool ''supportsDynamicStreamID'' True,
           d_insert ''streamConnections'' conns] d
        else fold (\<lambda>f d. f d) [d_int ''controlPort'' (int (unat ctrl_port)), d_int ''redundantAudio'' 2] d)"

definition video_stream_desc :: "nat \<Rightarrow> bytes \<Rightarrow> bytes \<Rightarrow> plist" where
  "video_stream_desc connection_id key iv =
    (let d = p_build
       [d_int ''type'' 110, d_int ''streamConnectionID'' (int connection_id),
        d_insert ''timestampInfo'' (PArray
          [dict_of ''name'' ''SubSu'', dict_of ''name'' ''BePxT'', dict_of ''name'' ''AfPxT'',
           dict_of ''name'' ''BefEn'', dict_of ''name'' ''EmEnc''])]
     in if key \<noteq> [] then d_data ''shiv'' iv (d_data ''shk'' key d) else d)"

subsection \<open>Reading the answers\<close>

definition get_int :: "string \<Rightarrow> plist \<Rightarrow> int" where
  "get_int k v = plist_int (case p_get k v of Some x \<Rightarrow> x | None \<Rightarrow> PInt 0)"

definition get_u16 :: "string \<Rightarrow> plist \<Rightarrow> u16" where
  "get_u16 k v = word_of_int (get_int k v)"

definition skip_record_of :: "plist \<Rightarrow> bool" where
  "skip_record_of v \<longleftrightarrow> p_get ''skipRecord'' v = Some (PBool True)"

definition response_streams :: "plist \<Rightarrow> plist list" where
  "response_streams v =
    (case p_get ''streams'' v of None \<Rightarrow> [] | Some a \<Rightarrow> (case as_array a of None \<Rightarrow> [] | Some l \<Rightarrow> l))"

text \<open>A port nested under \<open>streamConnections\<close>, which counts when it is positive.\<close>

definition nested_port :: "string \<Rightarrow> plist \<Rightarrow> u16 \<Rightarrow> u16" where
  "nested_port kind stream old =
    (case p_get ''streamConnections'' stream of
       None \<Rightarrow> old
     | Some conns \<Rightarrow> (case p_get kind conns of
         None \<Rightarrow> old
       | Some c \<Rightarrow> (case p_get ''streamConnectionKeyPort'' c of
           None \<Rightarrow> old
         | Some p \<Rightarrow> if 0 < plist_int p then word_of_int (plist_int p) else old)))"

definition audio_ports_step :: "plist \<Rightarrow> u16 \<times> u16 \<Rightarrow> u16 \<times> u16" where
  "audio_ports_step s ports =
    (if as_dictionary s \<noteq> None \<and> get_int ''type'' s = 96
     then (nested_port ''streamConnectionTypeRTP'' s (get_u16 ''dataPort'' s),
           nested_port ''streamConnectionTypeRTCP'' s (get_u16 ''controlPort'' s))
     else ports)"

definition audio_ports_of :: "plist \<Rightarrow> u16 \<times> u16" where
  "audio_ports_of v = fold audio_ports_step (response_streams v) (0, 0)"

definition video_port_of :: "plist \<Rightarrow> int" where
  "video_port_of v =
    fold (\<lambda>s p. if as_dictionary s \<noteq> None \<and> get_int ''type'' s = 110 then get_int ''dataPort'' s else p)
      (response_streams v) 0"

subsection \<open>The surroundings and the state\<close>

text \<open>
  Sixteen random bytes for each identifier, sixteen each for fallback stream keys, 32 for the audio key; the sockets
  allocated; the latency target; the system time in nanoseconds, absent before 1970; the instants at which the
  three answers arrive; the bytes that come in on an event channel if its port can be connected; the data port.
\<close>

record mirror_env =
  en_uuid_session :: bytes
  en_uuid_peer :: bytes
  en_name :: string
  en_local_ip :: "string option"
  en_stream_draw :: "bytes \<times> bytes"
  en_ports :: "u16 list res"
  en_target :: int
  en_round :: rounding
  en_nanos_audio :: "nat option"
  en_nanos_video :: "nat option"
  en_audio_key :: bytes
  en_received :: "nat \<times> nat \<times> nat"
  en_event :: "u16 \<Rightarrow> bytes option"
  en_data :: "u16 \<Rightarrow> bool"

record 'e setup_state =
  st_client :: Client
  st_world :: 'e
  st_clock :: "MediaClock option"
  st_events :: "(u16 \<times> EventChannel) list"

text \<open>Sequencing with early return.\<close>

definition sbind :: "('s \<Rightarrow> 'a res \<times> 's) \<Rightarrow> ('a \<Rightarrow> 's \<Rightarrow> 'b res \<times> 's) \<Rightarrow> 's \<Rightarrow> 'b res \<times> 's" where
  "sbind f g s = (case f s of (Inl e, s) \<Rightarrow> (Inl e, s) | (Inr x, s) \<Rightarrow> g x s)"

definition sreturn :: "'a \<Rightarrow> 's \<Rightarrow> 'a res \<times> 's" where
  "sreturn x s = (Inr x, s)"

definition slift :: "'a res \<Rightarrow> 's \<Rightarrow> 'a res \<times> 's" where
  "slift r s = (r, s)"

lemma sbind_simps [simp]:
  "f s = (Inl e, s') \<Longrightarrow> sbind f g s = (Inl e, s')" "f s = (Inr x, s') \<Longrightarrow> sbind f g s = g x s'"
  "sbind (sreturn x) g = g x" "sbind (slift (Inr x)) g = g x"
  by (simp_all add: sbind_def sreturn_def slift_def fun_eq_iff)

lemma sbind_Inr:
  "sbind f g s = (Inr y, s'') \<longleftrightarrow> (\<exists>x s'. f s = (Inr x, s') \<and> g x s' = (Inr y, s''))"
  by (auto simp: sbind_def split: prod.splits sum.splits)

definition rtsp_call ::
  "'e rtsp \<Rightarrow> string \<Rightarrow> string \<Rightarrow> string \<Rightarrow> bytes \<Rightarrow> (string \<Rightarrow> string option) \<Rightarrow> 'e setup_state \<Rightarrow>
     (bytes \<times> (string \<Rightarrow> string option)) res \<times> 'e setup_state" where
  "rtsp_call rtsp meth uri content_type b hs st =
    (let (r, (c, w)) = rtsp meth uri content_type b hs (st_client st, st_world st)
     in (r, st\<lparr>st_client := c, st_world := w\<rparr>))"

definition BPLIST_TYPE :: string where "BPLIST_TYPE = ''application/x-apple-binary-plist''"

text \<open>The media clock takes the answer, when there is a clock and the timing protocol is PTP.\<close>

definition configure_clock ::
  "bool \<Rightarrow> plist \<Rightarrow> (string \<Rightarrow> string option) \<Rightarrow> nat \<Rightarrow> 'e setup_state \<Rightarrow> unit res \<times> 'e setup_state" where
  "configure_clock ptp response hs received_at st =
    (case st_clock st of
       None \<Rightarrow> (Inr (), st)
     | Some clock \<Rightarrow>
         if ptp then (let (r, clock) = configure_from_setup response hs received_at clock in (r, st\<lparr>st_clock := Some clock\<rparr>))
         else (Inr (), st))"

text \<open>The closure \<open>send_setup\<close>; \<open>ptp\<close> tells whether the timing protocol is PTP.\<close>

definition send_setup ::
  "plist_lib \<Rightarrow> 'e rtsp \<Rightarrow> bool \<Rightarrow> string \<Rightarrow> string \<Rightarrow> plist \<Rightarrow> nat \<Rightarrow> 'e setup_state \<Rightarrow> plist res \<times> 'e setup_state" where
  "send_setup L rtsp ptp uri phase request received_at =
    sbind (rtsp_call rtsp ''SETUP'' uri BPLIST_TYPE (plist_write L request) Map.empty) (\<lambda>(resp_body, hs).
    sbind (slift (ok_or (protocol (''unmarshal '' @ phase @ '' SETUP response'')) (plist_read L resp_body))) (\<lambda>response.
    sbind (configure_clock ptp response hs received_at) (\<lambda>_.
    sreturn response)))"

text \<open>The closure \<open>record_session\<close>; the header of the answer is only logged.\<close>

definition record_session :: "'e rtsp \<Rightarrow> string \<Rightarrow> string \<Rightarrow> 'e setup_state \<Rightarrow> unit res \<times> 'e setup_state" where
  "record_session rtsp session_uuid uri =
    sbind (rtsp_call rtsp ''RECORD'' uri [] []
        [''Session'' \<mapsto> session_uuid, ''Range'' \<mapsto> ''npt=0-'', ''RTP-Info'' \<mapsto> ''seq=0;rtptime=0''])
      (\<lambda>_. sreturn ())"

definition connect_event_channel :: "crypto \<Rightarrow> mirror_env \<Rightarrow> u16 \<Rightarrow> 'e setup_state \<Rightarrow> unit res \<times> 'e setup_state" where
  "connect_event_channel C env port st =
    (case en_event env port of
       None \<Rightarrow> (Inl (Err (Transport ''dial event channel'')), st)
     | Some inp \<Rightarrow>
         (case event_connect C inp (Client.encrypted (st_client st))
             (case cl_pair_keys (st_client st) of None \<Rightarrow> [] | Some k \<Rightarrow> shared_secret k) of
            Inl e \<Rightarrow> (Inl e, st)
          | Inr ch \<Rightarrow> (Inr (), st\<lparr>st_events := st_events st @ [(port, ch)]\<rparr>)))"

text \<open>\<open>if port > 0\<close>\<close>

definition connect_if :: "crypto \<Rightarrow> mirror_env \<Rightarrow> u16 \<Rightarrow> 'e setup_state \<Rightarrow> unit res \<times> 'e setup_state" where
  "connect_if C env port = (if 0 < port then connect_event_channel C env port else sreturn ())"

definition record_if :: "bool \<Rightarrow> 'e rtsp \<Rightarrow> string \<Rightarrow> string \<Rightarrow> 'e setup_state \<Rightarrow> unit res \<times> 'e setup_state" where
  "record_if c rtsp session_uuid uri = (if c then record_session rtsp session_uuid uri else sreturn ())"

subsection \<open>The phases of the negotiation\<close>

definition is_modern_session :: "Client \<Rightarrow> bool" where
  "is_modern_session c \<longleftrightarrow>
     Client.encrypted c \<and> (case cl_info c of None \<Rightarrow> False | Some i \<Rightarrow> uses_modern_pairing i)"

definition receiver_playout_floor :: "Client \<Rightarrow> nat" where
  "receiver_playout_floor c =
    (if (case cl_info c of None \<Rightarrow> False | Some i \<Rightarrow> supports_fairplay_sap i) then 0
     else nat CONSERVATIVE_PLAYOUT_LATENCY_NS)"

text \<open>The stream keys: those of FairPlay, or the client's, derived if it has none.\<close>

definition choose_stream_keys :: "mirror_env \<Rightarrow> bool \<Rightarrow> 'e setup_state \<Rightarrow> (bytes \<times> bytes) res \<times> 'e setup_state" where
  "choose_stream_keys env no_encrypt st =
    (let c = st_client st;
         (r, c) = (if fp_key c \<noteq> [] \<and> fp_iv c \<noteq> [] then (Inr (fp_key c, fp_iv c), c)
           else
             let (r, c) = (if cl_stream_key c = []
                   then derive_stream_keys (fst (en_stream_draw env)) (snd (en_stream_draw env)) c else (Inr (), c))
             in (rbind r (\<lambda>_. Inr (cl_stream_key c, cl_stream_iv c)), c))
     in (rbind r (\<lambda>enc. Inr (if no_encrypt then ([], []) else enc)), st\<lparr>st_client := c\<rparr>))"

definition connection_id :: "nat \<Rightarrow> nat" where
  "connection_id nanos = unat ((word_of_nat nanos :: u64) AND 0x7FFFFFFFFFFFFFFF)"

definition rtsp_uri :: "Client \<Rightarrow> nat \<Rightarrow> string" where
  "rtsp_uri c i = ''rtsp://'' @ cl_host c @ '':'' @ dec (unat (cl_port c)) @ ''/'' @ dec i"

text \<open>Phase 1, modern receivers only: the event port and whether RECORD is to be left out.\<close>

definition control_phase ::
  "crypto \<Rightarrow> plist_lib \<Rightarrow> 'e rtsp \<Rightarrow> mirror_env \<Rightarrow> SetupRequest \<Rightarrow> string \<Rightarrow> bool \<Rightarrow> 'e setup_state \<Rightarrow>
     (u16 \<times> bool) res \<times> 'e setup_state" where
  "control_phase C L rtsp env q uri modern =
    (if modern then
       sbind (send_setup L rtsp modern uri ''control'' (control_plist q) (fst (en_received env))) (\<lambda>resp.
       let skip = skip_record_of resp; port = get_u16 ''eventPort'' resp in
       sbind (connect_if C env port) (\<lambda>_.
       sbind (record_if (\<not> skip) rtsp (su_session_uuid q) uri) (\<lambda>_.
       sreturn (port, skip))))
     else sreturn (0, False))"

definition audio_request :: "bool \<Rightarrow> SetupRequest \<Rightarrow> plist \<Rightarrow> Client \<Rightarrow> plist" where
  "audio_request modern q desc c =
    (if modern then stream_only_plist desc
     else
       let p = legacy_stream_plist desc q in
       if fp_ekey c \<noteq> [] \<and> fp_iv c \<noteq> []
       then d_data ''eiv'' (fp_iv c) (d_data ''ekey'' (fp_ekey c) (d_int ''et'' 32 p)) else p)"

text \<open>The audio stream: the ports of the receiver, and event port and RECORD flag.\<close>

definition audio_phase ::
  "crypto \<Rightarrow> plist_lib \<Rightarrow> 'e rtsp \<Rightarrow> mirror_env \<Rightarrow> SetupRequest \<Rightarrow> string \<Rightarrow> bool \<Rightarrow> plist \<Rightarrow> u16 \<times> bool \<Rightarrow>
     'e setup_state \<Rightarrow> ((u16 \<times> u16) \<times> u16 \<times> bool) res \<times> 'e setup_state" where
  "audio_phase C L rtsp env q uri modern desc = (\<lambda>(port, skip) st.
    sbind (send_setup L rtsp modern uri ''audio stream'' (audio_request modern q desc (st_client st))
        (fst (snd (en_received env)))) (\<lambda>resp.
      let ports = audio_ports_of resp in
      if modern then sreturn (ports, port, skip)
      else
        let skip = skip_record_of resp; port = get_u16 ''eventPort'' resp in
        sbind (connect_if C env port) (\<lambda>_. sreturn (ports, port, skip))) st)"

definition video_request :: "bool \<Rightarrow> SetupRequest \<Rightarrow> plist \<Rightarrow> bytes \<times> bytes \<Rightarrow> Client \<Rightarrow> plist" where
  "video_request modern q desc enc c =
    (if modern then stream_only_plist desc
     else
       let p = legacy_stream_plist desc q in
       if fp_ekey c \<noteq> [] \<and> fst enc \<noteq> []
       then d_data ''eiv'' (snd enc) (d_data ''ekey'' (fp_ekey c) p) else p)"

text \<open>The video stream: the event channel once more, and the data connection.\<close>

definition video_phase ::
  "crypto \<Rightarrow> plist_lib \<Rightarrow> 'e rtsp \<Rightarrow> mirror_env \<Rightarrow> SetupRequest \<Rightarrow> string \<Rightarrow> bool \<Rightarrow> plist \<Rightarrow> bytes \<times> bytes \<Rightarrow> u16 \<Rightarrow>
     'e setup_state \<Rightarrow> int res \<times> 'e setup_state" where
  "video_phase C L rtsp env q uri modern desc enc port = (\<lambda>st.
    sbind (send_setup L rtsp modern uri ''video stream'' (video_request modern q desc enc (st_client st))
        (snd (snd (en_received env)))) (\<lambda>resp.
      let port = (if port = 0 then get_u16 ''eventPort'' resp else port) in
      sbind (connect_if C env port) (\<lambda>_.
      let data_port = video_port_of resp in
      if data_port = 0 then slift (Inl (protocol ''no video data port in SETUP response''))
      else if \<not> en_data env (word_of_int data_port) then slift (Inl (Err (Transport ''connect data port'')))
      else sreturn data_port)) st)"

text \<open>The ciphers of the data connection.\<close>

definition session_ciphers ::
  "crypto \<Rightarrow> bytes \<Rightarrow> nat \<Rightarrow> Client \<Rightarrow> ((keystream \<times> MirrorCipher) option \<times> bytes option) res" where
  "session_ciphers C enc_key video_id c =
    (let shared = (case cl_pair_keys c of None \<Rightarrow> [] | Some k \<Rightarrow> shared_secret k) in
     if enc_key \<noteq> [] \<and> Client.encrypted c \<and> (shared \<noteq> [] \<or> fp_aes_key c \<noteq> []) then
       let ikm = (if shared \<noteq> [] then shared else fp_aes_key c) in
       rbind (derive_chacha_key (\<lambda>salt ikm info n. Some (hkdf_expand C ikm salt info n)) ikm (word_of_nat video_id))
         (\<lambda>key. Inr (None, Some key))
     else if enc_key \<noteq> [] then
       let (key, iv) = derive_video_keys (sha512 C) enc_key (word_of_nat video_id)
       in Inr (Some (aes_ctr C key iv, MirrorCipher_new), None)
     else Inr (None, None))"

text \<open>The three sockets: timing, audio control, audio data. \<open>remove(0)\<close> panics when there are fewer.\<close>

definition three_ports :: "u16 list res \<Rightarrow> (u16 \<times> u16 \<times> u16) res" where
  "three_ports r = rbind r (\<lambda>ps. if length ps < 3 then Inl Panic else Inr (ps ! 0, ps ! 1, ps ! 2))"

definition system_clock :: "nat option \<Rightarrow> nat res" where
  "system_clock nanos = rbind (ok_or (protocol ''clock'') nanos) (\<lambda>n. Inr (connection_id n))"

text \<open>The name and address of the sender's clock, for PTP.\<close>

definition peer_address :: "bool \<Rightarrow> mirror_env \<Rightarrow> (string \<times> string) res" where
  "peer_address modern env =
    (if modern then rbind (ok_or (protocol ''determine PTP peer address'') (en_local_ip env))
       (\<lambda>ip. Inr (generate_uuid (en_uuid_peer env), ip))
     else Inr ([], []))"

definition setup_request :: "bool \<Rightarrow> mirror_env \<Rightarrow> string \<Rightarrow> string \<times> string \<Rightarrow> u16 \<Rightarrow> SetupRequest" where
  "setup_request modern env mac peer timing_port =
    \<lparr>su_device_id = mac, su_session_uuid = generate_uuid (en_uuid_session env),
     su_source_version = (if modern then MODERN_SOURCE_VERSION else LEGACY_SOURCE_VERSION),
     su_timing_protocol = (if modern then TIMING_PROTOCOL_PTP else TIMING_PROTOCOL_NTP),
     su_timing_port = timing_port, su_timing_peer_id = fst peer, su_timing_peer_address = snd peer,
     su_name = en_name env\<rparr>"

definition new_session ::
  "mirror_env \<Rightarrow> string \<Rightarrow> nat \<Rightarrow> u16 \<times> u16 \<times> u16 \<Rightarrow> u16 \<times> u16 \<Rightarrow>
     (keystream \<times> MirrorCipher) option \<times> bytes option \<Rightarrow> 'e setup_state \<Rightarrow> MirrorSession" where
  "new_session env uri latency socks ports ciphers st =
    (let c = st_client st; (timing, ctrl, audio) = socks; chacha = Client.encrypted c;
         (w, h) = (case cl_info c of None \<Rightarrow> (0, 0) | Some i \<Rightarrow> display_size i)
     in \<lparr>ms_client = c, data_conn = [], session_uri = uri, video_width = 0, video_height = 0,
         display_width = word_of_int (max w 0), display_height = word_of_int (max h 0),
         stream_cipher = fst ciphers, chacha_cipher = snd ciphers, chacha_nonce = 0, frame_seq = 0,
         last_frame_timestamp = 0, first_frame_sent = False, timestamp_bias = latency, media_clock = st_clock st,
         timing_socket = Some timing, audio_data_socket = Some audio, audio_ctrl_socket = Some ctrl,
         audio_data_port = fst ports, audio_ctrl_port = snd ports,
         audio_latency_samples = samples_for_44k1 (en_round env) latency, audio_chacha = chacha,
         audio_chacha_key = (if chacha then en_audio_key env else replicate 32 0)\<rparr>)"

text \<open>The requests, once everything they need is known.\<close>

definition negotiate ::
  "crypto \<Rightarrow> plist_lib \<Rightarrow> 'e rtsp \<Rightarrow> mirror_env \<Rightarrow> SetupRequest \<Rightarrow> bool \<Rightarrow> bytes \<times> bytes \<Rightarrow> u16 \<times> u16 \<times> u16 \<Rightarrow> nat \<Rightarrow>
     nat \<Rightarrow> 'e setup_state \<Rightarrow> MirrorSession res \<times> 'e setup_state" where
  "negotiate C L rtsp env q modern enc socks latency audio_id st0 =
    (let c = st_client st0; uri = rtsp_uri c audio_id;
         audio_desc = audio_stream_desc audio_id (samples_for_44k1 (en_round env) latency) (Client.encrypted c)
           (en_audio_key env) (fst (snd socks)) in
     sbind (control_phase C L rtsp env q uri modern) (\<lambda>ctl.
     sbind (audio_phase C L rtsp env q uri modern audio_desc ctl) (\<lambda>(ports, event_port, skip).
     sbind (slift (system_clock (en_nanos_video env))) (\<lambda>video_id.
     sbind (video_phase C L rtsp env q (rtsp_uri c video_id) modern (video_stream_desc video_id (fst enc) (snd enc))
         enc event_port) (\<lambda>_.
     sbind (record_if (\<not> modern \<and> \<not> skip) rtsp (su_session_uuid q) uri) (\<lambda>_ st.
     sbind (slift (session_ciphers C (fst enc) video_id (st_client st))) (\<lambda>ciphers st.
       (Inr (new_session env uri latency socks ports ciphers st), st)) st))))) st0)"

definition setup_mirror_session ::
  "crypto \<Rightarrow> plist_lib \<Rightarrow> 'e rtsp \<Rightarrow> mirror_env \<Rightarrow> bool \<Rightarrow> Client \<times> 'e \<Rightarrow> MirrorSession res \<times> 'e setup_state" where
  "setup_mirror_session C L rtsp env no_encrypt cw =
    (let (c, w) = cw; modern = is_modern_session c;
         st = \<lparr>st_client = c, st_world = w, st_clock = (if modern then Some MediaClock_default else None), st_events = []\<rparr>;
         latency = max (target_latency (en_target env)) (receiver_playout_floor c) in
     sbind (slift (uuid_to_mac (cl_session_id c))) (\<lambda>mac.
     sbind (slift (peer_address modern env)) (\<lambda>peer.
     sbind (choose_stream_keys env no_encrypt) (\<lambda>enc.
     sbind (slift (three_ports (en_ports env))) (\<lambda>socks.
     sbind (slift (system_clock (en_nanos_audio env))) (\<lambda>audio_id.
     negotiate C L rtsp env (setup_request modern env mac peer (fst socks)) modern enc socks latency audio_id))))) st)"

end
