(* ===== verification/Receiver_Pairing.thy ===== *)
theory Receiver_Pairing
  imports Tlv8 Srp Rust_Str
begin

text \<open>
  The receiver's side of pairing (receiver/pairing.rs): SRP pair-setup as the server, HAP pair-verify,
  and the state they keep per connection. The random bytes an operation draws are explicit
  arguments; \<open>None\<close>/\<open>Some\<close> of the two exchange states is the source's \<open>Option\<close>.
\<close>

subsection \<open>State\<close>

definition PAIR_FLAG_TRANSIENT :: u32 where "PAIR_FLAG_TRANSIENT = 0x00000010"
definition AUTH_ERROR :: byte where "AUTH_ERROR = 0x02"

record SessionKeys =
  sk_shared_secret :: bytes
  sk_read_key :: bytes
  sk_write_key :: bytes
  sk_encrypted :: bool

definition SessionKeys_default :: SessionKeys where
  "SessionKeys_default =
    \<lparr>sk_shared_secret = [], sk_read_key = [], sk_write_key = [], sk_encrypted = False\<rparr>"

record SrpSetupState =
  ss_salt :: bytes
  ss_b :: bytes
  ss_v :: bytes
  ss_server_pub :: bytes
  ss_shared_key :: "bytes option"
  ss_transient :: bool

record HapVerifyState =
  hv_client_public :: bytes
  hv_server_public :: bytes
  hv_shared_secret :: bytes
  hv_verify_key :: bytes

record ReceiverPairing =
  rp_identifier :: bytes
  rp_signing_key :: bytes
  rp_verifying_key :: bytes
  username :: string
  pin :: string
  controllers :: "string \<Rightarrow> bytes option"
  transient :: "string \<Rightarrow> bytes option"
  rp_setup :: "SrpSetupState option"
  verify :: "HapVerifyState option"
  session :: SessionKeys
  verified :: bool

definition ReceiverPairing_new :: "crypto \<Rightarrow> string \<Rightarrow> string \<Rightarrow> bytes \<Rightarrow> string \<Rightarrow> ReceiverPairing" where
  "ReceiverPairing_new C i u sk p =
    \<lparr>rp_identifier = s2b i, rp_signing_key = sk, rp_verifying_key = ed_public C sk, username = u, pin = p,
     controllers = Map.empty, transient = Map.empty, rp_setup = None, verify = None,
     session = SessionKeys_default, verified = False\<rparr>"

definition session_keys :: "ReceiverPairing \<Rightarrow> SessionKeys option" where
  "session_keys r = (if verified r then Some (session r) else None)"

definition is_verified :: "ReceiverPairing \<Rightarrow> bool" where
  "is_verified r = verified r"

definition reset_verify :: "ReceiverPairing \<Rightarrow> ReceiverPairing" where
  "reset_verify r = r\<lparr>verify := None, session := SessionKeys_default, verified := False\<rparr>"

definition reset :: "ReceiverPairing \<Rightarrow> ReceiverPairing" where
  "reset r = (reset_verify r)\<lparr>rp_setup := None\<rparr>"

subsection \<open>Helpers\<close>

text \<open>\<open>nonce(label)\<close>: at most eight bytes of the label after four zero bytes.\<close>

definition label_nonce :: "string \<Rightarrow> bytes" where
  "label_nonce label =
    (let b = s2b label; l = min (length b) 8 in splice 4 (take l b) (replicate 12 0))"

definition tlv_err :: "byte \<Rightarrow> bytes" where
  "tlv_err state = encode_ordered [tlv_item TLV_STATE [state], tlv_item TLV_ERROR [AUTH_ERROR]]"

definition r_hkdf :: "crypto \<Rightarrow> bytes \<Rightarrow> string \<Rightarrow> string \<Rightarrow> bytes" where
  "r_hkdf C secret salt inf_s = hkdf_expand C secret (s2b salt) (s2b inf_s) 32"

text \<open>\<open>Some(v) if v.len() == n\<close>\<close>

definition sized :: "nat \<Rightarrow> bytes option \<Rightarrow> bytes option" where
  "sized n x = (case x of None \<Rightarrow> None | Some v \<Rightarrow> if length v = n then Some v else None)"

lemma sized_Some_iff: "sized n x = Some v \<longleftrightarrow> x = Some v \<and> length v = n"
  by (auto simp: sized_def split: option.splits)

subsection \<open>Pair-setup\<close>

text \<open>The method check of M1: one byte, 0, 1 or 3.\<close>

definition method_ok :: "tlv_map \<Rightarrow> bool" where
  "method_ok msg = (case msg TLV_METHOD of
     None \<Rightarrow> False | Some m \<Rightarrow> length m = 1 \<and> (m ! 0 = 0 \<or> m ! 0 = 1 \<or> m ! 0 = 3))"

text \<open>The flags of M1: absent, or one or four bytes with the transient bit set (else rejected).\<close>

definition transient_flag :: "tlv_map \<Rightarrow> bool option" where
  "transient_flag msg = (case msg TLV_FLAGS of
     None \<Rightarrow> Some False
   | Some flags \<Rightarrow>
       if length flags = 1 then
         (if flags ! 0 AND ucast PAIR_FLAG_TRANSIENT \<noteq> 0 then Some True else None)
       else if length flags = 4 then
         (if (word_of_nat (of_le flags) :: u32) AND PAIR_FLAG_TRANSIENT \<noteq> 0 then Some True else None)
       else None)"

definition begin_srp_setup ::
  "crypto \<Rightarrow> bytes \<Rightarrow> bytes \<Rightarrow> tlv_map \<Rightarrow> ReceiverPairing \<Rightarrow> bytes \<times> ReceiverPairing" where
  "begin_srp_setup C salt b msg r =
    (if \<not> method_ok msg then (tlv_err 2, r)
     else case transient_flag msg of
       None \<Rightarrow> (tlv_err 2, r)
     | Some tr \<Rightarrow>
         if tr \<and> pin r \<noteq> [] then (tlv_err 2, r)
         else
           let r = reset r;
               p = (if tr then [] else pin r);
               v = srp_verifier C salt (username r) p;
               server_pub = srp_server_public C v b;
               r = r\<lparr>rp_setup := Some \<lparr>ss_salt = salt, ss_b = b, ss_v = nat_be v,
                       ss_server_pub = nat_be server_pub, ss_shared_key = None, ss_transient = tr\<rparr>\<rparr>
           in (encode_ordered [tlv_item TLV_STATE [2], tlv_item TLV_SALT salt,
                 tlv_item TLV_PUBLIC_KEY (pad_to (nat_be server_pub) 384)], r))"

definition verify_srp_proof :: "crypto \<Rightarrow> tlv_map \<Rightarrow> ReceiverPairing \<Rightarrow> bytes \<times> ReceiverPairing" where
  "verify_srp_proof C msg r =
    (case rp_setup r of
       None \<Rightarrow> (tlv_err 4, r)
     | Some s \<Rightarrow>
         if ss_shared_key s \<noteq> None then (tlv_err 4, r)
         else (case sized 384 (msg TLV_PUBLIC_KEY) of
             None \<Rightarrow> (tlv_err 4, r\<lparr>rp_setup := None\<rparr>)
           | Some client_pub \<Rightarrow>
               (case sized 64 (msg TLV_PROOF) of
                  None \<Rightarrow> (tlv_err 4, r\<lparr>rp_setup := None\<rparr>)
                | Some client_proof \<Rightarrow>
                    let cp_int = of_be client_pub;
                        s_pub_int = of_be (ss_server_pub s);
                        u = of_be (sha512 C (pad_to client_pub 384 @ pad_to (ss_server_pub s) 384))
                    in if u = 0 then (tlv_err 4, r\<lparr>rp_setup := None\<rparr>)
                       else
                         let shared = srp_server_shared cp_int (of_be (ss_v s)) u (ss_b s);
                             shared_key = sha512 C (nat_be shared);
                             want = receiver_srp_client_proof C (ss_salt s) cp_int s_pub_int shared_key
                         in if want \<noteq> client_proof then (tlv_err 4, r\<lparr>rp_setup := None\<rparr>)
                            else
                              let r = r\<lparr>rp_setup := Some (s\<lparr>ss_shared_key := Some shared_key\<rparr>)\<rparr>;
                                  server_proof = sha512 C (client_pub @ want @ shared_key)
                              in (encode_ordered [tlv_item TLV_STATE [4],
                                    tlv_item TLV_PROOF server_proof], r))))"

text \<open>The identity a decrypted M5 holds, when its three fields are there in their sizes.\<close>

definition m5_identity :: "bytes \<Rightarrow> (bytes \<times> bytes \<times> bytes) option" where
  "m5_identity plain =
    (let m = decode plain in
     case m TLV_IDENTIFIER of
       None \<Rightarrow> None
     | Some i \<Rightarrow>
         if i = [] then None
         else (case sized 32 (m TLV_PUBLIC_KEY) of
             None \<Rightarrow> None
           | Some pubkey \<Rightarrow>
               (case sized 64 (m TLV_SIGNATURE) of None \<Rightarrow> None | Some sig \<Rightarrow> Some (i, pubkey, sig))))"

text \<open>M6: the accessory's identity, signed, under the session key.\<close>

definition setup_m6 :: "crypto \<Rightarrow> ReceiverPairing \<Rightarrow> bytes \<Rightarrow> bytes \<Rightarrow> bytes" where
  "setup_m6 C r shared_key session_key =
    (let acc_sign_key = r_hkdf C shared_key ''Pair-Setup-Accessory-Sign-Salt'' ''Pair-Setup-Accessory-Sign-Info'';
         acc_sig = ed_sign C (rp_signing_key r) (acc_sign_key @ rp_identifier r @ rp_verifying_key r);
         response_identity = encode_ordered [tlv_item TLV_IDENTIFIER (rp_identifier r),
           tlv_item TLV_PUBLIC_KEY (rp_verifying_key r), tlv_item TLV_SIGNATURE acc_sig];
         response_enc = aead_seal C session_key (label_nonce ''PS-Msg06'') [] response_identity
     in encode_ordered [tlv_item TLV_STATE [6], tlv_item TLV_ENCRYPTED_DATA response_enc])"

text \<open>\<open>Some(v) if v.len() >= 16\<close>\<close>

definition sealed_field :: "tlv_map \<Rightarrow> bytes option" where
  "sealed_field msg = (case msg TLV_ENCRYPTED_DATA of
     None \<Rightarrow> None | Some v \<Rightarrow> if 16 \<le> length v then Some v else None)"

definition finish_srp_setup :: "crypto \<Rightarrow> tlv_map \<Rightarrow> ReceiverPairing \<Rightarrow> bytes \<times> ReceiverPairing" where
  "finish_srp_setup C msg r =
    (case (case rp_setup r of None \<Rightarrow> None | Some s \<Rightarrow> ss_shared_key s) of
       None \<Rightarrow> (tlv_err 6, r)
     | Some shared_key \<Rightarrow>
         let fail = (tlv_err 6, r\<lparr>rp_setup := None\<rparr>);
             session_key = r_hkdf C shared_key ''Pair-Setup-Encrypt-Salt'' ''Pair-Setup-Encrypt-Info''
         in case sealed_field msg of
              None \<Rightarrow> fail
            | Some sealed \<Rightarrow>
                (case aead_open C session_key (label_nonce ''PS-Msg05'') [] sealed of
                   None \<Rightarrow> fail
                 | Some plain \<Rightarrow>
                     (case m5_identity plain of
                        None \<Rightarrow> fail
                      | Some (i, pubkey, sig) \<Rightarrow>
                          let sign_key = r_hkdf C shared_key
                                ''Pair-Setup-Controller-Sign-Salt'' ''Pair-Setup-Controller-Sign-Info''
                          in if \<not> ed_valid_key C pubkey then fail
                             else if \<not> ed_verify_strict C pubkey (sign_key @ i @ pubkey) sig then fail
                             else
                               let controller_id = from_utf8_lossy i;
                                   tr = (case rp_setup r of None \<Rightarrow> False | Some s \<Rightarrow> ss_transient s);
                                   r = (if tr then r\<lparr>transient := (transient r)(controller_id \<mapsto> pubkey)\<rparr>
                                        else r\<lparr>controllers := (controllers r)(controller_id \<mapsto> pubkey)\<rparr>)
                               in (setup_m6 C r shared_key session_key, r\<lparr>rp_setup := None\<rparr>))))"

text \<open>One \<open>/pair-setup\<close> message; \<open>salt\<close> and \<open>b\<close> are the random bytes an M1 draws.\<close>

definition r_pair_setup ::
  "crypto \<Rightarrow> bytes \<Rightarrow> bytes \<Rightarrow> bytes \<Rightarrow> ReceiverPairing \<Rightarrow> bytes \<times> ReceiverPairing" where
  "r_pair_setup C salt b msg_body r =
    (if length msg_body = 32 then
       (if pin r \<noteq> [] then (tlv_err 4, r) else (rp_verifying_key r, reset r))
     else
       let message = decode msg_body in
       case sized 1 (message TLV_STATE) of
         None \<Rightarrow> (tlv_err 4, r)
       | Some st \<Rightarrow>
           if st ! 0 = 1 then begin_srp_setup C salt b message r
           else if st ! 0 = 3 then verify_srp_proof C message r
           else if st ! 0 = 5 then finish_srp_setup C message r
           else (tlv_err 4, r))"

subsection \<open>Pair-verify\<close>

definition begin_hap_verify ::
  "crypto \<Rightarrow> bytes \<Rightarrow> tlv_map \<Rightarrow> ReceiverPairing \<Rightarrow> bytes \<times> ReceiverPairing" where
  "begin_hap_verify C server_private msg r =
    (case sized 32 (msg TLV_PUBLIC_KEY) of
       None \<Rightarrow> (tlv_err 2, r)
     | Some client_public \<Rightarrow>
         let r = reset_verify r;
             server_public = dh_base C server_private;
             shared = dh_shared C server_private client_public;
             verify_key = r_hkdf C shared ''Pair-Verify-Encrypt-Salt'' ''Pair-Verify-Encrypt-Info'';
             signature = ed_sign C (rp_signing_key r) (server_public @ rp_identifier r @ client_public);
             ident = encode_ordered [tlv_item TLV_IDENTIFIER (rp_identifier r), tlv_item TLV_SIGNATURE signature];
             sealed = aead_seal C verify_key (label_nonce ''PV-Msg02'') [] ident;
             r = r\<lparr>verify := Some \<lparr>hv_client_public = client_public, hv_server_public = server_public,
                     hv_shared_secret = shared, hv_verify_key = verify_key\<rparr>\<rparr>
         in (encode_ordered [tlv_item TLV_STATE [2], tlv_item TLV_PUBLIC_KEY server_public,
               tlv_item TLV_ENCRYPTED_DATA sealed], r))"

text \<open>The controller's key, the transient ones first.\<close>

definition controller_key :: "ReceiverPairing \<Rightarrow> bytes \<Rightarrow> bytes option" where
  "controller_key r i =
    (case transient r (from_utf8_lossy i) of
       Some k \<Rightarrow> Some k | None \<Rightarrow> controllers r (from_utf8_lossy i))"

definition m3_identity :: "bytes \<Rightarrow> (bytes \<times> bytes) option" where
  "m3_identity plain =
    (let m = decode plain in
     case m TLV_IDENTIFIER of
       None \<Rightarrow> None
     | Some i \<Rightarrow>
         if i = [] then None
         else (case sized 64 (m TLV_SIGNATURE) of None \<Rightarrow> None | Some sig \<Rightarrow> Some (i, sig)))"

definition control_keys :: "crypto \<Rightarrow> bytes \<Rightarrow> SessionKeys" where
  "control_keys C shared =
    \<lparr>sk_shared_secret = shared,
     sk_read_key = r_hkdf C shared ''Control-Salt'' ''Control-Write-Encryption-Key'',
     sk_write_key = r_hkdf C shared ''Control-Salt'' ''Control-Read-Encryption-Key'',
     sk_encrypted = True\<rparr>"

definition finish_hap_verify :: "crypto \<Rightarrow> tlv_map \<Rightarrow> ReceiverPairing \<Rightarrow> bytes \<times> ReceiverPairing" where
  "finish_hap_verify C msg r =
    (case verify r of
       None \<Rightarrow> (tlv_err 4, r)
     | Some v \<Rightarrow>
         let fail = (tlv_err 4, r\<lparr>verify := None\<rparr>) in
         case sealed_field msg of
           None \<Rightarrow> fail
         | Some sealed \<Rightarrow>
             (case aead_open C (hv_verify_key v) (label_nonce ''PV-Msg03'') [] sealed of
                None \<Rightarrow> fail
              | Some plain \<Rightarrow>
                  (case m3_identity plain of
                     None \<Rightarrow> fail
                   | Some (i, sig) \<Rightarrow>
                       (case controller_key r i of
                          None \<Rightarrow> fail
                        | Some k \<Rightarrow>
                            if length k \<noteq> 32 then fail
                            else if \<not> ed_valid_key C k then fail
                            else if \<not> ed_verify_strict C k (hv_client_public v @ i @ hv_server_public v) sig
                            then fail
                            else (encode_ordered [tlv_item TLV_STATE [4]],
                                  r\<lparr>session := control_keys C (hv_shared_secret v),
                                    verified := True, verify := None\<rparr>)))))"

definition r_pair_verify ::
  "crypto \<Rightarrow> bytes \<Rightarrow> bytes \<Rightarrow> ReceiverPairing \<Rightarrow> (bytes \<times> SessionKeys option) \<times> ReceiverPairing" where
  "r_pair_verify C server_private msg_body r =
    (let message = decode msg_body in
     case sized 1 (message TLV_STATE) of
       None \<Rightarrow> ((tlv_err 2, None), r)
     | Some st \<Rightarrow>
         if st ! 0 = 1 then
           let (resp, r) = begin_hap_verify C server_private message r in ((resp, None), r)
         else if st ! 0 = 3 then
           let (resp, r) = finish_hap_verify C message r
           in ((resp, if is_verified r then session_keys r else None), r)
         else ((tlv_err 2, None), r))"

subsection \<open>Runs of the receiver\<close>

datatype pairing_event =
    PairSetup bytes bytes bytes
  | PairVerify bytes bytes

fun rp_step :: "crypto \<Rightarrow> pairing_event \<Rightarrow> ReceiverPairing \<Rightarrow> ReceiverPairing" where
  "rp_step C (PairSetup salt b msg) r = snd (r_pair_setup C salt b msg r)"
| "rp_step C (PairVerify priv msg) r = snd (r_pair_verify C priv msg r)"

definition rp_exec :: "crypto \<Rightarrow> ReceiverPairing \<Rightarrow> pairing_event list \<Rightarrow> ReceiverPairing" where
  "rp_exec C r evs = fold (rp_step C) evs r"

text \<open>The states a connection can be in, as a relation.\<close>

inductive rp_reach :: "crypto \<Rightarrow> ReceiverPairing \<Rightarrow> ReceiverPairing \<Rightarrow> bool" for C r0 where
  start: "rp_reach C r0 r0"
| step: "rp_reach C r0 r \<Longrightarrow> rp_reach C r0 (rp_step C e r)"

inductive_cases rp_reachE: "rp_reach C r0 r"

lemma rp_exec_Nil [simp]: "rp_exec C r [] = r"
  by (simp add: rp_exec_def)

lemma rp_exec_snoc [simp]: "rp_exec C r (evs @ [e]) = rp_step C e (rp_exec C r evs)"
  by (simp add: rp_exec_def)

lemma rp_reach_exec: "rp_reach C r0 (rp_exec C r0 evs)"
  by (induction evs rule: rev_induct) (auto intro: rp_reach.intros)

subsection \<open>What each message may change\<close>

text \<open>\<open>e\<close> proves knowledge of the SRP key \<open>K\<close> in state \<open>r\<close>: an M3 whose proof is the one the
  receiver computes for \<open>K\<close>, from the exchange's own salt, verifier and private value.\<close>

definition proves_key :: "crypto \<Rightarrow> ReceiverPairing \<Rightarrow> pairing_event \<Rightarrow> bytes \<Rightarrow> bool" where
  "proves_key C r e K \<longleftrightarrow>
     (\<exists>salt b msg s A. e = PairSetup salt b msg \<and> rp_setup r = Some s \<and>
        decode msg TLV_PUBLIC_KEY = Some A \<and>
        K = sha512 C (nat_be (srp_server_shared (of_be A) (of_be (ss_v s))
              (of_be (sha512 C (pad_to A 384 @ pad_to (ss_server_pub s) 384))) (ss_b s))) \<and>
        decode msg TLV_PROOF =
          Some (receiver_srp_client_proof C (ss_salt s) (of_be A) (of_be (ss_server_pub s)) K))"

text \<open>\<open>e\<close> enrols the key \<open>k\<close> under the name \<open>i\<close>: an M5 sealed under the session key of the proven \<open>K\<close>,
  whose signature by \<open>k\<close> covers a value derived from \<open>K\<close>.\<close>

definition enrols :: "crypto \<Rightarrow> ReceiverPairing \<Rightarrow> pairing_event \<Rightarrow> string \<Rightarrow> bytes \<Rightarrow> bytes \<Rightarrow> bool" where
  "enrols C r e i k K \<longleftrightarrow>
     (\<exists>salt b msg s ident sig. e = PairSetup salt b msg \<and> rp_setup r = Some s \<and> ss_shared_key s = Some K \<and>
        i = from_utf8_lossy ident \<and>
        ed_verify_strict C k
          (r_hkdf C K ''Pair-Setup-Controller-Sign-Salt'' ''Pair-Setup-Controller-Sign-Info'' @ ident @ k) sig)"

text \<open>\<open>e\<close> makes the connection verified with the enrolled key \<open>k\<close>: an M3 of pair-verify whose signature by
  \<open>k\<close> covers both ephemeral keys of this exchange.\<close>

definition authenticates ::
  "crypto \<Rightarrow> ReceiverPairing \<Rightarrow> pairing_event \<Rightarrow> string \<Rightarrow> bytes \<Rightarrow> HapVerifyState \<Rightarrow> bool" where
  "authenticates C r e i k v \<longleftrightarrow>
     (\<exists>priv msg ident sig. e = PairVerify priv msg \<and> verify r = Some v \<and> i = from_utf8_lossy ident \<and>
        controller_key r ident = Some k \<and>
        ed_verify_strict C k (hv_client_public v @ ident @ hv_server_public v) sig)"

lemma reset_fields [simp]:
  "verified (reset r) = False" "rp_setup (reset r) = None" "verify (reset r) = None"
  "controllers (reset r) = controllers r" "transient (reset r) = transient r" "pin (reset r) = pin r"
  "username (reset r) = username r" "session (reset r) = SessionKeys_default"
  "verified (reset_verify r) = False" "rp_setup (reset_verify r) = rp_setup r"
  "controllers (reset_verify r) = controllers r" "transient (reset_verify r) = transient r"
  "pin (reset_verify r) = pin r" "session (reset_verify r) = SessionKeys_default"
  "rp_identifier (reset r) = rp_identifier r" "rp_signing_key (reset r) = rp_signing_key r"
  "rp_verifying_key (reset r) = rp_verifying_key r"
  "rp_identifier (reset_verify r) = rp_identifier r" "rp_signing_key (reset_verify r) = rp_signing_key r"
  "rp_verifying_key (reset_verify r) = rp_verifying_key r" "username (reset_verify r) = username r"
  by (simp_all add: reset_def reset_verify_def)

lemma begin_srp_setup_state:
  "snd (begin_srp_setup C salt b msg r) = r \<or>
   (\<exists>s. snd (begin_srp_setup C salt b msg r) = (reset r)\<lparr>rp_setup := Some s\<rparr> \<and>
      ss_shared_key s = None \<and> (ss_transient s \<longrightarrow> pin r = []))"
proof (cases "method_ok msg")
  case False
  then show ?thesis by (simp add: begin_srp_setup_def)
next
  case True
  show ?thesis
  proof (cases "transient_flag msg")
    case None
    with True show ?thesis by (simp add: begin_srp_setup_def)
  next
    case (Some tr)
    show ?thesis
    proof (cases "tr \<and> pin r \<noteq> []")
      case False
      with True Some show ?thesis
        by (cases tr) (auto simp: begin_srp_setup_def Let_def)
    qed (use True Some in \<open>simp add: begin_srp_setup_def\<close>)
  qed
qed

definition m3_key :: "crypto \<Rightarrow> SrpSetupState \<Rightarrow> bytes \<Rightarrow> bytes" where
  "m3_key C s A = sha512 C (nat_be (srp_server_shared (of_be A) (of_be (ss_v s))
     (of_be (sha512 C (pad_to A 384 @ pad_to (ss_server_pub s) 384))) (ss_b s)))"

lemma verify_srp_proof_state:
  "snd (verify_srp_proof C msg r) = r \<or> snd (verify_srp_proof C msg r) = r\<lparr>rp_setup := None\<rparr> \<or>
   (\<exists>s A. rp_setup r = Some s \<and> msg TLV_PUBLIC_KEY = Some A \<and>
      msg TLV_PROOF = Some (receiver_srp_client_proof C (ss_salt s) (of_be A) (of_be (ss_server_pub s)) (m3_key C s A)) \<and>
      snd (verify_srp_proof C msg r) = r\<lparr>rp_setup := Some (s\<lparr>ss_shared_key := Some (m3_key C s A)\<rparr>)\<rparr>)"
proof (cases "rp_setup r")
  case None
  then show ?thesis by (simp add: verify_srp_proof_def)
next
  case (Some s)
  note s = this
  show ?thesis
  proof (cases "ss_shared_key s = None")
    case False
    with s show ?thesis by (simp add: verify_srp_proof_def)
  next
    case True
    show ?thesis
    proof (cases "sized 384 (msg TLV_PUBLIC_KEY)")
      case None
      with s True show ?thesis by (simp add: verify_srp_proof_def)
    next
      case (Some A)
      note A = this
      show ?thesis
      proof (cases "sized 64 (msg TLV_PROOF)")
        case None
        with s True A show ?thesis by (simp add: verify_srp_proof_def)
      next
        case (Some p)
        from A Some have m: "msg TLV_PUBLIC_KEY = Some A" "length A = 384"
          "msg TLV_PROOF = Some p" "length p = 64" by (simp_all add: sized_Some_iff)
        have "snd (verify_srp_proof C msg r) =
          (if of_be (sha512 C (pad_to A 384 @ pad_to (ss_server_pub s) 384)) = 0 \<or>
              receiver_srp_client_proof C (ss_salt s) (of_be A) (of_be (ss_server_pub s)) (m3_key C s A) \<noteq> p
           then r\<lparr>rp_setup := None\<rparr>
           else r\<lparr>rp_setup := Some (s\<lparr>ss_shared_key := Some (m3_key C s A)\<rparr>)\<rparr>)"
          using s True m by (simp add: verify_srp_proof_def sized_def Let_def m3_key_def)
        then show ?thesis using s m by auto
      qed
    qed
  qed
qed

lemma finish_srp_setup_state:
  "snd (finish_srp_setup C msg r) = r \<or> snd (finish_srp_setup C msg r) = r\<lparr>rp_setup := None\<rparr> \<or>
   (\<exists>s K ident k sig. rp_setup r = Some s \<and> ss_shared_key s = Some K \<and> ed_valid_key C k \<and> length k = 32 \<and>
      ed_verify_strict C k (r_hkdf C K ''Pair-Setup-Controller-Sign-Salt''
          ''Pair-Setup-Controller-Sign-Info'' @ ident @ k) sig \<and>
      snd (finish_srp_setup C msg r) =
        (if ss_transient s then r\<lparr>transient := (transient r)(from_utf8_lossy ident \<mapsto> k), rp_setup := None\<rparr>
         else r\<lparr>controllers := (controllers r)(from_utf8_lossy ident \<mapsto> k), rp_setup := None\<rparr>))"
proof (cases "rp_setup r")
  case None
  then show ?thesis by (simp add: finish_srp_setup_def)
next
  case (Some s)
  note s = this
  show ?thesis
  proof (cases "ss_shared_key s")
    case None
    with s show ?thesis by (simp add: finish_srp_setup_def)
  next
    case (Some K)
    note sK = s Some
    define session_key where
      "session_key = r_hkdf C K ''Pair-Setup-Encrypt-Salt'' ''Pair-Setup-Encrypt-Info''"
    show ?thesis
    proof (cases "sealed_field msg")
      case None
      with sK show ?thesis by (simp add: finish_srp_setup_def)
    next
      case (Some c)
      note c = this
      show ?thesis
      proof (cases "aead_open C session_key (label_nonce ''PS-Msg05'') [] c")
        case None
        with sK c show ?thesis by (simp add: finish_srp_setup_def session_key_def)
      next
        case (Some plain)
        note plain = this
        show ?thesis
        proof (cases "m5_identity plain")
          case None
          with sK c plain show ?thesis by (simp add: finish_srp_setup_def session_key_def)
        next
          case (Some idn)
          obtain i k sig where idn: "idn = (i, k, sig)" by (cases idn)
          have len: "length k = 32"
            using Some idn by (auto simp: m5_identity_def Let_def sized_Some_iff split: option.splits if_splits)
          show ?thesis
          proof (cases "ed_valid_key C k \<and> ed_verify_strict C k (r_hkdf C K ''Pair-Setup-Controller-Sign-Salt''
              ''Pair-Setup-Controller-Sign-Info'' @ i @ k) sig")
            case False
            with sK c plain Some idn show ?thesis
              by (auto simp: finish_srp_setup_def session_key_def Let_def)
          next
            case True
            with sK c plain Some idn have "snd (finish_srp_setup C msg r) =
                (if ss_transient s then r\<lparr>transient := (transient r)(from_utf8_lossy i \<mapsto> k), rp_setup := None\<rparr>
                 else r\<lparr>controllers := (controllers r)(from_utf8_lossy i \<mapsto> k), rp_setup := None\<rparr>)"
              by (simp add: finish_srp_setup_def session_key_def Let_def)
            with True sK len show ?thesis by blast
          qed
        qed
      qed
    qed
  qed
qed

lemma begin_hap_verify_state:
  "snd (begin_hap_verify C priv msg r) = r \<or>
   (\<exists>v. snd (begin_hap_verify C priv msg r) = (reset_verify r)\<lparr>verify := Some v\<rparr>)"
  by (cases "sized 32 (msg TLV_PUBLIC_KEY)") (auto simp: begin_hap_verify_def Let_def)

lemma finish_hap_verify_state:
  "snd (finish_hap_verify C msg r) = r \<or> snd (finish_hap_verify C msg r) = r\<lparr>verify := None\<rparr> \<or>
   (\<exists>v ident k sig. verify r = Some v \<and> controller_key r ident = Some k \<and>
      ed_verify_strict C k (hv_client_public v @ ident @ hv_server_public v) sig \<and>
      snd (finish_hap_verify C msg r) =
        r\<lparr>session := control_keys C (hv_shared_secret v), verified := True, verify := None\<rparr>)"
proof (cases "verify r")
  case None
  then show ?thesis by (simp add: finish_hap_verify_def)
next
  case (Some v)
  note v = this
  show ?thesis
  proof (cases "sealed_field msg")
    case None
    with v show ?thesis by (simp add: finish_hap_verify_def)
  next
    case (Some c)
    note c = this
    show ?thesis
    proof (cases "aead_open C (hv_verify_key v) (label_nonce ''PV-Msg03'') [] c")
      case None
      with v c show ?thesis by (simp add: finish_hap_verify_def)
    next
      case (Some plain)
      note plain = this
      show ?thesis
      proof (cases "m3_identity plain")
        case None
        with v c plain show ?thesis by (simp add: finish_hap_verify_def)
      next
        case (Some idn)
        obtain i sig where idn: "idn = (i, sig)" by (cases idn)
        show ?thesis
        proof (cases "controller_key r i")
          case None
          with v c plain Some idn show ?thesis by (simp add: finish_hap_verify_def)
        next
          case (Some k)
          have "snd (finish_hap_verify C msg r) =
            (if length k \<noteq> 32 \<or> \<not> ed_valid_key C k \<or>
                \<not> ed_verify_strict C k (hv_client_public v @ i @ hv_server_public v) sig
             then r\<lparr>verify := None\<rparr>
             else r\<lparr>session := control_keys C (hv_shared_secret v), verified := True, verify := None\<rparr>)"
            using v c plain \<open>m3_identity plain = Some idn\<close> idn Some
            by (simp add: finish_hap_verify_def Let_def)
          then show ?thesis using v Some by auto
        qed
      qed
    qed
  qed
qed

subsection \<open>One step\<close>

text \<open>What a step may do to the parts of the state that matter for authentication.\<close>

definition safe_step :: "crypto \<Rightarrow> pairing_event \<Rightarrow> ReceiverPairing \<Rightarrow> ReceiverPairing \<Rightarrow> bool" where
  "safe_step C e r r' \<longleftrightarrow>
     (verified r' \<longrightarrow> verified r \<and> session r' = session r \<or>
        (\<exists>i k v. authenticates C r e i k v \<and> session r' = control_keys C (hv_shared_secret v))) \<and>
     (\<forall>i k. controllers r' i = Some k \<longrightarrow> controllers r i = Some k \<or> (\<exists>K. enrols C r e i k K)) \<and>
     (\<forall>i k. transient r' i = Some k \<longrightarrow> transient r i = Some k \<or> (\<exists>K. enrols C r e i k K)) \<and>
     (\<forall>s K. rp_setup r' = Some s \<longrightarrow> ss_shared_key s = Some K \<longrightarrow>
        rp_setup r = Some s \<or> proves_key C r e K)"

lemma safe_step_refl: "safe_step C e r r"
  by (auto simp: safe_step_def)

lemma safe_step_clear: "safe_step C e r (r\<lparr>rp_setup := None\<rparr>)" "safe_step C e r (r\<lparr>verify := None\<rparr>)"
  "safe_step C e r (reset r)" "safe_step C e r ((reset_verify r)\<lparr>verify := v\<rparr>)"
  by (auto simp: safe_step_def)

lemma r_pair_setup_state:
  "snd (r_pair_setup C salt b msg r) = r \<or> snd (r_pair_setup C salt b msg r) = reset r \<or>
   snd (r_pair_setup C salt b msg r) = snd (begin_srp_setup C salt b (decode msg) r) \<or>
   snd (r_pair_setup C salt b msg r) = snd (verify_srp_proof C (decode msg) r) \<or>
   snd (r_pair_setup C salt b msg r) = snd (finish_srp_setup C (decode msg) r)"
  by (cases "sized 1 (decode msg TLV_STATE)") (simp_all add: r_pair_setup_def Let_def)

lemma r_pair_verify_state:
  "snd (r_pair_verify C priv msg r) = r \<or>
   snd (r_pair_verify C priv msg r) = snd (begin_hap_verify C priv (decode msg) r) \<or>
   snd (r_pair_verify C priv msg r) = snd (finish_hap_verify C (decode msg) r)"
  by (cases "sized 1 (decode msg TLV_STATE)") (simp_all add: r_pair_verify_def Let_def case_prod_unfold)

lemma rp_step_safe: "safe_step C e r (rp_step C e r)"
proof (cases e)
  case (PairSetup salt b msg)
  consider "rp_step C e r = r" | "rp_step C e r = reset r"
    | "rp_step C e r = snd (begin_srp_setup C salt b (decode msg) r)"
    | "rp_step C e r = snd (verify_srp_proof C (decode msg) r)"
    | "rp_step C e r = snd (finish_srp_setup C (decode msg) r)"
    using r_pair_setup_state [of C salt b msg r] by (auto simp: PairSetup)
  then show ?thesis
  proof cases
    case 3
    with begin_srp_setup_state [of C salt b "decode msg" r] show ?thesis
      by (auto simp: safe_step_refl) (auto simp: safe_step_def)
  next
    case 4
    with verify_srp_proof_state [of C "decode msg" r] show ?thesis
      by (auto simp: safe_step_refl safe_step_clear)
        (auto simp: safe_step_def proves_key_def PairSetup m3_key_def)
  next
    case 5
    from finish_srp_setup_state [of C "decode msg" r] consider
        "rp_step C e r = r" | "rp_step C e r = r\<lparr>rp_setup := None\<rparr>"
      | s K ident k sig where "rp_setup r = Some s" "ss_shared_key s = Some K"
          "ed_verify_strict C k (r_hkdf C K ''Pair-Setup-Controller-Sign-Salt''
             ''Pair-Setup-Controller-Sign-Info'' @ ident @ k) sig"
          "rp_step C e r =
           (if ss_transient s then r\<lparr>transient := (transient r)(from_utf8_lossy ident \<mapsto> k), rp_setup := None\<rparr>
            else r\<lparr>controllers := (controllers r)(from_utf8_lossy ident \<mapsto> k), rp_setup := None\<rparr>)"
      unfolding 5 by blast
    then show ?thesis
    proof cases
      case 3
      then have "enrols C r e (from_utf8_lossy ident) k K"
        by (auto simp: enrols_def PairSetup)
      with 3 show ?thesis by (auto simp: safe_step_def split: if_splits)
    qed (simp_all add: safe_step_refl safe_step_clear)
  qed (simp_all add: safe_step_refl safe_step_clear)
next
  case (PairVerify priv msg)
  consider "rp_step C e r = r" | "rp_step C e r = snd (begin_hap_verify C priv (decode msg) r)"
    | "rp_step C e r = snd (finish_hap_verify C (decode msg) r)"
    using r_pair_verify_state [of C priv msg r] by (auto simp: PairVerify)
  then show ?thesis
  proof cases
    case 2
    with begin_hap_verify_state [of C priv "decode msg" r] show ?thesis
      by (auto simp: safe_step_refl safe_step_clear)
  next
    case 3
    from finish_hap_verify_state [of C "decode msg" r] consider
        "rp_step C e r = r" | "rp_step C e r = r\<lparr>verify := None\<rparr>"
      | v ident k sig where "verify r = Some v" "controller_key r ident = Some k"
          "ed_verify_strict C k (hv_client_public v @ ident @ hv_server_public v) sig"
          "rp_step C e r = r\<lparr>session := control_keys C (hv_shared_secret v), verified := True, verify := None\<rparr>"
      unfolding 3 by blast
    then show ?thesis
    proof cases
      case 3
      then have "authenticates C r e (from_utf8_lossy ident) k v"
        by (auto simp: authenticates_def PairVerify)
      with 3 show ?thesis by (auto simp: safe_step_def)
    qed (simp_all add: safe_step_refl safe_step_clear)
  qed (simp add: safe_step_refl)
qed

subsection \<open>Runs\<close>

text \<open>\<open>occurs C r evs P\<close>: some event of the run satisfies \<open>P\<close>, of its position, the state before it
  and itself.\<close>

definition occurs ::
  "crypto \<Rightarrow> ReceiverPairing \<Rightarrow> pairing_event list \<Rightarrow>
   (nat \<Rightarrow> ReceiverPairing \<Rightarrow> pairing_event \<Rightarrow> bool) \<Rightarrow> bool" where
  "occurs C r evs P \<longleftrightarrow> (\<exists>n < length evs. P n (rp_exec C r (take n evs)) (evs ! n))"

lemma occurs_Nil [simp]: "\<not> occurs C r [] P"
  by (simp add: occurs_def)

lemma occurs_snoc:
  "occurs C r (evs @ [e]) P \<longleftrightarrow> occurs C r evs P \<or> P (length evs) (rp_exec C r evs) e"
proof -
  have split: "(\<exists>n < Suc (length evs). Q n) \<longleftrightarrow> (\<exists>n < length evs. Q n) \<or> Q (length evs)" for Q
    by (auto simp: less_Suc_eq)
  have "(\<exists>n < length evs. P n (rp_exec C r (take n (evs @ [e]))) ((evs @ [e]) ! n)) \<longleftrightarrow>
      (\<exists>n < length evs. P n (rp_exec C r (take n evs)) (evs ! n))"
    by (rule ex_cong) (simp add: nth_append)
  then show ?thesis unfolding occurs_def length_append_singleton split by simp
qed

lemma fresh_fields [simp]:
  "rp_setup (ReceiverPairing_new C i u sk p) = None" "verified (ReceiverPairing_new C i u sk p) = False"
  "controllers (ReceiverPairing_new C i u sk p) = Map.empty" "verify (ReceiverPairing_new C i u sk p) = None"
  "transient (ReceiverPairing_new C i u sk p) = Map.empty" "pin (ReceiverPairing_new C i u sk p) = p"
  "username (ReceiverPairing_new C i u sk p) = u" "rp_signing_key (ReceiverPairing_new C i u sk p) = sk"
  "rp_identifier (ReceiverPairing_new C i u sk p) = s2b i"
  "rp_verifying_key (ReceiverPairing_new C i u sk p) = ed_public C sk"
  by (simp_all add: ReceiverPairing_new_def)

lemma run_key_proven:
  assumes "rp_setup r = None"
  shows "rp_setup (rp_exec C r evs) = Some s \<Longrightarrow> ss_shared_key s = Some K \<Longrightarrow>
    occurs C r evs (\<lambda>_ r e. proves_key C r e K)"
proof (induction evs arbitrary: s rule: rev_induct)
  case Nil
  with assms show ?case by simp
next
  case (snoc e evs)
  with rp_step_safe [of C e "rp_exec C r evs"] show ?case
    unfolding occurs_snoc safe_step_def rp_exec_snoc by blast
qed

lemma run_enrolled:
  assumes "controllers r = Map.empty" "transient r = Map.empty"
  shows "controllers (rp_exec C r evs) i = Some k \<or> transient (rp_exec C r evs) i = Some k \<Longrightarrow>
    occurs C r evs (\<lambda>_ r e. \<exists>K. enrols C r e i k K)"
proof (induction evs rule: rev_induct)
  case Nil
  with assms show ?case by simp
next
  case (snoc e evs)
  with rp_step_safe [of C e "rp_exec C r evs"] show ?case
    unfolding occurs_snoc safe_step_def rp_exec_snoc by blast
qed

lemma run_authenticated:
  assumes "verified r = False"
  shows "verified (rp_exec C r evs) \<Longrightarrow>
    occurs C r evs (\<lambda>_ r' e. \<exists>i k v. authenticates C r' e i k v \<and>
      session (rp_exec C r evs) = control_keys C (hv_shared_secret v))"
proof (induction evs rule: rev_induct)
  case Nil
  with assms show ?case by simp
next
  case (snoc e evs)
  from rp_step_safe [of C e "rp_exec C r evs"] snoc.prems
  consider "verified (rp_exec C r evs)" "session (rp_step C e (rp_exec C r evs)) = session (rp_exec C r evs)"
    | i k v where "authenticates C (rp_exec C r evs) e i k v"
        "session (rp_step C e (rp_exec C r evs)) = control_keys C (hv_shared_secret v)"
    unfolding safe_step_def by auto
  then show ?case
    using snoc.IH by cases (auto simp: occurs_snoc)
qed

lemma occurs_take:
  "n \<le> length evs \<Longrightarrow> occurs C r (take n evs) P \<longleftrightarrow> (\<exists>m < n. P m (rp_exec C r (take m evs)) (evs ! m))"
  by (auto simp: occurs_def min_def)

lemma controller_key_cases:
  "controller_key r ident = Some k \<Longrightarrow>
     controllers r (from_utf8_lossy ident) = Some k \<or> transient r (from_utf8_lossy ident) = Some k"
  by (auto simp: controller_key_def split: option.splits)

text \<open>The chain of steps behind a verified connection, and the exchange its keys come from.\<close>

definition authentication_chain :: "crypto \<Rightarrow> ReceiverPairing \<Rightarrow> pairing_event list \<Rightarrow> bytes \<Rightarrow> bool" where
  "authentication_chain C r0 evs secret \<longleftrightarrow> (\<exists>n3 < length evs. \<exists>n2 < n3. \<exists>n1 < n2. \<exists>ident k v K.
    proves_key C (rp_exec C r0 (take n1 evs)) (evs ! n1) K \<and>
    enrols C (rp_exec C r0 (take n2 evs)) (evs ! n2) ident k K \<and>
    authenticates C (rp_exec C r0 (take n3 evs)) (evs ! n3) ident k v \<and> hv_shared_secret v = secret)"

lemma verified_chain:
  fixes C :: crypto and evs :: "pairing_event list" and i u p :: string and sk :: bytes
  assumes "verified (rp_exec C (ReceiverPairing_new C i u sk p) evs)"
  shows "\<exists>secret. authentication_chain C (ReceiverPairing_new C i u sk p) evs secret \<and>
    session (rp_exec C (ReceiverPairing_new C i u sk p) evs) = control_keys C secret"
proof -
  define r0 where "r0 = ReceiverPairing_new C i u sk p"
  from run_authenticated [of r0 C evs] assms
  obtain n3 ident k v where n3: "n3 < length evs"
      "authenticates C (rp_exec C r0 (take n3 evs)) (evs ! n3) ident k v"
      "session (rp_exec C r0 evs) = control_keys C (hv_shared_secret v)"
    by (auto simp: r0_def occurs_def)
  then have "controllers (rp_exec C r0 (take n3 evs)) ident = Some k \<or>
      transient (rp_exec C r0 (take n3 evs)) ident = Some k"
    by (auto simp: authenticates_def dest: controller_key_cases)
  with run_enrolled [of r0 C "take n3 evs" ident k] n3(1)
  obtain n2 K where n2: "n2 < n3" "enrols C (rp_exec C r0 (take n2 evs)) (evs ! n2) ident k K"
    by (auto simp: r0_def occurs_take)
  then obtain s where "rp_setup (rp_exec C r0 (take n2 evs)) = Some s" "ss_shared_key s = Some K"
    by (auto simp: enrols_def)
  with run_key_proven [of r0 C "take n2 evs" s K] n2(1) n3(1)
  obtain n1 where "n1 < n2" "proves_key C (rp_exec C r0 (take n1 evs)) (evs ! n1) K"
    by (auto simp: r0_def occurs_take)
  with n2 n3 show ?thesis unfolding r0_def authentication_chain_def by blast
qed

subsection \<open>Properties\<close>


end
