(* ===== verification/Fp_Tables.thy ===== *)
theory Fp_Tables
  imports Prelude
begin

text \<open>
  The constant tables of \<open>lumen-airplay/src/fp_tables_generated.rs\<close>, entry by entry, in decimal. An array
  of arrays is a list of lists; the two tables of byte lookups are split by field. The lemmas at the end
  are the facts about their shapes that the theories of the FairPlay modules use.
\<close>

subsection \<open>The modified MD5\<close>

definition FAIRPLAY_MD5_SHIFT :: "nat list" where
  "FAIRPLAY_MD5_SHIFT =
    [7, 12, 17, 22, 7, 12, 17, 22, 7, 12, 17, 22, 7, 12, 17, 22, 5, 9, 14, 20, 5, 9, 14, 20, 5, 9, 14, 20, 5, 9,
     14, 20, 4, 11, 16, 23, 4, 11, 16, 23, 4, 11, 16, 23, 4, 11, 16, 23, 6, 10, 15, 21, 6, 10, 15, 21, 6, 10,
     15, 21, 6, 10, 15, 21]"

definition FAIRPLAY_MD5_CONSTANT :: "u32 list" where
  "FAIRPLAY_MD5_CONSTANT =
    [3614090360, 3905402710, 606105819, 3250441966, 4118548399, 1200080426, 2821735955, 4249261313, 1770035416,
     2336552879, 4294925233, 2304563134, 1804603682, 4254626195, 2792965006, 1236535329, 4129170786, 3225465664,
     643717713, 3921069994, 3593408605, 38016083, 3634488961, 3889429448, 568446438, 3275163606, 4107603335,
     1163531501, 2850285829, 4243563512, 1735328473, 2368359562, 4294588738, 2272392833, 1839030562, 4259657740,
     2763975236, 1272893353, 4139469664, 3200236656, 681279174, 3936430074, 3572445317, 76029189, 3654602809,
     3873151461, 530742520, 3299628645, 4096336452, 1126891415, 2878612391, 4237533241, 1700485571, 2399980690,
     4293915773, 2240044497, 1873313359, 4264355552, 2734768916, 1309151649, 4149444226, 3174756917, 718787259,
     3951481745]"

subsection \<open>The message cipher\<close>

definition INVERSE_AES_SBOX :: "bytes" where
  "INVERSE_AES_SBOX =
    [82, 9, 106, 213, 48, 54, 165, 56, 191, 64, 163, 158, 129, 243, 215, 251, 124, 227, 57, 130, 155, 47, 255,
     135, 52, 142, 67, 68, 196, 222, 233, 203, 84, 123, 148, 50, 166, 194, 35, 61, 238, 76, 149, 11, 66, 250,
     195, 78, 8, 46, 161, 102, 40, 217, 36, 178, 118, 91, 162, 73, 109, 139, 209, 37, 114, 248, 246, 100, 134,
     104, 152, 22, 212, 164, 92, 204, 93, 101, 182, 146, 108, 112, 72, 80, 253, 237, 185, 218, 94, 21, 70, 87,
     167, 141, 157, 132, 144, 216, 171, 0, 140, 188, 211, 10, 247, 228, 88, 5, 184, 179, 69, 6, 208, 44, 30,
     143, 202, 63, 15, 2, 193, 175, 189, 3, 1, 19, 138, 107, 58, 145, 17, 65, 79, 103, 220, 234, 151, 242, 207,
     206, 240, 180, 230, 115, 150, 172, 116, 34, 231, 173, 53, 133, 226, 249, 55, 232, 28, 117, 223, 110, 71,
     241, 26, 113, 29, 41, 197, 137, 111, 183, 98, 14, 170, 24, 190, 27, 252, 86, 62, 75, 198, 210, 121, 32,
     154, 219, 192, 254, 120, 205, 90, 244, 31, 221, 168, 51, 136, 7, 199, 49, 177, 18, 16, 89, 39, 128, 236,
     95, 96, 81, 127, 169, 25, 181, 74, 13, 45, 229, 122, 159, 147, 201, 156, 239, 160, 224, 59, 77, 174, 42,
     245, 176, 200, 235, 187, 60, 131, 83, 153, 97, 23, 43, 4, 126, 186, 119, 214, 38, 225, 105, 20, 99, 85, 33,
     12, 125]"

definition FAIRPLAY_MESSAGE_IV :: "bytes list" where
  "FAIRPLAY_MESSAGE_IV =
    [[87, 82, 241, 183, 84, 157, 143, 135, 12, 16, 72, 90, 96, 136, 202, 219],
     [223, 123, 21, 99, 240, 5, 88, 119, 82, 169, 4, 2, 185, 163, 146, 149],
     [104, 181, 70, 17, 251, 4, 222, 103, 108, 150, 142, 251, 140, 157, 176, 201],
     [39, 7, 139, 33, 35, 54, 30, 122, 220, 157, 11, 17, 83, 84, 105, 13]]"

definition FAIRPLAY_MESSAGE_ROUND_KEY_0 :: "bytes" where
  "FAIRPLAY_MESSAGE_ROUND_KEY_0 =
    [211, 13, 253, 181, 99, 222, 247, 43, 1, 46, 173, 114, 136, 77, 202, 37]"

definition FAIRPLAY_MESSAGE_ROUND_KEY_10 :: "bytes" where
  "FAIRPLAY_MESSAGE_ROUND_KEY_10 =
    [205, 94, 207, 71, 233, 175, 40, 155, 81, 24, 143, 104, 208, 133, 235, 105]"

definition FAIRPLAY_MESSAGE_MIDDLE_KEYS :: "bytes list list" where
  "FAIRPLAY_MESSAGE_MIDDLE_KEYS =
    [[[106, 240, 8, 166, 174, 81, 24, 38, 138, 204, 203, 67, 87, 209, 231, 17],
      [198, 181, 121, 224, 223, 206, 129, 20, 212, 29, 145, 200, 104, 81, 59, 227],
      [186, 252, 36, 6, 94, 188, 156, 246, 19, 22, 82, 222, 117, 175, 208, 222],
      [129, 168, 181, 22, 131, 110, 230, 73, 60, 204, 193, 37, 219, 153, 224, 236],
      [120, 27, 108, 235, 48, 12, 254, 143, 60, 12, 84, 201, 45, 199, 226, 163],
      [89, 76, 200, 113, 173, 74, 61, 216, 81, 168, 132, 176, 237, 4, 143, 92],
      [175, 234, 36, 94, 174, 31, 45, 229, 87, 187, 81, 27, 23, 221, 204, 61],
      [142, 122, 148, 85, 105, 192, 152, 86, 83, 56, 114, 202, 106, 58, 0, 222],
      [243, 202, 49, 129, 12, 182, 32, 27, 36, 181, 199, 228, 238, 16, 139, 192]],
     [[27, 144, 24, 190, 164, 150, 19, 232, 106, 180, 19, 98, 124, 132, 167, 102],
      [201, 76, 29, 197, 92, 139, 187, 4, 169, 64, 246, 64, 244, 32, 235, 165],
      [213, 102, 66, 57, 223, 99, 152, 19, 114, 183, 168, 178, 54, 11, 22, 11],
      [70, 44, 215, 175, 135, 184, 0, 90, 71, 21, 126, 50, 100, 69, 87, 207],
      [240, 192, 172, 38, 240, 25, 136, 168, 87, 61, 57, 226, 152, 249, 127, 106],
      [148, 7, 171, 249, 71, 120, 140, 234, 218, 37, 238, 85, 131, 51, 237, 182],
      [63, 130, 15, 158, 216, 35, 206, 47, 119, 34, 196, 186, 177, 210, 227, 53],
      [113, 252, 160, 255, 53, 79, 137, 145, 16, 153, 97, 135, 139, 250, 124, 251],
      [86, 108, 152, 56, 30, 237, 207, 231, 149, 79, 114, 19, 246, 31, 200, 126]],
     [[42, 178, 235, 225, 20, 150, 169, 101, 93, 209, 178, 138, 153, 16, 238, 48],
      [156, 188, 1, 214, 79, 164, 28, 161, 247, 5, 160, 239, 127, 180, 121, 52],
      [8, 240, 41, 8, 146, 12, 91, 52, 141, 50, 211, 71, 11, 7, 112, 91],
      [135, 53, 64, 68, 112, 72, 111, 164, 164, 43, 4, 251, 253, 225, 30, 60],
      [216, 235, 164, 120, 15, 105, 101, 61, 252, 125, 43, 79, 191, 177, 172, 104],
      [167, 74, 122, 102, 150, 190, 66, 225, 184, 132, 225, 172, 255, 19, 17, 164],
      [204, 122, 0, 124, 216, 163, 243, 48, 211, 241, 123, 163, 67, 125, 82, 205],
      [30, 222, 255, 149, 138, 98, 84, 178, 1, 20, 207, 221, 192, 42, 72, 248],
      [58, 54, 244, 224, 105, 225, 144, 123, 44, 140, 119, 155, 231, 51, 108, 9]],
     [[246, 162, 35, 180, 240, 29, 138, 121, 39, 167, 201, 101, 222, 85, 77, 224],
      [12, 209, 81, 93, 67, 36, 108, 135, 252, 47, 73, 67, 100, 164, 207, 188],
      [214, 110, 59, 221, 108, 127, 27, 129, 31, 144, 41, 25, 132, 181, 234, 238],
      [83, 13, 122, 232, 91, 48, 64, 86, 159, 19, 19, 15, 24, 251, 177, 229],
      [7, 132, 196, 122, 159, 225, 15, 61, 94, 165, 67, 46, 205, 217, 245, 133],
      [185, 176, 54, 142, 183, 209, 52, 217, 14, 189, 27, 148, 178, 85, 164, 251],
      [178, 164, 53, 37, 52, 6, 111, 222, 193, 206, 56, 219, 61, 140, 59, 133],
      [11, 49, 122, 148, 37, 32, 98, 45, 137, 87, 142, 159, 229, 161, 63, 195],
      [189, 245, 105, 230, 190, 252, 29, 47, 192, 139, 175, 115, 63, 29, 23, 106]]]"

subsection \<open>Key derivation, the SAP hash and the session records\<close>

definition FAIRPLAY_INITIAL_SESSION_KEY :: "bytes" where
  "FAIRPLAY_INITIAL_SESSION_KEY =
    [220, 220, 243, 185, 11, 116, 220, 251, 134, 127, 247, 96, 22, 114, 144, 81]"

definition FAIRPLAY_KDF_PREFIX :: "bytes" where
  "FAIRPLAY_KDF_PREFIX =
    [250, 156, 173, 77, 75, 104, 38, 140, 127, 243, 136, 153, 222, 146, 46, 149, 30]"

definition FAIRPLAY_KDF_SUFFIX :: "bytes" where
  "FAIRPLAY_KDF_SUFFIX =
    [236, 78, 39, 94, 253, 242, 232, 48, 151, 174, 112, 251, 224, 0, 63, 28, 57]"

definition SAP_INITIAL_HASH :: "bytes" where
  "SAP_INITIAL_HASH =
    [150, 95, 198, 83, 248, 70, 204, 24, 223, 190, 178, 248, 56, 98, 236, 34, 147, 209, 32, 143]"

definition SAP_INITIAL_MATRIX :: "bytes" where
  "SAP_INITIAL_MATRIX =
    [67, 84, 98, 122, 24, 195, 214, 179, 154, 86, 246, 28, 20, 63, 12, 29, 59, 54, 131, 177, 57, 81, 74, 170, 9,
     62, 254, 68, 175, 222, 195, 32, 157, 66, 184]"

definition SAP_SEED :: "bytes" where
  "SAP_SEED =
    [237, 37, 209, 187, 188, 39, 159, 2, 162, 169, 17, 0, 12, 179, 82, 192, 189, 227, 27, 73, 199]"

definition FPSAP_M3_LABEL :: "bytes" where
  "FPSAP_M3_LABEL =
    [143, 26, 156]"

definition FPSAP_DESCRIPTOR_PREFIX :: "bytes" where
  "FPSAP_DESCRIPTOR_PREFIX =
    [160, 68, 156, 77, 9, 228, 189, 127, 110, 197, 208, 204, 53, 157, 167, 70, 122]"

definition FPSAP_DESCRIPTOR_SUFFIX :: "bytes" where
  "FPSAP_DESCRIPTOR_SUFFIX =
    [151, 181, 15, 132, 226, 21, 90, 156, 36, 153, 28, 244, 58, 9, 99, 85, 71]"

definition FPSAP_FIXED_BLOCK :: "bytes" where
  "FPSAP_FIXED_BLOCK =
    [175, 194, 43, 160, 73, 239, 252, 251, 254, 103, 172, 94, 190, 246, 251, 203]"

subsection \<open>The white-box networks\<close>

definition FPSAP_FIRST_POSITION_MAP :: "nat list" where
  "FPSAP_FIRST_POSITION_MAP =
    [0, 5, 10, 15, 4, 9, 14, 3, 8, 13, 2, 7, 12, 1, 6, 11]"

definition FPSAP_SECOND_POSITION_MAP :: "nat list" where
  "FPSAP_SECOND_POSITION_MAP =
    [0, 13, 10, 7, 4, 1, 14, 11, 8, 5, 2, 15, 12, 9, 6, 3]"

definition FPSAP_FIRST_INPUT_MASK :: "bytes" where
  "FPSAP_FIRST_INPUT_MASK =
    [160, 150, 117, 250, 254, 145, 234, 123, 228, 138, 121, 223, 110, 113, 221, 23]"

definition FPSAP_SECOND_OUTPUT_MASK :: "bytes" where
  "FPSAP_SECOND_OUTPUT_MASK =
    [103, 188, 84, 192, 142, 50, 133, 27, 80, 210, 18, 95, 104, 183, 64, 165]"

definition FPSAP_SUBSTITUTION_BASES :: "bytes list" where
  "FPSAP_SUBSTITUTION_BASES =
    [[73, 29, 118, 21, 242, 58, 182, 172, 52, 160, 105, 127, 129, 215, 136, 187, 113, 110, 40, 22, 190, 112, 56,
      186, 152, 1, 166, 91, 146, 255, 32, 142, 208, 176, 14, 201, 47, 222, 61, 111, 159, 83, 183, 252, 200, 123,
      130, 100, 254, 218, 92, 11, 243, 134, 178, 66, 54, 214, 245, 248, 233, 42, 239, 131, 203, 154, 141, 18,
      221, 231, 101, 88, 135, 89, 0, 202, 253, 139, 240, 132, 79, 177, 189, 161, 165, 133, 209, 157, 84, 115, 85,
      241, 55, 195, 210, 6, 86, 38, 216, 80, 51, 247, 155, 164, 20, 117, 205, 59, 169, 5, 103, 107, 230, 98, 95,
      102, 191, 3, 207, 193, 93, 74, 192, 170, 69, 114, 158, 138, 34, 148, 143, 180, 137, 9, 72, 23, 64, 2, 250,
      96, 238, 171, 184, 227, 225, 62, 194, 196, 99, 228, 116, 140, 70, 185, 15, 217, 244, 28, 68, 71, 235, 145,
      65, 251, 24, 45, 163, 168, 122, 144, 63, 77, 173, 67, 106, 147, 126, 17, 109, 226, 153, 50, 213, 179, 30,
      219, 49, 232, 94, 236, 57, 150, 81, 181, 175, 151, 97, 167, 198, 19, 104, 44, 246, 39, 229, 90, 119, 206,
      10, 35, 60, 48, 156, 25, 13, 46, 8, 36, 249, 16, 78, 124, 212, 7, 199, 53, 211, 128, 149, 237, 188, 174,
      41, 224, 220, 162, 108, 43, 33, 121, 76, 197, 37, 82, 204, 87, 27, 75, 12, 31, 26, 4, 234, 125, 223, 120],
     [87, 107, 45, 131, 100, 50, 138, 237, 254, 63, 86, 26, 220, 230, 49, 208, 252, 17, 170, 53, 197, 59, 145,
      248, 33, 191, 57, 47, 243, 106, 51, 223, 163, 233, 27, 169, 69, 188, 200, 213, 80, 31, 11, 144, 219, 201,
      224, 102, 93, 211, 159, 109, 65, 54, 37, 20, 236, 111, 43, 193, 164, 125, 66, 67, 14, 30, 95, 41, 12, 216,
      122, 92, 174, 114, 179, 123, 42, 168, 5, 75, 234, 155, 173, 178, 61, 94, 207, 108, 214, 251, 117, 82, 128,
      74, 226, 83, 98, 162, 176, 232, 77, 218, 4, 38, 153, 130, 149, 158, 103, 204, 239, 24, 147, 134, 120, 247,
      3, 121, 222, 150, 205, 76, 245, 235, 126, 183, 199, 192, 142, 9, 132, 25, 167, 6, 228, 187, 249, 203, 250,
      113, 73, 15, 79, 246, 181, 241, 62, 127, 91, 148, 202, 35, 242, 68, 165, 119, 212, 221, 184, 190, 253, 13,
      146, 72, 116, 129, 198, 55, 2, 22, 36, 18, 161, 44, 21, 185, 194, 52, 175, 84, 135, 60, 152, 143, 157, 90,
      172, 28, 171, 186, 124, 88, 104, 189, 70, 118, 40, 64, 141, 8, 215, 140, 195, 19, 46, 139, 23, 255, 56,
      238, 101, 78, 229, 209, 244, 182, 48, 89, 180, 1, 160, 196, 115, 151, 217, 29, 39, 177, 154, 16, 110, 96,
      210, 97, 136, 99, 137, 32, 156, 240, 231, 7, 112, 227, 71, 58, 206, 133, 34, 166, 10, 0, 85, 81, 105, 225],
     [250, 249, 85, 113, 136, 68, 202, 247, 56, 152, 1, 183, 88, 87, 153, 72, 157, 143, 38, 233, 131, 188, 67,
      221, 30, 14, 84, 54, 66, 211, 235, 155, 53, 236, 5, 60, 47, 255, 178, 108, 251, 99, 95, 229, 118, 142, 41,
      213, 184, 203, 101, 43, 20, 31, 24, 216, 224, 29, 97, 201, 122, 57, 156, 74, 128, 219, 91, 180, 197, 242,
      18, 80, 45, 77, 65, 207, 23, 44, 40, 42, 39, 48, 36, 110, 34, 194, 10, 175, 62, 164, 252, 64, 132, 127,
      114, 82, 200, 92, 254, 125, 3, 245, 168, 58, 192, 52, 199, 223, 104, 160, 123, 220, 86, 141, 161, 94, 238,
      15, 103, 140, 21, 100, 50, 89, 165, 241, 145, 234, 167, 232, 253, 130, 222, 96, 120, 159, 147, 8, 112, 150,
      109, 12, 61, 144, 137, 81, 59, 228, 135, 121, 51, 93, 215, 248, 176, 106, 35, 182, 16, 32, 230, 76, 244,
      181, 243, 126, 193, 98, 70, 237, 198, 63, 55, 212, 214, 208, 206, 73, 90, 13, 187, 231, 2, 107, 7, 179,
      196, 154, 185, 158, 117, 174, 190, 148, 83, 163, 49, 71, 166, 22, 27, 189, 111, 0, 173, 170, 119, 115, 28,
      210, 177, 217, 240, 79, 116, 78, 239, 102, 209, 149, 226, 133, 191, 146, 75, 151, 169, 138, 162, 19, 124,
      134, 25, 33, 246, 171, 227, 6, 17, 204, 186, 139, 205, 37, 172, 225, 9, 4, 11, 129, 69, 26, 105, 218, 46,
      195],
     [171, 13, 181, 200, 157, 237, 17, 80, 99, 139, 131, 121, 18, 124, 141, 35, 161, 235, 76, 230, 210, 83, 123,
      98, 240, 20, 40, 174, 158, 175, 182, 140, 198, 179, 133, 64, 148, 109, 50, 88, 247, 248, 134, 177, 221,
      219, 252, 55, 91, 164, 238, 70, 39, 26, 65, 147, 137, 223, 3, 90, 89, 135, 96, 213, 229, 183, 193, 60, 206,
      31, 194, 111, 54, 9, 95, 224, 16, 82, 74, 97, 75, 231, 66, 190, 160, 222, 45, 169, 145, 33, 254, 57, 185,
      38, 104, 187, 37, 236, 79, 151, 10, 78, 251, 129, 73, 92, 103, 199, 28, 23, 184, 167, 22, 173, 249, 105,
      228, 62, 0, 217, 172, 61, 46, 71, 209, 116, 29, 84, 7, 155, 211, 86, 41, 220, 166, 201, 51, 156, 42, 253,
      114, 245, 11, 125, 34, 128, 150, 4, 63, 233, 47, 52, 101, 132, 56, 163, 43, 225, 36, 196, 127, 87, 192,
      180, 234, 202, 69, 153, 144, 117, 188, 113, 176, 246, 27, 203, 159, 6, 255, 152, 32, 212, 250, 154, 208,
      138, 24, 112, 178, 94, 19, 58, 227, 53, 93, 30, 216, 214, 218, 81, 2, 102, 8, 215, 207, 241, 48, 44, 107,
      149, 170, 242, 186, 195, 239, 120, 12, 143, 162, 77, 68, 67, 122, 119, 21, 168, 197, 243, 5, 244, 14, 15,
      85, 72, 191, 226, 189, 146, 126, 108, 205, 130, 49, 59, 204, 25, 110, 106, 1, 118, 115, 100, 232, 142, 165,
      136],
     [250, 59, 135, 85, 198, 19, 220, 137, 184, 199, 103, 201, 188, 130, 40, 68, 175, 223, 119, 212, 5, 73, 246,
      125, 7, 217, 202, 249, 225, 8, 41, 4, 174, 216, 101, 173, 99, 194, 35, 97, 127, 31, 126, 2, 124, 121, 207,
      21, 96, 245, 75, 167, 88, 17, 42, 157, 57, 12, 86, 163, 18, 191, 105, 154, 106, 123, 45, 39, 52, 203, 153,
      244, 62, 128, 14, 209, 144, 120, 230, 228, 118, 160, 110, 243, 43, 51, 65, 60, 61, 74, 131, 115, 80, 166,
      66, 27, 180, 11, 150, 24, 72, 3, 232, 71, 93, 205, 170, 134, 22, 189, 98, 251, 187, 50, 111, 254, 231, 143,
      29, 255, 183, 164, 13, 95, 215, 82, 148, 108, 113, 200, 178, 37, 109, 236, 214, 165, 53, 161, 210, 192, 70,
      64, 28, 32, 190, 79, 238, 185, 240, 234, 186, 208, 56, 63, 138, 46, 15, 33, 140, 182, 92, 67, 213, 242,
      104, 77, 247, 177, 87, 211, 252, 218, 197, 253, 142, 102, 171, 227, 23, 136, 114, 146, 172, 58, 1, 141,
      193, 133, 36, 248, 241, 239, 89, 151, 100, 206, 139, 117, 155, 91, 81, 10, 55, 0, 222, 195, 129, 122, 158,
      235, 224, 44, 156, 30, 159, 169, 6, 226, 204, 112, 94, 38, 181, 90, 9, 196, 237, 221, 162, 26, 145, 132,
      176, 34, 78, 47, 16, 152, 69, 233, 229, 76, 116, 149, 147, 84, 219, 54, 168, 48, 49, 25, 107, 179, 83, 20],
     [84, 103, 197, 26, 83, 9, 166, 235, 172, 7, 194, 231, 108, 167, 141, 123, 193, 131, 42, 6, 81, 33, 183, 54,
      82, 230, 116, 20, 153, 142, 15, 23, 85, 79, 72, 53, 12, 227, 63, 46, 66, 151, 130, 31, 132, 14, 77, 127,
      228, 129, 195, 191, 161, 169, 175, 28, 87, 212, 40, 126, 180, 24, 102, 65, 204, 149, 69, 112, 144, 233,
      143, 179, 229, 189, 62, 140, 60, 187, 160, 252, 58, 156, 101, 202, 91, 78, 52, 4, 76, 43, 29, 48, 218, 59,
      163, 138, 241, 147, 224, 198, 119, 122, 93, 146, 106, 244, 118, 207, 35, 44, 64, 75, 182, 222, 13, 57, 86,
      32, 226, 94, 68, 234, 254, 37, 155, 98, 185, 49, 242, 217, 203, 97, 238, 30, 209, 128, 165, 201, 36, 215,
      232, 18, 237, 61, 225, 8, 92, 56, 186, 211, 100, 181, 38, 210, 170, 145, 190, 22, 107, 5, 109, 251, 223,
      95, 25, 74, 117, 137, 214, 248, 154, 34, 133, 216, 51, 208, 3, 104, 135, 19, 177, 219, 199, 67, 1, 157,
      249, 184, 213, 164, 246, 250, 70, 47, 110, 115, 196, 139, 148, 113, 178, 236, 39, 17, 10, 200, 111, 174,
      105, 150, 206, 2, 16, 21, 89, 125, 253, 221, 11, 176, 239, 255, 45, 168, 124, 158, 159, 152, 162, 136, 173,
      55, 171, 240, 80, 220, 0, 134, 247, 121, 90, 88, 245, 96, 192, 99, 41, 243, 120, 50, 114, 188, 73, 71, 27,
      205]]"

definition FPSAP_MIX_BASES :: "bytes list" where
  "FPSAP_MIX_BASES =
    [[70, 206, 177, 57, 186, 50, 77, 197, 88, 208, 175, 39, 164, 44, 83, 219, 135, 15, 112, 248, 123, 243, 140,
      4, 153, 17, 110, 230, 101, 237, 146, 26, 234, 98, 29, 149, 22, 158, 225, 105, 244, 124, 3, 139, 8, 128,
      255, 119, 43, 163, 220, 84, 215, 95, 32, 168, 53, 189, 194, 74, 201, 65, 62, 182, 207, 71, 56, 176, 51,
      187, 196, 76, 209, 89, 38, 174, 45, 165, 218, 82, 14, 134, 249, 113, 242, 122, 5, 141, 16, 152, 231, 111,
      236, 100, 27, 147, 99, 235, 148, 28, 159, 23, 104, 224, 125, 245, 138, 2, 129, 9, 118, 254, 162, 42, 85,
      221, 94, 214, 169, 33, 188, 52, 75, 195, 64, 200, 183, 63, 60, 180, 203, 67, 192, 72, 55, 191, 34, 170,
      213, 93, 222, 86, 41, 161, 253, 117, 10, 130, 1, 137, 246, 126, 227, 107, 20, 156, 31, 151, 232, 96, 144,
      24, 103, 239, 108, 228, 155, 19, 142, 6, 121, 241, 114, 250, 133, 13, 81, 217, 166, 46, 173, 37, 90, 210,
      79, 199, 184, 48, 179, 59, 68, 204, 181, 61, 66, 202, 73, 193, 190, 54, 171, 35, 92, 212, 87, 223, 160, 40,
      116, 252, 131, 11, 136, 0, 127, 247, 106, 226, 157, 21, 150, 30, 97, 233, 25, 145, 238, 102, 229, 109, 18,
      154, 7, 143, 240, 120, 251, 115, 12, 132, 216, 80, 47, 167, 36, 172, 211, 91, 198, 78, 49, 185, 58, 178,
      205, 69],
     [251, 250, 249, 248, 255, 254, 253, 252, 243, 242, 241, 240, 247, 246, 245, 244, 235, 234, 233, 232, 239,
      238, 237, 236, 227, 226, 225, 224, 231, 230, 229, 228, 219, 218, 217, 216, 223, 222, 221, 220, 211, 210,
      209, 208, 215, 214, 213, 212, 203, 202, 201, 200, 207, 206, 205, 204, 195, 194, 193, 192, 199, 198, 197,
      196, 187, 186, 185, 184, 191, 190, 189, 188, 179, 178, 177, 176, 183, 182, 181, 180, 171, 170, 169, 168,
      175, 174, 173, 172, 163, 162, 161, 160, 167, 166, 165, 164, 155, 154, 153, 152, 159, 158, 157, 156, 147,
      146, 145, 144, 151, 150, 149, 148, 139, 138, 137, 136, 143, 142, 141, 140, 131, 130, 129, 128, 135, 134,
      133, 132, 123, 122, 121, 120, 127, 126, 125, 124, 115, 114, 113, 112, 119, 118, 117, 116, 107, 106, 105,
      104, 111, 110, 109, 108, 99, 98, 97, 96, 103, 102, 101, 100, 91, 90, 89, 88, 95, 94, 93, 92, 83, 82, 81,
      80, 87, 86, 85, 84, 75, 74, 73, 72, 79, 78, 77, 76, 67, 66, 65, 64, 71, 70, 69, 68, 59, 58, 57, 56, 63, 62,
      61, 60, 51, 50, 49, 48, 55, 54, 53, 52, 43, 42, 41, 40, 47, 46, 45, 44, 35, 34, 33, 32, 39, 38, 37, 36, 27,
      26, 25, 24, 31, 30, 29, 28, 19, 18, 17, 16, 23, 22, 21, 20, 11, 10, 9, 8, 15, 14, 13, 12, 3, 2, 1, 0, 7, 6,
      5, 4],
     [175, 38, 90, 211, 87, 222, 162, 43, 185, 48, 76, 197, 65, 200, 180, 61, 126, 247, 139, 2, 134, 15, 115,
      250, 104, 225, 157, 20, 144, 25, 101, 236, 35, 170, 214, 95, 219, 82, 46, 167, 53, 188, 192, 73, 205, 68,
      56, 177, 242, 123, 7, 142, 10, 131, 255, 118, 228, 109, 17, 152, 28, 149, 233, 96, 102, 239, 147, 26, 158,
      23, 107, 226, 112, 249, 133, 12, 136, 1, 125, 244, 183, 62, 66, 203, 79, 198, 186, 51, 161, 40, 84, 221,
      89, 208, 172, 37, 234, 99, 31, 150, 18, 155, 231, 110, 252, 117, 9, 128, 4, 141, 241, 120, 59, 178, 206,
      71, 195, 74, 54, 191, 45, 164, 216, 81, 213, 92, 32, 169, 85, 220, 160, 41, 173, 36, 88, 209, 67, 202, 182,
      63, 187, 50, 78, 199, 132, 13, 113, 248, 124, 245, 137, 0, 146, 27, 103, 238, 106, 227, 159, 22, 217, 80,
      44, 165, 33, 168, 212, 93, 207, 70, 58, 179, 55, 190, 194, 75, 8, 129, 253, 116, 240, 121, 5, 140, 30, 151,
      235, 98, 230, 111, 19, 154, 156, 21, 105, 224, 100, 237, 145, 24, 138, 3, 127, 246, 114, 251, 135, 14, 77,
      196, 184, 49, 181, 60, 64, 201, 91, 210, 174, 39, 163, 42, 86, 223, 16, 153, 229, 108, 232, 97, 29, 148, 6,
      143, 243, 122, 254, 119, 11, 130, 193, 72, 52, 189, 57, 176, 204, 69, 215, 94, 34, 171, 47, 166, 218, 83],
     [1, 52, 64, 117, 135, 178, 198, 243, 5, 48, 68, 113, 131, 182, 194, 247, 62, 11, 127, 74, 184, 141, 249,
      204, 58, 15, 123, 78, 188, 137, 253, 200, 8, 61, 73, 124, 142, 187, 207, 250, 12, 57, 77, 120, 138, 191,
      203, 254, 55, 2, 118, 67, 177, 132, 240, 197, 51, 6, 114, 71, 181, 128, 244, 193, 217, 236, 152, 173, 95,
      106, 30, 43, 221, 232, 156, 169, 91, 110, 26, 47, 230, 211, 167, 146, 96, 85, 33, 20, 226, 215, 163, 150,
      100, 81, 37, 16, 208, 229, 145, 164, 86, 99, 23, 34, 212, 225, 149, 160, 82, 103, 19, 38, 239, 218, 174,
      155, 105, 92, 40, 29, 235, 222, 170, 159, 109, 88, 44, 25, 28, 41, 93, 104, 154, 175, 219, 238, 24, 45, 89,
      108, 158, 171, 223, 234, 35, 22, 98, 87, 165, 144, 228, 209, 39, 18, 102, 83, 161, 148, 224, 213, 21, 32,
      84, 97, 147, 166, 210, 231, 17, 36, 80, 101, 151, 162, 214, 227, 42, 31, 107, 94, 172, 153, 237, 216, 46,
      27, 111, 90, 168, 157, 233, 220, 196, 241, 133, 176, 66, 119, 3, 54, 192, 245, 129, 180, 70, 115, 7, 50,
      251, 206, 186, 143, 125, 72, 60, 9, 255, 202, 190, 139, 121, 76, 56, 13, 205, 248, 140, 185, 75, 126, 10,
      63, 201, 252, 136, 189, 79, 122, 14, 59, 242, 199, 179, 134, 116, 65, 53, 0, 246, 195, 183, 130, 112, 69,
      49, 4],
     [111, 183, 198, 30, 109, 181, 196, 28, 169, 113, 0, 216, 171, 115, 2, 218, 250, 34, 83, 139, 248, 32, 81,
      137, 60, 228, 149, 77, 62, 230, 151, 79, 222, 6, 119, 175, 220, 4, 117, 173, 24, 192, 177, 105, 26, 194,
      179, 107, 75, 147, 226, 58, 73, 145, 224, 56, 141, 85, 36, 252, 143, 87, 38, 254, 146, 74, 59, 227, 144,
      72, 57, 225, 84, 140, 253, 37, 86, 142, 255, 39, 7, 223, 174, 118, 5, 221, 172, 116, 193, 25, 104, 176,
      195, 27, 106, 178, 35, 251, 138, 82, 33, 249, 136, 80, 229, 61, 76, 148, 231, 63, 78, 150, 182, 110, 31,
      199, 180, 108, 29, 197, 112, 168, 217, 1, 114, 170, 219, 3, 133, 93, 44, 244, 135, 95, 46, 246, 67, 155,
      234, 50, 65, 153, 232, 48, 16, 200, 185, 97, 18, 202, 187, 99, 214, 14, 127, 167, 212, 12, 125, 165, 52,
      236, 157, 69, 54, 238, 159, 71, 242, 42, 91, 131, 240, 40, 89, 129, 161, 121, 8, 208, 163, 123, 10, 210,
      103, 191, 206, 22, 101, 189, 204, 20, 120, 160, 209, 9, 122, 162, 211, 11, 190, 102, 23, 207, 188, 100, 21,
      205, 237, 53, 68, 156, 239, 55, 70, 158, 43, 243, 130, 90, 41, 241, 128, 88, 201, 17, 96, 184, 203, 19, 98,
      186, 15, 215, 166, 126, 13, 213, 164, 124, 92, 132, 245, 45, 94, 134, 247, 47, 154, 66, 51, 235, 152, 64,
      49, 233],
     [186, 6, 14, 178, 196, 120, 112, 204, 168, 20, 28, 160, 214, 106, 98, 222, 84, 232, 224, 92, 42, 150, 158,
      34, 70, 250, 242, 78, 56, 132, 140, 48, 63, 131, 139, 55, 65, 253, 245, 73, 45, 145, 153, 37, 83, 239, 231,
      91, 209, 109, 101, 217, 175, 19, 27, 167, 195, 127, 119, 203, 189, 1, 9, 181, 171, 23, 31, 163, 213, 105,
      97, 221, 185, 5, 13, 177, 199, 123, 115, 207, 69, 249, 241, 77, 59, 135, 143, 51, 87, 235, 227, 95, 41,
      149, 157, 33, 46, 146, 154, 38, 80, 236, 228, 88, 60, 128, 136, 52, 66, 254, 246, 74, 192, 124, 116, 200,
      190, 2, 10, 182, 210, 110, 102, 218, 172, 16, 24, 164, 93, 225, 233, 85, 35, 159, 151, 43, 79, 243, 251,
      71, 49, 141, 133, 57, 179, 15, 7, 187, 205, 113, 121, 197, 161, 29, 21, 169, 223, 99, 107, 215, 216, 100,
      108, 208, 166, 26, 18, 174, 202, 118, 126, 194, 180, 8, 0, 188, 54, 138, 130, 62, 72, 244, 252, 64, 36,
      152, 144, 44, 90, 230, 238, 82, 76, 240, 248, 68, 50, 142, 134, 58, 94, 226, 234, 86, 32, 156, 148, 40,
      162, 30, 22, 170, 220, 96, 104, 212, 176, 12, 4, 184, 206, 114, 122, 198, 201, 117, 125, 193, 183, 11, 3,
      191, 219, 103, 111, 211, 165, 25, 17, 173, 39, 155, 147, 47, 89, 229, 237, 81, 53, 137, 129, 61, 75, 247,
      255, 67],
     [124, 44, 34, 114, 130, 210, 220, 140, 164, 244, 250, 170, 90, 10, 4, 84, 40, 120, 118, 38, 214, 134, 136,
      216, 240, 160, 174, 254, 14, 94, 80, 0, 97, 49, 63, 111, 159, 207, 193, 145, 185, 233, 231, 183, 71, 23,
      25, 73, 53, 101, 107, 59, 203, 155, 149, 197, 237, 189, 179, 227, 19, 67, 77, 29, 8, 88, 86, 6, 246, 166,
      168, 248, 208, 128, 142, 222, 46, 126, 112, 32, 92, 12, 2, 82, 162, 242, 252, 172, 132, 212, 218, 138, 122,
      42, 36, 116, 21, 69, 75, 27, 235, 187, 181, 229, 205, 157, 147, 195, 51, 99, 109, 61, 65, 17, 31, 79, 191,
      239, 225, 177, 153, 201, 199, 151, 103, 55, 57, 105, 236, 188, 178, 226, 18, 66, 76, 28, 52, 100, 106, 58,
      202, 154, 148, 196, 184, 232, 230, 182, 70, 22, 24, 72, 96, 48, 62, 110, 158, 206, 192, 144, 241, 161, 175,
      255, 15, 95, 81, 1, 41, 121, 119, 39, 215, 135, 137, 217, 165, 245, 251, 171, 91, 11, 5, 85, 125, 45, 35,
      115, 131, 211, 221, 141, 152, 200, 198, 150, 102, 54, 56, 104, 64, 16, 30, 78, 190, 238, 224, 176, 204,
      156, 146, 194, 50, 98, 108, 60, 20, 68, 74, 26, 234, 186, 180, 228, 133, 213, 219, 139, 123, 43, 37, 117,
      93, 13, 3, 83, 163, 243, 253, 173, 209, 129, 143, 223, 47, 127, 113, 33, 9, 89, 87, 7, 247, 167, 169, 249]]"

record FpsapByteLookup =
  table :: nat
  input_xor :: byte
  output_xor :: byte

definition byte_lookup :: "nat \<Rightarrow> byte \<Rightarrow> byte \<Rightarrow> FpsapByteLookup" where
  "byte_lookup t i o' = \<lparr>table = t, input_xor = i, output_xor = o'\<rparr>"

record FpsapNetworkTables =
  round_substitution :: "FpsapByteLookup list list"
  mix_columns :: "FpsapByteLookup list list"
  final_substitution :: "FpsapByteLookup list"

definition first_round_substitution :: "FpsapByteLookup list list" where
  "first_round_substitution =
    [[byte_lookup 0 0 0, byte_lookup 0 222 219, byte_lookup 0 46 147, byte_lookup 0 102 178, byte_lookup 0 176 0,
      byte_lookup 0 13 219, byte_lookup 0 36 147, byte_lookup 0 248 178, byte_lookup 0 210 0,
      byte_lookup 0 253 219, byte_lookup 0 126 147, byte_lookup 0 161 178, byte_lookup 0 91 0,
      byte_lookup 0 158 219, byte_lookup 0 25 147, byte_lookup 0 246 178],
     [byte_lookup 1 0 0, byte_lookup 1 99 219, byte_lookup 1 70 147, byte_lookup 1 87 178, byte_lookup 1 164 0,
      byte_lookup 1 115 219, byte_lookup 1 133 147, byte_lookup 1 203 178, byte_lookup 1 201 0,
      byte_lookup 1 150 219, byte_lookup 1 54 147, byte_lookup 1 5 178, byte_lookup 1 128 0,
      byte_lookup 1 215 219, byte_lookup 1 53 147, byte_lookup 1 255 178],
     [byte_lookup 1 97 0, byte_lookup 1 99 219, byte_lookup 1 6 147, byte_lookup 1 247 178, byte_lookup 1 44 0,
      byte_lookup 1 162 219, byte_lookup 1 251 147, byte_lookup 1 135 178, byte_lookup 1 12 0,
      byte_lookup 1 134 219, byte_lookup 1 181 147, byte_lookup 1 57 178, byte_lookup 1 101 0,
      byte_lookup 1 227 219, byte_lookup 1 248 147, byte_lookup 1 125 178],
     [byte_lookup 1 42 0, byte_lookup 1 33 219, byte_lookup 1 161 147, byte_lookup 1 94 178, byte_lookup 1 239 0,
      byte_lookup 1 49 219, byte_lookup 1 34 147, byte_lookup 1 98 178, byte_lookup 1 10 0, byte_lookup 1 5 219,
      byte_lookup 1 239 147, byte_lookup 1 224 178, byte_lookup 1 134 0, byte_lookup 1 84 219,
      byte_lookup 1 111 147, byte_lookup 1 38 178],
     [byte_lookup 1 193 0, byte_lookup 1 74 219, byte_lookup 1 237 147, byte_lookup 1 69 178,
      byte_lookup 1 199 0, byte_lookup 1 201 219, byte_lookup 1 183 147, byte_lookup 1 156 178,
      byte_lookup 1 36 0, byte_lookup 1 126 219, byte_lookup 1 32 147, byte_lookup 1 199 178, byte_lookup 1 75 0,
      byte_lookup 1 152 219, byte_lookup 1 55 147, byte_lookup 1 90 178],
     [byte_lookup 1 34 0, byte_lookup 1 253 219, byte_lookup 1 22 147, byte_lookup 1 36 178, byte_lookup 1 12 0,
      byte_lookup 1 134 219, byte_lookup 1 217 147, byte_lookup 1 3 178, byte_lookup 1 193 0,
      byte_lookup 1 74 219, byte_lookup 1 129 147, byte_lookup 1 127 178, byte_lookup 1 99 0,
      byte_lookup 1 96 219, byte_lookup 1 206 147, byte_lookup 1 158 178],
     [byte_lookup 1 99 0, byte_lookup 1 134 219, byte_lookup 1 211 147, byte_lookup 1 29 178,
      byte_lookup 1 134 0, byte_lookup 1 178 219, byte_lookup 1 114 147, byte_lookup 1 165 178,
      byte_lookup 1 174 0, byte_lookup 1 74 219, byte_lookup 1 139 147, byte_lookup 1 97 178, byte_lookup 1 36 0,
      byte_lookup 1 152 219, byte_lookup 1 61 147, byte_lookup 1 68 178],
     [byte_lookup 1 130 0, byte_lookup 1 207 219, byte_lookup 1 146 147, byte_lookup 1 178 178,
      byte_lookup 1 237 0, byte_lookup 1 207 219, byte_lookup 1 152 147, byte_lookup 1 172 178,
      byte_lookup 1 170 0, byte_lookup 1 55 219, byte_lookup 1 107 147, byte_lookup 1 118 178,
      byte_lookup 1 103 0, byte_lookup 1 29 219, byte_lookup 1 46 147, byte_lookup 1 137 178],
     [byte_lookup 1 244 0, byte_lookup 1 20 219, byte_lookup 1 142 147, byte_lookup 1 233 178,
      byte_lookup 1 240 0, byte_lookup 1 105 219, byte_lookup 1 110 147, byte_lookup 1 254 178,
      byte_lookup 1 179 0, byte_lookup 1 236 219, byte_lookup 1 125 147, byte_lookup 1 51 178,
      byte_lookup 1 61 0, byte_lookup 1 67 219, byte_lookup 1 43 147, byte_lookup 1 1 178]]"

definition first_mix_columns :: "FpsapByteLookup list list" where
  "first_mix_columns =
    [[byte_lookup 0 0 0, byte_lookup 1 0 0, byte_lookup 1 0 213, byte_lookup 2 0 0],
     [byte_lookup 2 0 137, byte_lookup 0 0 208, byte_lookup 1 0 9, byte_lookup 1 0 121],
     [byte_lookup 1 0 33, byte_lookup 2 0 72, byte_lookup 0 0 72, byte_lookup 1 0 43],
     [byte_lookup 1 0 77, byte_lookup 1 0 57, byte_lookup 2 0 4, byte_lookup 0 0 228]]"

definition first_final_substitution :: "FpsapByteLookup list" where
  "first_final_substitution =
    [byte_lookup 2 0 0, byte_lookup 2 150 72, byte_lookup 2 205 66, byte_lookup 2 198 86, byte_lookup 2 25 36,
     byte_lookup 2 77 147, byte_lookup 2 219 38, byte_lookup 2 131 165, byte_lookup 2 67 156,
     byte_lookup 2 19 98, byte_lookup 2 222 2, byte_lookup 2 11 164, byte_lookup 2 151 29,
     byte_lookup 2 226 213, byte_lookup 2 141 229, byte_lookup 2 177 138]"

definition FPSAP_FIRST_TABLES :: FpsapNetworkTables where
  "FPSAP_FIRST_TABLES = \<lparr>round_substitution = first_round_substitution,
     mix_columns = first_mix_columns, final_substitution = first_final_substitution\<rparr>"

definition second_round_substitution :: "FpsapByteLookup list list" where
  "second_round_substitution =
    [[byte_lookup 3 0 0, byte_lookup 3 91 56, byte_lookup 3 145 215, byte_lookup 3 82 5, byte_lookup 3 0 164,
      byte_lookup 3 91 40, byte_lookup 3 145 20, byte_lookup 3 82 153, byte_lookup 3 0 201, byte_lookup 3 91 205,
      byte_lookup 3 145 167, byte_lookup 3 82 87, byte_lookup 3 0 128, byte_lookup 3 91 140,
      byte_lookup 3 145 164, byte_lookup 3 82 173],
     [byte_lookup 3 0 97, byte_lookup 3 91 56, byte_lookup 3 145 151, byte_lookup 3 82 165, byte_lookup 3 0 44,
      byte_lookup 3 91 249, byte_lookup 3 145 106, byte_lookup 3 82 213, byte_lookup 3 0 12,
      byte_lookup 3 91 221, byte_lookup 3 145 36, byte_lookup 3 82 107, byte_lookup 3 0 101,
      byte_lookup 3 91 184, byte_lookup 3 145 105, byte_lookup 3 82 47],
     [byte_lookup 3 0 42, byte_lookup 3 91 122, byte_lookup 3 145 48, byte_lookup 3 82 12, byte_lookup 3 0 239,
      byte_lookup 3 91 106, byte_lookup 3 145 179, byte_lookup 3 82 48, byte_lookup 3 0 10, byte_lookup 3 91 94,
      byte_lookup 3 145 126, byte_lookup 3 82 178, byte_lookup 3 0 134, byte_lookup 3 91 15,
      byte_lookup 3 145 254, byte_lookup 3 82 116],
     [byte_lookup 3 0 193, byte_lookup 3 91 17, byte_lookup 3 145 124, byte_lookup 3 82 23, byte_lookup 3 0 199,
      byte_lookup 3 91 146, byte_lookup 3 145 38, byte_lookup 3 82 206, byte_lookup 3 0 36, byte_lookup 3 91 37,
      byte_lookup 3 145 177, byte_lookup 3 82 149, byte_lookup 3 0 75, byte_lookup 3 91 195,
      byte_lookup 3 145 166, byte_lookup 3 82 8],
     [byte_lookup 3 0 34, byte_lookup 3 91 166, byte_lookup 3 145 135, byte_lookup 3 82 118, byte_lookup 3 0 12,
      byte_lookup 3 91 221, byte_lookup 3 145 72, byte_lookup 3 82 81, byte_lookup 3 0 193, byte_lookup 3 91 17,
      byte_lookup 3 145 16, byte_lookup 3 82 45, byte_lookup 3 0 99, byte_lookup 3 91 59, byte_lookup 3 145 95,
      byte_lookup 3 82 204],
     [byte_lookup 3 0 99, byte_lookup 3 91 221, byte_lookup 3 145 66, byte_lookup 3 82 79, byte_lookup 3 0 134,
      byte_lookup 3 91 233, byte_lookup 3 145 227, byte_lookup 3 82 247, byte_lookup 3 0 174,
      byte_lookup 3 91 17, byte_lookup 3 145 26, byte_lookup 3 82 51, byte_lookup 3 0 36, byte_lookup 3 91 195,
      byte_lookup 3 145 172, byte_lookup 3 82 22],
     [byte_lookup 3 0 130, byte_lookup 3 91 148, byte_lookup 3 145 3, byte_lookup 3 82 224, byte_lookup 3 0 237,
      byte_lookup 3 91 148, byte_lookup 3 145 9, byte_lookup 3 82 254, byte_lookup 3 0 170, byte_lookup 3 91 108,
      byte_lookup 3 145 250, byte_lookup 3 82 36, byte_lookup 3 0 103, byte_lookup 3 91 70,
      byte_lookup 3 145 191, byte_lookup 3 82 219],
     [byte_lookup 3 0 244, byte_lookup 3 91 79, byte_lookup 3 145 31, byte_lookup 3 82 187, byte_lookup 3 0 240,
      byte_lookup 3 91 50, byte_lookup 3 145 255, byte_lookup 3 82 172, byte_lookup 3 0 179,
      byte_lookup 3 91 183, byte_lookup 3 145 236, byte_lookup 3 82 97, byte_lookup 3 0 61, byte_lookup 3 91 24,
      byte_lookup 3 145 186, byte_lookup 3 82 83],
     [byte_lookup 4 0 0, byte_lookup 4 72 205, byte_lookup 4 66 92, byte_lookup 4 86 148, byte_lookup 4 36 25,
      byte_lookup 4 147 22, byte_lookup 4 38 74, byte_lookup 4 165 209, byte_lookup 4 156 67,
      byte_lookup 4 98 72, byte_lookup 4 2 79, byte_lookup 4 164 89, byte_lookup 4 29 151, byte_lookup 4 213 185,
      byte_lookup 4 229 28, byte_lookup 4 138 227]]"

definition second_mix_columns :: "FpsapByteLookup list list" where
  "second_mix_columns =
    [[byte_lookup 3 0 0, byte_lookup 4 0 0, byte_lookup 5 0 0, byte_lookup 6 0 0],
     [byte_lookup 6 0 1, byte_lookup 3 0 131, byte_lookup 4 0 210, byte_lookup 5 0 119],
     [byte_lookup 5 0 103, byte_lookup 6 0 31, byte_lookup 3 0 140, byte_lookup 4 0 184],
     [byte_lookup 4 0 255, byte_lookup 5 0 94, byte_lookup 6 0 86, byte_lookup 3 0 4]]"

definition second_final_substitution :: "FpsapByteLookup list" where
  "second_final_substitution =
    [byte_lookup 5 0 0, byte_lookup 5 91 222, byte_lookup 5 145 46, byte_lookup 5 82 102, byte_lookup 5 0 176,
     byte_lookup 5 91 13, byte_lookup 5 145 36, byte_lookup 5 82 248, byte_lookup 5 0 210, byte_lookup 5 91 253,
     byte_lookup 5 145 126, byte_lookup 5 82 161, byte_lookup 5 0 91, byte_lookup 5 91 158,
     byte_lookup 5 145 25, byte_lookup 5 82 246]"

definition FPSAP_SECOND_TABLES :: FpsapNetworkTables where
  "FPSAP_SECOND_TABLES = \<lparr>round_substitution = second_round_substitution,
     mix_columns = second_mix_columns, final_substitution = second_final_substitution\<rparr>"

subsection \<open>Shapes\<close>

named_theorems table_simps "lengths of the tables"

lemma table_lengths [table_simps, simp]:
  "length FAIRPLAY_MD5_SHIFT = 64" "length FAIRPLAY_MD5_CONSTANT = 64" "length INVERSE_AES_SBOX = 256"
  "length FAIRPLAY_MESSAGE_IV = 4" "length FAIRPLAY_MESSAGE_ROUND_KEY_0 = 16"
  "length FAIRPLAY_MESSAGE_ROUND_KEY_10 = 16" "length FAIRPLAY_MESSAGE_MIDDLE_KEYS = 4"
  "length FAIRPLAY_INITIAL_SESSION_KEY = 16" "length FAIRPLAY_KDF_PREFIX = 17" "length FAIRPLAY_KDF_SUFFIX = 17"
  "length SAP_INITIAL_HASH = 20" "length SAP_INITIAL_MATRIX = 35" "length SAP_SEED = 21"
  "length FPSAP_M3_LABEL = 3" "length FPSAP_DESCRIPTOR_PREFIX = 17" "length FPSAP_DESCRIPTOR_SUFFIX = 17"
  "length FPSAP_FIXED_BLOCK = 16" "length FPSAP_FIRST_POSITION_MAP = 16" "length FPSAP_SECOND_POSITION_MAP = 16"
  "length FPSAP_FIRST_INPUT_MASK = 16" "length FPSAP_SECOND_OUTPUT_MASK = 16"
  by (simp_all add: FAIRPLAY_MD5_SHIFT_def FAIRPLAY_MD5_CONSTANT_def INVERSE_AES_SBOX_def
      FAIRPLAY_MESSAGE_IV_def FAIRPLAY_MESSAGE_ROUND_KEY_0_def FAIRPLAY_MESSAGE_ROUND_KEY_10_def
      FAIRPLAY_MESSAGE_MIDDLE_KEYS_def FAIRPLAY_INITIAL_SESSION_KEY_def FAIRPLAY_KDF_PREFIX_def
      FAIRPLAY_KDF_SUFFIX_def SAP_INITIAL_HASH_def SAP_INITIAL_MATRIX_def SAP_SEED_def FPSAP_M3_LABEL_def
      FPSAP_DESCRIPTOR_PREFIX_def FPSAP_DESCRIPTOR_SUFFIX_def FPSAP_FIXED_BLOCK_def
      FPSAP_FIRST_POSITION_MAP_def FPSAP_SECOND_POSITION_MAP_def FPSAP_FIRST_INPUT_MASK_def
      FPSAP_SECOND_OUTPUT_MASK_def)

lemma message_key_lengths [table_simps]:
  "\<forall>iv \<in> set FAIRPLAY_MESSAGE_IV. length iv = 16"
  "\<forall>ks \<in> set FAIRPLAY_MESSAGE_MIDDLE_KEYS. length ks = 9 \<and> (\<forall>k \<in> set ks. length k = 16)"
  by (simp_all add: FAIRPLAY_MESSAGE_IV_def FAIRPLAY_MESSAGE_MIDDLE_KEYS_def)

text \<open>The inverse S-box is a permutation of the 256 bytes.\<close>

lemma sbox_distinct: "distinct INVERSE_AES_SBOX"
proof -
  have "distinct (map unat INVERSE_AES_SBOX)"
    unfolding INVERSE_AES_SBOX_def by simp
  then show ?thesis by (simp add: distinct_map)
qed

end
