(* ===== verification/Fairplay_Md5.thy ===== *)
theory Fairplay_Md5
  imports Fp_Tables "HOL-Library.Multiset"
begin

text \<open>
  The modified MD5 compression of \<open>lumen-airplay/src/fairplay_md5.rs\<close>: the rounds and constants of MD5
  on big-endian message words, with a data-dependent rearrangement of the message after round 31. The
  lemmas show that the rearrangement loses no message word.
\<close>

unbundle bit_operations_syntax

datatype FairplayMd5Mutation = FpsapSwap | FpsapCycle | FairplayKdf

type_synonym md5_words = "u32 \<times> u32 \<times> u32 \<times> u32"

definition u32_of_be :: "bytes \<Rightarrow> u32" where
  "u32_of_be b = word_of_nat (of_be b)"

definition u32_of_le :: "bytes \<Rightarrow> u32" where
  "u32_of_le b = word_of_nat (of_le b)"

definition u32_to_be :: "u32 \<Rightarrow> bytes" where
  "u32_to_be w = to_be 4 (unat w)"

text \<open>\<open>message.swap(i, j)\<close>\<close>

definition swap :: "nat \<Rightarrow> nat \<Rightarrow> 'a list \<Rightarrow> 'a list" where
  "swap i j xs = xs[i := xs ! j, j := xs ! i]"

definition nibble :: "nat \<Rightarrow> u32 \<Rightarrow> nat" where
  "nibble shift w = unat (drop_bit shift w AND 15)"

definition mutation_indices :: "md5_words \<Rightarrow> nat list" where
  "mutation_indices w = (case w of (a, b, c, d) \<Rightarrow>
     [nibble 0 a, nibble 0 b, nibble 0 c, nibble 0 d, nibble 4 a, nibble 4 b, nibble 4 c, nibble 4 d])"

text \<open>The loop of the cycle: \<open>message[indices[i]] = message[indices[i + 1]]\<close> for the consecutive pairs.\<close>

fun cycle_words :: "nat list \<Rightarrow> 'a list \<Rightarrow> 'a list" where
  "cycle_words (i # j # is) xs = cycle_words (j # is) (xs[i := xs ! j])"
| "cycle_words _ xs = xs"

definition mutate_fairplay_md5_message ::
  "FairplayMd5Mutation \<Rightarrow> md5_words \<Rightarrow> u32 list \<Rightarrow> u32 list" where
  "mutate_fairplay_md5_message mutation w message =
    (let indices = mutation_indices w in
     case mutation of
       FpsapSwap \<Rightarrow> fold (\<lambda>(i, j). swap i j) (enumerate 0 indices) message
     | FpsapCycle \<Rightarrow> (cycle_words indices message)[last indices := message ! hd indices]
     | FairplayKdf \<Rightarrow> (case w of (a, b, c, d) \<Rightarrow>
         fold (\<lambda>shift. swap (nibble shift a) (nibble shift b)) [4, 8, 12]
           (swap (nibble 0 c) (nibble 0 d) (swap (nibble 0 a) (nibble 0 b) message))))"

text \<open>The round function and the index of the message word of a round.\<close>

definition md5_select :: "nat \<Rightarrow> md5_words \<Rightarrow> u32 \<times> nat" where
  "md5_select round w = (case w of (a, b, c, d) \<Rightarrow>
     if round < 16 then ((b AND c) OR (NOT b AND d), round)
     else if round < 32 then ((d AND b) OR (NOT d AND c), (5 * round + 1) mod 16)
     else if round < 48 then (b XOR c XOR d, (3 * round + 5) mod 16)
     else (c XOR (b OR NOT d), (7 * round) mod 16))"

definition md5_round :: "u32 list \<Rightarrow> nat \<Rightarrow> md5_words \<Rightarrow> md5_words" where
  "md5_round message round w = (case w of (a, b, c, d) \<Rightarrow>
     let (f, word) = md5_select round w
     in (d, b + word_rotl (FAIRPLAY_MD5_SHIFT ! round)
              (a + f + FAIRPLAY_MD5_CONSTANT ! round + message ! word), b, c))"

definition md5_step ::
  "FairplayMd5Mutation \<Rightarrow> nat \<Rightarrow> u32 list \<times> md5_words \<Rightarrow> u32 list \<times> md5_words" where
  "md5_step mutation round = (\<lambda>(message, w).
     let w = md5_round message round w
     in (if round = 31 then mutate_fairplay_md5_message mutation w message else message, w))"

definition message_words :: "bytes \<Rightarrow> u32 list" where
  "message_words block = map (\<lambda>i. u32_of_be (take 4 (drop (i * 4) block))) [0..<16]"

definition fairplay_md5_compress :: "md5_words \<Rightarrow> bytes \<Rightarrow> FairplayMd5Mutation \<Rightarrow> md5_words" where
  "fairplay_md5_compress state block mutation =
    (case state of (s0, s1, s2, s3) \<Rightarrow>
     case snd (fold (md5_step mutation) [0..<64] (message_words block, state)) of
       (a, b, c, d) \<Rightarrow> (s0 + a, s1 + b, s2 + c, s3 + d))"

definition fairplay_words_from_little_endian :: "bytes \<Rightarrow> md5_words" where
  "fairplay_words_from_little_endian input =
    (u32_of_le (take 4 input), u32_of_le (take 4 (drop 4 input)),
     u32_of_le (take 4 (drop 8 input)), u32_of_le (take 4 (drop 12 input)))"

definition fairplay_words_big_endian :: "md5_words \<Rightarrow> bytes" where
  "fairplay_words_big_endian w = (case w of (a, b, c, d) \<Rightarrow>
     u32_to_be a @ u32_to_be b @ u32_to_be c @ u32_to_be d)"

subsection \<open>Lengths and bounds\<close>

lemma length_words_big_endian [simp]: "length (fairplay_words_big_endian w) = 16"
  by (cases w) (simp add: fairplay_words_big_endian_def u32_to_be_def)

lemma length_message_words [simp]: "length (message_words b) = 16"
  by (simp add: message_words_def)

lemma nibble_less [simp]: "nibble s w < 16"
  using word_and_le1 [of "drop_bit s w" 15] by (simp add: nibble_def word_le_nat_alt)

lemma length_swap [simp]: "length (swap i j xs) = length xs"
  by (simp add: swap_def)

lemma mset_swap_words [simp]: "i < length xs \<Longrightarrow> j < length xs \<Longrightarrow> mset (swap i j xs) = mset xs"
  by (simp add: swap_def Multiset.mset_swap)

lemma length_cycle_words [simp]: "length (cycle_words is xs) = length xs"
  by (induction "is" xs rule: cycle_words.induct) simp_all

lemma length_fold_swap [simp]:
  "length (fold (\<lambda>(i, j). swap i j) ps xs) = length xs"
  by (induction ps arbitrary: xs) auto

lemma mset_fold_swap:
  "\<forall>(i, j) \<in> set ps. i < length xs \<and> j < length xs \<Longrightarrow> mset (fold (\<lambda>(i, j). swap i j) ps xs) = mset xs"
  by (induction ps arbitrary: xs) auto

text \<open>The cycle is the composition of the swaps of consecutive indices, whether or not they are distinct.\<close>

fun cycle_swaps :: "nat list \<Rightarrow> 'a list \<Rightarrow> 'a list" where
  "cycle_swaps (i # j # is) xs = cycle_swaps (j # is) (swap i j xs)"
| "cycle_swaps _ xs = xs"

lemma cycle_is_swaps:
  assumes "\<forall>i \<in> set is. i < length xs" "is \<noteq> []"
  shows "(cycle_words is xs)[last is := v] = cycle_swaps is (xs[hd is := v])"
  using assms
proof (induction "is" xs rule: cycle_words.induct)
  case (1 i j js xs)
  then have "(cycle_words (j # js) (xs[i := xs ! j]))[last (j # js) := v]
      = cycle_swaps (j # js) (xs[i := xs ! j, j := v])"
    by simp
  moreover have "swap i j (xs[i := v]) = xs[i := xs ! j, j := v]"
    using "1.prems" by (cases "i = j") (simp_all add: swap_def)
  ultimately show ?case by simp
qed simp_all

lemma mset_cycle_swaps: "\<forall>i \<in> set is. i < length xs \<Longrightarrow> mset (cycle_swaps is xs) = mset xs"
  by (induction "is" xs rule: cycle_swaps.induct) simp_all

lemma mutation_indices_less: "i \<in> set (mutation_indices w) \<Longrightarrow> i < 16"
  by (cases w) (auto simp: mutation_indices_def)

lemma mset_mutate:
  assumes "length message = 16"
  shows "mset (mutate_fairplay_md5_message mutation w message) = mset message"
proof (cases mutation)
  case FpsapSwap
  have "i < 16 \<and> j < 16" if "(i, j) \<in> set (enumerate 0 (mutation_indices w))" for i j
  proof -
    have "length (mutation_indices w) = 8" by (cases w) (simp add: mutation_indices_def)
    with that show ?thesis by (auto simp: in_set_enumerate_eq intro!: mutation_indices_less [of _ w])
  qed
  with FpsapSwap assms show ?thesis
    by (auto simp: mutate_fairplay_md5_message_def intro!: mset_fold_swap)
next
  case FpsapCycle
  let ?is = "mutation_indices w"
  have ne: "?is \<noteq> []" by (cases w) (simp add: mutation_indices_def)
  have less: "\<forall>i \<in> set ?is. i < length message" using assms mutation_indices_less by simp
  then have "mutate_fairplay_md5_message mutation w message = cycle_swaps ?is message"
    using FpsapCycle cycle_is_swaps [of ?is message "message ! hd ?is"] ne
    by (simp add: mutate_fairplay_md5_message_def Let_def)
  then show ?thesis by (simp only: mset_cycle_swaps [OF less])
next
  case FairplayKdf
  with assms show ?thesis
    by (cases w) (simp add: mutate_fairplay_md5_message_def Let_def)
qed

lemma md5_step_mset:
  assumes "length (fst s) = 16"
  shows "mset (fst (md5_step mutation r s)) = mset (fst s)"
  using assms by (simp add: md5_step_def case_prod_unfold Let_def mset_mutate)

text \<open>The data-dependent rearrangement of the message loses nothing: after any number of rounds, under
  each of the three mutations, the schedule holds exactly the block's sixteen words, in some order. For the
  cycle this holds although its indices need not be distinct.\<close>

theorem md5_message_rearranged:
  "mset (fst (fold (md5_step mutation) [0..<n] (message_words block, state))) = mset (message_words block)"
proof (induction n)
  case (Suc n)
  let ?s = "fold (md5_step mutation) [0..<n] (message_words block, state)"
  have "length (fst ?s) = 16" using mset_eq_length [OF Suc] by simp
  from md5_step_mset [OF this] Suc show ?case by simp
qed simp

end
