(* ===== verification/Fairplay_Message.thy ===== *)
theory Fairplay_Message
  imports Fp_Tables
begin

text \<open>
  The message cipher of \<open>lumen-airplay/src/fairplay_message.rs\<close>: AES rounds with fixed round keys per
  mode, chained over eight blocks. The lemmas invert each step; together they show that decryption inverts
  encryption in every mode.
\<close>

unbundle bit_operations_syntax

definition FAIRPLAY_MESSAGE_MODE_COUNT :: nat where
  "FAIRPLAY_MESSAGE_MODE_COUNT = 4"

subsection \<open>The operations\<close>

definition forward_aes_sbox :: bytes where
  "forward_aes_sbox =
    fold (\<lambda>(encrypted, plaintext) table. table[unat plaintext := word_of_nat encrypted])
      (enumerate 0 INVERSE_AES_SBOX) (replicate 256 0)"

definition xor_aes_round_key :: "bytes \<Rightarrow> bytes \<Rightarrow> bytes" where
  "xor_aes_round_key state key = xor_bytes state key"

text \<open>\<open>state[4 * column + row]\<close> for all columns and rows.\<close>

definition inverse_aes_shift_rows :: "bytes \<Rightarrow> bytes" where
  "inverse_aes_shift_rows s =
    map (\<lambda>i. s ! (4 * ((i div 4 + 4 - i mod 4) mod 4) + i mod 4)) [0..<16]"

definition aes_shift_rows :: "bytes \<Rightarrow> bytes" where
  "aes_shift_rows s = map (\<lambda>i. s ! (4 * ((i div 4 + i mod 4) mod 4) + i mod 4)) [0..<16]"

function gf_mul_loop :: "byte \<Rightarrow> byte \<Rightarrow> byte \<Rightarrow> byte" where
  "gf_mul_loop a b product =
    (if b = 0 then product
     else gf_mul_loop (if a AND 0x80 \<noteq> 0 then push_bit 1 a XOR 0x1b else push_bit 1 a) (drop_bit 1 b)
            (if b AND 1 \<noteq> 0 then product XOR a else product))"
  by pat_completeness auto
termination
proof (relation "measure (\<lambda>(_, b, _). unat b)")
  fix a b product :: byte
  assume "b \<noteq> 0"
  then have "0 < unat b" by (simp add: unat_gt_0)
  then have "unat (drop_bit 1 b) < unat b" by (simp add: unsigned_drop_bit_eq drop_bit_Suc unat_div)
  then show "((if a AND 0x80 \<noteq> 0 then push_bit 1 a XOR 0x1b else push_bit 1 a, drop_bit 1 b,
      if b AND 1 \<noteq> 0 then product XOR a else product), a, b, product) \<in> measure (\<lambda>(_, b, _). unat b)"
    by simp
qed simp

declare gf_mul_loop.simps [simp del]

definition gf_mul :: "byte \<Rightarrow> byte \<Rightarrow> byte" where
  "gf_mul a b = gf_mul_loop a b 0"

definition inverse_aes_mix_column :: "byte \<Rightarrow> byte \<Rightarrow> byte \<Rightarrow> byte \<Rightarrow> bytes" where
  "inverse_aes_mix_column a b c d =
    [gf_mul a 14 XOR gf_mul b 11 XOR gf_mul c 13 XOR gf_mul d 9,
     gf_mul a 9 XOR gf_mul b 14 XOR gf_mul c 11 XOR gf_mul d 13,
     gf_mul a 13 XOR gf_mul b 9 XOR gf_mul c 14 XOR gf_mul d 11,
     gf_mul a 11 XOR gf_mul b 13 XOR gf_mul c 9 XOR gf_mul d 14]"

definition aes_mix_column :: "byte \<Rightarrow> byte \<Rightarrow> byte \<Rightarrow> byte \<Rightarrow> bytes" where
  "aes_mix_column a b c d =
    [gf_mul a 2 XOR gf_mul b 3 XOR c XOR d,
     a XOR gf_mul b 2 XOR gf_mul c 3 XOR d,
     a XOR b XOR gf_mul c 2 XOR gf_mul d 3,
     gf_mul a 3 XOR b XOR c XOR gf_mul d 2]"

text \<open>The loop over the columns, each replaced in place.\<close>

fun map_columns :: "(byte \<Rightarrow> byte \<Rightarrow> byte \<Rightarrow> byte \<Rightarrow> bytes) \<Rightarrow> bytes \<Rightarrow> bytes" where
  "map_columns f (a # b # c # d # rest) = f a b c d @ map_columns f rest"
| "map_columns f s = s"

definition inverse_aes_mix_columns :: "bytes \<Rightarrow> bytes" where
  "inverse_aes_mix_columns s = map_columns inverse_aes_mix_column s"

definition aes_mix_columns :: "bytes \<Rightarrow> bytes" where
  "aes_mix_columns s = map_columns aes_mix_column s"

definition substitute_all :: "bytes \<Rightarrow> bytes \<Rightarrow> bytes" where
  "substitute_all sbox s = map (\<lambda>b. sbox ! unat b) s"

definition middle_key :: "nat \<Rightarrow> nat \<Rightarrow> bytes" where
  "middle_key mode round = FAIRPLAY_MESSAGE_MIDDLE_KEYS ! mode ! round"

definition decrypt_fairplay_message_block :: "nat \<Rightarrow> bytes \<Rightarrow> bytes" where
  "decrypt_fairplay_message_block mode state =
    (let s = xor_aes_round_key state FAIRPLAY_MESSAGE_ROUND_KEY_10;
         s = fold (\<lambda>round s.
               inverse_aes_mix_columns
                 (xor_aes_round_key (substitute_all INVERSE_AES_SBOX (inverse_aes_shift_rows s))
                    (middle_key mode (round - 1)))) (rev [1..<10]) s
     in xor_aes_round_key (substitute_all INVERSE_AES_SBOX (inverse_aes_shift_rows s))
          FAIRPLAY_MESSAGE_ROUND_KEY_0)"

definition encrypt_fairplay_message_block :: "nat \<Rightarrow> bytes \<Rightarrow> bytes \<Rightarrow> bytes" where
  "encrypt_fairplay_message_block mode sbox state =
    (let s = aes_shift_rows (substitute_all sbox (xor_aes_round_key state FAIRPLAY_MESSAGE_ROUND_KEY_0));
         s = fold (\<lambda>round s.
               aes_shift_rows (substitute_all sbox
                 (xor_aes_round_key (aes_mix_columns s) (middle_key mode round)))) [0..<9] s
     in xor_aes_round_key s FAIRPLAY_MESSAGE_ROUND_KEY_10)"

definition block_at :: "nat \<Rightarrow> bytes \<Rightarrow> bytes" where
  "block_at start b = take 16 (drop start b)"

text \<open>One block of the decryption: it reads the record only, so the order of the blocks is immaterial to
  the result; mode 3 goes through them backwards. A mode above 3 indexes past the tables.\<close>

definition decrypt_block_of :: "bytes \<Rightarrow> nat \<Rightarrow> bytes" where
  "decrypt_block_of message block =
    (let mode = unat (message ! 12); start = 16 + block * 16;
         state = decrypt_fairplay_message_block mode (block_at start message);
         chain = (if 0 < block then block_at (start - 16) message else FAIRPLAY_MESSAGE_IV ! mode)
     in xor_bytes state chain)"

definition decrypt_fairplay_message :: "bytes \<Rightarrow> bytes res" where
  "decrypt_fairplay_message message =
    (if length message < 144 \<or> FAIRPLAY_MESSAGE_MODE_COUNT \<le> unat (message ! 12) then Inl Panic
     else Inr (fold (\<lambda>step plaintext.
       let block = (if unat (message ! 12) = 3 then 7 - step else step)
       in splice (block * 16) (decrypt_block_of message block) plaintext) [0..<8] (replicate 128 0)))"

text \<open>The loop of the encryption, returning the blocks in order.\<close>

fun encrypt_blocks :: "nat \<Rightarrow> bytes \<Rightarrow> bytes \<Rightarrow> bytes \<Rightarrow> nat \<Rightarrow> bytes" where
  "encrypt_blocks mode sbox chain plaintext 0 = []"
| "encrypt_blocks mode sbox chain plaintext (Suc n) =
    (let state = encrypt_fairplay_message_block mode sbox (xor_bytes (take 16 plaintext) chain)
     in state @ encrypt_blocks mode sbox state (drop 16 plaintext) n)"

definition encrypt_fairplay_message :: "byte \<Rightarrow> bytes \<Rightarrow> bytes res" where
  "encrypt_fairplay_message mode plaintext =
    (if FAIRPLAY_MESSAGE_MODE_COUNT \<le> unat mode
     then Inl (protocol (''unsupported FairPlay mode '' @ dec (unat mode)))
     else Inr (encrypt_blocks (unat mode) forward_aes_sbox (FAIRPLAY_MESSAGE_IV ! unat mode) plaintext 8))"

subsection \<open>The S-boxes are inverse to each other\<close>

lemma table_update_other: "x \<noteq> b \<Longrightarrow> t[unat (b :: byte) := v] ! unat x = t ! unat x"
  by (simp add: word_unat_eq_iff)

lemma fold_table_other:
  assumes "x \<notin> set (map snd ps)"
  shows "fold (\<lambda>(e, p) t. t[unat p := word_of_nat e]) ps t ! unat (x :: byte) = t ! unat x"
  using assms by (induction ps arbitrary: t) (auto simp: table_update_other)

lemma fold_table_length [simp]:
  "length (fold (\<lambda>(e, p) t. t[unat (p :: byte) := word_of_nat e]) ps t) = length t"
  by (induction ps arbitrary: t) auto

lemma fold_table:
  assumes "(e, p) \<in> set ps" "distinct (map snd ps)" "length t = 256"
  shows "fold (\<lambda>(e, p) t. t[unat (p :: byte) := word_of_nat e]) ps t ! unat p = word_of_nat e"
  using assms
proof (induction ps arbitrary: t)
  case (Cons q ps)
  obtain e' p' where q: "q = (e', p')" by (cases q)
  show ?case
  proof (cases "q = (e, p)")
    case True
    then show ?thesis using Cons.prems by (simp add: fold_table_other del: set_map)
  next
    case False
    with Cons.prems q have "(e, p) \<in> set ps" by auto
    moreover have "distinct (map snd ps)" "length (t[unat p' := word_of_nat e']) = 256"
      using Cons.prems q by simp_all
    ultimately show ?thesis using Cons.IH q by simp
  qed
qed simp

lemma forward_of_inverse:
  assumes "i < 256"
  shows "forward_aes_sbox ! unat (INVERSE_AES_SBOX ! i) = word_of_nat i"
  using assms sbox_distinct unfolding forward_aes_sbox_def
  by (intro fold_table) (simp_all add: in_set_enumerate_eq)

lemma sbox_surj: "\<exists>i < 256. INVERSE_AES_SBOX ! i = b"
proof -
  have "card (set INVERSE_AES_SBOX) = card (UNIV :: byte set)"
    using distinct_card [OF sbox_distinct] by (simp add: card_word)
  then have "set INVERSE_AES_SBOX = UNIV" by (intro card_subset_eq) simp_all
  then have "b \<in> set INVERSE_AES_SBOX" by simp
  then show ?thesis by (auto simp: in_set_conv_nth)
qed

lemma inverse_of_forward: "INVERSE_AES_SBOX ! unat (forward_aes_sbox ! unat b) = b"
proof -
  obtain i where i: "i < 256" "INVERSE_AES_SBOX ! i = b" using sbox_surj by blast
  then have "unat (forward_aes_sbox ! unat b) = i"
    using forward_of_inverse [OF i(1)] by (simp add: unat_of_nat)
  with i show ?thesis by simp
qed

lemma substitute_all_inverse [simp]:
  "substitute_all INVERSE_AES_SBOX (substitute_all forward_aes_sbox s) = s"
  by (simp add: substitute_all_def inverse_of_forward comp_def)

lemma length_substitute_all [simp]: "length (substitute_all sbox s) = length s"
  by (simp add: substitute_all_def)

subsection \<open>The rows and columns\<close>

lemma length_shift_rows [simp]: "length (aes_shift_rows s) = 16" "length (inverse_aes_shift_rows s) = 16"
  by (simp_all add: aes_shift_rows_def inverse_aes_shift_rows_def)

lemma shift_rows_inverse [simp]:
  assumes "length s = 16"
  shows "inverse_aes_shift_rows (aes_shift_rows s) = s"
proof (rule nth_equalityI)
  fix i assume "i < length (inverse_aes_shift_rows (aes_shift_rows s))"
  then have "i \<in> set [0..<16]" by simp
  moreover have "\<forall>i \<in> set [0..<16]. inverse_aes_shift_rows (aes_shift_rows s) ! i = s ! i"
    by (simp add: aes_shift_rows_def inverse_aes_shift_rows_def upt_rec) (simp add: numeral_eq_Suc)
  ultimately show "inverse_aes_shift_rows (aes_shift_rows s) ! i = s ! i" by blast
qed (use assms in simp)

text \<open>Doubling in the field, and the products with the constants as sums of doublings.\<close>

definition xtime :: "byte \<Rightarrow> byte" where
  "xtime a = (if a AND 0x80 \<noteq> 0 then push_bit 1 a XOR 0x1b else push_bit 1 a)"

lemma xtime_bit: "xtime a = push_bit 1 a XOR (if bit a 7 then 0x1b else 0)"
proof -
  have "push_bit 7 1 = (0x80 :: byte)" by simp
  then show ?thesis by (simp add: xtime_def bit_iff_and_push_bit_not_eq_0)
qed

lemma xtime_xor: "xtime (a XOR b) = xtime a XOR xtime b"
  by (cases "bit a 7"; cases "bit b 7") (simp_all add: xtime_bit bit_xor_iff push_bit_xor ac_simps)

lemma gf_mul_step:
  "b \<noteq> 0 \<Longrightarrow> gf_mul_loop a b p = gf_mul_loop (xtime a) (drop_bit 1 b) (if b AND 1 \<noteq> 0 then p XOR a else p)"
  by (subst gf_mul_loop.simps) (simp add: xtime_def)

lemma gf_mul_stop: "gf_mul_loop a 0 p = p"
  by (simp add: gf_mul_loop.simps)

lemma halves: "drop_bit 1 (2 :: byte) = 1" "drop_bit 1 (3 :: byte) = 1" "drop_bit 1 (9 :: byte) = 4"
  "drop_bit 1 (11 :: byte) = 5" "drop_bit 1 (13 :: byte) = 6" "drop_bit 1 (14 :: byte) = 7"
  "drop_bit 1 (4 :: byte) = 2" "drop_bit 1 (5 :: byte) = 2" "drop_bit 1 (6 :: byte) = 3"
  "drop_bit 1 (7 :: byte) = 3" "drop_bit 1 (1 :: byte) = 0"
  by code_simp+

lemma gf_mul_constants:
  "gf_mul a 2 = xtime a"
  "gf_mul a 3 = a XOR xtime a"
  "gf_mul a 9 = a XOR xtime (xtime (xtime a))"
  "gf_mul a 11 = a XOR xtime a XOR xtime (xtime (xtime a))"
  "gf_mul a 13 = a XOR xtime (xtime a) XOR xtime (xtime (xtime a))"
  "gf_mul a 14 = xtime a XOR xtime (xtime a) XOR xtime (xtime (xtime a))"
  by (simp_all add: gf_mul_def gf_mul_step gf_mul_stop halves xor.assoc)

lemma mix_column_inverse:
  assumes "aes_mix_column a b c d = [p, q, r, s]"
  shows "inverse_aes_mix_column p q r s = [a, b, c, d]"
proof -
  have "p = gf_mul a 2 XOR gf_mul b 3 XOR c XOR d" "q = a XOR gf_mul b 2 XOR gf_mul c 3 XOR d"
    "r = a XOR b XOR gf_mul c 2 XOR gf_mul d 3" "s = gf_mul a 3 XOR b XOR c XOR gf_mul d 2"
    using assms by (simp_all add: aes_mix_column_def)
  then show ?thesis
    by (simp add: inverse_aes_mix_column_def gf_mul_constants xtime_xor xor.assoc xor.commute xor.left_commute)
qed

lemma mix_columns_inverse [simp]: "inverse_aes_mix_columns (aes_mix_columns s) = s"
  unfolding inverse_aes_mix_columns_def aes_mix_columns_def
proof (induction aes_mix_column s rule: map_columns.induct)
  case (1 a b c d rest)
  obtain p q r s where m: "aes_mix_column a b c d = [p, q, r, s]" by (simp add: aes_mix_column_def)
  with 1 show ?case by (simp add: mix_column_inverse [OF m])
qed simp_all

lemma length_mix_columns [simp]: "length (aes_mix_columns s) = length s"
  unfolding aes_mix_columns_def
  by (induction aes_mix_column s rule: map_columns.induct) (simp_all add: aes_mix_column_def)

subsection \<open>Blocks\<close>

lemma xor_round_key_inverse [simp]:
  "length s = 16 \<Longrightarrow> length k = 16 \<Longrightarrow> xor_aes_round_key (xor_aes_round_key s k) k = s"
  by (simp add: xor_aes_round_key_def)

lemma length_xor_round_key [simp]: "length (xor_aes_round_key s k) = min (length s) (length k)"
  by (simp add: xor_aes_round_key_def)

lemma length_middle_key: "mode < 4 \<Longrightarrow> round < 9 \<Longrightarrow> length (middle_key mode round) = 16"
  unfolding middle_key_def using message_key_lengths(2) by (metis nth_mem table_lengths(7))

lemma length_message_iv: "mode < 4 \<Longrightarrow> length (FAIRPLAY_MESSAGE_IV ! mode) = 16"
  using message_key_lengths(1) by simp

text \<open>One middle round of the encryption, and the one of the decryption that takes it back.\<close>

definition forward_round :: "nat \<Rightarrow> nat \<Rightarrow> bytes \<Rightarrow> bytes" where
  "forward_round mode round s =
    aes_shift_rows (substitute_all forward_aes_sbox
      (xor_aes_round_key (aes_mix_columns s) (middle_key mode round)))"

definition backward_round :: "nat \<Rightarrow> nat \<Rightarrow> bytes \<Rightarrow> bytes" where
  "backward_round mode round s =
    inverse_aes_mix_columns
      (xor_aes_round_key (substitute_all INVERSE_AES_SBOX (inverse_aes_shift_rows s))
         (middle_key mode (round - 1)))"

lemma backward_forward:
  "mode < 4 \<Longrightarrow> round < 9 \<Longrightarrow> length s = 16 \<Longrightarrow> backward_round mode (Suc round) (forward_round mode round s) = s"
  by (simp add: backward_round_def forward_round_def length_middle_key)

lemma length_forward_round [simp]: "length (forward_round mode round s) = 16"
  by (simp add: forward_round_def)

lemma length_forward_rounds: "length s = 16 \<Longrightarrow> length (fold (forward_round mode) rs s) = 16"
  by (induction rs arbitrary: s) simp_all

lemma rounds_inverse:
  assumes "mode < 4" "n \<le> 9" "length s = 16"
  shows "fold (backward_round mode) (rev [1..<Suc n]) (fold (forward_round mode) [0..<n] s) = s"
  using assms
proof (induction n)
  case (Suc n)
  then have "length (fold (forward_round mode) [0..<n] s) = 16" by (simp add: length_forward_rounds)
  with Suc show ?case by (simp add: backward_forward)
qed simp

lemma encrypt_block_rounds:
  "encrypt_fairplay_message_block mode forward_aes_sbox s =
    xor_aes_round_key (fold (forward_round mode) [0..<9]
      (aes_shift_rows (substitute_all forward_aes_sbox (xor_aes_round_key s FAIRPLAY_MESSAGE_ROUND_KEY_0))))
      FAIRPLAY_MESSAGE_ROUND_KEY_10"
  by (simp only: encrypt_fairplay_message_block_def Let_def forward_round_def [abs_def])

lemma length_encrypt_block [simp]:
  "length (encrypt_fairplay_message_block mode forward_aes_sbox s) = 16"
  by (simp add: encrypt_block_rounds length_forward_rounds)

lemma decrypt_encrypt_block:
  assumes "mode < 4" "length s = 16"
  shows "decrypt_fairplay_message_block mode (encrypt_fairplay_message_block mode forward_aes_sbox s) = s"
proof -
  let ?s1 = "aes_shift_rows (substitute_all forward_aes_sbox (xor_aes_round_key s FAIRPLAY_MESSAGE_ROUND_KEY_0))"
  have "xor_aes_round_key (encrypt_fairplay_message_block mode forward_aes_sbox s) FAIRPLAY_MESSAGE_ROUND_KEY_10
      = fold (forward_round mode) [0..<9] ?s1"
    by (simp add: encrypt_block_rounds length_forward_rounds)
  moreover have "fold (backward_round mode) (rev [1..<10]) (fold (forward_round mode) [0..<9] ?s1) = ?s1"
    using rounds_inverse [OF assms(1), of 9 ?s1] by simp
  ultimately show ?thesis
    using assms(2)
    unfolding decrypt_fairplay_message_block_def Let_def backward_round_def [symmetric, abs_def]
    by simp
qed

subsection \<open>The chain of blocks\<close>

lemma length_block_at [simp]: "start + 16 \<le> length b \<Longrightarrow> length (block_at start b) = 16"
  by (simp add: block_at_def)

lemma block_at_append_left:
  "length h = n \<Longrightarrow> start + 16 \<le> length b \<Longrightarrow> block_at (n + start) (h @ b @ t) = block_at start b"
  by (simp add: block_at_def)

lemma nth_block_at: "start + 16 \<le> length b \<Longrightarrow> j < 16 \<Longrightarrow> block_at start b ! j = b ! (start + j)"
  by (simp add: block_at_def)

lemma blocks_eqI:
  assumes "length p = 128" "length q = 128" "\<And>c. c < 8 \<Longrightarrow> block_at (c * 16) p = block_at (c * 16) q"
  shows "p = q"
proof (rule nth_equalityI)
  fix i assume "i < length p"
  then have c: "i div 16 < 8" "i mod 16 < 16" "i = i div 16 * 16 + i mod 16" using assms(1) by auto
  have b: "i div 16 * 16 + 16 \<le> 128" using c(1) by simp
  show "p ! i = q ! i"
    using assms(3) [OF c(1)] nth_block_at [of "i div 16 * 16" p "i mod 16"]
      nth_block_at [of "i div 16 * 16" q "i mod 16"] assms(1,2) b c by simp
qed (use assms in simp)

lemma block_at_splice:
  assumes "length p = 128" "b < 8" "c < 8" "length x = 16"
  shows "block_at (c * 16) (splice (b * 16) x p) = (if c = b then x else block_at (c * 16) p)"
proof (rule nth_equalityI)
  have l: "length (splice (b * 16) x p) = 128" using assms by simp
  have c16: "c * 16 + 16 \<le> 128" using assms(3) by simp
  show "length (block_at (c * 16) (splice (b * 16) x p)) = length (if c = b then x else block_at (c * 16) p)"
    using assms l c16 by simp
  fix j assume "j < length (block_at (c * 16) (splice (b * 16) x p))"
  then have j: "j < 16" using l c16 by simp
  have "splice (b * 16) x p ! (c * 16 + j) = (if c = b then x ! j else p ! (c * 16 + j))"
  proof (cases "c = b")
    case True
    then show ?thesis using assms j by (simp add: splice_def nth_append)
  next
    case False
    then have "c * 16 + j < b * 16 \<or> b * 16 + 16 \<le> c * 16 + j" using j by linarith
    then show ?thesis using assms j c16 False by (auto simp: splice_def nth_append)
  qed
  then show "block_at (c * 16) (splice (b * 16) x p) ! j = (if c = b then x else block_at (c * 16) p) ! j"
    using nth_block_at [of "c * 16" "splice (b * 16) x p" j] nth_block_at [of "c * 16" p j] l c16 j assms(1)
    by simp
qed

lemma fold_splice_blocks:
  assumes "\<And>b. b < 8 \<Longrightarrow> length (B b) = 16" "length p = 128" "\<And>n. n \<in> set ns \<Longrightarrow> f n < 8" "c < 8"
  shows "length (fold (\<lambda>n. splice (f n * 16) (B (f n))) ns p) = 128
    \<and> block_at (c * 16) (fold (\<lambda>n. splice (f n * 16) (B (f n))) ns p)
      = (if c \<in> f ` set ns then B c else block_at (c * 16) p)"
  using assms(2,3)
proof (induction ns arbitrary: p)
  case (Cons n ns)
  have fn: "f n < 8" using Cons.prems(2) by simp
  then have "f n * 16 + 16 \<le> 128" by simp
  then have "length (splice (f n * 16) (B (f n)) p) = 128" using Cons.prems(1) assms(1) [OF fn] by simp
  with Cons.IH [of "splice (f n * 16) (B (f n)) p"] Cons.prems(2)
    block_at_splice [OF Cons.prems(1) fn assms(4) assms(1) [OF fn]]
  show ?case by auto
qed simp

text \<open>In either order the loop over the steps writes each block once.\<close>

lemma steps_cover: "(\<lambda>step. if rev_order then 7 - step else step) ` set [0..<8] = {0..<8 :: nat}"
proof (cases rev_order)
  case True
  have "c \<in> (\<lambda>step. 7 - step) ` {0..<8}" if "c < 8" for c :: nat
    using that by (intro image_eqI [of _ _ "7 - c"]) simp_all
  with True show ?thesis by auto
qed simp

lemma decrypt_blocks:
  assumes "144 \<le> length message" "unat (message ! 12) < 4"
    and "length p = 128" "\<And>c. c < 8 \<Longrightarrow> decrypt_block_of message c = block_at (c * 16) p"
  shows "decrypt_fairplay_message message = Inr p"
proof -
  let ?f = "\<lambda>step. if unat (message ! 12) = 3 then 7 - step else step :: nat"
  let ?r = "fold (\<lambda>n. splice (?f n * 16) (decrypt_block_of message (?f n))) [0..<8] (replicate 128 0)"
  have B: "length (decrypt_block_of message b) = 16" if "b < 8" for b
    using assms(3,4) that by simp
  have f: "n \<in> set [0..<8] \<Longrightarrow> ?f n < 8" for n by auto
  have r: "length ?r = 128 \<and> block_at (c * 16) ?r = (if c \<in> ?f ` set [0..<8] then decrypt_block_of message c
      else block_at (c * 16) (replicate 128 0))" if "c < 8" for c
    using B f that by (intro fold_splice_blocks) simp_all
  have "?r = p"
  proof (rule blocks_eqI)
    show "length ?r = 128" by (rule conjunct1 [OF r [of 0]]) simp
    fix c :: nat assume "c < 8"
    with r [of c] assms(4) show "block_at (c * 16) ?r = block_at (c * 16) p"
      unfolding steps_cover by simp
  qed (rule assms(3))
  moreover have "decrypt_fairplay_message message = Inr ?r"
    using assms(1,2) by (simp add: decrypt_fairplay_message_def FAIRPLAY_MESSAGE_MODE_COUNT_def Let_def)
  ultimately show ?thesis by simp
qed

lemma length_encrypt_blocks [simp]: "length (encrypt_blocks mode forward_aes_sbox chain p n) = 16 * n"
  by (induction n arbitrary: chain p) (simp_all add: Let_def)

lemma encrypt_blocks_at:
  assumes "length p = 16 * n" "c < n"
  shows "block_at (c * 16) (encrypt_blocks mode forward_aes_sbox chain p n) =
    encrypt_fairplay_message_block mode forward_aes_sbox (xor_bytes (block_at (c * 16) p)
      (if 0 < c then block_at (c * 16 - 16) (encrypt_blocks mode forward_aes_sbox chain p n) else chain))"
  using assms
proof (induction n arbitrary: chain p c)
  case (Suc n)
  define E where "E = encrypt_fairplay_message_block mode forward_aes_sbox (xor_bytes (take 16 p) chain)"
  define rest where "rest = encrypt_blocks mode forward_aes_sbox E (drop 16 p) n"
  have body: "encrypt_blocks mode forward_aes_sbox chain p (Suc n) = E @ rest"
    by (simp add: E_def rest_def Let_def)
  have E: "length E = 16" by (simp add: E_def)
  show ?case
  proof (cases c)
    case 0
    then show ?thesis unfolding body using E by (simp add: block_at_def E_def)
  next
    case (Suc d)
    have "block_at (Suc d * 16) (E @ rest) = block_at (d * 16) rest" "block_at (Suc d * 16) p = block_at (d * 16) (drop 16 p)"
      using E by (simp_all add: block_at_def add.commute)
    moreover have "block_at (Suc d * 16 - 16) (E @ rest) = (if 0 < d then block_at (d * 16 - 16) rest else E)"
      using E by (cases d) (simp_all add: block_at_def)
    moreover have "block_at (d * 16) rest = encrypt_fairplay_message_block mode forward_aes_sbox
        (xor_bytes (block_at (d * 16) (drop 16 p)) (if 0 < d then block_at (d * 16 - 16) rest else E))"
      unfolding rest_def using Suc Suc.prems by (intro Suc.IH) simp_all
    ultimately show ?thesis unfolding body Suc by simp
  qed
qed simp

lemma encrypt_ok:
  "unat mode < 4 \<Longrightarrow> \<exists>body. encrypt_fairplay_message mode p = Inr body \<and> length body = 128"
  by (simp add: encrypt_fairplay_message_def FAIRPLAY_MESSAGE_MODE_COUNT_def)

lemma decrypt_encrypt:
  assumes "encrypt_fairplay_message mode p = Inr body" "length p = 128" "length hdr = 16" "hdr ! 12 = mode"
  shows "decrypt_fairplay_message (hdr @ body @ t) = Inr p"
proof -
  let ?m = "unat mode"
  have m: "?m < 4" and body: "body = encrypt_blocks ?m forward_aes_sbox (FAIRPLAY_MESSAGE_IV ! ?m) p 8"
    using assms(1) by (auto simp: encrypt_fairplay_message_def FAIRPLAY_MESSAGE_MODE_COUNT_def split: if_splits)
  have lb: "length body = 128" by (simp add: body)
  have mode: "(hdr @ body @ t) ! 12 = mode" using assms(3,4) by (simp add: nth_append)
  show ?thesis
  proof (rule decrypt_blocks)
    fix c :: nat assume c: "c < 8"
    define chain where "chain = (if 0 < c then block_at (c * 16 - 16) body else FAIRPLAY_MESSAGE_IV ! ?m)"
    have "c * 16 + 16 \<le> 128" using c by simp
    then have lens: "length (block_at (c * 16) p) = 16" "length chain = 16"
      using assms(2) lb m by (simp_all add: chain_def length_message_iv)
    have "block_at (16 + c * 16) (hdr @ body @ t) = block_at (c * 16) body"
      using assms(3) lb c by (intro block_at_append_left) simp_all
    moreover have "block_at (16 + c * 16 - 16) (hdr @ body @ t) = block_at (c * 16 - 16) body" if "0 < c"
      using block_at_append_left [of hdr 16 "c * 16 - 16" body t] assms(3) lb c that by simp
    ultimately have "decrypt_block_of (hdr @ body @ t) c =
        xor_bytes (decrypt_fairplay_message_block ?m (block_at (c * 16) body)) chain"
      by (simp add: decrypt_block_of_def mode Let_def chain_def)
    also have "block_at (c * 16) body =
        encrypt_fairplay_message_block ?m forward_aes_sbox (xor_bytes (block_at (c * 16) p) chain)"
      unfolding chain_def body using assms(2) c by (intro encrypt_blocks_at) simp_all
    finally show "decrypt_block_of (hdr @ body @ t) c = block_at (c * 16) p"
      using lens m by (simp add: decrypt_encrypt_block)
  qed (use assms lb m mode in simp_all)
qed

text \<open>Message encryption round-trips in every mode: a body encrypted for a supported mode and stored
  behind a 16-byte header that names the mode decrypts to the plaintext, whatever follows it. In mode 3,
  where decryption goes through the blocks backwards, the result is the same.\<close>

theorem fairplay_message_roundtrip:
  assumes "unat mode < 4" "length p = 128" "length hdr = 16" "hdr ! 12 = mode"
  shows "\<exists>body. encrypt_fairplay_message mode p = Inr body \<and> length body = 128
    \<and> decrypt_fairplay_message (hdr @ body @ t) = Inr p"
  using encrypt_ok [OF assms(1)] decrypt_encrypt assms(2-4) by metis

theorem fairplay_message_roundtrip_witness:
  "\<exists>body. encrypt_fairplay_message 3 (replicate 128 7) = Inr body \<and> length body = 128
    \<and> decrypt_fairplay_message ((replicate 12 0 @ [3, 0, 0, 0]) @ body @ [1, 2]) = Inr (replicate 128 7)"
  by (rule fairplay_message_roundtrip) (simp_all add: nth_append)

end
