(* ===== verification/Fairplay_Sap.thy ===== *)
theory Fairplay_Sap
  imports Fp_Tables
begin

text \<open>
  The SAP hash of \<open>lumen-airplay/src/fairplay_sap.rs\<close>. \<open>u8\<close> values are 8-bit words, so the
  wrapping operations are the word operations; the wider intermediate values are 32-bit words. The
  macros of the nonlinear circuit that read one array through another, \<open>hi!\<close>, \<open>si!\<close>, \<open>h!\<close>, \<open>m!\<close>,
  \<open>s!\<close> and \<open>ma!\<close>, are the functions \<open>hash_at\<close>, \<open>seed_at\<close>, \<open>hash_work\<close>, \<open>matrix_work\<close>,
  \<open>seed_work\<close> and \<open>matrix_aux\<close>; its assignments are a sequence of \<open>let\<close>s in the order of the source.
  The lemmas give the sizes of the arrays and show that both scrambles are injective.
\<close>

unbundle bit_operations_syntax

definition rotate_or_zero :: "byte \<Rightarrow> byte \<Rightarrow> byte" where
  "rotate_or_zero input count = (if count = 0 then 0 else word_rotl (unat count) input)"

definition u32_of :: "byte \<Rightarrow> u32" where
  "u32_of x = ucast x"

definition u8_of :: "u32 \<Rightarrow> byte" where
  "u8_of x = ucast x"

definition wide_seed :: "byte \<Rightarrow> byte \<Rightarrow> byte" where
  "wide_seed input count =
    (if count = 0 then SAP_SEED ! 0
     else SAP_SEED ! unat ((push_bit (unat count) (u32_of input)
            OR drop_bit (8 - unat count) (u32_of input)) mod 21))"

definition majority :: "byte \<Rightarrow> byte \<Rightarrow> byte \<Rightarrow> byte" where
  "majority a b c = a XOR ((a XOR b) AND (a XOR c))"

definition select_bits :: "byte \<Rightarrow> byte \<Rightarrow> byte \<Rightarrow> byte" where
  "select_bits sel if_set if_clear = if_clear XOR ((if_set XOR if_clear) AND sel)"

definition square :: "byte \<Rightarrow> byte" where
  "square value = value * value"

definition cube :: "byte \<Rightarrow> byte" where
  "cube value = value * value * value"

subsection \<open>The nonlinear circuit\<close>

definition hash_at :: "bytes \<Rightarrow> byte \<Rightarrow> byte" where
  "hash_at hash i = hash ! (unat i mod 20)"

definition seed_at :: "byte \<Rightarrow> byte" where
  "seed_at i = SAP_SEED ! (unat i mod 21)"

definition hash_work :: "bytes \<Rightarrow> bytes \<Rightarrow> nat \<Rightarrow> byte" where
  "hash_work hash work i = hash_at hash (work ! i)"

definition matrix_work :: "bytes \<Rightarrow> bytes \<Rightarrow> nat \<Rightarrow> byte" where
  "matrix_work matrix work i = matrix ! (unat (work ! i) mod 35)"

definition seed_work :: "bytes \<Rightarrow> nat \<Rightarrow> byte" where
  "seed_work work i = seed_at (work ! i)"

definition matrix_aux :: "bytes \<Rightarrow> bytes \<Rightarrow> nat \<Rightarrow> byte" where
  "matrix_aux matrix aux i = matrix ! (unat (aux ! i) mod 35)"

type_synonym sap_arrays = "bytes \<times> bytes \<times> bytes \<times> bytes"

definition nonlinear_circuit_first :: "sap_arrays \<Rightarrow> sap_arrays" where
  "nonlinear_circuit_first = (\<lambda>(hash, matrix, aux, work).
    (let matrix = matrix[12 := 20 + ((select_bits 92 (work ! 64) ((work ! 99) div 3)) AND (wide_seed
           (seed_work work 206) 4))];
         work = work[4 := 2 * (square ((work ! 99) div 5))];
         work = work[153 := work ! 153 XOR ((square (matrix_work matrix work 203)) * (work ! 190))];
         hash = hash[3 := 19 XOR ((drop_bit 1 (seed_work work 205)) AND 16)];
         work = work[33 := (work ! 33) - ((seed_work work 36) AND (NOT 9))];
         aux = aux[5 := u8_of ((u32_of (((((matrix_work matrix work 67) AND (NOT 2)) OR 1) OR ((drop_bit 6
           (hash_work hash work 181)) AND 2)) OR ((hash ! 3) AND 16))) - 15)];
         matrix = matrix[12 := 7];
         work = work[2 := (work ! 2) - 64];
         hash = hash[19 := seed_work work 58];
         aux = aux[4 := 92 - (matrix_work matrix work 32)];
         aux = aux[9 := (matrix_work matrix work 15) + 158];
         work = work[34 := (work ! 34) + ((seed_at (aux ! 9)) div 5)];
         hash = hash[19 := (hash ! 19) + (230 XOR ((drop_bit 1 (hash_at hash (aux ! 9))) AND 102))];
         work = work[15 := work ! 15 XOR ((3 * (rotate_or_zero (work ! 72) ((0 - (seed_work work 190)) AND
           7))) - (9 * (seed_work work 126)))];
         hash = hash[15 := hash ! 15 XOR (cube (matrix_work matrix work 181))];
         matrix = matrix[4 := matrix ! 4 XOR ((work ! 202) div 3)];
         matrix = matrix[1 := (matrix ! 1) + (cube (majority (92 - (hash_at hash (aux ! 4))) (NOT (work !
           105)) 198))];
         hash = hash[19 := hash ! 19 XOR (u8_of (((u32_of (224 OR ((seed_work work 92) AND 27))) * (u32_of
           (matrix_work matrix work 41))) div 3))];
         work = work[140 := (work ! 140) + (rotate_or_zero 92 ((0 - (work ! 5)) AND 7))];
         matrix = matrix[12 := (matrix ! 12) + (majority ((NOT (work ! 4)) XOR (matrix_work matrix work
           12)) (work ! 182) 192)];
         work = work[36 := (work ! 36) + 125];
         work = work[124 := word_rotl 4 (majority (majority (work ! 138) (hash ! 15) 74) (hash_work hash
           work 43) 95)];
         aux_hash = hash_at hash (aux ! 9);
         aux = aux[1 := 76 AND (NOT (aux_hash AND (push_bit 1 (seed_work work 68))))];
         aux = aux[2 := 222 - (majority (u8_of (drop_bit 1 ((u32_of (work ! 177)) + (u32_of (seed_work work
           79))))) (u8_of ((3 * (u32_of (work ! 148))) div 5)) (matrix ! 1))];
         matrix = matrix[16 := (matrix ! 16) + (((((matrix_aux matrix aux 4) AND (NOT 96)) OR aux_hash) OR
           8) - ((word_rotl 2 (work ! 33)) OR 128))];
         hash = hash[14 := hash ! 14 XOR (matrix_aux matrix aux 2)];
         work = work[19 := (work ! 19) + (majority (rotate_or_zero (seed_at (hash_work hash work 201))
           ((push_bit 1 (matrix_work matrix work 112)) AND 6)) ((((hash_work hash work 208) AND (NOT 124)) OR
           ((hash_work hash work 164) AND 124)) div 5) 37)];
         matrix = matrix[8 := (rotate_or_zero 140 ((0 - (square (seed_work work 45))) AND 7)) XOR (aux !
           4)];
         work = work[190 := 56];
         work = work[53 := NOT (((hash_work hash work 83) OR 204) div 5)];
         hash = hash[13 := (hash ! 13) + (hash_work hash work 41)];
         hash = hash[10 := (majority (matrix_aux matrix aux 4) (work ! 2) (aux ! 2)) div 15];
         aux = aux[3 := 92 - (square (40 OR ((matrix_aux matrix aux 1) AND (18 OR ((seed_work work 2) AND
           4)))))];
         seed_bits = seed_at (aux ! 4);
         matrix = matrix[13 := matrix ! 13 XOR (seed_bits)];
         aux = aux[6 := 92 + (square (majority ((matrix_work matrix work 179) - 38) (aux ! 2) 177))];
         expansion_bits = majority ((aux ! 3) + ((aux ! 4) AND 74)) (NOT seed_bits) 121;
         work = work[47 := work ! 47 XOR ((matrix_work matrix work 89) + (majority (expansion_bits XOR 166)
           (aux ! 4) 4))];
         aux = aux[7 := ((seed_bits div 3) - (matrix_aux matrix aux 9)) - ((20 OR ((work ! 151) AND (((aux
           ! 4) AND 136) OR 98))) OR ((aux ! 4) AND 34))];
         expanded_selector = (expansion_bits XOR (drop_bit 1 ((aux ! 4) AND 202))) XOR 75;
         aux = aux[9 := (aux ! 9) + (((128 OR ((majority (aux ! 7) (work ! 151) 32) AND 100)) OR (seed_bits
           AND 68)) OR ((matrix_aux matrix aux 9) AND 27))];
         matrix = matrix[33 := matrix ! 33 XOR (work ! 26)];
         matrix = matrix[30 := (((aux ! 9) div 3) - (((aux ! 4) AND (NOT 8)) OR 19)) XOR (hash_work hash
           work 122)];
         work = work[22 := ((matrix_work matrix work 90) AND 27) OR 68];
         wide = u32_of (select_bits 71 (matrix ! ((unat expanded_selector) mod 35)) (seed_at (aux ! 5)));
         matrix = matrix[18 := (matrix ! 18) + (u8_of (drop_bit 1 ((wide * wide) * wide)))];
         matrix = matrix[5 := (matrix ! 5) - (seed_work work 92)];
         matrix = matrix[18 := matrix ! 18 XOR ((select_bits (aux ! 3) (matrix_aux matrix aux 3)
           (select_bits 16 (matrix_work matrix work 183) (work ! 41))) * (select_bits expanded_selector
           (hash_work hash work 59) (work ! 17)))];
         matrix = matrix[22 := (majority (select_bits ((hash ! 14) OR 28) (((work ! 7) AND 28) OR 130)
           (hash_work hash work 93)) (rotate_or_zero (matrix_aux matrix aux 4) ((rotate_or_zero (work ! 11)
           ((0 - (matrix_work matrix work 28)) AND 7)) AND 7)) (matrix ! 33)) + 74];
         hash = hash[15 := (hash ! 15) - (majority (majority (aux ! 3) (aux ! 4) 214) (seed_at ((hash_work
           hash work 39) XOR 217)) (aux ! 6))]
     in (hash, matrix, aux, work)))"

definition nonlinear_circuit_second :: "sap_arrays \<Rightarrow> sap_arrays" where
  "nonlinear_circuit_second = (\<lambda>(hash, matrix, aux, work).
    (let hash9 = hash_at hash (aux ! 9);
         indexed_hash = hash_at hash (((((aux ! 4) div 3) - ((aux ! 9) OR (work ! 22))) XOR (aux ! 6)) XOR
           ((((matrix_work matrix work 57) OR hash9) AND (82 OR ((aux ! 9) AND 13))) OR ((((matrix_work
           matrix work 57) AND hash9) OR (aux ! 9)) AND 32)));
         aux = aux[6 := (square (square (hash_work hash work 99))) OR (matrix_aux matrix aux 9)];
         aux = aux[1 := (aux ! 1) + ((rotate_or_zero ((hash_work hash work 151) OR (seed_work work 202))
           ((hash_work hash work 50) AND 7)) + (majority (hash_work hash work 4) (u8_of (((u32_of
           (select_bits (matrix ! 16) indexed_hash (matrix_work matrix work 138))) + (u32_of (select_bits 17
           (work ! 33) (seed_work work 39)))) div 5)) 147))];
         aux = aux[0 := select_bits ((hash ! 10) AND 7) ((matrix_aux matrix aux 6) AND (hash_work hash work
           209)) (select_bits 71 (rotate_or_zero (seed_work work 127) ((matrix_aux matrix aux 6) AND 7))
           (push_bit 1 (seed_at (matrix_aux matrix aux 5))))];
         selected_square = select_bits 198 (square (matrix_work matrix work 14)) ((hash_work hash work 145)
           XOR (aux ! 0));
         seed9 = seed_at (aux ! 9);
         hash3 = hash_at hash (aux ! 3);
         matrix = matrix[2 := (matrix ! 2) + (((push_bit 1 hash3) AND (((work ! 25) AND 150) OR (seed9 AND
           8))) OR (seed9 AND 64))];
         matrix = matrix[14 := (matrix ! 14) - (select_bits 34 (work ! 97) ((matrix_aux matrix aux 3) AND
           ((aux ! 0) XOR (matrix_work matrix work 100))))];
         work = work[23 := work ! 23 XOR (push_bit 1 (majority (majority (seed_work work 17) hash3 (aux !
           0)) ((work ! 50) div 3) 118))];
         hash = hash[17 := 115];
         hash = hash[13 := ((drop_bit 1 (majority (hash_at hash (aux ! 7)) (work ! 10) 82)) AND 104) OR
           ((hash_work hash work 39) AND 23)];
         matrix = matrix[33 := (matrix ! 33) - ((work ! 113) AND 9)];
         matrix = matrix[28 := (matrix ! 28) - (((aux ! 3) AND (NOT 32)) OR ((drop_bit 1 (work ! 110)) AND
           32))];
         work = work[95 := seed_at (aux ! 3)];
         hash = hash[15 := (majority ((work ! 95) - 48) (NOT (work ! 184)) 189) AND (cube (majority (aux !
           7) (seed_at (aux ! 1)) 170))];
         matrix = matrix[22 := (matrix ! 22) + (work ! 183)];
         aux = aux[4 := aux ! 4 XOR (3 * (seed_work work 1))];
         aux = aux[5 := (aux ! 5) + (((198 * (majority (seed_work work 178) (matrix_aux matrix aux 1) 209))
           * (hash_work hash work 13)) * (drop_bit 1 (seed_work work 26)))];
         aux = aux[8 := select_bits 10 (matrix_aux matrix aux 3) (matrix_aux matrix aux 9)];
         matrix = matrix[18 := (matrix ! 18) - (select_bits (hash ! 15) ((aux ! 5) div 15) (cube ((hash_at
           hash (aux ! 6)) OR 81)))];
         aux = aux[1 := ((aux ! 1) + ((seed_at (hash_at hash (aux ! 1))) div 3)) - (hash_work hash work
           160)];
         hash = hash[16 := 147 - (majority (aux ! 0) (majority (seed_work work 69) (work ! 172) (((aux ! 2)
           - selected_square) + 77)) (194 OR ((aux ! 0) AND 5)))];
         hash = hash[3 := (hash ! 3) - (wide_seed (majority (seed_work work 155) (work ! 105) 141)
           ((majority (seed_work work 168) (hash_work hash work 29) 6) AND 7))];
         work = work[5 := (rotate_or_zero 56 ((0 - ((hash_work hash work 61) div 5)) AND 7)) XOR ((NOT
           (matrix_aux matrix aux 8)) div 5)];
         work = work[198 := (work ! 198) + (work ! 3)];
         wide = 162 OR (u32_of (matrix_aux matrix aux 9));
         work = work[164 := (work ! 164) + (u8_of ((wide * wide) div 5))];
         aux = aux[2 := (majority (rotate_or_zero 139 ((0 - (aux ! 5)) AND 6)) (hash_at hash (aux ! 3)) 12)
           OR (select_bits 95 (cube seed9) (hash_at hash (aux ! 7)))];
         matrix = matrix[12 := (matrix ! 12) + ((16 OR (((work ! 103) OR 60) AND ((aux ! 2) OR ((work !
           103) AND 32)))) div 3)];
         work = work[143 := (work ! 143) - (18 OR ((select_bits (aux ! 9) (select_bits (matrix ! 8) (work !
           35) (aux ! 7)) ((aux ! 8) div 3)) AND (77 OR ((drop_bit 1 (work ! 172)) AND 32))))];
         matrix = matrix[29 := 162];
         hash = hash[15 := (hash ! 15) + (majority ((matrix_work matrix work 149) XOR (square (work ! 43)))
           (drop_bit 1 (select_bits 95 (hash_work hash work 125) (seed_at (aux ! 1)))) 115)];
         aux = aux[9 := (aux ! 9) - (hash_at hash (aux ! 7))];
         hash = hash[7 := (hash ! 7) - (square (rotate_or_zero (matrix_aux matrix aux 5) ((0 - (matrix_work
           matrix work 17)) * ((matrix_work matrix work 17) AND 1))))];
         matrix = matrix[8 := ((matrix ! 8) + (cube (seed_work work 202))) - (work ! 184)];
         hash = hash[16 := (push_bit 1 (matrix_work matrix work 102)) AND 132];
         aux = aux[6 := aux ! 6 XOR (drop_bit 1 (seed_at (aux ! 7)))];
         hash = hash[7 := (hash ! 7) - ((hash_work hash work 191) - (select_bits 177 (seed_at (seed_at (aux
           ! 1))) (push_bit 1 (seed_work work 80))))];
         hash = hash[6 := hash_work hash work 119];
         hash = hash[12 := ((hash_at hash (aux ! 8)) XOR ((matrix_work matrix work 71) + (matrix_work
           matrix work 15))) AND (majority (((work ! 118) AND (NOT 44)) OR 2) (square (hash_at hash (aux !
           9))) 27)];
         digest_index = (select_bits 169 ((seed_work work 57) * 231) (majority (work ! 32) (matrix_aux
           matrix aux 1) 23)) div 5;
         seed_sample = seed_at (aux ! 6);
         aux = aux[5 := (majority (((seed_sample AND 28) OR ((hash_work hash work 82) AND 162)) OR
           ((seed_at digest_index) AND 65)) (majority (cube (hash_at hash (aux ! 7))) (work ! 82) 92) 192)
           XOR digest_index];
         matrix = matrix[25 := matrix ! 25 XOR (((2 * (hash_at hash (aux ! 9))) * (work ! 5)) -
           ((rotate_or_zero (aux ! 4) (seed_sample AND 7)) AND ((aux ! 3) + 110)))]
     in (hash, matrix, aux, work)))"

definition nonlinear_circuit :: "sap_arrays \<Rightarrow> sap_arrays" where
  "nonlinear_circuit arrays = nonlinear_circuit_second (nonlinear_circuit_first arrays)"

subsection \<open>The hash\<close>

text \<open>\<open>i.wrapping_sub(k) % 210\<close> in \<open>u32\<close> arithmetic.\<close>

definition scramble_index :: "nat \<Rightarrow> nat \<Rightarrow> nat" where
  "scramble_index i k = unat ((word_of_nat i - word_of_nat k :: u32) mod 210)"

definition scramble_step :: "nat \<Rightarrow> bytes \<Rightarrow> bytes" where
  "scramble_step i work =
    (let x = work ! scramble_index i 155; y = work ! scramble_index i 57; z = work ! scramble_index i 13;
         w = work ! (i mod 210)
     in work[i mod 210 := word_rotl 5 y + (word_rotl 3 z XOR w) - word_rotl 7 x])"

definition load_work :: "bytes \<Rightarrow> bytes" where
  "load_work block = map (\<lambda>i. block ! ((i AND 63) XOR 3)) [0..<210]"

definition scramble :: "bytes \<Rightarrow> bytes" where
  "scramble work = fold scramble_step [0..<840] work"

text \<open>\<open>i.wrapping_sub(k) & 15\<close> on \<open>usize\<close>.\<close>

definition lane :: "nat \<Rightarrow> nat \<Rightarrow> nat" where
  "lane i k = (i + (16 - k)) mod 16"

definition unscramble_step :: "nat \<Rightarrow> bytes \<Rightarrow> bytes" where
  "unscramble_step i out =
    out[i mod 16 := out ! (i mod 16) XOR (word_rotl 1 (out ! lane i 7) XOR word_rotl 6 (out ! lane i 5)
      XOR word_rotl 5 (out ! lane i 1))]"

definition reverse_scramble :: "bytes \<Rightarrow> bytes" where
  "reverse_scramble out = fold unscramble_step [0..<256] out"

text \<open>The output lanes before the work area is folded in, and the folding of position \<open>i\<close>.\<close>

definition output_lanes :: "bytes \<Rightarrow> bytes" where
  "output_lanes aux =
    (let out = splice 4 (drop 3 aux) (splice 0 (take 3 aux) (replicate 16 0));
         out = map (\<lambda>b. b + 225) out;
         out = out[3 := 61];
         out = out[11 := 60]
     in out[10 := out ! 10 XOR (aux ! 3 XOR 133)])"

definition fold_step :: "bytes \<Rightarrow> bytes \<Rightarrow> bytes \<Rightarrow> nat \<Rightarrow> bytes \<Rightarrow> bytes" where
  "fold_step hash matrix work i out =
    (let value = work ! i;
         value = (if i < length matrix then value XOR matrix ! i else value);
         value = (if i < length hash then value XOR hash ! i else value)
     in out[i mod 16 := out ! (i mod 16) XOR value])"

definition fairplay_sap_hash :: "bytes \<Rightarrow> bytes" where
  "fairplay_sap_hash block =
    (let (hash, matrix, aux, work) = nonlinear_circuit
           (SAP_INITIAL_HASH, SAP_INITIAL_MATRIX, replicate 10 0, scramble (load_work block))
     in reverse_scramble (fold (fold_step hash matrix work) [0..<210] (output_lanes aux)))"

subsection \<open>Sizes\<close>

lemma length_scramble_step [simp]: "length (scramble_step i work) = length work"
  by (simp add: scramble_step_def Let_def)

lemma length_unscramble_step [simp]: "length (unscramble_step i out) = length out"
  by (simp add: unscramble_step_def)

lemma length_fold_same: "(\<And>i x. length (f i x) = length x) \<Longrightarrow> length (fold f is x) = length x"
  by (induction "is" arbitrary: x) simp_all

lemma length_scramble [simp]: "length (scramble work) = length work"
  by (simp add: scramble_def length_fold_same)

lemma length_reverse_scramble [simp]: "length (reverse_scramble out) = length out"
  by (simp add: reverse_scramble_def length_fold_same)

lemma length_load_work [simp]: "length (load_work block) = 210"
  by (simp add: load_work_def)

lemma length_fold_step [simp]: "length (fold_step hash matrix work i out) = length out"
  by (simp add: fold_step_def Let_def)

text \<open>The circuit updates its arrays in place: no array changes its length.\<close>

definition sap_sized :: "sap_arrays \<Rightarrow> bool" where
  "sap_sized arrays \<longleftrightarrow> (case arrays of (hash, matrix, aux, work) \<Rightarrow>
     length hash = 20 \<and> length matrix = 35 \<and> length aux = 10 \<and> length work = 210)"

lemma sap_sized_update:
  "length xs = n \<Longrightarrow> (\<And>x. length x = n \<Longrightarrow> sap_sized (f x)) \<Longrightarrow> sap_sized (let x = xs[i := v] in f x)"
  by simp

lemma sap_sized_word:
  fixes e :: "'a::len word"
  shows "(\<And>x. sap_sized (f x)) \<Longrightarrow> sap_sized (let x = e in f x)"
  by simp

lemma sap_sizedI:
  "length hash = 20 \<Longrightarrow> length matrix = 35 \<Longrightarrow> length aux = 10 \<Longrightarrow> length work = 210 \<Longrightarrow>
   sap_sized (hash, matrix, aux, work)"
  by (simp add: sap_sized_def)

lemma sap_sized_first:
  assumes "sap_sized arrays"
  shows "sap_sized (nonlinear_circuit_first arrays)"
proof -
  obtain hash matrix aux work where a: "arrays = (hash, matrix, aux, work)" by (rule prod_cases4)
  with assms have "length hash = 20" "length matrix = 35" "length aux = 10" "length work = 210"
    by (simp_all add: sap_sized_def)
  then show ?thesis
    unfolding nonlinear_circuit_first_def a prod.case
    by - ((rule sap_sized_update, assumption | rule sap_sized_word)+, (rule sap_sizedI; assumption))
qed

lemma sap_sized_second:
  assumes "sap_sized arrays"
  shows "sap_sized (nonlinear_circuit_second arrays)"
proof -
  obtain hash matrix aux work where a: "arrays = (hash, matrix, aux, work)" by (rule prod_cases4)
  with assms have "length hash = 20" "length matrix = 35" "length aux = 10" "length work = 210"
    by (simp_all add: sap_sized_def)
  then show ?thesis
    unfolding nonlinear_circuit_second_def a prod.case
    by - ((rule sap_sized_update, assumption | rule sap_sized_word)+, (rule sap_sizedI; assumption))
qed

lemma length_output_lanes [simp]: "length aux = 10 \<Longrightarrow> length (output_lanes aux) = 16"
  by (simp add: output_lanes_def Let_def)

lemma length_sap_hash [simp]: "length (fairplay_sap_hash block) = 16"
proof -
  define arrays where "arrays = nonlinear_circuit
    (SAP_INITIAL_HASH, SAP_INITIAL_MATRIX, replicate 10 0, scramble (load_work block))"
  have "sap_sized arrays"
    unfolding arrays_def nonlinear_circuit_def
    by (intro sap_sized_second sap_sized_first sap_sizedI) simp_all
  then show ?thesis
    by (cases arrays)
      (simp add: fairplay_sap_hash_def sap_sized_def length_fold_same flip: arrays_def)
qed

subsection \<open>The scrambles are injective\<close>

lemma add_mod_neq: "c mod n \<noteq> 0 \<Longrightarrow> (i + c) mod n \<noteq> i mod (n :: nat)"
  by (metis add_cancel_left_right mod_add_left_eq mod_add_right_eq mod_eq_dvd_iff_nat le_add1 add_diff_cancel_left' mod_0_imp_dvd dvd_imp_mod_0)

lemma scramble_index_eq:
  assumes "i < 840" "k < 840"
  shows "scramble_index i k = (i + (if k \<le> i then 210 * k - k else 2 ^ 32 - k)) mod 210"
proof -
  have sub: "word_of_nat i - word_of_nat k = (word_of_nat (if k \<le> i then i - k else i + (2 ^ 32 - k)) :: u32)"
    by (rule word_unat_eq_iff [THEN iffD2]) (use assms in \<open>auto simp: unat_of_nat unat_sub_if' take_bit_nat_eq_self\<close>)
  have less: "(if k \<le> i then i - k else i + (2 ^ 32 - k)) < 2 ^ 32" using assms by auto
  have "scramble_index i k = (if k \<le> i then i - k else i + (2 ^ 32 - k)) mod 210"
    unfolding scramble_index_def sub unat_mod_distrib
    using less by (simp only: unat_of_nat len_of_numeral_defs) (simp add: unat_of_nat)
  also have "\<dots> = (i + (if k \<le> i then 210 * k - k else 2 ^ 32 - k)) mod 210"
  proof (cases "k \<le> i")
    case True
    then have "i + (210 * k - k) = i - k + 210 * k" by simp
    with True show ?thesis by (simp only: if_True mod_mult_self2)
  qed simp
  finally show ?thesis .
qed

lemma scramble_index_other:
  assumes "i < 840"
  shows "scramble_index i 155 \<noteq> i mod 210" "scramble_index i 57 \<noteq> i mod 210" "scramble_index i 13 \<noteq> i mod 210"
  using assms by (simp_all add: scramble_index_eq add_mod_neq)

lemma word_rotl_step_cancel:
  fixes w w' r p q :: byte
  shows "p + (r XOR w) - q = p + (r XOR w') - q \<longleftrightarrow> w = w'"
  by (simp add: xor.left_commute) (metis xor_word_cancel(2))

lemma scramble_step_inj:
  assumes "scramble_step i xs = scramble_step i ys" "length xs = 210" "length ys = 210" "i < 840"
  shows "xs = ys"
proof (rule nth_equalityI)
  have other: "xs ! j = ys ! j" if "j \<noteq> i mod 210" for j
    using arg_cong [OF assms(1), of "\<lambda>zs. zs ! j"] that by (simp add: scramble_step_def Let_def)
  have "scramble_step i xs ! (i mod 210) = scramble_step i ys ! (i mod 210)" using assms(1) by simp
  then have same: "xs ! (i mod 210) = ys ! (i mod 210)"
    using other [OF scramble_index_other(1) [OF assms(4)]] other [OF scramble_index_other(2) [OF assms(4)]]
      other [OF scramble_index_other(3) [OF assms(4)]] assms(2,3)
    by (simp add: scramble_step_def Let_def word_rotl_step_cancel)
  show "xs ! j = ys ! j" for j using same other by (cases "j = i mod 210") simp_all
qed (use assms in simp)

lemma fold_inj:
  assumes "\<And>i xs ys. i \<in> set is \<Longrightarrow> f i xs = f i ys \<Longrightarrow> length xs = n \<Longrightarrow> length ys = n \<Longrightarrow> xs = ys"
    and "\<And>i xs. length (f i xs) = length xs"
    and "fold f is xs = fold f is ys" "length xs = n" "length ys = n"
  shows "xs = ys"
  using assms(1,3-5)
proof (induction "is" arbitrary: xs ys)
  case (Cons i js)
  have eq: "f i xs = f i ys"
  proof (rule Cons.IH)
    show "us = vs" if "k \<in> set js" "f k us = f k vs" "length us = n" "length vs = n" for k us vs
      by (rule Cons.prems(1) [of k]) (use that in simp_all)
  qed (use Cons.prems(2-4) in \<open>simp_all only: assms(2) fold_simps\<close>)
  show ?case by (rule Cons.prems(1) [OF _ eq]) (use Cons.prems(3,4) in simp_all)
qed simp

lemma scramble_inj:
  assumes "scramble xs = scramble ys" "length xs = 210" "length ys = 210"
  shows "xs = ys"
proof (rule fold_inj)
  show "fold scramble_step [0..<840] xs = fold scramble_step [0..<840] ys"
    using assms(1) by (simp only: scramble_def)
  show "us = vs" if "i \<in> set [0..<840]" "scramble_step i us = scramble_step i vs" "length us = 210" "length vs = 210"
    for i us vs
    using that(2-4) by (rule scramble_step_inj) (use that(1) in simp)
qed (fact assms(2) assms(3) length_scramble_step)+

lemma lane_other: "0 < k \<Longrightarrow> k < 16 \<Longrightarrow> lane i k \<noteq> i mod 16"
  unfolding lane_def by (rule add_mod_neq) simp

lemma unscramble_step_inj:
  assumes "unscramble_step i xs = unscramble_step i ys" "length xs = 16" "length ys = 16"
  shows "xs = ys"
proof (rule nth_equalityI)
  have other: "xs ! j = ys ! j" if "j \<noteq> i mod 16" for j
    using arg_cong [OF assms(1), of "\<lambda>zs. zs ! j"] that by (simp add: unscramble_step_def)
  have "xs ! lane i k = ys ! lane i k" if "0 < k" "k < 16" for k using other [OF lane_other [OF that]] .
  moreover have "unscramble_step i xs ! (i mod 16) = unscramble_step i ys ! (i mod 16)" using assms(1) by simp
  ultimately have same: "xs ! (i mod 16) = ys ! (i mod 16)"
    using assms(2,3) by (simp add: unscramble_step_def) (metis xor_word_cancel(1))
  show "xs ! j = ys ! j" for j using same other by (cases "j = i mod 16") simp_all
qed (use assms in simp)

lemma reverse_scramble_inj:
  assumes "reverse_scramble xs = reverse_scramble ys" "length xs = 16" "length ys = 16"
  shows "xs = ys"
proof (rule fold_inj)
  show "fold unscramble_step [0..<256] xs = fold unscramble_step [0..<256] ys"
    using assms(1) by (simp only: reverse_scramble_def)
  show "us = vs" if "unscramble_step i us = unscramble_step i vs" "length us = 16" "length vs = 16" for i us vs
    using that by (rule unscramble_step_inj)
qed (fact assms(2) assms(3) length_unscramble_step)+

lemma load_work_inj:
  assumes "load_work xs = load_work ys" "length xs = 64" "length ys = 64"
  shows "xs = ys"
proof (rule nth_equalityI)
  fix j assume "j < length xs"
  then have j: "j < 64" using assms(2) by simp
  have "\<forall>j \<in> set [0..<64]. j XOR 3 < 64 \<and> ((j XOR 3) AND 63) XOR 3 = (j :: nat)" by code_simp
  then have "j XOR 3 < 64" and k2: "((j XOR 3) AND 63) XOR 3 = j" using j by simp_all
  then have k: "j XOR 3 < 210" "((j XOR 3) AND 63) XOR 3 = j" by linarith (rule k2)
  have "load_work zs ! (j XOR 3) = zs ! j" for zs using k(1) k(2) by (simp add: load_work_def)
  with assms(1) show "xs ! j = ys ! j" by metis
qed (use assms in simp)

text \<open>The scrambles of the SAP hash lose nothing: 64-byte blocks that differ enter the nonlinear circuit
  with different work areas (the loading and the 840 steps of the scramble are injective, with the first
  pass reading where \<open>u32\<close> underflow points), and the 256 steps of the reverse scramble map different
  16-byte lanes to different digests.\<close>

theorem sap_scrambles_injective:
  "inj_on (\<lambda>block. scramble (load_work block)) {block. length block = 64}
   \<and> inj_on reverse_scramble {out. length out = 16}"
  by (auto intro!: inj_onI dest!: scramble_inj reverse_scramble_inj intro: load_work_inj)

end
