(* ===== verification/Fpsap.thy ===== *)
theory Fpsap
  imports Fairplay_Md5 Fairplay_Message Fairplay_Sap Rust_Str
begin

text \<open>
  The FPSAP session of \<open>lumen-airplay/src/fpsap.rs\<close>: the records exchanged with a receiver, the descriptor
  and the white-box networks behind the exchange value, and the wrapping of a stream key. The AES-128
  block encryption and HMAC-SHA1 come from crates; they are the fields of \<open>fairplay_crypto\<close>. The lemmas
  show that the records the session builds are the ones the validation accepts, and that the sizes fit.
\<close>

definition FPSAP_M1_CAPABILITIES :: byte where
  "FPSAP_M1_CAPABILITIES = 3"

record fairplay_crypto =
  aes128_encrypt :: "bytes \<Rightarrow> bytes \<Rightarrow> bytes"
  hmac_sha1 :: "bytes \<Rightarrow> bytes \<Rightarrow> bytes"

subsection \<open>Records\<close>

definition new_fpsap_record :: "byte \<Rightarrow> nat \<Rightarrow> bytes" where
  "new_fpsap_record message_type payload_length =
    splice 8 (to_be 4 payload_length) (splice 4 [3, 1, message_type, 0]
      (splice 0 (s2b ''FPLY'') (replicate (12 + payload_length) 0)))"

definition validate_fpsap_record :: "bytes \<Rightarrow> byte \<Rightarrow> nat \<Rightarrow> unit res" where
  "validate_fpsap_record rec message_type payload_length =
    (let want_length = 12 + payload_length in
     if length rec \<noteq> want_length
     then Inl (protocol (''length '' @ dec (length rec) @ '', want '' @ dec want_length))
     else if take 4 rec \<noteq> s2b ''FPLY''
     then Inl (protocol (''invalid magic '' @ debug_hex (take 4 rec)))
     else if rec ! 4 \<noteq> 3 \<or> rec ! 5 \<noteq> 1 \<or> rec ! 6 \<noteq> message_type \<or> rec ! 7 \<noteq> 0
     then Inl (protocol (''invalid version/type '' @ debug_hex (take 4 (drop 4 rec))))
     else let got = of_be (take 4 (drop 8 rec)) in
     if got \<noteq> payload_length
     then Inl (protocol (''declared payload length '' @ dec got @ '', want '' @ dec payload_length))
     else Inr ())"

definition validate_fpsap_m4 :: "bytes \<Rightarrow> bytes \<Rightarrow> unit res" where
  "validate_fpsap_m4 m4 m3 =
    rbind (validate_fpsap_record m4 4 20) (\<lambda>_.
      if length m3 \<noteq> 164 then Inl (protocol (''invalid m3 length '' @ dec (length m3)))
      else if drop 12 m4 \<noteq> drop 144 m3 then Inl (protocol ''m4 confirmation does not match m3'')
      else Inr ())"

definition unsupported_mode :: "byte \<Rightarrow> fault" where
  "unsupported_mode mode = protocol (''unsupported FairPlay mode '' @ dec (unat mode))"

definition decrypt_fpsap_body :: "byte \<Rightarrow> bytes \<Rightarrow> bytes res" where
  "decrypt_fpsap_body mode payload =
    (if FAIRPLAY_MESSAGE_MODE_COUNT \<le> unat mode then Inl (unsupported_mode mode)
     else decrypt_fairplay_message (splice 16 payload ((replicate 144 0)[12 := mode])))"

subsection \<open>The descriptor\<close>

text \<open>A content of at most 311 bytes with MD5 padding to 320: the marker byte, zeros, the bit length.\<close>

definition md5_padded :: "bytes \<Rightarrow> bytes" where
  "md5_padded content =
    (let offset = length content;
         padded = (splice 0 content (replicate 320 0))[offset := 0x80]
     in splice 312 (to_le 8 (offset * 8)) padded)"

definition add_sap_words :: "md5_words \<Rightarrow> bytes \<Rightarrow> md5_words" where
  "add_sap_words state add = (case state of (a, b, c, d) \<Rightarrow>
     (a + u32_of_le (take 4 add), b + u32_of_le (take 4 (drop 4 add)),
      c + u32_of_le (take 4 (drop 8 add)), d + u32_of_le (take 4 (drop 12 add))))"

definition descriptor_step :: "bytes \<Rightarrow> nat \<Rightarrow> md5_words \<times> md5_words \<Rightarrow> md5_words \<times> md5_words" where
  "descriptor_step padded block_offset = (\<lambda>(state, first_final).
     let block = take 64 (drop block_offset padded);
         state = add_sap_words state (fairplay_sap_hash block);
         state = fairplay_md5_compress state block FpsapCycle
     in if block_offset = length padded - 64
        then (fairplay_md5_compress state block FpsapCycle, state) else (state, first_final))"

definition fpsap_descriptor_for_sap :: "bytes \<Rightarrow> bytes \<Rightarrow> bytes" where
  "fpsap_descriptor_for_sap m3_sap m2_sap =
    (let padded = md5_padded (FPSAP_DESCRIPTOR_PREFIX @ m3_sap @ m2_sap @ FPSAP_DESCRIPTOR_SUFFIX);
         (state, first_final) = fold (descriptor_step padded) [0, 64, 128, 192, 256]
           (fairplay_words_from_little_endian FAIRPLAY_INITIAL_SESSION_KEY, (0, 0, 0, 0))
     in u32_to_be (fst first_final) @ fairplay_words_big_endian state)"

subsection \<open>The exchange value\<close>

definition substitute :: "FpsapByteLookup \<Rightarrow> byte \<Rightarrow> byte" where
  "substitute l value =
    FPSAP_SUBSTITUTION_BASES ! table l ! unat (value XOR input_xor l) XOR output_xor l"

definition mix :: "FpsapByteLookup \<Rightarrow> byte \<Rightarrow> byte" where
  "mix l value = FPSAP_MIX_BASES ! table l ! unat (value XOR input_xor l) XOR output_xor l"

definition fpsap_masks :: "bytes \<Rightarrow> bytes list" where
  "fpsap_masks seed = map (\<lambda>i.
     let suffix = [0x57, 0xd8, 0xee, 0xcb, 0xde, 0xfb, 0xcf, 0x59, 0x1c, 0x27, 0xa2, 0xcf, 0xbe, 0xb0, 0x89];
         block = splice 0 seed (replicate 64 0);
         block = block[20 := word_of_nat i];
         block = splice 21 suffix block;
         block = block[36 := 0x80];
         block = splice 56 (to_le 4 0x320) block
     in fairplay_words_big_endian (fairplay_md5_compress
          (0x1d4a4587, 0x92f39fcc, 0x1d87d836, 0xcdc86697) block FpsapSwap)) [0..<9]"

definition fpsap_digest32 :: "bytes \<Rightarrow> bytes \<Rightarrow> bytes" where
  "fpsap_digest32 left right =
    (let block = splice 16 right (splice 0 left (replicate 64 0));
         block = block[32 := 0x80];
         block = splice 56 (to_le 4 0x100) block
     in fairplay_words_big_endian (fairplay_md5_compress
          (0xb9f3dcdc, 0xfbdc740b, 0x60f77f86, 0x51907216) block FpsapSwap))"

definition fpsap_mix :: "FpsapNetworkTables \<Rightarrow> bytes \<Rightarrow> bytes" where
  "fpsap_mix tables substituted =
    map (\<lambda>i. let offset = i div 4 * 4; output_byte = i mod 4
            in foldl (\<lambda>mixed input_byte.
                 mixed XOR mix (mix_columns tables ! input_byte ! output_byte) (substituted ! (offset + input_byte)))
                 0 [0..<4]) [0..<16]"

definition first_bank :: "bytes list \<Rightarrow> nat \<Rightarrow> bytes \<Rightarrow> bytes" where
  "first_bank masks bank state =
    (let substituted = map (\<lambda>inp.
           substitute (round_substitution FPSAP_FIRST_TABLES ! bank ! inp) (state ! inp)) FPSAP_FIRST_POSITION_MAP
     in xor_bytes (fpsap_mix FPSAP_FIRST_TABLES substituted) (masks ! bank))"

definition fpsap_first_network :: "bytes list \<Rightarrow> bytes" where
  "fpsap_first_network masks =
    (let state = xor_bytes FPSAP_FIXED_BLOCK FPSAP_FIRST_INPUT_MASK;
         state = fold (first_bank masks) [0..<9] state
     in map (\<lambda>inp. substitute (final_substitution FPSAP_FIRST_TABLES ! inp) (state ! inp))
          FPSAP_FIRST_POSITION_MAP)"

definition second_bank :: "bytes list \<Rightarrow> nat \<Rightarrow> bytes \<Rightarrow> bytes" where
  "second_bank masks bank state =
    fpsap_mix FPSAP_SECOND_TABLES (map (\<lambda>(outp, inp).
      substitute (round_substitution FPSAP_SECOND_TABLES ! bank ! outp) (state ! inp) XOR masks ! bank ! outp)
        (enumerate 0 FPSAP_SECOND_POSITION_MAP))"

definition fpsap_second_network :: "bytes \<Rightarrow> bytes list \<Rightarrow> bytes" where
  "fpsap_second_network state masks =
    (let state = fold (second_bank masks) (rev [0..<9]) state
     in map (\<lambda>(outp, inp). substitute (final_substitution FPSAP_SECOND_TABLES ! outp) (state ! inp)
          XOR FPSAP_SECOND_OUTPUT_MASK ! outp) (enumerate 0 FPSAP_SECOND_POSITION_MAP))"

definition fpsap_exchange_seed :: "bytes \<Rightarrow> bytes" where
  "fpsap_exchange_seed seed =
    (let masks = fpsap_masks seed;
         intermediate = fpsap_first_network masks;
         left = fpsap_digest32 intermediate FPSAP_FIXED_BLOCK;
         whitebox_output = fpsap_second_network left masks;
         digest = fpsap_digest32 left whitebox_output
     in take 4 whitebox_output @ digest)"

definition fpsap_exchange_for_sap :: "bytes \<Rightarrow> bytes \<Rightarrow> bytes" where
  "fpsap_exchange_for_sap m3_sap m2_sap = fpsap_exchange_seed (fpsap_descriptor_for_sap m3_sap m2_sap)"

subsection \<open>Key wrapping\<close>

definition derive_fairplay_wrapping_key :: "bytes \<Rightarrow> bytes \<Rightarrow> bytes res" where
  "derive_fairplay_wrapping_key receiver_sap message =
    rbind (decrypt_fairplay_message message) (\<lambda>decrypted.
      let material = md5_padded (FAIRPLAY_KDF_PREFIX @ decrypted @ receiver_sap @ FAIRPLAY_KDF_SUFFIX);
          state = fold (\<lambda>block_offset state.
            let block = take 64 (drop block_offset material)
            in add_sap_words (fairplay_md5_compress state block FairplayKdf) (fairplay_sap_hash block))
            [0, 64, 128, 192, 256] (fairplay_words_from_little_endian FAIRPLAY_INITIAL_SESSION_KEY)
      in Inr (fairplay_words_big_endian state))"

definition EKEY_HEADER :: bytes where
  "EKEY_HEADER = s2b ''FPLY'' @ [0x01, 0x02, 0x01, 0x00, 0x00, 0x00, 0x00, 0x3c, 0x00, 0x00, 0x00, 0x00]"

definition wrap_fair_play_key ::
  "fairplay_crypto \<Rightarrow> bytes \<Rightarrow> bytes \<Rightarrow> bytes \<Rightarrow> bytes \<Rightarrow> bytes res" where
  "wrap_fair_play_key F receiver_sap m3 raw_key mask_bytes =
    rbind (validate_fpsap_record m3 3 152) (\<lambda>_.
      let mode = m3 ! 12 in
      if FAIRPLAY_MESSAGE_MODE_COUNT \<le> unat mode then Inl (unsupported_mode mode)
      else
      let ekey = splice 0 EKEY_HEADER (replicate 72 0);
          ekey = splice 16 mask_bytes ekey;
          ekey = splice 32 (to_be 4 (length raw_key)) ekey
      in rbind (derive_fairplay_wrapping_key receiver_sap m3) (\<lambda>wrapping_key.
         let masked = xor_bytes raw_key (take 16 (drop 16 ekey));
             ekey = splice 56 (aes128_encrypt F wrapping_key masked) ekey
         in rbind (decrypt_fairplay_message m3) (\<lambda>sender_sap.
            let mac_key = fpsap_descriptor_for_sap sender_sap receiver_sap
            in Inr (splice 36 (hmac_sha1 F mac_key (take 36 ekey @ raw_key)) ekey))))"

subsection \<open>The session\<close>

record FpsapSession =
  local_sap :: bytes
  remote_sap :: bytes
  fs_m3 :: bytes
  has_m3 :: bool

definition FpsapSession_new :: "bytes \<Rightarrow> FpsapSession res" where
  "FpsapSession_new entropy =
    (if length entropy < 126 then Inl (protocol ''initialize local SAP: short entropy'')
     else Inr \<lparr>local_sap = splice 2 (take 126 entropy) ((replicate 128 0)[1 := 1]),
               remote_sap = replicate 128 0, fs_m3 = replicate 164 0, has_m3 = False\<rparr>)"

definition message1 :: "FpsapSession \<Rightarrow> bytes" where
  "message1 s = splice 12 [0x02, 0x00, FPSAP_M1_CAPABILITIES, 0xbb] (new_fpsap_record 1 4)"

definition exchange_m3 :: "bytes \<Rightarrow> FpsapSession \<Rightarrow> bytes res \<times> FpsapSession" where
  "exchange_m3 m2 s =
    (case validate_fpsap_record m2 2 130 of
       Inl e \<Rightarrow> (Inl e, s)
     | Inr _ \<Rightarrow>
       if m2 ! 12 \<noteq> 2 then (Inl (protocol (''invalid m2 payload marker '' @ dec (unat (m2 ! 12)))), s)
       else let mode = m2 ! 13 in
       if FAIRPLAY_MESSAGE_MODE_COUNT \<le> unat mode
       then (Inl (protocol (''m2 selected unsupported mode '' @ dec (unat mode))), s)
       else
       let m3 = splice 13 FPSAP_M3_LABEL ((new_fpsap_record 3 152)[12 := mode])
       in case encrypt_fairplay_message mode (local_sap s) of
            Inl e \<Rightarrow> (Inl e, s)
          | Inr encrypted_body \<Rightarrow>
            let m3 = splice 16 encrypted_body m3 in
            case decrypt_fpsap_body mode (take 128 (drop 14 m2)) of
              Inl e \<Rightarrow> (Inl e, s)
            | Inr m2_sap \<Rightarrow>
              let tail_bytes = fpsap_exchange_for_sap (local_sap s) m2_sap;
                  m3 = splice 144 tail_bytes m3
              in (Inr m3, s\<lparr>remote_sap := m2_sap, fs_m3 := m3, has_m3 := True\<rparr>))"

definition no_m3 :: fault where
  "no_m3 = protocol ''m3 has not been generated''"

definition confirm_m4 :: "FpsapSession \<Rightarrow> bytes \<Rightarrow> unit res" where
  "confirm_m4 s m4 = (if \<not> has_m3 s then Inl no_m3 else validate_fpsap_m4 m4 (fs_m3 s))"

definition wrap_key :: "fairplay_crypto \<Rightarrow> FpsapSession \<Rightarrow> bytes \<Rightarrow> bytes \<Rightarrow> bytes res" where
  "wrap_key F s raw_key mask_bytes =
    (if \<not> has_m3 s then Inl no_m3
     else wrap_fair_play_key F (remote_sap s) (fs_m3 s) raw_key mask_bytes)"

subsection \<open>The form of the records\<close>

definition fpsap_header :: "byte \<Rightarrow> nat \<Rightarrow> bytes" where
  "fpsap_header t n = s2b ''FPLY'' @ [3, 1, t, 0] @ to_be 4 n"

lemma length_fply [simp]: "length (s2b ''FPLY'') = 4"
  by (simp add: s2b_def)

lemma length_fpsap_header [simp]: "length (fpsap_header t n) = 12"
  by (simp add: fpsap_header_def)

lemma splice_within:
  "length a = at \<Longrightarrow> length b = length src \<Longrightarrow> splice at src (a @ b @ c) = a @ src @ c"
  by (simp add: splice_def)

lemma new_fpsap_record_eq: "new_fpsap_record t n = fpsap_header t n @ replicate n 0"
  by (simp add: new_fpsap_record_def fpsap_header_def splice_def)

lemma fpsap_header_fields:
  "take 4 (fpsap_header t n) = s2b ''FPLY''" "fpsap_header t n ! 4 = 3" "fpsap_header t n ! 5 = 1"
  "fpsap_header t n ! 6 = t" "fpsap_header t n ! 7 = 0" "take 4 (drop 8 (fpsap_header t n)) = to_be 4 n"
  by (simp_all add: fpsap_header_def nth_append)

text \<open>The validation accepts exactly the records with the right header and length.\<close>

lemma validate_header:
  assumes "length payload = n" "n < 2 ^ 32"
  shows "validate_fpsap_record (fpsap_header t n @ payload) t n = Inr ()"
proof -
  have "of_be (to_be 4 n) = n" using assms(2) by (simp add: of_be_to_be)
  then show ?thesis
    using assms(1) by (simp add: validate_fpsap_record_def nth_append fpsap_header_fields Let_def)
qed

lemma validate_Inr:
  assumes "validate_fpsap_record rec t n = Inr u"
  shows "\<exists>payload. rec = fpsap_header t n @ payload \<and> length payload = n"
proof -
  from assms have len: "length rec = 12 + n" and f: "take 4 rec = s2b ''FPLY''" "rec ! 4 = 3" "rec ! 5 = 1"
      "rec ! 6 = t" "rec ! 7 = 0" "of_be (take 4 (drop 8 rec)) = n"
    by (auto simp: validate_fpsap_record_def Let_def split: if_splits)
  have "take 4 (drop 8 rec) = to_be 4 n"
    using to_be_of_be [of "take 4 (drop 8 rec)" 4] len f(6) by simp
  moreover have "take 4 (drop 4 rec) = [3, 1, t, 0]"
  proof (rule take_drop_nth_eqI)
    fix j :: nat assume "j < 4"
    then consider "j = 0" | "j = 1" | "j = 2" | "j = 3" by linarith
    then show "rec ! (4 + j) = [3, 1, t, 0] ! j" using f(2-5) by cases simp_all
  qed (use len in simp_all)
  moreover have "rec = take 4 rec @ take 4 (drop 4 rec) @ take 4 (drop 8 rec) @ drop 12 rec"
    using take_add [of 4 8 rec] take_add [of 4 4 "drop 4 rec"] append_take_drop_id [of 12 rec] by simp
  ultimately have "rec = fpsap_header t n @ drop 12 rec" using f(1) by (simp add: fpsap_header_def)
  with len show ?thesis by (intro exI [of _ "drop 12 rec"]) simp
qed

lemma validate_cases: "validate_fpsap_record rec t n = Inr () \<or> (\<exists>m. validate_fpsap_record rec t n = Inl (protocol m))"
  by (auto simp: validate_fpsap_record_def Let_def)

subsection \<open>Sizes\<close>

lemma length_fpsap_mix [simp]: "length (fpsap_mix tables s) = 16"
  by (simp add: fpsap_mix_def)

lemma length_fpsap_second_network [simp]: "length (fpsap_second_network state masks) = 16"
  by (simp add: fpsap_second_network_def Let_def)

lemma length_fpsap_digest32 [simp]: "length (fpsap_digest32 l r) = 16"
  by (simp add: fpsap_digest32_def)

lemma length_fpsap_exchange [simp]: "length (fpsap_exchange_for_sap a b) = 20"
  by (simp add: fpsap_exchange_for_sap_def fpsap_exchange_seed_def Let_def)

lemma FpsapSession_new_ok:
  "126 \<le> length entropy \<Longrightarrow> \<exists>s. FpsapSession_new entropy = Inr s \<and> length (local_sap s) = 128 \<and> \<not> has_m3 s"
  by (simp add: FpsapSession_new_def)

subsection \<open>The session's messages\<close>

lemma message1_eq: "message1 s = fpsap_header 1 4 @ [0x02, 0x00, 0x03, 0xbb]"
  by (simp add: message1_def new_fpsap_record_eq splice_def FPSAP_M1_CAPABILITIES_def)

text \<open>What the other end needs to know of M3: its layout, and that the session remembers it.\<close>

definition m3_record :: "byte \<Rightarrow> bytes \<Rightarrow> bytes \<Rightarrow> bytes" where
  "m3_record mode encrypted_body confirmation =
    fpsap_header 3 152 @ [mode] @ FPSAP_M3_LABEL @ encrypted_body @ confirmation"

lemma decrypt_fpsap_body_encrypt:
  assumes "encrypt_fairplay_message mode p = Inr b" "length p = 128" "length b = 128"
  shows "decrypt_fpsap_body mode b = Inr p"
proof -
  have mode: "\<not> FAIRPLAY_MESSAGE_MODE_COUNT \<le> unat mode"
    using assms(1) by (auto simp: encrypt_fairplay_message_def split: if_splits)
  let ?h = "(replicate 16 0)[12 := mode]"
  have "splice 16 b ((replicate 144 0)[12 := mode]) = ?h @ b @ []"
    using assms(3) by (simp add: splice_def take_update_swap)
  moreover have "decrypt_fairplay_message (?h @ b @ []) = Inr p"
    using assms by (intro decrypt_encrypt) simp_all
  ultimately show ?thesis using mode by (simp add: decrypt_fpsap_body_def)
qed

lemma exchange_m3_eq:
  assumes m2: "m2 = fpsap_header 2 130 @ [2, mode] @ c2" "length c2 = 128"
    and enc: "encrypt_fairplay_message mode (local_sap s) = Inr b3" "length b3 = 128"
    and dec: "decrypt_fpsap_body mode c2 = Inr sap"
  shows "exchange_m3 m2 s =
    (let m3 = m3_record mode b3 (fpsap_exchange_for_sap (local_sap s) sap)
     in (Inr m3, s\<lparr>remote_sap := sap, fs_m3 := m3, has_m3 := True\<rparr>))"
proof -
  have valid: "validate_fpsap_record m2 2 130 = Inr ()"
    unfolding m2(1) by (intro validate_header) (simp_all add: m2(2))
  have f: "m2 ! 12 = 2" "m2 ! 13 = mode" "take 128 (drop 14 m2) = c2"
    using m2(2) by (simp_all add: m2(1) nth_append)
  have mode: "\<not> FAIRPLAY_MESSAGE_MODE_COUNT \<le> unat mode"
    using enc(1) by (auto simp: encrypt_fairplay_message_def split: if_splits)
  define t where "t = fpsap_exchange_for_sap (local_sap s) sap"
  have "splice 144 t (splice 16 b3 (splice 13 FPSAP_M3_LABEL ((new_fpsap_record 3 152)[12 := mode])))
      = m3_record mode b3 t"
  proof -
    have "replicate 152 (0 :: byte) = 0 # replicate 151 0"
      using replicate_Suc [of 151 "0 :: byte"] by simp
    then have "(new_fpsap_record 3 152)[12 := mode] = fpsap_header 3 152 @ mode # replicate 151 0"
      by (simp add: new_fpsap_record_eq list_update_append)
    then show ?thesis
      using enc(2) by (simp add: splice_def m3_record_def t_def)
  qed
  with valid f mode enc dec show ?thesis
    by (simp add: exchange_m3_def Let_def t_def)
qed

end
