(* ===== verification/Receiver_Fairplay.thy ===== *)
theory Receiver_Fairplay
  imports Fpsap
begin

text \<open>
  The receiver's half of the FairPlay SAP exchange (\<open>lumen-airplay/src/receiver/fairplay.rs\<close>): a machine
  of three phases, advanced by m1 and m3. The lemmas say what each phase accepts; the property is about
  every run of the machine.
\<close>

definition FPSAP_MODE :: byte where "FPSAP_MODE = 3"
definition FPSAP_M1_PAYLOAD :: bytes where "FPSAP_M1_PAYLOAD = [0x02, 0x00, 0x03, 0xbb]"

record ReceiverFpsap =
  receiver_sap :: bytes
  rf_mode :: byte
  phase :: byte
  rf_m3 :: bytes

text \<open>\<open>entropy\<close> are the 126 random bytes drawn.\<close>

definition ReceiverFpsap_new :: "bytes \<Rightarrow> ReceiverFpsap" where
  "ReceiverFpsap_new entropy =
    \<lparr>receiver_sap = splice 2 entropy ((replicate 128 0)[1 := 1]), rf_mode = FPSAP_MODE, phase = 0,
     rf_m3 = replicate 164 0\<rparr>"

definition exchange_m2 :: "bytes \<Rightarrow> ReceiverFpsap \<Rightarrow> bytes res \<times> ReceiverFpsap" where
  "exchange_m2 m1 r =
    (case validate_fpsap_record m1 1 4 of
       Inl e \<Rightarrow> (Inl e, r)
     | Inr _ \<Rightarrow>
       if take 4 (drop 12 m1) \<noteq> FPSAP_M1_PAYLOAD
       then (Inl (protocol (''unsupported m1 capabilities '' @ debug_hex (take 4 (drop 12 m1)))), r)
       else
       let m2 = (new_fpsap_record 2 130)[12 := 2, 13 := rf_mode r] in
       case encrypt_fairplay_message (rf_mode r) (receiver_sap r) of
         Inl e \<Rightarrow> (Inl e, r)
       | Inr encrypted_body \<Rightarrow> (Inr (splice 14 encrypted_body m2), r\<lparr>phase := 1\<rparr>))"

definition exchange_m4 :: "bytes \<Rightarrow> ReceiverFpsap \<Rightarrow> bytes res \<times> ReceiverFpsap" where
  "exchange_m4 m3 r =
    (case validate_fpsap_record m3 3 152 of
       Inl e \<Rightarrow> (Inl e, r)
     | Inr _ \<Rightarrow>
       if m3 ! 12 \<noteq> rf_mode r
       then (Inl (protocol (''m3 mode '' @ dec (unat (m3 ! 12)) @ '' does not match selected mode '' @
               dec (unat (rf_mode r)))), r)
       else if take 3 (drop 13 m3) \<noteq> FPSAP_M3_LABEL
       then (Inl (protocol (''invalid m3 label '' @ debug_hex (take 3 (drop 13 m3)))), r)
       else case decrypt_fairplay_message m3 of
         Inl e \<Rightarrow> (Inl e, r)
       | Inr sender_sap \<Rightarrow>
           if drop 144 m3 \<noteq> fpsap_exchange_for_sap sender_sap (receiver_sap r)
           then (Inl (protocol ''m3 exchange confirmation is invalid''), r)
           else (Inr (splice 12 (drop 144 m3) (new_fpsap_record 4 20)), r\<lparr>rf_m3 := m3, phase := 2\<rparr>))"

text \<open>\<open>ReceiverFpsap::exchange\<close>\<close>

definition fp_exchange :: "bytes \<Rightarrow> ReceiverFpsap \<Rightarrow> bytes res \<times> ReceiverFpsap" where
  "fp_exchange request r =
    (if phase r = 0 then exchange_m2 request r
     else if phase r = 1 then exchange_m4 request r
     else (Inl (protocol ''FairPlay SAP exchange already complete''), r))"

definition fp_complete :: "ReceiverFpsap \<Rightarrow> bool" where
  "fp_complete r \<longleftrightarrow> phase r = 2"

subsection \<open>What the phases do\<close>

lemma exchange_m2_eq:
  assumes "m1 = fpsap_header 1 4 @ FPSAP_M1_PAYLOAD"
    and "encrypt_fairplay_message (rf_mode r) (receiver_sap r) = Inr b" "length b = 128"
  shows "exchange_m2 m1 r = (Inr (fpsap_header 2 130 @ [2, rf_mode r] @ b), r\<lparr>phase := 1\<rparr>)"
proof -
  have valid: "validate_fpsap_record m1 1 4 = Inr ()"
    unfolding assms(1) by (intro validate_header) (simp_all add: FPSAP_M1_PAYLOAD_def)
  have "replicate 130 (0 :: byte) = 0 # 0 # replicate 128 0"
    using replicate_Suc [of 129 "0 :: byte"] replicate_Suc [of 128 "0 :: byte"] by simp
  then have "(new_fpsap_record 2 130)[12 := 2, 13 := rf_mode r] = fpsap_header 2 130 @ 2 # rf_mode r # replicate 128 0"
    by (simp add: new_fpsap_record_eq list_update_append)
  then have "splice 14 b ((new_fpsap_record 2 130)[12 := 2, 13 := rf_mode r]) = fpsap_header 2 130 @ [2, rf_mode r] @ b"
    using assms(3) by (simp add: splice_def)
  with valid assms(2) show ?thesis
    by (simp add: exchange_m2_def Let_def) (simp add: assms(1) FPSAP_M1_PAYLOAD_def)
qed

lemma exchange_m2_cases:
  "(\<exists>e. exchange_m2 m1 r = (Inl e, r) \<and> e \<noteq> Panic) \<or>
   (\<exists>m2. exchange_m2 m1 r = (Inr m2, r\<lparr>phase := 1\<rparr>) \<and> m1 = fpsap_header 1 4 @ FPSAP_M1_PAYLOAD)"
proof (cases "validate_fpsap_record m1 1 4")
  case (Inl e)
  then show ?thesis using validate_cases [of m1 1 4] by (auto simp: exchange_m2_def protocol_def)
next
  case (Inr u)
  then obtain payload where p: "m1 = fpsap_header 1 4 @ payload" "length payload = 4"
    using validate_Inr by blast
  with Inr show ?thesis
    by (cases "encrypt_fairplay_message (rf_mode r) (receiver_sap r)")
      (auto simp: exchange_m2_def protocol_def Let_def encrypt_fairplay_message_def split: if_splits)
qed

text \<open>An m3 whose confirmation is the exchange value of the sender's and this receiver's halves.\<close>

definition m3_confirms :: "bytes \<Rightarrow> byte \<Rightarrow> bytes \<Rightarrow> bool" where
  "m3_confirms sap mode m3 \<longleftrightarrow>
    (\<exists>b sender_sap. length b = 128 \<and> m3 = m3_record mode b (fpsap_exchange_for_sap sender_sap sap) \<and>
       decrypt_fairplay_message m3 = Inr sender_sap)"

lemma m3_record_fields:
  assumes "length b = 128" "length c = 20"
  shows "validate_fpsap_record (m3_record mode b c) 3 152 = Inr ()" "m3_record mode b c ! 12 = mode"
    "take 3 (drop 13 (m3_record mode b c)) = FPSAP_M3_LABEL" "drop 144 (m3_record mode b c) = c"
    "length (m3_record mode b c) = 164"
proof -
  show "validate_fpsap_record (m3_record mode b c) 3 152 = Inr ()"
    unfolding m3_record_def using assms by (intro validate_header) simp_all
qed (use assms in \<open>simp_all add: m3_record_def nth_append\<close>)

lemma exchange_m4_eq:
  assumes "m3_confirms (receiver_sap r) (rf_mode r) m3"
  shows "exchange_m4 m3 r = (Inr (fpsap_header 4 20 @ drop 144 m3), r\<lparr>rf_m3 := m3, phase := 2\<rparr>)"
proof -
  from assms obtain b sender_sap where b: "length b = 128"
      and m3: "m3 = m3_record (rf_mode r) b (fpsap_exchange_for_sap sender_sap (receiver_sap r))"
      and d: "decrypt_fairplay_message m3 = Inr sender_sap"
    by (auto simp: m3_confirms_def)
  have f: "validate_fpsap_record m3 3 152 = Inr ()" "m3 ! 12 = rf_mode r" "take 3 (drop 13 m3) = FPSAP_M3_LABEL"
      "length m3 = 164"
    unfolding m3 by (rule m3_record_fields [OF b length_fpsap_exchange])+
  have "splice 12 (drop 144 m3) (new_fpsap_record 4 20) = fpsap_header 4 20 @ drop 144 m3"
    using f(4) by (simp add: new_fpsap_record_eq splice_def)
  moreover have "drop 144 m3 = fpsap_exchange_for_sap sender_sap (receiver_sap r)"
    unfolding m3 by (rule m3_record_fields(4) [OF b length_fpsap_exchange])
  ultimately show ?thesis
    using f(1-3) d by (simp add: exchange_m4_def)
qed

lemma exchange_m4_cases:
  assumes "unat (rf_mode r) < 4"
  shows "(\<exists>e. exchange_m4 m3 r = (Inl e, r) \<and> e \<noteq> Panic) \<or>
    (\<exists>m4. exchange_m4 m3 r = (Inr m4, r\<lparr>rf_m3 := m3, phase := 2\<rparr>) \<and>
       m3_confirms (receiver_sap r) (rf_mode r) m3)"
proof (cases "validate_fpsap_record m3 3 152")
  case (Inl e)
  then show ?thesis using validate_cases [of m3 3 152] by (auto simp: exchange_m4_def protocol_def)
next
  case (Inr u)
  then obtain payload where p: "m3 = fpsap_header 3 152 @ payload" "length payload = 152"
    using validate_Inr by blast
  show ?thesis
  proof (cases "m3 ! 12 = rf_mode r \<and> take 3 (drop 13 m3) = FPSAP_M3_LABEL")
    case False
    with Inr show ?thesis by (auto simp: exchange_m4_def protocol_def)
  next
    case True
    have len: "length m3 = 164" using p by simp
    obtain sender_sap where d: "decrypt_fairplay_message m3 = Inr sender_sap"
      using True assms len
      by (simp add: decrypt_fairplay_message_def FAIRPLAY_MESSAGE_MODE_COUNT_def)
    show ?thesis
    proof (cases "drop 144 m3 = fpsap_exchange_for_sap sender_sap (receiver_sap r)")
      case False
      with Inr True d show ?thesis by (auto simp: exchange_m4_def protocol_def)
    next
      case conf: True
      define b where "b = take 128 (drop 4 payload)"
      have "take 1 payload @ take 3 (drop 1 payload) @ b @ drop 132 payload = payload"
        unfolding b_def
        using take_add [of 1 3 payload] take_add [of 4 128 payload] append_take_drop_id [of 132 payload]
        by (simp only: append_assoc [symmetric]) simp
      moreover have "take 1 payload = [rf_mode r]"
        using True p by (cases payload) (simp_all add: nth_append)
      moreover have "take 3 (drop 1 payload) = FPSAP_M3_LABEL" "drop 132 payload = drop 144 m3"
        using True p(1) by simp_all
      ultimately have "m3_record (rf_mode r) b (drop 144 m3) = m3"
        by (simp only: m3_record_def p(1))
      then have "m3 = m3_record (rf_mode r) b (fpsap_exchange_for_sap sender_sap (receiver_sap r))" "length b = 128"
        by (simp_all only: conf) (simp add: b_def p(2))
      then have "m3_confirms (receiver_sap r) (rf_mode r) m3"
        unfolding m3_confirms_def using d by blast
      with exchange_m4_eq show ?thesis by blast
    qed
  qed
qed

subsection \<open>Runs\<close>

fun fp_exec :: "bytes list \<Rightarrow> ReceiverFpsap \<Rightarrow> bytes res list \<times> ReceiverFpsap" where
  "fp_exec [] r = ([], r)"
| "fp_exec (q # qs) r =
    (let (resp, r) = fp_exchange q r; (resps, r) = fp_exec qs r in (resp # resps, r))"

text \<open>What the requests \<open>qs\<close> so far must contain for the machine to be in its phase.\<close>

definition fp_history :: "bytes \<Rightarrow> byte \<Rightarrow> bytes list \<Rightarrow> byte \<Rightarrow> bool" where
  "fp_history sap mode qs ph \<longleftrightarrow>
    (ph = 0 \<or> ph = 1 \<or> ph = 2) \<and>
    (ph \<noteq> 0 \<longrightarrow> (\<exists>i < length qs. qs ! i = fpsap_header 1 4 @ FPSAP_M1_PAYLOAD)) \<and>
    (ph = 2 \<longrightarrow> (\<exists>j < length qs. \<exists>i < j. qs ! i = fpsap_header 1 4 @ FPSAP_M1_PAYLOAD \<and>
       m3_confirms sap mode (qs ! j)))"

lemma fp_history_snoc:
  assumes "fp_history sap mode qs ph"
  shows "fp_history sap mode (qs @ [q]) ph"
proof -
  have nth: "(qs @ [q]) ! i = qs ! i" if "i < length qs" for i using that by (simp add: nth_append)
  have "\<exists>i < length (qs @ [q]). (qs @ [q]) ! i = m" if "\<exists>i < length qs. qs ! i = m" for m
  proof -
    from that obtain i where "i < length qs" "qs ! i = m" by blast
    then show ?thesis by (intro exI [of _ i]) (simp add: nth)
  qed
  moreover have "\<exists>j < length (qs @ [q]). \<exists>i < j. (qs @ [q]) ! i = m \<and> P ((qs @ [q]) ! j)"
    if "\<exists>j < length qs. \<exists>i < j. qs ! i = m \<and> P (qs ! j)" for m P
  proof -
    from that obtain j i where "j < length qs" "i < j" "qs ! i = m \<and> P (qs ! j)" by blast
    then show ?thesis using nth by (intro exI [of _ j] conjI exI [of _ i]) simp_all
  qed
  ultimately show ?thesis using assms unfolding fp_history_def by blast
qed

lemma fp_history_m1: "fp_history sap mode (qs @ [fpsap_header 1 4 @ FPSAP_M1_PAYLOAD]) 1"
  unfolding fp_history_def by (simp add: exI [of _ "length qs"])

lemma fp_history_m3:
  assumes "fp_history sap mode qs 1" "m3_confirms sap mode q"
  shows "fp_history sap mode (qs @ [q]) 2"
proof -
  from assms(1) obtain i where i: "i < length qs" "qs ! i = fpsap_header 1 4 @ FPSAP_M1_PAYLOAD"
    by (auto simp: fp_history_def)
  then have "length qs < length (qs @ [q]) \<and> i < length qs \<and> (qs @ [q]) ! i = fpsap_header 1 4 @ FPSAP_M1_PAYLOAD
      \<and> m3_confirms sap mode ((qs @ [q]) ! length qs)"
    using assms(2) by (simp add: nth_append)
  moreover from this have "\<exists>i < length (qs @ [q]). (qs @ [q]) ! i = fpsap_header 1 4 @ FPSAP_M1_PAYLOAD"
    using less_trans by blast
  ultimately show ?thesis unfolding fp_history_def by blast
qed

lemma fp_exchange_step:
  assumes "fp_history (receiver_sap r) (rf_mode r) qs (phase r)" "unat (rf_mode r) < 4"
    and "fp_exchange q r = (resp, r')"
  shows "fp_history (receiver_sap r) (rf_mode r) (qs @ [q]) (phase r') \<and> resp \<noteq> Inl Panic
    \<and> receiver_sap r' = receiver_sap r \<and> rf_mode r' = rf_mode r
    \<and> (\<forall>e. resp = Inl e \<longrightarrow> r' = r)"
proof -
  have keep: ?thesis if "\<exists>e. (resp, r') = (Inl e, r) \<and> e \<noteq> Panic"
    using that fp_history_snoc [OF assms(1)] by auto
  consider "phase r = 0" | "phase r = 1" | "phase r = 2" using assms(1) by (auto simp: fp_history_def)
  then show ?thesis
  proof cases
    case 1
    then have e: "exchange_m2 q r = (resp, r')" using assms(3) by (simp add: fp_exchange_def)
    show ?thesis
    proof (cases "\<exists>m2. (resp, r') = (Inr m2, r\<lparr>phase := 1\<rparr>) \<and> q = fpsap_header 1 4 @ FPSAP_M1_PAYLOAD")
      case True
      then obtain m2 where "resp = Inr m2" "r' = r\<lparr>phase := 1\<rparr>" and q: "q = fpsap_header 1 4 @ FPSAP_M1_PAYLOAD"
        by blast
      moreover have "fp_history (receiver_sap r) (rf_mode r) (qs @ [q]) 1" unfolding q by (rule fp_history_m1)
      ultimately show ?thesis by simp
    next
      case False
      then show ?thesis using exchange_m2_cases [of q r] unfolding e by (intro keep) blast
    qed
  next
    case 2
    then have e: "exchange_m4 q r = (resp, r')" using assms(3) by (simp add: fp_exchange_def)
    show ?thesis
    proof (cases "\<exists>m4. (resp, r') = (Inr m4, r\<lparr>rf_m3 := q, phase := 2\<rparr>) \<and> m3_confirms (receiver_sap r) (rf_mode r) q")
      case True
      then obtain m4 where "resp = Inr m4" "r' = r\<lparr>rf_m3 := q, phase := 2\<rparr>"
          and q: "m3_confirms (receiver_sap r) (rf_mode r) q" by blast
      moreover have "fp_history (receiver_sap r) (rf_mode r) (qs @ [q]) 2"
        using assms(1) q unfolding 2 by (rule fp_history_m3)
      ultimately show ?thesis by simp
    next
      case False
      then show ?thesis using exchange_m4_cases [OF assms(2), of q] unfolding e by (intro keep) blast
    qed
  next
    case 3
    then have "resp = Inl (protocol ''FairPlay SAP exchange already complete'')" "r' = r"
      using assms(3) by (simp_all add: fp_exchange_def)
    then show ?thesis by (intro keep) (simp add: protocol_def)
  qed
qed

lemma fp_exec_history:
  assumes "fp_history (receiver_sap r) (rf_mode r) qs (phase r)" "unat (rf_mode r) < 4"
    and "fp_exec ps r = (resps, r')"
  shows "fp_history (receiver_sap r) (rf_mode r) (qs @ ps) (phase r') \<and> Inl Panic \<notin> set resps"
  using assms
proof (induction ps arbitrary: qs r resps)
  case (Cons p ps)
  obtain resp r1 where 1: "fp_exchange p r = (resp, r1)" by (rule prod.exhaust)
  obtain rs where 2: "fp_exec ps r1 = (rs, r')" "resps = resp # rs"
    using Cons.prems(3) 1 by (auto simp: Let_def split: prod.splits)
  have step: "fp_history (receiver_sap r) (rf_mode r) (qs @ [p]) (phase r1)" "resp \<noteq> Inl Panic"
    "receiver_sap r1 = receiver_sap r" "rf_mode r1 = rf_mode r"
    using fp_exchange_step [OF Cons.prems(1,2) 1] by blast+
  have "fp_history (receiver_sap r1) (rf_mode r1) ((qs @ [p]) @ ps) (phase r') \<and> Inl Panic \<notin> set rs"
    by (rule Cons.IH [OF _ _ 2(1)]) (simp_all only: step Cons.prems(2))
  then show ?case using step(2) by (simp only: step(3,4) 2(2)) simp
qed simp

lemma fp_exec_new:
  assumes "fp_exec qs (ReceiverFpsap_new entropy) = (resps, r)"
  shows "fp_history (receiver_sap (ReceiverFpsap_new entropy)) FPSAP_MODE qs (phase r) \<and> Inl Panic \<notin> set resps"
  using fp_exec_history [of "ReceiverFpsap_new entropy" "[]" qs resps r] assms
  by (simp add: ReceiverFpsap_new_def FPSAP_MODE_def fp_history_def)

text \<open>C29. The receiver's FairPlay machine, for every sequence of requests: it is complete only if a correct m1
  arrived and, later, an m3 that carries the exchange value of the sender's and this receiver's halves; and
  no request makes it panic.\<close>

theorem fpsap_machine:
  assumes "fp_exec qs (ReceiverFpsap_new entropy) = (resps, r)"
  shows "Inl Panic \<notin> set resps \<and>
    (fp_complete r \<longrightarrow> (\<exists>j < length qs. \<exists>i < j. qs ! i = fpsap_header 1 4 @ FPSAP_M1_PAYLOAD
      \<and> m3_confirms (receiver_sap (ReceiverFpsap_new entropy)) FPSAP_MODE (qs ! j)))"
  using fp_exec_new [OF assms(1)] by (auto simp: fp_history_def fp_complete_def)

end
