(* ===== verification/Receiver_Server.thy ===== *)
theory Receiver_Server
  imports Receiver_Pairing Receiver_Fairplay Plist Rtsp_Server Info
begin

text \<open>
  The receiver's control server (receiver/mod.rs) and its media endpoints (receiver/media.rs): profiles,
  advertised records, the dispatch of a request on the state of its connection, and the loop over the requests
  of one connection. What the server takes from outside while it handles a request (random bytes, clock,
  addresses, bound ports) is the record \<open>draws\<close>. Log output is not modelled.
\<close>

subsection \<open>Configuration\<close>

definition LEGACY_AIRPLAY_SOURCE_VERSION :: string where "LEGACY_AIRPLAY_SOURCE_VERSION = ''280.33''"
definition MODERN_AIRPLAY_SOURCE_VERSION :: string where "MODERN_AIRPLAY_SOURCE_VERSION = ''980.71.1''"

datatype ReceiverProfile = Modern | Roku

datatype ReceiverAuth = Auth_None | Auth_Pin | Auth_Password | Auth_Digest | Auth_Combined

text \<open>\<open>audio_dump\<close> says whether a dump path is set.\<close>

record ReceiverConfig =
  listen :: string
  cfg_profile :: ReceiverProfile
  auth :: ReceiverAuth
  code :: string
  cfg_name :: string
  cfg_model :: string
  cfg_device_id :: string
  cfg_debug :: bool
  audio_dump :: bool

definition ReceiverConfig_default :: ReceiverConfig where
  "ReceiverConfig_default =
    \<lparr>listen = ''0.0.0.0:7000'', cfg_profile = Modern, auth = Auth_None, code = [], cfg_name = ''Lumen'',
     cfg_model = ''AppleTV-Test'', cfg_device_id = [], cfg_debug = True, audio_dump = False\<rparr>"

record ProfileSpec =
  ps_source_version :: string
  ps_features :: u64
  modern_setup :: bool

definition profile_spec :: "ReceiverProfile \<Rightarrow> ProfileSpec" where
  "profile_spec profile = (case profile of
     Modern \<Rightarrow> \<lparr>ps_source_version = MODERN_AIRPLAY_SOURCE_VERSION, ps_features = 0x4A7FCFD538174FDE,
                modern_setup = True\<rparr>
   | Roku \<Rightarrow> \<lparr>ps_source_version = LEGACY_AIRPLAY_SOURCE_VERSION, ps_features = 0x038bcf46007f8ad0,
              modern_setup = False\<rparr>)"

text \<open>\<open>format!("{:02X}")\<close> of six random bytes, joined by colons.\<close>

definition hex_digit_upper :: "nat \<Rightarrow> char" where
  "hex_digit_upper n = (if n < 10 then char_of (48 + n) else char_of (55 + n))"

definition hex2_upper :: "byte \<Rightarrow> string" where
  "hex2_upper b = [hex_digit_upper (unat b div 16), hex_digit_upper (unat b mod 16)]"

definition random_device_id :: "bytes \<Rightarrow> string" where
  "random_device_id rnd =
    (let b = rnd[0 := (rnd ! 0 AND 0xfe) OR 0x02]
     in hex2_upper (b ! 0) @ '':'' @ hex2_upper (b ! 1) @ '':'' @ hex2_upper (b ! 2) @ '':'' @
        hex2_upper (b ! 3) @ '':'' @ hex2_upper (b ! 4) @ '':'' @ hex2_upper (b ! 5))"

subsection \<open>Addresses\<close>

datatype IpAddr = V4 byte byte byte byte | V6 bytes

fun is_ipv4 :: "IpAddr \<Rightarrow> bool" where
  "is_ipv4 (V4 a b c d) = True" | "is_ipv4 (V6 x) = False"

fun is_loopback :: "IpAddr \<Rightarrow> bool" where
  "is_loopback (V4 a b c d) = (a = 127)" | "is_loopback (V6 x) = (x = replicate 15 0 @ [1])"

fun is_unspecified :: "IpAddr \<Rightarrow> bool" where
  "is_unspecified (V4 a b c d) = (a = 0 \<and> b = 0 \<and> c = 0 \<and> d = 0)" | "is_unspecified (V6 x) = (x = replicate 16 0)"

fun is_link_local :: "IpAddr \<Rightarrow> bool" where
  "is_link_local (V4 a b c d) = (a = 169 \<and> b = 254)" | "is_link_local (V6 x) = False"

fun is_multicast :: "IpAddr \<Rightarrow> bool" where
  "is_multicast (V4 a b c d) = (224 \<le> a \<and> a \<le> 239)" | "is_multicast (V6 x) = (take 1 x = [255])"

text \<open>\<open>to_string\<close> of an address; only IPv4 addresses reach it.\<close>

fun ip_string :: "IpAddr \<Rightarrow> string" where
  "ip_string (V4 a b c d) = dec (unat a) @ ''.'' @ dec (unat b) @ ''.'' @ dec (unat c) @ ''.'' @ dec (unat d)"
| "ip_string (V6 x) = hex x"

text \<open>\<open>net::lan_ipv4\<close>: the local address of the probing socket, if it is usable.\<close>

definition net_lan_ipv4 :: "IpAddr option \<Rightarrow> IpAddr option" where
  "net_lan_ipv4 probe = (case probe of None \<Rightarrow> None | Some ip \<Rightarrow>
     if is_ipv4 ip \<and> \<not> is_loopback ip \<and> \<not> is_unspecified ip \<and> \<not> is_link_local ip \<and> \<not> is_multicast ip
     then Some ip else None)"

definition lan_ipv4 :: "IpAddr option \<Rightarrow> IpAddr option \<Rightarrow> string + IpAddr" where
  "lan_ipv4 probe local_addr = (case net_lan_ipv4 probe of
     Some ip \<Rightarrow> Inr ip
   | None \<Rightarrow> (case local_addr of
       Some ip \<Rightarrow> if is_ipv4 ip \<and> \<not> is_loopback ip \<and> \<not> is_unspecified ip then Inr ip
                  else Inl ''no usable LAN IPv4 address''
     | None \<Rightarrow> Inl ''no usable LAN IPv4 address''))"

subsection \<open>State\<close>

record MediaEndpoints =
  event_port :: u16
  video_port :: u16
  audio_rtp_port :: u16
  audio_rtcp_port :: u16
  timing_port :: u16

text \<open>What \<open>drain_audio\<close> appends to the RTP dump for the datagrams received: each, cut to its buffer of 4096
  bytes, behind its length.\<close>

definition dump_datagram :: "bytes \<Rightarrow> bytes" where
  "dump_datagram pkt = (let buf = take 4096 pkt in to_be 2 (length buf) @ buf)"

definition drain_audio :: "bool \<Rightarrow> bool \<Rightarrow> bytes list \<Rightarrow> bytes" where
  "drain_audio write_dump has_path pkts =
    (if write_dump \<and> has_path then concat (map dump_datagram pkts) else [])"

text \<open>The name of that file: the stem of the SETUP dump with a suffix, and its extension.\<close>

definition rtp_dump_name :: "string option \<Rightarrow> string option \<Rightarrow> string" where
  "rtp_dump_name file_stem extension =
    (let stem = (case file_stem of None \<Rightarrow> ''audio'' | Some s \<Rightarrow> s)
     in case extension of Some e \<Rightarrow> stem @ ''_rtp.'' @ e | None \<Rightarrow> stem @ ''_rtp'')"

record ReceiverServer =
  sv_cfg :: ReceiverConfig
  sv_profile :: ProfileSpec
  sv_local_addr :: "IpAddr option"
  sv_signing_key :: bytes
  sv_verifying_key :: bytes
  sv_identifier :: string

text \<open>The random draws of \<open>ReceiverServer::new\<close> are arguments, and so is the address bound.\<close>

definition ReceiverServer_new ::
  "crypto \<Rightarrow> bytes \<Rightarrow> bytes \<Rightarrow> string \<Rightarrow> IpAddr option \<Rightarrow> ReceiverConfig \<Rightarrow> ReceiverServer" where
  "ReceiverServer_new C dev_rnd seed uuid addr cfg =
    (let cfg = (if cfg_device_id cfg = [] then cfg\<lparr>cfg_device_id := random_device_id dev_rnd\<rparr> else cfg)
     in \<lparr>sv_cfg = cfg, sv_profile = profile_spec (cfg_profile cfg), sv_local_addr = addr, sv_signing_key = seed,
         sv_verifying_key = ed_public C seed, sv_identifier = uuid\<rparr>)"

text \<open>\<open>rs_dump\<close> is what this connection appended to the audio dump file.\<close>

record ReceiverSession =
  rs_pairing :: ReceiverPairing
  rs_fairplay :: "ReceiverFpsap option"
  rs_media :: "MediaEndpoints option"
  rs_dump :: bytes

text \<open>
  The inputs of one request: the salt and exponent of a pair-setup, the private key of a pair-verify, a UUID,
  the clock, the probed addresses of the two calls of \<open>lan_ipv4\<close>, and the ports bound or the error.
\<close>

record draws =
  dr_salt :: bytes
  dr_b :: bytes
  dr_private :: bytes
  dr_uuid :: string
  dr_millis :: nat
  dr_probe1 :: "IpAddr option"
  dr_probe2 :: "IpAddr option"
  dr_media :: "string + MediaEndpoints"

subsection \<open>Advertised records\<close>

definition txt_for_airplay :: "string \<Rightarrow> u64 \<Rightarrow> string \<Rightarrow> string \<Rightarrow> bytes \<Rightarrow> string \<Rightarrow> string \<Rightarrow> string \<Rightarrow> string option" where
  "txt_for_airplay uuid feats dev mdl verifying nm source =
    (let lo = unat (ucast feats :: u32);
         hi = unat (ucast (drop_bit 32 feats) :: u32);
         features_str = ''0x'' @ hex (to_be 4 hi) @ '',0x'' @ hex (to_be 4 lo)
     in [''deviceid'' \<mapsto> dev, ''features'' \<mapsto> features_str, ''flags'' \<mapsto> ''0x4'', ''model'' \<mapsto> mdl,
         ''pk'' \<mapsto> hex verifying, ''srcvers'' \<mapsto> source, ''vv'' \<mapsto> ''2'', ''protovers'' \<mapsto> ''1.1'', ''sf'' \<mapsto> ''0x4'',
         ''gid'' \<mapsto> uuid, ''pi'' \<mapsto> hex_num (unat feats), ''cn'' \<mapsto> mdl, ''n'' \<mapsto> nm])"

definition txt_for_raop :: "string \<Rightarrow> string \<Rightarrow> bytes \<Rightarrow> string \<Rightarrow> string option" where
  "txt_for_raop dev mdl verifying =
    [''am'' \<mapsto> mdl, ''md'' \<mapsto> ''0,1,2'', ''deviceid'' \<mapsto> dev, ''features'' \<mapsto> ''0x00000000,0x00000500'',
     ''flags'' \<mapsto> ''0x4'', ''model'' \<mapsto> mdl, ''tp'' \<mapsto> ''UDP'', ''pk'' \<mapsto> hex verifying, ''vv'' \<mapsto> ''2'', ''ch'' \<mapsto> ''2'',
     ''cn'' \<mapsto> ''0,1,2,3'', ''et'' \<mapsto> ''0,1,3,4'', ''sf'' \<mapsto> ''0x4'', ''sr'' \<mapsto> ''44100'', ''ss'' \<mapsto> ''16'', ''v'' \<mapsto> ''1'']"

definition clock_headers :: "nat \<Rightarrow> string \<Rightarrow> string option" where
  "clock_headers elapsed =
    [''X-Apple-RequestReceivedTimestamp'' \<mapsto> dec (max elapsed 1), ''X-Apple-ProcessingTime'' \<mapsto> ''1'']"

subsection \<open>Requests\<close>

text \<open>\<open>Display\<close> of an error of the protocol layer.\<close>

fun error_text :: "error \<Rightarrow> string" where
  "error_text (Transport m) = ''transport: '' @ m"
| "error_text (HttpStatus st b) = ''http '' @ dec (unat st) @ '': body '' @ debug_bytes b"
| "error_text (Protocol m) = ''protocol: '' @ m"
| "error_text (Crypto m) = ''crypto: '' @ m"

fun fault_text :: "fault \<Rightarrow> string" where
  "fault_text (Err e) = error_text e"
| "fault_text Panic = []"

text \<open>The status bits of \<open>info_plist\<close>.\<close>

definition advertised_status :: "ReceiverAuth \<Rightarrow> u64" where
  "advertised_status a =
    (let st = 4;
         st = (if a = Auth_Pin then st OR 2 else st)
     in if a = Auth_Password \<or> a = Auth_Digest \<or> a = Auth_Combined then st OR 1 else st)"

definition info_display :: "string \<Rightarrow> plist" where
  "info_display uuid = p_build
    [d_int ''width'' 1920, d_int ''height'' 1080, d_int ''widthPixels'' 1920, d_int ''heightPixels'' 1080,
     d_int ''widthPixelsMax'' 1920, d_int ''heightPixelsMax'' 1080, d_int ''maxFPS'' 60, d_string ''uuid'' uuid]"

definition info_latencies :: plist where
  "info_latencies = p_build
    [d_int ''type'' 100, d_int ''ch'' 2, d_int ''inputLatencyMicros'' 0, d_int ''outputLatencyMicros'' 0]"

definition info_value :: "ReceiverServer \<Rightarrow> string \<Rightarrow> plist" where
  "info_value s uuid = p_build
    [d_string ''name'' (cfg_name (sv_cfg s)), d_string ''model'' (cfg_model (sv_cfg s)),
     d_string ''manufacturer'' ''lumen'', d_string ''deviceID'' (cfg_device_id (sv_cfg s)),
     d_string ''macAddress'' (cfg_device_id (sv_cfg s)), d_string ''protocolVersion'' ''1.1'',
     d_string ''sourceVersion'' (ps_source_version (sv_profile s)),
     d_insert ''features'' (PInt (int (unat (ps_features (sv_profile s))))),
     d_insert ''statusFlags'' (PInt (sint (advertised_status (auth (sv_cfg s))))),
     d_insert ''pk'' (PData (sv_verifying_key s)), d_insert ''initialVolume'' (PReal 0 0),
     d_int ''volumeControlType'' 0, d_bool ''keepAliveSendStatsAsBody'' True,
     d_insert ''displays'' (PArray [info_display uuid]), d_insert ''audioLatencies'' (PArray [info_latencies])]"

definition BPLIST :: string where
  "BPLIST = ''application/x-apple-binary-plist''"

definition info_plist :: "plist_lib \<Rightarrow> ReceiverServer \<Rightarrow> string \<Rightarrow> ServerResponse" where
  "info_plist L s uuid = resp_ok (plist_write L (info_value s uuid)) BPLIST"

text \<open>\<open>requested_setup_stream_types\<close>: the \<open>type\<close> of every stream of the SETUP plist.\<close>

definition setup_streams :: "plist \<Rightarrow> plist list option" where
  "setup_streams v =
    (case (case p_get ''streams'' v of None \<Rightarrow> None | Some x \<Rightarrow> as_array x) of
       Some arr \<Rightarrow> Some arr | None \<Rightarrow> as_array v)"

definition stream_type :: "plist \<Rightarrow> int option" where
  "stream_type item = (case p_get ''type'' item of None \<Rightarrow> None | Some t \<Rightarrow> as_signed_integer t)"

definition requested_setup_stream_types :: "plist_lib \<Rightarrow> bytes \<Rightarrow> int list" where
  "requested_setup_stream_types L b =
    (case plist_read L b of None \<Rightarrow> [] | Some v \<Rightarrow>
       (case setup_streams v of None \<Rightarrow> [] | Some arr \<Rightarrow> List.map_filter stream_type arr))"

definition is_session_request :: "Request \<Rightarrow> bool" where
  "is_session_request req \<longleftrightarrow>
     (let path = request_path (req_uri req) in
      req_method req = ''SETUP'' \<or> req_method req = ''RECORD'' \<or> req_method req = ''SET_PARAMETER'' \<or>
      req_method req = ''TEARDOWN'' \<or> req_method req = ''POST'' \<and> (path = ''/fp-setup'' \<or> path = ''/feedback''))"

text \<open>The answer for one stream of a SETUP.\<close>

definition audio_stream :: "MediaEndpoints \<Rightarrow> plist" where
  "audio_stream ep =
    (let sc = p_build
       [d_insert ''streamConnectionTypeRTP''
          (d_int ''streamConnectionKeyPort'' (int (unat (audio_rtp_port ep))) p_dict),
        d_insert ''streamConnectionTypeRTCP''
          (d_int ''streamConnectionKeyPort'' (int (unat (audio_rtcp_port ep))) p_dict)]
     in p_build
       [d_int ''type'' 96, d_int ''dataPort'' (int (unat (audio_rtp_port ep))),
        d_int ''controlPort'' (int (unat (audio_rtcp_port ep))), d_int ''arrivalToRenderLatencyMs'' 0,
        d_insert ''streamConnections'' sc])"

definition video_stream :: "MediaEndpoints \<Rightarrow> plist" where
  "video_stream ep = p_build [d_int ''type'' 110, d_int ''dataPort'' (int (unat (video_port ep)))]"

definition stream_response :: "MediaEndpoints \<Rightarrow> int \<Rightarrow> plist option" where
  "stream_response ep t =
    (if t = 96 then Some (audio_stream ep) else if t = 110 then Some (video_stream ep) else None)"

definition timing_peer_info :: "string \<Rightarrow> string + IpAddr \<Rightarrow> plist" where
  "timing_peer_info i ip = p_build
    [d_int ''ClockID'' 0x4454424c54414b45, d_string ''ID'' i, d_int ''DeviceType'' 1,
     d_insert ''Addresses'' (PArray [PString (case ip of Inl _ \<Rightarrow> ''127.0.0.1'' | Inr ip \<Rightarrow> ip_string ip)]),
     d_insert ''SupportsClockPortMatchingOverride'' (PBool True)]"

definition setup_value :: "plist_lib \<Rightarrow> ReceiverServer \<Rightarrow> draws \<Rightarrow> MediaEndpoints \<Rightarrow> bytes \<Rightarrow> plist" where
  "setup_value L s d ep b =
    (let requested = requested_setup_stream_types L b;
         types = (if requested = [] then [96, 110] else requested)
     in p_build
       [d_int ''eventPort'' (int (unat (event_port ep))), d_insert ''skipRecord'' (PBool False),
        d_insert ''timingPeerInfo'' (timing_peer_info (sv_identifier s) (lan_ipv4 (dr_probe2 d) (sv_local_addr s))),
        d_insert ''streams'' (PArray (List.map_filter (stream_response ep) types))])"

definition with_clock :: "draws \<Rightarrow> ServerResponse \<Rightarrow> ServerResponse" where
  "with_clock d r = r\<lparr>sr_headers := clock_headers (dr_millis d)\<rparr>"

text \<open>What a SETUP appends to the dump file.\<close>

definition dump_setup :: "Request \<Rightarrow> bytes" where
  "dump_setup req =
    s2b (''=== SETUP '' @ dec (length (req_body req)) @ '' bytes (method='' @ req_method req @ '' uri='' @ req_uri req @
      '') ==='' @ [CHR 0x0A]) @ req_body req @ [0x0A]"

definition handle_fp_setup :: "Request \<Rightarrow> ReceiverSession \<Rightarrow> ServerResponse \<times> ReceiverSession" where
  "handle_fp_setup req ss =
    (case rs_fairplay ss of
       None \<Rightarrow> (resp_text 404 ''FairPlay SAP unavailable'', ss)
     | Some f \<Rightarrow>
         if fp_complete f then (resp_text 404 ''FairPlay SAP unavailable'', ss)
         else if req_headers req ''x-apple-et'' \<noteq> Some ''32''
         then (resp_text 400 ''fp-setup requires X-Apple-ET: 32'', ss)
         else (case fp_exchange (req_body req) f of
             (Inr b, f) \<Rightarrow> (resp_ok b ''application/octet-stream'', ss\<lparr>rs_fairplay := Some f\<rparr>)
           | (Inl e, f) \<Rightarrow> (resp_text 400 (fault_text e), ss\<lparr>rs_fairplay := Some f\<rparr>)))"

text \<open>The endpoints of a SETUP: those of the session, or freshly bound ones.\<close>

definition session_media :: "ReceiverServer \<Rightarrow> draws \<Rightarrow> ReceiverSession \<Rightarrow> (string + MediaEndpoints) \<times> ReceiverSession" where
  "session_media s d ss =
    (case rs_media ss of
       Some ep \<Rightarrow> (Inr ep, ss)
     | None \<Rightarrow> (case lan_ipv4 (dr_probe1 d) (sv_local_addr s) of
         Inl e \<Rightarrow> (Inl e, ss)
       | Inr ip \<Rightarrow> (case dr_media d of
           Inl e \<Rightarrow> (Inl e, ss)
         | Inr ep \<Rightarrow> (Inr ep, ss\<lparr>rs_media := Some ep\<rparr>))))"

definition handle_setup ::
  "plist_lib \<Rightarrow> ReceiverServer \<Rightarrow> draws \<Rightarrow> Request \<Rightarrow> ReceiverSession \<Rightarrow> ServerResponse \<times> ReceiverSession" where
  "handle_setup L s d req ss =
    (if (case rs_fairplay ss of None \<Rightarrow> False | Some f \<Rightarrow> \<not> fp_complete f)
     then (resp_text 455 ''FairPlay SAP must complete before SETUP'', ss)
     else
       let ss = (if audio_dump (sv_cfg s) then ss\<lparr>rs_dump := rs_dump ss @ dump_setup req\<rparr> else ss) in
       case session_media s d ss of
         (Inl e, ss) \<Rightarrow> (resp_text 500 e, ss)
       | (Inr ep, ss) \<Rightarrow>
           (with_clock d (resp_ok (plist_write L (setup_value L s d ep (req_body req))) BPLIST), ss))"

definition feedback_value :: plist where
  "feedback_value = p_build
    [d_insert ''streams'' (PArray [p_build [d_int ''type'' 96, d_int ''sr'' 44100]])]"

definition dispatch ::
  "crypto \<Rightarrow> plist_lib \<Rightarrow> ReceiverServer \<Rightarrow> draws \<Rightarrow> Request \<Rightarrow> ReceiverSession \<Rightarrow>
     (ServerResponse \<times> SessionKeys option) \<times> ReceiverSession" where
  "dispatch C L s d req ss =
    (let path = request_path (req_uri req); meth = req_method req in
     if is_session_request req \<and> \<not> is_verified (rs_pairing ss)
     then ((resp_text 455 ''pair-verify must complete first'', None), ss)
     else if meth = ''GET'' \<and> path = ''/info'' then ((info_plist L s (dr_uuid d), None), ss)
     else if meth = ''POST'' \<and> path = ''/pair-pin-start'' then
       ((if auth (sv_cfg s) \<noteq> Auth_Pin then resp_empty 453 else resp_empty 200, None), ss)
     else if meth = ''POST'' \<and> path = ''/pair-setup'' then
       (let (b, p) = r_pair_setup C (dr_salt d) (dr_b d) (req_body req) (rs_pairing ss)
        in ((resp_ok b ''application/octet-stream'', None), ss\<lparr>rs_pairing := p\<rparr>))
     else if meth = ''POST'' \<and> path = ''/pair-verify'' then
       (let ((b, keys), p) = r_pair_verify C (dr_private d) (req_body req) (rs_pairing ss)
        in ((resp_ok b ''application/octet-stream'', keys), ss\<lparr>rs_pairing := p\<rparr>))
     else if meth = ''POST'' \<and> path = ''/fp-setup'' then
       (let (r, ss) = handle_fp_setup req ss in ((r, None), ss))
     else if meth = ''SETUP'' then (let (r, ss) = handle_setup L s d req ss in ((r, None), ss))
     else if meth = ''RECORD'' then ((with_clock d (resp_empty 200), None), ss)
     else if meth = ''SET_PARAMETER'' then ((resp_empty 200, None), ss)
     else if meth = ''POST'' \<and> path = ''/feedback'' then
       ((with_clock d (resp_ok (plist_write L feedback_value) BPLIST), None), ss)
     else if meth = ''TEARDOWN'' then ((resp_empty 200, None), ss)
     else ((resp_empty 404, None), ss))"

subsection \<open>The connection\<close>

definition new_session :: "crypto \<Rightarrow> ReceiverServer \<Rightarrow> bytes \<Rightarrow> ReceiverSession" where
  "new_session C s entropy =
    \<lparr>rs_pairing = ReceiverPairing_new C (sv_identifier s) ''Pair-Setup'' (sv_signing_key s) (code (sv_cfg s)),
     rs_fairplay = (if ps_features (sv_profile s) AND FEATURE_FPSAP25 \<noteq> 0 then Some (ReceiverFpsap_new entropy) else None),
     rs_media = None, rs_dump = []\<rparr>"

definition switch_stream :: "SessionKeys option \<Rightarrow> CtrlStream \<Rightarrow> CtrlStream" where
  "switch_stream keys io =
    (case keys of None \<Rightarrow> io | Some k \<Rightarrow> enable_hap (sk_read_key k) (sk_write_key k) io)"

text \<open>
  The request loop: what was sent, the requests handled, and the state in which the connection closes. \<open>ds\<close> are
  the inputs of the successive requests. The last component of the result is the loop's \<open>Ok\<close> (end of stream)
  or \<open>Err\<close>; writing is taken to succeed.
\<close>

function serve_loop ::
  "crypto \<Rightarrow> plist_lib \<Rightarrow> hdr_order \<Rightarrow> ReceiverServer \<Rightarrow> (nat \<Rightarrow> draws) \<Rightarrow> nat \<Rightarrow> ReceiverSession \<Rightarrow> CtrlStream \<Rightarrow>
     bytes \<times> Request list \<times> ReceiverSession \<times> CtrlStream \<times> bool" where
  "serve_loop C L hdr_list s ds k ss io =
    (case read_request C io of
       (Inl e, io) \<Rightarrow> ([], [], ss, io, e = Unexpected_Eof)
     | (Inr req, io) \<Rightarrow>
         let ((resp, keys), ss) = dispatch C L s (ds k) req ss;
             (out, io) = write_response C hdr_list req resp io;
             (out', reqs, res) = serve_loop C L hdr_list s ds (Suc k) ss (switch_stream keys io)
         in (out @ out', req # reqs, res))"
  by pat_completeness auto

lemma ctrl_left_switch [simp]: "ctrl_left (switch_stream keys io) = ctrl_left io"
  by (simp add: switch_stream_def split: option.split)

lemma written_less:
  assumes "(Inr req, io1) = read_request C io" "(out, io2) = write_response C hdr_list req resp io1"
  shows "(switch_stream keys io2, io) \<in> ctrl_less"
proof -
  have "ctrl_left io2 = ctrl_left io1"
    using ctrl_left_write_response [of C hdr_list req resp io1] assms(2) by (metis snd_conv)
  then show ?thesis using read_request_less [OF assms(1) [symmetric]] by (simp add: ctrl_less_iff)
qed

termination serve_loop
  by (relation "inv_image ctrl_less (\<lambda>(C, L, hdr_list, s, ds, k, ss, io). io)")
    (auto intro: wf_inv_image written_less)

declare serve_loop.simps [simp del]

definition serve_control ::
  "crypto \<Rightarrow> plist_lib \<Rightarrow> hdr_order \<Rightarrow> ReceiverServer \<Rightarrow> bytes \<Rightarrow> (nat \<Rightarrow> draws) \<Rightarrow> bytes \<Rightarrow>
     bytes \<times> Request list \<times> ReceiverSession \<times> CtrlStream \<times> bool" where
  "serve_control C L hdr_list s entropy ds inp =
    serve_loop C L hdr_list s ds 0 (new_session C s entropy) (from_tcp inp)"

end
