(* ===== verification/Pairing.thy ===== *)
theory Pairing
  imports Client_Pairing Receiver_Pairing
begin

text \<open>
  The two sides of pairing against each other: what the receiver answers to each well-formed message,
  the complete run of the sender's PIN pairing with it, and the runs of peers that do not know the PIN.
\<close>

subsection \<open>The receiver as the other end of a transport\<close>

text \<open>The receiver answers the two pairing paths with status 200 and the handler's body. \<open>salt\<close>, \<open>b\<close>
  and \<open>priv\<close> are the random bytes of its exchanges.\<close>

definition ok_response :: "bytes \<Rightarrow> Response res" where
  "ok_response b = Inr \<lparr>status = 200, headers = Map.empty, body = b\<rparr>"

definition pairing_transport :: "crypto \<Rightarrow> bytes \<Rightarrow> bytes \<Rightarrow> bytes \<Rightarrow> ReceiverPairing transport" where
  "pairing_transport C salt b priv rq r =
    (if rq_path rq = ''/pair-setup'' then
       let (resp, r) = r_pair_setup C salt b (rq_body rq) r in (ok_response resp, r)
     else if rq_path rq = ''/pair-verify'' then
       let ((resp, _), r) = r_pair_verify C priv (rq_body rq) r in (ok_response resp, r)
     else (Inr \<lparr>status = 404, headers = Map.empty, body = []\<rparr>, r))"

lemma send_setup:
  "send (pairing_transport C salt b priv) (post ''/pair-setup'' m h) r =
    (Inr (fst (r_pair_setup C salt b m r)), snd (r_pair_setup C salt b m r))"
  by (simp add: send_def pairing_transport_def post_def ok_response_def ok_body_def case_prod_unfold Let_def)

lemma send_verify:
  "send (pairing_transport C salt b priv) (post ''/pair-verify'' m h) r =
    (Inr (fst (fst (r_pair_verify C priv m r))), snd (r_pair_verify C priv m r))"
  by (simp add: send_def pairing_transport_def post_def ok_response_def ok_body_def case_prod_unfold Let_def)

lemma exchange_setup:
  "exchange (pairing_transport C salt b priv) (post ''/pair-setup'' m h) s r f =
    f (fst (r_pair_setup C salt b m r)) (snd (r_pair_setup C salt b m r))"
  by (simp add: exchange_def send_setup)

lemma exchange_verify:
  "exchange (pairing_transport C salt b priv) (post ''/pair-verify'' m h) s r f =
    f (fst (fst (r_pair_verify C priv m r))) (snd (r_pair_verify C priv m r))"
  by (simp add: exchange_def send_verify)

lemma check_Inr [simp]: "check (Inr x) s w f = f x" "check (Inl e) s w f = (Inl e, s, w)"
  by (simp_all add: check_def)

lemma label_nonce_8: "length l = 8 \<Longrightarrow> label_nonce l = chacha_nonce l"
  by (simp add: label_nonce_def chacha_nonce_def splice_def Let_def)

lemma hkdf_agree: "hkdf_sha512 C k a b 32 = r_hkdf C k a b"
  by (simp add: hkdf_sha512_def r_hkdf_def)

lemma label_nonces:
  "label_nonce ''PS-Msg05'' = chacha_nonce ''PS-Msg05''"
  "label_nonce ''PV-Msg02'' = chacha_nonce ''PV-Msg02''"
  "label_nonce ''PV-Msg03'' = chacha_nonce ''PV-Msg03''"
  by (simp_all add: label_nonce_8)

lemma sized_eq [simp]: "length v = n \<Longrightarrow> sized n (Some v) = Some v"
  by (simp add: sized_def)

subsection \<open>What the receiver answers\<close>

lemma receiver_m1:
  "r_pair_setup C salt b (encode_ordered [tlv_item TLV_METHOD [0], tlv_item TLV_STATE [1]]) r =
    (let v = srp_verifier C salt (username r) (pin r); B = srp_server_public C v b
     in (encode_ordered [tlv_item TLV_STATE [2], tlv_item TLV_SALT salt,
           tlv_item TLV_PUBLIC_KEY (pad_to (nat_be B) 384)],
         (reset r)\<lparr>rp_setup := Some \<lparr>ss_salt = salt, ss_b = b, ss_v = nat_be v,
            ss_server_pub = nat_be B, ss_shared_key = None, ss_transient = False\<rparr>\<rparr>))"
proof -
  have len: "length (encode_ordered [tlv_item TLV_METHOD [0], tlv_item TLV_STATE [1]]) = 6"
    by (simp add: encode_ordered.simps encode_item_short)
  show ?thesis
    by (simp add: r_pair_setup_def len tlv_lookup begin_srp_setup_def method_ok_def
        transient_flag_def Let_def)
qed

lemma long_body:
  "32 < sum_list (map (\<lambda>i. length (value i)) items) \<Longrightarrow> length (encode_ordered items) \<noteq> 32"
  using length_encode_ordered [of items] by linarith

lemma receiver_m3:
  fixes C :: crypto and A :: bytes and s :: SrpSetupState
  defines "u \<equiv> of_be (sha512 C (pad_to A 384 @ pad_to (ss_server_pub s) 384))"
    and "K \<equiv> m3_key C s A"
  defines "proof1 \<equiv> receiver_srp_client_proof C (ss_salt s) (of_be A) (of_be (ss_server_pub s)) K"
  assumes "hash_ok C" "rp_setup r = Some s" "ss_shared_key s = None" "length A = 384" "u \<noteq> 0"
  shows "r_pair_setup C salt b (encode_ordered [tlv_item TLV_STATE [3], tlv_item TLV_PUBLIC_KEY A,
      tlv_item TLV_PROOF proof1]) r =
    (encode_ordered [tlv_item TLV_STATE [4], tlv_item TLV_PROOF (sha512 C (A @ proof1 @ K))],
     r\<lparr>rp_setup := Some (s\<lparr>ss_shared_key := Some K\<rparr>)\<rparr>)"
proof -
  have len: "length proof1 = 64"
    using assms(4) by (simp add: proof1_def receiver_srp_client_proof_def Let_def hash_okD)
  have big: "length (encode_ordered [tlv_item TLV_STATE [3], tlv_item TLV_PUBLIC_KEY A,
      tlv_item TLV_PROOF proof1]) \<noteq> 32"
    by (rule long_body) (simp add: assms(7))
  have "verify_srp_proof C (decode (encode_ordered [tlv_item TLV_STATE [3], tlv_item TLV_PUBLIC_KEY A,
      tlv_item TLV_PROOF proof1])) r =
    (encode_ordered [tlv_item TLV_STATE [4], tlv_item TLV_PROOF (sha512 C (A @ proof1 @ K))],
     r\<lparr>rp_setup := Some (s\<lparr>ss_shared_key := Some K\<rparr>)\<rparr>)"
    using assms(5-8) len
    by (simp add: verify_srp_proof_def tlv_lookup Let_def u_def flip: m3_key_def K_def proof1_def)
  with big show ?thesis
    by (simp add: r_pair_setup_def tlv_lookup Let_def)
qed

text \<open>A controller's M5 under the key \<open>K\<close>, with anything after its three fields.\<close>

definition controller_m5 :: "crypto \<Rightarrow> bytes \<Rightarrow> bytes \<Rightarrow> bytes \<Rightarrow> Tlv8Item list \<Rightarrow> bytes" where
  "controller_m5 C K seed ident extra =
    (let sign_key = r_hkdf C K ''Pair-Setup-Controller-Sign-Salt'' ''Pair-Setup-Controller-Sign-Info'';
         session_key = r_hkdf C K ''Pair-Setup-Encrypt-Salt'' ''Pair-Setup-Encrypt-Info'';
         sig = ed_sign C seed (sign_key @ ident @ ed_public C seed)
     in encode_ordered [tlv_item TLV_ENCRYPTED_DATA
          (aead_seal C session_key (label_nonce ''PS-Msg05'') []
             (encode_ordered ([tlv_item TLV_IDENTIFIER ident, tlv_item TLV_PUBLIC_KEY (ed_public C seed),
                tlv_item TLV_SIGNATURE sig] @ extra))),
        tlv_item TLV_STATE [5]])"

definition enrolled_state :: "ReceiverPairing \<Rightarrow> bool \<Rightarrow> bytes \<Rightarrow> bytes \<Rightarrow> ReceiverPairing" where
  "enrolled_state r tr ident k =
    (if tr then r\<lparr>transient := (transient r)(from_utf8_lossy ident \<mapsto> k), rp_setup := None\<rparr>
     else r\<lparr>controllers := (controllers r)(from_utf8_lossy ident \<mapsto> k), rp_setup := None\<rparr>)"

lemma lookup_prefix:
  assumes "\<forall>i \<in> set extra. tag i \<noteq> t" "tag x = t" "t \<notin> tag ` set xs" "t \<notin> tag ` set ys"
  shows "decode (encode_ordered (xs @ x # ys @ extra)) t = Some (value x)"
proof -
  have "t \<notin> tag ` set extra" using assms(1) by auto
  then have "t \<notin> tag ` set (ys @ extra)" using assms(4) by auto
  then have "decode (encode_ordered (x # ys @ extra)) t = Some (value x)"
    using assms(2) by (simp add: tlv_lookup)
  moreover have "decode (encode_ordered (xs @ zs)) t = decode (encode_ordered zs) t" for zs
    using assms(3) by (induction xs) (auto simp: tlv_lookup)
  ultimately show ?thesis by simp
qed

lemma receiver_m5:
  assumes ok: "aead_ok C" "sign_ok C"
    and s: "rp_setup r = Some s" "ss_shared_key s = Some K"
    and ident: "ident \<noteq> []" and extra: "\<forall>i \<in> set extra. tag i = TLV_ACL"
  shows "\<exists>m6. r_pair_setup C salt b (controller_m5 C K seed ident extra) r =
      (encode_ordered [tlv_item TLV_STATE [6], tlv_item TLV_ENCRYPTED_DATA m6],
       enrolled_state r (ss_transient s) ident (ed_public C seed))"
proof -
  define sign_key where
    "sign_key = r_hkdf C K ''Pair-Setup-Controller-Sign-Salt'' ''Pair-Setup-Controller-Sign-Info''"
  define session_key where
    "session_key = r_hkdf C K ''Pair-Setup-Encrypt-Salt'' ''Pair-Setup-Encrypt-Info''"
  define sig where "sig = ed_sign C seed (sign_key @ ident @ ed_public C seed)"
  define plain where "plain = encode_ordered ([tlv_item TLV_IDENTIFIER ident,
      tlv_item TLV_PUBLIC_KEY (ed_public C seed), tlv_item TLV_SIGNATURE sig] @ extra)"
  define sealed where "sealed = aead_seal C session_key (label_nonce ''PS-Msg05'') [] plain"
  define msg where "msg = encode_ordered [tlv_item TLV_ENCRYPTED_DATA sealed, tlv_item TLV_STATE [5]]"
  have msg: "controller_m5 C K seed ident extra = msg"
    by (simp add: controller_m5_def msg_def sealed_def plain_def sig_def session_key_def sign_key_def Let_def)
  have ex: "\<forall>i \<in> set extra. tag i \<noteq> TLV_IDENTIFIER" "\<forall>i \<in> set extra. tag i \<noteq> TLV_PUBLIC_KEY"
    "\<forall>i \<in> set extra. tag i \<noteq> TLV_SIGNATURE"
    using extra by simp_all
  have fields: "decode plain TLV_IDENTIFIER = Some ident" "decode plain TLV_PUBLIC_KEY = Some (ed_public C seed)"
    "decode plain TLV_SIGNATURE = Some sig"
    using lookup_prefix [OF ex(1), of "tlv_item TLV_IDENTIFIER ident" "[]"
        "[tlv_item TLV_PUBLIC_KEY (ed_public C seed), tlv_item TLV_SIGNATURE sig]"]
      lookup_prefix [OF ex(2), of "tlv_item TLV_PUBLIC_KEY (ed_public C seed)" "[tlv_item TLV_IDENTIFIER ident]"
        "[tlv_item TLV_SIGNATURE sig]"]
      lookup_prefix [OF ex(3), of "tlv_item TLV_SIGNATURE sig"
        "[tlv_item TLV_IDENTIFIER ident, tlv_item TLV_PUBLIC_KEY (ed_public C seed)]" "[]"]
    by (simp_all add: plain_def)
  have idn: "m5_identity plain = Some (ident, ed_public C seed, sig)"
    using ident fields ok(2) by (simp add: m5_identity_def Let_def sig_def sign_okD)
  have len: "32 + length plain \<le> 16 + length plain + 16" "32 \<le> length plain"
    using length_encode_ordered [of "[tlv_item TLV_IDENTIFIER ident,
      tlv_item TLV_PUBLIC_KEY (ed_public C seed), tlv_item TLV_SIGNATURE sig] @ extra"] ok(2)
    by (simp_all add: plain_def sign_okD)
  have big: "length msg \<noteq> 32"
    unfolding msg_def using len ok(1) by (intro long_body) (simp add: sealed_def aead_okD)
  have sl: "sealed_field (decode msg) = Some sealed"
    using ok(1) by (simp add: sealed_field_def msg_def tlv_lookup) (simp add: sealed_def aead_okD)
  have "finish_srp_setup C (decode msg) r =
      (setup_m6 C (if ss_transient s then r\<lparr>transient := (transient r)(from_utf8_lossy ident \<mapsto> ed_public C seed)\<rparr>
        else r\<lparr>controllers := (controllers r)(from_utf8_lossy ident \<mapsto> ed_public C seed)\<rparr>) K session_key,
       enrolled_state r (ss_transient s) ident (ed_public C seed))"
    using s sl idn ok
    by (simp add: finish_srp_setup_def Let_def sealed_def aead_okD sign_okD sig_def sign_key_def
        session_key_def enrolled_state_def)
  with big show ?thesis
    unfolding msg by (simp add: r_pair_setup_def Let_def msg_def tlv_lookup setup_m6_def) blast
qed

lemma receiver_v1:
  assumes "length pub = 32"
  shows "r_pair_verify C priv (encode_ordered [tlv_item TLV_STATE [1], tlv_item TLV_PUBLIC_KEY pub]) r =
    (let shared = dh_shared C priv pub;
         vk = r_hkdf C shared ''Pair-Verify-Encrypt-Salt'' ''Pair-Verify-Encrypt-Info'';
         sig = ed_sign C (rp_signing_key r) (dh_base C priv @ rp_identifier r @ pub);
         sealed = aead_seal C vk (label_nonce ''PV-Msg02'') [] (encode_ordered
           [tlv_item TLV_IDENTIFIER (rp_identifier r), tlv_item TLV_SIGNATURE sig])
     in ((encode_ordered [tlv_item TLV_STATE [2], tlv_item TLV_PUBLIC_KEY (dh_base C priv),
            tlv_item TLV_ENCRYPTED_DATA sealed], None),
         (reset_verify r)\<lparr>verify := Some \<lparr>hv_client_public = pub, hv_server_public = dh_base C priv,
            hv_shared_secret = shared, hv_verify_key = vk\<rparr>\<rparr>))"
  using assms by (simp add: r_pair_verify_def tlv_lookup begin_hap_verify_def Let_def)

lemma receiver_v3:
  fixes C :: crypto and seed ident :: bytes and v :: HapVerifyState
  defines "sub \<equiv> encode_ordered [tlv_item TLV_IDENTIFIER ident,
     tlv_item TLV_SIGNATURE (ed_sign C seed (hv_client_public v @ ident @ hv_server_public v))]"
  assumes ok: "aead_ok C" "sign_ok C" and v: "verify r = Some v" and ident: "ident \<noteq> []"
    and key: "controller_key r ident = Some (ed_public C seed)"
  shows "r_pair_verify C priv (encode_ordered [tlv_item TLV_STATE [3], tlv_item TLV_ENCRYPTED_DATA
       (aead_seal C (hv_verify_key v) (label_nonce ''PV-Msg03'') [] sub)]) r =
    ((encode_ordered [tlv_item TLV_STATE [4]], Some (control_keys C (hv_shared_secret v))),
     r\<lparr>session := control_keys C (hv_shared_secret v), verified := True, verify := None\<rparr>)"
proof -
  have idn: "m3_identity sub =
      Some (ident, ed_sign C seed (hv_client_public v @ ident @ hv_server_public v))"
    using ident ok(2) by (simp add: m3_identity_def sub_def Let_def tlv_lookup sign_okD)
  show ?thesis
    using v key idn ok
    by (simp add: r_pair_verify_def tlv_lookup finish_hap_verify_def sealed_field_def aead_okD sign_okD
        is_verified_def session_keys_def Let_def)
qed

subsection \<open>The sender's run\<close>

lemma setup_m5_controller:
  assumes "ed25519_public (keys s) = ed_public C seed"
  shows "setup_m5 C s seed k = controller_m5 C k seed (s2b (pairing_id s))
    (if effective_pair_type s = PAIRING_TYPE_SCREEN_CAPTURE then [tlv_item TLV_ACL SCREEN_CAPTURE_ACL] else [])"
  using assms by (simp add: setup_m5_def controller_m5_def Let_def hkdf_agree label_nonces)

text \<open>The values both sides compute in pair-setup.\<close>

definition srp_A :: "bytes \<Rightarrow> nat" where
  "srp_A a_bytes = srp_client_public (private_exponent a_bytes)"

definition srp_B :: "crypto \<Rightarrow> bytes \<Rightarrow> string \<Rightarrow> bytes \<Rightarrow> nat" where
  "srp_B C salt p b = srp_server_public C (srp_verifier C salt ''Pair-Setup'' p) b"

definition srp_K :: "crypto \<Rightarrow> bytes \<Rightarrow> string \<Rightarrow> bytes \<Rightarrow> bytes \<Rightarrow> bytes" where
  "srp_K C salt p b a_bytes = srp_session_key C (srp_server_shared (srp_A a_bytes)
     (srp_verifier C salt ''Pair-Setup'' p) (srp_u C (nat_be (srp_A a_bytes)) (nat_be (srp_B C salt p b))) b)"

text \<open>The draws for which an exchange can succeed: a public value of full length (the receiver's proof
  hashes the padded, the sender's the unpadded form), non-zero \<open>B\<close> and \<open>u\<close>.\<close>

definition srp_draw_ok :: "crypto \<Rightarrow> bytes \<Rightarrow> string \<Rightarrow> bytes \<Rightarrow> bytes \<Rightarrow> bool" where
  "srp_draw_ok C salt p b a_bytes \<longleftrightarrow> 256 ^ 383 \<le> srp_A a_bytes \<and> srp_B C salt p b \<noteq> 0 \<and>
     srp_u C (nat_be (srp_A a_bytes)) (nat_be (srp_B C salt p b)) \<noteq> 0"

text \<open>The draws with which it fails by the two sides' own doing: the value is shorter, and the hash tells the padded from
  the bare form. The receiver proves itself with a hash of the public value as it came, padded to 384 bytes; the sender
  expects the hash of the bare value.\<close>

definition srp_M1 :: "crypto \<Rightarrow> bytes \<Rightarrow> string \<Rightarrow> bytes \<Rightarrow> bytes \<Rightarrow> bytes" where
  "srp_M1 C salt p b a_bytes =
    receiver_srp_client_proof C salt (srp_A a_bytes) (srp_B C salt p b) (srp_K C salt p b a_bytes)"

definition server_proof_padded :: "crypto \<Rightarrow> bytes \<Rightarrow> string \<Rightarrow> bytes \<Rightarrow> bytes \<Rightarrow> bytes" where
  "server_proof_padded C salt p b a_bytes =
    sha512 C (pad_to (nat_be (srp_A a_bytes)) 384 @ srp_M1 C salt p b a_bytes @ srp_K C salt p b a_bytes)"

definition server_proof_bare :: "crypto \<Rightarrow> bytes \<Rightarrow> string \<Rightarrow> bytes \<Rightarrow> bytes \<Rightarrow> bytes" where
  "server_proof_bare C salt p b a_bytes =
    sha512 C (nat_be (srp_A a_bytes) @ srp_M1 C salt p b a_bytes @ srp_K C salt p b a_bytes)"

definition srp_draw_short :: "crypto \<Rightarrow> bytes \<Rightarrow> string \<Rightarrow> bytes \<Rightarrow> bytes \<Rightarrow> bool" where
  "srp_draw_short C salt p b a_bytes \<longleftrightarrow> srp_A a_bytes < 256 ^ 383 \<and> srp_B C salt p b \<noteq> 0 \<and>
     srp_u C (nat_be (srp_A a_bytes)) (nat_be (srp_B C salt p b)) \<noteq> 0 \<and>
     server_proof_padded C salt p b a_bytes \<noteq> server_proof_bare C salt p b a_bytes"

lemma srp_AB_less: "srp_A a_bytes < srp_n" "srp_B C salt p b < srp_n"
  by (simp_all add: srp_A_def srp_B_def srp_client_public_def modpow_less srp_server_public_def)

lemma client_proof_agree:
  "srp_client_proof C (s2b ''Pair-Setup'') salt (nat_be A) (nat_be B) k = receiver_srp_client_proof C salt A B k"
  by (simp add: srp_client_proof_def receiver_srp_client_proof_def Let_def)

lemma client_K:
  "srp_session_key C (srp_shared_secret C (pad_to (nat_be (srp_B C salt p b)) 384) (private_exponent a_bytes)
     (srp_x C (s2b ''Pair-Setup'') (s2b p) salt) (srp_u C (nat_be (srp_A a_bytes)) (nat_be (srp_B C salt p b))))
   = srp_K C salt p b a_bytes"
proof -
  have "srp_shared_secret C (pad_to xs 384) a x u = srp_shared_secret C xs a x u" for xs a x u
    by (simp add: srp_shared_secret_def)
  then show ?thesis
    unfolding srp_K_def srp_A_def srp_B_def using srp_agree by simp
qed

text \<open>The receiver's state after its first answer.\<close>

definition srp_state :: "crypto \<Rightarrow> bytes \<Rightarrow> string \<Rightarrow> bytes \<Rightarrow> SrpSetupState" where
  "srp_state C salt p b = \<lparr>ss_salt = salt, ss_b = b, ss_v = nat_be (srp_verifier C salt ''Pair-Setup'' p),
     ss_server_pub = nat_be (srp_B C salt p b), ss_shared_key = None, ss_transient = False\<rparr>"

lemma srp_AB_384: "length (nat_be (srp_A a_bytes)) \<le> 384" "srp_A a_bytes < 256 ^ 384" "srp_B C salt p b < 256 ^ 384"
proof -
  show lt: "srp_A a_bytes < 256 ^ 384" "srp_B C salt p b < 256 ^ 384"
    using srp_AB_less srp_n_bounds(2) by (meson less_trans)+
  from lt(1) show "length (nat_be (srp_A a_bytes)) \<le> 384" by (rule length_nat_be_le) simp
qed

lemma receiver_m2:
  assumes "username r = ''Pair-Setup''"
  shows "r_pair_setup C salt b (encode_ordered [tlv_item TLV_METHOD [0], tlv_item TLV_STATE [1]]) r =
      (encode_ordered [tlv_item TLV_STATE [2], tlv_item TLV_SALT salt,
         tlv_item TLV_PUBLIC_KEY (pad_to (nat_be (srp_B C salt (pin r) b)) 384)],
       (reset r)\<lparr>rp_setup := Some (srp_state C salt (pin r) b)\<rparr>)"
  unfolding receiver_m1 by (simp add: Let_def assms srp_B_def srp_state_def)

lemma receiver_m4:
  fixes C :: crypto and salt b :: bytes and p :: string
  defines "st \<equiv> srp_state C salt p b"
  assumes "hash_ok C" "rp_setup r = Some st" "srp_u C (nat_be (srp_A a_bytes)) (nat_be (srp_B C salt p b)) \<noteq> 0"
  shows "r_pair_setup C salt b (encode_ordered [tlv_item TLV_STATE [3],
        tlv_item TLV_PUBLIC_KEY (pad_to (nat_be (srp_A a_bytes)) 384), tlv_item TLV_PROOF (srp_M1 C salt p b a_bytes)]) r =
      (encode_ordered [tlv_item TLV_STATE [4], tlv_item TLV_PROOF (server_proof_padded C salt p b a_bytes)],
       r\<lparr>rp_setup := Some (st\<lparr>ss_shared_key := Some (srp_K C salt p b a_bytes)\<rparr>)\<rparr>)"
proof -
  let ?A = "pad_to (nat_be (srp_A a_bytes)) 384"
  have st: "ss_shared_key st = None" "ss_salt st = salt" "ss_server_pub st = nat_be (srp_B C salt p b)"
    "ss_b st = b" "of_be (ss_v st) = srp_verifier C salt ''Pair-Setup'' p"
    by (simp_all add: st_def srp_state_def)
  have len: "length ?A = 384" by (rule length_pad_to [OF srp_AB_384(1)])
  have u: "of_be (sha512 C (pad_to ?A 384 @ pad_to (ss_server_pub st) 384)) =
      srp_u C (nat_be (srp_A a_bytes)) (nat_be (srp_B C salt p b))"
    unfolding pad_to_same [OF len] by (simp add: srp_u_def st)
  have K: "m3_key C st ?A = srp_K C salt p b a_bytes"
    unfolding m3_key_def u by (simp add: srp_K_def srp_session_key_def st)
  have "of_be (sha512 C (pad_to ?A 384 @ pad_to (ss_server_pub st) 384)) \<noteq> 0" unfolding u by (rule assms(4))
  from receiver_m3 [OF assms(2,3) st(1) len this, of salt b] show ?thesis
    unfolding K st(2,3) of_be_pad_to of_be_nat_be srp_M1_def [symmetric] server_proof_padded_def .
qed

text \<open>The sender's side up to the receiver's proof.\<close>

lemma complete_after_m4:
  assumes "srp_B C salt p b \<noteq> 0" "hash_ok C" "rp_setup r = Some (srp_state C salt p b)"
    and "srp_u C (nat_be (srp_A a_bytes)) (nat_be (srp_B C salt p b)) \<noteq> 0"
  shows "complete_srp_exchange C host (pairing_transport C salt b priv) a_bytes s r p salt (pad_to (nat_be (srp_B C salt p b)) 384) =
    (if server_proof_padded C salt p b a_bytes \<noteq> server_proof_bare C salt p b a_bytes
     then (Inl (protocol ''server proof mismatch''), s,
       r\<lparr>rp_setup := Some (srp_state C salt p b\<lparr>ss_shared_key := Some (srp_K C salt p b a_bytes)\<rparr>)\<rparr>)
     else check (signing_key s) s (r\<lparr>rp_setup := Some (srp_state C salt p b\<lparr>ss_shared_key := Some (srp_K C salt p b a_bytes)\<rparr>)\<rparr>) (\<lambda>seed.
       exchange (pairing_transport C salt b priv)
         (post ''/pair-setup'' (setup_m5 C s seed (srp_K C salt p b a_bytes)) (pair_headers host s)) s
         (r\<lparr>rp_setup := Some (srp_state C salt p b\<lparr>ss_shared_key := Some (srp_K C salt p b a_bytes)\<rparr>)\<rparr>) (\<lambda>m6_bytes w.
       check (tlv_error ''pair-setup M6'' (decode m6_bytes)) s w (\<lambda>_.
         (Inr (), s\<lparr>keys := (keys s)\<lparr>shared_secret := srp_K C salt p b a_bytes\<rparr>\<rparr>, w)))))"
proof -
  define B where "B = srp_B C salt p b"
  define u where "u = srp_u C (nat_be (srp_A a_bytes)) (nat_be B)"
  define K where "K = srp_K C salt p b a_bytes"
  have B: "B \<noteq> 0" "B < srp_n" using assms(1) srp_AB_less(2) by (simp_all add: B_def)
  have A: "srp_client_public (private_exponent a_bytes) = srp_A a_bytes" by (simp add: srp_A_def)
  have k: "srp_session_key C (srp_shared_secret C (pad_to (nat_be B) 384) (private_exponent a_bytes)
      (srp_x C (s2b ''Pair-Setup'') (s2b p) salt) u) = K"
    using client_K [of C salt p b a_bytes] by (simp add: B_def u_def K_def)
  have m1: "srp_client_proof C (s2b ''Pair-Setup'') salt (nat_be (srp_A a_bytes)) (nat_be B) K = srp_M1 C salt p b a_bytes"
    by (simp add: client_proof_agree srp_M1_def B_def K_def)
  have bare: "srp_server_proof C (nat_be (srp_A a_bytes)) (srp_M1 C salt p b a_bytes) K = server_proof_bare C salt p b a_bytes"
    by (simp add: srp_server_proof_def server_proof_bare_def K_def)
  note m4 = receiver_m4 [OF assms(2-4)]
  show ?thesis
    unfolding B_def [symmetric] K_def [symmetric] complete_srp_exchange_def Let_def A of_be_pad_to of_be_nat_be
      u_def [symmetric] k m1 bare exchange_setup m4 fst_conv snd_conv
    using B by (simp add: tlv_error_def tlv_lookup K_def)
qed

lemma setup_until_m4:
  assumes "username r = ''Pair-Setup''"
  shows "pair_setup C host (pairing_transport C salt b priv) a_bytes (pin r) s r =
    complete_srp_exchange C host (pairing_transport C salt b priv) a_bytes s
      ((reset r)\<lparr>rp_setup := Some (srp_state C salt (pin r) b)\<rparr>) (pin r) salt (pad_to (nat_be (srp_B C salt (pin r) b)) 384)"
  unfolding pair_setup_def setup_after_m2_def exchange_setup receiver_m2 [OF assms] fst_conv snd_conv Let_def
  by (simp add: tlv_error_def tlv_lookup)

lemma client_setup_completes:
  fixes C :: crypto and salt b priv a_bytes :: bytes and r :: ReceiverPairing and s :: PairingSession
  defines "K \<equiv> srp_K C salt (pin r) b a_bytes"
  assumes ok: "aead_ok C" "sign_ok C" "hash_ok C"
    and r: "username r = ''Pair-Setup''"
    and s: "length (ed25519_seed (keys s)) = 32" "ed25519_public (keys s) = ed_public C (ed25519_seed (keys s))"
      "pairing_id s \<noteq> []"
    and draw: "srp_draw_ok C salt (pin r) b a_bytes"
  shows "pair_setup C host (pairing_transport C salt b priv) a_bytes (pin r) s r =
    (Inr (), s\<lparr>keys := (keys s)\<lparr>shared_secret := K\<rparr>\<rparr>,
     (reset r)\<lparr>controllers := (controllers r)(from_utf8_lossy (s2b (pairing_id s)) \<mapsto> ed25519_public (keys s))\<rparr>)"
proof -
  let ?st = "srp_state C salt (pin r) b"
  define r1 where "r1 = (reset r)\<lparr>rp_setup := Some ?st\<rparr>"
  define r2 where "r2 = r1\<lparr>rp_setup := Some (?st\<lparr>ss_shared_key := Some K\<rparr>)\<rparr>"
  have B: "srp_B C salt (pin r) b \<noteq> 0" and u: "srp_u C (nat_be (srp_A a_bytes)) (nat_be (srp_B C salt (pin r) b)) \<noteq> 0"
    and A: "length (nat_be (srp_A a_bytes)) = 384"
    using draw length_nat_be_384 [OF _ srp_AB_384(2)] by (simp_all add: srp_draw_ok_def)
  have proofs: "server_proof_padded C salt (pin r) b a_bytes = server_proof_bare C salt (pin r) b a_bytes"
    by (simp add: server_proof_padded_def server_proof_bare_def pad_to_same A)
  have acl: "\<forall>i \<in> set (if effective_pair_type s = PAIRING_TYPE_SCREEN_CAPTURE
      then [tlv_item TLV_ACL SCREEN_CAPTURE_ACL] else []). tag i = TLV_ACL"
    by simp
  have st2: "rp_setup r2 = Some (?st\<lparr>ss_shared_key := Some K\<rparr>)" "ss_shared_key (?st\<lparr>ss_shared_key := Some K\<rparr>) = Some K"
    "ss_transient (?st\<lparr>ss_shared_key := Some K\<rparr>) = False" "s2b (pairing_id s) \<noteq> []"
    using s(3) by (simp_all add: r2_def srp_state_def)
  obtain m6 where m6: "r_pair_setup C salt b (setup_m5 C s (ed25519_seed (keys s)) K) r2 =
      (encode_ordered [tlv_item TLV_STATE [6], tlv_item TLV_ENCRYPTED_DATA m6],
       enrolled_state r2 False (s2b (pairing_id s)) (ed_public C (ed25519_seed (keys s))))"
    using receiver_m5 [OF ok(1,2) st2(1,2,4) acl] unfolding setup_m5_controller [OF s(2)] st2(3) by blast
  have final: "enrolled_state r2 False ident k = (reset r)\<lparr>controllers := (controllers r)(from_utf8_lossy ident \<mapsto> k)\<rparr>"
    for ident k
    by (simp add: enrolled_state_def r2_def r1_def reset_def reset_verify_def)
  have sk: "signing_key s = Inr (ed25519_seed (keys s))" using s(1) by (simp add: signing_key_def)
  have "rp_setup r1 = Some ?st" by (simp add: r1_def)
  from complete_after_m4 [OF B ok(3) this u, of host priv s]
  have complete: "complete_srp_exchange C host (pairing_transport C salt b priv) a_bytes s r1 (pin r) salt
      (pad_to (nat_be (srp_B C salt (pin r) b)) 384) =
    (Inr (), s\<lparr>keys := (keys s)\<lparr>shared_secret := K\<rparr>\<rparr>,
       enrolled_state r2 False (s2b (pairing_id s)) (ed_public C (ed25519_seed (keys s))))"
    by (simp add: proofs sk exchange_setup m6 tlv_error_def tlv_lookup flip: K_def r2_def)
  show ?thesis
    unfolding setup_until_m4 [OF r] r1_def [symmetric] complete final by (simp add: s(2))
qed

text \<open>A shorter public value ends the exchange: the receiver has accepted the PIN, the sender rejects the receiver.\<close>

lemma client_setup_mismatch:
  assumes "hash_ok C" "username r = ''Pair-Setup''" "srp_B C salt (pin r) b \<noteq> 0"
    and "srp_u C (nat_be (srp_A a_bytes)) (nat_be (srp_B C salt (pin r) b)) \<noteq> 0"
    and "server_proof_padded C salt (pin r) b a_bytes \<noteq> server_proof_bare C salt (pin r) b a_bytes"
  shows "\<exists>st. pair_setup C host (pairing_transport C salt b priv) a_bytes (pin r) s r =
    (Inl (protocol ''server proof mismatch''), s, (reset r)\<lparr>rp_setup := Some st\<rparr>)"
proof -
  let ?r1 = "(reset r)\<lparr>rp_setup := Some (srp_state C salt (pin r) b)\<rparr>"
  have "rp_setup ?r1 = Some (srp_state C salt (pin r) b)" by simp
  from complete_after_m4 [OF assms(3,1) this assms(4), of host priv s] assms(5) show ?thesis
    unfolding setup_until_m4 [OF assms(2)] by auto
qed

lemma client_verify_completes:
  fixes C :: crypto and priv cpriv :: bytes
  defines "shared \<equiv> dh_shared C cpriv (dh_base C priv)"
  assumes ok: "aead_ok C" "sign_ok C" "dh_ok C"
    and s: "length (ed25519_seed (keys s)) = 32" "pairing_id s \<noteq> []"
    and key: "controller_key r (s2b (pairing_id s)) = Some (ed_public C (ed25519_seed (keys s)))"
    and len: "length priv = 32" "length cpriv = 32"
  shows "pair_verify C host (pairing_transport C salt b priv) cpriv s r =
    (Inr (), enter_encrypted C shared s,
     (reset_verify r)\<lparr>session := control_keys C shared, verified := True\<rparr>)"
proof -
  define seed where "seed = ed25519_seed (keys s)"
  define cpub spub where "cpub = dh_base C cpriv" and "spub = dh_base C priv"
  have lens: "length cpub = 32" "length spub = 32"
    using ok(3) len by (simp_all add: cpub_def spub_def dh_okD)
  have shared: "dh_shared C priv cpub = shared"
    using ok(3) len by (simp add: cpub_def shared_def dh_okD)
  define vk where "vk = r_hkdf C shared ''Pair-Verify-Encrypt-Salt'' ''Pair-Verify-Encrypt-Info''"
  define v where "v = \<lparr>hv_client_public = cpub, hv_server_public = spub, hv_shared_secret = shared,
      hv_verify_key = vk\<rparr>"
  define r1 where "r1 = (reset_verify r)\<lparr>verify := Some v\<rparr>"
  obtain plain where v2: "r_pair_verify C priv (encode_ordered [tlv_item TLV_STATE [1], tlv_item TLV_PUBLIC_KEY cpub]) r =
     ((encode_ordered [tlv_item TLV_STATE [2], tlv_item TLV_PUBLIC_KEY spub,
         tlv_item TLV_ENCRYPTED_DATA (aead_seal C vk (label_nonce ''PV-Msg02'') [] plain)], None), r1)"
    unfolding receiver_v1 [OF lens(1)] by (simp add: Let_def shared spub_def vk_def v_def r1_def)
  have vr1: "verify r1 = Some v" by (simp add: r1_def)
  have key1: "controller_key r1 (s2b (pairing_id s)) = Some (ed_public C seed)"
    using key by (simp add: controller_key_def r1_def seed_def split: option.splits)
  have v3: "verify_v3 C s seed vk cpub spub = encode_ordered [tlv_item TLV_STATE [3], tlv_item TLV_ENCRYPTED_DATA
      (aead_seal C (hv_verify_key v) (label_nonce ''PV-Msg03'') [] (encode_ordered
        [tlv_item TLV_IDENTIFIER (s2b (pairing_id s)), tlv_item TLV_SIGNATURE
           (ed_sign C seed (hv_client_public v @ s2b (pairing_id s) @ hv_server_public v))]))]"
    by (simp add: verify_v3_def v_def label_nonces Let_def)
  have v4: "r_pair_verify C priv (verify_v3 C s seed vk cpub spub) r1 =
      ((encode_ordered [tlv_item TLV_STATE [4]], Some (control_keys C shared)),
       r1\<lparr>session := control_keys C shared, verified := True, verify := None\<rparr>)"
    unfolding v3 using receiver_v3 [OF ok(1,2) vr1 _ key1] s(2) by (simp add: v_def)
  have final: "r1\<lparr>session := control_keys C shared, verified := True, verify := None\<rparr> =
      (reset_verify r)\<lparr>session := control_keys C shared, verified := True\<rparr>"
    by (simp add: r1_def reset_verify_def)
  have sk: "signing_key s = Inr seed" using s(1) by (simp add: signing_key_def seed_def)
  have no_error: "tlv_error what (decode (encode_ordered [tlv_item TLV_STATE [2], tlv_item TLV_PUBLIC_KEY x,
      tlv_item TLV_ENCRYPTED_DATA y])) = Inr ()" "tlv_error what (decode (encode_ordered [tlv_item TLV_STATE [4]])) = Inr ()"
    for what x y
    by (simp_all add: tlv_error_def tlv_lookup)
  have sh: "dh_shared C cpriv spub = shared" by (simp add: shared_def spub_def)
  show ?thesis
    unfolding pair_verify_def Let_def cpub_def [symmetric] exchange_verify v2 fst_conv snd_conv
    using lens
    by (simp add: no_error tlv_lookup sh hkdf_agree label_nonces aead_okD [OF ok(1)] sk exchange_verify
        v4 final flip: vk_def)
qed

subsection \<open>Properties\<close>

lemma pair_with_pin_completes:
  fixes C :: crypto and salt b priv :: bytes and rnd :: pairing_rnd and host :: string
    and s s' :: PairingSession and r r' :: ReceiverPairing and res :: "unit res"
  assumes "aead_ok C" "sign_ok C" "dh_ok C" "hash_ok C"
    and "username r = ''Pair-Setup''" "transient r = Map.empty" "pairing_id s \<noteq> []"
    and "length (rnd_seed rnd) = 32" "length (rnd_dh rnd) = 32" "length priv = 32"
    and "srp_draw_ok C salt (pin r) b (rnd_a rnd)"
    and run: "pair_with_pin C host (pairing_transport C salt b priv) rnd (pin r) s r = (res, s', r')"
  shows "res = Inr () \<and> encrypted s' \<and> verified r'
    \<and> enc_write_key s' = sk_read_key (session r') \<and> enc_read_key s' = sk_write_key (session r')
    \<and> shared_secret (keys s') = sk_shared_secret (session r')
    \<and> controllers r' (from_utf8_lossy (s2b (pairing_id s))) = Some (ed_public C (rnd_seed rnd))
    \<and> pairing_id s' = pairing_id s \<and> ed25519_seed (keys s') = rnd_seed rnd \<and> ed25519_public (keys s') = ed_public C (rnd_seed rnd)"
proof -
  define s1 where "s1 = generate_ed25519 C (rnd_seed rnd) (s\<lparr>pair_type := pin_pairing_type s\<rparr>)"
  have k: "ed25519_seed (keys s1) = rnd_seed rnd" "ed25519_public (keys s1) = ed_public C (rnd_seed rnd)"
    "pairing_id s1 = pairing_id s"
    by (simp_all add: s1_def generate_ed25519_def)
  define K where "K = srp_K C salt (pin r) b (rnd_a rnd)"
  define s2 where "s2 = s1\<lparr>keys := (keys s1)\<lparr>shared_secret := K\<rparr>\<rparr>"
  define r2 where "r2 = (reset r)\<lparr>controllers :=
      (controllers r)(from_utf8_lossy (s2b (pairing_id s)) \<mapsto> ed_public C (rnd_seed rnd))\<rparr>"
  have "pair_setup C host (pairing_transport C salt b priv) (rnd_a rnd) (pin r) s1 r = (Inr (), s2, r2)"
    using client_setup_completes [OF assms(1,2,4,5), of s1 salt b "rnd_a rnd" host priv] assms(7-11)
    by (simp add: k s2_def r2_def K_def)
  moreover have "controller_key r2 (s2b (pairing_id s2)) = Some (ed_public C (ed25519_seed (keys s2)))"
    by (simp add: controller_key_def r2_def assms(6) s2_def k)
  then have "pair_verify C host (pairing_transport C salt b priv) (rnd_dh rnd) s2 r2 =
    (Inr (), enter_encrypted C (dh_shared C (rnd_dh rnd) (dh_base C priv)) s2,
     (reset_verify r2)\<lparr>session := control_keys C (dh_shared C (rnd_dh rnd) (dh_base C priv)), verified := True\<rparr>)"
    using assms(7-10) by (intro client_verify_completes [OF assms(1-3)]) (simp_all add: s2_def k)
  ultimately have "(res, s', r') = (Inr (), enter_encrypted C (dh_shared C (rnd_dh rnd) (dh_base C priv)) s2,
     (reset_verify r2)\<lparr>session := control_keys C (dh_shared C (rnd_dh rnd) (dh_base C priv)), verified := True\<rparr>)"
    using run by (simp add: pair_with_pin_def and_then_def flip: s1_def)
  then show ?thesis
    by (simp add: enter_encrypted_def control_keys_def hkdf_agree r2_def s2_def k Let_def)
qed

lemma pair_with_pin_mismatch:
  assumes "hash_ok C" "username r = ''Pair-Setup''" "srp_draw_short C salt (pin r) b (rnd_a rnd)"
    and "pair_with_pin C host (pairing_transport C salt b priv) rnd (pin r) s r = (res, s', r')"
  shows "res = Inl (protocol ''server proof mismatch'') \<and> encrypted s' = encrypted s \<and> \<not> verified r' \<and> controllers r' = controllers r"
proof -
  define s1 where "s1 = generate_ed25519 C (rnd_seed rnd) (s\<lparr>pair_type := pin_pairing_type s\<rparr>)"
  have "encrypted s1 = encrypted s" by (simp add: s1_def generate_ed25519_def)
  with client_setup_mismatch [of C r salt b "rnd_a rnd" host priv s1] assms show ?thesis
    by (auto simp: srp_draw_short_def pair_with_pin_def and_then_def reset_def reset_verify_def simp flip: s1_def)
qed

text \<open>C3. What becomes of PIN pairing between a sender that knows the receiver's PIN and the receiver's own code, for every
  identity, salt and private values. When the draw is usable (\<open>srp_draw_ok\<close>: the sender's public value has its
  full length of 384 bytes, and neither \<open>B\<close> nor \<open>u\<close> is zero), pair-setup and pair-verify complete; the receiver ends
  verified, with the sender's long-term key among its controllers, and the channel keys cross over: what one side
  writes with, the other reads with. When the public value is shorter, which is one draw in 256 or so, the right PIN does
  not help: the sender takes the receiver for an impostor and ends with the error of a proof mismatch, no channel is
  encrypted and the receiver registers nothing (\<open>srp_draw_short\<close>, which also says that the hash tells the padded value
  from the bare one).\<close>

theorem pin_pairing_completes:
  fixes C :: crypto and salt b priv :: bytes and rnd :: pairing_rnd and host :: string
    and s s' :: PairingSession and r r' :: ReceiverPairing and res :: "unit res"
  assumes "aead_ok C" "sign_ok C" "dh_ok C" "hash_ok C"
    and "username r = ''Pair-Setup''" "transient r = Map.empty" "pairing_id s \<noteq> []"
    and "length (rnd_seed rnd) = 32" "length (rnd_dh rnd) = 32" "length priv = 32"
    and run: "pair_with_pin C host (pairing_transport C salt b priv) rnd (pin r) s r = (res, s', r')"
  shows "(srp_draw_ok C salt (pin r) b (rnd_a rnd) \<longrightarrow>
      res = Inr () \<and> encrypted s' \<and> verified r'
      \<and> enc_write_key s' = sk_read_key (session r') \<and> enc_read_key s' = sk_write_key (session r')
      \<and> shared_secret (keys s') = sk_shared_secret (session r')
      \<and> controllers r' (from_utf8_lossy (s2b (pairing_id s))) = Some (ed_public C (rnd_seed rnd)))
    \<and> (srp_draw_short C salt (pin r) b (rnd_a rnd) \<longrightarrow>
      res = Inl (protocol ''server proof mismatch'') \<and> encrypted s' = encrypted s \<and> \<not> verified r' \<and> controllers r' = controllers r)"
  using pair_with_pin_completes [OF assms(1-10) _ run] pair_with_pin_mismatch [OF assms(4,5) _ run] by blast

text \<open>Concrete values for the witnesses: every hash is 1, so that the arithmetic stays small; the private
  exponent 1320 gives the public value \<open>5 ^ 1320\<close>, of full length and below the modulus.\<close>

definition wit_crypto :: crypto where
  "wit_crypto = toy_crypto\<lparr>sha512 := (\<lambda>m. replicate 63 0 @ [1])\<rparr>"

definition wit_a :: bytes where
  "wit_a = replicate 30 0 @ [5, 40]"

lemma wit_crypto_ok [simp]: "aead_ok wit_crypto" "sign_ok wit_crypto" "dh_ok wit_crypto" "hash_ok wit_crypto"
  using toy_crypto_ok
  by (simp_all add: wit_crypto_def aead_ok_def sign_ok_def dh_ok_def hash_ok_def)

lemma wit_hash: "of_be (sha512 wit_crypto m) = 1"
  by (simp add: wit_crypto_def of_be_append) (simp add: of_be_def)

lemma wit_power: "256 ^ 383 \<le> (5 :: nat) ^ 1320" "(5 :: nat) ^ 1320 < 2 ^ 3071"
proof -
  have e: "1320 = 28 * 47 + (4 :: nat)" "1320 = 31 * 42 + (18 :: nat)" by simp_all
  have "(256 :: nat) ^ 383 = (2 ^ 8) ^ 383" by simp
  also have "\<dots> = (2 :: nat) ^ (8 * 383)" by (simp only: power_mult)
  also have "8 * 383 = 65 * 47 + (9 :: nat)" by simp
  also have "(2 :: nat) ^ (65 * 47 + 9) = (2 ^ 65) ^ 47 * 2 ^ 9" by (simp only: power_add power_mult)
  also have "\<dots> \<le> (5 ^ 28) ^ 47 * 5 ^ 4" by (intro mult_le_mono power_mono) simp_all
  also have "\<dots> = (5 :: nat) ^ (28 * 47 + 4)" by (simp only: power_add power_mult)
  finally show "256 ^ 383 \<le> (5 :: nat) ^ 1320" by (simp only: e(1) [symmetric])
  have "(5 :: nat) ^ (31 * 42 + 18) = (5 ^ 31) ^ 42 * 5 ^ 18" by (simp only: power_add power_mult)
  also have "\<dots> \<le> (2 ^ 72) ^ 42 * 5 ^ 18" by (intro mult_le_mono power_mono) simp_all
  also have "\<dots> < (2 ^ 72) ^ 42 * 2 ^ 42" by (intro mult_strict_left_mono) simp_all
  also have "\<dots> = (2 :: nat) ^ (72 * 42 + 42)" by (simp only: power_add power_mult)
  also have "\<dots> \<le> 2 ^ 3071" by (intro power_increasing) simp_all
  finally show "(5 :: nat) ^ 1320 < 2 ^ 3071" by (simp only: e(2) [symmetric])
qed

lemma wit_draw: "srp_draw_ok wit_crypto salt p [1] wit_a"
proof -
  have "of_be wit_a = 1320" by (simp only: wit_a_def of_be_pad) (simp add: of_be_def)
  moreover have "(1320 :: nat) \<noteq> 0" by simp
  ultimately have "private_exponent wit_a = 1320"
    by (simp only: private_exponent_def Let_def if_False)
  then have "srp_A wit_a = 5 ^ 1320 mod srp_n"
    by (simp only: srp_A_def srp_client_public_def modpow_def srp_g_def)
  moreover have "(5 :: nat) ^ 1320 < srp_n" using wit_power(2) srp_n_bounds(3) by (rule less_le_trans)
  ultimately have A: "srp_A wit_a = 5 ^ 1320" by (simp only: mod_less)
  have B: "srp_B wit_crypto salt p [1] = 10 mod srp_n"
    by (simp add: srp_B_def srp_server_public_def srp_multiplier_def srp_verifier_def receiver_srp_x_def
        wit_hash modpow_def srp_g_def Let_def mod_add_eq) (simp add: of_be_def mod_add_eq)
  have "(10 :: nat) < 2 ^ 4" by simp
  also have "(2 :: nat) ^ 4 \<le> 2 ^ 3071" by (intro power_increasing) simp_all
  finally have "(10 :: nat) < srp_n" using srp_n_bounds(3) by (rule less_le_trans)
  with B have "srp_B wit_crypto salt p [1] = 10" by simp
  then have "srp_B wit_crypto salt p [1] \<noteq> 0" by simp
  moreover have "srp_u wit_crypto x y \<noteq> 0" for x y by (simp add: srp_u_def wit_hash)
  ultimately show ?thesis
    unfolding srp_draw_ok_def A using wit_power(1) by blast
qed

text \<open>For the other outcome, the private exponent 3 with the public value 125, and a hash that is 2 on messages of the
  length of the padded proof.\<close>

definition short_crypto :: crypto where
  "short_crypto = toy_crypto\<lparr>sha512 := (\<lambda>m. replicate 63 0 @ [if length m = 512 then 2 else 1])\<rparr>"

definition short_a :: bytes where
  "short_a = replicate 31 0 @ [3]"

lemma short_crypto_ok [simp]: "aead_ok short_crypto" "sign_ok short_crypto" "dh_ok short_crypto" "hash_ok short_crypto"
  using toy_crypto_ok
  by (simp_all add: short_crypto_def aead_ok_def sign_ok_def dh_ok_def hash_ok_def)

lemma short_hash: "of_be (sha512 short_crypto m) = (if length m = 512 then 2 else 1)"
  by (simp add: short_crypto_def of_be_append) (simp add: of_be_def)

lemma short_draw: "srp_draw_short short_crypto salt p [1] short_a"
proof -
  have "(125 :: nat) < 2 ^ 7" by simp
  also have "(2 :: nat) ^ 7 \<le> 2 ^ 3071" by (intro power_increasing) simp_all
  finally have n: "(125 :: nat) < srp_n" using srp_n_bounds(3) by (rule less_le_trans)
  have "of_be short_a = 3" by (simp only: short_a_def of_be_pad) (simp add: of_be_def)
  moreover have "(3 :: nat) \<noteq> 0" by simp
  ultimately have "private_exponent short_a = 3" by (simp only: private_exponent_def Let_def if_False)
  then have "srp_A short_a = 125 mod srp_n"
    by (simp add: srp_A_def srp_client_public_def modpow_def srp_g_def)
  with n have A: "srp_A short_a = 125" by simp
  have "(125 :: nat) < 256 ^ 1" by simp
  also have "(256 :: nat) ^ 1 \<le> 256 ^ 383" by (intro power_increasing) simp_all
  finally have small: "(125 :: nat) < 256 ^ 383" .
  define k e where "k = srp_multiplier short_crypto" and "e = of_be (receiver_srp_x short_crypto salt ''Pair-Setup'' p)"
  have ke: "k \<in> {1, 2}" "e \<in> {1, 2}" by (simp_all add: k_def e_def srp_multiplier_def receiver_srp_x_def short_hash Let_def)
  have one: "of_be [1] = 1" by (simp add: of_be_def)
  have "srp_B short_crypto salt p [1] = (k * 5 ^ e + 5) mod srp_n"
    by (simp add: srp_B_def srp_server_public_def srp_verifier_def modpow_def srp_g_def one mod_simps flip: k_def e_def)
  then have "\<exists>c. 0 < c \<and> c \<le> (60 :: nat) \<and> srp_B short_crypto salt p [1] = c mod srp_n"
    using ke by (intro exI [of _ "k * 5 ^ e + 5"]) auto
  then have B: "srp_B short_crypto salt p [1] \<noteq> 0" using n by auto
  have u: "srp_u short_crypto y z \<noteq> 0" for y z by (simp add: srp_u_def short_hash)
  have len: "length (sha512 short_crypto m) = 64" for m by (simp add: short_crypto_def)
  have pad: "length (pad_to (nat_be 125) 384) = 384"
    using srp_AB_384(1) [of short_a] by (simp only: A length_pad_to)
  have M: "length (srp_M1 short_crypto salt p [1] short_a) = 64" "length (srp_K short_crypto salt p [1] short_a) = 64"
    by (simp_all add: srp_M1_def receiver_srp_client_proof_def srp_K_def srp_session_key_def Let_def len)
  have "of_be (server_proof_padded short_crypto salt p [1] short_a) = 2"
    unfolding server_proof_padded_def short_hash A by (simp add: M pad)
  moreover have "length (nat_be 125) \<le> 1" by (rule length_nat_be_le) simp_all
  then have "of_be (server_proof_bare short_crypto salt p [1] short_a) = 1"
    unfolding server_proof_bare_def short_hash A by (simp add: M)
  ultimately have "server_proof_padded short_crypto salt p [1] short_a \<noteq> server_proof_bare short_crypto salt p [1] short_a" by auto
  with small B u show ?thesis unfolding srp_draw_short_def A by blast
qed

theorem pin_pairing_completes_witness:
  "(\<exists>res s' r'. pair_with_pin wit_crypto ''pc'' (pairing_transport wit_crypto [7] [1] (replicate 32 3))
      \<lparr>rnd_seed = replicate 32 5, rnd_a = wit_a, rnd_dh = replicate 32 2, rnd_dh2 = []\<rparr> ''1234''
      (PairingSession_new ''id'') (ReceiverPairing_new wit_crypto ''rx'' ''Pair-Setup'' (replicate 32 9) ''1234'')
      = (res, s', r') \<and> res = Inr () \<and> verified r') \<and>
   (\<exists>s' r'. pair_with_pin short_crypto ''pc'' (pairing_transport short_crypto [7] [1] (replicate 32 3))
      \<lparr>rnd_seed = replicate 32 5, rnd_a = short_a, rnd_dh = replicate 32 2, rnd_dh2 = []\<rparr> ''1234''
      (PairingSession_new ''id'') (ReceiverPairing_new short_crypto ''rx'' ''Pair-Setup'' (replicate 32 9) ''1234'')
      = (Inl (protocol ''server proof mismatch''), s', r'))"
proof
  obtain res s' r' where run: "pair_with_pin wit_crypto ''pc''
      (pairing_transport wit_crypto [7] [1] (replicate 32 3))
      \<lparr>rnd_seed = replicate 32 5, rnd_a = wit_a, rnd_dh = replicate 32 2, rnd_dh2 = []\<rparr>
      (pin (ReceiverPairing_new wit_crypto ''rx'' ''Pair-Setup'' (replicate 32 9) ''1234''))
      (PairingSession_new ''id'') (ReceiverPairing_new wit_crypto ''rx'' ''Pair-Setup'' (replicate 32 9) ''1234'')
      = (res, s', r')" by (metis prod_cases3)
  have "res = Inr () \<and> verified r'"
    using pin_pairing_completes [OF wit_crypto_ok _ _ _ _ _ _ run] wit_draw
    by (simp add: PairingSession_new_def)
  with run show "\<exists>res s' r'. pair_with_pin wit_crypto ''pc'' (pairing_transport wit_crypto [7] [1] (replicate 32 3))
      \<lparr>rnd_seed = replicate 32 5, rnd_a = wit_a, rnd_dh = replicate 32 2, rnd_dh2 = []\<rparr> ''1234''
      (PairingSession_new ''id'') (ReceiverPairing_new wit_crypto ''rx'' ''Pair-Setup'' (replicate 32 9) ''1234'')
      = (res, s', r') \<and> res = Inr () \<and> verified r'" by simp
next
  obtain res s' r' where run: "pair_with_pin short_crypto ''pc''
      (pairing_transport short_crypto [7] [1] (replicate 32 3))
      \<lparr>rnd_seed = replicate 32 5, rnd_a = short_a, rnd_dh = replicate 32 2, rnd_dh2 = []\<rparr>
      (pin (ReceiverPairing_new short_crypto ''rx'' ''Pair-Setup'' (replicate 32 9) ''1234''))
      (PairingSession_new ''id'') (ReceiverPairing_new short_crypto ''rx'' ''Pair-Setup'' (replicate 32 9) ''1234'')
      = (res, s', r')" by (metis prod_cases3)
  have "res = Inl (protocol ''server proof mismatch'')"
    using pin_pairing_completes [OF short_crypto_ok _ _ _ _ _ _ run] short_draw
    by (simp add: PairingSession_new_def)
  with run show "\<exists>s' r'. pair_with_pin short_crypto ''pc'' (pairing_transport short_crypto [7] [1] (replicate 32 3))
      \<lparr>rnd_seed = replicate 32 5, rnd_a = short_a, rnd_dh = replicate 32 2, rnd_dh2 = []\<rparr> ''1234''
      (PairingSession_new ''id'') (ReceiverPairing_new short_crypto ''rx'' ''Pair-Setup'' (replicate 32 9) ''1234'')
      = (Inl (protocol ''server proof mismatch''), s', r')" by simp
qed

subsection \<open>A peer of the receiver that does not know the PIN\<close>

text \<open>The messages of a peer that sends the public value 0. They are functions of the receiver's
  replies (its salt, its public value \<open>B\<close>, its ephemeral public key) and of the peer's own keys; the PIN
  does not occur in them.\<close>

definition zero_m3 :: "crypto \<Rightarrow> bytes \<Rightarrow> nat \<Rightarrow> bytes" where
  "zero_m3 C salt B = encode_ordered [tlv_item TLV_STATE [3], tlv_item TLV_PUBLIC_KEY (replicate 384 0),
     tlv_item TLV_PROOF (receiver_srp_client_proof C salt 0 B (sha512 C [0]))]"

definition verify_m3 :: "crypto \<Rightarrow> bytes \<Rightarrow> bytes \<Rightarrow> bytes \<Rightarrow> bytes \<Rightarrow> bytes" where
  "verify_m3 C seed ident cpriv spub =
    (let shared = dh_shared C cpriv spub;
         vk = r_hkdf C shared ''Pair-Verify-Encrypt-Salt'' ''Pair-Verify-Encrypt-Info'';
         sub = encode_ordered [tlv_item TLV_IDENTIFIER ident,
           tlv_item TLV_SIGNATURE (ed_sign C seed (dh_base C cpriv @ ident @ spub))]
     in encode_ordered [tlv_item TLV_STATE [3], tlv_item TLV_ENCRYPTED_DATA
          (aead_seal C vk (label_nonce ''PV-Msg03'') [] sub)])"

definition zero_key_run ::
  "crypto \<Rightarrow> bytes \<Rightarrow> nat \<Rightarrow> bytes \<Rightarrow> bytes \<Rightarrow> bytes \<Rightarrow> bytes \<Rightarrow> bytes \<Rightarrow> pairing_event list" where
  "zero_key_run C salt B b priv seed ident cpriv =
    [PairSetup salt b (encode_ordered [tlv_item TLV_METHOD [0], tlv_item TLV_STATE [1]]),
     PairSetup salt b (zero_m3 C salt B),
     PairSetup salt b (controller_m5 C (sha512 C [0]) seed ident []),
     PairVerify priv (encode_ordered [tlv_item TLV_STATE [1], tlv_item TLV_PUBLIC_KEY (dh_base C cpriv)]),
     PairVerify priv (verify_m3 C seed ident cpriv (dh_base C priv))]"

lemma zero_key_shared: "0 < of_be b \<Longrightarrow> srp_server_shared 0 v u b = 0"
  by (cases "of_be b") (simp_all add: srp_server_shared_def modpow_def)

lemma zero_key_verified:
  assumes ok: "aead_ok C" "sign_ok C" "dh_ok C" "hash_ok C"
    and len: "length priv = 32" "length cpriv = 32" "ident \<noteq> []"
    and b: "0 < of_be b" and B: "B = srp_server_public C (srp_verifier C salt un p) b"
    and u: "of_be (sha512 C (replicate 384 0 @ pad_to (nat_be B) 384)) \<noteq> 0"
  shows "verified (rp_exec C (ReceiverPairing_new C i un sk p) (zero_key_run C salt B b priv seed ident cpriv))"
proof -
  define r where "r = ReceiverPairing_new C i un sk p"
  define v where "v = srp_verifier C salt un p"
  define K where "K = sha512 C [0]"
  define A where "A = replicate 384 (0 :: byte)"
  define st where "st = \<lparr>ss_salt = salt, ss_b = b, ss_v = nat_be v, ss_server_pub = nat_be B,
      ss_shared_key = None, ss_transient = False\<rparr>"
  define r1 where "r1 = (reset r)\<lparr>rp_setup := Some st\<rparr>"
  define r2 where "r2 = r1\<lparr>rp_setup := Some (st\<lparr>ss_shared_key := Some K\<rparr>)\<rparr>"
  have e1: "snd (r_pair_setup C salt b (encode_ordered [tlv_item TLV_METHOD [0], tlv_item TLV_STATE [1]]) r) = r1"
    unfolding receiver_m1 by (simp add: Let_def r_def B v_def st_def r1_def)
  have st: "rp_setup r1 = Some st" "ss_shared_key st = None" "length A = 384" "ss_salt st = salt"
    "of_be (ss_server_pub st) = B" "of_be A = 0"
    "of_be (sha512 C (pad_to A 384 @ pad_to (ss_server_pub st) 384)) \<noteq> 0"
    using u of_be_pad [of 384 "[]"] by (simp_all add: r1_def st_def A_def pad_to_same) (simp_all add: of_be_def)
  have K: "m3_key C st A = K"
    unfolding m3_key_def st(6) zero_key_shared [OF b, folded st_def]
    using zero_key_shared [OF b] by (simp add: st_def K_def nat_be_def)
  have e2: "snd (r_pair_setup C salt b (zero_m3 C salt B) r1) = r2"
    using receiver_m3 [OF ok(4) st(1-3,7), of salt b]
    unfolding K st(4-6) by (simp add: zero_m3_def A_def r2_def K_def)
  have st2: "rp_setup r2 = Some (st\<lparr>ss_shared_key := Some K\<rparr>)" "ss_shared_key (st\<lparr>ss_shared_key := Some K\<rparr>) = Some K"
    "ss_transient (st\<lparr>ss_shared_key := Some K\<rparr>) = False" "\<forall>x \<in> set []. tag x = TLV_ACL"
    by (simp_all add: r2_def st_def)
  define r3 where "r3 = enrolled_state r2 False ident (ed_public C seed)"
  have e3: "snd (r_pair_setup C salt b (controller_m5 C K seed ident []) r2) = r3"
    using receiver_m5 [OF ok(1,2) st2(1,2) len(3) st2(4), of salt b seed] st2(3) by (auto simp: r3_def)
  define cpub spub where "cpub = dh_base C cpriv" and "spub = dh_base C priv"
  have lens: "length cpub = 32" using ok(3) len by (simp add: cpub_def dh_okD)
  define shared where "shared = dh_shared C cpriv spub"
  have sh: "dh_shared C priv cpub = shared"
    using ok(3) len by (simp add: cpub_def spub_def shared_def dh_okD)
  define vk where "vk = r_hkdf C shared ''Pair-Verify-Encrypt-Salt'' ''Pair-Verify-Encrypt-Info''"
  define hv where "hv = \<lparr>hv_client_public = cpub, hv_server_public = spub, hv_shared_secret = shared,
      hv_verify_key = vk\<rparr>"
  define r4 where "r4 = (reset_verify r3)\<lparr>verify := Some hv\<rparr>"
  have e4: "snd (r_pair_verify C priv (encode_ordered [tlv_item TLV_STATE [1], tlv_item TLV_PUBLIC_KEY cpub]) r3) = r4"
    unfolding receiver_v1 [OF lens] by (simp add: Let_def sh spub_def vk_def hv_def r4_def)
  have key: "controller_key r4 ident = Some (ed_public C seed)" "verify r4 = Some hv"
    by (simp_all add: controller_key_def r4_def r3_def r2_def r1_def r_def enrolled_state_def)
  have "verified (snd (r_pair_verify C priv (verify_m3 C seed ident cpriv spub) r4))"
    using receiver_v3 [OF ok(1,2) key(2) len(3) key(1), of priv]
    by (simp add: verify_m3_def hv_def shared_def vk_def cpub_def Let_def)
  then show ?thesis
    by (simp add: zero_key_run_def rp_exec_def e1 e2 e3 e4 flip: r_def K_def cpub_def spub_def)
qed

text \<open>C37. The receiver's PIN does not protect it: \<open>verify_srp_proof\<close> never rejects a public value that is 0
  modulo the group's prime, for which the shared secret is 0 whatever the PIN. A peer that sends it, with a
  proof computed from the receiver's public replies alone, then enrols its own key and gets a verified,
  encrypted connection, for every PIN, every salt and every non-zero private value of the receiver (unless the scrambling value, a hash, is zero).\<close>

theorem receiver_pin_bypass:
  assumes "aead_ok C" "sign_ok C" "dh_ok C" "hash_ok C"
    and "length priv = 32" "length cpriv = 32" "ident \<noteq> []" "0 < of_be b"
    and "B = srp_server_public C (srp_verifier C salt un p) b"
    and "of_be (sha512 C (replicate 384 0 @ pad_to (nat_be B) 384)) \<noteq> 0"
  shows "verified (rp_exec C (ReceiverPairing_new C i un sk p) (zero_key_run C salt B b priv seed ident cpriv))"
  using assms by (rule zero_key_verified)

theorem receiver_pin_bypass_witness:
  "verified (rp_exec wit_crypto (ReceiverPairing_new wit_crypto ''rx'' ''Pair-Setup'' [9] ''3939'')
     (zero_key_run wit_crypto [1, 2] (srp_server_public wit_crypto (srp_verifier wit_crypto [1, 2] ''Pair-Setup'' ''3939'') [1])
        [1] (replicate 32 4) (replicate 32 5) [66] (replicate 32 6)))"
  by (rule receiver_pin_bypass) (simp_all add: wit_hash, simp add: of_be_def)


subsection \<open>A peer of the sender that does not know the PIN\<close>

text \<open>A peer that knows neither the PIN nor any long-term key: it sends a salt and a public value of its
  choice, leaves the server proof out of M4, answers M5 and V3 with nothing, and sends a bare ephemeral key
  in V2.\<close>

definition impostor :: "bytes \<Rightarrow> unit transport" where
  "impostor pub rq w =
    (let first = (decode (rq_body rq) TLV_STATE = Some [1]) in
     (ok_response
       (if \<not> first then []
        else if rq_path rq = ''/pair-setup''
        then encode_ordered [tlv_item TLV_STATE [2], tlv_item TLV_SALT [0], tlv_item TLV_PUBLIC_KEY [2]]
        else encode_ordered [tlv_item TLV_STATE [2], tlv_item TLV_PUBLIC_KEY pub]), w))"

lemma exchange_impostor:
  "exchange (impostor pub) (post path m h) s w f =
    f (if decode m TLV_STATE \<noteq> Some [1] then []
       else if path = ''/pair-setup''
       then encode_ordered [tlv_item TLV_STATE [2], tlv_item TLV_SALT [0], tlv_item TLV_PUBLIC_KEY [2]]
       else encode_ordered [tlv_item TLV_STATE [2], tlv_item TLV_PUBLIC_KEY pub]) w"
  by (simp add: exchange_def send_def impostor_def post_def ok_response_def ok_body_def Let_def)

lemma decode_Nil: "decode [] t = None"
  by (simp add: decode_def)

lemma impostor_setup:
  assumes "length (ed25519_seed (keys s)) = 32"
  shows "\<exists>k. pair_setup C host (impostor pub) a_bytes p s w = (Inr (), s\<lparr>keys := (keys s)\<lparr>shared_secret := k\<rparr>\<rparr>, w)"
proof -
  have sk: "signing_key s = Inr (ed25519_seed (keys s))" using assms by (simp add: signing_key_def)
  have b: "of_be [2] = 2" by (simp add: of_be_def)
  have "\<not> srp_n \<le> 2" using srp_n_bounds(1) by simp
  then show ?thesis
    by (simp add: pair_setup_def setup_after_m2_def exchange_impostor tlv_lookup tlv_error_def Let_def
        complete_srp_exchange_def b decode_Nil sk setup_m5_def) blast
qed

lemma impostor_verify:
  assumes "length (ed25519_seed (keys s)) = 32" "length pub = 32"
  shows "pair_verify C host (impostor pub) cpriv s w = (Inr (), enter_encrypted C (dh_shared C cpriv pub) s, w)"
proof -
  have sk: "signing_key s = Inr (ed25519_seed (keys s))" using assms by (simp add: signing_key_def)
  show ?thesis
    using assms(2)
    by (simp add: pair_verify_def exchange_impostor tlv_lookup tlv_error_def Let_def decode_Nil sk verify_v3_def)
qed

text \<open>C38. The sender does not authenticate the receiver: PIN pairing succeeds, whatever PIN the user typed,
  against a peer that knows neither the PIN nor a long-term key. It returns success in the encrypted state,
  and the peer holds both channel keys. The causes are that M4's proof is only compared when it is present,
  that M6 is not opened, and that V2's signature is not looked at although the step is documented as
  decrypt and verify.\<close>

theorem client_accepts_impostor:
  fixes C :: crypto and rnd :: pairing_rnd and p host :: string and s :: PairingSession and priv :: bytes
  assumes "dh_ok C" "length (rnd_seed rnd) = 32" "length (rnd_dh rnd) = 32" "length priv = 32"
  shows "\<exists>s'. pair_with_pin C host (impostor (dh_base C priv)) rnd p s () = (Inr (), s', ())
    \<and> encrypted s'
    \<and> enc_write_key s' = sk_read_key (control_keys C (dh_shared C priv (dh_base C (rnd_dh rnd))))
    \<and> enc_read_key s' = sk_write_key (control_keys C (dh_shared C priv (dh_base C (rnd_dh rnd))))"
proof -
  define s1 where "s1 = generate_ed25519 C (rnd_seed rnd) (s\<lparr>pair_type := pin_pairing_type s\<rparr>)"
  have seed: "length (ed25519_seed (keys s1)) = 32" using assms(2) by (simp add: s1_def generate_ed25519_def)
  from impostor_setup [OF this] obtain k where
    k: "pair_setup C host (impostor (dh_base C priv)) (rnd_a rnd) p s1 () =
      (Inr (), s1\<lparr>keys := (keys s1)\<lparr>shared_secret := k\<rparr>\<rparr>, ())" by blast
  define s2 where "s2 = s1\<lparr>keys := (keys s1)\<lparr>shared_secret := k\<rparr>\<rparr>"
  have "pair_verify C host (impostor (dh_base C priv)) (rnd_dh rnd) s2 () =
    (Inr (), enter_encrypted C (dh_shared C (rnd_dh rnd) (dh_base C priv)) s2, ())"
    using assms seed by (intro impostor_verify) (simp_all add: s2_def dh_okD)
  moreover have "dh_shared C (rnd_dh rnd) (dh_base C priv) = dh_shared C priv (dh_base C (rnd_dh rnd))"
    using assms by (simp add: dh_okD)
  ultimately show ?thesis
    using k
    by (simp add: pair_with_pin_def and_then_def enter_encrypted_def control_keys_def hkdf_agree Let_def
        flip: s1_def s2_def)
qed

theorem client_accepts_impostor_witness:
  "\<exists>s'. pair_with_pin wit_crypto ''pc'' (impostor (dh_base wit_crypto (replicate 32 7)))
      \<lparr>rnd_seed = replicate 32 5, rnd_a = [1], rnd_dh = replicate 32 2, rnd_dh2 = []\<rparr> ''1234''
      (PairingSession_new ''id'') () = (Inr (), s', ())
    \<and> encrypted s'"
  using client_accepts_impostor [of wit_crypto
      "\<lparr>rnd_seed = replicate 32 5, rnd_a = [1], rnd_dh = replicate 32 2, rnd_dh2 = []\<rparr>" "replicate 32 7"
      "''pc''" "''1234''" "PairingSession_new ''id''"]
  by auto

end
