(* ===== verification/Receiver_Safety.thy ===== *)
theory Receiver_Safety
  imports Receiver_Server Pairing
begin

text \<open>
  What the receiver guarantees about a connection as a whole: every run of \<open>dispatch\<close> drives the pairing and
  the FairPlay machines exactly by the requests for them, no request past pairing is served before the
  connection is verified, and media ports exist only behind pairing and FairPlay.
\<close>

subsection \<open>Runs of the dispatcher\<close>

fun srv_state ::
  "crypto \<Rightarrow> plist_lib \<Rightarrow> ReceiverServer \<Rightarrow> (nat \<Rightarrow> draws) \<Rightarrow> nat \<Rightarrow> ReceiverSession \<Rightarrow> Request list \<Rightarrow> ReceiverSession" where
  "srv_state C L s ds k ss [] = ss"
| "srv_state C L s ds k ss (req # reqs) = srv_state C L s ds (Suc k) (snd (dispatch C L s (ds k) req ss)) reqs"

lemma srv_state_append:
  "srv_state C L s ds k ss (xs @ ys) = srv_state C L s ds (k + length xs) (srv_state C L s ds k ss xs) ys"
  by (induction xs arbitrary: k ss) simp_all

lemma serve_loop_state:
  "serve_loop C L hdr_list s ds k ss io = (out, reqs, ss', io', ok) \<Longrightarrow> ss' = srv_state C L s ds k ss reqs"
proof (induction C L hdr_list s ds k ss io arbitrary: out reqs rule: serve_loop.induct)
  case (1 C L hdr_list s ds k ss io)
  obtain r io1 where r: "read_request C io = (r, io1)" by fastforce
  show ?case
  proof (cases r)
    case (Inl e)
    with r 1(2) show ?thesis by (subst (asm) serve_loop.simps) simp
  next
    case (Inr req)
    obtain resp keys ss1 where d: "dispatch C L s (ds k) req ss = ((resp, keys), ss1)" by (metis prod.collapse)
    obtain o1 io2 where w: "write_response C hdr_list req resp io1 = (o1, io2)" by fastforce
    obtain o2 reqs2 ss2 io3 ok2 where l: "serve_loop C L hdr_list s ds (Suc k) ss1 (switch_stream keys io2) = (o2, reqs2, ss2, io3, ok2)"
      by (metis prod.collapse)
    have "serve_loop C L hdr_list s ds k ss io = (o1 @ o2, req # reqs2, ss2, io3, ok2)"
      by (subst serve_loop.simps) (simp add: r Inr d w l)
    with 1(2) have e: "reqs = req # reqs2" "ss' = ss2" "io' = io3" "ok = ok2" by simp_all
    have "ss2 = srv_state C L s ds (Suc k) ss1 reqs2"
      using 1(1) [OF r [symmetric] Inr refl d [symmetric] refl refl w [symmetric]] l e by simp
    then show ?thesis by (simp add: e d)
  qed
qed

subsection \<open>The machines behind the dispatcher\<close>

definition pairing_event_of :: "draws \<Rightarrow> Request \<Rightarrow> pairing_event option" where
  "pairing_event_of d req =
    (if req_method req = ''POST'' \<and> request_path (req_uri req) = ''/pair-setup''
     then Some (PairSetup (dr_salt d) (dr_b d) (req_body req))
     else if req_method req = ''POST'' \<and> request_path (req_uri req) = ''/pair-verify''
     then Some (PairVerify (dr_private d) (req_body req)) else None)"

definition is_fp_setup :: "Request \<Rightarrow> bool" where
  "is_fp_setup req \<longleftrightarrow> req_method req = ''POST'' \<and> request_path (req_uri req) = ''/fp-setup''"

lemma fp_setup_same [simp]:
  "rs_pairing (snd (handle_fp_setup req ss)) = rs_pairing ss"
  "rs_media (snd (handle_fp_setup req ss)) = rs_media ss"
  by (simp_all add: handle_fp_setup_def split: option.split sum.split prod.split)

lemma session_media_same [simp]:
  "rs_pairing (snd (session_media s d ss)) = rs_pairing ss"
  "rs_fairplay (snd (session_media s d ss)) = rs_fairplay ss"
  by (simp_all add: session_media_def split: option.split sum.split)

lemma handle_setup_state:
  "snd (handle_setup L s d req ss) =
    (if (case rs_fairplay ss of None \<Rightarrow> False | Some f \<Rightarrow> \<not> fp_complete f) then ss
     else snd (session_media s d (if audio_dump (sv_cfg s) then ss\<lparr>rs_dump := rs_dump ss @ dump_setup req\<rparr> else ss)))"
proof -
  define ss' where "ss' = (if audio_dump (sv_cfg s) then ss\<lparr>rs_dump := rs_dump ss @ dump_setup req\<rparr> else ss)"
  have "snd (case session_media s d ss' of (Inl e, ss) \<Rightarrow> (resp_text 500 e, ss)
     | (Inr ep, ss) \<Rightarrow> (with_clock d (resp_ok (plist_write L (setup_value L s d ep (req_body req))) BPLIST), ss)) =
    snd (session_media s d ss')"
    by (simp split: sum.split prod.split)
  then show ?thesis unfolding handle_setup_def Let_def ss'_def [symmetric] by simp
qed

lemma setup_same [simp]:
  "rs_pairing (snd (handle_setup L s d req ss)) = rs_pairing ss"
  "rs_fairplay (snd (handle_setup L s d req ss)) = rs_fairplay ss"
  by (simp_all add: handle_setup_state)

lemma setup_media:
  "rs_media (snd (handle_setup L s d req ss)) \<noteq> rs_media ss \<Longrightarrow>
     case rs_fairplay ss of None \<Rightarrow> True | Some f \<Rightarrow> fp_complete f"
  by (auto simp: handle_setup_state split: option.splits if_splits)

lemma dispatch_pairing:
  "rs_pairing (snd (dispatch C L s d req ss)) =
     (case pairing_event_of d req of None \<Rightarrow> rs_pairing ss | Some e \<Rightarrow> rp_step C e (rs_pairing ss))"
  by (auto simp: dispatch_def pairing_event_of_def is_session_request_def Let_def case_prod_unfold)

lemma dispatch_media:
  assumes "rs_media (snd (dispatch C L s d req ss)) \<noteq> rs_media ss"
  shows "is_session_request req \<and> is_verified (rs_pairing ss) \<and>
    (case rs_fairplay ss of None \<Rightarrow> True | Some f \<Rightarrow> fp_complete f)"
proof (cases "is_session_request req \<and> \<not> is_verified (rs_pairing ss) \<or> req_method req \<noteq> ''SETUP''")
  case True
  with assms show ?thesis by (auto simp: dispatch_def Let_def case_prod_unfold split: if_splits)
next
  case False
  then have "snd (dispatch C L s d req ss) = snd (handle_setup L s d req ss)"
    by (auto simp: dispatch_def Let_def case_prod_unfold)
  with assms setup_media [of L s d req ss] have "case rs_fairplay ss of None \<Rightarrow> True | Some f \<Rightarrow> fp_complete f" by simp
  moreover have "is_session_request req" using False by (simp add: is_session_request_def Let_def)
  ultimately show ?thesis using False by blast
qed

text \<open>A request is refused with 455, and changes nothing, until the connection is verified.\<close>

lemma dispatch_unverified:
  "is_session_request req \<Longrightarrow> \<not> is_verified (rs_pairing ss) \<Longrightarrow>
     dispatch C L s d req ss = ((resp_text 455 ''pair-verify must complete first'', None), ss)"
  by (simp add: dispatch_def)

lemma dispatch_fairplay:
  assumes "rs_fairplay ss = Some f"
  shows "\<exists>f'. rs_fairplay (snd (dispatch C L s d req ss)) = Some f' \<and>
    (if is_fp_setup req \<and> sr_status (fst (fst (dispatch C L s d req ss))) = 200
     then is_verified (rs_pairing ss) \<and> (\<exists>b. fp_exchange (req_body req) f = (Inr b, f'))
     else f' = f \<or> (\<exists>e. fp_exchange (req_body req) f = (Inl e, f')))"
proof (cases "is_fp_setup req")
  case True
  then have sess: "is_session_request req" by (simp add: is_fp_setup_def is_session_request_def Let_def)
  show ?thesis
  proof (cases "is_verified (rs_pairing ss)")
    case False
    with sess assms show ?thesis by (simp add: dispatch_unverified resp_text_def)
  next
    case verified: True
    have "dispatch C L s d req ss = (let (r, ss) = handle_fp_setup req ss in ((r, None), ss))"
      using True verified by (simp add: dispatch_def is_fp_setup_def Let_def)
    moreover obtain x f' where "fp_exchange (req_body req) f = (x, f')" by fastforce
    ultimately show ?thesis
      using True verified assms
      by (cases x) (auto simp: handle_fp_setup_def case_prod_unfold resp_text_def resp_ok_def)
  qed
next
  case False
  then have "rs_fairplay (snd (dispatch C L s d req ss)) = rs_fairplay ss"
    by (auto simp: dispatch_def is_fp_setup_def Let_def case_prod_unfold)
  with False assms show ?thesis by simp
qed

subsection \<open>What a run has behind it\<close>

fun pairing_events :: "(nat \<Rightarrow> draws) \<Rightarrow> nat \<Rightarrow> Request list \<Rightarrow> pairing_event list" where
  "pairing_events ds k [] = []"
| "pairing_events ds k (req # reqs) =
    (case pairing_event_of (ds k) req of None \<Rightarrow> [] | Some e \<Rightarrow> [e]) @ pairing_events ds (Suc k) reqs"

lemma pairing_events_append:
  "pairing_events ds k (xs @ ys) = pairing_events ds k xs @ pairing_events ds (k + length xs) ys"
  by (induction xs arbitrary: k) simp_all

text \<open>The bodies of the \<open>/fp-setup\<close> requests that were answered with 200.\<close>

fun fp_accepted ::
  "crypto \<Rightarrow> plist_lib \<Rightarrow> ReceiverServer \<Rightarrow> (nat \<Rightarrow> draws) \<Rightarrow> nat \<Rightarrow> ReceiverSession \<Rightarrow> Request list \<Rightarrow> bytes list" where
  "fp_accepted C L s ds k ss [] = []"
| "fp_accepted C L s ds k ss (req # reqs) =
    (let (out, ss') = dispatch C L s (ds k) req ss
     in (if is_fp_setup req \<and> sr_status (fst out) = 200 then [req_body req] else []) @
        fp_accepted C L s ds (Suc k) ss' reqs)"

lemma fp_accepted_append:
  "fp_accepted C L s ds k ss (xs @ ys) =
     fp_accepted C L s ds k ss xs @ fp_accepted C L s ds (k + length xs) (srv_state C L s ds k ss xs) ys"
  by (induction xs arbitrary: k ss) (simp_all add: case_prod_unfold Let_def)

lemma rp_exec_append: "rp_exec C r (xs @ ys) = rp_exec C (rp_exec C r xs) ys"
  by (simp add: rp_exec_def)

lemma run_pairing:
  "rs_pairing (srv_state C L s ds k ss reqs) = rp_exec C (rs_pairing ss) (pairing_events ds k reqs)"
proof (induction reqs arbitrary: k ss)
  case (Cons req reqs)
  then show ?case
    by (cases "pairing_event_of (ds k) req") (simp_all add: dispatch_pairing rp_exec_append, simp add: rp_exec_def)
qed simp

definition receiver_start :: "crypto \<Rightarrow> ReceiverServer \<Rightarrow> ReceiverPairing" where
  "receiver_start C s = ReceiverPairing_new C (sv_identifier s) ''Pair-Setup'' (sv_signing_key s) (code (sv_cfg s))"

lemma new_session_fields [simp]:
  "rs_pairing (new_session C s entropy) = receiver_start C s" "rs_media (new_session C s entropy) = None"
  by (simp_all add: new_session_def receiver_start_def)

lemma verified_behind:
  assumes "verified (rs_pairing (srv_state C L s ds 0 (new_session C s entropy) reqs))"
  shows "\<exists>secret. authentication_chain C (receiver_start C s) (pairing_events ds 0 reqs) secret \<and>
    session (rs_pairing (srv_state C L s ds 0 (new_session C s entropy) reqs)) = control_keys C secret"
  using assms unfolding run_pairing new_session_fields unfolding receiver_start_def by (rule verified_chain)

text \<open>The FairPlay machine of a run.\<close>

lemma fp_exchange_complete: "fp_complete f \<Longrightarrow> \<exists>e. fp_exchange q f = (Inl e, f)"
  by (simp add: fp_exchange_def fp_complete_def)

lemma run_fairplay:
  assumes "rs_fairplay ss = Some f" "unat (rf_mode f) < 4" "fp_history (receiver_sap f) (rf_mode f) [] (phase f)"
  shows "\<exists>f'. rs_fairplay (srv_state C L s ds k ss reqs) = Some f' \<and> receiver_sap f' = receiver_sap f \<and>
    rf_mode f' = rf_mode f \<and> fp_history (receiver_sap f) (rf_mode f) (fp_accepted C L s ds k ss reqs) (phase f')"
proof (induction reqs rule: rev_induct)
  case Nil
  with assms show ?case by simp
next
  case (snoc req reqs)
  define ss1 where "ss1 = srv_state C L s ds k ss reqs"
  define acc where "acc = fp_accepted C L s ds k ss reqs"
  from snoc obtain f1 where f1: "rs_fairplay ss1 = Some f1" "receiver_sap f1 = receiver_sap f" "rf_mode f1 = rf_mode f"
    "fp_history (receiver_sap f1) (rf_mode f1) acc (phase f1)" by (auto simp: ss1_def acc_def)
  have mode: "unat (rf_mode f1) < 4" using assms(2) f1 by simp
  let ?d = "dispatch C L s (ds (k + length reqs)) req ss1"
  from dispatch_fairplay [OF f1(1)] obtain f2 where f2: "rs_fairplay (snd ?d) = Some f2"
    "if is_fp_setup req \<and> sr_status (fst (fst ?d)) = 200
     then is_verified (rs_pairing ss1) \<and> (\<exists>b. fp_exchange (req_body req) f1 = (Inr b, f2))
     else f2 = f1 \<or> (\<exists>e. fp_exchange (req_body req) f1 = (Inl e, f2))" by blast
  have st: "srv_state C L s ds k ss (reqs @ [req]) = snd ?d" by (simp add: srv_state_append ss1_def)
  have acc': "fp_accepted C L s ds k ss (reqs @ [req]) =
      acc @ (if is_fp_setup req \<and> sr_status (fst (fst ?d)) = 200 then [req_body req] else [])"
    by (simp add: fp_accepted_append acc_def ss1_def case_prod_unfold Let_def)
  show ?case
  proof (cases "is_fp_setup req \<and> sr_status (fst (fst ?d)) = 200")
    case True
    with f2(2) obtain b where "fp_exchange (req_body req) f1 = (Inr b, f2)" by auto
    from fp_exchange_step [OF f1(4) mode this] True f2(1) f1(2,3) show ?thesis by (simp add: st acc')
  next
    case False
    then have "f2 = f1 \<or> (\<exists>e. fp_exchange (req_body req) f1 = (Inl e, f2))" using f2(2) by simp
    then have "f2 = f1" using fp_exchange_step [OF f1(4) mode] by blast
    with False f2(1) f1 show ?thesis unfolding st acc' by auto
  qed
qed

text \<open>Once complete, the machine stays complete.\<close>

lemma dispatch_keeps_complete:
  assumes "rs_fairplay ss = Some f" "fp_complete f"
  shows "rs_fairplay (snd (dispatch C L s d req ss)) = Some f"
  using dispatch_fairplay [OF assms(1), of C L s d req] fp_exchange_complete [OF assms(2), of "req_body req"]
  by (auto split: if_splits)

lemma dispatch_no_fairplay:
  "rs_fairplay ss = None \<Longrightarrow> rs_fairplay (snd (dispatch C L s d req ss)) = None"
  by (auto simp: dispatch_def handle_fp_setup_def Let_def case_prod_unfold)

lemma run_no_fairplay: "rs_fairplay ss = None \<Longrightarrow> rs_fairplay (srv_state C L s ds k ss reqs) = None"
  by (induction reqs arbitrary: k ss) (simp_all add: dispatch_no_fairplay)

text \<open>Media ports have a verified moment before them and completed FairPlay with them.\<close>

lemma run_media:
  assumes "rs_media (srv_state C L s ds 0 ss reqs) \<noteq> None" "rs_media ss = None"
  shows "(\<exists>j \<le> length reqs. verified (rs_pairing (srv_state C L s ds 0 ss (take j reqs)))) \<and>
    (case rs_fairplay (srv_state C L s ds 0 ss reqs) of None \<Rightarrow> True | Some f \<Rightarrow> fp_complete f)"
  using assms(1)
proof (induction reqs rule: rev_induct)
  case Nil
  with assms(2) show ?case by simp
next
  case (snoc req reqs)
  define ss1 where "ss1 = srv_state C L s ds 0 ss reqs"
  let ?d = "dispatch C L s (ds (length reqs)) req ss1"
  have st: "srv_state C L s ds 0 ss (reqs @ [req]) = snd ?d" by (simp add: srv_state_append ss1_def)
  have behind: "(\<exists>j \<le> length reqs. verified (rs_pairing (srv_state C L s ds 0 ss (take j reqs)))) \<and>
      (case rs_fairplay ss1 of None \<Rightarrow> True | Some f \<Rightarrow> fp_complete f)"
  proof (cases "rs_media ss1 = None")
    case True
    with snoc.prems have "rs_media (snd ?d) \<noteq> rs_media ss1" by (simp add: st)
    from dispatch_media [OF this] have "verified (rs_pairing ss1)"
      "case rs_fairplay ss1 of None \<Rightarrow> True | Some f \<Rightarrow> fp_complete f" by (simp_all add: is_verified_def)
    then show ?thesis by (auto simp: ss1_def intro!: exI [of _ "length reqs"])
  next
    case False
    with snoc.IH show ?thesis by (simp add: ss1_def)
  qed
  then have "\<exists>j \<le> length (reqs @ [req]). verified (rs_pairing (srv_state C L s ds 0 ss (take j (reqs @ [req]))))"
    by (metis le_SucI length_append_singleton take_append append_Nil2 diff_is_0_eq take_eq_Nil)
  moreover have "case rs_fairplay (snd ?d) of None \<Rightarrow> True | Some f \<Rightarrow> fp_complete f"
    using behind dispatch_keeps_complete [of ss1 _ C L s "ds (length reqs)" req]
      dispatch_no_fairplay [of ss1 C L s "ds (length reqs)" req]
    by (cases "rs_fairplay ss1") auto
  ultimately show ?case by (simp add: st)
qed

subsection \<open>The keys of the channel\<close>

definition stream_keys :: "CtrlStream \<Rightarrow> (bytes \<times> bytes) option" where
  "stream_keys io = (case io of Plain _ \<Rightarrow> None | Hap h \<Rightarrow> Some (read_key h, write_key h))"

lemma hap_read_keys: "same_writer h (snd (hap_read C d h))"
  by (auto simp: hap_read_def hap_take_def same_writer_def Let_def split: sum.split prod.split option.split)

lemma read_exact_from_keys: "same_writer h (snd (read_exact_from (hap_read C) k h))"
proof (induction "hap_read C" k h rule: read_exact_from.induct)
  case (1 k s)
  obtain r s' where r: "hap_read C k s = (r, s')" by fastforce
  have same: "same_writer s s'" using hap_read_keys [of s C k] r by simp
  show ?case
  proof (cases "k = 0 \<or> (\<exists>e. r = Inl e) \<or> r = Inr []")
    case True
    with r same show ?thesis by (subst read_exact_from.simps) (auto simp: same_writer_def)
  next
    case False
    then obtain out where out: "r = Inr out" "out \<noteq> []" "k \<noteq> 0" by (cases r) auto
    have "same_writer s' (snd (read_exact_from (hap_read C) (k - length out) s'))"
      using 1 [OF out(3) r [symmetric, unfolded out(1)] refl out(2)] .
    with r same out show ?thesis
      by (subst read_exact_from.simps) (auto simp: same_writer_def split: sum.split prod.split)
  qed
qed

lemma ctrl_read_exact_keys: "stream_keys (snd (ctrl_read_exact C k io)) = stream_keys io"
proof (cases io)
  case (Hap h)
  then show ?thesis
    using read_exact_from_keys [of h C k]
    by (cases "read_exact_from (hap_read C) k h") (auto simp: stream_keys_def same_writer_def split: sum.split)
qed (simp add: stream_keys_def read_exact_def)

lemma read_line_loop_keys: "stream_keys (snd (read_line_loop C buf io)) = stream_keys io"
proof (induction C buf io rule: read_line_loop.induct)
  case (1 C buf s)
  obtain r s' where r: "ctrl_read_exact C 1 s = (r, s')" by fastforce
  have k: "stream_keys s' = stream_keys s" using ctrl_read_exact_keys [of C 1 s] r by simp
  show ?case
  proof (cases r)
    case (Inl e)
    with r k show ?thesis by (subst read_line_loop.simps) simp
  next
    case (Inr b)
    note IH = 1 [OF r [symmetric, unfolded Inr] refl _ refl]
    with r k Inr show ?thesis by (subst read_line_loop.simps) (simp add: Let_def)
  qed
qed

lemma read_headers_keys: "stream_keys (snd (read_headers C acc io)) = stream_keys io"
proof (induction C acc io rule: read_headers.induct)
  case (1 C acc s)
  obtain r s' where r: "read_line C s = (r, s')" by fastforce
  have k: "stream_keys s' = stream_keys s" using read_line_loop_keys [of C "[]" s] r by (simp add: read_line_def)
  show ?case
  proof (cases r)
    case (Inl e)
    with r k show ?thesis by (subst read_headers.simps) simp
  next
    case (Inr l)
    note IH = 1 [OF r [symmetric, unfolded Inr] refl]
    with r k Inr show ?thesis
      by (subst read_headers.simps) (cases "l = []"; cases "add_header l acc"; simp)
  qed
qed

lemma read_request_keys: "stream_keys (snd (read_request C io)) = stream_keys io"
proof -
  obtain r s1 where r: "read_line C io = (r, s1)" by fastforce
  have k1: "stream_keys s1 = stream_keys io" using read_line_loop_keys [of C "[]" io] r by (simp add: read_line_def)
  obtain h s2 where h: "read_headers C (Map.empty, 0) s1 = (h, s2)" by fastforce
  have k2: "stream_keys s2 = stream_keys s1" using read_headers_keys [of C "(Map.empty, 0)" s1] h by simp
  have k3: "stream_keys (snd (ctrl_read_exact C n s2)) = stream_keys s2" for n by (rule ctrl_read_exact_keys)
  have k4: "stream_keys s3 = stream_keys s2" if "ctrl_read_exact C n s2 = (x, s3)" for n x s3 using k3 [of n] that by simp
  show ?thesis
    using r h k1 k2 by (auto simp: read_request_def Let_def split: sum.split prod.split dest: k4)
qed

lemma write_response_keys: "stream_keys (snd (write_response C hdr_list req resp io)) = stream_keys io"
  by (cases io) (simp_all add: write_response_def stream_keys_def hap_write_frames)

lemma dispatch_keys:
  "dispatch C L s d req ss = ((resp, Some k), ss') \<Longrightarrow> verified (rs_pairing ss') \<and> k = session (rs_pairing ss')"
  by (auto simp: dispatch_def r_pair_verify_def Let_def case_prod_unfold session_keys_def is_verified_def
      split: if_splits option.splits)

text \<open>A stream that is encrypted uses the keys of an authenticated exchange of the same connection.\<close>

definition channel_ok :: "crypto \<Rightarrow> ReceiverServer \<Rightarrow> (nat \<Rightarrow> draws) \<Rightarrow> Request list \<Rightarrow> CtrlStream \<Rightarrow> bool" where
  "channel_ok C s ds reqs io \<longleftrightarrow> (case io of Plain _ \<Rightarrow> True | Hap h \<Rightarrow>
     (\<exists>j \<le> length reqs. \<exists>secret. authentication_chain C (receiver_start C s) (pairing_events ds 0 (take j reqs)) secret \<and>
        read_key h = sk_read_key (control_keys C secret) \<and> write_key h = sk_write_key (control_keys C secret)))"

lemma channel_ok_keys:
  "stream_keys io' = stream_keys io \<Longrightarrow> channel_ok C s ds reqs io \<Longrightarrow> channel_ok C s ds reqs io'"
  by (cases io; cases io') (simp_all add: stream_keys_def channel_ok_def)

lemma channel_ok_more:
  assumes "channel_ok C s ds reqs io"
  shows "channel_ok C s ds (reqs @ later) io"
proof (cases io)
  case (Hap h)
  with assms obtain j secret where j: "j \<le> length reqs"
    "authentication_chain C (receiver_start C s) (pairing_events ds 0 (take j reqs)) secret"
    "read_key h = sk_read_key (control_keys C secret)" "write_key h = sk_write_key (control_keys C secret)"
    by (auto simp: channel_ok_def)
  moreover have "take j (reqs @ later) = take j reqs" using j(1) by simp
  ultimately show ?thesis unfolding channel_ok_def Hap by (auto intro!: exI [of _ j])
qed (simp add: channel_ok_def)

lemma serve_loop_channel:
  "serve_loop C L hdr_list s ds k ss io = (out, reqs, ss', io', ok) \<Longrightarrow>
     ss = srv_state C L s ds 0 (new_session C s entropy) prev \<Longrightarrow> k = length prev \<Longrightarrow>
     channel_ok C s ds prev io \<Longrightarrow> channel_ok C s ds (prev @ reqs) io'"
proof (induction C L hdr_list s ds k ss io arbitrary: out reqs prev rule: serve_loop.induct)
  case (1 C L hdr_list s ds k ss io)
  obtain r io1 where r: "read_request C io = (r, io1)" by fastforce
  have k1: "stream_keys io1 = stream_keys io" using read_request_keys [of C io] r by simp
  show ?case
  proof (cases r)
    case (Inl e)
    with r 1(2) have "reqs = []" "io' = io1" by (subst (asm) serve_loop.simps, simp)+
    with k1 1(5) show ?thesis by (simp add: channel_ok_keys)
  next
    case (Inr req)
    obtain resp keys ss1 where d: "dispatch C L s (ds k) req ss = ((resp, keys), ss1)" by (metis prod.collapse)
    obtain o1 io2 where w: "write_response C hdr_list req resp io1 = (o1, io2)" by fastforce
    obtain o2 reqs2 ss2 io3 ok2 where l: "serve_loop C L hdr_list s ds (Suc k) ss1 (switch_stream keys io2) = (o2, reqs2, ss2, io3, ok2)"
      by (metis prod.collapse)
    have "serve_loop C L hdr_list s ds k ss io = (o1 @ o2, req # reqs2, ss2, io3, ok2)"
      by (subst serve_loop.simps) (simp add: r Inr d w l)
    with 1(2) have e: "reqs = req # reqs2" "ss' = ss2" "io' = io3" "ok = ok2" by simp_all
    have st: "ss1 = srv_state C L s ds 0 (new_session C s entropy) (prev @ [req])"
      using 1(3,4) d by (simp add: srv_state_append)
    have k2: "stream_keys io2 = stream_keys io" using write_response_keys [of C hdr_list req resp io1] w k1 by simp
    have ok2: "channel_ok C s ds (prev @ [req]) io2"
      using channel_ok_more [OF channel_ok_keys [OF k2 1(5)]] .
    have "channel_ok C s ds (prev @ [req]) (switch_stream keys io2)"
    proof (cases keys)
      case (Some kk)
      with d have "verified (rs_pairing ss1)" "kk = session (rs_pairing ss1)" using dispatch_keys by blast+
      moreover from this(1) obtain secret where
        "authentication_chain C (receiver_start C s) (pairing_events ds 0 (prev @ [req])) secret"
        "session (rs_pairing ss1) = control_keys C secret"
        using verified_behind [of C L s ds entropy "prev @ [req]"] st by auto
      ultimately show ?thesis
        using ok2 Some by (cases io2) (auto simp: switch_stream_def channel_ok_def HapStream_new_def
            intro!: exI [of _ "Suc (length prev)"])
    qed (use ok2 in \<open>simp add: switch_stream_def\<close>)
    then have "channel_ok C s ds ((prev @ [req]) @ reqs2) io3"
      using 1(1) [OF r [symmetric] Inr refl d [symmetric] refl refl w [symmetric] _ st] l 1(4) e by simp
    then show ?thesis by (simp add: e)
  qed
qed

subsection \<open>Properties\<close>

text \<open>C4. A whole connection, from the bytes a peer sends: whatever they are and whatever the receiver draws, media
  ports exist at the end only if the requests before contain a complete authentication chain (an SRP proof, an
  enrolment under its key, a signed pair-verify) and, on a profile with FairPlay, accepted FairPlay messages m1
  and a later m3 that confirms the exchange; and an encrypted channel carries the keys of such a chain.\<close>

theorem connection_guarded:
  "case serve_control C L hdr_list s entropy ds inp of (out, reqs, ss, io, ok) \<Rightarrow>
     (rs_media ss = None \<or>
       (\<exists>j \<le> length reqs. \<exists>secret. authentication_chain C (receiver_start C s) (pairing_events ds 0 (take j reqs)) secret) \<and>
       (if ps_features (sv_profile s) AND FEATURE_FPSAP25 = 0 then rs_fairplay ss = None
        else fp_history (receiver_sap (ReceiverFpsap_new entropy)) FPSAP_MODE
               (fp_accepted C L s ds 0 (new_session C s entropy) reqs) 2)) \<and>
     channel_ok C s ds reqs io"
proof -
  obtain out reqs ss io ok where run: "serve_control C L hdr_list s entropy ds inp = (out, reqs, ss, io, ok)"
    by (metis prod.collapse)
  define ss0 where "ss0 = new_session C s entropy"
  have ss: "ss = srv_state C L s ds 0 ss0 reqs"
    using run serve_loop_state unfolding serve_control_def ss0_def by blast
  have chan: "channel_ok C s ds ([] @ reqs) io"
    using run unfolding serve_control_def by (rule serve_loop_channel) (simp_all add: from_tcp_def channel_ok_def)
  have media: "(\<exists>j \<le> length reqs. \<exists>secret. authentication_chain C (receiver_start C s) (pairing_events ds 0 (take j reqs)) secret) \<and>
       (if ps_features (sv_profile s) AND FEATURE_FPSAP25 = 0 then rs_fairplay ss = None
        else fp_history (receiver_sap (ReceiverFpsap_new entropy)) FPSAP_MODE (fp_accepted C L s ds 0 ss0 reqs) 2)"
    if "rs_media ss \<noteq> None"
  proof -
    from that run_media [of C L s ds ss0 reqs] obtain j where j: "j \<le> length reqs"
      "verified (rs_pairing (srv_state C L s ds 0 ss0 (take j reqs)))"
      and fp: "case rs_fairplay ss of None \<Rightarrow> True | Some f \<Rightarrow> fp_complete f"
      unfolding ss by (auto simp: ss0_def)
    from verified_behind [OF j(2) [unfolded ss0_def]] j(1)
    have "\<exists>j \<le> length reqs. \<exists>secret. authentication_chain C (receiver_start C s) (pairing_events ds 0 (take j reqs)) secret"
      by blast
    moreover have "rs_fairplay ss = None" if "ps_features (sv_profile s) AND FEATURE_FPSAP25 = 0"
      unfolding ss using that by (intro run_no_fairplay) (simp add: ss0_def new_session_def)
    moreover have "fp_history (receiver_sap (ReceiverFpsap_new entropy)) FPSAP_MODE (fp_accepted C L s ds 0 ss0 reqs) 2"
      if "ps_features (sv_profile s) AND FEATURE_FPSAP25 \<noteq> 0"
    proof -
      have f0: "rs_fairplay ss0 = Some (ReceiverFpsap_new entropy)" using that by (simp add: ss0_def new_session_def)
      from run_fairplay [OF f0, of C L s ds 0 reqs] obtain f' where f': "rs_fairplay ss = Some f'"
        "fp_history (receiver_sap (ReceiverFpsap_new entropy)) FPSAP_MODE (fp_accepted C L s ds 0 ss0 reqs) (phase f')"
        by (auto simp: ss ReceiverFpsap_new_def FPSAP_MODE_def fp_history_def)
      with fp show ?thesis by (simp add: fp_complete_def)
    qed
    ultimately show ?thesis by simp
  qed
  from chan media show ?thesis unfolding run ss0_def by auto
qed

end
