(* ===== verification/Receiver_Control.thy ===== *)
theory Receiver_Control
  imports Receiver_Safety Control_Link
begin

text \<open>
  The sender's client against the receiver's server on one connection: an exchange over the bytes of the plain
  or encrypted channel has the effect of one call of \<open>dispatch\<close>, including the switch to encryption. Further,
  which requests need authentication, and the status bits the receiver advertises.
\<close>

subsection \<open>The responses of the dispatcher fit the client's limits\<close>

definition plain_headers :: "ServerResponse \<Rightarrow> bool" where
  "plain_headers resp \<longleftrightarrow> (sr_headers resp = Map.empty \<or> (\<exists>n < 2 ^ 64. sr_headers resp = clock_headers n)) \<and>
     sr_content_type resp \<in> {[], ''text/plain'', ''application/octet-stream'', BPLIST}"

lemma plain_headers_simps [simp]:
  "plain_headers (resp_ok b ''application/octet-stream'')" "plain_headers (resp_ok b BPLIST)"
  "plain_headers (resp_empty st)" "plain_headers (resp_text st m)"
  by (simp_all add: plain_headers_def resp_ok_def resp_empty_def resp_text_def)

lemma plain_headers_clock [simp]:
  "dr_millis d < 2 ^ 64 \<Longrightarrow> plain_headers r \<Longrightarrow> plain_headers (with_clock d r)"
  by (auto simp: plain_headers_def with_clock_def)

lemma fp_setup_plain [simp]: "plain_headers (fst (handle_fp_setup req ss))"
  by (simp add: handle_fp_setup_def split: option.split sum.split prod.split)

lemma setup_plain:
  assumes "dr_millis d < 2 ^ 64"
  shows "plain_headers (fst (handle_setup L s d req ss))"
proof -
  have "plain_headers (fst (case x of (Inl e, ss) \<Rightarrow> (resp_text 500 e, ss)
     | (Inr ep, ss) \<Rightarrow> (with_clock d (resp_ok (plist_write L (setup_value L s d ep (req_body req))) BPLIST), ss)))"
    for x :: "(string + MediaEndpoints) \<times> ReceiverSession"
    using assms by (simp split: sum.split prod.split)
  then show ?thesis unfolding handle_setup_def Let_def by simp
qed

lemma dispatch_plain:
  assumes "dr_millis d < 2 ^ 64"
  shows "plain_headers (fst (fst (dispatch C L s d req ss)))"
  using assms setup_plain [OF assms, of L s req ss]
  by (auto simp: dispatch_def Let_def case_prod_unfold info_plist_def)

lemma length_lines:
  "\<forall>l \<in> set ls. length l \<le> m \<Longrightarrow> length (concat (map (\<lambda>l. l @ crlf) ls)) \<le> length ls * (m + 2)"
  by (induction ls) (auto simp: crlf_def)

lemma length_order:
  assumes "hdr_order_ok hdr_list" "finite (dom m)"
  shows "length (hdr_list m) = card (dom m)"
proof -
  have "dom m = fst ` set (hdr_list m)"
    using hdr_order_okD(1) [OF assms] by (metis dom_map_of_conv_image_fst)
  then show ?thesis
    using hdr_order_okD(2) [OF assms] by (metis distinct_card length_map set_map)
qed

lemma length_status_text: "length (status_text st) \<le> 40"
  by (simp add: status_text_def)

lemma length_dec_u16: "length (dec (unat (st :: u16))) \<le> 20"
proof -
  have "unat st < 2 ^ 16" using unsigned_less [of st, where 'a = nat] by simp
  then show ?thesis by (intro length_dec_u64) simp
qed

lemma clock_names:
  "token ''X-Apple-RequestReceivedTimestamp''" "token ''X-Apple-ProcessingTime''"
  "CHR '':'' \<notin> set ''X-Apple-RequestReceivedTimestamp''" "CHR '':'' \<notin> set ''X-Apple-ProcessingTime''"
  "to_ascii_lowercase ''X-Apple-RequestReceivedTimestamp'' \<noteq> ''content-length''"
  "to_ascii_lowercase ''X-Apple-ProcessingTime'' \<noteq> ''content-length''"
  by (simp_all add: token_def visible_def ascii_char_def ascii_white_def to_ascii_lowercase_def)

lemma dispatch_response_ok:
  assumes "hdr_order_ok hdr_list" "plain_headers resp" "n < 2 ^ 64" "length (sr_body resp) \<le> MAX_RESPONSE_BODY"
  shows "response_ok hdr_list (Some (dec n)) resp"
proof -
  define ls where "ls = response_lines hdr_list (Some (dec n)) resp"
  have clock: "length k \<le> 40 \<and> length v \<le> 20 \<and> header_ok 16384 (k, v) \<and> to_ascii_lowercase k \<noteq> ''content-length''"
    if "clock_headers t k = Some v" "t < 2 ^ 64" for t k v
  proof -
    have "max t 1 < 2 ^ 64" using that(2) by simp
    from length_dec_u64 [OF this] have l: "length (dec (max t 1)) \<le> 20" .
    have h: "header_ok 16384 (''X-Apple-RequestReceivedTimestamp'', dec (max t 1))"
      using that(2) by (intro dec_header_ok; simp only: clock_names; simp)
    have h1: "header_ok 16384 (''X-Apple-ProcessingTime'', ''1'')"
      by (simp add: header_ok_def clock_names trimmed_def visible_def ascii_char_def ascii_white_def)
    show ?thesis
      using that(1) l h h1 clock_names by (auto simp: clock_headers_def split: if_splits)
  qed
  have dom: "finite (dom (sr_headers resp))" "card (dom (sr_headers resp)) \<le> 2"
    using assms(2) by (auto simp: plain_headers_def clock_headers_def card_insert_if)
  have hdr: "length k \<le> 40 \<and> length v \<le> 20 \<and> header_ok 16384 (k, v) \<and> to_ascii_lowercase k \<noteq> ''content-length''"
    if "sr_headers resp k = Some v" for k v
    using that assms(2) clock by (auto simp: plain_headers_def)
  have ct: "text_line (sr_content_type resp)" "trimmed (sr_content_type resp)" "length (sr_content_type resp) \<le> 40"
    using assms(2) by (auto simp: plain_headers_def BPLIST_def trimmed_def visible_def ascii_char_def ascii_white_def)
  have body: "length (dec (length (sr_body resp))) \<le> 20" "length (dec n) \<le> 20"
    using assms(3,4) by (auto intro!: length_dec_u64 simp: MAX_RESPONSE_BODY_def)
  have short: "length l \<le> 100" if "l \<in> set ls" for l
    using that body ct(3) length_status_text [of "sr_status resp"] length_dec_u16 [of "sr_status resp"]
      hdr hdr_order_okD(3) [OF assms(1) dom(1)]
    by (fastforce simp: ls_def response_lines_def response_headers_def response_line_def split: if_splits)
  have "length ls \<le> 7"
    using length_order [OF assms(1) dom(1)] dom(2) by (simp add: ls_def response_lines_def response_headers_def)
  moreover have "length (concat (map (\<lambda>l. l @ crlf) ls)) \<le> length ls * (100 + 2)"
    using short by (intro length_lines) blast
  ultimately have "length (concat (map (\<lambda>l. l @ crlf) ls) @ crlf) \<le> 16384"
    by (simp add: crlf_def)
  then show ?thesis
    using assms(4) ct dom(1) hdr token_trimmed [OF dec_token]
    by (auto simp: response_ok_def extra_ok_def ls_def)
qed

subsection \<open>An exchange as one dispatch\<close>

lemma arrived_cseq:
  assumes "hdr_order_ok hdr_list" "request_ok meth uri ct bdy extra" "\<forall>k \<in> dom extra. to_ascii_lowercase k \<noteq> ''cseq''"
  shows "req_headers (arrived hdr_list c meth uri ct bdy extra) ''cseq'' = Some (dec (unat (cseq c + 1)))"
proof -
  define hs where "hs = client_headers hdr_list (unat (cseq c + 1)) ct bdy extra"
  have fin: "finite (dom extra)" using assms(2) by (simp add: request_ok_def extra_ok_def)
  have "(''CSeq'', dec (unat (cseq c + 1))) \<in> set hs" by (simp add: hs_def client_headers_def)
  moreover have "\<forall>(k', v') \<in> set hs. to_ascii_lowercase k' = to_ascii_lowercase ''CSeq'' \<longrightarrow> v' = dec (unat (cseq c + 1))"
    using assms(3) hdr_order_okD(3) [OF assms(1) fin]
    by (auto simp: hs_def client_headers_def lower_names)
  ultimately have "lower_map hs (to_ascii_lowercase ''CSeq'') = Some (dec (unat (cseq c + 1)))"
    by (rule lower_map_cases(1))
  then show ?thesis by (simp add: arrived_def hs_def lower_names)
qed

lemma linked_switch:
  assumes "linked c io"
  shows "encrypted c \<or> linked (enable_hap_encryption (sk_read_key k) (sk_write_key k) c) (switch_stream (Some k) io)"
  using assms by (cases io) (simp_all add: enable_hap_encryption_def switch_stream_def HapStream_new_def)

text \<open>C5. A request of the client over the bytes of the channel, plain or encrypted, has exactly the effect of one
  \<open>dispatch\<close> on the receiver's session: the receiver reads the request, the client gets the status and body of
  the response, and both stay in step; and when the response completes pair-verify on a plain channel, the two
  ends are in step again after both have switched to encryption with the keys of that exchange.\<close>

theorem control_refines_dispatch:
  assumes "aead_ok C" "hdr_order_ok hdr_list" "linked c io" "request_ok meth uri ct bdy extra"
    and "\<forall>k \<in> dom extra. to_ascii_lowercase k \<noteq> ''cseq''" "length bdy \<le> BODY_LIMIT" "dr_millis d < 2 ^ 64"
    and "req = arrived hdr_list c meth uri ct bdy extra"
    and "c1 = send_request C hdr_list meth uri ct bdy extra c" "cl_out c1 = cl_out c @ wire"
    and "dispatch C L s d req ss = ((resp, ks), ss')" "length (sr_body resp) \<le> MAX_RESPONSE_BODY"
  shows "\<exists>io1 out io2 c2 hs.
    read_request C (deliver wire io) = (Inr req, io1) \<and> write_response C hdr_list req resp io1 = (out, io2) \<and>
    client_read_response C (c1\<lparr>cl_in := out\<rparr>) = (Inr \<lparr>status = sr_status resp, headers = hs, body = sr_body resp\<rparr>, c2) \<and>
    linked c2 io2 \<and>
    (case ks of None \<Rightarrow> linked c2 (switch_stream ks io2)
     | Some k \<Rightarrow> encrypted c2 \<or>
         linked (enable_hap_encryption (sk_read_key k) (sk_write_key k) c2) (switch_stream ks io2))"
proof -
  have cs: "req_headers req ''cseq'' = Some (dec (unat (cseq c + 1)))"
    unfolding assms(8) by (rule arrived_cseq [OF assms(2,4,5)])
  have "plain_headers resp" using dispatch_plain [OF assms(7), of C L s req ss] assms(11) by simp
  then have ok: "response_ok hdr_list (req_headers req ''cseq'') resp"
    unfolding cs by (rule dispatch_response_ok [OF assms(2) _ unat_u64 assms(12)])
  from exchange_step [OF assms(1-4,6) assms(10) [unfolded assms(9)] assms(8)] obtain io1 where
    1: "read_request C (deliver wire io) = (Inr req, io1)" and
    2: "\<forall>resp out s2. response_ok hdr_list (req_headers req ''cseq'') resp \<longrightarrow>
         write_response C hdr_list req resp io1 = (out, s2) \<longrightarrow>
         (\<exists>c2. client_read_response C (c1\<lparr>cl_in := out\<rparr>) = (Inr (returned hdr_list req resp), c2) \<and> linked c2 s2)"
    unfolding assms(9) by blast
  obtain out io2 where w: "write_response C hdr_list req resp io1 = (out, io2)" by fastforce
  with 2 ok obtain c2 where 3: "client_read_response C (c1\<lparr>cl_in := out\<rparr>) = (Inr (returned hdr_list req resp), c2)"
    "linked c2 io2" by blast
  have "case ks of None \<Rightarrow> linked c2 (switch_stream ks io2)
     | Some k \<Rightarrow> encrypted c2 \<or>
         linked (enable_hap_encryption (sk_read_key k) (sk_write_key k) c2) (switch_stream ks io2)"
    using linked_switch [OF 3(2)] 3(2) by (cases ks) (simp_all add: switch_stream_def)
  with 1 w 3 show ?thesis by (auto simp: returned_def)
qed

definition demo_server :: ReceiverServer where
  "demo_server = ReceiverServer_new toy_crypto (replicate 6 1) (replicate 32 9) ''id'' (Some (V4 192 168 0 2))
     (ReceiverConfig_default\<lparr>cfg_profile := Roku\<rparr>)"

definition demo_draws :: draws where
  "demo_draws = \<lparr>dr_salt = [1, 2], dr_b = [1], dr_private = replicate 32 4, dr_uuid = ''u'', dr_millis = 5,
     dr_probe1 = None, dr_probe2 = None,
     dr_media = Inr \<lparr>event_port = 1, video_port = 2, audio_rtp_port = 3, audio_rtcp_port = 4, timing_port = 5\<rparr>\<rparr>"

definition demo_plist :: plist_lib where
  "demo_plist = \<lparr>plist_write = (\<lambda>v. [1, 2, 3]), plist_read = (\<lambda>b. None)\<rparr>"

theorem control_refines_dispatch_witness:
  "\<exists>io1 out io2 c2 hs.
    read_request toy_crypto (deliver (cl_out (send_request toy_crypto key_order ''POST'' ''/feedback'' ''text/plain'' [7] Map.empty demo_client))
        (Hap (HapStream_new [] [1] [2]))) =
      (Inr (arrived key_order demo_client ''POST'' ''/feedback'' ''text/plain'' [7] Map.empty), io1) \<and>
    client_read_response toy_crypto ((send_request toy_crypto key_order ''POST'' ''/feedback'' ''text/plain'' [7] Map.empty demo_client)\<lparr>cl_in := out\<rparr>)
      = (Inr \<lparr>status = 455, headers = hs, body = s2b ''pair-verify must complete first''\<rparr>, c2) \<and> linked c2 io2"
proof -
  define ss where "ss = new_session toy_crypto demo_server []"
  define req where "req = arrived key_order demo_client ''POST'' ''/feedback'' ''text/plain'' [7] Map.empty"
  have d: "dispatch toy_crypto demo_plist demo_server demo_draws req ss =
      ((resp_text 455 ''pair-verify must complete first'', None), ss)"
    by (rule dispatch_unverified)
      (simp_all add: req_def arrived_def is_session_request_def request_path_def strip_prefix_def ss_def is_verified_def
        receiver_start_def ReceiverPairing_new_def)
  have l: "linked demo_client (Hap (HapStream_new [] [1] [2]))"
    by (simp add: demo_client_def enable_hap_encryption_def connected_def HapStream_new_def)
  have r: "request_ok ''POST'' ''/feedback'' ''text/plain'' [7] Map.empty" by (rule demo_request_ok) simp
  have o: "cl_out (send_request toy_crypto key_order ''POST'' ''/feedback'' ''text/plain'' [7] Map.empty demo_client) =
      cl_out demo_client @ cl_out (send_request toy_crypto key_order ''POST'' ''/feedback'' ''text/plain'' [7] Map.empty demo_client)"
    by (simp add: demo_client_def enable_hap_encryption_def connected_def)
  show ?thesis
    using control_refines_dispatch [OF toy_crypto_ok(1) key_order_ok l r _ _ _ req_def refl o d]
    by (auto simp: resp_text_def req_def BODY_LIMIT_def demo_draws_def MAX_RESPONSE_BODY_def)
qed

subsection \<open>Requests behind authentication\<close>

text \<open>C16. The gate: for every list of requests and every draw, when the request at some position belongs to a session
  (SETUP, RECORD, SET_PARAMETER, TEARDOWN, \<open>/fp-setup\<close>, \<open>/feedback\<close>) and is answered otherwise than with 455, the
  pairing requests before it contain a complete authentication chain.\<close>

theorem session_requests_authenticated:
  assumes "i < length reqs" "is_session_request (reqs ! i)"
    and "sr_status (fst (fst (dispatch C L s (ds i) (reqs ! i)
           (srv_state C L s ds 0 (new_session C s entropy) (take i reqs))))) \<noteq> 455"
  shows "\<exists>secret. authentication_chain C (receiver_start C s) (pairing_events ds 0 (take i reqs)) secret"
proof -
  have "verified (rs_pairing (srv_state C L s ds 0 (new_session C s entropy) (take i reqs)))"
  proof (rule ccontr)
    assume "\<not> ?thesis"
    then have "sr_status (fst (fst (dispatch C L s (ds i) (reqs ! i)
        (srv_state C L s ds 0 (new_session C s entropy) (take i reqs))))) = 455"
      using dispatch_unverified [OF assms(2)] by (simp add: is_verified_def resp_text_def)
    with assms(3) show False by simp
  qed
  from verified_behind [OF this] show ?thesis by blast
qed

definition pairing_request :: "pairing_event \<Rightarrow> Request" where
  "pairing_request e = (case e of
     PairSetup salt b m \<Rightarrow> \<lparr>req_method = ''POST'', req_uri = ''/pair-setup'', req_headers = Map.empty, req_body = m\<rparr>
   | PairVerify priv m \<Rightarrow> \<lparr>req_method = ''POST'', req_uri = ''/pair-verify'', req_headers = Map.empty, req_body = m\<rparr>)"

lemma pairing_request_event:
  "dr_salt d = salt \<Longrightarrow> dr_b d = b \<Longrightarrow> pairing_event_of d (pairing_request (PairSetup salt b m)) = Some (PairSetup salt b m)"
  "dr_private d = priv \<Longrightarrow> pairing_event_of d (pairing_request (PairVerify priv m)) = Some (PairVerify priv m)"
  by (simp_all add: pairing_event_of_def pairing_request_def request_path_def strip_prefix_def)

definition record_request :: Request where
  "record_request = \<lparr>req_method = ''RECORD'', req_uri = ''rtsp://h/1'', req_headers = Map.empty, req_body = []\<rparr>"

definition demo_pin_server :: ReceiverServer where
  "demo_pin_server = \<lparr>sv_cfg = ReceiverConfig_default\<lparr>code := ''3939''\<rparr>, sv_profile = profile_spec Modern,
     sv_local_addr = None, sv_signing_key = [9], sv_verifying_key = [], sv_identifier = ''rx''\<rparr>"

theorem session_requests_authenticated_witness:
  "\<exists>evs secret. authentication_chain wit_crypto (receiver_start wit_crypto demo_pin_server)
     (pairing_events (\<lambda>_. demo_draws) 0 (map pairing_request evs)) secret"
proof -
  define evs where "evs = zero_key_run wit_crypto [1, 2]
    (srp_server_public wit_crypto (srp_verifier wit_crypto [1, 2] ''Pair-Setup'' ''3939'') [1])
    [1] (replicate 32 4) (replicate 32 5) [66] (replicate 32 6)"
  define reqs where "reqs = map pairing_request evs @ [record_request]"
  define ss where "ss = srv_state wit_crypto demo_plist demo_pin_server (\<lambda>_. demo_draws) 0
    (new_session wit_crypto demo_pin_server []) (take (length evs) reqs)"
  have "pairing_events (\<lambda>_. demo_draws) k (map pairing_request evs) = evs" for k
    by (simp add: evs_def zero_key_run_def pairing_request_event demo_draws_def)
  then have "rs_pairing ss = rp_exec wit_crypto (ReceiverPairing_new wit_crypto ''rx'' ''Pair-Setup'' [9] ''3939'') evs"
    by (simp add: ss_def reqs_def run_pairing receiver_start_def demo_pin_server_def)
  moreover have "verified (rp_exec wit_crypto (ReceiverPairing_new wit_crypto ''rx'' ''Pair-Setup'' [9] ''3939'') evs)"
    unfolding evs_def by (intro zero_key_verified) (simp_all add: wit_hash, simp add: of_be_def)
  ultimately have "is_verified (rs_pairing ss)" by (simp add: is_verified_def)
  then have st: "sr_status (fst (fst (dispatch wit_crypto demo_plist demo_pin_server demo_draws record_request ss))) \<noteq> 455"
    by (simp add: dispatch_def record_request_def Let_def with_clock_def resp_empty_def)
  have nth: "reqs ! length evs = record_request" "length evs < length reqs" "take (length evs) reqs = map pairing_request evs"
    by (simp_all add: reqs_def nth_append)
  have "is_session_request record_request" by (simp add: is_session_request_def record_request_def Let_def)
  with session_requests_authenticated [OF nth(2), unfolded nth(1), of wit_crypto demo_plist demo_pin_server "\<lambda>_. demo_draws" "[]"] st
  show ?thesis unfolding ss_def nth(3) by blast
qed

subsection \<open>What the receiver advertises\<close>

text \<open>What the sender reads from the status bits of a receiver and from the features of its profile.\<close>

lemma advertised_bits:
  "status_flags i = advertised_status a \<Longrightarrow> \<not> requires_pin_pairing i \<and> \<not> requires_password i"
  "features i = ps_features (profile_spec p) \<Longrightarrow> prefers_legacy_pairing i \<and> (supports_fairplay_sap i \<longleftrightarrow> p = Modern)"
proof -
  have "advertised_status a AND push_bit 9 1 = 0 \<and> advertised_status a AND push_bit 7 1 = 0"
    by (cases a) (simp_all add: advertised_status_def)
  moreover assume "status_flags i = advertised_status a"
  ultimately show "\<not> requires_pin_pairing i \<and> \<not> requires_password i"
    by (simp add: requires_pin_pairing_def requires_password_def STATUS_FLAG_PIN_REQUIRED_FOR_PAIRING_def
        STATUS_FLAG_PASSWORD_REQUIRED_def)
next
  have "ps_features (profile_spec p) AND FEATURE_THIRD_PARTY_RECEIVER_MASK \<noteq> 0"
    "ps_features (profile_spec p) AND FEATURE_FPSAP25 \<noteq> 0 \<longleftrightarrow> p = Modern"
    by (cases p; simp add: profile_spec_def FEATURE_THIRD_PARTY_RECEIVER_MASK_def FEATURE_FPSAP25_def)+
  moreover assume "features i = ps_features (profile_spec p)"
  ultimately show "prefers_legacy_pairing i \<and> (supports_fairplay_sap i \<longleftrightarrow> p = Modern)"
    by (simp add: prefers_legacy_pairing_def uses_modern_pairing_def supports_fairplay_sap_def)
qed

text \<open>The bits advertised do not say to the sender of this repository what they are meant to say: whatever
  authentication is configured, it reads neither a required PIN nor a required password from them; it takes both
  profiles for receivers of the original pairing flow, the one called modern as well; and only the modern profile
  offers it FairPlay.\<close>

theorem advertised_bits_misread:
  "\<not> requires_pin_pairing (i\<lparr>status_flags := advertised_status a\<rparr>)
   \<and> \<not> requires_password (i\<lparr>status_flags := advertised_status a\<rparr>)
   \<and> prefers_legacy_pairing (i\<lparr>features := ps_features (profile_spec p)\<rparr>)
   \<and> (supports_fairplay_sap (i\<lparr>features := ps_features (profile_spec p)\<rparr>) \<longleftrightarrow> p = Modern)"
  using advertised_bits(1) [of "i\<lparr>status_flags := advertised_status a\<rparr>" a]
    advertised_bits(2) [of "i\<lparr>features := ps_features (profile_spec p)\<rparr>" p] by simp

end
