(* ===== verification/Wire.thy ===== *)
theory Wire
  imports Mirror_Setup Receiver_Control
begin

text \<open>
  The transport between the sender's client and this repository's receiver on one connection: the bytes the
  client sends are parsed and answered by the receiver, and the client reads the bytes of the answer. A successful
  exchange is one step of both ends, which stay in step; of the client only counters and buffers change.
\<close>

subsection \<open>What a request leaves alone in the client\<close>

definition core :: "Client \<Rightarrow> Client" where
  "core c = c\<lparr>cseq := 0, cl_in := [], cl_out := [], enc_write_nonce := 0, enc_read_nonce := 0\<rparr>"

lemma core_fields:
  assumes "core c' = core c"
  shows "cl_host c' = cl_host c" "cl_port c' = cl_port c" "cl_info c' = cl_info c" "cl_pair_keys c' = cl_pair_keys c"
    "Client.encrypted c' = Client.encrypted c" "fp_key c' = fp_key c" "fp_iv c' = fp_iv c" "fp_ekey c' = fp_ekey c"
    "fp_aes_key c' = fp_aes_key c" "auth_challenge c' = auth_challenge c"
  using assms by (cases c; cases c'; simp add: core_def)+

lemma core_update [simp]:
  "core (c\<lparr>cseq := a\<rparr>) = core c" "core (c\<lparr>cl_in := b\<rparr>) = core c" "core (c\<lparr>cl_out := b\<rparr>) = core c"
  "core (c\<lparr>enc_write_nonce := n\<rparr>) = core c" "core (c\<lparr>enc_read_nonce := n\<rparr>) = core c"
  by (simp_all add: core_def)

lemma core_send: "core (send_request C hl meth uri ct b extra c) = core c"
  by (simp add: send_request_def client_hap_encrypt_def Let_def split: prod.split)

lemma core_frame: "client_frame C c = (r, c') \<Longrightarrow> core c' = core c"
  by (auto simp: client_frame_def Let_def split: prod.splits)

lemma core_head_frames: "read_head_frames C d c = (r, c') \<Longrightarrow> core c' = core c"
proof (induction C d c arbitrary: r c' rule: read_head_frames.induct)
  case (1 C d c)
  show ?case
  proof (cases "find_subslice d head_end \<noteq> None")
    case True
    with "1.prems" show ?thesis by (simp add: read_head_frames.simps [of C d])
  next
    case False
    obtain f c1 where f: "client_frame C c = (f, c1)" by fastforce
    from core_frame [OF f] "1.IH" [OF False f [symmetric]] "1.prems" False f show ?thesis
      by (subst (asm) read_head_frames.simps) (auto simp: Let_def split: sum.splits if_splits)
  qed
qed

lemma core_body_frames: "read_body_frames C n d c = (r, c') \<Longrightarrow> core c' = core c"
proof (induction C n d c arbitrary: r c' rule: read_body_frames.induct)
  case (1 C n d c)
  obtain f c1 where f: "client_frame C c = (f, c1)" by fastforce
  from core_frame [OF f] "1.IH" [OF _ f [symmetric]] "1.prems" f show ?case
    by (subst (asm) read_body_frames.simps) (auto split: sum.splits if_splits)
qed

lemma core_read_response: "client_read_response C c = (r, c') \<Longrightarrow> core c' = core c"
  by (auto simp: client_read_response_def read_encrypted_response_def read_plaintext_response_def Let_def
      dest!: core_head_frames core_body_frames split: if_splits sum.splits prod.splits)

lemma send_request_cl_in:
  "send_request C hl meth uri ct b extra (c\<lparr>cl_in := i\<rparr>) = (send_request C hl meth uri ct b extra c)\<lparr>cl_in := i\<rparr>"
  by (simp add: send_request_def client_hap_encrypt_def Let_def split: prod.split)

lemma send_request_out: "\<exists>wire. cl_out (send_request C hl meth uri ct b extra c) = cl_out c @ wire"
  by (auto simp: send_request_def client_hap_encrypt_def Let_def split: prod.split)

subsection \<open>The transport\<close>

text \<open>
  The receiver's end: its session, its stream, and the number of requests handled so far. One request is read and
  answered as in the body of \<open>serve_loop\<close>; bytes that are no request get no answer.
\<close>

type_synonym receiver_end = "ReceiverSession \<times> CtrlStream \<times> nat"

definition receiver_answer ::
  "crypto \<Rightarrow> hdr_order \<Rightarrow> plist_lib \<Rightarrow> ReceiverServer \<Rightarrow> (nat \<Rightarrow> draws) \<Rightarrow> bytes \<Rightarrow> receiver_end \<Rightarrow> bytes \<times> receiver_end" where
  "receiver_answer C hl L s ds wire = (\<lambda>(ss, io, k).
    case read_request C (deliver wire io) of
      (Inl e, io) \<Rightarrow> ([], (ss, io, k))
    | (Inr req, io) \<Rightarrow>
        let ((resp, keys), ss) = dispatch C L s (ds k) req ss;
            (out, io) = write_response C hl req resp io
        in (out, (ss, switch_stream keys io, Suc k)))"

text \<open>The client's request over it; the headers are those of the first attempt of \<open>request_inner\<close>.\<close>

definition first_headers ::
  "(bytes \<Rightarrow> bytes) \<Rightarrow> string \<Rightarrow> string \<Rightarrow> (string \<Rightarrow> string option) \<Rightarrow> Client \<Rightarrow> string \<Rightarrow> string option" where
  "first_headers md5 meth uri extra c =
    (case preemptive_auth_header md5 meth uri c of None \<Rightarrow> extra | Some h \<Rightarrow> extra(''Authorization'' \<mapsto> h))"

definition wire_rtsp ::
  "crypto \<Rightarrow> (bytes \<Rightarrow> bytes) \<Rightarrow> hdr_order \<Rightarrow> plist_lib \<Rightarrow> ReceiverServer \<Rightarrow> (nat \<Rightarrow> draws) \<Rightarrow> receiver_end rtsp" where
  "wire_rtsp C md5 hl L s ds meth uri ct b extra = (\<lambda>(c, w).
    let wire = drop (length (cl_out c)) (cl_out (send_request C hl meth uri ct b (first_headers md5 meth uri extra c) c));
        (out, w) = receiver_answer C hl L s ds wire w;
        (r, c) = rtsp_request C md5 hl meth uri ct b extra (c\<lparr>cl_in := out\<rparr>)
    in (r, (c, w)))"

definition in_step :: "Client \<Rightarrow> receiver_end \<Rightarrow> bool" where
  "in_step c w \<longleftrightarrow> linked c (fst (snd w)) \<and> auth_challenge c = None"

lemma wire_step:
  assumes "aead_ok C" "hdr_order_ok hl" "in_step c (ss, io, k)" "request_ok meth uri ct b extra"
    and "\<forall>n \<in> dom extra. to_ascii_lowercase n \<noteq> ''cseq''" "length b \<le> BODY_LIMIT" "dr_millis (ds k) < 2 ^ 64"
    and "dispatch C L s (ds k) (arrived hl c meth uri ct b extra) ss = ((resp, None), ss')"
    and "length (sr_body resp) \<le> MAX_RESPONSE_BODY" "sr_status resp = 200"
  shows "\<exists>c' io' cs. wire_rtsp C md5 hl L s ds meth uri ct b extra (c, (ss, io, k)) =
      (Inr (sr_body resp, lower_map (response_headers hl cs resp)), (c', (ss', io', Suc k))) \<and>
      in_step c' (ss', io', Suc k) \<and> core c' = core c"
proof -
  define req where "req = arrived hl c meth uri ct b extra"
  obtain wire where w: "cl_out (send_request C hl meth uri ct b extra c) = cl_out c @ wire"
    using send_request_out by blast
  have link: "linked c io" and auth: "auth_challenge c = None" using assms(3) by (simp_all add: in_step_def)
  have pre: "preemptive_auth_header md5 meth uri (c\<lparr>cl_in := i\<rparr>) = None" "preemptive_auth_header md5 meth uri c = None" for i
    using auth by (simp_all add: preemptive_auth_header_def)
  have cs: "req_headers req ''cseq'' = Some (dec (unat (cseq c + 1)))"
    unfolding req_def by (rule arrived_cseq [OF assms(2,4,5)])
  have "plain_headers resp" using dispatch_plain [OF assms(7), of C L s req ss] assms(8) by (simp add: req_def)
  then have ok: "response_ok hl (req_headers req ''cseq'') resp"
    unfolding cs by (rule dispatch_response_ok [OF assms(2) _ unat_u64 assms(9)])
  from exchange_step [OF assms(1,2) link assms(4,6) w req_def] obtain s1 where
    1: "read_request C (deliver wire io) = (Inr req, s1)" and
    2: "\<forall>resp out s2. response_ok hl (req_headers req ''cseq'') resp \<longrightarrow> write_response C hl req resp s1 = (out, s2) \<longrightarrow>
         (\<exists>c2. client_read_response C ((send_request C hl meth uri ct b extra c)\<lparr>cl_in := out\<rparr>) =
            (Inr (returned hl req resp), c2) \<and> linked c2 s2)" by blast
  obtain out io' where wr: "write_response C hl req resp s1 = (out, io')" by fastforce
  with 2 ok obtain c2 where
    3: "client_read_response C ((send_request C hl meth uri ct b extra c)\<lparr>cl_in := out\<rparr>) = (Inr (returned hl req resp), c2)"
    "linked c2 io'" by blast
  have core: "core c2 = core c"
    using core_read_response [OF 3(1)] core_send [of C hl meth uri ct b extra c] by simp
  have "rtsp_request C md5 hl meth uri ct b extra (c\<lparr>cl_in := out\<rparr>) =
      (Inr (sr_body resp, headers (returned hl req resp)), c2)"
    using 3(1) assms(10)
    by (simp add: rtsp_request_def request_inner_def pre request_once_def send_request_cl_in ok_body_def returned_def)
  then have "wire_rtsp C md5 hl L s ds meth uri ct b extra (c, (ss, io, k)) =
      (Inr (sr_body resp, headers (returned hl req resp)), (c2, (ss', io', Suc k)))"
    using 1 wr assms(8) by (simp add: wire_rtsp_def receiver_answer_def first_headers_def pre w req_def switch_stream_def)
  moreover have "in_step c2 (ss', io', Suc k)"
    using 3(2) auth core_fields(10) [OF core] by (simp add: in_step_def)
  ultimately show ?thesis using core by (auto simp: returned_def)
qed

end
