(* ===== verification/Receiver_Info.thy ===== *)
theory Receiver_Info
  imports Wire
begin

text \<open>
  What the sender learns from the receiver of this repository by \<open>get_info\<close>: the request and the answer over the
  bytes of the control connection, the property list of the receiver (\<open>info_plist\<close>) and the deserializer of the
  sender (\<open>ReceiverInfo\<close>).
\<close>

subsection \<open>The property list of the receiver, read by the sender\<close>

definition advertised_info :: "ReceiverServer \<Rightarrow> ReceiverInfo" where
  "advertised_info s =
    \<lparr>name = cfg_name (sv_cfg s), model = cfg_model (sv_cfg s), manufacturer = ''lumen'',
     device_id = cfg_device_id (sv_cfg s), protocol_version = ''1.1'', source_version = ps_source_version (sv_profile s),
     features = ps_features (sv_profile s), status_flags = advertised_status (auth (sv_cfg s)),
     pk = sv_verifying_key s, has_udp_mirroring = False, hdr_capability = [], volume_control_type = 0,
     initial_volume = Finite 0 0, keep_alive_send_stats_as_body = True, ri_psi = [], ri_pi = [],
     mac_address = cfg_device_id (sv_cfg s),
     displays = [\<lparr>width = 1920, height = 1080, width_pixels = 1920, height_pixels = 1080\<rparr>]\<rparr>"

lemma de_field_simps [simp]:
  "is_dict d \<Longrightarrow> de_field (d_insert k' v d) k x f = (if k = k' then f v else de_field d k x f)"
  "de_field p_dict k x f = Inr x"
  by (simp_all add: de_field_def p_get_insert)

lemma as_dictionary_is_dict [simp]: "is_dict d \<Longrightarrow> as_dictionary d \<noteq> None"
  by (simp add: is_dict_def)

lemma status_as_int: "sint (advertised_status a) = int (unat (advertised_status a))"
  by (cases a) (simp_all add: advertised_status_def)

lemma de_display:
  assumes "plist_de_ok D"
  shows "de_DisplayInfo D (info_display u) = Inr \<lparr>width = 1920, height = 1080, width_pixels = 1920, height_pixels = 1080\<rparr>"
  using plist_number_int [OF assms]
  by (simp add: de_DisplayInfo_def info_display_def p_build_def d_int_def d_string_def)

lemma de_u64_word: "plist_de_ok D \<Longrightarrow> de_u64 D (PInt (int (unat w))) = Inr w"
  using plist_deD(2) [of D "uint w"] unsigned_less [of w, where 'a = int] by simp

lemma info_read:
  assumes "plist_de_ok D"
  shows "de_ReceiverInfo D (info_value s u) = Inr (advertised_info s)"
  using plist_deD [OF assms] plist_data_forms(1) [OF assms] plist_flag_forms(1) [OF assms] plist_number_int [OF assms, of 0]
    de_u64_word [OF assms] de_display [OF assms]
  by (simp add: de_ReceiverInfo_def info_value_def p_build_def d_int_def d_string_def d_bool_def de_displays_def
      status_as_int advertised_info_def)

subsection \<open>The request over the connection\<close>

text \<open>\<open>get_info\<close> of the client, with the receiver's answer to its request as its input.\<close>

definition wire_get_info ::
  "crypto \<Rightarrow> (bytes \<Rightarrow> bytes) \<Rightarrow> hdr_order \<Rightarrow> plist_lib \<Rightarrow> plist_de \<Rightarrow> ReceiverServer \<Rightarrow> (nat \<Rightarrow> draws) \<Rightarrow>
     Client \<times> receiver_end \<Rightarrow> ReceiverInfo res \<times> (Client \<times> receiver_end)" where
  "wire_get_info C md5 hl L D s ds = (\<lambda>(c, w).
    let wire = drop (length (cl_out c))
          (cl_out (send_request C hl ''GET'' ''/info'' BPLIST [] (first_headers md5 ''GET'' ''/info'' Map.empty c) c));
        (out, w) = receiver_answer C hl L s ds wire w;
        (r, c) = get_info C md5 hl L D (c\<lparr>cl_in := out\<rparr>)
    in (r, (c, w)))"

lemma http_of_rtsp:
  "rtsp_request C md5 hl meth uri ct b extra c = (Inr (d, hs), c') \<Longrightarrow> http_request C md5 hl meth uri ct b extra c = (Inr d, c')"
  by (auto simp: rtsp_request_def http_request_def rbind_Inr_iff split: prod.splits sum.splits)

lemma wire_get_info_rtsp:
  assumes "wire_rtsp C md5 hl L s ds ''GET'' ''/info'' BPLIST [] Map.empty (c, w) = (Inr (d, hs), (c', w'))"
    and "parse_info L D d = Some i"
  shows "wire_get_info C md5 hl L D s ds (c, w) = (Inr i, (c'\<lparr>cl_info := Some i\<rparr>, w'))"
proof -
  define wire where "wire = drop (length (cl_out c))
    (cl_out (send_request C hl ''GET'' ''/info'' BPLIST [] (first_headers md5 ''GET'' ''/info'' Map.empty c) c))"
  obtain out w1 where a: "receiver_answer C hl L s ds wire w = (out, w1)" by (rule prod.exhaust)
  then have r: "rtsp_request C md5 hl ''GET'' ''/info'' BPLIST [] Map.empty (c\<lparr>cl_in := out\<rparr>) = (Inr (d, hs), c')" "w1 = w'"
    using assms(1) by (auto simp: wire_rtsp_def wire_def [symmetric] split: prod.splits)
  from http_of_rtsp [OF r(1)] assms(2) have "get_info C md5 hl L D (c\<lparr>cl_in := out\<rparr>) = (Inr i, c'\<lparr>cl_info := Some i\<rparr>)"
    by (simp add: get_info_def BPLIST_def)
  with a r(2) show ?thesis by (simp add: wire_get_info_def wire_def [symmetric])
qed

lemma in_step_info [simp]: "in_step (c\<lparr>cl_info := i\<rparr>) w = in_step c w"
  by (cases "fst (snd w)") (simp_all add: in_step_def)

lemma info_request_ok: "request_ok ''GET'' ''/info'' BPLIST [] Map.empty"
  by (simp add: request_ok_def extra_ok_def token_def trimmed_def visible_def ascii_char_def ascii_white_def
      HEADER_LIMIT_def BPLIST_def)

lemma info_dispatched:
  "dispatch C L s d (arrived hl c ''GET'' ''/info'' BPLIST [] Map.empty) ss = ((info_plist L s (dr_uuid d), None), ss)"
  by (simp add: dispatch_def Let_def arrived_def is_session_request_def request_path_def strip_prefix_def)

text \<open>C9. \<open>get_info\<close> over the bytes of the connection, plain or encrypted, against the receiver of the repository:
  it succeeds without authentication, changes nothing in the session, leaves both ends in step, and the sender then holds
  the name, model, identifier, versions, features, key and display size the receiver is configured with. But of the
  authentication configured it learns nothing: neither a PIN nor a password is said to be required, whatever the
  receiver asks for later; both profiles are taken for receivers of the original pairing flow; and FairPlay is offered by
  the modern profile only.\<close>

theorem info_understood:
  assumes "aead_ok C" "hdr_order_ok hl" "in_step c (ss, io, k)" "plist_de_ok D"
    and "plist_arrives L MAX_RESPONSE_BODY (info_value s (dr_uuid (ds k)))" "dr_millis (ds k) < 2 ^ 64"
    and "sv_profile s = profile_spec p"
  shows "\<exists>i c' io'. wire_get_info C md5 hl L D s ds (c, (ss, io, k)) = (Inr i, (c', (ss, io', Suc k))) \<and>
    in_step c' (ss, io', Suc k) \<and> cl_info c' = Some i \<and>
    name i = cfg_name (sv_cfg s) \<and> model i = cfg_model (sv_cfg s) \<and> device_id i = cfg_device_id (sv_cfg s) \<and>
    source_version i = ps_source_version (profile_spec p) \<and> features i = ps_features (profile_spec p) \<and>
    pk i = sv_verifying_key s \<and> display_size i = (1920, 1080) \<and>
    \<not> requires_pin_pairing i \<and> \<not> requires_password i \<and> prefers_legacy_pairing i \<and>
    (supports_fairplay_sap i \<longleftrightarrow> p = Modern)"
proof -
  define r where "r = info_plist L s (dr_uuid (ds k))"
  have b: "sr_body r = plist_write L (info_value s (dr_uuid (ds k)))" "sr_status r = 200"
    by (simp_all add: r_def info_plist_def resp_ok_def)
  then have "length (sr_body r) \<le> MAX_RESPONSE_BODY" using assms(5) by (simp add: plist_arrives_def)
  from wire_step [where ds = ds and k = k and ?md5.0 = md5, OF assms(1-3) info_request_ok _ _ assms(6) info_dispatched [of C L s "ds k" hl c ss, folded r_def] this b(2)]
  obtain c1 io' hs where
    1: "wire_rtsp C md5 hl L s ds ''GET'' ''/info'' BPLIST [] Map.empty (c, (ss, io, k)) =
      (Inr (sr_body r, hs), (c1, (ss, io', Suc k)))" "in_step c1 (ss, io', Suc k)" by auto
  have "parse_info L D (sr_body r) = Some (advertised_info s)"
    using assms(5) info_read [OF assms(4)] by (simp add: parse_info_def plist_arrives_def b(1))
  from wire_get_info_rtsp [OF 1(1) this] 1(2) advertised_bits [of "advertised_info s"] assms(7)
  show ?thesis
    by (intro exI [of _ "advertised_info s"] exI [of _ "c1\<lparr>cl_info := Some (advertised_info s)\<rparr>"] exI [of _ io'])
      (simp add: advertised_info_def display_size_def)
qed

text \<open>The deserializer of the documentation, on the values the receiver writes.\<close>

definition hex_value :: "char \<Rightarrow> nat" where
  "hex_value d = (let n = of_char d in if n < 58 then n - 48 else n - 87)"

fun hex_bytes :: "string \<Rightarrow> bytes" where
  "hex_bytes (a # b # s) = word_of_nat (hex_value a * 16 + hex_value b) # hex_bytes s"
| "hex_bytes _ = []"

definition demo_de :: plist_de where
  "demo_de =
    \<lparr>de_visit = (\<lambda>v. case v of PInt n \<Rightarrow> if n < 0 then V_i64 n else V_u64 (word_of_int n) | PReal m e \<Rightarrow> V_f64 (Finite m e)
        | PString s \<Rightarrow> V_str s | PData b \<Rightarrow> V_bytes b | PBool b \<Rightarrow> V_bool b | _ \<Rightarrow> V_other),
     de_u64 = (\<lambda>v. case v of PInt n \<Rightarrow> if n < 0 then Inl ''u64'' else Inr (word_of_int n) | _ \<Rightarrow> Inl ''u64''),
     de_f64 = (\<lambda>v. case v of PReal m e \<Rightarrow> Inr (Finite m e) | PInt n \<Rightarrow> Inr (Finite n 0) | _ \<Rightarrow> Inl ''f64''),
     de_str = (\<lambda>v. case v of PString s \<Rightarrow> Inr s | _ \<Rightarrow> Inl ''a string''),
     de_bool = (\<lambda>v. case v of PBool b \<Rightarrow> Inr b | _ \<Rightarrow> Inl ''a boolean''),
     hex_decode = (\<lambda>s. Inr (hex_bytes s))\<rparr>"

lemma hex_value_digit: "n < 16 \<Longrightarrow> hex_value (hex_digit n) = n"
  by (simp add: hex_value_def hex_digit_def Let_def)

lemma hex_bytes_hex: "hex_bytes (hex b) = b"
proof (induction b)
  case (Cons x b)
  have "unat x < 256" using unat_byte_less by simp
  then have "hex_value (hex_digit (unat x div 16)) * 16 + hex_value (hex_digit (unat x mod 16)) = unat x"
    by (simp add: hex_value_digit less_mult_imp_div_less)
  with Cons show ?case by (simp add: hex_def hex2_def)
qed (simp add: hex_def)

lemma demo_de_ok: "plist_de_ok demo_de"
  by (simp add: plist_de_ok_def demo_de_def hex_bytes_hex)

theorem info_understood_witness:
  "\<exists>i c' io'. wire_get_info toy_crypto (\<lambda>b. b) key_order (indexed_plists [info_value demo_server ''u'']) demo_de demo_server (\<lambda>k. demo_draws)
      (Client.connected ''u'' ''v'' [] ''h'' 7000, (new_session toy_crypto demo_server [], Plain [], 0)) =
      (Inr i, (c', (new_session toy_crypto demo_server [], io', 1))) \<and>
    name i = cfg_name (sv_cfg demo_server) \<and> features i = 0x038bcf46007f8ad0 \<and> \<not> supports_fairplay_sap i"
proof -
  have l: "in_step (Client.connected ''u'' ''v'' [] ''h'' 7000) (new_session toy_crypto demo_server [], Plain [], 0)"
    by (simp add: in_step_def Client.connected_def)
  have a: "plist_arrives (indexed_plists [info_value demo_server ''u'']) MAX_RESPONSE_BODY (info_value demo_server (dr_uuid demo_draws))"
    by (intro indexed_plists_arrive) (simp_all add: demo_draws_def MAX_RESPONSE_BODY_def)
  have p: "sv_profile demo_server = profile_spec Roku" by (simp add: demo_server_def ReceiverServer_new_def Let_def)
  from info_understood [OF toy_crypto_ok(1) key_order_ok l demo_de_ok a _ p, of "\<lambda>b. b"]
  show ?thesis by (auto simp: demo_draws_def) (fastforce simp: profile_spec_def)
qed

end
