(* ===== verification/Mirror_Requests.thy ===== *)
theory Mirror_Requests
  imports Mirror_Setup
begin

text \<open>
  The order of the requests of a session set-up, against any receiver: the transport is wrapped by \<open>logged\<close>, which
  keeps every request with its answer.
\<close>

type_synonym answer = "(bytes \<times> (string \<Rightarrow> string option)) res"
type_synonym request_log = "(string \<times> string \<times> answer) list"

definition logged :: "'e rtsp \<Rightarrow> ('e \<times> request_log) rtsp" where
  "logged rtsp meth uri content_type b hs = (\<lambda>(c, w, log).
    let (r, (c, w)) = rtsp meth uri content_type b hs (c, w) in (r, (c, (w, log @ [(meth, uri, r)]))))"

abbreviation log_of :: "('e \<times> request_log) setup_state \<Rightarrow> request_log" where
  "log_of st \<equiv> snd (st_world st)"

definition requests_of :: "request_log \<Rightarrow> (string \<times> string) list" where
  "requests_of l = map (\<lambda>(meth, uri, r). (meth, uri)) l"

lemma requests_of_simps [simp]:
  "requests_of [] = []" "requests_of (l @ l') = requests_of l @ requests_of l'"
  "requests_of ((m, u, r) # l) = (m, u) # requests_of l"
  by (simp_all add: requests_of_def)

text \<open>The plist that the first request was answered with.\<close>

definition first_answer :: "plist_lib \<Rightarrow> request_log \<Rightarrow> plist option" where
  "first_answer L l =
    (case l of (m, u, Inr (b, hs)) # _ \<Rightarrow> plist_read L b | _ \<Rightarrow> None)"

lemma first_answer_append [simp]:
  "first_answer L (l @ l') = (if l = [] then first_answer L l' else first_answer L l)"
  by (cases l) (auto simp: first_answer_def split: sum.split)

lemma first_answer_one [simp]: "first_answer L [(m, u, Inr (b, hs))] = plist_read L b" "first_answer L [] = None"
  by (simp_all add: first_answer_def)

lemma rtsp_call_log:
  "rtsp_call (logged rtsp) m u ct b hs st = (r, st') \<Longrightarrow> log_of st' = log_of st @ [(m, u, r)]"
  by (auto simp: rtsp_call_def logged_def Let_def split: prod.splits)

lemma configure_clock_log: "configure_clock ptp v hs t st = (r, st') \<Longrightarrow> st_world st' = st_world st"
  by (auto simp: configure_clock_def Let_def split: option.splits if_splits prod.splits)

lemma send_setup_log:
  assumes "send_setup L (logged rtsp) ptp uri phase request t st = (Inr v, st')"
  shows "\<exists>b hs. log_of st' = log_of st @ [(''SETUP'', uri, Inr (b, hs))] \<and> plist_read L b = Some v"
  using assms
  by (auto simp: send_setup_def sbind_Inr slift_def sreturn_def ok_or_def
      dest!: rtsp_call_log configure_clock_log split: option.splits)

lemma connect_if_log: "connect_if C env port st = (r, st') \<Longrightarrow> log_of st' = log_of st"
  by (auto simp: connect_if_def connect_event_channel_def sreturn_def split: if_splits option.splits sum.splits)

lemma record_if_log:
  "record_if c (logged rtsp) sid uri st = (Inr x, st') \<Longrightarrow>
     requests_of (log_of st') = requests_of (log_of st) @ (if c then [(''RECORD'', uri)] else []) \<and>
     (log_of st \<noteq> [] \<longrightarrow> first_answer L (log_of st') = first_answer L (log_of st))"
  by (auto simp: record_if_def record_session_def sbind_Inr sreturn_def dest!: rtsp_call_log split: if_splits)

lemma choose_stream_keys_log: "choose_stream_keys env e st = (r, st') \<Longrightarrow> st_world st' = st_world st"
  by (auto simp: choose_stream_keys_def Let_def split: prod.splits if_splits)

lemma choose_stream_keys_client:
  "choose_stream_keys env e st = (r, st') \<Longrightarrow>
     cl_host (st_client st') = cl_host (st_client st) \<and> cl_port (st_client st') = cl_port (st_client st)"
  by (auto simp: choose_stream_keys_def derive_stream_keys_def Let_def split: prod.splits if_splits)

definition asked_to_skip :: "plist_lib \<Rightarrow> request_log \<Rightarrow> bool" where
  "asked_to_skip L l \<longleftrightarrow> (case first_answer L l of None \<Rightarrow> False | Some v \<Rightarrow> skip_record_of v)"

lemma control_phase_log:
  assumes "control_phase C L (logged rtsp) env q uri modern st = (Inr (port, skip), st')" "log_of st = []"
  shows "(if modern then requests_of (log_of st') = (''SETUP'', uri) # (if skip then [] else [(''RECORD'', uri)]) \<and>
             asked_to_skip L (log_of st') = skip
          else log_of st' = [] \<and> \<not> skip)"
  using assms
  by (auto simp: control_phase_def sbind_Inr sreturn_def Let_def asked_to_skip_def
      dest!: send_setup_log connect_if_log record_if_log [where L = L] split: if_splits)

lemma audio_phase_log:
  assumes "audio_phase C L (logged rtsp) env q uri modern desc (port, skip) st = (Inr (ports, port', skip'), st')"
  shows "requests_of (log_of st') = requests_of (log_of st) @ [(''SETUP'', uri)] \<and>
     (if modern then skip' = skip else log_of st = [] \<longrightarrow> asked_to_skip L (log_of st') = skip') \<and>
     (log_of st \<noteq> [] \<longrightarrow> first_answer L (log_of st') = first_answer L (log_of st)) \<and> log_of st' \<noteq> []"
  using assms
  by (auto simp: audio_phase_def sbind_Inr sreturn_def Let_def asked_to_skip_def
      dest!: send_setup_log connect_if_log split: if_splits)

lemma video_phase_log:
  assumes "video_phase C L (logged rtsp) env q uri modern desc enc port st = (Inr p, st')"
  shows "requests_of (log_of st') = requests_of (log_of st) @ [(''SETUP'', uri)] \<and>
     (log_of st \<noteq> [] \<longrightarrow> first_answer L (log_of st') = first_answer L (log_of st))"
  using assms
  by (auto simp: video_phase_def sbind_Inr sreturn_def slift_def Let_def
      dest!: send_setup_log connect_if_log split: if_splits)

lemma negotiate_log:
  assumes "negotiate C L (logged rtsp) env q modern enc socks latency audio_id st = (Inr s, st')" "log_of st = []"
  shows "\<exists>video_id. session_uri s = rtsp_uri (st_client st) audio_id \<and>
     requests_of (log_of st') =
       (let a = rtsp_uri (st_client st) audio_id; v = rtsp_uri (st_client st) video_id;
            record = (if asked_to_skip L (log_of st') then [] else [(''RECORD'', a)])
        in if modern then [(''SETUP'', a)] @ record @ [(''SETUP'', a), (''SETUP'', v)]
           else [(''SETUP'', a), (''SETUP'', v)] @ record)"
proof -
  let ?a = "rtsp_uri (st_client st) audio_id"
  from assms(1) obtain port skip st1 ports port' skip' st2 video_id p st3 st4 ciphers where
    1: "control_phase C L (logged rtsp) env q ?a modern st = (Inr (port, skip), st1)" and
    2: "audio_phase C L (logged rtsp) env q ?a modern (audio_stream_desc audio_id (samples_for_44k1 (en_round env) latency)
         (Client.encrypted (st_client st)) (en_audio_key env) (fst (snd socks))) (port, skip) st1 =
       (Inr (ports, port', skip'), st2)" and
    3: "video_phase C L (logged rtsp) env q (rtsp_uri (st_client st) video_id) modern
         (video_stream_desc video_id (fst enc) (snd enc)) enc port' st2 = (Inr p, st3)" and
    4: "record_if (\<not> modern \<and> \<not> skip') (logged rtsp) (su_session_uuid q) ?a st3 = (Inr (), st4)" and
    5: "s = new_session env ?a latency socks ports ciphers st4" "st' = st4"
    by (auto simp: negotiate_def sbind_Inr sreturn_def slift_def Let_def)
  note steps = control_phase_log [OF 1 assms(2)] audio_phase_log [OF 2] video_phase_log [OF 3] record_if_log [OF 4, of L]
  have "session_uri s = ?a" by (simp add: 5 new_session_def Let_def split: prod.split)
  moreover have "requests_of (log_of st3) \<noteq> []" using steps(3) by simp
  then have "log_of st3 \<noteq> []" by auto
  ultimately show ?thesis
    using steps by (cases modern) (auto simp: 5 Let_def asked_to_skip_def intro!: exI [of _ video_id])
qed

text \<open>C14. The requests of a session set-up, whatever the receiver answers: a successful set-up made exactly the SETUP
  requests of its kind, in order and to the right URIs, with one RECORD to the session's own URI unless the first answer
  asks to leave it out: after the control SETUP with a modern receiver, after both streams exist with a legacy one.\<close>

theorem mirror_requests_order:
  assumes "setup_mirror_session C L (logged rtsp) env no_encrypt (c, w, []) = (Inr s, st)"
  shows "\<exists>audio_id video_id.
    session_uri s = rtsp_uri c audio_id \<and>
    requests_of (log_of st) =
      (let a = rtsp_uri c audio_id; v = rtsp_uri c video_id;
           record = (if asked_to_skip L (log_of st) then [] else [(''RECORD'', a)])
       in if is_modern_session c then [(''SETUP'', a)] @ record @ [(''SETUP'', a), (''SETUP'', v)]
          else [(''SETUP'', a), (''SETUP'', v)] @ record)"
proof -
  define st0 where "st0 = \<lparr>st_client = c, st_world = (w, [] :: request_log),
    st_clock = (if is_modern_session c then Some MediaClock_default else None), st_events = []\<rparr>"
  from assms obtain q enc socks latency audio_id st1 where
    1: "choose_stream_keys env no_encrypt st0 = (Inr enc, st1)" and
    2: "negotiate C L (logged rtsp) env q (is_modern_session c) enc socks latency audio_id st1 = (Inr s, st)"
    by (auto simp: setup_mirror_session_def sbind_Inr slift_def Let_def st0_def)
  have "log_of st1 = []" "rtsp_uri (st_client st1) = rtsp_uri c"
    using choose_stream_keys_log [OF 1] choose_stream_keys_client [OF 1]
    by (simp_all add: st0_def fun_eq_iff rtsp_uri_def)
  with negotiate_log [OF 2] show ?thesis by auto
qed

text \<open>A legacy receiver that answers every request with one data port.\<close>

definition demo_env :: mirror_env where
  "demo_env =
    \<lparr>en_uuid_session = replicate 16 1, en_uuid_peer = replicate 16 2, en_name = ''pc'', en_local_ip = None,
     en_stream_draw = ([1], [2]), en_ports = Inr [6000, 6001, 6002], en_target = 5000000, en_round = (\<lambda>x. x),
     en_nanos_audio = Some 1, en_nanos_video = Some 2, en_audio_key = replicate 32 3, en_received = (0, 0, 0),
     en_event = (\<lambda>p. None), en_data = (\<lambda>p. p = 7100)\<rparr>"

definition demo_answer :: plist where
  "demo_answer = PDict [(''streams'', PArray [PDict [(''type'', PInt 110), (''dataPort'', PInt 7100)]])]"

definition demo_lib :: plist_lib where
  "demo_lib = \<lparr>plist_write = (\<lambda>v. []), plist_read = (\<lambda>b. Some demo_answer)\<rparr>"

definition demo_rtsp :: "unit rtsp" where
  "demo_rtsp meth uri content_type b hs = (\<lambda>cw. (Inr ([], Map.empty), cw))"

definition legacy_client :: Client where
  "legacy_client = Client.connected [] [] [] ''tv'' 7000"

lemma demo_setup:
  "\<exists>s st. setup_mirror_session toy_crypto demo_lib (logged demo_rtsp) demo_env False (legacy_client, (), []) = (Inr s, st)"
  apply (simp add: setup_mirror_session_def is_modern_session_def legacy_client_def Client.connected_def uuid_to_mac_def
      sbind_def slift_def sreturn_def peer_address_def choose_stream_keys_def derive_stream_keys_def demo_env_def
      three_ports_def system_clock_def to_ascii_lowercase_def)
  apply (simp add: negotiate_def control_phase_def audio_phase_def video_phase_def record_if_def record_session_def
      rtsp_call_def send_setup_def logged_def sbind_def sreturn_def slift_def demo_rtsp_def demo_lib_def demo_env_def
      configure_clock_def connect_if_def Let_def demo_answer_def get_u16_def get_int_def p_get_def plist_int_def
      video_port_of_def response_streams_def session_ciphers_def skip_record_of_def system_clock_def split: prod.split)
  done

theorem mirror_requests_order_witness:
  "\<exists>s st a v. setup_mirror_session toy_crypto demo_lib (logged demo_rtsp) demo_env False (legacy_client, (), []) = (Inr s, st) \<and>
     requests_of (log_of st) = [(''SETUP'', a), (''SETUP'', v), (''RECORD'', a)]"
proof -
  from demo_setup obtain s st where
    s: "setup_mirror_session toy_crypto demo_lib (logged demo_rtsp) demo_env False (legacy_client, (), []) = (Inr s, st)" by blast
  have "\<not> asked_to_skip demo_lib (log_of st)"
    by (simp add: asked_to_skip_def first_answer_def demo_lib_def demo_answer_def skip_record_of_def p_get_def
        split: list.split sum.split)
  moreover have "\<not> is_modern_session legacy_client"
    by (simp add: is_modern_session_def legacy_client_def Client.connected_def)
  ultimately show ?thesis using s mirror_requests_order [OF s] by (auto simp: Let_def)
qed

end
