(* ===== verification/Mirror_Receiver.thy ===== *)
theory Mirror_Receiver
  imports Wire
begin

text \<open>
  A session set-up against a receiver that keeps its side of the protocol, stated as the interface
  \<open>session_server\<close>, and the proof that this repository's receiver, reached over the bytes of the control
  connection, provides that interface.
\<close>

subsection \<open>What the sender relies on\<close>

definition requests_stream :: "int \<Rightarrow> plist \<Rightarrow> bool" where
  "requests_stream t p \<longleftrightarrow> (\<exists>d. setup_streams p = Some [d] \<and> stream_type d = Some t)"

text \<open>An answer to a SETUP with the endpoints \<open>ep\<close>: what each kind of request needs of it.\<close>

definition setup_answer :: "MediaEndpoints \<Rightarrow> plist \<Rightarrow> plist \<Rightarrow> bool" where
  "setup_answer ep p v \<longleftrightarrow>
     get_u16 ''eventPort'' v = event_port ep \<and> \<not> skip_record_of v \<and>
     (\<exists>m i. p_get ''timingPeerInfo'' v = Some (PDict m) \<and> map_of m ''ClockID'' = Some i \<and> plist_uint i \<noteq> 0) \<and>
     (requests_stream 96 p \<longrightarrow> audio_ports_of v = (audio_rtp_port ep, audio_rtcp_port ep)) \<and>
     (requests_stream 110 p \<longrightarrow> video_port_of v = int (unat (video_port ep)))"

definition clock_ok :: "(string \<Rightarrow> string option) \<Rightarrow> bool" where
  "clock_ok hs \<longleftrightarrow> (\<exists>t. receiver_clock_timestamp hs = Inr t)"

definition record_headers :: "string \<Rightarrow> string \<Rightarrow> string option" where
  "record_headers sid = [''Session'' \<mapsto> sid, ''Range'' \<mapsto> ''npt=0-'', ''RTP-Info'' \<mapsto> ''seq=0;rtptime=0'']"

definition client_secret :: "Client \<Rightarrow> bytes" where
  "client_secret c = (case cl_pair_keys c of None \<Rightarrow> [] | Some k \<Rightarrow> shared_secret k)"

lemma configure_clock_succeeds:
  assumes "\<And>c. \<exists>clk. configure_from_setup v hs t c = (Inr (), clk)"
  shows "\<exists>clk. configure_clock ptp v hs t st = (Inr (), st\<lparr>st_clock := clk\<rparr>)"
proof (cases "st_clock st = None \<or> \<not> ptp")
  case True
  then have "configure_clock ptp v hs t st = (Inr (), st\<lparr>st_clock := st_clock st\<rparr>)"
    by (auto simp: configure_clock_def split: option.split)
  then show ?thesis ..
next
  case False
  then obtain c where c: "st_clock st = Some c" ptp by auto
  from assms [of c] obtain clk where "configure_from_setup v hs t c = (Inr (), clk)" ..
  then have "configure_clock ptp v hs t st = (Inr (), st\<lparr>st_clock := Some clk\<rparr>)"
    by (simp add: configure_clock_def c)
  then show ?thesis ..
qed

subsection \<open>The requests of the sender\<close>

lemma is_dict_session: "is_dict (session_plist q)"
  by (simp add: session_plist_def p_build_def d_string_def d_bool_def d_int_def Let_def)

lemma streams_of_request:
  "setup_streams (audio_request modern q desc c) = Some [desc]"
  "setup_streams (video_request modern q desc enc c) = Some [desc]"
  by (simp_all add: audio_request_def video_request_def stream_only_plist_def legacy_stream_plist_def setup_streams_def
      d_data_def d_int_def plist_simps is_dict_session Let_def)

lemma audio_requested: "requests_stream 96 (audio_request modern q (audio_stream_desc i latency enc key port) c)"
  unfolding requests_stream_def streams_of_request
  by (simp add: audio_stream_desc_def stream_type_def p_build_def d_int_def d_bool_def d_string_def d_data_def plist_simps Let_def)

lemma video_requested: "requests_stream 110 (video_request modern q (video_stream_desc i key iv) enc c)"
  unfolding requests_stream_def streams_of_request
  by (simp add: video_stream_desc_def stream_type_def p_build_def d_int_def d_data_def plist_simps Let_def)

text \<open>The plists a set-up sends, for the client \<open>c\<close> whose requests carry its FairPlay fields.\<close>

definition audio_desc_of :: "mirror_env \<Rightarrow> Client \<Rightarrow> u16 \<Rightarrow> nat \<Rightarrow> nat \<Rightarrow> plist" where
  "audio_desc_of env c ctrl_port latency i =
    audio_stream_desc i (samples_for_44k1 (en_round env) latency) (Client.encrypted c) (en_audio_key env) ctrl_port"

definition sent_plists ::
  "mirror_env \<Rightarrow> SetupRequest \<Rightarrow> bool \<Rightarrow> bytes \<times> bytes \<Rightarrow> Client \<Rightarrow> u16 \<Rightarrow> nat \<Rightarrow> nat \<Rightarrow> nat \<Rightarrow> plist list" where
  "sent_plists env q modern enc c ctrl_port latency audio_id video_id =
    (if modern then [control_plist q] else []) @
    [audio_request modern q (audio_desc_of env c ctrl_port latency audio_id) c,
     video_request modern q (video_stream_desc video_id (fst enc) (snd enc)) enc c]"

text \<open>The stream keys that are chosen, and when choosing them does not panic.\<close>

definition stream_enc :: "mirror_env \<Rightarrow> bool \<Rightarrow> Client \<Rightarrow> bytes \<times> bytes" where
  "stream_enc env no_encrypt c =
    (if no_encrypt then ([], [])
     else if fp_key c \<noteq> [] \<and> fp_iv c \<noteq> [] then (fp_key c, fp_iv c)
     else if cl_stream_key c \<noteq> [] then (cl_stream_key c, cl_stream_iv c)
     else if enc_write_key c = [] then en_stream_draw env
     else (take 16 (enc_write_key c), take 16 (enc_read_key c)))"

definition long_keys :: "Client \<Rightarrow> bool" where
  "long_keys c \<longleftrightarrow> enc_write_key c = [] \<or> 16 \<le> length (enc_write_key c) \<and> 16 \<le> length (enc_read_key c)"

lemma choose_stream_keys_ok:
  assumes "long_keys (st_client st)"
  shows "\<exists>c1. choose_stream_keys env ne st = (Inr (stream_enc env ne (st_client st)), st\<lparr>st_client := c1\<rparr>) \<and>
    (\<exists>k i. c1 = (st_client st)\<lparr>cl_stream_key := k, cl_stream_iv := i\<rparr>)"
proof -
  define c where "c = st_client st"
  have same: "\<exists>k i. c = c\<lparr>cl_stream_key := k, cl_stream_iv := i\<rparr>"
    by (intro exI [of _ "cl_stream_key c"] exI [of _ "cl_stream_iv c"]) simp
  have id: "st\<lparr>st_client := c\<rparr> = st" by (simp add: c_def)
  show ?thesis
    using assms same unfolding c_def [symmetric]
    by (auto simp: choose_stream_keys_def derive_stream_keys_def stream_enc_def long_keys_def Let_def c_def [symmetric])
qed

text \<open>The SETUP request record of a set-up, with the sender's address \<open>ip\<close> for PTP.\<close>

definition request_record :: "mirror_env \<Rightarrow> Client \<Rightarrow> string \<Rightarrow> string \<Rightarrow> u16 \<Rightarrow> SetupRequest" where
  "request_record env c mac ip port =
    setup_request (is_modern_session c) env mac
      (if is_modern_session c then (generate_uuid (en_uuid_peer env), ip) else ([], [])) port"

lemma session_ciphers_succeeds: "\<exists>x. session_ciphers C k i c = Inr x"
  by (auto simp: session_ciphers_def Let_def derive_chacha_key_def ok_or_def split: prod.split)

text \<open>
  \<open>live\<close> relates a client to a receiver it is in step with, \<open>serving\<close> tells that the receiver has its media
  endpoints open. Every answer keeps both and leaves the core of the client alone.
\<close>

locale session_server =
  fixes L :: plist_lib
    and rtsp :: "'e rtsp"
    and live :: "Client \<Rightarrow> 'e \<Rightarrow> bool"
    and serving :: "'e \<Rightarrow> bool"
    and fits :: "plist \<Rightarrow> bool"
    and uri_ok :: "string \<Rightarrow> bool"
    and sid_ok :: "string \<Rightarrow> bool"
    and ep :: MediaEndpoints
  assumes setup_answered: "live c w \<Longrightarrow> fits p \<Longrightarrow> uri_ok uri \<Longrightarrow>
      \<exists>b hs v c' w'. rtsp ''SETUP'' uri Mirror_Setup.BPLIST_TYPE (plist_write L p) Map.empty (c, w) = (Inr (b, hs), (c', w')) \<and>
        plist_read L b = Some v \<and> setup_answer ep p v \<and> clock_ok hs \<and> live c' w' \<and> core c' = core c \<and> serving w'"
    and record_answered: "live c w \<Longrightarrow> uri_ok uri \<Longrightarrow> sid_ok sid \<Longrightarrow>
      \<exists>x c' w'. rtsp ''RECORD'' uri [] [] (record_headers sid) (c, w) = (Inr x, (c', w')) \<and>
        live c' w' \<and> core c' = core c \<and> (serving w \<longrightarrow> serving w')"
    and live_stream_keys: "live c w \<Longrightarrow> live (c\<lparr>cl_stream_key := k, cl_stream_iv := i\<rparr>) w"
begin

abbreviation alive :: "'e setup_state \<Rightarrow> bool" where
  "alive st \<equiv> live (st_client st) (st_world st)"

text \<open>The state of the sender that a step leaves alone.\<close>

definition kept :: "'e setup_state \<Rightarrow> 'e setup_state \<Rightarrow> bool" where
  "kept st st' \<longleftrightarrow> alive st' \<and> core (st_client st') = core (st_client st) \<and>
     (serving (st_world st) \<longrightarrow> serving (st_world st'))"

lemma kept_trans: "kept st st' \<Longrightarrow> kept st' st'' \<Longrightarrow> kept st st''"
  by (simp add: kept_def)

lemma send_setup_ok:
  assumes "alive st" "fits p" "uri_ok uri"
  shows "\<exists>v st'. send_setup L rtsp ptp uri label p t st = (Inr v, st') \<and> setup_answer ep p v \<and> kept st st' \<and>
    serving (st_world st') \<and> st_events st' = st_events st"
proof -
  from setup_answered [OF assms] obtain b hs v c' w' where
    1: "rtsp ''SETUP'' uri Mirror_Setup.BPLIST_TYPE (plist_write L p) Map.empty (st_client st, st_world st) =
         (Inr (b, hs), (c', w'))" and
    2: "plist_read L b = Some v" "setup_answer ep p v" "clock_ok hs" "live c' w'" "core c' = core (st_client st)" "serving w'"
    by blast
  define st1 where "st1 = st\<lparr>st_client := c', st_world := w'\<rparr>"
  have call: "rtsp_call rtsp ''SETUP'' uri Mirror_Setup.BPLIST_TYPE (plist_write L p) Map.empty st = (Inr (b, hs), st1)"
    by (simp add: rtsp_call_def 1 st1_def)
  from 2(2) obtain m i where m: "p_get ''timingPeerInfo'' v = Some (PDict m)" "map_of m ''ClockID'' = Some i" "plist_uint i \<noteq> 0"
    by (auto simp: setup_answer_def)
  obtain anchor t1 t2 where ts: "receiver_clock_timestamp hs = Inr (anchor, t1, t2)"
    using 2(3) by (auto simp: clock_ok_def)
  have "\<exists>clk. configure_from_setup v hs t c = (Inr (), clk)" for c
    by (simp add: configure_from_setup_def m ts Let_def)
  then have "\<exists>clk. configure_clock ptp v hs t st1 = (Inr (), st1\<lparr>st_clock := clk\<rparr>)"
    by (intro configure_clock_succeeds) auto
  then obtain clk where "configure_clock ptp v hs t st1 = (Inr (), st1\<lparr>st_clock := clk\<rparr>)" ..
  then have "send_setup L rtsp ptp uri label p t st = (Inr v, st1\<lparr>st_clock := clk\<rparr>)"
    by (simp add: send_setup_def call ok_or_def 2(1) sreturn_def)
  then show ?thesis
    using 2 assms(1) by (auto simp: st1_def kept_def)
qed

lemma connect_ok:
  assumes "event_port ep \<noteq> 0" "en_event env (event_port ep) = Some inp"
    and "event_connect C inp (Client.encrypted c) (client_secret c) = Inr ch" "core (st_client st) = core c"
  shows "connect_if C env (event_port ep) st = (Inr (), st\<lparr>st_events := st_events st @ [(event_port ep, ch)]\<rparr>)"
  using assms core_fields [OF assms(4)]
  by (simp add: connect_if_def connect_event_channel_def client_secret_def word_gt_0)

lemma record_ok:
  assumes "alive st" "uri_ok uri" "sid_ok sid"
  shows "\<exists>st'. record_if b rtsp sid uri st = (Inr (), st') \<and> kept st st' \<and> st_events st' = st_events st"
proof (cases b)
  case True
  from record_answered [OF assms] obtain x c' w' where
    1: "rtsp ''RECORD'' uri [] [] (record_headers sid) (st_client st, st_world st) = (Inr x, (c', w'))"
    "live c' w'" "core c' = core (st_client st)" "serving (st_world st) \<longrightarrow> serving w'" by blast
  then have "record_if b rtsp sid uri st = (Inr (), st\<lparr>st_client := c', st_world := w'\<rparr>)"
    by (simp add: True record_if_def record_session_def rtsp_call_def sbind_def sreturn_def record_headers_def)
  with 1 show ?thesis by (simp add: kept_def)
next
  case False
  then show ?thesis using assms(1) by (simp add: record_if_def sreturn_def kept_def)
qed

lemma control_ok:
  assumes "alive st" "core (st_client st) = core c" "fits (control_plist q)" "uri_ok uri" "sid_ok (su_session_uuid q)"
    and ev: "event_port ep \<noteq> 0" "en_event env (event_port ep) = Some inp"
      "event_connect C inp (Client.encrypted c) (client_secret c) = Inr ch"
  shows "\<exists>st'. control_phase C L rtsp env q uri True st = (Inr (event_port ep, False), st') \<and> kept st st' \<and>
    st_events st' = st_events st @ [(event_port ep, ch)]"
proof -
  from send_setup_ok [OF assms(1,3,4)] obtain v st1 where
    1: "send_setup L rtsp True uri ''control'' (control_plist q) (fst (en_received env)) st = (Inr v, st1)"
      "setup_answer ep (control_plist q) v" "kept st st1" "st_events st1 = st_events st" by blast
  have v: "get_u16 ''eventPort'' v = event_port ep" "\<not> skip_record_of v" using 1(2) by (auto simp: setup_answer_def)
  define st2 where "st2 = st1\<lparr>st_events := st_events st1 @ [(event_port ep, ch)]\<rparr>"
  have 2: "connect_if C env (event_port ep) st1 = (Inr (), st2)"
    unfolding st2_def using 1(3) assms(2) by (intro connect_ok [OF ev]) (simp add: kept_def)
  have "alive st2" "kept st st2" using 1(3) by (simp_all add: st2_def kept_def)
  from record_ok [OF this(1) assms(4,5), of True] obtain st3 where
    3: "record_if True rtsp (su_session_uuid q) uri st2 = (Inr (), st3)" "kept st2 st3" "st_events st3 = st_events st2"
    by blast
  have "control_phase C L rtsp env q uri True st = (Inr (event_port ep, False), st3)"
    by (simp add: control_phase_def 1(1) 2 3(1) v Let_def) (simp add: sreturn_def)
  with kept_trans [OF \<open>kept st st2\<close> 3(2)] 3(3) 1(4) show ?thesis by (simp add: st2_def)
qed

lemma audio_ok:
  assumes "alive st" "core (st_client st) = core c" "uri_ok uri" "fits (audio_request modern q desc c)"
    and "requests_stream 96 (audio_request modern q desc c)"
    and ev: "event_port ep \<noteq> 0" "en_event env (event_port ep) = Some inp"
      "event_connect C inp (Client.encrypted c) (client_secret c) = Inr ch"
  shows "\<exists>st'. audio_phase C L rtsp env q uri modern desc (if modern then event_port ep else 0, False) st =
      (Inr ((audio_rtp_port ep, audio_rtcp_port ep), event_port ep, False), st') \<and> kept st st' \<and>
    st_events st' = st_events st @ (if modern then [] else [(event_port ep, ch)])"
proof -
  have rq: "audio_request modern q desc (st_client st) = audio_request modern q desc c"
    using core_fields [OF assms(2)] by (simp add: audio_request_def Let_def)
  from send_setup_ok [OF assms(1,4,3)] obtain v st1 where
    1: "send_setup L rtsp modern uri ''audio stream'' (audio_request modern q desc c) (fst (snd (en_received env))) st = (Inr v, st1)"
      "setup_answer ep (audio_request modern q desc c) v" "kept st st1" "st_events st1 = st_events st" by blast
  have v: "get_u16 ''eventPort'' v = event_port ep" "\<not> skip_record_of v"
      "audio_ports_of v = (audio_rtp_port ep, audio_rtcp_port ep)"
    using 1(2) assms(5) by (auto simp: setup_answer_def)
  define st2 where "st2 = st1\<lparr>st_events := st_events st1 @ [(event_port ep, ch)]\<rparr>"
  have 2: "connect_if C env (event_port ep) st1 = (Inr (), st2)"
    unfolding st2_def using 1(3) assms(2) by (intro connect_ok [OF ev]) (simp add: kept_def)
  have "audio_phase C L rtsp env q uri modern desc (if modern then event_port ep else 0, False) st =
      (Inr ((audio_rtp_port ep, audio_rtcp_port ep), event_port ep, False), if modern then st1 else st2)"
    by (simp add: audio_phase_def rq 1(1) v Let_def 2) (simp add: sreturn_def)
  moreover have "kept st st2" using 1(3) by (simp add: st2_def kept_def)
  ultimately show ?thesis using 1(3,4) by (simp add: st2_def)
qed

lemma video_ok:
  assumes "alive st" "core (st_client st) = core c" "uri_ok uri" "fits (video_request modern q desc enc c)"
    and "requests_stream 110 (video_request modern q desc enc c)"
    and ev: "event_port ep \<noteq> 0" "en_event env (event_port ep) = Some inp"
      "event_connect C inp (Client.encrypted c) (client_secret c) = Inr ch"
    and "video_port ep \<noteq> 0" "en_data env (video_port ep)"
  shows "\<exists>st'. video_phase C L rtsp env q uri modern desc enc (event_port ep) st =
      (Inr (int (unat (video_port ep))), st') \<and> kept st st' \<and> serving (st_world st') \<and>
    st_events st' = st_events st @ [(event_port ep, ch)]"
proof -
  have rq: "video_request modern q desc enc (st_client st) = video_request modern q desc enc c"
    using core_fields [OF assms(2)] by (simp add: video_request_def Let_def)
  from send_setup_ok [OF assms(1,4,3)] obtain v st1 where
    1: "send_setup L rtsp modern uri ''video stream'' (video_request modern q desc enc c) (snd (snd (en_received env))) st = (Inr v, st1)"
      "setup_answer ep (video_request modern q desc enc c) v" "kept st st1" "serving (st_world st1)"
      "st_events st1 = st_events st" by blast
  have v: "video_port_of v = int (unat (video_port ep))" using 1(2) assms(5) by (auto simp: setup_answer_def)
  define st2 where "st2 = st1\<lparr>st_events := st_events st1 @ [(event_port ep, ch)]\<rparr>"
  have 2: "connect_if C env (event_port ep) st1 = (Inr (), st2)"
    unfolding st2_def using 1(3) assms(2) by (intro connect_ok [OF ev]) (simp add: kept_def)
  have vp: "uint (video_port ep) \<noteq> 0" using assms(9) by (simp add: uint_0_iff)
  have "video_phase C L rtsp env q uri modern desc enc (event_port ep) st = (Inr (int (unat (video_port ep))), st2)"
    using ev(1) assms(10) vp by (simp add: video_phase_def rq 1(1) 2 v Let_def) (simp add: sreturn_def)
  then show ?thesis using 1 by (auto simp: st2_def kept_def)
qed

text \<open>What the set-up leaves behind with the sender.\<close>

definition set_up :: "EventChannel \<Rightarrow> MirrorSession \<Rightarrow> 'e setup_state \<Rightarrow> bool" where
  "set_up ch sess st \<longleftrightarrow>
     audio_data_port sess = audio_rtp_port ep \<and> audio_ctrl_port sess = audio_rtcp_port ep \<and>
     ms_client sess = st_client st \<and> alive st \<and> serving (st_world st) \<and>
     st_events st = [(event_port ep, ch), (event_port ep, ch)]"

lemma negotiate_ok:
  assumes "alive st" "st_events st = []" "en_nanos_video env = Some nanos" "video_id = connection_id nanos"
    and "\<forall>p \<in> set (sent_plists env q modern enc (st_client st) (fst (snd socks)) latency audio_id video_id). fits p"
    and "uri_ok (rtsp_uri (st_client st) audio_id)" "uri_ok (rtsp_uri (st_client st) video_id)" "sid_ok (su_session_uuid q)"
    and ev: "event_port ep \<noteq> 0" "en_event env (event_port ep) = Some inp"
      "event_connect C inp (Client.encrypted (st_client st)) (client_secret (st_client st)) = Inr ch"
    and video: "video_port ep \<noteq> 0" "en_data env (video_port ep)"
  shows "\<exists>sess st'. negotiate C L rtsp env q modern enc socks latency audio_id st = (Inr sess, st') \<and> set_up ch sess st'"
proof -
  let ?c = "st_client st" and ?a = "rtsp_uri (st_client st) audio_id"
  define ad where "ad = audio_desc_of env ?c (fst (snd socks)) latency audio_id"
  define vd where "vd = video_stream_desc video_id (fst enc) (snd enc)"
  have fits: "modern \<Longrightarrow> fits (control_plist q)" "fits (audio_request modern q ad ?c)" "fits (video_request modern q vd enc ?c)"
    using assms(5) by (simp_all add: sent_plists_def ad_def vd_def)
  have rq: "requests_stream 96 (audio_request modern q ad ?c)" "requests_stream 110 (video_request modern q vd enc ?c)"
    by (simp_all add: ad_def audio_desc_of_def vd_def audio_requested video_requested)
  obtain st1 where 1: "control_phase C L rtsp env q ?a modern st = (Inr (if modern then event_port ep else 0, False), st1)"
    "kept st st1" "st_events st1 = (if modern then [(event_port ep, ch)] else [])"
  proof (cases modern)
    case True
    with control_ok [OF assms(1) refl fits(1) assms(6,8) ev] assms(2) that show ?thesis by auto
  next
    case False
    then have "control_phase C L rtsp env q ?a modern st = (Inr (0, False), st)"
      by (simp add: control_phase_def sreturn_def)
    with False that [of st] assms(1,2) show ?thesis by (simp add: kept_def)
  qed
  have k1: "alive st1" "core (st_client st1) = core ?c" using 1(2) by (simp_all add: kept_def)
  from audio_ok [OF k1 assms(6) fits(2) rq(1) ev] obtain st2 where
    2: "audio_phase C L rtsp env q ?a modern ad (if modern then event_port ep else 0, False) st1 =
         (Inr ((audio_rtp_port ep, audio_rtcp_port ep), event_port ep, False), st2)"
      "kept st1 st2" "st_events st2 = [(event_port ep, ch)]"
    using 1(3) by (cases modern) auto
  have k2: "alive st2" "core (st_client st2) = core ?c" using 2(2) k1 by (simp_all add: kept_def)
  from video_ok [OF k2 assms(7) fits(3) rq(2) ev video] obtain st3 where
    3: "video_phase C L rtsp env q (rtsp_uri ?c video_id) modern vd enc (event_port ep) st2 =
         (Inr (int (unat (video_port ep))), st3)"
      "kept st2 st3" "serving (st_world st3)" "st_events st3 = [(event_port ep, ch), (event_port ep, ch)]"
    using 2(3) by auto
  have k3: "alive st3" using 3(2) by (simp add: kept_def)
  from record_ok [OF k3 assms(6,8), of "\<not> modern"] obtain st4 where
    4: "record_if (\<not> modern \<and> \<not> False) rtsp (su_session_uuid q) ?a st3 = (Inr (), st4)" "kept st3 st4"
      "st_events st4 = st_events st3" by auto
  from session_ciphers_succeeds [of C "fst enc" video_id "st_client st4"] obtain x where
    5: "session_ciphers C (fst enc) video_id (st_client st4) = Inr x" ..
  define sess where "sess = Mirror_Setup.new_session env ?a latency socks (audio_rtp_port ep, audio_rtcp_port ep) x st4"
  have sys: "system_clock (en_nanos_video env) = Inr video_id"
    by (simp add: system_clock_def assms(3,4) ok_or_def)
  have "negotiate C L rtsp env q modern enc socks latency audio_id st = (Inr sess, st4)"
    using 1(1) 2(1) 3(1) 4(1) 5
    by (simp add: negotiate_def Let_def sys ad_def [unfolded audio_desc_of_def, symmetric] vd_def [symmetric] sess_def)
  moreover have "set_up ch sess st4"
    using 4 3(3,4) by (simp add: set_up_def sess_def Mirror_Setup.new_session_def kept_def Let_def split: prod.split)
  ultimately show ?thesis by blast
qed

lemma setup_completes:
  assumes "live c w" "uuid_to_mac (cl_session_id c) = Inr mac" "en_local_ip env = Some ip" "long_keys c"
    and "en_ports env = Inr [p0, p1, p2]" "en_nanos_audio env = Some na" "en_nanos_video env = Some nv"
    and latency: "latency = max (target_latency (en_target env)) (receiver_playout_floor c)"
    and fit: "\<forall>p \<in> set (sent_plists env (request_record env c mac ip p0) (is_modern_session c) (stream_enc env ne c) c p1
          latency (connection_id na) (connection_id nv)). fits p"
    and uris: "uri_ok (rtsp_uri c (connection_id na))" "uri_ok (rtsp_uri c (connection_id nv))"
    and sid: "sid_ok (generate_uuid (en_uuid_session env))"
    and ev: "event_port ep \<noteq> 0" "en_event env (event_port ep) = Some inp"
      "event_connect C inp (Client.encrypted c) (client_secret c) = Inr ch"
    and video: "video_port ep \<noteq> 0" "en_data env (video_port ep)"
  shows "\<exists>sess st. setup_mirror_session C L rtsp env ne (c, w) = (Inr sess, st) \<and> set_up ch sess st"
proof -
  let ?m = "is_modern_session c"
  define st0 where "st0 = \<lparr>st_client = c, st_world = w, st_clock = (if ?m then Some MediaClock_default else None), st_events = []\<rparr>"
  define q where "q = request_record env c mac ip p0"
  define enc where "enc = stream_enc env ne c"
  have "st_client st0 = c" by (simp add: st0_def)
  with choose_stream_keys_ok [of st0 env ne] assms(4) obtain c1 k i where
    1: "choose_stream_keys env ne st0 = (Inr enc, st0\<lparr>st_client := c1\<rparr>)" "c1 = c\<lparr>cl_stream_key := k, cl_stream_iv := i\<rparr>"
    by (auto simp: enc_def)
  define st1 where "st1 = st0\<lparr>st_client := c1\<rparr>"
  have c1: "Client.encrypted c1 = Client.encrypted c" "client_secret c1 = client_secret c" "rtsp_uri c1 = rtsp_uri c"
      "fp_ekey c1 = fp_ekey c" "fp_iv c1 = fp_iv c"
    by (simp_all add: 1(2) client_secret_def rtsp_uri_def fun_eq_iff)
  have st1: "st_client st1 = c1" "st_events st1 = []" "alive st1"
    using live_stream_keys [OF assms(1)] by (simp_all add: st1_def st0_def 1(2))
  have "sent_plists env q ?m enc c1 p1 latency a v = sent_plists env q ?m enc c p1 latency a v" for a v
    using c1 by (simp add: sent_plists_def audio_desc_of_def audio_request_def video_request_def Let_def)
  with fit have fit1: "\<forall>p \<in> set (sent_plists env q ?m enc (st_client st1) (fst (snd (p0, p1, p2))) latency
      (connection_id na) (connection_id nv)). fits p"
    by (simp add: st1 q_def enc_def)
  have sid1: "sid_ok (su_session_uuid q)" using sid by (simp add: q_def request_record_def setup_request_def)
  from negotiate_ok [OF st1(3,2) assms(7) refl fit1 _ _ sid1 ev(1,2) _ video, of C ch] uris ev(3) obtain sess st where
    2: "negotiate C L rtsp env q ?m enc (p0, p1, p2) latency (connection_id na) st1 = (Inr sess, st)" "set_up ch sess st"
    by (auto simp: st1 c1)
  have peer: "peer_address ?m env = Inr (if ?m then (generate_uuid (en_uuid_peer env), ip) else ([], []))"
    by (simp add: peer_address_def assms(3) ok_or_def)
  have "setup_mirror_session C L rtsp env ne (c, w) = (Inr sess, st)"
    using 1(1) 2(1)
    by (simp add: setup_mirror_session_def Let_def assms(2,5) peer st0_def [symmetric] three_ports_def system_clock_def
        assms(6) ok_or_def latency [symmetric] q_def request_record_def st1_def)
  with 2(2) show ?thesis by blast
qed

end

end
