(* ===== verification/Mirror_End_To_End.thy ===== *)
theory Mirror_End_To_End
  imports Mirror_Receiver
begin

text \<open>
  The receiver of this repository, over the bytes of the control connection, provides the interface of
  Mirror_Receiver, so that a session set-up against it completes.
\<close>

subsection \<open>The receiver's answers\<close>

lemma lower_clock_names:
  "to_ascii_lowercase ''X-Apple-RequestReceivedTimestamp'' = ''x-apple-requestreceivedtimestamp''"
  "to_ascii_lowercase ''X-Apple-ProcessingTime'' = ''x-apple-processingtime''"
  by code_simp+

lemma clock_headers_arrive:
  assumes "hdr_order_ok hl" "sr_headers resp = clock_headers n" "n < 2 ^ 64"
  shows "clock_ok (lower_map (response_headers hl cs resp))"
proof -
  define hs where "hs = response_headers hl cs resp"
  have dom: "finite (dom (clock_headers n))" by (simp add: clock_headers_def)
  have order: "set (hl (clock_headers n)) =
      {(''X-Apple-RequestReceivedTimestamp'', dec (max n 1)), (''X-Apple-ProcessingTime'', ''1'')}"
    using hdr_order_okD(3) [OF assms(1) dom] by (auto simp: clock_headers_def split: if_splits)
  have hs: "(k, v) \<in> set hs \<Longrightarrow>
      (k, v) \<in> {(''X-Apple-RequestReceivedTimestamp'', dec (max n 1)), (''X-Apple-ProcessingTime'', ''1'')} \<or>
      k \<in> {''CSeq'', ''Server'', ''Content-Type'', ''Content-Length''}" for k v
    unfolding hs_def response_headers_def assms(2) using order by (auto split: option.splits if_splits)
  have mem: "(''X-Apple-RequestReceivedTimestamp'', dec (max n 1)) \<in> set hs" "(''X-Apple-ProcessingTime'', ''1'') \<in> set hs"
    using order by (simp_all add: hs_def response_headers_def assms(2))
  have u1: "\<forall>(k, v) \<in> set hs. to_ascii_lowercase k = to_ascii_lowercase ''X-Apple-RequestReceivedTimestamp'' \<longrightarrow> v = dec (max n 1)"
    using hs by (fastforce simp: lower_names lower_clock_names)
  have u2: "\<forall>(k, v) \<in> set hs. to_ascii_lowercase k = to_ascii_lowercase ''X-Apple-ProcessingTime'' \<longrightarrow> v = ''1''"
    using hs by (fastforce simp: lower_names lower_clock_names)
  have 1: "lower_map hs ''x-apple-requestreceivedtimestamp'' = Some (dec (max n 1))"
    using lower_map_cases(1) [OF mem(1) u1] by (simp only: lower_clock_names)
  have 2: "lower_map hs ''x-apple-processingtime'' = Some ''1''"
    using lower_map_cases(1) [OF mem(2) u2] by (simp only: lower_clock_names)
  have "dec 1 = ''1''" by code_simp
  then have "parse_uint 64 ''1'' = Some 1" using parse_dec [of 1 64] by simp
  moreover have "parse_uint 64 (dec (max n 1)) = Some (max n 1)" using assms(3) by (intro parse_dec) simp
  ultimately show ?thesis
    by (simp add: clock_ok_def receiver_clock_timestamp_def header_u64_def ok_or_def 1 2 hs_def [symmetric] Let_def)
qed

text \<open>The answer to a SETUP carries what the sender needs.\<close>

lemma requested_types:
  assumes "plist_read L b = Some p"
  shows "requests_stream t p \<Longrightarrow> requested_setup_stream_types L b = [t]"
  using assms by (auto simp: requests_stream_def requested_setup_stream_types_def List.map_filter_def)

lemma plist_int_port: "plist_int (PInt (uint (p :: u16))) = uint p" "plist_int (PInt 96) = 96" "plist_int (PInt 110) = 110"
proof -
  have "uint p < 2 ^ 16" using unsigned_less [of p, where 'a = int] by simp
  then have "uint p < 65536" by simp
  with uint_nonnegative [of p] have "- 9223372036854775808 \<le> uint p" "uint p < 9223372036854775808" by linarith+
  then show "plist_int (PInt (uint p)) = uint p" by (simp add: plist_int_def)
qed (simp_all add: plist_int_def)

lemma dict_inserted:
  "(\<exists>y. as_dictionary (d_insert k v d) = Some y) \<longleftrightarrow> (\<exists>y. as_dictionary d = Some y)"
  "as_dictionary (d_insert k v d) = None \<longleftrightarrow> as_dictionary d = None" "as_dictionary p_dict = Some []"
  by (cases d; simp add: d_insert_def p_dict_def)+

lemma setup_value_answers:
  assumes "plist_read L b = Some p"
  shows "setup_answer ep p (setup_value L s d ep b)"
proof -
  define v where "v = setup_value L s d ep b"
  have get: "p_get ''eventPort'' v = Some (PInt (int (unat (event_port ep))))" "p_get ''skipRecord'' v = Some (PBool False)"
    "p_get ''timingPeerInfo'' v = Some (timing_peer_info (sv_identifier s) (lan_ipv4 (dr_probe2 d) (sv_local_addr s)))"
    "p_get ''streams'' v = Some (PArray (List.map_filter (stream_response ep)
       (let r = requested_setup_stream_types L b in if r = [] then [96, 110] else r)))"
    by (simp_all add: v_def setup_value_def p_build_def d_int_def plist_simps Let_def)
  obtain m where m: "timing_peer_info (sv_identifier s) (lan_ipv4 (dr_probe2 d) (sv_local_addr s)) = PDict m"
      "map_of m ''ClockID'' = Some (PInt 0x4454424c54414b45)"
    by (simp add: timing_peer_info_def p_build_def d_int_def d_string_def d_insert_def p_dict_def update_conv)
  have "plist_uint (PInt 0x4454424c54414b45) \<noteq> 0" by (simp add: plist_uint_def plist_int_def)
  moreover have "audio_ports_of v = (audio_rtp_port ep, audio_rtcp_port ep)" if "requests_stream 96 p"
    unfolding audio_ports_of_def response_streams_def get requested_types [OF assms that]
    by (simp add: Let_def List.map_filter_def stream_response_def audio_ports_step_def audio_stream_def nested_port_def
        get_u16_def get_int_def p_build_def d_int_def plist_simps plist_int_port dict_inserted)
  moreover have "video_port_of v = int (unat (video_port ep))" if "requests_stream 110 p"
    unfolding video_port_of_def response_streams_def get requested_types [OF assms that]
    by (simp add: Let_def List.map_filter_def stream_response_def video_stream_def
        get_int_def p_build_def d_int_def plist_simps plist_int_port dict_inserted)
  ultimately show ?thesis
    unfolding v_def [symmetric]
    by (auto simp: setup_answer_def get get_u16_def get_int_def plist_int_port skip_record_of_def m)
qed

subsection \<open>The receiver provides the interface\<close>

text \<open>A receiver whose draws give the endpoints \<open>ep\<close>, and a session behind authentication and FairPlay.\<close>

definition receiver_ready :: "ReceiverServer \<Rightarrow> (nat \<Rightarrow> draws) \<Rightarrow> MediaEndpoints \<Rightarrow> bool" where
  "receiver_ready s ds ep \<longleftrightarrow>
     (\<forall>k. dr_millis (ds k) < 2 ^ 64 \<and> \<not> isl (lan_ipv4 (dr_probe1 (ds k)) (sv_local_addr s)) \<and> dr_media (ds k) = Inr ep)"

definition session_ready :: "MediaEndpoints \<Rightarrow> ReceiverSession \<Rightarrow> bool" where
  "session_ready ep ss \<longleftrightarrow> is_verified (rs_pairing ss) \<and>
     (case rs_fairplay ss of None \<Rightarrow> True | Some f \<Rightarrow> fp_complete f) \<and> (rs_media ss = None \<or> rs_media ss = Some ep)"

definition wire_live ::
  "crypto \<Rightarrow> hdr_order \<Rightarrow> ReceiverServer \<Rightarrow> (nat \<Rightarrow> draws) \<Rightarrow> MediaEndpoints \<Rightarrow> Client \<Rightarrow> receiver_end \<Rightarrow> bool" where
  "wire_live C hl s ds ep c w \<longleftrightarrow> aead_ok C \<and> hdr_order_ok hl \<and> receiver_ready s ds ep \<and> in_step c w \<and> session_ready ep (fst w)"

definition wire_serving :: "MediaEndpoints \<Rightarrow> receiver_end \<Rightarrow> bool" where
  "wire_serving ep w \<longleftrightarrow> rs_media (fst w) = Some ep"

text \<open>What the plist crate and the limits allow: the request and its answer are read back and are not too long.\<close>

definition wire_fits :: "plist_lib \<Rightarrow> ReceiverServer \<Rightarrow> (nat \<Rightarrow> draws) \<Rightarrow> MediaEndpoints \<Rightarrow> plist \<Rightarrow> bool" where
  "wire_fits L s ds ep p \<longleftrightarrow> plist_arrives L BODY_LIMIT p \<and>
     (\<forall>k. plist_arrives L MAX_RESPONSE_BODY (setup_value L s (ds k) ep (plist_write L p)))"

definition wire_uri :: "string \<Rightarrow> bool" where
  "wire_uri u \<longleftrightarrow> token u \<and> length u + 20 < HEADER_LIMIT"

definition wire_sid :: "string \<Rightarrow> bool" where
  "wire_sid u \<longleftrightarrow> text_line u \<and> trimmed u \<and> length u \<le> 100"

lemma setup_dispatch:
  assumes "receiver_ready s ds ep" "session_ready ep ss" "req_method req = ''SETUP''"
  shows "\<exists>ss'. dispatch C L s (ds k) req ss =
      ((with_clock (ds k) (resp_ok (plist_write L (setup_value L s (ds k) ep (req_body req))) BPLIST), None), ss') \<and>
    session_ready ep ss' \<and> rs_media ss' = Some ep"
proof -
  define ss1 where "ss1 = (if audio_dump (sv_cfg s) then ss\<lparr>rs_dump := rs_dump ss @ dump_setup req\<rparr> else ss)"
  have ss1: "rs_pairing ss1 = rs_pairing ss" "rs_fairplay ss1 = rs_fairplay ss" "rs_media ss1 = rs_media ss"
    by (simp_all add: ss1_def)
  obtain ip where ip: "lan_ipv4 (dr_probe1 (ds k)) (sv_local_addr s) = Inr ip" "dr_media (ds k) = Inr ep"
    using assms(1) unfolding receiver_ready_def isl_def by (metis sum.exhaust that)
  have media: "session_media s (ds k) ss1 = (Inr ep, ss1\<lparr>rs_media := Some ep\<rparr>)"
    using assms(2) ip ss1(3) by (cases "rs_media ss1") (auto simp: session_media_def session_ready_def)
  have fp: "\<not> (case rs_fairplay ss of None \<Rightarrow> False | Some f \<Rightarrow> \<not> fp_complete f)"
    using assms(2) by (simp add: session_ready_def split: option.splits)
  have "handle_setup L s (ds k) req ss =
      (with_clock (ds k) (resp_ok (plist_write L (setup_value L s (ds k) ep (req_body req))) BPLIST), ss1\<lparr>rs_media := Some ep\<rparr>)"
    unfolding handle_setup_def ss1_def [symmetric] using fp by (simp add: media Let_def)
  moreover have "is_verified (rs_pairing ss)" using assms(2) by (simp add: session_ready_def)
  ultimately have "dispatch C L s (ds k) req ss =
      ((with_clock (ds k) (resp_ok (plist_write L (setup_value L s (ds k) ep (req_body req))) BPLIST), None),
       ss1\<lparr>rs_media := Some ep\<rparr>)"
    using assms(3) by (simp add: dispatch_def Let_def)
  then show ?thesis using assms(2) ss1 by (auto simp: session_ready_def)
qed

lemma setup_on_the_wire:
  assumes "wire_live C hl s ds ep c w" "wire_fits L s ds ep p" "wire_uri uri"
  shows "\<exists>b hs v c' w'. wire_rtsp C md5 hl L s ds ''SETUP'' uri Mirror_Setup.BPLIST_TYPE (plist_write L p) Map.empty (c, w) =
      (Inr (b, hs), (c', w')) \<and> plist_read L b = Some v \<and> setup_answer ep p v \<and> clock_ok hs \<and>
      wire_live C hl s ds ep c' w' \<and> core c' = core c \<and> wire_serving ep w'"
proof -
  obtain ss io k where w: "w = (ss, io, k)" by (cases w) auto
  have live: "aead_ok C" "hdr_order_ok hl" "receiver_ready s ds ep" "in_step c (ss, io, k)" "session_ready ep ss"
    using assms(1) by (simp_all add: wire_live_def w)
  define v where "v = setup_value L s (ds k) ep (plist_write L p)"
  have fit: "plist_read L (plist_write L p) = Some p" "length (plist_write L p) \<le> BODY_LIMIT"
      "plist_read L (plist_write L v) = Some v" "length (plist_write L v) \<le> MAX_RESPONSE_BODY"
    using assms(2) by (simp_all add: wire_fits_def plist_arrives_def v_def)
  define req where "req = arrived hl c ''SETUP'' uri Mirror_Setup.BPLIST_TYPE (plist_write L p) Map.empty"
  have req: "req_method req = ''SETUP''" "req_body req = plist_write L p" by (simp_all add: req_def arrived_def)
  define resp where "resp = with_clock (ds k) (resp_ok (plist_write L v) BPLIST)"
  have resp: "sr_body resp = plist_write L v" "sr_status resp = 200" "sr_headers resp = clock_headers (dr_millis (ds k))"
    by (simp_all add: resp_def with_clock_def resp_ok_def)
  from setup_dispatch [OF live(3,5) req(1), of C L k] obtain ss' where
    d: "dispatch C L s (ds k) req ss = ((resp, None), ss')" "session_ready ep ss'" "rs_media ss' = Some ep"
    by (auto simp: req(2) resp_def v_def)
  have n: "dr_millis (ds k) < 2 ^ 64" using live(3) by (simp add: receiver_ready_def)
  have ok: "request_ok ''SETUP'' uri Mirror_Setup.BPLIST_TYPE (plist_write L p) Map.empty"
    using assms(3) fit(2)
    by (simp add: request_ok_def wire_uri_def extra_ok_def Mirror_Setup.BPLIST_TYPE_def token_def trimmed_def visible_def
        ascii_char_def ascii_white_def HEADER_LIMIT_def BODY_LIMIT_def)
  note step = wire_step [where ds = ds and k = k, OF live(1,2,4) ok _ fit(2) n d(1) [unfolded req_def] _ resp(2)]
  from step [of md5] fit(4)
  obtain c' io' cs where
    1: "wire_rtsp C md5 hl L s ds ''SETUP'' uri Mirror_Setup.BPLIST_TYPE (plist_write L p) Map.empty (c, w) =
        (Inr (plist_write L v, lower_map (response_headers hl cs resp)), (c', (ss', io', Suc k)))"
      "in_step c' (ss', io', Suc k)" "core c' = core c"
    by (auto simp: resp w)
  have "wire_live C hl s ds ep c' (ss', io', Suc k)"
    using live 1(2) d(2) by (simp add: wire_live_def)
  moreover have "clock_ok (lower_map (response_headers hl cs resp))"
    by (rule clock_headers_arrive [OF live(2) resp(3) n])
  moreover have "setup_answer ep p v" unfolding v_def by (rule setup_value_answers [OF fit(1)])
  moreover have "wire_serving ep (ss', io', Suc k)" using d(3) by (simp add: wire_serving_def)
  ultimately show ?thesis using 1 fit(3) by blast
qed

lemma record_header_names:
  "to_ascii_lowercase ''Session'' = ''session''" "to_ascii_lowercase ''Range'' = ''range''"
  "to_ascii_lowercase ''RTP-Info'' = ''rtp-info''"
  by code_simp+

lemma record_request_ok:
  assumes "wire_uri uri" "wire_sid sid"
  shows "request_ok ''RECORD'' uri [] [] (record_headers sid)"
proof -
  have t: "token ''Session''" "token ''Range''" "token ''RTP-Info''" "text_line ''npt=0-''" "text_line ''seq=0;rtptime=0''"
      "trimmed ''npt=0-''" "trimmed ''seq=0;rtptime=0''" "token ''RECORD''" "text_line []"
    by (simp_all add: token_def trimmed_def visible_def ascii_char_def ascii_white_def)
  have f: "finite (dom (record_headers sid))" by (simp add: record_headers_def)
  have h: "header_ok HEADER_LIMIT (k, v) \<and> to_ascii_lowercase k \<noteq> ''content-length''" if "record_headers sid k = Some v" for k v
    using that assms(2) t
    by (auto simp: record_headers_def header_ok_def record_header_names HEADER_LIMIT_def wire_sid_def split: if_splits)
  show ?thesis
    using assms(1) t f h
    by (simp add: request_ok_def extra_ok_def wire_uri_def HEADER_LIMIT_def trimmed_def)
qed

lemma record_on_the_wire:
  assumes "wire_live C hl s ds ep c w" "wire_uri uri" "wire_sid sid"
  shows "\<exists>x c' w'. wire_rtsp C md5 hl L s ds ''RECORD'' uri [] [] (record_headers sid) (c, w) = (Inr x, (c', w')) \<and>
      wire_live C hl s ds ep c' w' \<and> core c' = core c \<and> (wire_serving ep w \<longrightarrow> wire_serving ep w')"
proof -
  obtain ss io k where w: "w = (ss, io, k)" by (cases w) auto
  have live: "aead_ok C" "hdr_order_ok hl" "receiver_ready s ds ep" "in_step c (ss, io, k)" "session_ready ep ss"
    using assms(1) by (simp_all add: wire_live_def w)
  define resp where "resp = with_clock (ds k) (resp_empty 200)"
  have resp: "sr_body resp = []" "sr_status resp = 200" by (simp_all add: resp_def with_clock_def resp_empty_def)
  have d: "dispatch C L s (ds k) (arrived hl c ''RECORD'' uri [] [] (record_headers sid)) ss = ((resp, None), ss)"
    using live(5) by (simp add: dispatch_def arrived_def session_ready_def Let_def resp_def)
  have nc: "\<forall>n \<in> dom (record_headers sid). to_ascii_lowercase n \<noteq> ''cseq''"
    by (auto simp: record_headers_def record_header_names split: if_splits)
  have n: "dr_millis (ds k) < 2 ^ 64" using live(3) by (simp add: receiver_ready_def)
  note step = wire_step [where ds = ds and k = k, OF live(1,2,4) record_request_ok [OF assms(2,3)] nc _ n d _ resp(2)]
  from step [of md5] obtain c' io' cs where
    "wire_rtsp C md5 hl L s ds ''RECORD'' uri [] [] (record_headers sid) (c, w) =
        (Inr ([], lower_map (response_headers hl cs resp)), (c', (ss, io', Suc k)))"
      "in_step c' (ss, io', Suc k)" "core c' = core c"
    by (auto simp: resp w)
  with live show ?thesis by (auto simp: wire_live_def wire_serving_def w)
qed

lemma linked_stream_keys: "linked (c\<lparr>cl_stream_key := k, cl_stream_iv := i\<rparr>) io = linked c io"
  by (cases io) simp_all

lemma wire_live_stream_keys:
  "wire_live C hl s ds ep c w \<Longrightarrow> wire_live C hl s ds ep (c\<lparr>cl_stream_key := k, cl_stream_iv := i\<rparr>) w"
  by (simp add: wire_live_def in_step_def linked_stream_keys)

interpretation wire: session_server L "wire_rtsp C md5 hl L s ds" "wire_live C hl s ds ep" "wire_serving ep"
    "wire_fits L s ds ep" wire_uri wire_sid ep
  by unfold_locales (rule setup_on_the_wire record_on_the_wire wire_live_stream_keys; assumption)+

subsection \<open>The set-up completes\<close>

lemma hex_digit_visible: "c \<in> set ''0123456789abcdef-'' \<Longrightarrow> visible c"
  by (auto simp: visible_def ascii_char_def ascii_white_def)

lemma uuid_sid: "length b = 16 \<Longrightarrow> wire_sid (generate_uuid b)"
proof -
  assume len: "length b = 16"
  have "length (uuid_bytes b) = 16" using len by (simp add: uuid_bytes_def)
  then have 36: "length (generate_uuid b) = 36" by (simp add: generate_uuid_def Let_def length_hex)
  have "set (generate_uuid b) \<subseteq> set ''0123456789abcdef-''"
    using hex_chars by (fastforce simp: generate_uuid_def Let_def)
  then have vis: "\<forall>c \<in> set (generate_uuid b). visible c" using hex_digit_visible by blast
  moreover have "generate_uuid b \<noteq> []" using 36 by auto
  ultimately have "token (generate_uuid b)" by (simp add: token_def list_all_iff)
  with 36 show ?thesis by (simp add: wire_sid_def token_trimmed token_text)
qed

lemma rtsp_uri_ok:
  assumes "token (cl_host c)" "length (cl_host c) \<le> 8000" "i < 2 ^ 64"
  shows "wire_uri (rtsp_uri c i)"
proof -
  have "length (dec (unat (cl_port c))) \<le> 20" "length (dec i) \<le> 20"
    using length_dec_u16 [of "cl_port c"] length_dec_u64 [OF assms(3)] by auto
  moreover have "list_all visible (dec n)" for n using dec_token [of n] by (simp add: token_def)
  moreover have "list_all visible ''rtsp://''" "visible CHR '':''" "visible CHR ''/''"
    by (simp_all add: visible_def ascii_char_def ascii_white_def)
  ultimately show ?thesis
    using assms(1,2) by (simp add: wire_uri_def rtsp_uri_def token_def HEADER_LIMIT_def)
qed

lemma connection_id_less: "connection_id n < 2 ^ 64"
  unfolding connection_id_def using unsigned_less [where 'b = 64 and 'a = nat] by simp

text \<open>C8. A session set-up against the repository's own receiver completes, over the bytes of a plain or encrypted
  control connection, with an authenticated session and whatever FairPlay state lets SETUP through: the sender
  ends with the audio ports of the receiver's endpoints and connected to its video port, the receiver has those
  endpoints open, and both ends of the control connection are in step. It also shows that the event channel is
  connected twice, to the same port and both times in the same state, keys and nonces included.\<close>

theorem session_setup_completes:
  assumes "aead_ok C" "hdr_order_ok hl" "linked c io" "auth_challenge c = None"
    and receiver: "receiver_ready s ds ep" "session_ready ep ss" "event_port ep \<noteq> 0" "video_port ep \<noteq> 0"
    and sender: "uuid_to_mac (cl_session_id c) = Inr mac" "long_keys c" "token (cl_host c)" "length (cl_host c) \<le> 8000"
    and env: "en_local_ip env = Some ip" "en_ports env = Inr [p0, p1, p2]" "length (en_uuid_session env) = 16"
      "en_nanos_audio env = Some na" "en_nanos_video env = Some nv"
      "en_event env = [event_port ep \<mapsto> inp]" "en_data env = (\<lambda>p. p = video_port ep)"
    and ch: "event_connect C inp (Client.encrypted c) (client_secret c) = Inr ch"
    and fit: "\<forall>p \<in> set (sent_plists env (request_record env c mac ip p0) (is_modern_session c) (stream_enc env ne c) c p1
          (max (target_latency (en_target env)) (receiver_playout_floor c)) (connection_id na) (connection_id nv)).
        wire_fits L s ds ep p"
  shows "\<exists>sess st. setup_mirror_session C L (wire_rtsp C md5 hl L s ds) env ne (c, (ss, io, k)) = (Inr sess, st) \<and>
    audio_data_port sess = audio_rtp_port ep \<and> audio_ctrl_port sess = audio_rtcp_port ep \<and>
    rs_media (fst (st_world st)) = Some ep \<and> linked (ms_client sess) (fst (snd (st_world st))) \<and>
    st_events st = [(event_port ep, ch), (event_port ep, ch)]"
proof -
  have live: "wire_live C hl s ds ep c (ss, io, k)" using assms(1-6) by (simp add: wire_live_def in_step_def)
  have uri: "wire_uri (rtsp_uri c (connection_id n))" for n
    by (rule rtsp_uri_ok [OF sender(3,4) connection_id_less])
  have ev: "en_event env (event_port ep) = Some inp" "en_data env (video_port ep)" using env(6,7) by simp_all
  from wire.setup_completes [OF live sender(1) env(1) sender(2) env(2,4,5) refl fit uri uri uuid_sid [OF env(3)]
      receiver(3) ev(1) ch receiver(4) ev(2)]
  obtain sess st where
    1: "setup_mirror_session C L (wire_rtsp C md5 hl L s ds) env ne (c, (ss, io, k)) = (Inr sess, st)" and
    2: "wire.set_up C hl s ds ep ch sess st" by blast
  from 2 have "wire_live C hl s ds ep (st_client st) (st_world st)" "ms_client sess = st_client st"
    by (simp_all add: wire.set_up_def)
  then have "linked (ms_client sess) (fst (snd (st_world st)))" by (simp add: wire_live_def in_step_def)
  with 1 2 show ?thesis by (auto simp: wire.set_up_def wire_serving_def)
qed

text \<open>The demonstration receiver of Receiver_Control, behind authentication and without FairPlay.\<close>

definition demo_endpoints :: MediaEndpoints where
  "demo_endpoints = \<lparr>event_port = 1, video_port = 2, audio_rtp_port = 3, audio_rtcp_port = 4, timing_port = 5\<rparr>"

definition demo_receiver_session :: ReceiverSession where
  "demo_receiver_session =
    (let ss = Receiver_Server.new_session toy_crypto demo_server [] in
     ss\<lparr>rs_fairplay := None, rs_pairing := (rs_pairing ss)\<lparr>verified := True\<rparr>\<rparr>)"

definition demo_setup_client :: Client where
  "demo_setup_client = Client.connected [] [] [] ''tv'' 7000"

definition demo_setup_env :: mirror_env where
  "demo_setup_env =
    \<lparr>en_uuid_session = replicate 16 1, en_uuid_peer = replicate 16 2, en_name = ''pc'', en_local_ip = Some ''10.0.0.2'',
     en_stream_draw = ([1], [2]), en_ports = Inr [6000, 6001, 6002], en_target = 5000000, en_round = (\<lambda>x. x),
     en_nanos_audio = Some 1, en_nanos_video = Some 2, en_audio_key = replicate 32 3, en_received = (0, 0, 0),
     en_event = [1 \<mapsto> []], en_data = (\<lambda>p. p = 2)\<rparr>"

definition demo_sent :: "plist list" where
  "demo_sent = sent_plists demo_setup_env (request_record demo_setup_env demo_setup_client ''02:00:00:00:00:01'' ''10.0.0.2'' 6000)
     (is_modern_session demo_setup_client) (stream_enc demo_setup_env False demo_setup_client) demo_setup_client 6001
     (max (target_latency (en_target demo_setup_env)) (receiver_playout_floor demo_setup_client)) (connection_id 1) (connection_id 2)"

definition answer_for :: "int \<Rightarrow> plist" where
  "answer_for t = p_build
    [d_int ''eventPort'' 1, d_insert ''skipRecord'' (PBool False),
     d_insert ''timingPeerInfo'' (timing_peer_info (sv_identifier demo_server)
       (lan_ipv4 (dr_probe2 demo_draws) (sv_local_addr demo_server))),
     d_insert ''streams'' (PArray (List.map_filter (stream_response demo_endpoints) [t]))]"

definition demo_plists :: plist_lib where
  "demo_plists = indexed_plists (demo_sent @ [answer_for 96, answer_for 110])"

lemma demo_fits: "\<forall>p \<in> set demo_sent. wire_fits demo_plists demo_server (\<lambda>k. demo_draws) demo_endpoints p"
proof
  fix p assume p: "p \<in> set demo_sent"
  have legacy: "\<not> is_modern_session demo_setup_client"
    by (simp add: is_modern_session_def demo_setup_client_def Client.connected_def)
  have len: "length (demo_sent @ [answer_for 96, answer_for 110]) \<le> 256" by (simp add: demo_sent_def sent_plists_def legacy)
  have a: "v \<in> set (demo_sent @ [answer_for 96, answer_for 110]) \<Longrightarrow> 0 < n \<Longrightarrow> plist_arrives demo_plists n v" for v n
    unfolding demo_plists_def by (rule indexed_plists_arrive [OF _ len])
  have ap: "plist_arrives demo_plists BODY_LIMIT p" using p by (intro a) (simp_all add: BODY_LIMIT_def)
  have "requests_stream 96 p \<or> requests_stream 110 p"
    using p by (auto simp: demo_sent_def sent_plists_def legacy audio_desc_of_def audio_requested video_requested)
  then obtain t where t: "requests_stream t p" "t \<in> {96, 110}" by auto
  have "plist_read demo_plists (plist_write demo_plists p) = Some p" using ap by (simp add: plist_arrives_def)
  from requested_types [OF this t(1)]
  have "setup_value demo_plists demo_server demo_draws demo_endpoints (plist_write demo_plists p) = answer_for t"
    by (simp add: setup_value_def answer_for_def Let_def demo_endpoints_def)
  moreover have "plist_arrives demo_plists MAX_RESPONSE_BODY (answer_for t)"
    using t(2) by (intro a) (auto simp: MAX_RESPONSE_BODY_def)
  ultimately show "wire_fits demo_plists demo_server (\<lambda>k. demo_draws) demo_endpoints p"
    using ap by (simp add: wire_fits_def)
qed

theorem session_setup_completes_witness:
  "\<exists>sess st ch. setup_mirror_session toy_crypto demo_plists
      (wire_rtsp toy_crypto (\<lambda>b. b) key_order demo_plists demo_server (\<lambda>k. demo_draws)) demo_setup_env False
      (demo_setup_client, (demo_receiver_session, Plain [], 0)) = (Inr sess, st) \<and>
    audio_data_port sess = 3 \<and> audio_ctrl_port sess = 4 \<and> rs_media (fst (st_world st)) = Some demo_endpoints \<and>
    linked (ms_client sess) (fst (snd (st_world st))) \<and> st_events st = [(1, ch), (1, ch)]"
proof -
  have r: "receiver_ready demo_server (\<lambda>k. demo_draws) demo_endpoints"
    by (simp add: receiver_ready_def demo_draws_def demo_server_def ReceiverServer_new_def lan_ipv4_def net_lan_ipv4_def
        demo_endpoints_def Let_def)
  have s: "session_ready demo_endpoints demo_receiver_session"
    by (simp add: session_ready_def demo_receiver_session_def Let_def is_verified_def Receiver_Server.new_session_def)
  define ch where "ch = \<lparr>ev_encrypted = False, ev_stream = HapStream_new [] [] []\<rparr>"
  have ch: "event_connect toy_crypto [] (Client.encrypted demo_setup_client) (client_secret demo_setup_client) = Inr ch"
    by (simp add: ch_def event_connect_def event_channel_new_def demo_setup_client_def Client.connected_def)
  have c: "linked demo_setup_client (Plain [])" "auth_challenge demo_setup_client = None"
      "uuid_to_mac (cl_session_id demo_setup_client) = Inr ''02:00:00:00:00:01''" "long_keys demo_setup_client"
      "token (cl_host demo_setup_client)" "length (cl_host demo_setup_client) \<le> 8000"
    by (simp_all add: demo_setup_client_def Client.connected_def uuid_to_mac_def to_ascii_lowercase_def long_keys_def
        token_def visible_def ascii_char_def ascii_white_def)
  have e: "en_local_ip demo_setup_env = Some ''10.0.0.2''" "en_ports demo_setup_env = Inr [6000, 6001, 6002]"
      "length (en_uuid_session demo_setup_env) = 16" "en_nanos_audio demo_setup_env = Some 1"
      "en_nanos_video demo_setup_env = Some 2" "en_event demo_setup_env = [event_port demo_endpoints \<mapsto> []]"
      "en_data demo_setup_env = (\<lambda>p. p = video_port demo_endpoints)"
    by (simp_all add: demo_setup_env_def demo_endpoints_def)
  have p: "event_port demo_endpoints \<noteq> 0" "video_port demo_endpoints \<noteq> 0" by (simp_all add: demo_endpoints_def)
  have ports: "event_port demo_endpoints = 1" "audio_rtp_port demo_endpoints = 3" "audio_rtcp_port demo_endpoints = 4"
    by (simp_all add: demo_endpoints_def)
  note completes = session_setup_completes [OF toy_crypto_ok(1) key_order_ok c(1,2) r s p c(3-6) e ch demo_fits [unfolded demo_sent_def]]
  from completes [of "\<lambda>b. b" 0] show ?thesis unfolding ports by blast
qed

end
