(* ===== verification/Fairplay.thy ===== *)
theory Fairplay
  imports Receiver_Fairplay Crypto Info
begin

text \<open>
  The sender's FairPlay setup (\<open>lumen-airplay/src/fairplay.rs\<close>) and its run against the receiver's
  half. The transport, the random bytes and the primitives are arguments, as in pairing.
\<close>

definition ERR_FAIRPLAY_UNSUPPORTED :: string where
  "ERR_FAIRPLAY_UNSUPPORTED = ''receiver does not support FairPlay SAP''"

record FairPlayResult =
  ekey :: bytes
  fr_stream_iv :: bytes
  fr_stream_key :: bytes
  raw_key :: bytes
  fr_m3 :: bytes

record fairplay_rnd =
  rnd_entropy :: bytes
  rnd_iv :: bytes
  rnd_key :: bytes
  rnd_mask :: bytes

definition derive_stream_master_key :: "crypto \<Rightarrow> bytes \<Rightarrow> bytes \<Rightarrow> bool \<Rightarrow> bytes" where
  "derive_stream_master_key C raw secret hap_encrypted =
    (if \<not> hap_encrypted \<or> secret = [] then raw else take 16 (sha512 C (raw @ secret)))"

definition post_fp_setup :: "'w transport \<Rightarrow> bytes \<Rightarrow> 'w \<Rightarrow> bytes res \<times> 'w" where
  "post_fp_setup tr b w =
    (case tr \<lparr>rq_raw = False, rq_method = ''POST'', rq_path = ''/fp-setup'',
              rq_content_type = ''application/octet-stream'', rq_body = b,
              rq_headers = [''X-Apple-ET'' \<mapsto> ''32'']\<rparr> w of
       (Inl e, w) \<Rightarrow> (Inl e, w)
     | (Inr resp, w) \<Rightarrow>
         if status resp = 404
         then (Inl (protocol (ERR_FAIRPLAY_UNSUPPORTED @ '': /fp-setup returned 404'')), w)
         else (ok_body (Inr resp), w))"

definition fairplay_setup ::
  "crypto \<Rightarrow> fairplay_crypto \<Rightarrow> 'w transport \<Rightarrow> fairplay_rnd \<Rightarrow> ReceiverInfo \<Rightarrow> bytes \<Rightarrow> bool \<Rightarrow> 'w \<Rightarrow>
   FairPlayResult res \<times> 'w" where
  "fairplay_setup C F tr rnd ri shared_secret hap_encrypted w =
    (if \<not> supports_fairplay_sap ri
     then (Inl (protocol (ERR_FAIRPLAY_UNSUPPORTED @ '': FPSAP feature bit is not advertised (features=0x'' @
             hex_num (unat (features ri)) @ '')'')), w)
     else case FpsapSession_new (rnd_entropy rnd) of Inl e \<Rightarrow> (Inl e, w) | Inr fs \<Rightarrow>
     case post_fp_setup tr (message1 fs) w of (Inl e, w) \<Rightarrow> (Inl e, w) | (Inr m2, w) \<Rightarrow>
     case exchange_m3 m2 fs of (Inl e, _) \<Rightarrow> (Inl e, w) | (Inr m3, fs) \<Rightarrow>
     case post_fp_setup tr m3 w of (Inl e, w) \<Rightarrow> (Inl e, w) | (Inr m4, w) \<Rightarrow>
     case confirm_m4 fs m4 of Inl e \<Rightarrow> (Inl e, w) | Inr _ \<Rightarrow>
     case wrap_key F fs (rnd_key rnd) (rnd_mask rnd) of Inl e \<Rightarrow> (Inl e, w) | Inr ek \<Rightarrow>
     (Inr \<lparr>ekey = ek, fr_stream_iv = rnd_iv rnd,
           fr_stream_key = derive_stream_master_key C (rnd_key rnd) shared_secret hap_encrypted,
           raw_key = rnd_key rnd, fr_m3 = m3\<rparr>, w))"

subsection \<open>The exchange between the two halves\<close>

lemma encrypt_mode_ok:
  "unat mode < 4 \<Longrightarrow> \<exists>b. encrypt_fairplay_message mode p = Inr b \<and> length b = 128"
  by (rule encrypt_ok)

text \<open>One exchange from fresh states: the messages, and what each side knows afterwards.\<close>

lemma fpsap_handshake:
  assumes s: "length (local_sap s) = 128"
    and r: "phase r = 0" "rf_mode r = FPSAP_MODE" "length (receiver_sap r) = 128"
  shows "\<exists>m2 m3 m4 b. fp_exchange (message1 s) r = (Inr m2, r\<lparr>phase := 1\<rparr>)
    \<and> exchange_m3 m2 s = (Inr m3, s\<lparr>remote_sap := receiver_sap r, fs_m3 := m3, has_m3 := True\<rparr>)
    \<and> fp_exchange m3 (r\<lparr>phase := 1\<rparr>) = (Inr m4, r\<lparr>rf_m3 := m3, phase := 2\<rparr>)
    \<and> confirm_m4 (s\<lparr>remote_sap := receiver_sap r, fs_m3 := m3, has_m3 := True\<rparr>) m4 = Inr ()
    \<and> m3 = m3_record FPSAP_MODE b (fpsap_exchange_for_sap (local_sap s) (receiver_sap r))
    \<and> length b = 128 \<and> decrypt_fairplay_message m3 = Inr (local_sap s)"
proof -
  have mode: "unat FPSAP_MODE < 4" by (simp add: FPSAP_MODE_def)
  obtain b2 where b2: "encrypt_fairplay_message FPSAP_MODE (receiver_sap r) = Inr b2" "length b2 = 128"
    using encrypt_mode_ok [OF mode] by blast
  obtain b3 where b3: "encrypt_fairplay_message FPSAP_MODE (local_sap s) = Inr b3" "length b3 = 128"
    using encrypt_mode_ok [OF mode] by blast
  define m2 where "m2 = fpsap_header 2 130 @ [2, FPSAP_MODE] @ b2"
  define x where "x = fpsap_exchange_for_sap (local_sap s) (receiver_sap r)"
  define m3 where "m3 = m3_record FPSAP_MODE b3 x"
  have x: "length x = 20" by (simp add: x_def)
  have 1: "fp_exchange (message1 s) r = (Inr m2, r\<lparr>phase := 1\<rparr>)"
    using exchange_m2_eq [of "message1 s" r b2] b2 r
    by (simp add: fp_exchange_def message1_eq FPSAP_M1_PAYLOAD_def m2_def)
  have 2: "exchange_m3 m2 s = (Inr m3, s\<lparr>remote_sap := receiver_sap r, fs_m3 := m3, has_m3 := True\<rparr>)"
    unfolding exchange_m3_eq [OF m2_def b2(2) b3 decrypt_fpsap_body_encrypt [OF b2(1) r(3) b2(2)]]
    by (simp add: m3_def x_def Let_def)
  have d: "decrypt_fairplay_message m3 = Inr (local_sap s)"
  proof -
    have "m3 = (fpsap_header 3 152 @ [FPSAP_MODE] @ FPSAP_M3_LABEL) @ b3 @ x" by (simp add: m3_def m3_record_def)
    then show ?thesis
      using decrypt_encrypt [OF b3(1) s, of "fpsap_header 3 152 @ [FPSAP_MODE] @ FPSAP_M3_LABEL" x]
      by (simp add: nth_append)
  qed
  have conf: "m3_confirms (receiver_sap r) FPSAP_MODE m3"
    unfolding m3_confirms_def using b3(2) d by (intro exI [of _ b3] exI [of _ "local_sap s"]) (simp add: m3_def x_def)
  then have 3: "fp_exchange m3 (r\<lparr>phase := 1\<rparr>) = (Inr (fpsap_header 4 20 @ drop 144 m3), r\<lparr>rf_m3 := m3, phase := 2\<rparr>)"
    using exchange_m4_eq [of "r\<lparr>phase := 1\<rparr>" m3] r by (simp add: fp_exchange_def)
  have tail: "drop 144 m3 = x" "length m3 = 164"
    unfolding m3_def using m3_record_fields(4,5) [OF b3(2) x] by simp_all
  have "validate_fpsap_record (fpsap_header 4 20 @ x) 4 20 = Inr ()"
    using x by (intro validate_header) simp_all
  then have 4: "confirm_m4 (s\<lparr>remote_sap := receiver_sap r, fs_m3 := m3, has_m3 := True\<rparr>)
      (fpsap_header 4 20 @ drop 144 m3) = Inr ()"
    using tail by (simp add: confirm_m4_def validate_fpsap_m4_def rbind_def)
  from 1 2 3 4 d b3(2) show ?thesis unfolding m3_def x_def by blast
qed

subsection \<open>Key wrapping\<close>

text \<open>The sizes of the primitives' results.\<close>

definition fairplay_crypto_ok :: "fairplay_crypto \<Rightarrow> bool" where
  "fairplay_crypto_ok F \<longleftrightarrow> (\<forall>k b. length b = 16 \<longrightarrow> length (aes128_encrypt F k b) = 16) \<and>
     (\<forall>k m. length (hmac_sha1 F k m) = 20)"

lemma derive_wrapping_key_ok:
  "decrypt_fairplay_message m3 = Inr p \<Longrightarrow> \<exists>wk. derive_fairplay_wrapping_key sap m3 = Inr wk \<and> length wk = 16"
  by (simp add: derive_fairplay_wrapping_key_def Let_def)

lemma wrap_key_eq:
  assumes F: "fairplay_crypto_ok F" and len: "length key = 16" "length msk = 16"
    and m3: "validate_fpsap_record m3 3 152 = Inr ()" "unat (m3 ! 12) < 4"
    and wk: "derive_fairplay_wrapping_key sap m3 = Inr wk" "decrypt_fairplay_message m3 = Inr sender_sap"
  shows "wrap_fair_play_key F sap m3 key msk =
    (let front = EKEY_HEADER @ msk @ to_be 4 16
     in Inr (front @ hmac_sha1 F (fpsap_descriptor_for_sap sender_sap sap) (front @ key) @
             aes128_encrypt F wk (xor_bytes key msk)))"
proof -
  have h: "length EKEY_HEADER = 16" by (simp add: EKEY_HEADER_def)
  define e1 where "e1 = splice 32 (to_be 4 16) (splice 16 msk (splice 0 EKEY_HEADER (replicate 72 (0 :: byte))))"
  define front where "front = EKEY_HEADER @ msk @ to_be 4 16"
  have e1: "e1 = front @ replicate 36 0" using h len by (simp add: e1_def front_def splice_def)
  have lf: "length front = 36" using h len by (simp add: front_def)
  define sealed where "sealed = aes128_encrypt F wk (xor_bytes key msk)"
  have ls: "length sealed = 16" using F len by (simp add: sealed_def fairplay_crypto_ok_def)
  have e2: "splice 56 sealed e1 = front @ replicate 20 0 @ sealed" using lf ls by (simp add: e1 splice_def)
  have mac: "length (hmac_sha1 F k m) = 20" for k m using F by (simp add: fairplay_crypto_ok_def)
  have e3: "splice 36 (hmac_sha1 F k m) (front @ replicate 20 0 @ sealed) = front @ hmac_sha1 F k m @ sealed" for k m
    using lf ls mac by (simp add: splice_def)
  have "take 16 (drop 16 e1) = msk" using h len by (simp add: e1 front_def)
  with m3 wk e2 lf show ?thesis
    by (simp add: wrap_fair_play_key_def rbind_def FAIRPLAY_MESSAGE_MODE_COUNT_def len(1) Let_def e3
        flip: e1_def front_def sealed_def)
qed

subsection \<open>The setup against the receiver\<close>

text \<open>The receiver's answers on \<open>/fp-setup\<close>: 200 with the machine's reply, or 400.\<close>

definition fpsap_transport :: "ReceiverFpsap transport" where
  "fpsap_transport rq r =
    (case fp_exchange (rq_body rq) r of
       (Inr b, r) \<Rightarrow> (Inr \<lparr>status = 200, headers = Map.empty, body = b\<rparr>, r)
     | (Inl e, r) \<Rightarrow> (Inr \<lparr>status = 400, headers = Map.empty, body = []\<rparr>, r))"

lemma post_fpsap: "fp_exchange b r = (Inr m, r') \<Longrightarrow> post_fp_setup fpsap_transport b r = (Inr m, r')"
  by (simp add: post_fp_setup_def fpsap_transport_def ok_body_def)

lemma fairplay_setup_runs:
  assumes F: "fairplay_crypto_ok F" and ri: "supports_fairplay_sap ri"
    and len: "126 \<le> length (rnd_entropy rnd)" "length (rnd_key rnd) = 16" "length (rnd_mask rnd) = 16"
    and r: "phase r = 0" "rf_mode r = FPSAP_MODE" "length (receiver_sap r) = 128"
  shows "\<exists>res r' wk. fairplay_setup C F fpsap_transport rnd ri secret hap r = (Inr res, r') \<and> fp_complete r'
    \<and> receiver_sap r' = receiver_sap r \<and> rf_m3 r' = fr_m3 res
    \<and> derive_fairplay_wrapping_key (receiver_sap r') (rf_m3 r') = Inr wk
    \<and> length (ekey res) = 72 \<and> take 16 (drop 16 (ekey res)) = rnd_mask rnd
    \<and> drop 56 (ekey res) = aes128_encrypt F wk (xor_bytes (raw_key res) (rnd_mask rnd))
    \<and> fr_stream_key res = derive_stream_master_key C (raw_key res) secret hap"
proof -
  obtain s where s: "FpsapSession_new (rnd_entropy rnd) = Inr s" "length (local_sap s) = 128"
    using FpsapSession_new_ok [OF len(1)] by blast
  obtain m2 m3 m4 b where h: "fp_exchange (message1 s) r = (Inr m2, r\<lparr>phase := 1\<rparr>)"
      "exchange_m3 m2 s = (Inr m3, s\<lparr>remote_sap := receiver_sap r, fs_m3 := m3, has_m3 := True\<rparr>)"
      "fp_exchange m3 (r\<lparr>phase := 1\<rparr>) = (Inr m4, r\<lparr>rf_m3 := m3, phase := 2\<rparr>)"
      "confirm_m4 (s\<lparr>remote_sap := receiver_sap r, fs_m3 := m3, has_m3 := True\<rparr>) m4 = Inr ()"
      and m3: "m3 = m3_record FPSAP_MODE b (fpsap_exchange_for_sap (local_sap s) (receiver_sap r))"
      "length b = 128" "decrypt_fairplay_message m3 = Inr (local_sap s)"
    using fpsap_handshake [OF s(2) r] by blast
  obtain wk where wk: "derive_fairplay_wrapping_key (receiver_sap r) m3 = Inr wk"
    using derive_wrapping_key_ok [OF m3(3)] by blast
  have v: "validate_fpsap_record m3 3 152 = Inr ()" "m3 ! 12 = FPSAP_MODE"
    unfolding m3(1) using m3_record_fields(1,2) [OF m3(2) length_fpsap_exchange] by simp_all
  have mode: "unat (m3 ! 12) < 4" by (simp add: v(2) FPSAP_MODE_def)
  define fs where "fs = s\<lparr>remote_sap := receiver_sap r, fs_m3 := m3, has_m3 := True\<rparr>"
  define front where "front = EKEY_HEADER @ rnd_mask rnd @ to_be 4 16"
  define mac where "mac = hmac_sha1 F (fpsap_descriptor_for_sap (local_sap s) (receiver_sap r)) (front @ rnd_key rnd)"
  define sealed where "sealed = aes128_encrypt F wk (xor_bytes (rnd_key rnd) (rnd_mask rnd))"
  have w: "wrap_key F fs (rnd_key rnd) (rnd_mask rnd) = Inr (front @ mac @ sealed)"
    using wrap_key_eq [OF F len(2,3) v(1) mode wk m3(3)]
    by (simp add: wrap_key_def fs_def Let_def front_def mac_def sealed_def)
  have l: "length front = 36" "length mac = 20" "length sealed = 16"
    using F len by (simp_all add: front_def mac_def sealed_def fairplay_crypto_ok_def EKEY_HEADER_def)
  have "take 16 (drop 16 front) = rnd_mask rnd" using len(3) by (simp add: front_def EKEY_HEADER_def)
  then have f: "length (front @ mac @ sealed) = 72" "take 16 (drop 16 (front @ mac @ sealed)) = rnd_mask rnd"
    "drop 56 (front @ mac @ sealed) = sealed"
    using l by simp_all
  have run: "fairplay_setup C F fpsap_transport rnd ri secret hap r =
    (Inr \<lparr>ekey = front @ mac @ sealed, fr_stream_iv = rnd_iv rnd,
       fr_stream_key = derive_stream_master_key C (rnd_key rnd) secret hap, raw_key = rnd_key rnd, fr_m3 = m3\<rparr>,
     r\<lparr>rf_m3 := m3, phase := 2\<rparr>)"
    using ri s(1) h w by (simp add: fairplay_setup_def post_fpsap fs_def)
  show ?thesis
    unfolding run using wk f by (simp add: fp_complete_def sealed_def)
qed

text \<open>C28. The sender's FairPlay setup with a receiver that offers it completes against the receiver's machine at its start,
  for every random draw: the receiver's machine is complete, keeps its own half and holds the m3 the sender reports;
  from these it derives the wrapping key itself, and the wrapped key record is 72 bytes in which it finds the mask and,
  under that wrapping key, the raw key. The sender's stream key is the one derived from that raw key and the
  pair-verify secret.\<close>

theorem fairplay_setup_completes:
  assumes "fairplay_crypto_ok F" "supports_fairplay_sap ri"
    and "126 \<le> length (rnd_entropy rnd)" "length (rnd_key rnd) = 16" "length (rnd_mask rnd) = 16"
    and "phase r = 0" "rf_mode r = FPSAP_MODE" "length (receiver_sap r) = 128"
  shows "\<exists>res r' wk. fairplay_setup C F fpsap_transport rnd ri secret hap r = (Inr res, r') \<and> fp_complete r'
    \<and> receiver_sap r' = receiver_sap r \<and> rf_m3 r' = fr_m3 res
    \<and> derive_fairplay_wrapping_key (receiver_sap r') (rf_m3 r') = Inr wk
    \<and> length (ekey res) = 72 \<and> take 16 (drop 16 (ekey res)) = rnd_mask rnd
    \<and> drop 56 (ekey res) = aes128_encrypt F wk (xor_bytes (raw_key res) (rnd_mask rnd))
    \<and> fr_stream_key res = derive_stream_master_key C (raw_key res) secret hap"
  using assms by (rule fairplay_setup_runs)

definition toy_fairplay :: fairplay_crypto where
  "toy_fairplay = \<lparr>aes128_encrypt = (\<lambda>k b. xor_bytes b (replicate 16 (if k = [] then 1 else hd k))),
     hmac_sha1 = (\<lambda>k m. replicate 20 (of_nat (length m)))\<rparr>"

theorem fairplay_setup_completes_witness:
  "\<exists>res r' wk. fairplay_setup toy_crypto toy_fairplay fpsap_transport
      \<lparr>rnd_entropy = replicate 126 7, rnd_iv = replicate 16 1, rnd_key = replicate 16 2, rnd_mask = replicate 16 3\<rparr>
      (ReceiverInfo_default\<lparr>features := FEATURE_FPSAP25\<rparr>) [9] True (ReceiverFpsap_new (replicate 126 5)) = (Inr res, r')
    \<and> fp_complete r' \<and> derive_fairplay_wrapping_key (receiver_sap r') (rf_m3 r') = Inr wk
    \<and> drop 56 (ekey res) = aes128_encrypt toy_fairplay wk (xor_bytes (raw_key res) (replicate 16 3))"
  using fairplay_setup_completes [of toy_fairplay "ReceiverInfo_default\<lparr>features := FEATURE_FPSAP25\<rparr>"
      "\<lparr>rnd_entropy = replicate 126 7, rnd_iv = replicate 16 1, rnd_key = replicate 16 2, rnd_mask = replicate 16 3\<rparr>"
      "ReceiverFpsap_new (replicate 126 5)" toy_crypto "[9]" True]
  by (auto simp: toy_fairplay_def fairplay_crypto_ok_def supports_fairplay_sap_def FEATURE_FPSAP25_def
      ReceiverFpsap_new_def)

text \<open>A run of the receiver's machine that completes, for its property above.\<close>

theorem fpsap_machine_witness:
  "\<exists>qs resps r. fp_exec qs (ReceiverFpsap_new (replicate 126 5)) = (resps, r) \<and> fp_complete r
    \<and> Inl Panic \<notin> set resps
    \<and> (\<exists>j < length qs. \<exists>i < j. qs ! i = fpsap_header 1 4 @ FPSAP_M1_PAYLOAD
      \<and> m3_confirms (receiver_sap (ReceiverFpsap_new (replicate 126 5))) FPSAP_MODE (qs ! j))"
proof -
  define r0 where "r0 = ReceiverFpsap_new (replicate 126 5)"
  obtain s where s: "FpsapSession_new (replicate 126 7) = Inr s" "length (local_sap s) = 128"
    using FpsapSession_new_ok [of "replicate 126 7"] by auto
  have r0: "phase r0 = 0" "rf_mode r0 = FPSAP_MODE" "length (receiver_sap r0) = 128"
    by (simp_all add: r0_def ReceiverFpsap_new_def)
  obtain m2 m3 m4 where "fp_exchange (message1 s) r0 = (Inr m2, r0\<lparr>phase := 1\<rparr>)"
      "fp_exchange m3 (r0\<lparr>phase := 1\<rparr>) = (Inr m4, r0\<lparr>rf_m3 := m3, phase := 2\<rparr>)"
    using fpsap_handshake [OF s(2) r0] by blast
  then have "fp_exec [message1 s, m3] r0 = ([Inr m2, Inr m4], r0\<lparr>rf_m3 := m3, phase := 2\<rparr>)" by simp
  then have run: "fp_exec [message1 s, m3] (ReceiverFpsap_new (replicate 126 5)) =
      ([Inr m2, Inr m4], r0\<lparr>rf_m3 := m3, phase := 2\<rparr>)"
    by (simp only: r0_def)
  have "fp_complete (r0\<lparr>rf_m3 := m3, phase := 2\<rparr>)" by (simp add: fp_complete_def)
  with run fpsap_machine [OF run] show ?thesis by blast
qed

end
