(* ===== verification/H264_Parser.thy ===== *)
theory H264_Parser
  imports Prelude
begin

text \<open>
  The incremental NAL parser of \<open>h264.rs\<close>: start code search, the Annex-B and AVCC splitting
  loops, \<open>push\<close> and \<open>flush\<close>, and the small NAL helpers of the same file. The parser's state
  is its buffer; every operation returns the units it emits and the new state.

  A start code at position \<open>i\<close> is \<open>00 00 01\<close> or \<open>00 00 00 01\<close> with at least four bytes left,
  which is what the code's loop bound \<open>i + 3 < len\<close> demands of both forms.
\<close>

subsection \<open>Start codes\<close>

function find_start_code :: "bytes \<Rightarrow> nat \<Rightarrow> nat option" where
  "find_start_code b i =
    (if i + 3 < length b then
       if b ! i = 0 \<and> b ! (i + 1) = 0 then
         if b ! (i + 2) = 1 then Some i
         else if i + 3 < length b \<and> b ! (i + 2) = 0 \<and> b ! (i + 3) = 1 then Some i
         else find_start_code b (i + 1)
       else find_start_code b (i + 1)
     else None)"
  by pat_completeness auto
termination
  by (relation "measure (\<lambda>(b, i). length b - i)") auto

declare find_start_code.simps [simp del]

definition has_start_code :: "bytes \<Rightarrow> bool" where
  "has_start_code b = (find_start_code b 0 \<noteq> None)"

text \<open>What the scanner looks for, without the loop.\<close>

definition start_code_at :: "bytes \<Rightarrow> nat \<Rightarrow> bool" where
  "start_code_at b i \<longleftrightarrow> i + 3 < length b \<and> b ! i = 0 \<and> b ! (i + 1) = 0 \<and>
     (b ! (i + 2) = 1 \<or> b ! (i + 2) = 0 \<and> b ! (i + 3) = 1)"

lemma find_start_code_step:
  "find_start_code b i =
    (if start_code_at b i then Some i
     else if i + 3 < length b then find_start_code b (i + 1) else None)"
  by (subst find_start_code.simps) (auto simp: start_code_at_def)

lemma no_start_code_split:
  assumes "\<not> start_code_at b i"
  shows "(\<forall>j. i \<le> j \<longrightarrow> Q j \<longrightarrow> \<not> start_code_at b j) \<longleftrightarrow>
         (\<forall>j. i + 1 \<le> j \<longrightarrow> Q j \<longrightarrow> \<not> start_code_at b j)"
  using assms by (metis Suc_eq_plus1 Suc_leD le_eq_less_or_eq Suc_leI)

lemma find_start_code_Some_iff:
  "find_start_code b i = Some k \<longleftrightarrow>
     i \<le> k \<and> start_code_at b k \<and> (\<forall>j. i \<le> j \<longrightarrow> j < k \<longrightarrow> \<not> start_code_at b j)"
proof (induction "length b - i" arbitrary: i)
  case 0
  then show ?case by (subst find_start_code_step) (auto simp: start_code_at_def)
next
  case (Suc n)
  then have IH: "find_start_code b (i + 1) = Some k \<longleftrightarrow>
      i + 1 \<le> k \<and> start_code_at b k \<and> (\<forall>j. i + 1 \<le> j \<longrightarrow> j < k \<longrightarrow> \<not> start_code_at b j)"
    by simp
  consider "start_code_at b i" | "\<not> start_code_at b i" "i + 3 < length b"
    | "\<not> start_code_at b i" "\<not> i + 3 < length b" by blast
  then show ?case
  proof cases
    case 1
    then show ?thesis
      by (subst find_start_code_step) (cases "i = k", auto dest: le_neq_implies_less)
  next
    case 2
    then have "start_code_at b k \<Longrightarrow> i \<le> k \<longleftrightarrow> i + 1 \<le> k"
      by (metis Suc_eq_plus1 Suc_leD le_eq_less_or_eq Suc_leI)
    with IH 2 no_start_code_split [of b i "\<lambda>j. j < k"] show ?thesis
      by (subst find_start_code_step) auto
  next
    case 3
    then show ?thesis by (subst find_start_code_step) (auto simp: start_code_at_def)
  qed
qed

lemma find_start_code_None_iff:
  "find_start_code b i = None \<longleftrightarrow> (\<forall>j. i \<le> j \<longrightarrow> \<not> start_code_at b j)"
proof
  assume none: "find_start_code b i = None"
  show "\<forall>j. i \<le> j \<longrightarrow> \<not> start_code_at b j"
  proof (rule ccontr)
    assume "\<not> (\<forall>j. i \<le> j \<longrightarrow> \<not> start_code_at b j)"
    then have ex: "\<exists>j. i \<le> j \<and> start_code_at b j" by blast
    define k where "k = (LEAST j. i \<le> j \<and> start_code_at b j)"
    have "i \<le> k \<and> start_code_at b k"
      using LeastI_ex [OF ex] by (simp only: k_def)
    moreover have "\<forall>j. i \<le> j \<longrightarrow> j < k \<longrightarrow> \<not> start_code_at b j"
      unfolding k_def by (blast dest: not_less_Least)
    ultimately have "find_start_code b i = Some k"
      by (simp only: find_start_code_Some_iff simp_thms)
    with none show False by simp
  qed
next
  assume "\<forall>j. i \<le> j \<longrightarrow> \<not> start_code_at b j"
  then show "find_start_code b i = None"
    by (metis find_start_code_Some_iff option.exhaust)
qed

lemmas find_start_code_iffs = find_start_code_Some_iff find_start_code_None_iff

lemma start_code_at_append:
  "i + 3 < length b \<Longrightarrow> start_code_at (b @ d) i \<longleftrightarrow> start_code_at b i"
  by (simp add: start_code_at_def nth_append)

lemma start_code_at_appendI: "start_code_at b i \<Longrightarrow> start_code_at (b @ d) i"
  by (simp add: start_code_at_def nth_append)

lemma start_code_at_drop: "start_code_at (drop k b) i \<longleftrightarrow> start_code_at b (k + i)"
  by (cases "k \<le> length b") (auto simp: start_code_at_def nth_drop add.assoc)

lemma start_code_at_bound: "start_code_at b i \<Longrightarrow> i + 3 < length b"
  by (simp add: start_code_at_def)

lemma find_start_code_append:
  assumes "find_start_code b i = Some k"
  shows "find_start_code (b @ d) i = Some k"
proof -
  from assms have k: "i \<le> k" "start_code_at b k" "\<And>j. i \<le> j \<Longrightarrow> j < k \<Longrightarrow> \<not> start_code_at b j"
    by (auto simp: find_start_code_Some_iff)
  have "\<not> start_code_at (b @ d) j" if "i \<le> j" "j < k" for j
    using k(3) [OF that] start_code_at_append [of j b d] start_code_at_bound [OF k(2)] that by simp
  with k show ?thesis by (auto simp: find_start_code_Some_iff intro: start_code_at_appendI)
qed

lemma find_start_code_drop_None:
  "find_start_code (drop k b) i = None \<longleftrightarrow> find_start_code b (k + i) = None"
proof -
  have "(\<forall>j\<ge>i. \<not> start_code_at b (k + j)) \<longleftrightarrow> (\<forall>j\<ge>k + i. \<not> start_code_at b j)"
    by (metis add_le_cancel_left le_add1 le_trans le_Suc_ex)
  then show ?thesis by (simp add: find_start_code_None_iff start_code_at_drop)
qed

lemma find_start_code_drop_Some:
  "find_start_code b (k + i) = Some (k + n) \<Longrightarrow> find_start_code (drop k b) i = Some n"
  by (auto simp: find_start_code_Some_iff start_code_at_drop)

lemma find_start_code_here: "start_code_at b i \<Longrightarrow> find_start_code b i = Some i"
  by (simp add: find_start_code_Some_iff)

subsection \<open>The parser\<close>

record H264Parser =
  buf :: bytes

definition H264Parser_new :: H264Parser where
  "H264Parser_new = \<lparr>buf = []\<rparr>"

text \<open>\<open>push_annex_b\<close>, as the loop over the buffer: the units emitted and what stays buffered.\<close>

function annex_b_loop :: "bytes \<Rightarrow> bytes list \<times> bytes" where
  "annex_b_loop b =
    (case find_start_code b 0 of
       None \<Rightarrow>
         ([], if 1024 * 1024 < length b then drop (length b - 128 * 1024) b else b)
     | Some start \<Rightarrow>
         (case find_start_code b (start + 3) of
            None \<Rightarrow> ([], if 0 < start then drop start b else b)
          | Some next \<Rightarrow>
              let (out, rest) = annex_b_loop (drop next b)
              in (drop start (take next b) # out, rest)))"
  by pat_completeness auto
termination
  by (relation "measure length") (auto simp: find_start_code_Some_iff dest: start_code_at_bound)

declare annex_b_loop.simps [simp del]

definition push_annex_b :: "H264Parser \<Rightarrow> bytes list \<times> H264Parser" where
  "push_annex_b p = (let (out, rest) = annex_b_loop (buf p) in (out, p\<lparr>buf := rest\<rparr>))"

function avcc_loop :: "bytes \<Rightarrow> bytes list \<times> bytes" where
  "avcc_loop b =
    (if length b < 4 then ([], b)
     else let nal_len = of_be (take 4 b) in
       if nal_len = 0 \<or> 16 * 1024 * 1024 < nal_len then ([], [])
       else if length b < 4 + nal_len then ([], b)
       else let (out, rest) = avcc_loop (drop (4 + nal_len) b)
            in ((to_be 4 1 @ take nal_len (drop 4 b)) # out, rest))"
  by pat_completeness auto
termination
  by (relation "measure length") auto

declare avcc_loop.simps [simp del]

definition push_avcc :: "H264Parser \<Rightarrow> bytes list \<times> H264Parser" where
  "push_avcc p = (let (out, rest) = avcc_loop (buf p) in (out, p\<lparr>buf := rest\<rparr>))"

definition push :: "H264Parser \<Rightarrow> bytes \<Rightarrow> bytes list \<times> H264Parser" where
  "push p data =
    (let p = p\<lparr>buf := buf p @ data\<rparr>
     in if has_start_code (buf p) then push_annex_b p else push_avcc p)"

definition flush :: "H264Parser \<Rightarrow> bytes list \<times> H264Parser" where
  "flush p =
    (if buf p = [] then ([], p)
     else let (out, p) = push_annex_b (p\<lparr>buf := buf p @ [0, 0, 1, 0]\<rparr>)
          in (out, if buf p = [0, 0, 1, 0] then p\<lparr>buf := []\<rparr> else p))"

text \<open>A sequence of pushes, as the readers of the encoder's output do them.\<close>

fun push_all :: "H264Parser \<Rightarrow> bytes list \<Rightarrow> bytes list \<times> H264Parser" where
  "push_all p [] = ([], p)"
| "push_all p (d # ds) =
    (let (out, p) = push p d; (outs, p) = push_all p ds in (out @ outs, p))"

subsection \<open>Other NAL helpers\<close>

definition strip_start_code :: "bytes \<Rightarrow> bytes" where
  "strip_start_code nal =
    (if 4 < length nal \<and> take 4 nal = [0, 0, 0, 1] then drop 4 nal
     else if 3 < length nal \<and> take 3 nal = [0, 0, 1] then drop 3 nal
     else nal)"

definition avcc_wrap :: "bytes \<Rightarrow> bytes" where
  "avcc_wrap raw = to_be 4 (length raw) @ raw"

function nal_type_loop :: "bytes \<Rightarrow> nat \<Rightarrow> byte" where
  "nal_type_loop nal i =
    (if i + 1 < length nal then
       if nal ! i = 1 \<and> 2 \<le> i \<and> nal ! (i - 1) = 0 \<and> nal ! (i - 2) = 0 \<and> i + 1 < length nal
       then nal ! (i + 1) AND 31
       else nal_type_loop nal (i + 1)
     else 0)"
  by pat_completeness auto
termination
  by (relation "measure (\<lambda>(nal, i). length nal - i)") auto

declare nal_type_loop.simps [simp del]

definition nal_type :: "bytes \<Rightarrow> byte" where
  "nal_type nal = nal_type_loop nal 0"

definition is_first_slice :: "bytes \<Rightarrow> bool" where
  "is_first_slice raw \<longleftrightarrow> 2 \<le> length raw \<and> raw ! 1 AND 0x80 \<noteq> 0"

text \<open>Indexing \<open>sps[1]\<close> to \<open>sps[3]\<close> panics on a shorter SPS.\<close>

definition build_avcc_config :: "bytes \<Rightarrow> bytes \<Rightarrow> bytes res" where
  "build_avcc_config sps pps =
    (let avcc_len = 6 + 2 + length sps + 1 + 2 + length pps;
         payload = replicate (avcc_len + 4) 0 in
     if length sps < 4 then Inl Panic
     else let off = 8 + length sps;
              payload = payload[0 := 0x01, 1 := sps ! 1, 2 := sps ! 2, 3 := sps ! 3,
                                4 := 0xff, 5 := 0xe1];
              payload = splice 6 (to_be 2 (length sps)) payload;
              payload = splice 8 sps payload;
              payload = payload[off := 0x01];
              payload = splice (off + 1) (to_be 2 (length pps)) payload;
              payload = splice (off + 3) pps payload
          in Inr (payload[avcc_len := 0x02]))"

subsection \<open>The Annex-B loop\<close>

lemma annex_b_loop_None:
  "find_start_code b 0 = None \<Longrightarrow> length b \<le> 1024 * 1024 \<Longrightarrow> annex_b_loop b = ([], b)"
  by (subst annex_b_loop.simps) simp

lemma annex_b_loop_open:
  "start_code_at b 0 \<Longrightarrow> annex_b_loop b =
    (case find_start_code b 3 of
       None \<Rightarrow> ([], b)
     | Some n \<Rightarrow> (let (out, rest) = annex_b_loop (drop n b) in (take n b # out, rest)))"
  by (subst annex_b_loop.simps) (simp add: find_start_code_here split: option.split)

lemma next_start_code:
  assumes "find_start_code b i = Some n"
  shows "start_code_at (drop n b) 0" "i \<le> n" "n + 3 < length b"
  using assms by (auto simp: find_start_code_Some_iff start_code_at_drop dest: start_code_at_bound)

lemma annex_b_loop_skip:
  assumes s: "find_start_code b 0 = Some s"
  shows "annex_b_loop b = annex_b_loop (drop s b)"
proof -
  have here: "start_code_at (drop s b) 0" using next_start_code [OF s] by simp
  show ?thesis
  proof (cases "find_start_code b (s + 3)")
    case None
    then have "find_start_code (drop s b) 3 = None" by (simp add: find_start_code_drop_None)
    with s None here show ?thesis by (subst annex_b_loop.simps) (simp add: annex_b_loop_open)
  next
    case (Some n)
    then have n: "s + (n - s) = n" using next_start_code(2) [OF Some] by simp
    with Some have "find_start_code (drop s b) 3 = Some (n - s)"
      by (intro find_start_code_drop_Some) simp
    with s Some here n show ?thesis
      by (subst annex_b_loop.simps) (simp add: annex_b_loop_open drop_take)
  qed
qed

lemma annex_b_loop_rest_open:
  "start_code_at b 0 \<Longrightarrow> annex_b_loop b = (out, r) \<Longrightarrow>
     start_code_at r 0 \<and> find_start_code r 3 = None"
proof (induction b arbitrary: out rule: measure_induct_rule [of length])
  case (less b)
  show ?case
  proof (cases "find_start_code b 3")
    case None
    with less.prems show ?thesis by (auto simp: annex_b_loop_open)
  next
    case (Some n)
    note nx = next_start_code [OF Some]
    obtain out' r' where "annex_b_loop (drop n b) = (out', r')" by force
    with less.prems Some nx less.IH [of "drop n b"] show ?thesis
      by (auto simp: annex_b_loop_open)
  qed
qed

lemma annex_b_loop_append:
  "start_code_at b 0 \<Longrightarrow> annex_b_loop b = (out, r) \<Longrightarrow>
     annex_b_loop (b @ d) = (let (out', r') = annex_b_loop (r @ d) in (out @ out', r'))"
proof (induction b arbitrary: out rule: measure_induct_rule [of length])
  case (less b)
  show ?case
  proof (cases "find_start_code b 3")
    case None
    with less.prems show ?thesis by (auto simp: annex_b_loop_open split: prod.split)
  next
    case (Some n)
    note nx = next_start_code [OF Some]
    obtain out' r' where *: "annex_b_loop (drop n b) = (out', r')" by force
    with less.prems Some have eq: "out = take n b # out'" "r = r'"
      by (auto simp: annex_b_loop_open)
    from nx have le: "n \<le> length b" by simp
    have "annex_b_loop (drop n b @ d) =
        (let (out'', r'') = annex_b_loop (r' @ d) in (out' @ out'', r''))"
      using less.IH [of "drop n b"] nx * eq by simp
    with find_start_code_append [OF Some, of d] start_code_at_appendI [OF less.prems(1), of d] le
    show ?thesis
      by (simp add: annex_b_loop_open eq split: prod.split)
  qed
qed

text \<open>Nothing is lost: the units and the rest are the buffer from its first start code on.\<close>

lemma annex_b_loop_concat:
  "start_code_at b 0 \<Longrightarrow> annex_b_loop b = (out, r) \<Longrightarrow> concat out @ r = b"
proof (induction b arbitrary: out rule: measure_induct_rule [of length])
  case (less b)
  show ?case
  proof (cases "find_start_code b 3")
    case None
    with less.prems show ?thesis by (auto simp: annex_b_loop_open)
  next
    case (Some n)
    note nx = next_start_code [OF Some]
    obtain out' r' where *: "annex_b_loop (drop n b) = (out', r')" by force
    with less.prems Some have eq: "out = take n b # out'" "r = r'"
      by (auto simp: annex_b_loop_open)
    with less.IH [of "drop n b"] nx * show ?thesis by simp
  qed
qed

text \<open>Every unit begins with a start code and holds no other.\<close>

definition is_unit :: "bytes \<Rightarrow> bool" where
  "is_unit u \<longleftrightarrow> 3 \<le> length u \<and> u ! 0 = 0 \<and> u ! 1 = 0 \<and> (u ! 2 = 0 \<or> u ! 2 = 1) \<and>
     find_start_code u 3 = None"

lemma start_code_at_take: "start_code_at (take n b) i \<Longrightarrow> start_code_at b i"
  by (auto simp: start_code_at_def)

lemma take_is_unit:
  assumes "start_code_at b 0" "find_start_code b 3 = Some n"
  shows "is_unit (take n b)"
proof -
  note nx = next_start_code [OF assms(2)]
  have "\<not> start_code_at (take n b) j" if "3 \<le> j" for j
    using assms(2) that start_code_at_take [of n b j] start_code_at_bound [of "take n b" j]
    by (auto simp: find_start_code_Some_iff)
  then have "find_start_code (take n b) 3 = None"
    by (simp add: find_start_code_None_iff)
  with assms(1) nx show ?thesis
    by (auto simp: is_unit_def start_code_at_def numeral_2_eq_2)
qed

lemma annex_b_loop_units:
  "start_code_at b 0 \<Longrightarrow> annex_b_loop b = (out, r) \<Longrightarrow> u \<in> set out \<Longrightarrow> is_unit u"
proof (induction b arbitrary: out rule: measure_induct_rule [of length])
  case (less b)
  show ?case
  proof (cases "find_start_code b 3")
    case None
    with less.prems show ?thesis by (auto simp: annex_b_loop_open)
  next
    case (Some n)
    note nx = next_start_code [OF Some]
    obtain out' r' where *: "annex_b_loop (drop n b) = (out', r')" by force
    with less.prems Some have eq: "out = take n b # out'" "r = r'"
      by (auto simp: annex_b_loop_open)
    with less.IH [of "drop n b"] nx * less.prems take_is_unit [OF less.prems(1) Some]
    show ?thesis by auto
  qed
qed

subsection \<open>Pushing in chunks\<close>

lemma push_annex_b_eq:
  "has_start_code (buf p @ d) \<Longrightarrow>
     push p d = (fst (annex_b_loop (buf p @ d)), p\<lparr>buf := snd (annex_b_loop (buf p @ d))\<rparr>)"
  by (simp add: push_def push_annex_b_def split: prod.split)

lemma has_start_code_appendI: "has_start_code b \<Longrightarrow> has_start_code (b @ d)"
  by (auto simp: has_start_code_def dest: find_start_code_append)

lemma start_code_at_has: "start_code_at b i \<Longrightarrow> has_start_code b"
  by (auto simp: has_start_code_def find_start_code_None_iff)

lemma annex_b_loop_append_any:
  assumes "has_start_code b" and "annex_b_loop b = (out, r)"
  shows "start_code_at r 0" and "find_start_code r 3 = None"
    and "annex_b_loop (b @ d) = (let (out', r') = annex_b_loop (r @ d) in (out @ out', r'))"
proof -
  from assms(1) obtain s where s: "find_start_code b 0 = Some s"
    by (auto simp: has_start_code_def)
  then have here: "start_code_at (drop s b) 0" and le: "s \<le> length b"
    using next_start_code [OF s] by auto
  have eq: "annex_b_loop (drop s b) = (out, r)"
    using annex_b_loop_skip [OF s] assms(2) by simp
  show "start_code_at r 0" "find_start_code r 3 = None"
    using annex_b_loop_rest_open [OF here eq] by auto
  show "annex_b_loop (b @ d) = (let (out', r') = annex_b_loop (r @ d) in (out @ out', r'))"
    using annex_b_loop_append [OF here eq, of d]
      annex_b_loop_skip [OF find_start_code_append [OF s, of d]] le by simp
qed

lemma push_all_open:
  "start_code_at (buf p) 0 \<Longrightarrow> find_start_code (buf p) 3 = None \<Longrightarrow> push_all p ds = push p (concat ds)"
proof (induction ds arbitrary: p)
  case Nil
  then show ?case
    using push_annex_b_eq [of p "[]"] by (simp add: start_code_at_has annex_b_loop_open)
next
  case (Cons d ds)
  obtain out r where eq: "annex_b_loop (buf p @ d) = (out, r)" by force
  have has: "has_start_code (buf p @ x)" for x
    using Cons.prems(1) by (intro has_start_code_appendI start_code_at_has)
  note a = annex_b_loop_append_any [OF has eq]
  have "push_all (p\<lparr>buf := r\<rparr>) ds = push (p\<lparr>buf := r\<rparr>) (concat ds)"
    using Cons.IH [of "p\<lparr>buf := r\<rparr>"] a by simp
  then show ?case
    using a push_annex_b_eq [OF has, of d] push_annex_b_eq [OF has, of "d @ concat ds"] eq
      push_annex_b_eq [of "p\<lparr>buf := r\<rparr>" "concat ds"]
    by (simp add: has_start_code_appendI start_code_at_has split: prod.split)
qed

lemma push_all_first:
  assumes "has_start_code (buf p @ d)"
  shows "push_all p (d # ds) = push p (concat (d # ds))"
proof -
  obtain out r where eq: "annex_b_loop (buf p @ d) = (out, r)" by force
  note a = annex_b_loop_append_any [OF assms eq]
  have "has_start_code (buf p @ d @ concat ds)"
    using has_start_code_appendI [OF assms] by simp
  then show ?thesis
    using a push_annex_b_eq [OF assms] push_annex_b_eq [of p "d @ concat ds"] eq
      push_all_open [of "p\<lparr>buf := r\<rparr>" ds] push_annex_b_eq [of "p\<lparr>buf := r\<rparr>" "concat ds"]
    by (simp add: has_start_code_appendI start_code_at_has split: prod.split)
qed

text \<open>Fewer than four bytes are kept whole, by either loop, so a stream may begin with any small pieces.\<close>

lemma push_short: "length (buf p @ d) < 4 \<Longrightarrow> push p d = ([], p\<lparr>buf := buf p @ d\<rparr>)"
  using start_code_at_bound [of "buf p @ d"]
  by (simp add: push_def push_avcc_def avcc_loop.simps has_start_code_def find_start_code.simps [of _ 0])

lemma push_all_opening:
  "length (buf p) < 4 \<Longrightarrow> start_code_at (buf p @ concat ds) 0 \<Longrightarrow> push_all p ds = push p (concat ds)"
proof (induction ds arbitrary: p)
  case Nil
  then show ?case using start_code_at_bound by fastforce
next
  case (Cons d ds)
  show ?case
  proof (cases "length (buf p @ d) < 4")
    case True
    from Cons.IH [of "p\<lparr>buf := buf p @ d\<rparr>"] True Cons.prems(2)
    have "push_all (p\<lparr>buf := buf p @ d\<rparr>) ds = push (p\<lparr>buf := buf p @ d\<rparr>) (concat ds)" by simp
    moreover have "push (p\<lparr>buf := buf p @ d\<rparr>) (concat ds) = push p (concat (d # ds))" by (simp add: push_def)
    ultimately show ?thesis by (simp add: push_short [OF True] split: prod.split)
  next
    case False
    with Cons.prems(2) have "start_code_at (buf p @ d) 0"
      using start_code_at_append [of 0 "buf p @ d" "concat ds"] by simp
    from push_all_first [OF start_code_at_has [OF this]] show ?thesis .
  qed
qed

subsection \<open>Streams of well-formed units\<close>

text \<open>
  A NAL payload as an encoder writes it: no start code emulation inside (the emulation
  prevention byte sees to that) and a last byte that is not zero (the stop bit).
\<close>

definition wf_payload :: "bytes \<Rightarrow> bool" where
  "wf_payload pl \<longleftrightarrow> pl \<noteq> [] \<and> last pl \<noteq> 0 \<and>
     (\<forall>i < length pl - 2. \<not> (pl ! i = 0 \<and> pl ! (i + 1) = 0 \<and> (pl ! (i + 2) = 0 \<or> pl ! (i + 2) = 1)))"

definition wf_unit :: "bytes \<Rightarrow> bool" where
  "wf_unit u \<longleftrightarrow> take 3 u = [0, 0, 1] \<and> wf_payload (drop 3 u) \<or>
                  take 4 u = [0, 0, 0, 1] \<and> wf_payload (drop 4 u)"

lemma wf_payload_no_start_code:
  assumes wf: "wf_payload pl" and i: "i < length pl"
  shows "\<not> start_code_at (pl @ rest) i"
proof
  assume sc: "start_code_at (pl @ rest) i"
  consider "i + 1 = length pl" | "i + 2 = length pl" | "i < length pl - 2" using i by linarith
  then show False
  proof cases
    case 1
    then have "pl ! i = last pl" using wf by (cases pl rule: rev_cases) (auto simp: wf_payload_def)
    with sc i wf show ?thesis by (auto simp: start_code_at_def nth_append wf_payload_def)
  next
    case 2
    then have "pl ! (i + 1) = last pl"
      using wf by (cases pl rule: rev_cases) (auto simp: wf_payload_def nth_append)
    with sc 2 wf show ?thesis by (auto simp: start_code_at_def nth_append wf_payload_def)
  next
    case 3
    then have "\<not> (pl ! i = 0 \<and> pl ! (i + 1) = 0 \<and> (pl ! (i + 2) = 0 \<or> pl ! (i + 2) = 1))"
      using wf unfolding wf_payload_def by blast
    moreover from 3 have "i < length pl" "Suc i < length pl" "Suc (Suc i) < length pl" by auto
    ultimately show ?thesis using sc by (auto simp: start_code_at_def nth_append)
  qed
qed

lemma wf_unit_cases:
  assumes "wf_unit u"
  obtains sc pl where "u = sc @ pl" "sc = [0, 0, 1] \<or> sc = [0, 0, 0, 1]" "wf_payload pl"
  using assms unfolding wf_unit_def by (metis append_take_drop_id)

lemma wf_unit_find:
  assumes wf: "wf_unit u" and r: "start_code_at rest 0"
  shows "start_code_at (u @ rest) 0" and "find_start_code (u @ rest) 3 = Some (length u)"
proof -
  from wf obtain sc pl where u: "u = sc @ pl" "sc = [0, 0, 1] \<or> sc = [0, 0, 0, 1]" "wf_payload pl"
    by (rule wf_unit_cases)
  then have "pl \<noteq> []" by (simp add: wf_payload_def)
  then obtain b bs where pl: "pl = b # bs" by (cases pl) auto
  show "start_code_at (u @ rest) 0"
    using u by (auto simp: start_code_at_def pl numeral_3_eq_3 numeral_2_eq_2)
  have at: "start_code_at (u @ rest) (length u)"
    using r start_code_at_drop [of "length u" "u @ rest" 0] by simp
  have "\<not> start_code_at (u @ rest) j" if j: "3 \<le> j" "j < length u" for j
  proof (cases "j < length sc")
    case True
    with j u have "j = 3" "sc = [0, 0, 0, 1]" by auto
    then show ?thesis using u by (simp add: start_code_at_def)
  next
    case False
    then have eq: "start_code_at (u @ rest) j = start_code_at (pl @ rest) (j - length sc)"
      using start_code_at_drop [of "length sc" "sc @ pl @ rest" "j - length sc"] u by simp
    show ?thesis
      unfolding eq using False j u by (intro wf_payload_no_start_code) auto
  qed
  then show "find_start_code (u @ rest) 3 = Some (length u)"
    using at u pl by (auto simp: find_start_code_Some_iff)
qed

lemma wf_unit_alone:
  assumes "wf_unit u" shows "start_code_at u 0" and "find_start_code u 3 = None"
proof -
  have s: "start_code_at [0, 0, 1, 0] 0" by (simp add: start_code_at_def)
  note f = wf_unit_find [OF assms s]
  have "3 < length u"
    using assms by (elim wf_unit_cases) (auto simp: wf_payload_def Suc_le_eq)
  with f(1) show "start_code_at u 0" by (simp add: start_code_at_append)
  show "find_start_code u 3 = None"
    using find_start_code_append [of u 3 _ "[0, 0, 1, 0]"] f(2)
    by (cases "find_start_code u 3") (auto dest!: next_start_code(3))
qed

lemma annex_b_loop_wf:
  "(\<forall>u \<in> set us. wf_unit u) \<Longrightarrow> start_code_at rest 0 \<Longrightarrow>
     start_code_at (concat us @ rest) 0 \<and>
     annex_b_loop (concat us @ rest) = (let (out, r) = annex_b_loop rest in (us @ out, r))"
proof (induction us)
  case Nil
  then show ?case by simp
next
  case (Cons u us)
  then have "start_code_at (concat us @ rest) 0" by simp
  with Cons wf_unit_find [of u "concat us @ rest"] show ?case
    by (simp add: annex_b_loop_open split: prod.splits)
qed

lemma push_all_wf:
  assumes us: "\<forall>u \<in> set us. wf_unit u" and u: "wf_unit u" and ds: "concat ds = concat us @ u"
  shows "push_all H264Parser_new ds = (us, \<lparr>buf = u\<rparr>)"
proof -
  note w = annex_b_loop_wf [OF us wf_unit_alone(1) [OF u]]
  have "push_all H264Parser_new ds = push H264Parser_new (concat us @ u)"
    using push_all_opening [of H264Parser_new ds] w ds by (simp add: H264Parser_new_def)
  also have "\<dots> = (us, \<lparr>buf = u\<rparr>)"
    using push_annex_b_eq [of H264Parser_new "concat us @ u"] w wf_unit_alone [OF u]
      start_code_at_has [of "concat us @ u" 0]
    by (simp add: H264Parser_new_def annex_b_loop_open)
  finally show ?thesis .
qed

lemma sentinel_loop: "annex_b_loop [0, 0, 1, 0] = ([], [0, 0, 1, 0])"
proof -
  have "start_code_at [0, 0, 1, 0] 0" by (simp add: start_code_at_def)
  moreover have "find_start_code [0, 0, 1, 0] 3 = None" by (simp add: find_start_code.simps)
  ultimately show ?thesis by (simp add: annex_b_loop_open)
qed

lemma flush_wf: "wf_unit u \<Longrightarrow> flush \<lparr>buf = u\<rparr> = ([u], \<lparr>buf = []\<rparr>)"
proof -
  assume u: "wf_unit u"
  have s: "start_code_at [0, 0, 1, 0] 0" by (simp add: start_code_at_def)
  have "u \<noteq> []" using u by (auto simp: wf_unit_def)
  with annex_b_loop_wf [of "[u]", OF _ s] u sentinel_loop show ?thesis
    by (simp add: flush_def push_annex_b_def)
qed

subsection \<open>Properties of the parser\<close>

text \<open>The start code scanner returns the first position, from the given one on, at which a
  three- or four-byte start code stands (with four bytes left in the buffer), and \<open>None\<close> exactly
  when there is no such position.\<close>

theorem find_start_code_first:
  "find_start_code b i =
    (if \<exists>k<length b. i \<le> k \<and> start_code_at b k
     then Some (LEAST k. i \<le> k \<and> start_code_at b k) else None)"
proof (cases "\<exists>k. i \<le> k \<and> start_code_at b k")
  case True
  then have "\<exists>k<length b. i \<le> k \<and> start_code_at b k"
    using start_code_at_bound by (metis add_lessD1)
  moreover have "i \<le> (LEAST k. i \<le> k \<and> start_code_at b k) \<and> start_code_at b (LEAST k. i \<le> k \<and> start_code_at b k)"
    by (rule LeastI_ex [OF True])
  moreover have "\<forall>j. i \<le> j \<longrightarrow> j < (LEAST k. i \<le> k \<and> start_code_at b k) \<longrightarrow> \<not> start_code_at b j"
    by (blast dest: not_less_Least)
  ultimately show ?thesis by (simp only: find_start_code_Some_iff if_True simp_thms)
next
  case False
  then have "find_start_code b i = None" by (auto simp: find_start_code_None_iff)
  with False show ?thesis by auto
qed

text \<open>Annex-B parsing does not depend on how the stream is cut: once the first piece shows a
  start code, pushing the pieces one by one emits the same units and leaves the same buffer as
  pushing the whole at once.\<close>

theorem push_chunking:
  assumes "has_start_code (buf p @ d)"
  shows "push_all p (d # ds) = push p (d @ concat ds)"
  using push_all_first [OF assms] by simp

theorem push_chunking_witness:
  "push_all H264Parser_new ([0, 0, 1, 103, 1, 0] # [[0], [1, 104, 2], [0, 0, 1, 101, 3]])
   = push H264Parser_new ([0, 0, 1, 103, 1, 0] @ concat [[0], [1, 104, 2], [0, 0, 1, 101, 3]])"
  by (rule push_chunking)
    (simp add: has_start_code_def H264Parser_new_def find_start_code.simps)

text \<open>C12. The units of a stream come back as they were sent: for well-formed units, however the
  stream is cut into pieces, empty ones and ones that cut a start code included, the pushes emit all units
  but the last, and \<open>flush\<close> then emits the last one and leaves an empty buffer.\<close>

theorem push_flush_roundtrip:
  assumes "\<forall>u \<in> set us. wf_unit u" and "wf_unit u" and "concat ds = concat us @ u"
  shows "(let (out, p) = push_all H264Parser_new ds; (last_out, p) = flush p
          in (out, last_out, p)) = (us, [u], H264Parser_new)"
  using push_all_wf [OF assms] flush_wf [OF assms(2)] by (simp add: H264Parser_new_def)

theorem push_flush_roundtrip_witness:
  "(let (out, p) = push_all H264Parser_new [[0, 0], [], [0, 1, 103, 1], [0, 0], [1, 101, 6, 7]];
        (last_out, p) = flush p
    in (out, last_out, p)) = ([[0, 0, 0, 1, 103, 1]], [[0, 0, 1, 101, 6, 7]], H264Parser_new)"
  by (rule push_flush_roundtrip)
    (simp_all add: wf_unit_def wf_payload_def)

text \<open>Every unit the Annex-B loop emits begins with a start code and contains no other, and
  no byte from the first start code on is lost, added or reordered: the emitted units followed
  by the new buffer are the old buffer and the new data, less what preceded the first start code.\<close>

theorem push_lossless:
  assumes "find_start_code (buf p @ d) 0 = Some s"
  shows "concat (fst (push p d)) @ buf (snd (push p d)) = drop s (buf p @ d)
       \<and> (\<forall>u \<in> set (fst (push p d)). is_unit u)"
proof -
  have here: "start_code_at (drop s (buf p @ d)) 0"
    using next_start_code(1) [OF assms] .
  obtain out r where eq: "annex_b_loop (drop s (buf p @ d)) = (out, r)" by force
  have "push p d = (out, p\<lparr>buf := r\<rparr>)"
    using push_annex_b_eq [of p d] annex_b_loop_skip [OF assms] eq assms
    by (simp add: has_start_code_def)
  with annex_b_loop_concat [OF here eq] annex_b_loop_units [OF here eq] show ?thesis by simp
qed

theorem push_lossless_witness:
  "concat (fst (push \<lparr>buf = [7]\<rparr> [0, 0, 1, 103, 0, 0, 1, 104]))
     @ buf (snd (push \<lparr>buf = [7]\<rparr> [0, 0, 1, 103, 0, 0, 1, 104]))
   = drop 1 (buf \<lparr>buf = [7]\<rparr> @ [0, 0, 1, 103, 0, 0, 1, 104])"
  by (rule conjunct1 [OF push_lossless]) (simp add: find_start_code.simps)

text \<open>Against the comment on \<open>flush\<close> ("the sentinel is removed from the buffer
  afterwards"): when the buffered unit ends in a zero byte, that byte and the sentinel together
  read as a four-byte start code, so \<open>flush\<close> cuts the unit's last byte off and leaves the
  sentinel behind it in the buffer; the next push then emits it as a unit of its own.\<close>

theorem flush_leaks_sentinel:
  assumes "wf_unit u" and "wf_unit u'" and "take 4 u' = [0, 0, 0, 1]"
  shows "flush \<lparr>buf = u @ [0]\<rparr> = ([u], \<lparr>buf = [0, 0, 0, 1, 0]\<rparr>)
       \<and> push \<lparr>buf = [0, 0, 0, 1, 0]\<rparr> u' = ([[0, 0, 0, 1, 0]], \<lparr>buf = u'\<rparr>)"
proof
  have s: "start_code_at [0, 0, 0, 1, 0] 0" by (simp add: start_code_at_def)
  have "find_start_code [0, 0, 0, 1, 0] 3 = None" by (simp add: find_start_code.simps)
  with s have "annex_b_loop [0, 0, 0, 1, 0] = ([], [0, 0, 0, 1, 0])"
    by (simp add: annex_b_loop_open)
  with annex_b_loop_wf [of "[u]", OF _ s] assms(1)
  show "flush \<lparr>buf = u @ [0]\<rparr> = ([u], \<lparr>buf = [0, 0, 0, 1, 0]\<rparr>)"
    by (simp add: flush_def push_annex_b_def)
  obtain pl where u': "u' = 0 # 0 # 0 # 1 # pl"
    using assms(3) append_take_drop_id [of 4 u'] by (metis append_Cons append_Nil)
  have none: "\<not> start_code_at ([0, 0, 0, 1, 0] @ u') 3" "\<not> start_code_at ([0, 0, 0, 1, 0] @ u') 4"
    by (simp_all add: start_code_at_def u')
  have at: "start_code_at ([0, 0, 0, 1, 0] @ u') 0" "start_code_at ([0, 0, 0, 1, 0] @ u') 5"
    using wf_unit_alone(1) [OF assms(2)] start_code_at_drop [of 5 "[0, 0, 0, 1, 0] @ u'" 0]
    by (simp_all add: start_code_at_def)
  have "find_start_code ([0, 0, 0, 1, 0] @ u') 3 = Some 5"
    using none at(2) by (auto simp: find_start_code_Some_iff le_less eval_nat_numeral less_Suc_eq)
  then have "annex_b_loop ([0, 0, 0, 1, 0] @ u') = ([[0, 0, 0, 1, 0]], u')"
    using at(1) wf_unit_alone [OF assms(2)] by (simp add: annex_b_loop_open)
  then show "push \<lparr>buf = [0, 0, 0, 1, 0]\<rparr> u' = ([[0, 0, 0, 1, 0]], \<lparr>buf = u'\<rparr>)"
    using push_annex_b_eq [of "\<lparr>buf = [0, 0, 0, 1, 0]\<rparr>" u'] start_code_at_has [OF at(1)] by simp
qed

theorem flush_leaks_sentinel_witness:
  "flush \<lparr>buf = [0, 0, 1, 101, 9] @ [0]\<rparr> = ([[0, 0, 1, 101, 9]], \<lparr>buf = [0, 0, 0, 1, 0]\<rparr>)
   \<and> push \<lparr>buf = [0, 0, 0, 1, 0]\<rparr> [0, 0, 0, 1, 97]
     = ([[0, 0, 0, 1, 0]], \<lparr>buf = [0, 0, 0, 1, 97]\<rparr>)"
  by (rule flush_leaks_sentinel) (simp_all add: wf_unit_def wf_payload_def)

subsection \<open>The AVCC loop\<close>

lemma take_to_be_append [simp]: "take 4 (to_be 4 n @ xs) = to_be 4 n" "drop 4 (to_be 4 n @ xs) = xs"
  by (simp_all add: codec_simps)

lemma avcc_loop_wrapped:
  assumes "0 < length raw" "length raw \<le> 16 * 1024 * 1024"
  shows "avcc_loop (avcc_wrap raw @ rest) =
    (let (out, r) = avcc_loop rest in (([0, 0, 0, 1] @ raw) # out, r))"
proof -
  have len: "of_be (to_be 4 (length raw)) = length raw"
    using assms(2) by (simp add: of_be_to_be)
  have one: "to_be 4 1 = [0, 0, 0, 1]" by (simp add: to_be_def)
  have [simp]: "drop (4 + length raw) (avcc_wrap raw @ rest) = rest"
    by (simp add: avcc_wrap_def codec_simps)
  show ?thesis
    using assms len one
    by (subst avcc_loop.simps) (simp add: avcc_wrap_def codec_simps split: prod.split)
qed

lemma avcc_loop_all:
  "(\<forall>raw \<in> set raws. 0 < length raw \<and> length raw \<le> 16 * 1024 * 1024) \<Longrightarrow>
     avcc_loop (concat (map avcc_wrap raws)) = (map ((@) [0, 0, 0, 1]) raws, [])"
proof (induction raws)
  case Nil
  then show ?case by (simp add: avcc_loop.simps)
next
  case (Cons raw raws)
  then show ?case by (simp add: avcc_loop_wrapped)
qed

text \<open>A buffer of length-prefixed (AVCC) units, none empty or above 16 MiB, in which no
  start code happens to stand, is split into exactly its units, each re-framed with a four-byte
  start code, and leaves an empty buffer.\<close>

theorem push_avcc_roundtrip:
  assumes "\<forall>raw \<in> set raws. 0 < length raw \<and> length raw \<le> 16 * 1024 * 1024"
    and "\<not> has_start_code (concat (map avcc_wrap raws))"
  shows "push H264Parser_new (concat (map avcc_wrap raws))
       = (map ((@) [0, 0, 0, 1]) raws, H264Parser_new)"
  using assms avcc_loop_all by (simp add: push_def push_avcc_def H264Parser_new_def)

theorem push_avcc_roundtrip_witness:
  "push H264Parser_new (concat (map avcc_wrap [[101, 1, 2], [97, 5]]))
   = (map ((@) [0, 0, 0, 1]) [[101, 1, 2], [97, 5]], H264Parser_new)"
  by (rule push_avcc_roundtrip)
    (simp_all add: avcc_wrap_def to_be_def has_start_code_def find_start_code.simps)

text \<open>The AVCC path is unreachable for units of 256 to 511 bytes: their length prefix
  \<open>00 00 01 xx\<close> is itself a start code, so a buffer that begins with such a unit is taken for
  Annex-B; the unit is not delivered but kept, prefix and all, as if it were one Annex-B unit.\<close>

theorem push_avcc_misread:
  assumes "256 \<le> length raw" and "length raw < 512"
    and "find_start_code (avcc_wrap raw) 3 = None"
  shows "push H264Parser_new (avcc_wrap raw) = ([], \<lparr>buf = avcc_wrap raw\<rparr>)"
proof -
  have div: "length raw div 256 = 1" using assms by simp
  then have "start_code_at (avcc_wrap raw) 0"
    using assms by (simp add: start_code_at_def avcc_wrap_def to_be_def)
  then show ?thesis
    using push_annex_b_eq [of H264Parser_new "avcc_wrap raw"] assms(3)
      start_code_at_has [of "avcc_wrap raw" 0]
    by (simp add: H264Parser_new_def annex_b_loop_open)
qed

theorem push_avcc_misread_witness:
  "push H264Parser_new (avcc_wrap (replicate 300 1)) = ([], \<lparr>buf = avcc_wrap (replicate 300 1)\<rparr>)"
proof (rule push_avcc_misread)
  have "avcc_wrap (replicate 300 1) ! Suc (3 + n) = 1" if "n < 300" for n
    using that by (simp add: avcc_wrap_def to_be_def)
  moreover have "length (avcc_wrap (replicate 300 1)) = 304" by (simp add: avcc_wrap_def to_be_def)
  ultimately have "\<not> start_code_at (avcc_wrap (replicate 300 1)) (3 + n)" for n
    by (auto simp: start_code_at_def)
  then show "find_start_code (avcc_wrap (replicate 300 1)) 3 = None"
    unfolding find_start_code_None_iff by (metis le_Suc_ex)
qed simp_all

end
