(* ===== verification/H264_Sps.thy ===== *)
theory H264_Sps
  imports Prelude
begin

text \<open>
  Sequence parameter sets (\<open>h264.rs\<close>): removal of emulation prevention bytes, the bit reader
  with its Exp-Golomb codes, and \<open>sps_dimensions\<close>. A reader operation returns its value (or
  \<open>None\<close>) and the reader after it. The \<open>u64\<close> values of the source stay words; the signed
  values are integers, since a 32-bit code word keeps them far inside \<open>i64\<close>.
\<close>

subsection \<open>Emulation prevention\<close>

function strip_loop :: "bytes \<Rightarrow> nat \<Rightarrow> nat \<Rightarrow> bytes \<Rightarrow> bytes" where
  "strip_loop b zeros i out =
    (if i < length b then
       if 2 \<le> zeros \<and> b ! i = 0x03 \<and> i + 1 < length b \<and> b ! (i + 1) \<le> 0x03
       then strip_loop b 0 (i + 1) out
       else strip_loop b (if b ! i = 0 then zeros + 1 else 0) (i + 1) (out @ [b ! i])
     else out)"
  by pat_completeness auto
termination
  by (relation "measure (\<lambda>(b, zeros, i, out). length b - i)") auto

declare strip_loop.simps [simp del]

definition strip_emulation_prevention :: "bytes \<Rightarrow> bytes" where
  "strip_emulation_prevention b = strip_loop b 0 0 []"

text \<open>The same as a structural recursion on what is left of the input.\<close>

fun strip_from :: "nat \<Rightarrow> bytes \<Rightarrow> bytes" where
  "strip_from zeros [] = []"
| "strip_from zeros (x # xs) =
    (if 2 \<le> zeros \<and> x = 3 \<and> xs \<noteq> [] \<and> hd xs \<le> 3 then strip_from 0 xs
     else x # strip_from (if x = 0 then zeros + 1 else 0) xs)"

lemma strip_loop_from: "i \<le> length b \<Longrightarrow> strip_loop b zeros i out = out @ strip_from zeros (drop i b)"
proof (induction b zeros i out rule: strip_loop.induct)
  case (1 b zeros i out)
  show ?case
  proof (cases "i < length b")
    case True
    then have d: "drop i b = b ! i # drop (i + 1) b" by (simp add: Cons_nth_drop_Suc)
    have h: "i + 1 < length b \<Longrightarrow> hd (drop (i + 1) b) = b ! (i + 1)" by (simp add: hd_drop_conv_nth)
    show ?thesis
      using 1 True h by (subst strip_loop.simps) (auto simp: d)
  next
    case False
    with 1 show ?thesis by (subst strip_loop.simps) simp
  qed
qed

lemma strip_emulation_prevention_from: "strip_emulation_prevention b = strip_from 0 b"
  by (simp add: strip_emulation_prevention_def strip_loop_from)

text \<open>What an encoder does (ITU-T H.264, 7.3.1): a \<open>03\<close> before every byte up to \<open>03\<close> that
  would follow two zero bytes.\<close>

fun escape_from :: "nat \<Rightarrow> bytes \<Rightarrow> bytes" where
  "escape_from zeros [] = []"
| "escape_from zeros (x # xs) =
    (if 2 \<le> zeros \<and> x \<le> 3 then 3 # x # escape_from (if x = 0 then 1 else 0) xs
     else x # escape_from (if x = 0 then zeros + 1 else 0) xs)"

definition emulation_escape :: "bytes \<Rightarrow> bytes" where
  "emulation_escape b = escape_from 0 b"

lemma strip_escape_from: "strip_from zeros (escape_from zeros xs) = xs"
proof (induction xs arbitrary: zeros)
  case Nil
  then show ?case by simp
next
  case (Cons x xs)
  show ?case
  proof (cases "2 \<le> zeros \<and> x \<le> 3")
    case True
    with Cons [of "if x = 0 then 1 else 0"] show ?thesis by auto
  next
    case False
    then have "\<not> (2 \<le> zeros \<and> x = 3)" by auto
    with False Cons [of "if x = 0 then zeros + 1 else 0"] show ?thesis by auto
  qed
qed

subsection \<open>The bit reader\<close>

record BitReader =
  data :: bytes
  pos :: nat
  err :: bool

definition BitReader_new :: "bytes \<Rightarrow> BitReader" where
  "BitReader_new b = \<lparr>data = b, pos = 0, err = False\<rparr>"

type_synonym 'a reader = "BitReader \<Rightarrow> 'a option \<times> BitReader"

text \<open>The \<open>?\<close> operator on \<open>Option\<close>, with the reader threaded through.\<close>

definition obind :: "'a reader \<Rightarrow> ('a \<Rightarrow> 'b reader) \<Rightarrow> 'b reader" where
  "obind m f r = (case m r of (None, r) \<Rightarrow> (None, r) | (Some x, r) \<Rightarrow> f x r)"

definition oret :: "'a \<Rightarrow> 'a reader" where
  "oret x r = (Some x, r)"

definition read_bit :: "u64 reader" where
  "read_bit r =
    (if length (data r) * 8 \<le> pos r then (None, r\<lparr>err := True\<rparr>)
     else let b = data r ! drop_bit 3 (pos r);
              bit = drop_bit (7 - (pos r AND 7)) b AND 1
          in (Some (ucast bit), r\<lparr>pos := pos r + 1\<rparr>))"

fun read_bits_loop :: "nat \<Rightarrow> u64 \<Rightarrow> u64 reader" where
  "read_bits_loop 0 v = oret v"
| "read_bits_loop (Suc n) v = obind read_bit (\<lambda>b. read_bits_loop n (push_bit 1 v OR b))"

definition read_bits :: "nat \<Rightarrow> u64 reader" where
  "read_bits n = read_bits_loop n 0"

text \<open>The loop of \<open>read_ue\<close>: it counts zero bits and gives up after 32 of them.\<close>

function count_zeros :: "nat \<Rightarrow> nat reader" where
  "count_zeros zeros r =
    (case read_bit r of
       (None, r) \<Rightarrow> (None, r)
     | (Some b, r) \<Rightarrow>
         if b = 0 then
           if 31 < zeros + 1 then (None, r\<lparr>err := True\<rparr>) else count_zeros (zeros + 1) r
         else (Some zeros, r))"
  by pat_completeness auto
termination
  by (relation "measure (\<lambda>(zeros, r). 32 - zeros)") auto

declare count_zeros.simps [simp del]

definition read_ue :: "u64 reader" where
  "read_ue = obind (count_zeros 0) (\<lambda>zeros.
     if zeros = 0 then oret 0
     else obind (read_bits zeros) (\<lambda>rest. oret (push_bit zeros 1 - 1 + rest)))"

definition read_se :: "int reader" where
  "read_se = obind read_ue (\<lambda>k.
     if k AND 1 \<noteq> 0 then oret (sint ((k + 1) div 2)) else oret (- sint (k div 2)))"

subsection \<open>Picture size\<close>

text \<open>Rust's \<open>%\<close> on signed integers takes the sign of the dividend.\<close>

definition rust_rem :: "int \<Rightarrow> int \<Rightarrow> int" where
  "rust_rem a b = sgn a * (\<bar>a\<bar> mod \<bar>b\<bar>)"

fun scaling_list :: "nat \<Rightarrow> int \<Rightarrow> int \<Rightarrow> unit reader" where
  "scaling_list 0 last_scale next_scale = oret ()"
| "scaling_list (Suc n) last_scale next_scale =
    obind (if next_scale \<noteq> 0
           then obind read_se (\<lambda>d. oret (rust_rem (last_scale + d + 256) 256))
           else oret next_scale)
      (\<lambda>next_scale.
         scaling_list n (if next_scale \<noteq> 0 then next_scale else last_scale) next_scale)"

text \<open>\<open>for i in 0..n\<close>, counted by what is left; \<open>i\<close> is the list's index.\<close>

fun scaling_lists :: "nat \<Rightarrow> nat \<Rightarrow> unit reader" where
  "scaling_lists 0 i = oret ()"
| "scaling_lists (Suc n) i =
    obind read_bit (\<lambda>present.
      obind (if present = 1 then scaling_list (if 6 \<le> i then 64 else 16) 8 8 else oret ())
        (\<lambda>_. scaling_lists n (i + 1)))"

fun read_se_times :: "nat \<Rightarrow> unit reader" where
  "read_se_times 0 = oret ()"
| "read_se_times (Suc n) = obind read_se (\<lambda>_. read_se_times n)"

definition high_profiles :: "u64 list" where
  "high_profiles = [100, 110, 122, 244, 44, 83, 86, 118, 128, 138, 139, 134, 135]"

definition sps_high_fields :: "unit reader" where
  "sps_high_fields =
    obind read_ue (\<lambda>chroma_format_idc.
    obind (if chroma_format_idc = 3 then obind read_bit (\<lambda>_. oret ()) else oret ()) (\<lambda>_.
    obind read_ue (\<lambda>_.
    obind read_ue (\<lambda>_.
    obind read_bit (\<lambda>_.
    obind read_bit (\<lambda>scaling.
      if scaling = 1 then scaling_lists (if chroma_format_idc = 3 then 12 else 8) 0
      else oret ()))))))"

definition sps_order_fields :: "unit reader" where
  "sps_order_fields =
    obind read_ue (\<lambda>pic_order_cnt_type.
      if pic_order_cnt_type = 0 then obind read_ue (\<lambda>_. oret ())
      else if pic_order_cnt_type = 1 then
        obind read_bit (\<lambda>_.
        obind read_se (\<lambda>_.
        obind read_se (\<lambda>_.
        obind read_ue (\<lambda>n. read_se_times (unat n)))))
      else oret ())"

text \<open>\<open>pic_width_in_mbs_minus1\<close>, \<open>pic_height_in_map_units_minus1\<close>, \<open>frame_mbs_only_flag\<close> and
  the four crop offsets.\<close>

definition sps_fields :: "(u64 \<times> u64 \<times> u64 \<times> u64 \<times> u64 \<times> u64 \<times> u64) reader" where
  "sps_fields =
    obind (read_bits 8) (\<lambda>profile_idc.
    obind (read_bits 8) (\<lambda>_.
    obind (read_bits 8) (\<lambda>_.
    obind read_ue (\<lambda>_.
    obind (if profile_idc \<in> set high_profiles then sps_high_fields else oret ()) (\<lambda>_.
    obind read_ue (\<lambda>_.
    obind sps_order_fields (\<lambda>_.
    obind read_ue (\<lambda>_.
    obind read_bit (\<lambda>_.
    obind read_ue (\<lambda>w.
    obind read_ue (\<lambda>h.
    obind read_bit (\<lambda>frame_mbs_only.
    obind (if frame_mbs_only = 0 then obind read_bit (\<lambda>_. oret ()) else oret ()) (\<lambda>_.
    obind read_bit (\<lambda>_.
    obind read_bit (\<lambda>cropping.
      if cropping = 1 then
        obind read_ue (\<lambda>l.
        obind read_ue (\<lambda>r.
        obind read_ue (\<lambda>t.
        obind read_ue (\<lambda>b.
          oret (w, h, frame_mbs_only, l, r, t, b)))))
      else oret (w, h, frame_mbs_only, 0, 0, 0, 0))))))))))))))))"

definition saturating_sub :: "u64 \<Rightarrow> u64 \<Rightarrow> u64" where
  "saturating_sub a b = (if a < b then 0 else a - b)"

definition sps_dimensions :: "bytes \<Rightarrow> (u32 \<times> u32) option" where
  "sps_dimensions sps =
    (if length sps < 4 \<or> sps ! 0 AND 0x1f \<noteq> 7 then None
     else case sps_fields (BitReader_new (strip_emulation_prevention (drop 1 sps))) of
       (None, _) \<Rightarrow> None
     | (Some (width_mbs, height_units, frame_mbs_only, crop_left, crop_right, crop_top, crop_bottom), r) \<Rightarrow>
         if err r then None
         else
           let w = (width_mbs + 1) * 16;
               h = (2 - frame_mbs_only) * (height_units + 1) * 16;
               crop_unit_x = 2;
               crop_unit_y = 2 * (2 - frame_mbs_only);
               w = saturating_sub w ((crop_left + crop_right) * crop_unit_x);
               h = saturating_sub h ((crop_top + crop_bottom) * crop_unit_y)
           in if w = 0 \<or> h = 0 then None else Some (ucast w, ucast h))"

subsection \<open>The bits a reader has before it\<close>

definition bits_of_byte :: "byte \<Rightarrow> bool list" where
  "bits_of_byte b = map (\<lambda>j. bit b (7 - j)) [0..<8]"

definition bits_of :: "bytes \<Rightarrow> bool list" where
  "bits_of bs = concat (map bits_of_byte bs)"

text \<open>\<open>r\<close> has exactly the bits \<open>xs\<close> before it.\<close>

definition ahead :: "BitReader \<Rightarrow> bool list \<Rightarrow> bool" where
  "ahead r xs \<longleftrightarrow> \<not> err r \<and> pos r \<le> length (data r) * 8 \<and> drop (pos r) (bits_of (data r)) = xs"

lemma length_bits_of_byte [simp]: "length (bits_of_byte b) = 8"
  by (simp add: bits_of_byte_def)

lemma length_bits_of [simp]: "length (bits_of bs) = length bs * 8"
  by (induction bs) (simp_all add: bits_of_def)

lemma nth_bits_of: "i < length bs * 8 \<Longrightarrow> bits_of bs ! i = bit (bs ! (i div 8)) (7 - i mod 8)"
proof (induction bs arbitrary: i)
  case Nil
  then show ?case by simp
next
  case (Cons b bs)
  show ?case
  proof (cases "i < 8")
    case True
    then show ?thesis by (simp add: bits_of_def nth_append bits_of_byte_def)
  next
    case False
    with Cons.prems have i: "i - 8 < length bs * 8" "i div 8 = Suc ((i - 8) div 8)" "i mod 8 = (i - 8) mod 8"
      by (simp_all add: le_div_geq le_mod_geq)
    have "bits_of (b # bs) ! i = bits_of bs ! (i - 8)"
      using False by (simp add: bits_of_def nth_append)
    with Cons.IH [OF i(1)] i show ?thesis by simp
  qed
qed

lemma read_bit_ahead:
  assumes "ahead r (x # xs)"
  shows "read_bit r = (Some (of_bool x), r\<lparr>pos := pos r + 1\<rparr>)" and "ahead (r\<lparr>pos := pos r + 1\<rparr>) xs"
proof -
  from assms have lt: "pos r < length (data r) * 8"
    by (auto simp: ahead_def intro: le_neq_implies_less)
  have "bits_of (data r) ! pos r = x"
    using assms lt by (metis ahead_def length_bits_of nth_via_drop)
  then have x: "bit (data r ! (pos r div 8)) (7 - pos r mod 8) = x"
    by (simp add: nth_bits_of lt)
  have d: "drop_bit 3 (pos r) = pos r div 8" "pos r AND 7 = pos r mod 8"
    using take_bit_eq_mask [of 3 "pos r"] by (simp_all add: drop_bit_eq_div take_bit_eq_mod mask_eq_exp_minus_1)
  have "drop_bit (7 - pos r mod 8) (data r ! (pos r div 8)) AND 1 = (of_bool x :: byte)"
    using x by (cases x) (simp_all add: and_one_eq bit_iff_odd_drop_bit even_iff_mod_2_eq_zero)
  with lt d show "read_bit r = (Some (of_bool x), r\<lparr>pos := pos r + 1\<rparr>)"
    by (simp add: read_bit_def Let_def)
  show "ahead (r\<lparr>pos := pos r + 1\<rparr>) xs"
    using assms lt by (auto simp: ahead_def drop_Suc simp flip: tl_drop)
qed

subsection \<open>Reading what was written\<close>

text \<open>
  \<open>reads m w x\<close>: on any reader whose next bits are \<open>w\<close>, the operation \<open>m\<close> succeeds with
  \<open>x\<close> and stops right after \<open>w\<close>. It composes along \<open>obind\<close>, so a syntax structure is read
  correctly when each of its fields is.
\<close>

definition reads :: "'a reader \<Rightarrow> bool list \<Rightarrow> 'a \<Rightarrow> bool" where
  "reads m w x \<longleftrightarrow>
     (\<forall>r rest. ahead r (w @ rest) \<longrightarrow> (\<exists>r'. m r = (Some x, r') \<and> ahead r' rest))"

named_theorems reads_intros "reading back the fields of a syntax structure"

lemma readsD: "reads m w x \<Longrightarrow> ahead r (w @ rest) \<Longrightarrow> \<exists>r'. m r = (Some x, r') \<and> ahead r' rest"
  by (simp add: reads_def)

lemma reads_oret [reads_intros]: "reads (oret x) [] x"
  by (simp add: reads_def oret_def)

lemma reads_obind [reads_intros]:
  assumes "reads m w x" and "reads (f x) w' y" shows "reads (obind m f) (w @ w') y"
  unfolding reads_def
proof (intro allI impI)
  fix r rest assume "ahead r ((w @ w') @ rest)"
  then obtain r1 where r1: "m r = (Some x, r1)" "ahead r1 (w' @ rest)"
    using readsD [OF assms(1), of r "w' @ rest"] by auto
  with readsD [OF assms(2) r1(2)] show "\<exists>r'. obind m f r = (Some y, r') \<and> ahead r' rest"
    by (simp add: obind_def)
qed

lemma reads_bit [reads_intros]: "reads read_bit [b] (of_bool b)"
  unfolding reads_def using read_bit_ahead [of _ b] by fastforce

lemma push_or_bit: "push_bit 1 v OR of_bool b = 2 * v + (of_bool b :: 'a::len word)"
  by (cases b) (simp_all add: push_bit_eq_mult or_one_eq mult.commute)

definition value_of_bits :: "bool list \<Rightarrow> nat" where
  "value_of_bits bl = foldl (\<lambda>v b. 2 * v + of_bool b) 0 bl"

lemma reads_bits_loop:
  "reads (read_bits_loop (length bl) (of_nat v)) bl (of_nat (foldl (\<lambda>v b. 2 * v + of_bool b) v bl))"
proof (induction bl arbitrary: v)
  case Nil
  then show ?case by (simp add: reads_oret)
next
  case (Cons b bl)
  have eq: "push_bit 1 (of_nat v) OR of_bool b = (of_nat (2 * v + of_bool b) :: u64)"
    by (simp only: push_or_bit of_nat_add of_nat_mult of_nat_numeral of_nat_of_bool)
  have "reads (read_bits_loop (length (b # bl)) (of_nat v)) ([b] @ bl)
      (of_nat (foldl (\<lambda>v b. 2 * v + of_bool b) (2 * v + of_bool b) bl))"
    unfolding list.size read_bits_loop.simps add_0_right add_Suc_right
    by (rule reads_obind [OF reads_bit]) (use Cons [of "2 * v + of_bool b"] in \<open>simp only: eq\<close>)
  then show ?case by simp
qed

lemma reads_bits [reads_intros]: "length bl = n \<Longrightarrow> reads (read_bits n) bl (of_nat (value_of_bits bl))"
  using reads_bits_loop [of bl 0] by (auto simp: read_bits_def value_of_bits_def)

text \<open>The low \<open>k\<close> bits of a number, the highest first, and the Exp-Golomb code of \<open>n\<close>
  (ITU-T H.264, 9.1): as many zeros as \<open>n + 1\<close> has bits after its first, then \<open>n + 1\<close>.\<close>

fun low_bits :: "nat \<Rightarrow> nat \<Rightarrow> bool list" where
  "low_bits 0 m = []"
| "low_bits (Suc k) m = low_bits k (m div 2) @ [odd m]"

fun log2 :: "nat \<Rightarrow> nat" where
  "log2 n = (if n < 2 then 0 else Suc (log2 (n div 2)))"

declare log2.simps [simp del]

definition ue_bits :: "nat \<Rightarrow> bool list" where
  "ue_bits n = replicate (log2 (n + 1)) False @ [True] @ low_bits (log2 (n + 1)) (n + 1)"

lemma length_low_bits [simp]: "length (low_bits k m) = k"
  by (induction k arbitrary: m) simp_all

lemma value_low_bits: "value_of_bits (low_bits k m) = m mod 2 ^ k"
proof (induction k arbitrary: m)
  case 0
  then show ?case by (simp add: value_of_bits_def)
next
  case (Suc k)
  have "m mod 2 ^ Suc k = 2 * (m div 2 mod 2 ^ k) + m mod 2"
    using mod_mult2_eq [of m 2 "2 ^ k"] by simp
  then show ?case
    using Suc [of "m div 2"] by (auto simp: value_of_bits_def mod_2_eq_odd)
qed

lemma log2_bounds: "0 < n \<Longrightarrow> 2 ^ log2 n \<le> n \<and> n < 2 ^ Suc (log2 n)"
proof (induction n rule: log2.induct)
  case (1 n)
  show ?case
  proof (cases "n < 2")
    case True
    with 1 show ?thesis by (simp add: log2.simps [of n])
  next
    case False
    with 1 have "2 ^ log2 (n div 2) \<le> n div 2 \<and> n div 2 < 2 ^ Suc (log2 (n div 2))" by simp
    with False show ?thesis by (simp add: log2.simps [of n]) linarith
  qed
qed

lemma log2_less: "0 < n \<Longrightarrow> n < 2 ^ k \<Longrightarrow> log2 n < k"
  using log2_bounds [of n] by (meson not_less order_le_less_trans power_increasing one_le_numeral order_less_irrefl order_trans)

lemma log2_mod: "0 < n \<Longrightarrow> n mod 2 ^ log2 n = n - 2 ^ log2 n"
  using log2_bounds [of n] by (subst le_mod_geq) auto

lemma reads_count_zeros:
  "z + k \<le> 31 \<Longrightarrow> reads (count_zeros z) (replicate k False @ [True]) (z + k)"
proof (induction k arbitrary: z)
  case 0
  show ?case
    unfolding reads_def
  proof (intro allI impI)
    fix r rest assume "ahead r ((replicate 0 False @ [True]) @ rest)"
    then obtain r' where "read_bit r = (Some (of_bool True), r')" "ahead r' rest"
      using readsD [OF reads_bit [of True], of r rest] by auto
    then show "\<exists>r'. count_zeros z r = (Some (z + 0), r') \<and> ahead r' rest"
      by (simp add: count_zeros.simps)
  qed
next
  case (Suc k)
  show ?case
    unfolding reads_def
  proof (intro allI impI)
    fix r rest assume "ahead r ((replicate (Suc k) False @ [True]) @ rest)"
    then obtain r1 where r1: "read_bit r = (Some (of_bool False), r1)"
        "ahead r1 ((replicate k False @ [True]) @ rest)"
      using readsD [OF reads_bit [of False], of r "(replicate k False @ [True]) @ rest"] by auto
    from Suc have "reads (count_zeros (z + 1)) (replicate k False @ [True]) (z + Suc k)"
      by (metis Suc_eq_plus1 add_Suc_shift)
    from readsD [OF this r1(2)] r1(1) Suc.prems
    show "\<exists>r'. count_zeros z r = (Some (z + Suc k), r') \<and> ahead r' rest"
      by (subst count_zeros.simps) simp
  qed
qed

lemma reads_ue [reads_intros]:
  assumes "n < 2 ^ 32 - 1" shows "reads read_ue (ue_bits n) (of_nat n)"
proof -
  define k where "k = log2 (n + 1)"
  have k: "k \<le> 31" using log2_less [of "n + 1" 32] assms by (simp add: k_def)
  show ?thesis
  proof (cases "k = 0")
    case True
    then have "n = 0" using log2_bounds [of "n + 1"] by (simp add: k_def)
    moreover have "reads read_ue ([True] @ []) 0"
      unfolding read_ue_def
      by (rule reads_obind [OF reads_count_zeros [of 0 0, simplified]]) (simp add: reads_oret)
    moreover have "log2 1 = 0" by (simp add: log2.simps)
    ultimately show ?thesis by (simp add: ue_bits_def)
  next
    case False
    have "2 ^ k \<le> n + 1" using log2_bounds [of "n + 1"] by (simp add: k_def)
    then have n: "n = 2 ^ k - 1 + (n + 1) mod 2 ^ k"
      using log2_mod [of "n + 1"] by (simp add: k_def)
    have "(of_nat n :: u64) = of_nat (2 ^ k - 1) + of_nat ((n + 1) mod 2 ^ k)"
      by (subst n) (rule of_nat_add)
    also have "(of_nat (2 ^ k - 1) :: u64) = push_bit k 1 - 1"
      by (simp add: push_bit_eq_mult of_nat_diff)
    finally have eq: "push_bit k 1 - 1 + of_nat (value_of_bits (low_bits k (n + 1))) = (of_nat n :: u64)"
      by (simp add: value_low_bits)
    have "reads (obind (read_bits k) (\<lambda>rest. oret (push_bit k 1 - 1 + rest)))
        (low_bits k (n + 1) @ []) (of_nat n)"
      by (rule reads_obind [OF reads_bits]) (simp_all only: length_low_bits eq reads_oret)
    then have "reads read_ue ((replicate k False @ [True]) @ low_bits k (n + 1)) (of_nat n)"
      unfolding read_ue_def using False k
      by (intro reads_obind [OF reads_count_zeros [of 0 k, simplified]]) simp_all
    then show ?thesis by (simp add: ue_bits_def k_def)
  qed
qed

lemma reads_if_True: "c \<Longrightarrow> reads m w x \<Longrightarrow> reads (if c then m else m') w x"
  by simp

lemma reads_if_False: "\<not> c \<Longrightarrow> reads m' w x \<Longrightarrow> reads (if c then m else m') w x"
  by simp

text \<open>Some value is read; the code discards it.\<close>

definition skips :: "'a reader \<Rightarrow> bool list \<Rightarrow> bool" where
  "skips m w \<longleftrightarrow> (\<exists>x. reads m w x)"

lemma skips_obind: "skips m w \<Longrightarrow> reads f w' y \<Longrightarrow> reads (obind m (\<lambda>_. f)) (w @ w') y"
  unfolding skips_def by (blast intro: reads_obind)

lemma skips_reads: "reads m w x \<Longrightarrow> skips m w"
  by (auto simp: skips_def)

lemmas skips_bit = skips_reads [OF reads_bit]
lemmas skips_ue = skips_reads [OF reads_ue]

subsection \<open>Signed codes\<close>

definition se_bits :: "int \<Rightarrow> bool list" where
  "se_bits v = ue_bits (if 0 < v then nat (2 * v - 1) else nat (- 2 * v))"

lemma sint_of_nat_small: "n < 2 ^ 63 \<Longrightarrow> sint (word_of_nat n :: u64) = int n"
  by (simp add: signed_of_nat signed_take_bit_int_eq_self)

lemma odd_word_of_nat: "n < 2 ^ 64 \<Longrightarrow> (word_of_nat n :: u64) AND 1 = of_bool (odd n)"
  by (rule word_unat_eq_iff [THEN iffD2])
    (simp add: and_one_eq unat_mod unat_of_nat mod_2_eq_odd)

lemma div2_word_of_nat: "n < 2 ^ 64 \<Longrightarrow> (word_of_nat n :: u64) div 2 = word_of_nat (n div 2)"
  by (rule word_unat_eq_iff [THEN iffD2]) (simp add: unat_div unat_of_nat)

lemma reads_se [reads_intros]:
  assumes "\<bar>v\<bar> < 2 ^ 31" shows "reads read_se (se_bits v) v"
proof -
  define k where "k = (if 0 < v then nat (2 * v - 1) else nat (- 2 * v))"
  have k: "k < 2 ^ 32 - 1" using assms by (auto simp: k_def)
  have k1: "(word_of_nat k :: u64) + 1 = word_of_nat (k + 1)" by simp
  have "(if (word_of_nat k :: u64) AND 1 \<noteq> 0 then sint ((word_of_nat k + 1 :: u64) div 2)
         else - sint ((word_of_nat k :: u64) div 2)) = v"
  proof (cases "0 < v")
    case True
    then have "odd k" "(k + 1) div 2 = nat v" by (simp_all add: k_def even_nat_iff nat_diff_distrib)
    moreover have "sint ((word_of_nat (k + 1) :: u64) div 2) = int ((k + 1) div 2)"
    proof -
      from k have "k + 1 < 2 ^ 64" "(k + 1) div 2 < 2 ^ 63" by auto
      then show ?thesis by (simp only: div2_word_of_nat sint_of_nat_small)
    qed
    ultimately show ?thesis
      unfolding k1 using k True by (simp add: odd_word_of_nat del: of_nat_add of_nat_Suc)
  next
    case False
    then have "even k" "k div 2 = nat (- v)" by (simp_all add: k_def even_nat_iff nat_mult_distrib)
    moreover have "sint ((word_of_nat k :: u64) div 2) = int (k div 2)"
    proof -
      from k have "k < 2 ^ 64" "k div 2 < 2 ^ 63" by auto
      then show ?thesis by (simp only: div2_word_of_nat sint_of_nat_small)
    qed
    ultimately show ?thesis
      using k False by (simp add: odd_word_of_nat)
  qed
  then have "reads (if (word_of_nat k :: u64) AND 1 \<noteq> 0 then oret (sint ((word_of_nat k + 1 :: u64) div 2))
         else oret (- sint ((word_of_nat k :: u64) div 2))) [] v"
    by (auto simp: reads_oret split: if_splits)
  with reads_obind [OF reads_ue [OF k]] show ?thesis
    by (fastforce simp: read_se_def se_bits_def k_def)
qed

subsection \<open>The parameter set as a value\<close>

datatype sps_order =
    Poc0 nat
  | Poc1 bool int int "int list"
  | PocOther nat

record sps_high =
  chroma_format :: nat
  separate_planes :: bool
  luma_depth :: nat
  chroma_depth :: nat
  transform_bypass :: bool

record Sps =
  profile_bits :: "bool list"
  constraint_bits :: "bool list"
  level_bits :: "bool list"
  sps_id :: nat
  high :: sps_high
  frame_num_log :: nat
  order :: sps_order
  ref_frames :: nat
  gaps :: bool
  width_mbs_minus1 :: nat
  height_units_minus1 :: nat
  frame_mbs_only :: bool
  adaptive :: bool
  direct :: bool
  crop :: "(nat \<times> nat \<times> nat \<times> nat) option"

definition is_high :: "Sps \<Rightarrow> bool" where
  "is_high s \<longleftrightarrow> value_of_bits (profile_bits s) \<in> {100, 110, 122, 244, 44, 83, 86, 118, 128, 138, 139, 134, 135}"

definition sps_high_bits :: "sps_high \<Rightarrow> bool list" where
  "sps_high_bits s =
    ue_bits (chroma_format s) @ (if chroma_format s = 3 then [separate_planes s] else []) @
    ue_bits (luma_depth s) @ ue_bits (chroma_depth s) @ [transform_bypass s] @ [False]"

fun sps_order_bits :: "sps_order \<Rightarrow> bool list" where
  "sps_order_bits (Poc0 n) = ue_bits 0 @ ue_bits n"
| "sps_order_bits (Poc1 z a b offsets) =
    ue_bits 1 @ [z] @ se_bits a @ se_bits b @ ue_bits (length offsets) @ concat (map se_bits offsets)"
| "sps_order_bits (PocOther t) = ue_bits t"

definition sps_crop_bits :: "Sps \<Rightarrow> bool list" where
  "sps_crop_bits s = (case crop s of
     None \<Rightarrow> [False]
   | Some (l, r, t, b) \<Rightarrow> [True] @ ue_bits l @ ue_bits r @ ue_bits t @ ue_bits b)"

text \<open>The syntax of ITU-T H.264, 7.3.2.1.1 up to the cropping fields, with no scaling lists.\<close>

definition sps_bits :: "Sps \<Rightarrow> bool list" where
  "sps_bits s =
    profile_bits s @ constraint_bits s @ level_bits s @ ue_bits (sps_id s) @
    (if is_high s then sps_high_bits (high s) else []) @
    ue_bits (frame_num_log s) @ sps_order_bits (order s) @ ue_bits (ref_frames s) @ [gaps s] @
    ue_bits (width_mbs_minus1 s) @ ue_bits (height_units_minus1 s) @ [frame_mbs_only s] @
    (if frame_mbs_only s then [] else [adaptive s]) @ [direct s] @ sps_crop_bits s"

definition ue_range :: "nat \<Rightarrow> bool" where
  "ue_range n \<longleftrightarrow> n < 2 ^ 32 - 1"

definition se_range :: "int \<Rightarrow> bool" where
  "se_range v \<longleftrightarrow> \<bar>v\<bar> < 2 ^ 31"

fun order_ok :: "sps_order \<Rightarrow> bool" where
  "order_ok (Poc0 n) = ue_range n"
| "order_ok (Poc1 z a b offsets) =
    (se_range a \<and> se_range b \<and> ue_range (length offsets) \<and> list_all se_range offsets)"
| "order_ok (PocOther t) = (2 \<le> t \<and> ue_range t)"

definition high_ok :: "sps_high \<Rightarrow> bool" where
  "high_ok s \<longleftrightarrow> ue_range (chroma_format s) \<and> ue_range (luma_depth s) \<and> ue_range (chroma_depth s)"

definition crop_of :: "Sps \<Rightarrow> nat \<times> nat \<times> nat \<times> nat" where
  "crop_of s = (case crop s of None \<Rightarrow> (0, 0, 0, 0) | Some c \<Rightarrow> c)"

fun crop_ok :: "nat \<times> nat \<times> nat \<times> nat \<Rightarrow> bool" where
  "crop_ok (l, r, t, b) = (ue_range l \<and> ue_range r \<and> ue_range t \<and> ue_range b)"

definition sps_ok :: "Sps \<Rightarrow> bool" where
  "sps_ok s \<longleftrightarrow> length (profile_bits s) = 8 \<and> length (constraint_bits s) = 8 \<and>
     length (level_bits s) = 8 \<and> ue_range (sps_id s) \<and> high_ok (high s) \<and>
     ue_range (frame_num_log s) \<and> order_ok (order s) \<and> ue_range (ref_frames s) \<and>
     ue_range (width_mbs_minus1 s) \<and> ue_range (height_units_minus1 s) \<and> crop_ok (crop_of s)"

lemma ue_range_iff [simp]: "ue_range n \<longleftrightarrow> n < 4294967295"
  by (simp add: ue_range_def)

lemma reads_ue' [reads_intros]: "ue_range n \<Longrightarrow> reads read_ue (ue_bits n) (of_nat n)"
  by (rule reads_ue) simp

lemma reads_se' [reads_intros]: "se_range v \<Longrightarrow> reads read_se (se_bits v) v"
  by (rule reads_se) (simp add: se_range_def)

lemma reads_se_times:
  "list_all se_range vs \<Longrightarrow> reads (read_se_times (length vs)) (concat (map se_bits vs)) ()"
proof (induction vs)
  case Nil
  then show ?case by (simp add: reads_oret)
next
  case (Cons v vs)
  then have "reads (obind read_se (\<lambda>_. read_se_times (length vs))) (se_bits v @ concat (map se_bits vs)) ()"
    by (intro reads_obind [OF reads_se']) simp_all
  then show ?case by simp
qed

lemma of_nat_u64_eq_iff: "n < 2 ^ 64 \<Longrightarrow> m < 2 ^ 64 \<Longrightarrow> (word_of_nat n :: u64) = word_of_nat m \<longleftrightarrow> n = m"
  by (auto simp: word_unat_eq_iff unat_of_nat)

lemma reads_optional_bit:
  "reads (if c then obind read_bit (\<lambda>_. oret ()) else oret ()) (if c then [b] else []) ()"
  using reads_obind [OF reads_bit reads_oret] by (cases c) (simp_all add: reads_oret)

lemma reads_high:
  assumes "high_ok s" shows "reads sps_high_fields (sps_high_bits s) ()"
proof -
  have c: "(word_of_nat (chroma_format s) :: u64) = 3 \<longleftrightarrow> chroma_format s = 3"
    using of_nat_u64_eq_iff [of "chroma_format s" 3] assms by (simp add: high_ok_def)
  have tail: "reads (obind read_bit (\<lambda>scaling. if scaling = 1 then m else oret ())) [False] ()" for m
    using reads_obind [OF reads_bit [of False], of "\<lambda>scaling. if scaling = 1 then m else oret ()" "[]" "()"]
    by (simp add: reads_oret)
  have "reads (obind (if chroma_format s = 3 then obind read_bit (\<lambda>_. oret ()) else oret ()) (\<lambda>_.
      obind read_ue (\<lambda>_. obind read_ue (\<lambda>_. obind read_bit (\<lambda>_. obind read_bit (\<lambda>scaling.
        if scaling = 1 then m else oret ()))))))
    ((if chroma_format s = 3 then [separate_planes s] else []) @
     ue_bits (luma_depth s) @ ue_bits (chroma_depth s) @ [transform_bypass s] @ [False]) ()" for m
    using assms unfolding high_ok_def
    by (intro reads_obind [OF reads_optional_bit] reads_obind [OF reads_ue'] reads_obind [OF reads_bit] tail)
      blast+
  then show ?thesis
    using assms unfolding sps_high_fields_def sps_high_bits_def high_ok_def
    by (intro reads_obind [OF reads_ue']) (simp_all only: c)
qed

lemma reads_order:
  assumes "order_ok o'" shows "reads sps_order_fields (sps_order_bits o') ()"
proof (cases o')
  case (Poc0 n)
  have "reads (obind read_ue (\<lambda>_. oret ())) (ue_bits n @ []) ()"
    using assms Poc0 by (intro reads_obind [OF reads_ue'] reads_oret) simp
  then show ?thesis
    unfolding sps_order_fields_def Poc0 sps_order_bits.simps
    by (intro reads_obind [OF reads_ue']) simp_all
next
  case (Poc1 z a b vs)
  have n: "unat (word_of_nat (length vs) :: u64) = length vs"
    using assms Poc1 by (simp add: unat_of_nat)
  have "reads (obind read_bit (\<lambda>_. obind read_se (\<lambda>_. obind read_se (\<lambda>_.
      obind read_ue (\<lambda>n. read_se_times (unat n))))))
    ([z] @ se_bits a @ se_bits b @ ue_bits (length vs) @ concat (map se_bits vs)) ()"
    using assms Poc1
    by (intro reads_obind [OF reads_bit] reads_obind [OF reads_se'] reads_obind [OF reads_ue'])
      (simp_all add: n reads_se_times)
  then show ?thesis
    unfolding sps_order_fields_def Poc1 sps_order_bits.simps
    by (intro reads_obind [OF reads_ue']) simp_all
next
  case (PocOther t)
  have "(word_of_nat t :: u64) \<noteq> 0" "(word_of_nat t :: u64) \<noteq> 1"
    using of_nat_u64_eq_iff [of t 0] of_nat_u64_eq_iff [of t 1] assms PocOther by auto
  then have "reads sps_order_fields (ue_bits t @ []) ()"
    unfolding sps_order_fields_def using assms PocOther
    by (intro reads_obind [OF reads_ue']) (simp_all add: reads_oret)
  then show ?thesis by (simp add: PocOther)
qed

definition sps_fields_of :: "Sps \<Rightarrow> u64 \<times> u64 \<times> u64 \<times> u64 \<times> u64 \<times> u64 \<times> u64" where
  "sps_fields_of s = (case crop_of s of (l, r, t, b) \<Rightarrow>
     (of_nat (width_mbs_minus1 s), of_nat (height_units_minus1 s), of_bool (frame_mbs_only s),
      of_nat l, of_nat r, of_nat t, of_nat b))"

lemma reads_crop:
  assumes "crop_ok (crop_of s)"
  shows "reads (obind read_bit (\<lambda>cropping.
      if cropping = 1 then
        obind read_ue (\<lambda>l. obind read_ue (\<lambda>r. obind read_ue (\<lambda>t. obind read_ue (\<lambda>b.
          oret (w, h, f, l, r, t, b)))))
      else oret (w, h, f, 0, 0, 0, 0)))
    (sps_crop_bits s)
    (case crop_of s of (l, r, t, b) \<Rightarrow> (w, h, f, of_nat l, of_nat r, of_nat t, of_nat b))"
proof (cases "crop s")
  case None
  then have "sps_crop_bits s = [False] @ []" by (simp add: sps_crop_bits_def)
  then show ?thesis
    by (simp only:) (rule reads_obind [OF reads_bit], simp add: None crop_of_def reads_oret)
next
  case (Some c)
  obtain l r t b where c: "c = (l, r, t, b)" by (cases c)
  have "sps_crop_bits s = [True] @ ue_bits l @ ue_bits r @ ue_bits t @ ue_bits b @ []"
    by (simp add: sps_crop_bits_def Some c)
  then show ?thesis
    using assms
    by (simp only:) (rule reads_obind [OF reads_bit], simp add: Some c crop_of_def,
      intro reads_obind [OF reads_ue] reads_obind [OF reads_ue, where w' = "[]", unfolded append_Nil2]
        reads_oret, simp_all)
qed

lemma value_of_bits_append: "value_of_bits (xs @ [b]) = 2 * value_of_bits xs + of_bool b"
  by (simp add: value_of_bits_def)

lemma value_of_bits_less: "value_of_bits bl < 2 ^ length bl"
proof (induction bl rule: rev_induct)
  case Nil
  then show ?case by (simp add: value_of_bits_def)
next
  case (snoc b bl)
  then show ?case by (cases b) (simp_all add: value_of_bits_append)
qed

lemma profile_high:
  assumes "length (profile_bits s) = 8"
  shows "(word_of_nat (value_of_bits (profile_bits s)) :: u64) \<in> set high_profiles \<longleftrightarrow> is_high s"
proof -
  define n where "n = value_of_bits (profile_bits s)"
  have "n < 256" using value_of_bits_less [of "profile_bits s"] assms by (simp add: n_def)
  then have "(word_of_nat n :: u64) = numeral k \<longleftrightarrow> n = numeral k" if "numeral k < (2 ^ 64 :: nat)" for k
    using of_nat_u64_eq_iff [of n "numeral k"] that by simp
  then show ?thesis by (simp add: high_profiles_def is_high_def flip: n_def)
qed

lemma reads_adaptive:
  "reads (if (of_bool f :: u64) = 0 then obind read_bit (\<lambda>_. oret ()) else oret ()) (if f then [] else [a]) ()"
  using reads_optional_bit [of "\<not> f" a] by (cases f) simp_all

lemma reads_fields:
  assumes "sps_ok s" shows "reads sps_fields (sps_bits s) (sps_fields_of s)"
proof -
  have high: "reads (if (word_of_nat (value_of_bits (profile_bits s)) :: u64) \<in> set high_profiles
        then sps_high_fields else oret ())
      (if is_high s then sps_high_bits (high s) else []) ()"
    using assms by (simp add: sps_ok_def profile_high reads_high reads_oret)
  have result: "sps_fields_of s = (case crop_of s of (l, r, t, b) \<Rightarrow>
      (of_nat (width_mbs_minus1 s), of_nat (height_units_minus1 s), of_bool (frame_mbs_only s),
       of_nat l, of_nat r, of_nat t, of_nat b))"
    by (simp add: sps_fields_of_def)
  show ?thesis
    using assms unfolding sps_fields_def sps_bits_def result sps_ok_def
    by (intro reads_obind [OF reads_bits] reads_obind [OF reads_ue'] reads_obind [OF reads_order]
          reads_obind [OF reads_bit] reads_obind [OF reads_adaptive] reads_crop
          reads_obind [OF high]) blast+
qed

subsection \<open>The size of a parameter set\<close>

text \<open>
  The crop units of ITU-T H.264, 7.4.2.1.1: the samples of a crop offset depend on the chroma format and, in rows, on
  whether the units are frames or fields. A profile without the field has 4:2:0; separate colour planes count as
  monochrome.
\<close>

definition chroma_array_type :: "Sps \<Rightarrow> nat" where
  "chroma_array_type s =
    (if \<not> is_high s then 1
     else if chroma_format (high s) = 3 \<and> separate_planes (high s) then 0 else chroma_format (high s))"

definition frame_fields :: "Sps \<Rightarrow> nat" where
  "frame_fields s = (if frame_mbs_only s then 1 else 2)"

definition crop_unit_x :: "Sps \<Rightarrow> nat" where
  "crop_unit_x s = (if chroma_array_type s \<in> {1, 2} then 2 else 1)"

definition crop_unit_y :: "Sps \<Rightarrow> nat" where
  "crop_unit_y s = (if chroma_array_type s = 1 then 2 else 1) * frame_fields s"

definition sps_width :: "Sps \<Rightarrow> nat" where
  "sps_width s = (case crop_of s of (l, r, t, b) \<Rightarrow> (width_mbs_minus1 s + 1) * 16 - crop_unit_x s * (l + r))"

definition sps_height :: "Sps \<Rightarrow> nat" where
  "sps_height s = (case crop_of s of (l, r, t, b) \<Rightarrow>
     frame_fields s * (height_units_minus1 s + 1) * 16 - crop_unit_y s * (t + b))"

text \<open>What the units of 4:2:0 cut off too much.\<close>

definition lost_columns :: "Sps \<Rightarrow> nat" where
  "lost_columns s = (case crop_of s of (l, r, t, b) \<Rightarrow> (2 - crop_unit_x s) * (l + r))"

definition lost_rows :: "Sps \<Rightarrow> nat" where
  "lost_rows s = (case crop_of s of (l, r, t, b) \<Rightarrow> (2 * frame_fields s - crop_unit_y s) * (t + b))"

definition picture_size :: "nat \<Rightarrow> nat \<Rightarrow> (u32 \<times> u32) option" where
  "picture_size w h = (if w = 0 \<or> h = 0 then None else Some (of_nat w, of_nat h))"

lemma size_lost:
  assumes "crop_of s = (l, r, t, b)"
  shows "sps_width s - lost_columns s = (width_mbs_minus1 s + 1) * 16 - 2 * (l + r)"
    and "sps_height s - lost_rows s = frame_fields s * (height_units_minus1 s + 1) * 16 - 2 * frame_fields s * (t + b)"
proof -
  have "crop_unit_x s * n + (2 - crop_unit_x s) * n = 2 * n" for n
    by (simp add: crop_unit_x_def)
  then show "sps_width s - lost_columns s = (width_mbs_minus1 s + 1) * 16 - 2 * (l + r)"
    unfolding sps_width_def lost_columns_def assms prod.case diff_diff_left by presburger
  have "crop_unit_y s * n + (2 * frame_fields s - crop_unit_y s) * n = 2 * frame_fields s * n" for n
    by (simp add: crop_unit_y_def)
  then show "sps_height s - lost_rows s = frame_fields s * (height_units_minus1 s + 1) * 16 - 2 * frame_fields s * (t + b)"
    unfolding sps_height_def lost_rows_def assms prod.case diff_diff_left by presburger
qed

lemma nothing_lost:
  "chroma_array_type s = 1 \<or> crop_of s = (0, 0, 0, 0) \<Longrightarrow> lost_columns s = 0 \<and> lost_rows s = 0"
  by (auto simp: lost_columns_def lost_rows_def crop_unit_x_def crop_unit_y_def split: prod.split)

lemma saturating_sub_of_nat:
  "a < 2 ^ 64 \<Longrightarrow> b < 2 ^ 64 \<Longrightarrow> saturating_sub (of_nat a) (of_nat b) = of_nat (a - b)"
  by (auto simp: saturating_sub_def word_less_nat_alt unat_of_nat)

lemma ucast_of_nat_u32: "(ucast (word_of_nat n :: u64) :: u32) = word_of_nat n"
  by (rule bit_word_eqI) (simp add: bit_simps)

lemma of_nat_zero_iff: "n < 2 ^ 64 \<Longrightarrow> (word_of_nat n :: u64) = 0 \<longleftrightarrow> n = 0"
  using of_nat_u64_eq_iff [of n 0] by simp

lemma sps_size_words:
  assumes "ue_range w" "ue_range l" "ue_range r" "f = 1 \<or> f = (2 :: nat)"
  shows "saturating_sub (of_nat f * (of_nat w + 1) * 16) ((of_nat l + of_nat r) * (2 * of_nat f))
       = of_nat (f * (w + 1) * 16 - 2 * f * (l + r))"
proof -
  have "of_nat f * (of_nat w + 1) * 16 = (of_nat (f * (w + 1) * 16) :: u64)"
    "(of_nat l + of_nat r) * (2 * of_nat f) = (of_nat (2 * f * (l + r)) :: u64)"
    by (simp_all add: algebra_simps)
  moreover have "f * (w + 1) * 16 < 2 ^ 64" "2 * f * (l + r) < 2 ^ 64"
    using assms by auto
  ultimately show ?thesis by (simp only: saturating_sub_of_nat)
qed

text \<open>C25. \<open>sps_dimensions\<close> on every parameter set without scaling lists, that is on a NAL of type 7 whose
  payload is the emulation-escaped bit string of the set \<open>s\<close> (any profile, picture order type and cropping, followed
  by any VUI and trailing bits): for pictures in 4:2:0 and for uncropped ones it returns the size of the
  picture, that is the coded size less the cropping of the standard, or \<open>None\<close> when that is empty; it uses the crop
  units of 4:2:0 for every chroma format, so for monochrome, 4:2:2 and 4:4:4 the size comes out smaller by
  exactly what these units cut off too much. The result is cut to 32 bits, as the source's \<open>as u32\<close> does.\<close>

theorem sps_dimensions_correct:
  assumes "header AND 0x1f = 7" and "sps_ok s" and "bits_of rbsp = sps_bits s @ rest"
  shows "(chroma_array_type s = 1 \<or> crop_of s = (0, 0, 0, 0) \<longrightarrow>
      sps_dimensions (header # emulation_escape rbsp) = picture_size (sps_width s) (sps_height s))
    \<and> sps_dimensions (header # emulation_escape rbsp) =
      picture_size (sps_width s - lost_columns s) (sps_height s - lost_rows s)"
proof -
  obtain l r t b where c: "crop_of s = (l, r, t, b)" by (cases "crop_of s") auto
  have strip: "strip_emulation_prevention (emulation_escape rbsp) = rbsp"
    by (simp add: strip_emulation_prevention_from emulation_escape_def strip_escape_from)
  have "length rbsp * 8 = length (sps_bits s) + length rest"
    using assms(3) by (metis length_append length_bits_of)
  moreover have "24 < length (sps_bits s)"
    using assms(2) by (simp add: sps_bits_def sps_ok_def)
  ultimately have "3 < length rbsp" by linarith
  moreover have "length rbsp \<le> length (emulation_escape rbsp)"
  proof -
    have "length xs \<le> length (escape_from z xs)" for z xs
      by (induction z xs rule: escape_from.induct) (auto simp: le_Suc_eq)
    then show ?thesis by (simp add: emulation_escape_def)
  qed
  ultimately have len: "\<not> length (header # emulation_escape rbsp) < 4" by simp
  have "ahead (BitReader_new rbsp) (sps_bits s @ rest)"
    using assms(3) by (simp add: ahead_def BitReader_new_def)
  then obtain r' where f: "sps_fields (BitReader_new rbsp) = (Some (sps_fields_of s), r')" "\<not> err r'"
    using readsD [OF reads_fields [OF assms(2)]] by (auto simp: ahead_def)
  have ok: "ue_range (width_mbs_minus1 s)" "ue_range (height_units_minus1 s)"
      "ue_range l" "ue_range r" "ue_range t" "ue_range b"
    using assms(2) by (simp_all add: sps_ok_def c)
  define W H where "W = sps_width s - lost_columns s" and "H = sps_height s - lost_rows s"
  have w: "saturating_sub ((of_nat (width_mbs_minus1 s) + 1) * 16) ((of_nat l + of_nat r) * 2) = of_nat W"
    using sps_size_words [OF ok(1,3,4), of 1] by (simp add: W_def size_lost [OF c])
  define k :: nat where "k = frame_fields s"
  have k: "2 - of_bool (frame_mbs_only s) = (of_nat k :: u64)" by (simp add: k_def frame_fields_def)
  have h: "saturating_sub (of_nat k * (of_nat (height_units_minus1 s) + 1) * 16)
      ((of_nat t + of_nat b) * (2 * of_nat k)) = of_nat H"
    using sps_size_words [OF ok(2,5,6), of k] unfolding H_def size_lost [OF c] by (simp add: k_def frame_fields_def)
  have lt: "W < 2 ^ 64" "H < 2 ^ 64"
    using ok(1,2) by (auto simp: W_def H_def size_lost [OF c] frame_fields_def)
  have dims: "sps_dimensions (header # emulation_escape rbsp) = picture_size W H"
    using len assms(1) lt
    by (simp add: sps_dimensions_def strip f sps_fields_of_def c k w [simplified] h Let_def of_nat_zero_iff
        ucast_of_nat_u32 picture_size_def)
  then show ?thesis using nothing_lost [of s] by (auto simp: W_def H_def)
qed

text \<open>The 1080p set of the source's own test: 120 by 68 macroblocks, four rows pairs cropped.\<close>

definition sps_1080p :: Sps where
  "sps_1080p =
    \<lparr>profile_bits = low_bits 8 66, constraint_bits = low_bits 8 192, level_bits = low_bits 8 40,
     sps_id = 0,
     high = \<lparr>chroma_format = 1, separate_planes = False, luma_depth = 0, chroma_depth = 0,
             transform_bypass = False\<rparr>,
     frame_num_log = 0, order = PocOther 2, ref_frames = 3, gaps = False,
     width_mbs_minus1 = 119, height_units_minus1 = 67, frame_mbs_only = True, adaptive = False,
     direct = True, crop = Some (0, 0, 0, 4)\<rparr>"

definition rbsp_1080p :: bytes where
  "rbsp_1080p = [66, 192, 40, 217, 0, 120, 2, 39, 229]"

lemma upt_8: "[0..<8] = [0, 1, 2, 3, 4, 5, 6, 7 :: nat]"
  by (simp add: upt_rec)

lemma low_bits_numeral [simp]:
  "low_bits (numeral k) m = low_bits (pred_numeral k) (m div 2) @ [odd m]"
  by (subst numeral_eq_Suc) (rule low_bits.simps)

text \<open>The same size in 4:4:4, where the eight rows that are cropped count one by one.\<close>

definition sps_444 :: Sps where
  "sps_444 = sps_1080p\<lparr>profile_bits := low_bits 8 244, constraint_bits := low_bits 8 0,
     high := \<lparr>chroma_format = 3, separate_planes = False, luma_depth = 0, chroma_depth = 0, transform_bypass = False\<rparr>,
     crop := Some (0, 0, 0, 8)\<rparr>"

definition rbsp_444 :: bytes where
  "rbsp_444 = [244, 0, 40, 145, 150, 64, 30, 0, 137, 248, 152]"

theorem sps_dimensions_correct_witness:
  "sps_dimensions (103 # emulation_escape rbsp_1080p) = picture_size 1920 1080 \<and>
   sps_dimensions (103 # emulation_escape rbsp_444) = picture_size 1920 (1080 - 8)"
proof
  have high: "\<not> is_high sps_1080p" "is_high sps_444"
    by (simp_all add: is_high_def sps_1080p_def sps_444_def value_of_bits_def)
  have size: "sps_width sps_1080p = 1920" "sps_height sps_1080p = 1080" "sps_width sps_444 = 1920" "sps_height sps_444 = 1080"
      "lost_columns sps_444 = 0" "lost_rows sps_444 = 8" "chroma_array_type sps_1080p = 1"
    using high by (simp_all add: sps_width_def sps_height_def lost_columns_def lost_rows_def crop_of_def frame_fields_def
        crop_unit_x_def crop_unit_y_def chroma_array_type_def) (simp_all add: sps_1080p_def sps_444_def)
  have "bits_of rbsp_1080p = sps_bits sps_1080p @ []" "sps_ok sps_1080p"
    using high by (simp_all add: sps_1080p_def rbsp_1080p_def sps_ok_def high_ok_def crop_of_def bits_of_def
        bits_of_byte_def upt_8 sps_bits_def sps_crop_bits_def ue_bits_def log2.simps)
  from sps_dimensions_correct [OF _ this(2,1), of 103] size
  show "sps_dimensions (103 # emulation_escape rbsp_1080p) = picture_size 1920 1080" by simp
  have "bits_of rbsp_444 = sps_bits sps_444 @ [True, False, False, False]" "sps_ok sps_444"
    using high by (simp_all add: sps_1080p_def sps_444_def rbsp_444_def sps_ok_def high_ok_def crop_of_def bits_of_def
        bits_of_byte_def upt_8 sps_bits_def sps_high_bits_def sps_crop_bits_def ue_bits_def log2.simps)
  from sps_dimensions_correct [OF _ this(2,1), of 103] size
  show "sps_dimensions (103 # emulation_escape rbsp_444) = picture_size 1920 (1080 - 8)" by simp
qed

end
