(* ===== verification/Streamer.thy ===== *)
theory Streamer
  imports Mirror_Session H264_Parser H264_Sps
begin

text \<open>
  The streamer of the mirroring program (\<open>H264Streamer\<close> of examples/mirror_desktop.rs): the bytes of the
  encoder go through the parser of h264.rs, the units are gathered into frames, and each frame is sent on the data
  connection of the session, a key frame behind a message with the parameter sets.

  Writing to the data connection succeeds in this model, so the only failure is the panic of
  \<open>build_avcc_config\<close> on a parameter set that is too short. \<open>clk n\<close> gives the instants at
  which the frame with number \<open>n\<close> is stamped.
\<close>

subsection \<open>The streamer\<close>

record H264Streamer =
  strm_session :: MirrorSession
  strm_parser :: H264Parser
  latest_sps :: "bytes option"
  latest_pps :: "bytes option"
  vcl_buf :: bytes
  pending_keyframe :: bool
  codec_sent :: bool
  frames_sent :: u64
  bytes_sent :: u64

definition streamer_new :: "MirrorSession \<Rightarrow> H264Streamer" where
  "streamer_new s =
    \<lparr>strm_session = s, strm_parser = H264Parser_new, latest_sps = None, latest_pps = None, vcl_buf = [],
     pending_keyframe = False, codec_sent = False, frames_sent = 0, bytes_sent = 0\<rparr>"

text \<open>The parameter sets that go before a key frame.\<close>

definition set_video_size :: "bytes \<Rightarrow> MirrorSession \<Rightarrow> MirrorSession" where
  "set_video_size sps s =
    (case sps_dimensions sps of
       Some (w, h') \<Rightarrow> s\<lparr>video_width := w, video_height := h'\<rparr>
     | None \<Rightarrow> s)"

definition flush_codec :: "u64 \<Rightarrow> H264Streamer \<Rightarrow> H264Streamer res" where
  "flush_codec ts st =
    (if pending_keyframe st \<and> \<not> codec_sent st then
       (case (latest_sps st, latest_pps st) of
          (Some sps, Some pps) \<Rightarrow>
            (let s = set_video_size sps (strm_session st) in
             rbind (build_avcc_config sps pps) (\<lambda>avcc.
               Inr (st\<lparr>strm_session := send_codec_frame avcc ts s,
                       bytes_sent := bytes_sent st + of_nat (length avcc), codec_sent := True\<rparr>)))
        | _ \<Rightarrow> Inr st)
     else Inr st)"

definition flush_vcl :: "crypto \<Rightarrow> (u64 \<Rightarrow> nat \<times> nat) \<Rightarrow> H264Streamer \<Rightarrow> H264Streamer res" where
  "flush_vcl C clk st =
    (if vcl_buf st = [] then Inr st
     else
       let (t, elapsed) = clk (frames_sent st);
           ((ts, timeline), s) = frame_time_now t elapsed (strm_session st)
       in rbind (flush_codec ts (st\<lparr>strm_session := s\<rparr>)) (\<lambda>st.
            let frame = vcl_buf st
            in Inr (st\<lparr>vcl_buf := [],
                       strm_session := send_frame C frame (pending_keyframe st) ts timeline (strm_session st),
                       bytes_sent := bytes_sent st + of_nat (length frame),
                       frames_sent := frames_sent st + 1,
                       pending_keyframe := False, codec_sent := False\<rparr>)))"

text \<open>One unit of the stream; \<open>append_slice\<close> is the last statement of both slice branches.\<close>

definition append_slice :: "bytes \<Rightarrow> H264Streamer \<Rightarrow> H264Streamer" where
  "append_slice raw st = st\<lparr>vcl_buf := vcl_buf st @ avcc_wrap raw\<rparr>"

definition process_nal :: "crypto \<Rightarrow> (u64 \<Rightarrow> nat \<times> nat) \<Rightarrow> bytes \<Rightarrow> H264Streamer \<Rightarrow> H264Streamer res" where
  "process_nal C clk nal st =
    (let nt = nal_type nal; raw = strip_start_code nal in
     if nt = 9 then flush_vcl C clk st
     else if nt = 7 then rbind (flush_vcl C clk st) (\<lambda>st. Inr (st\<lparr>latest_sps := Some raw\<rparr>))
     else if nt = 8 then Inr (st\<lparr>latest_pps := Some raw\<rparr>)
     else if nt = 6 then Inr st
     else if nt = 5 then
       rbind (if vcl_buf st \<noteq> [] \<and> \<not> pending_keyframe st then flush_vcl C clk st else Inr st) (\<lambda>st.
         Inr (append_slice raw (st\<lparr>pending_keyframe := True\<rparr>)))
     else if 1 \<le> nt \<and> nt \<le> 4 then
       rbind (if vcl_buf st \<noteq> [] \<and> pending_keyframe st then flush_vcl C clk st else Inr st) (\<lambda>st.
       rbind (if vcl_buf st \<noteq> [] \<and> \<not> pending_keyframe st \<and> is_first_slice raw then flush_vcl C clk st else Inr st) (\<lambda>st.
         Inr (append_slice raw st)))
     else Inr st)"

fun process_nals :: "crypto \<Rightarrow> (u64 \<Rightarrow> nat \<times> nat) \<Rightarrow> bytes list \<Rightarrow> H264Streamer \<Rightarrow> H264Streamer res" where
  "process_nals C clk [] st = Inr st"
| "process_nals C clk (nal # nals) st = rbind (process_nal C clk nal st) (process_nals C clk nals)"

definition streamer_push :: "crypto \<Rightarrow> (u64 \<Rightarrow> nat \<times> nat) \<Rightarrow> bytes \<Rightarrow> H264Streamer \<Rightarrow> H264Streamer res" where
  "streamer_push C clk annex_b st =
    (let (nals, p) = push (strm_parser st) annex_b in process_nals C clk nals (st\<lparr>strm_parser := p\<rparr>))"

definition flush_idle :: "crypto \<Rightarrow> (u64 \<Rightarrow> nat \<times> nat) \<Rightarrow> H264Streamer \<Rightarrow> H264Streamer res" where
  "flush_idle C clk st =
    (let (tail, p) = flush (strm_parser st)
     in rbind (process_nals C clk tail (st\<lparr>strm_parser := p\<rparr>)) (flush_vcl C clk))"

text \<open>The pushes of a run, one for each buffer of the encoder.\<close>

fun push_buffers :: "crypto \<Rightarrow> (u64 \<Rightarrow> nat \<times> nat) \<Rightarrow> bytes list \<Rightarrow> H264Streamer \<Rightarrow> H264Streamer res" where
  "push_buffers C clk [] st = Inr st"
| "push_buffers C clk (b # bs) st = rbind (streamer_push C clk b st) (push_buffers C clk bs)"

lemma process_nals_append:
  "process_nals C clk (xs @ ys) st = rbind (process_nals C clk xs st) (process_nals C clk ys)"
proof (induction xs arbitrary: st)
  case (Cons x xs)
  then show ?case by (cases "process_nal C clk x st") simp_all
qed simp

text \<open>The units are gathered without a look at the parser, so the pushes of a run are one pass over its units.\<close>

definition with_parser :: "H264Parser \<Rightarrow> H264Streamer res \<Rightarrow> H264Streamer res" where
  "with_parser p r = rbind r (\<lambda>st. Inr (st\<lparr>strm_parser := p\<rparr>))"

lemma with_parser_simps [simp]:
  "with_parser p (Inr st) = Inr (st\<lparr>strm_parser := p\<rparr>)" "with_parser p (Inl e) = Inl e"
  "with_parser p (with_parser q r) = with_parser p r"
  by (cases r; simp add: with_parser_def)+

lemma with_parser_rbind:
  "(\<And>st. f (st\<lparr>strm_parser := p\<rparr>) = with_parser p (f st)) \<Longrightarrow> rbind (with_parser p r) f = with_parser p (rbind r f)"
  by (cases r) simp_all

lemma flush_codec_parser:
  "flush_codec ts (st\<lparr>strm_parser := p, strm_session := s\<rparr>) = with_parser p (flush_codec ts (st\<lparr>strm_session := s\<rparr>))"
  by (simp add: flush_codec_def with_parser_def rbind_def Let_def split: option.split sum.split)

lemma flush_vcl_parser: "flush_vcl C clk (st\<lparr>strm_parser := p\<rparr>) = with_parser p (flush_vcl C clk st)"
  by (simp add: flush_vcl_def flush_codec_parser with_parser_def rbind_def Let_def split: prod.split sum.split)

lemma process_nal_parser: "process_nal C clk n (st\<lparr>strm_parser := p\<rparr>) = with_parser p (process_nal C clk n st)"
  by (simp add: process_nal_def Let_def flush_vcl_parser append_slice_def rbind_def with_parser_def split: sum.split)

lemma process_nals_parser: "process_nals C clk ns (st\<lparr>strm_parser := p\<rparr>) = with_parser p (process_nals C clk ns st)"
  by (induction ns arbitrary: st) (simp_all add: process_nal_parser with_parser_rbind)

lemma push_buffers_units:
  "push_buffers C clk bs st =
    (let (nals, p) = push_all (strm_parser st) bs in with_parser p (process_nals C clk nals st))"
proof (induction bs arbitrary: st)
  case (Cons b bs)
  obtain n1 p1 where 1: "push (strm_parser st) b = (n1, p1)" by force
  obtain n2 p2 where 2: "push_all p1 bs = (n2, p2)" by force
  show ?case
    by (cases "process_nals C clk n1 st")
      (simp_all add: streamer_push_def 1 2 Cons process_nals_parser process_nals_append)
qed simp

subsection \<open>What the receiver reads of it\<close>

text \<open>
  The expected contents of the data connection: the parameter sets before a key frame, and the slices of a frame.
  \<open>conveys\<close> relates them to the messages of a receiver.
\<close>

datatype content =
    Sets bytes bytes
  | Slices bool "bytes list"

definition frame_data :: "bytes list \<Rightarrow> bytes" where
  "frame_data ss = concat (map avcc_wrap ss)"

fun conveys :: "content \<Rightarrow> received_message \<Rightarrow> bool" where
  "conveys (Sets sps pps) (R_codec p ts v d) \<longleftrightarrow>
     build_avcc_config sps pps = Inr p \<and>
     (\<forall>w h'. sps_dimensions sps = Some (w, h') \<longrightarrow> v = (unat w, unat h'))"
| "conveys (Slices k ss) (R_video x kf ts tln) \<longleftrightarrow> kf = k \<and> x = frame_data ss"
| "conveys _ _ \<longleftrightarrow> False"

text \<open>
  From a session \<open>s\<close> to a later one the bytes sent are read as the messages \<open>rs\<close>, whatever
  follows them.
\<close>

definition delivers :: "crypto \<Rightarrow> bytes \<Rightarrow> MirrorSession \<Rightarrow> received_message list \<Rightarrow> MirrorSession \<Rightarrow> bool" where
  "delivers C key s rs s' \<longleftrightarrow> chacha_cipher s = Some key \<and> sizes_ok s \<and> chacha_cipher s' = Some key \<and> sizes_ok s' \<and>
     (\<exists>b. data_conn s' = data_conn s @ b \<and>
        (\<forall>rest. receive_messages C key (chacha_nonce s) (b @ rest) =
           map_option ((@) rs) (receive_messages C key (chacha_nonce s') rest)))"

lemma delivers_same:
  "chacha_cipher s = Some key \<Longrightarrow> sizes_ok s \<Longrightarrow> sizes_ok s' \<Longrightarrow> chacha_cipher s' = chacha_cipher s \<Longrightarrow>
     chacha_nonce s' = chacha_nonce s \<Longrightarrow> data_conn s' = data_conn s \<Longrightarrow> delivers C key s [] s'"
  by (simp add: delivers_def option.map_id0 [unfolded id_def] option.map_ident cong: map_option_cong)

lemma delivers_trans:
  assumes "delivers C key s rs s'" "delivers C key s' rs' s''"
  shows "delivers C key s (rs @ rs') s''"
proof -
  obtain b b' where b: "data_conn s' = data_conn s @ b"
      "\<And>rest. receive_messages C key (chacha_nonce s) (b @ rest) =
         map_option ((@) rs) (receive_messages C key (chacha_nonce s') rest)"
    and b': "data_conn s'' = data_conn s' @ b'"
      "\<And>rest. receive_messages C key (chacha_nonce s') (b' @ rest) =
         map_option ((@) rs') (receive_messages C key (chacha_nonce s'') rest)"
    using assms by (auto simp: delivers_def)
  have "data_conn s'' = data_conn s @ b @ b'" using b(1) b'(1) by simp
  moreover have "receive_messages C key (chacha_nonce s) ((b @ b') @ rest) =
      map_option ((@) (rs @ rs')) (receive_messages C key (chacha_nonce s'') rest)" for rest
    using b(2) [of "b' @ rest"] b'(2) [of rest] by (cases "receive_messages C key (chacha_nonce s'') rest") simp_all
  ultimately show ?thesis using assms by (auto simp: delivers_def)
qed

lemma delivers_message:
  assumes "aead_ok C" "chacha_cipher s = Some key" "sizes_ok s" "message_fits m"
  shows "delivers C key s [as_received (fst (sizes s)) (snd (sizes s)) m] (send_message C m s)"
proof -
  note eff = send_message_effect [OF assms(2), of C m]
  have "receive_messages C key (chacha_nonce s) (message_bytes C key m s @ rest) =
      map_option ((@) [as_received (fst (sizes s)) (snd (sizes s)) m])
        (receive_messages C key (chacha_nonce (send_message C m s)) rest)" for rest
    using receive_message [OF assms(1,4,3), of "fst (sizes s)" "snd (sizes s)" key rest] eff(5)
    by (cases "receive_messages C key (chacha_nonce (send_message C m s)) rest") simp_all
  with eff assms(2,3) show ?thesis unfolding delivers_def by blast
qed

text \<open>A session only a receiver reads: from an empty connection on.\<close>

lemma delivers_receive:
  "delivers C key s rs s' \<Longrightarrow> data_conn s = [] \<Longrightarrow> receive_messages C key (chacha_nonce s) (data_conn s') = Some rs"
  by (fastforce simp: delivers_def receive_messages.simps [of C key _ "[]"] dest: spec [of _ "[]"])


subsection \<open>Frames on the data connection\<close>

text \<open>The parameter sets are small enough to be told, in size of picture and of header, and long enough to be read.\<close>

definition sets_ok :: "bytes \<Rightarrow> bytes \<Rightarrow> bool" where
  "sets_ok sps pps \<longleftrightarrow> 4 \<le> length sps \<and> length sps + length pps < 2 ^ 31 \<and>
     (\<forall>w h'. sps_dimensions sps = Some (w, h') \<longrightarrow> unat w < 2 ^ 24 \<and> unat h' < 2 ^ 24)"

definition frame_content :: "(bytes \<times> bytes) option \<Rightarrow> bool \<Rightarrow> bytes list \<Rightarrow> content list" where
  "frame_content sets k ss =
    (case sets of Some (sps, pps) \<Rightarrow> if k then [Sets sps pps] else [] | None \<Rightarrow> []) @ [Slices k ss]"

text \<open>The parameter sets a streamer holds.\<close>

definition sets_held :: "H264Streamer \<Rightarrow> (bytes \<times> bytes) option \<Rightarrow> bool" where
  "sets_held st sets \<longleftrightarrow>
     (case sets of
        None \<Rightarrow> latest_sps st = None \<or> latest_pps st = None
      | Some (sps, pps) \<Rightarrow> latest_sps st = Some sps \<and> latest_pps st = Some pps \<and> sets_ok sps pps)"

lemma sets_held_cong:
  "latest_sps st = latest_sps st' \<Longrightarrow> latest_pps st = latest_pps st' \<Longrightarrow> sets_held st sets = sets_held st' sets"
  by (simp add: sets_held_def split: option.split)

lemma sets_held_update [simp]:
  "sets_held (st\<lparr>strm_session := s\<rparr>) sets = sets_held st sets"
  "sets_held (st\<lparr>strm_parser := p\<rparr>) sets = sets_held st sets"
  "sets_held (st\<lparr>pending_keyframe := b\<rparr>) sets = sets_held st sets"
  "sets_held (st\<lparr>vcl_buf := x\<rparr>) sets = sets_held st sets"
  "sets_held (append_slice raw st) sets = sets_held st sets"
  by (rule sets_held_cong; simp add: append_slice_def)+

lemma frame_time_now_delivers:
  assumes "chacha_cipher s = Some key" "sizes_ok s" "frame_time_now t el s = (tt, s')"
  shows "delivers C key s [] s'"
  using assms
  by (intro delivers_same)
    (auto simp: frame_time_now_def monotonic_frame_time_def Let_def sizes_ok_def split: prod.splits)

lemma build_avcc_length: "build_avcc_config sps pps = Inr p \<Longrightarrow> length p = 15 + length sps + length pps"
  by (auto simp: build_avcc_config_def Let_def split: if_splits)

lemma set_video_size_delivers:
  assumes "chacha_cipher s = Some key" "sizes_ok s" "sets_ok sps pps"
  shows "delivers C key s [] (set_video_size sps s)"
    and "sps_dimensions sps = Some (w, h') \<Longrightarrow> fst (sizes (set_video_size sps s)) = (unat w, unat h')"
  using assms
  by (auto intro!: delivers_same simp: set_video_size_def sizes_ok_def sets_ok_def sizes_def split: option.split)

lemma flush_codec_delivers:
  assumes "aead_ok C" "chacha_cipher (strm_session st) = Some key" "sizes_ok (strm_session st)"
    and "sets_held st sets" "\<not> codec_sent st"
  shows "\<exists>st' rs. flush_codec ts st = Inr st' \<and> delivers C key (strm_session st) rs (strm_session st') \<and>
    list_all2 conveys (case sets of Some (sps, pps) \<Rightarrow> if pending_keyframe st then [Sets sps pps] else [] | None \<Rightarrow> []) rs \<and>
    (vcl_buf st', pending_keyframe st', latest_sps st', latest_pps st', strm_parser st', frames_sent st') =
    (vcl_buf st, pending_keyframe st, latest_sps st, latest_pps st, strm_parser st, frames_sent st)"
proof (cases "pending_keyframe st \<and> sets \<noteq> None")
  case False
  then have "flush_codec ts st = Inr st"
    using assms(4) by (auto simp: flush_codec_def sets_held_def split: option.splits prod.splits)
  moreover have "delivers C key (strm_session st) [] (strm_session st)"
    using assms by (intro delivers_same) simp_all
  ultimately show ?thesis using False by (intro exI [of _ st] exI [of _ "[]"]) (auto split: option.split)
next
  case True
  then obtain sps pps where sets: "sets = Some (sps, pps)" "latest_sps st = Some sps" "latest_pps st = Some pps"
      "sets_ok sps pps" "pending_keyframe st"
    using assms(4) by (auto simp: sets_held_def split: option.splits)
  define s where "s = set_video_size sps (strm_session st)"
  obtain avcc where avcc: "build_avcc_config sps pps = Inr avcc"
    using sets(4) by (auto simp: build_avcc_config_def sets_ok_def Let_def)
  note vid = set_video_size_delivers [OF assms(2,3) sets(4), folded s_def]
  then have s: "chacha_cipher s = Some key" "sizes_ok s" by (auto simp: delivers_def)
  have "message_fits (Codec avcc ts)" using build_avcc_length [OF avcc] sets(4) by (simp add: sets_ok_def)
  from delivers_trans [OF vid(1) delivers_message [OF assms(1) s this]]
  have "delivers C key (strm_session st) [R_codec avcc ts (fst (sizes s)) (snd (sizes s))] (send_codec_frame avcc ts s)"
    by simp
  then show ?thesis
    using sets avcc vid(2) assms(5) by (auto simp: flush_codec_def s_def [symmetric] Let_def)
qed

text \<open>A streamer that has gathered the slices \<open>ss\<close> of a frame and holds the given parameter sets.\<close>

definition gathers :: "bytes \<Rightarrow> H264Streamer \<Rightarrow> (bytes \<times> bytes) option \<Rightarrow> bool \<Rightarrow> bytes list \<Rightarrow> bool" where
  "gathers key st sets k ss \<longleftrightarrow> vcl_buf st = frame_data ss \<and> pending_keyframe st = (k \<and> ss \<noteq> []) \<and> \<not> codec_sent st \<and>
     sets_held st sets \<and> length (frame_data ss) + 16 < 2 ^ 32 \<and>
     chacha_cipher (strm_session st) = Some key \<and> sizes_ok (strm_session st)"

definition held_content :: "(bytes \<times> bytes) option \<Rightarrow> bool \<Rightarrow> bytes list \<Rightarrow> content list" where
  "held_content sets k ss = (if ss = [] then [] else frame_content sets k ss)"

lemma avcc_wrap_not_Nil [simp]: "avcc_wrap raw \<noteq> []"
proof
  assume "avcc_wrap raw = []"
  then have "length (avcc_wrap raw) = 0" by simp
  then show False by (simp add: avcc_wrap_def)
qed

lemma frame_data_Nil_iff [simp]: "frame_data ss = [] \<longleftrightarrow> ss = []"
  by (cases ss) (auto simp: frame_data_def)

lemma held_Nil [simp]: "held_content sets k [] = []"
  by (simp add: held_content_def)

text \<open>A step of the streamer that succeeds and delivers given contents.\<close>

definition steps :: "crypto \<Rightarrow> bytes \<Rightarrow> (H264Streamer \<Rightarrow> H264Streamer res) \<Rightarrow> H264Streamer \<Rightarrow> content list \<Rightarrow> H264Streamer \<Rightarrow> bool" where
  "steps C key f st cs st' \<longleftrightarrow> f st = Inr st' \<and>
     (\<exists>rs. delivers C key (strm_session st) rs (strm_session st') \<and> list_all2 conveys cs rs)"

lemma steps_rbind:
  "steps C key f st cs st' \<Longrightarrow> steps C key g st' cs' st'' \<Longrightarrow> steps C key (\<lambda>st. rbind (f st) g) st (cs @ cs') st''"
  unfolding steps_def using delivers_trans list_all2_appendI by (metis rbind_simps(2))

lemma steps_silent:
  "f st = Inr st' \<Longrightarrow> strm_session st' = strm_session st \<Longrightarrow> gathers key st sets k ss \<Longrightarrow> steps C key f st [] st'"
  unfolding steps_def gathers_def by (auto intro!: exI [of _ "[]"] delivers_same)

lemma flush_vcl_steps:
  assumes "aead_ok C" and g: "gathers key st sets k ss"
  shows "\<exists>st'. steps C key (flush_vcl C clk) st (held_content sets k ss) st' \<and> gathers key st' sets False [] \<and>
    strm_parser st' = strm_parser st"
proof (cases "ss = []")
  case True
  then have "flush_vcl C clk st = Inr st" "gathers key st sets False []"
    using g by (simp_all add: flush_vcl_def gathers_def)
  with g True show ?thesis by (auto intro: steps_silent)
next
  case False
  obtain t el where c: "clk (frames_sent st) = (t, el)" by force
  obtain ts tln s where f: "frame_time_now t el (strm_session st) = ((ts, tln), s)" by (metis prod.exhaust)
  have d0: "delivers C key (strm_session st) [] s"
    using g f by (intro frame_time_now_delivers) (simp_all add: gathers_def)
  let ?st = "st\<lparr>strm_session := s\<rparr>"
  have "chacha_cipher (strm_session ?st) = Some key" "sizes_ok (strm_session ?st)" using d0 by (auto simp: delivers_def)
  moreover have "sets_held ?st sets" "\<not> codec_sent ?st" using g by (simp_all add: gathers_def)
  moreover have k: "pending_keyframe ?st = k" using g False by (simp add: gathers_def)
  ultimately obtain u rs where u: "flush_codec ts ?st = Inr u" "delivers C key s rs (strm_session u)"
      "list_all2 conveys (case sets of Some (sps, pps) \<Rightarrow> if k then [Sets sps pps] else [] | None \<Rightarrow> []) rs"
      "vcl_buf u = frame_data ss" "pending_keyframe u = k" "latest_sps u = latest_sps st" "latest_pps u = latest_pps st"
      "strm_parser u = strm_parser st"
    using flush_codec_delivers [OF assms(1), of ?st key sets ts, unfolded k] g by (auto simp: gathers_def)
  define v where "v = send_frame C (frame_data ss) k ts tln (strm_session u)"
  have us: "chacha_cipher (strm_session u) = Some key" "sizes_ok (strm_session u)" using u(2) by (auto simp: delivers_def)
  have "message_fits (Video (frame_data ss) k ts tln)" using g by (simp add: gathers_def)
  from delivers_message [OF assms(1) us this]
  have d: "delivers C key (strm_session u) [R_video (frame_data ss) k ts tln] v" by (simp add: v_def)
  define w where "w = u\<lparr>vcl_buf := [], strm_session := v, bytes_sent := bytes_sent u + of_nat (length (frame_data ss)),
      frames_sent := frames_sent u + 1, pending_keyframe := False, codec_sent := False\<rparr>"
  have "flush_vcl C clk st = Inr w"
    using g False c f u by (simp add: flush_vcl_def gathers_def w_def v_def Let_def)
  moreover have "delivers C key (strm_session st) (rs @ [R_video (frame_data ss) k ts tln]) (strm_session w)"
    using delivers_trans [OF d0 delivers_trans [OF u(2) d]] by (simp add: w_def)
  moreover have "list_all2 conveys (held_content sets k ss) (rs @ [R_video (frame_data ss) k ts tln])"
    using u(3) False by (simp add: held_content_def frame_content_def list_all2_appendI)
  moreover have "gathers key w sets False []" "strm_parser w = strm_parser st"
    using g d u sets_held_cong [of w st sets] by (auto simp: gathers_def w_def frame_data_def delivers_def)
  ultimately show ?thesis unfolding steps_def by blast
qed

subsection \<open>Access units\<close>

text \<open>
  A picture as an encoder writes it, in units with their start codes: a delimiter, parameter sets and SEI units if
  there are any, then the slices.
\<close>

record access_unit =
  delimiter :: "bytes option"
  param_sets :: "(bytes \<times> bytes) option"
  sei_units :: "bytes list"
  key_picture :: bool
  slice_units :: "bytes list"

definition leading_units :: "access_unit \<Rightarrow> bytes list" where
  "leading_units a = (case delimiter a of Some u \<Rightarrow> [u] | None \<Rightarrow> []) @
     (case param_sets a of Some (u, v) \<Rightarrow> [u, v] | None \<Rightarrow> []) @ sei_units a"

definition au_units :: "access_unit \<Rightarrow> bytes list" where
  "au_units a = leading_units a @ slice_units a"

definition raw_slices :: "access_unit \<Rightarrow> bytes list" where
  "raw_slices a = map strip_start_code (slice_units a)"

definition is_slice :: "bool \<Rightarrow> bytes \<Rightarrow> bool" where
  "is_slice k u \<longleftrightarrow> (if k then nal_type u = 5 else 1 \<le> nal_type u \<and> nal_type u \<le> 4)"

text \<open>The first slice of a picture, and no other, says so; the types fit; the frame fits its header.\<close>

definition au_ok :: "access_unit \<Rightarrow> bool" where
  "au_ok a \<longleftrightarrow> slice_units a \<noteq> [] \<and> (\<forall>u \<in> set (slice_units a). is_slice (key_picture a) u) \<and>
     is_first_slice (hd (raw_slices a)) \<and> (\<forall>r \<in> set (tl (raw_slices a)). \<not> is_first_slice r) \<and>
     length (frame_data (raw_slices a)) + 16 < 2 ^ 32 \<and>
     (case delimiter a of Some u \<Rightarrow> nal_type u = 9 | None \<Rightarrow> True) \<and> (\<forall>u \<in> set (sei_units a). nal_type u = 6) \<and>
     (case param_sets a of
        Some (u, v) \<Rightarrow> nal_type u = 7 \<and> nal_type v = 8 \<and> sets_ok (strip_start_code u) (strip_start_code v)
      | None \<Rightarrow> True)"

text \<open>A key picture behind another one is told from it by a delimiter or parameter sets only.\<close>

fun separated :: "bool \<Rightarrow> access_unit list \<Rightarrow> bool" where
  "separated k [] \<longleftrightarrow> True"
| "separated k (a # as) \<longleftrightarrow>
     (k \<and> key_picture a \<longrightarrow> delimiter a \<noteq> None \<or> param_sets a \<noteq> None) \<and> separated (key_picture a) as"

definition last_key :: "bool \<Rightarrow> access_unit list \<Rightarrow> bool" where
  "last_key k as = fold (\<lambda>a _. key_picture a) as k"

lemma last_key_simps [simp]: "last_key k [] = k" "last_key k (a # as) = last_key (key_picture a) as"
    "last_key k (as @ bs) = last_key (last_key k as) bs"
  by (simp_all add: last_key_def)

lemma separated_append: "separated k (as @ bs) \<longleftrightarrow> separated k as \<and> separated (last_key k as) bs"
  by (induction as arbitrary: k) auto

lemma separated_weaken: "separated True as \<Longrightarrow> separated k as"
  by (cases as) auto

definition next_sets :: "(bytes \<times> bytes) option \<Rightarrow> access_unit \<Rightarrow> (bytes \<times> bytes) option" where
  "next_sets sets a = (case param_sets a of Some (u, v) \<Rightarrow> Some (strip_start_code u, strip_start_code v) | None \<Rightarrow> sets)"

fun stream_content :: "(bytes \<times> bytes) option \<Rightarrow> access_unit list \<Rightarrow> content list" where
  "stream_content sets [] = []"
| "stream_content sets (a # as) =
     frame_content (next_sets sets a) (key_picture a) (raw_slices a) @ stream_content (next_sets sets a) as"

subsection \<open>Gathering an access unit\<close>

definition moves :: "crypto \<Rightarrow> bytes \<Rightarrow> (u64 \<Rightarrow> nat \<times> nat) \<Rightarrow> bytes list \<Rightarrow> H264Streamer \<Rightarrow> content list \<Rightarrow> H264Streamer \<Rightarrow> bool" where
  "moves C key clk us st cs st' \<longleftrightarrow>
     steps C key (process_nals C clk us) st cs st' \<and> strm_parser st' = strm_parser st"

lemma moves_append:
  assumes "moves C key clk us st cs st'" "moves C key clk us' st' cs' st''"
  shows "moves C key clk (us @ us') st (cs @ cs') st''"
proof -
  have "process_nals C clk (us @ us') = (\<lambda>st. rbind (process_nals C clk us st) (process_nals C clk us'))"
    by (rule ext) (rule process_nals_append)
  with assms steps_rbind show ?thesis by (auto simp: moves_def)
qed

lemma moves_silent:
  "process_nals C clk us st = Inr st' \<Longrightarrow> strm_session st' = strm_session st \<Longrightarrow> strm_parser st' = strm_parser st \<Longrightarrow>
     gathers key st sets k ss \<Longrightarrow> moves C key clk us st [] st'"
  by (simp add: moves_def steps_silent)

lemma steps_then:
  "steps C key f st cs st' \<Longrightarrow> g st = rbind (f st) h' \<Longrightarrow> h' st' = Inr st'' \<Longrightarrow> strm_session st'' = strm_session st' \<Longrightarrow>
     steps C key g st cs st''"
  by (auto simp: steps_def)

lemma moves_flush:
  assumes "aead_ok C" "gathers key st sets k ss" "process_nals C clk us st = rbind (flush_vcl C clk st) h'"
    and "\<And>st'. gathers key st' sets False [] \<Longrightarrow> \<exists>st''. h' st' = Inr st'' \<and> P st'' \<and>
           strm_session st'' = strm_session st' \<and> strm_parser st'' = strm_parser st'"
  shows "\<exists>st''. moves C key clk us st (held_content sets k ss) st'' \<and> P st''"
proof -
  obtain st' where st': "steps C key (flush_vcl C clk) st (held_content sets k ss) st'" "gathers key st' sets False []"
      "strm_parser st' = strm_parser st"
    using flush_vcl_steps [OF assms(1,2)] by blast
  from assms(4) [OF st'(2)] obtain st'' where "h' st' = Inr st''" "P st''" "strm_session st'' = strm_session st'"
      "strm_parser st'' = strm_parser st'" by blast
  with st' assms(3) steps_then [OF st'(1), of "process_nals C clk us" h' st''] show ?thesis
    by (auto simp: moves_def)
qed

lemma gather_delimiter:
  assumes "aead_ok C" "gathers key st sets k ss" "nal_type u = 9"
  shows "\<exists>st'. moves C key clk [u] st (held_content sets k ss) st' \<and> gathers key st' sets False []"
  using assms by (intro moves_flush [where h' = "process_nals C clk []"]) (simp_all add: process_nal_def Let_def)

lemma gather_sets:
  assumes "aead_ok C" "gathers key st sets k ss" "nal_type u = 7" "nal_type v = 8"
    and "sets_ok (strip_start_code u) (strip_start_code v)"
  shows "\<exists>st'. moves C key clk [u, v] st (held_content sets k ss) st' \<and>
    gathers key st' (Some (strip_start_code u, strip_start_code v)) False []"
  using assms
  by (intro moves_flush [where h' = "\<lambda>st. Inr (st\<lparr>latest_sps := Some (strip_start_code u), latest_pps := Some (strip_start_code v)\<rparr>)"])
    (auto simp: process_nal_def Let_def gathers_def sets_held_def rbind_def split: sum.split)

lemma gather_sei:
  "\<forall>u \<in> set us. nal_type u = 6 \<Longrightarrow> gathers key st sets k ss \<Longrightarrow> moves C key clk us st [] st"
  by (rule moves_silent) (induction us; auto simp: process_nal_def)+

lemma frame_data_append [simp]: "frame_data (ss @ [r]) = frame_data ss @ avcc_wrap r"
  by (simp add: frame_data_def)

lemma frame_data_single [simp]: "frame_data [r] = avcc_wrap r" "frame_data [] = []"
  by (simp_all add: frame_data_def)

lemma slice_types: "is_slice k u \<Longrightarrow> nal_type u \<noteq> 9 \<and> nal_type u \<noteq> 7 \<and> nal_type u \<noteq> 8 \<and> nal_type u \<noteq> 6"
  "is_slice True u \<longleftrightarrow> nal_type u = 5" "is_slice False u \<Longrightarrow> nal_type u \<noteq> 5 \<and> 1 \<le> nal_type u \<and> nal_type u \<le> 4"
  by (auto simp: is_slice_def split: if_splits)

lemma gather_first_slice:
  assumes "aead_ok C" and g: "gathers key st sets k ss" and u: "is_slice k' u" "k \<and> k' \<longrightarrow> ss = []"
    "is_first_slice (strip_start_code u)" "length (avcc_wrap (strip_start_code u)) + 16 < 2 ^ 32"
  shows "\<exists>st'. moves C key clk [u] st (held_content sets k ss) st' \<and> gathers key st' sets k' [strip_start_code u]"
proof (cases k')
  case True
  have "process_nals C clk [u] st =
      rbind (flush_vcl C clk st) (\<lambda>st. Inr (append_slice (strip_start_code u) (st\<lparr>pending_keyframe := True\<rparr>)))"
    using u g True by (cases "ss = []") (auto simp: process_nal_def slice_types(2) flush_vcl_def gathers_def Let_def rbind_def split: sum.split)
  then show ?thesis
    using u True by (intro moves_flush [OF assms(1) g]) (auto simp: gathers_def append_slice_def)
next
  case False
  let ?last = "\<lambda>st. Inr (append_slice (strip_start_code u) st)"
  let ?rest = "if k \<or> ss = [] then (\<lambda>st. rbind (if vcl_buf st \<noteq> [] \<and> \<not> pending_keyframe st \<and>
      is_first_slice (strip_start_code u) then flush_vcl C clk st else Inr st) ?last) else ?last"
  have "process_nals C clk [u] st = rbind (flush_vcl C clk st) ?rest"
    using u g False slice_types(1) [OF u(1)] slice_types(3) [of u]
    by (cases "ss = []") (auto simp: process_nal_def flush_vcl_def gathers_def Let_def rbind_def split: sum.split)
  then show ?thesis
    using u False by (intro moves_flush [OF assms(1) g]) (auto simp: gathers_def append_slice_def)
qed

lemma gather_more_slices:
  assumes "gathers key st sets k ss" "ss \<noteq> []" "\<forall>u \<in> set us. is_slice k u \<and> \<not> is_first_slice (strip_start_code u)"
    and "length (frame_data (ss @ map strip_start_code us)) + 16 < 2 ^ 32"
  shows "\<exists>st'. moves C key clk us st [] st' \<and> gathers key st' sets k (ss @ map strip_start_code us)"
  using assms
proof (induction us arbitrary: st ss)
  case Nil
  then show ?case by (intro exI [of _ st]) (auto intro: moves_silent)
next
  case (Cons u us)
  define r where "r = strip_start_code u"
  define st1 where "st1 = append_slice r st"
  have u: "is_slice k u" "\<not> is_first_slice r" using Cons.prems(3) by (simp_all add: r_def)
  have "process_nals C clk [u] st = Inr st1"
    using Cons.prems(1,2) u slice_types(1) [OF u(1)] slice_types(2,3) [of u]
    by (cases k) (auto simp: process_nal_def gathers_def st1_def r_def append_slice_def Let_def)
  then have m: "moves C key clk [u] st [] st1"
    by (rule moves_silent) (auto simp: st1_def append_slice_def intro: Cons.prems(1))
  have "gathers key st1 sets k (ss @ [r])"
    using Cons.prems(1,2,4) by (simp add: gathers_def st1_def append_slice_def frame_data_def r_def)
  with Cons.IH [of st1 "ss @ [r]"] Cons.prems(3,4) obtain st' where
    "moves C key clk us st1 [] st'" "gathers key st' sets k (ss @ map strip_start_code (u # us))"
    by (auto simp: r_def)
  with moves_append [OF m, of us "[]" st'] show ?case by auto
qed

lemma gather_leading:
  assumes "aead_ok C" "au_ok a" and g: "gathers key st sets k ss"
    and sep: "k \<and> key_picture a \<longrightarrow> delimiter a \<noteq> None \<or> param_sets a \<noteq> None"
  shows "\<exists>st' cs k' ss'. moves C key clk (leading_units a) st cs st' \<and> gathers key st' (next_sets sets a) k' ss' \<and>
    cs @ held_content (next_sets sets a) k' ss' = held_content sets k ss \<and> (k' \<and> key_picture a \<longrightarrow> ss' = [])"
proof -
  define us1 where "us1 = (case delimiter a of Some u \<Rightarrow> [u] | None \<Rightarrow> [])"
  define us2 where "us2 = (case param_sets a of Some (u, v) \<Rightarrow> [u, v] | None \<Rightarrow> [])"
  have sei: "\<forall>u \<in> set (sei_units a). nal_type u = 6" using assms(2) by (simp add: au_ok_def)
  have units: "leading_units a = us1 @ us2 @ sei_units a" by (simp add: leading_units_def us1_def us2_def)
  obtain st1 cs1 k1 ss1 where 1: "moves C key clk us1 st cs1 st1" "gathers key st1 sets k1 ss1"
      "cs1 @ held_content sets k1 ss1 = held_content sets k ss" "k1 \<longrightarrow> k" "delimiter a \<noteq> None \<longrightarrow> ss1 = []"
  proof (cases "delimiter a")
    case None
    then have "moves C key clk us1 st [] st" using g by (auto simp: us1_def intro: moves_silent)
    with that [of "[]" st k ss] g None show thesis by simp
  next
    case (Some u)
    then have "nal_type u = 9" using assms(2) by (simp add: au_ok_def)
    from gather_delimiter [OF assms(1) g this] Some that [of "held_content sets k ss" _ False "[]"] show thesis
      by (auto simp: us1_def)
  qed
  obtain st2 cs2 k2 ss2 where 2: "moves C key clk us2 st1 cs2 st2" "gathers key st2 (next_sets sets a) k2 ss2"
      "cs2 @ held_content (next_sets sets a) k2 ss2 = held_content sets k1 ss1" "k2 \<and> key_picture a \<longrightarrow> ss2 = []"
  proof (cases "param_sets a")
    case None
    then have "moves C key clk us2 st1 [] st1" using 1 by (auto simp: us2_def intro: moves_silent)
    with that [of "[]" st1 k1 ss1] 1 None sep show thesis by (auto simp: next_sets_def)
  next
    case (Some uv)
    then obtain u v where uv: "param_sets a = Some (u, v)" by (cases uv) auto
    then have "nal_type u = 7" "nal_type v = 8" "sets_ok (strip_start_code u) (strip_start_code v)"
      using assms(2) by (simp_all add: au_ok_def)
    from gather_sets [OF assms(1) 1(2) this] uv that [of "held_content sets k1 ss1" _ False "[]"] show thesis
      by (auto simp: us2_def next_sets_def)
  qed
  have "moves C key clk (leading_units a) st (cs1 @ cs2 @ []) st2"
    unfolding units by (rule moves_append [OF 1(1) moves_append [OF 2(1) gather_sei [OF sei 2(2)]]])
  moreover have "(cs1 @ cs2) @ held_content (next_sets sets a) k2 ss2 = held_content sets k ss" using 1(3) 2(3) by simp
  ultimately show ?thesis using 2(2,4) by (metis append_Nil2)
qed

lemma gather_access_unit:
  assumes "aead_ok C" "au_ok a" and g: "gathers key st sets k ss"
    and sep: "k \<and> key_picture a \<longrightarrow> delimiter a \<noteq> None \<or> param_sets a \<noteq> None"
  shows "\<exists>st'. moves C key clk (au_units a) st (held_content sets k ss) st' \<and>
    gathers key st' (next_sets sets a) (key_picture a) (raw_slices a)"
proof -
  obtain st1 cs k' ss' where 1: "moves C key clk (leading_units a) st cs st1" "gathers key st1 (next_sets sets a) k' ss'"
      "cs @ held_content (next_sets sets a) k' ss' = held_content sets k ss" "k' \<and> key_picture a \<longrightarrow> ss' = []"
    using gather_leading [OF assms] by blast
  obtain u us where us: "slice_units a = u # us" using assms(2) by (cases "slice_units a") (auto simp: au_ok_def)
  have "is_slice (key_picture a) u" "is_first_slice (strip_start_code u)" "length (avcc_wrap (strip_start_code u)) + 16 < 2 ^ 32"
    using assms(2) us by (auto simp: au_ok_def raw_slices_def frame_data_def)
  from gather_first_slice [OF assms(1) 1(2) this(1) 1(4) this(2,3)] obtain st2 where
    2: "moves C key clk [u] st1 (held_content (next_sets sets a) k' ss') st2"
      "gathers key st2 (next_sets sets a) (key_picture a) [strip_start_code u]" by blast
  have "\<forall>x \<in> set us. is_slice (key_picture a) x \<and> \<not> is_first_slice (strip_start_code x)"
    "length (frame_data ([strip_start_code u] @ map strip_start_code us)) + 16 < 2 ^ 32"
    using assms(2) us by (auto simp: au_ok_def raw_slices_def)
  from gather_more_slices [OF 2(2) _ this] obtain st3 where
    3: "moves C key clk us st2 [] st3" "gathers key st3 (next_sets sets a) (key_picture a) (raw_slices a)"
    by (auto simp: raw_slices_def us)
  have "moves C key clk (leading_units a @ [u] @ us) st (cs @ held_content (next_sets sets a) k' ss' @ []) st3"
    by (rule moves_append [OF 1(1) moves_append [OF 2(1) 3(1)]])
  with 1(3) 3(2) us show ?thesis by (auto simp: au_units_def)
qed

lemma gather_stream:
  assumes "aead_ok C"
  shows "\<forall>a \<in> set as. au_ok a \<Longrightarrow> separated k as \<Longrightarrow> gathers key st sets k ss \<Longrightarrow>
    \<exists>st' cs k' ss'. moves C key clk (concat (map au_units as)) st cs st' \<and>
      gathers key st' (fold (\<lambda>a sets. next_sets sets a) as sets) k' ss' \<and> k' = last_key k as \<and>
      cs @ held_content (fold (\<lambda>a sets. next_sets sets a) as sets) k' ss' = held_content sets k ss @ stream_content sets as"
proof (induction as arbitrary: st sets k ss)
  case Nil
  then show ?case
    by (intro exI [of _ st] exI [of _ "[]"] exI [of _ k] exI [of _ ss]) (auto intro: moves_silent)
next
  case (Cons a as)
  have a: "au_ok a" "\<forall>b \<in> set as. au_ok b" "separated (key_picture a) as"
    "k \<and> key_picture a \<longrightarrow> delimiter a \<noteq> None \<or> param_sets a \<noteq> None" using Cons.prems by auto
  obtain st1 where 1: "moves C key clk (au_units a) st (held_content sets k ss) st1"
      "gathers key st1 (next_sets sets a) (key_picture a) (raw_slices a)"
    using gather_access_unit [OF assms a(1) Cons.prems(3) a(4), of clk] by blast
  from Cons.IH [OF a(2,3) 1(2)] obtain st' cs k' ss' where
    2: "moves C key clk (concat (map au_units as)) st1 cs st'"
      "gathers key st' (fold (\<lambda>a sets. next_sets sets a) as (next_sets sets a)) k' ss'"
      "k' = last_key (key_picture a) as"
      "cs @ held_content (fold (\<lambda>a sets. next_sets sets a) as (next_sets sets a)) k' ss' = held_content (next_sets sets a) (key_picture a) (raw_slices a) @
         stream_content (next_sets sets a) as" by blast
  have "raw_slices a \<noteq> []" using Cons.prems(1) by (simp add: au_ok_def raw_slices_def)
  with 2 moves_append [OF 1(1) 2(1)] show ?case
    by (intro exI [of _ st'] exI [of _ "held_content sets k ss @ cs"] exI [of _ k'] exI [of _ ss'])
      (simp add: held_content_def)
qed

subsection \<open>The whole stream\<close>

lemma gathers_new:
  "chacha_cipher s = Some key \<Longrightarrow> sizes_ok s \<Longrightarrow> gathers key (streamer_new s) None False []"
  by (simp add: gathers_def streamer_new_def sets_held_def)

lemma run_of_streamer:
  assumes "push_all (strm_parser st0) bs = (us, p)" "flush p = ([u], p')"
    and "process_nals C clk (us @ [u]) st0 = Inr st"
  shows "rbind (push_buffers C clk bs st0) (flush_idle C clk) =
    rbind (flush_vcl C clk st) (\<lambda>st. Inr (st\<lparr>strm_parser := p'\<rparr>))"
proof -
  obtain st1 where st1: "process_nals C clk us st0 = Inr st1" "process_nal C clk u st1 = Inr st"
    using assms(3) by (cases "process_nals C clk us st0") (auto simp: process_nals_append rbind_Inr_iff)
  then have "push_buffers C clk bs st0 = Inr (st1\<lparr>strm_parser := p\<rparr>)"
    using assms(1) by (simp add: push_buffers_units)
  moreover have "process_nals C clk [u] (st1\<lparr>strm_parser := p'\<rparr>) = Inr (st\<lparr>strm_parser := p'\<rparr>)"
    using st1(2) by (simp only: process_nals_parser) simp
  ultimately show ?thesis
    using assms(2) by (simp add: flush_idle_def flush_vcl_parser with_parser_def)
qed

text \<open>
  A stretch of pictures and the buffers that carry it; behind it the desktop is idle, so the streamer is flushed.
\<close>

definition stretch_ok :: "access_unit list \<times> bytes list \<Rightarrow> bool" where
  "stretch_ok x = (case x of (as, bs) \<Rightarrow>
     as \<noteq> [] \<and> (\<forall>a \<in> set as. au_ok a \<and> (\<forall>u \<in> set (au_units a). wf_unit u)) \<and> separated False as \<and>
     concat bs = concat (concat (map au_units as)))"

fun run_stretches :: "crypto \<Rightarrow> (u64 \<Rightarrow> nat \<times> nat) \<Rightarrow> bytes list list \<Rightarrow> H264Streamer \<Rightarrow> H264Streamer res" where
  "run_stretches C clk [] st = Inr st"
| "run_stretches C clk (bs # rest) st =
     rbind (rbind (push_buffers C clk bs st) (flush_idle C clk)) (run_stretches C clk rest)"

lemma stream_content_append:
  "stream_content sets (as @ bs) = stream_content sets as @ stream_content (fold (\<lambda>a sets. next_sets sets a) as sets) bs"
  by (induction as arbitrary: sets) simp_all

lemma stretch_delivered:
  assumes "aead_ok C" "stretch_ok (as, bs)" and g: "gathers key st0 sets False []" "strm_parser st0 = H264Parser_new"
  shows "\<exists>st. steps C key (\<lambda>st. rbind (push_buffers C clk bs st) (flush_idle C clk)) st0 (stream_content sets as) st \<and>
    gathers key st (fold (\<lambda>a sets. next_sets sets a) as sets) False [] \<and> strm_parser st = H264Parser_new"
proof -
  let ?us = "concat (map au_units as)"
  note as = assms(2) [unfolded stretch_ok_def prod.case]
  have "au_units (last as) \<noteq> []" using as by (auto simp: au_units_def au_ok_def)
  then have "?us \<noteq> []" using as by (auto intro: last_in_set)
  then obtain us u where us: "?us = us @ [u]" by (metis append_butlast_last_id)
  have "\<forall>x \<in> set (us @ [u]). wf_unit x" using as by (auto simp flip: us)
  then have wf: "\<forall>x \<in> set us. wf_unit x" "wf_unit u" by simp_all
  have p: "push_all (strm_parser st0) bs = (us, \<lparr>buf = u\<rparr>)"
    unfolding g(2) using wf as us by (intro push_all_wf) simp_all
  have "\<forall>a \<in> set as. au_ok a" "separated False as" using as by blast+
  from gather_stream [OF assms(1) this g(1), of clk] obtain st cs k ss where
    1: "moves C key clk (us @ [u]) st0 cs st" "gathers key st (fold (\<lambda>a sets. next_sets sets a) as sets) k ss"
      "cs @ held_content (fold (\<lambda>a sets. next_sets sets a) as sets) k ss = stream_content sets as" by (auto simp: us)
  obtain st' where 2: "steps C key (flush_vcl C clk) st (held_content (fold (\<lambda>a sets. next_sets sets a) as sets) k ss) st'"
      "gathers key st' (fold (\<lambda>a sets. next_sets sets a) as sets) False []"
    using flush_vcl_steps [OF assms(1) 1(2)] by blast
  define w where "w = st'\<lparr>strm_parser := H264Parser_new\<rparr>"
  have "process_nals C clk (us @ [u]) st0 = Inr st" using 1(1) by (simp add: moves_def steps_def)
  from run_of_streamer [OF p flush_wf [OF wf(2)] this]
  have run: "rbind (push_buffers C clk bs st0) (flush_idle C clk) = Inr w"
    using 2(1) by (simp add: steps_def H264Parser_new_def w_def)
  have "steps C key (\<lambda>st. rbind (process_nals C clk (us @ [u]) st) (flush_vcl C clk)) st0 (stream_content sets as) st'"
    using 1(1) 2(1) unfolding moves_def 1(3) [symmetric] by (intro steps_rbind) simp_all
  then have "steps C key (\<lambda>st. rbind (push_buffers C clk bs st) (flush_idle C clk)) st0 (stream_content sets as) w"
    using run by (auto simp: steps_def w_def)
  moreover have "gathers key w (fold (\<lambda>a sets. next_sets sets a) as sets) False []"
    using 2(2) by (simp add: gathers_def w_def)
  ultimately show ?thesis by (auto simp: w_def)
qed

lemma stretches_delivered:
  assumes "aead_ok C"
  shows "\<forall>x \<in> set xs. stretch_ok x \<Longrightarrow> gathers key st0 sets False [] \<Longrightarrow> strm_parser st0 = H264Parser_new \<Longrightarrow>
    \<exists>st. steps C key (run_stretches C clk (map snd xs)) st0 (stream_content sets (concat (map fst xs))) st \<and>
      vcl_buf st = [] \<and> strm_parser st = H264Parser_new"
proof (induction xs arbitrary: st0 sets)
  case Nil
  have "steps C key Inr st0 [] st0"
    by (rule steps_silent [OF _ _ Nil.prems(2)]) simp_all
  with Nil.prems show ?case by (auto simp: gathers_def)
next
  case (Cons x xs)
  obtain as bs where x: "x = (as, bs)" by (cases x) auto
  then have "stretch_ok (as, bs)" using Cons.prems(1) by simp
  from stretch_delivered [OF assms this Cons.prems(2,3)] obtain st1 where
    1: "steps C key (\<lambda>st. rbind (push_buffers C clk bs st) (flush_idle C clk)) st0 (stream_content sets as) st1"
      "gathers key st1 (fold (\<lambda>a sets. next_sets sets a) as sets) False []" "strm_parser st1 = H264Parser_new" by blast
  from Cons.IH [OF _ 1(2,3)] Cons.prems(1) obtain st where
    2: "steps C key (run_stretches C clk (map snd xs)) st1
        (stream_content (fold (\<lambda>a sets. next_sets sets a) as sets) (concat (map fst xs))) st"
      "vcl_buf st = []" "strm_parser st = H264Parser_new" by auto
  have "run_stretches C clk (map snd (x # xs)) =
      (\<lambda>st. rbind (rbind (push_buffers C clk bs st) (flush_idle C clk)) (run_stretches C clk (map snd xs)))"
    by (rule ext) (simp add: x)
  with steps_rbind [OF 1(1) 2(1)] 2(2,3) show ?case by (auto simp: x stream_content_append)
qed

text \<open>From the encoder to the receiver: stretches of pictures, each cut into buffers in any way and followed by
  the flush of an idle desktop, pass through the parser and the streamer onto the encrypted data connection. The run does
  not fail, and the receiver opens exactly one frame for each picture, in order, with the slices of that picture behind
  their lengths and the key frame flag of the picture; each key frame is preceded by one message with the parameter
  sets in force, and there is nothing else. At the end nothing is left in the parser or the streamer.\<close>

theorem pictures_delivered:
  assumes "aead_ok C" "chacha_cipher s = Some key" "data_conn s = []" "sizes_ok s" "\<forall>x \<in> set xs. stretch_ok x"
  shows "\<exists>st rs. run_stretches C clk (map snd xs) (streamer_new s) = Inr st \<and>
    receive_messages C key (chacha_nonce s) (data_conn (strm_session st)) = Some rs \<and>
    list_all2 conveys (stream_content None (concat (map fst xs))) rs \<and>
    strm_parser st = H264Parser_new \<and> vcl_buf st = []"
proof -
  have "strm_parser (streamer_new s) = H264Parser_new" by (simp add: streamer_new_def)
  from stretches_delivered [OF assms(1,5) gathers_new [OF assms(2,4)] this] obtain st where
    "steps C key (run_stretches C clk (map snd xs)) (streamer_new s) (stream_content None (concat (map fst xs))) st"
    "vcl_buf st = []" "strm_parser st = H264Parser_new" by blast
  moreover have "strm_session (streamer_new s) = s" by (simp add: streamer_new_def)
  ultimately show ?thesis using delivers_receive [OF _ assms(3)] by (fastforce simp: steps_def)
qed

text \<open>A key picture with its parameter sets and a picture of two slices in three buffers, then a key picture alone.\<close>

definition demo_key :: access_unit where
  "demo_key =
    \<lparr>delimiter = None, param_sets = Some ([0, 0, 0, 1, 103, 66, 1, 30], [0, 0, 0, 1, 104, 9]), sei_units = [[0, 0, 1, 6, 5]],
     key_picture = True, slice_units = [[0, 0, 0, 1, 101, 0x88, 7]]\<rparr>"

definition demo_delta :: access_unit where
  "demo_delta =
    \<lparr>delimiter = Some [0, 0, 0, 1, 9, 16], param_sets = None, sei_units = [],
     key_picture = False, slice_units = [[0, 0, 0, 1, 65, 0x9a, 5], [0, 0, 1, 65, 0x1a, 6]]\<rparr>"

definition demo_stretches :: "(access_unit list \<times> bytes list) list" where
  "demo_stretches =
    [([demo_key, demo_delta], [[0, 0], [0, 1, 103, 66], [1, 30, 0, 0, 0, 1, 104, 9, 0, 0, 1, 6, 5, 0, 0, 0, 1, 101, 0x88, 7],
        [0, 0, 0, 1, 9, 16, 0, 0, 0, 1, 65, 0x9a, 5, 0, 0, 1, 65, 0x1a, 6]]),
     ([demo_key], [[0, 0, 0, 1, 103, 66, 1, 30, 0, 0, 0, 1, 104, 9, 0, 0, 1, 6, 5, 0, 0, 0, 1, 101, 0x88, 7]])]"

lemma demo_types:
  "nal_type [0, 0, 0, 1, 103, 66, 1, 30] = 7" "nal_type [0, 0, 0, 1, 104, 9] = 8" "nal_type [0, 0, 1, 6, 5] = 6"
  "nal_type [0, 0, 0, 1, 101, 0x88, 7] = 5" "nal_type [0, 0, 0, 1, 9, 16] = 9" "nal_type [0, 0, 0, 1, 65, 0x9a, 5] = 1"
  "nal_type [0, 0, 1, 65, 0x1a, 6] = 1" "sps_dimensions [103, 66, 1, 30] = None"
  by code_simp+

lemma demo_units_ok: "\<forall>a \<in> {demo_key, demo_delta}. au_ok a \<and> (\<forall>u \<in> set (au_units a). wf_unit u)"
proof -
  have "\<forall>a \<in> set [demo_key, demo_delta]. \<forall>u \<in> set (au_units a). wf_unit u" by code_simp
  moreover have "au_ok demo_key" "au_ok demo_delta"
    by (simp_all add: demo_key_def demo_delta_def au_ok_def demo_types is_slice_def raw_slices_def strip_start_code_def
        is_first_slice_def sets_ok_def frame_data_def avcc_wrap_def)
  ultimately show ?thesis by simp
qed

lemma demo_stretches_ok: "\<forall>x \<in> set demo_stretches. stretch_ok x"
proof -
  have "separated False [demo_key, demo_delta]" "separated False [demo_key]" by code_simp+
  moreover have "concat (snd (demo_stretches ! 0)) = concat (concat (map au_units [demo_key, demo_delta]))"
    "concat (snd (demo_stretches ! 1)) = concat (concat (map au_units [demo_key]))"
    by code_simp+
  ultimately show ?thesis using demo_units_ok by (auto simp: demo_stretches_def stretch_ok_def)
qed

theorem pictures_delivered_witness:
  "\<exists>st rs. run_stretches toy_crypto (\<lambda>n. (0, 0)) (map snd demo_stretches) (streamer_new demo_session) = Inr st \<and>
    receive_messages toy_crypto (replicate 32 1) 0 (data_conn (strm_session st)) = Some rs \<and>
    list_all2 conveys [Sets [103, 66, 1, 30] [104, 9], Slices True [[101, 0x88, 7]],
      Slices False [[65, 0x9a, 5], [65, 0x1a, 6]], Sets [103, 66, 1, 30] [104, 9], Slices True [[101, 0x88, 7]]] rs \<and>
    strm_parser st = H264Parser_new \<and> vcl_buf st = []"
proof -
  have "stream_content None (concat (map fst demo_stretches)) =
      [Sets [103, 66, 1, 30] [104, 9], Slices True [[101, 0x88, 7]],
      Slices False [[65, 0x9a, 5], [65, 0x1a, 6]], Sets [103, 66, 1, 30] [104, 9], Slices True [[101, 0x88, 7]]]" by code_simp
  then show ?thesis
    using pictures_delivered [of toy_crypto demo_session "replicate 32 1" demo_stretches "\<lambda>n. (0, 0)"] demo_stretches_ok
    by (simp add: demo_session_def sizes_ok_def)
qed

end
