(* ===== verification/Stream_Loop.thy ===== *)
theory Stream_Loop
  imports Streamer
begin

text \<open>
  The main loop of the mirroring program (\<open>main\<close> of examples/mirror_desktop.rs, from the capture of a frame
  to the teardown): frames are encoded at most at the chosen rate, an idle desktop is flushed once and kept alive by
  heartbeats, and the receiver gets a feedback request every five seconds.

  Capture and encoder are arguments: a pass of the loop is given the outcome of \<open>acquire_frame\<close> and the
  instants it reads the clock at (in nanoseconds), and \<open>encode\<close> is one of the four encoders with its state.
  The loop ends with the list of passes, which stands for Ctrl+C or the time limit. Counters that are only printed are
  left out.
\<close>

subsection \<open>One pass of the loop\<close>

text \<open>A pass: the frame, if any, and each reading of the clock, in the order of the code.\<close>

record 'f pass =
  ps_frame :: "'f option res"
  ps_acquired :: nat
  ps_idle_check :: nat
  ps_heartbeat_check :: nat
  ps_heartbeat_sent :: nat
  ps_feedback_check :: nat
  ps_feedback_answer :: nat
  ps_feedback_sent :: nat

record ('x, 'e) loop_state =
  lp_streamer :: H264Streamer
  lp_encoder :: 'x
  lp_env :: 'e
  last_heartbeat :: nat
  last_feedback :: nat
  last_frame_at :: nat
  idle_flushed :: bool
  last_send :: nat
  st_captured :: u64
  st_encoded :: u64
  st_skipped :: u64

definition frame_period :: "u32 \<Rightarrow> nat" where
  "frame_period fps = 1000000 div unat (max fps 1) * 1000"

text \<open>The instants of the start; subtracting the period from the last of them panics if there is no such instant.\<close>

definition loop_start :: "u32 \<Rightarrow> nat \<Rightarrow> nat \<Rightarrow> nat \<Rightarrow> nat \<Rightarrow> MirrorSession \<Rightarrow> 'x \<Rightarrow> 'e \<Rightarrow> ('x, 'e) loop_state res" where
  "loop_start fps t_heartbeat t_feedback t_frame t_send s x e =
    (if t_send < frame_period fps then Inl Panic
     else Inr \<lparr>lp_streamer = streamer_new s, lp_encoder = x, lp_env = e, last_heartbeat = t_heartbeat,
               last_feedback = t_feedback, last_frame_at = t_frame, idle_flushed = False,
               last_send = t_send - frame_period fps, st_captured = 0, st_encoded = 0, st_skipped = 0\<rparr>)"

text \<open>A frame: encoded and pushed when the period has passed, else skipped.\<close>

definition frame_captured ::
  "crypto \<Rightarrow> (u64 \<Rightarrow> nat \<times> nat) \<Rightarrow> ('f \<Rightarrow> bool \<Rightarrow> 'x \<Rightarrow> bytes res \<times> 'x) \<Rightarrow> nat \<Rightarrow> 'f \<Rightarrow> nat \<Rightarrow> ('x, 'e) loop_state \<Rightarrow>
     ('x, 'e) loop_state res" where
  "frame_captured C clk encode period frame t l =
    (let l = l\<lparr>st_captured := st_captured l + 1\<rparr> in
     if period \<le> t - last_send l then
       (let (r, x) = encode frame (frames_sent (lp_streamer l) = 0) (lp_encoder l); l = l\<lparr>lp_encoder := x\<rparr> in
        rbind r (\<lambda>b.
        rbind (if b \<noteq> [] then streamer_push C clk b (lp_streamer l) else Inr (lp_streamer l)) (\<lambda>st.
          Inr (l\<lparr>lp_streamer := st, st_encoded := st_encoded l + 1, last_send := t, last_frame_at := t,
                 idle_flushed := False\<rparr>))))
     else Inr (l\<lparr>st_skipped := st_skipped l + 1\<rparr>))"

definition no_frame :: "crypto \<Rightarrow> (u64 \<Rightarrow> nat \<times> nat) \<Rightarrow> 'f pass \<Rightarrow> ('x, 'e) loop_state \<Rightarrow> ('x, 'e) loop_state res" where
  "no_frame C clk p l =
    rbind (if 50000000 \<le> ps_idle_check p - last_frame_at l \<and> \<not> idle_flushed l
           then rbind (flush_idle C clk (lp_streamer l)) (\<lambda>st. Inr (l\<lparr>lp_streamer := st, idle_flushed := True\<rparr>))
           else Inr l) (\<lambda>l.
      if 1000000000 \<le> ps_heartbeat_check p - last_heartbeat l
      then (let st = lp_streamer l in
            Inr (l\<lparr>lp_streamer := st\<lparr>strm_session := send_heartbeat (strm_session st)\<rparr>, last_heartbeat := ps_heartbeat_sent p\<rparr>))
      else Inr l)"

definition feedback_due :: "'e rtsp \<Rightarrow> 'f pass \<Rightarrow> ('x, 'e) loop_state \<Rightarrow> ('x, 'e) loop_state res" where
  "feedback_due rtsp p l =
    (if 5000000000 \<le> ps_feedback_check p - last_feedback l then
       (case send_feedback rtsp (ps_feedback_answer p) (strm_session (lp_streamer l), lp_env l) of
          (Inl x, _) \<Rightarrow> Inl x
        | (Inr _, (s, e)) \<Rightarrow>
            Inr (l\<lparr>lp_streamer := (lp_streamer l)\<lparr>strm_session := s\<rparr>, lp_env := e, last_feedback := ps_feedback_sent p\<rparr>))
     else Inr l)"

definition loop_pass ::
  "crypto \<Rightarrow> (u64 \<Rightarrow> nat \<times> nat) \<Rightarrow> ('f \<Rightarrow> bool \<Rightarrow> 'x \<Rightarrow> bytes res \<times> 'x) \<Rightarrow> 'e rtsp \<Rightarrow> nat \<Rightarrow> 'f pass \<Rightarrow> ('x, 'e) loop_state \<Rightarrow>
     ('x, 'e) loop_state res" where
  "loop_pass C clk encode rtsp period p l =
    rbind (ps_frame p) (\<lambda>frame_opt.
    rbind (case frame_opt of
             Some frame \<Rightarrow> frame_captured C clk encode period frame (ps_acquired p) l
           | None \<Rightarrow> no_frame C clk p l) (feedback_due rtsp p))"

fun loop_passes ::
  "crypto \<Rightarrow> (u64 \<Rightarrow> nat \<times> nat) \<Rightarrow> ('f \<Rightarrow> bool \<Rightarrow> 'x \<Rightarrow> bytes res \<times> 'x) \<Rightarrow> 'e rtsp \<Rightarrow> nat \<Rightarrow> 'f pass list \<Rightarrow> ('x, 'e) loop_state \<Rightarrow>
     ('x, 'e) loop_state res" where
  "loop_passes C clk encode rtsp period [] l = Inr l"
| "loop_passes C clk encode rtsp period (p # ps) l =
     rbind (loop_pass C clk encode rtsp period p l) (loop_passes C clk encode rtsp period ps)"

text \<open>The loop, the last flush and the teardown of the session.\<close>

definition mirror_stream ::
  "crypto \<Rightarrow> (u64 \<Rightarrow> nat \<times> nat) \<Rightarrow> ('f \<Rightarrow> bool \<Rightarrow> 'x \<Rightarrow> bytes res \<times> 'x) \<Rightarrow> 'e rtsp \<Rightarrow> nat \<Rightarrow> 'f pass list \<Rightarrow> ('x, 'e) loop_state \<Rightarrow>
     ('x, 'e) loop_state res" where
  "mirror_stream C clk encode rtsp period ps l =
    rbind (loop_passes C clk encode rtsp period ps l) (\<lambda>l.
    rbind (flush_idle C clk (lp_streamer l)) (\<lambda>st.
      let (s, e) = teardown rtsp (strm_session st, lp_env l)
      in Inr (l\<lparr>lp_streamer := st\<lparr>strm_session := s\<rparr>, lp_env := e\<rparr>)))"

subsection \<open>The unit that is still in the parser\<close>

text \<open>The last unit of a picture is a slice: the first of its frame, or a further one.\<close>

definition awaits ::
  "bytes \<Rightarrow> H264Streamer \<Rightarrow> bytes \<Rightarrow> (bytes \<times> bytes) option \<Rightarrow> bool \<Rightarrow> bytes list \<Rightarrow> content list \<Rightarrow> bool" where
  "awaits key st u sets k ss owed \<longleftrightarrow> is_slice k u \<and> length (frame_data ss) + 16 < 2 ^ 32 \<and>
     (\<exists>k0 ss0. gathers key st sets k0 ss0 \<and>
        (is_first_slice (strip_start_code u) \<and> (k0 \<and> k \<longrightarrow> ss0 = []) \<and> ss = [strip_start_code u] \<and>
           owed = held_content sets k0 ss0 \<or>
         \<not> is_first_slice (strip_start_code u) \<and> ss0 \<noteq> [] \<and> k0 = k \<and> ss = ss0 @ [strip_start_code u] \<and> owed = []))"

lemma awaits_step:
  assumes "aead_ok C" "awaits key st u sets k ss owed"
  shows "\<exists>st'. moves C key clk [u] st owed st' \<and> gathers key st' sets k ss"
  using assms(2) gather_first_slice [OF assms(1), of key st sets _ _ k u clk]
    gather_more_slices [of key st sets k _ "[u]" C clk]
  by (fastforce simp: awaits_def)

lemma gathers_session:
  "gathers key st sets k ss \<Longrightarrow> chacha_cipher s = Some key \<Longrightarrow> sizes_ok s \<Longrightarrow> gathers key (st\<lparr>strm_session := s\<rparr>) sets k ss"
  by (simp add: gathers_def)

lemma awaits_session:
  "awaits key st u sets k ss owed \<Longrightarrow> chacha_cipher s = Some key \<Longrightarrow> sizes_ok s \<Longrightarrow>
     awaits key (st\<lparr>strm_session := s\<rparr>) u sets k ss owed"
  unfolding awaits_def using gathers_session by blast

text \<open>All units of a picture but the last, and all units of a stretch of pictures but the last.\<close>

lemma gather_open_unit:
  assumes "aead_ok C" "au_ok a" "gathers key st sets k ss"
    and "k \<and> key_picture a \<longrightarrow> delimiter a \<noteq> None \<or> param_sets a \<noteq> None"
  shows "\<exists>st' cs owed. moves C key clk (butlast (au_units a)) st cs st' \<and>
    awaits key st' (last (au_units a)) (next_sets sets a) (key_picture a) (raw_slices a) owed \<and>
    cs @ owed = held_content sets k ss"
proof -
  obtain st1 cs k' ss' where 1: "moves C key clk (leading_units a) st cs st1" "gathers key st1 (next_sets sets a) k' ss'"
      "cs @ held_content (next_sets sets a) k' ss' = held_content sets k ss" "k' \<and> key_picture a \<longrightarrow> ss' = []"
    using gather_leading [OF assms] by blast
  obtain vs u where vs: "slice_units a = vs @ [u]"
    using assms(2) by (cases "slice_units a" rule: rev_cases) (auto simp: au_ok_def)
  have units: "butlast (au_units a) = leading_units a @ vs" "last (au_units a) = u"
    by (simp_all add: au_units_def vs butlast_append)
  have u: "is_slice (key_picture a) u" "length (frame_data (raw_slices a)) + 16 < 2 ^ 32"
    using assms(2) by (auto simp: au_ok_def vs)
  show ?thesis
  proof (cases vs)
    case Nil
    then have "is_first_slice (strip_start_code u)" using assms(2) by (simp add: au_ok_def raw_slices_def vs)
    with 1 u Nil vs units show ?thesis
      by (intro exI [of _ st1] exI [of _ cs] exI [of _ "held_content (next_sets sets a) k' ss'"])
        (auto simp: awaits_def raw_slices_def)
  next
    case (Cons v vs')
    have "is_slice (key_picture a) v" "is_first_slice (strip_start_code v)"
      "length (avcc_wrap (strip_start_code v)) + 16 < 2 ^ 32"
      using assms(2) by (auto simp: au_ok_def raw_slices_def vs Cons frame_data_def)
    from gather_first_slice [OF assms(1) 1(2) this(1) 1(4) this(2,3)] obtain st2 where
      2: "moves C key clk [v] st1 (held_content (next_sets sets a) k' ss') st2"
        "gathers key st2 (next_sets sets a) (key_picture a) [strip_start_code v]" by blast
    have "\<forall>x \<in> set vs'. is_slice (key_picture a) x \<and> \<not> is_first_slice (strip_start_code x)"
      "length (frame_data ([strip_start_code v] @ map strip_start_code vs')) + 16 < 2 ^ 32"
      "\<not> is_first_slice (strip_start_code u)"
      using assms(2) by (auto simp: au_ok_def raw_slices_def vs Cons frame_data_def)
    note more = this
    from gather_more_slices [OF 2(2) _ more(1,2)] obtain st3 where
      3: "moves C key clk vs' st2 [] st3" "gathers key st3 (next_sets sets a) (key_picture a) (map strip_start_code vs)"
      by (auto simp: Cons)
    have "moves C key clk (leading_units a @ [v] @ vs') st (cs @ held_content (next_sets sets a) k' ss' @ []) st3"
      by (rule moves_append [OF 1(1) moves_append [OF 2(1) 3(1)]])
    then have "moves C key clk (butlast (au_units a)) st (held_content sets k ss) st3" using 1(3) by (simp add: units Cons)
    moreover have "awaits key st3 u (next_sets sets a) (key_picture a) (raw_slices a) []"
      using u more(3) 3(2) by (auto simp: awaits_def raw_slices_def vs Cons)
    ultimately show ?thesis by (auto simp: units)
  qed
qed

lemma au_units_not_Nil: "au_ok a \<Longrightarrow> au_units a \<noteq> []"
  by (auto simp: au_ok_def au_units_def)

abbreviation sets_after :: "(bytes \<times> bytes) option \<Rightarrow> access_unit list \<Rightarrow> (bytes \<times> bytes) option" where
  "sets_after sets as \<equiv> fold (\<lambda>a sets. next_sets sets a) as sets"

lemma gather_open_stream:
  assumes "aead_ok C" "\<forall>a \<in> set as. au_ok a" "separated k as" "gathers key st sets k ss" "as \<noteq> []"
  shows "\<exists>st' cs owed ss'. moves C key clk (butlast (concat (map au_units as))) st cs st' \<and>
    awaits key st' (last (concat (map au_units as))) (sets_after sets as) (last_key k as) ss' owed \<and>
    cs @ owed @ held_content (sets_after sets as) (last_key k as) ss' = held_content sets k ss @ stream_content sets as"
proof -
  obtain bs a where as: "as = bs @ [a]" using assms(5) by (cases as rule: rev_cases) auto
  have a: "au_ok a" "\<forall>b \<in> set bs. au_ok b" "separated k bs" "separated (last_key k bs) [a]"
    using assms(2,3) by (auto simp: as separated_append)
  obtain st1 cs1 k1 ss1 where 1: "moves C key clk (concat (map au_units bs)) st cs1 st1"
      "gathers key st1 (sets_after sets bs) k1 ss1" "k1 = last_key k bs"
      "cs1 @ held_content (sets_after sets bs) k1 ss1 = held_content sets k ss @ stream_content sets bs"
    using gather_stream [OF assms(1) a(2,3) assms(4)] by blast
  have "k1 \<and> key_picture a \<longrightarrow> delimiter a \<noteq> None \<or> param_sets a \<noteq> None" using a(4) 1(3) by simp
  from gather_open_unit [OF assms(1) a(1) 1(2) this] obtain st2 cs2 owed where
    2: "moves C key clk (butlast (au_units a)) st1 cs2 st2"
      "awaits key st2 (last (au_units a)) (next_sets (sets_after sets bs) a) (key_picture a) (raw_slices a) owed"
      "cs2 @ owed = held_content (sets_after sets bs) k1 ss1" by blast
  have ne: "au_units a \<noteq> []" using au_units_not_Nil [OF a(1)] .
  let ?last = "held_content (next_sets (sets_after sets bs) a) (key_picture a) (raw_slices a)"
  have "raw_slices a \<noteq> []" using a(1) by (simp add: au_ok_def raw_slices_def)
  then have "stream_content sets as = stream_content sets bs @ ?last"
    by (simp add: as stream_content_append held_content_def)
  moreover have "(cs1 @ cs2) @ owed @ ?last = cs1 @ (cs2 @ owed) @ ?last" by simp
  moreover have "\<dots> = (cs1 @ held_content (sets_after sets bs) k1 ss1) @ ?last" by (simp only: 2(3) append_assoc)
  ultimately have "(cs1 @ cs2) @ owed @ ?last = held_content sets k ss @ stream_content sets as"
    by (simp only: 1(4) append_assoc)
  moreover have "moves C key clk (butlast (concat (map au_units as))) st (cs1 @ cs2) st2"
    using moves_append [OF 1(1) 2(1)] ne by (simp add: as butlast_append)
  ultimately show ?thesis using 2(2) ne
    by (intro exI [of _ st2] exI [of _ "cs1 @ cs2"] exI [of _ owed] exI [of _ "raw_slices a"]) (simp add: as)
qed

subsection \<open>Pictures on their way\<close>

text \<open>
  The pictures of a stream are well formed and told apart. \<open>carries\<close>: of the contents of the pictures
  \<open>cs\<close> has been delivered, the rest is in the streamer and, as one unit at most, in the parser.
\<close>

definition pictures_ok :: "access_unit list \<Rightarrow> bool" where
  "pictures_ok as \<longleftrightarrow> (\<forall>a \<in> set as. au_ok a \<and> (\<forall>u \<in> set (au_units a). wf_unit u)) \<and> separated False as"

definition picture_bytes :: "access_unit list \<Rightarrow> bytes" where
  "picture_bytes as = concat (concat (map au_units as))"

definition in_flight ::
  "bytes \<Rightarrow> H264Streamer \<Rightarrow> (bytes \<times> bytes) option \<Rightarrow> bool \<Rightarrow> bytes list \<Rightarrow> content list \<Rightarrow> bool" where
  "in_flight key st sets k ss rest \<longleftrightarrow>
     strm_parser st = H264Parser_new \<and> gathers key st sets k ss \<and> rest = held_content sets k ss \<or>
     (\<exists>u owed. strm_parser st = \<lparr>buf = u\<rparr> \<and> wf_unit u \<and> awaits key st u sets k ss owed \<and>
        rest = owed @ held_content sets k ss)"

definition carries :: "bytes \<Rightarrow> H264Streamer \<Rightarrow> access_unit list \<Rightarrow> content list \<Rightarrow> bool" where
  "carries key st as cs \<longleftrightarrow> (\<exists>k ss rest. (k \<longrightarrow> last_key False as) \<and>
     in_flight key st (sets_after None as) k ss rest \<and> stream_content None as = cs @ rest)"

lemma carries_new: "chacha_cipher s = Some key \<Longrightarrow> sizes_ok s \<Longrightarrow> carries key (streamer_new s) [] []"
proof -
  assume "chacha_cipher s = Some key" "sizes_ok s"
  then have "in_flight key (streamer_new s) None False [] []"
    using gathers_new [of s key] by (simp add: in_flight_def) (simp add: streamer_new_def)
  then show ?thesis
    unfolding carries_def by (intro exI [of _ False] exI [of _ "[]"]) simp
qed

lemma in_flight_session:
  assumes "in_flight key st sets k ss rest" "chacha_cipher s = Some key" "sizes_ok s"
  shows "in_flight key (st\<lparr>strm_session := s\<rparr>) sets k ss rest"
proof -
  have p: "strm_parser (st\<lparr>strm_session := s\<rparr>) = strm_parser st" by simp
  show ?thesis
    using assms(1) unfolding in_flight_def p
    by (blast intro: gathers_session [OF _ assms(2,3)] awaits_session [OF _ assms(2,3)])
qed

lemma carries_session:
  "carries key st as cs \<Longrightarrow> chacha_cipher s = Some key \<Longrightarrow> sizes_ok s \<Longrightarrow> carries key (st\<lparr>strm_session := s\<rparr>) as cs"
  unfolding carries_def using in_flight_session by blast

lemma push_units:
  assumes "\<forall>x \<in> set us. wf_unit x" "wf_unit u"
  shows "push H264Parser_new (concat us @ u) = (us, \<lparr>buf = u\<rparr>)"
  using push_all_wf [OF assms, of "[concat us @ u]"] by (auto split: prod.splits)

lemma push_behind: "push \<lparr>buf = v\<rparr> b = push H264Parser_new (v @ b)"
  by (simp add: push_def H264Parser_new_def)

lemma steps_parser: "gathers key (st\<lparr>strm_parser := p\<rparr>) sets k ss = gathers key st sets k ss"
  "awaits key (st\<lparr>strm_parser := p\<rparr>) u sets k ss owed = awaits key st u sets k ss owed"
  by (simp_all add: awaits_def gathers_def)

lemma moves_parser:
  "moves C key clk us st cs st' \<Longrightarrow> moves C key clk us (st\<lparr>strm_parser := p\<rparr>) cs (st'\<lparr>strm_parser := p\<rparr>)"
  by (auto simp: moves_def steps_def process_nals_parser)

text \<open>A buffer of the encoder holds whole pictures.\<close>

lemma push_carries:
  assumes "aead_ok C" "carries key st as cs" "pictures_ok (as @ new)" "new \<noteq> []"
  shows "\<exists>st' cs'. steps C key (streamer_push C clk (picture_bytes new)) st cs' st' \<and> carries key st' (as @ new) (cs @ cs')"
proof -
  let ?us = "concat (map au_units new)" and ?sets = "sets_after None as"
  have new: "\<forall>a \<in> set new. au_ok a" "\<forall>u \<in> set ?us. wf_unit u" "separated (last_key False as) new"
    using assms(3) by (auto simp: pictures_ok_def separated_append)
  have "?us \<noteq> []" using new(1) assms(4) au_units_not_Nil by (cases new) auto
  then have us: "?us = butlast ?us @ [last ?us]" by simp
  then have wf: "\<forall>x \<in> set (butlast ?us). wf_unit x" "wf_unit (last ?us)" using new(2) \<open>?us \<noteq> []\<close> last_in_set in_set_butlastD by (metis, metis)
  have b: "picture_bytes new = concat (butlast ?us) @ last ?us" unfolding picture_bytes_def by (subst us) simp
  obtain k ss rest where k: "k \<longrightarrow> last_key False as" and fl: "in_flight key st ?sets k ss rest"
      "stream_content None as = cs @ rest" using assms(2) by (auto simp: carries_def)
  obtain pre owed st1 where 1: "push (strm_parser st) (picture_bytes new) = (pre @ butlast ?us, \<lparr>buf = last ?us\<rparr>)"
      "moves C key clk pre st owed st1" "gathers key st1 ?sets k ss" "rest = owed @ held_content ?sets k ss"
    using fl(1) unfolding in_flight_def
  proof (elim disjE exE conjE)
    assume new: "strm_parser st = H264Parser_new" "gathers key st ?sets k ss" "rest = held_content ?sets k ss"
    have "moves C key clk [] st [] st" by (rule moves_silent [OF _ _ _ new(2)]) simp_all
    with that [of "[]" "[]" st] new push_units [OF wf] b show thesis by simp
  next
    fix u owed
    assume op: "strm_parser st = \<lparr>buf = u\<rparr>" "wf_unit u" "awaits key st u ?sets k ss owed"
      "rest = owed @ held_content ?sets k ss"
    from awaits_step [OF assms(1) op(3)] obtain st1 where "moves C key clk [u] st owed st1" "gathers key st1 ?sets k ss" by blast
    moreover have "push (strm_parser st) (picture_bytes new) = ([u] @ butlast ?us, \<lparr>buf = last ?us\<rparr>)"
      using push_units [of "u # butlast ?us" "last ?us"] wf op(1,2) by (simp add: push_behind b)
    ultimately show thesis using that [of "[u]" owed st1] op(4) by simp
  qed
  have "separated k new" using new(3) k separated_weaken [of new k] by (cases "last_key False as") auto
  from gather_open_stream [OF assms(1) new(1) this 1(3) assms(4)] obtain st2 cs2 owed2 ss2 where
    2: "moves C key clk (butlast ?us) st1 cs2 st2"
      "awaits key st2 (last ?us) (sets_after ?sets new) (last_key k new) ss2 owed2"
      "cs2 @ owed2 @ held_content (sets_after ?sets new) (last_key k new) ss2 =
       held_content ?sets k ss @ stream_content ?sets new" by blast
  define st3 where "st3 = st2\<lparr>strm_parser := \<lparr>buf = last ?us\<rparr>\<rparr>"
  have m: "moves C key clk (pre @ butlast ?us) st (owed @ cs2) st2" by (rule moves_append [OF 1(2) 2(1)])
  then have "steps C key (streamer_push C clk (picture_bytes new)) st (owed @ cs2) st3"
    by (auto simp: moves_def steps_def streamer_push_def 1(1) process_nals_parser st3_def)
  moreover have "last_key k new \<longrightarrow> last_key False (as @ new)" using assms(4) by (cases new) auto
  moreover have "stream_content None (as @ new) =
      (cs @ owed @ cs2) @ owed2 @ held_content (sets_after None (as @ new)) (last_key k new) ss2"
    using 1(4) 2(3) fl(2) by (simp add: stream_content_append)
  moreover have "awaits key st3 (last ?us) (sets_after None (as @ new)) (last_key k new) ss2 owed2"
    using 2(2) by (simp add: st3_def steps_parser)
  ultimately show ?thesis
    using wf(2) by (intro exI [of _ st3] exI [of _ "owed @ cs2"]) (auto simp: carries_def in_flight_def st3_def)
qed

lemma flush_carries:
  assumes "aead_ok C" "carries key st as cs"
  shows "\<exists>st' cs'. steps C key (flush_idle C clk) st cs' st' \<and> carries key st' as (cs @ cs') \<and>
    stream_content None as = cs @ cs' \<and> strm_parser st' = H264Parser_new"
proof -
  let ?sets = "sets_after None as"
  obtain k ss rest where fl: "in_flight key st ?sets k ss rest" "stream_content None as = cs @ rest"
    using assms(2) by (auto simp: carries_def)
  obtain us owed st1 where 1: "flush (strm_parser st) = (us, H264Parser_new)" "moves C key clk us st owed st1"
      "gathers key st1 ?sets k ss" "rest = owed @ held_content ?sets k ss"
    using fl(1) unfolding in_flight_def
  proof (elim disjE exE conjE)
    assume new: "strm_parser st = H264Parser_new" "gathers key st ?sets k ss" "rest = held_content ?sets k ss"
    have "moves C key clk [] st [] st" by (rule moves_silent [OF _ _ _ new(2)]) simp_all
    with new that [of "[]" "[]" st] show thesis by (simp add: flush_def H264Parser_new_def)
  next
    fix u owed
    assume op: "strm_parser st = \<lparr>buf = u\<rparr>" "wf_unit u" "awaits key st u ?sets k ss owed"
      "rest = owed @ held_content ?sets k ss"
    from awaits_step [OF assms(1) op(3)] obtain st1 where "moves C key clk [u] st owed st1" "gathers key st1 ?sets k ss" by blast
    with op flush_wf [OF op(2)] that [of "[u]" owed st1] show thesis by (simp add: H264Parser_new_def)
  qed
  have "gathers key (st1\<lparr>strm_parser := H264Parser_new\<rparr>) ?sets k ss" using 1(3) by (simp add: steps_parser)
  from flush_vcl_steps [OF assms(1) this] obtain st2 where
    2: "steps C key (flush_vcl C clk) (st1\<lparr>strm_parser := H264Parser_new\<rparr>) (held_content ?sets k ss) st2"
      "gathers key st2 ?sets False []" "strm_parser st2 = H264Parser_new" by auto
  have "steps C key (\<lambda>st. process_nals C clk us (st\<lparr>strm_parser := H264Parser_new\<rparr>)) st owed (st1\<lparr>strm_parser := H264Parser_new\<rparr>)"
    using 1(2) by (auto simp: moves_def steps_def process_nals_parser)
  from steps_rbind [OF this 2(1)]
  have "steps C key (flush_idle C clk) st (owed @ held_content ?sets k ss) st2"
    by (auto simp: steps_def flush_idle_def 1(1))
  moreover have "in_flight key st2 ?sets False [] []" using 2(2,3) by (simp add: in_flight_def)
  ultimately show ?thesis using 1(4) 2(3) fl(2)
    by (intro exI [of _ st2] exI [of _ "owed @ held_content ?sets k ss"]) (auto simp: carries_def)
qed

subsection \<open>The loop delivers the pictures of the encoder\<close>

text \<open>
  An encoder whose buffers hold whole pictures: \<open>history\<close> is what it has encoded so far, and
  \<open>good\<close> an invariant of its state. A request on the control channel that is answered.
\<close>

definition encoder_ok ::
  "('f \<Rightarrow> bool \<Rightarrow> 'x \<Rightarrow> bytes res \<times> 'x) \<Rightarrow> ('x \<Rightarrow> bool) \<Rightarrow> ('x \<Rightarrow> access_unit list) \<Rightarrow> bool" where
  "encoder_ok encode good history \<longleftrightarrow> (\<forall>x. good x \<longrightarrow> pictures_ok (history x) \<and>
     (\<forall>f k. \<exists>new y. encode f k x = (Inr (picture_bytes new), y) \<and> history y = history x @ new \<and> good y))"

definition rtsp_answers :: "'e rtsp \<Rightarrow> bool" where
  "rtsp_answers rtsp \<longleftrightarrow> (\<forall>m u t b h' ce. \<exists>y ce'. rtsp m u t b h' ce = (Inr y, ce'))"

text \<open>What a receiver reads apart from heartbeats.\<close>

definition no_heartbeats :: "received_message list \<Rightarrow> received_message list" where
  "no_heartbeats rs = filter (\<lambda>r. r \<noteq> R_heartbeat) rs"

definition brings :: "crypto \<Rightarrow> bytes \<Rightarrow> MirrorSession \<Rightarrow> content list \<Rightarrow> MirrorSession \<Rightarrow> bool" where
  "brings C key s cs s' \<longleftrightarrow> (\<exists>rs. delivers C key s rs s' \<and> list_all2 conveys cs (no_heartbeats rs))"

lemma conveys_no_heartbeats: "list_all2 conveys cs rs \<Longrightarrow> no_heartbeats rs = rs"
proof (induction rule: list_all2_induct)
  case (Cons c cs r rs)
  then show ?case by (cases c) (auto simp: no_heartbeats_def)
qed (simp add: no_heartbeats_def)

lemma steps_brings: "steps C key f st cs st' \<Longrightarrow> f st = Inr st' \<and> brings C key (strm_session st) cs (strm_session st')"
  using conveys_no_heartbeats by (fastforce simp: steps_def brings_def)

lemma brings_trans: "brings C key s cs s' \<Longrightarrow> brings C key s' cs' s'' \<Longrightarrow> brings C key s (cs @ cs') s''"
  unfolding brings_def using delivers_trans list_all2_appendI by (metis filter_append no_heartbeats_def)

lemma brings_same: "delivers C key s [] s' \<Longrightarrow> brings C key s [] s'"
  by (auto simp: brings_def no_heartbeats_def)

lemma brings_ok: "brings C key s cs s' \<Longrightarrow> chacha_cipher s' = Some key \<and> sizes_ok s'"
  by (auto simp: brings_def delivers_def)

text \<open>The state of the loop: the pictures encoded so far are on their way.\<close>

definition loop_inv ::
  "crypto \<Rightarrow> bytes \<Rightarrow> MirrorSession \<Rightarrow> ('x \<Rightarrow> bool) \<Rightarrow> ('x \<Rightarrow> access_unit list) \<Rightarrow> ('x, 'e) loop_state \<Rightarrow> bool" where
  "loop_inv C key s0 good history l \<longleftrightarrow> good (lp_encoder l) \<and>
     (\<exists>cs. brings C key s0 cs (strm_session (lp_streamer l)) \<and> carries key (lp_streamer l) (history (lp_encoder l)) cs)"

lemma loop_inv_streamer:
  assumes "loop_inv C key s0 good history l" "lp_encoder l' = lp_encoder l"
    and "steps C key f (lp_streamer l) cs' (lp_streamer l')"
    and "\<And>cs. carries key (lp_streamer l) (history (lp_encoder l)) cs \<Longrightarrow>
           carries key (lp_streamer l') (history (lp_encoder l)) (cs @ cs')"
  shows "loop_inv C key s0 good history l'"
  using assms(1,2,4) steps_brings [OF assms(3)] brings_trans unfolding loop_inv_def by fastforce

lemma loop_inv_session:
  assumes "loop_inv C key s0 good history l" "lp_encoder l' = lp_encoder l"
    and "lp_streamer l' = (lp_streamer l)\<lparr>strm_session := s\<rparr>"
    and "brings C key (strm_session (lp_streamer l)) [] s"
  shows "loop_inv C key s0 good history l'"
proof -
  obtain cs where cs: "brings C key s0 cs (strm_session (lp_streamer l))"
      "carries key (lp_streamer l) (history (lp_encoder l)) cs" "good (lp_encoder l)"
    using assms(1) by (auto simp: loop_inv_def)
  have "brings C key s0 cs s" using brings_trans [OF cs(1) assms(4)] by simp
  moreover have "carries key (lp_streamer l') (history (lp_encoder l)) cs"
    unfolding assms(3) using carries_session [OF cs(2)] brings_ok [OF assms(4)] by blast
  ultimately show ?thesis using cs(3) assms(2,3) by (auto simp: loop_inv_def)
qed

lemma loop_inv_cong:
  "lp_streamer l' = lp_streamer l \<Longrightarrow> lp_encoder l' = lp_encoder l \<Longrightarrow>
     loop_inv C key s0 good history l' = loop_inv C key s0 good history l"
  by (simp add: loop_inv_def)

lemma picture_bytes_Nil_iff: "pictures_ok as \<Longrightarrow> picture_bytes as = [] \<longleftrightarrow> as = []"
proof
  assume ok: "pictures_ok as" and e: "picture_bytes as = []"
  show "as = []"
  proof (rule ccontr)
    assume "as \<noteq> []"
    then obtain a as' where as: "as = a # as'" by (cases as) auto
    then have "au_units a \<noteq> []" "\<forall>u \<in> set (au_units a). wf_unit u"
      using ok au_units_not_Nil by (auto simp: pictures_ok_def)
    moreover have "u \<noteq> []" if "wf_unit u" for u using that by (cases u) (auto simp: wf_unit_def)
    ultimately obtain u us where "au_units a = u # us" "u \<noteq> []" by (cases "au_units a") auto
    with e as show False by (simp add: picture_bytes_def)
  qed
qed (simp add: picture_bytes_def)

lemma frame_captured_inv:
  assumes "aead_ok C" "encoder_ok encode good history" "loop_inv C key s0 good history l"
  shows "\<exists>l'. frame_captured C clk encode period f t l = Inr l' \<and> loop_inv C key s0 good history l'"
proof (cases "period \<le> t - last_send l")
  case False
  then show ?thesis using assms(3) by (simp add: frame_captured_def loop_inv_def)
next
  case True
  let ?st = "lp_streamer l"
  obtain cs where good: "good (lp_encoder l)" and cs: "brings C key s0 cs (strm_session ?st)"
      "carries key ?st (history (lp_encoder l)) cs"
    using assms(3) by (auto simp: loop_inv_def)
  obtain new y where enc: "encode f (frames_sent ?st = 0) (lp_encoder l) = (Inr (picture_bytes new), y)"
      "history y = history (lp_encoder l) @ new" "good y"
    using assms(2) good unfolding encoder_ok_def by metis
  have ok: "pictures_ok (history (lp_encoder l) @ new)" using assms(2) enc(2,3) by (auto simp: encoder_ok_def)
  then have "pictures_ok new" unfolding pictures_ok_def separated_append
    using separated_weaken [of new False] by (cases "last_key False (history (lp_encoder l))") auto
  note empty = picture_bytes_Nil_iff [OF this]
  show ?thesis
  proof (cases "new = []")
    case True
    then show ?thesis
      using \<open>period \<le> t - last_send l\<close> assms(3) enc empty by (auto simp: frame_captured_def Let_def loop_inv_def)
  next
    case False
    from push_carries [OF assms(1) cs(2) ok False] obtain st' cs' where
      p: "steps C key (streamer_push C clk (picture_bytes new)) ?st cs' st'"
        "carries key st' (history y) (cs @ cs')" unfolding enc(2) by blast
    from steps_brings [OF p(1)] have st': "streamer_push C clk (picture_bytes new) ?st = Inr st'"
      "brings C key s0 (cs @ cs') (strm_session st')" using brings_trans [OF cs(1)] by auto
    then show ?thesis
      using \<open>period \<le> t - last_send l\<close> p(2) enc empty False by (auto simp: frame_captured_def Let_def loop_inv_def)
  qed
qed

lemma heartbeat_brings:
  "aead_ok C \<Longrightarrow> chacha_cipher s = Some key \<Longrightarrow> sizes_ok s \<Longrightarrow> brings C key s [] (send_heartbeat s)"
  using delivers_message [of C s key Heartbeat] by (auto simp: brings_def no_heartbeats_def intro!: exI [of _ "[R_heartbeat]"])

lemma loop_inv_session_ok:
  "loop_inv C key s0 good history l \<Longrightarrow> chacha_cipher (strm_session (lp_streamer l)) = Some key \<and>
     sizes_ok (strm_session (lp_streamer l))"
  unfolding loop_inv_def using brings_ok by blast

lemma no_frame_inv:
  assumes "aead_ok C" "loop_inv C key s0 good history l"
  shows "\<exists>l'. no_frame C clk p l = Inr l' \<and> loop_inv C key s0 good history l'"
proof -
  let ?due = "50000000 \<le> ps_idle_check p - last_frame_at l \<and> \<not> idle_flushed l"
  obtain l1 where l1: "(if ?due then rbind (flush_idle C clk (lp_streamer l)) (\<lambda>st. Inr (l\<lparr>lp_streamer := st, idle_flushed := True\<rparr>))
      else Inr l) = Inr l1" "loop_inv C key s0 good history l1"
  proof (cases ?due)
    case True
    obtain cs where cs: "brings C key s0 cs (strm_session (lp_streamer l))" "carries key (lp_streamer l) (history (lp_encoder l)) cs"
      "good (lp_encoder l)" using assms(2) by (auto simp: loop_inv_def)
    from flush_carries [OF assms(1) cs(2)] obtain st' cs' where
      f: "steps C key (flush_idle C clk) (lp_streamer l) cs' st'" "carries key st' (history (lp_encoder l)) (cs @ cs')" by blast
    from steps_brings [OF f(1)] have "flush_idle C clk (lp_streamer l) = Inr st'" "brings C key s0 (cs @ cs') (strm_session st')"
      using brings_trans [OF cs(1)] by auto
    with that [of "l\<lparr>lp_streamer := st', idle_flushed := True\<rparr>"] f(2) cs(3) True show thesis by (auto simp: loop_inv_def)
  next
    case False
    with that [of l] assms(2) show thesis by auto
  qed
  note ok = loop_inv_session_ok [OF l1(2)]
  define l2 where "l2 = l1\<lparr>lp_streamer := (lp_streamer l1)\<lparr>strm_session := send_heartbeat (strm_session (lp_streamer l1))\<rparr>,
      last_heartbeat := ps_heartbeat_sent p\<rparr>"
  have "loop_inv C key s0 good history l2"
    by (rule loop_inv_session [OF l1(2)]) (use heartbeat_brings [OF assms(1)] ok in \<open>auto simp: l2_def\<close>)
  with l1 show ?thesis by (auto simp: no_frame_def Let_def l2_def)
qed

text \<open>A request changes the client of the session only.\<close>

lemma session_request_same:
  assumes "session_request rtsp m u t b (s, e) = (r, (s', e'))"
  shows "data_conn s' = data_conn s" "chacha_cipher s' = chacha_cipher s" "chacha_nonce s' = chacha_nonce s"
    "sizes_ok s' = sizes_ok s"
  using assms by (auto simp: session_request_def Let_def sizes_ok_def split: prod.splits)

lemma session_request_answers: "rtsp_answers rtsp \<Longrightarrow> \<exists>y st'. session_request rtsp m u t b st = (Inr y, st')"
proof -
  assume a: "rtsp_answers rtsp"
  obtain s e where st: "st = (s, e)" by force
  obtain y c e' where "rtsp m u t b Map.empty (ms_client s, e) = (Inr y, (c, e'))"
    using a unfolding rtsp_answers_def by (metis prod.exhaust)
  then show ?thesis by (simp add: session_request_def st)
qed

lemma feedback_brings:
  assumes "rtsp_answers rtsp" "chacha_cipher s = Some key" "sizes_ok s"
  shows "\<exists>s' e'. send_feedback rtsp t (s, e) = (Inr (), (s', e')) \<and> brings C key s [] s'"
proof -
  obtain b hs s1 e' where r: "session_request rtsp ''POST'' ''/feedback'' [] [] (s, e) = (Inr (b, hs), (s1, e'))"
    using session_request_answers [OF assms(1)] by (metis prod.exhaust)
  define s' where "s' = s1\<lparr>media_clock := map_option (\<lambda>c. snd (reanchor hs t c)) (media_clock s1)\<rparr>"
  have "sizes_ok s' = sizes_ok s1" "data_conn s' = data_conn s1" "chacha_cipher s' = chacha_cipher s1"
    "chacha_nonce s' = chacha_nonce s1" by (simp_all add: s'_def sizes_ok_def)
  then have "brings C key s [] s'"
    using session_request_same [OF r] assms(2,3) by (intro brings_same delivers_same) simp_all
  then show ?thesis by (simp add: send_feedback_def r s'_def)
qed

lemma teardown_brings:
  assumes "teardown rtsp (s, e) = (s', e')" "chacha_cipher s = Some key" "sizes_ok s"
  shows "brings C key s [] s'"
proof -
  obtain r where r: "session_request rtsp ''TEARDOWN'' (session_uri s) [] [] (s, e) = (r, (s', e'))"
    using assms(1) by (metis teardown_def fst_conv snd_conv prod.exhaust)
  then show ?thesis
    using session_request_same [OF r] assms(2,3) by (intro brings_same delivers_same) simp_all
qed

lemma feedback_inv:
  assumes "rtsp_answers rtsp" "loop_inv C key s0 good history l"
  shows "\<exists>l'. feedback_due rtsp p l = Inr l' \<and> loop_inv C key s0 good history l'"
proof (cases "5000000000 \<le> ps_feedback_check p - last_feedback l")
  case False
  then show ?thesis using assms(2) by (simp add: feedback_due_def)
next
  case True
  let ?s = "strm_session (lp_streamer l)"
  obtain s' e where r: "send_feedback rtsp (ps_feedback_answer p) (?s, lp_env l) = (Inr (), (s', e))"
      "brings C key ?s [] s'"
    using feedback_brings [OF assms(1)] loop_inv_session_ok [OF assms(2)] by blast
  define l' where "l' = l\<lparr>lp_streamer := (lp_streamer l)\<lparr>strm_session := s'\<rparr>, lp_env := e, last_feedback := ps_feedback_sent p\<rparr>"
  have "loop_inv C key s0 good history l'"
    by (rule loop_inv_session [OF assms(2)]) (use r(2) in \<open>auto simp: l'_def\<close>)
  moreover have "feedback_due rtsp p l = Inr l'"
    using True r(1) by (simp add: feedback_due_def l'_def)
  ultimately show ?thesis by blast
qed

lemma loop_pass_inv:
  assumes "aead_ok C" "encoder_ok encode good history" "rtsp_answers rtsp" "loop_inv C key s0 good history l"
    and "ps_frame p = Inr fo"
  shows "\<exists>l'. loop_pass C clk encode rtsp period p l = Inr l' \<and> loop_inv C key s0 good history l'"
proof -
  have "\<exists>l1. (case fo of Some frame \<Rightarrow> frame_captured C clk encode period frame (ps_acquired p) l
      | None \<Rightarrow> no_frame C clk p l) = Inr l1 \<and> loop_inv C key s0 good history l1"
    using frame_captured_inv [OF assms(1,2,4)] no_frame_inv [OF assms(1,4)] by (cases fo) simp_all
  with feedback_inv [OF assms(3)] assms(5) show ?thesis by (fastforce simp: loop_pass_def)
qed

lemma loop_passes_inv:
  assumes "aead_ok C" "encoder_ok encode good history" "rtsp_answers rtsp"
  shows "loop_inv C key s0 good history l \<Longrightarrow> \<forall>p \<in> set ps. \<exists>fo. ps_frame p = Inr fo \<Longrightarrow>
    \<exists>l'. loop_passes C clk encode rtsp period ps l = Inr l' \<and> loop_inv C key s0 good history l'"
proof (induction ps arbitrary: l)
  case (Cons p ps)
  then obtain fo where "ps_frame p = Inr fo" by auto
  from loop_pass_inv [OF assms Cons.prems(1) this] obtain l1 where
    "loop_pass C clk encode rtsp period p l = Inr l1" "loop_inv C key s0 good history l1" by blast
  with Cons.IH [of l1] Cons.prems(2) show ?case by simp
qed simp

lemma mirror_stream_end:
  assumes "aead_ok C" "loop_inv C key s0 good history l"
  shows "\<exists>st s e. flush_idle C clk (lp_streamer l) = Inr st \<and> teardown rtsp (strm_session st, lp_env l) = (s, e) \<and>
    brings C key s0 (stream_content None (history (lp_encoder l))) s"
proof -
  obtain cs where cs: "brings C key s0 cs (strm_session (lp_streamer l))" "carries key (lp_streamer l) (history (lp_encoder l)) cs"
    using assms(2) by (auto simp: loop_inv_def)
  from flush_carries [OF assms(1) cs(2)] obtain st cs' where
    f: "steps C key (flush_idle C clk) (lp_streamer l) cs' st" "stream_content None (history (lp_encoder l)) = cs @ cs'" by blast
  from steps_brings [OF f(1)] have b: "flush_idle C clk (lp_streamer l) = Inr st"
    "brings C key s0 (stream_content None (history (lp_encoder l))) (strm_session st)"
    using brings_trans [OF cs(1)] f(2) by auto
  obtain s e where t: "teardown rtsp (strm_session st, lp_env l) = (s, e)" by force
  have "brings C key (strm_session st) [] s" by (rule teardown_brings [OF t]) (use brings_ok [OF b(2)] in auto)
  from brings_trans [OF b(2) this] have "brings C key s0 (stream_content None (history (lp_encoder l))) s" by simp
  with b(1) t show ?thesis by blast
qed

text \<open>C2. The main loop over any encoder that writes whole well-formed pictures, as long as the capture does not fail and
  the RTSP requests are answered: whatever frames the capture delivers at whatever instants, with its skipped frames,
  idle flushes, heartbeats and feedback requests, a run ends without a failure, and the receiver reads from the encrypted data connection exactly the pictures the encoder has encoded, in
  order, each key frame behind its parameter sets, and nothing else but heartbeats.\<close>

theorem mirroring_delivers:
  assumes "aead_ok C" "encoder_ok encode good history" "rtsp_answers rtsp"
    and "chacha_cipher s = Some key" "data_conn s = []" "sizes_ok s" "good x" "history x = []"
    and "loop_start fps t1 t2 t3 t4 s x e = Inr l0" "\<forall>p \<in> set ps. \<exists>fo. ps_frame p = Inr fo"
  shows "\<exists>l rs. mirror_stream C clk encode rtsp (frame_period fps) ps l0 = Inr l \<and>
    receive_messages C key (chacha_nonce s) (data_conn (strm_session (lp_streamer l))) = Some rs \<and>
    list_all2 conveys (stream_content None (history (lp_encoder l))) (no_heartbeats rs)"
proof -
  have l0: "lp_streamer l0 = streamer_new s" "lp_encoder l0 = x"
    using assms(9) by (auto simp: loop_start_def split: if_splits)
  have "brings C key s [] (strm_session (streamer_new s))"
    using assms(4,6) by (intro brings_same delivers_same) (simp_all add: streamer_new_def)
  then have "loop_inv C key s good history l0"
    using carries_new [OF assms(4,6)] assms(7,8) by (auto simp: loop_inv_def l0)
  from loop_passes_inv [OF assms(1-3) this assms(10)] obtain l1 where
    l1: "loop_passes C clk encode rtsp (frame_period fps) ps l0 = Inr l1" "loop_inv C key s good history l1" by blast
  from mirror_stream_end [OF assms(1) l1(2)] obtain st s' e' where
    e: "flush_idle C clk (lp_streamer l1) = Inr st" "teardown rtsp (strm_session st, lp_env l1) = (s', e')"
      "brings C key s (stream_content None (history (lp_encoder l1))) s'" by blast
  then obtain rs where "delivers C key s rs s'" "list_all2 conveys (stream_content None (history (lp_encoder l1))) (no_heartbeats rs)"
    by (auto simp: brings_def)
  with delivers_receive [OF _ assms(5)] l1(1) e(1,2) show ?thesis
    by (intro exI [of _ "l1\<lparr>lp_streamer := st\<lparr>strm_session := s'\<rparr>, lp_env := e'\<rparr>"] exI [of _ rs]) (simp add: mirror_stream_def)
qed

text \<open>An encoder that writes the same two pictures for every frame, and counts the frames.\<close>

definition demo_encode :: "unit \<Rightarrow> bool \<Rightarrow> nat \<Rightarrow> bytes res \<times> nat" where
  "demo_encode f k n = (Inr (picture_bytes [demo_key, demo_delta]), Suc n)"

definition demo_history :: "nat \<Rightarrow> access_unit list" where
  "demo_history n = concat (replicate n [demo_key, demo_delta])"

definition demo_rtsp :: "unit rtsp" where
  "demo_rtsp m u t b h' ce = (Inr ([], Map.empty), ce)"

lemma demo_encoder_ok: "encoder_ok demo_encode (\<lambda>n. True) demo_history"
proof -
  have sep: "separated k (demo_history n)" for k n
    by (induction n arbitrary: k) (simp_all add: demo_history_def demo_key_def demo_delta_def)
  have "set (demo_history n) \<subseteq> {demo_key, demo_delta}" for n
    by (induction n) (auto simp: demo_history_def)
  then have "pictures_ok (demo_history n)" for n
    using demo_units_ok sep [of False n] unfolding pictures_ok_def by blast
  moreover have "demo_history (Suc n) = demo_history n @ [demo_key, demo_delta]" for n
    by (induction n) (simp_all add: demo_history_def)
  ultimately show ?thesis by (auto simp: encoder_ok_def demo_encode_def)
qed

definition demo_passes :: "unit pass list" where
  "demo_passes = map (\<lambda>(f, t). \<lparr>ps_frame = Inr f, ps_acquired = t, ps_idle_check = t, ps_heartbeat_check = t, ps_heartbeat_sent = t,
      ps_feedback_check = t, ps_feedback_answer = t, ps_feedback_sent = t\<rparr>)
    [(Some (), 7040000000), (Some (), 7041000000), (None, 7100000000), (None, 8200000000), (Some (), 12900000000)]"

theorem mirroring_delivers_witness:
  "\<exists>l0 l rs. loop_start 30 7000000000 7000000000 7000000000 7000000000 demo_session (0 :: nat) () = Inr l0 \<and>
    mirror_stream toy_crypto (\<lambda>n. (0, 0)) demo_encode demo_rtsp (frame_period 30) demo_passes l0 = Inr l \<and>
    receive_messages toy_crypto (replicate 32 1) 0 (data_conn (strm_session (lp_streamer l))) = Some rs \<and>
    list_all2 conveys (stream_content None (demo_history (lp_encoder l))) (no_heartbeats rs)"
proof -
  define l0 where "l0 = \<lparr>lp_streamer = streamer_new demo_session, lp_encoder = 0 :: nat, lp_env = (), last_heartbeat = 7000000000,
      last_feedback = 7000000000, last_frame_at = 7000000000, idle_flushed = False,
      last_send = 7000000000 - frame_period 30, st_captured = 0, st_encoded = 0, st_skipped = 0\<rparr>"
  have l0: "loop_start 30 7000000000 7000000000 7000000000 7000000000 demo_session (0 :: nat) () = Inr l0"
    by (simp add: loop_start_def l0_def frame_period_def)
  have "rtsp_answers demo_rtsp" by (simp add: rtsp_answers_def demo_rtsp_def)
  from mirroring_delivers [OF _ demo_encoder_ok this, of toy_crypto demo_session "replicate 32 1" 0 30 7000000000 7000000000
      7000000000 7000000000 "()" l0 demo_passes "\<lambda>n. (0, 0)"] l0
  show ?thesis by (simp add: demo_session_def sizes_ok_def demo_history_def demo_passes_def)
qed

subsection \<open>The frame rate\<close>

text \<open>A pass encodes one frame, a period after the last one, or none.\<close>

lemma frame_captured_counts:
  assumes "frame_captured C clk encode period f t l = Inr l'" "0 < period"
  shows "st_encoded l' = st_encoded l \<and> last_send l' = last_send l \<and> st_skipped l' = st_skipped l + 1 \<or>
    st_encoded l' = st_encoded l + 1 \<and> last_send l + period \<le> last_send l' \<and> st_skipped l' = st_skipped l"
    and "st_captured l' = st_captured l + 1"
  using assms by (auto simp: frame_captured_def Let_def rbind_Inr_iff split: if_splits prod.splits)

lemma loop_pass_counts:
  assumes "loop_pass C clk encode rtsp period p l = Inr l'" "0 < period"
  shows "\<exists>e k. e + k \<le> 1 \<and> st_encoded l' = st_encoded l + of_nat e \<and> st_skipped l' = st_skipped l + of_nat k \<and>
    st_captured l' = st_captured l + of_nat (e + k) \<and> last_send l + e * period \<le> last_send l'"
proof -
  obtain fo l1 where l1: "(case fo of Some frame \<Rightarrow> frame_captured C clk encode period frame (ps_acquired p) l
      | None \<Rightarrow> no_frame C clk p l) = Inr l1" "feedback_due rtsp p l1 = Inr l'"
    using assms(1) by (auto simp: loop_pass_def rbind_Inr_iff)
  have same: "st_encoded l' = st_encoded l1" "st_skipped l' = st_skipped l1" "st_captured l' = st_captured l1" "last_send l' = last_send l1"
    using l1(2) by (auto simp: feedback_due_def split: if_splits prod.splits sum.splits)
  show ?thesis
  proof (cases fo)
    case None
    then have "st_encoded l1 = st_encoded l" "st_skipped l1 = st_skipped l" "st_captured l1 = st_captured l" "last_send l1 = last_send l"
      using l1(1) by (auto simp: no_frame_def rbind_Inr_iff Let_def split: if_splits)
    with same show ?thesis by (intro exI [of _ 0]) simp
  next
    case (Some f)
    then have "frame_captured C clk encode period f (ps_acquired p) l = Inr l1" using l1(1) by simp
    from frame_captured_counts [OF this assms(2)] same show ?thesis
      by (elim disjE) (intro exI [of _ 0] exI [of _ 1], simp, intro exI [of _ 1] exI [of _ 0], simp)
  qed
qed

text \<open>C34. Frame pacing: over any run of the loop the number of frames given to the encoder is at most the time between
  the first and the last of them divided by the frame period (so at most the chosen rate, up to one frame), and every
  captured frame is either encoded or skipped.\<close>

theorem frame_rate_bounded:
  assumes "loop_passes C clk encode rtsp (frame_period fps) ps l = Inr l'" "0 < frame_period fps" "length ps < 2 ^ 64"
  shows "unat (st_encoded l' - st_encoded l) * frame_period fps \<le> last_send l' - last_send l \<and>
    st_captured l' - st_captured l = (st_encoded l' - st_encoded l) + (st_skipped l' - st_skipped l)"
proof -
  have "\<exists>e k. e \<le> length ps \<and> st_encoded l' = st_encoded l + of_nat e \<and> st_skipped l' = st_skipped l + of_nat k \<and>
      st_captured l' = st_captured l + of_nat (e + k) \<and> last_send l + e * frame_period fps \<le> last_send l'"
    using assms(1)
  proof (induction ps arbitrary: l)
    case Nil
    then show ?case by (intro exI [of _ 0]) simp
  next
    case (Cons p ps)
    then obtain l1 where l1: "loop_pass C clk encode rtsp (frame_period fps) p l = Inr l1"
        "loop_passes C clk encode rtsp (frame_period fps) ps l1 = Inr l'" by (auto simp: rbind_Inr_iff)
    from loop_pass_counts [OF l1(1) assms(2)] obtain e k where 1: "e + k \<le> 1" "st_encoded l1 = st_encoded l + of_nat e"
        "st_skipped l1 = st_skipped l + of_nat k" "st_captured l1 = st_captured l + of_nat (e + k)"
        "last_send l + e * frame_period fps \<le> last_send l1" by blast
    from Cons.IH [OF l1(2)] obtain e' k' where 2: "e' \<le> length ps" "st_encoded l' = st_encoded l1 + of_nat e'"
        "st_skipped l' = st_skipped l1 + of_nat k'" "st_captured l' = st_captured l1 + of_nat (e' + k')"
        "last_send l1 + e' * frame_period fps \<le> last_send l'" by blast
    from 1 2 show ?case
      by (intro exI [of _ "e + e'"] exI [of _ "k + k'"]) (simp add: add_mult_distrib)
  qed
  then obtain e k where ek: "e \<le> length ps" "st_encoded l' = st_encoded l + of_nat e" "st_skipped l' = st_skipped l + of_nat k"
      "st_captured l' = st_captured l + of_nat (e + k)" "last_send l + e * frame_period fps \<le> last_send l'" by blast
  moreover have "unat (of_nat e :: u64) = e" using ek(1) assms(3) by (simp add: unat_of_nat take_bit_nat_eq_self)
  ultimately show ?thesis by simp
qed

theorem frame_rate_bounded_witness:
  "\<exists>l0 l. loop_start 30 7000000000 7000000000 7000000000 7000000000 demo_session (0 :: nat) () = Inr l0 \<and>
    loop_passes toy_crypto (\<lambda>n. (0, 0)) demo_encode demo_rtsp (frame_period 30) demo_passes l0 = Inr l \<and>
    unat (st_encoded l - st_encoded l0) * frame_period 30 \<le> last_send l - last_send l0 \<and>
    st_captured l - st_captured l0 = (st_encoded l - st_encoded l0) + (st_skipped l - st_skipped l0)"
proof -
  have "loop_start 30 7000000000 7000000000 7000000000 7000000000 demo_session (0 :: nat) () \<noteq> Inl Panic"
    by (simp add: loop_start_def frame_period_def)
  then obtain l0 where l0: "loop_start 30 7000000000 7000000000 7000000000 7000000000 demo_session (0 :: nat) () = Inr l0"
    by (auto simp: loop_start_def split: if_splits)
  then have "lp_streamer l0 = streamer_new demo_session" "lp_encoder l0 = 0" by (auto simp: loop_start_def split: if_splits)
  moreover have "sizes_ok demo_session" "chacha_cipher demo_session = Some (replicate 32 1)"
    by (simp_all add: demo_session_def sizes_ok_def)
  moreover from this have "brings toy_crypto (replicate 32 1) demo_session [] (strm_session (streamer_new demo_session))"
    by (intro brings_same delivers_same) (simp_all add: streamer_new_def)
  ultimately have "loop_inv toy_crypto (replicate 32 1) demo_session (\<lambda>n. True) demo_history l0"
    using carries_new [of demo_session "replicate 32 1"] by (auto simp: loop_inv_def demo_history_def)
  from loop_passes_inv [OF _ demo_encoder_ok _ this, of demo_rtsp demo_passes "\<lambda>n. (0, 0)" "frame_period 30"] obtain l where
    "loop_passes toy_crypto (\<lambda>n. (0, 0)) demo_encode demo_rtsp (frame_period 30) demo_passes l0 = Inr l"
    by (auto simp: demo_passes_def rtsp_answers_def demo_rtsp_def)
  with frame_rate_bounded [OF this] l0 show ?thesis by (auto simp: frame_period_def demo_passes_def)
qed

end
