(* ===== verification/Mirror_Pin.thy ===== *)
theory Mirror_Pin
  imports Stream_Loop
begin

text \<open>
  The interoperability program examples/mirror_pin.rs, which sends an Annex-B file to a receiver: \<open>stream_annex_b\<close>
  and \<open>flush_vcl\<close> of that file, which gather the units of the file into frames with local variables, and the part
  of \<open>main\<close> that uses the session. The record \<open>annex_b_run\<close> holds the local variables;
  \<open>run_stamps\<close> only counts the frames, so that \<open>clk\<close> can give the instants at which each is
  stamped. What the program does before it has a session (connecting, pairing, FairPlay, session set-up) is the part it
  shares with mirror_desktop.rs.
\<close>

subsection \<open>Gathering the units of a file\<close>

record annex_b_run =
  run_session :: MirrorSession
  run_parser :: H264Parser
  run_sps :: "bytes option"
  run_pps :: "bytes option"
  run_vcl :: bytes
  run_keyframe :: bool
  run_codec_sent :: bool
  run_stamps :: u64

definition run_new :: "MirrorSession \<Rightarrow> annex_b_run" where
  "run_new s =
    \<lparr>run_session = s, run_parser = H264Parser_new, run_sps = None, run_pps = None, run_vcl = [], run_keyframe = False,
     run_codec_sent = False, run_stamps = 0\<rparr>"

definition run_flush_vcl :: "crypto \<Rightarrow> (u64 \<Rightarrow> nat \<times> nat) \<Rightarrow> annex_b_run \<Rightarrow> annex_b_run res" where
  "run_flush_vcl C clk r =
    (if run_vcl r = [] then Inr r
     else
       let (t, elapsed) = clk (run_stamps r);
           ((ts, timeline), s) = frame_time_now t elapsed (run_session r);
           r = r\<lparr>run_session := s, run_stamps := run_stamps r + 1\<rparr>
       in rbind (if run_keyframe r \<and> \<not> run_codec_sent r then
                   (case (run_sps r, run_pps r) of
                      (Some sps, Some pps) \<Rightarrow>
                        (let s = set_video_size sps (run_session r)
                         in rbind (build_avcc_config sps pps) (\<lambda>avcc.
                              Inr (r\<lparr>run_session := send_codec_frame avcc ts s, run_codec_sent := True\<rparr>)))
                    | _ \<Rightarrow> Inr r)
                 else Inr r) (\<lambda>r.
            let frame = run_vcl r; r = r\<lparr>run_vcl := []\<rparr>
            in Inr (r\<lparr>run_session := send_frame C frame (run_keyframe r) ts timeline (run_session r),
                      run_keyframe := False, run_codec_sent := False\<rparr>)))"

definition run_slice :: "bytes \<Rightarrow> annex_b_run \<Rightarrow> annex_b_run" where
  "run_slice raw r = r\<lparr>run_vcl := run_vcl r @ avcc_wrap raw\<rparr>"

definition run_nal :: "crypto \<Rightarrow> (u64 \<Rightarrow> nat \<times> nat) \<Rightarrow> bytes \<Rightarrow> annex_b_run \<Rightarrow> annex_b_run res" where
  "run_nal C clk nal r =
    (let nt = nal_type nal; raw = strip_start_code nal in
     if nt = 9 then run_flush_vcl C clk r
     else if nt = 7 then rbind (run_flush_vcl C clk r) (\<lambda>r. Inr (r\<lparr>run_sps := Some raw\<rparr>))
     else if nt = 8 then Inr (r\<lparr>run_pps := Some raw\<rparr>)
     else if nt = 6 then Inr r
     else if nt = 5 then
       rbind (if run_vcl r \<noteq> [] \<and> \<not> run_keyframe r then run_flush_vcl C clk r else Inr r) (\<lambda>r.
         Inr (run_slice raw (r\<lparr>run_keyframe := True\<rparr>)))
     else if 1 \<le> nt \<and> nt \<le> 4 then
       rbind (if run_vcl r \<noteq> [] \<and> run_keyframe r then run_flush_vcl C clk r else Inr r) (\<lambda>r.
       rbind (if run_vcl r \<noteq> [] \<and> \<not> run_keyframe r \<and> is_first_slice raw then run_flush_vcl C clk r else Inr r) (\<lambda>r.
         Inr (run_slice raw r)))
     else Inr r)"

fun run_nals :: "crypto \<Rightarrow> (u64 \<Rightarrow> nat \<times> nat) \<Rightarrow> bytes list \<Rightarrow> annex_b_run \<Rightarrow> annex_b_run res" where
  "run_nals C clk [] r = Inr r"
| "run_nals C clk (nal # nals) r = rbind (run_nal C clk nal r) (run_nals C clk nals)"

text \<open>\<open>chunks\<close> of a slice, and the loop over the chunks of the file.\<close>

function file_chunks :: "nat \<Rightarrow> bytes \<Rightarrow> bytes list" where
  "file_chunks n b = (if n = 0 \<or> b = [] then [] else take n b # file_chunks n (drop n b))"
  by pat_completeness auto
termination
  by (relation "measure (\<lambda>(n, b). length b)") auto

declare file_chunks.simps [simp del]

fun run_chunks :: "crypto \<Rightarrow> (u64 \<Rightarrow> nat \<times> nat) \<Rightarrow> bytes list \<Rightarrow> annex_b_run \<Rightarrow> annex_b_run res" where
  "run_chunks C clk [] r = Inr r"
| "run_chunks C clk (chunk # chunks) r =
     (let (nals, p) = push (run_parser r) chunk
      in rbind (run_nals C clk nals (r\<lparr>run_parser := p\<rparr>)) (run_chunks C clk chunks))"

definition stream_annex_b :: "crypto \<Rightarrow> (u64 \<Rightarrow> nat \<times> nat) \<Rightarrow> bytes \<Rightarrow> MirrorSession \<Rightarrow> MirrorSession res" where
  "stream_annex_b C clk annexb s =
    rbind (run_chunks C clk (file_chunks (64 * 1024) annexb) (run_new s)) (\<lambda>r.
    rbind (run_flush_vcl C clk r) (\<lambda>r. Inr (run_session r)))"

subsection \<open>The use of the session\<close>

text \<open>Heartbeats and feedback requests, one for each instant at which an answer is read.\<close>

fun prove_liveness :: "'e rtsp \<Rightarrow> nat list \<Rightarrow> MirrorSession \<times> 'e \<Rightarrow> (MirrorSession \<times> 'e) res" where
  "prove_liveness rtsp [] st = Inr st"
| "prove_liveness rtsp (t # ts) st =
     (let (s, e) = st in
      case send_feedback rtsp t (send_heartbeat s, e) of
        (Inl x, _) \<Rightarrow> Inl x
      | (Inr _, st) \<Rightarrow> prove_liveness rtsp ts st)"

definition mirror_file ::
  "crypto \<Rightarrow> (u64 \<Rightarrow> nat \<times> nat) \<Rightarrow> 'e rtsp \<Rightarrow> nat \<Rightarrow> nat \<times> nat \<times> nat \<Rightarrow> bytes \<Rightarrow> MirrorSession \<times> 'e \<Rightarrow> (MirrorSession \<times> 'e) res" where
  "mirror_file C clk rtsp t0 instants annexb st =
    (case send_feedback rtsp t0 st of
       (Inl x, _) \<Rightarrow> Inl x
     | (Inr _, (s, e)) \<Rightarrow>
         rbind (stream_annex_b C clk annexb s) (\<lambda>s.
         let (t1, t2, t3) = instants
         in rbind (prove_liveness rtsp [t1, t2, t3] (s, e)) (\<lambda>st. Inr (teardown rtsp st))))"

subsection \<open>The local variables are a streamer without its counter\<close>

definition run_of :: "H264Streamer \<Rightarrow> annex_b_run" where
  "run_of st =
    \<lparr>run_session = strm_session st, run_parser = strm_parser st, run_sps = latest_sps st, run_pps = latest_pps st,
     run_vcl = vcl_buf st, run_keyframe = pending_keyframe st, run_codec_sent = codec_sent st, run_stamps = frames_sent st\<rparr>"

definition run_res :: "H264Streamer res \<Rightarrow> annex_b_run res" where
  "run_res x = rbind x (\<lambda>st. Inr (run_of st))"

lemma run_res_simps [simp]: "run_res (Inr st) = Inr (run_of st)" "run_res (Inl e) = Inl e"
  by (simp_all add: run_res_def)

lemma run_res_rbind: "(\<And>st. f' (run_of st) = run_res (f st)) \<Longrightarrow> rbind (run_res x) f' = run_res (rbind x f)"
  by (cases x) simp_all

lemma run_of_new: "run_of (streamer_new s) = run_new s"
  by (simp add: run_of_def streamer_new_def run_new_def)

lemma run_flush_vcl_eq: "run_flush_vcl C clk (run_of st) = run_res (flush_vcl C clk st)"
  by (simp add: run_flush_vcl_def flush_vcl_def flush_codec_def run_of_def rbind_def Let_def
      split: prod.split sum.split option.split)

lemma run_nal_eq: "run_nal C clk nal (run_of st) = run_res (process_nal C clk nal st)"
proof -
  have slice: "run_slice raw (run_of st) = run_of (append_slice raw st)" for raw st
    by (simp add: run_slice_def append_slice_def run_of_def)
  have upd: "(run_of st)\<lparr>run_sps := x\<rparr> = run_of (st\<lparr>latest_sps := x\<rparr>)" "(run_of st)\<lparr>run_pps := x\<rparr> = run_of (st\<lparr>latest_pps := x\<rparr>)"
    "(run_of st)\<lparr>run_keyframe := b\<rparr> = run_of (st\<lparr>pending_keyframe := b\<rparr>)"
    "run_vcl (run_of st) = vcl_buf st" "run_keyframe (run_of st) = pending_keyframe st" for st x b
    by (simp_all add: run_of_def)
  show ?thesis
    unfolding run_nal_def process_nal_def Let_def
    by (simp add: upd slice run_flush_vcl_eq run_res_def rbind_def split: sum.split)
qed

lemma run_nals_eq: "run_nals C clk nals (run_of st) = run_res (process_nals C clk nals st)"
  by (induction nals arbitrary: st) (simp_all add: run_nal_eq run_res_rbind)

lemma run_chunks_eq: "run_chunks C clk bs (run_of st) = run_res (push_buffers C clk bs st)"
proof (induction bs arbitrary: st)
  case (Cons b bs)
  obtain nals p where p: "push (strm_parser st) b = (nals, p)" by force
  have u: "run_parser (run_of st) = strm_parser st" "(run_of st)\<lparr>run_parser := p\<rparr> = run_of (st\<lparr>strm_parser := p\<rparr>)"
    by (simp_all add: run_of_def)
  show ?case by (simp add: u p streamer_push_def run_nals_eq run_res_rbind Cons.IH)
qed simp

lemma stream_annex_b_eq:
  "stream_annex_b C clk annexb s =
    rbind (push_buffers C clk (file_chunks (64 * 1024) annexb) (streamer_new s)) (\<lambda>st.
    rbind (flush_vcl C clk st) (\<lambda>st. Inr (strm_session st)))"
proof -
  have "run_session (run_of st) = strm_session st" for st by (simp add: run_of_def)
  then show ?thesis
    unfolding stream_annex_b_def run_of_new [symmetric] run_chunks_eq
    by (cases "push_buffers C clk (file_chunks (64 * 1024) annexb) (streamer_new s)")
      (simp_all add: run_flush_vcl_eq run_res_def rbind_def split: sum.split)
qed

subsection \<open>What the receiver reads of a file\<close>

lemma concat_file_chunks: "0 < n \<Longrightarrow> concat (file_chunks n b) = b"
proof (induction n b rule: file_chunks.induct)
  case (1 n b)
  then show ?case by (subst file_chunks.simps) simp
qed

text \<open>The pictures of a file without the last slice of the last one.\<close>

definition cut_last :: "access_unit list \<Rightarrow> access_unit list" where
  "cut_last as = butlast as @
    (if length (slice_units (last as)) \<le> 1 then []
     else [(last as)\<lparr>slice_units := butlast (slice_units (last as))\<rparr>])"

lemma awaits_gathers:
  assumes "awaits key st u sets k ss owed"
  obtains k0 ss0 where "gathers key st sets k0 ss0"
    "owed @ (if length ss \<le> 1 then [] else frame_content sets k (butlast ss)) = held_content sets k0 ss0"
proof -
  from assms obtain k0 ss0 where g: "gathers key st sets k0 ss0"
    "ss = [strip_start_code u] \<and> owed = held_content sets k0 ss0 \<or>
     ss0 \<noteq> [] \<and> k0 = k \<and> ss = ss0 @ [strip_start_code u] \<and> owed = []"
    unfolding awaits_def by blast
  then have "owed @ (if length ss \<le> 1 then [] else frame_content sets k (butlast ss)) = held_content sets k0 ss0"
    by (auto simp: held_content_def)
  with that g(1) show thesis by blast
qed

lemma gather_cut_stream:
  assumes "aead_ok C" "pictures_ok as" "as \<noteq> []" "gathers key st None False []"
  shows "\<exists>st' cs sets k ss. moves C key clk (butlast (concat (map au_units as))) st cs st' \<and> gathers key st' sets k ss \<and>
    cs @ held_content sets k ss = stream_content None (cut_last as)"
proof -
  obtain bs a where as: "as = bs @ [a]" using assms(3) by (cases as rule: rev_cases) auto
  have a: "au_ok a" "\<forall>x \<in> set bs. au_ok x" "separated False bs"
    "last_key False bs \<and> key_picture a \<longrightarrow> delimiter a \<noteq> None \<or> param_sets a \<noteq> None"
    using assms(2) by (auto simp: pictures_ok_def as separated_append)
  from gather_stream [OF assms(1) a(2,3) assms(4), of clk] obtain st1 cs1 k1 ss1 where
    1: "moves C key clk (concat (map au_units bs)) st cs1 st1" "gathers key st1 (sets_after None bs) k1 ss1"
      "k1 = last_key False bs" "cs1 @ held_content (sets_after None bs) k1 ss1 = stream_content None bs" by auto
  let ?sets = "next_sets (sets_after None bs) a"
  from gather_open_unit [OF assms(1) a(1) 1(2), of clk] a(4) 1(3) obtain st2 cs2 owed where
    2: "moves C key clk (butlast (au_units a)) st1 cs2 st2"
      "awaits key st2 (last (au_units a)) ?sets (key_picture a) (raw_slices a) owed"
      "cs2 @ owed = held_content (sets_after None bs) k1 ss1" by blast
  from 2(2) obtain k ss where 3: "gathers key st2 ?sets k ss"
    "owed @ (if length (raw_slices a) \<le> 1 then [] else frame_content ?sets (key_picture a) (butlast (raw_slices a))) =
       held_content ?sets k ss" by (rule awaits_gathers)
  have "next_sets s (a\<lparr>slice_units := us\<rparr>) = next_sets s a" for s us by (simp add: next_sets_def)
  then have "stream_content None (cut_last as) = stream_content None bs @
      (if length (raw_slices a) \<le> 1 then [] else frame_content ?sets (key_picture a) (butlast (raw_slices a)))"
    by (simp add: cut_last_def as stream_content_append raw_slices_def map_butlast)
  also have "\<dots> = (cs1 @ cs2) @ held_content ?sets k ss"
    unfolding 1(4) [symmetric] 2(3) [symmetric] 3(2) [symmetric] by simp
  finally have "(cs1 @ cs2) @ held_content ?sets k ss = stream_content None (cut_last as)" ..
  moreover have "moves C key clk (butlast (concat (map au_units as))) st (cs1 @ cs2) st2"
    using moves_append [OF 1(1) 2(1)] au_units_not_Nil [OF a(1)] by (simp add: as butlast_append)
  ultimately show ?thesis using 3(1) by blast
qed

lemma stream_annex_b_delivers:
  assumes "aead_ok C" "pictures_ok as" "as \<noteq> []" "chacha_cipher s = Some key" "sizes_ok s"
  shows "\<exists>s'. stream_annex_b C clk (picture_bytes as) s = Inr s' \<and>
    brings C key s (stream_content None (cut_last as)) s'"
proof -
  let ?us = "concat (map au_units as)" and ?st = "streamer_new s"
  have "?us \<noteq> []" using assms(2,3) au_units_not_Nil by (cases as) (auto simp: pictures_ok_def)
  then have us: "?us = butlast ?us @ [last ?us]" by simp
  have wf: "\<forall>x \<in> set ?us. wf_unit x" using assms(2) by (auto simp: pictures_ok_def)
  then have wf1: "\<forall>x \<in> set (butlast ?us). wf_unit x" "wf_unit (last ?us)"
    using \<open>?us \<noteq> []\<close> last_in_set in_set_butlastD by (metis, metis)
  have b: "picture_bytes as = concat (butlast ?us) @ last ?us" unfolding picture_bytes_def by (subst us) simp
  define chunks where "chunks = file_chunks (64 * 1024) (picture_bytes as)"
  have cat: "concat chunks = picture_bytes as" by (simp add: chunks_def concat_file_chunks)
  have p: "push_all (strm_parser ?st) chunks = (butlast ?us, \<lparr>buf = last ?us\<rparr>)"
    using push_all_wf [OF wf1 cat [unfolded b]] by (simp add: streamer_new_def)
  from gather_cut_stream [OF assms(1-3) gathers_new [OF assms(4,5)], of clk] obtain st cs sets k ss where
    1: "moves C key clk (butlast ?us) ?st cs st" "gathers key st sets k ss"
      "cs @ held_content sets k ss = stream_content None (cut_last as)" by blast
  define st1 where "st1 = st\<lparr>strm_parser := \<lparr>buf = last ?us\<rparr>\<rparr>"
  have m: "steps C key (push_buffers C clk chunks) ?st cs st1"
    using 1(1) by (auto simp: moves_def steps_def push_buffers_units p st1_def)
  have "gathers key st1 sets k ss" using 1(2) by (simp add: st1_def steps_parser)
  from flush_vcl_steps [OF assms(1) this, of clk] obtain st2 where
    2: "steps C key (flush_vcl C clk) st1 (held_content sets k ss) st2" by blast
  from steps_brings [OF steps_rbind [OF m 2]] have
    "rbind (push_buffers C clk chunks ?st) (flush_vcl C clk) = Inr st2"
    "brings C key s (stream_content None (cut_last as)) (strm_session st2)"
    by (simp_all add: 1(3)) (simp add: streamer_new_def)
  then show ?thesis
    unfolding stream_annex_b_eq chunks_def [symmetric]
    by (cases "push_buffers C clk chunks ?st") auto
qed

lemma prove_liveness_brings:
  assumes "aead_ok C" "rtsp_answers rtsp"
  shows "chacha_cipher s = Some key \<Longrightarrow> sizes_ok s \<Longrightarrow>
    \<exists>s' e'. prove_liveness rtsp ts (s, e) = Inr (s', e') \<and> brings C key s [] s'"
proof (induction ts arbitrary: s e)
  case Nil
  then show ?case by (auto intro: brings_same delivers_same)
next
  case (Cons t ts)
  have h: "brings C key s [] (send_heartbeat s)" by (rule heartbeat_brings [OF assms(1) Cons.prems])
  then have "chacha_cipher (send_heartbeat s) = Some key" "sizes_ok (send_heartbeat s)" using brings_ok by blast+
  from feedback_brings [OF assms(2) this, of t e C] obtain s1 e1 where
    1: "send_feedback rtsp t (send_heartbeat s, e) = (Inr (), (s1, e1))" "brings C key (send_heartbeat s) [] s1" by blast
  from Cons.IH [of s1 e1] brings_ok [OF 1(2)] obtain s2 e2 where
    "prove_liveness rtsp ts (s1, e1) = Inr (s2, e2)" "brings C key s1 [] s2" by blast
  with 1 brings_trans [OF brings_trans [OF h 1(2)]] show ?case by fastforce
qed

text \<open>C18. A file of well-formed pictures is sent without a failure, whatever its size and the chunks it is read in, and
  the receiver reads its pictures in order, each key frame behind its parameter sets: all but the last slice of the
  file, which stays in the parser, as the program never flushes it. A last picture of one slice is lost as a whole.\<close>

theorem file_sent_but_last_slice:
  assumes "aead_ok C" "pictures_ok as" "as \<noteq> []" "rtsp_answers rtsp"
    and "chacha_cipher s = Some key" "data_conn s = []" "sizes_ok s"
  shows "\<exists>s' e' rs. mirror_file C clk rtsp t0 instants (picture_bytes as) (s, e) = Inr (s', e') \<and>
    receive_messages C key (chacha_nonce s) (data_conn s') = Some rs \<and>
    list_all2 conveys (stream_content None (cut_last as)) (no_heartbeats rs)"
proof -
  from feedback_brings [OF assms(4,5,7), of t0 e C] obtain s1 e1 where
    1: "send_feedback rtsp t0 (s, e) = (Inr (), (s1, e1))" "brings C key s [] s1" by blast
  from stream_annex_b_delivers [OF assms(1-3), of s1 key clk] brings_ok [OF 1(2)] obtain s2 where
    2: "stream_annex_b C clk (picture_bytes as) s1 = Inr s2" "brings C key s1 (stream_content None (cut_last as)) s2" by blast
  obtain t1 t2 t3 where t: "instants = (t1, t2, t3)" by (cases instants) auto
  from prove_liveness_brings [OF assms(1,4), of s2 key "[t1, t2, t3]" e1] brings_ok [OF 2(2)] obtain s3 e3 where
    3: "prove_liveness rtsp [t1, t2, t3] (s2, e1) = Inr (s3, e3)" "brings C key s2 [] s3" by blast
  obtain s4 e4 where 4: "teardown rtsp (s3, e3) = (s4, e4)" by force
  have "brings C key s3 [] s4" by (rule teardown_brings [OF 4]) (use brings_ok [OF 3(2)] in auto)
  from brings_trans [OF 1(2) brings_trans [OF 2(2) brings_trans [OF 3(2) this]]]
  obtain rs where "delivers C key s rs s4" "list_all2 conveys (stream_content None (cut_last as)) (no_heartbeats rs)"
    by (auto simp: brings_def)
  with delivers_receive [OF _ assms(6)] 1(1) 2(1) 3(1) 4 show ?thesis
    by (intro exI [of _ s4] exI [of _ e4] exI [of _ rs]) (simp add: mirror_file_def t)
qed

theorem file_sent_but_last_slice_witness:
  "\<exists>s' rs. mirror_file toy_crypto (\<lambda>n. (0, 0)) demo_rtsp 0 (1, 2, 3) (picture_bytes [demo_key, demo_delta]) (demo_session, ()) = Inr (s', ()) \<and>
    receive_messages toy_crypto (replicate 32 1) 0 (data_conn s') = Some rs \<and>
    list_all2 conveys (stream_content None (cut_last [demo_key, demo_delta])) (no_heartbeats rs)"
proof -
  have "pictures_ok (demo_history 1)" using demo_encoder_ok by (auto simp: encoder_ok_def)
  then have p: "pictures_ok [demo_key, demo_delta]" by (simp add: demo_history_def)
  have r: "rtsp_answers demo_rtsp" by (simp add: rtsp_answers_def demo_rtsp_def)
  show ?thesis
    using file_sent_but_last_slice [OF _ p _ r, of toy_crypto demo_session "replicate 32 1" "\<lambda>n. (0, 0)" 0 "(1, 2, 3)" "()"]
    by (simp add: demo_session_def sizes_ok_def)
qed

end
