(* ===== verification/Cursor.thy ===== *)
theory Cursor
  imports Prelude
begin

text \<open>
  The mouse cursor overlay of the screen capture (cursor.rs). The desktop duplication interface is an argument:
  the numbers of its three shape types, and the call that fetches a shape. Loops run over the rows and columns of
  the shape; indexing a frame or a shape out of range panics. The subtraction of the hot spot wraps at 32 bits.
\<close>

type_synonym i32 = "32 word"

record PointerShape =
  shape_type :: i32
  sh_width :: u32
  sh_height :: u32
  color_pitch :: u32
  hot_spot :: "i32 \<times> i32"
  sh_data :: bytes

record CursorOverlay =
  co_shape :: "PointerShape option"
  co_position :: "(i32 \<times> i32) option"
  co_visible :: bool

definition CursorOverlay_default :: CursorOverlay where
  "CursorOverlay_default = \<lparr>co_shape = None, co_position = None, co_visible = False\<rparr>"

text \<open>The shape types of the interface.\<close>

record pointer_types =
  type_color :: i32
  type_masked :: i32
  type_mono :: i32

subsection \<open>Fetching the shape\<close>

text \<open>
  \<open>get_shape required w\<close> is the answer of \<open>GetFramePointerShape\<close> to a buffer of that size: the shape with the
  buffer filled, or a new size (\<open>MORE_DATA\<close>), or an error. The loop ends when the interface stops asking for more.
\<close>

datatype shape_answer = Shape_Ok PointerShape | Shape_More u32 | Shape_Error string

type_synonym 'w get_shape = "u32 \<Rightarrow> 'w \<Rightarrow> shape_answer \<times> 'w"

partial_function (option) fetch_loop :: "'w get_shape \<Rightarrow> u32 \<Rightarrow> 'w \<Rightarrow> ((string + PointerShape) \<times> 'w) option" where
  "fetch_loop get_shape required w =
    (case get_shape required w of
       (Shape_Ok sh, w) \<Rightarrow> Some (Inr sh, w)
     | (Shape_Error e, w) \<Rightarrow> Some (Inl e, w)
     | (Shape_More n, w) \<Rightarrow> fetch_loop get_shape n w)"

definition fetch_shape :: "'w get_shape \<Rightarrow> u32 \<Rightarrow> 'w \<Rightarrow> ((string + PointerShape) \<times> 'w) option" where
  "fetch_shape get_shape hint_size w = fetch_loop get_shape (max hint_size 64) w"

text \<open>
  What the interface promises of the exchange: it is asked with a buffer size, may ask for other sizes any number of
  times, and then answers with the shape or an error.
\<close>

inductive shape_answered :: "'w get_shape \<Rightarrow> u32 \<Rightarrow> 'w \<Rightarrow> string + PointerShape \<Rightarrow> 'w \<Rightarrow> bool" for get_shape where
  answered: "get_shape n w = (Shape_Ok sh, w') \<Longrightarrow> shape_answered get_shape n w (Inr sh) w'"
| refused: "get_shape n w = (Shape_Error e, w') \<Longrightarrow> shape_answered get_shape n w (Inl e) w'"
| asked_again: "get_shape n w = (Shape_More k, w1) \<Longrightarrow> shape_answered get_shape k w1 r w' \<Longrightarrow>
    shape_answered get_shape n w r w'"

inductive_simps shape_answered_simps: "shape_answered get_shape n w r w'"

lemma fetch_loop_answered: "fetch_loop get_shape n w = Some x \<Longrightarrow> shape_answered get_shape n w (fst x) (snd x)"
  by (rule fetch_loop.raw_induct [where P = "\<lambda>g n w x. g = get_shape \<longrightarrow> shape_answered get_shape n w (fst x) (snd x)",
        THEN mp, OF _ _ refl])
    (auto split: prod.splits shape_answer.splits intro: shape_answered.intros)

lemma fetch_shape_answered:
  "fetch_shape get_shape hint w = Some (r, w') \<Longrightarrow> shape_answered get_shape (max hint 64) w r w'"
  using fetch_loop_answered [of get_shape "max hint 64" w "(r, w')"] by (simp add: fetch_shape_def)

record frame_info =
  last_mouse_update :: int
  pointer_visible :: bool
  pointer_position :: "i32 \<times> i32"
  shape_buffer_size :: u32

definition cursor_update ::
  "'w get_shape \<Rightarrow> frame_info \<Rightarrow> CursorOverlay \<Rightarrow> 'w \<Rightarrow> (((string + unit) \<times> CursorOverlay) \<times> 'w) option" where
  "cursor_update get_shape fi ov w =
    (if last_mouse_update fi = 0 then Some ((Inr (), ov), w)
     else
       let ov = ov\<lparr>co_visible := pointer_visible fi, co_position := Some (pointer_position fi)\<rparr> in
       if 0 < shape_buffer_size fi then
         (case fetch_shape get_shape (shape_buffer_size fi) w of
            None \<Rightarrow> None
          | Some (Inl e, w) \<Rightarrow> Some ((Inl e, ov), w)
          | Some (Inr sh, w) \<Rightarrow> Some ((Inr (), ov\<lparr>co_shape := Some sh\<rparr>), w))
       else Some ((Inr (), ov), w))"

subsection \<open>Pixels\<close>

definition blend_byte :: "byte \<Rightarrow> byte \<Rightarrow> byte \<Rightarrow> byte" where
  "blend_byte a new old = word_of_nat ((unat new * unat a + unat old * (255 - unat a)) div 255)"

text \<open>Writing the three colour bytes of the pixel at offset \<open>fi\<close>.\<close>

definition put_pixel :: "nat \<Rightarrow> (byte \<times> byte \<times> byte \<Rightarrow> byte \<times> byte \<times> byte) \<Rightarrow> bytes \<Rightarrow> bytes res" where
  "put_pixel fi f bgra =
    (if fi + 2 < length bgra
     then let (b, g, r) = f (bgra ! fi, bgra ! (fi + 1), bgra ! (fi + 2))
          in Inr (bgra[fi := b, fi + 1 := g, fi + 2 := r])
     else Inl Panic)"

definition blend_pixel :: "bytes \<Rightarrow> nat \<Rightarrow> byte \<Rightarrow> byte \<Rightarrow> byte \<Rightarrow> byte \<Rightarrow> bytes res" where
  "blend_pixel bgra fi r g b a =
    (if a = 255 then put_pixel fi (\<lambda>old. (b, g, r)) bgra
     else if a = 0 then Inr bgra
     else put_pixel fi (\<lambda>(ob, og, or). (blend_byte a b ob, blend_byte a g og, blend_byte a r or)) bgra)"

text \<open>One pixel of a colour shape, one of a masked one, one of a monochrome one; \<open>fi\<close> is its place in the frame.\<close>

definition color_pixel :: "PointerShape \<Rightarrow> nat \<Rightarrow> nat \<Rightarrow> nat \<Rightarrow> bytes \<Rightarrow> bytes res" where
  "color_pixel sh x y fi bgra =
    (let ci = y * unat (color_pitch sh) + x * 4; d = sh_data sh in
     if length d < ci + 4 then Inr bgra
     else blend_pixel bgra fi (d ! (ci + 2)) (d ! (ci + 1)) (d ! ci) (d ! (ci + 3)))"

definition shape_bit :: "nat \<Rightarrow> byte" where
  "shape_bit x = drop_bit (x mod 8) 0x80"

definition masked_pixel :: "PointerShape \<Rightarrow> nat \<Rightarrow> nat \<Rightarrow> nat \<Rightarrow> bytes \<Rightarrow> bytes res" where
  "masked_pixel sh x y fi bgra =
    (let mask_pitch = ((unat (sh_width sh) + 31) div 32) * 4;
         color_bytes = unat (color_pitch sh) * unat (sh_height sh);
         mask_off = color_bytes + y * mask_pitch + x div 8; d = sh_data sh in
     if mask_off < length d \<and> d ! mask_off AND shape_bit x \<noteq> 0 then Inr bgra
     else color_pixel sh x y fi bgra)"

definition byte_at :: "bytes \<Rightarrow> nat \<Rightarrow> byte res" where
  "byte_at d i = (if i < length d then Inr (d ! i) else Inl Panic)"

definition mono_pitch :: "PointerShape \<Rightarrow> nat" where
  "mono_pitch sh = max (length (sh_data sh) div 2 div max (unat (sh_height sh)) 1) 1"

definition mono_pixel :: "PointerShape \<Rightarrow> nat \<Rightarrow> nat \<Rightarrow> nat \<Rightarrow> bytes \<Rightarrow> bytes res" where
  "mono_pixel sh x y fi bgra =
    (let mask_pitch = mono_pitch sh; mask_width = mask_pitch * 8;
         scale_x = max ((unat (sh_width sh) + mask_width - 1) div mask_width) 1;
         and_bytes = mask_pitch * unat (sh_height sh);
         mx = x div scale_x; byte_off = y * mask_pitch + mx div 8 in
     rbind (byte_at (sh_data sh) byte_off) (\<lambda>m.
       if m AND shape_bit mx \<noteq> 0 then Inr bgra
       else rbind (byte_at (sh_data sh) (and_bytes + byte_off)) (\<lambda>v.
         if v AND shape_bit mx \<noteq> 0 then put_pixel fi (\<lambda>(b, g, r). (255 - b, 255 - g, 255 - r)) bgra
         else put_pixel fi (\<lambda>old. (0, 0, 0)) bgra)))"

subsection \<open>Drawing\<close>

text \<open>The loops over the shape, which leave out what falls outside the frame.\<close>

definition draw_loop ::
  "(nat \<Rightarrow> nat \<Rightarrow> nat \<Rightarrow> bytes \<Rightarrow> bytes res) \<Rightarrow> int \<times> int \<Rightarrow> nat \<times> nat \<Rightarrow> nat \<times> nat \<Rightarrow> bytes \<Rightarrow> bytes res" where
  "draw_loop pixel = (\<lambda>(sx0, sy0) (sw, sh) (fw, fh).
    for_each (\<lambda>y bgra.
      let dy = sy0 + int y in
      if dy < 0 \<or> int fh \<le> dy then Inr bgra
      else for_each (\<lambda>x bgra.
        let dx = sx0 + int x in
        if dx < 0 \<or> int fw \<le> dx then Inr bgra
        else pixel x y ((nat dy * fw + nat dx) * 4) bgra) [0..<sw] bgra) [0..<sh])"

definition draw :: "pointer_types \<Rightarrow> CursorOverlay \<Rightarrow> bytes \<Rightarrow> u32 \<Rightarrow> u32 \<Rightarrow> bytes res" where
  "draw T ov bgra width height =
    (case (co_shape ov, co_position ov) of
       (Some sh, Some (hx, hy)) \<Rightarrow>
         if \<not> co_visible ov then Inr bgra
         else
           let left = hx - fst (hot_spot sh); top = hy - snd (hot_spot sh);
               (fw, fh) = (unat width, unat height); (sw, shh) = (unat (sh_width sh), unat (sh_height sh));
               (sx0, sy0) = (sint left, sint top) in
           if int fw \<le> sx0 \<or> int fh \<le> sy0 \<or> sx0 + int sw \<le> 0 \<or> sy0 + int shh \<le> 0 then Inr bgra
           else if shape_type sh = type_color T then draw_loop (color_pixel sh) (sx0, sy0) (sw, shh) (fw, fh) bgra
           else if shape_type sh = type_masked T then draw_loop (masked_pixel sh) (sx0, sy0) (sw, shh) (fw, fh) bgra
           else if shape_type sh = type_mono T then
             (if length (sh_data sh) < mono_pitch sh * shh * 2 then Inr bgra
              else draw_loop (mono_pixel sh) (sx0, sy0) (sw, shh) (fw, fh) bgra)
           else Inr bgra
     | _ \<Rightarrow> Inr bgra)"

subsection \<open>What a shape does to one pixel\<close>

type_synonym pixel = "byte \<times> byte \<times> byte"

definition get_pixel :: "nat \<Rightarrow> bytes \<Rightarrow> pixel" where
  "get_pixel fi l = (l ! fi, l ! (fi + 1), l ! (fi + 2))"

definition set_pixel :: "nat \<Rightarrow> pixel \<Rightarrow> bytes \<Rightarrow> bytes" where
  "set_pixel fi p l = l[fi := fst p, fi + 1 := fst (snd p), fi + 2 := snd (snd p)]"

definition blend_op :: "byte \<Rightarrow> byte \<Rightarrow> byte \<Rightarrow> byte \<Rightarrow> pixel \<Rightarrow> pixel" where
  "blend_op r g b a = (\<lambda>(ob, og, or).
     if a = 255 then (b, g, r) else if a = 0 then (ob, og, or)
     else (blend_byte a b ob, blend_byte a g og, blend_byte a r or))"

definition color_op :: "PointerShape \<Rightarrow> nat \<Rightarrow> nat \<Rightarrow> pixel \<Rightarrow> pixel" where
  "color_op sh x y p =
    (let ci = y * unat (color_pitch sh) + x * 4; d = sh_data sh in
     if length d < ci + 4 then p else blend_op (d ! (ci + 2)) (d ! (ci + 1)) (d ! ci) (d ! (ci + 3)) p)"

definition masked_op :: "PointerShape \<Rightarrow> nat \<Rightarrow> nat \<Rightarrow> pixel \<Rightarrow> pixel" where
  "masked_op sh x y p =
    (let off = unat (color_pitch sh) * unat (sh_height sh) + y * (((unat (sh_width sh) + 31) div 32) * 4) + x div 8 in
     if off < length (sh_data sh) \<and> sh_data sh ! off AND shape_bit x \<noteq> 0 then p else color_op sh x y p)"

text \<open>Two planes of one bit per pixel: set in the first, the frame shows through; then set in the second, it is inverted.\<close>

definition mono_op :: "PointerShape \<Rightarrow> nat \<Rightarrow> nat \<Rightarrow> pixel \<Rightarrow> pixel" where
  "mono_op sh x y = (\<lambda>(b, g, r).
    (let pitch = mono_pitch sh;
         mx = x div max ((unat (sh_width sh) + pitch * 8 - 1) div (pitch * 8)) 1;
         off = y * pitch + mx div 8 in
     if sh_data sh ! off AND shape_bit mx \<noteq> 0 then (b, g, r)
     else if sh_data sh ! (pitch * unat (sh_height sh) + off) AND shape_bit mx \<noteq> 0 then (255 - b, 255 - g, 255 - r)
     else (0, 0, 0)))"

definition shape_op :: "pointer_types \<Rightarrow> PointerShape \<Rightarrow> nat \<Rightarrow> nat \<Rightarrow> pixel \<Rightarrow> pixel" where
  "shape_op T sh x y p =
    (if shape_type sh = type_color T then color_op sh x y p
     else if shape_type sh = type_masked T then masked_op sh x y p
     else if shape_type sh = type_mono T \<and> mono_pitch sh * unat (sh_height sh) * 2 \<le> length (sh_data sh)
     then mono_op sh x y p else p)"

lemma set_get_pixel [simp]: "set_pixel fi (get_pixel fi l) l = l"
  by (simp add: set_pixel_def get_pixel_def)

lemma length_set_pixel [simp]: "length (set_pixel fi p l) = length l"
  by (simp add: set_pixel_def)

lemma get_set_pixel: "fi + 2 < length l \<Longrightarrow> get_pixel fi (set_pixel fi p l) = p"
  by (cases p) (simp add: set_pixel_def get_pixel_def)

lemma get_set_other: "4 dvd fi \<Longrightarrow> 4 dvd fj \<Longrightarrow> fi \<noteq> fj \<Longrightarrow> get_pixel fj (set_pixel fi p l) = get_pixel fj l"
  by (auto simp: set_pixel_def get_pixel_def nth_list_update elim!: dvdE; presburger?)

lemma set_pixel_alpha: "4 dvd fi \<Longrightarrow> 4 dvd fj \<Longrightarrow> set_pixel fi p l ! (fj + 3) = l ! (fj + 3)"
proof (elim dvdE)
  fix k j
  assume "fi = 4 * k" "fj = 4 * j"
  moreover have "4 * k \<noteq> 4 * j + 3" "4 * k + 1 \<noteq> 4 * j + 3" "4 * k + 2 \<noteq> 4 * j + 3" by presburger+
  ultimately show ?thesis by (simp add: set_pixel_def)
qed

lemma put_pixel_set:
  "fi + 2 < length l \<Longrightarrow> put_pixel fi f l = Inr (set_pixel fi (f (get_pixel fi l)) l)"
  by (simp add: put_pixel_def set_pixel_def get_pixel_def split: prod.split)

lemma blend_pixel_set:
  "fi + 2 < length l \<Longrightarrow> blend_pixel l fi r g b a = Inr (set_pixel fi (blend_op r g b a (get_pixel fi l)) l)"
  using set_get_pixel [of fi l]
  by (simp add: blend_pixel_def put_pixel_set blend_op_def case_prod_unfold del: set_get_pixel)

lemma color_pixel_set:
  "fi + 2 < length l \<Longrightarrow> color_pixel sh x y fi l = Inr (set_pixel fi (color_op sh x y (get_pixel fi l)) l)"
  by (simp add: color_pixel_def color_op_def blend_pixel_set Let_def)

lemma masked_pixel_set:
  "fi + 2 < length l \<Longrightarrow> masked_pixel sh x y fi l = Inr (set_pixel fi (masked_op sh x y (get_pixel fi l)) l)"
  by (simp add: masked_pixel_def masked_op_def color_pixel_set Let_def)

lemma mono_offset:
  assumes "x < unat (sh_width sh)" "y < unat (sh_height sh)"
    and "mx = x div max ((unat (sh_width sh) + mono_pitch sh * 8 - 1) div (mono_pitch sh * 8)) 1"
  shows "y * mono_pitch sh + mx div 8 < mono_pitch sh * unat (sh_height sh)"
proof -
  define p where "p = mono_pitch sh"
  define w where "w = unat (sh_width sh)"
  define k where "k = max ((w + p * 8 - 1) div (p * 8)) 1"
  have p: "0 < p" by (simp add: p_def mono_pitch_def)
  have "w \<le> (w + p * 8 - 1) div (p * 8) * (p * 8)"
  proof -
    have "w + p * 8 - 1 = (w + p * 8 - 1) div (p * 8) * (p * 8) + (w + p * 8 - 1) mod (p * 8)"
      by (rule div_mult_mod_eq [symmetric])
    moreover have "(w + p * 8 - 1) mod (p * 8) < p * 8" using p by simp
    ultimately show ?thesis using p by linarith
  qed
  also have "\<dots> \<le> k * (p * 8)" by (simp add: k_def)
  finally have "x < p * 8 * k" using assms(1) by (simp add: w_def mult.commute)
  moreover have "0 < k" by (simp add: k_def)
  ultimately have "x div k < p * 8" by (simp add: div_less_iff_less_mult)
  then have "mx < p * 8" by (simp add: assms(3) k_def w_def p_def)
  then have "mx div 8 < p" by (simp add: div_less_iff_less_mult mult.commute)
  moreover have "Suc y * p \<le> unat (sh_height sh) * p" using assms(2) by (intro mult_right_mono) auto
  ultimately show ?thesis unfolding p_def [symmetric] by (simp add: mult.commute)
qed

lemma mono_pixel_set:
  assumes "fi + 2 < length l" "x < unat (sh_width sh)" "y < unat (sh_height sh)"
    and "mono_pitch sh * unat (sh_height sh) * 2 \<le> length (sh_data sh)"
  shows "mono_pixel sh x y fi l = Inr (set_pixel fi (mono_op sh x y (get_pixel fi l)) l)"
proof -
  define mx where "mx = x div max ((unat (sh_width sh) + mono_pitch sh * 8 - 1) div (mono_pitch sh * 8)) 1"
  note off = mono_offset [OF assms(2,3) mx_def]
  define q where "q = y * mono_pitch sh + mx div 8"
  have "q < length (sh_data sh)" "mono_pitch sh * unat (sh_height sh) + q < length (sh_data sh)"
    using off assms(4) by (simp_all add: q_def)
  moreover obtain b g r where px: "get_pixel fi l = (b, g, r)" by (cases "get_pixel fi l") auto
  moreover have "set_pixel fi (b, g, r) l = l" by (simp add: px [symmetric])
  ultimately show ?thesis
    using put_pixel_set [OF assms(1)]
    by (simp add: mono_pixel_def mono_op_def byte_at_def Let_def mx_def [symmetric] q_def [symmetric] del: One_nat_def)
qed

subsection \<open>The loops\<close>

text \<open>
  The frame after the shape pixels in \<open>D\<close>: every pixel of the frame that such a pixel falls on has been changed by
  \<open>f\<close>, and nothing else.
\<close>

definition drawn ::
  "(nat \<Rightarrow> nat \<Rightarrow> pixel \<Rightarrow> pixel) \<Rightarrow> int \<times> int \<Rightarrow> nat \<times> nat \<Rightarrow> (nat \<times> nat) set \<Rightarrow> bytes \<Rightarrow> bytes \<Rightarrow> bool" where
  "drawn f = (\<lambda>(sx0, sy0) (fw, fh) D l out. length out = length l \<and>
     (\<forall>X < fw. \<forall>Y < fh. let i = 4 * (Y * fw + X); x = int X - sx0; y = int Y - sy0 in
        get_pixel i out =
          (if 0 \<le> x \<and> 0 \<le> y \<and> (nat x, nat y) \<in> D then f (nat x) (nat y) (get_pixel i l) else get_pixel i l) \<and>
        out ! (i + 3) = l ! (i + 3)))"

lemma drawn_empty: "drawn f org fr {} l l"
  by (simp add: drawn_def Let_def split: prod.split)

lemma drawnD:
  assumes "drawn f (sx0, sy0) (fw, fh) D l out" "X < fw" "Y < fh"
  shows "get_pixel (4 * (Y * fw + X)) out =
      (if 0 \<le> int X - sx0 \<and> 0 \<le> int Y - sy0 \<and> (nat (int X - sx0), nat (int Y - sy0)) \<in> D
       then f (nat (int X - sx0)) (nat (int Y - sy0)) (get_pixel (4 * (Y * fw + X)) l) else get_pixel (4 * (Y * fw + X)) l)"
    "out ! (4 * (Y * fw + X) + 3) = l ! (4 * (Y * fw + X) + 3)"
  using assms by (simp_all add: drawn_def Let_def)

lemma pixel_place_inj:
  "X < fw \<Longrightarrow> X' < fw \<Longrightarrow> Y * fw + X = Y' * fw + X' \<longleftrightarrow> X = X' \<and> Y = Y'" for X :: nat
  by (metis add.commute div_mult_self3 div_less mod_mult_self3 mod_less add_0 gr_implies_not0 mult.commute)

text \<open>A pixel outside the frame, and one inside.\<close>

lemma drawn_outside:
  assumes "drawn f (sx0, sy0) (fw, fh) D l out"
    and "\<And>x y. (x, y) \<in> E \<Longrightarrow> sx0 + int x < 0 \<or> int fw \<le> sx0 + int x \<or> sy0 + int y < 0 \<or> int fh \<le> sy0 + int y"
  shows "drawn f (sx0, sy0) (fw, fh) (D \<union> E) l out"
proof -
  have "(nat (int X - sx0), nat (int Y - sy0)) \<notin> E"
    if r: "X < fw" "Y < fh" "0 \<le> int X - sx0" "0 \<le> int Y - sy0" for X Y
  proof
    assume "(nat (int X - sx0), nat (int Y - sy0)) \<in> E"
    from assms(2) [OF this] r show False by auto
  qed
  with assms(1) show ?thesis by (auto simp: drawn_def Let_def)
qed

lemma drawn_inside:
  assumes "drawn f (sx0, sy0) (fw, fh) D l out" "(x, y) \<notin> D"
    and "sx0 + int x = int X" "X < fw" "sy0 + int y = int Y" "Y < fh"
    and "i = 4 * (Y * fw + X)" "i + 2 < length l"
  shows "drawn f (sx0, sy0) (fw, fh) (insert (x, y) D) l (set_pixel i (f x y (get_pixel i out)) out)"
proof -
  have xy: "nat (int X - sx0) = x" "nat (int Y - sy0) = y" "0 \<le> int X - sx0" "0 \<le> int Y - sy0" "sx0 \<le> int X" "sy0 \<le> int Y"
    using assms(3,5) by auto
  have old: "get_pixel i out = get_pixel i l"
    using drawnD(1) [OF assms(1,4,6)] assms(2) by (simp add: xy assms(7))
  have len: "length out = length l" using assms(1) by (simp add: drawn_def)
  show ?thesis
    unfolding drawn_def prod.case
  proof (intro conjI allI impI)
    show "length (set_pixel i (f x y (get_pixel i out)) out) = length l" by (simp add: len)
    fix X' Y' assume r: "X' < fw" "Y' < fh"
    define j where "j = 4 * (Y' * fw + X')"
    have dvd: "4 dvd i" "4 dvd j" by (simp_all add: assms(7) j_def)
    have al: "set_pixel i p out ! (j + 3) = l ! (j + 3)" for p
      using drawnD(2) [OF assms(1) r] set_pixel_alpha [OF dvd] by (simp add: j_def)
    have "get_pixel j (set_pixel i (f x y (get_pixel i out)) out) =
        (if 0 \<le> int X' - sx0 \<and> 0 \<le> int Y' - sy0 \<and> (nat (int X' - sx0), nat (int Y' - sy0)) \<in> insert (x, y) D
         then f (nat (int X' - sx0)) (nat (int Y' - sy0)) (get_pixel j l) else get_pixel j l)"
    proof (cases "X' = X \<and> Y' = Y")
      case True
      then show ?thesis using get_set_pixel [of i out] assms(7,8) len old by (simp add: xy j_def)
    next
      case False
      then have "i \<noteq> j" using pixel_place_inj [OF assms(4) r(1), of Y Y'] by (auto simp: assms(7) j_def)
      moreover have "\<not> (0 \<le> int X' - sx0 \<and> 0 \<le> int Y' - sy0 \<and> (nat (int X' - sx0), nat (int Y' - sy0)) = (x, y))"
        using False assms(3,5) by auto
      ultimately show ?thesis
        using drawnD(1) [OF assms(1) r, folded j_def] get_set_other [OF dvd, of "f x y (get_pixel i out)" out] by auto
    qed
    with al show "let i' = 4 * (Y' * fw + X'); x' = int X' - sx0; y' = int Y' - sy0 in
        get_pixel i' (set_pixel i (f x y (get_pixel i out)) out) =
          (if 0 \<le> x' \<and> 0 \<le> y' \<and> (nat x', nat y') \<in> insert (x, y) D then f (nat x') (nat y') (get_pixel i' l) else get_pixel i' l) \<and>
        set_pixel i (f x y (get_pixel i out)) out ! (i' + 3) = l ! (i' + 3)"
      unfolding j_def Let_def by blast
  qed
qed

lemma draw_loop_draws:
  assumes "length l = 4 * (fw * fh)"
    and "\<And>x y i out. x < sw \<Longrightarrow> y < sh \<Longrightarrow> i + 2 < length out \<Longrightarrow> pixel x y i out = Inr (set_pixel i (f x y (get_pixel i out)) out)"
  shows "\<exists>out. draw_loop pixel (sx0, sy0) (sw, sh) (fw, fh) l = Inr out \<and>
    drawn f (sx0, sy0) (fw, fh) ({..<sw} \<times> {..<sh}) l out"
proof -
  define row where "row y = (\<lambda>x bgra. let dx = sx0 + int x in
      if dx < 0 \<or> int fw \<le> dx then Inr bgra else pixel x y ((nat (sy0 + int y) * fw + nat dx) * 4) bgra)" for y
  have row: "\<exists>out'. for_each (row y) [0..<sw] out = Inr out' \<and> drawn f (sx0, sy0) (fw, fh) ({..<sw} \<times> {..<Suc y}) l out'"
    if y: "y < sh" "0 \<le> sy0 + int y" "sy0 + int y < int fh" and out: "drawn f (sx0, sy0) (fw, fh) ({..<sw} \<times> {..<y}) l out" for y out
  proof -
    let ?D = "\<lambda>k. {..<sw} \<times> {..<y} \<union> {..<k} \<times> {y}"
    have "\<exists>out'. for_each (row y) [0..<sw] out = Inr out' \<and> drawn f (sx0, sy0) (fw, fh) (?D sw) l out'"
    proof (rule for_each_upt [where P = "\<lambda>k. drawn f (sx0, sy0) (fw, fh) (?D k) l"])
      show "drawn f (sx0, sy0) (fw, fh) (?D 0) l out" using out by simp
      fix k out assume k: "k < sw" and d: "drawn f (sx0, sy0) (fw, fh) (?D k) l out"
      have next': "insert (k, y) (?D k) = ?D (Suc k)" by (auto simp: less_Suc_eq)
      show "\<exists>out'. row y k out = Inr out' \<and> drawn f (sx0, sy0) (fw, fh) (?D (Suc k)) l out'"
      proof (cases "sx0 + int k < 0 \<or> int fw \<le> sx0 + int k")
        case True
        then have "drawn f (sx0, sy0) (fw, fh) (?D k \<union> {(k, y)}) l out" by (intro drawn_outside [OF d]) auto
        then have "drawn f (sx0, sy0) (fw, fh) (?D (Suc k)) l out" using next' by simp
        with True show ?thesis by (auto simp: row_def)
      next
        case False
        define X Y where "X = nat (sx0 + int k)" and "Y = nat (sy0 + int y)"
        have XY: "sx0 + int k = int X" "X < fw" "sy0 + int y = int Y" "Y < fh" using False y by (auto simp: X_def Y_def)
        define i where "i = 4 * (Y * fw + X)"
        have "Suc Y * fw \<le> fh * fw" using XY(4) by (intro mult_right_mono) auto
        then have i: "i + 2 < length l" using XY(2) assms(1) by (simp add: i_def algebra_simps)
        have len: "length out = length l" using d by (simp add: drawn_def)
        have "row y k out = Inr (set_pixel i (f k y (get_pixel i out)) out)"
          using False assms(2) [OF k y(1), of i out] i len
          by (simp add: row_def Let_def i_def X_def Y_def mult.commute)
        moreover have "drawn f (sx0, sy0) (fw, fh) (insert (k, y) (?D k)) l (set_pixel i (f k y (get_pixel i out)) out)"
          by (rule drawn_inside [OF d _ XY i_def i]) auto
        ultimately show ?thesis unfolding next' by blast
      qed
    qed
    moreover have "?D sw = {..<sw} \<times> {..<Suc y}" by auto
    ultimately show ?thesis by simp
  qed
  define rows where "rows = (\<lambda>y bgra. let dy = sy0 + int y in
      if dy < 0 \<or> int fh \<le> dy then Inr bgra else for_each (row y) [0..<sw] bgra)"
  have "\<exists>out. for_each rows [0..<sh] l = Inr out \<and> drawn f (sx0, sy0) (fw, fh) ({..<sw} \<times> {..<sh}) l out"
  proof (rule for_each_upt [where P = "\<lambda>y. drawn f (sx0, sy0) (fw, fh) ({..<sw} \<times> {..<y}) l"])
    show "drawn f (sx0, sy0) (fw, fh) ({..<sw} \<times> {..<0}) l l" by (simp add: drawn_empty)
    fix y out assume y: "y < sh" and d: "drawn f (sx0, sy0) (fw, fh) ({..<sw} \<times> {..<y}) l out"
    show "\<exists>out'. rows y out = Inr out' \<and> drawn f (sx0, sy0) (fw, fh) ({..<sw} \<times> {..<Suc y}) l out'"
    proof (cases "sy0 + int y < 0 \<or> int fh \<le> sy0 + int y")
      case True
      then have "drawn f (sx0, sy0) (fw, fh) ({..<sw} \<times> {..<y} \<union> {..<sw} \<times> {y}) l out"
        by (intro drawn_outside [OF d]) auto
      moreover have "{..<sw} \<times> {..<y} \<union> {..<sw} \<times> {y} = {..<sw} \<times> {..<Suc y}" by auto
      ultimately have "drawn f (sx0, sy0) (fw, fh) ({..<sw} \<times> {..<Suc y}) l out" by simp
      with True show ?thesis by (auto simp: rows_def)
    next
      case False
      with row [OF y _ _ d] show ?thesis by (simp add: rows_def)
    qed
  qed
  then show ?thesis unfolding draw_loop_def prod.case rows_def row_def Let_def .
qed

text \<open>The specification of drawing: the rectangle of the shape, clipped to the frame, is changed pixel by pixel.\<close>

definition overlaid ::
  "(nat \<Rightarrow> nat \<Rightarrow> pixel \<Rightarrow> pixel) \<Rightarrow> int \<times> int \<Rightarrow> nat \<times> nat \<Rightarrow> nat \<times> nat \<Rightarrow> bytes \<Rightarrow> bytes \<Rightarrow> bool" where
  "overlaid f = (\<lambda>(left, ytop) (sw, sh) (fw, fh) l out. length out = length l \<and>
     (\<forall>X < fw. \<forall>Y < fh. let i = 4 * (Y * fw + X) in
       out ! (i + 3) = l ! (i + 3) \<and>
       get_pixel i out =
         (if left \<le> int X \<and> int X < left + int sw \<and> ytop \<le> int Y \<and> int Y < ytop + int sh
          then f (nat (int X - left)) (nat (int Y - ytop)) (get_pixel i l) else get_pixel i l)))"

lemma drawn_overlaid:
  assumes "drawn f (left, ytop) (fw, fh) ({..<sw} \<times> {..<sh}) l out"
  shows "overlaid f (left, ytop) (sw, sh) (fw, fh) l out"
proof -
  have "(0 \<le> int X - left \<and> 0 \<le> int Y - ytop \<and> (nat (int X - left), nat (int Y - ytop)) \<in> {..<sw} \<times> {..<sh}) \<longleftrightarrow>
      (left \<le> int X \<and> int X < left + int sw \<and> ytop \<le> int Y \<and> int Y < ytop + int sh)" for X Y
    by auto
  with assms show ?thesis unfolding drawn_def overlaid_def prod.case Let_def by simp
qed

lemma overlaid_same:
  assumes "\<And>X Y x y p. X < fw \<Longrightarrow> Y < fh \<Longrightarrow> int X = left + int x \<Longrightarrow> int Y = ytop + int y \<Longrightarrow> x < sw \<Longrightarrow> y < sh \<Longrightarrow> f x y p = p"
  shows "overlaid f (left, ytop) (sw, sh) (fw, fh) l l"
proof -
  have "f (nat (int X - left)) (nat (int Y - ytop)) p = p"
    if "X < fw" "Y < fh" "left \<le> int X" "int X < left + int sw" "ytop \<le> int Y" "int Y < ytop + int sh" for X Y p
    using that by (intro assms [of X Y]) auto
  then show ?thesis by (simp add: overlaid_def Let_def)
qed

lemma draw_loop_overlaid:
  assumes "length l = 4 * (fw * fh)"
    and "\<And>x y i out. x < sw \<Longrightarrow> y < sh \<Longrightarrow> i + 2 < length out \<Longrightarrow> pixel x y i out = Inr (set_pixel i (f x y (get_pixel i out)) out)"
  shows "\<exists>out. draw_loop pixel (left, ytop) (sw, sh) (fw, fh) l = Inr out \<and> overlaid f (left, ytop) (sw, sh) (fw, fh) l out"
proof -
  have "\<exists>out. draw_loop pixel (left, ytop) (sw, sh) (fw, fh) l = Inr out \<and> drawn f (left, ytop) (fw, fh) ({..<sw} \<times> {..<sh}) l out"
    by (rule draw_loop_draws [OF assms(1)]) (rule assms(2))
  then show ?thesis using drawn_overlaid by blast
qed

lemma draw_overlaid:
  assumes "length bgra = 4 * (unat width * unat height)"
    and "co_shape ov = Some sh" "co_position ov = Some (hx, hy)"
  shows "\<exists>out. draw T ov bgra width height = Inr out \<and>
    overlaid (if co_visible ov then shape_op T sh else (\<lambda>x y p. p))
      (sint (hx - fst (hot_spot sh)), sint (hy - snd (hot_spot sh))) (unat (sh_width sh), unat (sh_height sh))
      (unat width, unat height) bgra out"
proof -
  define left ytop where "left = sint (hx - fst (hot_spot sh))" and "ytop = sint (hy - snd (hot_spot sh))"
  define sw shh fw fh where "sw = unat (sh_width sh)" and "shh = unat (sh_height sh)" and "fw = unat width" and "fh = unat height"
  let ?out = "\<lambda>f out. overlaid f (left, ytop) (sw, shh) (fw, fh) bgra out"
  let ?away = "int fw \<le> left \<or> int fh \<le> ytop \<or> left + int sw \<le> 0 \<or> ytop + int shh \<le> 0"
  let ?short = "length (sh_data sh) < mono_pitch sh * shh * 2"
  have len: "length bgra = 4 * (fw * fh)" using assms(1) by (simp add: fw_def fh_def)
  have draw: "draw T ov bgra width height =
      (if \<not> co_visible ov \<or> ?away then Inr bgra
       else if shape_type sh = type_color T then draw_loop (color_pixel sh) (left, ytop) (sw, shh) (fw, fh) bgra
       else if shape_type sh = type_masked T then draw_loop (masked_pixel sh) (left, ytop) (sw, shh) (fw, fh) bgra
       else if shape_type sh = type_mono T \<and> \<not> ?short then draw_loop (mono_pixel sh) (left, ytop) (sw, shh) (fw, fh) bgra
       else Inr bgra)"
    by (simp add: draw_def assms(2,3) left_def ytop_def sw_def shh_def fw_def fh_def Let_def)
  have same: "?out f bgra" if "?away" for f
    using that by (intro overlaid_same) linarith
  have ident: "?out (\<lambda>x y p. p) bgra" by (rule overlaid_same) simp
  have color: "\<exists>out. draw_loop (color_pixel sh) (left, ytop) (sw, shh) (fw, fh) bgra = Inr out \<and> ?out (color_op sh) out"
    by (rule draw_loop_overlaid [OF len]) (rule color_pixel_set)
  have masked: "\<exists>out. draw_loop (masked_pixel sh) (left, ytop) (sw, shh) (fw, fh) bgra = Inr out \<and> ?out (masked_op sh) out"
    by (rule draw_loop_overlaid [OF len]) (rule masked_pixel_set)
  have mono: "\<exists>out. draw_loop (mono_pixel sh) (left, ytop) (sw, shh) (fw, fh) bgra = Inr out \<and> ?out (mono_op sh) out" if "\<not> ?short"
    using that by (intro draw_loop_overlaid [OF len], intro mono_pixel_set) (simp_all add: sw_def shh_def)
  have op: "shape_op T sh = (if shape_type sh = type_color T then color_op sh else if shape_type sh = type_masked T then masked_op sh
      else if shape_type sh = type_mono T \<and> \<not> ?short then mono_op sh else (\<lambda>x y p. p))"
    by (auto simp: shape_op_def fun_eq_iff shh_def not_less)
  have "\<exists>out. draw T ov bgra width height = Inr out \<and> ?out (if co_visible ov then shape_op T sh else (\<lambda>x y p. p)) out"
    unfolding draw op using same ident color masked mono by auto
  then show ?thesis by (simp add: left_def ytop_def sw_def shh_def fw_def fh_def)
qed



end
