(* ===== verification/Openh264.thy ===== *)
theory Openh264
  imports H264_Parser
begin

text \<open>
  The OpenH264 encoder path (lumen-encode/src/openh264.rs): the cropping and de-padding of a frame in front of the
  encoder, and the helpers that split an Annex-B stream into units and find its parameter sets. The encoder itself
  (conversion to YUV and encoding) is the \<open>openh264\<close> crate, an argument.
\<close>

subsection \<open>Units of a stream\<close>

function find_start :: "bytes \<Rightarrow> nat \<Rightarrow> (nat \<times> nat) option" where
  "find_start data i =
    (if i + 3 < length data then
       if data ! i = 0 \<and> data ! (i + 1) = 0 \<and> data ! (i + 2) = 0 \<and> data ! (i + 3) = 1 then Some (i, 4)
       else if data ! i = 0 \<and> data ! (i + 1) = 0 \<and> data ! (i + 2) = 1 then Some (i, 3)
       else find_start data (i + 1)
     else None)"
  by pat_completeness auto
termination
  by (relation "measure (\<lambda>(data, i). length data - i)") auto

declare find_start.simps [simp del]

text \<open>The length of the start code at a position.\<close>

definition code_length :: "bytes \<Rightarrow> nat \<Rightarrow> nat" where
  "code_length data k = (if data ! (k + 2) = 0 then 4 else 3)"

lemma find_start_eq: "find_start data i = map_option (\<lambda>k. (k, code_length data k)) (find_start_code data i)"
proof (induction "length data - i" arbitrary: i)
  case 0
  then show ?case by (subst find_start.simps, subst find_start_code.simps) simp
next
  case (Suc n)
  have "find_start data (i + 1) = map_option (\<lambda>k. (k, code_length data k)) (find_start_code data (i + 1))"
    using Suc(2) by (intro Suc(1)) simp
  then show ?case
    by (subst find_start.simps, subst find_start_code.simps) (auto simp: code_length_def)
qed

lemma find_start_Some: "find_start data i = Some (k, len) \<Longrightarrow> i \<le> k \<and> k + 3 < length data \<and> len = code_length data k"
  by (auto simp: find_start_eq find_start_code_Some_iff dest: start_code_at_bound)

text \<open>
  The loop of \<open>annexb_nals\<close>, at a start code of length \<open>len\<close>. That length is 3 or 4; the branch
  for 0 only tells the function package so.
\<close>

function nals_from :: "bytes \<Rightarrow> nat \<Rightarrow> nat \<Rightarrow> bytes list" where
  "nals_from data pos len =
    (if len = 0 then []
     else case find_start data (pos + len) of
       None \<Rightarrow> [drop pos data]
     | Some (next_pos, next_len) \<Rightarrow> drop pos (take next_pos data) # nals_from data next_pos next_len)"
  by pat_completeness auto
termination
  by (relation "measure (\<lambda>(data, pos, len). length data - pos)") (auto dest!: find_start_Some)

declare nals_from.simps [simp del]

definition annexb_nals :: "bytes \<Rightarrow> bytes list" where
  "annexb_nals data = (case find_start data 0 of None \<Rightarrow> [] | Some (pos, len) \<Rightarrow> nals_from data pos len)"

text \<open>\<open>strip_start_code\<close> of this file is the same text as that of h264.rs.\<close>

definition strip_code :: "bytes \<Rightarrow> bytes" where
  "strip_code nal =
    (if 4 < length nal \<and> take 4 nal = [0, 0, 0, 1] then drop 4 nal
     else if 3 < length nal \<and> take 3 nal = [0, 0, 1] then drop 3 nal
     else nal)"

fun sps_pps_loop :: "bytes list \<Rightarrow> bytes option \<Rightarrow> bytes option \<Rightarrow> bytes option \<times> bytes option" where
  "sps_pps_loop [] sps pps = (sps, pps)"
| "sps_pps_loop (nal # nals) sps pps =
    (let raw = strip_code nal in
     if raw = [] then sps_pps_loop nals sps pps
     else if raw ! 0 AND 0x1f = 7 then sps_pps_loop nals (Some raw) pps
     else if raw ! 0 AND 0x1f = 8 then sps_pps_loop nals sps (Some raw)
     else sps_pps_loop nals sps pps)"

definition extract_sps_pps :: "bytes \<Rightarrow> (bytes \<times> bytes) option" where
  "extract_sps_pps data =
    (case sps_pps_loop (annexb_nals data) None None of (Some sps, Some pps) \<Rightarrow> Some (sps, pps) | _ \<Rightarrow> None)"

subsection \<open>The two splitters agree\<close>

lemma code_skip: "start_code_at data pos \<Longrightarrow> find_start_code data (pos + code_length data pos) = find_start_code data (pos + 3)"
proof (cases "data ! (pos + 2) = 0")
  case True
  assume "start_code_at data pos"
  with True have "\<not> start_code_at data (pos + 3)" by (auto simp: start_code_at_def)
  then have "find_start_code data (pos + 3) = (if pos + 6 < length data then find_start_code data (pos + 4) else None)"
    by (subst find_start_code_step) (simp add: ac_simps)
  moreover have "find_start_code data (pos + 4) = None" if "\<not> pos + 6 < length data"
    using that by (subst find_start_code.simps) simp
  ultimately show ?thesis using True by (simp add: code_length_def)
qed (simp add: code_length_def)

lemma nals_from_eq:
  "start_code_at data pos \<Longrightarrow> nals_from data pos (code_length data pos) =
    (let (out, rest) = annex_b_loop (drop pos data) in out @ [rest])"
proof (induction "length data - pos" arbitrary: pos rule: less_induct)
  case less
  have here: "start_code_at (drop pos data) 0" using less.prems by (simp add: start_code_at_drop)
  have len: "code_length data pos \<noteq> 0" by (simp add: code_length_def)
  show ?case
  proof (cases "find_start_code data (pos + 3)")
    case None
    then have "find_start_code (drop pos data) 3 = None" by (simp add: find_start_code_drop_None)
    with None here less.prems len show ?thesis
      by (subst nals_from.simps) (simp add: find_start_eq code_skip annex_b_loop_open)
  next
    case (Some n)
    note nx = next_start_code [OF Some]
    have "find_start_code (drop pos data) 3 = Some (n - pos)"
      using Some nx(2) by (intro find_start_code_drop_Some) simp
    moreover have "start_code_at data n" using Some by (simp add: find_start_code_Some_iff)
    moreover have "length data - n < length data - pos" using nx(2,3) by simp
    ultimately have "nals_from data n (code_length data n) = (let (out, rest) = annex_b_loop (drop n data) in out @ [rest])"
      using less.hyps by blast
    moreover have "drop (n - pos) (drop pos data) = drop n data" using nx(2) by simp
    ultimately show ?thesis
      using Some here less.prems len \<open>find_start_code (drop pos data) 3 = Some (n - pos)\<close>
      by (subst nals_from.simps) (simp add: find_start_eq code_skip annex_b_loop_open drop_take split: prod.split)
  qed
qed

lemma annexb_nals_push:
  "annexb_nals data =
    (if has_start_code data then let (out, p) = push H264Parser_new data in out @ [buf p] else [])"
proof (cases "find_start_code data 0")
  case None
  then show ?thesis by (simp add: annexb_nals_def find_start_eq has_start_code_def)
next
  case (Some k)
  then have "start_code_at data k" by (simp add: find_start_code_Some_iff)
  with Some annex_b_loop_skip [OF Some] show ?thesis
    by (simp add: annexb_nals_def find_start_eq has_start_code_def nals_from_eq push_annex_b_eq H264Parser_new_def Let_def
        split: prod.split)
qed

text \<open>C26. The two NAL splitters of the repository agree: on any stream the one-shot splitter of the encoder crate returns
  the units that the incremental parser of h264.rs emits when it is given the whole stream, followed by what stays in
  the parser's buffer; without a start code it returns nothing.\<close>

theorem splitters_agree:
  "annexb_nals data =
    (if has_start_code data then let (out, p) = push H264Parser_new data in out @ [buf p] else [])"
  by (rule annexb_nals_push)

subsection \<open>Parameter sets\<close>

definition raw_type :: "bytes \<Rightarrow> byte" where
  "raw_type u = strip_start_code u ! 0 AND 0x1f"

definition last_of_type :: "byte \<Rightarrow> bytes list \<Rightarrow> bytes option" where
  "last_of_type t us = map_option strip_start_code (find (\<lambda>u. raw_type u = t) (rev us))"

lemma find_append: "find P (xs @ ys) = (case find P xs of Some x \<Rightarrow> Some x | None \<Rightarrow> find P ys)"
  by (induction xs) simp_all

lemma wf_unit_strip: "wf_unit u \<Longrightarrow> strip_start_code u \<noteq> [] \<and> strip_code u = strip_start_code u"
  by (elim wf_unit_cases) (auto simp: strip_start_code_def strip_code_def wf_payload_def)

lemma sps_pps_loop_last:
  "\<forall>u \<in> set us. wf_unit u \<Longrightarrow> sps_pps_loop us sps pps =
    (case last_of_type 7 us of Some r \<Rightarrow> Some r | None \<Rightarrow> sps, case last_of_type 8 us of Some r \<Rightarrow> Some r | None \<Rightarrow> pps)"
proof (induction us arbitrary: sps pps)
  case (Cons u us)
  then have "strip_start_code u \<noteq> []" "strip_code u = strip_start_code u" using wf_unit_strip [of u] by simp_all
  with Cons show ?case
    by (auto simp: last_of_type_def find_append raw_type_def split: option.splits)
qed (simp add: last_of_type_def)

lemma annexb_nals_wf:
  assumes "\<forall>u \<in> set us. wf_unit u"
  shows "annexb_nals (concat us) = us"
proof (cases us rule: rev_cases)
  case Nil
  then show ?thesis by (simp add: annexb_nals_def find_start.simps)
next
  case (snoc vs v)
  with assms have wf: "\<forall>u \<in> set vs. wf_unit u" "wf_unit v" by simp_all
  then have sc: "has_start_code (concat vs @ v)"
    using annex_b_loop_wf [OF wf(1) wf_unit_alone(1) [OF wf(2)]] by (auto intro: start_code_at_has)
  from push_all_wf [OF wf, of "[concat vs @ v]"] have "push H264Parser_new (concat vs @ v) = (vs, \<lparr>buf = v\<rparr>)"
    by (auto split: prod.splits)
  moreover note annexb_nals_push [of "concat vs @ v"]
  ultimately show ?thesis using sc by (simp add: snoc)
qed

text \<open>From a stream of well-formed units the encoder crate extracts exactly the last sequence and the last picture
  parameter set, without their start codes, and nothing if one of them is missing.\<close>

theorem parameter_sets_extracted:
  assumes "\<forall>u \<in> set us. wf_unit u"
  shows "extract_sps_pps (concat us) =
    (case (last_of_type 7 us, last_of_type 8 us) of (Some sps, Some pps) \<Rightarrow> Some (sps, pps) | _ \<Rightarrow> None)"
  using sps_pps_loop_last [OF assms, of None None]
  by (simp add: extract_sps_pps_def annexb_nals_wf [OF assms] split: option.split)

theorem parameter_sets_extracted_witness:
  "extract_sps_pps (concat [[0, 0, 0, 1, 103, 1], [0, 0, 1, 104, 2], [0, 0, 1, 103, 3], [0, 0, 0, 1, 101, 4]]) =
    Some ([103, 3], [104, 2])"
proof -
  have "\<forall>u \<in> set [[0, 0, 0, 1, 103, 1], [0, 0, 1, 104, 2], [0, 0, 1, 103, 3], [0, 0, 0, 1, 101, 4]]. wf_unit u" by code_simp
  moreover have "last_of_type 7 [[0, 0, 0, 1, 103, 1], [0, 0, 1, 104, 2], [0, 0, 1, 103, 3], [0, 0, 0, 1, 101, 4]] = Some [103, 3]"
    "last_of_type 8 [[0, 0, 0, 1, 103, 1], [0, 0, 1, 104, 2], [0, 0, 1, 103, 3], [0, 0, 0, 1, 101, 4]] = Some [104, 2]" by code_simp+
  ultimately show ?thesis
    using parameter_sets_extracted [of "[[0, 0, 0, 1, 103, 1], [0, 0, 1, 104, 2], [0, 0, 1, 103, 3], [0, 0, 0, 1, 101, 4]]"] by simp
qed

subsection \<open>Frames in front of the encoder\<close>

text \<open>
  \<open>encode\<close> stands for the conversion and the encoder of the crate, on the bytes of a frame of the given size.
\<close>

record 'x OpenH264Encoder =
  oe_inner :: 'x
  scratch :: bytes
  scratch_cap :: nat

definition OpenH264Encoder_new :: "'x \<Rightarrow> 'x OpenH264Encoder" where
  "OpenH264Encoder_new x = \<lparr>oe_inner = x, scratch = [], scratch_cap = 0\<rparr>"

definition feed_encoder ::
  "(bytes \<Rightarrow> nat \<times> nat \<Rightarrow> 'x \<Rightarrow> (string + bytes) \<times> 'x) \<Rightarrow> bytes \<Rightarrow> nat \<times> nat \<Rightarrow> 'x OpenH264Encoder \<Rightarrow>
     (string + bytes) \<times> 'x OpenH264Encoder" where
  "feed_encoder encode data dims e = (let (r, x) = encode data dims (oe_inner e) in (r, e\<lparr>oe_inner := x\<rparr>))"

definition encode_bgra ::
  "(bytes \<Rightarrow> nat \<times> nat \<Rightarrow> 'x \<Rightarrow> (string + bytes) \<times> 'x) \<Rightarrow> bytes \<Rightarrow> nat \<Rightarrow> nat \<Rightarrow> nat \<Rightarrow> 'x OpenH264Encoder \<Rightarrow>
     ((string + bytes) \<times> 'x OpenH264Encoder) res" where
  "encode_bgra encode bgra width height row_pitch e =
    (let ew = width - width mod 2; eh = height - height mod 2 in
     if \<not> (0 < ew \<and> 0 < eh) then Inl Panic
     else
       let tight_pitch = ew * 4;
           need_scratch = (row_pitch \<noteq> tight_pitch \<or> ew \<noteq> width \<or> eh \<noteq> height)
       in if need_scratch then
            let needed = tight_pitch * eh;
                e = (if scratch_cap e < needed then e\<lparr>scratch := replicate needed 0, scratch_cap := needed\<rparr> else e)
            in rbind (copy_rows bgra row_pitch tight_pitch eh (scratch e)) (\<lambda>s.
                 let e = e\<lparr>scratch := s\<rparr> in
                 if length s < needed then Inl Panic else Inr (feed_encoder encode (take needed s) (ew, eh) e))
          else Inr (feed_encoder encode bgra (ew, eh) e))"

text \<open>The capacity kept is the size of the scratch buffer.\<close>

definition encoder_inv :: "'x OpenH264Encoder \<Rightarrow> bool" where
  "encoder_inv e \<longleftrightarrow> scratch_cap e = length (scratch e)"

lemma encoder_inv_new [simp]: "encoder_inv (OpenH264Encoder_new x)"
  by (simp add: encoder_inv_def OpenH264Encoder_new_def)

text \<open>The cropped picture of a frame: pixel by pixel.\<close>

definition is_crop :: "nat \<Rightarrow> nat \<Rightarrow> bytes \<Rightarrow> nat \<Rightarrow> bytes \<Rightarrow> bool" where
  "is_crop ew eh bgra row_pitch pic \<longleftrightarrow>
     (\<forall>y < eh. \<forall>i < ew * 4. y * (ew * 4) + i < length pic \<and> pic ! (y * (ew * 4) + i) = bgra ! (y * row_pitch + i))"

lemma encode_bgra_crop:
  assumes "row_pitch * height \<le> length bgra" "width * 4 \<le> row_pitch" "1 < width" "1 < height" "encoder_inv e"
  defines "ew \<equiv> width - width mod 2" and "eh \<equiv> height - height mod 2"
  shows "\<exists>pic r x e'. encode_bgra encode bgra width height row_pitch e = Inr (r, e') \<and> encode pic (ew, eh) (oe_inner e) = (r, x) \<and>
    oe_inner e' = x \<and> encoder_inv e' \<and> is_crop ew eh bgra row_pitch pic"
proof -
  have pos: "0 < ew" "0 < eh" "ew \<le> width" "eh \<le> height" using assms(3,4) unfolding ew_def eh_def by presburger+
  have rows: "\<forall>y < eh. y * row_pitch + ew * 4 \<le> length bgra"
  proof (intro allI impI)
    fix y
    assume "y < eh"
    then have "y < height" using pos(4) by linarith
    moreover have "ew * 4 \<le> row_pitch" using pos(3) assms(2) by linarith
    ultimately show "y * row_pitch + ew * 4 \<le> length bgra" by (rule row_end [OF _ assms(1)])
  qed
  show ?thesis
  proof (cases "row_pitch \<noteq> ew * 4 \<or> ew \<noteq> width \<or> eh \<noteq> height")
    case False
    obtain r x where "encode bgra (ew, eh) (oe_inner e) = (r, x)" by force
    moreover have "is_crop ew eh bgra row_pitch bgra" using False rows by (fastforce simp: is_crop_def)
    ultimately show ?thesis
      using False pos assms(5) by (auto simp: encode_bgra_def feed_encoder_def ew_def eh_def Let_def encoder_inv_def)
  next
    case True
    define needed where "needed = ew * 4 * eh"
    define e1 where "e1 = (if scratch_cap e < needed then e\<lparr>scratch := replicate needed 0, scratch_cap := needed\<rparr> else e)"
    have e1: "encoder_inv e1" "needed \<le> length (scratch e1)" "oe_inner e1 = oe_inner e"
      using assms(5) by (auto simp: e1_def encoder_inv_def)
    define pic where "pic = packed_rows bgra row_pitch (ew * 4) eh"
    have len: "length pic = eh * (ew * 4)" unfolding pic_def by (rule length_packed_rows [OF rows])
    have "eh * (ew * 4) \<le> length (scratch e1)" using e1(2) by (simp add: needed_def mult.commute)
    from copy_rows_packed [OF rows this]
    have c: "copy_rows bgra row_pitch (ew * 4) eh (scratch e1) = Inr (pic @ drop (eh * (ew * 4)) (scratch e1))" by (simp add: pic_def)
    obtain r x where r: "encode pic (ew, eh) (oe_inner e) = (r, x)" by force
    define e2 where "e2 = e1\<lparr>scratch := pic @ drop (eh * (ew * 4)) (scratch e1), oe_inner := x\<rparr>"
    have n: "needed = eh * (ew * 4)" by (simp add: needed_def mult.commute)
    have "encode_bgra encode bgra width height row_pitch e = Inr (r, e2)"
      unfolding encode_bgra_def Let_def ew_def [symmetric] eh_def [symmetric] needed_def [symmetric] e1_def [symmetric]
      using True pos c len n r e1(3) by (simp add: feed_encoder_def e2_def)
    moreover have "is_crop ew eh bgra row_pitch pic"
      unfolding is_crop_def
    proof (intro allI impI conjI)
      fix y i
      assume a: "y < eh" "i < ew * 4"
      show "pic ! (y * (ew * 4) + i) = bgra ! (y * row_pitch + i)" unfolding pic_def by (rule packed_rows_nth [OF rows a])
      have "y * (ew * 4) + ew * 4 \<le> eh * (ew * 4)" using a(1) by (metis Suc_leI add.commute mult_Suc mult_le_mono1)
      with a(2) show "y * (ew * 4) + i < length pic" unfolding len by linarith
    qed
    moreover have "encoder_inv e2"
      using e1(1,2) len by (simp add: encoder_inv_def e2_def n)
    ultimately show ?thesis using r by (intro exI [of _ pic] exI [of _ r] exI [of _ x] exI [of _ e2]) (simp add: e2_def)
  qed
qed

text \<open>Cropping and de-padding: on a buffer of the stated shape of at least two by two pixels, whatever the row pitch and
  whatever frames came before, the encoder crate is given the frame cut to even sizes, pixel by pixel, its result is
  returned, and no slice is out of range; the scratch buffer stays as large as its recorded capacity.\<close>

theorem encoder_input_cropped:
  assumes "row_pitch * height \<le> length bgra" "width * 4 \<le> row_pitch" "1 < width" "1 < height" "encoder_inv e"
  shows "\<exists>pic r x e'. encode_bgra encode bgra width height row_pitch e = Inr (r, e') \<and>
    encode pic (width - width mod 2, height - height mod 2) (oe_inner e) = (r, x) \<and> oe_inner e' = x \<and> encoder_inv e' \<and>
    is_crop (width - width mod 2) (height - height mod 2) bgra row_pitch pic"
  by (rule encode_bgra_crop [OF assms])

theorem encoder_input_cropped_witness:
  "\<exists>pic e'. encode_bgra (\<lambda>d wh x. (Inr d, x + 1)) (map word_of_nat [0..<48]) 3 3 16 (OpenH264Encoder_new (0 :: nat)) = Inr (Inr pic, e') \<and>
    oe_inner e' = 1 \<and> is_crop 2 2 (map word_of_nat [0..<48]) 16 pic"
  using encoder_input_cropped [of 16 3 "map word_of_nat [0..<48]" 3 "OpenH264Encoder_new (0 :: nat)" "\<lambda>d wh x. (Inr d, x + 1)"]
  by (auto simp: OpenH264Encoder_new_def encoder_inv_def)

end
