(* ===== verification/Dxgi.thy ===== *)
theory Dxgi
  imports Cursor Openh264
begin

text \<open>
  The screen capture (lumen-capture/src/dxgi.rs): acquiring a desktop frame, reading it back over a staging texture,
  and drawing the cursor on it. The duplication interface and the graphics device are arguments, collected in a
  record of functions over a state \<open>'g\<close> of the device; textures are handles whose description never changes, as
  in that interface. A mapped texture is a row pitch and the memory behind its pointer. Sizes are \<open>nat\<close>.
\<close>

record texture_desc =
  td_width :: u32
  td_height :: u32
  td_format :: u32

record ('r, 't, 'g) gpu =
  acquire_next :: "u32 \<Rightarrow> 'g \<Rightarrow> (u32 + 'r option \<times> frame_info) \<times> 'g"
  release_next :: "'g \<Rightarrow> 'g"
  as_texture :: "'r \<Rightarrow> u32 + 't"
  as_resource :: "'t \<Rightarrow> u32 + 't"
  desc_of :: "'t \<Rightarrow> texture_desc"
  create_staging :: "texture_desc \<Rightarrow> 'g \<Rightarrow> (u32 + 't option) \<times> 'g"
  copy_resource :: "'t \<Rightarrow> 't \<Rightarrow> 'g \<Rightarrow> 'g"
  map_read :: "'t \<Rightarrow> 'g \<Rightarrow> (u32 + u32 \<times> (nat \<Rightarrow> byte)) \<times> 'g"
  unmap :: "'t \<Rightarrow> 'g \<Rightarrow> 'g"
  pointer_shape :: "'g get_shape"
  shape_types :: pointer_types

text \<open>The numbers of the interface.\<close>

record dxgi_numbers =
  WAIT_TIMEOUT :: u32
  ACCESS_LOST :: u32
  BGRA8 :: u32

datatype DxgiError = Windows u32 | AccessLost | NoOutput u32 | UnsupportedFormat u32

record CpuFrame =
  cf_bgra :: bytes
  cf_width :: u32
  cf_height :: u32
  cf_format :: u32

record 't DesktopDuplicator =
  staging :: "'t option"
  dd_cursor :: CursorOverlay
  dd_width :: u32
  dd_height :: u32

subsection \<open>Acquiring\<close>

definition acquire_with_info ::
  "dxgi_numbers \<Rightarrow> ('r, 't, 'g) gpu \<Rightarrow> u32 \<Rightarrow> 'g \<Rightarrow> (DxgiError + ('t \<times> frame_info) option) \<times> 'g" where
  "acquire_with_info N G timeout_ms g =
    (case acquire_next G timeout_ms g of
       (Inl e, g) \<Rightarrow>
         if e = WAIT_TIMEOUT N then (Inr None, g)
         else if e = ACCESS_LOST N then (Inl AccessLost, g)
         else (Inl (Windows e), g)
     | (Inr (None, fi), g) \<Rightarrow> (Inr None, g)
     | (Inr (Some r, fi), g) \<Rightarrow>
         (case as_texture G r of
            Inl e \<Rightarrow> (Inl (Windows e), g)
          | Inr t \<Rightarrow> (Inr (Some (t, fi)), g)))"

definition acquire_frame ::
  "dxgi_numbers \<Rightarrow> ('r, 't, 'g) gpu \<Rightarrow> u32 \<Rightarrow> 'g \<Rightarrow> (DxgiError + 't option) \<times> 'g" where
  "acquire_frame N G timeout_ms g =
    (case acquire_with_info N G timeout_ms g of
       (Inl e, g) \<Rightarrow> (Inl e, g)
     | (Inr r, g) \<Rightarrow> (Inr (map_option fst r), g))"

definition release_frame :: "('r, 't, 'g) gpu \<Rightarrow> 'g \<Rightarrow> 'g" where
  "release_frame G g = release_next G g"

subsection \<open>Reading back\<close>

definition need_create :: "('r, 't, 'g) gpu \<Rightarrow> 't option \<Rightarrow> texture_desc \<Rightarrow> bool" where
  "need_create G st desc =
    (case st of
       Some s \<Rightarrow> let sd = desc_of G s in
         td_width sd \<noteq> td_width desc \<or> td_height sd \<noteq> td_height desc \<or> td_format sd \<noteq> td_format desc
     | None \<Rightarrow> True)"

text \<open>The staging texture of the wanted description; an error keeps the old one.\<close>

definition ensure_staging ::
  "('r, 't, 'g) gpu \<Rightarrow> texture_desc \<Rightarrow> 't DesktopDuplicator \<Rightarrow> 'g \<Rightarrow> (DxgiError + unit) \<times> 't DesktopDuplicator \<times> 'g" where
  "ensure_staging G desc dd g =
    (if need_create G (staging dd) desc then
       (case create_staging G desc g of
          (Inl e, g) \<Rightarrow> (Inl (Windows e), dd, g)
        | (Inr t, g) \<Rightarrow> (Inr (), dd\<lparr>staging := t\<rparr>, g))
     else (Inr (), dd, g))"

definition mapped_bytes :: "(nat \<Rightarrow> byte) \<Rightarrow> nat \<Rightarrow> nat \<Rightarrow> bytes" where
  "mapped_bytes mem row_pitch height = map mem [0..<row_pitch * height]"

definition copy_to_staging ::
  "('r, 't, 'g) gpu \<Rightarrow> 't \<Rightarrow> 't \<Rightarrow> 'g \<Rightarrow> (DxgiError + unit) \<times> 'g" where
  "copy_to_staging G st texture g =
    (case as_resource G texture of
       Inl e \<Rightarrow> (Inl (Windows e), g)
     | Inr src \<Rightarrow>
         (case as_resource G st of
            Inl e \<Rightarrow> (Inl (Windows e), g)
          | Inr dst \<Rightarrow> (Inr (), copy_resource G dst src g)))"

definition read_mapped ::
  "('r, 't, 'g) gpu \<Rightarrow> texture_desc \<Rightarrow> 't \<Rightarrow> 'g \<Rightarrow> ((DxgiError + CpuFrame) \<times> 'g) res" where
  "read_mapped G desc st g =
    (case map_read G st g of
       (Inl e, g) \<Rightarrow> Inr (Inl (Windows e), g)
     | (Inr (pitch, mem), g) \<Rightarrow>
         let row_pitch = unat pitch; width = unat (td_width desc); height = unat (td_height desc) in
         rbind (copy_rows (mapped_bytes mem row_pitch height) row_pitch (width * 4) height
             (replicate (width * 4 * height) 0)) (\<lambda>bgra.
           Inr (Inr \<lparr>cf_bgra = bgra, cf_width = td_width desc, cf_height = td_height desc, cf_format = td_format desc\<rparr>,
                unmap G st g)))"

definition readback_cpu ::
  "dxgi_numbers \<Rightarrow> ('r, 't, 'g) gpu \<Rightarrow> 't \<Rightarrow> 't DesktopDuplicator \<Rightarrow> 'g \<Rightarrow>
     ((DxgiError + CpuFrame) \<times> 't DesktopDuplicator \<times> 'g) res" where
  "readback_cpu N G texture dd g =
    (let desc = desc_of G texture in
     if td_format desc \<noteq> BGRA8 N then Inr (Inl (UnsupportedFormat (td_format desc)), dd, g)
     else
       (case ensure_staging G desc dd g of
          (Inl e, dd, g) \<Rightarrow> Inr (Inl e, dd, g)
        | (Inr _, dd, g) \<Rightarrow>
            (case staging dd of
               None \<Rightarrow> Inl Panic
             | Some st \<Rightarrow>
                 (case copy_to_staging G st texture g of
                    (Inl e, g) \<Rightarrow> Inr (Inl e, dd, g)
                  | (Inr _, g) \<Rightarrow>
                      rbind (read_mapped G desc st g) (\<lambda>(r, g). Inr (r, dd, g))))))"

text \<open>
  A frame with the cursor. An error of the cursor update is only logged; the frame is released after a readback,
  whatever its result. The value \<open>None\<close> stands for a shape query that never ends.
\<close>

definition acquire_frame_cpu ::
  "dxgi_numbers \<Rightarrow> ('r, 't, 'g) gpu \<Rightarrow> u32 \<Rightarrow> 't DesktopDuplicator \<Rightarrow> 'g \<Rightarrow>
     ((DxgiError + CpuFrame option) \<times> 't DesktopDuplicator \<times> 'g) res option" where
  "acquire_frame_cpu N G timeout_ms dd g =
    (case acquire_with_info N G timeout_ms g of
       (Inl e, g) \<Rightarrow> Some (Inr (Inl e, dd, g))
     | (Inr None, g) \<Rightarrow> Some (Inr (Inr None, dd, g))
     | (Inr (Some (texture, fi)), g) \<Rightarrow>
         (case readback_cpu N G texture dd g of
            Inl p \<Rightarrow> Some (Inl p)
          | Inr (Inl e, dd, g) \<Rightarrow> Some (Inr (Inl e, dd, release_frame G g))
          | Inr (Inr frame, dd, g) \<Rightarrow>
              (case cursor_update (pointer_shape G) fi (dd_cursor dd) g of
                 None \<Rightarrow> None
               | Some ((_, ov), g) \<Rightarrow>
                   Some (rbind (draw (shape_types G) ov (cf_bgra frame) (cf_width frame) (cf_height frame)) (\<lambda>bgra.
                     Inr (Inr (Some (frame\<lparr>cf_bgra := bgra\<rparr>)), dd\<lparr>dd_cursor := ov\<rparr>, release_frame G g))))))"

subsection \<open>What the device promises\<close>

text \<open>
  \<open>pict t g y i\<close> is byte \<open>i\<close> of row \<open>y\<close> of the texture \<open>t\<close>. Copying between textures of
  the same description copies the image, creating one has the wanted description and leaves the images alone, and
  mapping one shows its image row by row at a pitch that is at least a row.
\<close>

definition gpu_ok :: "('t \<Rightarrow> 'g \<Rightarrow> nat \<Rightarrow> nat \<Rightarrow> byte) \<Rightarrow> ('r, 't, 'g) gpu \<Rightarrow> bool" where
  "gpu_ok pict G \<longleftrightarrow>
     (\<forall>t. as_resource G t = Inr t) \<and>
     (\<forall>d s g. desc_of G d = desc_of G s \<longrightarrow> pict d (copy_resource G d s g) = pict s g) \<and>
     (\<forall>desc g t g'. create_staging G desc g = (Inr (Some t), g') \<longrightarrow>
        desc_of G t = desc \<and> (\<forall>s. pict s g' = pict s g)) \<and>
     (\<forall>t g pitch mem g'. map_read G t g = (Inr (pitch, mem), g') \<longrightarrow>
        unat (td_width (desc_of G t)) * 4 \<le> unat pitch \<and>
        (\<forall>y < unat (td_height (desc_of G t)). \<forall>i < unat (td_width (desc_of G t)) * 4.
           mem (y * unat pitch + i) = pict t g y i))"

text \<open>A device that has memory left for textures of a description, can map them, and answers shape queries.\<close>

definition gpu_serves :: "('r, 't, 'g) gpu \<Rightarrow> texture_desc \<Rightarrow> bool" where
  "gpu_serves G desc \<longleftrightarrow>
     (\<forall>g. \<exists>t g'. create_staging G desc g = (Inr (Some t), g')) \<and>
     (\<forall>t g. desc_of G t = desc \<longrightarrow> (\<exists>p g'. map_read G t g = (Inr p, g'))) \<and>
     (\<forall>n g. fetch_shape (pointer_shape G) n g \<noteq> None)"

subsection \<open>The frame\<close>

text \<open>The pixels of an image in the layout of a frame, and a frame with the cursor of a given state drawn on it.\<close>

definition shows_image :: "nat \<Rightarrow> nat \<Rightarrow> (nat \<Rightarrow> nat \<Rightarrow> byte) \<Rightarrow> bytes \<Rightarrow> bool" where
  "shows_image w h img px \<longleftrightarrow> length px = 4 * (w * h) \<and> (\<forall>y < h. \<forall>i < w * 4. px ! (y * (w * 4) + i) = img y i)"

definition cursor_on :: "pointer_types \<Rightarrow> CursorOverlay \<Rightarrow> u32 \<Rightarrow> u32 \<Rightarrow> bytes \<Rightarrow> bytes \<Rightarrow> bool" where
  "cursor_on T ov w h px out =
    (case (co_shape ov, co_position ov) of
       (Some sh, Some (hx, hy)) \<Rightarrow>
         overlaid (if co_visible ov then shape_op T sh else (\<lambda>x y p. p))
           (sint (hx - fst (hot_spot sh)), sint (hy - snd (hot_spot sh))) (unat (sh_width sh), unat (sh_height sh))
           (unat w, unat h) px out
     | _ \<Rightarrow> out = px)"

text \<open>
  The pointer state after the report of a frame, queried from the device in the state \<open>g\<close>: what is visible and
  where is what the report says, and the shape is the one the device answers with when the report announces one. A
  device that refuses leaves the old shape.
\<close>

definition pointer_current ::
  "'g get_shape \<Rightarrow> frame_info \<Rightarrow> CursorOverlay \<times> 'g \<Rightarrow> CursorOverlay \<times> 'g \<Rightarrow> bool" where
  "pointer_current get_shape fi = (\<lambda>(ov, g) (ov', g').
     if last_mouse_update fi = 0 then ov' = ov \<and> g' = g
     else co_visible ov' = pointer_visible fi \<and> co_position ov' = Some (pointer_position fi) \<and>
       (if shape_buffer_size fi = 0 then co_shape ov' = co_shape ov \<and> g' = g
        else \<exists>n r. shape_buffer_size fi \<le> n \<and> shape_answered get_shape n g r g' \<and>
          co_shape ov' = (case r of Inl e \<Rightarrow> co_shape ov | Inr sh \<Rightarrow> Some sh)))"

lemma cursor_update_current:
  assumes "\<And>n g. fetch_shape f n g \<noteq> None"
  shows "\<exists>r ov' g'. cursor_update f fi ov g = Some ((r, ov'), g') \<and> pointer_current f fi (ov, g) (ov', g')"
proof -
  obtain r g' where r: "fetch_shape f (shape_buffer_size fi) g = Some (r, g')"
    using assms by (metis not_None_eq surj_pair)
  have "shape_answered f (max (shape_buffer_size fi) 64) g r g'" by (rule fetch_shape_answered [OF r])
  then have a: "\<exists>n q. shape_buffer_size fi \<le> n \<and> shape_answered f n g q g' \<and>
      x = (case q of Inl e \<Rightarrow> co_shape ov | Inr sh \<Rightarrow> Some sh)"
    if "x = (case r of Inl e \<Rightarrow> co_shape ov | Inr sh \<Rightarrow> Some sh)" for x
    using that by (intro exI [of _ "max (shape_buffer_size fi) 64"] exI [of _ r]) simp
  show ?thesis
    using a by (cases r) (simp_all add: cursor_update_def pointer_current_def r Let_def word_gt_0)
qed

lemma draw_cursor_on:
  assumes "length px = 4 * (unat w * unat h)"
  shows "\<exists>out. draw T ov px w h = Inr out \<and> cursor_on T ov w h px out"
proof (cases "co_shape ov")
  case None
  then show ?thesis by (simp add: draw_def cursor_on_def)
next
  case (Some sh)
  show ?thesis
  proof (cases "co_position ov")
    case None
    with Some show ?thesis by (simp add: draw_def cursor_on_def)
  next
    case pos: (Some p)
    obtain hx hy where p: "p = (hx, hy)" by force
    show ?thesis using draw_overlaid [OF assms Some, of hx hy T] Some pos p by (simp add: cursor_on_def)
  qed
qed

lemma length_cursor_on: "cursor_on T ov w h px out \<Longrightarrow> length out = length px"
  by (auto simp: cursor_on_def overlaid_def split: option.splits)

lemma read_mapped_image:
  assumes "gpu_ok pict G" "gpu_serves G desc" "desc_of G st = desc"
  shows "\<exists>px g'. read_mapped G desc st g = Inr (Inr \<lparr>cf_bgra = px, cf_width = td_width desc, cf_height = td_height desc,
      cf_format = td_format desc\<rparr>, g') \<and> shows_image (unat (td_width desc)) (unat (td_height desc)) (pict st g) px"
proof -
  define w h where "w = unat (td_width desc)" and "h = unat (td_height desc)"
  obtain pitch mem g' where m: "map_read G st g = (Inr (pitch, mem), g')"
    using assms(2,3) unfolding gpu_serves_def by (metis surj_pair)
  define b where "b = mapped_bytes mem (unat pitch) h"
  have len: "length b = h * unat pitch" by (simp add: b_def mapped_bytes_def mult.commute)
  have pitch: "w * 4 \<le> unat pitch" and mem: "y < h \<Longrightarrow> i < w * 4 \<Longrightarrow> mem (y * unat pitch + i) = pict st g y i" for y i
    using assms(1,3) m unfolding gpu_ok_def w_def h_def by blast+
  have rows: "\<forall>y < h. y * unat pitch + w * 4 \<le> length b"
  proof (intro allI impI)
    fix y assume "y < h"
    then show "y * unat pitch + w * 4 \<le> length b" by (rule row_end [OF _ _ pitch]) (simp add: len mult.commute)
  qed
  define px where "px = packed_rows b (unat pitch) (w * 4) h"
  have plen: "length px = h * (w * 4)" unfolding px_def by (rule length_packed_rows [OF rows])
  have "copy_rows b (unat pitch) (w * 4) h (replicate (w * 4 * h) 0) =
      Inr (px @ drop (h * (w * 4)) (replicate (w * 4 * h) 0))"
    unfolding px_def by (rule copy_rows_packed [OF rows]) (simp add: mult.commute)
  then have "copy_rows b (unat pitch) (w * 4) h (replicate (w * 4 * h) 0) = Inr px" by simp
  moreover have "px ! (y * (w * 4) + i) = pict st g y i" if "y < h" "i < w * 4" for y i
  proof -
    have "px ! (y * (w * 4) + i) = b ! (y * unat pitch + i)"
      unfolding px_def by (rule packed_rows_nth [OF rows that])
    moreover have "y * unat pitch + w * 4 \<le> h * unat pitch" using rows that(1) by (simp add: len)
    then have "y * unat pitch + i < unat pitch * h" using that(2) by (simp add: mult.commute)
    then have "b ! (y * unat pitch + i) = mem (y * unat pitch + i)" by (simp add: b_def mapped_bytes_def mult.commute)
    ultimately show ?thesis using mem that by simp
  qed
  ultimately show ?thesis
    using plen by (auto simp: read_mapped_def m Let_def shows_image_def b_def w_def h_def algebra_simps)
qed

lemma ensure_staging_ok:
  assumes "gpu_ok pict G" "gpu_serves G desc"
  shows "\<exists>dd' g' st. ensure_staging G desc dd g = (Inr (), dd', g') \<and> staging dd' = Some st \<and> desc_of G st = desc \<and>
    dd_cursor dd' = dd_cursor dd \<and> (\<forall>s. pict s g' = pict s g)"
proof (cases "need_create G (staging dd) desc")
  case True
  obtain t g' where c: "create_staging G desc g = (Inr (Some t), g')" using assms(2) unfolding gpu_serves_def by blast
  with assms(1) have "desc_of G t = desc" "\<forall>s. pict s g' = pict s g" unfolding gpu_ok_def by blast+
  with True c show ?thesis by (auto simp: ensure_staging_def)
next
  case False
  then show ?thesis by (auto simp: ensure_staging_def need_create_def Let_def split: option.splits)
qed

lemma readback_cpu_image:
  assumes "gpu_ok pict G" "gpu_serves G desc" "desc_of G t = desc" "td_format desc = BGRA8 N"
  shows "\<exists>px dd' g'. readback_cpu N G t dd g = Inr (Inr \<lparr>cf_bgra = px, cf_width = td_width desc, cf_height = td_height desc,
      cf_format = BGRA8 N\<rparr>, dd', g') \<and> dd_cursor dd' = dd_cursor dd \<and>
    shows_image (unat (td_width desc)) (unat (td_height desc)) (pict t g) px"
proof -
  obtain dd' g1 st where st: "ensure_staging G desc dd g = (Inr (), dd', g1)" "staging dd' = Some st" "desc_of G st = desc"
    "dd_cursor dd' = dd_cursor dd" "\<forall>s. pict s g1 = pict s g"
    using ensure_staging_ok [OF assms(1,2)] by blast
  define g2 where "g2 = copy_resource G st t g1"
  have c: "copy_to_staging G st t g1 = (Inr (), g2)" "pict st g2 = pict t g"
    using assms(1,3) st(3,5) unfolding gpu_ok_def copy_to_staging_def g2_def by simp_all
  obtain px g3 where "read_mapped G desc st g2 = Inr (Inr \<lparr>cf_bgra = px, cf_width = td_width desc, cf_height = td_height desc,
      cf_format = td_format desc\<rparr>, g3)" "shows_image (unat (td_width desc)) (unat (td_height desc)) (pict st g2) px"
    using read_mapped_image [OF assms(1,2) st(3)] by blast
  with st c assms(3,4) show ?thesis by (simp add: readback_cpu_def Let_def)
qed

text \<open>A frame was acquired, of the texture \<open>t\<close> and the report \<open>fi\<close>.\<close>

definition frame_arrives :: "dxgi_numbers \<Rightarrow> ('r, 't, 'g) gpu \<Rightarrow> u32 \<Rightarrow> 'g \<Rightarrow> 't \<Rightarrow> frame_info \<Rightarrow> 'g \<Rightarrow> bool" where
  "frame_arrives N G timeout_ms g t fi g1 \<longleftrightarrow>
     (\<exists>r. acquire_next G timeout_ms g = (Inr (Some r, fi), g1) \<and> as_texture G r = Inr t) \<and> td_format (desc_of G t) = BGRA8 N"

lemma frame_arrives_acquired: "frame_arrives N G timeout_ms g t fi g1 \<Longrightarrow> acquire_with_info N G timeout_ms g = (Inr (Some (t, fi)), g1)"
  by (auto simp: frame_arrives_def acquire_with_info_def)

lemma acquire_frame_cpu_shows:
  assumes "gpu_ok pict G" "gpu_serves G (desc_of G t)" "frame_arrives N G timeout_ms g t fi g1"
  defines "desc \<equiv> desc_of G t"
  shows "\<exists>frame dd' g0 g2 px. acquire_frame_cpu N G timeout_ms dd g = Some (Inr (Inr (Some frame), dd', release_next G g2)) \<and>
    (\<exists>frame0 dd0. readback_cpu N G t dd g1 = Inr (Inr frame0, dd0, g0)) \<and>
    cf_width frame = td_width desc \<and> cf_height frame = td_height desc \<and>
    shows_image (unat (td_width desc)) (unat (td_height desc)) (pict t g1) px \<and>
    pointer_current (pointer_shape G) fi (dd_cursor dd, g0) (dd_cursor dd', g2) \<and>
    cursor_on (shape_types G) (dd_cursor dd') (td_width desc) (td_height desc) px (cf_bgra frame)"
proof -
  have "td_format desc = BGRA8 N" using assms(3) by (simp add: desc_def frame_arrives_def)
  from readback_cpu_image [OF assms(1) assms(2) [folded desc_def] desc_def [THEN meta_eq_to_obj_eq, symmetric] this]
  obtain px dd1 g2 where r: "readback_cpu N G t dd g1 = Inr (Inr \<lparr>cf_bgra = px, cf_width = td_width desc, cf_height = td_height desc,
      cf_format = BGRA8 N\<rparr>, dd1, g2)" "dd_cursor dd1 = dd_cursor dd"
    "shows_image (unat (td_width desc)) (unat (td_height desc)) (pict t g1) px" by blast
  have serve: "fetch_shape (pointer_shape G) n g' \<noteq> None" for n g' using assms(2) unfolding gpu_serves_def by blast
  obtain u ov g3 where u: "cursor_update (pointer_shape G) fi (dd_cursor dd) g2 = Some ((u, ov), g3)"
    "pointer_current (pointer_shape G) fi (dd_cursor dd, g2) (ov, g3)"
    using cursor_update_current [OF serve] by blast
  have "length px = 4 * (unat (td_width desc) * unat (td_height desc))" using r(3) by (simp add: shows_image_def)
  from draw_cursor_on [OF this] obtain out where out: "draw (shape_types G) ov px (td_width desc) (td_height desc) = Inr out"
    "cursor_on (shape_types G) ov (td_width desc) (td_height desc) px out" by blast
  show ?thesis
    using frame_arrives_acquired [OF assms(3)] r u out
    by (intro exI [of _ "\<lparr>cf_bgra = out, cf_width = td_width desc, cf_height = td_height desc, cf_format = BGRA8 N\<rparr>"]
        exI [of _ "dd1\<lparr>dd_cursor := ov\<rparr>"] exI [of _ g2] exI [of _ g3] exI [of _ px])
      (simp add: acquire_frame_cpu_def release_frame_def)
qed

text \<open>
  A device with one surface and one staging texture per description, mapped with a pitch of five pixels; its state is
  whether the surface is held, and the two images.
\<close>

type_synonym pair_state = "bool \<times> (nat \<Rightarrow> nat \<Rightarrow> byte) \<times> (nat \<Rightarrow> nat \<Rightarrow> byte)"

definition pair_pict :: "bool \<times> texture_desc \<Rightarrow> pair_state \<Rightarrow> nat \<Rightarrow> nat \<Rightarrow> byte" where
  "pair_pict t g = (if fst t then snd (snd g) else fst (snd g))"

definition pair_desc :: texture_desc where
  "pair_desc = \<lparr>td_width = 3, td_height = 2, td_format = 87\<rparr>"

definition pair_report :: frame_info where
  "pair_report = \<lparr>last_mouse_update = 1, pointer_visible = True, pointer_position = (1, 0), shape_buffer_size = 4\<rparr>"

text \<open>Its pointer is one opaque pixel, which it delivers into a buffer of 128 bytes or more.\<close>

definition pair_shape :: PointerShape where
  "pair_shape = \<lparr>shape_type = 2, sh_width = 1, sh_height = 1, color_pitch = 4, hot_spot = (0, 0), sh_data = [10, 20, 30, 255]\<rparr>"

definition pair_gpu :: "bool \<Rightarrow> (unit, bool \<times> texture_desc, pair_state) gpu" where
  "pair_gpu found =
    \<lparr>acquire_next = (\<lambda>n (h, a, b). (Inr (if found then Some () else None, pair_report), (True, a, b))),
     release_next = (\<lambda>(h, a, b). (False, a, b)), as_texture = (\<lambda>r. Inr (False, pair_desc)), as_resource = Inr, desc_of = snd,
     create_staging = (\<lambda>d g. (Inr (Some (True, d)), g)),
     copy_resource = (\<lambda>d s (h, a, b). if fst d then (h, a, pair_pict s (h, a, b)) else (h, pair_pict s (h, a, b), b)),
     map_read = (\<lambda>t g. (if snd t = pair_desc then Inr (20, \<lambda>i. pair_pict t g (i div 20) (i mod 20)) else Inl 5, g)),
     unmap = (\<lambda>t g. g), pointer_shape = (\<lambda>n g. (if n < 128 then Shape_More 128 else Shape_Ok pair_shape, g)),
     shape_types = \<lparr>type_color = 2, type_masked = 4, type_mono = 1\<rparr>\<rparr>"

definition pair_numbers :: dxgi_numbers where
  "pair_numbers = \<lparr>WAIT_TIMEOUT = 0x887A0027, ACCESS_LOST = 0x887A0026, BGRA8 = 87\<rparr>"

lemma pair_gpu_ok: "gpu_ok pair_pict (pair_gpu found)"
  unfolding gpu_ok_def
proof (intro conjI allI impI)
  fix t and g :: pair_state and pitch mem g'
  assume "map_read (pair_gpu found) t g = (Inr (pitch, mem), g')"
  then have m: "snd t = pair_desc" "pitch = 20" "mem = (\<lambda>i. pair_pict t g (i div 20) (i mod 20))"
    by (auto simp: pair_gpu_def split: if_splits)
  then show "unat (td_width (desc_of (pair_gpu found) t)) * 4 \<le> unat pitch" by (simp add: pair_gpu_def pair_desc_def)
  fix y i
  assume "y < unat (td_height (desc_of (pair_gpu found) t))" "i < unat (td_width (desc_of (pair_gpu found) t)) * 4"
  with m show "mem (y * unat pitch + i) = pair_pict t g y i" by (simp add: pair_gpu_def pair_desc_def)
qed (auto simp: pair_gpu_def pair_pict_def)

lemma pair_gpu_desc: "desc_of (pair_gpu found) t = snd t"
  by (simp add: pair_gpu_def)

lemma pair_gpu_serves: "gpu_serves (pair_gpu found) pair_desc"
proof -
  have "fetch_shape (pointer_shape (pair_gpu found)) n g \<noteq> None" for n g
    by (cases g) (auto simp: fetch_shape_def pair_gpu_def fetch_loop.simps [where required = "max n 64"]
      fetch_loop.simps [where required = 128])
  then show ?thesis by (auto simp: gpu_serves_def) (auto simp: pair_gpu_def)
qed

lemma pair_shape_answered: "shape_answered (pointer_shape (pair_gpu found)) n g r g' \<Longrightarrow> r = Inr pair_shape"
  by (induction rule: shape_answered.induct) (auto simp: pair_gpu_def split: if_splits)

text \<open>C17. From the desktop to the encoder: when a frame of at least two by two pixels arrives, it is read back without a
  panic over whatever staging texture is there and whatever row pitch the device maps, has the size of the surface and
  shows its image with the pointer as last reported drawn on it: visible or not and at the place the report says, and in
  the shape the device answers with when the report announces a new one (the old one if it refuses); the surface is
  released; and the encoder is given exactly that frame, cut to even sizes.\<close>

theorem desktop_reaches_encoder:
  assumes "gpu_ok pict G" "gpu_serves G (desc_of G t)" "frame_arrives N G timeout_ms g t fi g1" "encoder_inv e"
    and "1 < unat (td_width (desc_of G t))" "1 < unat (td_height (desc_of G t))"
  defines "w \<equiv> td_width (desc_of G t)" and "h \<equiv> td_height (desc_of G t)"
  shows "\<exists>frame dd' g0 g2 px pic r x e'.
    acquire_frame_cpu N G timeout_ms dd g = Some (Inr (Inr (Some frame), dd', release_next G g2)) \<and>
    (\<exists>frame0 dd0. readback_cpu N G t dd g1 = Inr (Inr frame0, dd0, g0)) \<and>
    cf_width frame = w \<and> cf_height frame = h \<and> shows_image (unat w) (unat h) (pict t g1) px \<and>
    pointer_current (pointer_shape G) fi (dd_cursor dd, g0) (dd_cursor dd', g2) \<and>
    cursor_on (shape_types G) (dd_cursor dd') w h px (cf_bgra frame) \<and>
    encode_bgra encode (cf_bgra frame) (unat (cf_width frame)) (unat (cf_height frame)) (unat (cf_width frame) * 4) e = Inr (r, e') \<and>
    encode pic (unat w - unat w mod 2, unat h - unat h mod 2) (oe_inner e) = (r, x) \<and> oe_inner e' = x \<and> encoder_inv e' \<and>
    is_crop (unat w - unat w mod 2) (unat h - unat h mod 2) (cf_bgra frame) (unat w * 4) pic"
proof -
  obtain frame dd' g0 g2 px where f: "acquire_frame_cpu N G timeout_ms dd g = Some (Inr (Inr (Some frame), dd', release_next G g2))"
    "\<exists>frame0 dd0. readback_cpu N G t dd g1 = Inr (Inr frame0, dd0, g0)"
    "cf_width frame = w" "cf_height frame = h" "shows_image (unat w) (unat h) (pict t g1) px"
    "pointer_current (pointer_shape G) fi (dd_cursor dd, g0) (dd_cursor dd', g2)" "cursor_on (shape_types G) (dd_cursor dd') w h px (cf_bgra frame)"
    using acquire_frame_cpu_shows [OF assms(1-3)] unfolding w_def h_def by blast
  have "length (cf_bgra frame) = 4 * (unat w * unat h)"
    using length_cursor_on [OF f(7)] f(5) by (simp add: shows_image_def)
  then have len: "unat w * 4 * unat h \<le> length (cf_bgra frame)" by simp
  obtain pic r x e' where "encode_bgra encode (cf_bgra frame) (unat w) (unat h) (unat w * 4) e = Inr (r, e')"
    "encode pic (unat w - unat w mod 2, unat h - unat h mod 2) (oe_inner e) = (r, x)" "oe_inner e' = x" "encoder_inv e'"
    "is_crop (unat w - unat w mod 2) (unat h - unat h mod 2) (cf_bgra frame) (unat w * 4) pic"
    using encode_bgra_crop [OF len order.refl _ _ assms(4)] assms(5,6) unfolding w_def h_def by blast
  with f show ?thesis by metis
qed

text \<open>On a surface of 3 by 2 with the byte \<open>16 * y + i\<close> at \<open>i\<close> of row \<open>y\<close>, and the pointer at the second pixel.\<close>

theorem desktop_reaches_encoder_witness:
  "\<exists>frame dd' g' pic e'. acquire_frame_cpu pair_numbers (pair_gpu True) 20
      \<lparr>staging = None, dd_cursor = CursorOverlay_default, dd_width = 3, dd_height = 2\<rparr>
      (False, (\<lambda>y i. word_of_nat (16 * y + i)), (\<lambda>y i. 0)) = Some (Inr (Inr (Some frame), dd', g')) \<and>
    co_shape (dd_cursor dd') = Some pair_shape \<and> get_pixel 4 (cf_bgra frame) = (10, 20, 30) \<and> get_pixel 12 (cf_bgra frame) = (16, 17, 18) \<and>
    encode_bgra (\<lambda>d wh x. (Inr d, x + 1)) (cf_bgra frame) 3 2 12 (OpenH264Encoder_new (0 :: nat)) = Inr (Inr pic, e') \<and>
    pic ! 4 = 10 \<and> pic ! 8 = 16"
proof -
  let ?img = "\<lambda>y i. word_of_nat (16 * y + i) :: byte"
  let ?dd = "\<lparr>staging = None, dd_cursor = CursorOverlay_default, dd_width = 3, dd_height = 2\<rparr>"
  let ?T = "shape_types (pair_gpu True)"
  have arrives: "frame_arrives pair_numbers (pair_gpu True) 20 (False, ?img, \<lambda>y i. 0) (False, pair_desc) pair_report (True, ?img, \<lambda>y i. 0)"
    by (simp add: frame_arrives_def pair_gpu_def pair_numbers_def pair_desc_def)
  have desc: "desc_of (pair_gpu True) (False, pair_desc) = pair_desc" by (simp add: pair_gpu_def)
  have size: "unat (td_width pair_desc) = 3" "unat (td_height pair_desc) = 2" by (simp_all add: pair_desc_def)
  obtain frame dd' g0 g2 px pic r x e' where f:
    "acquire_frame_cpu pair_numbers (pair_gpu True) 20 ?dd (False, ?img, \<lambda>y i. 0) = Some (Inr (Inr (Some frame), dd', release_next (pair_gpu True) g2))"
    "shows_image 3 2 ?img px" "pointer_current (pointer_shape (pair_gpu True)) pair_report (CursorOverlay_default, g0) (dd_cursor dd', g2)"
    "cursor_on ?T (dd_cursor dd') (td_width pair_desc) (td_height pair_desc) px (cf_bgra frame)"
    "encode_bgra (\<lambda>d wh x. (Inr d :: string + bytes, x + 1)) (cf_bgra frame) 3 2 12 (OpenH264Encoder_new (0 :: nat)) = Inr (r, e')"
    "(Inr pic, 1) = (r, x)" "is_crop 2 2 (cf_bgra frame) 12 pic"
    using desktop_reaches_encoder [where dd = ?dd and encode = "\<lambda>d wh x. (Inr d, x + 1)",
        OF pair_gpu_ok _ arrives encoder_inv_new [of "0 :: nat"]]
    by (auto simp: desc size pair_gpu_serves pair_pict_def OpenH264Encoder_new_def CursorOverlay_default_def)
  from f(3) have c: "co_visible (dd_cursor dd')" "co_position (dd_cursor dd') = Some (1, 0)" "co_shape (dd_cursor dd') = Some pair_shape"
    by (auto simp: pointer_current_def pair_report_def dest: pair_shape_answered)
  have sh: "hot_spot pair_shape = (0, 0)" "sh_width pair_shape = 1" "sh_height pair_shape = 1" by (simp_all add: pair_shape_def)
  from f(4) have "overlaid (shape_op ?T pair_shape) (1, 0) (1, 1) (3, 2) px (cf_bgra frame)"
    by (simp add: cursor_on_def c sh size)
  then have drawn: "get_pixel 12 (cf_bgra frame) = get_pixel 12 px" "get_pixel 4 (cf_bgra frame) = shape_op ?T pair_shape 0 0 (get_pixel 4 px)"
    unfolding overlaid_def prod.case Let_def by (simp_all add: All_less_Suc numeral_eq_Suc)
  have row: "px ! (1 * (3 * 4) + i) = word_of_nat (16 * 1 + i)" if "i < 3 * 4" for i
    using f(2) that unfolding shows_image_def by (elim conjE allE [of _ 1] allE [of _ i]) simp
  have "get_pixel 12 px = (16, 17, 18)" using row [of 0] row [of 1] row [of 2] by (simp add: get_pixel_def)
  moreover have "shape_op ?T pair_shape 0 0 q = (10, 20, 30)" for q
    by (cases q) (simp add: shape_op_def pair_gpu_def color_op_def blend_op_def pair_shape_def)
  ultimately have px: "get_pixel 12 (cf_bgra frame) = (16, 17, 18)" "get_pixel 4 (cf_bgra frame) = (10, 20, 30)" by (simp_all add: drawn)
  have crop: "pic ! (y * (2 * 4) + i) = cf_bgra frame ! (y * 12 + i)" if "y < 2" "i < 2 * 4" for y i
    using f(7) that unfolding is_crop_def by blast
  have "pic ! (0 * (2 * 4) + 4) = cf_bgra frame ! (0 * 12 + 4)" "pic ! (1 * (2 * 4) + 0) = cf_bgra frame ! (1 * 12 + 0)"
    by (rule crop; simp)+
  then have "pic ! 4 = 10" "pic ! 8 = 16" using px by (simp_all add: get_pixel_def)
  then show ?thesis
    using f(1,5,6) px c(3) by (intro exI [of _ frame] exI [of _ dd'] exI [of _ "release_next (pair_gpu True) g2"] exI [of _ pic] exI [of _ e']) simp
qed

subsection \<open>Releasing\<close>

text \<open>\<open>held g\<close>: a surface is acquired and not released.\<close>

definition held_ok :: "('g \<Rightarrow> bool) \<Rightarrow> ('r, 't, 'g) gpu \<Rightarrow> bool" where
  "held_ok held G \<longleftrightarrow>
     (\<forall>n g e g'. acquire_next G n g = (Inl e, g') \<longrightarrow> held g' = held g) \<and>
     (\<forall>n g r g'. acquire_next G n g = (Inr r, g') \<longrightarrow> held g') \<and>
     (\<forall>g. \<not> held (release_next G g))"

text \<open>The two answers after which the code returns without releasing.\<close>

definition frame_lost :: "('r, 't, 'g) gpu \<Rightarrow> u32 \<Rightarrow> 'g \<Rightarrow> bool" where
  "frame_lost G timeout_ms g \<longleftrightarrow>
     (case fst (acquire_next G timeout_ms g) of
        Inr (None, fi) \<Rightarrow> True
      | Inr (Some r, fi) \<Rightarrow> (case as_texture G r of Inl e \<Rightarrow> True | Inr t \<Rightarrow> False)
      | Inl e \<Rightarrow> False)"

lemma cpu_frame_releases:
  assumes "acquire_with_info N G timeout_ms g = (Inr (Some (t, fi)), g1)"
    and "acquire_frame_cpu N G timeout_ms dd g = Some (Inr (res, dd', g'))"
  shows "\<exists>g2. g' = release_next G g2"
proof (cases "readback_cpu N G t dd g1")
  case (Inl p)
  with assms show ?thesis by (simp add: acquire_frame_cpu_def)
next
  case (Inr q)
  obtain r dd1 g2 where q: "q = (r, dd1, g2)" by (cases q)
  show ?thesis
  proof (cases r)
    case (Inl e)
    with assms Inr q show ?thesis by (auto simp: acquire_frame_cpu_def release_frame_def)
  next
    case (Inr frame)
    with assms \<open>readback_cpu N G t dd g1 = Inr q\<close> q show ?thesis
      by (cases "cursor_update (pointer_shape G) fi (dd_cursor dd1) g2")
        (auto simp: acquire_frame_cpu_def release_frame_def rbind_Inr_iff)
  qed
qed

text \<open>C35. Surfaces are released: when the call returns with no surface held before, none is held after it, whether it
  gives a frame, a time-out or an error of the readback, unless the duplication delivered a frame without a resource or
  one that is not a texture: then it stays held.\<close>

theorem frames_released:
  assumes "held_ok held G" "\<not> held g" "acquire_frame_cpu N G timeout_ms dd g = Some (Inr (res, dd', g'))"
  shows "held g' \<longleftrightarrow> frame_lost G timeout_ms g"
proof -
  obtain a g1 where a: "acquire_next G timeout_ms g = (a, g1)" by force
  have rel: "\<not> held (release_next G g2)" for g2 using assms(1) by (simp add: held_ok_def)
  have e1: "acquire_next G n g2 = (Inl e, g3) \<Longrightarrow> held g3 = held g2" for n g2 e g3 using assms(1) by (simp add: held_ok_def)
  have e2: "acquire_next G n g2 = (Inr q, g3) \<Longrightarrow> held g3" for n g2 q g3 using assms(1) by (cases q) (simp add: held_ok_def)
  have h1: "held g1 = (case a of Inl e \<Rightarrow> False | Inr r \<Rightarrow> True)"
    using e1 [of timeout_ms g _ g1] e2 [of timeout_ms g _ g1] assms(2) a by (cases a) simp_all
  show ?thesis
  proof (cases "\<exists>r fi t. a = Inr (Some r, fi) \<and> as_texture G r = Inr t")
    case True
    then obtain r fi t where r: "a = Inr (Some r, fi)" "as_texture G r = Inr t" by blast
    then have "acquire_with_info N G timeout_ms g = (Inr (Some (t, fi)), g1)" using a by (simp add: acquire_with_info_def)
    from cpu_frame_releases [OF this assms(3)] have "\<exists>g2. g' = release_next G g2" .
    then show ?thesis using rel r a by (auto simp: frame_lost_def)
  next
    case False
    then have "\<exists>b. acquire_with_info N G timeout_ms g = (b, g1) \<and> (\<forall>x. b \<noteq> Inr (Some x))"
      using a by (cases a) (auto simp: acquire_with_info_def split: sum.splits option.splits)
    then have "g' = g1"
      using assms(3) by (auto simp: acquire_frame_cpu_def split: sum.splits option.splits)
    with False show ?thesis using h1 a by (auto simp: frame_lost_def split: sum.splits option.splits)
  qed
qed

text \<open>A frame that arrives, and one without a resource.\<close>

theorem frames_released_witness:
  "\<exists>dd0 r dd g' r2 dd2 g2.
    acquire_frame_cpu pair_numbers (pair_gpu True) 20 dd0 (False, \<lambda>y i. 0, \<lambda>y i. 0) = Some (Inr (r, dd, g')) \<and> \<not> fst g' \<and>
    acquire_frame_cpu pair_numbers (pair_gpu False) 20 dd0 (False, \<lambda>y i. 0, \<lambda>y i. 0) = Some (Inr (r2, dd2, g2)) \<and> fst g2"
proof -
  let ?g = "(False, \<lambda>y i. 0, \<lambda>y i. 0) :: pair_state"
  let ?dd = "\<lparr>staging = None, dd_cursor = CursorOverlay_default, dd_width = 3, dd_height = 2\<rparr>"
  have held: "held_ok fst (pair_gpu found)" for found by (auto simp: held_ok_def pair_gpu_def)
  have "frame_arrives pair_numbers (pair_gpu True) 20 ?g (False, pair_desc) pair_report (True, \<lambda>y i. 0, \<lambda>y i. 0)"
    by (simp add: frame_arrives_def pair_gpu_def pair_numbers_def pair_desc_def)
  from acquire_frame_cpu_shows [OF pair_gpu_ok _ this, of ?dd]
  obtain frame dd g' where a: "acquire_frame_cpu pair_numbers (pair_gpu True) 20 ?dd ?g = Some (Inr (Inr (Some frame), dd, g'))"
    using pair_gpu_serves [of True] unfolding pair_gpu_desc snd_conv by blast
  have "\<not> frame_lost (pair_gpu True) 20 ?g" by (simp add: frame_lost_def pair_gpu_def)
  with frames_released [OF held _ a] have rel: "\<not> fst g'" by simp
  obtain r2 dd2 g2 where b: "acquire_frame_cpu pair_numbers (pair_gpu False) 20 ?dd ?g = Some (Inr (r2, dd2, g2))"
    by (simp add: acquire_frame_cpu_def acquire_with_info_def pair_gpu_def)
  have "frame_lost (pair_gpu False) 20 ?g" by (simp add: frame_lost_def pair_gpu_def)
  with frames_released [OF held _ b] have "fst g2" by simp
  with a rel b show ?thesis by blast
qed

end
