(* ===== verification/Rounding.thy ===== *)
theory Rounding
  imports Prelude Complex_Main
begin

text \<open>
  Floating point arithmetic: an operation is the exact one followed by the rounding of the format, a function on the
  reals. Infinities and NaN are left out.
\<close>

type_synonym rounding = "real \<Rightarrow> real"

definition fadd :: "rounding \<Rightarrow> real \<Rightarrow> real \<Rightarrow> real" where "fadd rnd x y = rnd (x + y)"
definition fsub :: "rounding \<Rightarrow> real \<Rightarrow> real \<Rightarrow> real" where "fsub rnd x y = rnd (x - y)"
definition fmul :: "rounding \<Rightarrow> real \<Rightarrow> real \<Rightarrow> real" where "fmul rnd x y = rnd (x * y)"
definition fdiv :: "rounding \<Rightarrow> real \<Rightarrow> real \<Rightarrow> real" where "fdiv rnd x y = rnd (x / y)"

text \<open>\<open>f64::round\<close> goes to the nearest integer, halves away from zero.\<close>

definition round_away :: "real \<Rightarrow> int" where
  "round_away x = (if x < 0 then - \<lfloor>1 / 2 - x\<rfloor> else \<lfloor>x + 1 / 2\<rfloor>)"

end
