(* ===== verification/Loopback.thy ===== *)
theory Loopback
  imports Rounding
begin

text \<open>
  The loopback capture of the sound output (lumen-audio/src/wasapi.rs): the choice of the format, the loop that empties
  the capture buffers, reading samples of the mix format, the resampler, and the cutting into frames of 352 stereo
  samples. The audio engine is an argument: its answers, in order. Double precision arithmetic takes the rounding as
  an argument; the thread and its channel are the list of frames sent and whether the receiver still listens.
\<close>

definition SAMPLE_RATE :: u32 where "SAMPLE_RATE = 44100"
definition CHANNELS :: nat where "CHANNELS = 2"
definition FRAME_SAMPLES :: nat where "FRAME_SAMPLES = 352"
definition WAVE_FORMAT_IEEE_FLOAT :: u16 where "WAVE_FORMAT_IEEE_FLOAT = 3"
definition WAVE_FORMAT_EXTENSIBLE :: u16 where "WAVE_FORMAT_EXTENSIBLE = 0xFFFE"
definition SUBTYPE_IEEE_FLOAT :: "128 word" where "SUBTYPE_IEEE_FLOAT = 0x300000010800000aa00389b71"

type_synonym i16 = "16 word"

subsection \<open>Frames\<close>

text \<open>\<open>push_frames\<close>: the samples not yet sent, and the frames sent; \<open>listening\<close> tells whether the receiver is still there.\<close>

definition frame_len :: nat where "frame_len = FRAME_SAMPLES * CHANNELS"

lemma frame_len_pos: "0 < frame_len"
  by (simp add: frame_len_def FRAME_SAMPLES_def CHANNELS_def)

function send_frames :: "bool \<Rightarrow> i16 list \<Rightarrow> i16 list list \<Rightarrow> i16 list \<times> i16 list list" where
  "send_frames listening out sent =
    (if length out < frame_len then (out, sent)
     else if \<not> listening then (drop frame_len out, sent)
     else send_frames listening (drop frame_len out) (sent @ [take frame_len out]))"
  by pat_completeness auto
termination
  by (relation "measure (\<lambda>(listening, out, sent). length out)") (use frame_len_pos in auto)

declare send_frames.simps [simp del]

definition push_frames :: "bool \<Rightarrow> i16 list \<Rightarrow> i16 list \<Rightarrow> i16 list list \<Rightarrow> i16 list \<times> i16 list list" where
  "push_frames listening samples out sent = send_frames listening (out @ samples) sent"

subsection \<open>The mix format\<close>

record wave_format =
  wf_tag :: u16
  wf_rate :: u32
  wf_channels :: u16
  wf_bits :: u16
  wf_cb :: u16
  wf_sub :: "128 word"

datatype MixFormat = F32 | S16 | S24 | S32

definition from_wave_format :: "wave_format \<Rightarrow> MixFormat" where
  "from_wave_format fmt =
    (if wf_tag fmt = WAVE_FORMAT_EXTENSIBLE \<and> 22 \<le> wf_cb fmt \<and> wf_sub fmt = SUBTYPE_IEEE_FLOAT then F32
     else if wf_bits fmt = 16 then S16
     else if wf_bits fmt = 24 then S24
     else if wf_bits fmt = 32 then (if wf_tag fmt = WAVE_FORMAT_IEEE_FLOAT then F32 else S32)
     else S16)"

text \<open>
  \<open>n\<close> bytes at an offset of the buffer as a little-endian number. A read past the buffer is undefined behaviour
  of the unsafe block; here it is a panic, so that a result tells that it does not happen.
\<close>

definition read_le :: "bytes \<Rightarrow> nat \<Rightarrow> nat \<Rightarrow> nat res" where
  "read_le data off n = (if off + n \<le> length data then Inr (of_le (take n (drop off data))) else Inl Panic)"

definition sign_extend_24 :: "u32 \<Rightarrow> u32" where
  "sign_extend_24 v = signed_drop_bit 8 (push_bit 8 v)"

text \<open>A sample in [-1, 1]; \<open>f32\<close> is the value of the bits of a single precision number. The divisions are exact.\<close>

fun read_sample :: "(u32 \<Rightarrow> real) \<Rightarrow> MixFormat \<Rightarrow> bytes \<Rightarrow> nat \<Rightarrow> nat \<Rightarrow> real res" where
  "read_sample f32 F32 data frame channel =
    rbind (read_le data (frame * 4 + channel * 4) 4) (\<lambda>v. Inr (f32 (of_nat v)))"
| "read_sample f32 S16 data frame channel =
    rbind (read_le data (frame * 2 + channel * 2) 2) (\<lambda>v. Inr (of_int (sint (of_nat v :: i16)) / 32768))"
| "read_sample f32 S24 data frame channel =
    rbind (read_le data (frame * 3 + channel * 3) 3) (\<lambda>v. Inr (of_int (sint (sign_extend_24 (of_nat v))) / 8388608))"
| "read_sample f32 S32 data frame channel =
    rbind (read_le data (frame * 4 + channel * 4) 4) (\<lambda>v. Inr (of_int (sint (of_nat v :: u32)) / 2147483648))"

subsection \<open>The resampler\<close>

record StereoResampler =
  src_rate :: real
  dst_rate :: real
  rs_phase :: real
  rs_tail :: "(real \<times> real) option"

definition StereoResampler_new :: "real \<Rightarrow> real \<Rightarrow> StereoResampler" where
  "StereoResampler_new src dst = \<lparr>src_rate = src, dst_rate = dst, rs_phase = 0, rs_tail = None\<rparr>"

definition clamp_i16 :: "rounding \<Rightarrow> real \<Rightarrow> i16" where
  "clamp_i16 rnd v = word_of_int (max (- 32768) (min 32767 (round_away (fmul rnd v 32767))))"

definition at_index :: "real list \<Rightarrow> nat \<Rightarrow> real res" where
  "at_index xs i = (if i < length xs then Inr (xs ! i) else Inl Panic)"

text \<open>
  One output frame. The cast of a negative \<open>floor\<close> to \<open>usize\<close> gives 0, as \<open>nat\<close> does, and then
  \<open>frac\<close> is negative.
\<close>

definition lerp :: "rounding \<Rightarrow> real \<Rightarrow> real \<Rightarrow> real \<Rightarrow> real" where
  "lerp rnd fr x y = fadd rnd (fmul rnd x (fsub rnd 1 fr)) (fmul rnd y fr)"

definition frame_at :: "rounding \<Rightarrow> real list \<Rightarrow> real \<Rightarrow> (i16 \<times> i16) res" where
  "frame_at rnd ext phase =
    (let p = fadd rnd phase 1; i0 = nat \<lfloor>p\<rfloor>; fr = fsub rnd p (real i0) in
     rbind (at_index ext (i0 * 2)) (\<lambda>l0. rbind (at_index ext (i0 * 2 + 2)) (\<lambda>l1.
     rbind (at_index ext (i0 * 2 + 1)) (\<lambda>r0. rbind (at_index ext (i0 * 2 + 3)) (\<lambda>r1.
       Inr (clamp_i16 rnd (lerp rnd fr l0 l1), clamp_i16 rnd (lerp rnd fr r0 r1)))))))"

text \<open>The loop need not end for every ratio: a ratio of 0, or one too small to change the phase, repeats a frame for ever.\<close>

partial_function (option) resample_loop ::
  "rounding \<Rightarrow> real \<Rightarrow> real list \<Rightarrow> nat \<Rightarrow> real \<Rightarrow> i16 list \<Rightarrow> (i16 list \<times> real) res option" where
  "resample_loop rnd ratio ext ext_frames ph out =
    (if fadd rnd ph 2 < real ext_frames then
       (case frame_at rnd ext ph of
          Inl e \<Rightarrow> Some (Inl e)
        | Inr (l, r) \<Rightarrow> resample_loop rnd ratio ext ext_frames (fadd rnd ph ratio) (out @ [l, r]))
     else Some (Inr (out, ph)))"

definition tail_samples :: "(real \<times> real) option \<Rightarrow> real list" where
  "tail_samples t = (case t of Some (l, r) \<Rightarrow> [l, r] | None \<Rightarrow> [])"

definition resample :: "rounding \<Rightarrow> real list \<Rightarrow> StereoResampler \<Rightarrow> (i16 list \<times> StereoResampler) res option" where
  "resample rnd stereo rs =
    (let ratio = fdiv rnd (src_rate rs) (dst_rate rs); frames = length stereo div 2;
         ext = tail_samples (rs_tail rs) @ stereo;
         ext_frames = frames + (if rs_tail rs = None then 0 else 1) in
     case resample_loop rnd ratio ext ext_frames (rs_phase rs) [] of
       None \<Rightarrow> None
     | Some (Inl e) \<Rightarrow> Some (Inl e)
     | Some (Inr (out, ph)) \<Rightarrow>
         if length stereo < 2 then Some (Inl Panic)
         else Some (Inr (out, rs\<lparr>rs_phase := fsub rnd ph (real frames),
                rs_tail := Some (stereo ! (length stereo - 2), stereo ! (length stereo - 1))\<rparr>)))"

function downmix :: "nat \<Rightarrow> real list \<Rightarrow> real list" where
  "downmix n samples =
    (if n = 0 \<or> samples = [] then []
     else let chunk = take n samples; l = chunk ! 0; r = (if 1 < length chunk then chunk ! 1 else l)
          in l # r # downmix n (drop n samples))"
  by pat_completeness auto
termination
  by (relation "measure (\<lambda>(n, samples). length samples)") auto

declare downmix.simps [simp del]

definition process_stereo ::
  "rounding \<Rightarrow> real list \<Rightarrow> nat \<Rightarrow> StereoResampler \<Rightarrow> (i16 list \<times> StereoResampler) res option" where
  "process_stereo rnd samples channels rs =
    (if channels = 2 then resample rnd samples rs
     else if channels = 0 then Some (Inl Panic)
     else resample rnd (downmix channels samples) rs)"

subsection \<open>The capture loop\<close>

text \<open>
  One buffer of the engine: its size in sample frames, whether it is flagged silent, its bytes, whether the receiver
  still listens while it is processed, and whether releasing it succeeds. A wake-up of the thread: the stop flag before it, whether the
  wait ends with the event, and the buffers until \<open>GetBuffer\<close> fails.
\<close>

record packet =
  pk_frames :: nat
  pk_silent :: bool
  pk_data :: bytes
  pk_listening :: bool
  pk_released :: bool

record wakeup =
  wk_stop :: bool
  wk_event :: bool
  wk_packets :: "packet list"

text \<open>The state of the loop.\<close>

record capture =
  ca_channels :: nat
  ca_resample :: bool
  ca_mix :: "MixFormat option"
  ca_resampler :: StereoResampler
  ca_out :: "i16 list"
  ca_sent :: "i16 list list"

text \<open>
  The format: what was asked for when the engine accepts it, else the mix format. \<open>rnd\<close> takes part in the
  resampler only; the conversions of the rates are exact.
\<close>

definition start_capture :: "bool \<Rightarrow> wave_format \<Rightarrow> capture" where
  "start_capture preferred_ok mix =
    (let rate = (if preferred_ok then SAMPLE_RATE else wf_rate mix);
         channels = (if preferred_ok then of_nat CHANNELS else wf_channels mix) in
     \<lparr>ca_channels = unat channels, ca_resample = (rate \<noteq> SAMPLE_RATE \<or> channels \<noteq> of_nat CHANNELS),
      ca_mix = (if preferred_ok then None else Some (from_wave_format mix)),
      ca_resampler = StereoResampler_new (real (unat rate)) (real (unat SAMPLE_RATE)), ca_out = [], ca_sent = []\<rparr>)"

definition push_out :: "bool \<Rightarrow> i16 list \<Rightarrow> capture \<Rightarrow> capture" where
  "push_out listening samples c =
    (let (out, sent) = push_frames listening samples (ca_out c) (ca_sent c) in c\<lparr>ca_out := out, ca_sent := sent\<rparr>)"

definition mix_samples :: "(u32 \<Rightarrow> real) \<Rightarrow> MixFormat \<Rightarrow> nat \<Rightarrow> packet \<Rightarrow> real list res" where
  "mix_samples f32 mix channels p =
    (if pk_silent p then Inr (replicate (pk_frames p * channels) 0)
     else map_res (\<lambda>(i, c). read_sample f32 mix (pk_data p) i c)
            (concat (map (\<lambda>i. map (Pair i) [0..<channels]) [0..<pk_frames p])))"

definition direct_samples :: "packet \<Rightarrow> i16 list res" where
  "direct_samples p =
    (if pk_silent p then Inr (replicate (pk_frames p * CHANNELS) 0)
     else map_res (\<lambda>i. rbind (read_le (pk_data p) (2 * i) 2) (\<lambda>v. Inr (of_nat v))) [0..<pk_frames p * CHANNELS])"

text \<open>The body of the inner loop for a buffer that is not empty.\<close>

definition take_packet :: "rounding \<Rightarrow> (u32 \<Rightarrow> real) \<Rightarrow> packet \<Rightarrow> capture \<Rightarrow> capture res option" where
  "take_packet rnd f32 p c =
    (if ca_resample c then
       (case ca_mix c of
          None \<Rightarrow> Some (Inl Panic)
        | Some mix \<Rightarrow>
            (case mix_samples f32 mix (ca_channels c) p of
               Inl e \<Rightarrow> Some (Inl e)
             | Inr samples \<Rightarrow>
                 (case process_stereo rnd samples (ca_channels c) (ca_resampler c) of
                    None \<Rightarrow> None
                  | Some (Inl e) \<Rightarrow> Some (Inl e)
                  | Some (Inr (stereo, rs)) \<Rightarrow>
                      Some (Inr (push_out (pk_listening p) stereo (c\<lparr>ca_resampler := rs\<rparr>))))))
     else
       (case direct_samples p of
          Inl e \<Rightarrow> Some (Inl e)
        | Inr samples \<Rightarrow> Some (Inr (push_out (pk_listening p) samples c))))"

text \<open>An empty buffer ends the inner loop; a failed release ends the capture with an error.\<close>

fun take_packets :: "rounding \<Rightarrow> (u32 \<Rightarrow> real) \<Rightarrow> packet list \<Rightarrow> capture \<Rightarrow> (unit res \<times> capture) option" where
  "take_packets rnd f32 [] c = Some (Inr (), c)"
| "take_packets rnd f32 (p # ps) c =
    (if pk_frames p = 0 then Some (Inr (), c)
     else case take_packet rnd f32 p c of
       None \<Rightarrow> None
     | Some (Inl e) \<Rightarrow> Some (Inl e, c)
     | Some (Inr c) \<Rightarrow>
         if pk_released p then take_packets rnd f32 ps c else Some (Inl (Err (Transport ''windows'')), c))"

fun capture_loop :: "rounding \<Rightarrow> (u32 \<Rightarrow> real) \<Rightarrow> wakeup list \<Rightarrow> capture \<Rightarrow> (unit res \<times> capture) option" where
  "capture_loop rnd f32 [] c = Some (Inr (), c)"
| "capture_loop rnd f32 (w # ws) c =
    (if wk_stop w then Some (Inr (), c)
     else if \<not> wk_event w then Some (Inr (), c)
     else case take_packets rnd f32 (wk_packets w) c of
       None \<Rightarrow> None
     | Some (Inl e, c) \<Rightarrow> Some (Inl e, c)
     | Some (Inr _, c) \<Rightarrow> capture_loop rnd f32 ws c)"

subsection \<open>Cutting into frames\<close>

text \<open>What was sent and what is left over are the samples received, cut into frames of full length.\<close>

definition cut_ok :: "i16 list list \<Rightarrow> i16 list \<Rightarrow> i16 list \<Rightarrow> bool" where
  "cut_ok sent out samples \<longleftrightarrow>
     concat sent @ out = samples \<and> length out < frame_len \<and> (\<forall>f \<in> set sent. length f = frame_len)"

lemma cut_ok_Nil: "cut_ok [] [] []"
  using frame_len_pos by (simp add: cut_ok_def)

lemma send_frames_cut:
  assumes "concat sent @ out = samples" "\<forall>f \<in> set sent. length f = frame_len" "send_frames True out sent = (out', sent')"
  shows "cut_ok sent' out' samples"
  using assms
proof (induction "length out" arbitrary: out sent rule: less_induct)
  case less
  show ?case
  proof (cases "length out < frame_len")
    case True
    with less.prems show ?thesis by (simp add: send_frames.simps [of True out] cut_ok_def)
  next
    case False
    with less.prems(3) have s: "send_frames True (drop frame_len out) (sent @ [take frame_len out]) = (out', sent')"
      by (simp add: send_frames.simps [of True out])
    show ?thesis
    proof (rule less.hyps [OF _ _ _ s])
      show "length (drop frame_len out) < length out" using False frame_len_pos by simp
    qed (use less.prems(1,2) False in auto)
  qed
qed

lemma push_out_cut:
  assumes "cut_ok (ca_sent c) (ca_out c) samples"
  shows "cut_ok (ca_sent (push_out True xs c)) (ca_out (push_out True xs c)) (samples @ xs)"
proof -
  obtain out sent where p: "push_frames True xs (ca_out c) (ca_sent c) = (out, sent)" by force
  have "cut_ok sent out (samples @ xs)"
    using assms p send_frames_cut [of "ca_sent c" "ca_out c @ xs" "samples @ xs" out sent]
    by (auto simp: cut_ok_def push_frames_def)
  then show ?thesis by (simp add: push_out_def p)
qed

text \<open>The samples of a buffer in the format asked for: 16 bit stereo, little-endian.\<close>

fun le_samples :: "bytes \<Rightarrow> i16 list" where
  "le_samples (a # b # bs) = of_nat (unat a + 256 * unat b) # le_samples bs"
| "le_samples bs = []"

definition packet_pcm :: "packet \<Rightarrow> i16 list" where
  "packet_pcm p = (if pk_silent p then replicate (2 * pk_frames p) 0 else le_samples (pk_data p))"

definition packet_ok :: "packet \<Rightarrow> bool" where
  "packet_ok p \<longleftrightarrow> 0 < pk_frames p \<and> (pk_silent p \<or> length (pk_data p) = 4 * pk_frames p) \<and> pk_listening p \<and> pk_released p"

lemma read_le_samples:
  "2 * n = length d \<Longrightarrow> map_res (\<lambda>i. rbind (read_le d (2 * i) 2) (\<lambda>v. Inr (of_nat v))) [0..<n] = Inr (le_samples d)"
proof -
  assume n: "2 * n = length d"
  have nth: "of_nat (of_le (take 2 (drop (2 * i) d))) = le_samples d ! i" if "i < n" for i
    using that n
  proof (induction d arbitrary: n i rule: le_samples.induct)
    case (1 a b bs)
    show ?case
    proof (cases i)
      case (Suc j)
      from 1(1) [of j "n - 1"] 1(2,3) Suc show ?thesis by simp
    qed simp
  qed auto
  have len: "length (le_samples d) = length d div 2" by (induction d rule: le_samples.induct) auto
  have "map_res (\<lambda>i. rbind (read_le d (2 * i) 2) (\<lambda>v. Inr (of_nat v))) [0..<n] = Inr (map (\<lambda>i. le_samples d ! i) [0..<n])"
    by (rule map_res_Inr) (use n nth in \<open>auto simp: read_le_def\<close>)
  moreover have "map (\<lambda>i. le_samples d ! i) [0..<n] = le_samples d"
    using n len by (intro nth_equalityI) auto
  ultimately show ?thesis by simp
qed

lemma direct_samples_ok: "packet_ok p \<Longrightarrow> direct_samples p = Inr (packet_pcm p)"
  using read_le_samples [of "pk_frames p * 2" "pk_data p"]
  by (auto simp: direct_samples_def packet_pcm_def packet_ok_def CHANNELS_def mult.commute)

lemma take_packets_direct:
  assumes "\<forall>p \<in> set ps. packet_ok p" "\<not> ca_resample c" "cut_ok (ca_sent c) (ca_out c) samples"
  shows "\<exists>c'. take_packets rnd f32 ps c = Some (Inr (), c') \<and> \<not> ca_resample c' \<and>
    cut_ok (ca_sent c') (ca_out c') (samples @ concat (map packet_pcm ps))"
  using assms
proof (induction ps arbitrary: c samples)
  case (Cons p ps)
  have p: "packet_ok p" using Cons.prems(1) by simp
  define c1 where "c1 = push_out True (packet_pcm p) c"
  have "take_packet rnd f32 p c = Some (Inr c1)"
    using p Cons.prems(2) by (simp add: take_packet_def direct_samples_ok c1_def) (simp add: packet_ok_def)
  moreover have "\<not> ca_resample c1" using Cons.prems(2) by (simp add: c1_def push_out_def case_prod_unfold Let_def)
  moreover have "cut_ok (ca_sent c1) (ca_out c1) (samples @ packet_pcm p)"
    unfolding c1_def by (rule push_out_cut [OF Cons.prems(3)])
  ultimately show ?case
    using Cons.IH [of c1 "samples @ packet_pcm p"] Cons.prems(1) p by (simp add: packet_ok_def)
qed simp

lemma capture_loop_direct:
  assumes "\<forall>w \<in> set ws. \<not> wk_stop w \<and> wk_event w \<and> (\<forall>p \<in> set (wk_packets w). packet_ok p)" "\<not> ca_resample c"
    and "cut_ok (ca_sent c) (ca_out c) samples"
  shows "\<exists>c'. capture_loop rnd f32 ws c = Some (Inr (), c') \<and>
    cut_ok (ca_sent c') (ca_out c') (samples @ concat (map packet_pcm (concat (map wk_packets ws))))"
  using assms
proof (induction ws arbitrary: c samples)
  case (Cons w ws)
  have "\<forall>p \<in> set (wk_packets w). packet_ok p" using Cons.prems(1) by simp
  from take_packets_direct [OF this Cons.prems(2,3), of rnd f32] obtain c1 where
    c1: "take_packets rnd f32 (wk_packets w) c = Some (Inr (), c1)" "\<not> ca_resample c1"
    "cut_ok (ca_sent c1) (ca_out c1) (samples @ concat (map packet_pcm (wk_packets w)))" by blast
  have "\<forall>w \<in> set ws. \<not> wk_stop w \<and> wk_event w \<and> (\<forall>p \<in> set (wk_packets w). packet_ok p)" using Cons.prems(1) by simp
  from Cons.IH [OF this c1(2,3)] show ?case using c1(1) Cons.prems(1) by simp
qed simp

text \<open>C20. The direct format: when the engine accepts 44.1 kHz stereo, the frames handed to the stream, followed by what is
  still held back, are exactly the samples the engine delivered (zeros for silent buffers), over any sequence of
  wake-ups and buffer sizes; every frame has 352 stereo samples and less than a frame is held back; no read leaves a
  buffer.\<close>

theorem loopback_frames:
  assumes "\<forall>w \<in> set ws. \<not> wk_stop w \<and> wk_event w \<and> (\<forall>p \<in> set (wk_packets w). packet_ok p)"
  shows "\<exists>c. capture_loop rnd f32 ws (start_capture True mix) = Some (Inr (), c) \<and>
    concat (ca_sent c) @ ca_out c = concat (map packet_pcm (concat (map wk_packets ws))) \<and>
    length (ca_out c) < 704 \<and> (\<forall>f \<in> set (ca_sent c). length f = 704)"
proof -
  have "\<not> ca_resample (start_capture True mix)" "cut_ok (ca_sent (start_capture True mix)) (ca_out (start_capture True mix)) []"
    using cut_ok_Nil by (simp_all add: start_capture_def CHANNELS_def)
  from capture_loop_direct [OF assms this] show ?thesis
    by (simp add: cut_ok_def frame_len_def FRAME_SAMPLES_def CHANNELS_def)
qed

theorem loopback_frames_witness:
  "\<exists>c. capture_loop (\<lambda>x. x) (\<lambda>x. 0)
      [\<lparr>wk_stop = False, wk_event = True, wk_packets =
          [\<lparr>pk_frames = 352, pk_silent = True, pk_data = [], pk_listening = True, pk_released = True\<rparr>,
           \<lparr>pk_frames = 1, pk_silent = False, pk_data = [1, 2, 3, 255], pk_listening = True, pk_released = True\<rparr>]\<rparr>]
      (start_capture True \<lparr>wf_tag = 1, wf_rate = 48000, wf_channels = 2, wf_bits = 16, wf_cb = 0, wf_sub = 0\<rparr>) = Some (Inr (), c) \<and>
    concat (ca_sent c) @ ca_out c = replicate 704 0 @ [513, 65283]"
  using loopback_frames [of "[\<lparr>wk_stop = False, wk_event = True, wk_packets =
          [\<lparr>pk_frames = 352, pk_silent = True, pk_data = [], pk_listening = True, pk_released = True\<rparr>,
           \<lparr>pk_frames = 1, pk_silent = False, pk_data = [1, 2, 3, 255], pk_listening = True, pk_released = True\<rparr>]\<rparr>]"
      "\<lambda>x. x" "\<lambda>x. 0" "\<lparr>wf_tag = 1, wf_rate = 48000, wf_channels = 2, wf_bits = 16, wf_cb = 0, wf_sub = 0\<rparr>"]
  by (auto simp: packet_ok_def packet_pcm_def)

subsection \<open>The mix format\<close>

text \<open>The bytes of one sample.\<close>

fun sample_size :: "MixFormat \<Rightarrow> nat" where
  "sample_size F32 = 4" | "sample_size S16 = 2" | "sample_size S24 = 3" | "sample_size S32 = 4"

lemma read_sample_place: "read_sample f32 mix data i c = read_sample f32 mix data (i + c) 0"
  by (cases mix) (simp_all add: add_mult_distrib)

lemma read_le_take: "off + n \<le> k \<Longrightarrow> read_le (take k data) off n = read_le data off n"
  by (auto simp: read_le_def drop_take min_absorb1)

lemma read_sample_take:
  "(i + c + 1) * sample_size mix \<le> k \<Longrightarrow> read_sample f32 mix (take k data) i c = read_sample f32 mix data i c"
  by (cases mix) (simp_all add: read_le_take algebra_simps)

lemma read_le_inside: "off + n \<le> length data \<Longrightarrow> \<exists>v. rbind (read_le data off n) (\<lambda>v. Inr (g v)) = Inr v"
  by (simp add: read_le_def)

lemma read_sample_inside:
  "(i + c + 1) * sample_size mix \<le> length data \<Longrightarrow> \<exists>v. read_sample f32 mix data i c = Inr v"
  by (cases mix; simp only: read_sample.simps; rule read_le_inside; simp)

lemma map_res_cong: "(\<And>x. x \<in> set xs \<Longrightarrow> f x = g x) \<Longrightarrow> map_res f xs = map_res g xs"
  by (induction xs) simp_all

text \<open>C32. The mix format is misread: the offset of a sample does not take the number of channels into account, so sample
  \<open>c\<close> of frame \<open>i\<close> is sample number \<open>i + c\<close> of the buffer. Of a buffer of \<open>n\<close> frames of several
  channels only the first \<open>n + channels - 1\<close> of its \<open>n * channels\<close> samples have an influence on the result,
  and the second channel of a frame equals the first of the next one.\<close>

theorem mix_format_misread:
  assumes "\<not> pk_silent p" "pk_frames p * channels * sample_size mix \<le> length (pk_data p)" "1 < channels" "0 < pk_frames p"
  shows "\<exists>xs. mix_samples f32 mix channels p = Inr xs \<and> length xs = pk_frames p * channels \<and>
    mix_samples f32 mix channels (p\<lparr>pk_data := take ((pk_frames p + channels - 1) * sample_size mix) (pk_data p)\<rparr>) = Inr xs \<and>
    (\<forall>i. i + 1 < pk_frames p \<longrightarrow> xs ! (i * channels + 1) = xs ! ((i + 1) * channels))"
proof -
  define n where "n = pk_frames p"
  define read where "read data = (\<lambda>(i, c). read_sample f32 mix data i c)" for data
  define v where "v k = (case read_sample f32 mix (pk_data p) k 0 of Inl e \<Rightarrow> 0 | Inr x \<Rightarrow> x)" for k
  define xs where "xs = plane n channels (\<lambda>i c. v (i + c))"
  have mix: "mix_samples f32 mix channels (p\<lparr>pk_data := d\<rparr>) = map_res (read d) (plane n channels Pair)" for d
    using assms(1) by (simp add: mix_samples_def read_def plane_def n_def)
  have last: "n + channels - 1 \<le> n * channels"
  proof -
    obtain a b where "n = Suc a" "channels = Suc b" using assms(3,4) unfolding n_def by (metis gr0_implies_Suc less_trans zero_less_one)
    then show ?thesis by simp
  qed
  define len where "len = (n + channels - 1) * sample_size mix"
  have bound: "(i + c + 1) * sample_size mix \<le> len" if "i < n" "c < channels" for i c
    unfolding len_def using that by (intro mult_le_mono1) simp
  have "len \<le> n * channels * sample_size mix" unfolding len_def by (rule mult_le_mono1 [OF last])
  also have "\<dots> \<le> length (pk_data p)" using assms(2) by (simp add: n_def)
  finally have fits: "len \<le> length (pk_data p)" .
  have places: "set (plane n channels Pair) = {..<n} \<times> {..<channels}" by (auto simp: plane_def)
  have "read (pk_data p) (i, c) = Inr (v (i + c))" if "i < n" "c < channels" for i c
  proof -
    have "(i + c + 0 + 1) * sample_size mix \<le> length (pk_data p)" using bound [OF that] fits by simp
    from read_sample_inside [OF this, of f32] show ?thesis
      using read_sample_place [of f32 mix "pk_data p" i c] by (auto simp: v_def read_def)
  qed
  then have "map_res (read (pk_data p)) (plane n channels Pair) = Inr (map (\<lambda>(i, c). v (i + c)) (plane n channels Pair))"
    by (intro map_res_Inr) (auto simp: places)
  then have all: "map_res (read (pk_data p)) (plane n channels Pair) = Inr xs" by (simp add: plane_map xs_def)
  have "map_res (read (take len (pk_data p))) (plane n channels Pair) = map_res (read (pk_data p)) (plane n channels Pair)"
    by (rule map_res_cong) (use bound in \<open>auto simp: places read_def intro!: read_sample_take\<close>)
  moreover have "xs ! (i * channels + 1) = xs ! ((i + 1) * channels)" if "i + 1 < n" for i
    using plane_nth [of i n 1 channels "\<lambda>i c. v (i + c)"] plane_nth [of "i + 1" n 0 channels "\<lambda>i c. v (i + c)"] that assms(3)
    by (simp add: xs_def)
  ultimately show ?thesis
    using all mix [of "pk_data p"] mix [of "take len (pk_data p)"] by (auto simp: xs_def n_def len_def)
qed

theorem mix_format_misread_witness:
  "\<exists>xs. mix_samples (\<lambda>x. 0) S16 2
      \<lparr>pk_frames = 2, pk_silent = False, pk_data = [0, 64, 0, 192, 0, 32, 1, 2], pk_listening = True, pk_released = True\<rparr> = Inr xs \<and>
    xs ! 1 = xs ! 2 \<and> mix_samples (\<lambda>x. 0) S16 2
      \<lparr>pk_frames = 2, pk_silent = False, pk_data = [0, 64, 0, 192, 0, 32], pk_listening = True, pk_released = True\<rparr> = Inr xs"
  using mix_format_misread [of "\<lparr>pk_frames = 2, pk_silent = False, pk_data = [0, 64, 0, 192, 0, 32, 1, 2], pk_listening = True,
      pk_released = True\<rparr>" 2 S16 "\<lambda>x. 0"] by auto

subsection \<open>The resampler at a ratio of one\<close>

text \<open>
  The ratio is one when the mix format has 44.1 kHz and other than two channels. Rounding is exact on the integers of 53 bits
  and on the samples, which are floating point numbers.
\<close>

definition exact_on :: "rounding \<Rightarrow> real set \<Rightarrow> bool" where
  "exact_on rnd xs \<longleftrightarrow> (\<forall>k :: int. \<bar>k\<bar> \<le> 2 ^ 53 \<longrightarrow> rnd (of_int k) = of_int k) \<and> (\<forall>x \<in> xs. rnd x = x)"

lemma exact_int: "exact_on rnd xs \<Longrightarrow> \<bar>k\<bar> \<le> 2 ^ 53 \<Longrightarrow> rnd (of_int k) = of_int k"
  by (simp add: exact_on_def)

lemma exact_small:
  assumes "exact_on rnd xs"
  shows "rnd 0 = 0" "rnd 1 = 1" "rnd 2 = 2" "rnd (- 1) = - 1" "rnd (- 2) = - 2"
  using exact_int [OF assms, of 0] exact_int [OF assms, of 1] exact_int [OF assms, of 2] exact_int [OF assms, of "- 1"]
    exact_int [OF assms, of "- 2"] by simp_all

lemma exact_ops:
  assumes "exact_on rnd xs" "\<bar>a\<bar> + \<bar>b\<bar> \<le> 2 ^ 53"
  shows "fadd rnd (of_int a) (of_int b) = of_int (a + b)" "fsub rnd (of_int a) (of_int b) = of_int (a - b)"
  using exact_int [OF assms(1), of "a + b"] exact_int [OF assms(1), of "a - b"] assms(2)
  by (simp_all add: fadd_def fsub_def)

lemma frame_at_whole:
  assumes "exact_on rnd (set ext)" "2 * j + 3 < length ext" "j < 2 ^ 50"
  shows "frame_at rnd ext (of_int (int j - 1)) = Inr (clamp_i16 rnd (ext ! (2 * j)), clamp_i16 rnd (ext ! (2 * j + 1)))"
proof -
  have p: "fadd rnd (of_int (int j - 1)) 1 = real j" using exact_ops(1) [OF assms(1), of "int j - 1" 1] assms(3) by simp
  have fr: "fsub rnd (real j) (real j) = 0" using exact_ops(2) [OF assms(1), of "int j" "int j"] assms(3) by simp
  have "lerp rnd 0 x y = x" if "x \<in> set ext" for x y
    using that assms(1) exact_small [OF assms(1)] by (simp add: lerp_def fadd_def fmul_def fsub_def exact_on_def)
  with assms(2) show ?thesis unfolding frame_at_def p Let_def by (simp add: fr at_index_def mult.commute)
qed

lemma resample_loop_whole:
  assumes "exact_on rnd (set ext)" "length ext = 2 * n" "n < 2 ^ 50" "j \<le> n"
  shows "resample_loop rnd 1 ext n (of_int (int j - 1)) out =
    Some (Inr (out @ map (clamp_i16 rnd) (drop (2 * j) (take (2 * (n - 1)) ext)), of_int (max (int j) (int n - 1) - 1)))"
  using assms(4)
proof (induction "n - j" arbitrary: j out rule: less_induct)
  case less
  have c: "fadd rnd (of_int (int j - 1)) 2 = of_int (int j + 1)"
    using exact_ops(1) [OF assms(1), of "int j - 1" 2] less.prems assms(3) by simp
  show ?case
  proof (cases "j + 1 < n")
    case True
    have "fadd rnd (of_int (int j - 1)) 1 = of_int (int (j + 1) - 1)"
      using exact_ops(1) [OF assms(1), of "int j - 1" 1] True assms(3) by simp
    moreover have "resample_loop rnd 1 ext n (of_int (int (j + 1) - 1)) (out @ [a, b]) = Some (Inr ((out @ [a, b]) @
        map (clamp_i16 rnd) (drop (2 * (j + 1)) (take (2 * (n - 1)) ext)), of_int (max (int (j + 1)) (int n - 1) - 1)))" for a b
      by (rule less.hyps) (use True in auto)
    moreover have "drop (2 * j) (take (2 * (n - 1)) ext) = ext ! (2 * j) # ext ! (2 * j + 1) # drop (2 * (j + 1)) (take (2 * (n - 1)) ext)"
      using True assms(2) by (simp add: Cons_nth_drop_Suc [symmetric])
    moreover have "frame_at rnd ext (of_int (int j - 1)) = Inr (clamp_i16 rnd (ext ! (2 * j)), clamp_i16 rnd (ext ! (2 * j + 1)))"
      by (rule frame_at_whole [OF assms(1)]) (use True assms(2,3) in auto)
    ultimately show ?thesis
      using True c by (subst resample_loop.simps) (simp add: max_def)
  next
    case False
    with c show ?thesis by (subst resample_loop.simps) (simp add: max_def)
  qed
qed

text \<open>A buffer of whole frames; the resampler in the state of a ratio of one.\<close>

definition buffer_ok :: "rounding \<Rightarrow> real list \<Rightarrow> bool" where
  "buffer_ok rnd b \<longleftrightarrow> even (length b) \<and> 2 \<le> length b \<and> length b < 2 ^ 49 \<and> exact_on rnd (set b)"

definition ratio_one :: "real \<Rightarrow> (real \<times> real) option \<Rightarrow> StereoResampler \<Rightarrow> bool" where
  "ratio_one ph t rs \<longleftrightarrow> src_rate rs = dst_rate rs \<and> dst_rate rs \<noteq> 0 \<and> rs_phase rs = ph \<and> rs_tail rs = t"

definition last_frame :: "real list \<Rightarrow> real \<times> real" where
  "last_frame b = (b ! (length b - 2), b ! (length b - 1))"

lemma tail_last_frame: "2 \<le> length b \<Longrightarrow> tail_samples (Some (last_frame b)) = drop (length b - 2) b"
  by (rule nth_equalityI) (auto simp: tail_samples_def last_frame_def less_Suc_eq numeral_2_eq_2 Suc_diff_Suc)

lemma buffer_half: "buffer_ok rnd b \<Longrightarrow> int (length b div 2) < 2 ^ 49 \<and> 0 < length b div 2 \<and> b \<noteq> []"
  by (auto simp: buffer_ok_def)

lemma exact_on_Un: "exact_on rnd xs \<Longrightarrow> exact_on rnd ys \<Longrightarrow> exact_on rnd (xs \<union> ys)"
  by (auto simp: exact_on_def)

lemma exact_on_subset: "exact_on rnd xs \<Longrightarrow> ys \<subseteq> xs \<Longrightarrow> exact_on rnd ys"
  by (auto simp: exact_on_def)

lemma resample_end:
  assumes "ratio_one ph t rs" "buffer_ok rnd b"
    and "resample_loop rnd 1 (tail_samples t @ b) (length b div 2 + (if t = None then 0 else 1)) ph [] = Some (Inr (out, of_int z))"
    and "\<bar>z\<bar> \<le> 2 ^ 50"
  shows "\<exists>rs'. resample rnd b rs = Some (Inr (out, rs')) \<and> ratio_one (of_int (z - int (length b div 2))) (Some (last_frame b)) rs'"
proof -
  have "fdiv rnd (src_rate rs) (dst_rate rs) = 1"
    using assms(1,2) exact_small(2) by (auto simp: ratio_one_def fdiv_def buffer_ok_def)
  moreover have "fsub rnd (of_int z) (real (length b div 2)) = of_int (z - int (length b div 2))"
    using exact_ops(2) [of rnd "set b" z "int (length b div 2)"] assms(4) buffer_half [OF assms(2)] assms(2)
    by (simp add: buffer_ok_def)
  ultimately show ?thesis
    using assms(1-3) by (auto simp: resample_def ratio_one_def Let_def last_frame_def buffer_ok_def)
qed

text \<open>The first buffer, the second one and those behind it.\<close>

lemma resample_first:
  assumes "ratio_one 0 None rs" "buffer_ok rnd b" "4 \<le> length b"
  shows "\<exists>rs'. resample rnd b rs = Some (Inr (map (clamp_i16 rnd) (drop 2 (take (length b - 2) b)), rs')) \<and>
    ratio_one (- 2) (Some (last_frame b)) rs'"
proof -
  obtain n where n: "length b = 2 * n" using assms(2) by (auto simp: buffer_ok_def elim: evenE)
  have "n < 2 ^ 50" "2 \<le> n" "exact_on rnd (set b)" using assms(2,3) n by (simp_all add: buffer_ok_def)
  with resample_loop_whole [of rnd b n 1 "[]"] n
  have "resample_loop rnd 1 b n 0 [] = Some (Inr (map (clamp_i16 rnd) (drop 2 (take (length b - 2) b)), of_int (int n - 2)))"
    by (simp add: max_def right_diff_distrib')
  moreover have "int n - 2 - int (length b div 2) = - 2" "\<bar>int n - 2\<bar> \<le> 2 ^ 50" using n \<open>n < 2 ^ 50\<close> \<open>2 \<le> n\<close> by auto
  ultimately show ?thesis
    using resample_end [OF assms(1,2), of _ "int n - 2"] n by (simp add: tail_samples_def)
qed

lemma resample_loop_next:
  assumes "buffer_ok rnd b" "exact_on rnd {l, r}"
  shows "resample_loop rnd 1 (l # r # b) (length b div 2 + 1) (- 1) out =
    Some (Inr (out @ map (clamp_i16 rnd) (take (length b) (l # r # b)), of_int (int (length b div 2) - 1)))"
proof -
  obtain n where n: "length b = 2 * n" using assms(1) by (auto simp: buffer_ok_def elim: evenE)
  have "exact_on rnd (set (l # r # b))" using exact_on_Un [OF assms(2), of "set b"] assms(1) by (simp add: buffer_ok_def)
  moreover have "n + 1 < 2 ^ 50" "0 < n" using assms(1) n by (simp_all add: buffer_ok_def)
  ultimately show ?thesis
    using resample_loop_whole [of rnd "l # r # b" "n + 1" 0 out] n by (simp add: max_def)
qed

lemma resample_next:
  assumes "ratio_one (- 1) (Some (l, r)) rs" "buffer_ok rnd b" "exact_on rnd {l, r}"
  shows "\<exists>rs'. resample rnd b rs = Some (Inr (map (clamp_i16 rnd) (take (length b) (l # r # b)), rs')) \<and>
    ratio_one (- 1) (Some (last_frame b)) rs'"
  using resample_end [OF assms(1,2), of _ "int (length b div 2) - 1"] resample_loop_next [OF assms(2,3), of "[]"]
    buffer_half [OF assms(2)]
  by (simp add: tail_samples_def)

lemma resample_second:
  assumes "ratio_one (- 2) (Some (l, r)) rs" "buffer_ok rnd b" "exact_on rnd {l, r}"
  shows "\<exists>rs'. resample rnd b rs = Some (Inr ([clamp_i16 rnd (lerp rnd (- 1) l (b ! 0)), clamp_i16 rnd (lerp rnd (- 1) r (b ! 1))] @
      map (clamp_i16 rnd) (take (length b) (l # r # b)), rs')) \<and> ratio_one (- 1) (Some (last_frame b)) rs'"
proof -
  have x: "exact_on rnd (set b)" "2 \<le> length b" using assms(2) by (simp_all add: buffer_ok_def)
  have ops: "fadd rnd (- 2) 2 = 0" "fadd rnd (- 2) 1 = - 1" "fsub rnd (- 1) 0 = - 1"
    using exact_small [OF x(1)] by (simp_all add: fadd_def fsub_def)
  have fr: "frame_at rnd (l # r # b) (- 2) = Inr (clamp_i16 rnd (lerp rnd (- 1) l (b ! 0)), clamp_i16 rnd (lerp rnd (- 1) r (b ! 1)))"
    using x(2) buffer_half [OF assms(2)] by (simp add: frame_at_def ops Let_def at_index_def)
  have "resample_loop rnd 1 (l # r # b) (length b div 2 + 1) (- 2) [] =
      resample_loop rnd 1 (l # r # b) (length b div 2 + 1) (- 1)
        [clamp_i16 rnd (lerp rnd (- 1) l (b ! 0)), clamp_i16 rnd (lerp rnd (- 1) r (b ! 1))]"
    by (subst resample_loop.simps) (simp add: ops fr)
  with resample_end [OF assms(1,2), of _ "int (length b div 2) - 1"] resample_loop_next [OF assms(2,3)]
    buffer_half [OF assms(2)]
  show ?thesis by (simp add: tail_samples_def)
qed

text \<open>The resampler over a sequence of buffers.\<close>

fun resample_all :: "rounding \<Rightarrow> real list list \<Rightarrow> StereoResampler \<Rightarrow> i16 list \<Rightarrow> (i16 list \<times> StereoResampler) res option" where
  "resample_all rnd [] rs out = Some (Inr (out, rs))"
| "resample_all rnd (b # bs) rs out =
    (case resample rnd b rs of
       None \<Rightarrow> None
     | Some (Inl e) \<Rightarrow> Some (Inl e)
     | Some (Inr (o1, rs)) \<Rightarrow> resample_all rnd bs rs (out @ o1))"

lemma take_shift:
  "length t = 2 \<Longrightarrow> 2 \<le> length b \<Longrightarrow>
    take (length b) (t @ b) @ take (length s) (drop (length b - 2) b @ s) = take (length b + length s) (t @ b @ s)"
proof -
  assume a: "length t = 2" "2 \<le> length b"
  then have "t @ b = take (length b) (t @ b) @ drop (length b - 2) b"
    by (metis append_take_drop_id drop_append drop_eq_Nil2 append_Nil)
  then have "t @ b @ s = take (length b) (t @ b) @ drop (length b - 2) b @ s" by (metis append.assoc)
  moreover have "length (take (length b) (t @ b)) = length b" using a by simp
  ultimately show ?thesis by (metis take_append take_all_iff add_diff_cancel_left' le_add1)
qed

lemma resample_all_next:
  assumes "ratio_one (- 1) (Some (l, r)) rs" "\<forall>b \<in> set bs. buffer_ok rnd b" "exact_on rnd {l, r}"
  shows "\<exists>rs'. resample_all rnd bs rs out = Some (Inr (out @ map (clamp_i16 rnd) (take (length (concat bs)) ([l, r] @ concat bs)), rs'))"
  using assms
proof (induction bs arbitrary: l r rs out)
  case (Cons b bs)
  have b: "buffer_ok rnd b" using Cons.prems(2) by simp
  from resample_next [OF Cons.prems(1) b Cons.prems(3)] obtain rs1 where
    rs1: "resample rnd b rs = Some (Inr (map (clamp_i16 rnd) (take (length b) (l # r # b)), rs1))"
    "ratio_one (- 1) (Some (last_frame b)) rs1" by blast
  obtain l' r' where lf: "last_frame b = (l', r')" by force
  have two: "2 \<le> length b" using b by (simp add: buffer_ok_def)
  have tl: "[l', r'] = drop (length b - 2) b" using tail_last_frame [OF two] by (simp add: lf tail_samples_def)
  have "exact_on rnd {l', r'}"
    using exact_on_subset [of rnd "set b" "set (drop (length b - 2) b)"] b tl [symmetric] set_drop_subset [of "length b - 2" b]
    by (simp add: buffer_ok_def)
  then obtain rs2 where "resample_all rnd bs rs1 (out @ map (clamp_i16 rnd) (take (length b) (l # r # b))) =
      Some (Inr ((out @ map (clamp_i16 rnd) (take (length b) (l # r # b))) @
        map (clamp_i16 rnd) (take (length (concat bs)) (drop (length b - 2) b @ concat bs)), rs2))"
    using Cons.IH [OF rs1(2) [unfolded lf], of "out @ map (clamp_i16 rnd) (take (length b) (l # r # b))"] Cons.prems(2) tl by auto
  moreover have "map (clamp_i16 rnd) (take (length b) (l # r # b)) @
      map (clamp_i16 rnd) (take (length (concat bs)) (drop (length b - 2) b @ concat bs)) =
      map (clamp_i16 rnd) (take (length (concat (b # bs))) ([l, r] @ concat (b # bs)))"
    using take_shift [of "[l, r]" b "concat bs"] two by (simp flip: map_append)
  ultimately show ?case using rs1(1) by simp
qed simp

text \<open>C31. At the ratio of one the resampler is not the identity: over any cutting of the stream into buffers of whole frames,
  it drops the first frame, and at the boundary of the first and second buffers it inserts a frame made by extrapolating
  backwards from the frames on both sides; all other frames but the last come out in order, converted, and nothing panics.\<close>

theorem resampler_boundary:
  assumes "\<forall>d \<in> set (b # c # bs). buffer_ok rnd d" "4 \<le> length b" "r \<noteq> 0"
  defines "stream \<equiv> concat (b # c # bs)" and "n \<equiv> length b"
  shows "\<exists>rs. resample_all rnd (b # c # bs) (StereoResampler_new r r) [] = Some (Inr (
      map (clamp_i16 rnd) (drop 2 (take (n - 2) stream)) @
      [clamp_i16 rnd (lerp rnd (- 1) (stream ! (n - 2)) (stream ! n)),
       clamp_i16 rnd (lerp rnd (- 1) (stream ! (n - 1)) (stream ! (n + 1)))] @
      map (clamp_i16 rnd) (drop (n - 2) (take (length stream - 2) stream)), rs))"
proof -
  have b: "buffer_ok rnd b" and c: "buffer_ok rnd c" and bs: "\<forall>d \<in> set bs. buffer_ok rnd d" using assms(1) by simp_all
  have "ratio_one 0 None (StereoResampler_new r r)" using assms(3) by (simp add: ratio_one_def StereoResampler_new_def)
  from resample_first [OF this b assms(2)] obtain rs1 where
    rs1: "resample rnd b (StereoResampler_new r r) = Some (Inr (map (clamp_i16 rnd) (drop 2 (take (n - 2) b)), rs1))"
    "ratio_one (- 2) (Some (last_frame b)) rs1" unfolding n_def by blast
  obtain l1 r1 where lf: "last_frame b = (l1, r1)" by force
  obtain l2 r2 where lc: "last_frame c = (l2, r2)" by force
  have two: "2 \<le> length b" "2 \<le> length c" using b c by (simp_all add: buffer_ok_def)
  have tb: "[l1, r1] = drop (n - 2) b" using tail_last_frame [OF two(1)] by (simp add: lf tail_samples_def n_def)
  have tc: "[l2, r2] = drop (length c - 2) c" using tail_last_frame [OF two(2)] by (simp add: lc tail_samples_def)
  have e1: "exact_on rnd {l1, r1}" and e2: "exact_on rnd {l2, r2}"
    using exact_on_subset [of rnd "set b" "set (drop (n - 2) b)"] exact_on_subset [of rnd "set c" "set (drop (length c - 2) c)"]
      b c tb [symmetric] tc [symmetric] set_drop_subset [of "n - 2" b] set_drop_subset [of "length c - 2" c]
    by (simp_all add: buffer_ok_def)
  define glitch where "glitch = [clamp_i16 rnd (lerp rnd (- 1) l1 (c ! 0)), clamp_i16 rnd (lerp rnd (- 1) r1 (c ! 1))]"
  from resample_second [OF rs1(2) [unfolded lf] c e1] obtain rs2 where
    rs2: "resample rnd c rs1 = Some (Inr (glitch @ map (clamp_i16 rnd) (take (length c) (l1 # r1 # c)), rs2))"
    "ratio_one (- 1) (Some (last_frame c)) rs2" unfolding glitch_def by blast
  let ?out = "map (clamp_i16 rnd) (drop 2 (take (n - 2) b)) @ glitch @ map (clamp_i16 rnd) (take (length c) (l1 # r1 # c))"
  from resample_all_next [OF rs2(2) [unfolded lc] bs e2, of ?out] obtain rs3 where
    rs3: "resample_all rnd bs rs2 ?out = Some (Inr (?out @ map (clamp_i16 rnd) (take (length (concat bs)) ([l2, r2] @ concat bs)), rs3))"
    by blast
  have "take (length c) (l1 # r1 # c) @ take (length (concat bs)) ([l2, r2] @ concat bs) =
      take (length c + length (concat bs)) ([l1, r1] @ c @ concat bs)"
    unfolding tc using take_shift [of "[l1, r1]" c "concat bs"] two by simp
  also have "[l1, r1] @ c @ concat bs = drop (n - 2) b @ c @ concat bs" by (simp only: tb)
  also have "take (length c + length (concat bs)) (drop (n - 2) b @ c @ concat bs) = drop (n - 2) (take (length stream - 2) stream)"
    using two by (simp add: stream_def n_def drop_take)
  finally have rest: "map (clamp_i16 rnd) (take (length c) (l1 # r1 # c)) @
      map (clamp_i16 rnd) (take (length (concat bs)) ([l2, r2] @ concat bs)) =
      map (clamp_i16 rnd) (drop (n - 2) (take (length stream - 2) stream))" by (simp flip: map_append)
  have "drop 2 (take (n - 2) b) = drop 2 (take (n - 2) stream)" by (simp add: stream_def n_def)
  moreover have "stream ! (n - 2) = l1" "stream ! (n - 1) = r1" "stream ! n = c ! 0" "stream ! (n + 1) = c ! 1"
    using lf two by (auto simp: stream_def n_def last_frame_def nth_append)
  ultimately show ?thesis using rs1(1) rs2(1) rs3 rest by (simp add: glitch_def)
qed

text \<open>Three frames 0, 1/4, 1/2 in two buffers come out as 0 (extrapolated) and 1/4.\<close>

theorem resampler_boundary_witness:
  "\<exists>rs. resample_all (\<lambda>x. x) [[0, 0, 1 / 4, 1 / 4], [1 / 2, 1 / 2]] (StereoResampler_new 44100 44100) [] =
    Some (Inr ([0, 0, 8192, 8192], rs))"
  using resampler_boundary [of "[0, 0, 1 / 4, 1 / 4]" "[1 / 2, 1 / 2]" "[]" "\<lambda>x. x" 44100]
  by (simp add: buffer_ok_def exact_on_def lerp_def fadd_def fmul_def fsub_def clamp_i16_def round_away_def)

end
