(* ===== verification/Audio_Loop.thy ===== *)
theory Audio_Loop
  imports Audio Loopback
begin

text \<open>
  The audio thread of the mirroring program (run_audio in lumen-capture/examples/mirror_desktop.rs): it waits for the
  first video frame, drops the frames that piled up, announces the clock, and then encodes and sends one captured frame
  per pass, with a sync packet every second. A session without encryption sends the first frames once and from then on
  repeats with each frame the one sent eight frames before. The captured frames are a list, the frames still in the
  channel; clocks, the stop flag and the outcomes of the sends are arguments. Printing is left out.
\<close>

subsection \<open>The code\<close>

definition DEPTH :: nat where "DEPTH = 8"
definition SPF :: u32 where "SPF = 352"

record audio_loop =
  al_stream :: AudioStream
  al_queue :: "u16 list list"
  al_waiting :: "bytes list"
  al_time :: u32
  al_seq :: u16
  al_slots :: "(bytes \<times> u32 \<times> u16) option list"
  al_idx :: nat
  al_burst_done :: bool
  al_last_sync :: nat
  al_frames :: u64

text \<open>
  One pass: the stop flag, the instant at which the sync is checked and the one after it was sent (nanoseconds), the
  network time, the datagrams that arrived on the control socket, and whether each send succeeds.
\<close>

record audio_pass =
  ap_stop :: bool
  ap_checked_at :: nat
  ap_synced_at :: nat
  ap_net :: u64
  ap_sync_ok :: bool
  ap_ctrl :: "bytes list"
  ap_old_ok :: bool
  ap_new_ok :: bool

definition sync_if_due :: "audio_pass \<Rightarrow> audio_loop \<Rightarrow> unit res \<times> audio_loop" where
  "sync_if_due p a =
    (if 1000000000 \<le> ap_checked_at p - al_last_sync a then
       (case audio_send_sync (ap_sync_ok p) (ap_net p) False (al_stream a) of
          (Inl e, s) \<Rightarrow> (Inl e, a\<lparr>al_stream := s\<rparr>)
        | (Inr _, s) \<Rightarrow> (Inr (), a\<lparr>al_stream := s, al_last_sync := ap_synced_at p\<rparr>))
     else (Inr (), a))"

text \<open>Sending the frame of this pass, and one kept for retransmission.\<close>

definition send_new :: "crypto \<Rightarrow> bool \<Rightarrow> bytes \<Rightarrow> audio_loop \<Rightarrow> unit res \<times> audio_loop" where
  "send_new C ok payload a =
    (let (r, s) = audio_send_frame C ok payload (al_time a) (al_seq a) (al_stream a) in (r, a\<lparr>al_stream := s\<rparr>))"

definition keep_slot :: "bytes \<Rightarrow> audio_loop \<Rightarrow> audio_loop" where
  "keep_slot payload a = a\<lparr>al_slots := (al_slots a)[al_idx a := Some (payload, al_time a, al_seq a)]\<rparr>"

definition resend_old :: "crypto \<Rightarrow> bool \<Rightarrow> audio_loop \<Rightarrow> unit res \<times> audio_loop" where
  "resend_old C ok a =
    (case al_slots a ! al_idx a of
       None \<Rightarrow> (Inr (), a)
     | Some (old, old_rtp, old_seq) \<Rightarrow>
         (case audio_send_frame C ok old old_rtp old_seq (al_stream a) of
            (Inl e, s) \<Rightarrow> (Inl e, a\<lparr>al_stream := s, al_slots := (al_slots a)[al_idx a := None]\<rparr>)
          | (Inr _, s) \<Rightarrow> (Inr (), a\<lparr>al_stream := s\<rparr>)))"

definition send_fec :: "crypto \<Rightarrow> audio_pass \<Rightarrow> bytes \<Rightarrow> audio_loop \<Rightarrow> unit res \<times> audio_loop" where
  "send_fec C p payload a =
    (if length (al_slots a) \<le> al_idx a then (Inl Panic, a)
     else if \<not> al_burst_done a then
       (case send_new C (ap_new_ok p) payload a of
          (Inl e, a) \<Rightarrow> (Inl e, a)
        | (Inr _, a) \<Rightarrow>
            let a = keep_slot payload a; idx = al_idx a + 1 in
            (Inr (), if DEPTH \<le> idx then a\<lparr>al_burst_done := True, al_idx := 0\<rparr> else a\<lparr>al_idx := idx\<rparr>))
     else
       (case resend_old C (ap_old_ok p) a of
          (Inl e, a) \<Rightarrow> (Inl e, a)
        | (Inr _, a) \<Rightarrow>
            (case send_new C (ap_new_ok p) payload a of
               (Inl e, a) \<Rightarrow> (Inl e, a)
             | (Inr _, a) \<Rightarrow> (Inr (), (keep_slot payload a)\<lparr>al_idx := (al_idx a + 1) mod DEPTH\<rparr>))))"

definition send_payload :: "crypto \<Rightarrow> bool \<Rightarrow> audio_pass \<Rightarrow> bytes \<Rightarrow> audio_loop \<Rightarrow> unit res \<times> audio_loop" where
  "send_payload C use_fec p payload a =
    (if use_fec then send_fec C p payload a else send_new C (ap_new_ok p) payload a)"

fun audio_passes :: "crypto \<Rightarrow> bool \<Rightarrow> audio_pass list \<Rightarrow> audio_loop \<Rightarrow> unit res \<times> audio_loop" where
  "audio_passes C use_fec [] a = (Inr (), a)"
| "audio_passes C use_fec (p # ps) a =
    (if ap_stop p then (Inr (), a)
     else case sync_if_due p a of
       (Inl e, a) \<Rightarrow> (Inl e, a)
     | (Inr _, a) \<Rightarrow>
         let a = a\<lparr>al_waiting := snd (drain_control (al_waiting a @ ap_ctrl p))\<rparr> in
         (case al_queue a of
            [] \<Rightarrow> (Inr (), a)
          | pcm # queue \<Rightarrow>
              let a = a\<lparr>al_queue := queue\<rparr> in
              (case encode_alac_verbatim pcm (unat SPF) 2 of
                 Inl e \<Rightarrow> (Inl e, a)
               | Inr payload \<Rightarrow>
                   (case send_payload C use_fec p payload a of
                      (Inl e, a) \<Rightarrow> (Inl e, a)
                    | (Inr _, a) \<Rightarrow>
                        audio_passes C use_fec ps
                          (a\<lparr>al_seq := al_seq a + 1, al_time := al_time a + SPF, al_frames := al_frames a + 1\<rparr>)))))"

text \<open>
  The whole thread. \<open>stopped\<close>: the stop flag is set when the wait for the first video frame ends; \<open>stale\<close>: the number
  of frames in the channel then; \<open>nanos\<close>: the system time since 1970, \<open>None\<close> for a clock before it.
\<close>

definition run_audio ::
  "crypto \<Rightarrow> bool \<Rightarrow> nat \<Rightarrow> nat option \<Rightarrow> u64 \<Rightarrow> bool \<Rightarrow> nat \<Rightarrow> audio_pass list \<Rightarrow> u16 list list \<Rightarrow> AudioStream \<Rightarrow>
     unit res \<times> AudioStream" where
  "run_audio C stopped stale nanos net sync_ok started ps captured s =
    (if stopped then (Inr (), s)
     else
       (case nanos of
          None \<Rightarrow> (Inl (Err (Protocol ''clock: second time provided was later than self'')), s)
        | Some n \<Rightarrow>
            let time = of_nat n OR 0x80000000; s = s\<lparr>rtp_time := time\<rparr> in
            (case audio_send_sync sync_ok net True s of
               (Inl e, s) \<Rightarrow> (Inl e, s)
             | (Inr _, s) \<Rightarrow>
                 let (r, a) = audio_passes C (\<not> audio_is_encrypted s) ps
                       \<lparr>al_stream = s, al_queue = drop stale captured, al_waiting = [], al_time = time, al_seq = 1,
                        al_slots = replicate DEPTH None, al_idx = 0, al_burst_done = False, al_last_sync = started,
                        al_frames = 0\<rparr>
                 in (r, al_stream a))))"

subsection \<open>What is sent\<close>

text \<open>The parts of the stream that sending frames reads and changes.\<close>

definition same_data :: "AudioStream \<Rightarrow> AudioStream \<Rightarrow> bool" where
  "same_data s s' \<longleftrightarrow> au_data_socket s = au_data_socket s' \<and> au_chacha_key s = au_chacha_key s' \<and>
     chacha_counter s = chacha_counter s' \<and> rtp_time s = rtp_time s'"

lemma same_data_send:
  "same_data s s' \<Longrightarrow> fst (audio_send_frame C ok p t q s) = fst (audio_send_frame C ok p t q s') \<and>
    same_data (snd (audio_send_frame C ok p t q s)) (snd (audio_send_frame C ok p t q s'))"
  by (auto simp: same_data_def audio_send_frame_def audio_body_def advance_clock_def Let_def split: option.split)

lemma audio_send_frame_ok: "fst (audio_send_frame C True p t q s) = Inr ()"
  by (simp add: audio_send_frame_def case_prod_unfold Let_def)

lemma send_frame_step:
  assumes "same_data s s'"
  shows "\<exists>r. audio_send_frame C True p t q s = (Inr (), r) \<and> same_data r (snd (audio_send_frame C True p t q s'))"
  using same_data_send [OF assms, of C True p t q] audio_send_frame_ok [of C p t q s]
  by (cases "audio_send_frame C True p t q s") simp

lemma sync_same_data:
  assumes "audio_send_sync True net first s = (r, s1)" "same_data s s'"
  shows "r = Inr () \<and> same_data s1 s'"
  using assms by (auto simp: audio_send_sync_def Let_def same_data_def)

lemma audio_send_frames_append: "audio_send_frames C (xs @ ys) s = audio_send_frames C ys (audio_send_frames C xs s)"
  by (induction C xs s rule: audio_send_frames.induct) simp_all

text \<open>Frame \<open>k\<close> of the stream, and the frames in the order of their sends.\<close>

definition alac_of :: "u16 list \<Rightarrow> bytes" where
  "alac_of pcm = (case encode_alac_verbatim pcm 352 2 of Inl e \<Rightarrow> [] | Inr b \<Rightarrow> b)"

lemma encode_alac_of: "encode_alac_verbatim pcm 352 2 = Inr (alac_of pcm)"
  using encode_alac_bits [of pcm 352 2] by (auto simp: alac_of_def)

definition nth_frame :: "u16 list list \<Rightarrow> u32 \<Rightarrow> nat \<Rightarrow> bool \<times> bytes \<times> u32 \<times> u16" where
  "nth_frame pcms t0 k = (True, alac_of (pcms ! k), t0 + of_nat k * SPF, 1 + of_nat k)"

definition send_order :: "bool \<Rightarrow> u16 list list \<Rightarrow> u32 \<Rightarrow> nat \<Rightarrow> (bool \<times> bytes \<times> u32 \<times> u16) list" where
  "send_order use_fec pcms t0 n =
    concat (map (\<lambda>k. (if use_fec \<and> 8 \<le> k then [nth_frame pcms t0 (k - 8)] else []) @ [nth_frame pcms t0 k]) [0..<n])"

definition kept_slots :: "u16 list list \<Rightarrow> u32 \<Rightarrow> nat \<Rightarrow> audio_loop \<Rightarrow> bool" where
  "kept_slots pcms t0 k a \<longleftrightarrow> length (al_slots a) = 8 \<and> al_idx a = k mod 8 \<and> al_burst_done a = (8 \<le> k) \<and>
     (\<forall>i < k. k \<le> i + 8 \<longrightarrow> al_slots a ! (i mod 8) = Some (snd (nth_frame pcms t0 i)))"

definition audio_inv :: "crypto \<Rightarrow> bool \<Rightarrow> u16 list list \<Rightarrow> u32 \<Rightarrow> AudioStream \<Rightarrow> nat \<Rightarrow> audio_loop \<Rightarrow> bool" where
  "audio_inv C use_fec pcms t0 s k a \<longleftrightarrow>
     k \<le> length pcms \<and> al_queue a = drop k pcms \<and> al_time a = t0 + of_nat k * SPF \<and> al_seq a = 1 + of_nat k \<and>
     same_data (al_stream a) (audio_send_frames C (send_order use_fec pcms t0 k) s) \<and> (use_fec \<longrightarrow> kept_slots pcms t0 k a)"

lemma send_new_step:
  assumes "same_data (al_stream a) s"
  shows "\<exists>r. send_new C True payload a = (Inr (), a\<lparr>al_stream := r\<rparr>) \<and>
    same_data r (snd (audio_send_frame C True payload (al_time a) (al_seq a) s))"
  using send_frame_step [OF assms, of C payload "al_time a" "al_seq a"] by (auto simp: send_new_def)

lemma resend_old_step:
  assumes "same_data (al_stream a) s" "al_slots a ! al_idx a = Some (old, t, q)"
  shows "\<exists>r. resend_old C True a = (Inr (), a\<lparr>al_stream := r\<rparr>) \<and> same_data r (snd (audio_send_frame C True old t q s))"
  using send_frame_step [OF assms(1), of C old t q] assms(2) by (auto simp: resend_old_def)

lemma mod_8_neq: "i < k \<Longrightarrow> k < i + 8 \<Longrightarrow> i mod 8 \<noteq> k mod 8" for i :: nat
proof
  assume a: "i < k" "k < i + 8" "i mod 8 = k mod 8"
  then have "8 dvd k - i" using mod_eq_dvd_iff_nat [of i k 8] by simp
  with a(1,2) show False by (auto dest: dvd_imp_le)
qed

lemma kept_slots_keep:
  assumes "kept_slots pcms t0 k a" "al_slots a' = (al_slots a)[k mod 8 := Some (snd (nth_frame pcms t0 k))]"
    and "al_idx a' = Suc k mod 8" "al_burst_done a' = (8 \<le> Suc k)"
  shows "kept_slots pcms t0 (Suc k) a'"
  unfolding kept_slots_def
proof (intro conjI allI impI)
  fix i assume i: "i < Suc k" "Suc k \<le> i + 8"
  show "al_slots a' ! (i mod 8) = Some (snd (nth_frame pcms t0 i))"
  proof (cases "i = k")
    case True
    then show ?thesis using assms(1,2) by (simp add: kept_slots_def)
  next
    case False
    with i have "i < k" "k < i + 8" by simp_all
    with mod_8_neq [OF this] assms(1,2) show ?thesis by (simp add: kept_slots_def)
  qed
qed (use assms in \<open>simp_all add: kept_slots_def\<close>)

definition pass_ok :: "audio_pass \<Rightarrow> bool" where
  "pass_ok p \<longleftrightarrow> \<not> ap_stop p \<and> ap_sync_ok p \<and> ap_old_ok p \<and> ap_new_ok p"

text \<open>The sends of pass \<open>k\<close>.\<close>

lemma send_fec_burst:
  assumes "kept_slots pcms t0 k a" "k < 8" "same_data (al_stream a) s" "ap_new_ok p"
    and "al_time a = t0 + of_nat k * SPF" "al_seq a = 1 + of_nat k"
  shows "\<exists>a'. send_fec C p (alac_of (pcms ! k)) a = (Inr (), a') \<and> kept_slots pcms t0 (Suc k) a' \<and>
    al_queue a' = al_queue a \<and> al_time a' = al_time a \<and> al_seq a' = al_seq a \<and>
    same_data (al_stream a') (audio_send_frames C [nth_frame pcms t0 k] s)"
proof -
  obtain r where r: "send_new C True (alac_of (pcms ! k)) a = (Inr (), a\<lparr>al_stream := r\<rparr>)"
    "same_data r (snd (audio_send_frame C True (alac_of (pcms ! k)) (al_time a) (al_seq a) s))"
    using send_new_step [OF assms(3)] by blast
  have idx: "al_idx a = k" "length (al_slots a) = 8" "\<not> al_burst_done a" using assms(1,2) by (simp_all add: kept_slots_def)
  define a1 where "a1 = keep_slot (alac_of (pcms ! k)) (a\<lparr>al_stream := r\<rparr>)"
  define a' where "a' = (if k = 7 then a1\<lparr>al_burst_done := True, al_idx := 0\<rparr> else a1\<lparr>al_idx := k + 1\<rparr>)"
  have "send_fec C p (alac_of (pcms ! k)) a = (Inr (), a')"
    using idx assms(2,4) r(1) by (auto simp: send_fec_def a'_def a1_def Let_def DEPTH_def keep_slot_def)
  moreover have "kept_slots pcms t0 (Suc k) a'"
    by (rule kept_slots_keep [OF assms(1)])
      (use idx assms(2,5,6) in \<open>auto simp: a'_def a1_def keep_slot_def nth_frame_def\<close>)
  moreover have "same_data (al_stream a') (audio_send_frames C [nth_frame pcms t0 k] s)"
  proof -
    have "al_stream a' = r" by (simp add: a'_def a1_def keep_slot_def)
    with r(2) assms(5,6) show ?thesis by (simp add: nth_frame_def)
  qed
  ultimately show ?thesis by (intro exI [of _ a']) (simp add: a'_def a1_def keep_slot_def)
qed

lemma send_fec_repeat:
  assumes "kept_slots pcms t0 k a" "8 \<le> k" "same_data (al_stream a) s" "ap_new_ok p" "ap_old_ok p"
    and "al_time a = t0 + of_nat k * SPF" "al_seq a = 1 + of_nat k"
  shows "\<exists>a'. send_fec C p (alac_of (pcms ! k)) a = (Inr (), a') \<and> kept_slots pcms t0 (Suc k) a' \<and>
    al_queue a' = al_queue a \<and> al_time a' = al_time a \<and> al_seq a' = al_seq a \<and>
    same_data (al_stream a') (audio_send_frames C [nth_frame pcms t0 (k - 8), nth_frame pcms t0 k] s)"
proof -
  have idx: "al_idx a = k mod 8" "length (al_slots a) = 8" "al_burst_done a" using assms(1,2) by (simp_all add: kept_slots_def)
  have "(k - 8) mod 8 = k mod 8" using le_mod_geq [OF assms(2)] by (rule sym)
  then have old: "al_slots a ! al_idx a = Some (snd (nth_frame pcms t0 (k - 8)))"
  proof -
    have "\<forall>i < k. k \<le> i + 8 \<longrightarrow> al_slots a ! (i mod 8) = Some (snd (nth_frame pcms t0 i))"
      using assms(1) unfolding kept_slots_def by blast
    moreover have "k - 8 < k" "k \<le> (k - 8) + 8" using assms(2) by simp_all
    ultimately have "al_slots a ! ((k - 8) mod 8) = Some (snd (nth_frame pcms t0 (k - 8)))" by blast
    then show ?thesis by (simp only: idx(1) \<open>(k - 8) mod 8 = k mod 8\<close>)
  qed
  obtain ol t q where f: "nth_frame pcms t0 (k - 8) = (True, ol, t, q)" by (simp add: nth_frame_def)
  obtain r1 where r1: "resend_old C True a = (Inr (), a\<lparr>al_stream := r1\<rparr>)" "same_data r1 (snd (audio_send_frame C True ol t q s))"
    using resend_old_step [OF assms(3), of ol t q C] old f by auto
  define s1 where "s1 = snd (audio_send_frame C True ol t q s)"
  obtain r where r: "send_new C True (alac_of (pcms ! k)) (a\<lparr>al_stream := r1\<rparr>) = (Inr (), a\<lparr>al_stream := r\<rparr>)"
    "same_data r (snd (audio_send_frame C True (alac_of (pcms ! k)) (al_time a) (al_seq a) s1))"
    using send_new_step [of "a\<lparr>al_stream := r1\<rparr>" s1 C "alac_of (pcms ! k)"] r1(2) by (auto simp: s1_def)
  define a' where "a' = (keep_slot (alac_of (pcms ! k)) (a\<lparr>al_stream := r\<rparr>))\<lparr>al_idx := (k mod 8 + 1) mod 8\<rparr>"
  have "send_fec C p (alac_of (pcms ! k)) a = (Inr (), a')"
    using idx assms(4,5) r(1) r1(1) by (simp add: send_fec_def a'_def DEPTH_def keep_slot_def)
  moreover have "kept_slots pcms t0 (Suc k) a'"
    by (rule kept_slots_keep [OF assms(1)])
      (use idx assms(2,6,7) in \<open>auto simp: a'_def keep_slot_def nth_frame_def mod_simps\<close>)
  moreover have "same_data (al_stream a') (audio_send_frames C [nth_frame pcms t0 (k - 8), nth_frame pcms t0 k] s)"
    using r(2) assms(6,7) by (simp add: a'_def keep_slot_def f s1_def) (simp add: nth_frame_def)
  ultimately show ?thesis by (intro exI [of _ a']) (simp add: a'_def keep_slot_def)
qed

lemma send_order_Suc:
  "send_order use_fec pcms t0 (Suc k) =
    send_order use_fec pcms t0 k @ (if use_fec \<and> 8 \<le> k then [nth_frame pcms t0 (k - 8), nth_frame pcms t0 k] else [nth_frame pcms t0 k])"
  by (simp add: send_order_def)

lemma send_payload_step:
  assumes "same_data (al_stream a) (audio_send_frames C (send_order use_fec pcms t0 k) s)"
    and "al_time a = t0 + of_nat k * SPF" "al_seq a = 1 + of_nat k" "use_fec \<longrightarrow> kept_slots pcms t0 k a" "pass_ok p"
  shows "\<exists>a'. send_payload C use_fec p (alac_of (pcms ! k)) a = (Inr (), a') \<and> (use_fec \<longrightarrow> kept_slots pcms t0 (Suc k) a') \<and>
    al_queue a' = al_queue a \<and> al_time a' = al_time a \<and> al_seq a' = al_seq a \<and>
    same_data (al_stream a') (audio_send_frames C (send_order use_fec pcms t0 (Suc k)) s)"
proof -
  define s1 where "s1 = audio_send_frames C (send_order use_fec pcms t0 k) s"
  have i: "same_data (al_stream a) s1" "al_time a = t0 + of_nat k * SPF" "al_seq a = 1 + of_nat k"
    "use_fec \<Longrightarrow> kept_slots pcms t0 k a" using assms(1-4) by (simp_all add: s1_def)
  have p: "ap_new_ok p" "ap_old_ok p" using assms(5) by (simp_all add: pass_ok_def)
  consider "\<not> use_fec" | "use_fec" "k < 8" | "use_fec" "8 \<le> k" by linarith
  then show ?thesis
  proof cases
    case 1
    obtain r where "send_new C True (alac_of (pcms ! k)) a = (Inr (), a\<lparr>al_stream := r\<rparr>)"
      "same_data r (snd (audio_send_frame C True (alac_of (pcms ! k)) (al_time a) (al_seq a) s1))"
      using send_new_step [OF i(1)] by blast
    with 1 p i(2,3) show ?thesis
      unfolding s1_def by (simp add: send_payload_def send_order_Suc audio_send_frames_append nth_frame_def)
  next
    case 2
    from send_fec_burst [OF i(4) [OF 2(1)] 2(2) i(1) p(1) i(2,3), of C] 2 show ?thesis
      unfolding s1_def by (simp add: send_payload_def send_order_Suc audio_send_frames_append)
  next
    case 3
    from send_fec_repeat [OF i(4) [OF 3(1)] 3(2) i(1) p i(2,3), of C] 3 show ?thesis
      unfolding s1_def by (simp add: send_payload_def send_order_Suc audio_send_frames_append del: audio_send_frames.simps)
  qed
qed

lemma sync_if_due_same:
  assumes "ap_sync_ok p" "same_data (al_stream a) s"
  shows "\<exists>st n. sync_if_due p a = (Inr (), a\<lparr>al_stream := st, al_last_sync := n\<rparr>) \<and> same_data st s"
proof (cases "1000000000 \<le> ap_checked_at p - al_last_sync a")
  case True
  obtain r st where r: "audio_send_sync True (ap_net p) False (al_stream a) = (r, st)" by force
  from sync_same_data [OF r assms(2)] True assms(1) r show ?thesis by (auto simp: sync_if_due_def)
next
  case False
  have "a\<lparr>al_stream := al_stream a, al_last_sync := al_last_sync a\<rparr> = a" by simp
  with False assms(2) show ?thesis unfolding sync_if_due_def by metis
qed

lemma audio_passes_inv:
  assumes "\<forall>p \<in> set ps. pass_ok p" "audio_inv C use_fec pcms t0 s k a"
  shows "\<exists>a'. audio_passes C use_fec ps a = (Inr (), a') \<and> audio_inv C use_fec pcms t0 s (min (k + length ps) (length pcms)) a'"
  using assms
proof (induction ps arbitrary: k a)
  case Nil
  then show ?case by (simp add: audio_inv_def)
next
  case (Cons p ps)
  have p: "pass_ok p" using Cons.prems(1) by simp
  obtain st n where st: "sync_if_due p a = (Inr (), a\<lparr>al_stream := st, al_last_sync := n\<rparr>)"
    "same_data st (audio_send_frames C (send_order use_fec pcms t0 k) s)"
    using sync_if_due_same [of p a] p Cons.prems(2) unfolding pass_ok_def audio_inv_def by blast
  define a1 where "a1 = a\<lparr>al_stream := st, al_last_sync := n, al_waiting := snd (drain_control (al_waiting a @ ap_ctrl p))\<rparr>"
  have i1: "audio_inv C use_fec pcms t0 s k a1"
    using Cons.prems(2) st(2) by (simp add: audio_inv_def a1_def kept_slots_def)
  have go: "audio_passes C use_fec (p # ps) a =
      (case al_queue a1 of [] \<Rightarrow> (Inr (), a1)
       | pcm # queue \<Rightarrow>
           (case send_payload C use_fec p (alac_of pcm) (a1\<lparr>al_queue := queue\<rparr>) of
              (Inl e, a) \<Rightarrow> (Inl e, a)
            | (Inr _, a) \<Rightarrow> audio_passes C use_fec ps
                (a\<lparr>al_seq := al_seq a + 1, al_time := al_time a + SPF, al_frames := al_frames a + 1\<rparr>)))"
    using p st(1) by (simp add: pass_ok_def a1_def Let_def encode_alac_of SPF_def split: list.split)
  show ?case
  proof (cases "k < length pcms")
    case False
    with i1 have "k = length pcms" "al_queue a1 = []" by (simp_all add: audio_inv_def)
    with i1 show ?thesis unfolding go by simp
  next
    case True
    then have q: "al_queue a1 = pcms ! k # drop (Suc k) pcms" using i1 by (simp add: audio_inv_def Cons_nth_drop_Suc)
    define a2 where "a2 = a1\<lparr>al_queue := drop (Suc k) pcms\<rparr>"
    have step: "\<exists>a3. send_payload C use_fec p (alac_of (pcms ! k)) a2 = (Inr (), a3) \<and> (use_fec \<longrightarrow> kept_slots pcms t0 (Suc k) a3) \<and>
        al_queue a3 = al_queue a2 \<and> al_time a3 = al_time a2 \<and> al_seq a3 = al_seq a2 \<and>
        same_data (al_stream a3) (audio_send_frames C (send_order use_fec pcms t0 (Suc k)) s)"
      by (rule send_payload_step [OF _ _ _ _ p]) (use i1 in \<open>simp_all add: audio_inv_def a2_def kept_slots_def\<close>)
    then obtain a3 where a3: "send_payload C use_fec p (alac_of (pcms ! k)) a2 = (Inr (), a3)"
      "use_fec \<longrightarrow> kept_slots pcms t0 (Suc k) a3" "al_queue a3 = al_queue a2" "al_time a3 = al_time a2" "al_seq a3 = al_seq a2"
      "same_data (al_stream a3) (audio_send_frames C (send_order use_fec pcms t0 (Suc k)) s)" by blast
    define a4 where "a4 = a3\<lparr>al_seq := al_seq a3 + 1, al_time := al_time a3 + SPF, al_frames := al_frames a3 + 1\<rparr>"
    have "audio_inv C use_fec pcms t0 s (Suc k) a4"
      using True a3 i1 by (auto simp: audio_inv_def a4_def a2_def kept_slots_def algebra_simps)
    from Cons.IH [OF _ this] Cons.prems(1) obtain a' where "audio_passes C use_fec ps a4 = (Inr (), a')"
      "audio_inv C use_fec pcms t0 s (min (Suc k + length ps) (length pcms)) a'" by auto
    then show ?thesis unfolding go q using a3(1) by (simp add: a2_def a4_def)
  qed
qed

lemma run_audio_sends:
  fixes nanos stale :: nat and captured :: "u16 list list"
  assumes "\<forall>p \<in> set ps. pass_ok p"
  defines "t0 \<equiv> of_nat nanos OR 0x80000000" and "pcms \<equiv> drop stale captured"
  shows "\<exists>s'. run_audio C False stale (Some nanos) net True started ps captured s = (Inr (), s') \<and>
    same_data s' (audio_send_frames C (send_order (\<not> audio_is_encrypted s) pcms t0 (min (length ps) (length pcms))) (s\<lparr>rtp_time := t0\<rparr>))"
proof -
  obtain r s1 where y: "audio_send_sync True net True (s\<lparr>rtp_time := t0\<rparr>) = (r, s1)" by force
  from sync_same_data [OF y, of "s\<lparr>rtp_time := t0\<rparr>"] have s1: "r = Inr ()" "same_data s1 (s\<lparr>rtp_time := t0\<rparr>)"
    by (simp_all add: same_data_def)
  define a where "a = \<lparr>al_stream = s1, al_queue = pcms, al_waiting = [], al_time = t0, al_seq = 1,
      al_slots = replicate DEPTH None, al_idx = 0, al_burst_done = False, al_last_sync = started, al_frames = 0\<rparr>"
  have enc: "audio_is_encrypted s1 = audio_is_encrypted s" using s1(2) by (simp add: same_data_def audio_is_encrypted_def)
  have "audio_inv C (\<not> audio_is_encrypted s) pcms t0 (s\<lparr>rtp_time := t0\<rparr>) 0 a"
    using s1(2) by (simp add: audio_inv_def a_def send_order_def kept_slots_def DEPTH_def)
  from audio_passes_inv [OF assms(1) this] obtain a' where
    a': "audio_passes C (\<not> audio_is_encrypted s) ps a = (Inr (), a')"
    "same_data (al_stream a') (audio_send_frames C (send_order (\<not> audio_is_encrypted s) pcms t0 (min (length ps) (length pcms)))
       (s\<lparr>rtp_time := t0\<rparr>))" by (auto simp: audio_inv_def)
  have "run_audio C False stale (Some nanos) net True started ps captured s = (Inr (), al_stream a')"
    using y s1(1) a'(1) enc by (simp add: run_audio_def Let_def a_def t0_def [symmetric] pcms_def [symmetric])
  with a'(2) show ?thesis by simp
qed

text \<open>C6. Sound over an encrypted session: while nothing fails and the stop flag is not set, the thread sends, after dropping
  the stale frames, the captured frames one per pass, however the syncs fall; the receiver opens every packet and gets
  consecutive sequence numbers from 1, time stamps 352 apart from an epoch in the upper half of the range, and payloads
  whose bits are the ALAC frames of the samples.\<close>

theorem sound_delivered:
  fixes nanos stale :: nat and captured :: "u16 list list"
  assumes "aead_ok C" "au_chacha_key s = Some key" "au_data_socket s = []" "\<forall>p \<in> set ps. pass_ok p"
  defines "t0 \<equiv> of_nat nanos OR 0x80000000" and "n \<equiv> min (length ps) (length captured - stale)"
  shows "\<exists>s' payload. run_audio C False stale (Some nanos) net True started ps captured s = (Inr (), s') \<and>
    map (open_audio C key) (au_data_socket s') = map (\<lambda>k. Some (1 + of_nat k, t0 + 352 * of_nat k, payload k)) [0..<n] \<and>
    (\<forall>k < n. let bits = alac_bits (captured ! (stale + k)) 352 2 in
       concat (map (be_bits 8) (payload k)) = bits @ replicate (alac_padding (length bits)) False) \<and> 2 ^ 31 \<le> unat t0"
proof -
  define pcms where "pcms = drop stale captured"
  define s0 where "s0 = s\<lparr>rtp_time := t0\<rparr>"
  have enc: "audio_is_encrypted s" using assms(2) by (simp add: audio_is_encrypted_def)
  obtain s' where s': "run_audio C False stale (Some nanos) net True started ps captured s = (Inr (), s')"
    "same_data s' (audio_send_frames C (send_order False pcms t0 n) s0)"
    using run_audio_sends [OF assms(4), of C stale nanos net started captured s] enc
    by (auto simp: t0_def n_def pcms_def s0_def)
  have order: "send_order False pcms t0 n = map (nth_frame pcms t0) [0..<n]"
    by (simp add: send_order_def)
  have "map (open_audio C key) (au_data_socket s') =
      map (\<lambda>(ok, p, time, sq). Some (sq, time, p)) (filter fst (map (nth_frame pcms t0) [0..<n]))"
    using s'(2) audio_send_frames_packets [of s0 key C "map (nth_frame pcms t0) [0..<n]"] assms(2,3)
      audio_packets_open [OF assms(1), of key "chacha_counter s0" "map (nth_frame pcms t0) [0..<n]"]
    by (simp add: same_data_def order s0_def)
  also have "filter fst (map (nth_frame pcms t0) [0..<n]) = map (nth_frame pcms t0) [0..<n]"
    by (simp add: nth_frame_def filter_id_conv)
  also have "map (\<lambda>(ok, p, time, sq). Some (sq, time, p)) (map (nth_frame pcms t0) [0..<n]) =
      map (\<lambda>k. Some (1 + of_nat k, t0 + 352 * of_nat k, alac_of (pcms ! k))) [0..<n]"
    by (simp add: nth_frame_def SPF_def mult.commute)
  finally have opened: "map (open_audio C key) (au_data_socket s') =
      map (\<lambda>k. Some (1 + of_nat k, t0 + 352 * of_nat k, alac_of (pcms ! k))) [0..<n]" .
  have "\<forall>k < n. let bits = alac_bits (captured ! (stale + k)) 352 2 in
       concat (map (be_bits 8) (alac_of (pcms ! k))) = bits @ replicate (alac_padding (length bits)) False"
  proof (intro allI impI)
    fix k assume "k < n"
    then have "pcms ! k = captured ! (stale + k)" unfolding pcms_def n_def by (subst nth_drop) auto
    then show "let bits = alac_bits (captured ! (stale + k)) 352 2 in
       concat (map (be_bits 8) (alac_of (pcms ! k))) = bits @ replicate (alac_padding (length bits)) False"
      using encode_alac_bits [of "captured ! (stale + k)" 352 2] by (auto simp: encode_alac_of Let_def)
  qed
  moreover have "2 ^ 31 \<le> unat t0"
  proof -
    have "(0x80000000 :: u32) \<le> t0" unfolding t0_def by (metis or.commute le_word_or1)
    then show ?thesis by (simp add: word_le_nat_alt)
  qed
  ultimately show ?thesis
    using s'(1) opened by (intro exI [of _ s'] exI [of _ "\<lambda>k. alac_of (pcms ! k)"] conjI)
qed

text \<open>Sound without encryption: the packets are the headers and payloads of the frames in order, and from the ninth
  frame on each is preceded by a repetition of the one sent eight frames before, so a receiver that lost a packet gets
  it once more.\<close>

theorem sound_repeated:
  fixes nanos stale :: nat and captured :: "u16 list list"
  assumes "au_chacha_key s = None" "au_data_socket s = []" "\<forall>p \<in> set ps. pass_ok p"
  defines "t0 \<equiv> of_nat nanos OR 0x80000000" and "n \<equiv> min (length ps) (length captured - stale)"
  shows "\<exists>s' payload. run_audio C False stale (Some nanos) net True started ps captured s = (Inr (), s') \<and>
    au_data_socket s' = concat (map (\<lambda>k.
      let packet = (\<lambda>k. rtp_header (1 + of_nat k) (t0 + 352 * of_nat k) @ payload k) in
      (if 8 \<le> k then [packet (k - 8)] else []) @ [packet k]) [0..<n]) \<and>
    (\<forall>k < n. encode_alac_verbatim (captured ! (stale + k)) 352 2 = Inr (payload k))"
proof -
  define pcms where "pcms = drop stale captured"
  define s0 where "s0 = s\<lparr>rtp_time := t0\<rparr>"
  have enc: "\<not> audio_is_encrypted s" using assms(1) by (simp add: audio_is_encrypted_def)
  obtain s' where s': "run_audio C False stale (Some nanos) net True started ps captured s = (Inr (), s')"
    "same_data s' (audio_send_frames C (send_order True pcms t0 n) s0)"
    using run_audio_sends [OF assms(3), of C stale nanos net started captured s] enc
    by (auto simp: t0_def n_def pcms_def s0_def)
  have sent: "au_data_socket (audio_send_frames C fs s1) = au_data_socket s1 @ map (\<lambda>(ok, p, t, q). rtp_header q t @ p) fs"
    if "\<forall>f \<in> set fs. fst f" "au_chacha_key s1 = None" for fs s1
    using that
  proof (induction fs arbitrary: s1)
    case (Cons f fs)
    obtain ok p t q where f: "f = (ok, p, t, q)" by (cases f)
    with Cons show ?case by (simp add: audio_send_frame_def audio_body_def advance_clock_def Let_def)
  qed simp
  have "\<forall>f \<in> set (send_order True pcms t0 n). fst f" by (auto simp: send_order_def nth_frame_def)
  from sent [OF this, of s0] s'(2) assms(1,2)
  have "au_data_socket s' = map (\<lambda>(ok, p, t, q). rtp_header q t @ p) (send_order True pcms t0 n)"
    by (simp add: same_data_def s0_def)
  also have "\<dots> = concat (map (\<lambda>k.
      let packet = (\<lambda>k. rtp_header (1 + of_nat k) (t0 + 352 * of_nat k) @ alac_of (pcms ! k)) in
      (if 8 \<le> k then [packet (k - 8)] else []) @ [packet k]) [0..<n])"
    unfolding send_order_def map_concat map_map
    by (intro arg_cong [where f = concat] map_cong) (auto simp: nth_frame_def SPF_def Let_def mult.commute)
  finally have "au_data_socket s' = concat (map (\<lambda>k.
      let packet = (\<lambda>k. rtp_header (1 + of_nat k) (t0 + 352 * of_nat k) @ alac_of (pcms ! k)) in
      (if 8 \<le> k then [packet (k - 8)] else []) @ [packet k]) [0..<n])" .
  moreover have "captured ! (stale + k) = pcms ! k" if "k < n" for k
    using that unfolding pcms_def n_def by (subst nth_drop) auto
  ultimately show ?thesis
    using s'(1) by (intro exI [of _ s'] exI [of _ "\<lambda>k. alac_of (pcms ! k)"]) (simp add: encode_alac_of)
qed

definition demo_pass :: audio_pass where
  "demo_pass = \<lparr>ap_stop = False, ap_checked_at = 1500000000, ap_synced_at = 1500000001, ap_net = 7, ap_sync_ok = True,
     ap_ctrl = [[1], []], ap_old_ok = True, ap_new_ok = True\<rparr>"

theorem sound_delivered_witness:
  "\<exists>s' p. run_audio toy_crypto False 1 (Some 5) 7 True 0 [demo_pass, demo_pass] [[9], [1, 2], [3, 4]] demo_audio = (Inr (), s') \<and>
    map (open_audio toy_crypto (replicate 32 1)) (au_data_socket s') = [Some (1, 0x80000005, p 0), Some (2, 0x80000165, p (1 :: nat))]"
proof -
  have "aead_ok toy_crypto" by simp
  moreover have "au_chacha_key demo_audio = Some (replicate 32 1)" "au_data_socket demo_audio = []" by (simp_all add: demo_audio_def)
  moreover have "\<forall>p \<in> set [demo_pass, demo_pass]. pass_ok p" by (simp add: demo_pass_def pass_ok_def)
  ultimately show ?thesis
    using sound_delivered [where C = toy_crypto and s = demo_audio and key = "replicate 32 1" and ps = "[demo_pass, demo_pass]"
        and captured = "[[9], [1, 2], [3, 4]]" and stale = 1 and nanos = 5 and net = 7 and started = 0]
    by (auto simp: upt_conv_Cons)
qed

theorem sound_repeated_witness:
  "\<exists>s'. run_audio toy_crypto False 0 (Some 5) 7 True 0 (replicate 9 demo_pass) (replicate 9 [1]) (demo_audio\<lparr>au_chacha_key := None\<rparr>) =
      (Inr (), s') \<and> length (au_data_socket s') = 10 \<and> au_data_socket s' ! 0 = au_data_socket s' ! 8"
proof -
  have "\<forall>p \<in> set (replicate 9 demo_pass). pass_ok p" by (simp add: demo_pass_def pass_ok_def)
  then show ?thesis
    using sound_repeated [where C = toy_crypto and s = "demo_audio\<lparr>au_chacha_key := None\<rparr>" and ps = "replicate 9 demo_pass"
        and captured = "replicate 9 [1]" and stale = 0 and nanos = 5 and net = 7 and started = 0]
    by (auto simp: demo_audio_def upt_conv_Cons Let_def)
qed

end
