(* ===== verification/Credentials.thy ===== *)
theory Credentials
  imports Prelude "HOL-Library.AList" "HOL-Library.Countable"
begin

text \<open>
  The store of pairing credentials (credentials.rs): a map from the identifier of a receiver to an entry, kept in a
  JSON file. The JSON text, base64 and the file system are the crates' and the system's: arguments, with what is used
  of them in \<open>codec_ok\<close> and \<open>files_ok\<close>. What the serialisation attributes of the source say (field names,
  defaults, the token left out when empty, keys in base64) is modelled.
\<close>

subsection \<open>Entries\<close>

definition ED25519_PUBLIC_KEY_SIZE :: nat where "ED25519_PUBLIC_KEY_SIZE = 32"
definition ED25519_SEED_SIZE :: nat where "ED25519_SEED_SIZE = 32"

record SavedCredentials =
  sc_pairing_id :: string
  sc_public :: bytes
  sc_seed :: bytes
  restore_token :: string

definition SavedCredentials_default :: SavedCredentials where
  "SavedCredentials_default = \<lparr>sc_pairing_id = [], sc_public = [], sc_seed = [], restore_token = []\<rparr>"

definition has_pairing_credentials :: "SavedCredentials \<Rightarrow> bool" where
  "has_pairing_credentials c \<longleftrightarrow> sc_pairing_id c \<noteq> [] \<and> length (sc_public c) = ED25519_PUBLIC_KEY_SIZE \<and>
     length (sc_seed c) = ED25519_SEED_SIZE"

text \<open>An object of string fields, and the members of the file, as lists; the order of a hash map is that of the list.\<close>

type_synonym json_object = "(string \<times> string) list"

record json_codec =
  base64_encode :: "bytes \<Rightarrow> string"
  base64_decode :: "string \<Rightarrow> string + bytes"
  json_print :: "(string \<times> json_object) list \<Rightarrow> bytes"
  json_parse :: "bytes \<Rightarrow> string + (string \<times> json_object) list"

definition ser_entry :: "json_codec \<Rightarrow> SavedCredentials \<Rightarrow> json_object" where
  "ser_entry J c =
    [(''pairing_id'', sc_pairing_id c), (''ed25519_public'', base64_encode J (sc_public c)),
     (''ed25519_seed'', base64_encode J (sc_seed c))] @
    (if restore_token c = [] then [] else [(''restore_token'', restore_token c)])"

definition de_string :: "json_object \<Rightarrow> string \<Rightarrow> string" where
  "de_string m k = (case map_of m k of None \<Rightarrow> [] | Some s \<Rightarrow> s)"

definition de_base64 :: "json_codec \<Rightarrow> json_object \<Rightarrow> string \<Rightarrow> string + bytes" where
  "de_base64 J m k =
    (case map_of m k of
       None \<Rightarrow> Inr []
     | Some s \<Rightarrow> (case base64_decode J s of Inl e \<Rightarrow> Inl (''invalid base64: '' @ e) | Inr b \<Rightarrow> Inr b))"

definition de_entry :: "json_codec \<Rightarrow> json_object \<Rightarrow> string + SavedCredentials" where
  "de_entry J m =
    (case de_base64 J m ''ed25519_public'' of
       Inl e \<Rightarrow> Inl e
     | Inr pub \<Rightarrow>
         (case de_base64 J m ''ed25519_seed'' of
            Inl e \<Rightarrow> Inl e
          | Inr seed \<Rightarrow> Inr \<lparr>sc_pairing_id = de_string m ''pairing_id'', sc_public = pub, sc_seed = seed,
                             restore_token = de_string m ''restore_token''\<rparr>))"

text \<open>The whole map; an entry that does not decode makes the file unreadable.\<close>

type_synonym device_map = "(string \<times> SavedCredentials) list"

fun de_devices :: "json_codec \<Rightarrow> (string \<times> json_object) list \<Rightarrow> device_map \<Rightarrow> string + device_map" where
  "de_devices J [] d = Inr d"
| "de_devices J ((k, m) # ms) d =
    (case de_entry J m of Inl e \<Rightarrow> Inl e | Inr c \<Rightarrow> de_devices J ms (AList.update k c d))"

subsection \<open>The store\<close>

record 'f file_system =
  path_exists :: "string \<Rightarrow> 'f \<Rightarrow> bool"
  read_file :: "string \<Rightarrow> 'f \<Rightarrow> string + bytes"
  path_parent :: "string \<Rightarrow> string option"
  create_dir_all :: "string \<Rightarrow> 'f \<Rightarrow> (string + unit) \<times> 'f"
  write_file :: "string \<Rightarrow> bytes \<Rightarrow> 'f \<Rightarrow> (string + unit) \<times> 'f"

record CredentialStore =
  cs_path :: string
  devices :: device_map

definition CredentialStore_new :: "json_codec \<Rightarrow> 'f file_system \<Rightarrow> string \<Rightarrow> 'f \<Rightarrow> string + CredentialStore" where
  "CredentialStore_new J F path f =
    (if path_exists F path f then
       (case read_file F path f of
          Inl e \<Rightarrow> Inl (''read credential store: '' @ e)
        | Inr data \<Rightarrow>
            (case json_parse J data of
               Inl e \<Rightarrow> Inl (''unmarshal credential store: '' @ e)
             | Inr m \<Rightarrow>
                 (case de_devices J m [] of
                    Inl e \<Rightarrow> Inl (''unmarshal credential store: '' @ e)
                  | Inr d \<Rightarrow> Inr \<lparr>cs_path = path, devices = d\<rparr>)))
     else Inr \<lparr>cs_path = path, devices = []\<rparr>)"

definition default_path :: "(string \<Rightarrow> string \<Rightarrow> string) \<Rightarrow> string option \<Rightarrow> string option \<Rightarrow> string" where
  "default_path join userprofile home =
    (let dir = (case userprofile of Some p \<Rightarrow> p | None \<Rightarrow> (case home of Some p \<Rightarrow> p | None \<Rightarrow> ''.''))
     in join (join (join dir ''.config'') ''lumen'') ''credentials.json'')"

definition lookup :: "string \<Rightarrow> CredentialStore \<Rightarrow> SavedCredentials option" where
  "lookup i st = map_of (devices st) i"

definition store_len :: "CredentialStore \<Rightarrow> nat" where
  "store_len st = length (devices st)"

definition store_is_empty :: "CredentialStore \<Rightarrow> bool" where
  "store_is_empty st \<longleftrightarrow> devices st = []"

definition persist :: "json_codec \<Rightarrow> 'f file_system \<Rightarrow> CredentialStore \<Rightarrow> 'f \<Rightarrow> (string + unit) \<times> 'f" where
  "persist J F st f =
    (case (case path_parent F (cs_path st) of None \<Rightarrow> (Inr (), f) | Some d \<Rightarrow> create_dir_all F d f) of
       (Inl e, f) \<Rightarrow> (Inl (''create credential dir: '' @ e), f)
     | (Inr _, f) \<Rightarrow>
         (case write_file F (cs_path st) (json_print J (map (\<lambda>(k, c). (k, ser_entry J c)) (devices st))) f of
            (Inl e, f) \<Rightarrow> (Inl (''write credential store: '' @ e), f)
          | (Inr _, f) \<Rightarrow> (Inr (), f)))"

definition entry_or_default :: "string \<Rightarrow> CredentialStore \<Rightarrow> SavedCredentials" where
  "entry_or_default i st = (case map_of (devices st) i of None \<Rightarrow> SavedCredentials_default | Some c \<Rightarrow> c)"

definition save ::
  "json_codec \<Rightarrow> 'f file_system \<Rightarrow> string \<Rightarrow> string \<Rightarrow> bytes \<Rightarrow> bytes \<Rightarrow> CredentialStore \<Rightarrow> 'f \<Rightarrow>
     (string + unit) \<times> CredentialStore \<times> 'f" where
  "save J F i pid pub seed st f =
    (let c = (entry_or_default i st)\<lparr>sc_pairing_id := pid, sc_public := pub, sc_seed := seed\<rparr>;
         st = st\<lparr>devices := AList.update i c (devices st)\<rparr>;
         (r, f) = persist J F st f
     in (r, st, f))"

definition save_restore_token ::
  "json_codec \<Rightarrow> 'f file_system \<Rightarrow> string \<Rightarrow> string \<Rightarrow> CredentialStore \<Rightarrow> 'f \<Rightarrow> (string + unit) \<times> CredentialStore \<times> 'f" where
  "save_restore_token J F i token st f =
    (if token = [] then (Inr (), st, f)
     else
       let c = (entry_or_default i st)\<lparr>restore_token := token\<rparr>;
           st = st\<lparr>devices := AList.update i c (devices st)\<rparr>;
           (r, f) = persist J F st f
       in (r, st, f))"

subsection \<open>What is written is read back\<close>

text \<open>Documented behaviour of the JSON and base64 crates and of a file system that accepts the writes.\<close>

definition codec_ok :: "json_codec \<Rightarrow> bool" where
  "codec_ok J \<longleftrightarrow> (\<forall>b. base64_decode J (base64_encode J b) = Inr b) \<and>
     (\<forall>l. json_parse J (json_print J l) = Inr l)"

definition files_ok :: "'f file_system \<Rightarrow> bool" where
  "files_ok F \<longleftrightarrow> (\<forall>d f. fst (create_dir_all F d f) = Inr ()) \<and>
     (\<forall>p data f. \<exists>f'. write_file F p data f = (Inr (), f') \<and> path_exists F p f' \<and> read_file F p f' = Inr data)"

text \<open>A map has one entry per key.\<close>

definition store_ok :: "CredentialStore \<Rightarrow> bool" where
  "store_ok st \<longleftrightarrow> distinct (map fst (devices st))"

lemma de_ser_entry [simp]:
  assumes "codec_ok J"
  shows "de_entry J (ser_entry J c) = Inr c"
  using assms by (simp add: codec_ok_def de_entry_def ser_entry_def de_base64_def de_string_def)

lemma update_new: "k \<notin> fst ` set d \<Longrightarrow> AList.update k c d = d @ [(k, c)]"
  by (induction d) auto

lemma de_devices_ser:
  assumes "codec_ok J" "distinct (map fst (d @ l))"
  shows "de_devices J (map (\<lambda>(k, c). (k, ser_entry J c)) l) d = Inr (d @ l)"
  using assms(2)
proof (induction l arbitrary: d)
  case (Cons kc l)
  obtain k c where kc: "kc = (k, c)" by force
  have "AList.update k c d = d @ [(k, c)]" using Cons.prems by (intro update_new) (auto simp: kc)
  moreover have "de_devices J (map (\<lambda>(k, c). (k, ser_entry J c)) l) (d @ [(k, c)]) = Inr ((d @ [(k, c)]) @ l)"
    by (rule Cons.IH) (use Cons.prems in \<open>simp add: kc\<close>)
  ultimately show ?case by (simp add: kc assms(1))
qed simp

lemma persist_reload:
  assumes "codec_ok J" "files_ok F" "store_ok st"
  shows "\<exists>f'. persist J F st f = (Inr (), f') \<and> CredentialStore_new J F (cs_path st) f' = Inr st"
proof -
  define l where "l = map (\<lambda>(k, c). (k, ser_entry J c)) (devices st)"
  have de: "de_devices J l [] = Inr (devices st)"
    using de_devices_ser [OF assms(1), of "[]" "devices st"] assms(3) by (simp add: l_def store_ok_def)
  have parse: "json_parse J (json_print J l) = Inr l" using assms(1) by (simp add: codec_ok_def)
  obtain f1 where f1: "(case path_parent F (cs_path st) of None \<Rightarrow> (Inr (), f) | Some d \<Rightarrow> create_dir_all F d f) = (Inr (), f1)"
    using assms(2) unfolding files_ok_def by (cases "path_parent F (cs_path st)") (auto, metis prod.collapse)
  obtain f2 where "write_file F (cs_path st) (json_print J l) f1 = (Inr (), f2)" "path_exists F (cs_path st) f2"
    "read_file F (cs_path st) f2 = Inr (json_print J l)"
    using assms(2) unfolding files_ok_def by blast
  with f1 parse de show ?thesis by (simp add: persist_def CredentialStore_new_def l_def)
qed

lemma save_reload:
  assumes "codec_ok J" "files_ok F" "store_ok st"
  shows "\<exists>st' f'. save J F i pid pub seed st f = (Inr (), st', f') \<and> CredentialStore_new J F (cs_path st) f' = Inr st' \<and>
    lookup i st' = Some \<lparr>sc_pairing_id = pid, sc_public = pub, sc_seed = seed,
      restore_token = (case lookup i st of None \<Rightarrow> [] | Some c \<Rightarrow> restore_token c)\<rparr> \<and>
    (\<forall>j. j \<noteq> i \<longrightarrow> lookup j st' = lookup j st) \<and> store_ok st'"
proof -
  define st' where "st' = st\<lparr>devices := AList.update i ((entry_or_default i st)\<lparr>sc_pairing_id := pid, sc_public := pub, sc_seed := seed\<rparr>) (devices st)\<rparr>"
  have ok: "store_ok st'" using assms(3) by (simp add: st'_def store_ok_def distinct_update)
  from persist_reload [OF assms(1,2) this, of f] obtain f' where
    "persist J F st' f = (Inr (), f')" "CredentialStore_new J F (cs_path st') f' = Inr st'" by blast
  with ok show ?thesis
    by (intro exI [of _ st'] exI [of _ f'])
      (auto simp: save_def st'_def lookup_def entry_or_default_def SavedCredentials_default_def Let_def update_conv' split: option.split)
qed

text \<open>Loading gives a map with one entry per key, whatever the file holds.\<close>

lemma de_devices_distinct: "de_devices J l d = Inr d' \<Longrightarrow> distinct (map fst d) \<Longrightarrow> distinct (map fst d')"
  by (induction J l d rule: de_devices.induct) (auto simp: distinct_update split: sum.splits)

lemma loaded_store_ok: "CredentialStore_new J F path f = Inr st \<Longrightarrow> store_ok st"
  using de_devices_distinct by (fastforce simp: CredentialStore_new_def store_ok_def split: if_splits sum.splits)

lemma loaded_store_path: "CredentialStore_new J F path f = Inr st \<Longrightarrow> cs_path st = path"
  by (auto simp: CredentialStore_new_def split: if_splits sum.splits)

text \<open>What was saved survives a restart: after saving, a store loaded from the same path is the store in memory; the
  entry of the device holds what was saved, with the restore token it had, and no other entry changed.\<close>

theorem saved_credentials_reload:
  assumes "codec_ok J" "files_ok F" "CredentialStore_new J F path f0 = Inr st"
  shows "\<exists>st' f'. save J F i pid pub seed st f = (Inr (), st', f') \<and> CredentialStore_new J F (cs_path st) f' = Inr st' \<and>
    lookup i st' = Some \<lparr>sc_pairing_id = pid, sc_public = pub, sc_seed = seed,
      restore_token = (case lookup i st of None \<Rightarrow> [] | Some c \<Rightarrow> restore_token c)\<rparr> \<and>
    (\<forall>j. j \<noteq> i \<longrightarrow> lookup j st' = lookup j st)"
  using save_reload [OF assms(1,2) loaded_store_ok [OF assms(3)], of i pid pub seed f] by blast

text \<open>A file system of one file, and a codec that numbers the contents.\<close>

definition one_file :: "bytes option file_system" where
  "one_file = \<lparr>path_exists = (\<lambda>p f. f \<noteq> None), read_file = (\<lambda>p f. case f of None \<Rightarrow> Inl ''none'' | Some d \<Rightarrow> Inr d),
     path_parent = (\<lambda>p. None), create_dir_all = (\<lambda>d f. (Inr (), f)), write_file = (\<lambda>p d f. (Inr (), Some d))\<rparr>"

definition counting_codec :: json_codec where
  "counting_codec = \<lparr>base64_encode = map (\<lambda>b. char_of (unat b)), base64_decode = (\<lambda>s. Inr (map (\<lambda>c. of_nat (of_char c)) s)),
     json_print = (\<lambda>l. replicate (to_nat l) 0), json_parse = (\<lambda>b. Inr (from_nat (length b)))\<rparr>"

lemma counting_codec_ok [simp]: "codec_ok counting_codec"
proof -
  have "(word_of_nat (of_char (char_of (unat b))) :: byte) = b" for b :: byte
    using unat_byte_less [of b] by (simp add: of_char_mod_256)
  then show ?thesis by (simp add: codec_ok_def counting_codec_def comp_def)
qed

lemma one_file_ok [simp]: "files_ok one_file"
  by (simp add: files_ok_def one_file_def)

theorem saved_credentials_reload_witness:
  "\<exists>st' f'. save counting_codec one_file ''tv'' ''me'' [1] [2] \<lparr>cs_path = ''p'', devices = []\<rparr> None = (Inr (), st', f') \<and>
    CredentialStore_new counting_codec one_file ''p'' f' = Inr st' \<and>
    lookup ''tv'' st' = Some \<lparr>sc_pairing_id = ''me'', sc_public = [1], sc_seed = [2], restore_token = []\<rparr>"
proof -
  have "CredentialStore_new counting_codec one_file ''p'' None = Inr \<lparr>cs_path = ''p'', devices = []\<rparr>"
    by (simp add: CredentialStore_new_def one_file_def)
  from saved_credentials_reload [OF counting_codec_ok one_file_ok this, of "''tv''" "''me''" "[1]" "[2]" None]
  show ?thesis by (auto simp: lookup_def)
qed

end
