(* ===== verification/Session_Start.thy ===== *)
theory Session_Start
  imports Pairing Credentials Client Fairplay
begin

text \<open>
  The start of a session in the mirroring program (lumen-capture/examples/mirror_desktop.rs): the command line, pairing
  with saved credentials or a PIN, and what the control client is given of the result. The transport of the pairing
  flows, the file system and the sources of the PIN are arguments. Printing is left out; a program exit on a bad
  command line is an error value.
\<close>

subsection \<open>The command line\<close>

text \<open>The number parsers of the standard library, with the text of their errors.\<close>

record 'f parsers =
  parse_port :: "string \<Rightarrow> u16 option"
  parse_u16 :: "string \<Rightarrow> string + u16"
  parse_u32 :: "string \<Rightarrow> string + u32"
  parse_u64 :: "string \<Rightarrow> string + u64"
  parse_f64 :: "string \<Rightarrow> string + 'f"

record 'f options =
  op_pin :: "string option"
  op_pin_file :: "string option"
  op_force_pair :: bool
  op_bitrate_kbps :: u32
  op_latency_ms :: u64
  op_creds_path :: string
  op_no_encrypt :: bool
  op_no_audio :: bool
  op_volume_db :: "'f option"
  op_seconds :: u64
  op_fps :: u32
  op_threads :: u16
  op_encoder :: string

definition options_default :: "string \<Rightarrow> 'f options" where
  "options_default creds =
    \<lparr>op_pin = None, op_pin_file = None, op_force_pair = False, op_bitrate_kbps = 8000, op_latency_ms = 100, op_creds_path = creds,
     op_no_encrypt = False, op_no_audio = False, op_volume_db = None, op_seconds = 0, op_fps = 30, op_threads = 8,
     op_encoder = ''openh264''\<rparr>"

text \<open>The value behind an option: indexing past the arguments panics.\<close>

definition arg_value :: "(string \<Rightarrow> string + 'v) \<Rightarrow> string list \<Rightarrow> 'v res" where
  "arg_value parse rest =
    (case rest of [] \<Rightarrow> Inl Panic | s # _ \<Rightarrow> (case parse s of Inl e \<Rightarrow> Inl (Err (Protocol e)) | Inr v \<Rightarrow> Inr v))"

function parse_args :: "'f parsers \<Rightarrow> string list \<Rightarrow> 'f options \<Rightarrow> 'f options res" where
  "parse_args P [] op = Inr op"
| "parse_args P (a # rest) op =
    (if a = ''--pair'' then parse_args P rest (op\<lparr>op_force_pair := True\<rparr>)
     else if a = ''--bitrate'' then
       rbind (arg_value (parse_u32 P) rest) (\<lambda>v. parse_args P (tl rest) (op\<lparr>op_bitrate_kbps := v\<rparr>))
     else if a = ''--latency-ms'' then
       rbind (arg_value (parse_u64 P) rest) (\<lambda>v. parse_args P (tl rest) (op\<lparr>op_latency_ms := v\<rparr>))
     else if a = ''--creds'' then
       rbind (arg_value Inr rest) (\<lambda>v. parse_args P (tl rest) (op\<lparr>op_creds_path := v\<rparr>))
     else if a = ''--no-encrypt'' then parse_args P rest (op\<lparr>op_no_encrypt := True\<rparr>)
     else if a = ''--no-audio'' then parse_args P rest (op\<lparr>op_no_audio := True\<rparr>)
     else if a = ''--volume-db'' then
       rbind (arg_value (parse_f64 P) rest) (\<lambda>v. parse_args P (tl rest) (op\<lparr>op_volume_db := Some v\<rparr>))
     else if a = ''--seconds'' then
       rbind (arg_value (parse_u64 P) rest) (\<lambda>v. parse_args P (tl rest) (op\<lparr>op_seconds := v\<rparr>))
     else if a = ''--fps'' then
       rbind (arg_value (parse_u32 P) rest) (\<lambda>v. parse_args P (tl rest) (op\<lparr>op_fps := v\<rparr>))
     else if a = ''--threads'' then
       rbind (arg_value (parse_u16 P) rest) (\<lambda>v. parse_args P (tl rest) (op\<lparr>op_threads := v\<rparr>))
     else if a = ''--encoder'' then
       rbind (arg_value Inr rest) (\<lambda>v. parse_args P (tl rest) (op\<lparr>op_encoder := v\<rparr>))
     else if a = ''--pin-file'' then
       rbind (arg_value Inr rest) (\<lambda>v. parse_args P (tl rest) (op\<lparr>op_pin_file := Some v\<rparr>))
     else if take 2 a = ''--'' then Inl (Err (Protocol (''unknown option: '' @ a)))
     else if op_pin op = None then parse_args P rest (op\<lparr>op_pin := Some a\<rparr>)
     else Inl (Err (Protocol (''unexpected argument: '' @ a))))"
  by pat_completeness auto
termination
  by (relation "measure (\<lambda>(P, args, op). length args)") auto

text \<open>\<open>args\<close> with the program's name in front; the port falls back to 7000.\<close>

definition command_line :: "'f parsers \<Rightarrow> string \<Rightarrow> string list \<Rightarrow> (string \<times> u16 \<times> 'f options) res" where
  "command_line P creds args =
    (if length args < 2 then Inl (Err (Protocol ''usage''))
     else
       let port = (case (if 2 < length args then parse_port P (args ! 2) else None) of None \<Rightarrow> 7000 | Some p \<Rightarrow> p)
       in rbind (parse_args P (drop 3 args) (options_default creds)) (\<lambda>op. Inr (args ! 1, port, op)))"

subsection \<open>The PIN\<close>

text \<open>
  The argument, else the first text of the file that is not blank within 600 reads (\<open>None\<close>: a read that failed),
  else a line of the standard input.
\<close>

record pin_source =
  ps_arg :: "string option"
  ps_file :: "string option list option"
  ps_stdin :: "string res"

fun poll_pin :: "string option list \<Rightarrow> string option" where
  "poll_pin [] = None"
| "poll_pin (None # rs) = poll_pin rs"
| "poll_pin (Some s # rs) = (if trim s \<noteq> [] then Some (trim s) else poll_pin rs)"

definition choose_pin :: "pin_source \<Rightarrow> string res" where
  "choose_pin src =
    (case ps_arg src of
       Some p \<Rightarrow> Inr p
     | None \<Rightarrow>
         (case (case ps_file src of None \<Rightarrow> None | Some reads \<Rightarrow> poll_pin (take 600 reads)) of
            Some p \<Rightarrow> Inr p
          | None \<Rightarrow> rbind (ps_stdin src) (\<lambda>l. Inr (trim l))))"

subsection \<open>Pairing\<close>

text \<open>With saved credentials; an error of the reconnection is swallowed, and \<open>None\<close> asks for the PIN.\<close>

definition try_reconnect ::
  "crypto \<Rightarrow> string \<Rightarrow> 'w transport \<Rightarrow> pairing_rnd \<Rightarrow> string \<Rightarrow> ReceiverInfo \<Rightarrow> SavedCredentials \<Rightarrow> 'w \<Rightarrow>
     PairingSession option res \<times> 'w" where
  "try_reconnect C host tr rnd client_id ri c w =
    (let p = with_info client_id ri;
         p = p\<lparr>pairing_id := sc_pairing_id c,
               keys := (keys p)\<lparr>ed25519_seed := sc_seed c, ed25519_public := sc_public c\<rparr>\<rparr>
     in case reconnect C host tr rnd p w of
          (Inr _, p, w) \<Rightarrow> (Inr (Some p), w)
        | (Inl (Err _), _, w) \<Rightarrow> (Inr None, w)
        | (Inl Panic, _, w) \<Rightarrow> (Inl Panic, w))"

text \<open>With the PIN the receiver shows; a failed request to show it does not stop the pairing.\<close>

definition pair_by_pin ::
  "crypto \<Rightarrow> string \<Rightarrow> 'w transport \<Rightarrow> pairing_rnd \<Rightarrow> pin_source \<Rightarrow> json_codec \<Rightarrow> 'f file_system \<Rightarrow> string \<Rightarrow> ReceiverInfo \<Rightarrow>
     CredentialStore \<Rightarrow> 'w \<Rightarrow> 'f \<Rightarrow> (PairingSession \<times> CredentialStore) res \<times> 'w \<times> 'f" where
  "pair_by_pin C host tr rnd src J F client_id ri st w f =
    (case start_pin_display host tr (with_info client_id ri) w of
       (Inl Panic, p, w) \<Rightarrow> (Inl Panic, w, f)
     | (_, p, w) \<Rightarrow>
         (case choose_pin src of
            Inl e \<Rightarrow> (Inl e, w, f)
          | Inr code \<Rightarrow>
              (case pair_with_pin C host tr rnd code p w of
                 (Inl e, p, w) \<Rightarrow> (Inl e, w, f)
               | (Inr _, p, w) \<Rightarrow>
                   (case save J F (device_id ri) (pairing_id p) (ed25519_public (keys p)) (ed25519_seed (keys p)) st f of
                      (Inl e, st, f) \<Rightarrow> (Inl (Err (Protocol e)), w, f)
                    | (Inr _, st, f) \<Rightarrow> (Inr (p, st), w, f)))))"

definition pairing_stage ::
  "crypto \<Rightarrow> string \<Rightarrow> 'w transport \<Rightarrow> bool \<Rightarrow> pairing_rnd \<Rightarrow> pairing_rnd \<Rightarrow> pin_source \<Rightarrow> json_codec \<Rightarrow> 'f file_system \<Rightarrow>
     string \<Rightarrow> ReceiverInfo \<Rightarrow> CredentialStore \<Rightarrow> 'w \<Rightarrow> 'f \<Rightarrow> (PairingSession \<times> CredentialStore) res \<times> 'w \<times> 'f" where
  "pairing_stage C host tr force rnd1 rnd2 src J F client_id ri st w f =
    (let by_pin = pair_by_pin C host tr rnd2 src J F client_id ri st in
     if force then by_pin w f
     else
       (case lookup (device_id ri) st of
          Some c \<Rightarrow>
            if has_pairing_credentials c then
              (case try_reconnect C host tr rnd1 client_id ri c w of
                 (Inl e, w) \<Rightarrow> (Inl e, w, f)
               | (Inr (Some p), w) \<Rightarrow> (Inr (p, st), w, f)
               | (Inr None, w) \<Rightarrow> by_pin w f)
            else by_pin w f
        | None \<Rightarrow> by_pin w f))"

text \<open>The program: load the store, then pair.\<close>

definition pair_at_start ::
  "crypto \<Rightarrow> string \<Rightarrow> 'w transport \<Rightarrow> bool \<Rightarrow> pairing_rnd \<Rightarrow> pairing_rnd \<Rightarrow> pin_source \<Rightarrow> json_codec \<Rightarrow> 'f file_system \<Rightarrow>
     string \<Rightarrow> string \<Rightarrow> ReceiverInfo \<Rightarrow> 'w \<Rightarrow> 'f \<Rightarrow> (PairingSession \<times> CredentialStore) res \<times> 'w \<times> 'f" where
  "pair_at_start C host tr force rnd1 rnd2 src J F path client_id ri w f =
    (case CredentialStore_new J F path f of
       Inl e \<Rightarrow> (Inl (Err (Protocol e)), w, f)
     | Inr st \<Rightarrow> pairing_stage C host tr force rnd1 rnd2 src J F client_id ri st w f)"

subsection \<open>The control client after pairing\<close>

definition attach_pairing :: "PairingSession \<Rightarrow> Client \<Rightarrow> Client" where
  "attach_pairing p c =
    (let c = c\<lparr>cl_pair_keys := Some (keys p)\<rparr>
     in if PairingSession.encrypted p
        then enable_hap_encryption (PairingSession.enc_write_key p) (PairingSession.enc_read_key p) c else c)"

definition attach_fairplay :: "FairPlayResult \<Rightarrow> Client \<Rightarrow> Client" where
  "attach_fairplay r c =
    c\<lparr>fp_key := fr_stream_key r, fp_iv := fr_stream_iv r, fp_ekey := ekey r, fp_m3 := fr_m3 r, fp_aes_key := raw_key r\<rparr>"

definition fairplay_stage ::
  "crypto \<Rightarrow> fairplay_crypto \<Rightarrow> Client transport \<Rightarrow> fairplay_rnd \<Rightarrow> ReceiverInfo \<Rightarrow> PairingSession \<Rightarrow> Client \<Rightarrow> unit res \<times> Client" where
  "fairplay_stage C FC tr rnd ri p c =
    (if supports_fairplay_sap ri then
       (case fairplay_setup C FC tr rnd ri (shared_secret (keys p)) True c of
          (Inl e, c) \<Rightarrow> (Inl e, c)
        | (Inr r, c) \<Rightarrow> (Inr (), attach_fairplay r c))
     else (Inr (), c))"

subsection \<open>Paired once, reconnected later\<close>

text \<open>The key exchange of both sides after a pair-verify: the channel is encrypted and the keys cross over.\<close>

definition channel_agrees :: "PairingSession \<Rightarrow> ReceiverPairing \<Rightarrow> bool" where
  "channel_agrees p r \<longleftrightarrow> PairingSession.encrypted p \<and> verified r \<and>
     PairingSession.enc_write_key p = sk_read_key (session r) \<and> PairingSession.enc_read_key p = sk_write_key (session r)"

lemma start_pin_display_refused:
  "\<exists>res. start_pin_display host (pairing_transport C salt b priv) p r =
    (res, p\<lparr>pair_type := pin_pairing_type p\<rparr>, r) \<and> res \<noteq> Inl Panic"
  by (auto simp: start_pin_display_def pairing_transport_def post_def ok_body_def Let_def rbind_def split: sum.split)

lemma pair_by_pin_completes:
  fixes C :: crypto and salt b priv :: bytes
  assumes "aead_ok C" "sign_ok C" "dh_ok C" "hash_ok C"
    and "username r = ''Pair-Setup''" "transient r = Map.empty" "client_id \<noteq> []"
    and "length (rnd_seed rnd) = 32" "length (rnd_dh rnd) = 32" "length priv = 32"
    and "srp_draw_ok C salt (pin r) b (rnd_a rnd)"
    and "choose_pin src = Inr (pin r)" "codec_ok J" "files_ok F" "store_ok st"
  shows "\<exists>p st' r' f'. pair_by_pin C host (pairing_transport C salt b priv) rnd src J F client_id ri st r f = (Inr (p, st'), r', f') \<and>
    channel_agrees p r' \<and> controllers r' (from_utf8_lossy (s2b client_id)) = Some (ed_public C (rnd_seed rnd)) \<and>
    CredentialStore_new J F (cs_path st) f' = Inr st' \<and>
    (\<exists>c. lookup (device_id ri) st' = Some c \<and> sc_pairing_id c = client_id \<and> sc_seed c = rnd_seed rnd \<and>
       sc_public c = ed_public C (rnd_seed rnd))"
proof -
  define p0 where "p0 = with_info client_id ri"
  define p1 where "p1 = p0\<lparr>pair_type := pin_pairing_type p0\<rparr>"
  obtain r0 where r0: "start_pin_display host (pairing_transport C salt b priv) p0 r = (r0, p1, r)" "r0 \<noteq> Inl Panic"
    using start_pin_display_refused [of host C salt b priv p0 r] by (auto simp: p1_def)
  obtain res p r' where run: "pair_with_pin C host (pairing_transport C salt b priv) rnd (pin r) p1 r = (res, p, r')"
    by (metis prod_cases3)
  have "pairing_id p1 = client_id" by (simp add: p1_def p0_def with_info_def PairingSession_new_def)
  with pair_with_pin_completes [OF assms(1-6) _ assms(8-11) run] assms(7)
  have p: "res = Inr ()" "channel_agrees p r'" "controllers r' (from_utf8_lossy (s2b client_id)) = Some (ed_public C (rnd_seed rnd))"
    "pairing_id p = client_id" "ed25519_seed (keys p) = rnd_seed rnd" "ed25519_public (keys p) = ed_public C (rnd_seed rnd)"
    by (simp_all add: channel_agrees_def)
  obtain st' f' where sv: "save J F (device_id ri) client_id (ed_public C (rnd_seed rnd)) (rnd_seed rnd) st f = (Inr (), st', f')"
    "CredentialStore_new J F (cs_path st) f' = Inr st'"
    "\<exists>c. lookup (device_id ri) st' = Some c \<and> sc_pairing_id c = client_id \<and> sc_seed c = rnd_seed rnd \<and>
       sc_public c = ed_public C (rnd_seed rnd)"
    using save_reload [OF assms(13-15), of "device_id ri" client_id "ed_public C (rnd_seed rnd)" "rnd_seed rnd" f] by auto
  have "pair_by_pin C host (pairing_transport C salt b priv) rnd src J F client_id ri st r f = (Inr (p, st'), r', f')"
    using r0 run p sv(1) assms(12)
    by (cases r0; cases "projl r0") (auto simp: pair_by_pin_def p0_def split: sum.split fault.split)
  with p(2,3) sv(2,3) show ?thesis by blast
qed

lemma try_reconnect_completes:
  fixes C :: crypto and salt b priv :: bytes
  assumes "aead_ok C" "sign_ok C" "dh_ok C"
    and "transient r = Map.empty" "controllers r (from_utf8_lossy (s2b (sc_pairing_id c))) = Some (ed_public C (sc_seed c))"
    and "sc_pairing_id c \<noteq> []" "length (sc_seed c) = 32" "length priv = 32" "length (rnd_dh rnd) = 32"
  shows "\<exists>p r'. try_reconnect C host (pairing_transport C salt b priv) rnd client_id ri c r = (Inr (Some p), r') \<and> channel_agrees p r'"
proof -
  define p where "p = (with_info client_id ri)\<lparr>pairing_id := sc_pairing_id c,
      keys := (keys (with_info client_id ri))\<lparr>ed25519_seed := sc_seed c, ed25519_public := sc_public c\<rparr>\<rparr>"
  have k: "ed25519_seed (keys p) = sc_seed c" "pairing_id p = sc_pairing_id c" by (simp_all add: p_def)
  define shared where "shared = dh_shared C (rnd_dh rnd) (dh_base C priv)"
  have "pair_verify C host (pairing_transport C salt b priv) (rnd_dh rnd) p r =
      (Inr (), enter_encrypted C shared p, (reset_verify r)\<lparr>session := control_keys C shared, verified := True\<rparr>)"
    unfolding shared_def
    by (rule client_verify_completes [OF assms(1-3)]) (use assms(4-9) k in \<open>simp_all add: controller_key_def\<close>)
  then have "try_reconnect C host (pairing_transport C salt b priv) rnd client_id ri c r =
      (Inr (Some (enter_encrypted C shared p)), (reset_verify r)\<lparr>session := control_keys C shared, verified := True\<rparr>)"
    using assms(6,7) k by (simp add: try_reconnect_def reconnect_def p_def [symmetric] Let_def)
  then show ?thesis
    by (auto simp: channel_agrees_def enter_encrypted_def control_keys_def hkdf_agree Let_def)
qed

lemma pair_by_pin_mismatch:
  assumes "hash_ok C" "username r = ''Pair-Setup''" "srp_draw_short C salt (pin r) b (rnd_a rnd)" "choose_pin src = Inr (pin r)"
  shows "\<exists>r'. pair_by_pin C host (pairing_transport C salt b priv) rnd src J F client_id ri st r f =
    (Inl (protocol ''server proof mismatch''), r', f) \<and> controllers r' = controllers r"
proof -
  define p0 where "p0 = with_info client_id ri"
  define p1 where "p1 = p0\<lparr>pair_type := pin_pairing_type p0\<rparr>"
  obtain r0 where r0: "start_pin_display host (pairing_transport C salt b priv) p0 r = (r0, p1, r)" "r0 \<noteq> Inl Panic"
    using start_pin_display_refused [of host C salt b priv p0 r] by (auto simp: p1_def)
  obtain res p r' where run: "pair_with_pin C host (pairing_transport C salt b priv) rnd (pin r) p1 r = (res, p, r')"
    by (metis prod_cases3)
  with pair_with_pin_mismatch [OF assms(1-3) run] r0 assms(4) show ?thesis
    by (cases r0; cases "projl r0") (auto simp: pair_by_pin_def p0_def split: sum.split fault.split)
qed

text \<open>Without usable credentials for the receiver, or when a new pairing is forced, a start pairs by PIN.\<close>

definition no_credentials :: "string \<Rightarrow> CredentialStore \<Rightarrow> bool" where
  "no_credentials i st \<longleftrightarrow> (\<forall>c. lookup i st = Some c \<longrightarrow> \<not> has_pairing_credentials c)"

lemma start_by_pin:
  "CredentialStore_new J F path f = Inr st \<Longrightarrow> force \<or> no_credentials (device_id ri) st \<Longrightarrow>
    pair_at_start C host tr force rnd0 rnd src J F path client_id ri w f = pair_by_pin C host tr rnd src J F client_id ri st w f"
  by (auto simp: pair_at_start_def pairing_stage_def no_credentials_def Let_def split: option.split)

text \<open>C7. Paired once, reconnected later. A start that knows the receiver's PIN, whose credential file is missing or loads
  without usable credentials for the receiver (or which is forced to pair anew), pairs when the draw is usable
  (\<open>srp_draw_ok\<close>: a public value of full length, \<open>B\<close> and \<open>u\<close> not zero), with matching channel keys, and saves its identity;
  every later start that loads the same file gets an encrypted channel to the receiver by pair-verify alone, without any
  PIN, as long as the receiver has kept the sender's key. With a public value that is too short (\<open>srp_draw_short\<close>,
  one draw in 256 or so) the start fails with a proof mismatch, and neither the file nor the receiver's controllers change.\<close>

theorem paired_once_reconnects:
  fixes C :: crypto and salt b priv salt2 b2 priv2 :: bytes
  assumes "aead_ok C" "sign_ok C" "dh_ok C" "hash_ok C" "codec_ok J" "files_ok F"
    and "username r = ''Pair-Setup''" "transient r = Map.empty" "client_id \<noteq> []"
    and "length (rnd_seed rnd) = 32" "length (rnd_dh rnd) = 32" "length priv = 32"
    and "choose_pin src = Inr (pin r)" "CredentialStore_new J F path f = Inr st0" "force \<or> no_credentials (device_id ri) st0"
    and "transient r2 = Map.empty" "length priv2 = 32" "length (rnd_dh rnd2) = 32"
  shows "(srp_draw_ok C salt (pin r) b (rnd_a rnd) \<longrightarrow>
      (\<exists>p st r1 f1. pair_at_start C host (pairing_transport C salt b priv) force rnd0 rnd src J F path client_id ri r f =
        (Inr (p, st), r1, f1) \<and> channel_agrees p r1 \<and>
      (controllers r2 = controllers r1 \<longrightarrow>
        (\<exists>p2 r3. pair_at_start C host (pairing_transport C salt2 b2 priv2) False rnd2 rnd3 src2 J F path client_id2 ri r2 f1 =
           (Inr (p2, st), r3, f1) \<and> channel_agrees p2 r3)))) \<and>
    (srp_draw_short C salt (pin r) b (rnd_a rnd) \<longrightarrow>
      (\<exists>r1. pair_at_start C host (pairing_transport C salt b priv) force rnd0 rnd src J F path client_id ri r f =
        (Inl (protocol ''server proof mismatch''), r1, f) \<and> controllers r1 = controllers r))"
proof (intro conjI impI)
  assume draw: "srp_draw_ok C salt (pin r) b (rnd_a rnd)"
  note st0 = loaded_store_ok [OF assms(14)] loaded_store_path [OF assms(14)]
  from pair_by_pin_completes [OF assms(1-4,7-12) draw assms(13,5,6) st0(1), of host ri f]
  obtain p st r1 f1 c where 1: "pair_by_pin C host (pairing_transport C salt b priv) rnd src J F client_id ri st0 r f = (Inr (p, st), r1, f1)"
    "channel_agrees p r1" "controllers r1 (from_utf8_lossy (s2b client_id)) = Some (ed_public C (rnd_seed rnd))"
    "CredentialStore_new J F path f1 = Inr st" "lookup (device_id ri) st = Some c"
    "sc_pairing_id c = client_id" "sc_seed c = rnd_seed rnd" "sc_public c = ed_public C (rnd_seed rnd)"
    by (auto simp: st0(2))
  have first: "pair_at_start C host (pairing_transport C salt b priv) force rnd0 rnd src J F path client_id ri r f = (Inr (p, st), r1, f1)"
    unfolding start_by_pin [OF assms(14,15)] by (rule 1(1))
  have "\<exists>p2 r3. pair_at_start C host (pairing_transport C salt2 b2 priv2) False rnd2 rnd3 src2 J F path client_id2 ri r2 f1 =
      (Inr (p2, st), r3, f1) \<and> channel_agrees p2 r3" if kept: "controllers r2 = controllers r1"
  proof -
    obtain p2 r3 where "try_reconnect C host (pairing_transport C salt2 b2 priv2) rnd2 client_id2 ri c r2 = (Inr (Some p2), r3)"
      "channel_agrees p2 r3"
      using try_reconnect_completes [OF assms(1-3,16), of c priv2 rnd2 host salt2 b2 client_id2 ri] 1(3,6,7) kept assms(9,10,17,18) by auto
    moreover have "has_pairing_credentials c"
      using 1(6-8) assms(2,9,10) sign_okD(4) by (simp add: has_pairing_credentials_def ED25519_PUBLIC_KEY_SIZE_def ED25519_SEED_SIZE_def)
    ultimately show ?thesis using 1(4,5) by (simp add: pair_at_start_def pairing_stage_def)
  qed
  with first 1(2) show "\<exists>p st r1 f1. pair_at_start C host (pairing_transport C salt b priv) force rnd0 rnd src J F path client_id ri r f =
        (Inr (p, st), r1, f1) \<and> channel_agrees p r1 \<and>
      (controllers r2 = controllers r1 \<longrightarrow>
        (\<exists>p2 r3. pair_at_start C host (pairing_transport C salt2 b2 priv2) False rnd2 rnd3 src2 J F path client_id2 ri r2 f1 =
           (Inr (p2, st), r3, f1) \<and> channel_agrees p2 r3))" by blast
next
  assume "srp_draw_short C salt (pin r) b (rnd_a rnd)"
  from pair_by_pin_mismatch [OF assms(4,7) this assms(13)]
  show "\<exists>r1. pair_at_start C host (pairing_transport C salt b priv) force rnd0 rnd src J F path client_id ri r f =
      (Inl (protocol ''server proof mismatch''), r1, f) \<and> controllers r1 = controllers r"
    unfolding start_by_pin [OF assms(14,15)] .
qed

definition demo_receiver :: ReceiverPairing where
  "demo_receiver = ReceiverPairing_new wit_crypto ''rx'' ''Pair-Setup'' (replicate 32 9) ''1234''"

definition demo_rnd :: "byte \<Rightarrow> pairing_rnd" where
  "demo_rnd x = \<lparr>rnd_seed = replicate 32 5, rnd_a = wit_a, rnd_dh = replicate 32 x, rnd_dh2 = []\<rparr>"

definition demo_pin :: "string option \<Rightarrow> pin_source" where
  "demo_pin p = \<lparr>ps_arg = p, ps_file = None, ps_stdin = Inl (Err (Protocol ''closed''))\<rparr>"

theorem paired_once_reconnects_witness:
  "\<exists>p st r1 f1 p2 r3. pair_at_start wit_crypto ''pc'' (pairing_transport wit_crypto [7] [1] (replicate 32 3)) False (demo_rnd 1) (demo_rnd 2)
      (demo_pin (Some ''1234'')) counting_codec one_file ''creds'' ''id'' ReceiverInfo_default demo_receiver None = (Inr (p, st), r1, f1) \<and>
    pair_at_start wit_crypto ''pc'' (pairing_transport wit_crypto [8] [1] (replicate 32 4)) False (demo_rnd 6) (demo_rnd 2)
      (demo_pin None) counting_codec one_file ''creds'' ''other'' ReceiverInfo_default (demo_receiver\<lparr>controllers := controllers r1\<rparr>) f1 =
      (Inr (p2, st), r3, f1) \<and> channel_agrees p2 r3"
proof -
  have new: "username demo_receiver = ''Pair-Setup''" "transient demo_receiver = Map.empty" "pin demo_receiver = ''1234''"
    by (simp_all add: demo_receiver_def ReceiverPairing_new_def)
  have draw: "srp_draw_ok wit_crypto [7] (pin demo_receiver) [1] (rnd_a (demo_rnd 2))" using wit_draw by (simp add: demo_rnd_def new)
  have pin: "choose_pin (demo_pin (Some ''1234'')) = Inr (pin demo_receiver)" by (simp add: demo_pin_def choose_pin_def new)
  have none: "CredentialStore_new counting_codec one_file ''creds'' None = Inr \<lparr>cs_path = ''creds'', devices = []\<rparr>"
    "False \<or> no_credentials (device_id ReceiverInfo_default) \<lparr>cs_path = ''creds'', devices = []\<rparr>"
    by (simp_all add: one_file_def CredentialStore_new_def no_credentials_def lookup_def)
  have rnd: "length (rnd_seed (demo_rnd 2)) = 32" "length (rnd_dh (demo_rnd x)) = 32" for x by (simp_all add: demo_rnd_def)
  have lens: "length (replicate 32 (x :: byte)) = 32" "''id'' \<noteq> []" for x by simp_all
  let ?first = "pair_at_start wit_crypto ''pc'' (pairing_transport wit_crypto [7] [1] (replicate 32 3)) False (demo_rnd 1) (demo_rnd 2)
      (demo_pin (Some ''1234'')) counting_codec one_file ''creds'' ''id'' ReceiverInfo_default demo_receiver None"
  let ?r2 = "\<lambda>m. demo_receiver\<lparr>controllers := m\<rparr>"
  let ?second = "\<lambda>m f. pair_at_start wit_crypto ''pc'' (pairing_transport wit_crypto [8] [1] (replicate 32 4)) False (demo_rnd 6) (demo_rnd 2)
      (demo_pin None) counting_codec one_file ''creds'' ''other'' ReceiverInfo_default (?r2 m) f"
  have run: "\<exists>p st r1 f1. ?first = (Inr (p, st), r1, f1) \<and> channel_agrees p r1 \<and>
      (controllers (?r2 m) = controllers r1 \<longrightarrow> (\<exists>p2 r3. ?second m f1 = (Inr (p2, st), r3, f1) \<and> channel_agrees p2 r3))" for m
    by (rule conjunct1 [OF paired_once_reconnects [OF wit_crypto_ok counting_codec_ok one_file_ok new(1,2) lens(2) rnd(1,2) lens(1)
          pin none _ lens(1) rnd(2)], THEN mp]) (simp_all add: new(2) draw)
  obtain p st r1 f1 where first: "?first = (Inr (p, st), r1, f1)" using run by blast
  from run [of "controllers r1"] obtain p2 r3 where "?second (controllers r1) f1 = (Inr (p2, st), r3, f1)" "channel_agrees p2 r3"
    using first by auto
  with first show ?thesis by blast
qed

end
