(* ===== verification/Yuv.thy ===== *)
theory Yuv
  imports Rounding
begin

text \<open>
  The colour conversion of the software encoders (lumen-encode/src/yuv.rs): BGRA to the planes of I420, and I420
  to NV12. The single precision arithmetic of the code is exact arithmetic followed by a rounding,
  \<open>rnd\<close>, at every operation; \<open>rounding_ok\<close> states what IEEE rounding to nearest does.
  Sizes are \<open>nat\<close>, so a product of sizes does not wrap; slices and indices out of range panic.
\<close>

subsection \<open>The code\<close>

definition clamp_u8 :: "real \<Rightarrow> byte" where
  "clamp_u8 v = (if v < 0 then 0 else if 255 < v then 255 else word_of_nat (nat \<lfloor>v\<rfloor>))"

text \<open>A component of a pixel as a float, with the bounds check of the slice.\<close>

definition sample :: "bytes \<Rightarrow> nat \<Rightarrow> real res" where
  "sample b i = (if i < length b then Inr (real (unat (b ! i))) else Inl Panic)"

definition luma :: "rounding \<Rightarrow> real \<Rightarrow> real \<Rightarrow> real \<Rightarrow> byte" where
  "luma rnd r g b =
    clamp_u8 (fadd rnd (fadd rnd (fadd rnd (fmul rnd (rnd 0.257) r) (fmul rnd (rnd 0.504) g)) (fmul rnd (rnd 0.098) b)) 16)"

definition chroma_u :: "rounding \<Rightarrow> real \<Rightarrow> real \<Rightarrow> real \<Rightarrow> byte" where
  "chroma_u rnd r g b =
    clamp_u8 (fadd rnd (fadd rnd (fsub rnd (fmul rnd (- rnd 0.148) r) (fmul rnd (rnd 0.291) g)) (fmul rnd (rnd 0.439) b)) 128)"

definition chroma_v :: "rounding \<Rightarrow> real \<Rightarrow> real \<Rightarrow> real \<Rightarrow> byte" where
  "chroma_v rnd r g b =
    clamp_u8 (fadd rnd (fsub rnd (fsub rnd (fmul rnd (rnd 0.439) r) (fmul rnd (rnd 0.368) g)) (fmul rnd (rnd 0.071) b)) 128)"

text \<open>A row of the luma plane; the slice of the row is taken first.\<close>

definition luma_row :: "rounding \<Rightarrow> bytes \<Rightarrow> nat \<Rightarrow> nat \<Rightarrow> nat \<Rightarrow> bytes res" where
  "luma_row rnd bgra w stride row =
    (if length bgra < row * stride + w * 4 then Inl Panic
     else let src_row = take (w * 4) (drop (row * stride) bgra) in
       map_res (\<lambda>col. let p = col * 4 in
         rbind (sample src_row p) (\<lambda>b.
         rbind (sample src_row (p + 1)) (\<lambda>g.
         rbind (sample src_row (p + 2)) (\<lambda>r. Inr (luma rnd r g b))))) [0..<w])"

text \<open>The sum of one component over a block of two by two pixels, as the loops add it up, times a quarter.\<close>

fun sum_samples :: "rounding \<Rightarrow> bytes \<Rightarrow> nat list \<Rightarrow> real \<Rightarrow> real res" where
  "sum_samples rnd bgra [] acc = Inr acc"
| "sum_samples rnd bgra (p # ps) acc = rbind (sample bgra p) (\<lambda>v. sum_samples rnd bgra ps (fadd rnd acc v))"

definition block_offsets :: "nat \<Rightarrow> nat \<Rightarrow> nat \<Rightarrow> nat list" where
  "block_offsets stride row col =
    concat (map (\<lambda>dy. map (\<lambda>dx. (row * 2 + dy) * stride + (col * 2 + dx) * 4) [0, 1]) [0, 1])"

definition block_mean :: "rounding \<Rightarrow> bytes \<Rightarrow> nat \<Rightarrow> nat \<Rightarrow> nat \<Rightarrow> nat \<Rightarrow> real res" where
  "block_mean rnd bgra stride row col k =
    rbind (sum_samples rnd bgra (map (\<lambda>p. p + k) (block_offsets stride row col)) 0) (\<lambda>s. Inr (fmul rnd s 0.25))"

definition chroma_at :: "rounding \<Rightarrow> bytes \<Rightarrow> nat \<Rightarrow> nat \<times> nat \<Rightarrow> (byte \<times> byte) res" where
  "chroma_at rnd bgra stride rc =
    (case rc of (row, col) \<Rightarrow>
     rbind (block_mean rnd bgra stride row col 0) (\<lambda>bb.
     rbind (block_mean rnd bgra stride row col 1) (\<lambda>gg.
     rbind (block_mean rnd bgra stride row col 2) (\<lambda>rr.
       Inr (chroma_u rnd rr gg bb, chroma_v rnd rr gg bb)))))"

definition grid :: "nat \<Rightarrow> nat \<Rightarrow> (nat \<times> nat) list" where
  "grid h w = concat (map (\<lambda>row. map (Pair row) [0..<w]) [0..<h])"

definition bgra_to_i420 :: "rounding \<Rightarrow> bytes \<Rightarrow> nat \<Rightarrow> nat \<Rightarrow> nat \<Rightarrow> (bytes \<times> bytes \<times> bytes) res" where
  "bgra_to_i420 rnd bgra width height stride =
    (let w = width - width mod 2; h = height - height mod 2 in
     if length bgra < stride * height then Inl Panic
     else if stride < width * 4 then Inl Panic
     else
       rbind (map_res (luma_row rnd bgra w stride) [0..<h]) (\<lambda>ys.
       rbind (map_res (chroma_at rnd bgra stride) (grid (h div 2) (w div 2))) (\<lambda>uvs.
         Inr (concat ys, map fst uvs, map snd uvs))))"

text \<open>\<open>copy_from_slice\<close> panics unless the plane has exactly the size of the frame.\<close>

definition i420_to_nv12 :: "bytes \<Rightarrow> bytes \<Rightarrow> bytes \<Rightarrow> nat \<Rightarrow> nat \<Rightarrow> bytes res" where
  "i420_to_nv12 y u v width height =
    (let frame_size = width * height; n = frame_size div 2 div 2 in
     if length y \<noteq> frame_size then Inl Panic
     else if length u < n \<or> length v < n then Inl Panic
     else Inr (y @ concat (map (\<lambda>i. [u ! i, v ! i]) [0..<n]) @ replicate (frame_size div 2 - 2 * n) 0))"

subsection \<open>Loops that do not panic\<close>

lemma sample_Inr [simp]: "i < length b \<Longrightarrow> sample b i = Inr (real (unat (b ! i)))"
  by (simp add: sample_def)

subsection \<open>Rounding\<close>

text \<open>
  What rounding to nearest in single precision does: it is monotone, exact on quarters of integers of 24 bits, and off
  by half a unit in the last place (the second summand covers the numbers too small to be normal).
\<close>

definition rounding_ok :: "rounding \<Rightarrow> bool" where
  "rounding_ok rnd \<longleftrightarrow> mono rnd \<and> (\<forall>k :: int. \<bar>k\<bar> \<le> 2 ^ 24 \<longrightarrow> rnd (of_int k / 4) = of_int k / 4) \<and>
     (\<forall>x. \<bar>x\<bar> \<le> 2 ^ 20 \<longrightarrow> \<bar>rnd x - x\<bar> \<le> \<bar>x\<bar> / 2 ^ 24 + 1 / 2 ^ 100)"

lemma rounding_ok_id: "rounding_ok (\<lambda>x. x)"
  by (simp add: rounding_ok_def mono_def)

lemma rnd_error:
  assumes "rounding_ok rnd"
  shows "\<bar>x\<bar> \<le> 1000 \<Longrightarrow> \<bar>rnd x - x\<bar> \<le> 1 / 16000" "\<bar>x\<bar> \<le> 1 \<Longrightarrow> \<bar>rnd x - x\<bar> \<le> 1 / 8000000"
proof -
  have r: "\<bar>x\<bar> \<le> 2 ^ 20 \<Longrightarrow> \<bar>rnd x - x\<bar> \<le> \<bar>x\<bar> / 2 ^ 24 + 1 / 2 ^ 100" using assms by (simp add: rounding_ok_def)
  show "\<bar>rnd x - x\<bar> \<le> 1 / 16000" if "\<bar>x\<bar> \<le> 1000"
  proof -
    have "\<bar>x\<bar> / 2 ^ 24 + 1 / 2 ^ 100 \<le> 1000 / 2 ^ 24 + 1 / 2 ^ 100"
      using that by (intro add_mono divide_right_mono) simp_all
    also have "\<dots> \<le> 1 / 16000" by simp
    finally show ?thesis using r that by simp
  qed
  show "\<bar>rnd x - x\<bar> \<le> 1 / 8000000" if "\<bar>x\<bar> \<le> 1"
  proof -
    have "\<bar>x\<bar> / 2 ^ 24 + 1 / 2 ^ 100 \<le> 1 / 2 ^ 24 + 1 / 2 ^ 100"
      using that by (intro add_mono divide_right_mono) simp_all
    also have "\<dots> \<le> 1 / 8000000" by simp
    finally show ?thesis using r that by simp
  qed
qed

lemma rnd_quarter: "rounding_ok rnd \<Longrightarrow> n \<le> 2 ^ 24 \<Longrightarrow> rnd (real n / 4) = real n / 4"
  unfolding rounding_ok_def by (metis abs_of_nat of_int_of_nat_eq of_nat_le_iff of_nat_numeral of_nat_power)

lemma rnd_nat: "rounding_ok rnd \<Longrightarrow> n \<le> 2 ^ 22 \<Longrightarrow> rnd (real n) = real n"
  using rnd_quarter [of rnd "4 * n"] by simp

lemma rnd_nonneg: "rounding_ok rnd \<Longrightarrow> 0 \<le> x \<Longrightarrow> 0 \<le> rnd x"
  using rnd_nat [of rnd 0] monoD [of rnd 0 x] by (simp add: rounding_ok_def)

lemma term_error:
  assumes "rounding_ok rnd" "0 \<le> c" "c \<le> 1" "0 \<le> x" "x \<le> 255"
  shows "\<bar>fmul rnd (rnd c) x - c * x\<bar> \<le> 1 / 10000" "\<bar>fmul rnd (- rnd c) x + c * x\<bar> \<le> 1 / 10000"
proof -
  have c: "\<bar>rnd c - c\<bar> \<le> 1 / 8000000" using rnd_error(2) [OF assms(1), of c] assms by simp
  have "\<bar>rnd c * x - c * x\<bar> = \<bar>rnd c - c\<bar> * x" using assms(4) by (simp add: abs_mult left_diff_distrib [symmetric])
  also have "\<dots> \<le> 1 / 8000000 * 255" using c assms(4,5) by (intro mult_mono) simp_all
  finally have d: "\<bar>rnd c * x - c * x\<bar> \<le> 255 / 8000000" by simp
  have "c * x \<le> 1 * 255" "0 \<le> c * x" using assms by (intro mult_mono mult_nonneg_nonneg; simp)+
  then have "\<bar>rnd c * x\<bar> \<le> 1000" using d by linarith
  then have "\<bar>rnd c * x\<bar> \<le> 1000" "\<bar>- rnd c * x\<bar> \<le> 1000" by simp_all
  note r = rnd_error(1) [OF assms(1) this(1)] rnd_error(1) [OF assms(1) this(2)]
  show "\<bar>fmul rnd (rnd c) x - c * x\<bar> \<le> 1 / 10000" unfolding fmul_def using r(1) d by linarith
  show "\<bar>fmul rnd (- rnd c) x + c * x\<bar> \<le> 1 / 10000" unfolding fmul_def using r(2) d by linarith
qed

lemma op_error:
  assumes "rounding_ok rnd" "\<bar>x - x'\<bar> \<le> d" "\<bar>y - y'\<bar> \<le> e" "\<bar>x'\<bar> \<le> 400" "\<bar>y'\<bar> \<le> 400" "d + e \<le> 1"
  shows "\<bar>fadd rnd x y - (x' + y')\<bar> \<le> d + e + 1 / 16000" "\<bar>fsub rnd x y - (x' - y')\<bar> \<le> d + e + 1 / 16000"
proof -
  have "\<bar>x + y\<bar> \<le> 1000" using assms(2-6) by linarith
  from rnd_error(1) [OF assms(1) this] assms(2,3)
  show "\<bar>fadd rnd x y - (x' + y')\<bar> \<le> d + e + 1 / 16000" unfolding fadd_def by linarith
  have "\<bar>x - y\<bar> \<le> 1000" using assms(2-6) by linarith
  from rnd_error(1) [OF assms(1) this] assms(2,3)
  show "\<bar>fsub rnd x y - (x' - y')\<bar> \<le> d + e + 1 / 16000" unfolding fsub_def by linarith
qed

text \<open>A byte that is the integer part of a value up to a thousandth.\<close>

definition nearly :: "byte \<Rightarrow> real \<Rightarrow> bool" where
  "nearly b x \<longleftrightarrow> x - 1001 / 1000 \<le> real (unat b) \<and> real (unat b) \<le> x + 1 / 1000"

lemma clamp_nearly:
  assumes "\<bar>v - x\<bar> \<le> 1 / 1000" "1 \<le> x" "x \<le> 254"
  shows "nearly (clamp_u8 v) x" "unat (clamp_u8 v) = nat \<lfloor>v\<rfloor>"
proof -
  have v: "0 \<le> v" "v < 255" using assms by linarith+
  then have f: "0 \<le> \<lfloor>v\<rfloor>" "\<lfloor>v\<rfloor> < 255" by (simp_all add: floor_less_iff)
  then have "nat \<lfloor>v\<rfloor> < 256" by linarith
  then have "unat (word_of_nat (nat \<lfloor>v\<rfloor>) :: byte) = nat \<lfloor>v\<rfloor>" by (simp only: unat_byte_of_nat mod_less)
  then show n: "unat (clamp_u8 v) = nat \<lfloor>v\<rfloor>" using v by (simp add: clamp_u8_def)
  have "real (nat \<lfloor>v\<rfloor>) = of_int \<lfloor>v\<rfloor>" using f by simp
  moreover have "of_int \<lfloor>v\<rfloor> \<le> v" "v - 1 < of_int \<lfloor>v\<rfloor>" by linarith+
  moreover have "x - 1 / 1000 \<le> v" "v \<le> x + 1 / 1000" using assms(1) by linarith+
  ultimately show "nearly (clamp_u8 v) x" unfolding nearly_def n by linarith
qed

lemma clamp_lower:
  assumes "\<bar>v - x\<bar> \<le> 1 / 1000" "real k + 1 / 1000 \<le> x" "1 \<le> x" "x \<le> 254"
  shows "k \<le> unat (clamp_u8 v)"
proof -
  have "real k \<le> v" using assms(1,2) by linarith
  then show ?thesis unfolding clamp_nearly(2) [OF assms(1,3,4)] by (rule le_nat_floor)
qed

subsection \<open>The planes\<close>

text \<open>The studio range of BT.601.\<close>

definition bt601_y :: "real \<Rightarrow> real \<Rightarrow> real \<Rightarrow> real" where
  "bt601_y r g b = 0.257 * r + 0.504 * g + 0.098 * b + 16"
definition bt601_u :: "real \<Rightarrow> real \<Rightarrow> real \<Rightarrow> real" where
  "bt601_u r g b = 0.439 * b - 0.148 * r - 0.291 * g + 128"
definition bt601_v :: "real \<Rightarrow> real \<Rightarrow> real \<Rightarrow> real" where
  "bt601_v r g b = 0.439 * r - 0.368 * g - 0.071 * b + 128"

definition byte_range :: "real \<Rightarrow> bool" where
  "byte_range x \<longleftrightarrow> 0 \<le> x \<and> x \<le> 255"

lemma byte_range_unat [simp]: "byte_range (real (unat (b :: byte)))" "byte_range (unsigned (b :: byte))"
proof -
  have "unat b \<le> 255" using unat_byte_less [of b] by linarith
  then have "real (unat b) \<le> real 255" by (simp only: of_nat_le_iff)
  moreover have "0 \<le> real (unat b)" by (rule of_nat_0_le_iff)
  ultimately show "byte_range (real (unat b))" "byte_range (unsigned b)" by (simp_all add: byte_range_def)
qed

lemma scaled_bound: "byte_range x \<Longrightarrow> 0 \<le> c \<Longrightarrow> c \<le> 1 \<Longrightarrow> 0 \<le> c * x \<and> c * x \<le> c * 255"
  by (simp add: byte_range_def mult_left_mono)

lemma luma_error:
  assumes "rounding_ok rnd" "byte_range r" "byte_range g" "byte_range b"
  shows "\<bar>fadd rnd (fadd rnd (fadd rnd (fmul rnd (rnd 0.257) r) (fmul rnd (rnd 0.504) g)) (fmul rnd (rnd 0.098) b)) 16 -
    bt601_y r g b\<bar> \<le> 1 / 1000"
proof -
  note t = term_error(1) [OF assms(1)]
  have t: "\<bar>fmul rnd (rnd 0.257) r - 0.257 * r\<bar> \<le> 1 / 10000" "\<bar>fmul rnd (rnd 0.504) g - 0.504 * g\<bar> \<le> 1 / 10000"
    "\<bar>fmul rnd (rnd 0.098) b - 0.098 * b\<bar> \<le> 1 / 10000"
    using t [of "0.257" r] t [of "0.504" g] t [of "0.098" b] assms unfolding byte_range_def by simp_all
  note b = scaled_bound [OF assms(2), of "0.257"] scaled_bound [OF assms(3), of "0.504"] scaled_bound [OF assms(4), of "0.098"]
  have "\<bar>fadd rnd (fmul rnd (rnd 0.257) r) (fmul rnd (rnd 0.504) g) - (0.257 * r + 0.504 * g)\<bar> \<le> 1 / 10000 + 1 / 10000 + 1 / 16000"
    by (rule op_error(1) [OF assms(1) t(1,2)]) (use b in \<open>simp_all add: abs_le_iff\<close>)
  note op_error(1) [OF assms(1) this t(3)]
  moreover have "\<bar>0.257 * r + 0.504 * g\<bar> \<le> 400" "\<bar>0.098 * b\<bar> \<le> 400" using b by (simp_all add: abs_le_iff)
  ultimately have "\<bar>fadd rnd (fadd rnd (fmul rnd (rnd 0.257) r) (fmul rnd (rnd 0.504) g)) (fmul rnd (rnd 0.098) b) -
      (0.257 * r + 0.504 * g + 0.098 * b)\<bar> \<le> 1 / 10000 + 1 / 10000 + 1 / 16000 + 1 / 10000 + 1 / 16000" by simp
  note op_error(1) [OF assms(1) this, of 16 16 0]
  moreover have "\<bar>0.257 * r + 0.504 * g + 0.098 * b\<bar> \<le> 400" using b by (simp add: abs_le_iff)
  ultimately show ?thesis by (simp add: bt601_y_def)
qed

lemma chroma_error:
  assumes "rounding_ok rnd" "byte_range r" "byte_range g" "byte_range b"
  shows "\<bar>fadd rnd (fadd rnd (fsub rnd (fmul rnd (- rnd 0.148) r) (fmul rnd (rnd 0.291) g)) (fmul rnd (rnd 0.439) b)) 128 -
      bt601_u r g b\<bar> \<le> 1 / 1000"
    and "\<bar>fadd rnd (fsub rnd (fsub rnd (fmul rnd (rnd 0.439) r) (fmul rnd (rnd 0.368) g)) (fmul rnd (rnd 0.071) b)) 128 -
      bt601_v r g b\<bar> \<le> 1 / 1000"
proof -
  note ok = assms(1)
  note b = scaled_bound [OF assms(2), of "0.148"] scaled_bound [OF assms(3), of "0.291"] scaled_bound [OF assms(4), of "0.439"]
    scaled_bound [OF assms(2), of "0.439"] scaled_bound [OF assms(3), of "0.368"] scaled_bound [OF assms(4), of "0.071"]
  have u: "\<bar>fmul rnd (- rnd 0.148) r - (- (0.148 * r))\<bar> \<le> 1 / 10000" "\<bar>fmul rnd (rnd 0.291) g - 0.291 * g\<bar> \<le> 1 / 10000"
    "\<bar>fmul rnd (rnd 0.439) b - 0.439 * b\<bar> \<le> 1 / 10000"
    using term_error(2) [OF ok, of "0.148" r] term_error(1) [OF ok, of "0.291" g] term_error(1) [OF ok, of "0.439" b] assms
    unfolding byte_range_def by simp_all
  have "\<bar>fsub rnd (fmul rnd (- rnd 0.148) r) (fmul rnd (rnd 0.291) g) - (- (0.148 * r) - 0.291 * g)\<bar> \<le> 1 / 10000 + 1 / 10000 + 1 / 16000"
    by (rule op_error(2) [OF ok u(1,2)]) (use b in \<open>simp_all add: abs_le_iff\<close>)
  note op_error(1) [OF ok this u(3)]
  moreover have "\<bar>- (0.148 * r) - 0.291 * g\<bar> \<le> 400" "\<bar>0.439 * b\<bar> \<le> 400" using b by (simp_all add: abs_le_iff)
  ultimately have "\<bar>fadd rnd (fsub rnd (fmul rnd (- rnd 0.148) r) (fmul rnd (rnd 0.291) g)) (fmul rnd (rnd 0.439) b) -
      (- (0.148 * r) - 0.291 * g + 0.439 * b)\<bar> \<le> 1 / 10000 + 1 / 10000 + 1 / 16000 + 1 / 10000 + 1 / 16000" by simp
  note op_error(1) [OF ok this, of 128 128 0]
  moreover have "\<bar>- (0.148 * r) - 0.291 * g + 0.439 * b\<bar> \<le> 400" using b by (simp add: abs_le_iff)
  ultimately show "\<bar>fadd rnd (fadd rnd (fsub rnd (fmul rnd (- rnd 0.148) r) (fmul rnd (rnd 0.291) g)) (fmul rnd (rnd 0.439) b)) 128 -
      bt601_u r g b\<bar> \<le> 1 / 1000" by (simp add: bt601_u_def algebra_simps)
  have v: "\<bar>fmul rnd (rnd 0.439) r - 0.439 * r\<bar> \<le> 1 / 10000" "\<bar>fmul rnd (rnd 0.368) g - 0.368 * g\<bar> \<le> 1 / 10000"
    "\<bar>fmul rnd (rnd 0.071) b - 0.071 * b\<bar> \<le> 1 / 10000"
    using term_error(1) [OF ok, of "0.439" r] term_error(1) [OF ok, of "0.368" g] term_error(1) [OF ok, of "0.071" b] assms
    unfolding byte_range_def by simp_all
  have "\<bar>fsub rnd (fmul rnd (rnd 0.439) r) (fmul rnd (rnd 0.368) g) - (0.439 * r - 0.368 * g)\<bar> \<le> 1 / 10000 + 1 / 10000 + 1 / 16000"
    by (rule op_error(2) [OF ok v(1,2)]) (use b in \<open>simp_all add: abs_le_iff\<close>)
  note op_error(2) [OF ok this v(3)]
  moreover have "\<bar>0.439 * r - 0.368 * g\<bar> \<le> 400" "\<bar>0.071 * b\<bar> \<le> 400" using b by (simp_all add: abs_le_iff)
  ultimately have "\<bar>fsub rnd (fsub rnd (fmul rnd (rnd 0.439) r) (fmul rnd (rnd 0.368) g)) (fmul rnd (rnd 0.071) b) -
      (0.439 * r - 0.368 * g - 0.071 * b)\<bar> \<le> 1 / 10000 + 1 / 10000 + 1 / 16000 + 1 / 10000 + 1 / 16000" by simp
  note op_error(1) [OF ok this, of 128 128 0]
  moreover have "\<bar>0.439 * r - 0.368 * g - 0.071 * b\<bar> \<le> 400" using b by (simp add: abs_le_iff)
  ultimately show "\<bar>fadd rnd (fsub rnd (fsub rnd (fmul rnd (rnd 0.439) r) (fmul rnd (rnd 0.368) g)) (fmul rnd (rnd 0.071) b)) 128 -
      bt601_v r g b\<bar> \<le> 1 / 1000" by (simp add: bt601_v_def algebra_simps)
qed

text \<open>The formulas keep to the studio range, and so do the bytes.\<close>

lemma bt601_range:
  assumes "byte_range r" "byte_range g" "byte_range b"
  shows "16 \<le> bt601_y r g b \<and> bt601_y r g b \<le> 23505 / 100" "1605 / 100 \<le> bt601_u r g b \<and> bt601_u r g b \<le> 23995 / 100"
    "1605 / 100 \<le> bt601_v r g b \<and> bt601_v r g b \<le> 23995 / 100"
  using assms by (simp_all add: byte_range_def bt601_y_def bt601_u_def bt601_v_def field_simps)

lemma nearly_range: "nearly x v \<Longrightarrow> v \<le> 23998 / 100 \<Longrightarrow> unat x \<le> 239" "nearly x v \<Longrightarrow> v \<le> 23598 / 100 \<Longrightarrow> unat x \<le> 235"
proof -
  assume "nearly x v" "v \<le> 23998 / 100"
  then have "real (unat x) < real 240" unfolding nearly_def by simp
  then show "unat x \<le> 239" by (simp only: of_nat_less_iff)
next
  assume "nearly x v" "v \<le> 23598 / 100"
  then have "real (unat x) < real 236" unfolding nearly_def by simp
  then show "unat x \<le> 235" by (simp only: of_nat_less_iff)
qed

lemma luma_ok:
  assumes "rounding_ok rnd" "byte_range r" "byte_range g" "byte_range b"
  shows "nearly (luma rnd r g b) (bt601_y r g b)" "16 \<le> unat (luma rnd r g b)" "unat (luma rnd r g b) \<le> 235"
proof -
  note rg = bt601_range(1) [OF assms(2-4)]
  note c = clamp_nearly [OF luma_error [OF assms]]
  show n: "nearly (luma rnd r g b) (bt601_y r g b)" unfolding luma_def using rg by (intro c(1)) simp_all
  show "unat (luma rnd r g b) \<le> 235" using nearly_range(2) [OF n] rg by simp
  let ?s = "fadd rnd (fadd rnd (fmul rnd (rnd 0.257) r) (fmul rnd (rnd 0.504) g)) (fmul rnd (rnd 0.098) b)"
  have "0 \<le> ?s" using assms by (simp add: fadd_def fmul_def rnd_nonneg byte_range_def)
  then have "rnd (real 16) \<le> fadd rnd ?s 16" using assms(1) by (auto simp: fadd_def rounding_ok_def dest: monoD [of rnd "16" "?s + 16"])
  then have "16 \<le> fadd rnd ?s 16" using rnd_nat [OF assms(1), of 16] by simp
  then show "16 \<le> unat (luma rnd r g b)" unfolding luma_def using c(2) rg by (simp add: le_nat_floor)
qed

lemma chroma_ok:
  assumes "rounding_ok rnd" "byte_range r" "byte_range g" "byte_range b"
  shows "nearly (chroma_u rnd r g b) (bt601_u r g b)" "16 \<le> unat (chroma_u rnd r g b)" "unat (chroma_u rnd r g b) \<le> 239"
    "nearly (chroma_v rnd r g b) (bt601_v r g b)" "16 \<le> unat (chroma_v rnd r g b)" "unat (chroma_v rnd r g b) \<le> 239"
proof -
  note rg = bt601_range(2,3) [OF assms(2-4)]
  note u = clamp_nearly [OF chroma_error(1) [OF assms]] and v = clamp_nearly [OF chroma_error(2) [OF assms]]
  show n: "nearly (chroma_u rnd r g b) (bt601_u r g b)" "nearly (chroma_v rnd r g b) (bt601_v r g b)"
    unfolding chroma_u_def chroma_v_def using rg by (intro u(1) v(1); simp)+
  show "unat (chroma_u rnd r g b) \<le> 239" "unat (chroma_v rnd r g b) \<le> 239" using nearly_range(1) n rg by force+
  show "16 \<le> unat (chroma_u rnd r g b)" "16 \<le> unat (chroma_v rnd r g b)"
    unfolding chroma_u_def chroma_v_def using rg
    by (intro clamp_lower [OF chroma_error(1) [OF assms]] clamp_lower [OF chroma_error(2) [OF assms]]; simp)+
qed

text \<open>A component of the source picture, and its mean over a block of two by two pixels.\<close>

definition source_at :: "bytes \<Rightarrow> nat \<Rightarrow> nat \<Rightarrow> nat \<Rightarrow> nat \<Rightarrow> real" where
  "source_at bgra stride row col k = real (unat (bgra ! (row * stride + col * 4 + k)))"

definition source_mean :: "bytes \<Rightarrow> nat \<Rightarrow> nat \<Rightarrow> nat \<Rightarrow> nat \<Rightarrow> real" where
  "source_mean bgra stride row col k =
    (source_at bgra stride (2 * row) (2 * col) k + source_at bgra stride (2 * row) (2 * col + 1) k +
     source_at bgra stride (2 * row + 1) (2 * col) k + source_at bgra stride (2 * row + 1) (2 * col + 1) k) / 4"

lemma source_range: "byte_range (source_at bgra stride row col k)" "byte_range (source_mean bgra stride row col k)"
proof -
  show s: "byte_range (source_at bgra stride row col k)" for row col unfolding source_at_def by (rule byte_range_unat)
  show "byte_range (source_mean bgra stride row col k)"
    using s [of "2 * row" "2 * col"] s [of "2 * row" "2 * col + 1"] s [of "2 * row + 1" "2 * col"] s [of "2 * row + 1" "2 * col + 1"]
    by (simp add: source_mean_def byte_range_def)
qed

lemma luma_row_ok:
  assumes "row * stride + w * 4 \<le> length bgra"
  shows "luma_row rnd bgra w stride row =
    Inr (map (\<lambda>col. luma rnd (source_at bgra stride row col 2) (source_at bgra stride row col 1) (source_at bgra stride row col 0)) [0..<w])"
proof -
  let ?src = "take (w * 4) (drop (row * stride) bgra)"
  have "sample ?src (col * 4 + k) = Inr (source_at bgra stride row col k)" if "col < w" "k < 4" for col k
    using that assms by (simp add: sample_def source_at_def add.assoc)
  from this [of _ 0] this [of _ 1] this [of _ 2]
  have "map_res (\<lambda>col. let p = col * 4 in
      rbind (sample ?src p) (\<lambda>b. rbind (sample ?src (p + 1)) (\<lambda>g. rbind (sample ?src (p + 2)) (\<lambda>r. Inr (luma rnd r g b))))) [0..<w] =
    Inr (map (\<lambda>col. luma rnd (source_at bgra stride row col 2) (source_at bgra stride row col 1) (source_at bgra stride row col 0)) [0..<w])"
    by (intro map_res_Inr) (simp add: Let_def)
  with assms show ?thesis by (simp add: luma_row_def)
qed

lemma sum_samples_exact:
  assumes "rounding_ok rnd"
  shows "\<forall>p \<in> set ps. p < length bgra \<Longrightarrow> n + 255 * length ps \<le> 2 ^ 22 \<Longrightarrow>
    sum_samples rnd bgra ps (real n) = Inr (real n + sum_list (map (\<lambda>p. real (unat (bgra ! p))) ps))"
proof (induction ps arbitrary: n)
  case (Cons p ps)
  have b: "unat (bgra ! p) \<le> 255" using unat_byte_less [of "bgra ! p"] by linarith
  then have "fadd rnd (real n) (real (unat (bgra ! p))) = real (n + unat (bgra ! p))"
    using rnd_nat [OF assms, of "n + unat (bgra ! p)"] Cons.prems(2) by (simp add: fadd_def)
  moreover have "n + unat (bgra ! p) + 255 * length ps \<le> 2 ^ 22" using b Cons.prems(2) by simp
  ultimately show ?case using Cons.IH [of "n + unat (bgra ! p)"] Cons.prems(1) by simp
qed simp

lemma block_mean_exact:
  assumes "rounding_ok rnd" "\<forall>p \<in> set (block_offsets stride row col). p + k < length bgra"
  shows "block_mean rnd bgra stride row col k = Inr (source_mean bgra stride row col k)"
proof -
  define ps where "ps = map (\<lambda>p. p + k) (block_offsets stride row col)"
  define n where "n = sum_list (map (\<lambda>p. unat (bgra ! p)) ps)"
  have len: "length ps = 4" by (simp add: ps_def block_offsets_def)
  have "unat (bgra ! p) \<le> 255" for p using unat_byte_less [of "bgra ! p"] by linarith
  then have "n \<le> 255 * length ps" unfolding n_def by (induction ps) (simp_all add: add_mono)
  then have n: "n \<le> 2 ^ 24" using len by simp
  have "sum_samples rnd bgra ps 0 = Inr (real n)"
    using sum_samples_exact [OF assms(1), of ps bgra 0] assms(2) len
    by (simp add: ps_def n_def block_offsets_def)
  moreover have "fmul rnd (real n) 0.25 = real n / 4" using rnd_quarter [OF assms(1) n] by (simp add: fmul_def)
  moreover have "real n / 4 = source_mean bgra stride row col k"
    by (simp add: n_def ps_def block_offsets_def source_mean_def source_at_def algebra_simps)
  ultimately show ?thesis by (simp add: block_mean_def ps_def)
qed

lemma plane_grid: "map (\<lambda>(row, col). g row col) (grid h w) = plane h w g"
  by (simp add: grid_def plane_def map_concat comp_def)

text \<open>The pixel of a row and column lies in the buffer.\<close>

lemma chroma_at_ok:
  assumes "rounding_ok rnd" "2 * row + 1 < height" "2 * col + 1 < width" "stride * height \<le> length bgra" "width * 4 \<le> stride"
  shows "chroma_at rnd bgra stride (row, col) =
    (let m = source_mean bgra stride row col in Inr (chroma_u rnd (m 2) (m 1) (m 0), chroma_v rnd (m 2) (m 1) (m 0)))"
proof -
  have "\<forall>p \<in> set (block_offsets stride row col). p + k < length bgra" if "k < 4" for k
  proof -
    have "(row * 2 + dy) * stride + (col * 2 + dx) * 4 + k < length bgra" if "dy \<le> 1" "dx \<le> 1" for dy dx
    proof -
      have "row * 2 + dy < height" "(col * 2 + dx + 1) * 4 \<le> width * 4" using assms(2,3) that by simp_all
      then have "(row * 2 + dy) * stride + (col * 2 + dx + 1) * 4 \<le> length bgra"
        using assms(4,5) by (intro row_end) simp_all
      then show ?thesis using \<open>k < 4\<close> by simp
    qed
    from this [of 0 0] this [of 0 1] this [of 1 0] this [of 1 1] show ?thesis by (simp add: block_offsets_def)
  qed
  from block_mean_exact [OF assms(1) this, of 0] block_mean_exact [OF assms(1) this, of 1] block_mean_exact [OF assms(1) this, of 2]
  show ?thesis by (simp add: chroma_at_def Let_def)
qed

text \<open>The whole conversion, with its result written out.\<close>

lemma bgra_to_i420_eq:
  assumes "rounding_ok rnd" "stride * height \<le> length bgra" "width * 4 \<le> stride"
  defines "w \<equiv> 2 * (width div 2)" and "h \<equiv> 2 * (height div 2)" and "m \<equiv> source_mean bgra stride" and "s \<equiv> source_at bgra stride"
  shows "bgra_to_i420 rnd bgra width height stride =
    Inr (plane h w (\<lambda>row col. luma rnd (s row col 2) (s row col 1) (s row col 0)),
         plane (height div 2) (width div 2) (\<lambda>row col. chroma_u rnd (m row col 2) (m row col 1) (m row col 0)),
         plane (height div 2) (width div 2) (\<lambda>row col. chroma_v rnd (m row col 2) (m row col 1) (m row col 0)))"
proof -
  have wh: "width - width mod 2 = w" "height - height mod 2 = h" by (simp_all add: w_def h_def minus_mod_eq_mult_div)
  have "luma_row rnd bgra w stride row = Inr (map (\<lambda>col. luma rnd (s row col 2) (s row col 1) (s row col 0)) [0..<w])"
    if "row \<in> set [0..<h]" for row
    unfolding s_def using that assms(3) by (intro luma_row_ok row_end [OF _ assms(2)]) (auto simp: w_def h_def)
  then have y: "map_res (luma_row rnd bgra w stride) [0..<h] =
      Inr (map (\<lambda>row. map (\<lambda>col. luma rnd (s row col 2) (s row col 1) (s row col 0)) [0..<w]) [0..<h])"
    by (rule map_res_Inr)
  define uv where "uv = (\<lambda>row col. (chroma_u rnd (m row col 2) (m row col 1) (m row col 0), chroma_v rnd (m row col 2) (m row col 1) (m row col 0)))"
  have "chroma_at rnd bgra stride rc = Inr (case rc of (row, col) \<Rightarrow> uv row col)" if mem: "rc \<in> set (grid (h div 2) (w div 2))" for rc
  proof -
    obtain row col where rc: "rc = (row, col)" "row < height div 2" "col < width div 2"
      using mem by (auto simp: grid_def w_def h_def)
    then have "2 * row + 1 < height" "2 * col + 1 < width" by simp_all
    from chroma_at_ok [OF assms(1) this assms(2,3)] show ?thesis by (simp add: rc uv_def m_def Let_def)
  qed
  then have c: "map_res (chroma_at rnd bgra stride) (grid (h div 2) (w div 2)) = Inr (map (\<lambda>(row, col). uv row col) (grid (h div 2) (w div 2)))"
    by (rule map_res_Inr)
  show ?thesis
    using assms(2,3) by (simp add: bgra_to_i420_def wh Let_def y c plane_grid plane_map uv_def) (simp add: plane_def w_def h_def plane_grid plane_map)
qed

text \<open>C21. The conversion to I420 never panics on a buffer of the stated shape. The planes have the sizes of 4:2:0
  subsampling; each luma byte is the BT.601 value of its pixel, and each chroma byte that of the mean of its two by two
  pixels, rounded down (up to a thousandth, whatever single precision rounding does); luma lies in 16 to 235 and chroma
  in 16 to 239.\<close>

theorem i420_planes:
  assumes "rounding_ok rnd" "stride * height \<le> length bgra" "width * 4 \<le> stride"
  shows "\<exists>y u v. bgra_to_i420 rnd bgra width height stride = Inr (y, u, v) \<and>
    (let w = width div 2; h = height div 2; s = source_at bgra stride; m = source_mean bgra stride in
     length y = (2 * h) * (2 * w) \<and> length u = h * w \<and> length v = h * w \<and>
     (\<forall>row < 2 * h. \<forall>col < 2 * w. let b = y ! (row * (2 * w) + col) in
        nearly b (bt601_y (s row col 2) (s row col 1) (s row col 0)) \<and> 16 \<le> unat b \<and> unat b \<le> 235) \<and>
     (\<forall>row < h. \<forall>col < w. let b = u ! (row * w + col) in
        nearly b (bt601_u (m row col 2) (m row col 1) (m row col 0)) \<and> 16 \<le> unat b \<and> unat b \<le> 239) \<and>
     (\<forall>row < h. \<forall>col < w. let b = v ! (row * w + col) in
        nearly b (bt601_v (m row col 2) (m row col 1) (m row col 0)) \<and> 16 \<le> unat b \<and> unat b \<le> 239))"
proof -
  note l = luma_ok [OF assms(1) source_range(1) source_range(1) source_range(1)]
  note c = chroma_ok [OF assms(1) source_range(2) source_range(2) source_range(2)]
  obtain y u v where i: "bgra_to_i420 rnd bgra width height stride = Inr (y, u, v)"
      "y = plane (2 * (height div 2)) (2 * (width div 2)) (\<lambda>row col. luma rnd (source_at bgra stride row col 2)
        (source_at bgra stride row col 1) (source_at bgra stride row col 0))"
      "u = plane (height div 2) (width div 2) (\<lambda>row col. chroma_u rnd (source_mean bgra stride row col 2)
        (source_mean bgra stride row col 1) (source_mean bgra stride row col 0))"
      "v = plane (height div 2) (width div 2) (\<lambda>row col. chroma_v rnd (source_mean bgra stride row col 2)
        (source_mean bgra stride row col 1) (source_mean bgra stride row col 0))"
    using bgra_to_i420_eq [OF assms] by blast
  have "y ! (row * (2 * (width div 2)) + col) = luma rnd (source_at bgra stride row col 2) (source_at bgra stride row col 1)
      (source_at bgra stride row col 0)" if "row < 2 * (height div 2)" "col < 2 * (width div 2)" for row col
    unfolding i(2) by (rule plane_nth [OF that])
  moreover have "u ! (row * (width div 2) + col) = chroma_u rnd (source_mean bgra stride row col 2) (source_mean bgra stride row col 1)
      (source_mean bgra stride row col 0)"
    "v ! (row * (width div 2) + col) = chroma_v rnd (source_mean bgra stride row col 2) (source_mean bgra stride row col 1)
      (source_mean bgra stride row col 0)" if "row < height div 2" "col < width div 2" for row col
    unfolding i(3,4) by (rule plane_nth [OF that])+
  moreover have "length y = (2 * (height div 2)) * (2 * (width div 2))" "length u = (height div 2) * (width div 2)"
    "length v = (height div 2) * (width div 2)" by (simp_all add: i(2-4))
  ultimately show ?thesis
    unfolding Let_def using i(1) by (intro exI [of _ y] exI [of _ u] exI [of _ v] conjI) (simp_all add: l c del: One_nat_def)
qed

theorem i420_planes_witness:
  "\<exists>y u v. bgra_to_i420 (\<lambda>x. x) (replicate 36 128) 3 3 12 = Inr (y, u, v) \<and>
    length y = 4 \<and> length u = 1 \<and> length v = 1 \<and> nearly (y ! 3) (bt601_y 128 128 128)"
proof -
  have "source_at (replicate 36 128) 12 1 1 k = 128" if "k < 4" for k
    using that by (simp add: source_at_def)
  then show ?thesis
    using i420_planes [OF rounding_ok_id, of 12 3 "replicate 36 128" 3]
    by (auto simp: Let_def dest!: spec [of _ 1])
qed

lemma shrunk_product:
  fixes a b c d :: nat
  assumes "a \<le> c" "b \<le> d" "a < c \<or> b < d" "0 < d" "0 < c"
  shows "a * b < c * d"
  using assms(3)
proof
  assume "a < c"
  then have "a * d < c * d" using assms(4) by simp
  moreover have "a * b \<le> a * d" using assms(2) by simp
  ultimately show ?thesis by (rule le_less_trans [rotated])
next
  assume "b < d"
  then have "c * b < c * d" using assms(5) by simp
  moreover have "a * b \<le> c * b" using assms(1) by simp
  ultimately show ?thesis by (rule le_less_trans [rotated])
qed

text \<open>NV12 out of a captured picture: for even sizes the frame is the luma plane followed by the interleaved chroma
  samples; if one of the sizes is odd the conversion panics, since the planes were rounded down and the copy demands the
  full size.\<close>

theorem nv12_of_capture:
  assumes "rounding_ok rnd" "4 * width * height \<le> length bgra" "0 < width" "0 < height"
  shows "rbind (bgra_to_i420 rnd bgra width height (width * 4)) (\<lambda>(y, u, v). i420_to_nv12 y u v width height) =
    (if even width \<and> even height
     then rbind (bgra_to_i420 rnd bgra width height (width * 4)) (\<lambda>(y, u, v). Inr (y @ concat (map2 (\<lambda>a b. [a, b]) u v)))
     else Inl Panic)"
proof -
  have len: "width * 4 * height \<le> length bgra" using assms(2) by (simp add: mult.commute mult.left_commute)
  obtain y u v where i: "bgra_to_i420 rnd bgra width height (width * 4) = Inr (y, u, v)"
      "length y = (2 * (height div 2)) * (2 * (width div 2))" "length u = (height div 2) * (width div 2)" "length v = (height div 2) * (width div 2)"
    using bgra_to_i420_eq [OF assms(1) len, of width] by auto
  show ?thesis
  proof (cases "even width \<and> even height")
    case True
    then obtain a b where ab: "width = 2 * a" "height = 2 * b" by (auto elim!: evenE)
    have n: "width * height div 2 div 2 = b * a" "width * height div 2 = 2 * (b * a)" by (simp_all add: ab)
    have "length u = b * a" "length v = b * a" "length y = width * height" using i(2-4) by (simp_all add: ab)
    moreover from this have "map (\<lambda>i. [u ! i, v ! i]) [0..<b * a] = map2 (\<lambda>a b. [a, b]) u v"
      by (intro nth_equalityI) simp_all
    ultimately show ?thesis using True by (simp add: i(1) i420_to_nv12_def n Let_def)
  next
    case False
    then have "2 * (height div 2) * (2 * (width div 2)) < width * height"
    proof -
      have "2 * (height div 2) \<le> height" "2 * (width div 2) \<le> width" by simp_all
      moreover have "2 * (height div 2) < height \<or> 2 * (width div 2) < width" using False by presburger
      ultimately have "2 * (height div 2) * (2 * (width div 2)) < height * width"
        using assms(3,4) by (intro shrunk_product)
      then show ?thesis by (simp add: mult.commute)
    qed
    then have "length y \<noteq> width * height" using i(2) by simp
    with False show ?thesis by (simp add: i(1) i420_to_nv12_def)
  qed
qed

theorem nv12_of_capture_witness:
  "rbind (bgra_to_i420 (\<lambda>x. x) (replicate 36 128) 3 3 (3 * 4)) (\<lambda>(y, u, v). i420_to_nv12 y u v 3 3) = Inl Panic \<and>
   rbind (bgra_to_i420 (\<lambda>x. x) (replicate 16 128) 2 2 (2 * 4)) (\<lambda>(y, u, v). i420_to_nv12 y u v 2 2) \<noteq> Inl Panic"
proof
  show "rbind (bgra_to_i420 (\<lambda>x. x) (replicate 36 128) 3 3 (3 * 4)) (\<lambda>(y, u, v). i420_to_nv12 y u v 3 3) = Inl Panic"
    using nv12_of_capture [OF rounding_ok_id, of 3 3 "replicate 36 128"] by simp
  have "2 * 4 * (2 :: nat) \<le> length (replicate 16 (128 :: byte))" by simp
  from bgra_to_i420_eq [OF rounding_ok_id this, of 2] obtain y u v where
    "bgra_to_i420 (\<lambda>x. x) (replicate 16 128) 2 2 (2 * 4) = Inr (y, u, v)" by simp
  then show "rbind (bgra_to_i420 (\<lambda>x. x) (replicate 16 128) 2 2 (2 * 4)) (\<lambda>(y, u, v). i420_to_nv12 y u v 2 2) \<noteq> Inl Panic"
    using nv12_of_capture [OF rounding_ok_id, of 2 2 "replicate 16 128"] by simp
qed

end
