(* ===== verification/Encoders.thy ===== *)
theory Encoders
  imports Yuv
begin

text \<open>
  The other encoders: NVENC (lumen-encode/src/encoder.rs, nvenc.rs), Media Foundation (mf.rs) and x264 (x264.rs). The
  vendor interfaces are arguments: records of functions over their state. What is modelled is what the code does with
  them: the order of the calls, the handles it keeps, and its errors.
\<close>

subsection \<open>NVENC\<close>

datatype NvEncoderError = NvLoad string | NvStatus u32 | NvOther string

definition NV_ENC_SUCCESS :: "32 word" where "NV_ENC_SUCCESS = 0"
definition NV_ENC_PIC_FLAG_FORCEIDR :: u32 where "NV_ENC_PIC_FLAG_FORCEIDR = 2"
definition NV_ENC_BUFFER_FORMAT_ARGB :: u32 where "NV_ENC_BUFFER_FORMAT_ARGB = 0x01000000"

text \<open>\<open>major\<close> and \<open>minor\<close> are constants of the generated bindings.\<close>

definition nvencapi_struct_version :: "u32 \<Rightarrow> u32 \<Rightarrow> u32 \<Rightarrow> u32" where
  "nvencapi_struct_version major minor ver =
    (let api = major OR push_bit 24 minor in (api OR push_bit 16 ver) OR push_bit 28 7)"

text \<open>What a picture is encoded with.\<close>

record 'h nv_picture =
  np_size :: "u32 \<times> u32"
  np_input :: "'h option"
  np_output :: 'h
  np_frame_idx :: u32
  np_time :: u64
  np_flags :: u32

text \<open>Every call answers with a status, 0 for success; a locked bitstream shows its bytes, or a null pointer.\<close>

record ('d, 'h, 'g) nv_api =
  nv_open :: "'d \<Rightarrow> 'g \<Rightarrow> (u32 + 'h) \<times> 'g"
  nv_initialize :: "'h \<Rightarrow> u32 \<times> u32 \<Rightarrow> u32 \<Rightarrow> 'g \<Rightarrow> u32 \<times> 'g"
  nv_last_error :: "'h \<Rightarrow> 'g \<Rightarrow> string"
  nv_create_bitstream :: "'h \<Rightarrow> 'g \<Rightarrow> (u32 + 'h) \<times> 'g"
  nv_register :: "'h \<Rightarrow> 'd \<Rightarrow> u32 \<times> u32 \<Rightarrow> 'g \<Rightarrow> (u32 + 'h) \<times> 'g"
  nv_unregister :: "'h \<Rightarrow> 'h \<Rightarrow> 'g \<Rightarrow> u32 \<times> 'g"
  nv_encode :: "'h \<Rightarrow> 'h nv_picture \<Rightarrow> 'g \<Rightarrow> u32 \<times> 'g"
  nv_lock :: "'h \<Rightarrow> 'h \<Rightarrow> 'g \<Rightarrow> (u32 + bytes option) \<times> 'g"
  nv_unlock :: "'h \<Rightarrow> 'h \<Rightarrow> 'g \<Rightarrow> u32 \<times> 'g"
  nv_destroy_bitstream :: "'h \<Rightarrow> 'h \<Rightarrow> 'g \<Rightarrow> u32 \<times> 'g"
  nv_destroy :: "'h \<Rightarrow> 'g \<Rightarrow> u32 \<times> 'g"

record 'h H264Encoder =
  he_session :: 'h
  he_registered :: "'h option"
  he_bitstream :: 'h
  he_width :: u32
  he_height :: u32
  he_frame_index :: u64

text \<open>\<open>hex\<close> prints a status.\<close>

definition H264Encoder_new ::
  "(u32 \<Rightarrow> string) \<Rightarrow> ('d, 'h, 'g) nv_api \<Rightarrow> 'd \<Rightarrow> u32 \<Rightarrow> u32 \<Rightarrow> u32 \<Rightarrow> 'g \<Rightarrow> (NvEncoderError + 'h H264Encoder) \<times> 'g" where
  "H264Encoder_new hex A device wd ht fps g =
    (case nv_open A device g of
       (Inl e, g) \<Rightarrow> (Inl (NvStatus e), g)
     | (Inr s, g) \<Rightarrow>
         (case nv_initialize A s (wd, ht) fps g of
            (st, g) \<Rightarrow>
              if st \<noteq> 0 then
                (Inl (NvOther (''NvEncInitializeEncoder 0x'' @ hex st @ '': '' @ nv_last_error A s g)), snd (nv_destroy A s g))
              else
                (case nv_create_bitstream A s g of
                   (Inl e, g) \<Rightarrow> (Inl (NvStatus e), snd (nv_destroy A s g))
                 | (Inr b, g) \<Rightarrow> (Inr \<lparr>he_session = s, he_registered = None, he_bitstream = b, he_width = wd,
                     he_height = ht, he_frame_index = 0\<rparr>, g))))"

definition register_texture :: "('d, 'h, 'g) nv_api \<Rightarrow> 'd \<Rightarrow> 'h H264Encoder \<Rightarrow> 'g \<Rightarrow> (NvEncoderError + 'h) \<times> 'h H264Encoder \<times> 'g" where
  "register_texture A texture e g =
    (case he_registered e of
       Some h \<Rightarrow> (Inr h, e, g)
     | None \<Rightarrow>
         (case nv_register A (he_session e) texture (he_width e, he_height e) g of
            (Inl st, g) \<Rightarrow> (Inl (NvStatus st), e, g)
          | (Inr h, g) \<Rightarrow> (Inr h, e\<lparr>he_registered := Some h\<rparr>, g)))"

text \<open>The loop around the lock is left after its first pass.\<close>

definition drain_bitstream :: "('d, 'h, 'g) nv_api \<Rightarrow> 'h H264Encoder \<Rightarrow> 'g \<Rightarrow> (NvEncoderError + bytes) \<times> 'g" where
  "drain_bitstream A e g =
    (case nv_lock A (he_session e) (he_bitstream e) g of
       (Inl st, g) \<Rightarrow> (Inl (NvStatus st), g)
     | (Inr out, g) \<Rightarrow>
         (case nv_unlock A (he_session e) (he_bitstream e) g of
            (st, g) \<Rightarrow> if st \<noteq> 0 then (Inl (NvStatus st), g)
                     else (Inr (case out of None \<Rightarrow> [] | Some b \<Rightarrow> b), g)))"

definition picture_of :: "bool \<Rightarrow> 'h H264Encoder \<Rightarrow> 'h nv_picture" where
  "picture_of force_idr e =
    \<lparr>np_size = (he_width e, he_height e), np_input = he_registered e, np_output = he_bitstream e,
     np_frame_idx = ucast (he_frame_index e), np_time = he_frame_index e,
     np_flags = (if force_idr then NV_ENC_PIC_FLAG_FORCEIDR else 0)\<rparr>"

definition encode_frame :: "('d, 'h, 'g) nv_api \<Rightarrow> bool \<Rightarrow> 'h H264Encoder \<Rightarrow> 'g \<Rightarrow> (NvEncoderError + bytes) \<times> 'h H264Encoder \<times> 'g" where
  "encode_frame A force_idr e g =
    (let pic = picture_of force_idr e; e = e\<lparr>he_frame_index := he_frame_index e + 1\<rparr> in
     case nv_encode A (he_session e) pic g of
       (st, g) \<Rightarrow>
         if st \<noteq> 0 then (Inl (NvStatus st), e, g)
         else (case drain_bitstream A e g of (r, g) \<Rightarrow> (r, e, g)))"

definition encode_external_texture ::
  "('d, 'h, 'g) nv_api \<Rightarrow> 'd \<Rightarrow> bool \<Rightarrow> 'h H264Encoder \<Rightarrow> 'g \<Rightarrow> (NvEncoderError + bytes) \<times> 'h H264Encoder \<times> 'g" where
  "encode_external_texture A texture force_idr e g =
    (case nv_register A (he_session e) texture (he_width e, he_height e) g of
       (Inl st, g) \<Rightarrow> (Inl (NvStatus st), e\<lparr>he_registered := None\<rparr>, g)
     | (Inr h, g) \<Rightarrow>
         (case encode_frame A force_idr (e\<lparr>he_registered := Some h\<rparr>) g of
            (r, e, g) \<Rightarrow>
              (case nv_unregister A (he_session e) h g of
                 (st, g) \<Rightarrow> (if st \<noteq> 0 then Inl (NvStatus st) else r, e\<lparr>he_registered := None\<rparr>, g))))"

definition request_keyframe :: "'h H264Encoder \<Rightarrow> 'h H264Encoder" where
  "request_keyframe e = e\<lparr>he_frame_index := he_frame_index e + 1\<rparr>"

definition drop_encoder :: "('d, 'h, 'g) nv_api \<Rightarrow> 'h H264Encoder \<Rightarrow> 'g \<Rightarrow> 'g" where
  "drop_encoder A e g =
    (let g = (case he_registered e of None \<Rightarrow> g | Some h \<Rightarrow> snd (nv_unregister A (he_session e) h g));
         g = snd (nv_destroy_bitstream A (he_session e) (he_bitstream e) g)
     in snd (nv_destroy A (he_session e) g))"

subsection \<open>Media Foundation\<close>

datatype MfError = MfWindows string | MfNoOutput | MfMediaType string

definition OUTPUT_BUFFER_BYTES :: u32 where "OUTPUT_BUFFER_BYTES = 8 * 1024 * 1024"

text \<open>
  \<open>mf_input\<close>: building a sample of the bytes with a time and giving it to the transform; \<open>mf_output\<close>: the answer of the
  transform to an empty output sample, an error code with its text, or the sample's bytes (if there is one) and the
  status. The errors of the other calls are part of the two.
\<close>

record 'g mf_api =
  mf_max_len :: "nat \<Rightarrow> nat"
  mf_input :: "bytes \<Rightarrow> int \<Rightarrow> 'g \<Rightarrow> (string + unit) \<times> 'g"
  mf_output :: "'g \<Rightarrow> (u32 \<times> string + bytes option \<times> u32) \<times> 'g"

record MediaFoundationEncoder =
  mf_width :: u32
  mf_height :: u32
  mf_frame_index :: int

definition pack_u32 :: "u32 \<Rightarrow> u32 \<Rightarrow> u64" where
  "pack_u32 hi lo = push_bit 32 (ucast hi) OR ucast lo"

definition more_input_code :: "u32 \<Rightarrow> bool" where
  "more_input_code code \<longleftrightarrow> code = 0x800703E9 \<or> code = 0x80070492 \<or> code = 0x80070057"

primrec drain_output :: "'g mf_api \<Rightarrow> nat \<Rightarrow> bytes \<Rightarrow> 'g \<Rightarrow> (MfError + bytes) \<times> 'g" where
  "drain_output M 0 out g = (Inr out, g)"
| "drain_output M (Suc n) out g =
    (case mf_output M g of
       (Inl (code, msg), g) \<Rightarrow> if more_input_code code then (Inr out, g) else (Inl (MfWindows msg), g)
     | (Inr (smp, st), g) \<Rightarrow>
         let out = out @ (case smp of None \<Rightarrow> [] | Some b \<Rightarrow> b)
         in if st = 0 then (Inr out, g) else drain_output M n out g)"

text \<open>\<open>dec\<close> prints the sizes.\<close>

definition encode_nv12 ::
  "'g mf_api \<Rightarrow> bytes \<Rightarrow> MediaFoundationEncoder \<Rightarrow> 'g \<Rightarrow> (MfError + bytes) \<times> MediaFoundationEncoder \<times> 'g" where
  "encode_nv12 M nv12 e g =
    (let frame_bytes = unat (mf_width e) * unat (mf_height e) * 3 div 2 in
     if length nv12 < frame_bytes then
       (Inl (MfMediaType (''nv12 buffer '' @ dec (length nv12) @ '' bytes, need '' @ dec frame_bytes)), e, g)
     else
       (case mf_input M (take (min frame_bytes (mf_max_len M frame_bytes)) nv12) (mf_frame_index e) g of
          (Inl m, g) \<Rightarrow> (Inl (MfWindows m), e, g)
        | (Inr _, g) \<Rightarrow>
            let e = e\<lparr>mf_frame_index := mf_frame_index e + 1\<rparr>
            in case drain_output M 16 [] g of (r, g) \<Rightarrow> (r, e, g)))"

subsection \<open>x264\<close>

record 'x X264Encoder =
  xe_enc :: 'x
  xe_pts :: int

text \<open>\<open>encode pts size planes\<close> of the crate; a plane is its stride and its bytes.\<close>

definition x264_encode_bgra ::
  "rounding \<Rightarrow> (int \<Rightarrow> nat \<times> nat \<Rightarrow> (nat \<times> bytes) list \<Rightarrow> 'x \<Rightarrow> (string + bytes) \<times> 'x) \<Rightarrow> bytes \<Rightarrow> nat \<Rightarrow> nat \<Rightarrow> nat \<Rightarrow>
     'x X264Encoder \<Rightarrow> ((string + bytes) \<times> 'x X264Encoder) res" where
  "x264_encode_bgra rnd encode bgra width height stride e =
    (let expected = width * height * 4 in
     if length bgra < expected then
       Inr (Inl (''bgra buffer '' @ dec (length bgra) @ '' bytes, need '' @ dec expected), e)
     else
       rbind (bgra_to_i420 rnd bgra width height stride) (\<lambda>(y, u, v).
         Inr (case encode (xe_pts e) (width, height) [(width, y), (width div 2, u), (width div 2, v)] (xe_enc e) of
                (Inl m, x) \<Rightarrow> (Inl (''encode: '' @ m), e\<lparr>xe_enc := x\<rparr>)
              | (Inr b, x) \<Rightarrow> (Inr b, e\<lparr>xe_enc := x, xe_pts := xe_pts e + 1\<rparr>))))"

subsection \<open>What holds\<close>

text \<open>
  The registered textures of a device: a registration gives a new handle, a successful release takes it away, and the
  other calls leave the registrations alone.
\<close>

definition nv_ok :: "('g \<Rightarrow> 'h set) \<Rightarrow> ('d, 'h, 'g) nv_api \<Rightarrow> bool" where
  "nv_ok regs A \<longleftrightarrow>
     (\<forall>s d wh g g' e. nv_register A s d wh g = (Inl e, g') \<longrightarrow> regs g' = regs g) \<and>
     (\<forall>s d wh g g' h. nv_register A s d wh g = (Inr h, g') \<longrightarrow> h \<notin> regs g \<and> regs g' = insert h (regs g)) \<and>
     (\<forall>s h g. fst (nv_unregister A s h g) = 0 \<and> regs (snd (nv_unregister A s h g)) = regs g - {h}) \<and>
     (\<forall>s p g. regs (snd (nv_encode A s p g)) = regs g) \<and>
     (\<forall>s b g. regs (snd (nv_lock A s b g)) = regs g) \<and>
     (\<forall>s b g. regs (snd (nv_unlock A s b g)) = regs g)"

lemma nv_okD:
  assumes "nv_ok regs A"
  shows "nv_register A s d wh g = (Inl e, g') \<Longrightarrow> regs g' = regs g"
    "nv_register A s d wh g = (Inr h, g') \<Longrightarrow> h \<notin> regs g \<and> regs g' = insert h (regs g)"
    "nv_unregister A s h g = (st, g') \<Longrightarrow> st = 0 \<and> regs g' = regs g - {h}"
    "nv_encode A s p g = (st, g') \<Longrightarrow> regs g' = regs g"
proof -
  have u: "fst (nv_unregister A s h g) = 0 \<and> regs (snd (nv_unregister A s h g)) = regs g - {h}"
    and e: "regs (snd (nv_encode A s p g)) = regs g" for s h g p
    using assms by (simp_all add: nv_ok_def)
  note laws = assms [unfolded nv_ok_def]
  show "nv_register A s d wh g = (Inl e, g') \<Longrightarrow> regs g' = regs g"
    by (rule laws [THEN conjunct1, rule_format])
  show "nv_register A s d wh g = (Inr h, g') \<Longrightarrow> h \<notin> regs g \<and> regs g' = insert h (regs g)"
    by (rule laws [THEN conjunct2, THEN conjunct1, rule_format])
  show "nv_unregister A s h g = (st, g') \<Longrightarrow> st = 0 \<and> regs g' = regs g - {h}" using u [of s h g] by simp
  show "nv_encode A s p g = (st, g') \<Longrightarrow> regs g' = regs g" using e [of s p g] by simp
qed

lemma drain_bitstream_regs: "nv_ok regs A \<Longrightarrow> drain_bitstream A e g = (r, g') \<Longrightarrow> regs g' = regs g"
  unfolding nv_ok_def drain_bitstream_def
  by (auto split: prod.splits sum.splits if_splits) (metis snd_conv)+

lemma encode_frame_regs:
  assumes "nv_ok regs A" "encode_frame A idr e g = (r, e', g')"
  shows "regs g' = regs g \<and> he_session e' = he_session e"
proof -
  obtain st g1 where en: "nv_encode A (he_session e) (picture_of idr e) g = (st, g1)" by force
  have g1: "regs g1 = regs g" by (rule nv_okD(4) [OF assms(1) en])
  obtain r2 g2 where d: "drain_bitstream A (e\<lparr>he_frame_index := he_frame_index e + 1\<rparr>) g1 = (r2, g2)" by force
  from drain_bitstream_regs [OF assms(1) d] g1 en d assms(2) show ?thesis
    by (auto simp: encode_frame_def Let_def split: if_splits)
qed

text \<open>Whether a frame is encoded or fails at any call, its texture is registered only during the call.\<close>

theorem textures_released:
  assumes "nv_ok regs A" "encode_external_texture A texture idr e g = (r, e', g')"
  shows "regs g' = regs g \<and> he_registered e' = None"
proof (cases "nv_register A (he_session e) texture (he_width e, he_height e) g")
  case (Pair a g1)
  show ?thesis
  proof (cases a)
    case (Inl st)
    then have "regs g1 = regs g" using nv_okD(1) [OF assms(1)] Pair by simp
    with Inl Pair assms(2) show ?thesis by (auto simp: encode_external_texture_def)
  next
    case (Inr h)
    obtain r1 e1 g2 where f: "encode_frame A idr (e\<lparr>he_registered := Some h\<rparr>) g1 = (r1, e1, g2)" by (metis prod_cases3)
    have "regs g1 = insert h (regs g)" "h \<notin> regs g" using nv_okD(2) [OF assms(1)] Pair Inr by (metis, metis)
    moreover have "regs g2 = regs g1" using encode_frame_regs [OF assms(1) f] by simp
    moreover obtain st g3 where u: "nv_unregister A (he_session e1) h g2 = (st, g3)" by force
    moreover have "st = 0 \<and> regs g3 = regs g2 - {h}" by (rule nv_okD(3) [OF assms(1) u])
    ultimately show ?thesis using assms(2) Pair Inr f by (auto simp: encode_external_texture_def)
  qed
qed

text \<open>
  The transform's answer that it needs more input, \<open>MF_E_TRANSFORM_NEED_MORE_INPUT\<close>, is not among the codes that end
  the loop, so it ends the encoding with an error.
\<close>

definition NEED_MORE_INPUT :: u32 where "NEED_MORE_INPUT = 0xC00D6D72"

theorem more_input_is_fatal:
  assumes "unat (mf_width e) * unat (mf_height e) * 3 div 2 \<le> length nv12"
    and "mf_input M (take (min (unat (mf_width e) * unat (mf_height e) * 3 div 2)
      (mf_max_len M (unat (mf_width e) * unat (mf_height e) * 3 div 2))) nv12) (mf_frame_index e) g = (Inr (), g1)"
    and "mf_output M g1 = (Inl (NEED_MORE_INPUT, msg), g2)"
  shows "encode_nv12 M nv12 e g = (Inl (MfWindows msg), e\<lparr>mf_frame_index := mf_frame_index e + 1\<rparr>, g2)"
proof -
  have "\<not> more_input_code NEED_MORE_INPUT" by (simp add: more_input_code_def NEED_MORE_INPUT_def)
  then have "drain_output M (Suc n) [] g1 = (Inl (MfWindows msg), g2)" for n using assms(3) by simp
  from this [of 15] have "drain_output M 16 [] g1 = (Inl (MfWindows msg), g2)" by (simp only: Suc_numeral add_num_simps arith_simps)
  with assms(1,2) show ?thesis by (simp add: encode_nv12_def Let_def)
qed

text \<open>The output of a call is what the transform gave in at most 16 answers, in order.\<close>

lemma drain_output_prefix:
  "drain_output M n out g = (Inr b, g') \<Longrightarrow> \<exists>more. b = out @ more"
  by (induction n arbitrary: out g) (fastforce split: prod.splits sum.splits if_splits simp: Let_def)+

text \<open>
  The planes given to x264: on a desktop of odd width the luma plane has rows of \<open>width - 1\<close> bytes but is described by a
  stride of \<open>width\<close>; for even sizes each plane is as long as its stride and height say.
\<close>

theorem x264_planes:
  assumes "rounding_ok rnd" "4 * width * height \<le> length bgra"
  shows "\<exists>y u v. x264_encode_bgra rnd encode bgra width height (width * 4) e =
      Inr (case encode (xe_pts e) (width, height) [(width, y), (width div 2, u), (width div 2, v)] (xe_enc e) of
             (Inl m, x) \<Rightarrow> (Inl (''encode: '' @ m), e\<lparr>xe_enc := x\<rparr>)
           | (Inr b, x) \<Rightarrow> (Inr b, e\<lparr>xe_enc := x, xe_pts := xe_pts e + 1\<rparr>)) \<and>
    length y = (2 * (height div 2)) * (2 * (width div 2)) \<and> length u = (height div 2) * (width div 2) \<and> length v = length u"
proof -
  obtain y u v where p: "bgra_to_i420 rnd bgra width height (width * 4) = Inr (y, u, v)"
    "length y = (2 * (height div 2)) * (2 * (width div 2))" "length u = (height div 2) * (width div 2)"
    "length v = (height div 2) * (width div 2)"
    using bgra_to_i420_eq [OF assms(1), of "width * 4" height bgra width] assms(2) by (simp add: mult.commute)
  moreover have "\<not> length bgra < width * height * 4" using assms(2) by simp
  ultimately show ?thesis by (intro exI [of _ y] exI [of _ u] exI [of _ v]) (simp add: x264_encode_bgra_def)
qed

end
