(* ===== verification/Spec2Isabelle.thy ===== *)
theory Spec2Isabelle
  imports Receiver_Info Mirror_Requests Mirror_End_To_End Fairplay Mirror_Pin Dxgi Audio_Loop Session_Start Encoders
begin

text \<open>
  A model of a screen mirroring program in Rust: it captures the desktop and the sound of a Windows machine, encodes
  them and sends them to an AirPlay receiver (crates lumen-capture, lumen-audio, lumen-encode, and lumen-airplay for
  the protocol). The repository also has a receiver for tests (lumen-airplay/src/receiver). Both sides are modelled,
  definition by definition, and put together: what one side writes, the other reads, down to the bytes.

  \<^bold>\<open>The parts and how they interact.\<close> The program (examples/mirror_desktop.rs) connects to a receiver and asks for
  its capabilities, pairs with a PIN or with saved credentials, runs FairPlay where the receiver asks for it, sets up a
  session with SETUP and RECORD requests, and then has a loop that captures, encodes and sends pictures, and a thread
  that does so with sound. The control connection starts as plain text and is encrypted once pairing has agreed on keys;
  pictures go over a data connection of their own, sound over RTP datagrams, and the receiver sends commands back over
  an event channel.

  \<^bold>\<open>Which theory models which source.\<close> (Paths are under lumen-airplay/src where no crate is named.)

  \<^item> \<open>Prelude\<close>: bytes, integers, results and errors (error.rs), loops over results, planes of rows; \<open>Rust_Str\<close>: the
    string functions of the standard library that are used; \<open>Crypto\<close>: the primitives of other crates and their laws;
    \<open>Rounding\<close>: floating point operations over a rounding function.
  \<^item> Bytes on the wire: \<open>Tlv8\<close> (tlv8.rs), \<open>Http_Text\<close> and \<open>Http_Client\<close> (transport.rs), \<open>Digest_Auth\<close> (digest.rs),
    \<open>Hap_Framing\<close> (client.rs, receiver/pairing.rs, event_channel.rs), \<open>Plist\<close> and \<open>Plist_Types\<close> (receiver/mod.rs,
    plist_types.rs).
  \<^item> Pairing: \<open>Srp\<close>, \<open>Client_Pairing\<close> (pairing.rs), \<open>Receiver_Pairing\<close> (receiver/pairing.rs), \<open>Pairing\<close> (both sides
    together), \<open>Credentials\<close> (credentials.rs), \<open>Session_Start\<close> (lumen-capture/examples/mirror_desktop.rs, its start).
  \<^item> FairPlay: \<open>Fp_Tables\<close> (fp_tables_generated.rs), \<open>Fairplay_Md5\<close>, \<open>Fairplay_Message\<close>, \<open>Fairplay_Sap\<close>, \<open>Fpsap\<close>
    (the files of these names), \<open>Receiver_Fairplay\<close> (receiver/fairplay.rs), \<open>Fairplay\<close> (fairplay.rs).
  \<^item> The control connection: \<open>Info\<close> (info.rs), \<open>Client\<close> (client.rs), \<open>Rtsp_Server\<close> and \<open>Receiver_Server\<close>
    (receiver/mod.rs, receiver/media.rs), \<open>Control_Link\<close>, \<open>Receiver_Safety\<close>, \<open>Receiver_Control\<close>, \<open>Wire\<close> and
    \<open>Receiver_Info\<close> (both sides together), \<open>Event_Channel\<close> (event_channel.rs).
  \<^item> The session (mirror.rs): \<open>Mirror_Clock\<close> (with latency.rs and uuid.rs), \<open>Udp_Ports\<close>, \<open>Mirror_Cipher\<close>
    (mirror_cipher.rs), \<open>Mirror_Session\<close>, \<open>Mirror_Setup\<close>, \<open>Mirror_Requests\<close>, \<open>Mirror_Receiver\<close> and
    \<open>Mirror_End_To_End\<close> (the set-up against a receiver, and against the one of the repository).
  \<^item> Pictures: \<open>H264_Parser\<close>, \<open>H264_Sps\<close> (h264.rs), \<open>Streamer\<close>, \<open>Stream_Loop\<close> (mirror_desktop.rs), \<open>Mirror_Pin\<close>
    (examples/mirror_pin.rs), \<open>Cursor\<close>, \<open>Dxgi\<close> (lumen-capture/src), \<open>Yuv\<close>, \<open>Openh264\<close>, \<open>Encoders\<close>
    (lumen-encode/src).
  \<^item> Sound: \<open>Loopback\<close> (lumen-audio/src/wasapi.rs), \<open>Audio\<close> (audio.rs), \<open>Audio_Loop\<close> (run_audio of
    mirror_desktop.rs).

  \<^bold>\<open>How state and operations correspond.\<close> A struct is a record with the same fields (prefixed where a name is
  taken), an enum a datatype. A method is a function from its arguments and the state to the result and the state after
  it; \<open>Result\<close> is \<open>error + 'a\<close>, where \<open>Err\<close> carries the error of error.rs and \<open>Panic\<close> stands for a panic
  (an index or slice out of range, a failed conversion). The \<open>?\<close> operator is \<open>rbind\<close>. A connection is the bytes
  written so far and the bytes still to arrive; a transport is a function from a request and the state of the world to
  a response; what a thread does is a function from its inputs, in order, to its outputs. Words have the width of the
  source, and arithmetic wraps as in a release build. Random bytes, instants, the answers of the operating system and
  of devices are arguments.

  \<^bold>\<open>What is an argument, and what is assumed of it.\<close> Code of other crates and of the system is never given a
  definition of its own: it is a record of functions, or a function, that the definitions take. The laws used are named:
  \<open>aead_ok\<close>, \<open>sign_ok\<close>, \<open>dh_ok\<close>, \<open>hash_ok\<close> (lengths and round trips of the primitives), \<open>fairplay_crypto_ok\<close>,
  \<open>hdr_order_ok\<close> (a hash map is printed in some order), \<open>plist_ok\<close>, \<open>plist_arrives\<close>, \<open>plist_de_ok\<close>, \<open>codec_ok\<close>,
  \<open>files_ok\<close>, \<open>binds_free\<close>, \<open>rounding_ok\<close> and \<open>exact_on\<close> (relative error of floating point), \<open>encoder_ok\<close> (whole
  pictures come out), \<open>rtsp_answers\<close>, \<open>gpu_ok\<close>, \<open>gpu_serves\<close>, \<open>held_ok\<close>, \<open>nv_ok\<close>. Each property that uses one has a
  witness with a concrete function for it.

  \<^bold>\<open>What the groups of lemmas show.\<close>

  \<^item> Formats: encoders and decoders are inverse (TLV8, HAP frames over every cut of the stream, RTSP text, data
    connection, digest headers, credentials), parsers of the two crates agree (NAL splitters), layouts are those stated
    (ALAC, headers, I420 and NV12, parameter sets).
  \<^item> Pairing and FairPlay: sender and receiver compute the same keys; a sender with the PIN whose SRP
    public value has its full length, or with saved credentials, gets an encrypted channel (with a shorter value the two
    proofs of M4 differ and pairing fails: both outcomes are stated); the receiver is authenticated by a full chain of messages only, whatever
    arrives. Two properties state where this does not protect: a public value of 0, and a peer without the PIN.
  \<^item> Composition: one request over the bytes refines one \<open>dispatch\<close> of the receiver; the capabilities, the session
    set-up, the FairPlay set-up and the event commands complete over the connection.
  \<^item> Media: the main loop and the file sender deliver the pictures encoded, in order; the sound captured is sent and
    opened frame by frame; time stamps increase up to the wrap at \<open>2 ^ 64\<close>, the rate is bounded, the clock follows the receiver.
  \<^item> Capture and encoding: a frame shows the desktop with the pointer, in the shape last delivered; drawing, cropping and colour conversion stay
    within their buffers; frames are released; the capture hands on the samples delivered.

  The interfaces are locales: \<open>tlv_codec\<close>, \<open>frame_link\<close> and \<open>buffered_reader\<close> (interpreted by the three copies of the
  HAP framing and its two readers), and \<open>session_server\<close> (what a session set-up needs of a receiver, interpreted by
  the receiver of the repository over the wire).

  \<^bold>\<open>Bounds, fuel and termination.\<close> Recursion over input is shown to end by a measure. Three loops of the source may
  run for ever and are partial functions: the search of a port range (that it ends where no port sum wraps is a property), the fetch of a
  pointer shape, and the resampler. Loops that the source bounds keep its bounds: 16 passes of \<open>drain_output\<close>, 600 reads
  of the PIN file, the header and body limits of the parsers. The event loop, the request loop of the receiver, the
  loops of capture, sound and pictures are given the list of their inputs, so any number of passes is covered.

  \<^bold>\<open>Not modelled.\<close> Calls into Windows, the graphics device and the encoder libraries beyond the order in which they
  are made and what is done with their answers (the initialisation of capture devices, attribute set-up of encoders);
  threads as such, sockets, time-outs (a read that times out is the end of the stream), the parsing of socket
  addresses, mDNS advertising and the accepting of connections; write failures of the control and data connections;
  log output and the summaries made for it; the bindings to C libraries and their build script, lib.rs files, batch
  files and tools; the measuring and probing examples (capture_encode, encode_bench, encode_stages, nvenc_spike,
  init_probe, mdns_probe, pin_hold and the like), which only call what is modelled and print; tests.
\<close>

end
